(* ===== verification/Prelude.thy ===== *)
theory Prelude
  imports Main "HOL-Library.Word"
begin

unbundle bit_operations_syntax

text \<open>
  Shared vocabulary of the development: the fixed-width integer types the C code uses, byte
  strings, the little-endian codecs behind \<^verbatim>\<open>cpu_to_le16\<close>, \<^verbatim>\<open>cpu_to_le32\<close> and
  \<^verbatim>\<open>cpu_to_le64\<close> of \<^verbatim>\<open>include/cld-private.h\<close>, flag tests, the scripted outcome of
  \<^verbatim>\<open>malloc\<close>, and the generic list lemmas the component theories share.
\<close>

type_synonym u8 = "8 word"
type_synonym u16 = "16 word"
type_synonym u32 = "32 word"
type_synonym u64 = "64 word"
type_synonym bytes = "8 word list"

named_theorems cfg_simps \<open>the numeric constants of the C headers, for unfolding\<close>
named_theorems frame_simps \<open>which parts of a state an operation leaves alone\<close>
named_theorems inv_intros \<open>operations that preserve a component invariant\<close>

section \<open>Errno values returned by the modelled code\<close>

definition EPERM :: int where [cfg_simps]: "EPERM = 1"
definition EIO :: int where [cfg_simps]: "EIO = 5"
definition EAGAIN :: int where [cfg_simps]: "EAGAIN = 11"
definition ENOMEM :: int where [cfg_simps]: "ENOMEM = 12"
definition EINVAL :: int where [cfg_simps]: "EINVAL = 22"
definition ENOSPC :: int where [cfg_simps]: "ENOSPC = 28"
definition EPIPE :: int where [cfg_simps]: "EPIPE = 32"
definition EDOM :: int where [cfg_simps]: "EDOM = 33"
definition EBADMSG :: int where [cfg_simps]: "EBADMSG = 74"

section \<open>C expressions\<close>

text \<open>The truth value of \<^verbatim>\<open>x & m\<close> in a condition.\<close>

definition has_flag :: "'a::len word \<Rightarrow> 'a word \<Rightarrow> bool" where
  "has_flag x m \<longleftrightarrow> x AND m \<noteq> 0"

text \<open>
  \<^verbatim>\<open>malloc\<close>, \<^verbatim>\<open>calloc\<close> and \<^verbatim>\<open>realloc\<close> succeed or fail; the outcomes of the calls a
  function makes are a script, consumed in order. An exhausted script means success.
\<close>

type_synonym mem = "bool list"

fun alloc :: "mem \<Rightarrow> bool \<times> mem" where
  "alloc [] = (True, [])"
| "alloc (b # bs) = (b, bs)"

text \<open>The bytes of a string literal (without its terminating NUL).\<close>

definition ascii :: "string \<Rightarrow> bytes" where
  "ascii s = map (\<lambda>c. word_of_nat (of_char c)) s"

lemma length_ascii [simp]: "length (ascii s) = length s"
  by (simp add: ascii_def)

text \<open>
  \<^verbatim>\<open>strtol(s, NULL, 10)\<close>: leading white space, an optional sign, decimal digits up to the first
  other byte, clamped to the range of a 64-bit \<^verbatim>\<open>long\<close>.
\<close>

definition c_isspace :: "u8 \<Rightarrow> bool" where
  "c_isspace b \<longleftrightarrow> (9 \<le> b \<and> b \<le> 13) \<or> b = 32"

definition c_isdigit :: "u8 \<Rightarrow> bool" where
  "c_isdigit b \<longleftrightarrow> 48 \<le> b \<and> b \<le> 57"

fun dec_value :: "nat \<Rightarrow> bytes \<Rightarrow> nat" where
  "dec_value acc [] = acc"
| "dec_value acc (b # bs) = (if c_isdigit b then dec_value (acc * 10 + unat (b - 48)) bs else acc)"

definition strtol10 :: "bytes \<Rightarrow> int" where
  "strtol10 s =
     (let s = dropWhile c_isspace s;
          neg = (s \<noteq> [] \<and> hd s = 45);
          s = (if s \<noteq> [] \<and> (hd s = 45 \<or> hd s = 43) then tl s else s);
          v = int (dec_value 0 s)
      in if neg then max (- v) (- (2 ^ 63)) else min v (2 ^ 63 - 1))"

text \<open>
  C strings are byte lists without the terminating NUL. \<open>memcmp\<close> compares blocks of equal
  length and \<open>strcmp\<close> strings, both by unsigned bytes; the sign of the result is what the code
  uses.
\<close>

fun memcmp :: "bytes \<Rightarrow> bytes \<Rightarrow> int" where
  "memcmp (a # as) (b # bs) =
     (if a = b then memcmp as bs else int (unat a) - int (unat b))"
| "memcmp _ _ = 0"

fun strcmp :: "bytes \<Rightarrow> bytes \<Rightarrow> int" where
  "strcmp [] [] = 0"
| "strcmp [] (b # bs) = - 1"
| "strcmp (a # as) [] = 1"
| "strcmp (a # as) (b # bs) =
     (if a = b then strcmp as bs else int (unat a) - int (unat b))"

lemma memcmp_eq_0 [simp]: "length a = length b \<Longrightarrow> memcmp a b = 0 \<longleftrightarrow> a = b"
  by (induction a b rule: memcmp.induct) (auto dest: unsigned_word_eqI)

lemma memcmp_self [simp]: "memcmp a a = 0"
  by (induction a) auto

lemma strcmp_eq_0 [simp]: "strcmp a b = 0 \<longleftrightarrow> a = b"
  by (induction a b rule: strcmp.induct) (auto dest: unsigned_word_eqI)

section \<open>Little-endian encodings\<close>

text \<open>\<open>le_bytes n w\<close>: the \<open>n\<close> low-order bytes of \<open>w\<close>, least significant first.\<close>

fun le_bytes :: "nat \<Rightarrow> 'a::len word \<Rightarrow> bytes" where
  "le_bytes 0 w = []"
| "le_bytes (Suc n) w = ucast w # le_bytes n (drop_bit 8 w)"

fun of_le_bytes :: "bytes \<Rightarrow> 'a::len word" where
  "of_le_bytes [] = 0"
| "of_le_bytes (b # bs) = ucast b OR push_bit 8 (of_le_bytes bs)"

lemma length_le_bytes [simp]: "length (le_bytes n w) = n"
  by (induction n arbitrary: w) auto

lemma of_le_bytes_le_bytes: "of_le_bytes (le_bytes n w) = take_bit (8 * n) w"
proof (induction n arbitrary: w)
  case 0
  then show ?case by simp
next
  case (Suc n)
  show ?case
  proof (rule bit_word_eqI)
    fix k assume "k < LENGTH('a)"
    then show "bit (of_le_bytes (le_bytes (Suc n) w) :: 'a word) k \<longleftrightarrow> bit (take_bit (8 * Suc n) w) k"
      using Suc by (auto simp: bit_simps not_less algebra_simps)
  qed
qed

lemma of_le_bytes_u16 [simp]: "of_le_bytes (le_bytes 2 (w :: u16)) = w"
  using of_le_bytes_le_bytes [of 2 w] by (simp add: take_bit_word_eq_self)

lemma of_le_bytes_u32 [simp]: "of_le_bytes (le_bytes 4 (w :: u32)) = w"
  using of_le_bytes_le_bytes [of 4 w] by (simp add: take_bit_word_eq_self)

lemma of_le_bytes_u64 [simp]: "of_le_bytes (le_bytes 8 (w :: u64)) = w"
  using of_le_bytes_le_bytes [of 8 w] by (simp add: take_bit_word_eq_self)

section \<open>Widths\<close>

lemma unat_ucast_16_32 [simp]: "unat (ucast (a :: u16) :: u32) = unat a"
proof -
  have "unat a < 2 ^ 16" using unsigned_less [of a] by simp
  then show ?thesis by (simp add: unsigned_ucast_eq take_bit_nat_eq_self)
qed

lemma unat_inject: "unat (a :: 'a::len word) = unat b \<Longrightarrow> a = b"
  by (simp add: unsigned_word_eqI)

section \<open>Alignment: \<^verbatim>\<open>CLD_ALIGN8\<close>\<close>

text \<open>\<^verbatim>\<open>CLD_ALIGN8(n)\<close> of \<^verbatim>\<open>include/cld_common.h\<close>: the padding that rounds \<open>n\<close> up to 8.\<close>

definition CLD_ALIGN8 :: "nat \<Rightarrow> nat" where
  "CLD_ALIGN8 n = (8 - n mod 8) mod 8"

lemma CLD_ALIGN8_dvd: "8 dvd n + CLD_ALIGN8 n"
proof -
  obtain q r where n: "n = 8 * q + r" and r: "r < 8"
    by (metis mod_less_divisor mult_div_mod_eq zero_less_numeral)
  show ?thesis
  proof (cases "r = 0")
    case True
    with n show ?thesis by (simp add: CLD_ALIGN8_def)
  next
    case False
    with n r have "n + CLD_ALIGN8 n = 8 * (q + 1)" by (simp add: CLD_ALIGN8_def)
    then show ?thesis by (metis dvd_triv_left)
  qed
qed

lemma CLD_ALIGN8_less: "CLD_ALIGN8 n < 8"
  by (simp add: CLD_ALIGN8_def)

section \<open>Lists\<close>

lemma take_front: "take (length a) (a @ b) = a" "drop (length a) (a @ b) = b"
  by simp_all

lemma sum_list_update_nat:
  "i < length xs \<Longrightarrow> sum_list (map f (xs[i := y])) + f (xs ! i) = sum_list (map f xs) + (f y :: nat)"
  by (induction xs arbitrary: i) (auto split: nat.splits)

lemma in_concat_nth: "x \<in> set (concat xss) \<longleftrightarrow> (\<exists>i < length xss. x \<in> set (xss ! i))"
  by (simp add: set_conv_nth [of xss]) blast

lemma nth_list_update_if: "j < length xs \<Longrightarrow> xs[i := x] ! j = (if i = j then x else xs ! j)"
  by simp

section \<open>Computations with state and errors\<close>

text \<open>
  C functions that work on the server's state and may take an error exit: \<open>'s \<Rightarrow> ('e + 'a) \<times> 's\<close>.
  \<open>ebind\<close> is sequencing with the early return on error, \<open>on_err\<close> translates the error code,
  \<open>attempt\<close> turns the outcome into a value to branch on.
\<close>

type_synonym ('s, 'e, 'a) esm = "'s \<Rightarrow> ('e + 'a) \<times> 's"

named_theorems keeps_intros \<open>operations that leave a projection of the state alone\<close>

definition ret :: "'a \<Rightarrow> ('s, 'e, 'a) esm" where
  "ret x s = (Inr x, s)"

definition throw :: "'e \<Rightarrow> ('s, 'e, 'a) esm" where
  "throw e s = (Inl e, s)"

definition ebind :: "('s, 'e, 'a) esm \<Rightarrow> ('a \<Rightarrow> ('s, 'e, 'b) esm) \<Rightarrow> ('s, 'e, 'b) esm" where
  "ebind m f s = (case m s of (Inl e, s) \<Rightarrow> (Inl e, s) | (Inr x, s) \<Rightarrow> f x s)"

definition on_err :: "('e \<Rightarrow> 'f) \<Rightarrow> ('s, 'e, 'a) esm \<Rightarrow> ('s, 'f, 'a) esm" where
  "on_err h m s = (case m s of (Inl e, s) \<Rightarrow> (Inl (h e), s) | (Inr x, s) \<Rightarrow> (Inr x, s))"

definition attempt :: "('s, 'e, 'a) esm \<Rightarrow> ('s, 'f, 'e + 'a) esm" where
  "attempt m s = (case m s of (r, s) \<Rightarrow> (Inr r, s))"

definition gets :: "('s \<Rightarrow> 'a) \<Rightarrow> ('s, 'e, 'a) esm" where
  "gets f s = (Inr (f s), s)"

definition modify :: "('s \<Rightarrow> 's) \<Rightarrow> ('s, 'e, unit) esm" where
  "modify f s = (Inr (), f s)"

text \<open>A call of a function that returns a plain value.\<close>

definition call :: "('s \<Rightarrow> 'a \<times> 's) \<Rightarrow> ('s, 'e, 'a) esm" where
  "call f s = (case f s of (x, s) \<Rightarrow> (Inr x, s))"

lemmas esm_simps = ret_def throw_def ebind_def on_err_def attempt_def gets_def modify_def call_def

lemma ebind_step: "m s = (Inr x, s1) \<Longrightarrow> ebind m f s = f x s1"
  by (simp add: ebind_def)

lemma ebind_stop: "m s = (Inl e, s1) \<Longrightarrow> ebind m f s = (Inl e, s1)"
  by (simp add: ebind_def)

lemma attempt_eq: "m s = (r, s1) \<Longrightarrow> attempt m s = (Inr r, s1)"
  by (simp add: attempt_def)

definition keeps :: "('s \<Rightarrow> 'p) \<Rightarrow> ('s \<Rightarrow> 'r \<times> 's) \<Rightarrow> bool" where
  "keeps f m \<longleftrightarrow> (\<forall>s r s'. m s = (r, s') \<longrightarrow> f s' = f s)"

lemma keepsD: "keeps f m \<Longrightarrow> m s = (r, s') \<Longrightarrow> f s' = f s"
  by (simp add: keeps_def)

lemma keeps_basic [keeps_intros]:
  "keeps f (ret x)" "keeps f (throw e)" "keeps f (gets g)"
  by (auto simp: keeps_def esm_simps)

lemma keeps_bind [keeps_intros]: "keeps f m \<Longrightarrow> (\<And>x. keeps f (g x)) \<Longrightarrow> keeps f (ebind m g)"
  by (fastforce simp: keeps_def ebind_def split: prod.splits sum.splits)

lemma keeps_on_err [keeps_intros]: "keeps f m \<Longrightarrow> keeps f (on_err h m)"
  by (fastforce simp: keeps_def on_err_def split: prod.splits sum.splits)

lemma keeps_attempt [keeps_intros]: "keeps f m \<Longrightarrow> keeps f (attempt m)"
  by (auto simp: keeps_def attempt_def split: prod.splits)

lemma keeps_call [keeps_intros]: "keeps f m \<Longrightarrow> keeps f (call m)"
  by (auto simp: keeps_def call_def split: prod.splits)

lemma keeps_modify: "(\<And>s. f (g s) = f s) \<Longrightarrow> keeps f (modify g)"
  by (auto simp: keeps_def modify_def)

lemma keeps_if [keeps_intros]: "(b \<Longrightarrow> keeps f m) \<Longrightarrow> (\<not> b \<Longrightarrow> keeps f m') \<Longrightarrow> keeps f (if b then m else m')"
  by simp

lemma keeps_option [keeps_intros]:
  "(x = None \<Longrightarrow> keeps f m) \<Longrightarrow> (\<And>y. x = Some y \<Longrightarrow> keeps f (g y)) \<Longrightarrow>
   keeps f (case x of None \<Rightarrow> m | Some y \<Rightarrow> g y)"
  by (cases x) auto

lemma keeps_sum [keeps_intros]:
  "(\<And>y. x = Inl y \<Longrightarrow> keeps f (g y)) \<Longrightarrow> (\<And>y. x = Inr y \<Longrightarrow> keeps f (h y)) \<Longrightarrow>
   keeps f (case x of Inl y \<Rightarrow> g y | Inr y \<Rightarrow> h y)"
  by (cases x) auto

lemma keeps_prod [keeps_intros]:
  "(\<And>a b. x = (a, b) \<Longrightarrow> keeps f (g a b)) \<Longrightarrow> keeps f (case x of (a, b) \<Rightarrow> g a b)"
  by (cases x) auto

lemma keeps_let [keeps_intros]: "keeps f (g x) \<Longrightarrow> keeps f (let y = x in g y)"
  by simp

end
