(* ===== verification/Htab.thy ===== *)
theory Htab
  imports Prelude
begin

text \<open>
  The chained hash table of \<^verbatim>\<open>lib/htab.c\<close>, which the CLD server uses for its session table
  and the storage library for parsed query strings. A bucket is the list of entries on its
  chain, in chain order (\<^verbatim>\<open>list_add\<close> is \<open>#\<close>, \<^verbatim>\<open>list_add_tail\<close> appends). The operations are
  total except for \<open>htab_put\<close> and \<open>htab_resize\<close>, whose result \<open>None\<close> stands for the read
  past the end of \<^verbatim>\<open>primes[]\<close>.
\<close>

section \<open>Data\<close>

record ('k, 'v) htab_entry =
  he_key :: 'k
  he_value :: 'v
  he_hash :: u64

record ('k, 'v) htab =
  hash_fn :: "'k \<Rightarrow> u64"
  cmp_fn :: "'k \<Rightarrow> 'k \<Rightarrow> int"
  free_key_fn :: bool     \<comment> \<open>a key destructor is installed\<close>
  free_value_fn :: bool   \<comment> \<open>a value destructor is installed\<close>
  prime_idx :: nat
  buckets :: "('k, 'v) htab_entry list list"
  n_ent :: u32

text \<open>The destructor calls an operation makes, in order.\<close>

datatype ('k, 'v) freed = Freed_key 'k | Freed_value 'v

definition primes :: "u32 list" where
  "primes = [5, 769, 6151, 49157, 98317, 196613, 393241, 786433, 1572869, 3145739, 6291469,
     12582917, 25165843, 50331653, 100663319, 201326611, 402653189, 805306457, 1610612741]"

section \<open>Operations\<close>

definition htab_sz :: "('k, 'v) htab \<Rightarrow> u32" where
  "htab_sz h = primes ! prime_idx h"

definition htab_init_buckets :: "nat \<Rightarrow> ('k, 'v) htab_entry list list" where
  "htab_init_buckets sz = replicate sz []"

definition htab_size :: "('k, 'v) htab \<Rightarrow> u32" where
  "htab_size h = n_ent h"

definition htab_new ::
    "mem \<Rightarrow> ('k \<Rightarrow> u64) \<Rightarrow> ('k \<Rightarrow> 'k \<Rightarrow> int) \<Rightarrow> bool \<Rightarrow> bool \<Rightarrow> ('k, 'v) htab option \<times> mem" where
  "htab_new m hf cf fk fv =
     (let (ok, m) = alloc m in
      if \<not> ok then (None, m)
      else
        let h = \<lparr>hash_fn = hf, cmp_fn = cf, free_key_fn = fk, free_value_fn = fv,
                 prime_idx = 0, buckets = [], n_ent = 0\<rparr>;
            n_buckets = unat (htab_sz h);
            (ok, m) = alloc m in
        if \<not> ok then (None, m)
        else (Some (h\<lparr>buckets := htab_init_buckets n_buckets\<rparr>), m))"

definition htab_free_ent ::
    "('k, 'v) htab \<Rightarrow> ('k, 'v) htab_entry \<Rightarrow> ('k, 'v) htab \<times> ('k, 'v) freed list" where
  "htab_free_ent h ent =
     (h\<lparr>n_ent := n_ent h - 1\<rparr>,
      (if free_key_fn h then [Freed_key (he_key ent)] else []) @
      (if free_value_fn h then [Freed_value (he_value ent)] else []))"

text \<open>\<^verbatim>\<open>htab_clear\<close> walks the buckets in order; the inner walk frees one chain.\<close>

fun htab_clear_chain ::
    "('k, 'v) htab \<Rightarrow> ('k, 'v) htab_entry list \<Rightarrow> ('k, 'v) htab \<times> ('k, 'v) freed list" where
  "htab_clear_chain h [] = (h, [])"
| "htab_clear_chain h (ent # iter) =
     (let (h, fr) = htab_free_ent h ent; (h, fr') = htab_clear_chain h iter in (h, fr @ fr'))"

fun htab_clear_from ::
    "nat \<Rightarrow> ('k, 'v) htab \<Rightarrow> ('k, 'v) htab_entry list list \<Rightarrow> ('k, 'v) htab \<times> ('k, 'v) freed list" where
  "htab_clear_from bucket h [] = (h, [])"
| "htab_clear_from bucket h (chain # rest) =
     (let (h, fr) = htab_clear_chain h chain;
          (h, fr') = htab_clear_from (Suc bucket) (h\<lparr>buckets := (buckets h)[bucket := []]\<rparr>) rest
      in (h, fr @ fr'))"

definition htab_clear :: "('k, 'v) htab \<Rightarrow> ('k, 'v) htab \<times> ('k, 'v) freed list" where
  "htab_clear h = htab_clear_from 0 h (buckets h)"

definition htab_free :: "('k, 'v) htab option \<Rightarrow> ('k, 'v) freed list" where
  "htab_free ho = (case ho of None \<Rightarrow> [] | Some h \<Rightarrow> snd (htab_clear h))"

definition htab_need_resize :: "('k, 'v) htab \<Rightarrow> bool" where
  "htab_need_resize h \<longleftrightarrow>
     (let sz = htab_sz h; threshold = (sz * 2) div 3 in n_ent h > threshold)"

definition htab_slot :: "nat \<Rightarrow> u64 \<Rightarrow> nat" where
  "htab_slot sz hv = unat hv mod sz"

fun htab_move ::
    "nat \<Rightarrow> ('k, 'v) htab_entry list list \<Rightarrow> ('k, 'v) htab_entry list \<Rightarrow> ('k, 'v) htab_entry list list" where
  "htab_move new_sz nb [] = nb"
| "htab_move new_sz nb (ent # iter) =
     (let new_bucket = htab_slot new_sz (he_hash ent) in
      htab_move new_sz (nb[new_bucket := nb ! new_bucket @ [ent]]) iter)"

text \<open>\<open>None\<close>: \<^verbatim>\<open>primes[prime_idx + 1]\<close> is out of range.\<close>

definition htab_resize :: "mem \<Rightarrow> ('k, 'v) htab \<Rightarrow> (bool \<times> ('k, 'v) htab \<times> mem) option" where
  "htab_resize m h =
     (if length primes \<le> prime_idx h + 1 then None
      else
        let new_sz = unat (primes ! (prime_idx h + 1)); (ok, m) = alloc m in
        if \<not> ok then Some (False, h, m)
        else
          let nb = htab_move new_sz (htab_init_buckets new_sz) (concat (buckets h)) in
          Some (True, h\<lparr>prime_idx := prime_idx h + 1, buckets := nb\<rparr>, m))"

text \<open>The bucket index is computed before the table is resized, as in the source.\<close>

definition htab_put ::
    "mem \<Rightarrow> ('k, 'v) htab \<Rightarrow> 'k \<Rightarrow> 'v \<Rightarrow> (bool \<times> ('k, 'v) htab \<times> mem) option" where
  "htab_put m h key val =
     (let hv = hash_fn h key;
          bucket = htab_slot (unat (htab_sz h)) hv in
      case (if htab_need_resize h then htab_resize m h else Some (True, h, m)) of
        None \<Rightarrow> None
      | Some (resized, h, m) \<Rightarrow>
          if \<not> resized then Some (False, h, m)
          else
            let (ok, m) = alloc m in
            if \<not> ok then Some (False, h, m)
            else
              let ent = \<lparr>he_key = key, he_value = val, he_hash = hv\<rparr> in
              Some (True,
                h\<lparr>buckets := (buckets h)[bucket := ent # buckets h ! bucket],
                  n_ent := n_ent h + 1\<rparr>, m))"

fun htab_get_chain :: "('k \<Rightarrow> 'k \<Rightarrow> int) \<Rightarrow> u64 \<Rightarrow> 'k \<Rightarrow> ('k, 'v) htab_entry list \<Rightarrow> 'v option" where
  "htab_get_chain cmp hv key [] = None"
| "htab_get_chain cmp hv key (ent # rest) =
     (if he_hash ent = hv \<and> cmp (he_key ent) key = 0 then Some (he_value ent)
      else htab_get_chain cmp hv key rest)"

definition htab_get :: "('k, 'v) htab \<Rightarrow> 'k \<Rightarrow> 'v option" where
  "htab_get h key =
     (let hv = hash_fn h key; bucket = htab_slot (unat (htab_sz h)) hv in
      htab_get_chain (cmp_fn h) hv key (buckets h ! bucket))"

text \<open>The deleting walk: remaining chain, table with the count updated, found flag, destructors.\<close>

fun htab_del_chain ::
    "('k, 'v) htab \<Rightarrow> u64 \<Rightarrow> 'k \<Rightarrow> ('k, 'v) htab_entry list \<Rightarrow>
     ('k, 'v) htab_entry list \<times> ('k, 'v) htab \<times> bool \<times> ('k, 'v) freed list" where
  "htab_del_chain h hv key [] = ([], h, False, [])"
| "htab_del_chain h hv key (ent # iter) =
     (if he_hash ent = hv \<and> cmp_fn h (he_key ent) key = 0 then
        let (h, fr) = htab_free_ent h ent;
            (chain, h, found, fr') = htab_del_chain h hv key iter
        in (chain, h, True, fr @ fr')
      else
        let (chain, h, found, fr) = htab_del_chain h hv key iter
        in (ent # chain, h, found, fr))"

definition htab_del :: "('k, 'v) htab \<Rightarrow> 'k \<Rightarrow> bool \<times> ('k, 'v) htab \<times> ('k, 'v) freed list" where
  "htab_del h key =
     (let hv = hash_fn h key; bucket = htab_slot (unat (htab_sz h)) hv;
          (chain, h, found, fr) = htab_del_chain h hv key (buckets h ! bucket)
      in (found, h\<lparr>buckets := (buckets h)[bucket := chain]\<rparr>, fr))"

definition htab_foreach :: "('k, 'v) htab \<Rightarrow> ('k \<Rightarrow> 'v \<Rightarrow> 's \<Rightarrow> 's) \<Rightarrow> 's \<Rightarrow> 's" where
  "htab_foreach h iter_fn s =
     fold (\<lambda>chain. fold (\<lambda>ent. iter_fn (he_key ent) (he_value ent)) chain) (buckets h) s"

subsection \<open>Hash and comparison functions\<close>

fun htab_djb_hash :: "u64 \<Rightarrow> bytes \<Rightarrow> u64" where
  "htab_djb_hash hash [] = hash"
| "htab_djb_hash hash (c # buf) = htab_djb_hash ((push_bit 5 hash + hash) XOR ucast c) buf"

definition htab_direct_hash :: "bytes \<Rightarrow> u64" where
  "htab_direct_hash buf = of_le_bytes (take 8 buf)"

definition htab_str_hash :: "bytes \<Rightarrow> u64" where
  "htab_str_hash s = htab_djb_hash 5381 s"

definition htab_str_cmp :: "bytes \<Rightarrow> bytes \<Rightarrow> int" where
  "htab_str_cmp a b = strcmp a b"

definition htab_str_new :: "mem \<Rightarrow> bool \<Rightarrow> bool \<Rightarrow> (bytes, 'v) htab option \<times> mem" where
  "htab_str_new m free_key free_value = htab_new m htab_str_hash htab_str_cmp free_key free_value"

section \<open>Well-formedness\<close>

text \<open>
  \<open>htab_acct\<close>: the bucket array has the size \<^verbatim>\<open>primes[]\<close> prescribes, every entry caches its
  key's hash, and \<open>n_ent\<close> counts the entries. \<open>htab_placed\<close>: every entry is on the chain its
  hash selects. \<open>htab_cmp\<close>: the comparison function decides equality of keys.
\<close>

definition htab_acct :: "('k, 'v) htab \<Rightarrow> bool" where
  "htab_acct h \<longleftrightarrow> prime_idx h < length primes \<and> length (buckets h) = unat (htab_sz h) \<and>
     (\<forall>e \<in> set (concat (buckets h)). he_hash e = hash_fn h (he_key e)) \<and>
     n_ent h = of_nat (length (concat (buckets h)))"

definition htab_placed :: "('k, 'v) htab \<Rightarrow> bool" where
  "htab_placed h \<longleftrightarrow> (\<forall>i < length (buckets h). \<forall>e \<in> set (buckets h ! i).
     htab_slot (length (buckets h)) (he_hash e) = i)"

definition htab_cmp :: "('k, 'v) htab \<Rightarrow> bool" where
  "htab_cmp h \<longleftrightarrow> (\<forall>a b. cmp_fn h a b = 0 \<longleftrightarrow> a = b)"

definition htab_inv :: "('k, 'v) htab \<Rightarrow> bool" where
  "htab_inv h \<longleftrightarrow> htab_acct h \<and> htab_placed h \<and> htab_cmp h"

lemma primes_pos: "i < length primes \<Longrightarrow> 0 < unat (primes ! i)"
  by (auto simp: primes_def less_Suc_eq nth_Cons split: nat.splits)

lemma htab_slot_less [simp]: "0 < sz \<Longrightarrow> htab_slot sz hv < sz"
  by (simp add: htab_slot_def)

lemma htab_acct_slot: "htab_acct h \<Longrightarrow> htab_slot (unat (htab_sz h)) hv < length (buckets h)"
  using primes_pos by (auto simp: htab_acct_def htab_sz_def)

lemma htab_acct_pos: "htab_acct h \<Longrightarrow> 0 < length (buckets h)"
  using htab_acct_slot [of h 0] by auto

lemma length_concat_update:
  "i < length xss \<Longrightarrow>
   length (concat (xss[i := ys])) + length (xss ! i) = length (concat xss) + length ys"
  by (simp add: length_concat sum_list_update_nat)

lemma set_concat_update:
  "i < length xss \<Longrightarrow> set (concat (xss[i := ys])) \<subseteq> set (concat xss) \<union> set ys"
  using set_update_subset_insert [of xss i ys] by auto

section \<open>Lookup, insertion and deletion\<close>

lemma htab_new_inv:
  assumes "htab_new m hf cf fk fv = (Some h, m')" and "\<And>a b. cf a b = 0 \<longleftrightarrow> a = b"
  shows "htab_inv h" and "htab_get h k = None" and "htab_size h = 0"
proof -
  have h: "h = \<lparr>hash_fn = hf, cmp_fn = cf, free_key_fn = fk, free_value_fn = fv, prime_idx = 0,
      buckets = replicate 5 [], n_ent = 0\<rparr>"
    using assms(1)
    by (auto simp: htab_new_def Let_def htab_init_buckets_def htab_sz_def primes_def
        split: prod.splits if_splits)
  show "htab_inv h"
    using assms(2)
    by (simp add: h htab_inv_def htab_acct_def htab_placed_def htab_cmp_def primes_def htab_sz_def)
  show "htab_get h k = None" "htab_size h = 0"
    by (simp_all add: h htab_get_def htab_size_def Let_def htab_sz_def primes_def htab_slot_def)
qed

lemma htab_put_no_resize:
  "\<not> htab_need_resize h \<Longrightarrow> alloc m = (True, m') \<Longrightarrow>
   htab_put m h k v = Some (True,
     h\<lparr>buckets := (buckets h)[htab_slot (unat (htab_sz h)) (hash_fn h k) :=
         \<lparr>he_key = k, he_value = v, he_hash = hash_fn h k\<rparr> #
         buckets h ! htab_slot (unat (htab_sz h)) (hash_fn h k)],
       n_ent := n_ent h + 1\<rparr>, m')"
  by (simp add: htab_put_def Let_def)

lemma htab_sz_update [simp]:
  "htab_sz (h\<lparr>buckets := b\<rparr>) = htab_sz h" "htab_sz (h\<lparr>n_ent := n\<rparr>) = htab_sz h"
  by (simp_all add: htab_sz_def)

text \<open>Pushing an entry on the chain its hash selects keeps the accounting.\<close>

lemma htab_acct_push:
  assumes "htab_acct h" and "i < length (buckets h)" and "he_hash e = hash_fn h (he_key e)"
  shows "htab_acct (h\<lparr>buckets := (buckets h)[i := e # buckets h ! i], n_ent := n_ent h + 1\<rparr>)"
proof -
  have len: "length (concat ((buckets h)[i := e # buckets h ! i])) = Suc (length (concat (buckets h)))"
    using length_concat_update [OF assms(2), of "e # buckets h ! i"] by simp
  have "set (concat ((buckets h)[i := e # buckets h ! i])) \<subseteq> insert e (set (concat (buckets h)))"
    using set_concat_update [OF assms(2), of "e # buckets h ! i"] assms(2)
    by (auto simp: in_concat_nth)
  with assms len show ?thesis
    unfolding htab_acct_def by (auto simp del: set_concat)
qed

lemma htab_placed_push:
  assumes "htab_placed h" and "i < length (buckets h)"
    and "htab_slot (length (buckets h)) (he_hash e) = i"
  shows "htab_placed (h\<lparr>buckets := (buckets h)[i := e # buckets h ! i], n_ent := n\<rparr>)"
  using assms by (auto simp: htab_placed_def nth_list_update)

lemma htab_get_chain_mem:
  "\<forall>a b. cmp a b = 0 \<longleftrightarrow> a = b \<Longrightarrow>
   htab_get_chain cmp hv k es = None \<longleftrightarrow> (\<forall>e \<in> set es. \<not> (he_hash e = hv \<and> he_key e = k))"
  by (induction es) auto

lemma htab_get_chain_append:
  "htab_get_chain cmp hv k (xs @ ys) =
   (case htab_get_chain cmp hv k xs of None \<Rightarrow> htab_get_chain cmp hv k ys | Some v \<Rightarrow> Some v)"
  by (induction xs) auto

lemma htab_get_chain_filter:
  assumes "\<And>e. e \<in> set es \<Longrightarrow> he_hash e = hv \<Longrightarrow> P e"
  shows "htab_get_chain cmp hv k (filter P es) = htab_get_chain cmp hv k es"
  using assms by (induction es) auto

lemma concat_single:
  assumes "i < length xss" and "\<And>j. j < length xss \<Longrightarrow> j \<noteq> i \<Longrightarrow> xss ! j = []"
  shows "concat xss = xss ! i"
proof -
  have "concat (take i xss) = []" "concat (drop (Suc i) xss) = []"
    using assms by (auto simp: in_set_conv_nth)
  then show ?thesis
    using id_take_nth_drop [OF assms(1)] by (metis append_Nil append_Nil2 concat.simps(2) concat_append)
qed

text \<open>With every entry on its chain, a lookup is a search through all the entries.\<close>

lemma htab_get_concat:
  assumes "htab_acct h" and "htab_placed h"
  shows "htab_get h k = htab_get_chain (cmp_fn h) (hash_fn h k) k (concat (buckets h))"
proof -
  let ?P = "\<lambda>e. he_hash e = hash_fn h k" and ?i = "htab_slot (unat (htab_sz h)) (hash_fn h k)"
  let ?fs = "map (filter ?P) (buckets h)"
  have len: "length (buckets h) = unat (htab_sz h)" and i: "?i < length (buckets h)"
    using assms(1) htab_acct_slot [OF assms(1)] by (auto simp: htab_acct_def)
  have "?fs ! j = []" if "j < length ?fs" "j \<noteq> ?i" for j
    using assms(2) that len unfolding htab_placed_def by (fastforce simp: filter_empty_conv)
  then have "concat ?fs = ?fs ! ?i"
    using i by (intro concat_single) simp_all
  then have "filter ?P (concat (buckets h)) = filter ?P (buckets h ! ?i)"
    using i by (simp add: filter_concat)
  then show ?thesis
    using htab_get_chain_filter [of "concat (buckets h)" "hash_fn h k" ?P]
      htab_get_chain_filter [of "buckets h ! ?i" "hash_fn h k" ?P]
    by (metis (mono_tags) htab_get_def)
qed

lemma htab_inv_put:
  assumes "htab_inv h" and "\<not> htab_need_resize h" and "htab_put m h k v = Some (True, h', m')"
  shows "htab_inv h'" and "htab_get h' = (htab_get h)(k \<mapsto> v)" and "htab_size h' = htab_size h + 1"
proof -
  let ?e = "\<lparr>he_key = k, he_value = v, he_hash = hash_fn h k\<rparr>"
  let ?i = "htab_slot (unat (htab_sz h)) (hash_fn h k)"
  have h': "h' = h\<lparr>buckets := (buckets h)[?i := ?e # buckets h ! ?i], n_ent := n_ent h + 1\<rparr>"
    using assms(2,3) by (auto simp: htab_put_def Let_def split: prod.splits if_splits)
  have acct: "htab_acct h" and placed: "htab_placed h" and cmp: "\<And>a b. cmp_fn h a b = 0 \<longleftrightarrow> a = b"
    using assms(1) by (auto simp: htab_inv_def htab_cmp_def)
  have i: "?i < length (buckets h)" and len: "length (buckets h) = unat (htab_sz h)"
    using htab_acct_slot [OF acct] acct by (auto simp: htab_acct_def)
  show "htab_inv h'"
    unfolding htab_inv_def h'
    using htab_acct_push [OF acct i, of ?e] htab_placed_push [OF placed i, of ?e] cmp len
    by (simp add: htab_cmp_def)
  show "htab_get h' = (htab_get h)(k \<mapsto> v)"
    using i by (auto simp: h' htab_get_def Let_def cmp nth_list_update)
  show "htab_size h' = htab_size h + 1"
    by (simp add: h' htab_size_def)
qed

subsection \<open>Growing the table\<close>

lemma htab_move_nth:
  assumes "0 < n" and "length nb = n" and "j < n"
  shows "htab_move n nb es ! j = nb ! j @ filter (\<lambda>e. htab_slot n (he_hash e) = j) es"
  using assms
proof (induction es arbitrary: nb)
  case Nil
  then show ?case by simp
next
  case (Cons e es)
  then show ?case by (auto simp: Let_def nth_list_update)
qed

lemma length_htab_move [simp]: "length (htab_move n nb es) = length nb"
  by (induction n nb es rule: htab_move.induct) (auto simp: Let_def)

lemma length_concat_htab_move:
  assumes "0 < n" and "length nb = n"
  shows "length (concat (htab_move n nb es)) = length (concat nb) + length es"
  using assms
proof (induction es arbitrary: nb)
  case (Cons e es)
  have "htab_slot n (he_hash e) < length nb"
    using Cons.prems by simp
  from length_concat_update [OF this, of "nb ! htab_slot n (he_hash e) @ [e]"] Cons show ?case
    by (simp add: Let_def)
qed simp

lemma htab_resize_inv:
  assumes "htab_inv h" and "htab_resize m h = Some (True, h', m')"
  shows "htab_inv h'" and "htab_get h' = htab_get h" and "htab_size h' = htab_size h"
proof -
  let ?n = "unat (primes ! Suc (prime_idx h))"
  let ?nb = "htab_move ?n (replicate ?n []) (concat (buckets h))"
  have idx: "Suc (prime_idx h) < length primes"
    and h': "h' = h\<lparr>prime_idx := Suc (prime_idx h), buckets := ?nb\<rparr>"
    using assms(2)
    by (auto simp: htab_resize_def Let_def htab_init_buckets_def split: prod.splits if_splits)
  have n: "0 < ?n"
    using primes_pos [OF idx] .
  have acct: "htab_acct h" and placed: "htab_placed h"
    using assms(1) by (auto simp: htab_inv_def)
  have nth: "?nb ! j = filter (\<lambda>e. htab_slot ?n (he_hash e) = j) (concat (buckets h))" if "j < ?n" for j
    using htab_move_nth [OF n, of "replicate ?n []" j] that by simp
  have "set (concat ?nb) \<subseteq> set (concat (buckets h))"
    using nth by (auto simp: in_concat_nth simp del: set_concat)
  moreover have "length (concat ?nb) = length (concat (buckets h))"
    using length_concat_htab_move [OF n, of "replicate ?n []" "concat (buckets h)"] by simp
  ultimately have acct': "htab_acct h'"
    using acct idx unfolding h' htab_acct_def htab_sz_def by (auto simp del: set_concat)
  have placed': "htab_placed h'"
    using nth by (auto simp: h' htab_placed_def)
  show "htab_inv h'"
    using acct' placed' assms(1) by (simp add: htab_inv_def htab_cmp_def h')
  show "htab_size h' = htab_size h"
    by (simp add: h' htab_size_def)
  show "htab_get h' = htab_get h"
  proof
    fix k
    have "htab_get h' k = htab_get_chain (cmp_fn h) (hash_fn h k) k
        (filter (\<lambda>e. htab_slot ?n (he_hash e) = htab_slot ?n (hash_fn h k)) (concat (buckets h)))"
      using nth n by (simp add: htab_get_def h' htab_sz_def Let_def)
    also have "\<dots> = htab_get h k"
      using htab_get_concat [OF acct placed] by (simp add: htab_get_chain_filter)
    finally show "htab_get h' k = htab_get h k" .
  qed
qed

text \<open>
  What an insertion that grows the table really does: the entry goes to the chain computed for
  the old size, so it is found again only if both sizes select the same chain.
\<close>

lemma htab_put_resized:
  assumes "htab_inv h" and "htab_need_resize h" and "htab_put m h k v = Some (True, h', m')"
  shows "htab_get h' =
    (if htab_slot (unat (htab_sz h)) (hash_fn h k) = htab_slot (unat (htab_sz h')) (hash_fn h k)
     then (htab_get h)(k \<mapsto> v) else htab_get h)"
    and "htab_size h' = htab_size h + 1"
proof -
  let ?e = "\<lparr>he_key = k, he_value = v, he_hash = hash_fn h k\<rparr>"
  let ?i = "htab_slot (unat (htab_sz h)) (hash_fn h k)"
  obtain h1 m1 where r: "htab_resize m h = Some (True, h1, m1)"
    and h': "h' = h1\<lparr>buckets := (buckets h1)[?i := ?e # buckets h1 ! ?i], n_ent := n_ent h1 + 1\<rparr>"
    using assms(2,3) by (auto simp: htab_put_def Let_def split: prod.splits if_splits option.splits)
  have fns: "hash_fn h1 = hash_fn h" "cmp_fn h1 = cmp_fn h"
    using r by (auto simp: htab_resize_def Let_def split: prod.splits if_splits)
  have inv: "htab_inv h1" and get: "htab_get h1 = htab_get h" and sz: "htab_size h1 = htab_size h"
    using htab_resize_inv [OF assms(1) r] by auto
  have cmp: "\<And>a b. cmp_fn h a b = 0 \<longleftrightarrow> a = b"
    using assms(1) by (auto simp: htab_inv_def htab_cmp_def)
  have slot: "htab_slot (unat (htab_sz h1)) hv < length (buckets h1)" for hv
    using htab_acct_slot inv by (auto simp: htab_inv_def)
  have "htab_get h' k' = (if ?i = htab_slot (unat (htab_sz h1)) (hash_fn h k)
      then (htab_get h1)(k \<mapsto> v) else htab_get h1) k'" for k'
    using slot [of "hash_fn h k'"]
    by (auto simp: h' htab_get_def Let_def cmp fns nth_list_update_if)
  moreover have "htab_sz h' = htab_sz h1"
    by (simp add: h')
  ultimately show "htab_get h' =
      (if ?i = htab_slot (unat (htab_sz h')) (hash_fn h k) then (htab_get h)(k \<mapsto> v) else htab_get h)"
    by (auto simp: fun_eq_iff get)
  show "htab_size h' = htab_size h + 1"
    using sz by (simp add: h' htab_size_def)
qed

subsection \<open>Deleting\<close>

definition htab_frees :: "('k, 'v) htab \<Rightarrow> ('k, 'v) htab_entry list \<Rightarrow> ('k, 'v) freed list" where
  "htab_frees h es = concat (map (\<lambda>e. snd (htab_free_ent h e)) es)"

lemma htab_frees_upd [simp]:
  "htab_frees (h\<lparr>n_ent := n\<rparr>) es = htab_frees h es" "htab_frees (h\<lparr>buckets := b\<rparr>) es = htab_frees h es"
  by (simp_all add: htab_frees_def htab_free_ent_def)

lemma htab_frees_Cons: "htab_frees h (e # es) = snd (htab_free_ent h e) @ htab_frees h es"
  by (simp add: htab_frees_def)

lemma htab_del_chain_eq:
  "htab_del_chain h hv k es =
   (let P = \<lambda>e. he_hash e = hv \<and> cmp_fn h (he_key e) k = 0 in
    (filter (\<lambda>e. \<not> P e) es, h\<lparr>n_ent := n_ent h - of_nat (length (filter P es))\<rparr>,
     (\<exists>e \<in> set es. P e), htab_frees h (filter P es)))"
proof (induction es arbitrary: h)
  case Nil
  then show ?case by (simp add: htab_frees_def)
next
  case (Cons e es)
  have free: "htab_free_ent h e = (h\<lparr>n_ent := n_ent h - 1\<rparr>, snd (htab_free_ent h e))"
    by (simp add: htab_free_ent_def)
  show ?case
  proof (cases "he_hash e = hv \<and> cmp_fn h (he_key e) k = 0")
    case True
    then show ?thesis
      by (subst htab_del_chain.simps, subst free)
        (simp add: Cons.IH Let_def htab_frees_Cons diff_diff_eq)
  next
    case False
    then show ?thesis
      by (cases "he_hash e = hv") (simp_all add: Cons.IH Let_def htab_frees_Cons)
  qed
qed

lemma htab_get_chain_keep:
  assumes "\<And>e. e \<in> set es \<Longrightarrow> cmp (he_key e) k = 0 \<Longrightarrow> P e"
  shows "htab_get_chain cmp hv k (filter P es) = htab_get_chain cmp hv k es"
  using assms by (induction es) auto

lemma htab_del_inv:
  assumes "htab_inv h" and "htab_del h k = (found, h', fr)"
  shows "htab_inv h'" and "htab_get h' = (htab_get h)(k := None)"
    and "found \<longleftrightarrow> htab_get h k \<noteq> None"
proof -
  let ?i = "htab_slot (unat (htab_sz h)) (hash_fn h k)"
  let ?keep = "filter (\<lambda>e. \<not> (he_hash e = hash_fn h k \<and> he_key e = k)) (buckets h ! ?i)"
  let ?n = "length (filter (\<lambda>e. he_hash e = hash_fn h k \<and> he_key e = k) (buckets h ! ?i))"
  have acct: "htab_acct h" and placed: "htab_placed h" and cmp: "\<And>a b. cmp_fn h a b = 0 \<longleftrightarrow> a = b"
    using assms(1) by (auto simp: htab_inv_def htab_cmp_def)
  have i: "?i < length (buckets h)" using htab_acct_slot [OF acct] .
  have h': "h' = h\<lparr>buckets := (buckets h)[?i := ?keep], n_ent := n_ent h - of_nat ?n\<rparr>"
    and found: "found \<longleftrightarrow> (\<exists>e \<in> set (buckets h ! ?i). he_hash e = hash_fn h k \<and> he_key e = k)"
    using assms(2) by (auto simp: htab_del_def htab_del_chain_eq Let_def cmp)
  have "length ?keep + ?n = length (buckets h ! ?i)"
    using sum_length_filter_compl [of "\<lambda>e. he_hash e = hash_fn h k \<and> he_key e = k" "buckets h ! ?i"]
    by (simp del: de_Morgan_conj)
  then have "length (concat ((buckets h)[?i := ?keep])) + ?n = length (concat (buckets h))"
    using length_concat_update [OF i, of ?keep] by simp
  then have cnt: "(of_nat (length (concat (buckets h))) :: u32)
      = of_nat (length (concat ((buckets h)[?i := ?keep]))) + of_nat ?n"
    by (simp only: of_nat_add [symmetric])
  have "set (concat ((buckets h)[?i := ?keep])) \<subseteq> set (concat (buckets h))"
    using set_concat_update [OF i, of ?keep] i by (fastforce simp: in_concat_nth simp del: set_concat)
  then have "htab_acct h'"
    using acct cnt unfolding h' htab_acct_def by (auto simp del: set_concat)
  moreover have "htab_placed h'"
    using placed i by (auto simp: h' htab_placed_def nth_list_update)
  ultimately show "htab_inv h'"
    using cmp by (simp add: htab_inv_def htab_cmp_def h')
  show "found \<longleftrightarrow> htab_get h k \<noteq> None"
    using htab_get_chain_mem [of "cmp_fn h" "hash_fn h k" k "buckets h ! ?i"] cmp found
    by (auto simp: htab_get_def Let_def simp del: not_None_eq)
  have self: "htab_get_chain (cmp_fn h) (hash_fn h k) k ?keep = None"
    by (subst htab_get_chain_mem) (simp_all add: cmp)
  have other: "htab_get_chain (cmp_fn h) hv k' ?keep = htab_get_chain (cmp_fn h) hv k' (buckets h ! ?i)"
    if "k' \<noteq> k" for hv k'
    using that cmp by (intro htab_get_chain_keep) auto
  have "htab_get h' k' = ((htab_get h)(k := None)) k'" for k'
    using i self other by (auto simp: h' htab_get_def Let_def nth_list_update)
  then show "htab_get h' = (htab_get h)(k := None)"
    by blast
qed

subsection \<open>Clearing\<close>

lemma htab_clear_chain_eq:
  "htab_clear_chain h es = (h\<lparr>n_ent := n_ent h - of_nat (length es)\<rparr>, htab_frees h es)"
proof (induction es arbitrary: h)
  case Nil
  then show ?case by (simp add: htab_frees_def)
next
  case (Cons e es)
  have free: "htab_free_ent h e = (h\<lparr>n_ent := n_ent h - 1\<rparr>, snd (htab_free_ent h e))"
    by (simp add: htab_free_ent_def)
  show ?case
    by (subst htab_clear_chain.simps, subst free) (simp add: Cons.IH htab_frees_Cons diff_diff_eq)
qed

lemma htab_clear_from_eq:
  "length pre = b \<Longrightarrow> buckets h = pre @ rest \<Longrightarrow>
   htab_clear_from b h rest =
     (h\<lparr>n_ent := n_ent h - of_nat (length (concat rest)),
        buckets := pre @ replicate (length rest) []\<rparr>, htab_frees h (concat rest))"
proof (induction rest arbitrary: h pre b)
  case Nil
  then show ?case by (simp add: htab_frees_def)
next
  case (Cons c rest)
  have "buckets (h\<lparr>n_ent := n_ent h - of_nat (length c), buckets := (buckets h)[b := []]\<rparr>) = (pre @ [[]]) @ rest"
    using Cons.prems by (simp add: list_update_append)
  note step = Cons.IH [OF _ this, of "Suc b"]
  show ?case
    using step Cons.prems
    by (simp add: htab_clear_chain_eq htab_frees_def htab_free_ent_def diff_diff_eq)
qed

lemma htab_clear_eq:
  "htab_clear h = (h\<lparr>n_ent := n_ent h - of_nat (length (concat (buckets h))),
     buckets := replicate (length (buckets h)) []\<rparr>, htab_frees h (concat (buckets h)))"
  unfolding htab_clear_def using htab_clear_from_eq [of "[]" 0 h "buckets h"] by simp

lemma fold_concat_chain: "fold (\<lambda>xs. fold f xs) xss s = fold f (concat xss) s"
  by (induction xss arbitrary: s) auto

lemma htab_foreach_concat:
  "htab_foreach h f s = fold (\<lambda>e. f (he_key e) (he_value e)) (concat (buckets h)) s"
  by (simp add: htab_foreach_def fold_concat_chain)

section \<open>The interface its clients rely on\<close>

text \<open>
  A keyed store: what a lookup returns after an insertion or a deletion, and the invariant
  both keep. \<open>room\<close> is the condition under which an insertion is promised to work.
\<close>

locale keyed_store =
  fixes lookup :: "'m \<Rightarrow> 'k \<Rightarrow> 'v option"
    and insert_kv :: "'m \<Rightarrow> 'k \<Rightarrow> 'v \<Rightarrow> 'm"
    and remove :: "'m \<Rightarrow> 'k \<Rightarrow> 'm"
    and room :: "'m \<Rightarrow> bool"
    and invar :: "'m \<Rightarrow> bool"
  assumes invar_insert: "invar m \<Longrightarrow> room m \<Longrightarrow> invar (insert_kv m k v)"
    and lookup_insert: "invar m \<Longrightarrow> room m \<Longrightarrow> lookup (insert_kv m k v) = (lookup m)(k \<mapsto> v)"
    and invar_remove: "invar m \<Longrightarrow> invar (remove m k)"
    and lookup_remove: "invar m \<Longrightarrow> lookup (remove m k) = (lookup m)(k := None)"
begin

lemma remove_insert:
  "invar m \<Longrightarrow> room m \<Longrightarrow> lookup (remove (insert_kv m k v) k) = (lookup m)(k := None)"
  by (simp add: lookup_remove invar_insert lookup_insert)

lemma insert_other:
  "invar m \<Longrightarrow> room m \<Longrightarrow> k' \<noteq> k \<Longrightarrow> lookup (insert_kv m k v) k' = lookup m k'"
  by (simp add: lookup_insert)

text \<open>Replaying a sequence of insertions and deletions is replaying it on a map.\<close>

lemma replay:
  assumes "invar m"
    and "\<And>i k v. i < length ops \<Longrightarrow> ops ! i = (k, Some v) \<Longrightarrow>
      room (foldl (\<lambda>m (k, vo). case vo of None \<Rightarrow> remove m k | Some v \<Rightarrow> insert_kv m k v) m (take i ops))"
  shows "lookup (foldl (\<lambda>m (k, vo). case vo of None \<Rightarrow> remove m k | Some v \<Rightarrow> insert_kv m k v) m ops)
    = foldl (\<lambda>f (k, vo). f(k := vo)) (lookup m) ops"
  using assms
proof (induction ops arbitrary: m)
  case Nil
  then show ?case by simp
next
  case (Cons op ops)
  obtain k vo where op: "op = (k, vo)" by fastforce
  let ?m = "case vo of None \<Rightarrow> remove m k | Some v \<Rightarrow> insert_kv m k v"
  have room: "vo = Some v \<Longrightarrow> room m" for v
    using Cons.prems(2) [of 0 k v] op by simp
  have inv: "invar ?m" and look: "lookup ?m = (lookup m)(k := vo)"
    using Cons.prems(1) room
    by (cases vo; simp add: invar_remove invar_insert lookup_remove lookup_insert)+
  have "room (foldl (\<lambda>m (k, vo). case vo of None \<Rightarrow> remove m k | Some v \<Rightarrow> insert_kv m k v) ?m (take i ops))"
    if "i < length ops" "ops ! i = (k', Some v)" for i k' v
    using Cons.prems(2) [of "Suc i" k' v] that op by simp
  from Cons.IH [OF inv this] show ?case by (simp add: op look)
qed

end

text \<open>The hash table, with memory available, provides it as long as no insertion has to grow it.\<close>

definition htab_put_ok :: "('k, 'v) htab \<Rightarrow> 'k \<Rightarrow> 'v \<Rightarrow> ('k, 'v) htab" where
  "htab_put_ok h k v = (case htab_put [] h k v of Some (True, h', _) \<Rightarrow> h' | _ \<Rightarrow> h)"

definition htab_del_ok :: "('k, 'v) htab \<Rightarrow> 'k \<Rightarrow> ('k, 'v) htab" where
  "htab_del_ok h k = fst (snd (htab_del h k))"

lemma htab_put_ok_eq:
  "\<not> htab_need_resize h \<Longrightarrow> htab_put [] h k v = Some (True, htab_put_ok h k v, [])"
  by (simp add: htab_put_ok_def htab_put_no_resize)

interpretation ht: keyed_store htab_get htab_put_ok htab_del_ok "\<lambda>h. \<not> htab_need_resize h" htab_inv
proof (unfold_locales, goal_cases)
  case (1 h k v) show ?case by (rule htab_inv_put(1) [OF 1 htab_put_ok_eq [OF 1(2)]])
next
  case (2 h k v) show ?case by (rule htab_inv_put(2) [OF 2 htab_put_ok_eq [OF 2(2)]])
next
  case (3 h k) then show ?case using htab_del_inv(1) by (metis htab_del_ok_def prod.collapse)
next
  case (4 h k) then show ?case using htab_del_inv(2) by (metis htab_del_ok_def prod.collapse)
qed

section \<open>Properties\<close>

text \<open>A concrete table for the witnesses: 64-bit keys that hash to themselves, four entries.\<close>

definition htab_ex :: "(u64, nat) htab" where
  "htab_ex = \<lparr>hash_fn = id, cmp_fn = (\<lambda>a b. int (unat a) - int (unat b)), free_key_fn = False,
     free_value_fn = True, prime_idx = 0,
     buckets = [[\<lparr>he_key = 20, he_value = 4, he_hash = 20\<rparr>, \<lparr>he_key = 5, he_value = 1, he_hash = 5\<rparr>],
       [], [\<lparr>he_key = 7, he_value = 2, he_hash = 7\<rparr>], [], [\<lparr>he_key = 9, he_value = 3, he_hash = 9\<rparr>]],
     n_ent = 4\<rparr>"

definition htab_ex3 :: "(u64, nat) htab" where
  "htab_ex3 = htab_del_ok htab_ex 20"

lemma htab_ex_inv: "htab_inv htab_ex"
proof -
  have "htab_acct htab_ex"
    by (simp add: htab_acct_def htab_ex_def htab_sz_def primes_def)
  moreover have "htab_placed htab_ex"
    by (auto simp: htab_placed_def htab_ex_def htab_slot_def less_Suc_eq)
  moreover have "htab_cmp htab_ex"
    by (auto simp: htab_cmp_def htab_ex_def dest: unsigned_word_eqI)
  ultimately show ?thesis by (simp add: htab_inv_def)
qed

lemma htab_ex3_inv: "htab_inv htab_ex3"
  unfolding htab_ex3_def by (rule ht.invar_remove [OF htab_ex_inv])

lemma htab_ex_resize: "htab_need_resize htab_ex" "\<not> htab_need_resize htab_ex3"
  by (simp_all add: htab_need_resize_def htab_ex_def htab_ex3_def htab_del_ok_def htab_del_def
      htab_sz_def primes_def Let_def htab_slot_def htab_free_ent_def)

text \<open>
  As long as the table does not have to grow and memory is available, \<^verbatim>\<open>htab_put\<close>
  succeeds, keeps the table well formed, counts the new entry, and makes every lookup behave
  like the updated map: the new key yields the new value (even if the key was already present),
  all other keys are unaffected.
\<close>

theorem htab_put_get:
  assumes "htab_inv h" and "\<not> htab_need_resize h" and "alloc m = (True, m')"
  shows "\<exists>h'. htab_put m h k v = Some (True, h', m') \<and> htab_inv h' \<and>
    htab_get h' = (htab_get h)(k \<mapsto> v) \<and> htab_size h' = htab_size h + 1"
proof -
  obtain h' where put: "htab_put m h k v = Some (True, h', m')"
    using htab_put_no_resize [OF assms(2,3)] by blast
  show ?thesis using put htab_inv_put [OF assms(1,2) put] by blast
qed

theorem htab_put_get_witness:
  "\<exists>h'. htab_put [] htab_ex3 30 8 = Some (True, h', []) \<and> htab_inv h' \<and>
    htab_get h' = (htab_get htab_ex3)(30 \<mapsto> 8) \<and> htab_size h' = htab_size htab_ex3 + 1"
  by (rule htab_put_get [OF htab_ex3_inv htab_ex_resize(2)]) simp



text \<open>
  An insertion that has to grow the table (the fifth one into a new table) stores the entry
  on the chain selected by the \<^emph>\<open>old\<close> size. It reports success, but unless both sizes happen to
  select the same chain the key is not found afterwards: lookups answer as if nothing had been
  inserted.
\<close>

theorem htab_put_grow:
  assumes "htab_inv h" and "htab_need_resize h" and "prime_idx h + 1 < length primes"
    and "alloc m = (True, m1)" and "alloc m1 = (True, m')"
  shows "\<exists>h'. htab_put m h k v = Some (True, h', m') \<and> htab_size h' = htab_size h + 1 \<and>
    htab_get h' =
      (if htab_slot (unat (htab_sz h)) (hash_fn h k)
          = htab_slot (unat (primes ! (prime_idx h + 1))) (hash_fn h k)
       then (htab_get h)(k \<mapsto> v) else htab_get h)"
proof -
  obtain h' where put: "htab_put m h k v = Some (True, h', m')"
    and sz: "htab_sz h' = primes ! (prime_idx h + 1)"
    using assms(2-5) by (auto simp: htab_put_def htab_resize_def Let_def htab_sz_def)
  show ?thesis
    using put htab_put_resized [OF assms(1,2) put] by (auto simp: sz)
qed

theorem htab_put_grow_witness:
  "\<exists>h'. htab_put [] htab_ex 10 8 = Some (True, h', []) \<and> htab_size h' = 5 \<and> htab_get h' 10 = None"
proof -
  have idx: "prime_idx htab_ex + 1 < length primes"
    by (simp add: htab_ex_def primes_def)
  have slots: "htab_slot (unat (htab_sz htab_ex)) (hash_fn htab_ex 10)
      \<noteq> htab_slot (unat (primes ! (prime_idx htab_ex + 1))) (hash_fn htab_ex 10)"
    "htab_get htab_ex 10 = None" "htab_size htab_ex + 1 = 5"
    by (simp_all add: htab_ex_def htab_slot_def htab_sz_def primes_def htab_get_def htab_size_def)
  show ?thesis
    using htab_put_grow [OF htab_ex_inv htab_ex_resize(1) idx, of "[]" "[]" "[]" 10 8] slots by auto
qed

text \<open>
  \<^verbatim>\<open>htab_del\<close> removes every entry of the key, reports whether there was one, keeps the
  table well formed and leaves the other keys alone.
\<close>

theorem htab_del_get:
  assumes "htab_inv h" and "htab_del h k = (found, h', fr)"
  shows "htab_inv h' \<and> htab_get h' = (htab_get h)(k := None) \<and> (found \<longleftrightarrow> htab_get h k \<noteq> None)"
  using htab_del_inv [OF assms] by blast

theorem htab_del_get_witness:
  "htab_get htab_ex 20 = Some 4 \<and> fst (htab_del htab_ex 20) \<and>
   htab_get (htab_del_ok htab_ex 20) 20 = None \<and> htab_get (htab_del_ok htab_ex 20) 5 = htab_get htab_ex 5"
proof -
  have g: "htab_get htab_ex 20 = Some 4"
    by (simp add: htab_get_def htab_ex_def htab_slot_def htab_sz_def primes_def Let_def)
  obtain found h' fr where d: "htab_del htab_ex 20 = (found, h', fr)"
    using prod_cases3 by blast
  show ?thesis
    using htab_del_get [OF htab_ex_inv d] g d by (simp add: htab_del_ok_def)
qed

text \<open>
  \<^verbatim>\<open>htab_free\<close> calls the installed destructors exactly once for every entry, key before
  value, in table order; on a null table it does nothing.
\<close>

theorem htab_free_all:
  "htab_free None = [] \<and>
   htab_free (Some h) = concat (map (\<lambda>e.
     (if free_key_fn h then [Freed_key (he_key e)] else []) @
     (if free_value_fn h then [Freed_value (he_value e)] else [])) (concat (buckets h)))"
  by (simp add: htab_free_def htab_clear_eq htab_frees_def htab_free_ent_def)

end
