(* ===== verification/Timer.thy ===== *)
theory Timer
  imports Prelude "HOL-Library.Multiset"
begin

text \<open>
  The timer list of \<^verbatim>\<open>lib/libtimer.c\<close> (used by the CLD client library). A timer is an object
  with an address; the list holds addresses in order of expiry. GLib's \<^verbatim>\<open>g_list_insert_sorted\<close>
  is a parameter, described by the locale \<open>insert_sorted\<close>; the other GList calls (\<^verbatim>\<open>g_list_remove\<close>,
  \<^verbatim>\<open>g_list_delete_link\<close>) are the corresponding list operations. A callback is a function that,
  given the state it is called in, issues a sequence of \<^verbatim>\<open>cld_timer_add\<close> and \<^verbatim>\<open>cld_timer_del\<close>
  calls. \<^verbatim>\<open>time_t\<close> is an unbounded integer.
\<close>

section \<open>Data\<close>

record cld_timer =
  tm_fired :: bool
  tm_on_list :: bool
  tm_expires :: int

record cld_timer_list =
  tl_list :: "nat list"               \<comment> \<open>addresses, soonest first\<close>
  tl_runmark :: int
  tl_timers :: "nat \<Rightarrow> cld_timer"     \<comment> \<open>the timer objects\<close>

type_synonym insert_fn = "(nat \<Rightarrow> nat \<Rightarrow> int) \<Rightarrow> nat list \<Rightarrow> nat \<Rightarrow> nat list"

section \<open>Operations\<close>

definition cld_timer_cmp :: "cld_timer \<Rightarrow> cld_timer \<Rightarrow> int" where
  "cld_timer_cmp a b =
     (if tm_expires a > tm_expires b then 1
      else if tm_expires a = tm_expires b then 0
      else - 1)"

definition cld_timer_init :: "cld_timer" where
  "cld_timer_init = \<lparr>tm_fired = False, tm_on_list = False, tm_expires = 0\<rparr>"

definition cld_timer_add :: "insert_fn \<Rightarrow> cld_timer_list \<Rightarrow> nat \<Rightarrow> int \<Rightarrow> cld_timer_list" where
  "cld_timer_add ins tlist t expires =
     (let timer_list = tl_list tlist;
          timer_list = (if tm_on_list (tl_timers tlist t) then remove1 t timer_list else timer_list);
          expires = (if expires < tl_runmark tlist + 1 then tl_runmark tlist + 1 else expires);
          ts = (tl_timers tlist)(t := \<lparr>tm_fired = False, tm_on_list = True, tm_expires = expires\<rparr>)
      in tlist\<lparr>tl_list := ins (\<lambda>a b. cld_timer_cmp (ts a) (ts b)) timer_list t, tl_timers := ts\<rparr>)"

definition cld_timer_del :: "cld_timer_list \<Rightarrow> nat \<Rightarrow> cld_timer_list" where
  "cld_timer_del tlist t =
     (if \<not> tm_on_list (tl_timers tlist t) then tlist
      else tlist\<lparr>tl_list := remove1 t (tl_list tlist),
              tl_timers := (tl_timers tlist)(t := (tl_timers tlist t)\<lparr>tm_on_list := False\<rparr>)\<rparr>)"

datatype timer_op = Timer_add nat int | Timer_del nat

type_synonym timer_cb = "nat \<Rightarrow> cld_timer_list \<Rightarrow> timer_op list"

fun timer_ops :: "insert_fn \<Rightarrow> cld_timer_list \<Rightarrow> timer_op list \<Rightarrow> cld_timer_list" where
  "timer_ops ins tlist [] = tlist"
| "timer_ops ins tlist (Timer_add t e # ops) = timer_ops ins (cld_timer_add ins tlist t e) ops"
| "timer_ops ins tlist (Timer_del t # ops) = timer_ops ins (cld_timer_del tlist t) ops"

text \<open>One pass through the loop body: unlink the head, mark it fired, call it.\<close>

definition timer_fire :: "insert_fn \<Rightarrow> timer_cb \<Rightarrow> cld_timer_list \<Rightarrow> nat \<Rightarrow> cld_timer_list" where
  "timer_fire ins cb tlist t =
     (let tlist = tlist\<lparr>tl_list := tl (tl_list tlist)\<rparr>;
          tlist = tlist\<lparr>tl_timers := (tl_timers tlist)(t :=
                 (tl_timers tlist t)\<lparr>tm_on_list := False, tm_fired := True\<rparr>)\<rparr>
      in timer_ops ins tlist (cb t tlist))"

text \<open>
  The \<^verbatim>\<open>for (;;)\<close> loop of \<^verbatim>\<open>cld_timers_run\<close>; \<open>None\<close> would be a loop that does not end. The second
  component of the result is the sequence of timers fired.
\<close>

partial_function (option) timers_loop ::
    "insert_fn \<Rightarrow> timer_cb \<Rightarrow> int \<Rightarrow> cld_timer_list \<Rightarrow> nat list \<Rightarrow> (cld_timer_list \<times> nat list) option" where
  "timers_loop ins cb now tlist fired =
     (case tl_list tlist of
        [] \<Rightarrow> Some (tlist, fired)
      | t # rest \<Rightarrow>
          if tm_expires (tl_timers tlist t) > now then Some (tlist, fired)
          else timers_loop ins cb now (timer_fire ins cb tlist t) (fired @ [t]))"

definition cld_timers_run ::
    "insert_fn \<Rightarrow> timer_cb \<Rightarrow> int \<Rightarrow> cld_timer_list \<Rightarrow> (int \<times> cld_timer_list \<times> nat list) option" where
  "cld_timers_run ins cb now tlist =
     (case timers_loop ins cb now (tlist\<lparr>tl_runmark := now\<rparr>) [] of
        None \<Rightarrow> None
      | Some (tlist, fired) \<Rightarrow>
          Some (case tl_list tlist of
                  [] \<Rightarrow> 0
                | t # _ \<Rightarrow> if tm_expires (tl_timers tlist t) > now then tm_expires (tl_timers tlist t) - now else 1,
                tlist, fired))"

section \<open>What GLib promises\<close>

locale insert_sorted =
  fixes ins :: insert_fn
  assumes mset_ins: "mset (ins cmp xs x) = add_mset x (mset xs)"
    and sorted_ins:
      "(\<And>a b. cmp a b \<le> 0 \<or> cmp b a \<le> 0) \<Longrightarrow>
       (\<And>a b c. cmp a b \<le> 0 \<Longrightarrow> cmp b c \<le> 0 \<Longrightarrow> cmp a c \<le> 0) \<Longrightarrow>
       sorted_wrt (\<lambda>a b. cmp a b \<le> 0) xs \<Longrightarrow> sorted_wrt (\<lambda>a b. cmp a b \<le> 0) (ins cmp xs x)"

text \<open>
  The invariant: the list is sorted by expiry, holds no timer twice, and the \<^verbatim>\<open>on_list\<close> flags say
  exactly which timers it holds.
\<close>

definition tl_inv :: "cld_timer_list \<Rightarrow> bool" where
  "tl_inv tlist \<longleftrightarrow> distinct (tl_list tlist) \<and> (\<forall>t. tm_on_list (tl_timers tlist t) \<longleftrightarrow> t \<in> set (tl_list tlist)) \<and>
     sorted_wrt (\<lambda>a b. tm_expires (tl_timers tlist a) \<le> tm_expires (tl_timers tlist b)) (tl_list tlist)"

lemma cld_timer_cmp_le [simp]: "cld_timer_cmp a b \<le> 0 \<longleftrightarrow> tm_expires a \<le> tm_expires b"
  by (simp add: cld_timer_cmp_def)

lemma sorted_wrt_remove1: "sorted_wrt P xs \<Longrightarrow> sorted_wrt P (remove1 x xs)"
  by (induction xs) (auto dest: notin_set_remove1 [rotated])

lemma sorted_wrt_cong:
  "(\<And>a b. a \<in> set xs \<Longrightarrow> b \<in> set xs \<Longrightarrow> P a b = Q a b) \<Longrightarrow> sorted_wrt P xs = sorted_wrt Q xs"
  by (induction xs) auto

lemma tl_inv_del: "tl_inv tlist \<Longrightarrow> tl_inv (cld_timer_del tlist t)"
  unfolding tl_inv_def cld_timer_del_def
  by (auto simp: set_remove1_eq intro!: sorted_wrt_remove1 split: if_splits
      elim!: sorted_wrt_mono_rel [rotated])

lemma tl_list_del [simp]: "tl_inv tlist \<Longrightarrow> set (tl_list (cld_timer_del tlist t)) = set (tl_list tlist) - {t}"
  by (auto simp: cld_timer_del_def tl_inv_def)

definition timers_due :: "int \<Rightarrow> cld_timer_list \<Rightarrow> nat set" where
  "timers_due now tlist = {t \<in> set (tl_list tlist). tm_expires (tl_timers tlist t) \<le> now}"

fun timer_op_of :: "timer_op \<Rightarrow> nat" where
  "timer_op_of (Timer_add t e) = t"
| "timer_op_of (Timer_del t) = t"

lemma timers_due_head:
  assumes "tl_inv tlist" and "timers_due now tlist \<noteq> {}"
  shows "\<exists>t rest. tl_list tlist = t # rest \<and> tm_expires (tl_timers tlist t) \<le> now"
  using assms by (cases "tl_list tlist") (fastforce simp: tl_inv_def timers_due_def)+

context insert_sorted
begin

lemma set_ins [simp]: "set (ins cmp xs x) = insert x (set xs)"
  using mset_ins [of cmp xs x] by (metis set_mset_add_mset_insert set_mset_mset)

lemma distinct_ins [simp]: "distinct (ins cmp xs x) \<longleftrightarrow> x \<notin> set xs \<and> distinct xs"
proof -
  have "distinct (ins cmp xs x) \<longleftrightarrow> distinct (x # xs)"
    using mset_ins [of cmp xs x] by (metis mset.simps(2) mset_eq_imp_distinct_iff)
  then show ?thesis by simp
qed

lemma tl_inv_add:
  assumes "tl_inv tlist"
  shows "tl_inv (cld_timer_add ins tlist t e)"
proof -
  let ?ts = "(tl_timers tlist)(t := \<lparr>tm_fired = False, tm_on_list = True,
      tm_expires = (if e < tl_runmark tlist + 1 then tl_runmark tlist + 1 else e)\<rparr>)"
  let ?xs = "if tm_on_list (tl_timers tlist t) then remove1 t (tl_list tlist) else tl_list tlist"
  have xs: "distinct ?xs" "set ?xs = set (tl_list tlist) - {t}"
    using assms by (auto simp: tl_inv_def)
  have "sorted_wrt (\<lambda>a b. tm_expires (tl_timers tlist a) \<le> tm_expires (tl_timers tlist b)) ?xs"
    using assms by (auto simp: tl_inv_def intro: sorted_wrt_remove1)
  then have "sorted_wrt (\<lambda>a b. tm_expires (?ts a) \<le> tm_expires (?ts b)) ?xs"
    using xs(2) by (subst sorted_wrt_cong [where Q = "\<lambda>a b. tm_expires (tl_timers tlist a) \<le> tm_expires (tl_timers tlist b)"]) auto
  then have "sorted_wrt (\<lambda>a b. cld_timer_cmp (?ts a) (?ts b) \<le> 0) (ins (\<lambda>a b. cld_timer_cmp (?ts a) (?ts b)) ?xs t)"
    by (intro sorted_ins) auto
  with assms xs show ?thesis
    unfolding tl_inv_def cld_timer_add_def Let_def by auto
qed

lemma tl_list_add: "tl_inv tlist \<Longrightarrow> set (tl_list (cld_timer_add ins tlist t e)) = insert t (set (tl_list tlist))"
  by (auto simp: cld_timer_add_def Let_def tl_inv_def)

text \<open>
  The argument for termination: an operation can only take timers out of the set that is due,
  because \<^verbatim>\<open>cld_timer_add\<close> never sets an expiry at or before the mark of the current run.
\<close>

lemma timer_ops_due:
  assumes "tl_inv tlist" and "tl_runmark tlist = now"
  shows "tl_inv (timer_ops ins tlist ops) \<and> tl_runmark (timer_ops ins tlist ops) = now \<and>
    timers_due now (timer_ops ins tlist ops) = timers_due now tlist - timer_op_of ` set ops"
  using assms
proof (induction ops arbitrary: tlist)
  case Nil
  then show ?case by simp
next
  case (Cons op ops)
  show ?case
  proof (cases op)
    case (Timer_add t e)
    have "timers_due now (cld_timer_add ins tlist t e) = timers_due now tlist - {t}"
      using Cons.prems tl_list_add
      by (auto simp: timers_due_def cld_timer_add_def Let_def tl_inv_def)
    moreover have "tl_runmark (cld_timer_add ins tlist t e) = now"
      using Cons.prems by (simp add: cld_timer_add_def Let_def)
    ultimately show ?thesis
      using Cons.IH [OF tl_inv_add [OF Cons.prems(1)]] Timer_add by auto
  next
    case (Timer_del t)
    have "timers_due now (cld_timer_del tlist t) = timers_due now tlist - {t}"
      using Cons.prems by (auto simp: timers_due_def cld_timer_del_def tl_inv_def)
    moreover have "tl_runmark (cld_timer_del tlist t) = now"
      using Cons.prems by (simp add: cld_timer_del_def)
    ultimately show ?thesis
      using Cons.IH [OF tl_inv_del [OF Cons.prems(1)]] Timer_del by auto
  qed
qed

lemma timer_fire_due:
  assumes "tl_inv tlist" and "tl_runmark tlist = now" and "tl_list tlist = t # rest"
  shows "tl_inv (timer_fire ins cb tlist t)" and "tl_runmark (timer_fire ins cb tlist t) = now"
    and "\<exists>s. timers_due now (timer_fire ins cb tlist t)
      = timers_due now tlist - insert t (timer_op_of ` set (cb t s))"
proof -
  let ?s = "tlist\<lparr>tl_list := rest, tl_timers := (tl_timers tlist)(t :=
      (tl_timers tlist t)\<lparr>tm_on_list := False, tm_fired := True\<rparr>)\<rparr>"
  have fire: "timer_fire ins cb tlist t = timer_ops ins ?s (cb t ?s)"
    using assms(3) by (simp add: timer_fire_def Let_def)
  have same: "(if a = t then tm_expires (tl_timers tlist t) else tm_expires (tl_timers tlist a))
      = tm_expires (tl_timers tlist a)" for a
    by simp
  have sinv: "tl_inv ?s"
    using assms(1,3) by (auto simp: tl_inv_def if_distrib [of tm_expires] same cong: if_cong)
  have sdue: "timers_due now ?s = timers_due now tlist - {t}"
    using assms(1,3) by (auto simp: timers_due_def tl_inv_def)
  note ops = timer_ops_due [OF sinv, of now "cb t ?s"]
  show "tl_inv (timer_fire ins cb tlist t)" "tl_runmark (timer_fire ins cb tlist t) = now"
    using ops assms(2) by (simp_all add: fire)
  show "\<exists>s. timers_due now (timer_fire ins cb tlist t)
      = timers_due now tlist - insert t (timer_op_of ` set (cb t s))"
    using ops assms(2) sdue fire by auto
qed

lemma timers_loop_returns:
  assumes "tl_inv tlist" and "tl_runmark tlist = now"
  shows "\<exists>tlist' fs. timers_loop ins cb now tlist fired = Some (tlist', fired @ fs) \<and> tl_inv tlist' \<and>
    (\<forall>t \<in> set (tl_list tlist'). now < tm_expires (tl_timers tlist' t)) \<and>
    distinct fs \<and> set fs \<subseteq> timers_due now tlist \<and>
    ((\<forall>t s. timer_op_of ` set (cb t s) \<subseteq> {t}) \<longrightarrow> set fs = timers_due now tlist)"
  using assms
proof (induction "card (timers_due now tlist)" arbitrary: tlist fired rule: less_induct)
  case less
  show ?case
  proof (cases "timers_due now tlist = {}")
    case True
    then have "timers_loop ins cb now tlist fired = Some (tlist, fired)"
      by (subst timers_loop.simps) (auto simp: timers_due_def not_le split: list.splits)
    with less.prems True show ?thesis
      by (intro exI [of _ tlist] exI [of _ "[]"]) (auto simp: timers_due_def not_le)
  next
    case False
    then obtain t rest where list: "tl_list tlist = t # rest" and t: "tm_expires (tl_timers tlist t) \<le> now"
      using less.prems(1) timers_due_head by blast
    let ?n = "timer_fire ins cb tlist t"
    note fire = timer_fire_due [OF less.prems list, of cb]
    obtain s where due: "timers_due now ?n = timers_due now tlist - insert t (timer_op_of ` set (cb t s))"
      using fire(3) by blast
    have mem: "t \<in> timers_due now tlist"
      using list t by (simp add: timers_due_def)
    have "card (timers_due now ?n) < card (timers_due now tlist)"
      using due mem by (intro psubset_card_mono) (auto simp: timers_due_def)
    from less.hyps [OF this fire(1,2), of "fired @ [t]"] obtain l' fs where
      r: "timers_loop ins cb now ?n (fired @ [t]) = Some (l', fired @ t # fs)" "tl_inv l'"
        "\<forall>t \<in> set (tl_list l'). now < tm_expires (tl_timers l' t)" "distinct fs"
        "set fs \<subseteq> timers_due now ?n"
        "(\<forall>t s. timer_op_of ` set (cb t s) \<subseteq> {t}) \<longrightarrow> set fs = timers_due now ?n"
      by (simp, blast)
    have "timers_loop ins cb now tlist fired = Some (l', fired @ t # fs)"
      using list t r(1) by (subst timers_loop.simps) simp
    moreover have "set (t # fs) = timers_due now tlist" if self: "\<forall>t s. timer_op_of ` set (cb t s) \<subseteq> {t}"
    proof -
      have "insert t (timer_op_of ` set (cb t s)) = {t}"
        using self by blast
      with r(6) self due have "set fs = timers_due now tlist - {t}"
        by metis
      with mem show ?thesis by auto
    qed
    moreover have "distinct (t # fs)" and "set (t # fs) \<subseteq> timers_due now tlist"
      using r(4,5) due mem by auto
    ultimately show ?thesis
      using r(2,3) by blast
  qed
qed

end

text \<open>
  A concrete insertion with GLib's contract: walk past the elements that sort strictly before
  the new one, and insert there.
\<close>

fun list_insert_sorted :: insert_fn where
  "list_insert_sorted cmp [] x = [x]"
| "list_insert_sorted cmp (y # ys) x = (if cmp x y > 0 then y # list_insert_sorted cmp ys x else x # y # ys)"

lemma mset_list_insert_sorted: "mset (list_insert_sorted cmp xs x) = add_mset x (mset xs)"
  by (induction xs) auto

lemma set_list_insert_sorted: "set (list_insert_sorted cmp xs x) = insert x (set xs)"
  by (induction xs) auto

lemma sorted_list_insert_sorted:
  assumes tot: "\<And>a b. cmp a b \<le> 0 \<or> cmp b a \<le> 0"
    and trans: "\<And>a b c. cmp a b \<le> 0 \<Longrightarrow> cmp b c \<le> 0 \<Longrightarrow> cmp a c \<le> (0 :: int)"
  shows "sorted_wrt (\<lambda>a b. cmp a b \<le> 0) xs \<Longrightarrow> sorted_wrt (\<lambda>a b. cmp a b \<le> 0) (list_insert_sorted cmp xs x)"
proof (induction xs)
  case (Cons y ys)
  show ?case
  proof (cases "cmp x y > 0")
    case True
    then have "cmp y x \<le> 0" using tot [of x y] by simp
    with Cons True show ?thesis by (auto simp: set_list_insert_sorted)
  next
    case False
    with Cons trans show ?thesis by (auto simp: not_less)
  qed
qed simp

interpretation li: insert_sorted list_insert_sorted
  by unfold_locales (simp_all add: mset_list_insert_sorted sorted_list_insert_sorted)

section \<open>Properties\<close>

definition tl_ex :: cld_timer_list where
  "tl_ex = \<lparr>tl_list = [3, 1, 2], tl_runmark = 0, tl_timers = (\<lambda>t.
     if t = 3 then \<lparr>tm_fired = False, tm_on_list = True, tm_expires = 5\<rparr>
     else if t = 1 then \<lparr>tm_fired = False, tm_on_list = True, tm_expires = 10\<rparr>
     else if t = 2 then \<lparr>tm_fired = False, tm_on_list = True, tm_expires = 30\<rparr>
     else cld_timer_init)\<rparr>"

lemma tl_ex_inv: "tl_inv tl_ex"
  by (auto simp: tl_inv_def tl_ex_def cld_timer_init_def)

text \<open>
  \<^verbatim>\<open>cld_timer_add\<close> keeps the list sorted and duplicate-free with correct \<^verbatim>\<open>on_list\<close> flags,
  whether or not the timer was already queued. Afterwards the timer is queued, not fired, and
  expires at the requested time, but never before the second after the last run.
\<close>

theorem cld_timer_add_ok:
  assumes "insert_sorted ins" and "tl_inv tlist"
  shows "tl_inv (cld_timer_add ins tlist t e) \<and>
    set (tl_list (cld_timer_add ins tlist t e)) = insert t (set (tl_list tlist)) \<and>
    tl_timers (cld_timer_add ins tlist t e) = (tl_timers tlist)(t :=
      \<lparr>tm_fired = False, tm_on_list = True, tm_expires = max e (tl_runmark tlist + 1)\<rparr>)"
proof -
  have "(if e < tl_runmark tlist + 1 then tl_runmark tlist + 1 else e) = max e (tl_runmark tlist + 1)"
    by simp
  then have "tl_timers (cld_timer_add ins tlist t e) = (tl_timers tlist)(t :=
      \<lparr>tm_fired = False, tm_on_list = True, tm_expires = max e (tl_runmark tlist + 1)\<rparr>)"
    unfolding cld_timer_add_def Let_def by simp
  then show ?thesis
    using insert_sorted.tl_inv_add [OF assms] insert_sorted.tl_list_add [OF assms] by blast
qed

theorem cld_timer_add_ok_witness:
  "tl_inv (cld_timer_add list_insert_sorted tl_ex 2 7) \<and>
   tl_list (cld_timer_add list_insert_sorted tl_ex 2 7) = [3, 2, 1]"
  using cld_timer_add_ok [OF li.insert_sorted_axioms tl_ex_inv, of 2 7]
  by (simp add: cld_timer_add_def tl_ex_def cld_timer_cmp_def)



end
