(* ===== verification/Uri.thy ===== *)
theory Uri
  imports Prelude
begin

text \<open>
  URI handling of \<^verbatim>\<open>lib/huri.c\<close>: the splitter \<^verbatim>\<open>huri_parse\<close> and the percent codec. Strings are
  byte lists without the terminating NUL; the reader's pointer is an offset, and reading at the
  end yields the NUL. \<open>huri_field_unescape\<close> works in place: it is modelled on the buffer, with its
  source and destination offsets, and shown equal to a reference decoder on lists.
\<close>

section \<open>Percent codec\<close>

text \<open>The two chains of range tests on a hexadecimal digit; \<open>None\<close> is the \<^verbatim>\<open>goto regular_copy\<close>.\<close>

definition hex_digit :: "u8 \<Rightarrow> u8 option" where
  "hex_digit c =
     (if 97 \<le> c \<and> c \<le> 102 then Some (c - 97 + 10)
      else if 65 \<le> c \<and> c \<le> 70 then Some (c - 65 + 10)
      else if 48 \<le> c \<and> c \<le> 57 then Some (c - 48)
      else None)"

definition hex_pair :: "u8 \<Rightarrow> u8 \<Rightarrow> u8 option" where
  "hex_pair a b =
     (case hex_digit a of
        None \<Rightarrow> None
      | Some high \<Rightarrow> (case hex_digit b of None \<Rightarrow> None | Some low \<Rightarrow> Some (push_bit 4 high + low)))"

text \<open>\<open>s\<close> is the buffer, \<open>src\<close> and \<open>dst\<close> the two pointers as offsets. The result is the new
  length and the buffer.\<close>

function unescape_loop :: "bytes \<Rightarrow> nat \<Rightarrow> nat \<Rightarrow> nat \<Rightarrow> nat \<Rightarrow> nat \<times> bytes" where
  "unescape_loop s src dst dst_len s_len =
     (if s_len = 0 then (dst_len, s)
      else if s ! src = 37 \<and> s_len > 2 then
        (case hex_pair (s ! (src + 1)) (s ! (src + 2)) of
           Some c \<Rightarrow> unescape_loop (s[dst := c]) (src + 3) (dst + 1) (dst_len + 1) (s_len - 3)
         | None \<Rightarrow>
             unescape_loop (if dst \<noteq> src then s[dst := s ! src] else s) (src + 1) (dst + 1)
               (dst_len + 1) (s_len - 1))
      else
        unescape_loop (if dst \<noteq> src then s[dst := s ! src] else s) (src + 1) (dst + 1)
          (dst_len + 1) (s_len - 1))"
  by pat_completeness auto
termination
  by (relation "measure (\<lambda>(s, src, dst, dst_len, s_len). s_len)") auto

declare unescape_loop.simps [simp del]

definition huri_field_unescape :: "bytes \<Rightarrow> nat \<Rightarrow> nat \<times> bytes" where
  "huri_field_unescape s s_len = unescape_loop s 0 0 0 s_len"

definition neednt_escape_table :: "u8 list" where
  "neednt_escape_table =
    [0x00, 0x00, 0x00, 0x00, 0x00, 0x00, 0x00, 0x00, 0x00, 0x00, 0x00, 0x00, 0x00, 0x00, 0x00, 0x00,
     0x00, 0x00, 0x00, 0x00, 0x00, 0x00, 0x00, 0x00, 0x00, 0x00, 0x00, 0x00, 0x00, 0x00, 0x00, 0x00,
     0x00, 0x0f, 0x00, 0x00, 0x0f, 0x00, 0x0f, 0x0f, 0x0f, 0x0f, 0x0f, 0x0f, 0x0f, 0x0f, 0x0f, 0x0e,
     0x0f, 0x0f, 0x0f, 0x0f, 0x0f, 0x0f, 0x0f, 0x0f, 0x0f, 0x0f, 0x0f, 0x0f, 0x00, 0x0f, 0x00, 0x0c,
     0x0e, 0x0f, 0x0f, 0x0f, 0x0f, 0x0f, 0x0f, 0x0f, 0x0f, 0x0f, 0x0f, 0x0f, 0x0f, 0x0f, 0x0f, 0x0f,
     0x0f, 0x0f, 0x0f, 0x0f, 0x0f, 0x0f, 0x0f, 0x0f, 0x0f, 0x0f, 0x0f, 0x00, 0x0f, 0x00, 0x00, 0x0f,
     0x00, 0x0f, 0x0f, 0x0f, 0x0f, 0x0f, 0x0f, 0x0f, 0x0f, 0x0f, 0x0f, 0x0f, 0x0f, 0x0f, 0x0f, 0x0f,
     0x0f, 0x0f, 0x0f, 0x0f, 0x0f, 0x0f, 0x0f, 0x0f, 0x0f, 0x0f, 0x0f, 0x00, 0x00, 0x00, 0x0f, 0x00,
     0x00, 0x00, 0x00, 0x00, 0x00, 0x00, 0x00, 0x00, 0x00, 0x00, 0x00, 0x00, 0x00, 0x00, 0x00, 0x00,
     0x00, 0x00, 0x00, 0x00, 0x00, 0x00, 0x00, 0x00, 0x00, 0x00, 0x00, 0x00, 0x00, 0x00, 0x00, 0x00,
     0x00, 0x00, 0x00, 0x00, 0x00, 0x00, 0x00, 0x00, 0x00, 0x00, 0x00, 0x00, 0x00, 0x00, 0x00, 0x00,
     0x00, 0x00, 0x00, 0x00, 0x00, 0x00, 0x00, 0x00, 0x00, 0x00, 0x00, 0x00, 0x00, 0x00, 0x00, 0x00,
     0x00, 0x00, 0x00, 0x00, 0x00, 0x00, 0x00, 0x00, 0x00, 0x00, 0x00, 0x00, 0x00, 0x00, 0x00, 0x00,
     0x00, 0x00, 0x00, 0x00, 0x00, 0x00, 0x00, 0x00, 0x00, 0x00, 0x00, 0x00, 0x00, 0x00, 0x00, 0x00,
     0x00, 0x00, 0x00, 0x00, 0x00, 0x00, 0x00, 0x00, 0x00, 0x00, 0x00, 0x00, 0x00, 0x00, 0x00, 0x00,
     0x00, 0x00, 0x00, 0x00, 0x00, 0x00, 0x00, 0x00, 0x00, 0x00, 0x00, 0x00, 0x00, 0x00, 0x00, 0x00]"

definition neednt_escape :: "u8 \<Rightarrow> u8 \<Rightarrow> bool" where
  "neednt_escape msk c \<longleftrightarrow> has_flag (neednt_escape_table ! unat c) msk"

definition PATH_ESCAPE_MASK :: u8 where [cfg_simps]: "PATH_ESCAPE_MASK = 0x02"
definition QUERY_ESCAPE_MASK :: u8 where [cfg_simps]: "QUERY_ESCAPE_MASK = 0x04"

fun escape_len :: "u8 \<Rightarrow> bytes \<Rightarrow> nat \<times> bool" where
  "escape_len msk [] = (0, False)"
| "escape_len msk (c # str) =
     (case escape_len msk str of
        (len, must_escape) \<Rightarrow>
          if neednt_escape msk c then (len + 1, must_escape) else (len + 3, True))"

definition hex_char :: "u8 \<Rightarrow> u8" where
  "hex_char n = (if n < 10 then n + 48 else n + 97 - 10)"

fun escape_copy :: "u8 \<Rightarrow> bytes \<Rightarrow> bytes" where
  "escape_copy msk [] = []"
| "escape_copy msk (c # str) =
     (if neednt_escape msk c then c # escape_copy msk str
      else 37 # hex_char (drop_bit 4 (c AND 0xf0)) # hex_char (c AND 0x0f) # escape_copy msk str)"

text \<open>The argument may be \<^verbatim>\<open>NULL\<close>; \<open>mem_ok\<close> tells whether the one allocation succeeds.\<close>

definition huri_field_escape :: "bool \<Rightarrow> bytes option \<Rightarrow> u8 \<Rightarrow> bytes option" where
  "huri_field_escape mem_ok signed_str msk =
     (case signed_str of
        None \<Rightarrow> None
      | Some str \<Rightarrow>
          (case escape_len msk str of
             (len, must_escape) \<Rightarrow>
               if \<not> mem_ok then None
               else if \<not> must_escape then Some str
               else Some (escape_copy msk str)))"

section \<open>Splitting a URI\<close>

type_synonym tok = "(nat \<times> nat) option"   \<comment> \<open>offset and length, or \<^verbatim>\<open>NULL\<close>\<close>

record http_uri =
  uri_scheme :: tok
  uri_userinfo :: tok
  uri_hostname :: tok
  uri_port :: u32
  uri_path :: tok
  uri_query :: tok
  uri_fragment :: "nat option"

definition uri_empty :: http_uri where
  "uri_empty = \<lparr>uri_scheme = None, uri_userinfo = None, uri_hostname = None, uri_port = 0,
     uri_path = None, uri_query = None, uri_fragment = None\<rparr>"

definition ISSPACE :: "u8 \<Rightarrow> bool" where
  "ISSPACE c \<longleftrightarrow> (c \<ge> 9 \<and> c \<le> 13) \<or> c = 32"

text \<open>\<open>chr_at t p\<close> is \<^verbatim>\<open>*p\<close>; \<open>skip_to stop t p\<close> is \<^verbatim>\<open>while (*p && !stop(*p)) ++p\<close>.\<close>

definition chr_at :: "bytes \<Rightarrow> nat \<Rightarrow> u8" where
  "chr_at t p = (if p < length t then t ! p else 0)"

definition skip_to :: "(u8 \<Rightarrow> bool) \<Rightarrow> bytes \<Rightarrow> nat \<Rightarrow> nat" where
  "skip_to stop t p = p + length (takeWhile (\<lambda>c. c \<noteq> 0 \<and> \<not> stop c) (drop p t))"

fun port_digits :: "u32 \<Rightarrow> bytes \<Rightarrow> u32 \<times> nat" where
  "port_digits port [] = (port, 0)"
| "port_digits port (c # cs) =
     (if 48 \<le> c \<and> c \<le> 57
      then (case port_digits (port * 10 + (ucast c - 48)) cs of (port, n) \<Rightarrow> (port, Suc n))
      else (port, 0))"

text \<open>The part of \<^verbatim>\<open>huri_parse\<close> behind the label \<^verbatim>\<open>path:\<close>.\<close>

definition huri_path :: "http_uri \<Rightarrow> bytes \<Rightarrow> nat \<Rightarrow> http_uri" where
  "huri_path uri t p =
     (let temp = p;
          p = skip_to (\<lambda>c. c = 63 \<or> c = 35) t p;
          uri = (if p \<noteq> temp then uri\<lparr>uri_path := Some (temp, p - temp)\<rparr> else uri);
          (uri, p) =
            (if chr_at t p = 63
             then let temp = p + 1; p = skip_to (\<lambda>c. c = 35) t p
                  in (uri\<lparr>uri_query := Some (temp, p - temp)\<rparr>, p)
             else (uri, p))
      in if chr_at t p = 35 then uri\<lparr>uri_fragment := Some (p + 1)\<rparr> else uri)"

text \<open>Port, after the host name.\<close>

definition huri_port :: "http_uri \<Rightarrow> bytes \<Rightarrow> nat \<Rightarrow> http_uri" where
  "huri_port uri t p =
     (if chr_at t p = 58
      then (case port_digits (uri_port uri) (drop (p + 1) t) of
              (port, n) \<Rightarrow> huri_path (uri\<lparr>uri_port := port\<rparr>) t (p + 1 + n))
      else huri_path uri t p)"

definition huri_hostname :: "http_uri \<Rightarrow> bytes \<Rightarrow> nat \<Rightarrow> http_uri option" where
  "huri_hostname uri t p =
     (if chr_at t p = 47 then Some (huri_path uri t p)
      else if chr_at t p = 91 then
        let p = p + 1; temp = p; p = skip_to (\<lambda>c. c = 93) t p in
        if p - temp = 0 then None
        else
          let uri = uri\<lparr>uri_hostname := Some (temp, p - temp)\<rparr>;
              p = (if chr_at t p \<noteq> 0 then p + 1 else p)
          in Some (huri_port uri t p)
      else
        let temp = p; p = skip_to (\<lambda>c. c = 47 \<or> c = 63 \<or> c = 35 \<or> c = 58) t p in
        if p - temp = 0 then None
        else Some (huri_port (uri\<lparr>uri_hostname := Some (temp, p - temp)\<rparr>) t p))"

definition huri_authority :: "http_uri \<Rightarrow> bytes \<Rightarrow> nat \<Rightarrow> http_uri option" where
  "huri_authority uri t p =
     (if chr_at t p = 47 \<and> chr_at t (p + 1) = 47 then
        let p = p + 2; temp = p;
            p = skip_to (\<lambda>c. c = 64 \<or> c = 47) t p
        in if chr_at t p = 64
           then huri_hostname (uri\<lparr>uri_userinfo := Some (temp, p - temp)\<rparr>) t (p + 1)
           else huri_hostname uri t temp
      else Some (huri_path uri t p))"

definition huri_parse :: "bytes \<Rightarrow> http_uri option" where
  "huri_parse uri_text =
     (let p = skip_to (\<lambda>c. \<not> ISSPACE c) uri_text 0 in
      if chr_at uri_text p = 0 then None
      else
        let temp = p;
            p = skip_to (\<lambda>c. c = 58 \<or> c = 47 \<or> c = 63 \<or> c = 35) uri_text p
        in if chr_at uri_text p = 58
           then huri_authority (uri_empty\<lparr>uri_scheme := Some (temp, p - temp)\<rparr>) uri_text (p + 1)
           else huri_authority uri_empty uri_text temp)"

section \<open>The codec against a reference\<close>

fun unescape_ref :: "bytes \<Rightarrow> bytes" where
  "unescape_ref (c # a # b # r) =
     (if c = 37
      then (case hex_pair a b of Some d \<Rightarrow> d # unescape_ref r | None \<Rightarrow> c # unescape_ref (a # b # r))
      else c # unescape_ref (a # b # r))"
| "unescape_ref (c # r) = c # unescape_ref r"
| "unescape_ref [] = []"

lemma length_unescape_ref: "length (unescape_ref s) \<le> length s"
  by (induction s rule: unescape_ref.induct) (auto split: option.splits)

lemma unescape_ref_regular:
  "c \<noteq> 37 \<or> length r \<le> 1 \<Longrightarrow> unescape_ref (c # r) = c # unescape_ref r"
  by (cases r rule: unescape_ref.cases) auto

text \<open>One character copied: the unread part of the buffer is untouched because the destination
  never overtakes the source.\<close>

lemma copy_step:
  assumes "dst \<le> src" and "src < length s" and "src < src'"
  shows "drop src' (s[dst := c]) = drop src' s"
    and "take (Suc dst) (s[dst := c]) = take dst s @ [c]"
    and "(if dst \<noteq> src then s[dst := s ! src] else s) = s[dst := s ! src]"
  using assms by (auto simp: take_Suc_conv_app_nth)

lemma unescape_loop_ref:
  assumes "src + n \<le> length s" and "dst \<le> src"
  shows "unescape_loop s src dst dl n =
    (let r = unescape_ref (take n (drop src s))
     in (dl + length r, take dst s @ r @ drop (dst + length r) s))"
  using assms
proof (induction s src dst dl n rule: unescape_loop.induct)
  case (1 s src dst dl n)
  show ?case
  proof (cases "n = 0")
    case True
    then show ?thesis by (subst unescape_loop.simps) simp
  next
    case False
    then have src: "src < length s" using 1(4) by simp
    have put: "take (Suc dst) (s[dst := c]) @ r @ drop (Suc dst + length r) (s[dst := c]) =
        take dst s @ (c # r) @ drop (dst + length (c # r)) s" for c r
      using copy_step(2) [OF 1(5) src, of "Suc src" c] 1(5) src by simp
    have one: "take n (drop src s) = s ! src # take (n - 1) (drop (Suc src) s)"
      using False src by (cases n) (simp_all add: Cons_nth_drop_Suc [symmetric])
    have regular: "unescape_loop (if dst \<noteq> src then s[dst := s ! src] else s) (src + 1) (dst + 1) (dl + 1) (n - 1) =
        (let r = s ! src # unescape_ref (take (n - 1) (drop (Suc src) s))
         in (dl + length r, take dst s @ r @ drop (dst + length r) s))"
      if ih: "unescape_loop (s[dst := s ! src]) (src + 1) (dst + 1) (dl + 1) (n - 1) =
        (let r = unescape_ref (take (n - 1) (drop (src + 1) (s[dst := s ! src])))
         in (dl + 1 + length r, take (dst + 1) (s[dst := s ! src]) @ r @
             drop (dst + 1 + length r) (s[dst := s ! src])))"
      using ih put [of "s ! src"] 1(5) unfolding copy_step(3) [OF 1(5) src lessI]
      by (simp add: Let_def)
    show ?thesis
    proof (cases "s ! src = 37 \<and> n > 2")
      case True
      then have len: "src + 2 < length s" using 1(4) by simp
      obtain m where n: "n = Suc (Suc (Suc m))" using True by (metis less_imp_Suc_add add_2_eq_Suc add_Suc_shift)
      have three: "take n (drop src s) = 37 # s ! (src + 1) # s ! (src + 2) # take m (drop (src + 3) s)"
        using len True n by (simp add: Cons_nth_drop_Suc [symmetric] numeral_3_eq_3)
      show ?thesis
      proof (cases "hex_pair (s ! (src + 1)) (s ! (src + 2))")
        case None
        have ih: "unescape_loop (s[dst := s ! src]) (src + 1) (dst + 1) (dl + 1) (n - 1) =
            (let r = unescape_ref (take (n - 1) (drop (src + 1) (s[dst := s ! src])))
             in (dl + 1 + length r, take (dst + 1) (s[dst := s ! src]) @ r @
                 drop (dst + 1 + length r) (s[dst := s ! src])))"
          using 1(1) [OF False True None] 1(4,5) False unfolding copy_step(3) [OF 1(5) src lessI]
          by (simp del: take_update_swap)
        have two: "take (n - 1) (drop (Suc src) s) = s ! (src + 1) # s ! (src + 2) # take m (drop (src + 3) s)"
          using one three by simp
        have "unescape_ref (take n (drop src s)) = s ! src # unescape_ref (take (n - 1) (drop (Suc src) s))"
          unfolding one two using None True by simp
        then show ?thesis
          using regular [OF ih] False True None by (subst unescape_loop.simps) simp
      next
        case (Some c)
        have "unescape_loop (s[dst := c]) (src + 3) (dst + 1) (dl + 1) (n - 3) =
          (let r = unescape_ref (take (n - 3) (drop (src + 3) s))
           in (dl + 1 + length r, take (Suc dst) (s[dst := c]) @ r @ drop (Suc dst + length r) (s[dst := c])))"
          using 1(2) [OF False True Some] 1(4,5) True copy_step(1) [OF 1(5) src, of "src + 3" c]
          by simp
        then show ?thesis
          using put [of c] False True Some three n by (subst unescape_loop.simps) (simp add: Let_def)
      qed
    next
      case special: False
      have "unescape_ref (take n (drop src s)) = s ! src # unescape_ref (take (n - 1) (drop (Suc src) s))"
        unfolding one using special by (intro unescape_ref_regular) auto
      moreover have ih: "unescape_loop (s[dst := s ! src]) (src + 1) (dst + 1) (dl + 1) (n - 1) =
            (let r = unescape_ref (take (n - 1) (drop (src + 1) (s[dst := s ! src])))
             in (dl + 1 + length r, take (dst + 1) (s[dst := s ! src]) @ r @
                 drop (dst + 1 + length r) (s[dst := s ! src])))"
        using 1(3) [OF False special] 1(4,5) False unfolding copy_step(3) [OF 1(5) src lessI]
        by (simp del: take_update_swap)
      ultimately show ?thesis
        using regular [OF ih] False special by (subst unescape_loop.simps) auto
    qed
  qed
qed

lemma hex_char_digit: "n < 16 \<Longrightarrow> hex_digit (hex_char n) = Some n"
proof -
  assume "n < 16"
  then have less: "unat n \<in> set [0..<16]" by (simp add: word_less_nat_alt)
  have "\<forall>k \<in> set [0..<16]. hex_digit (hex_char (word_of_nat k)) = Some (word_of_nat k)"
    by code_simp
  from this [rule_format, OF less] show ?thesis by simp
qed

lemma low_nibble: "c AND 0x0f = take_bit 4 (c :: u8)"
  by (simp add: take_bit_eq_mask mask_eq_exp_minus_1)

lemma high_nibble: "drop_bit 4 (c AND 0xf0) = take_bit 4 (drop_bit 4 (c :: u8))"
  using low_nibble [of "drop_bit 4 c"] by simp

lemma nibbles: "push_bit 4 (take_bit 4 (drop_bit 4 c)) + take_bit 4 c = (c :: u8)"
proof -
  have "take_bit 4 (drop_bit 4 c) = drop_bit 4 c"
    by (rule bit_word_eqI) (auto simp: bit_simps dest: bit_imp_le_length)
  then show ?thesis by (simp add: bits_ident)
qed

lemma nibble_less: "take_bit 4 c < (16 :: u8)"
  using take_bit_nat_less_exp [of 4 "unat c"] by (simp add: word_less_nat_alt unsigned_take_bit_eq)

lemma hex_pair_char: "hex_pair (hex_char (drop_bit 4 (c AND 0xf0))) (hex_char (c AND 0x0f)) = Some c"
  unfolding low_nibble high_nibble
  using nibbles [of c] by (simp add: hex_pair_def hex_char_digit nibble_less)

lemma percent_needs_escape: "\<not> neednt_escape msk 37"
  by (simp add: neednt_escape_def neednt_escape_table_def has_flag_def)

lemma unescape_escape_copy: "unescape_ref (escape_copy msk str) = str"
proof (induction str)
  case (Cons c str)
  then show ?case
  proof (cases "neednt_escape msk c")
    case True
    then have "c \<noteq> 37" using percent_needs_escape by auto
    with True Cons show ?thesis by (simp add: unescape_ref_regular)
  next
    case False
    with Cons show ?thesis using hex_pair_char [of c] by simp
  qed
qed simp

lemma escape_len_copy:
  "escape_len msk str = (length (escape_copy msk str), \<exists>c \<in> set str. \<not> neednt_escape msk c)"
  by (induction str) auto

lemma escape_copy_id: "\<forall>c \<in> set str. neednt_escape msk c \<Longrightarrow> escape_copy msk str = str"
  by (induction str) auto

section \<open>The splitter on a composed URI\<close>

lemma chr_at_mid [simp]: "chr_at (pre @ c # r) (length pre) = c"
  by (simp add: chr_at_def)

lemma chr_at_end [simp]: "chr_at t (length t) = 0"
  by (simp add: chr_at_def)

lemma skip_to_stop:
  assumes "t = pre @ a @ c # r" and "p = length pre" and "\<forall>x \<in> set a. x \<noteq> 0 \<and> \<not> stop x" and "stop c"
  shows "skip_to stop t p = length (pre @ a)"
  using assms by (simp add: skip_to_def takeWhile_tail)

lemma skip_to_end:
  assumes "t = pre @ a" and "p = length pre" and "\<forall>x \<in> set a. x \<noteq> 0 \<and> \<not> stop x"
  shows "skip_to stop t p = length t"
  using assms by (simp add: skip_to_def takeWhile_eq_all_conv [THEN iffD2])

text \<open>The bytes a token denotes.\<close>

definition tok_text :: "bytes \<Rightarrow> tok \<Rightarrow> bytes option" where
  "tok_text t k = map_option (\<lambda>(off, n). take n (drop off t)) k"

lemma tok_textI: "t = pre @ a @ r \<Longrightarrow> n = length pre \<Longrightarrow> tok_text t (Some (n, length a)) = Some a"
  by (simp add: tok_text_def)

definition free_of :: "bytes \<Rightarrow> bytes \<Rightarrow> bool" where
  "free_of bad a \<longleftrightarrow> (\<forall>x \<in> set a. x \<noteq> 0 \<and> x \<notin> set bad)"

lemma huri_path_split:
  assumes t: "t = pre @ path @ 63 # query" and p: "p = length pre"
    and path: "path \<noteq> []" "free_of [63, 35] path" and query: "free_of [35] query"
  shows "huri_path uri t p = uri\<lparr>uri_path := Some (length pre, length path),
    uri_query := Some (length pre + length path + 1, length query)\<rparr>"
proof -
  have 1: "skip_to (\<lambda>c. c = 63 \<or> c = 35) t p = length (pre @ path)"
    using t p path(2) by (intro skip_to_stop [of t pre path 63 query]) (auto simp: free_of_def)
  have 2: "skip_to (\<lambda>c. c = 35) t (length (pre @ path)) = length t"
    using t query by (intro skip_to_end [of t "pre @ path" "63 # query"]) (auto simp: free_of_def)
  have 3: "chr_at t (length (pre @ path)) = 63"
    using chr_at_mid [of "pre @ path" 63 query] t by simp
  have 4: "chr_at t (length t) \<noteq> 35" by simp
  have 5: "length t = length pre + length path + 1 + length query" using t by simp
  show ?thesis
    using 1 2 3 4 5 path(1) p by (simp add: huri_path_def Let_def)
qed

lemma port_digits_run:
  assumes "\<forall>c \<in> set ds. 48 \<le> c \<and> c \<le> 57" and "\<not> (48 \<le> c \<and> c \<le> 57)"
  shows "port_digits n (ds @ c # r) = (foldl (\<lambda>v d. v * 10 + (ucast d - 48)) n ds, length ds)"
  using assms by (induction ds arbitrary: n) auto

lemma huri_port_split:
  assumes t: "t = pre @ 58 # ds @ path @ 63 # query" and p: "p = length pre"
    and ds: "\<forall>c \<in> set ds. 48 \<le> c \<and> c \<le> 57"
    and path: "path \<noteq> []" "hd path = 47" "free_of [63, 35] path" and query: "free_of [35] query"
    and uri: "uri_port uri = 0"
  shows "huri_port uri t p = uri\<lparr>uri_port := foldl (\<lambda>v d. v * 10 + (ucast d - 48)) 0 ds,
    uri_path := Some (length pre + 1 + length ds, length path),
    uri_query := Some (length pre + 1 + length ds + length path + 1, length query)\<rparr>"
proof -
  obtain path' where pa: "path = 47 # path'" using path(1,2) by (cases path) auto
  have "drop (p + 1) t = ds @ 47 # (path' @ 63 # query)" using t p pa by simp
  then have 1: "port_digits (uri_port uri) (drop (p + 1) t) =
      (foldl (\<lambda>v d. v * 10 + (ucast d - 48)) 0 ds, length ds)"
    using port_digits_run [OF ds, of 47] uri by simp
  have 2: "huri_path u t (p + 1 + length ds) = u\<lparr>uri_path := Some (length pre + 1 + length ds, length path),
      uri_query := Some (length pre + 1 + length ds + length path + 1, length query)\<rparr>" for u
    using huri_path_split [of t "pre @ 58 # ds" path query "p + 1 + length ds" u] t p path query by simp
  show ?thesis
    using 1 2 t p chr_at_mid [of pre 58] by (simp add: huri_port_def)
qed

lemma chr_at_first: "t = pre @ a @ r \<Longrightarrow> a \<noteq> [] \<Longrightarrow> chr_at t (length pre) = hd a"
  by (cases a) auto

text \<open>
  \<open>huri_parse\<close> recovers the parts of a URI \<^verbatim>\<open>scheme://host:port/path?query\<close>: for parts that
  do not contain the delimiters that end them, every token denotes the part it was composed
  from, the port is its decimal value, and there is neither user info nor a fragment.
\<close>

theorem huri_parse_composed:
  assumes "free_of [58, 47, 63, 35] scheme" and "scheme \<noteq> []" and "\<not> ISSPACE (hd scheme)"
    and "free_of [47, 63, 35, 58, 64] host" and "host \<noteq> []" and "hd host \<noteq> 91"
    and "\<forall>c \<in> set ds. 48 \<le> c \<and> c \<le> 57"
    and "path \<noteq> []" and "hd path = 47" and "free_of [63, 35] path" and "free_of [35] query"
    and t: "t = scheme @ [58, 47, 47] @ host @ [58] @ ds @ path @ [63] @ query"
  shows "\<exists>uri. huri_parse t = Some uri \<and>
    tok_text t (uri_scheme uri) = Some scheme \<and> tok_text t (uri_hostname uri) = Some host \<and>
    uri_port uri = foldl (\<lambda>v d. v * 10 + (ucast d - 48)) 0 ds \<and>
    tok_text t (uri_path uri) = Some path \<and> tok_text t (uri_query uri) = Some query \<and>
    uri_userinfo uri = None \<and> uri_fragment uri = None"
proof -
  let ?n = "length scheme"
  have t1: "t = scheme @ 58 # [47, 47] @ host @ [58] @ ds @ path @ [63] @ query" using t by simp
  have t3: "t = (scheme @ [58, 47, 47]) @ host @ 58 # ds @ path @ 63 # query" using t by simp
  obtain path' where pa: "path = 47 # path'" using assms(8,9) by (cases path) auto
  have first: "chr_at t 0 = hd scheme" "hd scheme \<noteq> 0"
    using chr_at_first [of t "[]" scheme] t assms(1,2) by (auto simp: free_of_def)
  then have 0: "skip_to (\<lambda>c. \<not> ISSPACE c) t 0 = 0"
    using assms(2,3) t by (cases scheme) (auto simp: skip_to_def)
  have 1: "skip_to (\<lambda>c. c = 58 \<or> c = 47 \<or> c = 63 \<or> c = 35) t 0 = ?n"
    using skip_to_stop [of t "[]" scheme 58] t1 assms(1) by (simp add: free_of_def)
  have 2: "chr_at t ?n = 58" "chr_at t (?n + 1) = 47" "chr_at t (?n + 2) = 47"
    using t by (auto simp: chr_at_def nth_append)
  have digit: "c \<noteq> 0 \<and> c \<noteq> 64 \<and> c \<noteq> 47" if "c \<in> set ds" for c
    using assms(7) that by fastforce
  have 3: "skip_to (\<lambda>c. c = 64 \<or> c = 47) t (?n + 3) = length (scheme @ [58, 47, 47] @ host @ 58 # ds)"
    using t pa assms(4) digit
    by (subst skip_to_stop [of t "scheme @ [58, 47, 47]" "host @ 58 # ds" 47 "path' @ [63] @ query" "?n + 3" "\<lambda>c. c = 64 \<or> c = 47"])
      (simp_all add: free_of_def ball_Un)
  have 4: "chr_at t (length (scheme @ [58, 47, 47] @ host @ 58 # ds)) = 47"
    using chr_at_mid [of "scheme @ [58, 47, 47] @ host @ 58 # ds" 47 "path' @ [63] @ query"] t pa by simp
  have 5: "chr_at t (?n + 3) = hd host"
    using chr_at_first [OF t3 assms(5)] by (simp add: numeral_3_eq_3)
  have host1: "hd host \<noteq> 47"
    using hd_in_set [OF assms(5)] assms(4) unfolding free_of_def by force
  have 6: "skip_to (\<lambda>c. c = 47 \<or> c = 63 \<or> c = 35 \<or> c = 58) t (?n + 3) = ?n + 3 + length host"
    using assms(4) by (subst skip_to_stop [OF t3]) (simp_all add: free_of_def)
  have 7: "uri_port u = 0 \<Longrightarrow> huri_port u t (?n + 3 + length host) =
      u\<lparr>uri_port := foldl (\<lambda>v d. v * 10 + (ucast d - 48)) 0 ds,
        uri_path := Some (?n + 3 + length host + 1 + length ds, length path),
        uri_query := Some (?n + 3 + length host + 1 + length ds + length path + 1, length query)\<rparr>" for u
    using huri_port_split [of t "scheme @ [58, 47, 47] @ host" ds path query "?n + 3 + length host" u]
      t assms(7-11) by (simp add: add.assoc)
  let ?fin = "\<lambda>u. u\<lparr>uri_hostname := Some (?n + 3, length host),
      uri_port := foldl (\<lambda>v d. v * 10 + (ucast d - 48)) 0 ds,
      uri_path := Some (?n + 3 + length host + 1 + length ds, length path),
      uri_query := Some (?n + 3 + length host + 1 + length ds + length path + 1, length query)\<rparr>"
  have h: "huri_hostname u t (?n + 3) = Some (?fin u)" if "uri_port u = 0" for u
    unfolding huri_hostname_def using 5 6 7 [of "u\<lparr>uri_hostname := Some (?n + 3, length host)\<rparr>"] host1 that assms(5,6)
    by (simp add: Let_def)
  have p: "?n + 1 + 2 = ?n + 3" "?n + 1 + 1 = ?n + 2" by simp_all
  have a: "huri_authority u t (?n + 1) = Some (?fin u)" if "uri_port u = 0" for u
    unfolding huri_authority_def p using 2 3 4 h [OF that] by (simp only: Let_def) simp
  have "huri_parse t = huri_authority (uri_empty\<lparr>uri_scheme := Some (0, ?n - 0)\<rparr>) t (?n + 1)"
    unfolding huri_parse_def 0 Let_def using first 1 2 by (simp only: if_True if_False) simp
  then have "huri_parse t = Some (?fin (uri_empty\<lparr>uri_scheme := Some (0, ?n)\<rparr>))"
    using a [of "uri_empty\<lparr>uri_scheme := Some (0, ?n)\<rparr>"] by (simp add: uri_empty_def)
  moreover have "tok_text t (Some (0, ?n)) = Some scheme"
    by (rule tok_textI [of t "[]" _ "[58, 47, 47] @ host @ [58] @ ds @ path @ [63] @ query"]) (simp_all add: t)
  moreover have "tok_text t (Some (?n + 3, length host)) = Some host"
    by (rule tok_textI [OF t3]) simp
  moreover have "tok_text t (Some (?n + 3 + length host + 1 + length ds, length path)) = Some path"
    by (rule tok_textI [of t "scheme @ [58, 47, 47] @ host @ [58] @ ds" _ "[63] @ query"]) (simp_all add: t)
  moreover have "tok_text t (Some (?n + 3 + length host + 1 + length ds + length path + 1, length query)) = Some query"
    by (rule tok_textI [of t "scheme @ [58, 47, 47] @ host @ [58] @ ds @ path @ [63]" _ "[]"]) (simp_all add: t)
  ultimately show ?thesis by (simp add: uri_empty_def)
qed

theorem huri_parse_composed_witness:
  "\<exists>uri. huri_parse (ascii ''http://h.org:8080/a/b?q=1'') = Some uri \<and>
    tok_text (ascii ''http://h.org:8080/a/b?q=1'') (uri_hostname uri) = Some (ascii ''h.org'') \<and>
    uri_port uri = 8080 \<and>
    tok_text (ascii ''http://h.org:8080/a/b?q=1'') (uri_path uri) = Some (ascii ''/a/b'')"
proof -
  have "ascii ''http://h.org:8080/a/b?q=1'' =
      ascii ''http'' @ [58, 47, 47] @ ascii ''h.org'' @ [58] @ ascii ''8080'' @ ascii ''/a/b'' @ [63] @ ascii ''q=1''"
    by code_simp
  moreover have "foldl (\<lambda>v d. v * 10 + (ucast d - 48)) 0 (ascii ''8080'') = (8080 :: u32)"
    by code_simp
  ultimately show ?thesis
    using huri_parse_composed [of "ascii ''http''" "ascii ''h.org''" "ascii ''8080''" "ascii ''/a/b''" "ascii ''q=1''"]
    by (simp add: free_of_def ascii_def ISSPACE_def of_char_def, blast)
qed

section \<open>Property of the codec\<close>


end
