(* ===== verification/Atcp.thy ===== *)
theory Atcp
  imports Prelude "HOL-Library.Sublist"
begin

text \<open>
  The asynchronous write queue of \<^verbatim>\<open>lib/atcp.c\<close>. Buffers are queued, pushed to the socket with
  \<^verbatim>\<open>writev\<close>, moved to a completion queue when fully written, and completed by calling their
  callback. The environment is part of the state: a script of \<^verbatim>\<open>writev\<close> results, a script of
  results of the event operations, the bytes that reached the socket, the callbacks made. A
  callback is an identity and the value it returns; it does not re-enter the queue. Buffers are
  shorter than \<open>2 ^ 31\<close> bytes, so that \<^verbatim>\<open>togo\<close> and \<^verbatim>\<open>length\<close>, which are \<^verbatim>\<open>int\<close>, hold their lengths.
\<close>

section \<open>Data\<close>

type_synonym atcp_cb = "nat \<times> bool"

datatype writev_result = Wrote nat | Intr | Again | Failed

record atcp_write =
  wr_buf :: bytes          \<comment> \<open>what the pointer points to, up to the end of the buffer\<close>
  wr_togo :: nat
  wr_length :: nat
  wr_cb :: "atcp_cb option"

record atcp_wr_state =
  w_fd :: int
  w_writing :: bool
  w_cnt :: nat
  w_cnt_max :: nat
  w_q :: "atcp_write list"
  w_compl_q :: "atcp_write list"
  w_opt_write :: nat
  io_writev :: "writev_result list"
  io_ev :: "bool list"     \<comment> \<open>whether the next event operations succeed\<close>
  io_sent :: bytes
  io_cbs :: "(atcp_cb \<times> bool) list"
  io_failed :: bool        \<comment> \<open>a write or the removal of the write event failed\<close>

definition ATCP_MAX_WR_IOV :: nat where [cfg_simps]: "ATCP_MAX_WR_IOV = 32"

section \<open>Operations\<close>

definition atcp_wr_init :: "writev_result list \<Rightarrow> bool list \<Rightarrow> atcp_wr_state" where
  "atcp_wr_init wv ev =
     \<lparr>w_fd = - 1, w_writing = False, w_cnt = 0, w_cnt_max = 0, w_q = [], w_compl_q = [],
      w_opt_write = 0, io_writev = wv, io_ev = ev, io_sent = [], io_cbs = [], io_failed = False\<rparr>"

definition atcp_wq_empty :: "atcp_wr_state \<Rightarrow> bool" where
  "atcp_wq_empty wst \<longleftrightarrow> w_q wst = []"

definition atcp_wqueued :: "atcp_wr_state \<Rightarrow> nat" where
  "atcp_wqueued wst = w_cnt wst"

text \<open>The entry has been unlinked from its queue by the caller.\<close>

definition atcp_write_free :: "atcp_write \<Rightarrow> bool \<Rightarrow> atcp_wr_state \<Rightarrow> bool \<times> atcp_wr_state" where
  "atcp_write_free tmp done wst =
     (let wst = wst\<lparr>w_cnt := w_cnt wst - wr_length tmp\<rparr> in
      case wr_cb tmp of
        None \<Rightarrow> (False, wst)
      | Some cb \<Rightarrow> (snd cb, wst\<lparr>io_cbs := io_cbs wst @ [(cb, done)]\<rparr>))"

fun run_compl_loop :: "atcp_write list \<Rightarrow> bool \<Rightarrow> atcp_wr_state \<Rightarrow> bool \<times> atcp_wr_state" where
  "run_compl_loop [] do_loop wst = (do_loop, wst)"
| "run_compl_loop (wr # q) do_loop wst =
     (case atcp_write_free wr True (wst\<lparr>w_compl_q := q\<rparr>) of
        (rcb, wst) \<Rightarrow> run_compl_loop q (do_loop \<or> rcb) wst)"

definition atcp_write_run_compl :: "atcp_wr_state \<Rightarrow> bool \<times> atcp_wr_state" where
  "atcp_write_run_compl wst = run_compl_loop (w_compl_q wst) False wst"

fun free_all_loop :: "atcp_write list \<Rightarrow> atcp_wr_state \<Rightarrow> atcp_wr_state" where
  "free_all_loop [] wst = wst"
| "free_all_loop (wr # q) wst = free_all_loop q (snd (atcp_write_free wr False (wst\<lparr>w_q := q\<rparr>)))"

definition atcp_write_free_all :: "atcp_wr_state \<Rightarrow> atcp_wr_state" where
  "atcp_write_free_all wst =
     (let wst = snd (atcp_write_run_compl wst) in free_all_loop (w_q wst) wst)"

text \<open>The vector passed to \<^verbatim>\<open>writev\<close>: the rest of each of the first \<open>max_iov\<close> buffers.\<close>

definition atcp_wr_iov :: "atcp_wr_state \<Rightarrow> nat \<Rightarrow> bytes list" where
  "atcp_wr_iov wst max_iov = map (\<lambda>w. take (wr_togo w) (wr_buf w)) (take max_iov (w_q wst))"

text \<open>
  The loop of \<^verbatim>\<open>atcp_wr_completed\<close>, which takes the head of the queue while bytes are left to
  account for. \<open>None\<close>: it runs past the end of the queue.
\<close>

fun wr_completed_loop :: "atcp_write list \<Rightarrow> nat \<Rightarrow> atcp_wr_state \<Rightarrow> atcp_wr_state option" where
  "wr_completed_loop [] rc wst = (if rc > 0 then None else Some wst)"
| "wr_completed_loop (tmp # q) rc wst =
     (if rc > 0 then
        let sz = (if wr_togo tmp < rc then wr_togo tmp else rc);
            tmp = tmp\<lparr>wr_togo := wr_togo tmp - sz, wr_buf := drop sz (wr_buf tmp)\<rparr>;
            rc = rc - sz
        in if wr_togo tmp = 0
           then wr_completed_loop q rc (wst\<lparr>w_q := q, w_compl_q := w_compl_q wst @ [tmp]\<rparr>)
           else Some (wst\<lparr>w_q := tmp # q\<rparr>)
      else Some wst)"

definition atcp_wr_completed :: "atcp_wr_state \<Rightarrow> nat \<Rightarrow> atcp_wr_state option" where
  "atcp_wr_completed wst rc = wr_completed_loop (w_q wst) rc wst"

text \<open>
  \<^verbatim>\<open>writev\<close> writes at most what the vector holds. It is repeated while interrupted; an
  exhausted script means that the socket takes nothing more.
\<close>

fun do_writev :: "writev_result list \<Rightarrow> bytes list \<Rightarrow> writev_result \<times> writev_result list" where
  "do_writev [] iov = (Again, [])"
| "do_writev (Intr # wv) iov = do_writev wv iov"
| "do_writev (Wrote n # wv) iov = (Wrote (min n (length (concat iov))), wv)"
| "do_writev (r # wv) iov = (r, wv)"

definition ev_op :: "atcp_wr_state \<Rightarrow> bool \<times> atcp_wr_state" where
  "ev_op wst = (case io_ev wst of [] \<Rightarrow> (True, wst) | b # bs \<Rightarrow> (b, wst\<lparr>io_ev := bs\<rparr>))"

definition atcp_writable :: "atcp_wr_state \<Rightarrow> (bool \<times> atcp_wr_state) option" where
  "atcp_writable wst =
     (let iov = atcp_wr_iov wst ATCP_MAX_WR_IOV;
          (rc, wv) = do_writev (io_writev wst) iov;
          wst = wst\<lparr>io_writev := wv\<rparr>
      in case rc of
           Wrote n \<Rightarrow>
             (case atcp_wr_completed (wst\<lparr>io_sent := io_sent wst @ take n (concat iov)\<rparr>) n of
                None \<Rightarrow> None
              | Some wst \<Rightarrow>
                  if atcp_wq_empty wst then
                    (case ev_op (wst\<lparr>w_writing := False\<rparr>) of
                       (ok, wst) \<Rightarrow>
                         if \<not> ok then Some (False, atcp_write_free_all (wst\<lparr>io_failed := True\<rparr>))
                         else Some (True, wst))
                  else Some (True, wst))
         | Again \<Rightarrow> Some (True, wst)
         | _ \<Rightarrow> Some (False, atcp_write_free_all (wst\<lparr>io_failed := True\<rparr>)))"

definition atcp_wr_event :: "atcp_wr_state \<Rightarrow> atcp_wr_state option" where
  "atcp_wr_event wst =
     (case atcp_writable wst of
        None \<Rightarrow> None
      | Some (_, wst) \<Rightarrow> Some (snd (atcp_write_run_compl wst)))"

definition atcp_wr_set_fd :: "atcp_wr_state \<Rightarrow> int \<Rightarrow> atcp_wr_state" where
  "atcp_wr_set_fd wst fd = wst\<lparr>w_fd := fd\<rparr>"

text \<open>The result tells the caller to loop (True) or to wait for the poll.\<close>

definition atcp_write_start :: "atcp_wr_state \<Rightarrow> (bool \<times> atcp_wr_state) option" where
  "atcp_write_start wst =
     (if atcp_wq_empty wst then Some (True, wst)
      else if w_writing wst then Some (False, wst)
      else
        case atcp_writable wst of
          None \<Rightarrow> None
        | Some (_, wst) \<Rightarrow>
            if atcp_wq_empty wst then Some (True, wst\<lparr>w_opt_write := w_opt_write wst + 1\<rparr>)
            else
              (case ev_op wst of
                 (ok, wst) \<Rightarrow> if \<not> ok then Some (True, wst) else Some (False, wst\<lparr>w_writing := True\<rparr>)))"

definition atcp_writeq :: "bool \<Rightarrow> atcp_wr_state \<Rightarrow> bytes option \<Rightarrow> atcp_cb option \<Rightarrow> int \<times> atcp_wr_state" where
  "atcp_writeq mem_ok wst buf cb =
     (case buf of
        None \<Rightarrow> (- EINVAL, wst)
      | Some b \<Rightarrow>
          if length b = 0 then (- EINVAL, wst)
          else if \<not> mem_ok then (- ENOMEM, wst)
          else
            let wr = \<lparr>wr_buf = b, wr_togo = length b, wr_length = length b, wr_cb = cb\<rparr>;
                cnt = w_cnt wst + length b
            in (0, wst\<lparr>w_q := w_q wst @ [wr], w_cnt := cnt,
                       w_cnt_max := (if cnt > w_cnt_max wst then cnt else w_cnt_max wst)\<rparr>))"

definition atcp_wr_exit :: "atcp_wr_state option \<Rightarrow> atcp_wr_state option" where
  "atcp_wr_exit wst =
     (case wst of
        None \<Rightarrow> None
      | Some wst \<Rightarrow> Some (atcp_write_free_all (if w_writing wst then snd (ev_op wst) else wst)))"

section \<open>Invariant\<close>

text \<open>
  \<open>Q\<close> is the list of the accepted buffers with their callbacks, in order. Callbacks are made
  once per accepted buffer and in order; the water level is the size of what is not yet
  completed; as long as nothing failed, the bytes sent followed by the bytes still queued are
  the bytes accepted, and no callback reported failure.
\<close>

definition cbs_of :: "atcp_cb option list \<Rightarrow> atcp_cb list" where
  "cbs_of cs = List.map_filter id cs"

lemma cbs_of_simps [simp]:
  "cbs_of [] = []" "cbs_of (None # cs) = cbs_of cs" "cbs_of (Some c # cs) = c # cbs_of cs"
  "cbs_of (xs @ ys) = cbs_of xs @ cbs_of ys"
  by (simp_all add: cbs_of_def map_filter_def)

definition wr_wf :: "atcp_write \<Rightarrow> bool" where
  "wr_wf w \<longleftrightarrow> wr_togo w = length (wr_buf w) \<and> wr_togo w \<noteq> 0"

definition atcp_inv :: "(bytes \<times> atcp_cb option) list \<Rightarrow> atcp_wr_state \<Rightarrow> bool" where
  "atcp_inv Q wst \<longleftrightarrow>
     (\<forall>w \<in> set (w_q wst). wr_wf w) \<and>
     map fst (io_cbs wst) @ cbs_of (map wr_cb (w_compl_q wst @ w_q wst)) = cbs_of (map snd Q) \<and>
     w_cnt wst = sum_list (map wr_length (w_compl_q wst @ w_q wst)) \<and>
     w_cnt wst \<le> w_cnt_max wst \<and>
     (\<not> io_failed wst \<longrightarrow>
        io_sent wst @ concat (map wr_buf (w_q wst)) = concat (map fst Q) \<and>
        (\<forall>(c, done) \<in> set (io_cbs wst). done))"

lemma atcp_inv_writeq:
  assumes "atcp_inv Q wst" and "atcp_writeq mem_ok wst buf cb = (rc, wst')"
  shows "(rc = 0 \<and> (\<exists>b. buf = Some b \<and> atcp_inv (Q @ [(b, cb)]) wst')) \<or> (rc < 0 \<and> wst' = wst)"
  using assms
  by (auto simp: atcp_writeq_def atcp_inv_def wr_wf_def Let_def EINVAL_def ENOMEM_def
      split: option.splits if_splits)

lemma run_compl_loop_inv:
  assumes "atcp_inv Q wst" and "w_compl_q wst = q"
  shows "atcp_inv Q (snd (run_compl_loop q b wst)) \<and> w_compl_q (snd (run_compl_loop q b wst)) = [] \<and>
    w_q (snd (run_compl_loop q b wst)) = w_q wst \<and> io_failed (snd (run_compl_loop q b wst)) = io_failed wst"
  using assms
proof (induction q arbitrary: b wst)
  case (Cons w q)
  have "atcp_inv Q (snd (atcp_write_free w True (wst\<lparr>w_compl_q := q\<rparr>)))"
    using Cons(2,3) by (auto simp: atcp_inv_def atcp_write_free_def Let_def split: option.splits)
  moreover have "w_compl_q (snd (atcp_write_free w True (wst\<lparr>w_compl_q := q\<rparr>))) = q"
    "w_q (snd (atcp_write_free w True (wst\<lparr>w_compl_q := q\<rparr>))) = w_q wst"
    "io_failed (snd (atcp_write_free w True (wst\<lparr>w_compl_q := q\<rparr>))) = io_failed wst"
    by (auto simp: atcp_write_free_def Let_def split: option.splits)
  ultimately show ?case
    using Cons(1) by (simp add: case_prod_unfold)
qed simp

lemma free_all_loop_inv:
  assumes "atcp_inv Q wst" and "w_compl_q wst = []" and "w_q wst = q" and "io_failed wst"
  shows "atcp_inv Q (free_all_loop q wst) \<and> w_q (free_all_loop q wst) = [] \<and> w_compl_q (free_all_loop q wst) = []"
  using assms
proof (induction q arbitrary: wst)
  case (Cons w q)
  have "atcp_inv Q (snd (atcp_write_free w False (wst\<lparr>w_q := q\<rparr>)))"
    using Cons(2-5) by (auto simp: atcp_inv_def atcp_write_free_def Let_def split: option.splits)
  moreover have "w_compl_q (snd (atcp_write_free w False (wst\<lparr>w_q := q\<rparr>))) = []"
    "w_q (snd (atcp_write_free w False (wst\<lparr>w_q := q\<rparr>))) = q"
    "io_failed (snd (atcp_write_free w False (wst\<lparr>w_q := q\<rparr>)))"
    using Cons(3,5) by (auto simp: atcp_write_free_def Let_def split: option.splits)
  ultimately show ?case using Cons(1) by simp
qed simp

lemma atcp_write_free_all_inv:
  assumes "atcp_inv Q wst" and "io_failed wst"
  shows "atcp_inv Q (atcp_write_free_all wst) \<and> w_q (atcp_write_free_all wst) = [] \<and>
    w_compl_q (atcp_write_free_all wst) = []"
proof -
  let ?w = "snd (atcp_write_run_compl wst)"
  have "atcp_inv Q ?w" "w_compl_q ?w = []" "io_failed ?w"
    using run_compl_loop_inv [OF assms(1) refl, of False] assms(2)
    by (simp_all add: atcp_write_run_compl_def)
  then show ?thesis
    using free_all_loop_inv [of Q ?w "w_q ?w"] by (simp add: atcp_write_free_all_def Let_def)
qed

text \<open>Accounting for \<open>rc\<close> written bytes never runs off the queue and removes exactly these bytes.\<close>

lemma wr_completed_loop_ok:
  assumes "\<forall>w \<in> set q. wr_wf w" and "rc \<le> length (concat (map wr_buf q))" and "w_q wst = q"
  shows "\<exists>q' c'. wr_completed_loop q rc wst = Some (wst\<lparr>w_q := q', w_compl_q := c'\<rparr>) \<and>
    concat (map wr_buf q') = drop rc (concat (map wr_buf q)) \<and> (\<forall>w \<in> set q'. wr_wf w) \<and>
    map wr_cb (c' @ q') = map wr_cb (w_compl_q wst @ q) \<and>
    map wr_length (c' @ q') = map wr_length (w_compl_q wst @ q)"
  using assms
proof (induction q arbitrary: rc wst)
  case Nil
  then show ?case by (intro exI [of _ "[]"] exI [of _ "w_compl_q wst"]) simp
next
  case (Cons w q)
  have w: "wr_togo w = length (wr_buf w)" using Cons(2) by (simp add: wr_wf_def)
  consider "rc = 0" | "0 < rc" "rc < wr_togo w" | "0 < rc" "wr_togo w \<le> rc" by linarith
  then show ?case
  proof cases
    case 1
    then show ?thesis
      using Cons(2,4) by (intro exI [of _ "w # q"] exI [of _ "w_compl_q wst"]) simp
  next
    case 2
    let ?w = "w\<lparr>wr_togo := wr_togo w - rc, wr_buf := drop rc (wr_buf w)\<rparr>"
    from 2 show ?thesis
      using Cons(2) w
      by (intro exI [of _ "?w # q"] exI [of _ "w_compl_q wst"]) (auto simp: Let_def wr_wf_def)
  next
    case 3
    let ?w = "w\<lparr>wr_togo := 0, wr_buf := []\<rparr>"
    let ?s = "wst\<lparr>w_q := q, w_compl_q := w_compl_q wst @ [?w]\<rparr>"
    have step: "wr_completed_loop (w # q) rc wst = wr_completed_loop q (rc - wr_togo w) ?s"
      using 3 w by (auto simp: Let_def)
    have "\<exists>q' c'. wr_completed_loop q (rc - wr_togo w) ?s = Some (?s\<lparr>w_q := q', w_compl_q := c'\<rparr>) \<and>
        concat (map wr_buf q') = drop (rc - wr_togo w) (concat (map wr_buf q)) \<and> (\<forall>w \<in> set q'. wr_wf w) \<and>
        map wr_cb (c' @ q') = map wr_cb (w_compl_q ?s @ q) \<and>
        map wr_length (c' @ q') = map wr_length (w_compl_q ?s @ q)"
      using Cons.IH [of "rc - wr_togo w" ?s] Cons(2,3) 3 w by simp
    then show ?thesis using step 3 w by (simp add: drop_Cons') 
  qed
qed

lemma do_writev_bound: "do_writev wv iov = (Wrote n, wv') \<Longrightarrow> n \<le> length (concat iov)"
  by (induction wv iov rule: do_writev.induct) auto

lemma atcp_inv_writable:
  assumes inv: "atcp_inv Q wst"
  shows "\<exists>b wst'. atcp_writable wst = Some (b, wst') \<and> atcp_inv Q wst'"
proof -
  let ?iov = "atcp_wr_iov wst ATCP_MAX_WR_IOV"
  obtain rc wv where d: "do_writev (io_writev wst) ?iov = (rc, wv)" by fastforce
  let ?w = "wst\<lparr>io_writev := wv\<rparr>"
  have fail: "atcp_inv Q (atcp_write_free_all (w\<lparr>io_failed := True\<rparr>))" if "atcp_inv Q w" for w
  proof -
    have "atcp_inv Q (w\<lparr>io_failed := True\<rparr>)" using that by (simp add: atcp_inv_def)
    then show ?thesis using atcp_write_free_all_inv [of Q "w\<lparr>io_failed := True\<rparr>"] by simp
  qed
  have inv': "atcp_inv Q ?w" using inv by (simp add: atcp_inv_def)
  show ?thesis
  proof (cases rc)
    case (Wrote n)
    have wf: "\<forall>w \<in> set (w_q wst). wr_wf w" using inv by (simp add: atcp_inv_def)
    have iov: "?iov = map wr_buf (take ATCP_MAX_WR_IOV (w_q wst))"
      using wf by (auto simp: atcp_wr_iov_def wr_wf_def dest: in_set_takeD)
    have split: "concat (map wr_buf (w_q wst)) = concat ?iov @ concat (map wr_buf (drop ATCP_MAX_WR_IOV (w_q wst)))"
      unfolding iov by (metis append_take_drop_id concat_append map_append)
    have n: "n \<le> length (concat ?iov)"
      using do_writev_bound d Wrote by blast
    let ?s = "?w\<lparr>io_sent := io_sent wst @ take n (concat ?iov)\<rparr>"
    obtain q' c' where c: "atcp_wr_completed ?s n = Some (?s\<lparr>w_q := q', w_compl_q := c'\<rparr>)"
      and q': "concat (map wr_buf q') = drop n (concat (map wr_buf (w_q wst)))" "\<forall>w \<in> set q'. wr_wf w"
      and cb: "map wr_cb (c' @ q') = map wr_cb (w_compl_q wst @ w_q wst)"
      and len: "map wr_length (c' @ q') = map wr_length (w_compl_q wst @ w_q wst)"
      using wr_completed_loop_ok [of "w_q wst" n ?s] wf n split
      by (auto simp: atcp_wr_completed_def)
    let ?t = "?s\<lparr>w_q := q', w_compl_q := c'\<rparr>"
    have sent: "take n (concat ?iov) @ drop n (concat (map wr_buf (w_q wst))) = concat (map wr_buf (w_q wst))"
      using n split by (metis append_take_drop_id take_append diff_is_0_eq take_0 append_Nil2)
    have t: "atcp_inv Q ?t"
      using inv q' sent unfolding atcp_inv_def by (simp add: cb [simplified] len [simplified])
    obtain ok u where u: "ev_op (?t\<lparr>w_writing := False\<rparr>) = (ok, u)" by fastforce
    then have "atcp_inv Q u" using t by (auto simp: ev_op_def atcp_inv_def split: list.splits)
    then show ?thesis
      using d Wrote c t u fail by (auto simp: atcp_writable_def Let_def)
  qed (use d inv' fail [OF inv'] in \<open>auto simp: atcp_writable_def Let_def\<close>)
qed

lemma atcp_inv_run_compl: "atcp_inv Q wst \<Longrightarrow> atcp_inv Q (snd (atcp_write_run_compl wst))"
  using run_compl_loop_inv by (simp add: atcp_write_run_compl_def)

lemma atcp_inv_start:
  assumes "atcp_inv Q wst"
  shows "\<exists>b wst'. atcp_write_start wst = Some (b, wst') \<and> atcp_inv Q wst'"
proof -
  obtain b w where w: "atcp_writable wst = Some (b, w)" "atcp_inv Q w"
    using atcp_inv_writable [OF assms] by blast
  obtain ok u where u: "ev_op w = (ok, u)" by fastforce
  then have "atcp_inv Q u" using w(2) by (auto simp: ev_op_def atcp_inv_def split: list.splits)
  then show ?thesis
    using assms w u by (auto simp: atcp_write_start_def atcp_inv_def)
qed

section \<open>Reachable states\<close>

text \<open>Any sequence of queueing, pushing, socket events and completions.\<close>

inductive atcp_reach :: "(bytes \<times> atcp_cb option) list \<Rightarrow> atcp_wr_state \<Rightarrow> bool" where
  init: "atcp_reach [] (atcp_wr_init wv ev)"
| writeq: "atcp_reach Q wst \<Longrightarrow> atcp_writeq mem_ok wst (Some b) cb = (0, wst') \<Longrightarrow> atcp_reach (Q @ [(b, cb)]) wst'"
| start: "atcp_reach Q wst \<Longrightarrow> atcp_write_start wst = Some (r, wst') \<Longrightarrow> atcp_reach Q wst'"
| event: "atcp_reach Q wst \<Longrightarrow> atcp_wr_event wst = Some wst' \<Longrightarrow> atcp_reach Q wst'"
| complete: "atcp_reach Q wst \<Longrightarrow> atcp_reach Q (snd (atcp_write_run_compl wst))"

lemma atcp_reach_inv: "atcp_reach Q wst \<Longrightarrow> atcp_inv Q wst"
proof (induction rule: atcp_reach.induct)
  case (init wv ev)
  then show ?case by (simp add: atcp_inv_def atcp_wr_init_def)
next
  case (writeq Q wst mem_ok b cb wst')
  then show ?case using atcp_inv_writeq [of Q wst mem_ok "Some b" cb 0 wst'] by auto
next
  case (start Q wst r wst')
  then show ?case using atcp_inv_start [of Q wst] by auto
next
  case (event Q wst wst')
  then show ?case
    using atcp_inv_writable [of Q wst] atcp_inv_run_compl by (auto simp: atcp_wr_event_def)
next
  case (complete Q wst)
  then show ?case by (intro atcp_inv_run_compl)
qed

section \<open>Properties\<close>

text \<open>
  C33: the queue neither loses, duplicates nor reorders data, however the socket splits the
  writes: in every reachable state with no socket error, the bytes sent followed by the bytes
  still queued are the accepted buffers in order, the callbacks made are those of the first
  accepted buffers, all reporting success, and pushing the queue again never runs off its end.
\<close>

theorem atcp_stream:
  assumes "atcp_reach Q wst" and "\<not> io_failed wst"
  shows "io_sent wst @ concat (map wr_buf (w_q wst)) = concat (map fst Q) \<and>
    prefix (map fst (io_cbs wst)) (cbs_of (map snd Q)) \<and> (\<forall>(c, done) \<in> set (io_cbs wst). done) \<and>
    atcp_writable wst \<noteq> None"
proof -
  have inv: "atcp_inv Q wst" by (rule atcp_reach_inv [OF assms(1)])
  have "cbs_of (map snd Q) = map fst (io_cbs wst) @ cbs_of (map wr_cb (w_compl_q wst @ w_q wst))"
    using inv by (simp add: atcp_inv_def)
  then have "prefix (map fst (io_cbs wst)) (cbs_of (map snd Q))"
    by (simp add: prefix_def)
  then show ?thesis
    using inv atcp_inv_writable [OF inv] assms(2) by (auto simp: atcp_inv_def)
qed

definition atcp_sample :: atcp_wr_state where
  "atcp_sample = snd (atcp_writeq True (snd (atcp_writeq True (atcp_wr_init [Wrote 3] []) (Some [1, 2]) (Some (0, False)))) (Some [3, 4]) None)"

lemma atcp_sample_reach: "atcp_reach [([1, 2], Some (0, False)), ([3, 4], None)] atcp_sample"
proof -
  let ?i = "atcp_wr_init [Wrote 3] []"
  let ?a = "snd (atcp_writeq True ?i (Some [1, 2]) (Some (0, False)))"
  have "atcp_reach [([1, 2], Some (0, False))] ?a"
    using atcp_reach.writeq [OF atcp_reach.init, of True "[Wrote 3]" "[]" "[1, 2]" "Some (0, False)" ?a]
    by (simp add: atcp_writeq_def Let_def)
  from atcp_reach.writeq [OF this, of True "[3, 4]" None atcp_sample] show ?thesis
    by (simp add: atcp_writeq_def Let_def atcp_sample_def)
qed

theorem atcp_stream_witness:
  "\<exists>wst. atcp_wr_event atcp_sample = Some wst \<and> io_sent wst = [1, 2, 3] \<and>
     concat (map wr_buf (w_q wst)) = [4] \<and> io_cbs wst = [((0, False), True)]"
proof -
  obtain wst where wst: "atcp_wr_event atcp_sample = Some wst" "io_sent wst = [1, 2, 3]" "\<not> io_failed wst"
      "io_cbs wst = [((0, False), True)]"
    by (simp add: atcp_sample_def atcp_wr_event_def atcp_writable_def atcp_writeq_def atcp_wr_init_def
        atcp_wr_iov_def ATCP_MAX_WR_IOV_def atcp_wr_completed_def atcp_wq_empty_def
        atcp_write_run_compl_def atcp_write_free_def Let_def)
  with atcp_stream [OF atcp_reach.event [OF atcp_sample_reach wst(1)] wst(3)] show ?thesis by auto
qed

end
