(* ===== verification/Cld_Common.thy ===== *)
theory Cld_Common
  imports Prelude
begin

text \<open>
  What client and server of the lock service share: the protocol constants of
  \<^verbatim>\<open>lib/cld_msg_rpc.x\<close>, the helpers of \<^verbatim>\<open>lib/common.c\<close> and the packet authentication of
  \<^verbatim>\<open>lib/pkt.c\<close>. OpenSSL's \<^verbatim>\<open>HMAC(EVP_sha1(), ...)\<close> is a parameter: a function of key and
  message whose result carries its own length.
\<close>

section \<open>Protocol constants\<close>

definition CMO_NOP :: u32 where [cfg_simps]: "CMO_NOP = 0"
definition CMO_NEW_SESS :: u32 where [cfg_simps]: "CMO_NEW_SESS = 1"
definition CMO_OPEN :: u32 where [cfg_simps]: "CMO_OPEN = 2"
definition CMO_GET_META :: u32 where [cfg_simps]: "CMO_GET_META = 3"
definition CMO_GET :: u32 where [cfg_simps]: "CMO_GET = 4"
definition CMO_PUT :: u32 where [cfg_simps]: "CMO_PUT = 6"
definition CMO_CLOSE :: u32 where [cfg_simps]: "CMO_CLOSE = 7"
definition CMO_DEL :: u32 where [cfg_simps]: "CMO_DEL = 8"
definition CMO_LOCK :: u32 where [cfg_simps]: "CMO_LOCK = 9"
definition CMO_UNLOCK :: u32 where [cfg_simps]: "CMO_UNLOCK = 10"
definition CMO_TRYLOCK :: u32 where [cfg_simps]: "CMO_TRYLOCK = 11"
definition CMO_ACK :: u32 where [cfg_simps]: "CMO_ACK = 12"
definition CMO_END_SESS :: u32 where [cfg_simps]: "CMO_END_SESS = 13"
definition CMO_PING :: u32 where [cfg_simps]: "CMO_PING = 14"
definition CMO_NOT_MASTER :: u32 where [cfg_simps]: "CMO_NOT_MASTER = 15"
definition CMO_EVENT :: u32 where [cfg_simps]: "CMO_EVENT = 16"
definition CMO_ACK_FRAG :: u32 where [cfg_simps]: "CMO_ACK_FRAG = 17"

datatype cle_err_codes =
  CLE_OK | CLE_SESS_EXISTS | CLE_SESS_INVAL | CLE_DB_ERR | CLE_BAD_PKT | CLE_INODE_INVAL |
  CLE_NAME_INVAL | CLE_OOM | CLE_FH_INVAL | CLE_DATA_INVAL | CLE_LOCK_INVAL | CLE_LOCK_CONFLICT |
  CLE_LOCK_PENDING | CLE_MODE_INVAL | CLE_INODE_EXISTS | CLE_DIR_NOTEMPTY | CLE_INTERNAL_ERR |
  CLE_TIMEOUT | CLE_SIG_INVAL

primrec cle_code :: "cle_err_codes \<Rightarrow> u32" where
  "cle_code CLE_OK = 0"
| "cle_code CLE_SESS_EXISTS = 1"
| "cle_code CLE_SESS_INVAL = 2"
| "cle_code CLE_DB_ERR = 3"
| "cle_code CLE_BAD_PKT = 4"
| "cle_code CLE_INODE_INVAL = 5"
| "cle_code CLE_NAME_INVAL = 6"
| "cle_code CLE_OOM = 7"
| "cle_code CLE_FH_INVAL = 8"
| "cle_code CLE_DATA_INVAL = 9"
| "cle_code CLE_LOCK_INVAL = 10"
| "cle_code CLE_LOCK_CONFLICT = 11"
| "cle_code CLE_LOCK_PENDING = 12"
| "cle_code CLE_MODE_INVAL = 13"
| "cle_code CLE_INODE_EXISTS = 14"
| "cle_code CLE_DIR_NOTEMPTY = 15"
| "cle_code CLE_INTERNAL_ERR = 16"
| "cle_code CLE_TIMEOUT = 17"
| "cle_code CLE_SIG_INVAL = 18"

definition COM_READ :: u32 where [cfg_simps]: "COM_READ = 0x01"
definition COM_WRITE :: u32 where [cfg_simps]: "COM_WRITE = 0x02"
definition COM_LOCK :: u32 where [cfg_simps]: "COM_LOCK = 0x04"
definition COM_ACL :: u32 where [cfg_simps]: "COM_ACL = 0x08"
definition COM_CREATE :: u32 where [cfg_simps]: "COM_CREATE = 0x10"
definition COM_EXCL :: u32 where [cfg_simps]: "COM_EXCL = 0x20"
definition COM_DIRECTORY :: u32 where [cfg_simps]: "COM_DIRECTORY = 0x40"

definition CE_UPDATED :: u32 where [cfg_simps]: "CE_UPDATED = 0x01"
definition CE_DELETED :: u32 where [cfg_simps]: "CE_DELETED = 0x02"
definition CE_LOCKED :: u32 where [cfg_simps]: "CE_LOCKED = 0x04"
definition CE_MASTER_FAILOVER :: u32 where [cfg_simps]: "CE_MASTER_FAILOVER = 0x08"
definition CE_SESS_FAILED :: u32 where [cfg_simps]: "CE_SESS_FAILED = 0x10"

definition CIFL_DIR :: u32 where [cfg_simps]: "CIFL_DIR = 0x01"
definition CLF_SHARED :: u32 where [cfg_simps]: "CLF_SHARED = 0x01"

definition CLD_PKT_ORD_MID :: u32 where [cfg_simps]: "CLD_PKT_ORD_MID = 0"
definition CLD_PKT_ORD_FIRST :: u32 where [cfg_simps]: "CLD_PKT_ORD_FIRST = 1"
definition CLD_PKT_ORD_LAST :: u32 where [cfg_simps]: "CLD_PKT_ORD_LAST = 2"
definition CLD_PKT_ORD_FIRST_LAST :: u32 where [cfg_simps]: "CLD_PKT_ORD_FIRST_LAST = 3"
definition CLD_PKT_IS_FIRST :: u32 where [cfg_simps]: "CLD_PKT_IS_FIRST = 1"
definition CLD_PKT_IS_LAST :: u32 where [cfg_simps]: "CLD_PKT_IS_LAST = 2"

definition CLD_SID_SZ :: nat where [cfg_simps]: "CLD_SID_SZ = 8"
definition CLD_INODE_NAME_MAX :: nat where [cfg_simps]: "CLD_INODE_NAME_MAX = 256"
definition CLD_MAX_USERNAME :: nat where [cfg_simps]: "CLD_MAX_USERNAME = 32"
definition CLD_MAX_PKT_MSG_SZ :: nat where [cfg_simps]: "CLD_MAX_PKT_MSG_SZ = 1024"
definition CLD_MAX_PAYLOAD_SZ :: nat where [cfg_simps]: "CLD_MAX_PAYLOAD_SZ = 131072"
definition CLD_MAX_MSG_SZ :: nat where [cfg_simps]: "CLD_MAX_MSG_SZ = 196608"
definition CLD_RAW_MSG_SZ :: nat where [cfg_simps]: "CLD_RAW_MSG_SZ = 4096"
definition SHA_DIGEST_LENGTH :: nat where [cfg_simps]: "SHA_DIGEST_LENGTH = 20"
definition CLD_PKT_FTR_LEN :: nat where [cfg_simps]: "CLD_PKT_FTR_LEN = 8 + SHA_DIGEST_LENGTH"
definition CLD_PKT_MAGIC :: bytes where "CLD_PKT_MAGIC = ascii ''CLDc1pkt''"

section \<open>Packet header\<close>

text \<open>
  \<^verbatim>\<open>struct cld_pkt_hdr\<close>; its union is present exactly in first packets, and carries the
  transaction id and operation of the message.
\<close>

record cld_pkt_msg_infos =
  mi_xid :: u64
  mi_op :: u32

record cld_pkt_hdr =
  ph_magic :: bytes
  ph_sid :: bytes
  ph_user :: bytes
  ph_order :: u32
  ph_mi :: cld_pkt_msg_infos

section \<open>Common helpers\<close>

definition cld_sid2llu :: "bytes \<Rightarrow> u64" where
  "cld_sid2llu sid = of_le_bytes (take 8 sid)"

text \<open>\<open>rnd n\<close> is the result of the \<open>n\<close>-th call of \<^verbatim>\<open>rand()\<close> in the process.\<close>

type_synonym rng = "nat \<Rightarrow> 31 word"

definition cld_rand64 :: "rng \<Rightarrow> nat \<Rightarrow> u64 \<times> nat" where
  "cld_rand64 rnd k = (ucast (rnd k) OR push_bit 32 (ucast (rnd (Suc k))), k + 2)"

definition cld_errlist :: "string list" where
  "cld_errlist =
    [''Success'', ''Session exists'', ''Invalid session'', ''Database error'',
     ''Invalid/corrupted packet'', ''Invalid inode number'', ''Invalid file name'',
     ''Server out of memory'', ''Invalid file handle'', ''Invalid data packet'', ''Invalid lock'',
     ''Conflicting lock held'', ''Lock waiting to be acquired'',
     ''Operation incompatible with file mode'', ''File exists'', ''Directory not empty'',
     ''Internal error'', ''Session timed out'', ''Bad HMAC signature'']"

definition cld_errstr :: "u32 \<Rightarrow> string" where
  "cld_errstr ecode =
     (if length cld_errlist \<le> unat ecode then ''(unknown)'' else cld_errlist ! unat ecode)"

definition cld_opstr :: "u32 \<Rightarrow> string" where
  "cld_opstr op =
     (if op = CMO_NOP then ''CMO_NOP''
      else if op = CMO_NEW_SESS then ''CMO_NEW_SESS''
      else if op = CMO_OPEN then ''CMO_OPEN''
      else if op = CMO_GET_META then ''CMO_GET_META''
      else if op = CMO_GET then ''CMO_GET''
      else if op = CMO_PUT then ''CMO_PUT''
      else if op = CMO_CLOSE then ''CMO_CLOSE''
      else if op = CMO_DEL then ''CMO_DEL''
      else if op = CMO_LOCK then ''CMO_LOCK''
      else if op = CMO_UNLOCK then ''CMO_UNLOCK''
      else if op = CMO_TRYLOCK then ''CMO_TRYLOCK''
      else if op = CMO_ACK then ''CMO_ACK''
      else if op = CMO_END_SESS then ''CMO_END_SESS''
      else if op = CMO_PING then ''CMO_PING''
      else if op = CMO_NOT_MASTER then ''CMO_NOT_MASTER''
      else if op = CMO_EVENT then ''CMO_EVENT''
      else if op = CMO_ACK_FRAG then ''CMO_ACK_FRAG''
      else ''(unknown)'')"

section \<open>Port files\<close>

text \<open>The file as the process finds it: \<^verbatim>\<open>open\<close> or \<^verbatim>\<open>read\<close> fail with an errno, or it has a content.\<close>

datatype port_file = Open_fails int | Read_fails int | Content bytes

definition readport_LEN :: nat where [cfg_simps]: "readport_LEN = 11"

fun hail_readport :: "port_file \<Rightarrow> int" where
  "hail_readport (Open_fails e) = - e"
| "hail_readport (Read_fails e) = - e"
| "hail_readport (Content c) =
     (let buf = take readport_LEN c in
      if buf = [] then - EPIPE
      else
        let port = strtol10 buf in
        if port \<le> 0 \<or> port \<ge> 65636 then - EDOM else port)"

definition cld_readport :: "port_file \<Rightarrow> int" where
  "cld_readport f = hail_readport f"

text \<open>What \<^verbatim>\<open>net_write_port\<close> leaves in the file, and \<^verbatim>\<open>"%u"\<close> of \<^verbatim>\<open>net_open_any\<close>.\<close>

definition net_write_port :: "bytes \<Rightarrow> port_file" where
  "net_write_port port_str = Content (port_str @ [10])"

fun dec_bytes :: "nat \<Rightarrow> bytes" where
  "dec_bytes n =
     (if n < 10 then [48 + word_of_nat n] else dec_bytes (n div 10) @ [48 + word_of_nat (n mod 10)])"

declare dec_bytes.simps [simp del]

section \<open>Authentication\<close>

type_synonym hmac = "bytes \<Rightarrow> bytes \<Rightarrow> bytes"

text \<open>The key is \<^verbatim>\<open>NULL\<close> (\<open>None\<close>) or a C string.\<close>

definition cld_authcheck :: "hmac \<Rightarrow> bytes option \<Rightarrow> bytes \<Rightarrow> bytes \<Rightarrow> int" where
  "cld_authcheck HMAC key buf sha =
     (case key of
        None \<Rightarrow> - EINVAL
      | Some k \<Rightarrow>
          if k = [] then - EINVAL
          else
            let md = HMAC k buf in
            if length md \<noteq> SHA_DIGEST_LENGTH then - EBADMSG
            else if memcmp md (take SHA_DIGEST_LENGTH sha) \<noteq> 0 then - EPERM
            else 0)"

text \<open>On success the 20 bytes at \<open>sha\<close> are overwritten by the digest.\<close>

definition cld_authsign :: "hmac \<Rightarrow> bytes option \<Rightarrow> bytes \<Rightarrow> bytes \<Rightarrow> int \<times> bytes" where
  "cld_authsign HMAC key buf sha =
     (case key of
        None \<Rightarrow> (- EINVAL, sha)
      | Some k \<Rightarrow>
          if k = [] then (- EINVAL, sha)
          else
            let md = HMAC k buf in
            if length md \<noteq> SHA_DIGEST_LENGTH then (- EBADMSG, sha)
            else (0, md @ drop SHA_DIGEST_LENGTH sha))"

text \<open>\<^verbatim>\<open>user_key\<close> of \<^verbatim>\<open>cld/server.c\<close>: the user's name is the secret.\<close>

definition user_key :: "bytes option \<Rightarrow> bytes option" where
  "user_key user =
     (case user of
        None \<Rightarrow> None
      | Some u \<Rightarrow> if u = [] \<or> length u \<ge> 32 then None else Some u)"

section \<open>Lemmas\<close>

lemma cle_code_inj [simp]: "cle_code a = cle_code b \<longleftrightarrow> a = b"
  by (cases a; cases b; simp)

lemma cld_authcheck_ok:
  "length sha = SHA_DIGEST_LENGTH \<Longrightarrow>
   cld_authcheck HMAC key buf sha = 0 \<longleftrightarrow> (\<exists>k. key = Some k \<and> k \<noteq> [] \<and> HMAC k buf = sha)"
  by (auto simp: cld_authcheck_def Let_def EINVAL_def EBADMSG_def EPERM_def split: option.splits)

lemma cld_authsign_ok:
  "cld_authsign HMAC key buf sha = (0, sha') \<longleftrightarrow>
   (\<exists>k. key = Some k \<and> k \<noteq> [] \<and> length (HMAC k buf) = SHA_DIGEST_LENGTH \<and>
        sha' = HMAC k buf @ drop SHA_DIGEST_LENGTH sha)"
  by (auto simp: cld_authsign_def Let_def EINVAL_def EBADMSG_def split: option.splits)

lemma digit_word: "d < 10 \<Longrightarrow> c_isdigit (48 + word_of_nat d) \<and> unat ((48 + word_of_nat d) - (48 :: u8)) = d"
proof -
  assume "d < 10"
  then have "d \<in> {0, 1, 2, 3, 4, 5, 6, 7, 8, 9}" by auto
  then show ?thesis by (auto simp: c_isdigit_def)
qed

lemma dec_value_digit:
  "d < 10 \<Longrightarrow> dec_value acc ((48 + word_of_nat d) # bs) = dec_value (acc * 10 + d) bs"
  using digit_word [of d] by simp

lemma dec_value_dec_bytes: "dec_value 0 (dec_bytes n @ bs) = dec_value n bs"
proof (induction n arbitrary: bs rule: dec_bytes.induct)
  case (1 n)
  show ?case
  proof (cases "n < 10")
    case True
    then show ?thesis by (subst dec_bytes.simps) (simp add: dec_value_digit del: dec_value.simps)
  next
    case False
    have "dec_value 0 (dec_bytes n @ bs) = dec_value 0 (dec_bytes (n div 10) @ (48 + word_of_nat (n mod 10)) # bs)"
      using False by (subst dec_bytes.simps) simp
    also have "\<dots> = dec_value (n div 10 * 10 + n mod 10) bs"
      using 1 [OF False] by (simp add: dec_value_digit del: dec_value.simps)
    finally show ?thesis by simp
  qed
qed

lemma dec_bytes_hd: "\<exists>d < 10. \<exists>r. dec_bytes n = (48 + word_of_nat d) # r"
proof (induction n rule: dec_bytes.induct)
  case (1 n)
  show ?case
  proof (cases "n < 10")
    case True
    then show ?thesis by (subst dec_bytes.simps) auto
  next
    case False
    then show ?thesis using 1 [OF False] by (subst dec_bytes.simps) auto
  qed
qed

lemma dec_bytes_length: "n < 10 ^ Suc k \<Longrightarrow> length (dec_bytes n) \<le> Suc k"
proof (induction k arbitrary: n)
  case 0
  then show ?case by (subst dec_bytes.simps) simp
next
  case (Suc k)
  then have "n div 10 < 10 ^ Suc k" by (simp add: div_less_iff_less_mult)
  then have "length (dec_bytes (n div 10)) \<le> Suc k" by (rule Suc.IH)
  then show ?case by (subst dec_bytes.simps) simp
qed

lemma strtol10_dec: "n < 2 ^ 63 \<Longrightarrow> strtol10 (dec_bytes n @ [10]) = int n"
proof -
  assume n: "n < 2 ^ 63"
  obtain d r where d: "d < 10" and b: "dec_bytes n = (48 + word_of_nat d) # r"
    using dec_bytes_hd by blast
  from d have d': "d \<in> {0, 1, 2, 3, 4, 5, 6, 7, 8, 9}" by auto
  then have nospace: "\<not> c_isspace (48 + word_of_nat d)" and nosign: "48 + word_of_nat d \<noteq> (45 :: u8)"
      "48 + word_of_nat d \<noteq> (43 :: u8)"
    by (auto simp: c_isspace_def)
  have "dropWhile c_isspace (dec_bytes n @ [10]) = dec_bytes n @ [10]"
    using b nospace by simp
  moreover have "dec_value 0 (dec_bytes n @ [10]) = n"
    by (simp add: dec_value_dec_bytes c_isdigit_def)
  moreover have "hd (dec_bytes n @ [10]) \<noteq> 45" "hd (dec_bytes n @ [10]) \<noteq> 43"
    using b nosign by auto
  ultimately show ?thesis using n by (simp add: strtol10_def)
qed

section \<open>Properties\<close>

text \<open>
  Packets signed with a user's key verify under that key, and verification accepts
  nothing but the HMAC: with an HMAC that returns 20 bytes, \<open>cld_authsign\<close> followed by
  \<open>cld_authcheck\<close> on the same bytes succeeds, and a 20-byte signature is accepted exactly if a
  non-empty key is given and the signature is the HMAC of the message.
\<close>

theorem cld_auth_sound:
  assumes "\<And>k m. length (HMAC k m) = SHA_DIGEST_LENGTH" and "length sha = SHA_DIGEST_LENGTH"
  shows "(cld_authcheck HMAC key buf sha = 0 \<longleftrightarrow>
       cld_authsign HMAC key buf old = (0, sha @ drop SHA_DIGEST_LENGTH old)) \<and>
     (cld_authcheck HMAC key buf sha = 0 \<longleftrightarrow> (\<exists>k. key = Some k \<and> k \<noteq> [] \<and> sha = HMAC k buf)) \<and>
     cld_authcheck HMAC key buf sha \<in> {0, - EPERM, - EINVAL}"
proof -
  have "cld_authcheck HMAC key buf sha \<in> {0, - EPERM, - EINVAL}"
    using assms by (auto simp: cld_authcheck_def Let_def split: option.splits)
  then show ?thesis using assms by (auto simp: cld_authcheck_ok cld_authsign_ok)
qed

definition HMAC_sample :: hmac where
  "HMAC_sample k m = replicate SHA_DIGEST_LENGTH (sum_list k + sum_list m)"

theorem cld_auth_sound_witness:
  "cld_authcheck HMAC_sample (Some [1]) [2, 3] (replicate 20 6) = 0"
  using cld_auth_sound [of HMAC_sample "replicate 20 6" "Some [1]" "[2, 3]"]
  by (simp add: HMAC_sample_def SHA_DIGEST_LENGTH_def)

text \<open>
  The port file round trip: what the server writes for a port between 1 and 65535,
  \<open>hail_readport\<close> reads back. In the other direction the accepted range ends at 65635: of the
  values beyond the 16-bit range, exactly 65536 to 65635 are not rejected.
\<close>

theorem hail_readport_roundtrip:
  assumes "0 < p" and "p < 10 ^ 10"
  shows "hail_readport (net_write_port (dec_bytes p)) = (if p \<le> 65635 then int p else - EDOM)"
proof -
  obtain d r where b: "dec_bytes p = (48 + word_of_nat d) # r"
    using dec_bytes_hd by blast
  have "length (dec_bytes p) \<le> Suc 9"
    using assms(2) by (intro dec_bytes_length) simp
  then have "take readport_LEN (dec_bytes p @ [10]) = dec_bytes p @ [10]"
    by (simp add: readport_LEN_def)
  moreover have "strtol10 (dec_bytes p @ [10]) = int p"
    using assms(2) by (intro strtol10_dec) simp
  ultimately show ?thesis
    using assms(1) by (auto simp: net_write_port_def Let_def)
qed

theorem hail_readport_roundtrip_witness:
  "hail_readport (net_write_port (dec_bytes 8081)) = 8081 \<and>
   hail_readport (net_write_port (dec_bytes 65600)) = 65600"
  using hail_readport_roundtrip [of 8081] hail_readport_roundtrip [of 65600] by simp

end
