(* ===== verification/Bdb.thy ===== *)
theory Bdb
  imports Cld_Common
begin

text \<open>
  The database interface of the lock server. Berkeley DB is not part of the repository: it is a
  record of operations over an opaque state (\<open>'d bdb\<close>), the calls \<^verbatim>\<open>cld/cldb.c\<close>, \<^verbatim>\<open>cld/session.c\<close>
  and \<^verbatim>\<open>cld/msg.c\<close> make. What the code relies on is the locale \<open>bdb\<close>: \<open>com\<close> is the committed
  content, \<open>cur\<close> the content the open transaction sees; writes change \<open>cur\<close>, a commit makes it
  the committed content, an abort or a failed commit leaves the committed content alone. A
  call may fail at any time. The record types are the database records of \<^verbatim>\<open>cld/cldb.h\<close>; integers
  are held in host order. A cursor loop is a list of the records the successive \<^verbatim>\<open>cur->get\<close> calls
  return and the error of the last call, which is \<^verbatim>\<open>DB_NOTFOUND\<close> after the last record.
\<close>

section \<open>Records\<close>

type_synonym cldino = u64
type_synonym sid = bytes

datatype dberr = DB_NOTFOUND | DB_KEYEXIST | DB_ERR int

type_synonym rc = "dberr option"   \<comment> \<open>\<open>None\<close> is 0\<close>

record raw_session =
  rs_sid :: sid
  rs_addr_len :: u16
  rs_addr :: bytes
  rs_user :: bytes
  rs_last_contact :: u64
  rs_next_fh :: u64
  rs_next_seqid_in :: u64
  rs_next_seqid_out :: u64

record raw_handle =
  rh_sid :: sid
  rh_fh :: u64
  rh_inum :: cldino
  rh_mode :: u32
  rh_events :: u32

definition CLD_INO_ROOT :: cldino where [cfg_simps]: "CLD_INO_ROOT = 10"
definition CLD_INO_RESERVED_LAST :: cldino where [cfg_simps]: "CLD_INO_RESERVED_LAST = 50"

record raw_inode =
  ri_inum :: cldino
  ri_ino_len :: u32
  ri_size :: u32
  ri_version :: u64
  ri_time_create :: u64
  ri_time_modify :: u64
  ri_flags :: u32
  ri_name :: bytes        \<comment> \<open>the name that follows the structure\<close>

definition CLFL_SHARED :: u32 where [cfg_simps]: "CLFL_SHARED = 1"
definition CLFL_PENDING :: u32 where [cfg_simps]: "CLFL_PENDING = 2"

record raw_lock =
  rl_inum :: cldino
  rl_sid :: sid
  rl_fh :: u64
  rl_ctime :: u64
  rl_flags :: u32

section \<open>Callbacks given to the database\<close>

text \<open>
  The secondary keys, and the order of the duplicates of a lock key. Differences are 64-bit and
  are returned as an \<^verbatim>\<open>int\<close>, which keeps their low 32 bits.
\<close>

definition inode_name_key :: "raw_inode \<Rightarrow> bytes option" where
  "inode_name_key inode =
     (if length (ri_name inode) \<noteq> unat (ri_ino_len inode) then None else Some (ri_name inode))"

definition handle_idx_key :: "raw_handle \<Rightarrow> cldino" where
  "handle_idx_key handle = rh_inum handle"

definition to_int32 :: "u64 \<Rightarrow> int" where
  "to_int32 v = sint (ucast v :: u32)"

definition lock_compare :: "raw_lock \<Rightarrow> raw_lock \<Rightarrow> int" where
  "lock_compare a b =
     (let v = rl_inum a - rl_inum b in
      if v \<noteq> 0 then to_int32 v
      else
        let v = rl_ctime a - rl_ctime b in
        if v \<noteq> 0 then to_int32 v
        else
          let v = memcmp (rl_sid a) (rl_sid b) in
          if v \<noteq> 0 then v
          else to_int32 (rl_fh a - rl_fh b))"

section \<open>Content and operations\<close>

record dbview =
  v_sess :: "sid \<rightharpoonup> raw_session"
  v_inodes :: "cldino \<rightharpoonup> raw_inode"
  v_data :: "cldino \<rightharpoonup> bytes"
  v_handles :: "sid \<times> u64 \<rightharpoonup> raw_handle"
  v_locks :: "cldino \<Rightarrow> raw_lock list"

type_synonym ('d, 'r) dbop = "'d \<Rightarrow> 'r \<times> 'd"

record 'd bdb =
  db_txn_begin :: "('d, rc) dbop"
  db_txn_commit :: "('d, rc) dbop"
  db_txn_abort :: "('d, rc) dbop"
  db_sess_get :: "sid \<Rightarrow> ('d, dberr + raw_session) dbop"
  db_sess_put :: "raw_session \<Rightarrow> ('d, rc) dbop"
  db_sess_put_new :: "raw_session \<Rightarrow> ('d, rc) dbop"  \<comment> \<open>no transaction, \<^verbatim>\<open>DB_NOOVERWRITE\<close>\<close>
  db_sess_del :: "sid \<Rightarrow> ('d, rc) dbop"
  db_sess_scan :: "('d, raw_session list \<times> dberr) dbop"
  db_inode_get :: "cldino \<Rightarrow> ('d, dberr + raw_inode) dbop"
  db_inode_byname :: "bytes \<Rightarrow> ('d, dberr + raw_inode) dbop"
  db_inode_put :: "raw_inode \<Rightarrow> ('d, rc) dbop"
  db_inode_del :: "cldino \<Rightarrow> ('d, rc) dbop"
  db_data_get :: "cldino \<Rightarrow> ('d, dberr + bytes) dbop"
  db_data_put :: "cldino \<Rightarrow> bytes \<Rightarrow> ('d, rc) dbop"
  db_data_del :: "cldino \<Rightarrow> ('d, rc) dbop"
  db_handle_get :: "sid \<Rightarrow> u64 \<Rightarrow> ('d, dberr + raw_handle) dbop"
  db_handle_put :: "raw_handle \<Rightarrow> ('d, rc) dbop"
  db_handle_del :: "sid \<Rightarrow> u64 \<Rightarrow> ('d, rc) dbop"
  db_hidx_scan :: "cldino \<Rightarrow> ('d, raw_handle list \<times> dberr) dbop"   \<comment> \<open>handles of an inode\<close>
  db_hidx_del :: "cldino \<Rightarrow> ('d, rc) dbop"                        \<comment> \<open>through the secondary index\<close>
  db_handle_range :: "sid \<Rightarrow> ('d, raw_handle list \<times> dberr) dbop"    \<comment> \<open>from the key \<open>(sid, 0)\<close> on\<close>
  db_handle_cdel :: "raw_handle \<Rightarrow> ('d, rc) dbop"                 \<comment> \<open>at the cursor\<close>
  db_lock_scan :: "cldino \<Rightarrow> ('d, raw_lock list \<times> dberr) dbop"
  db_lock_put :: "cldino \<Rightarrow> raw_lock \<Rightarrow> ('d, rc) dbop"
  db_lock_cdel :: "cldino \<Rightarrow> raw_lock \<Rightarrow> ('d, rc) dbop"             \<comment> \<open>at the cursor\<close>
  db_lock_cput :: "cldino \<Rightarrow> raw_lock \<Rightarrow> raw_lock \<Rightarrow> ('d, rc) dbop" \<comment> \<open>at the cursor: old, new\<close>
  db_cursor :: "('d, rc) dbop"
  db_cursor_close :: "('d, rc) dbop"

section \<open>Laws\<close>

text \<open>Position of a new duplicate: behind everything that does not compare greater.\<close>

fun lock_insert :: "raw_lock \<Rightarrow> raw_lock list \<Rightarrow> raw_lock list" where
  "lock_insert l [] = [l]"
| "lock_insert l (x # xs) = (if lock_compare l x < 0 then l # x # xs else x # lock_insert l xs)"

definition found :: "'a option \<Rightarrow> dberr + 'a \<Rightarrow> bool" where
  "found opt r \<longleftrightarrow> (case r of Inr x \<Rightarrow> opt = Some x | Inl e \<Rightarrow> e = DB_NOTFOUND \<longrightarrow> opt = None)"

definition reads :: "('d \<Rightarrow> dbview) \<Rightarrow> ('d \<Rightarrow> dbview) \<Rightarrow> ('d, 'r) dbop \<Rightarrow> ('r \<Rightarrow> dbview \<Rightarrow> bool) \<Rightarrow> bool" where
  "reads com cur f Q \<longleftrightarrow>
     (\<forall>d r d'. f d = (r, d') \<longrightarrow> com d' = com d \<and> cur d' = cur d \<and> Q r (cur d))"

text \<open>A write that succeeds applies \<open>upd\<close>, and only where \<open>ok\<close> holds; one that finds no record
  (\<^verbatim>\<open>DB_NOTFOUND\<close>) changes nothing; after any other error the transaction's content is unspecified.\<close>

definition writes :: "('d \<Rightarrow> dbview) \<Rightarrow> ('d \<Rightarrow> dbview) \<Rightarrow> ('d, rc) dbop \<Rightarrow> (dbview \<Rightarrow> bool) \<Rightarrow> (dbview \<Rightarrow> dbview) \<Rightarrow> bool" where
  "writes com cur f ok upd \<longleftrightarrow>
     (\<forall>d r d'. f d = (r, d') \<longrightarrow> com d' = com d \<and>
        (r = None \<longrightarrow> ok (cur d) \<and> cur d' = upd (cur d)) \<and>
        (r = Some DB_NOTFOUND \<longrightarrow> cur d' = cur d))"

definition handles_of :: "dbview \<Rightarrow> (raw_handle \<Rightarrow> bool) \<Rightarrow> raw_handle set" where
  "handles_of v P = {h. \<exists>k. v_handles v k = Some h \<and> P h}"

definition name_free :: "raw_inode \<Rightarrow> dbview \<Rightarrow> bool" where
  "name_free i v \<longleftrightarrow> (\<forall>j x n. v_inodes v j = Some x \<and> j \<noteq> ri_inum i \<and> inode_name_key x = Some n \<longrightarrow>
       inode_name_key i \<noteq> Some n)"

locale bdb =
  fixes db :: "'d bdb"
    and com :: "'d \<Rightarrow> dbview"
    and cur :: "'d \<Rightarrow> dbview"
  assumes txn_begin: "db_txn_begin db d = (r, d') \<Longrightarrow> com d' = com d \<and> (r = None \<longrightarrow> cur d' = com d)"
    and txn_commit: "db_txn_commit db d = (r, d') \<Longrightarrow> com d' = (if r = None then cur d else com d)"
    and txn_abort: "db_txn_abort db d = (r, d') \<Longrightarrow> com d' = com d"
    and sess_get: "reads com cur (db_sess_get db s) (\<lambda>r v. found (v_sess v s) r)"
    and sess_put: "writes com cur (db_sess_put db rs) (\<lambda>_. True)
      (\<lambda>v. v\<lparr>v_sess := (v_sess v)(rs_sid rs \<mapsto> rs)\<rparr>)"
    and sess_put_new: "db_sess_put_new db rs d = (r, d') \<Longrightarrow>
      (r = None \<longrightarrow> v_sess (com d) (rs_sid rs) = None \<and>
         com d' = (com d)\<lparr>v_sess := (v_sess (com d))(rs_sid rs \<mapsto> rs)\<rparr>) \<and>
      (r \<noteq> None \<longrightarrow> com d' = com d) \<and>
      (r = Some DB_KEYEXIST \<longrightarrow> v_sess (com d) (rs_sid rs) \<noteq> None)"
    and sess_del: "writes com cur (db_sess_del db s) (\<lambda>v. v_sess v s \<noteq> None)
      (\<lambda>v. v\<lparr>v_sess := (v_sess v)(s := None)\<rparr>)"
    and sess_scan: "reads com cur (db_sess_scan db)
      (\<lambda>(xs, e) v. set xs \<subseteq> ran (v_sess v) \<and> (e = DB_NOTFOUND \<longrightarrow> set xs = ran (v_sess v) \<and> distinct xs))"
    and inode_get: "reads com cur (db_inode_get db i) (\<lambda>r v. found (v_inodes v i) r)"
    and inode_byname: "reads com cur (db_inode_byname db n)
      (\<lambda>r v. (\<forall>x. r = Inr x \<longrightarrow> v_inodes v (ri_inum x) = Some x \<and> inode_name_key x = Some n) \<and>
             (r = Inl DB_NOTFOUND \<longrightarrow> (\<forall>j x. v_inodes v j = Some x \<and> ri_inum x = j \<longrightarrow> inode_name_key x \<noteq> Some n)))"
    and inode_put: "writes com cur (db_inode_put db ino) (name_free ino)
      (\<lambda>v. v\<lparr>v_inodes := (v_inodes v)(ri_inum ino \<mapsto> ino)\<rparr>)"
    and inode_del: "writes com cur (db_inode_del db i) (\<lambda>v. v_inodes v i \<noteq> None)
      (\<lambda>v. v\<lparr>v_inodes := (v_inodes v)(i := None)\<rparr>)"
    and data_get: "reads com cur (db_data_get db i) (\<lambda>r v. found (v_data v i) r)"
    and data_put: "writes com cur (db_data_put db i b) (\<lambda>_. True)
      (\<lambda>v. v\<lparr>v_data := (v_data v)(i \<mapsto> b)\<rparr>)"
    and data_del: "writes com cur (db_data_del db i) (\<lambda>v. v_data v i \<noteq> None)
      (\<lambda>v. v\<lparr>v_data := (v_data v)(i := None)\<rparr>)"
    and data_del_none: "db_data_del db i d = (Some DB_NOTFOUND, d') \<Longrightarrow> v_data (cur d) i = None"
    and handle_get: "reads com cur (db_handle_get db s fh) (\<lambda>r v. found (v_handles v (s, fh)) r)"
    and handle_put: "writes com cur (db_handle_put db h) (\<lambda>_. True)
      (\<lambda>v. v\<lparr>v_handles := (v_handles v)((rh_sid h, rh_fh h) \<mapsto> h)\<rparr>)"
    and handle_del: "writes com cur (db_handle_del db s fh) (\<lambda>v. v_handles v (s, fh) \<noteq> None)
      (\<lambda>v. v\<lparr>v_handles := (v_handles v)((s, fh) := None)\<rparr>)"
    and hidx_scan: "reads com cur (db_hidx_scan db i)
      (\<lambda>(hs, e) v. set hs \<subseteq> handles_of v (\<lambda>h. handle_idx_key h = i) \<and>
        (e = DB_NOTFOUND \<longrightarrow> set hs = handles_of v (\<lambda>h. handle_idx_key h = i)))"
    and hidx_del: "writes com cur (db_hidx_del db i) (\<lambda>_. True)
      (\<lambda>v. v\<lparr>v_handles := (\<lambda>k. case v_handles v k of None \<Rightarrow> None
         | Some h \<Rightarrow> if handle_idx_key h = i then None else Some h)\<rparr>)"
    and hidx_del_none: "db_hidx_del db i d = (Some DB_NOTFOUND, d') \<Longrightarrow> handles_of (cur d) (\<lambda>h. handle_idx_key h = i) = {}"
    and handle_range: "reads com cur (db_handle_range db s)
      (\<lambda>(hs, e) v. set hs \<subseteq> ran (v_handles v) \<and>
        (e = DB_NOTFOUND \<or> (\<exists>h \<in> set hs. rh_sid h \<noteq> s) \<longrightarrow>
           set (takeWhile (\<lambda>h. rh_sid h = s) hs) = handles_of v (\<lambda>h. rh_sid h = s)))"
    and handle_cdel: "writes com cur (db_handle_cdel db h) (\<lambda>_. True)
      (\<lambda>v. v\<lparr>v_handles := (v_handles v)((rh_sid h, rh_fh h) := None)\<rparr>)"
    and lock_scan: "reads com cur (db_lock_scan db i)
      (\<lambda>(ls, e) v. \<exists>rest. v_locks v i = ls @ rest \<and> (e = DB_NOTFOUND \<longrightarrow> rest = []))"
    and lock_put: "writes com cur (db_lock_put db i l) (\<lambda>v. \<forall>x \<in> set (v_locks v i). lock_compare l x \<noteq> 0)
      (\<lambda>v. v\<lparr>v_locks := (v_locks v)(i := lock_insert l (v_locks v i))\<rparr>)"
    and lock_cdel: "writes com cur (db_lock_cdel db i l) (\<lambda>_. True)
      (\<lambda>v. v\<lparr>v_locks := (v_locks v)(i := remove1 l (v_locks v i))\<rparr>)"
    and cdel_found: "fst (db_lock_cdel db i l d) \<noteq> Some DB_NOTFOUND" "fst (db_handle_cdel db h d) \<noteq> Some DB_NOTFOUND"
    and lock_cput: "writes com cur (db_lock_cput db i l l') (\<lambda>_. lock_compare l l' = 0)
      (\<lambda>v. v\<lparr>v_locks := (v_locks v)(i := map (\<lambda>x. if x = l then l' else x) (v_locks v i))\<rparr>)"
    and cursor: "reads com cur (db_cursor db) (\<lambda>r _. r \<noteq> Some DB_NOTFOUND)"
    and cursor_close: "reads com cur (db_cursor_close db) (\<lambda>_ _. True)"

text \<open>A database on which nothing goes wrong: the only errors are those its content gives.\<close>

definition definite :: "('d, dberr + 'a) dbop \<Rightarrow> bool" where
  "definite f \<longleftrightarrow> (\<forall>d e. fst (f d) = Inl e \<longrightarrow> e = DB_NOTFOUND)"

definition complete :: "('d, 'a list \<times> dberr) dbop \<Rightarrow> bool" where
  "complete f \<longleftrightarrow> (\<forall>d. snd (fst (f d)) = DB_NOTFOUND)"

definition sure :: "('d \<Rightarrow> dbview) \<Rightarrow> ('d, rc) dbop \<Rightarrow> (dbview \<Rightarrow> bool) \<Rightarrow> bool" where
  "sure cur f ok \<longleftrightarrow> (\<forall>d. ok (cur d) \<longrightarrow> fst (f d) = None)"

definition sure_del :: "('d \<Rightarrow> dbview) \<Rightarrow> ('d, rc) dbop \<Rightarrow> (dbview \<Rightarrow> bool) \<Rightarrow> bool" where
  "sure_del cur f present \<longleftrightarrow>
     (\<forall>d. fst (f d) = (if present (cur d) then None else Some DB_NOTFOUND))"

locale bdb_reliable = bdb +
  assumes sure_begin: "fst (db_txn_begin db d) = None"
    and sure_commit: "fst (db_txn_commit db d) = None"
    and sure_sess_put: "sure cur (db_sess_put db rs) (\<lambda>_. True)"
    and sure_sess_del: "sure_del cur (db_sess_del db s) (\<lambda>v. v_sess v s \<noteq> None)"
    and sure_inode_get: "definite (db_inode_get db i)"
    and sure_inode_byname: "definite (db_inode_byname db n)"
    and sure_inode_put: "sure cur (db_inode_put db ino) (name_free ino)"
    and sure_inode_del: "sure_del cur (db_inode_del db i) (\<lambda>v. v_inodes v i \<noteq> None)"
    and sure_data_get: "definite (db_data_get db i)"
    and sure_data_put: "sure cur (db_data_put db i b) (\<lambda>_. True)"
    and sure_data_del: "sure_del cur (db_data_del db i) (\<lambda>v. v_data v i \<noteq> None)"
    and sure_handle_get: "definite (db_handle_get db s fh)"
    and sure_handle_put: "sure cur (db_handle_put db h) (\<lambda>_. True)"
    and sure_handle_del: "sure_del cur (db_handle_del db s fh) (\<lambda>v. v_handles v (s, fh) \<noteq> None)"
    and sure_hidx_scan: "complete (db_hidx_scan db i)"
    and sure_hidx_del: "sure_del cur (db_hidx_del db i) (\<lambda>v. handles_of v (\<lambda>h. handle_idx_key h = i) \<noteq> {})"
    and sure_handle_range: "complete (db_handle_range db s)"
    and sure_handle_cdel: "sure cur (db_handle_cdel db h) (\<lambda>_. True)"
    and sure_lock_scan: "complete (db_lock_scan db i)"
    and sure_lock_put: "fst (db_lock_put db i l d) =
      (if \<forall>x \<in> set (v_locks (cur d) i). lock_compare l x \<noteq> 0 then None else Some DB_KEYEXIST)"
    and sure_lock_cdel: "sure cur (db_lock_cdel db i l) (\<lambda>_. True)"
    and sure_lock_cput: "sure cur (db_lock_cput db i l l') (\<lambda>_. lock_compare l l' = 0)"
    and sure_cursor: "fst (db_cursor db d) = None"
    and sure_cursor_close: "fst (db_cursor_close db d) = None"
    and sure_sess_put_new: "v_sess (com d) (rs_sid rs) = None \<Longrightarrow> fst (db_sess_put_new db rs d) = None"
    and sure_sess_scan: "complete (db_sess_scan db)"

section \<open>A reference store\<close>

text \<open>
  An in-memory store with the tables as association lists, a transaction's content beside the
  committed one, and a script of faults: with \<open>flt\<close>, each call takes one entry of the script and
  fails with an I/O error, without effect, if it is \<open>True\<close>; without, the store is reliable.
\<close>

record tabs =
  t_sess :: "(sid \<times> raw_session) list"
  t_inodes :: "(cldino \<times> raw_inode) list"
  t_data :: "(cldino \<times> bytes) list"
  t_handles :: "((sid \<times> u64) \<times> raw_handle) list"
  t_locks :: "(cldino \<times> raw_lock list) list"

record mdb =
  m_com :: tabs
  m_cur :: tabs
  m_faults :: "bool list"

definition aput :: "'k \<Rightarrow> 'v \<Rightarrow> ('k \<times> 'v) list \<Rightarrow> ('k \<times> 'v) list" where
  "aput k v xs = (k, v) # filter (\<lambda>p. fst p \<noteq> k) xs"

definition adel :: "'k \<Rightarrow> ('k \<times> 'v) list \<Rightarrow> ('k \<times> 'v) list" where
  "adel k xs = filter (\<lambda>p. fst p \<noteq> k) xs"

definition alocks :: "(cldino \<times> raw_lock list) list \<Rightarrow> cldino \<Rightarrow> raw_lock list" where
  "alocks xs i = (case map_of xs i of None \<Rightarrow> [] | Some ls \<Rightarrow> ls)"

definition avals :: "('k \<times> 'v) list \<Rightarrow> 'v list" where
  "avals xs = map snd (filter (\<lambda>(k, v). map_of xs k = Some v) xs)"

definition view_of :: "tabs \<Rightarrow> dbview" where
  "view_of t = \<lparr>v_sess = map_of (t_sess t), v_inodes = map_of (t_inodes t), v_data = map_of (t_data t),
     v_handles = map_of (t_handles t), v_locks = alocks (t_locks t)\<rparr>"

definition faulty :: "bool \<Rightarrow> mdb \<Rightarrow> bool \<times> mdb" where
  "faulty flt d =
     (if flt then case m_faults d of [] \<Rightarrow> (False, d) | b # bs \<Rightarrow> (b, d\<lparr>m_faults := bs\<rparr>)
      else (False, d))"

definition mread :: "bool \<Rightarrow> (tabs \<Rightarrow> 'r) \<Rightarrow> 'r \<Rightarrow> (mdb, 'r) dbop" where
  "mread flt f fault d = (case faulty flt d of (b, d) \<Rightarrow> (if b then fault else f (m_cur d), d))"

definition mwrite :: "bool \<Rightarrow> (tabs \<Rightarrow> dberr + tabs) \<Rightarrow> (mdb, rc) dbop" where
  "mwrite flt f d =
     (case faulty flt d of (b, d) \<Rightarrow>
        if b then (Some (DB_ERR 5), d)
        else case f (m_cur d) of Inl e \<Rightarrow> (Some e, d) | Inr t \<Rightarrow> (None, d\<lparr>m_cur := t\<rparr>))"

definition mget :: "'v option \<Rightarrow> dberr + 'v" where
  "mget opt = (case opt of None \<Rightarrow> Inl DB_NOTFOUND | Some x \<Rightarrow> Inr x)"

definition mbyname :: "bytes \<Rightarrow> tabs \<Rightarrow> dberr + raw_inode" where
  "mbyname n t =
     (case filter (\<lambda>(j, x). ri_inum x = j \<and> inode_name_key x = Some n \<and> map_of (t_inodes t) j = Some x) (t_inodes t) of
        [] \<Rightarrow> Inl DB_NOTFOUND
      | (j, x) # _ \<Rightarrow> Inr x)"

definition mscan :: "(raw_handle \<Rightarrow> bool) \<Rightarrow> tabs \<Rightarrow> raw_handle list" where
  "mscan P t = filter P (avals (t_handles t))"

definition mdb_ops :: "bool \<Rightarrow> mdb bdb" where
  "mdb_ops flt = \<lparr>
     db_txn_begin = (\<lambda>d. case faulty flt d of (b, d) \<Rightarrow> if b then (Some (DB_ERR 5), d) else (None, d\<lparr>m_cur := m_com d\<rparr>)),
     db_txn_commit = (\<lambda>d. case faulty flt d of (b, d) \<Rightarrow> if b then (Some (DB_ERR 5), d) else (None, d\<lparr>m_com := m_cur d\<rparr>)),
     db_txn_abort = (\<lambda>d. (None, d\<lparr>m_cur := m_com d\<rparr>)),
     db_sess_get = (\<lambda>s. mread flt (\<lambda>t. mget (map_of (t_sess t) s)) (Inl (DB_ERR 5))),
     db_sess_put = (\<lambda>rs. mwrite flt (\<lambda>t. Inr (t\<lparr>t_sess := aput (rs_sid rs) rs (t_sess t)\<rparr>))),
     db_sess_put_new = (\<lambda>rs d. case faulty flt d of (b, d) \<Rightarrow>
        if b then (Some (DB_ERR 5), d)
        else if map_of (t_sess (m_com d)) (rs_sid rs) \<noteq> None then (Some DB_KEYEXIST, d)
        else (None, d\<lparr>m_com := (m_com d)\<lparr>t_sess := aput (rs_sid rs) rs (t_sess (m_com d))\<rparr>\<rparr>)),
     db_sess_del = (\<lambda>s. mwrite flt (\<lambda>t. if map_of (t_sess t) s = None then Inl DB_NOTFOUND
        else Inr (t\<lparr>t_sess := adel s (t_sess t)\<rparr>))),
     db_sess_scan = mread flt (\<lambda>t. (remdups (avals (t_sess t)), DB_NOTFOUND)) ([], DB_ERR 5),
     db_inode_get = (\<lambda>i. mread flt (\<lambda>t. mget (map_of (t_inodes t) i)) (Inl (DB_ERR 5))),
     db_inode_byname = (\<lambda>n. mread flt (mbyname n) (Inl (DB_ERR 5))),
     db_inode_put = (\<lambda>ino. mwrite flt (\<lambda>t.
        if filter (\<lambda>(j, x). j \<noteq> ri_inum ino \<and> map_of (t_inodes t) j = Some x \<and> inode_name_key x \<noteq> None \<and>
            inode_name_key x = inode_name_key ino) (t_inodes t) \<noteq> []
        then Inl (DB_ERR 22)
        else Inr (t\<lparr>t_inodes := aput (ri_inum ino) ino (t_inodes t)\<rparr>))),
     db_inode_del = (\<lambda>i. mwrite flt (\<lambda>t. if map_of (t_inodes t) i = None then Inl DB_NOTFOUND
        else Inr (t\<lparr>t_inodes := adel i (t_inodes t)\<rparr>))),
     db_data_get = (\<lambda>i. mread flt (\<lambda>t. mget (map_of (t_data t) i)) (Inl (DB_ERR 5))),
     db_data_put = (\<lambda>i b. mwrite flt (\<lambda>t. Inr (t\<lparr>t_data := aput i b (t_data t)\<rparr>))),
     db_data_del = (\<lambda>i. mwrite flt (\<lambda>t. if map_of (t_data t) i = None then Inl DB_NOTFOUND
        else Inr (t\<lparr>t_data := adel i (t_data t)\<rparr>))),
     db_handle_get = (\<lambda>s fh. mread flt (\<lambda>t. mget (map_of (t_handles t) (s, fh))) (Inl (DB_ERR 5))),
     db_handle_put = (\<lambda>h. mwrite flt (\<lambda>t. Inr (t\<lparr>t_handles := aput (rh_sid h, rh_fh h) h (t_handles t)\<rparr>))),
     db_handle_del = (\<lambda>s fh. mwrite flt (\<lambda>t. if map_of (t_handles t) (s, fh) = None then Inl DB_NOTFOUND
        else Inr (t\<lparr>t_handles := adel (s, fh) (t_handles t)\<rparr>))),
     db_hidx_scan = (\<lambda>i. mread flt (\<lambda>t. (mscan (\<lambda>h. handle_idx_key h = i) t, DB_NOTFOUND)) ([], DB_ERR 5)),
     db_hidx_del = (\<lambda>i. mwrite flt (\<lambda>t. if mscan (\<lambda>h. handle_idx_key h = i) t = [] then Inl DB_NOTFOUND
        else Inr (t\<lparr>t_handles := filter (\<lambda>(k, h). map_of (t_handles t) k = Some h \<and> handle_idx_key h \<noteq> i) (t_handles t)\<rparr>))),
     db_handle_range = (\<lambda>s. mread flt (\<lambda>t. (mscan (\<lambda>h. rh_sid h = s) t @ mscan (\<lambda>h. memcmp (rh_sid h) s > 0) t, DB_NOTFOUND)) ([], DB_ERR 5)),
     db_handle_cdel = (\<lambda>h. mwrite flt (\<lambda>t. Inr (t\<lparr>t_handles := adel (rh_sid h, rh_fh h) (t_handles t)\<rparr>))),
     db_lock_scan = (\<lambda>i. mread flt (\<lambda>t. (alocks (t_locks t) i, DB_NOTFOUND)) ([], DB_ERR 5)),
     db_lock_put = (\<lambda>i l. mwrite flt (\<lambda>t. if \<exists>x \<in> set (alocks (t_locks t) i). lock_compare l x = 0 then Inl DB_KEYEXIST
        else Inr (t\<lparr>t_locks := aput i (lock_insert l (alocks (t_locks t) i)) (t_locks t)\<rparr>))),
     db_lock_cdel = (\<lambda>i l. mwrite flt (\<lambda>t. Inr (t\<lparr>t_locks := aput i (remove1 l (alocks (t_locks t) i)) (t_locks t)\<rparr>))),
     db_lock_cput = (\<lambda>i l l'. mwrite flt (\<lambda>t. if lock_compare l l' \<noteq> 0 then Inl (DB_ERR 22)
        else Inr (t\<lparr>t_locks := aput i (map (\<lambda>x. if x = l then l' else x) (alocks (t_locks t) i)) (t_locks t)\<rparr>))),
     db_cursor = mread flt (\<lambda>_. None) (Some (DB_ERR 5)),
     db_cursor_close = mread flt (\<lambda>_. None) (Some (DB_ERR 5))\<rparr>"

abbreviation mcom :: "mdb \<Rightarrow> dbview" where "mcom d \<equiv> view_of (m_com d)"
abbreviation mcur :: "mdb \<Rightarrow> dbview" where "mcur d \<equiv> view_of (m_cur d)"

lemma map_of_aput [simp]: "map_of (aput k v xs) = (map_of xs)(k \<mapsto> v)"
  by (auto simp: aput_def fun_eq_iff map_of_filter_in) (induction xs, auto)

lemma map_of_adel [simp]: "map_of (adel k xs) = (map_of xs)(k := None)"
  unfolding adel_def by (induction xs) (auto simp: fun_eq_iff)

lemma alocks_aput [simp]: "alocks (aput i ls xs) = (alocks xs)(i := ls)"
  by (auto simp: alocks_def fun_eq_iff)

lemma set_avals: "set (avals xs) = ran (map_of xs)"
  by (force simp: avals_def ran_def dest: map_of_SomeD)

lemma reads_mread:
  assumes "\<And>t. Q (f t) (view_of t)" and "\<And>v. Q fault v"
  shows "reads mcom mcur (mread flt f fault) Q"
  using assms by (auto simp: reads_def mread_def faulty_def split: list.splits if_splits)

lemma writes_mwrite:
  assumes "\<And>t t'. f t = Inr t' \<Longrightarrow> ok (view_of t) \<and> view_of t' = upd (view_of t)"
  shows "writes mcom mcur (mwrite flt f) ok upd"
  using assms by (auto simp: writes_def mwrite_def faulty_def split: list.splits if_splits sum.splits)

lemma mget_found: "found opt (mget opt)"
  by (simp add: found_def mget_def split: option.splits)

lemma found_err: "found opt (Inl (DB_ERR n))"
  by (simp add: found_def)

lemma mbyname_ok:
  "(\<forall>x. mbyname n t = Inr x \<longrightarrow> map_of (t_inodes t) (ri_inum x) = Some x \<and> inode_name_key x = Some n) \<and>
   (mbyname n t = Inl DB_NOTFOUND \<longrightarrow>
      (\<forall>j x. map_of (t_inodes t) j = Some x \<and> ri_inum x = j \<longrightarrow> inode_name_key x \<noteq> Some n))"
proof (cases "filter (\<lambda>(j, x). ri_inum x = j \<and> inode_name_key x = Some n \<and> map_of (t_inodes t) j = Some x) (t_inodes t)")
  case Nil
  then show ?thesis by (auto simp: mbyname_def filter_empty_conv dest: map_of_SomeD)
next
  case (Cons p ps)
  then have "p \<in> set (filter (\<lambda>(j, x). ri_inum x = j \<and> inode_name_key x = Some n \<and> map_of (t_inodes t) j = Some x) (t_inodes t))"
    by simp
  then have "case p of (j, x) \<Rightarrow> ri_inum x = j \<and> inode_name_key x = Some n \<and> map_of (t_inodes t) j = Some x"
    by simp
  with Cons show ?thesis by (auto simp: mbyname_def split: prod.splits)
qed

lemma set_mscan: "set (mscan P t) = handles_of (view_of t) P"
  by (auto simp: mscan_def set_avals handles_of_def view_of_def ran_def)

lemma map_of_filter_val:
  "map_of (filter (\<lambda>(k, h). map_of xs k = Some h \<and> P h) xs) k =
   (case map_of xs k of None \<Rightarrow> None | Some h \<Rightarrow> if P h then Some h else None)"
proof -
  let ?Q = "\<lambda>(k, h). map_of xs k = Some h \<and> P h"
  have sub: "\<And>h. map_of (filter ?Q xs) k = Some h \<Longrightarrow> map_of xs k = Some h \<and> P h"
    by (drule map_of_SomeD) auto
  have "map_of (filter ?Q xs) k \<noteq> None" if "map_of xs k = Some h" "P h" for h
  proof -
    have "(k, h) \<in> set (filter ?Q xs)" using that map_of_SomeD [of xs k h] by simp
    then have "k \<in> fst ` set (filter ?Q xs)" by (rule rev_image_eqI) simp
    then show ?thesis by (simp only: map_of_eq_None_iff not_not)
  qed
  then show ?thesis
  proof (cases "map_of (filter ?Q xs) k")
    case None
    with \<open>\<And>h. map_of xs k = Some h \<Longrightarrow> P h \<Longrightarrow> map_of (filter ?Q xs) k \<noteq> None\<close>
    show ?thesis by (auto split: option.splits)
  next
    case (Some h)
    with sub [OF Some] show ?thesis by simp
  qed
qed

lemma view_of_upd:
  "view_of (t\<lparr>t_sess := a\<rparr>) = (view_of t)\<lparr>v_sess := map_of a\<rparr>"
  "view_of (t\<lparr>t_inodes := b\<rparr>) = (view_of t)\<lparr>v_inodes := map_of b\<rparr>"
  "view_of (t\<lparr>t_data := c\<rparr>) = (view_of t)\<lparr>v_data := map_of c\<rparr>"
  "view_of (t\<lparr>t_handles := e\<rparr>) = (view_of t)\<lparr>v_handles := map_of e\<rparr>"
  "view_of (t\<lparr>t_locks := f\<rparr>) = (view_of t)\<lparr>v_locks := alocks f\<rparr>"
  by (simp_all add: view_of_def)

lemma view_of_sel [simp]:
  "v_sess (view_of t) = map_of (t_sess t)" "v_inodes (view_of t) = map_of (t_inodes t)"
  "v_data (view_of t) = map_of (t_data t)" "v_handles (view_of t) = map_of (t_handles t)"
  "v_locks (view_of t) = alocks (t_locks t)"
  by (simp_all add: view_of_def)

lemmas mdb_simps = mdb_ops_def mread_def mwrite_def faulty_def

interpretation ms: bdb "mdb_ops flt" mcom mcur
proof (unfold_locales, goal_cases)
  case (1 d r d') then show ?case by (auto simp: mdb_simps split: list.splits if_splits)
next
  case (2 d r d') then show ?case by (auto simp: mdb_simps split: list.splits if_splits)
next
  case (3 d r d') then show ?case by (auto simp: mdb_simps)
next
  case (4 s) show ?case
    by (simp add: mdb_ops_def) (rule reads_mread, auto simp: mget_found found_err)
next
  case (5 rs) show ?case
    by (simp add: mdb_ops_def) (rule writes_mwrite, auto simp: view_of_upd)
next
  case (6 rs d r d') then show ?case
    by (auto simp: mdb_simps view_of_upd split: list.splits if_splits)
next
  case (7 s) show ?case
    by (simp add: mdb_ops_def) (rule writes_mwrite, auto simp: view_of_upd split: if_splits)
next
  case 8 show ?case
    by (simp add: mdb_ops_def) (rule reads_mread, auto simp: set_avals)
next
  case (9 i) show ?case
    by (simp add: mdb_ops_def) (rule reads_mread, auto simp: mget_found found_err)
next
  case (10 n) show ?case
    using mbyname_ok [of n] by (simp add: mdb_ops_def) (rule reads_mread, auto)
next
  case (11 ino) show ?case
    by (simp add: mdb_ops_def)
      (rule writes_mwrite, auto simp: view_of_upd name_free_def filter_empty_conv split: if_splits dest: map_of_SomeD)
next
  case (12 i) show ?case
    by (simp add: mdb_ops_def) (rule writes_mwrite, auto simp: view_of_upd split: if_splits)
next
  case (13 i) show ?case
    by (simp add: mdb_ops_def) (rule reads_mread, auto simp: mget_found found_err)
next
  case (14 i b) show ?case
    by (simp add: mdb_ops_def) (rule writes_mwrite, auto simp: view_of_upd)
next
  case (15 i) show ?case
    by (simp add: mdb_ops_def) (rule writes_mwrite, auto simp: view_of_upd split: if_splits)
next
  case (16 i d d') then show ?case
    by (auto simp: mdb_simps split: list.splits if_splits)
next
  case (17 s fh) show ?case
    by (simp add: mdb_ops_def) (rule reads_mread, auto simp: mget_found found_err)
next
  case (18 h) show ?case
    by (simp add: mdb_ops_def) (rule writes_mwrite, auto simp: view_of_upd)
next
  case (19 s fh) show ?case
    by (simp add: mdb_ops_def) (rule writes_mwrite, auto simp: view_of_upd split: if_splits)
next
  case (20 i) show ?case
    by (simp add: mdb_ops_def) (rule reads_mread, auto simp: set_mscan)
next
  case (21 i) show ?case
    by (simp add: mdb_ops_def)
      (rule writes_mwrite, auto simp: view_of_upd map_of_filter_val fun_eq_iff split: if_splits option.splits)
next
  case (22 i d d') then show ?case
    by (auto simp: mdb_simps set_mscan [symmetric] split: list.splits if_splits)
next
  case (23 s)
  have "takeWhile (\<lambda>h. rh_sid h = s) (mscan (\<lambda>h. rh_sid h = s) t @ mscan (\<lambda>h. memcmp (rh_sid h) s > 0) t) =
      mscan (\<lambda>h. rh_sid h = s) t" for t
  proof -
    have "takeWhile (\<lambda>h. rh_sid h = s) (mscan (\<lambda>h. memcmp (rh_sid h) s > 0) t) = []"
      by (auto simp: takeWhile_eq_Nil_iff mscan_def dest!: hd_in_set)
    then show ?thesis
      by (subst takeWhile_append2) (auto simp: mscan_def)
  qed
  then show ?case
    by (simp add: mdb_ops_def) (rule reads_mread, auto simp: set_mscan handles_of_def ran_def)
next
  case (24 h) show ?case
    by (simp add: mdb_ops_def) (rule writes_mwrite, auto simp: view_of_upd)
next
  case (25 i) show ?case
    by (simp add: mdb_ops_def) (rule reads_mread, auto)
next
  case (26 i l) show ?case
    by (simp add: mdb_ops_def) (rule writes_mwrite, auto simp: view_of_upd split: if_splits)
next
  case (27 i l) show ?case
    by (simp add: mdb_ops_def) (rule writes_mwrite, auto simp: view_of_upd)
next
  case (28 i l d) show ?case by (auto simp: mdb_simps split: list.splits)
next
  case (29 h d) show ?case by (auto simp: mdb_simps split: list.splits)
next
  case (30 i l l') show ?case
    by (simp add: mdb_ops_def) (rule writes_mwrite, auto simp: view_of_upd split: if_splits)
next
  case 31 show ?case by (simp add: mdb_ops_def) (rule reads_mread, auto)
next
  case 32 show ?case by (simp add: mdb_ops_def) (rule reads_mread, auto)
qed

interpretation mr: bdb_reliable "mdb_ops False" mcom mcur
proof (unfold_locales, goal_cases)
  case (7 ino)
  show ?case
    by (auto simp: mdb_simps sure_def name_free_def filter_empty_conv) metis
qed (auto simp: mdb_simps sure_def sure_del_def definite_def complete_def mget_def mbyname_def name_free_def
    filter_empty_conv set_mscan [symmetric] split: option.splits if_splits list.splits dest: map_of_SomeD)

end
