(* ===== verification/Cld_State.thy ===== *)
theory Cld_State
  imports Bdb Htab
begin

text \<open>
  The state of the lock server (\<^verbatim>\<open>cld/cld.h\<close>): sessions on an explicit heap, the session table
  (the hash table of \<^verbatim>\<open>lib/htab.c\<close> from session ids to addresses), the database, the clock, the
  network. What is outside the repository is in \<open>env\<close>: the database operations, \<^verbatim>\<open>rand()\<close>, HMAC,
  and the XDR routines the build generates from \<^verbatim>\<open>lib/cld_msg_rpc.x\<close>.
\<close>

section \<open>Messages\<close>

text \<open>What the server sends (the structures of \<^verbatim>\<open>lib/cld_msg_rpc.x\<close>).\<close>

record cld_msg_get_resp =
  gr_code :: cle_err_codes
  gr_xid_in :: u64
  gr_inum :: u64
  gr_vers :: u64
  gr_time_create :: u64
  gr_time_modify :: u64
  gr_flags :: u32
  gr_inode_name :: bytes
  gr_data :: bytes

datatype cld_msg =
    Void_msg
  | Generic_resp cle_err_codes u64
  | Ack_frag u64
  | Open_resp cle_err_codes u64 u64
  | Get_resp cld_msg_get_resp
  | Event u64 u32

record cld_msg_open =
  om_mode :: u32
  om_events :: u32
  om_inode_name :: bytes

record cld_msg_put =
  pm_fh :: u64
  pm_data :: bytes

record cld_msg_lock =
  lm_fh :: u64
  lm_flags :: u32

section \<open>Sessions\<close>

datatype done_cb = Session_ping_done | End_sess_done

record session_outpkt =
  op_pkt_data :: bytes
  op_next_retry :: u64
  op_refs :: nat
  op_done_cb :: "done_cb option"

record session =
  ss_sid :: sid
  ss_sock_fd :: int
  ss_addr :: bytes
  ss_addr_len :: u32
  ss_ipaddr :: bytes
  ss_last_contact :: u64
  ss_next_fh :: u64
  ss_timer :: "u64 option"          \<comment> \<open>seconds the session timer was armed with\<close>
  ss_next_seqid_in :: u64
  ss_next_seqid_out :: u64
  ss_out_q :: "session_outpkt list"
  ss_retry_timer :: "u64 option"
  ss_user :: bytes
  ss_ping_open :: bool
  ss_dead :: bool
  ss_msg_op :: u32
  ss_msg_xid :: u64
  ss_msg_buf :: bytes

definition session_zero :: session where
  "session_zero = \<lparr>ss_sid = replicate 8 0, ss_sock_fd = 0, ss_addr = replicate 28 0, ss_addr_len = 0,
     ss_ipaddr = [], ss_last_contact = 0, ss_next_fh = 0, ss_timer = None, ss_next_seqid_in = 0,
     ss_next_seqid_out = 0, ss_out_q = [], ss_retry_timer = None, ss_user = [], ss_ping_open = False,
     ss_dead = False, ss_msg_op = 0, ss_msg_xid = 0, ss_msg_buf = []\<rparr>"

definition CLD_SESS_TIMEOUT :: u64 where [cfg_simps]: "CLD_SESS_TIMEOUT = 60"
definition CLD_RETRY_START :: u64 where [cfg_simps]: "CLD_RETRY_START = 2"

section \<open>The server\<close>

text \<open>
  A \<^verbatim>\<open>write\<close> on a socket fails with an errno or takes a number of bytes; the results are a
  script, and an exhausted script means that everything is taken. \<open>sv_log\<close> records the messages
  handed to \<^verbatim>\<open>sess_sendmsg\<close>: session, operation and message.
\<close>

record 'd srv =
  sv_db :: 'd
  sv_sessions :: "(sid, nat) htab"
  sv_heap :: "nat \<rightharpoonup> session"
  sv_next :: nat
  sv_now :: u64
  sv_mem :: mem
  sv_rand :: nat
  sv_writes :: "(int + nat) list"
  sv_tx :: "(int \<times> bytes) list"
  sv_log :: "(nat \<times> u32 \<times> cld_msg) list"
  sv_master :: bool
  sv_garbage :: nat

record 'd env =
  e_db :: "'d bdb"
  e_rand :: rng
  e_hmac :: hmac
  e_xdr_hdr :: "cld_pkt_hdr \<Rightarrow> bytes option"
  e_xdr_msg :: "cld_msg \<Rightarrow> bytes option"
  e_dec_hdr :: "bytes \<Rightarrow> (cld_pkt_hdr \<times> nat) option"
  e_dec_open :: "bytes \<Rightarrow> cld_msg_open option"
  e_dec_get :: "bytes \<Rightarrow> u64 option"
  e_dec_put :: "bytes \<Rightarrow> cld_msg_put option"
  e_dec_close :: "bytes \<Rightarrow> u64 option"
  e_dec_del :: "bytes \<Rightarrow> bytes option"
  e_dec_unlock :: "bytes \<Rightarrow> u64 option"
  e_dec_lock :: "bytes \<Rightarrow> cld_msg_lock option"
  e_nameinfo :: "bytes \<Rightarrow> bytes"   \<comment> \<open>\<^verbatim>\<open>getnameinfo\<close>, numeric host\<close>
  e_stack :: bytes                \<comment> \<open>what uninitialised stack memory holds\<close>

text \<open>Dereferencing and updating a session; the handlers are only given live pointers.\<close>

definition sess_at :: "'d srv \<Rightarrow> nat \<Rightarrow> session" where
  "sess_at s p = (case sv_heap s p of Some x \<Rightarrow> x | None \<Rightarrow> session_zero)"

definition sess_upd :: "nat \<Rightarrow> (session \<Rightarrow> session) \<Rightarrow> 'd srv \<Rightarrow> 'd srv" where
  "sess_upd p f s = s\<lparr>sv_heap := (sv_heap s)(p := map_option f (sv_heap s p))\<rparr>"

definition srv_alloc :: "'d srv \<Rightarrow> bool \<times> 'd srv" where
  "srv_alloc s = (case alloc (sv_mem s) of (ok, m) \<Rightarrow> (ok, s\<lparr>sv_mem := m\<rparr>))"

definition srv_rand :: "'d env \<Rightarrow> 'd srv \<Rightarrow> 31 word \<times> 'd srv" where
  "srv_rand E s = (e_rand E (sv_rand s), s\<lparr>sv_rand := Suc (sv_rand s)\<rparr>)"

definition srv_rand64 :: "'d env \<Rightarrow> 'd srv \<Rightarrow> u64 \<times> 'd srv" where
  "srv_rand64 E s = (case cld_rand64 (e_rand E) (sv_rand s) of (v, k) \<Rightarrow> (v, s\<lparr>sv_rand := k\<rparr>))"

text \<open>Database calls on the server's state.\<close>

definition db_call :: "('d, 'r) dbop \<Rightarrow> ('d srv, 'e, 'r) esm" where
  "db_call f s = (case f (sv_db s) of (r, d) \<Rightarrow> (Inr r, s\<lparr>sv_db := d\<rparr>))"

definition db_rc :: "('d, rc) dbop \<Rightarrow> ('d srv, dberr, unit) esm" where
  "db_rc f s =
     (case f (sv_db s) of
        (None, d) \<Rightarrow> (Inr (), s\<lparr>sv_db := d\<rparr>)
      | (Some e, d) \<Rightarrow> (Inl e, s\<lparr>sv_db := d\<rparr>))"

definition db_val :: "('d, dberr + 'a) dbop \<Rightarrow> ('d srv, dberr, 'a) esm" where
  "db_val f s = (case f (sv_db s) of (r, d) \<Rightarrow> (r, s\<lparr>sv_db := d\<rparr>))"

text \<open>Everything but the database.\<close>

definition sv_rest :: "'d srv \<Rightarrow> 'd srv" where
  "sv_rest s = s\<lparr>sv_db := undefined\<rparr>"

section \<open>Frame lemmas\<close>

lemma sv_restD:
  assumes "sv_rest s' = sv_rest s"
  shows "sv_heap s' = sv_heap s" "sv_sessions s' = sv_sessions s" "sv_now s' = sv_now s" "sv_log s' = sv_log s"
    "sv_next s' = sv_next s" "sv_mem s' = sv_mem s" "sv_rand s' = sv_rand s" "sv_tx s' = sv_tx s"
    "sess_at s' p = sess_at s p"
proof -
  have "s' = s\<lparr>sv_db := sv_db s'\<rparr>"
    using assms unfolding sv_rest_def by (cases s; cases s') simp
  then obtain d where "s' = s\<lparr>sv_db := d\<rparr>" ..
  then show "sv_heap s' = sv_heap s" "sv_sessions s' = sv_sessions s" "sv_now s' = sv_now s" "sv_log s' = sv_log s"
    "sv_next s' = sv_next s" "sv_mem s' = sv_mem s" "sv_rand s' = sv_rand s" "sv_tx s' = sv_tx s"
    "sess_at s' p = sess_at s p"
    by (simp_all add: sess_at_def)
qed

lemma sv_rest_db [simp]: "sv_rest (s\<lparr>sv_db := d\<rparr>) = sv_rest s"
  by (simp add: sv_rest_def)

lemma keeps_rest_db [keeps_intros]: "keeps sv_rest (db_rc f)" "keeps sv_rest (db_val g)" "keeps sv_rest (db_call h)"
  by (auto simp: keeps_def db_rc_def db_val_def db_call_def split: prod.splits option.splits)

lemma sess_upd_db [simp]: "sv_db (sess_upd p f s) = sv_db s"
  by (simp add: sess_upd_def)

lemma sess_upd_other [simp]:
  "sv_sessions (sess_upd p f s) = sv_sessions s" "sv_now (sess_upd p f s) = sv_now s"
  "sv_next (sess_upd p f s) = sv_next s" "sv_log (sess_upd p f s) = sv_log s"
  "sv_mem (sess_upd p f s) = sv_mem s" "sv_rand (sess_upd p f s) = sv_rand s"
  "sv_tx (sess_upd p f s) = sv_tx s" "sv_writes (sess_upd p f s) = sv_writes s"
  by (simp_all add: sess_upd_def)

lemma sess_at_upd: "sv_heap s p \<noteq> None \<Longrightarrow> sess_at (sess_upd p f s) p = f (sess_at s p)"
  by (auto simp: sess_at_def sess_upd_def)

lemma sess_at_Some: "sv_heap s p = Some x \<Longrightarrow> sess_at s p = x"
  by (simp add: sess_at_def)

lemma sess_at_upd_Some: "sv_heap s p = Some x \<Longrightarrow> sess_at (sess_upd p f s) p = f x"
  by (simp add: sess_at_def sess_upd_def)

lemma sess_at_upd_other: "q \<noteq> p \<Longrightarrow> sess_at (sess_upd p f s) q = sess_at s q"
  by (auto simp: sess_at_def sess_upd_def)

lemma keeps_db_rest [keeps_intros]:
  "keeps sv_db srv_alloc" "keeps sv_db (srv_rand E)" "keeps sv_db (srv_rand64 E)"
  by (auto simp: keeps_def srv_alloc_def srv_rand_def srv_rand64_def split: prod.splits)

section \<open>A concrete environment\<close>

text \<open>
  The environment used to evaluate the model: the reference store, a fixed random sequence, a
  20-byte checksum for HMAC, and codecs with the round trip the generated XDR routines have.
\<close>

definition ref_hdr :: "cld_pkt_hdr \<Rightarrow> bytes" where
  "ref_hdr h = ph_magic h @ ph_sid h @ le_bytes 4 (ph_order h) @ le_bytes 8 (mi_xid (ph_mi h)) @
     le_bytes 4 (mi_op (ph_mi h)) @ word_of_nat (length (ph_user h)) # ph_user h"

definition ref_dec_hdr :: "bytes \<Rightarrow> (cld_pkt_hdr \<times> nat) option" where
  "ref_dec_hdr b =
     (if length b < 33 then None
      else let n = unat (b ! 32) in
        if length b < 33 + n then None
        else Some (\<lparr>ph_magic = take 8 b, ph_sid = take 8 (drop 8 b), ph_user = take n (drop 33 b),
            ph_order = of_le_bytes (take 4 (drop 16 b)),
            ph_mi = \<lparr>mi_xid = of_le_bytes (take 8 (drop 20 b)), mi_op = of_le_bytes (take 4 (drop 28 b))\<rparr>\<rparr>, 33 + n))"

fun ref_msg :: "cld_msg \<Rightarrow> bytes" where
  "ref_msg Void_msg = []"
| "ref_msg (Generic_resp c xid) = le_bytes 4 (cle_code c) @ le_bytes 8 xid"
| "ref_msg (Ack_frag seqid) = le_bytes 8 seqid"
| "ref_msg (Open_resp c xid fh) = le_bytes 4 (cle_code c) @ le_bytes 8 xid @ le_bytes 8 fh"
| "ref_msg (Get_resp r) = le_bytes 4 (cle_code (gr_code r)) @ le_bytes 8 (gr_xid_in r) @ gr_data r"
| "ref_msg (Event fh ev) = le_bytes 8 fh @ le_bytes 4 ev"

definition fh_dec :: "bytes \<Rightarrow> u64 option" where
  "fh_dec b = (if length b < 8 then None else Some (of_le_bytes (take 8 b)))"

definition ref_env :: "bool \<Rightarrow> mdb env" where
  "ref_env flt = \<lparr>e_db = mdb_ops flt, e_rand = (\<lambda>n. word_of_nat (100 + n)), e_hmac = HMAC_sample,
     e_xdr_hdr = (\<lambda>h. Some (ref_hdr h)), e_xdr_msg = (\<lambda>m. Some (ref_msg m)), e_dec_hdr = ref_dec_hdr,
     e_dec_open = (\<lambda>b. if length b < 8 \<or> length b > 8 + CLD_INODE_NAME_MAX then None else
        Some \<lparr>om_mode = of_le_bytes (take 4 b), om_events = of_le_bytes (take 4 (drop 4 b)), om_inode_name = drop 8 b\<rparr>),
     e_dec_get = fh_dec,
     e_dec_put = (\<lambda>b. map_option (\<lambda>fh. \<lparr>pm_fh = fh, pm_data = drop 8 b\<rparr>) (fh_dec b)),
     e_dec_close = fh_dec, e_dec_del = Some, e_dec_unlock = fh_dec,
     e_dec_lock = (\<lambda>b. map_option (\<lambda>fh. \<lparr>lm_fh = fh, lm_flags = of_le_bytes (drop 8 b)\<rparr>) (fh_dec b)),
     e_nameinfo = id, e_stack = replicate 64 0xAA\<rparr>"

lemma ref_env_sel [simp]:
  "e_db (ref_env flt) = mdb_ops flt" "e_hmac (ref_env flt) = HMAC_sample"
  "e_xdr_hdr (ref_env flt) h = Some (ref_hdr h)" "e_xdr_msg (ref_env flt) m = Some (ref_msg m)"
  "e_dec_hdr (ref_env flt) = ref_dec_hdr"
  by (simp_all add: ref_env_def)

definition sample_sess :: session where
  "sample_sess = session_zero\<lparr>ss_sid := [1, 2, 3, 4, 5, 6, 7, 8], ss_sock_fd := 4, ss_user := [117],
     ss_next_fh := 2, ss_next_seqid_out := 9\<rparr>"

definition no_tabs :: tabs where
  "no_tabs = \<lparr>t_sess = [], t_inodes = [], t_data = [], t_handles = [], t_locks = []\<rparr>"

text \<open>The table as \<^verbatim>\<open>htab_new(sess_hash, sess_equal, NULL, NULL)\<close> leaves it.\<close>

definition sess_hash :: "sid \<Rightarrow> u64" where
  "sess_hash sid = of_le_bytes (take 8 sid)"

definition sess_equal :: "sid \<Rightarrow> sid \<Rightarrow> int" where
  "sess_equal a b = memcmp (take CLD_SID_SZ a) (take CLD_SID_SZ b)"

definition sess_table :: "(sid, nat) htab" where
  "sess_table = \<lparr>hash_fn = sess_hash, cmp_fn = sess_equal, free_key_fn = False, free_value_fn = False,
     prime_idx = 0, buckets = replicate 5 [], n_ent = 0\<rparr>"

text \<open>One session, at address 0, on a database with the given committed content.\<close>

definition sample_srv :: "tabs \<Rightarrow> mdb srv" where
  "sample_srv t = \<lparr>sv_db = \<lparr>m_com = t, m_cur = t, m_faults = []\<rparr>,
     sv_sessions = sess_table, sv_heap = [0 \<mapsto> sample_sess], sv_next = 1,
     sv_now = 1000, sv_mem = [], sv_rand = 0, sv_writes = [], sv_tx = [], sv_log = [], sv_master = True, sv_garbage = 0\<rparr>"

lemma sample_srv_sel [simp]:
  "sv_mem (sample_srv t) = []" "sv_writes (sample_srv t) = []" "sv_log (sample_srv t) = []" "sv_now (sample_srv t) = 1000"
  "sv_heap (sample_srv t) = [0 \<mapsto> sample_sess]" "sess_at (sample_srv t) 0 = sample_sess"
  "sv_sessions (sample_srv t) = sess_table"
  "sv_db (sample_srv t) = \<lparr>m_com = t, m_cur = t, m_faults = []\<rparr>"
  by (simp_all add: sample_srv_def sess_at_def)

lemma sample_sess_sel [simp]:
  "ss_user sample_sess = [117]" "ss_next_seqid_out sample_sess = 9" "ss_out_q sample_sess = []"
  "ss_sid sample_sess = [1, 2, 3, 4, 5, 6, 7, 8]" "ss_next_fh sample_sess = 2" "ss_sock_fd sample_sess = 4"
  "ss_retry_timer sample_sess = None" "ss_msg_op sample_sess = 0" "ss_msg_xid sample_sess = 0"
  by (simp_all add: sample_sess_def session_zero_def)

lemma length_HMAC_sample [simp]: "length (HMAC_sample k m) = SHA_DIGEST_LENGTH"
  by (simp add: HMAC_sample_def)

text \<open>The same server with its session in the table.\<close>

definition tab_srv :: "tabs \<Rightarrow> mdb srv" where
  "tab_srv t = (sample_srv t)\<lparr>sv_sessions := sess_table\<lparr>n_ent := 1,
     buckets := [[], [\<lparr>he_key = ss_sid sample_sess, he_value = 0, he_hash = 578437695752307201\<rparr>], [], [], []]\<rparr>\<rparr>"

lemma tab_srv_sel [simp]:
  "sv_mem (tab_srv t) = []" "sv_writes (tab_srv t) = []" "sv_log (tab_srv t) = []" "sv_now (tab_srv t) = 1000"
  "sv_heap (tab_srv t) = [0 \<mapsto> sample_sess]" "sess_at (tab_srv t) 0 = sample_sess"
  "sv_db (tab_srv t) = \<lparr>m_com = t, m_cur = t, m_faults = []\<rparr>"
  by (simp_all add: tab_srv_def sess_at_def)

lemma sample_hash: "sess_hash [1, 2, 3, 4, 5, 6, 7, 8] = 578437695752307201"
  by code_simp

lemma tab_srv_get [simp]: "htab_get (sv_sessions (tab_srv t)) [1, 2, 3, 4, 5, 6, 7, 8] = Some 0"
  by (simp add: tab_srv_def htab_get_def sess_table_def htab_sz_def primes_def htab_slot_def sample_hash sess_equal_def)

end
