(* ===== verification/Cldb.thy ===== *)
theory Cldb
  imports Cld_State
begin

text \<open>
  The database access layer \<^verbatim>\<open>cld/cldb.c\<close>: one definition per function, on the server's state, with
  the error of the first failing call as result. \<^verbatim>\<open>DB_RMW\<close> and \<^verbatim>\<open>DB_DBT_MALLOC\<close> have no counterpart:
  the server is single threaded. Then what the laws of the database make of these functions, in
  the locale \<open>bdb\<close>, and the safety of the lock table.
\<close>

section \<open>Sessions and inodes\<close>

definition cldb_session_del :: "'d env \<Rightarrow> sid \<Rightarrow> ('d srv, dberr, unit) esm" where
  "cldb_session_del E sid = db_rc (db_sess_del (e_db E) sid)"

definition cldb_session_get :: "'d env \<Rightarrow> sid \<Rightarrow> ('d srv, dberr, raw_session) esm" where
  "cldb_session_get E sid = db_val (db_sess_get (e_db E) sid)"

definition cldb_session_put :: "'d env \<Rightarrow> raw_session \<Rightarrow> ('d srv, dberr, unit) esm" where
  "cldb_session_put E sess = db_rc (db_sess_put (e_db E) sess)"

definition cldb_inode_get :: "'d env \<Rightarrow> cldino \<Rightarrow> ('d srv, dberr, raw_inode) esm" where
  "cldb_inode_get E inum = db_val (db_inode_get (e_db E) inum)"

definition cldb_inode_get_byname :: "'d env \<Rightarrow> bytes \<Rightarrow> ('d srv, dberr, raw_inode) esm" where
  "cldb_inode_get_byname E name = db_val (db_inode_byname (e_db E) name)"

text \<open>The fixed part of the record takes 48 bytes (\<^verbatim>\<open>sizeof(struct raw_inode)\<close>).\<close>

definition raw_ino_size :: "raw_inode \<Rightarrow> nat" where
  "raw_ino_size ino = 48 + unat (ri_ino_len ino)"

definition cldb_inode_put :: "'d env \<Rightarrow> raw_inode \<Rightarrow> ('d srv, dberr, unit) esm" where
  "cldb_inode_put E inode =
     db_rc (db_inode_put (e_db E) (inode\<lparr>ri_name := take (raw_ino_size inode - 48) (ri_name inode)\<rparr>))"

definition cldb_inode_mem :: "'d env \<Rightarrow> bytes \<Rightarrow> u32 \<Rightarrow> cldino \<Rightarrow> 'd srv \<Rightarrow> raw_inode option \<times> 'd srv" where
  "cldb_inode_mem E name flags new_inum s =
     (case srv_alloc s of
        (ok, s) \<Rightarrow>
          if \<not> ok then (None, s)
          else (Some \<lparr>ri_inum = new_inum, ri_ino_len = word_of_nat (length name), ri_size = 0,
                      ri_version = 0, ri_time_create = sv_now s, ri_time_modify = sv_now s,
                      ri_flags = flags, ri_name = name\<rparr>, s))"

text \<open>\<open>limit\<close> counts down the random choices; the result is an unused number, if one was found.\<close>

fun inode_new_loop :: "'d env \<Rightarrow> nat \<Rightarrow> 'd srv \<Rightarrow> cldino option \<times> 'd srv" where
  "inode_new_loop E limit s =
     (if limit = 0 then (None, s)
      else
        case srv_rand E s of
          (r, s) \<Rightarrow>
            let new_inum = ucast r in
            if new_inum \<le> CLD_INO_RESERVED_LAST then inode_new_loop E (limit - 1) s
            else
              case cldb_inode_get E new_inum s of
                (Inl e, s) \<Rightarrow> if e = DB_NOTFOUND then (Some new_inum, s) else (None, s)
              | (Inr _, s) \<Rightarrow> inode_new_loop E (limit - 1) s)"

declare inode_new_loop.simps [simp del]

definition cldb_inode_new :: "'d env \<Rightarrow> bytes \<Rightarrow> u32 \<Rightarrow> 'd srv \<Rightarrow> raw_inode option \<times> 'd srv" where
  "cldb_inode_new E name flags s =
     (case inode_new_loop E 100000 s of
        (None, s) \<Rightarrow> (None, s)
      | (Some new_inum, s) \<Rightarrow> cldb_inode_mem E name flags new_inum s)"

section \<open>Data and handles\<close>

definition cldb_data_get :: "'d env \<Rightarrow> cldino \<Rightarrow> ('d srv, dberr, bytes) esm" where
  "cldb_data_get E inum = db_val (db_data_get (e_db E) inum)"

definition cldb_data_put :: "'d env \<Rightarrow> cldino \<Rightarrow> bytes \<Rightarrow> ('d srv, dberr, unit) esm" where
  "cldb_data_put E inum data = db_rc (db_data_put (e_db E) inum data)"

definition cldb_handle_new :: "'d env \<Rightarrow> nat \<Rightarrow> cldino \<Rightarrow> u32 \<Rightarrow> u32 \<Rightarrow> 'd srv \<Rightarrow> raw_handle option \<times> 'd srv" where
  "cldb_handle_new E sess inum mode events s =
     (case srv_alloc s of
        (ok, s) \<Rightarrow>
          if \<not> ok then (None, s)
          else
            let fh = ss_next_fh (sess_at s sess) in
            (Some \<lparr>rh_sid = ss_sid (sess_at s sess), rh_fh = fh, rh_inum = inum, rh_mode = mode,
                   rh_events = events\<rparr>,
             sess_upd sess (\<lambda>x. x\<lparr>ss_next_fh := ss_next_fh x + 1\<rparr>) s))"

definition cldb_handle_get :: "'d env \<Rightarrow> sid \<Rightarrow> u64 \<Rightarrow> ('d srv, dberr, raw_handle) esm" where
  "cldb_handle_get E sid fh = db_val (db_handle_get (e_db E) sid fh)"

definition cldb_handle_put :: "'d env \<Rightarrow> raw_handle \<Rightarrow> ('d srv, dberr, unit) esm" where
  "cldb_handle_put E h = db_rc (db_handle_put (e_db E) h)"

definition cldb_handle_del :: "'d env \<Rightarrow> sid \<Rightarrow> u64 \<Rightarrow> ('d srv, dberr, unit) esm" where
  "cldb_handle_del E sid fh = db_rc (db_handle_del (e_db E) sid fh)"

section \<open>Locks\<close>

text \<open>Run a cursor loop and close the cursor, ignoring the result of the close.\<close>

definition closing :: "'d env \<Rightarrow> ('d srv, dberr, 'a) esm \<Rightarrow> ('d srv, dberr, 'a) esm" where
  "closing E m s =
     (case m s of (r, s) \<Rightarrow> (r, snd (db_call (db_cursor_close (e_db E)) s :: (dberr + rc) \<times> 'd srv)))"

fun lock_del_loop :: "'d env \<Rightarrow> sid \<Rightarrow> u64 \<Rightarrow> cldino \<Rightarrow> raw_lock list \<Rightarrow> dberr \<Rightarrow> ('d srv, dberr, unit) esm" where
  "lock_del_loop E sid fh inum [] e = throw e"
| "lock_del_loop E sid fh inum (lock # recs) e =
     (if memcmp (rl_sid lock) sid = 0 \<and> fh = rl_fh lock
      then db_rc (db_lock_cdel (e_db E) inum lock)
      else lock_del_loop E sid fh inum recs e)"

definition cldb_lock_del :: "'d env \<Rightarrow> sid \<Rightarrow> u64 \<Rightarrow> cldino \<Rightarrow> ('d srv, dberr, unit) esm" where
  "cldb_lock_del E sid fh inum =
     ebind (db_rc (db_cursor (e_db E))) (\<lambda>_.
     closing E (ebind (db_call (db_lock_scan (e_db E) inum)) (\<lambda>(recs, e).
       lock_del_loop E sid fh inum recs e)))"

text \<open>\<open>Inr ()\<close> is the return value 0: a conflicting acquired lock was found.\<close>

fun lock_find_loop :: "bool \<Rightarrow> raw_lock list \<Rightarrow> dberr \<Rightarrow> ('d srv, dberr, unit) esm" where
  "lock_find_loop want_shared [] e = throw e"
| "lock_find_loop want_shared (lock # recs) e =
     (let lflags = rl_flags lock in
      if has_flag lflags CLFL_PENDING then lock_find_loop want_shared recs e
      else if \<not> want_shared \<or> (want_shared \<and> \<not> has_flag lflags CLFL_SHARED) then ret ()
      else lock_find_loop want_shared recs e)"

definition cldb_lock_find :: "'d env \<Rightarrow> cldino \<Rightarrow> bool \<Rightarrow> ('d srv, dberr, unit) esm" where
  "cldb_lock_find E inum want_shared =
     ebind (db_rc (db_cursor (e_db E))) (\<lambda>_.
     closing E (ebind (db_call (db_lock_scan (e_db E) inum)) (\<lambda>(recs, e).
       lock_find_loop want_shared recs e)))"

text \<open>The second half of \<^verbatim>\<open>cldb_lock_add\<close>: build and store the record.\<close>

definition cldb_lock_store :: "'d env \<Rightarrow> sid \<Rightarrow> u64 \<Rightarrow> cldino \<Rightarrow> bool \<Rightarrow> bool \<Rightarrow> bool \<Rightarrow> ('d srv, dberr, bool) esm" where
  "cldb_lock_store E sid fh inum shared wait have_conflict =
     ebind (gets sv_now) (\<lambda>now.
     let lock_flags = (if shared then CLFL_SHARED else 0) OR (if wait \<and> have_conflict then CLFL_PENDING else 0);
         lock = \<lparr>rl_inum = inum, rl_sid = sid, rl_fh = fh, rl_ctime = now, rl_flags = lock_flags\<rparr>
     in ebind (db_rc (db_lock_put (e_db E) inum lock)) (\<lambda>_. ret (\<not> have_conflict)))"

text \<open>The result is \<^verbatim>\<open>*acquired\<close>.\<close>

definition cldb_lock_add :: "'d env \<Rightarrow> sid \<Rightarrow> u64 \<Rightarrow> cldino \<Rightarrow> bool \<Rightarrow> bool \<Rightarrow> ('d srv, dberr, bool) esm" where
  "cldb_lock_add E sid fh inum shared wait =
     ebind (attempt (cldb_lock_find E inum shared)) (\<lambda>r.
     case r of
       Inl e \<Rightarrow>
         if e \<noteq> DB_NOTFOUND then throw e
         else cldb_lock_store E sid fh inum shared wait False
     | Inr _ \<Rightarrow>
         if \<not> wait then throw DB_KEYEXIST
         else cldb_lock_store E sid fh inum shared wait True)"

section \<open>The lock table\<close>

text \<open>
  A lock record is acquired unless it is marked pending. Of two acquired locks on an inode both
  are shared: a list of records with at most one acquired entry, or only shared acquired ones.
\<close>

definition lock_acquired :: "raw_lock \<Rightarrow> bool" where
  "lock_acquired l \<longleftrightarrow> \<not> has_flag (rl_flags l) CLFL_PENDING"

definition lock_shared :: "raw_lock \<Rightarrow> bool" where
  "lock_shared l \<longleftrightarrow> has_flag (rl_flags l) CLFL_SHARED"

definition lock_conflict :: "bool \<Rightarrow> raw_lock \<Rightarrow> bool" where
  "lock_conflict want_shared l \<longleftrightarrow> lock_acquired l \<and> (\<not> want_shared \<or> \<not> lock_shared l)"

definition lock_of :: "sid \<Rightarrow> u64 \<Rightarrow> raw_lock \<Rightarrow> bool" where
  "lock_of sid fh l \<longleftrightarrow> memcmp (rl_sid l) sid = 0 \<and> fh = rl_fh l"

definition locks_safe :: "raw_lock list \<Rightarrow> bool" where
  "locks_safe ls =
     (let acq = filter lock_acquired ls in length acq \<le> 1 \<or> list_all lock_shared acq)"

definition new_lock :: "sid \<Rightarrow> u64 \<Rightarrow> cldino \<Rightarrow> bool \<Rightarrow> bool \<Rightarrow> u64 \<Rightarrow> raw_lock" where
  "new_lock sid fh inum shared pending now =
     \<lparr>rl_inum = inum, rl_sid = sid, rl_fh = fh, rl_ctime = now,
      rl_flags = (if shared then CLFL_SHARED else 0) OR (if pending then CLFL_PENDING else 0)\<rparr>"

lemma new_lock_flags [simp]:
  "lock_acquired (new_lock sid fh inum shared pending now) \<longleftrightarrow> \<not> pending"
  "lock_shared (new_lock sid fh inum shared pending now) \<longleftrightarrow> shared"
  by (auto simp: new_lock_def lock_acquired_def lock_shared_def has_flag_def CLFL_SHARED_def CLFL_PENDING_def)

lemma set_lock_insert [simp]: "set (lock_insert l ls) = insert l (set ls)"
  by (induction ls) auto

lemma filter_lock_insert_skip: "\<not> P l \<Longrightarrow> filter P (lock_insert l ls) = filter P ls"
  by (induction ls) auto

lemma length_filter_lock_insert: "P l \<Longrightarrow> length (filter P (lock_insert l ls)) = Suc (length (filter P ls))"
  by (induction ls) auto

lemma locks_safe_insert:
  assumes "locks_safe ls" and "lock_acquired l \<Longrightarrow> \<not> list_ex (lock_conflict (lock_shared l)) ls"
  shows "locks_safe (lock_insert l ls)"
proof (cases "lock_acquired l")
  case False
  then show ?thesis using assms(1) by (simp add: locks_safe_def filter_lock_insert_skip)
next
  case True
  then have nc: "\<forall>x \<in> set ls. \<not> lock_conflict (lock_shared l) x"
    using assms(2) by (simp add: list_ex_iff)
  show ?thesis
  proof (cases "lock_shared l")
    case True
    with nc have "\<forall>x \<in> set ls. lock_acquired x \<longrightarrow> lock_shared x" by (auto simp: lock_conflict_def)
    with True show ?thesis by (auto simp: locks_safe_def Let_def list_all_iff)
  next
    case False
    with nc have "filter lock_acquired ls = []" by (auto simp: lock_conflict_def filter_empty_conv)
    with \<open>lock_acquired l\<close> show ?thesis by (simp add: locks_safe_def length_filter_lock_insert)
  qed
qed

lemma locks_safe_remove1: "locks_safe ls \<Longrightarrow> locks_safe (remove1 l ls)"
proof -
  have "length (filter P (remove1 l ls)) \<le> length (filter P ls)" for P
    by (induction ls) auto
  moreover have "set (remove1 l ls) \<subseteq> set ls" by (rule set_remove1_subset)
  ultimately show "locks_safe ls \<Longrightarrow> locks_safe (remove1 l ls)"
    unfolding locks_safe_def Let_def list_all_iff by (auto intro: order_trans)
qed

section \<open>The layer under the laws of the database\<close>

lemma keeps_lock_find_loop: "keeps f (lock_find_loop want recs e)"
proof (induction recs)
  case (Cons l recs)
  then show ?case by (auto simp: Let_def keeps_def ret_def)
qed (auto intro: keeps_intros)

lemmas cldb_defs = cldb_session_del_def cldb_session_put_def cldb_session_get_def cldb_inode_get_def
  cldb_inode_get_byname_def cldb_inode_put_def cldb_data_get_def cldb_data_put_def cldb_handle_get_def
  cldb_handle_put_def cldb_handle_del_def

lemma keeps_rest_cldb [keeps_intros]:
  "keeps sv_rest (cldb_session_del E sid)" "keeps sv_rest (cldb_session_put E rs)"
  "keeps sv_rest (cldb_inode_get E i)" "keeps sv_rest (cldb_inode_get_byname E n)"
  "keeps sv_rest (cldb_inode_put E ino)" "keeps sv_rest (cldb_data_get E i)"
  "keeps sv_rest (cldb_data_put E i b)" "keeps sv_rest (cldb_handle_get E sid fh)"
  "keeps sv_rest (cldb_handle_put E h)" "keeps sv_rest (cldb_handle_del E sid fh)"
  unfolding cldb_defs by (rule keeps_rest_db)+

lemma ebind_OkE:
  assumes "ebind m f s = (Inr y, s')"
  obtains x s1 where "m s = (Inr x, s1)" and "f x s1 = (Inr y, s')"
  using assms by (auto simp: ebind_def split: prod.splits sum.splits)

lemma on_err_Ok [simp]: "on_err h m s = (Inr x, s') \<longleftrightarrow> m s = (Inr x, s')"
  by (auto simp: on_err_def split: prod.splits sum.splits)

lemma throw_Ok [simp]: "throw e s = (Inr x, s') \<longleftrightarrow> False"
  by (simp add: throw_def)

lemma ret_Ok [simp]: "ret x s = (Inr y, s') \<longleftrightarrow> y = x \<and> s' = s"
  by (auto simp: ret_def)

text \<open>The search for a conflicting lock on a list of records.\<close>

lemma lock_find_loop_eq:
  "lock_find_loop want recs e s =
     (if list_ex (lock_conflict want) recs then (Inr (), s) else (Inl e, s))"
  by (induction recs) (auto simp: ret_def throw_def lock_conflict_def lock_acquired_def lock_shared_def Let_def)

locale cld_env = bdb "e_db E" com cur for E :: "'d env" and com :: "'d \<Rightarrow> dbview" and cur :: "'d \<Rightarrow> dbview"
begin

lemma keeps_com_rc: "writes com cur f ok upd \<Longrightarrow> keeps (\<lambda>s. com (sv_db s)) (db_rc f)"
  by (auto simp: keeps_def db_rc_def writes_def split: prod.splits option.splits)

lemma keeps_com_val: "reads com cur f Q \<Longrightarrow> keeps (\<lambda>s. com (sv_db s)) (db_val f)"
  by (auto simp: keeps_def db_val_def reads_def split: prod.splits)

lemma keeps_com_call: "reads com cur f Q \<Longrightarrow> keeps (\<lambda>s. com (sv_db s)) (db_call f)"
  by (auto simp: keeps_def db_call_def reads_def split: prod.splits)

lemma keeps_cur_val: "reads com cur f Q \<Longrightarrow> keeps (\<lambda>s. cur (sv_db s)) (db_val f)"
  by (auto simp: keeps_def db_val_def reads_def split: prod.splits)

lemma keeps_cur_call: "reads com cur f Q \<Longrightarrow> keeps (\<lambda>s. cur (sv_db s)) (db_call f)"
  by (auto simp: keeps_def db_call_def reads_def split: prod.splits)

lemma keeps_com_cursor: "keeps (\<lambda>s. com (sv_db s)) (db_rc (db_cursor (e_db E)))"
  "keeps (\<lambda>s. cur (sv_db s)) (db_rc (db_cursor (e_db E)))"
  using cursor by (auto simp: keeps_def db_rc_def reads_def split: prod.splits option.splits)

lemma keeps_closing:
  "keeps (\<lambda>s. com (sv_db s)) m \<Longrightarrow> keeps (\<lambda>s. com (sv_db s)) (closing E m)"
  "keeps (\<lambda>s. cur (sv_db s)) m \<Longrightarrow> keeps (\<lambda>s. cur (sv_db s)) (closing E m)"
  "keeps sv_rest m \<Longrightarrow> keeps sv_rest (closing E m)"
  using cursor_close
  by (auto simp: keeps_def closing_def db_call_def reads_def split: prod.splits)

lemmas keeps_com_db =
  keeps_com_rc [OF sess_put] keeps_com_rc [OF sess_del] keeps_com_val [OF inode_get] keeps_com_val [OF inode_byname]
  keeps_com_rc [OF inode_put] keeps_com_rc [OF inode_del] keeps_com_val [OF data_get] keeps_com_rc [OF data_put]
  keeps_com_rc [OF data_del] keeps_com_val [OF handle_get] keeps_com_rc [OF handle_put] keeps_com_rc [OF handle_del]
  keeps_com_call [OF hidx_scan] keeps_com_rc [OF hidx_del] keeps_com_call [OF handle_range]
  keeps_com_rc [OF handle_cdel] keeps_com_call [OF lock_scan] keeps_com_rc [OF lock_put] keeps_com_rc [OF lock_cdel]
  keeps_com_rc [OF lock_cput] keeps_com_call [OF cursor_close] keeps_com_cursor(1) keeps_com_call [OF sess_scan]

lemmas keeps_cur_db =
  keeps_cur_val [OF inode_get] keeps_cur_val [OF inode_byname] keeps_cur_val [OF data_get] keeps_cur_val [OF handle_get]
  keeps_cur_call [OF hidx_scan] keeps_cur_call [OF handle_range] keeps_cur_call [OF lock_scan]
  keeps_cur_call [OF cursor_close] keeps_com_cursor(2) keeps_cur_call [OF sess_scan]

lemma keeps_com_cldb:
  "keeps (\<lambda>s. com (sv_db s)) (cldb_session_del E sid)"
  "keeps (\<lambda>s. com (sv_db s)) (cldb_session_put E rs)"
  "keeps (\<lambda>s. com (sv_db s)) (cldb_inode_get E i)"
  "keeps (\<lambda>s. com (sv_db s)) (cldb_inode_get_byname E n)"
  "keeps (\<lambda>s. com (sv_db s)) (cldb_inode_put E ino)"
  "keeps (\<lambda>s. com (sv_db s)) (cldb_data_get E i)"
  "keeps (\<lambda>s. com (sv_db s)) (cldb_data_put E i b)"
  "keeps (\<lambda>s. com (sv_db s)) (cldb_handle_get E sid fh)"
  "keeps (\<lambda>s. com (sv_db s)) (cldb_handle_put E h)"
  "keeps (\<lambda>s. com (sv_db s)) (cldb_handle_del E sid fh)"
  unfolding cldb_defs by (rule keeps_com_db)+

lemma keeps_cur_cldb:
  "keeps (\<lambda>s. cur (sv_db s)) (cldb_inode_get E i)"
  "keeps (\<lambda>s. cur (sv_db s)) (cldb_inode_get_byname E n)"
  "keeps (\<lambda>s. cur (sv_db s)) (cldb_data_get E i)"
  "keeps (\<lambda>s. cur (sv_db s)) (cldb_handle_get E sid fh)"
  unfolding cldb_defs by (rule keeps_cur_db)+

lemma rc_ok: "writes com cur f ok upd \<Longrightarrow> db_rc f s = (Inr u, s') \<Longrightarrow>
    ok (cur (sv_db s)) \<and> cur (sv_db s') = upd (cur (sv_db s))"
  by (auto simp: db_rc_def writes_def split: prod.splits option.splits)

lemma val_ok: "reads com cur f Q \<Longrightarrow> db_val f s = (r, s') \<Longrightarrow> Q r (cur (sv_db s))"
  by (auto simp: db_val_def reads_def split: prod.splits)

lemma call_ok: "reads com cur f Q \<Longrightarrow> db_call f s = (Inr r, s') \<Longrightarrow> Q r (cur (sv_db s))"
  by (auto simp: db_call_def reads_def split: prod.splits)

lemma keeps_lock_find:
  "keeps (\<lambda>s. com (sv_db s)) (cldb_lock_find E inum want)"
  "keeps (\<lambda>s. cur (sv_db s)) (cldb_lock_find E inum want)"
  "keeps sv_rest (cldb_lock_find E inum want)"
  unfolding cldb_lock_find_def
  by (intro keeps_intros keeps_closing keeps_com_db keeps_cur_db keeps_lock_find_loop)+

lemma lock_find_spec:
  assumes "cldb_lock_find E inum want s = (r, s')"
  shows "(r = Inr () \<longrightarrow> list_ex (lock_conflict want) (v_locks (cur (sv_db s)) inum)) \<and>
    (r = Inl DB_NOTFOUND \<longrightarrow> \<not> list_ex (lock_conflict want) (v_locks (cur (sv_db s)) inum))"
proof -
  obtain r1 s1 where c: "db_rc (db_cursor (e_db E)) s = (r1, s1)" by fastforce
  have cur1: "cur (sv_db s1) = cur (sv_db s)" using keepsD [OF keeps_com_cursor(2) c] .
  show ?thesis
  proof (cases r1)
    case (Inl e)
    then have "e \<noteq> DB_NOTFOUND"
      using c cursor by (auto simp: db_rc_def reads_def split: prod.splits option.splits)
    then show ?thesis using assms c Inl by (auto simp: cldb_lock_find_def ebind_def)
  next
    case (Inr u)
    obtain recs e d where scan: "db_lock_scan (e_db E) inum (sv_db s1) = ((recs, e), d)"
      by (metis surj_pair)
    then have sc: "db_call (db_lock_scan (e_db E) inum) s1 = (Inr (recs, e) :: dberr + _, s1\<lparr>sv_db := d\<rparr>)"
      by (simp add: db_call_def)
    obtain rest where locks: "v_locks (cur (sv_db s1)) inum = recs @ rest" "e = DB_NOTFOUND \<longrightarrow> rest = []"
      using call_ok [OF lock_scan sc] by auto
    have "r = (if list_ex (lock_conflict want) recs then Inr () else Inl e)"
      using assms c Inr sc by (auto simp: cldb_lock_find_def ebind_def closing_def lock_find_loop_eq split: prod.splits if_splits)
    then show ?thesis using locks cur1 by (auto split: if_splits)
  qed
qed

text \<open>
  \<open>cldb_lock_add\<close> on success: the lock is granted exactly if no acquired lock conflicts, queued as
  pending otherwise (only when waiting was asked for), and inserted in either case.
\<close>

lemma lock_add_ok:
  assumes "cldb_lock_add E sid fh inum shared wait s = (Inr acq, s')"
  shows "(acq \<longleftrightarrow> \<not> list_ex (lock_conflict shared) (v_locks (cur (sv_db s)) inum)) \<and> (acq \<or> wait) \<and>
    cur (sv_db s') = (cur (sv_db s))\<lparr>v_locks := (v_locks (cur (sv_db s)))(inum :=
      lock_insert (new_lock sid fh inum shared (\<not> acq) (sv_now s)) (v_locks (cur (sv_db s)) inum))\<rparr>"
proof -
  obtain r s1 where f: "cldb_lock_find E inum shared s = (r, s1)" by fastforce
  have k: "cur (sv_db s1) = cur (sv_db s)" "sv_now s1 = sv_now s"
    using keepsD [OF keeps_lock_find(2) f] sv_restD [OF keepsD [OF keeps_lock_find(3) f]] by auto
  have store: "acq = (\<not> confl) \<and> cur (sv_db s') = (cur (sv_db s1))\<lparr>v_locks := (v_locks (cur (sv_db s1)))(inum :=
      lock_insert (new_lock sid fh inum shared (wait \<and> confl) (sv_now s1)) (v_locks (cur (sv_db s1)) inum))\<rparr>"
    if "cldb_lock_store E sid fh inum shared wait confl s1 = (Inr acq, s')" for confl
    using that rc_ok [OF lock_put]
    by (auto simp: cldb_lock_store_def Let_def gets_def new_lock_def ebind_def ret_def split: sum.splits prod.splits)
  have eq: "cldb_lock_add E sid fh inum shared wait s =
      (case r of
         Inl e \<Rightarrow> if e \<noteq> DB_NOTFOUND then throw e else cldb_lock_store E sid fh inum shared wait False
       | Inr _ \<Rightarrow> if \<not> wait then throw DB_KEYEXIST else cldb_lock_store E sid fh inum shared wait True) s1"
    using f by (simp add: cldb_lock_add_def ebind_def attempt_def)
  show ?thesis
  proof (cases r)
    case (Inl e)
    with eq assms have e: "e = DB_NOTFOUND" "cldb_lock_store E sid fh inum shared wait False s1 = (Inr acq, s')"
      by (auto simp: throw_def split: if_splits)
    with Inl store [OF e(2)] lock_find_spec [OF f] k show ?thesis by simp
  next
    case (Inr u)
    with eq assms have w: "wait" "cldb_lock_store E sid fh inum shared wait True s1 = (Inr acq, s')"
      by (auto simp: throw_def split: if_splits)
    with Inr store [OF w(2)] lock_find_spec [OF f] k show ?thesis by simp
  qed
qed

lemma keeps_lock_add:
  "keeps (\<lambda>s. com (sv_db s)) (cldb_lock_add E sid fh inum shared wait)"
  "keeps sv_rest (cldb_lock_add E sid fh inum shared wait)"
  unfolding cldb_lock_add_def cldb_lock_store_def
  by (intro keeps_intros keeps_lock_find keeps_com_db)+

lemma keeps_lock_del:
  "keeps (\<lambda>s. com (sv_db s)) (cldb_lock_del E sid fh inum)"
  "keeps sv_rest (cldb_lock_del E sid fh inum)"
proof -
  have c: "keeps (\<lambda>s. com (sv_db s)) (lock_del_loop E sid fh inum recs e)" for recs e
    by (induction recs) (auto intro: keeps_intros keeps_com_db)
  have r: "keeps sv_rest (lock_del_loop E sid fh inum recs e)" for recs e
    by (induction recs) (auto intro: keeps_intros)
  show "keeps (\<lambda>s. com (sv_db s)) (cldb_lock_del E sid fh inum)"
    "keeps sv_rest (cldb_lock_del E sid fh inum)"
    unfolding cldb_lock_del_def by (intro keeps_intros keeps_closing keeps_com_db c r)+
qed

text \<open>\<open>cldb_lock_del\<close> on success removes the first record of this session and handle.\<close>

lemma lock_del_ok:
  assumes "cldb_lock_del E sid fh inum s = (Inr u, s')"
  shows "\<exists>l. find (lock_of sid fh) (v_locks (cur (sv_db s)) inum) = Some l \<and>
    cur (sv_db s') = (cur (sv_db s))\<lparr>v_locks := (v_locks (cur (sv_db s)))(inum :=
      remove1 l (v_locks (cur (sv_db s)) inum))\<rparr>"
proof -
  obtain s1 where c: "db_rc (db_cursor (e_db E)) s = (Inr (), s1)"
    using assms by (auto simp: cldb_lock_del_def elim: ebind_OkE)
  obtain recs e d where scan: "db_lock_scan (e_db E) inum (sv_db s1) = ((recs, e), d)"
    by (metis surj_pair)
  let ?s2 = "s1\<lparr>sv_db := d\<rparr>"
  have sc: "db_call (db_lock_scan (e_db E) inum) s1 = (Inr (recs, e) :: dberr + _, ?s2)"
    using scan by (simp add: db_call_def)
  have cur2: "cur (sv_db ?s2) = cur (sv_db s)"
    using keepsD [OF keeps_com_cursor(2) c] keepsD [OF keeps_cur_call [OF lock_scan] sc] by simp
  obtain rest where locks: "v_locks (cur (sv_db s)) inum = recs @ rest"
    using call_ok [OF lock_scan sc] keepsD [OF keeps_com_cursor(2) c] by auto
  obtain r s3 where l: "lock_del_loop E sid fh inum recs e ?s2 = (r, s3)" by fastforce
  have r: "r = Inr u" and cur3: "cur (sv_db s') = cur (sv_db s3)"
    using assms c sc l cursor_close
    by (auto simp: cldb_lock_del_def ebind_def closing_def db_call_def reads_def split: prod.splits)
  have loop: "\<exists>l. find (lock_of sid fh) recs = Some l \<and> db_rc (db_lock_cdel (e_db E) inum l) ?s2 = (Inr u, s3)"
    using l unfolding r by (induction recs) (auto simp: lock_of_def split: if_splits)
  then obtain l where f: "find (lock_of sid fh) recs = Some l"
    and del: "db_rc (db_lock_cdel (e_db E) inum l) ?s2 = (Inr u, s3)" by blast
  have "find (lock_of sid fh) (recs @ rest) = Some l"
    using f by (induction recs) (auto split: if_splits)
  with rc_ok [OF lock_cdel del] cur2 cur3 locks show ?thesis by auto
qed

text \<open>A number found for a new inode is unused and outside the reserved range.\<close>

lemma inode_new_loop_ok:
  assumes "inode_new_loop E limit s = (Some i, s')"
  shows "v_inodes (cur (sv_db s)) i = None \<and> CLD_INO_RESERVED_LAST < i \<and>
    cur (sv_db s') = cur (sv_db s) \<and> sv_now s' = sv_now s"
  using assms
proof (induction limit arbitrary: s)
  case 0
  then show ?case by (simp add: inode_new_loop.simps)
next
  case (Suc n)
  obtain v s1 where r: "srv_rand E s = (v, s1)" by fastforce
  have s1: "sv_db s1 = sv_db s" "sv_now s1 = sv_now s" using r by (auto simp: srv_rand_def)
  obtain g s2 where g: "cldb_inode_get E (ucast v) s1 = (g, s2)" by fastforce
  have s2: "cur (sv_db s2) = cur (sv_db s)" "sv_now s2 = sv_now s"
    using keepsD [OF keeps_cur_cldb(1) g] sv_restD [OF keepsD [OF keeps_rest_cldb(3) g]] s1 by auto
  have miss: "g = Inl DB_NOTFOUND \<Longrightarrow> v_inodes (cur (sv_db s)) (ucast v) = None"
    using val_ok [OF inode_get g [unfolded cldb_inode_get_def]] s1 by (simp add: found_def)
  consider "ucast v \<le> CLD_INO_RESERVED_LAST" | "\<not> ucast v \<le> CLD_INO_RESERVED_LAST" by blast
  then show ?case
  proof cases
    case 1
    then have "inode_new_loop E n s1 = (Some i, s')"
      using Suc.prems r by (subst (asm) inode_new_loop.simps) simp
    from Suc.IH [OF this] s1 show ?thesis by simp
  next
    case 2
    show ?thesis
    proof (cases g)
      case (Inl e)
      then show ?thesis
        using Suc.prems r g 2 miss s2 by (subst (asm) inode_new_loop.simps) (auto split: if_splits)
    next
      case (Inr x)
      then have "inode_new_loop E n s2 = (Some i, s')"
        using Suc.prems r g 2 by (subst (asm) inode_new_loop.simps) simp
      from Suc.IH [OF this] s2 show ?thesis by simp
    qed
  qed
qed

lemma keeps_inode_new:
  "keeps (\<lambda>s. com (sv_db s)) (cldb_inode_new E name flags)"
proof -
  have "keeps (\<lambda>s. com (sv_db s)) (inode_new_loop E n)" for n
  proof (induction n)
    case 0
    then show ?case by (auto simp: keeps_def inode_new_loop.simps)
  next
    case (Suc n)
    show ?case
      unfolding keeps_def
    proof (intro allI impI)
      fix s r s'
      assume run: "inode_new_loop E (Suc n) s = (r, s')"
      obtain v s1 where rn: "srv_rand E s = (v, s1)" by fastforce
      obtain g s2 where g: "cldb_inode_get E (ucast v) s1 = (g, s2)" by fastforce
      have "com (sv_db s1) = com (sv_db s)" "com (sv_db s2) = com (sv_db s)"
        using rn keepsD [OF keeps_com_cldb(3) g] by (auto simp: srv_rand_def)
      then show "com (sv_db s') = com (sv_db s)"
        using run rn g Suc.IH
        by (subst (asm) inode_new_loop.simps)
          (auto simp: Let_def keeps_def split: if_splits sum.splits)
    qed
  qed
  then show ?thesis
    by (fastforce simp: keeps_def cldb_inode_new_def cldb_inode_mem_def srv_alloc_def
        split: prod.splits option.splits if_splits)
qed

end

text \<open>With a database on which nothing goes wrong; \<open>succeeds\<close> computations do not fail.\<close>

definition succeeds :: "('s, 'e, 'a) esm \<Rightarrow> bool" where
  "succeeds m \<longleftrightarrow> (\<forall>s. \<exists>x s'. m s = (Inr x, s'))"

lemma succeedsE: assumes "succeeds m" obtains x s' where "m s = (Inr x, s')"
  using assms unfolding succeeds_def by blast

lemma succeeds_unitE: assumes "succeeds m" obtains s' where "m s = (Inr (), s')"
  using assms unfolding succeeds_def by auto

lemma db_call_pairE: obtains x y s' where "db_call f s = (Inr (x, y), s')"
  by (cases "f (sv_db s)") (auto simp: db_call_def)

lemma total_basic: "succeeds (ret x)" "succeeds (gets f)" "succeeds (modify g)" "succeeds (call h)" "succeeds (db_call k)" "succeeds (attempt m)"
  by (auto simp: succeeds_def esm_simps db_call_def split: prod.splits)

lemma total_bind: "succeeds m \<Longrightarrow> (\<And>x. succeeds (f x)) \<Longrightarrow> succeeds (ebind m f)"
  unfolding succeeds_def by (metis ebind_step)

locale cld_reliable = cld_env E com cur + bdb_reliable "e_db E" com cur
  for E :: "'d env" and com :: "'d \<Rightarrow> dbview" and cur :: "'d \<Rightarrow> dbview"
begin

lemma total_sure: "sure cur f (\<lambda>_. True) \<Longrightarrow> succeeds (db_rc f)"
  unfolding succeeds_def
proof
  fix s :: "'d srv"
  assume "sure cur f (\<lambda>_. True)"
  then show "\<exists>x s'. db_rc f s = (Inr x, s')"
    by (cases "f (sv_db s)") (auto simp: db_rc_def sure_def dest!: spec [of _ "sv_db s"])
qed

lemma total_cursor: "succeeds (db_rc (db_cursor (e_db E)))" "succeeds (db_rc (db_cursor_close (e_db E)))"
  using sure_cursor sure_cursor_close by (auto intro!: total_sure simp: sure_def)

lemma total_begin: "succeeds (db_rc (db_txn_begin (e_db E)))" "succeeds (db_rc (db_txn_commit (e_db E)))"
  using sure_begin sure_commit by (auto intro!: total_sure simp: sure_def)

lemma scan_complete: "complete f \<Longrightarrow> db_call f s = (Inr (xs, e), s') \<Longrightarrow> e = DB_NOTFOUND"
  by (cases "f (sv_db s)") (auto simp: complete_def db_call_def dest!: spec [of _ "sv_db s"])

end

text \<open>The reference environment, with faults injected or without.\<close>

interpretation rs: cld_env "ref_env flt" mcom mcur
  by (simp add: cld_env_def ms.bdb_axioms)

interpretation rr: cld_reliable "ref_env False" mcom mcur
  using mr.bdb_reliable_axioms rs.cld_env_axioms by (simp add: cld_reliable_def)

end
