(* ===== verification/Cld_Send.thy ===== *)
theory Cld_Send
  imports Cldb
begin

text \<open>
  How the lock server talks to its clients: framing on the socket (\<^verbatim>\<open>tcp_tx\<close> of \<^verbatim>\<open>cld/server.c\<close>) and
  the outgoing side of \<^verbatim>\<open>cld/session.c\<close>: messages are serialised, cut into signed packets, sent,
  kept for retransmission, and dropped when they are acknowledged.
\<close>

section \<open>Sockets\<close>

definition sock_write :: "int \<Rightarrow> bytes \<Rightarrow> 'd srv \<Rightarrow> (int + nat) \<times> 'd srv" where
  "sock_write fd data s =
     (case sv_writes s of
        [] \<Rightarrow> (Inr (length data), s\<lparr>sv_tx := sv_tx s @ [(fd, data)]\<rparr>)
      | Inl e # ws \<Rightarrow> (Inl e, s\<lparr>sv_writes := ws\<rparr>)
      | Inr n # ws \<Rightarrow>
          (Inr (min n (length data)), s\<lparr>sv_writes := ws, sv_tx := sv_tx s @ [(fd, take n data)]\<rparr>))"

definition ubbp_header :: "bytes \<Rightarrow> nat \<Rightarrow> u32 \<Rightarrow> bytes" where
  "ubbp_header magic data_len op = magic @ le_bytes 4 (push_bit 8 (word_of_nat data_len) OR op)"

definition tcp_tx :: "int \<Rightarrow> bytes \<Rightarrow> 'd srv \<Rightarrow> int \<times> 'd srv" where
  "tcp_tx sock_fd data s =
     (case sock_write sock_fd (ubbp_header (ascii ''CLD1'') (length data) 2) s of
        (Inl e, s) \<Rightarrow> (- e, s)
      | (Inr _, s) \<Rightarrow>
          (case sock_write sock_fd data s of
             (Inl e, s) \<Rightarrow> (- e, s)
           | (Inr _, s) \<Rightarrow> (0, s)))"

section \<open>Outgoing packets\<close>

definition next_seqid_le :: "u64 \<Rightarrow> u64 \<times> u64" where
  "next_seqid_le seq = (seq, seq + 1)"

definition op_alloc :: "nat \<Rightarrow> 'd srv \<Rightarrow> session_outpkt option \<times> 'd srv" where
  "op_alloc pkt_len s =
     (case srv_alloc s of
        (ok, s) \<Rightarrow>
          if \<not> ok then (None, s)
          else
            case srv_alloc s of
              (ok, s) \<Rightarrow>
                if \<not> ok then (None, s)
                else (Some \<lparr>op_pkt_data = replicate pkt_len 0, op_next_retry = 0, op_refs = 1,
                            op_done_cb = None\<rparr>, s))"

text \<open>\<open>None\<close>: the packet has been freed.\<close>

definition op_unref :: "session_outpkt \<Rightarrow> session_outpkt option" where
  "op_unref op =
     (let op = (if op_refs op \<noteq> 0 then op\<lparr>op_refs := op_refs op - 1\<rparr> else op) in
      if op_refs op \<noteq> 0 then Some op else None)"

definition pkt_header :: "session \<Rightarrow> bool \<Rightarrow> bool \<Rightarrow> u64 \<Rightarrow> u32 \<Rightarrow> cld_pkt_hdr" where
  "pkt_header sess first is_last xid msg_op =
     \<lparr>ph_magic = CLD_PKT_MAGIC, ph_sid = ss_sid sess, ph_user = ss_user sess,
      ph_order = (if first then if is_last then CLD_PKT_ORD_FIRST_LAST else CLD_PKT_ORD_FIRST
                  else if is_last then CLD_PKT_ORD_LAST else CLD_PKT_ORD_MID),
      ph_mi = (if first then \<lparr>mi_xid = xid, mi_op = msg_op\<rparr> else \<lparr>mi_xid = 0, mi_op = 0\<rparr>)\<rparr>"

text \<open>One packet of the message: header, the next chunk, room for the footer.\<close>

definition frag_len :: "bytes \<Rightarrow> nat" where
  "frag_len msg_cur = (if length msg_cur \<le> CLD_MAX_PKT_MSG_SZ then length msg_cur else CLD_MAX_PKT_MSG_SZ)"

definition send_frag ::
    "'d env \<Rightarrow> session \<Rightarrow> u32 \<Rightarrow> done_cb option \<Rightarrow> bool \<Rightarrow> bytes \<Rightarrow> 'd srv \<Rightarrow> session_outpkt option \<times> 'd srv" where
  "send_frag E sess msg_op done_cb first msg_cur s =
     (let is_last = (length msg_cur \<le> CLD_MAX_PKT_MSG_SZ);
          msg_chunk_len = frag_len msg_cur;
          (xid, s) = (if first then srv_rand64 E s else (0, s));
          pkt = pkt_header sess first is_last xid msg_op;
          hdr = e_xdr_hdr E pkt;
          hdr_len = (case hdr of None \<Rightarrow> 0 | Some h \<Rightarrow> length h);
          (op, s) = op_alloc (hdr_len + msg_chunk_len + CLD_PKT_FTR_LEN) s
      in case op of
           None \<Rightarrow> (None, s)
         | Some op \<Rightarrow>
             (case hdr of
                None \<Rightarrow> (None, s)
              | Some h \<Rightarrow>
                  (Some (op\<lparr>op_next_retry := sv_now s + CLD_RETRY_START, op_done_cb := done_cb,
                            op_pkt_data := h @ take msg_chunk_len msg_cur @ replicate CLD_PKT_FTR_LEN 0\<rparr>), s)))"

text \<open>The \<^verbatim>\<open>do ... while (!last)\<close> loop that cuts the message; \<open>None\<close> is the \<^verbatim>\<open>goto err_out\<close>.\<close>

function send_frags ::
    "'d env \<Rightarrow> session \<Rightarrow> u32 \<Rightarrow> done_cb option \<Rightarrow> bool \<Rightarrow> bytes \<Rightarrow> 'd srv \<Rightarrow> session_outpkt list option \<times> 'd srv" where
  "send_frags E sess msg_op done_cb first msg_cur s =
     (case send_frag E sess msg_op done_cb first msg_cur s of
        (None, s) \<Rightarrow> (None, s)
      | (Some op, s) \<Rightarrow>
          if length msg_cur \<le> CLD_MAX_PKT_MSG_SZ then (Some [op], s)
          else
            case send_frags E sess msg_op done_cb False (drop (frag_len msg_cur) msg_cur) s of
              (None, s) \<Rightarrow> (None, s)
            | (Some ops, s) \<Rightarrow> (Some (op # ops), s))"
  by pat_completeness auto
termination
  by (relation "measure (\<lambda>(E, sess, op, cb, first, msg_cur, s). length msg_cur)")
    (auto simp: CLD_MAX_PKT_MSG_SZ_def frag_len_def)

declare send_frags.simps [simp del]

text \<open>The footer of a packet is its last 28 bytes: sequence id and signature.\<close>

definition pkt_seqid :: "bytes \<Rightarrow> u64" where
  "pkt_seqid pkt = of_le_bytes (take 8 (drop (length pkt - CLD_PKT_FTR_LEN) pkt))"

definition pkt_set_seqid :: "bytes \<Rightarrow> u64 \<Rightarrow> bytes" where
  "pkt_set_seqid pkt seqid =
     take (length pkt - CLD_PKT_FTR_LEN) pkt @ le_bytes 8 seqid @ drop (length pkt - SHA_DIGEST_LENGTH) pkt"

text \<open>Sequence ids and signatures; the session's counter has advanced even if signing fails.\<close>

fun sign_pkts :: "'d env \<Rightarrow> bytes option \<Rightarrow> u64 \<Rightarrow> session_outpkt list \<Rightarrow> session_outpkt list option \<times> u64" where
  "sign_pkts E secret_key seq [] = (Some [], seq)"
| "sign_pkts E secret_key seq (op # ops) =
     (let (seqid, seq) = next_seqid_le seq;
          pkt = pkt_set_seqid (op_pkt_data op) seqid;
          (rc, sha) = cld_authsign (e_hmac E) secret_key (take (length pkt - SHA_DIGEST_LENGTH) pkt)
                        (drop (length pkt - SHA_DIGEST_LENGTH) pkt);
          op = op\<lparr>op_pkt_data := take (length pkt - SHA_DIGEST_LENGTH) pkt @ sha\<rparr>
      in if rc \<noteq> 0 then (None, seq)
         else case sign_pkts E secret_key seq ops of
                (None, seq) \<Rightarrow> (None, seq)
              | (Some ops, seq) \<Rightarrow> (Some (op # ops), seq))"

fun send_pkts :: "int \<Rightarrow> session_outpkt list \<Rightarrow> 'd srv \<Rightarrow> 'd srv" where
  "send_pkts fd [] s = s"
| "send_pkts fd (op # ops) s = send_pkts fd ops (snd (tcp_tx fd (op_pkt_data op) s))"

definition session_outq :: "nat \<Rightarrow> session_outpkt list \<Rightarrow> 'd srv \<Rightarrow> 'd srv" where
  "session_outq sess new_pkts s =
     sess_upd sess (\<lambda>x. x\<lparr>ss_out_q := ss_out_q x @ new_pkts,
        ss_retry_timer := (if ss_out_q x = [] then Some CLD_RETRY_START else ss_retry_timer x)\<rparr>) s"

definition sess_sendmsg :: "'d env \<Rightarrow> nat \<Rightarrow> cld_msg \<Rightarrow> u32 \<Rightarrow> done_cb option \<Rightarrow> 'd srv \<Rightarrow> bool \<times> 'd srv" where
  "sess_sendmsg E sess xdrdata msg_op done_cb s =
     (let s = s\<lparr>sv_log := sv_log s @ [(sess, msg_op, xdrdata)]\<rparr>;
          secret_key = user_key (Some (ss_user (sess_at s sess)))
      in case e_xdr_msg E xdrdata of
           None \<Rightarrow> (False, s)
         | Some msg_bytes \<Rightarrow>
             if length msg_bytes > CLD_MAX_MSG_SZ then (False, s)
             else
               case send_frags E (sess_at s sess) msg_op done_cb True msg_bytes s of
                 (None, s) \<Rightarrow> (False, s)
               | (Some new_pkts, s) \<Rightarrow>
                   (case sign_pkts E secret_key (ss_next_seqid_out (sess_at s sess)) new_pkts of
                      (sgn_pkts, seq) \<Rightarrow>
                        let s = sess_upd sess (\<lambda>x. x\<lparr>ss_next_seqid_out := seq\<rparr>) s in
                        (case sgn_pkts of
                           None \<Rightarrow> (False, s)
                         | Some new_pkts \<Rightarrow>
                             (True, session_outq sess new_pkts
                                (send_pkts (ss_sock_fd (sess_at s sess)) new_pkts s)))))"

definition sess_sendresp_generic :: "'d env \<Rightarrow> nat \<Rightarrow> cle_err_codes \<Rightarrow> 'd srv \<Rightarrow> 'd srv" where
  "sess_sendresp_generic E sess code s =
     snd (sess_sendmsg E sess (Generic_resp code (ss_msg_xid (sess_at s sess)))
            (ss_msg_op (sess_at s sess)) None s)"

text \<open>
  \<^verbatim>\<open>simple_sendmsg\<close> of \<^verbatim>\<open>cld/server.c\<close>, for messages outside a session's queue. The buffer is \<^verbatim>\<open>alloca\<close>'d:
  bytes never written hold \<open>e_stack\<close>. The footer pointer is set 20 bytes before the end of the
  buffer, so the sequence id lands in the place of the signature, and of the 20 signature bytes
  the last 8 are written behind the buffer.
\<close>

definition simple_pkt :: "'d env \<Rightarrow> bytes option \<Rightarrow> bytes \<Rightarrow> bytes \<Rightarrow> u64 \<Rightarrow> bytes" where
  "simple_pkt E secret_key hdr msg seqid =
     (let buf_len = length msg + length hdr + CLD_PKT_FTR_LEN;
          buf = hdr @ msg @ take CLD_PKT_FTR_LEN (e_stack E);
          foot = buf_len - SHA_DIGEST_LENGTH;
          buf = take foot buf @ le_bytes 8 seqid @ drop (foot + 8) buf;
          (rc, sha) = cld_authsign (e_hmac E) secret_key (take (buf_len - SHA_DIGEST_LENGTH) buf)
                        (drop (foot + 8) buf)
      in take buf_len (take (foot + 8) buf @ sha))"

definition simple_sendmsg :: "'d env \<Rightarrow> int \<Rightarrow> sid \<Rightarrow> bytes \<Rightarrow> u64 \<Rightarrow> cld_msg \<Rightarrow> u32 \<Rightarrow> 'd srv \<Rightarrow> 'd srv" where
  "simple_sendmsg E fd sid user seqid xdrdata op s =
     (case srv_rand64 E s of
        (xid, s) \<Rightarrow>
          let pkt = \<lparr>ph_magic = CLD_PKT_MAGIC, ph_sid = sid, ph_user = user, ph_order = CLD_PKT_ORD_FIRST_LAST,
                     ph_mi = \<lparr>mi_xid = xid, mi_op = op\<rparr>\<rparr>
          in case e_xdr_msg E xdrdata of
               None \<Rightarrow> s
             | Some msg \<Rightarrow>
                 if length msg > CLD_MAX_MSG_SZ then s
                 else
                   case e_xdr_hdr E pkt of
                     None \<Rightarrow> s
                   | Some hdr \<Rightarrow> snd (tcp_tx fd (simple_pkt E (user_key (Some user)) hdr msg seqid) s))"

section \<open>Retransmission and acknowledgement\<close>

text \<open>\<open>kept\<close> is the part of the queue the loop has passed. The result is the return code and
  \<^verbatim>\<open>*next_retry_out\<close>.\<close>

fun retry_loop :: "nat \<Rightarrow> session_outpkt list \<Rightarrow> session_outpkt list \<Rightarrow> u64 \<Rightarrow> 'd srv \<Rightarrow> (int \<times> u64) \<times> 'd srv" where
  "retry_loop sess kept [] next_retry s = ((0, next_retry), sess_upd sess (\<lambda>x. x\<lparr>ss_out_q := kept\<rparr>) s)"
| "retry_loop sess kept (op # tmp) next_retry s =
     (let next_retry = (if next_retry = 0 \<or> op_next_retry op < next_retry then op_next_retry op else next_retry) in
      if sv_now s < op_next_retry op then retry_loop sess (kept @ [op]) tmp next_retry s
      else
        case tcp_tx (ss_sock_fd (sess_at s sess)) (op_pkt_data op) s of
          (rc, s) \<Rightarrow>
            if rc \<noteq> 0 then ((rc, next_retry), sess_upd sess (\<lambda>x. x\<lparr>ss_out_q := kept @ op # tmp\<rparr>) s)
            else retry_loop sess (kept @ [op\<lparr>op_next_retry := op_next_retry op + 5\<rparr>]) tmp next_retry s)"

definition sess_retry_output :: "nat \<Rightarrow> 'd srv \<Rightarrow> (int \<times> u64) \<times> 'd srv" where
  "sess_retry_output sess s = retry_loop sess [] (ss_out_q (sess_at s sess)) 0 s"

definition session_retry :: "nat \<Rightarrow> u64 \<Rightarrow> 'd srv \<Rightarrow> 'd srv" where
  "session_retry sess now s =
     (if ss_out_q (sess_at s sess) = [] then s
      else
        case sess_retry_output sess s of
          ((rc, next_retry), s) \<Rightarrow> sess_upd sess (\<lambda>x. x\<lparr>ss_retry_timer := Some (next_retry - now)\<rparr>) s)"

definition session_ping_done :: "session \<Rightarrow> session" where
  "session_ping_done sess = sess\<lparr>ss_ping_open := False\<rparr>"

definition session_trash :: "session \<Rightarrow> session" where
  "session_trash sess = sess\<lparr>ss_dead := True\<rparr>"

definition end_sess_done :: "session \<Rightarrow> session" where
  "end_sess_done sess = session_trash sess"

definition run_done_cb :: "done_cb option \<Rightarrow> session \<Rightarrow> session" where
  "run_done_cb cb sess =
     (case cb of
        None \<Rightarrow> sess
      | Some Session_ping_done \<Rightarrow> session_ping_done sess
      | Some End_sess_done \<Rightarrow> end_sess_done sess)"

fun ack_loop :: "u64 \<Rightarrow> session_outpkt list \<Rightarrow> session_outpkt list \<Rightarrow> session \<Rightarrow> session" where
  "ack_loop seqid kept [] sess = sess"
| "ack_loop seqid kept (op # tmp) sess =
     (if seqid \<noteq> pkt_seqid (op_pkt_data op) then ack_loop seqid (kept @ [op]) tmp sess
      else ack_loop seqid kept tmp (run_done_cb (op_done_cb op) (sess\<lparr>ss_out_q := kept @ tmp\<rparr>)))"

definition msg_ack :: "nat \<Rightarrow> u64 \<Rightarrow> 'd srv \<Rightarrow> 'd srv" where
  "msg_ack sess seqid s =
     (if ss_out_q (sess_at s sess) = [] then s
      else sess_upd sess (\<lambda>x.
        let x = ack_loop seqid [] (ss_out_q x) x in
        if ss_out_q x = [] then x\<lparr>ss_retry_timer := None\<rparr> else x) s)"

section \<open>Frames\<close>

text \<open>What sending leaves alone.\<close>

definition srv_core :: "'d srv \<Rightarrow> 'd \<times> (nat \<rightharpoonup> session) \<times> (sid, nat) htab \<times> u64 \<times> nat" where
  "srv_core s = (sv_db s, sv_heap s, sv_sessions s, sv_now s, sv_next s)"

lemma tcp_tx_frame: "tcp_tx fd data s = (r, s') \<Longrightarrow> srv_core s' = srv_core s \<and> sv_log s' = sv_log s \<and> sv_mem s' = sv_mem s"
proof -
  have w: "sock_write fd b t = (r, t') \<Longrightarrow> srv_core t' = srv_core t \<and> sv_log t' = sv_log t \<and> sv_mem t' = sv_mem t"
    for b r and t t' :: "'d srv"
    by (auto simp: srv_core_def sock_write_def split: list.splits sum.splits)
  show "tcp_tx fd data s = (r, s') \<Longrightarrow> srv_core s' = srv_core s \<and> sv_log s' = sv_log s \<and> sv_mem s' = sv_mem s"
    by (auto simp: tcp_tx_def split: prod.splits sum.splits dest!: w)
qed

lemma send_pkts_frame:
  "srv_core (send_pkts fd ops s) = srv_core s \<and> sv_log (send_pkts fd ops s) = sv_log s"
proof (induction ops arbitrary: s)
  case (Cons op ops)
  then show ?case using tcp_tx_frame [of fd "op_pkt_data op" s] by (cases "tcp_tx fd (op_pkt_data op) s") simp
qed simp

lemma send_pkts_sel [simp]:
  "sv_db (send_pkts fd ops s) = sv_db s" "sv_heap (send_pkts fd ops s) = sv_heap s"
  "sv_sessions (send_pkts fd ops s) = sv_sessions s" "sv_now (send_pkts fd ops s) = sv_now s"
  "sv_log (send_pkts fd ops s) = sv_log s"
  using send_pkts_frame [of fd ops s] by (simp_all add: srv_core_def)

lemma send_frag_frame:
  "send_frag E sess msg_op cb first msg s = (r, s') \<Longrightarrow> srv_core s' = srv_core s \<and> sv_log s' = sv_log s \<and> sv_tx s' = sv_tx s"
  by (auto simp: send_frag_def op_alloc_def srv_alloc_def srv_rand64_def srv_core_def Let_def
      split: prod.splits if_splits option.splits)

lemma send_frags_frame:
  "send_frags E sess msg_op cb first msg s = (r, s') \<Longrightarrow> srv_core s' = srv_core s \<and> sv_log s' = sv_log s \<and> sv_tx s' = sv_tx s"
proof (induction "length msg" arbitrary: msg first s r s' rule: less_induct)
  case less
  obtain r1 s1 where f: "send_frag E sess msg_op cb first msg s = (r1, s1)" by fastforce
  obtain r2 s2 where g: "send_frags E sess msg_op cb False (drop (frag_len msg) msg) s1 = (r2, s2)" by fastforce
  have "srv_core s2 = srv_core s1 \<and> sv_log s2 = sv_log s1 \<and> sv_tx s2 = sv_tx s1" if "\<not> length msg \<le> CLD_MAX_PKT_MSG_SZ"
    using less.hyps [OF _ g] that by (simp add: frag_len_def CLD_MAX_PKT_MSG_SZ_def)
  then show ?case
    using less.prems f g send_frag_frame [OF f]
    by (subst (asm) send_frags.simps) (auto split: option.splits if_splits)
qed

text \<open>
  Sending changes neither the database nor the session table, logs the message, and of the
  sessions touches only the output queue, the retry timer and the output sequence id.
\<close>

definition sess_pub :: "session \<Rightarrow> session" where
  "sess_pub x = x\<lparr>ss_out_q := [], ss_retry_timer := None, ss_next_seqid_out := 0\<rparr>"

definition heap_pub :: "'d srv \<Rightarrow> nat \<rightharpoonup> session" where
  "heap_pub s p = map_option sess_pub (sv_heap s p)"

lemma heap_pub_upd: "(\<And>x. sess_pub (f x) = sess_pub x) \<Longrightarrow> heap_pub (sess_upd p f s) = heap_pub s"
  by (auto simp: heap_pub_def fun_eq_iff sess_upd_def option.map_comp comp_def)

lemma heap_pub_sel:
  assumes "heap_pub s' = heap_pub s"
  shows "ss_sid (sess_at s' p) = ss_sid (sess_at s p)" "ss_msg_op (sess_at s' p) = ss_msg_op (sess_at s p)"
    "ss_msg_xid (sess_at s' p) = ss_msg_xid (sess_at s p)" "ss_next_fh (sess_at s' p) = ss_next_fh (sess_at s p)"
    "ss_sock_fd (sess_at s' p) = ss_sock_fd (sess_at s p)" "ss_user (sess_at s' p) = ss_user (sess_at s p)"
    "sv_heap s' p = None \<longleftrightarrow> sv_heap s p = None" "ss_msg_buf (sess_at s' p) = ss_msg_buf (sess_at s p)"
proof -
  have "map_option sess_pub (sv_heap s' p) = map_option sess_pub (sv_heap s p)"
    using assms by (simp add: heap_pub_def fun_eq_iff)
  then have eq: "(sv_heap s' p = None \<longleftrightarrow> sv_heap s p = None) \<and> sess_pub (sess_at s' p) = sess_pub (sess_at s p)"
    by (cases "sv_heap s' p"; cases "sv_heap s p") (auto simp: sess_at_def)
  have sel: "ss_sid x = ss_sid (sess_pub x)" "ss_msg_op x = ss_msg_op (sess_pub x)" "ss_msg_xid x = ss_msg_xid (sess_pub x)"
    "ss_next_fh x = ss_next_fh (sess_pub x)" "ss_sock_fd x = ss_sock_fd (sess_pub x)" "ss_user x = ss_user (sess_pub x)"
    "ss_msg_buf x = ss_msg_buf (sess_pub x)" for x
    by (simp_all add: sess_pub_def)
  show "ss_sid (sess_at s' p) = ss_sid (sess_at s p)" "ss_msg_op (sess_at s' p) = ss_msg_op (sess_at s p)"
    "ss_msg_xid (sess_at s' p) = ss_msg_xid (sess_at s p)" "ss_next_fh (sess_at s' p) = ss_next_fh (sess_at s p)"
    "ss_sock_fd (sess_at s' p) = ss_sock_fd (sess_at s p)" "ss_user (sess_at s' p) = ss_user (sess_at s p)"
    "sv_heap s' p = None \<longleftrightarrow> sv_heap s p = None" "ss_msg_buf (sess_at s' p) = ss_msg_buf (sess_at s p)"
    using eq by (metis sel)+
qed

lemma heap_pub_cong: "sv_heap s' = sv_heap s \<Longrightarrow> heap_pub s' = heap_pub s"
  by (simp add: heap_pub_def fun_eq_iff)

lemma sess_sendmsg_frame:
  assumes "sess_sendmsg E sess msg op cb s = (r, s')"
  shows "sv_db s' = sv_db s \<and> sv_sessions s' = sv_sessions s \<and> sv_now s' = sv_now s \<and>
    sv_log s' = sv_log s @ [(sess, op, msg)] \<and> heap_pub s' = heap_pub s"
proof -
  let ?l = "s\<lparr>sv_log := sv_log s @ [(sess, op, msg)]\<rparr>"
  have l: "heap_pub ?l = heap_pub s" by (rule heap_pub_cong) simp
  show ?thesis
  proof (cases "e_xdr_msg E msg")
    case None
    then show ?thesis using assms l by (auto simp: sess_sendmsg_def Let_def)
  next
    case (Some b)
    obtain r1 s1 where f: "send_frags E (sess_at ?l sess) op cb True b ?l = (r1, s1)" by fastforce
    have s1: "srv_core s1 = srv_core s" "sv_log s1 = sv_log ?l"
      using send_frags_frame [OF f] by (auto simp: srv_core_def)
    then have h1: "heap_pub s1 = heap_pub s" by (intro heap_pub_cong) (simp add: srv_core_def)
    show ?thesis
    proof (cases r1)
      case None
      then show ?thesis
        using assms Some f s1 h1 l by (auto simp: sess_sendmsg_def Let_def srv_core_def split: if_splits)
    next
      case pk: (Some pkts)
      obtain sg q where sg: "sign_pkts E (user_key (Some (ss_user (sess_at ?l sess))))
          (ss_next_seqid_out (sess_at s1 sess)) pkts = (sg, q)" by fastforce
      let ?s2 = "sess_upd sess (\<lambda>x. x\<lparr>ss_next_seqid_out := q\<rparr>) s1"
      have h2: "heap_pub ?s2 = heap_pub s" using h1 by (subst heap_pub_upd) (simp_all add: sess_pub_def)
      have h3: "heap_pub (session_outq sess ps (send_pkts fd ps ?s2)) = heap_pub s" for ps fd
      proof -
        have "heap_pub (send_pkts fd ps ?s2) = heap_pub ?s2"
          using send_pkts_frame [of fd ps ?s2] by (intro heap_pub_cong) (simp add: srv_core_def)
        then show ?thesis
          unfolding session_outq_def using h2 by (subst heap_pub_upd) (simp_all add: sess_pub_def)
      qed
      have "(r, s') = (if CLD_MAX_MSG_SZ < length b then (False, ?l)
          else case sg of None \<Rightarrow> (False, ?s2)
             | Some ps \<Rightarrow> (True, session_outq sess ps (send_pkts (ss_sock_fd (sess_at ?s2 sess)) ps ?s2)))"
        using assms Some f pk sg by (auto simp: sess_sendmsg_def Let_def split: if_splits)
      then show ?thesis
        using s1 h2 h3 l
        by (auto simp: srv_core_def session_outq_def split: if_splits option.splits)
    qed
  qed
qed

lemma sess_sendresp_generic_frame:
  "sv_db (sess_sendresp_generic E sess code s) = sv_db s \<and>
   sv_sessions (sess_sendresp_generic E sess code s) = sv_sessions s \<and>
   sv_now (sess_sendresp_generic E sess code s) = sv_now s \<and>
   heap_pub (sess_sendresp_generic E sess code s) = heap_pub s \<and>
   sv_log (sess_sendresp_generic E sess code s) =
     sv_log s @ [(sess, ss_msg_op (sess_at s sess), Generic_resp code (ss_msg_xid (sess_at s sess)))]"
  unfolding sess_sendresp_generic_def
  using sess_sendmsg_frame [OF surjective_pairing, of E sess "Generic_resp code (ss_msg_xid (sess_at s sess))"
      "ss_msg_op (sess_at s sess)" None s]
  by blast

lemma keeps_sendmsg [keeps_intros]:
  "keeps sv_db (sess_sendmsg E sess msg op cb)" "keeps sv_now (sess_sendmsg E sess msg op cb)"
  "keeps sv_sessions (sess_sendmsg E sess msg op cb)" "keeps heap_pub (sess_sendmsg E sess msg op cb)"
  using sess_sendmsg_frame by (fastforce simp: keeps_def)+

section \<open>Fragmentation\<close>

text \<open>The reference: the chunks of a message, and the packet made of the \<open>k\<close>-th of \<open>n\<close>.\<close>

function chunks :: "bytes \<Rightarrow> bytes list" where
  "chunks msg =
     (if length msg \<le> CLD_MAX_PKT_MSG_SZ then [msg]
      else take CLD_MAX_PKT_MSG_SZ msg # chunks (drop CLD_MAX_PKT_MSG_SZ msg))"
  by pat_completeness auto
termination
  by (relation "measure length") (auto simp: CLD_MAX_PKT_MSG_SZ_def)

declare chunks.simps [simp del]

definition seal :: "hmac \<Rightarrow> bytes \<Rightarrow> bytes \<Rightarrow> u64 \<Rightarrow> bytes \<Rightarrow> bytes" where
  "seal HMAC key h seqid chunk =
     (let body = h @ chunk @ le_bytes 8 seqid in body @ HMAC key body)"

lemma chunks_concat: "concat (chunks msg) = msg"
proof (induction msg rule: chunks.induct)
  case (1 msg)
  then show ?case by (cases "length msg \<le> CLD_MAX_PKT_MSG_SZ") (subst chunks.simps, simp)+
qed

lemma chunks_small: "c \<in> set (chunks msg) \<Longrightarrow> length c \<le> CLD_MAX_PKT_MSG_SZ"
proof (induction msg rule: chunks.induct)
  case (1 msg)
  show ?case
  proof (cases "length msg \<le> CLD_MAX_PKT_MSG_SZ")
    case True
    then show ?thesis using 1(2) by (subst (asm) chunks.simps) simp
  next
    case False
    then show ?thesis using 1 by (subst (asm) chunks.simps) auto
  qed
qed

lemma chunks_ne: "chunks msg \<noteq> []"
  by (subst chunks.simps) simp

text \<open>With memory and a working header encoder, the loop makes one packet per chunk; only the
  first carries the operation, only the last the end mark.\<close>

definition frag_hdr :: "'d env \<Rightarrow> session \<Rightarrow> u64 \<Rightarrow> u32 \<Rightarrow> bool \<Rightarrow> bool \<Rightarrow> bytes" where
  "frag_hdr E sess xid msg_op first is_last = the (e_xdr_hdr E (pkt_header sess first is_last xid msg_op))"

lemma send_frag_ok:
  assumes "\<And>h. e_xdr_hdr E h \<noteq> None" and "sv_mem s = []"
  shows "\<exists>op s'. send_frag E sess msg_op cb first msg s = (Some op, s') \<and> sv_mem s' = [] \<and>
    op_pkt_data op = frag_hdr E sess (if first then fst (srv_rand64 E s) else 0) msg_op first (length msg \<le> CLD_MAX_PKT_MSG_SZ) @
      take CLD_MAX_PKT_MSG_SZ msg @ replicate CLD_PKT_FTR_LEN 0 \<and>
    op_done_cb op = cb \<and> op_next_retry op = sv_now s + CLD_RETRY_START"
proof -
  obtain x s1 where x: "(if first then srv_rand64 E s else (0, s)) = (x, s1)" by fastforce
  have s1: "sv_mem s1 = []" "sv_now s1 = sv_now s" "x = (if first then fst (srv_rand64 E s) else 0)"
    using x assms(2) by (auto simp: srv_rand64_def split: if_splits prod.splits)
  obtain h where h: "e_xdr_hdr E (pkt_header sess first (length msg \<le> CLD_MAX_PKT_MSG_SZ) x msg_op) = Some h"
    using assms(1) by blast
  have t: "take (frag_len msg) msg = take CLD_MAX_PKT_MSG_SZ msg" by (simp add: frag_len_def)
  show ?thesis
    using x s1 h t by (simp add: send_frag_def op_alloc_def srv_alloc_def frag_hdr_def Let_def)
qed

fun unsealed :: "'d env \<Rightarrow> session \<Rightarrow> u64 \<Rightarrow> u32 \<Rightarrow> bool \<Rightarrow> bytes list \<Rightarrow> bytes list" where
  "unsealed E sess xid msg_op first [] = []"
| "unsealed E sess xid msg_op first (c # cs) =
     (frag_hdr E sess xid msg_op first (cs = []) @ c @ replicate CLD_PKT_FTR_LEN 0) #
     unsealed E sess xid msg_op False cs"

fun sealed :: "'d env \<Rightarrow> bytes \<Rightarrow> session \<Rightarrow> u64 \<Rightarrow> u32 \<Rightarrow> bool \<Rightarrow> u64 \<Rightarrow> bytes list \<Rightarrow> bytes list" where
  "sealed E key sess xid msg_op first seq [] = []"
| "sealed E key sess xid msg_op first seq (c # cs) =
     seal (e_hmac E) key (frag_hdr E sess xid msg_op first (cs = [])) seq c #
     sealed E key sess xid msg_op False (seq + 1) cs"

lemma frag_hdr_mid: "frag_hdr E sess xid msg_op False l = frag_hdr E sess xid' msg_op False l"
  by (simp add: frag_hdr_def pkt_header_def)

lemma unsealed_mid: "unsealed E sess xid msg_op False cs = unsealed E sess xid' msg_op False cs"
  by (induction cs) (auto simp: frag_hdr_mid [of E sess xid _ _ xid'])

lemma send_frags_ok:
  assumes "\<And>h. e_xdr_hdr E h \<noteq> None" and "sv_mem s = []"
  shows "\<exists>ops s'. send_frags E sess msg_op cb first msg s = (Some ops, s') \<and>
    map op_pkt_data ops = unsealed E sess (fst (srv_rand64 E s)) msg_op first (chunks msg) \<and>
    (\<forall>op \<in> set ops. op_done_cb op = cb \<and> op_next_retry op = sv_now s + CLD_RETRY_START)"
  using assms(2)
proof (induction "length msg" arbitrary: msg first s rule: less_induct)
  case less
  obtain op s1 where f: "send_frag E sess msg_op cb first msg s = (Some op, s1)" "sv_mem s1 = []"
    and d: "op_pkt_data op = frag_hdr E sess (if first then fst (srv_rand64 E s) else 0) msg_op first (length msg \<le> CLD_MAX_PKT_MSG_SZ) @
      take CLD_MAX_PKT_MSG_SZ msg @ replicate CLD_PKT_FTR_LEN 0"
      "op_done_cb op = cb" "op_next_retry op = sv_now s + CLD_RETRY_START"
    using send_frag_ok [OF assms(1) less.prems, of sess msg_op cb first msg] by blast
  have hdr: "frag_hdr E sess (if first then fst (srv_rand64 E s) else 0) msg_op first l =
      frag_hdr E sess (fst (srv_rand64 E s)) msg_op first l" for l
    using frag_hdr_mid by (cases first) auto
  have now: "sv_now s1 = sv_now s" using send_frag_frame [OF f(1)] by (simp add: srv_core_def)
  show ?case
  proof (cases "length msg \<le> CLD_MAX_PKT_MSG_SZ")
    case True
    then have c: "chunks msg = [msg]" by (subst chunks.simps) simp
    have "send_frags E sess msg_op cb first msg s = (Some [op], s1)"
      using True f by (subst send_frags.simps) simp
    then show ?thesis using True d hdr c by simp
  next
    case False
    let ?rest = "drop CLD_MAX_PKT_MSG_SZ msg"
    have c: "chunks msg = take CLD_MAX_PKT_MSG_SZ msg # chunks ?rest" using False by (subst chunks.simps) simp
    have fl: "frag_len msg = CLD_MAX_PKT_MSG_SZ" using False by (simp add: frag_len_def)
    have "length ?rest < length msg" using False by (simp add: CLD_MAX_PKT_MSG_SZ_def)
    from less.hyps [OF this f(2), of False] obtain ops s2 where
      r: "send_frags E sess msg_op cb False ?rest s1 = (Some ops, s2)"
      "map op_pkt_data ops = unsealed E sess (fst (srv_rand64 E s1)) msg_op False (chunks ?rest)"
      "\<forall>op \<in> set ops. op_done_cb op = cb \<and> op_next_retry op = sv_now s1 + CLD_RETRY_START" by blast
    have "send_frags E sess msg_op cb first msg s = (Some (op # ops), s2)"
      using False f r fl by (subst send_frags.simps) simp
    then show ?thesis
      using False d hdr c r now chunks_ne [of ?rest] unsealed_mid [of E sess "fst (srv_rand64 E s1)" msg_op _ "fst (srv_rand64 E s)"]
      by auto
  qed
qed

lemma sign_pkts_ok:
  assumes "\<And>k m. length (e_hmac E k m) = SHA_DIGEST_LENGTH" and "key \<noteq> []"
    and "map op_pkt_data ops = unsealed E sess xid msg_op first cs"
  shows "\<exists>ops'. sign_pkts E (Some key) seq ops = (Some ops', seq + word_of_nat (length cs)) \<and>
    map op_pkt_data ops' = sealed E key sess xid msg_op first seq cs \<and>
    map op_done_cb ops' = map op_done_cb ops \<and> map op_next_retry ops' = map op_next_retry ops"
  using assms(3)
proof (induction cs arbitrary: ops first seq)
  case Nil
  then show ?case by simp
next
  case (Cons c cs)
  then obtain op ops1 where ops: "ops = op # ops1"
    and op: "op_pkt_data op = frag_hdr E sess xid msg_op first (cs = []) @ c @ replicate CLD_PKT_FTR_LEN 0"
    and rest: "map op_pkt_data ops1 = unsealed E sess xid msg_op False cs"
    by (cases ops) auto
  let ?body = "frag_hdr E sess xid msg_op first (cs = []) @ c @ le_bytes 8 seq"
  let ?pkt = "pkt_set_seqid (op_pkt_data op) seq"
  have pkt: "?pkt = ?body @ replicate 20 0"
    unfolding pkt_set_seqid_def op CLD_PKT_FTR_LEN_def SHA_DIGEST_LENGTH_def by simp
  have sign: "cld_authsign (e_hmac E) (Some key) ?body (replicate 20 0) = (0, e_hmac E key ?body)"
    using assms(1,2) by (simp add: cld_authsign_def Let_def SHA_DIGEST_LENGTH_def)
  from Cons.IH [OF rest, of "seq + 1"] obtain ops2 where
    "sign_pkts E (Some key) (seq + 1) ops1 = (Some ops2, seq + 1 + word_of_nat (length cs))"
    "map op_pkt_data ops2 = sealed E key sess xid msg_op False (seq + 1) cs"
    "map op_done_cb ops2 = map op_done_cb ops1" "map op_next_retry ops2 = map op_next_retry ops1" by blast
  then show ?case
    using pkt sign unfolding ops by (simp add: next_seqid_le_def seal_def SHA_DIGEST_LENGTH_def)
qed

lemma sealed_verifies:
  assumes "\<And>k m. length (e_hmac E k m) = SHA_DIGEST_LENGTH" and "key \<noteq> []"
    and "pkt \<in> set (sealed E key sess xid msg_op first seq cs)"
  shows "cld_authcheck (e_hmac E) (Some key) (take (length pkt - SHA_DIGEST_LENGTH) pkt)
    (drop (length pkt - SHA_DIGEST_LENGTH) pkt) = 0"
  using assms(3)
proof (induction cs arbitrary: first seq)
  case (Cons c cs)
  then show ?case using assms(1,2) by (auto simp: cld_authcheck_def seal_def Let_def)
qed simp

lemma send_pkts_tx:
  "sv_writes s = [] \<Longrightarrow> sv_tx (send_pkts fd ops s) = sv_tx s @
     concat (map (\<lambda>op. [(fd, ubbp_header (ascii ''CLD1'') (length (op_pkt_data op)) 2), (fd, op_pkt_data op)]) ops)"
proof (induction ops arbitrary: s)
  case (Cons op ops)
  have "\<exists>s1. tcp_tx fd (op_pkt_data op) s = (0, s1) \<and> sv_writes s1 = [] \<and>
      sv_tx s1 = sv_tx s @ [(fd, ubbp_header (ascii ''CLD1'') (length (op_pkt_data op)) 2), (fd, op_pkt_data op)]"
    using Cons.prems by (simp add: tcp_tx_def sock_write_def)
  then show ?case using Cons.IH by auto
qed simp

lemma send_frags_writes: "send_frags E sess msg_op cb first msg s = (r, s') \<Longrightarrow> sv_writes s' = sv_writes s"
proof (induction "length msg" arbitrary: msg first s r s' rule: less_induct)
  case less
  obtain r1 s1 where f: "send_frag E sess msg_op cb first msg s = (r1, s1)" by fastforce
  have w: "sv_writes s1 = sv_writes s"
    using f by (auto simp: send_frag_def op_alloc_def srv_alloc_def srv_rand64_def Let_def
        split: prod.splits if_splits option.splits)
  obtain r2 s2 where g: "send_frags E sess msg_op cb False (drop (frag_len msg) msg) s1 = (r2, s2)" by fastforce
  have "sv_writes s2 = sv_writes s1" if "\<not> length msg \<le> CLD_MAX_PKT_MSG_SZ"
    using less.hyps [OF _ g] that by (simp add: frag_len_def CLD_MAX_PKT_MSG_SZ_def)
  then show ?case
    using less.prems f g w by (subst (asm) send_frags.simps) (auto split: option.splits if_splits)
qed

lemma ack_loop_ok:
  "ss_out_q sess = kept @ q \<Longrightarrow>
   ss_out_q (ack_loop seqid kept q sess) = kept @ filter (\<lambda>op. pkt_seqid (op_pkt_data op) \<noteq> seqid) q \<and>
   ss_ping_open (ack_loop seqid kept q sess) = (ss_ping_open sess \<and>
     \<not> list_ex (\<lambda>op. op_done_cb op = Some Session_ping_done) (filter (\<lambda>op. pkt_seqid (op_pkt_data op) = seqid) q)) \<and>
   ss_dead (ack_loop seqid kept q sess) = (ss_dead sess \<or>
     list_ex (\<lambda>op. op_done_cb op = Some End_sess_done) (filter (\<lambda>op. pkt_seqid (op_pkt_data op) = seqid) q)) \<and>
   ss_retry_timer (ack_loop seqid kept q sess) = ss_retry_timer sess"
proof (induction q arbitrary: kept sess)
  case (Cons op q)
  show ?case
  proof (cases "pkt_seqid (op_pkt_data op) = seqid")
    case True
    let ?s = "run_done_cb (op_done_cb op) (sess\<lparr>ss_out_q := kept @ q\<rparr>)"
    have "ss_out_q ?s = kept @ q" "ss_retry_timer ?s = ss_retry_timer sess"
      "ss_ping_open ?s = (ss_ping_open sess \<and> op_done_cb op \<noteq> Some Session_ping_done)"
      "ss_dead ?s = (ss_dead sess \<or> op_done_cb op = Some End_sess_done)"
      by (auto simp: run_done_cb_def session_ping_done_def end_sess_done_def session_trash_def
          split: option.splits done_cb.splits)
    with Cons.IH [of ?s kept] True show ?thesis by auto
  next
    case False
    with Cons.IH [of sess "kept @ [op]"] Cons.prems show ?thesis by auto
  qed
qed simp

lemma ack_loop_none:
  "\<forall>op \<in> set q. pkt_seqid (op_pkt_data op) \<noteq> seqid \<Longrightarrow> ack_loop seqid kept q sess = sess"
  by (induction q arbitrary: kept) auto

section \<open>Properties\<close>

lemma sendmsg_packets:
  assumes "\<And>h. e_xdr_hdr E h \<noteq> None" and "\<And>k m. length (e_hmac E k m) = SHA_DIGEST_LENGTH"
    and "sv_mem s = []" and "sv_writes s = []" and "sv_heap s p = Some x"
    and "ss_user x \<noteq> []" and "length (ss_user x) < 32"
    and "e_xdr_msg E msg = Some b" and "length b \<le> CLD_MAX_MSG_SZ"
  shows "\<exists>s' xid ops. sess_sendmsg E p msg msg_op cb s = (True, s') \<and>
    map op_pkt_data ops = sealed E (ss_user x) x xid msg_op True (ss_next_seqid_out x) (chunks b) \<and>
    concat (chunks b) = b \<and> list_all (\<lambda>c. length c \<le> CLD_MAX_PKT_MSG_SZ) (chunks b) \<and>
    list_all (\<lambda>op. let d = op_pkt_data op; n = length d - SHA_DIGEST_LENGTH in
      cld_authcheck (e_hmac E) (Some (ss_user x)) (take n d) (drop n d) = 0) ops \<and>
    sv_heap s' p = Some (x\<lparr>ss_next_seqid_out := ss_next_seqid_out x + word_of_nat (length (chunks b)),
      ss_out_q := ss_out_q x @ ops,
      ss_retry_timer := (if ss_out_q x = [] then Some CLD_RETRY_START else ss_retry_timer x)\<rparr>) \<and>
    sv_tx s' = sv_tx s @ concat (map (\<lambda>op. [(ss_sock_fd x, ubbp_header (ascii ''CLD1'') (length (op_pkt_data op)) 2),
      (ss_sock_fd x, op_pkt_data op)]) ops)"
proof -
  let ?l = "s\<lparr>sv_log := sv_log s @ [(p, msg_op, msg)]\<rparr>"
  have at: "sess_at ?l p = x" using assms(5) by (simp add: sess_at_def)
  obtain ops s1 where f: "send_frags E x msg_op cb True b ?l = (Some ops, s1)"
    and ops: "map op_pkt_data ops = unsealed E x (fst (srv_rand64 E ?l)) msg_op True (chunks b)"
    using send_frags_ok [OF assms(1), of ?l x msg_op cb True b] assms(3) by auto
  have s1: "sv_heap s1 = sv_heap s" "sv_tx s1 = sv_tx s" "sv_writes s1 = []"
    using send_frags_frame [OF f] send_frags_writes [OF f] assms(4) by (auto simp: srv_core_def)
  have key: "user_key (Some (ss_user x)) = Some (ss_user x)" using assms(6,7) by (simp add: user_key_def)
  obtain ops' where sg: "sign_pkts E (Some (ss_user x)) (ss_next_seqid_out x) ops =
      (Some ops', ss_next_seqid_out x + word_of_nat (length (chunks b)))"
    and ops': "map op_pkt_data ops' = sealed E (ss_user x) x (fst (srv_rand64 E ?l)) msg_op True (ss_next_seqid_out x) (chunks b)"
    using sign_pkts_ok [OF assms(2,6) ops] by blast
  let ?q = "ss_next_seqid_out x + word_of_nat (length (chunks b))"
  let ?s2 = "sess_upd p (\<lambda>x. x\<lparr>ss_next_seqid_out := ?q\<rparr>) s1"
  have at1: "sess_at s1 p = x" "ss_sock_fd (sess_at ?s2 p) = ss_sock_fd x"
    using s1 assms(5) by (auto simp: sess_at_def sess_upd_def)
  have run: "sess_sendmsg E p msg msg_op cb s = (True, session_outq p ops' (send_pkts (ss_sock_fd x) ops' ?s2))"
    using f sg key at at1 assms(8,9) by (simp add: sess_sendmsg_def Let_def)
  have ver: "list_all (\<lambda>op. let d = op_pkt_data op; n = length d - SHA_DIGEST_LENGTH in
      cld_authcheck (e_hmac E) (Some (ss_user x)) (take n d) (drop n d) = 0) ops'"
  proof -
    have "op_pkt_data op \<in> set (sealed E (ss_user x) x (fst (srv_rand64 E ?l)) msg_op True (ss_next_seqid_out x) (chunks b))"
      if "op \<in> set ops'" for op
      using that unfolding ops' [symmetric] by simp
    from sealed_verifies [OF assms(2,6) this] show ?thesis by (simp add: list_all_iff Let_def)
  qed
  have tx: "sv_tx (session_outq p ops' (send_pkts (ss_sock_fd x) ops' ?s2)) = sv_tx s @
      concat (map (\<lambda>op. [(ss_sock_fd x, ubbp_header (ascii ''CLD1'') (length (op_pkt_data op)) 2), (ss_sock_fd x, op_pkt_data op)]) ops')"
    using send_pkts_tx [of ?s2 "ss_sock_fd x" ops'] s1 by (simp add: session_outq_def)
  have heap: "sv_heap (session_outq p ops' (send_pkts (ss_sock_fd x) ops' ?s2)) p =
      Some (x\<lparr>ss_next_seqid_out := ?q, ss_out_q := ss_out_q x @ ops',
        ss_retry_timer := (if ss_out_q x = [] then Some CLD_RETRY_START else ss_retry_timer x)\<rparr>)"
    using s1 assms(5) by (simp add: session_outq_def sess_upd_def)
  show ?thesis
    using run ops' ver tx heap chunks_concat chunks_small
    by (intro exI [of _ "session_outq p ops' (send_pkts (ss_sock_fd x) ops' ?s2)"]
        exI [of _ "fst (srv_rand64 E ?l)"] exI [of _ ops'] conjI) (auto simp: list_all_iff)
qed

text \<open>
  \<open>sess_sendmsg\<close> delivers the whole message in order: with memory, a key and a message within
  the size limit it succeeds; the packets are the chunks of the serialised message, each of at
  most 1024 bytes, with consecutive sequence ids and a signature that verifies; they go to the
  socket in order and are appended to the retransmission queue.
\<close>

theorem sess_sendmsg_ok:
  assumes "\<And>h. e_xdr_hdr E h \<noteq> None" and "\<And>k m. length (e_hmac E k m) = SHA_DIGEST_LENGTH"
    and "sv_mem s = []" and "sv_writes s = []" and "sv_heap s p = Some x"
    and "ss_user x \<noteq> []" and "length (ss_user x) < 32"
    and "e_xdr_msg E msg = Some b" and "length b \<le> CLD_MAX_MSG_SZ"
  shows "\<exists>s' xid ops. sess_sendmsg E p msg msg_op cb s = (True, s') \<and>
    map op_pkt_data ops = sealed E (ss_user x) x xid msg_op True (ss_next_seqid_out x) (chunks b) \<and>
    concat (chunks b) = b \<and> list_all (\<lambda>c. length c \<le> CLD_MAX_PKT_MSG_SZ) (chunks b) \<and>
    list_all (\<lambda>op. let d = op_pkt_data op; n = length d - SHA_DIGEST_LENGTH in
      cld_authcheck (e_hmac E) (Some (ss_user x)) (take n d) (drop n d) = 0) ops \<and>
    sv_heap s' p = Some (x\<lparr>ss_next_seqid_out := ss_next_seqid_out x + word_of_nat (length (chunks b)),
      ss_out_q := ss_out_q x @ ops,
      ss_retry_timer := (if ss_out_q x = [] then Some CLD_RETRY_START else ss_retry_timer x)\<rparr>) \<and>
    sv_tx s' = sv_tx s @ concat (map (\<lambda>op. [(ss_sock_fd x, ubbp_header (ascii ''CLD1'') (length (op_pkt_data op)) 2),
      (ss_sock_fd x, op_pkt_data op)]) ops)"
  using assms by (rule sendmsg_packets)

theorem sess_sendmsg_ok_witness:
  "\<exists>s'. sess_sendmsg (ref_env False) 0 (Event 3 1) CMO_EVENT None (sample_srv no_tabs) = (True, s') \<and>
     ss_next_seqid_out (sess_at s' 0) = 10 \<and> length (ss_out_q (sess_at s' 0)) = 1"
proof -
  let ?b = "ref_msg (Event 3 1)"
  have c: "chunks ?b = [?b]"
    by (subst chunks.simps) (simp add: CLD_MAX_PKT_MSG_SZ_def)
  have b: "length ?b \<le> CLD_MAX_MSG_SZ" by (simp add: CLD_MAX_MSG_SZ_def)
  show ?thesis
    using sess_sendmsg_ok [of "ref_env False" "sample_srv no_tabs" 0 sample_sess "Event 3 1" ?b CMO_EVENT None, unfolded c, OF _ _ _ _ _ _ _ _ b]
    by (auto simp: sess_at_def simp del: ref_msg.simps)
qed

text \<open>
  An acknowledgement drops exactly the packets with its sequence id from the queue, keeps the
  order of the rest, runs the callbacks of the dropped packets (a ping is answered, an ended
  session becomes dead), stops the retry timer when nothing is left, and repeating it changes
  nothing.
\<close>

theorem msg_ack_ok:
  assumes "sv_heap s p = Some x" and "ss_out_q x \<noteq> []"
    and "acked = filter (\<lambda>op. pkt_seqid (op_pkt_data op) = seqid) (ss_out_q x)"
  shows "\<exists>y. sv_heap (msg_ack p seqid s) p = Some y \<and>
    ss_out_q y = filter (\<lambda>op. pkt_seqid (op_pkt_data op) \<noteq> seqid) (ss_out_q x) \<and>
    ss_ping_open y = (ss_ping_open x \<and> \<not> list_ex (\<lambda>op. op_done_cb op = Some Session_ping_done) acked) \<and>
    ss_dead y = (ss_dead x \<or> list_ex (\<lambda>op. op_done_cb op = Some End_sess_done) acked) \<and>
    ss_retry_timer y = (if ss_out_q y = [] then None else ss_retry_timer x) \<and>
    msg_ack p seqid (msg_ack p seqid s) = msg_ack p seqid s"
proof -
  let ?y = "ack_loop seqid [] (ss_out_q x) x"
  let ?z = "if ss_out_q ?y = [] then ?y\<lparr>ss_retry_timer := None\<rparr> else ?y"
  have y: "ss_out_q ?y = filter (\<lambda>op. pkt_seqid (op_pkt_data op) \<noteq> seqid) (ss_out_q x)"
    "ss_ping_open ?y = (ss_ping_open x \<and> \<not> list_ex (\<lambda>op. op_done_cb op = Some Session_ping_done) acked)"
    "ss_dead ?y = (ss_dead x \<or> list_ex (\<lambda>op. op_done_cb op = Some End_sess_done) acked)"
    "ss_retry_timer ?y = ss_retry_timer x"
    using ack_loop_ok [of x "[]" "ss_out_q x" seqid] assms(3) by simp_all
  have heap: "sv_heap (msg_ack p seqid s) = (sv_heap s)(p \<mapsto> ?z)"
    using assms(1,2) by (simp add: msg_ack_def sess_upd_def sess_at_def Let_def)
  have again: "msg_ack p seqid (msg_ack p seqid s) = msg_ack p seqid s"
  proof (cases "ss_out_q ?z = []")
    case True
    then show ?thesis using heap by (simp add: msg_ack_def [of p seqid "msg_ack p seqid s"] sess_at_def)
  next
    case False
    have "ack_loop seqid [] (ss_out_q ?z) ?z = ?z"
      using y(1) by (intro ack_loop_none) auto
    then have "(\<lambda>w. let w = ack_loop seqid [] (ss_out_q w) w in if ss_out_q w = [] then w\<lparr>ss_retry_timer := None\<rparr> else w) ?z = ?z"
      using False by (simp add: Let_def)
    then show ?thesis
      using heap False unfolding msg_ack_def [of p seqid "msg_ack p seqid s"] sess_at_def sess_upd_def
      by (simp add: fun_upd_idem)
  qed
  show ?thesis using heap y again by (intro exI [of _ ?z]) (simp split: if_splits)
qed

definition ack_srv :: "mdb srv" where
  "ack_srv = sess_upd 0 (\<lambda>x. x\<lparr>ss_out_q := [\<lparr>op_pkt_data = replicate 28 0, op_next_retry = 0, op_refs = 1,
     op_done_cb = Some End_sess_done\<rparr>]\<rparr>) (sample_srv no_tabs)"

theorem msg_ack_ok_witness: "ss_dead (sess_at (msg_ack 0 0 ack_srv) 0)"
proof -
  have "pkt_seqid (replicate 28 0) = 0"
    by (simp add: pkt_seqid_def CLD_PKT_FTR_LEN_def SHA_DIGEST_LENGTH_def numeral_eq_Suc)
  then show ?thesis
    using msg_ack_ok [of ack_srv 0 "the (sv_heap ack_srv 0)" _ 0, OF _ _ refl]
    by (auto simp: ack_srv_def sess_upd_def sess_at_def)
qed

text \<open>
  The footer of packets sent by \<open>simple_sendmsg\<close> is misplaced: the receiver of such a packet
  reads stale stack memory as the sequence id, and the signature check succeeds only if the HMAC
  happens to begin with the sequence id and to continue with its own first bytes.
\<close>

theorem simple_pkt_footer:
  assumes "\<And>k m. length (e_hmac E k m) = SHA_DIGEST_LENGTH" and "key \<noteq> []" and "28 \<le> length (e_stack E)"
    and "pkt = simple_pkt E (Some key) hdr msg seqid" and "n = length pkt - SHA_DIGEST_LENGTH"
    and "H = e_hmac E key (hdr @ msg @ take 8 (e_stack E))"
  shows "pkt_seqid pkt = of_le_bytes (take 8 (e_stack E)) \<and>
    (cld_authcheck (e_hmac E) (Some key) (take n pkt) (drop n pkt) = 0 \<longleftrightarrow> H = le_bytes 8 seqid @ take 12 H)"
proof -
  have len: "length (e_hmac E k m) = 20" for k m using assms(1) by (simp add: SHA_DIGEST_LENGTH_def)
  let ?st = "take 28 (e_stack E)"
  let ?b = "hdr @ msg @ take 8 (e_stack E)"
  have st: "length ?st = 28" using assms(3) by simp
  have t8: "take 8 ?st = take 8 (e_stack E)" by simp
  have body: "take (length msg + length hdr + 28 - 20) (hdr @ msg @ ?st) = ?b"
    using st t8 by simp
  have l: "length ?b = length msg + length hdr + 8" using assms(3) by simp
  have pkt: "pkt = ?b @ le_bytes 8 seqid @ take 12 H"
    using body l st len assms(2,3)
    unfolding assms(4) simple_pkt_def assms(6) CLD_PKT_FTR_LEN_def SHA_DIGEST_LENGTH_def Let_def cld_authsign_def
    by simp
  have n: "n = length ?b" using pkt len l unfolding assms(5) SHA_DIGEST_LENGTH_def assms(6) by simp
  have "length (le_bytes 8 seqid @ take 12 H) = SHA_DIGEST_LENGTH"
    using len unfolding assms(6) SHA_DIGEST_LENGTH_def by simp
  moreover have tk: "take n pkt = ?b" "drop n pkt = le_bytes 8 seqid @ take 12 H"
    unfolding n pkt by (rule take_front)+
  ultimately have "cld_authcheck (e_hmac E) (Some key) (take n pkt) (drop n pkt) = 0 \<longleftrightarrow> H = le_bytes 8 seqid @ take 12 H"
    using assms(2,6) unfolding tk by (simp add: cld_authcheck_ok)
  moreover have "length pkt - CLD_PKT_FTR_LEN = length hdr + length msg"
    using pkt l len unfolding CLD_PKT_FTR_LEN_def SHA_DIGEST_LENGTH_def assms(6) by simp
  then have "pkt_seqid pkt = of_le_bytes (take 8 (e_stack E))"
    using pkt assms(3) by (simp add: pkt_seqid_def)
  ultimately show ?thesis by simp
qed

theorem simple_pkt_footer_witness:
  "\<not> (let pkt = simple_pkt (ref_env False) (Some [117]) [1] [2] 5; n = length pkt - SHA_DIGEST_LENGTH
      in cld_authcheck HMAC_sample (Some [117]) (take n pkt) (drop n pkt) = 0)"
proof -
  let ?pkt = "simple_pkt (ref_env False) (Some [117]) [1] [2] 5"
  have "le_bytes 8 (5 :: u64) @ take 12 (HMAC_sample [117] ([1] @ [2] @ take 8 (e_stack (ref_env False)))) \<noteq>
      HMAC_sample [117] ([1] @ [2] @ take 8 (e_stack (ref_env False)))"
    unfolding ref_env_def by code_simp
  with simple_pkt_footer [of "ref_env False" "[117]" ?pkt "[1]" "[2]" 5, OF _ _ _ refl refl refl] show ?thesis
    by (simp add: Let_def ref_env_def)
qed

end
