(* ===== verification/Cld_Inode.thy ===== *)
theory Cld_Inode
  imports Cld_Send
begin

text \<open>
  Helpers of the message handlers: change notification and the inode update of \<^verbatim>\<open>cld/msg.c\<close>, the
  scan for locks that can be granted, and the removal of a session's locks (\<^verbatim>\<open>cld/session.c\<close>).
\<close>

section \<open>Notification\<close>

fun notify_loop :: "'d env \<Rightarrow> bool \<Rightarrow> raw_handle list \<Rightarrow> 'd srv \<Rightarrow> 'd srv" where
  "notify_loop E deleted [] s = s"
| "notify_loop E deleted (h # hs) s =
     (if \<not> deleted \<and> \<not> has_flag (rh_events h) CE_UPDATED then notify_loop E deleted hs s
      else
        case htab_get (sv_sessions s) (rh_sid h) of
          None \<Rightarrow> notify_loop E deleted hs s
        | Some sess \<Rightarrow>
            if ss_sock_fd (sess_at s sess) = 0 then notify_loop E deleted hs s
            else
              case sess_sendmsg E sess (Event (rh_fh h) (if deleted then CE_DELETED else CE_UPDATED)) CMO_EVENT None s of
                (ok, s) \<Rightarrow> if \<not> ok then s else notify_loop E deleted hs s)"

definition inode_notify :: "'d env \<Rightarrow> cldino \<Rightarrow> bool \<Rightarrow> ('d srv, dberr, unit) esm" where
  "inode_notify E inum deleted =
     ebind (db_rc (db_cursor (e_db E))) (\<lambda>_.
     ebind (db_call (db_hidx_scan (e_db E) inum)) (\<lambda>(hs, e).
     ebind (modify (notify_loop E deleted hs)) (\<lambda>_.
     ebind (db_call (db_cursor_close (e_db E))) (\<lambda>rc. ret ()))))"

text \<open>The version goes through 32-bit conversions although the field has 64 bits.\<close>

definition touched :: "u64 \<Rightarrow> raw_inode \<Rightarrow> raw_inode" where
  "touched now ino =
     (let ino = ino\<lparr>ri_time_modify := now\<rparr>;
          ino = (if ri_time_create ino = 0 then ino\<lparr>ri_time_create := ri_time_modify ino\<rparr> else ino)
      in ino\<lparr>ri_version := ucast (ucast (ri_version ino) + 1 :: u32)\<rparr>)"

definition inode_touch :: "'d env \<Rightarrow> raw_inode \<Rightarrow> ('d srv, dberr, unit) esm" where
  "inode_touch E ino =
     ebind (gets sv_now) (\<lambda>now.
     ebind (cldb_inode_put E (touched now ino)) (\<lambda>_.
     ebind (inode_notify E (ri_inum ino) False) (\<lambda>_. ret ())))"

section \<open>Granting pending locks\<close>

text \<open>
  The pending mark is cleared in the local copy \<^verbatim>\<open>lflags\<close> only; the record written back at the
  cursor is the one that was read.
\<close>

fun rescan_loop :: "'d env \<Rightarrow> cldino \<Rightarrow> nat \<Rightarrow> raw_lock list \<Rightarrow> dberr \<Rightarrow> ('d srv, dberr, unit) esm" where
  "rescan_loop E inum acq [] e = (if e = DB_NOTFOUND then ret () else throw e)"
| "rescan_loop E inum acq (lock # recs) e =
     (if \<not> has_flag (rl_flags lock) CLFL_PENDING then ret ()
      else if acq \<noteq> 0 \<and> \<not> has_flag (rl_flags lock) CLFL_SHARED then ret ()
      else
        ebind (db_rc (db_lock_cput (e_db E) inum lock lock)) (\<lambda>_.
        ebind (gets (\<lambda>s. htab_get (sv_sessions s) (rl_sid lock))) (\<lambda>so.
        case so of
          None \<Rightarrow> ret ()
        | Some sess \<Rightarrow>
            ebind (gets (\<lambda>s. ss_sock_fd (sess_at s sess))) (\<lambda>fd.
            if fd = 0 then rescan_loop E inum (Suc acq) recs e
            else
              ebind (call (sess_sendmsg E sess (Event (rl_fh lock) CE_LOCKED) CMO_EVENT None)) (\<lambda>ok.
              if \<not> ok then ret () else rescan_loop E inum (Suc acq) recs e)))))"

definition inode_lock_rescan :: "'d env \<Rightarrow> cldino \<Rightarrow> ('d srv, dberr, unit) esm" where
  "inode_lock_rescan E inum =
     ebind (db_rc (db_cursor (e_db E))) (\<lambda>_.
     closing E (ebind (db_call (db_lock_scan (e_db E) inum)) (\<lambda>(recs, e).
       rescan_loop E inum 0 recs e)))"

section \<open>Removing locks\<close>

definition lmatch :: "raw_lock \<Rightarrow> sid \<Rightarrow> u64 \<Rightarrow> bool" where
  "lmatch lock sid fh \<longleftrightarrow>
     (if memcmp (rl_sid lock) sid \<noteq> 0 then False
      else if fh \<noteq> 0 \<and> rl_fh lock \<noteq> fh then False
      else True)"

text \<open>The result is the code of the last call and \<^verbatim>\<open>*waiter\<close>.\<close>

fun remove_locks_loop ::
    "'d env \<Rightarrow> sid \<Rightarrow> u64 \<Rightarrow> cldino \<Rightarrow> bool \<Rightarrow> raw_lock list \<Rightarrow> dberr \<Rightarrow> ('d srv, dberr, dberr \<times> bool) esm" where
  "remove_locks_loop E sid fh inum waiter [] e = ret (e, waiter)"
| "remove_locks_loop E sid fh inum waiter (l # recs) e =
     (if \<not> lmatch l sid fh
      then remove_locks_loop E sid fh inum (waiter \<or> has_flag (rl_flags l) CLFL_PENDING) recs e
      else
        ebind (attempt (db_rc (db_lock_cdel (e_db E) inum l))) (\<lambda>r.
        case r of
          Inl rc \<Rightarrow> ret (rc, waiter)
        | Inr _ \<Rightarrow> remove_locks_loop E sid fh inum waiter recs e))"

definition session_remove_locks :: "'d env \<Rightarrow> sid \<Rightarrow> u64 \<Rightarrow> cldino \<Rightarrow> ('d srv, dberr, bool) esm" where
  "session_remove_locks E sid fh inum =
     ebind (db_rc (db_cursor (e_db E))) (\<lambda>_.
     ebind (db_call (db_lock_scan (e_db E) inum)) (\<lambda>(recs, e).
     ebind (remove_locks_loop E sid fh inum False recs e) (\<lambda>(rc, waiter).
     if rc \<noteq> DB_NOTFOUND
     then ebind (db_call (db_cursor_close (e_db E))) (\<lambda>_. throw rc)
     else ebind (attempt (db_rc (db_cursor_close (e_db E)))) (\<lambda>r.
       case r of Inl rc \<Rightarrow> throw rc | Inr _ \<Rightarrow> ret waiter))))"

section \<open>Effects\<close>

definition unmatched :: "sid \<Rightarrow> u64 \<Rightarrow> raw_lock list \<Rightarrow> raw_lock list" where
  "unmatched sid fh ls = filter (\<lambda>l. \<not> lmatch l sid fh) ls"

lemma notify_loop_frame:
  "sv_db (notify_loop E deleted hs s) = sv_db s \<and> sv_now (notify_loop E deleted hs s) = sv_now s \<and>
   sv_sessions (notify_loop E deleted hs s) = sv_sessions s \<and> heap_pub (notify_loop E deleted hs s) = heap_pub s"
proof (induction hs arbitrary: s)
  case (Cons h hs)
  show ?case
  proof (cases "\<not> deleted \<and> \<not> has_flag (rh_events h) CE_UPDATED")
    case True
    then show ?thesis using Cons by simp
  next
    case False
    show ?thesis
    proof (cases "htab_get (sv_sessions s) (rh_sid h)")
      case None
      with False Cons show ?thesis by auto
    next
      case (Some p)
      obtain ok s1 where m: "sess_sendmsg E p (Event (rh_fh h) (if deleted then CE_DELETED else CE_UPDATED)) CMO_EVENT None s = (ok, s1)"
        by fastforce
      with False Some Cons [of s] Cons [of s1] sess_sendmsg_frame [OF m] show ?thesis
        by auto
    qed
  qed
qed simp

text \<open>The parts of the state that survive a handler's helper: clock, sessions but for their queues.\<close>

definition sv_env :: "'d srv \<Rightarrow> u64 \<times> (sid, nat) htab \<times> (nat \<rightharpoonup> session)" where
  "sv_env s = (sv_now s, sv_sessions s, heap_pub s)"

lemma sv_env_rest: "keeps sv_rest m \<Longrightarrow> keeps sv_env m"
  unfolding keeps_def
proof (intro allI impI)
  fix s r s'
  assume "\<forall>s r s'. m s = (r, s') \<longrightarrow> sv_rest s' = sv_rest s" "m s = (r, s')"
  then have e: "sv_rest s' = sv_rest s" by blast
  show "sv_env s' = sv_env s"
    using sv_restD(1-3) [OF e] heap_pub_cong [of s' s] by (simp add: sv_env_def)
qed

lemma keeps_env_send [keeps_intros]: "keeps sv_env (sess_sendmsg E sess msg op cb)"
  using sess_sendmsg_frame by (fastforce simp: keeps_def sv_env_def)

lemma keeps_env_notify_loop: "keeps sv_env (modify (notify_loop E deleted hs))"
  by (rule keeps_modify) (simp add: sv_env_def notify_loop_frame)

lemma keeps_env_db [keeps_intros]: "keeps sv_env (db_rc f)" "keeps sv_env (db_val g)" "keeps sv_env (db_call h)"
  using keeps_rest_db sv_env_rest by blast+

lemma keeps_env_closing [keeps_intros]: "keeps sv_env m \<Longrightarrow> keeps sv_env (closing E m)"
  by (auto simp: keeps_def closing_def db_call_def sv_env_def heap_pub_def fun_eq_iff split: prod.splits)

lemma keeps_env_inode [keeps_intros]:
  "keeps sv_env (inode_notify E inum deleted)" "keeps sv_env (inode_touch E ino)"
  "keeps sv_env (inode_lock_rescan E inum)" "keeps sv_env (session_remove_locks E sid fh inum)"
proof -
  show n: "keeps sv_env (inode_notify E inum deleted)" for inum deleted
    unfolding inode_notify_def by (intro keeps_intros keeps_env_notify_loop)
  show "keeps sv_env (inode_touch E ino)"
    unfolding inode_touch_def cldb_inode_put_def by (intro keeps_intros n)
  have r: "keeps sv_env (rescan_loop E inum acq recs e)" for acq recs e
  proof (induction recs arbitrary: acq)
    case (Cons l recs)
    show ?case unfolding rescan_loop.simps by (intro keeps_intros Cons.IH)
  qed (auto intro: keeps_intros)
  show "keeps sv_env (inode_lock_rescan E inum)"
    unfolding inode_lock_rescan_def by (intro keeps_intros r)
  have l: "keeps sv_env (remove_locks_loop E sid fh inum w recs e)" for w recs e
  proof (induction recs arbitrary: w)
    case (Cons l recs)
    show ?case unfolding remove_locks_loop.simps by (intro keeps_intros Cons.IH)
  qed (auto intro: keeps_intros)
  show "keeps sv_env (session_remove_locks E sid fh inum)"
    unfolding session_remove_locks_def by (intro keeps_intros l)
qed

context cld_env
begin

lemma keeps_com_send: "keeps (\<lambda>s. com (sv_db s)) (sess_sendmsg E sess msg op cb)"
  "keeps (\<lambda>s. cur (sv_db s)) (sess_sendmsg E sess msg op cb)"
  using keeps_sendmsg(1) by (fastforce simp: keeps_def)+

lemma keeps_com_notify: "keeps (\<lambda>s. com (sv_db s)) (inode_notify E inum deleted)"
  "keeps (\<lambda>s. cur (sv_db s)) (inode_notify E inum deleted)"
  unfolding inode_notify_def
  by (intro keeps_intros keeps_com_db keeps_cur_db keeps_modify; simp add: notify_loop_frame)+

lemma keeps_com_touch: "keeps (\<lambda>s. com (sv_db s)) (inode_touch E ino)"
  unfolding inode_touch_def by (intro keeps_intros keeps_com_cldb keeps_com_notify)

lemma inode_touch_ok:
  assumes "inode_touch E ino s = (Inr u, s')"
  shows "let t = touched (sv_now s) ino; t = t\<lparr>ri_name := take (unat (ri_ino_len t)) (ri_name t)\<rparr> in
    name_free t (cur (sv_db s)) \<and>
    cur (sv_db s') = (cur (sv_db s))\<lparr>v_inodes := (v_inodes (cur (sv_db s)))(ri_inum t \<mapsto> t)\<rparr>"
proof -
  let ?t = "touched (sv_now s) ino"
  obtain s1 where p: "cldb_inode_put E ?t s = (Inr (), s1)" and n: "inode_notify E (ri_inum ino) False s1 = (Inr (), s')"
    using assms by (auto simp: inode_touch_def gets_def elim!: ebind_OkE)
  have "cur (sv_db s') = cur (sv_db s1)" using keepsD [OF keeps_com_notify(2) n] .
  with rc_ok [OF inode_put p [unfolded cldb_inode_put_def]] show ?thesis
    by (auto simp: Let_def raw_ino_size_def)
qed

lemma keeps_com_rescan: "keeps (\<lambda>s. com (sv_db s)) (inode_lock_rescan E inum)"
proof -
  have r: "keeps (\<lambda>s. com (sv_db s)) (rescan_loop E inum acq recs e)" for acq recs e
  proof (induction recs arbitrary: acq)
    case (Cons l recs)
    show ?case unfolding rescan_loop.simps by (intro keeps_intros keeps_com_db keeps_com_send Cons.IH)
  qed (auto intro: keeps_intros)
  show ?thesis
    unfolding inode_lock_rescan_def by (intro keeps_intros keeps_com_db keeps_closing r)
qed

text \<open>A rescan that succeeds leaves the lock table as it found it.\<close>

lemma rescan_loop_cur:
  "rescan_loop E inum acq recs e s = (Inr u, s') \<Longrightarrow> cur (sv_db s') = cur (sv_db s)"
proof (induction recs arbitrary: acq s)
  case Nil
  then show ?case by (auto split: if_splits)
next
  case (Cons l recs)
  show ?case
  proof (cases "\<not> has_flag (rl_flags l) CLFL_PENDING \<or> acq \<noteq> 0 \<and> \<not> has_flag (rl_flags l) CLFL_SHARED")
    case True
    then show ?thesis using Cons.prems by (auto simp: ret_def split: if_splits)
  next
    case False
    then obtain s1 where put: "db_rc (db_lock_cput (e_db E) inum l l) s = (Inr (), s1)"
      using Cons.prems by (auto elim!: ebind_OkE)
    have s1: "cur (sv_db s1) = cur (sv_db s)"
    proof -
      have "cur (sv_db s1) = (cur (sv_db s))\<lparr>v_locks := (v_locks (cur (sv_db s)))(inum := v_locks (cur (sv_db s)) inum)\<rparr>"
        using rc_ok [OF lock_cput put] by (simp cong: if_cong)
      then show ?thesis by simp
    qed
    show ?thesis
    proof (cases "htab_get (sv_sessions s1) (rl_sid l)")
      case None
      then show ?thesis using Cons.prems False put s1 by (auto simp: ebind_def gets_def ret_def)
    next
      case (Some p)
      obtain ok s2 where m: "sess_sendmsg E p (Event (rl_fh l) CE_LOCKED) CMO_EVENT None s1 = (ok, s2)" by fastforce
      have s2: "cur (sv_db s2) = cur (sv_db s1)" using sess_sendmsg_frame [OF m] by simp
      show ?thesis
      proof (cases "ss_sock_fd (sess_at s1 p) = 0")
        case True
        then have "rescan_loop E inum (Suc acq) recs e s1 = (Inr u, s')"
          using Cons.prems False put Some by (auto simp: ebind_def gets_def)
        from Cons.IH [OF this] s1 show ?thesis by simp
      next
        case fd: False
        then have "ok \<Longrightarrow> rescan_loop E inum (Suc acq) recs e s2 = (Inr u, s')" "\<not> ok \<Longrightarrow> s' = s2"
          using Cons.prems False put Some m by (auto simp: ebind_def gets_def call_def ret_def)
        with Cons.IH [of "Suc acq" s2] s1 s2 show ?thesis by (cases ok) auto
      qed
    qed
  qed
qed

lemma rescan_cur: "inode_lock_rescan E inum s = (Inr u, s') \<Longrightarrow> cur (sv_db s') = cur (sv_db s)"
proof -
  assume r: "inode_lock_rescan E inum s = (Inr u, s')"
  obtain s1 where c: "db_rc (db_cursor (e_db E)) s = (Inr (), s1)"
    using r by (auto simp: inode_lock_rescan_def elim: ebind_OkE)
  obtain recs e d where scan: "db_lock_scan (e_db E) inum (sv_db s1) = ((recs, e), d)" by (metis surj_pair)
  obtain q s3 where l: "rescan_loop E inum 0 recs e (s1\<lparr>sv_db := d\<rparr>) = (q, s3)" by fastforce
  have "q = Inr u" "cur (sv_db s') = cur (sv_db s3)"
    using r c scan l cursor_close
    by (auto simp: inode_lock_rescan_def ebind_def closing_def db_call_def reads_def split: prod.splits)
  moreover have "cur d = cur (sv_db s1)" using lock_scan scan by (auto simp: reads_def)
  ultimately show ?thesis
    using rescan_loop_cur l keepsD [OF keeps_com_cursor(2) c] by fastforce
qed

text \<open>
  The locks granted by a rescan: a prefix of the list, all of them pending, all but the first
  shared; the owners with an open connection are told.
\<close>

lemma rescan_loop_log:
  assumes "rescan_loop E inum acq recs e s = (Inr u, s')"
    and "owner = (\<lambda>l. the (htab_get (sv_sessions s) (rl_sid l)))"
  shows "\<exists>gs rest. recs = gs @ rest \<and> list_all (\<lambda>l. has_flag (rl_flags l) CLFL_PENDING) gs \<and>
    list_all (\<lambda>l. has_flag (rl_flags l) CLFL_SHARED) (if acq = 0 then tl gs else gs) \<and>
    list_all (\<lambda>l. htab_get (sv_sessions s) (rl_sid l) \<noteq> None) gs \<and>
    sv_log s' = sv_log s @ map (\<lambda>l. (owner l, CMO_EVENT, Event (rl_fh l) CE_LOCKED))
      (filter (\<lambda>l. ss_sock_fd (sess_at s (owner l)) \<noteq> 0) gs)"
  using assms
proof (induction recs arbitrary: acq s)
  case Nil
  then show ?case by (intro exI [of _ "[]"]) (auto split: if_splits)
next
  case (Cons l recs)
  have stop: ?case if "sv_log s' = sv_log s"
    using that by (intro exI [of _ "[]"] exI [of _ "l # recs"]) auto
  show ?case
  proof (cases "\<not> has_flag (rl_flags l) CLFL_PENDING \<or> acq \<noteq> 0 \<and> \<not> has_flag (rl_flags l) CLFL_SHARED")
    case True
    then have "s' = s" using Cons.prems(1) by (auto simp: ret_def split: if_splits)
    then show ?thesis using stop by simp
  next
    case False
    then obtain s1 where put: "db_rc (db_lock_cput (e_db E) inum l l) s = (Inr (), s1)"
      using Cons.prems(1) by (auto elim!: ebind_OkE)
    have s1: "sv_sessions s1 = sv_sessions s" "sv_log s1 = sv_log s" "sess_at s1 q = sess_at s q" for q
      using sv_restD [OF keepsD [OF keeps_rest_db(1) put]] by auto
    show ?thesis
    proof (cases "htab_get (sv_sessions s) (rl_sid l)")
      case None
      then have "s' = s1" using Cons.prems(1) False put s1 by (auto simp: ebind_def gets_def ret_def)
      then show ?thesis using stop s1 by simp
    next
      case (Some p)
      have own: "owner l = p" using Some Cons.prems(2) by simp
      have step: ?thesis
        if r: "rescan_loop E inum (Suc acq) recs e t = (Inr u, s')"
          and t: "sv_sessions t = sv_sessions s" "\<And>q. ss_sock_fd (sess_at t q) = ss_sock_fd (sess_at s q)"
            "sv_log t = sv_log s @ (if ss_sock_fd (sess_at s p) = 0 then [] else [(p, CMO_EVENT, Event (rl_fh l) CE_LOCKED)])"
        for t
      proof -
        from Cons.IH [OF r] t Cons.prems(2) obtain gs rest where g: "recs = gs @ rest"
          "list_all (\<lambda>l. has_flag (rl_flags l) CLFL_PENDING) gs" "list_all (\<lambda>l. has_flag (rl_flags l) CLFL_SHARED) gs"
          "list_all (\<lambda>l. htab_get (sv_sessions s) (rl_sid l) \<noteq> None) gs"
          "sv_log s' = sv_log t @ map (\<lambda>l. (owner l, CMO_EVENT, Event (rl_fh l) CE_LOCKED))
            (filter (\<lambda>l. ss_sock_fd (sess_at s (owner l)) \<noteq> 0) gs)" by auto
        then show ?thesis using False Some own t by (intro exI [of _ "l # gs"] exI [of _ rest]) auto
      qed
      obtain ok s2 where m: "sess_sendmsg E p (Event (rl_fh l) CE_LOCKED) CMO_EVENT None s1 = (ok, s2)" by fastforce
      have s2: "sv_sessions s2 = sv_sessions s" "sv_log s2 = sv_log s @ [(p, CMO_EVENT, Event (rl_fh l) CE_LOCKED)]"
        "ss_sock_fd (sess_at s2 q) = ss_sock_fd (sess_at s q)" for q
        using sess_sendmsg_frame [OF m] s1 heap_pub_sel(5) [of s2 s1 q] by auto
      show ?thesis
      proof (cases "ss_sock_fd (sess_at s p) = 0")
        case True
        then have "rescan_loop E inum (Suc acq) recs e s1 = (Inr u, s')"
          using Cons.prems(1) False put Some s1 by (auto simp: ebind_def gets_def)
        then show ?thesis by (rule step) (use True s1 in auto)
      next
        case fd: False
        then have r: "ok \<Longrightarrow> rescan_loop E inum (Suc acq) recs e s2 = (Inr u, s')" "\<not> ok \<Longrightarrow> s' = s2"
          using Cons.prems(1) False put Some m s1 by (auto simp: ebind_def gets_def call_def ret_def)
        show ?thesis
        proof (cases ok)
          case True
          show ?thesis by (rule step [OF r(1) [OF True]]) (use fd s2 in auto)
        next
          case nok: False
          then show ?thesis
            using r s2 False Some own fd by (intro exI [of _ "[l]"] exI [of _ recs]) auto
        qed
      qed
    qed
  qed
qed

lemma remove_locks_loop_ok:
  assumes "remove_locks_loop E sid fh inum w recs e s = (Inr (DB_NOTFOUND, w'), s')"
    and "v_locks (cur (sv_db s)) inum = pre @ recs @ rest" and "\<forall>x \<in> set pre. \<not> lmatch x sid fh"
  shows "e = DB_NOTFOUND \<and> w' = (w \<or> list_ex (\<lambda>l. \<not> lock_acquired l) (unmatched sid fh recs)) \<and>
    cur (sv_db s') = (cur (sv_db s))\<lparr>v_locks := (v_locks (cur (sv_db s)))(inum := pre @ unmatched sid fh recs @ rest)\<rparr>"
  using assms
proof (induction recs arbitrary: w s pre)
  case Nil
  then have "(v_locks (cur (sv_db s)))(inum := pre @ rest) = v_locks (cur (sv_db s))" by auto
  then show ?case using Nil by (auto simp: unmatched_def)
next
  case (Cons l recs)
  show ?case
  proof (cases "lmatch l sid fh")
    case False
    then have "remove_locks_loop E sid fh inum (w \<or> has_flag (rl_flags l) CLFL_PENDING) recs e s = (Inr (DB_NOTFOUND, w'), s')"
      using Cons.prems(1) by simp
    from Cons.IH [OF this, of "pre @ [l]"] Cons.prems(2,3) False show ?thesis
      by (auto simp: unmatched_def lock_acquired_def)
  next
    case True
    obtain r s1 where d: "db_rc (db_lock_cdel (e_db E) inum l) s = (r, s1)" by fastforce
    have "r \<noteq> Inl DB_NOTFOUND"
      using d cdel_found(1) [of inum l "sv_db s"] by (auto simp: db_rc_def split: prod.splits option.splits)
    then have r: "r = Inr ()" and l: "remove_locks_loop E sid fh inum w recs e s1 = (Inr (DB_NOTFOUND, w'), s')"
      using Cons.prems(1) True d by (auto simp: ebind_def attempt_def ret_def split: sum.splits)
    have "l \<notin> set pre" using Cons.prems(3) True by auto
    then have c: "cur (sv_db s1) = (cur (sv_db s))\<lparr>v_locks := (v_locks (cur (sv_db s)))(inum := pre @ recs @ rest)\<rparr>"
      using rc_ok [OF lock_cdel d [unfolded r]] Cons.prems(2) by (simp add: remove1_append)
    show ?thesis using Cons.IH [OF l, of pre] Cons.prems(3) c True by (simp add: unmatched_def cong: if_cong)
  qed
qed

lemma remove_locks_ok:
  assumes "session_remove_locks E sid fh inum s = (Inr w, s')"
  shows "w = list_ex (\<lambda>l. \<not> lock_acquired l) (unmatched sid fh (v_locks (cur (sv_db s)) inum)) \<and>
    cur (sv_db s') = (cur (sv_db s))\<lparr>v_locks := (v_locks (cur (sv_db s)))(inum :=
      unmatched sid fh (v_locks (cur (sv_db s)) inum))\<rparr>"
proof -
  obtain s1 where c: "db_rc (db_cursor (e_db E)) s = (Inr (), s1)"
    using assms by (auto simp: session_remove_locks_def elim: ebind_OkE)
  obtain recs e d where scan: "db_lock_scan (e_db E) inum (sv_db s1) = ((recs, e), d)" by (metis surj_pair)
  let ?s2 = "s1\<lparr>sv_db := d\<rparr>"
  have sc: "db_call (db_lock_scan (e_db E) inum) s1 = (Inr (recs, e) :: dberr + _, ?s2)"
    using scan by (simp add: db_call_def)
  have cur2: "cur (sv_db ?s2) = cur (sv_db s)"
    using keepsD [OF keeps_com_cursor(2) c] keepsD [OF keeps_cur_call [OF lock_scan] sc] by simp
  obtain rest where locks: "v_locks (cur (sv_db s)) inum = recs @ rest" "e = DB_NOTFOUND \<longrightarrow> rest = []"
    using call_ok [OF lock_scan sc] keepsD [OF keeps_com_cursor(2) c] by auto
  obtain q s3 where l0: "remove_locks_loop E sid fh inum False recs e ?s2 = (Inr q, s3)"
    using assms c sc by (auto simp: session_remove_locks_def ebind_def split: prod.splits sum.splits)
  obtain rc1 w1 where q: "q = (rc1, w1)" by fastforce
  note steps = ebind_step [of "db_rc (db_cursor (e_db E))", OF c] ebind_step [of "db_call (db_lock_scan (e_db E) inum)", OF sc]
    ebind_step [of "remove_locks_loop E sid fh inum False recs e", OF l0]
  have rc1: "rc1 = DB_NOTFOUND"
    using assms by (auto simp: session_remove_locks_def steps q elim: ebind_OkE split: if_splits)
  obtain r4 s4 where cc: "db_rc (db_cursor_close (e_db E)) s3 = (r4, s4)" by fastforce
  have "cur (sv_db s4) = cur (sv_db s3)"
    using cc cursor_close by (auto simp: db_rc_def reads_def split: prod.splits option.splits)
  moreover have "(case r4 of Inl rc \<Rightarrow> throw rc | Inr _ \<Rightarrow> ret w1) s4 = (Inr w, s')"
    using assms unfolding session_remove_locks_def steps q rc1 prod.case
    by (simp add: ebind_step [of "attempt (db_rc (db_cursor_close (e_db E)))", OF attempt_eq [of "db_rc (db_cursor_close (e_db E))", OF cc]])
  then have "w1 = w \<and> s' = s4" by (cases r4) auto
  ultimately have l: "remove_locks_loop E sid fh inum False recs e ?s2 = (Inr (DB_NOTFOUND, w), s3)"
    and cl: "cur (sv_db s') = cur (sv_db s3)" using l0 q rc1 by auto
  have "v_locks (cur (sv_db ?s2)) inum = [] @ recs @ rest" using locks(1) cur2 by (simp only: append_Nil)
  note ok = remove_locks_loop_ok [OF l this, unfolded cur2]
  then have "v_locks (cur (sv_db s)) inum = recs" using locks by simp
  with ok locks(2) show ?thesis unfolding cl by simp
qed

lemma keeps_com_remove_locks: "keeps (\<lambda>s. com (sv_db s)) (session_remove_locks E sid fh inum)"
proof -
  have l: "keeps (\<lambda>s. com (sv_db s)) (remove_locks_loop E sid fh inum w recs e)" for w recs e
  proof (induction recs arbitrary: w)
    case (Cons l recs)
    show ?case unfolding remove_locks_loop.simps by (intro keeps_intros keeps_com_db Cons.IH)
  qed (auto intro: keeps_intros)
  have c: "keeps (\<lambda>s. com (sv_db s)) (db_rc (db_cursor_close (e_db E)))"
    using cursor_close by (auto simp: keeps_def db_rc_def reads_def split: prod.splits option.splits)
  show ?thesis
    unfolding session_remove_locks_def by (intro keeps_intros keeps_com_db c l)
qed

end

context cld_reliable
begin

lemma total_rescan: "succeeds (inode_lock_rescan E inum)"
proof -
  have loop: "succeeds (rescan_loop E inum acq recs DB_NOTFOUND)" for acq recs
  proof (induction recs arbitrary: acq)
    case (Cons l recs)
    have put: "succeeds (db_rc (db_lock_cput (e_db E) inum l l))"
      using sure_lock_cput [of inum l l] by (intro total_sure) (simp add: lock_compare_def to_int32_def)
    show ?case
      unfolding rescan_loop.simps
      using Cons.IH by (auto intro!: total_bind total_basic put split: option.splits)
  qed (simp add: total_basic)
  show ?thesis
    unfolding succeeds_def
  proof
    fix s :: "'d srv"
    obtain u s1 where c: "db_rc (db_cursor (e_db E)) s = (Inr u, s1)" using total_cursor(1) by (rule succeedsE)
    obtain recs e s2 where sc: "db_call (db_lock_scan (e_db E) inum) s1 = (Inr (recs, e) :: dberr + _, s2)"
      by (rule db_call_pairE)
    obtain v s3 where "rescan_loop E inum 0 recs e s2 = (Inr v, s3)"
      using loop unfolding scan_complete [OF sure_lock_scan sc] by (rule succeedsE)
    with c sc show "\<exists>x s'. inode_lock_rescan E inum s = (Inr x, s')"
      by (simp add: inode_lock_rescan_def ebind_def closing_def)
  qed
qed

lemma total_remove_locks: "succeeds (session_remove_locks E sid fh inum)"
proof -
  have loop: "\<exists>w' s'. remove_locks_loop E sid fh inum w recs DB_NOTFOUND s = (Inr (DB_NOTFOUND, w'), s')" for w recs s
  proof (induction recs arbitrary: w s)
    case (Cons l recs)
    obtain u s1 where "db_rc (db_lock_cdel (e_db E) inum l) s = (Inr u, s1)"
      using total_sure [OF sure_lock_cdel] by (rule succeedsE)
    with Cons.IH show ?case by (auto simp: ebind_def attempt_def)
  qed (simp add: ret_def)
  show ?thesis
    unfolding succeeds_def
  proof
    fix s :: "'d srv"
    obtain u s1 where c: "db_rc (db_cursor (e_db E)) s = (Inr u, s1)" using total_cursor(1) by (rule succeedsE)
    obtain recs e s2 where sc: "db_call (db_lock_scan (e_db E) inum) s1 = (Inr (recs, e) :: dberr + _, s2)"
      by (rule db_call_pairE)
    obtain w s3 where l: "remove_locks_loop E sid fh inum False recs e s2 = (Inr (DB_NOTFOUND, w), s3)"
      using loop scan_complete [OF sure_lock_scan sc] by blast
    obtain v s4 where "db_rc (db_cursor_close (e_db E)) s3 = (Inr v, s4)" using total_cursor(2) by (rule succeedsE)
    with c sc l show "\<exists>x s'. session_remove_locks E sid fh inum s = (Inr x, s')"
      by (simp add: session_remove_locks_def ebind_def attempt_def ret_def)
  qed
qed

end

section \<open>Properties\<close>

text \<open>
  What a successful scan for grantable locks does. The owners of a prefix of the inode's lock
  list are told that they hold the lock: every record of the prefix is pending, all but the first
  ask for shared access. But the lock table keeps every one of these records as it was, marked
  pending: the grant is announced and never recorded.
\<close>

theorem rescan_grants_not_recorded:
  assumes "cld_env E com cur" and "inode_lock_rescan E inum s = (Inr u, s')"
    and "owner = (\<lambda>l. the (htab_get (sv_sessions s) (rl_sid l)))"
  shows "cur (sv_db s') = cur (sv_db s) \<and>
    (\<exists>gs rest. v_locks (cur (sv_db s)) inum = gs @ rest \<and> list_all (\<lambda>l. \<not> lock_acquired l) gs \<and>
      list_all lock_shared (tl gs) \<and> list_all (\<lambda>l. htab_get (sv_sessions s) (rl_sid l) \<noteq> None) gs \<and>
      sv_log s' = sv_log s @ map (\<lambda>l. (owner l, CMO_EVENT, Event (rl_fh l) CE_LOCKED))
        (filter (\<lambda>l. ss_sock_fd (sess_at s (owner l)) \<noteq> 0) gs))"
proof -
  from assms(2) obtain s1 recs e s2 where c: "db_rc (db_cursor (e_db E)) s = (Inr (), s1)"
    and sc: "db_call (db_lock_scan (e_db E) inum) s1 = (Inr (recs, e) :: dberr + _, s2)"
    and l: "\<exists>s3. rescan_loop E inum 0 recs e s2 = (Inr u, s3) \<and> sv_log s' = sv_log s3"
    by (fastforce simp: inode_lock_rescan_def closing_def db_call_def ebind_def split: prod.splits sum.splits)
  have fr: "sv_sessions s2 = sv_sessions s" "sv_log s2 = sv_log s" "sess_at s2 q = sess_at s q" for q
    using sv_restD [OF keepsD [OF keeps_rest_db(1) c]] sv_restD [OF keepsD [OF keeps_rest_db(3) sc]] by auto
  obtain rest where locks: "v_locks (cur (sv_db s)) inum = recs @ rest"
    using cld_env.call_ok [OF assms(1) bdb.lock_scan [OF cld_env.axioms [OF assms(1)]] sc]
      keepsD [OF cld_env.keeps_com_cursor(2) [OF assms(1)] c] by auto
  from l obtain s3 where l3: "rescan_loop E inum 0 recs e s2 = (Inr u, s3)" "sv_log s' = sv_log s3" by blast
  obtain gs rest' where g: "recs = gs @ rest'" "list_all (\<lambda>l. has_flag (rl_flags l) CLFL_PENDING) gs"
    "list_all (\<lambda>l. has_flag (rl_flags l) CLFL_SHARED) (tl gs)"
    "list_all (\<lambda>l. htab_get (sv_sessions s) (rl_sid l) \<noteq> None) gs"
    "sv_log s3 = sv_log s @ map (\<lambda>l. (owner l, CMO_EVENT, Event (rl_fh l) CE_LOCKED))
      (filter (\<lambda>l. ss_sock_fd (sess_at s (owner l)) \<noteq> 0) gs)"
    using cld_env.rescan_loop_log [OF assms(1) l3(1) refl] fr assms(3) by auto
  have "lock_shared = (\<lambda>l. has_flag (rl_flags l) CLFL_SHARED)" "(\<lambda>l. \<not> lock_acquired l) = (\<lambda>l. has_flag (rl_flags l) CLFL_PENDING)"
    by (auto simp: lock_shared_def lock_acquired_def)
  with g locks l3(2) cld_env.rescan_cur [OF assms(1,2)] show ?thesis
    by (intro conjI exI [of _ gs] exI [of _ "rest' @ rest"]) auto
qed

definition waiting_lock :: raw_lock where
  "waiting_lock = \<lparr>rl_inum = 60, rl_sid = ss_sid sample_sess, rl_fh = 3, rl_ctime = 900, rl_flags = CLFL_PENDING\<rparr>"

definition held_lock :: raw_lock where
  "held_lock = \<lparr>rl_inum = 60, rl_sid = replicate 8 9, rl_fh = 2, rl_ctime = 950, rl_flags = CLFL_SHARED\<rparr>"

text \<open>Here an exclusive waiter is told it holds the lock while another session holds it shared.\<close>

theorem rescan_grants_not_recorded_witness:
  "\<exists>s'. inode_lock_rescan (ref_env False) 60 (tab_srv (no_tabs\<lparr>t_locks := [(60, [waiting_lock, held_lock])]\<rparr>)) = (Inr (), s') \<and>
     sv_log s' = [(0, CMO_EVENT, Event 3 CE_LOCKED)] \<and> v_locks (mcur (sv_db s')) 60 = [waiting_lock, held_lock]"
proof -
  let ?t = "no_tabs\<lparr>t_locks := [(60, [waiting_lock, held_lock])]\<rparr>"
  let ?s = "tab_srv ?t"
  let ?p = "?s\<lparr>sv_db := \<lparr>m_com = ?t, m_cur = ?t\<lparr>t_locks := [(60, [waiting_lock, held_lock])]\<rparr>, m_faults = []\<rparr>\<rparr>"
  have tab: "htab_get (sv_sessions ?s) (rl_sid waiting_lock) = Some 0" by (simp add: waiting_lock_def)
  have flags: "has_flag (rl_flags waiting_lock) CLFL_PENDING" "\<not> has_flag (rl_flags held_lock) CLFL_PENDING"
    "lock_compare waiting_lock waiting_lock = 0" "held_lock \<noteq> waiting_lock" by code_simp+
  have db: "sv_db ?s = \<lparr>m_com = ?t, m_cur = ?t, m_faults = []\<rparr>" by (simp add: tab_srv_def)
  have fd: "ss_sock_fd (sess_at (?s\<lparr>sv_db := d\<rparr>) 0) = 4" for d by (simp add: tab_srv_def sess_at_def)
  obtain ok s1 where m: "sess_sendmsg (ref_env False) 0 (Event (rl_fh waiting_lock) CE_LOCKED) CMO_EVENT None ?p = (ok, s1)"
    by fastforce
  have put: "db_rc (db_lock_cput (mdb_ops False) 60 waiting_lock waiting_lock) ?s = (Inr (), ?p)"
    using flags db by (simp add: db_rc_def mdb_ops_def mwrite_def faulty_def alocks_def aput_def)
  have loop: "rescan_loop (ref_env False) 60 0 [waiting_lock, held_lock] DB_NOTFOUND ?s = (Inr (), s1)"
    using flags put tab fd m by (cases ok) (simp_all add: ebind_def gets_def call_def ret_def)
  have same: "?s\<lparr>sv_db := \<lparr>m_com = ?t, m_cur = ?t, m_faults = []\<rparr>\<rparr> = ?s"
    by (simp add: tab_srv_def sample_srv_def)
  have s1: "sv_db s1 = \<lparr>m_com = ?t, m_cur = ?t, m_faults = []\<rparr>" "s1\<lparr>sv_db := sv_db s1\<rparr> = s1"
    using sess_sendmsg_frame [OF m] by simp_all
  have run: "inode_lock_rescan (ref_env False) 60 ?s = (Inr (), s1)"
    using loop db s1
    by (simp add: inode_lock_rescan_def ebind_def db_rc_def db_call_def closing_def mdb_ops_def mread_def faulty_def alocks_def same
        del: rescan_loop.simps)
  have "sv_log s1 = [(0, CMO_EVENT, Event 3 CE_LOCKED)]"
    using sess_sendmsg_frame [OF m] by (simp add: tab_srv_def waiting_lock_def)
  moreover have "v_locks (mcur (sv_db s1)) 60 = [waiting_lock, held_lock]"
  proof -
    have "mcur (sv_db s1) = mcur (sv_db ?s)"
      using rescan_grants_not_recorded [OF rs.cld_env_axioms run refl] by (rule conjunct1)
    then show ?thesis by (simp add: db view_of_def alocks_def del: dbview.ext_inject)
  qed
  ultimately show ?thesis using run by blast
qed

end
