(* ===== verification/Cld_Session.thy ===== *)
theory Cld_Session
  imports Cld_Inode
begin

text \<open>
  The life of a session (\<^verbatim>\<open>cld/session.c\<close>): creation by a client or from the database at start-up, its
  database record, disposal with its handles and locks, the timer that pings it and lets it
  expire.
\<close>

section \<open>Clients and packets\<close>

text \<open>The parts of \<^verbatim>\<open>struct client\<close> and \<^verbatim>\<open>struct pkt_info\<close> (\<^verbatim>\<open>cld/cld.h\<close>) the session code reads.\<close>

record client =
  cl_fd :: int
  cl_addr :: bytes
  cl_addr_len :: u32
  cl_addr_host :: bytes

record pkt_info =
  pi_pkt :: cld_pkt_hdr
  pi_sess :: "nat option"
  pi_seqid :: u64
  pi_xid :: u64
  pi_op :: u32
  pi_hdr_len :: nat

definition CLD_IPADDR_SZ :: nat where [cfg_simps]: "CLD_IPADDR_SZ = 64"

section \<open>Allocation\<close>

definition session_new :: "'d env \<Rightarrow> 'd srv \<Rightarrow> nat option \<times> 'd srv" where
  "session_new E s =
     (case srv_alloc s of
        (ok, s) \<Rightarrow>
          if \<not> ok then (None, s)
          else
            case srv_rand64 E s of
              (seqid, s) \<Rightarrow>
                (Some (sv_next s),
                 s\<lparr>sv_heap := (sv_heap s)(sv_next s \<mapsto> session_zero\<lparr>ss_next_fh := 2, ss_next_seqid_out := seqid\<rparr>),
                   sv_next := Suc (sv_next s)\<rparr>))"

definition session_free :: "nat option \<Rightarrow> bool \<Rightarrow> 'd srv \<Rightarrow> 'd srv" where
  "session_free sess hash_remove s =
     (case sess of
        None \<Rightarrow> s
      | Some p \<Rightarrow>
          let s = (if hash_remove
                   then case htab_del (sv_sessions s) (ss_sid (sess_at s p)) of (hit, h, fr) \<Rightarrow> s\<lparr>sv_sessions := h\<rparr>
                   else s)
          in s\<lparr>sv_heap := (sv_heap s)(p := None)\<rparr>)"

definition session_free_iter :: "sid \<Rightarrow> nat \<Rightarrow> 'd srv \<Rightarrow> 'd srv" where
  "session_free_iter key val s = session_free (Some val) False s"

definition sessions_free :: "'d srv \<Rightarrow> 'd srv" where
  "sessions_free s = htab_foreach (sv_sessions s) session_free_iter s"

section \<open>The database record\<close>

definition session_encode :: "session \<Rightarrow> raw_session" where
  "session_encode sess =
     (let n = unat (ss_addr_len sess) in
      \<lparr>rs_sid = take CLD_SID_SZ (ss_sid sess),
       rs_addr_len = ucast (ss_addr_len sess),
       rs_addr = take n (ss_addr sess) @ replicate (64 - n) 0,
       rs_user = ss_user sess,
       rs_last_contact = ss_last_contact sess,
       rs_next_fh = ss_next_fh sess,
       rs_next_seqid_in = ss_next_seqid_in sess,
       rs_next_seqid_out = ss_next_seqid_out sess\<rparr>)"

definition session_decode :: "'d env \<Rightarrow> session \<Rightarrow> raw_session \<Rightarrow> session" where
  "session_decode E sess raw =
     (let n = unat (rs_addr_len raw);
          addr = take n (rs_addr raw) @ drop n (ss_addr sess)
      in sess\<lparr>ss_sid := rs_sid raw,
           ss_addr_len := ucast (rs_addr_len raw),
           ss_addr := addr,
           ss_ipaddr := take (CLD_IPADDR_SZ - 1) (e_nameinfo E (take n addr)),
           ss_last_contact := rs_last_contact raw,
           ss_next_fh := rs_next_fh raw,
           ss_next_seqid_out := rs_next_seqid_out raw,
           ss_next_seqid_in := rs_next_seqid_in raw,
           ss_user := rs_user raw\<rparr>)"

definition session_new_raw :: "nat \<Rightarrow> 'd srv \<Rightarrow> raw_session option \<times> 'd srv" where
  "session_new_raw sess s =
     (case srv_alloc s of (ok, s) \<Rightarrow> if \<not> ok then (None, s) else (Some (session_encode (sess_at s sess)), s))"

section \<open>Removal\<close>

text \<open>Append to a growing array; \<open>None\<close>: \<^verbatim>\<open>realloc\<close> failed.\<close>

definition array_push :: "cldino \<Rightarrow> cldino list \<times> nat \<Rightarrow> ('d srv, 'e, (cldino list \<times> nat) option) esm" where
  "array_push inum a =
     (case a of (xs, n_alloc) \<Rightarrow>
        let xs = xs @ [inum] in
        if length xs = n_alloc
        then ebind (call srv_alloc) (\<lambda>ok. ret (if \<not> ok then None else Some (xs, n_alloc * 2)))
        else ret (Some (xs, n_alloc)))"

text \<open>
  The loop over the session's handles: \<open>None\<close> is the jump to \<^verbatim>\<open>err_out\<close> after a failed \<^verbatim>\<open>realloc\<close>
  (where the return code is still 0), otherwise the code of the last call and the collected inodes.
\<close>

fun remove_handles_loop ::
    "'d env \<Rightarrow> sid \<Rightarrow> cldino list \<times> nat \<Rightarrow> raw_handle list \<Rightarrow> dberr \<Rightarrow> ('d srv, dberr, (rc \<times> cldino list) option) esm" where
  "remove_handles_loop E sid locks [] e = ret (Some (Some e, fst locks))"
| "remove_handles_loop E sid locks (h # hs) e =
     (if memcmp (rh_sid h) sid \<noteq> 0 then ret (Some (None, fst locks))
      else
        ebind (if has_flag (rh_mode h) COM_LOCK then array_push (rh_inum h) locks else ret (Some locks)) (\<lambda>g.
        case g of
          None \<Rightarrow> ret None
        | Some locks \<Rightarrow>
            ebind (attempt (db_rc (db_handle_cdel (e_db E) h))) (\<lambda>r.
            case r of
              Inl rc \<Rightarrow> ret (Some (Some rc, fst locks))
            | Inr _ \<Rightarrow> remove_handles_loop E sid locks hs e)))"

fun remove_locks_of ::
    "'d env \<Rightarrow> sid \<Rightarrow> cldino list \<times> nat \<Rightarrow> cldino list \<Rightarrow> ('d srv, dberr, cldino list option) esm" where
  "remove_locks_of E sid waiters [] = ret (Some (fst waiters))"
| "remove_locks_of E sid waiters (inum # locks) =
     ebind (session_remove_locks E sid 0 inum) (\<lambda>waiter.
     ebind (if waiter then array_push inum waiters else ret (Some waiters)) (\<lambda>g.
     case g of
       None \<Rightarrow> ret None
     | Some waiters \<Rightarrow> remove_locks_of E sid waiters locks))"

fun rescan_waiters :: "'d env \<Rightarrow> cldino list \<Rightarrow> ('d srv, dberr, unit) esm" where
  "rescan_waiters E [] = ret ()"
| "rescan_waiters E (inum # waiters) = ebind (inode_lock_rescan E inum) (\<lambda>_. rescan_waiters E waiters)"

definition close_handles :: "'d env \<Rightarrow> rc \<Rightarrow> ('d srv, dberr, unit) esm" where
  "close_handles E rc =
     (if rc = None \<or> rc = Some DB_NOTFOUND then db_rc (db_cursor_close (e_db E))
      else ebind (db_call (db_cursor_close (e_db E))) (\<lambda>_. throw (the rc)))"

definition session_remove :: "'d env \<Rightarrow> nat \<Rightarrow> ('d srv, dberr, unit) esm" where
  "session_remove E sess =
     ebind (gets (\<lambda>s. ss_sid (sess_at s sess))) (\<lambda>sid.
     ebind (call srv_alloc) (\<lambda>ok.
     if \<not> ok then throw (DB_ERR (- ENOMEM))
     else
     ebind (call srv_alloc) (\<lambda>ok.
     if \<not> ok then throw (DB_ERR (- ENOMEM))
     else
     ebind (db_rc (db_cursor (e_db E))) (\<lambda>_.
     ebind (db_call (db_handle_range (e_db E) sid)) (\<lambda>(hs, e).
     ebind (remove_handles_loop E sid ([], 128) hs e) (\<lambda>r.
     case r of
       None \<Rightarrow> ret ()
     | Some (rc, locks) \<Rightarrow>
         ebind (close_handles E rc) (\<lambda>_.
         ebind (remove_locks_of E sid ([], 64) locks) (\<lambda>r.
         case r of
           None \<Rightarrow> ret ()
         | Some waiters \<Rightarrow>
             ebind (rescan_waiters E waiters) (\<lambda>_.
             cldb_session_del E sid)))))))))"

definition session_dispose :: "'d env \<Rightarrow> nat option \<Rightarrow> ('d srv, dberr, unit) esm" where
  "session_dispose E sess s =
     (case sess of
        None \<Rightarrow> (Inl (DB_ERR (- EINVAL)), s)
      | Some p \<Rightarrow> (case session_remove E p s of (rc, s) \<Rightarrow> (rc, session_free (Some p) True s)))"

section \<open>The session timer\<close>

text \<open>
  The condition of the ping is translated as it is parenthesised: the expiry time is compared with
  the truth value of \<^verbatim>\<open>last_contact + 30 && sock_fd > 0\<close>.
\<close>

definition ping_due :: "session \<Rightarrow> bool" where
  "ping_due sess \<longleftrightarrow>
     \<not> ss_ping_open sess \<and>
     ss_last_contact sess + CLD_SESS_TIMEOUT >
       (if ss_last_contact sess + CLD_SESS_TIMEOUT div 2 \<noteq> 0 \<and> ss_sock_fd sess > 0 then 1 else 0)"

definition session_timeout :: "'d env \<Rightarrow> nat \<Rightarrow> u64 \<Rightarrow> 'd srv \<Rightarrow> 'd srv" where
  "session_timeout E sess now s =
     (let s = sess_upd sess (\<lambda>x. x\<lparr>ss_timer := None\<rparr>) s;
          sess_expire = ss_last_contact (sess_at s sess) + CLD_SESS_TIMEOUT
      in if \<not> ss_dead (sess_at s sess) \<and> sess_expire > now
         then
           let s = (if ping_due (sess_at s sess)
                    then snd (sess_sendmsg E sess Void_msg CMO_PING (Some Session_ping_done)
                                (sess_upd sess (\<lambda>x. x\<lparr>ss_ping_open := True\<rparr>) s))
                    else s)
           in sess_upd sess (\<lambda>x. x\<lparr>ss_timer := Some ((sess_expire - now) div 2 + 1)\<rparr>) s
         else
           case db_rc (db_txn_begin (e_db E)) s of
             (Inl rc, s) \<Rightarrow> s
           | (Inr _, s) \<Rightarrow>
               (case session_dispose E (Some sess) s of
                  (Inl rc, s) \<Rightarrow> snd (db_rc (db_txn_abort (e_db E)) s)
                | (Inr _, s) \<Rightarrow> snd (db_rc (db_txn_commit (e_db E)) s)))"

section \<open>Session messages\<close>

definition sess_put_table :: "sid \<Rightarrow> nat \<Rightarrow> 'd srv \<Rightarrow> 'd srv" where
  "sess_put_table sid p s =
     (case htab_put (sv_mem s) (sv_sessions s) sid p of
        None \<Rightarrow> s
      | Some (ok, h, m) \<Rightarrow> s\<lparr>sv_sessions := h, sv_mem := m\<rparr>)"

definition new_sess_err :: "'d env \<Rightarrow> int \<Rightarrow> pkt_info \<Rightarrow> nat option \<Rightarrow> cle_err_codes \<Rightarrow> 'd srv \<Rightarrow> 'd srv" where
  "new_sess_err E sock_fd info sess resp_rc s =
     simple_sendmsg E sock_fd (ph_sid (pi_pkt info)) (ph_user (pi_pkt info)) 0xdeadbeef
       (Generic_resp resp_rc (pi_xid info)) CMO_NEW_SESS (session_free sess True s)"

definition msg_new_sess :: "'d env \<Rightarrow> int \<Rightarrow> client \<Rightarrow> pkt_info \<Rightarrow> 'd srv \<Rightarrow> 'd srv" where
  "msg_new_sess E sock_fd cli info s =
     (case session_new E s of
        (None, s) \<Rightarrow> new_sess_err E sock_fd info None CLE_OOM s
      | (Some p, s) \<Rightarrow>
          let s = sess_upd p (\<lambda>x. x\<lparr>ss_sid := ph_sid (pi_pkt info), ss_addr := cl_addr cli,
                    ss_user := take (CLD_MAX_USERNAME - 1) (ph_user (pi_pkt info)),
                    ss_sock_fd := sock_fd, ss_addr_len := cl_addr_len cli,
                    ss_ipaddr := take CLD_IPADDR_SZ (cl_addr_host cli),
                    ss_last_contact := sv_now s, ss_next_seqid_in := pi_seqid info + 1\<rparr>) s
          in case db_rc (db_sess_put_new (e_db E) (session_encode (sess_at s p))) s of
               (Inl rc, s) \<Rightarrow>
                 new_sess_err E sock_fd info (Some p) (if rc = DB_KEYEXIST then CLE_SESS_EXISTS else CLE_DB_ERR) s
             | (Inr _, s) \<Rightarrow>
                 let s = sess_put_table (ss_sid (sess_at s p)) p s;
                     s = sess_upd p (\<lambda>x. x\<lparr>ss_timer := Some (CLD_SESS_TIMEOUT div 2)\<rparr>) s
                 in snd (sess_sendmsg E p (Generic_resp CLE_OK (pi_xid info)) CMO_NEW_SESS None s))"

definition msg_end_sess :: "'d env \<Rightarrow> nat \<Rightarrow> u64 \<Rightarrow> 'd srv \<Rightarrow> 'd srv" where
  "msg_end_sess E sess xid s =
     snd (sess_sendmsg E sess (Generic_resp CLE_OK xid) CMO_END_SESS (Some End_sess_done) s)"

section \<open>Start-up\<close>

fun load_loop :: "'d env \<Rightarrow> raw_session list \<Rightarrow> dberr \<Rightarrow> 'd srv \<Rightarrow> bool \<times> 'd srv" where
  "load_loop E [] e s = (e = DB_NOTFOUND, s)"
| "load_loop E (raw # raws) e s =
     (case session_new E s of
        (None, s) \<Rightarrow> (False, s)
      | (Some p, s) \<Rightarrow>
          let s = sess_upd p (\<lambda>x. session_decode E x raw) s;
              s = sess_put_table (ss_sid (sess_at s p)) p s;
              s = sess_upd p (\<lambda>x. x\<lparr>ss_timer := Some (CLD_SESS_TIMEOUT div 2)\<rparr>) s
          in load_loop E raws e s)"

definition sess_load_db :: "'d env \<Rightarrow> 'd srv \<Rightarrow> int \<times> 'd srv" where
  "sess_load_db E s =
     (case db_rc (db_cursor (e_db E)) s of
        (Inl rc, s) \<Rightarrow> (- 1, s)
      | (Inr _, s) \<Rightarrow>
          (case db_sess_scan (e_db E) (sv_db s) of
             ((raws, e), d) \<Rightarrow>
               (case load_loop E raws e (s\<lparr>sv_db := d\<rparr>) of
                  (ok, s) \<Rightarrow>
                    (if ok then 0 else - 1, snd (db_rc (db_cursor_close (e_db E)) s)))))"

definition sess_load :: "'d env \<Rightarrow> 'd srv \<Rightarrow> int \<times> 'd srv" where
  "sess_load E s =
     (case db_rc (db_txn_begin (e_db E)) s of
        (Inl rc, s) \<Rightarrow> (- 1, s)
      | (Inr _, s) \<Rightarrow>
          (case sess_load_db E s of
             (rc, s) \<Rightarrow>
               if rc \<noteq> 0 then (- 1, snd (db_rc (db_txn_abort (e_db E)) s))
               else (0, snd (db_rc (db_txn_commit (e_db E)) s))))"

section \<open>Removal on success\<close>

text \<open>
  The database without a session: its record and its handles are gone, and its locks on the inodes
  it had open for locking.
\<close>

definition handles_wf :: "dbview \<Rightarrow> bool" where
  "handles_wf v \<longleftrightarrow> (\<forall>k h. v_handles v k = Some h \<longrightarrow> k = (rh_sid h, rh_fh h) \<and> length (rh_sid h) = CLD_SID_SZ)"

definition lock_inodes :: "sid \<Rightarrow> dbview \<Rightarrow> cldino set" where
  "lock_inodes sid v = {rh_inum h |h k. v_handles v k = Some h \<and> rh_sid h = sid \<and> has_flag (rh_mode h) COM_LOCK}"

definition disposed :: "sid \<Rightarrow> dbview \<Rightarrow> dbview" where
  "disposed sid v = v\<lparr>v_sess := (v_sess v)(sid := None),
     v_handles := (\<lambda>k. if fst k = sid then None else v_handles v k),
     v_locks := (\<lambda>i. if i \<in> lock_inodes sid v then unmatched sid 0 (v_locks v i) else v_locks v i)\<rparr>"

lemma srv_alloc_nil: "sv_mem s = [] \<Longrightarrow> srv_alloc s = (True, s)"
  by (simp add: srv_alloc_def)

lemma push_if_ok:
  assumes "sv_mem s = []"
  shows "\<exists>n. (if b then array_push i a else ret (Some a)) s = (Inr (Some (fst a @ (if b then [i] else []), n)), s)"
  using assms by (cases a) (auto simp: array_push_def Let_def ebind_def call_def ret_def srv_alloc_nil)

lemma keeps_rest_remove_locks [keeps_intros]: "keeps sv_rest (session_remove_locks E sid fh inum)"
proof -
  have l: "keeps sv_rest (remove_locks_loop E sid fh inum w recs e)" for w recs e
  proof (induction recs arbitrary: w)
    case (Cons l recs)
    show ?case unfolding remove_locks_loop.simps by (intro keeps_intros Cons.IH)
  qed (auto intro: keeps_intros)
  show ?thesis unfolding session_remove_locks_def by (intro keeps_intros l)
qed

lemma unmatched_idem [simp]: "unmatched sid fh (unmatched sid fh ls) = unmatched sid fh ls"
  by (simp add: unmatched_def)

definition hkey :: "raw_handle \<Rightarrow> sid \<times> u64" where
  "hkey h = (rh_sid h, rh_fh h)"

definition drop_handles :: "raw_handle list \<Rightarrow> dbview \<Rightarrow> dbview" where
  "drop_handles hs v = v\<lparr>v_handles := (\<lambda>k. if k \<in> hkey ` set hs then None else v_handles v k)\<rparr>"

lemma drop_handles_Cons: "drop_handles hs (v\<lparr>v_handles := (v_handles v)(hkey h := None)\<rparr>) = drop_handles (h # hs) v"
  by (auto simp: drop_handles_def fun_eq_iff)

definition strip_locks :: "sid \<Rightarrow> cldino set \<Rightarrow> dbview \<Rightarrow> dbview" where
  "strip_locks sid is v = v\<lparr>v_locks := (\<lambda>i. if i \<in> is then unmatched sid 0 (v_locks v i) else v_locks v i)\<rparr>"

lemma strip_locks_insert:
  "strip_locks sid is (v\<lparr>v_locks := (v_locks v)(i := unmatched sid 0 (v_locks v i))\<rparr>) = strip_locks sid (insert i is) v"
  by (auto simp: strip_locks_def fun_eq_iff)

context cld_env
begin

lemma remove_handles_ok:
  assumes "remove_handles_loop E sid locks hs e s = (Inr r, s')" and "sv_mem s = []"
    and "mine = takeWhile (\<lambda>h. memcmp (rh_sid h) sid = 0) hs"
  shows "sv_rest s' = sv_rest s \<and>
    (\<exists>rc ls. r = Some (rc, ls) \<and>
      (rc = None \<or> rc = Some DB_NOTFOUND \<longrightarrow>
         ls = fst locks @ map rh_inum (filter (\<lambda>h. has_flag (rh_mode h) COM_LOCK) mine) \<and>
         cur (sv_db s') = drop_handles mine (cur (sv_db s)) \<and>
         (e = DB_NOTFOUND \<or> (\<exists>h \<in> set hs. memcmp (rh_sid h) sid \<noteq> 0))))"
  using assms
proof (induction hs arbitrary: locks s mine)
  case Nil
  then show ?case by (auto simp: drop_handles_def)
next
  case (Cons h hs)
  show ?case
  proof (cases "memcmp (rh_sid h) sid = 0")
    case False
    then show ?thesis using Cons.prems by (auto simp: drop_handles_def)
  next
    case True
    let ?mine = "takeWhile (\<lambda>h. memcmp (rh_sid h) sid = 0) hs"
    let ?new = "if has_flag (rh_mode h) COM_LOCK then [rh_inum h] else []"
    obtain n where "(if has_flag (rh_mode h) COM_LOCK then array_push (rh_inum h) locks else ret (Some locks)) s =
        (Inr (Some (fst locks @ ?new, n)) :: dberr + (cldino list \<times> nat) option, s)"
      using push_if_ok [OF Cons.prems(2)] by blast
    then obtain q s1 where d: "db_rc (db_handle_cdel (e_db E) h) s = (q, s1)"
      and run: "(case q of Inl rc \<Rightarrow> ret (Some (Some rc, fst locks @ ?new))
        | Inr _ \<Rightarrow> remove_handles_loop E sid (fst locks @ ?new, n) hs e) s1 = (Inr r, s')"
      using Cons.prems(1) True by (auto simp: ebind_def attempt_def split: prod.splits)
    have rest: "sv_rest s1 = sv_rest s" using keepsD [OF keeps_rest_db(1) d] .
    show ?thesis
    proof (cases q)
      case (Inl rc)
      then have "rc \<noteq> DB_NOTFOUND"
        using d cdel_found(2) [of h "sv_db s"] by (auto simp: db_rc_def split: prod.splits option.splits)
      then show ?thesis using Inl run rest by (auto simp: ret_def)
    next
      case (Inr u)
      have c: "cur (sv_db s1) = (cur (sv_db s))\<lparr>v_handles := (v_handles (cur (sv_db s)))(hkey h := None)\<rparr>"
        using rc_ok [OF handle_cdel d [unfolded Inr]] by (simp add: hkey_def)
      have "sv_mem s1 = []" using sv_restD [OF rest] Cons.prems(2) by simp
      from Cons.IH [OF run [unfolded Inr sum.case] this refl] rest c show ?thesis
        using Cons.prems(3) True by (auto simp: drop_handles_Cons)
    qed
  qed
qed

lemma remove_locks_of_ok:
  assumes "remove_locks_of E sid waiters locks s = (Inr r, s')" and "sv_mem s = []"
  shows "sv_rest s' = sv_rest s \<and> r \<noteq> None \<and> cur (sv_db s') = strip_locks sid (set locks) (cur (sv_db s))"
  using assms
proof (induction locks arbitrary: waiters s)
  case Nil
  then show ?case by (auto simp: strip_locks_def)
next
  case (Cons i locks)
  obtain w s1 where l: "session_remove_locks E sid 0 i s = (Inr w, s1)"
    and run: "ebind (if w then array_push i waiters else ret (Some waiters)) (\<lambda>g. case g of None \<Rightarrow> ret None
      | Some waiters \<Rightarrow> remove_locks_of E sid waiters locks) s1 = (Inr r, s')"
    using Cons.prems(1) by (auto elim: ebind_OkE)
  have rest: "sv_rest s1 = sv_rest s" using keepsD [OF keeps_rest_remove_locks l] .
  then have mem: "sv_mem s1 = []" using sv_restD(6) Cons.prems(2) by metis
  obtain a where "(if w then array_push i waiters else ret (Some waiters)) s1 = (Inr (Some a) :: dberr + _, s1)"
    using push_if_ok [OF mem] by blast
  then have "remove_locks_of E sid a locks s1 = (Inr r, s')" using run by (simp add: ebind_def)
  from Cons.IH [OF this mem] remove_locks_ok [OF l] rest show ?case
    by (simp add: strip_locks_insert)
qed

lemma rescan_waiters_cur: "rescan_waiters E ws s = (Inr u, s') \<Longrightarrow> cur (sv_db s') = cur (sv_db s)"
  by (induction ws arbitrary: s) (auto elim!: ebind_OkE dest: rescan_cur)

lemma session_remove_ok:
  assumes "session_remove E p s = (Inr u, s')" and "sv_mem s = []" and "sid = ss_sid (sess_at s p)"
    and "handles_wf (cur (sv_db s))" and "length sid = CLD_SID_SZ"
  shows "v_sess (cur (sv_db s)) sid \<noteq> None \<and> cur (sv_db s') = disposed sid (cur (sv_db s))"
proof -
  obtain s1 hs e s2 rc ls s3 where c: "db_rc (db_cursor (e_db E)) s = (Inr (), s1)"
    and sc: "db_call (db_handle_range (e_db E) sid) s1 = (Inr (hs, e) :: dberr + _, s2)"
    and h: "remove_handles_loop E sid ([], 128) hs e s2 = (Inr (Some (rc, ls)), s3)"
    and r3: "ebind (close_handles E rc) (\<lambda>_. ebind (remove_locks_of E sid ([], 64) ls) (\<lambda>r. case r of None \<Rightarrow> ret ()
         | Some waiters \<Rightarrow> ebind (rescan_waiters E waiters) (\<lambda>_. cldb_session_del E sid))) s3 = (Inr u, s')"
  proof -
    obtain s1 hs e s2 r s3 where c: "db_rc (db_cursor (e_db E)) s = (Inr (), s1)"
      and sc: "db_call (db_handle_range (e_db E) sid) s1 = (Inr (hs, e) :: dberr + _, s2)"
      and h: "remove_handles_loop E sid ([], 128) hs e s2 = (Inr r, s3)"
      and r2: "(case r of None \<Rightarrow> ret () | Some (rc, locks) \<Rightarrow> ebind (close_handles E rc) (\<lambda>_.
         ebind (remove_locks_of E sid ([], 64) locks) (\<lambda>r. case r of None \<Rightarrow> ret ()
         | Some waiters \<Rightarrow> ebind (rescan_waiters E waiters) (\<lambda>_. cldb_session_del E sid)))) s3 = (Inr u, s')"
      using assms(1) unfolding session_remove_def assms(3)
      by (auto simp: gets_def call_def srv_alloc_nil [OF assms(2)] elim!: ebind_OkE)
    have "sv_mem s2 = []"
      using sv_restD(6) [OF keepsD [OF keeps_rest_db(1) c]] sv_restD(6) [OF keepsD [OF keeps_rest_db(3) sc]] assms(2) by simp
    with h obtain rc ls where "r = Some (rc, ls)"
      using remove_handles_ok [of sid "([], 128)" hs e s2 r s3] by auto
    with c sc h r2 that show thesis by simp
  qed
  let ?v = "cur (sv_db s)"
  let ?mine = "takeWhile (\<lambda>h. memcmp (rh_sid h) sid = 0) hs"
  have mem2: "sv_mem s2 = []"
    using sv_restD(6) [OF keepsD [OF keeps_rest_db(1) c]] sv_restD(6) [OF keepsD [OF keeps_rest_db(3) sc]] assms(2) by simp
  have cur2: "cur (sv_db s2) = ?v"
    using keepsD [OF keeps_com_cursor(2) c] keepsD [OF keeps_cur_call [OF handle_range] sc] by simp
  have range: "set hs \<subseteq> ran (v_handles ?v)" "e = DB_NOTFOUND \<or> (\<exists>h \<in> set hs. rh_sid h \<noteq> sid) \<Longrightarrow>
      set (takeWhile (\<lambda>h. rh_sid h = sid) hs) = handles_of ?v (\<lambda>h. rh_sid h = sid)"
    using call_ok [OF handle_range sc] keepsD [OF keeps_com_cursor(2) c] by auto
  have cmp: "memcmp (rh_sid h) sid = 0 \<longleftrightarrow> rh_sid h = sid" if "h \<in> set hs" for h
  proof -
    have "length (rh_sid h) = length sid"
      using range(1) that assms(4,5) by (auto simp: handles_wf_def ran_def)
    then show ?thesis by simp
  qed
  have tw: "?mine = takeWhile (\<lambda>h. rh_sid h = sid) hs" using cmp by (intro takeWhile_cong) auto
  obtain s4 where cl: "close_handles E rc s3 = (Inr (), s4)"
    and r4: "ebind (remove_locks_of E sid ([], 64) ls) (\<lambda>r. case r of None \<Rightarrow> ret ()
         | Some waiters \<Rightarrow> ebind (rescan_waiters E waiters) (\<lambda>_. cldb_session_del E sid)) s4 = (Inr u, s')"
    using r3 by (auto elim: ebind_OkE)
  have rc: "rc = None \<or> rc = Some DB_NOTFOUND"
    using cl by (auto simp: close_handles_def elim!: ebind_OkE split: if_splits)
  note hl = remove_handles_ok [OF h mem2 refl]
  have ls: "ls = map rh_inum (filter (\<lambda>h. has_flag (rh_mode h) COM_LOCK) ?mine)"
    and cur3: "cur (sv_db s3) = drop_handles ?mine ?v" and fin: "e = DB_NOTFOUND \<or> (\<exists>h \<in> set hs. memcmp (rh_sid h) sid \<noteq> 0)"
    and rest3: "sv_rest s3 = sv_rest s2"
    using hl rc cur2 by auto
  have mine: "set ?mine = handles_of ?v (\<lambda>h. rh_sid h = sid)"
    unfolding tw by (rule range(2)) (use fin cmp in auto)
  have s4: "cur (sv_db s4) = cur (sv_db s3)" "sv_rest s4 = sv_rest s3"
    using cl rc cursor_close by (auto simp: close_handles_def db_rc_def reads_def split: if_splits prod.splits option.splits)
  obtain ws s5 where lk: "remove_locks_of E sid ([], 64) ls s4 = (Inr (Some ws), s5)"
    and r5: "ebind (rescan_waiters E ws) (\<lambda>_. cldb_session_del E sid) s5 = (Inr u, s')"
  proof -
    obtain r s5 where lk: "remove_locks_of E sid ([], 64) ls s4 = (Inr r, s5)"
      and r5: "(case r of None \<Rightarrow> ret () | Some waiters \<Rightarrow> ebind (rescan_waiters E waiters) (\<lambda>_. cldb_session_del E sid)) s5 = (Inr u, s')"
      using r4 by (auto elim: ebind_OkE)
    have "sv_mem s4 = []" using sv_restD(6) [OF s4(2)] sv_restD(6) [OF rest3] mem2 by simp
    with remove_locks_of_ok [OF lk] obtain ws where "r = Some ws" by auto
    with lk r5 that show thesis by simp
  qed
  have "sv_mem s4 = []" using sv_restD(6) [OF s4(2)] sv_restD(6) [OF rest3] mem2 by simp
  with remove_locks_of_ok [OF lk] have cur5: "cur (sv_db s5) = strip_locks sid (set ls) (drop_handles ?mine ?v)"
    using s4 cur3 by simp
  obtain s6 where rw: "rescan_waiters E ws s5 = (Inr (), s6)" and del: "cldb_session_del E sid s6 = (Inr u, s')"
    using r5 by (auto elim: ebind_OkE)
  have d: "v_sess (cur (sv_db s6)) sid \<noteq> None" "cur (sv_db s') = (cur (sv_db s6))\<lparr>v_sess := (v_sess (cur (sv_db s6)))(sid := None)\<rparr>"
    using rc_ok [OF sess_del del [unfolded cldb_session_del_def]] by auto
  have cur6: "cur (sv_db s6) = strip_locks sid (set ls) (drop_handles ?mine ?v)"
    using rescan_waiters_cur [OF rw] cur5 by simp
  have "set ls = lock_inodes sid ?v"
    unfolding ls by (simp add: mine) (auto simp: lock_inodes_def handles_of_def)
  moreover have "k \<in> hkey ` set ?mine \<longleftrightarrow> fst k = sid \<and> v_handles ?v k \<noteq> None" for k
    using assms(4) unfolding mine handles_of_def handles_wf_def hkey_def by (cases k) (auto simp: image_iff)
  ultimately show ?thesis
    using d cur6 by (auto simp: disposed_def strip_locks_def drop_handles_def fun_eq_iff)
qed

lemma keeps_com_array_push: "keeps (\<lambda>s. com (sv_db s)) (array_push i a)"
proof -
  have "keeps (\<lambda>s. com (sv_db s)) srv_alloc" using keeps_db_rest(1) by (fastforce simp: keeps_def)
  then show ?thesis unfolding array_push_def by (intro keeps_intros)
qed

lemma keeps_com_session_remove: "keeps (\<lambda>s. com (sv_db s)) (session_remove E p)"
proof -
  have a: "keeps (\<lambda>s. com (sv_db s)) srv_alloc" using keeps_db_rest(1) by (fastforce simp: keeps_def)
  have cc: "keeps (\<lambda>s. com (sv_db s)) (db_rc (db_cursor_close (e_db E)))"
    using cursor_close by (auto simp: keeps_def db_rc_def reads_def split: prod.splits option.splits)
  have h: "keeps (\<lambda>s. com (sv_db s)) (remove_handles_loop E sid locks hs e)" for sid locks hs e
  proof (induction hs arbitrary: locks)
    case (Cons h hs)
    show ?case unfolding remove_handles_loop.simps by (intro keeps_intros keeps_com_array_push keeps_com_db Cons.IH)
  qed (auto intro: keeps_intros)
  have l: "keeps (\<lambda>s. com (sv_db s)) (remove_locks_of E sid ws locks)" for sid ws locks
  proof (induction locks arbitrary: ws)
    case (Cons i locks)
    show ?case unfolding remove_locks_of.simps by (intro keeps_intros keeps_com_array_push keeps_com_remove_locks Cons.IH)
  qed (auto intro: keeps_intros)
  have w: "keeps (\<lambda>s. com (sv_db s)) (rescan_waiters E ws)" for ws
  proof (induction ws)
    case (Cons i ws)
    show ?case unfolding rescan_waiters.simps by (intro keeps_intros keeps_com_rescan Cons.IH)
  qed (auto intro: keeps_intros)
  show ?thesis
    unfolding session_remove_def close_handles_def
    by (intro keeps_intros a cc h l w keeps_com_db keeps_com_cldb)
qed

end

context cld_reliable
begin

lemma total_session_remove:
  assumes "v_sess (cur (sv_db s)) (ss_sid (sess_at s p)) \<noteq> None" and "sv_mem s = []"
  shows "\<exists>s'. session_remove E p s = (Inr (), s')"
proof -
  let ?sid = "ss_sid (sess_at s p)"
  have loop: "\<exists>rc ls s'. remove_handles_loop E ?sid locks hs DB_NOTFOUND t = (Inr (Some (rc, ls)), s') \<and>
      (rc = None \<or> rc = Some DB_NOTFOUND)" if "sv_mem t = []" for locks hs t
    using that
  proof (induction hs arbitrary: locks t)
    case (Cons h hs)
    obtain n where push: "(if has_flag (rh_mode h) COM_LOCK then array_push (rh_inum h) locks else ret (Some locks)) t =
        (Inr (Some n) :: dberr + _, t)" using push_if_ok [OF Cons.prems] by blast
    obtain u t1 where d: "db_rc (db_handle_cdel (e_db E) h) t = (Inr u, t1)"
      using total_sure [OF sure_handle_cdel] by (rule succeedsE)
    then have "sv_mem t1 = []" using sv_restD(6) [OF keepsD [OF keeps_rest_db(1) d]] Cons.prems by simp
    with Cons.IH [of t1 n] push d show ?case by (auto simp: ebind_def attempt_def ret_def)
  qed (simp add: ret_def)
  have locks: "\<exists>ws t'. remove_locks_of E ?sid ws0 ls t = (Inr (Some ws), t')" if "sv_mem t = []" for ws0 ls t
    using that
  proof (induction ls arbitrary: ws0 t)
    case (Cons i ls)
    obtain w t1 where l: "session_remove_locks E ?sid 0 i t = (Inr w, t1)" using total_remove_locks by (rule succeedsE)
    then have m: "sv_mem t1 = []" using sv_restD(6) [OF keepsD [OF keeps_rest_remove_locks l]] Cons.prems by simp
    obtain n where "(if w then array_push i ws0 else ret (Some ws0)) t1 = (Inr (Some n) :: dberr + _, t1)"
      using push_if_ok [OF m] by blast
    with l m Cons.IH [of t1 n] show ?case by (simp add: ebind_def)
  qed (simp add: ret_def)
  have rescan: "succeeds (rescan_waiters E ws)" for ws
    by (induction ws) (auto intro: total_basic total_bind total_rescan)
  obtain s1 where c: "db_rc (db_cursor (e_db E)) s = (Inr (), s1)" using total_cursor(1) by (rule succeeds_unitE)
  obtain hs e s2 where sc: "db_call (db_handle_range (e_db E) ?sid) s1 = (Inr (hs, e) :: dberr + _, s2)"
    by (rule db_call_pairE)
  have m2: "sv_mem s2 = []"
    using sv_restD(6) [OF keepsD [OF keeps_rest_db(1) c]] sv_restD(6) [OF keepsD [OF keeps_rest_db(3) sc]] assms(2) by simp
  obtain rc ls s3 where h: "remove_handles_loop E ?sid ([], 128) hs e s2 = (Inr (Some (rc, ls)), s3)"
    and rc: "rc = None \<or> rc = Some DB_NOTFOUND"
    using loop [OF m2] scan_complete [OF sure_handle_range sc] by blast
  obtain s4 where cl: "close_handles E rc s3 = (Inr (), s4)"
    using rc by (auto simp: close_handles_def intro: succeeds_unitE [OF total_cursor(2)])
  have s3: "sv_rest s3 = sv_rest s2" "\<exists>mine. cur (sv_db s3) = drop_handles mine (cur (sv_db s2))"
    using remove_handles_ok [OF h m2 refl] rc by auto
  have s4: "cur (sv_db s4) = cur (sv_db s3)" "sv_rest s4 = sv_rest s3"
    using cl rc cursor_close by (auto simp: close_handles_def db_rc_def reads_def split: if_splits prod.splits option.splits)
  have m4: "sv_mem s4 = []" using sv_restD(6) [OF s4(2)] sv_restD(6) [OF s3(1)] m2 by simp
  obtain ws s5 where lk: "remove_locks_of E ?sid ([], 64) ls s4 = (Inr (Some ws), s5)" using locks [OF m4] by blast
  obtain s6 where rw: "rescan_waiters E ws s5 = (Inr (), s6)" using rescan by (rule succeeds_unitE)
  have "v_sess (cur (sv_db s6)) = v_sess (cur (sv_db s2))"
    using rescan_waiters_cur [OF rw] remove_locks_of_ok [OF lk m4] s4(1) s3(2) by (auto simp: strip_locks_def drop_handles_def)
  then have "v_sess (cur (sv_db s6)) ?sid \<noteq> None"
    using keepsD [OF keeps_com_cursor(2) c] keepsD [OF keeps_cur_call [OF handle_range] sc] assms(1) by simp
  then obtain s7 where "cldb_session_del E ?sid s6 = (Inr (), s7)"
    using sure_sess_del [of ?sid] by (cases "db_sess_del (e_db E) ?sid (sv_db s6)")
      (auto simp: cldb_session_del_def db_rc_def sure_del_def dest!: spec [of _ "sv_db s6"])
  with c sc h cl lk rw show ?thesis
    by (simp add: session_remove_def ebind_def gets_def call_def srv_alloc_nil assms(2))
qed

end

section \<open>Frames\<close>

lemma keeps_env_alloc [keeps_intros]: "keeps sv_env srv_alloc"
  by (auto simp: keeps_def srv_alloc_def sv_env_def heap_pub_def fun_eq_iff split: prod.splits)

lemma keeps_env_session_remove [keeps_intros]: "keeps sv_env (session_remove E p)"
proof -
  have a: "keeps sv_env (array_push i a)" for i a
    unfolding array_push_def by (intro keeps_intros)
  have h: "keeps sv_env (remove_handles_loop E sid locks hs e)" for sid locks hs e
  proof (induction hs arbitrary: locks)
    case (Cons h hs)
    show ?case unfolding remove_handles_loop.simps by (intro keeps_intros a Cons.IH)
  qed (auto intro: keeps_intros)
  have l: "keeps sv_env (remove_locks_of E sid ws locks)" for sid ws locks
  proof (induction locks arbitrary: ws)
    case (Cons i locks)
    show ?case unfolding remove_locks_of.simps by (intro keeps_intros a Cons.IH)
  qed (auto intro: keeps_intros)
  have w: "keeps sv_env (rescan_waiters E ws)" for ws
    by (induction ws) (auto intro: keeps_intros)
  show ?thesis
    unfolding session_remove_def close_handles_def cldb_session_del_def by (intro keeps_intros h l w)
qed

lemma sv_envD:
  assumes "sv_env s' = sv_env s"
  shows "sv_now s' = sv_now s" "sv_sessions s' = sv_sessions s" "heap_pub s' = heap_pub s"
  using assms by (simp_all add: sv_env_def)

text \<open>The branch of \<open>session_timeout\<close> that disposes of the session.\<close>

definition expire :: "'d env \<Rightarrow> nat \<Rightarrow> 'd srv \<Rightarrow> 'd srv" where
  "expire E sess s =
     (case db_rc (db_txn_begin (e_db E)) s of
        (Inl rc, s) \<Rightarrow> s
      | (Inr _, s) \<Rightarrow>
          (case session_dispose E (Some sess) s of
             (Inl rc, s) \<Rightarrow> snd (db_rc (db_txn_abort (e_db E)) s)
           | (Inr _, s) \<Rightarrow> snd (db_rc (db_txn_commit (e_db E)) s)))"

definition expired :: "session \<Rightarrow> u64 \<Rightarrow> bool" where
  "expired x now \<longleftrightarrow> ss_dead x \<or> ss_last_contact x + CLD_SESS_TIMEOUT \<le> now"

lemma session_timeout_expired_eq:
  assumes "sv_heap s p = Some x" and "expired x now"
  shows "session_timeout E p now s = expire E p (sess_upd p (\<lambda>x. x\<lparr>ss_timer := None\<rparr>) s)"
proof -
  let ?s = "sess_upd p (\<lambda>x. x\<lparr>ss_timer := None\<rparr>) s"
  have "\<not> (\<not> ss_dead (sess_at ?s p) \<and> ss_last_contact (sess_at ?s p) + CLD_SESS_TIMEOUT > now)"
    using assms by (auto simp: sess_at_upd_Some expired_def)
  then show ?thesis by (simp only: session_timeout_def expire_def Let_def if_False)
qed

lemma session_free_sel:
  "sv_db (session_free (Some p) b s) = sv_db s" "sv_heap (session_free (Some p) b s) = (sv_heap s)(p := None)"
  "sv_sessions (session_free (Some p) True s) = fst (snd (htab_del (sv_sessions s) (ss_sid (sess_at s p))))"
  by (auto simp: session_free_def Let_def split: prod.splits)

lemma db_rc_rest: "sv_rest (snd (db_rc f s)) = sv_rest s"
  using keepsD [OF keeps_rest_db(1), of f s "fst (db_rc f s)" "snd (db_rc f s)"] by simp

context cld_env
begin

lemma begin_ok:
  assumes "db_rc (db_txn_begin (e_db E)) s = (r, s1)"
  shows "com (sv_db s1) = com (sv_db s)" "r = Inr () \<Longrightarrow> cur (sv_db s1) = com (sv_db s)" "sv_rest s1 = sv_rest s"
  using assms txn_begin keepsD [OF keeps_rest_db(1) assms]
  by (auto simp: db_rc_def split: prod.splits option.splits)

lemma commit_ok:
  assumes "db_rc (db_txn_commit (e_db E)) s = (r, s1)"
  shows "com (sv_db s1) = (case r of Inr _ \<Rightarrow> cur (sv_db s) | Inl _ \<Rightarrow> com (sv_db s))" "sv_rest s1 = sv_rest s"
  using assms txn_commit keepsD [OF keeps_rest_db(1) assms]
  by (auto simp: db_rc_def split: prod.splits option.splits)

lemma abort_ok: "com (sv_db (snd (db_rc (db_txn_abort (e_db E)) s))) = com (sv_db s)"
  using txn_abort by (auto simp: db_rc_def split: prod.splits option.splits)

text \<open>Whatever goes wrong, expiry commits the complete disposal or nothing.\<close>

lemma expire_atomic:
  assumes "sv_mem s = []" and "sid = ss_sid (sess_at s p)" and "handles_wf (com (sv_db s))" and "length sid = CLD_SID_SZ"
  shows "com (sv_db (expire E p s)) \<in> {com (sv_db s), disposed sid (com (sv_db s))}"
proof -
  obtain r s1 where b: "db_rc (db_txn_begin (e_db E)) s = (r, s1)" by fastforce
  note b' = begin_ok [OF b]
  show ?thesis
  proof (cases r)
    case (Inl e)
    then show ?thesis using b b' by (simp add: expire_def)
  next
    case (Inr u)
    obtain q s2 where rm: "session_remove E p s1 = (q, s2)" by fastforce
    let ?s3 = "session_free (Some p) True s2"
    have com2: "com (sv_db s2) = com (sv_db s)" using keepsD [OF keeps_com_session_remove rm] b' by simp
    have ex: "expire E p s = (case q of Inl _ \<Rightarrow> snd (db_rc (db_txn_abort (e_db E)) ?s3) | Inr _ \<Rightarrow> snd (db_rc (db_txn_commit (e_db E)) ?s3))"
      using b Inr rm by (simp add: expire_def session_dispose_def split: sum.splits)
    show ?thesis
    proof (cases q)
      case (Inl e)
      then show ?thesis using ex abort_ok com2 by (simp add: session_free_sel)
    next
      case q: (Inr v)
      have "cur (sv_db s2) = disposed sid (com (sv_db s))"
        using session_remove_ok [OF rm [unfolded q], of sid] sv_restD(6,9) [OF b'(3)] b'(2) Inr assms by simp
      moreover obtain w s4 where c: "db_rc (db_txn_commit (e_db E)) ?s3 = (w, s4)" by fastforce
      ultimately show ?thesis
        using ex q commit_ok(1) [OF c] com2 by (auto simp: session_free_sel split: sum.splits)
    qed
  qed
qed

end

context cld_reliable
begin

lemma expire_ok:
  assumes "sv_mem s = []" and "sid = ss_sid (sess_at s p)" and "handles_wf (com (sv_db s))" and "length sid = CLD_SID_SZ"
    and "v_sess (com (sv_db s)) sid \<noteq> None"
  shows "com (sv_db (expire E p s)) = disposed sid (com (sv_db s)) \<and> sv_heap (expire E p s) p = None \<and>
    sv_sessions (expire E p s) = fst (snd (htab_del (sv_sessions s) sid))"
proof -
  obtain s1 where b: "db_rc (db_txn_begin (e_db E)) s = (Inr (), s1)" using total_begin(1) by (rule succeeds_unitE)
  note b' = begin_ok [OF b]
  have at1: "sess_at s1 p = sess_at s p" "sv_mem s1 = []" "sv_sessions s1 = sv_sessions s"
    using sv_restD [OF b'(3)] assms(1) by simp_all
  obtain s2 where rm: "session_remove E p s1 = (Inr (), s2)"
    using total_session_remove [of s1 p] at1 b'(2) assms(2,5) by auto
  have cur2: "cur (sv_db s2) = disposed sid (com (sv_db s))"
    using session_remove_ok [OF rm, of sid] at1 b'(2) assms by simp
  have env: "sv_sessions s2 = sv_sessions s" "ss_sid (sess_at s2 p) = sid"
    using sv_envD [OF keepsD [OF keeps_env_session_remove rm]] heap_pub_sel(1) [of s2 s1 p] at1 assms(2) by auto
  let ?s3 = "session_free (Some p) True s2"
  obtain s4 where c: "db_rc (db_txn_commit (e_db E)) ?s3 = (Inr (), s4)" using total_begin(2) by (rule succeeds_unitE)
  have ex: "expire E p s = s4"
    using b rm c by (simp add: expire_def session_dispose_def)
  show ?thesis
    unfolding ex using commit_ok [OF c] sv_restD(1,2) [OF commit_ok(2) [OF c]] cur2 env by (simp add: session_free_sel)
qed

end

section \<open>Properties\<close>

text \<open>
  A session that is neither dead nor out of time survives its timer: database, session table
  and every other session are untouched, the timer is armed again, and one ping is outstanding.
\<close>

theorem session_timeout_live:
  assumes "sv_heap s p = Some x" and "\<not> expired x now" and "ss_last_contact x + CLD_SESS_TIMEOUT \<noteq> 1"
  shows "\<exists>y. sv_db (session_timeout E p now s) = sv_db s \<and> sv_sessions (session_timeout E p now s) = sv_sessions s \<and>
    sv_heap (session_timeout E p now s) p = Some y \<and> sess_pub (y\<lparr>ss_ping_open := ss_ping_open x, ss_timer := ss_timer x\<rparr>) = sess_pub x \<and>
    ss_ping_open y \<and> ss_timer y = Some ((ss_last_contact x + CLD_SESS_TIMEOUT - now) div 2 + 1) \<and>
    (\<forall>q. q \<noteq> p \<longrightarrow> heap_pub (session_timeout E p now s) q = heap_pub s q)"
proof -
  let ?s1 = "sess_upd p (\<lambda>x. x\<lparr>ss_timer := None\<rparr>) s"
  let ?s2 = "sess_upd p (\<lambda>x. x\<lparr>ss_ping_open := True\<rparr>) ?s1"
  let ?t = "(ss_last_contact x + CLD_SESS_TIMEOUT - now) div 2 + 1"
  have h1: "sv_heap ?s1 p = Some (x\<lparr>ss_timer := None\<rparr>)" using assms(1) by (simp add: sess_upd_def)
  note at1 = sess_at_Some [OF h1]
  have live: "\<not> ss_dead x" "now < ss_last_contact x + CLD_SESS_TIMEOUT" using assms(2) by (auto simp: expired_def)
  show ?thesis
  proof (cases "ss_ping_open x")
    case True
    then have "session_timeout E p now s = sess_upd p (\<lambda>x. x\<lparr>ss_timer := Some ?t\<rparr>) ?s1"
      using live at1 by (simp add: session_timeout_def ping_due_def Let_def)
    then show ?thesis using assms(1) True by (auto simp: sess_upd_def heap_pub_def sess_pub_def)
  next
    case False
    have "0 < ss_last_contact x + CLD_SESS_TIMEOUT" using live(2) by (metis word_coorder.not_eq_extremum word_zero_le leD)
    then have "1 < ss_last_contact x + CLD_SESS_TIMEOUT"
      using assms(3) by (metis inc_le less_le add_0)
    then have "ping_due (sess_at ?s1 p)" using False at1 \<open>0 < ss_last_contact x + CLD_SESS_TIMEOUT\<close> by (simp add: ping_due_def)
    moreover obtain ok s3 where m: "sess_sendmsg E p Void_msg CMO_PING (Some Session_ping_done) ?s2 = (ok, s3)" by fastforce
    ultimately have run: "session_timeout E p now s = sess_upd p (\<lambda>x. x\<lparr>ss_timer := Some ?t\<rparr>) s3"
      using live at1 by (simp add: session_timeout_def Let_def)
    note fr = sess_sendmsg_frame [OF m]
    then have hp: "heap_pub s3 = heap_pub ?s2" by blast
    have "heap_pub s3 p = Some (sess_pub (x\<lparr>ss_timer := None, ss_ping_open := True\<rparr>))"
      unfolding hp using assms(1) by (simp add: heap_pub_def sess_upd_def)
    then obtain y where y: "sv_heap s3 p = Some y" "sess_pub y = sess_pub (x\<lparr>ss_timer := None, ss_ping_open := True\<rparr>)"
      by (auto simp: heap_pub_def)
    have sel: "ss_ping_open z = ss_ping_open (sess_pub z)" for z by (simp add: sess_pub_def)
    have "ss_ping_open y" using y(2) sel [of y] by (simp add: sess_pub_def)
    moreover have "sess_pub (y\<lparr>ss_ping_open := ss_ping_open x, ss_timer := ss_timer x\<rparr>) = sess_pub x"
    proof -
      have c: "sess_pub (z\<lparr>ss_ping_open := a, ss_timer := b\<rparr>) = (sess_pub z)\<lparr>ss_ping_open := a, ss_timer := b\<rparr>" for z a b
        by (simp add: sess_pub_def)
      show ?thesis unfolding c y(2) by (simp add: sess_pub_def)
    qed
    moreover have "heap_pub (sess_upd p f s3) q = heap_pub s q" if "q \<noteq> p" for f q
    proof -
      have "heap_pub (sess_upd p f s3) q = heap_pub s3 q" using that by (simp add: heap_pub_def sess_upd_def)
      also have "\<dots> = heap_pub s q" unfolding hp using that by (simp add: heap_pub_def sess_upd_def)
      finally show ?thesis .
    qed
    moreover have "sv_heap (sess_upd p f s3) p = Some (f y)" for f using y(1) by (simp add: sess_upd_def)
    ultimately show ?thesis
      unfolding run using fr by (intro exI [of _ "y\<lparr>ss_timer := Some ?t\<rparr>"]) simp
  qed
qed

theorem session_timeout_live_witness:
  "ss_timer (sess_at (session_timeout (ref_env False) 0 20 (sample_srv no_tabs)) 0) = Some 21"
proof -
  have "ss_last_contact sample_sess + CLD_SESS_TIMEOUT = 60" "\<not> ss_dead sample_sess"
    by (simp_all add: sample_sess_def session_zero_def CLD_SESS_TIMEOUT_def)
  then show ?thesis
    using session_timeout_live [of "sample_srv no_tabs" 0 sample_sess 20 "ref_env False"]
    by (auto simp: expired_def sess_at_def)
qed


definition sample_tabs :: tabs where
  "sample_tabs = no_tabs\<lparr>t_sess := [(ss_sid sample_sess, session_encode sample_sess)],
     t_handles := [((ss_sid sample_sess, 1), \<lparr>rh_sid = ss_sid sample_sess, rh_fh = 1, rh_inum = 60, rh_mode = COM_LOCK, rh_events = 0\<rparr>)],
     t_locks := [(60, [\<lparr>rl_inum = 60, rl_sid = ss_sid sample_sess, rl_fh = 1, rl_ctime = 900, rl_flags = 0\<rparr>, held_lock])]\<rparr>"


text \<open>
  The database record of a session restores it: identifier, user, address, time of last
  contact, next handle and sequence numbers survive encoding and decoding.
\<close>

theorem session_record_roundtrip:
  assumes "length (ss_sid x) = CLD_SID_SZ" and "unat (ss_addr_len x) \<le> 28" and "length (ss_addr x) = 28"
  shows "let y = session_decode E z (session_encode x); n = unat (ss_addr_len x) in
    ss_sid y = ss_sid x \<and> ss_user y = ss_user x \<and> ss_addr_len y = ss_addr_len x \<and> take n (ss_addr y) = take n (ss_addr x) \<and>
    ss_last_contact y = ss_last_contact x \<and> ss_next_fh y = ss_next_fh x \<and>
    ss_next_seqid_in y = ss_next_seqid_in x \<and> ss_next_seqid_out y = ss_next_seqid_out x \<and>
    session_encode y = session_encode x"
proof -
  have n: "unat (ucast (ss_addr_len x) :: u16) = unat (ss_addr_len x)"
    using assms(2) by (simp add: unsigned_ucast_eq take_bit_nat_eq_self)
  have u: "ucast (ucast (ss_addr_len x) :: u16) = ss_addr_len x"
    by (rule unat_inject) (simp add: n)
  show ?thesis
    using assms n u by (simp add: session_decode_def session_encode_def Let_def)
qed

theorem session_record_roundtrip_witness:
  "ss_next_fh (session_decode (ref_env False) session_zero (session_encode sample_sess)) = 2"
  using session_record_roundtrip [of sample_sess "ref_env False" session_zero]
  by (simp add: CLD_SID_SZ_def sample_sess_def session_zero_def Let_def)

section \<open>Loading the sessions\<close>

definition loaded :: "'d env \<Rightarrow> raw_session \<Rightarrow> session" where
  "loaded E raw = (session_decode E session_zero raw)\<lparr>ss_timer := Some (CLD_SESS_TIMEOUT div 2)\<rparr>"

lemma htab_put_mem: "htab_put [] h k v = Some (ok, h', m) \<Longrightarrow> m = []"
  by (auto simp: htab_put_def htab_resize_def Let_def split: option.splits if_splits prod.splits)

lemma sess_put_table_sel:
  "sv_db (sess_put_table sid p s) = sv_db s" "sv_heap (sess_put_table sid p s) = sv_heap s"
  "sv_next (sess_put_table sid p s) = sv_next s" "sv_mem s = [] \<Longrightarrow> sv_mem (sess_put_table sid p s) = []"
  "sv_log (sess_put_table sid p s) = sv_log s" "sv_now (sess_put_table sid p s) = sv_now s"
  by (auto simp: sess_put_table_def dest: htab_put_mem split: option.splits prod.splits)

lemma session_new_ok:
  assumes "sv_mem s = []"
  obtains s1 seqid where "session_new E s = (Some (sv_next s), s1)"
    "sv_heap s1 = (sv_heap s)(sv_next s \<mapsto> session_zero\<lparr>ss_next_fh := 2, ss_next_seqid_out := seqid\<rparr>)"
    "sv_next s1 = Suc (sv_next s)" "sv_mem s1 = []" "sv_db s1 = sv_db s" "sv_sessions s1 = sv_sessions s"
    "sv_log s1 = sv_log s" "sv_now s1 = sv_now s"
  using assms by (cases "cld_rand64 (e_rand E) (sv_rand s)") (auto simp: session_new_def srv_alloc_nil srv_rand64_def)

lemma load_loop_ok:
  assumes "sv_mem s = []"
  shows "\<exists>s'. load_loop E raws e s = (e = DB_NOTFOUND, s') \<and> sv_db s' = sv_db s \<and>
    (\<forall>p < sv_next s. sv_heap s' p = sv_heap s p) \<and>
    (\<forall>i < length raws. sv_heap s' (sv_next s + i) = Some (loaded E (raws ! i)))"
  using assms
proof (induction raws arbitrary: s)
  case (Cons raw raws)
  obtain s1 seqid where n: "session_new E s = (Some (sv_next s), s1)"
    and s1: "sv_heap s1 = (sv_heap s)(sv_next s \<mapsto> session_zero\<lparr>ss_next_fh := 2, ss_next_seqid_out := seqid\<rparr>)"
      "sv_next s1 = Suc (sv_next s)" "sv_mem s1 = []" "sv_db s1 = sv_db s"
    using session_new_ok [OF Cons.prems] by metis
  let ?p = "sv_next s"
  let ?s2 = "sess_upd ?p (\<lambda>x. session_decode E x raw) s1"
  let ?s3 = "sess_put_table (ss_sid (sess_at ?s2 ?p)) ?p ?s2"
  let ?s4 = "sess_upd ?p (\<lambda>x. x\<lparr>ss_timer := Some (CLD_SESS_TIMEOUT div 2)\<rparr>) ?s3"
  have s4: "sv_mem ?s4 = []" "sv_next ?s4 = Suc ?p" "sv_db ?s4 = sv_db s" "sv_heap ?s4 = (sv_heap s)(?p \<mapsto> loaded E raw)"
    using s1 by (auto simp: sess_put_table_sel sess_upd_def loaded_def session_decode_def Let_def)
  obtain s' where l: "load_loop E raws e ?s4 = (e = DB_NOTFOUND, s')" "sv_db s' = sv_db ?s4"
    "\<forall>p < sv_next ?s4. sv_heap s' p = sv_heap ?s4 p" "\<forall>i < length raws. sv_heap s' (sv_next ?s4 + i) = Some (loaded E (raws ! i))"
    using Cons.IH [OF s4(1)] by blast
  have "sv_heap s' (?p + i) = Some (loaded E ((raw # raws) ! i))" if "i < length (raw # raws)" for i
    using that l(3,4) s4 by (cases i) auto
  moreover have "load_loop E (raw # raws) e s = (e = DB_NOTFOUND, s')" using n l(1) by (simp add: Let_def)
  moreover have "sv_db s' = sv_db s" using l(2) s4(3) by simp
  moreover have "\<forall>p < sv_next s. sv_heap s' p = sv_heap s p" using l(3) s4 by auto
  ultimately show ?case by blast
qed simp

text \<open>
  Loading the sessions at start-up on a working database succeeds, leaves the committed content
  alone, and restores every session record of the database as a session with a running timer.
\<close>

theorem sess_load_restores:
  assumes "cld_reliable E com cur" and "sv_mem s = []"
  shows "\<exists>s'. sess_load E s = (0, s') \<and> com (sv_db s') = com (sv_db s) \<and>
    (\<forall>p < sv_next s. sv_heap s' p = sv_heap s p) \<and>
    (\<forall>sid raw. v_sess (com (sv_db s)) sid = Some raw \<longrightarrow> (\<exists>p. sv_heap s' p = Some (loaded E raw)))"
proof -
  note rel = assms(1)
  note env = cld_reliable.axioms(1) [OF rel]
  note db = cld_env.axioms [OF env]
  obtain s1 where b: "db_rc (db_txn_begin (e_db E)) s = (Inr (), s1)"
    using cld_reliable.total_begin(1) [OF rel] by (rule succeeds_unitE)
  obtain s2 where c: "db_rc (db_cursor (e_db E)) s1 = (Inr (), s2)"
    using cld_reliable.total_cursor(1) [OF rel] by (rule succeeds_unitE)
  obtain raws e d where sc: "db_sess_scan (e_db E) (sv_db s2) = ((raws, e), d)" by (metis surj_pair)
  have call: "db_call (db_sess_scan (e_db E)) s2 = (Inr (raws, e) :: dberr + _, s2\<lparr>sv_db := d\<rparr>)"
    using sc by (simp add: db_call_def)
  have e: "e = DB_NOTFOUND"
    using cld_reliable.scan_complete [OF rel bdb_reliable.sure_sess_scan [OF cld_reliable.axioms(2) [OF rel]] call] .
  have cur2: "cur (sv_db s2) = com (sv_db s)" "com (sv_db s2) = com (sv_db s)"
    using cld_env.begin_ok [OF env b] keepsD [OF cld_env.keeps_com_cursor(2) [OF env] c]
      keepsD [OF cld_env.keeps_com_cursor(1) [OF env] c] by auto
  have set: "set raws = ran (v_sess (com (sv_db s)))"
    using cld_env.call_ok [OF env bdb.sess_scan [OF db] call] e cur2 by auto
  have d: "com d = com (sv_db s)" "cur d = com (sv_db s)"
    using bdb.sess_scan [OF db] sc cur2 unfolding reads_def by fastforce+
  let ?t = "s2\<lparr>sv_db := d\<rparr>"
  have t: "sv_mem ?t = []" "sv_next ?t = sv_next s" "sv_heap ?t = sv_heap s"
    using sv_restD [OF cld_env.begin_ok(3) [OF env b]] sv_restD [OF keepsD [OF keeps_rest_db(1) c]] assms(2) by auto
  obtain s3 where l: "load_loop E raws e ?t = (True, s3)" "sv_db s3 = d" "\<forall>p < sv_next s. sv_heap s3 p = sv_heap s p"
    "\<forall>i < length raws. sv_heap s3 (sv_next s + i) = Some (loaded E (raws ! i))"
    using load_loop_ok [OF t(1), of E raws e] t e by auto
  obtain r4 s4 where cc: "db_rc (db_cursor_close (e_db E)) s3 = (r4, s4)" by fastforce
  have s4: "com (sv_db s4) = com (sv_db s)" "cur (sv_db s4) = com (sv_db s)" "sv_heap s4 = sv_heap s3"
    using cc bdb.cursor_close [OF db] l(2) d sv_restD(1) [OF keepsD [OF keeps_rest_db(1) cc]]
    by (auto simp: db_rc_def reads_def split: prod.splits option.splits)
  obtain r5 s5 where cm: "db_rc (db_txn_commit (e_db E)) s4 = (r5, s5)" by fastforce
  have s5: "com (sv_db s5) = com (sv_db s)" "sv_heap s5 = sv_heap s3"
    using cld_env.commit_ok [OF env cm] sv_restD(1) [OF cld_env.commit_ok(2) [OF env cm]] s4 by (auto split: sum.splits)
  have "sess_load E s = (0, s5)"
    using b c sc l(1) cc cm by (simp add: sess_load_def sess_load_db_def)
  moreover have "\<exists>p. sv_heap s5 p = Some (loaded E raw)" if "v_sess (com (sv_db s)) sid = Some raw" for sid raw
  proof -
    have "raw \<in> set raws" using that set by (auto simp: ran_def)
    then obtain i where "i < length raws" "raws ! i = raw" by (auto simp: in_set_conv_nth)
    with l(4) s5 show ?thesis by metis
  qed
  ultimately show ?thesis using s5 l(3) by (intro exI [of _ s5]) auto
qed

theorem sess_load_restores_witness:
  "\<exists>s' p. sess_load (ref_env False) (sample_srv sample_tabs) = (0, s') \<and>
     sv_heap s' p = Some (loaded (ref_env False) (session_encode sample_sess))"
proof -
  have "v_sess (view_of sample_tabs) (ss_sid sample_sess) = Some (session_encode sample_sess)"
    by (simp add: view_of_def sample_tabs_def)
  then show ?thesis
    using sess_load_restores [OF rr.cld_reliable_axioms, of "sample_srv sample_tabs"]
    by (auto simp del: sample_sess_sel)
qed

end
