(* ===== verification/Dirdata.thy ===== *)
theory Dirdata
  imports Cld_Common
begin

text \<open>
  Names and directories of the lock server, from the head of \<^verbatim>\<open>cld/msg.c\<close>: which path names are
  valid, how a path is split, and the packed directory data (records of a 16-bit length, the
  name, padding to 8 bytes). The directory functions are shown to implement lists of names.
\<close>

section \<open>Path names\<close>

fun memmem :: "bytes \<Rightarrow> bytes \<Rightarrow> bool" where
  "memmem [] needle = (needle = [])"
| "memmem (c # hay) needle = (take (length needle) (c # hay) = needle \<or> memmem hay needle)"

definition memrchr :: "bytes \<Rightarrow> u8 \<Rightarrow> nat option" where
  "memrchr s c =
     (let n = length (takeWhile (\<lambda>x. x \<noteq> c) (rev s)) in
      if n = length s then None else Some (length s - 1 - n))"

definition valid_inode_name :: "bytes \<Rightarrow> bool" where
  "valid_inode_name name \<longleftrightarrow>
     (if name = [] \<or> hd name = 0 then False
      else if 0 \<in> set name then False
      else if hd name \<noteq> 47 then False
      else if length name > 1 \<and> last name = 47 then False
      else if memmem name [47, 47] then False
      else True)"

record pathname_info =
  pi_dir :: bytes
  pi_base :: bytes

definition pathname_parse :: "bytes \<Rightarrow> pathname_info" where
  "pathname_parse path =
     (case memrchr path 47 of
        None \<Rightarrow> \<lparr>pi_dir = [], pi_base = path\<rparr>
      | Some lsl \<Rightarrow>
          if lsl = 0 then
            \<lparr>pi_dir = take 1 path, pi_base = (if length path = 1 then path else drop 1 path)\<rparr>
          else
            let ofs = lsl + 1 in
            \<lparr>pi_dir = take (ofs - 1) path, pi_base = drop ofs path\<rparr>)"

section \<open>Directory data\<close>

text \<open>\<open>Inl\<close> is the negative return code; \<open>Inr\<close> the offset and the length of the record.\<close>

function dirent_find_loop :: "bytes \<Rightarrow> bytes \<Rightarrow> nat \<Rightarrow> nat \<Rightarrow> int + nat \<times> nat" where
  "dirent_find_loop data name p tmp_len =
     (if tmp_len = 0 then Inl (- 1)
      else if tmp_len < 2 then Inl (- 2)
      else
        let str_len = unat (of_le_bytes (take 2 (drop p data)) :: u16);
            rec_len = str_len + 2;
            pad = CLD_ALIGN8 rec_len;
            total_len = rec_len + pad
        in if total_len > tmp_len then Inl (- 2)
           else if length name = str_len \<and> memcmp (take (length name) (drop (p + 2) data)) name = 0
           then Inr (p, total_len)
           else dirent_find_loop data name (p + total_len) (tmp_len - total_len))"
  by pat_completeness auto
termination
  by (relation "measure (\<lambda>(data, name, p, tmp_len). tmp_len)") (auto simp: Let_def)

declare dirent_find_loop.simps [simp del]

definition dirent_find :: "bytes \<Rightarrow> bytes \<Rightarrow> int + nat \<times> nat" where
  "dirent_find data name = dirent_find_loop data name 0 (length data)"

definition dirdata_delete :: "bytes \<Rightarrow> bytes \<Rightarrow> bytes option" where
  "dirdata_delete data name =
     (case dirent_find data name of
        Inl rc \<Rightarrow> None
      | Inr (ofs, ent_len) \<Rightarrow> Some (take ofs data @ drop (ofs + ent_len) data))"

text \<open>\<open>mem_ok\<close>: whether the \<^verbatim>\<open>realloc\<close> succeeds.\<close>

definition dirdata_append :: "bool \<Rightarrow> bytes \<Rightarrow> bytes \<Rightarrow> bytes option" where
  "dirdata_append mem_ok data name =
     (let rec_len = length name + 2; pad = CLD_ALIGN8 rec_len in
      if \<not> mem_ok then None
      else Some (data @ le_bytes 2 (word_of_nat (length name) :: u16) @ name @ replicate pad 0))"

section \<open>Directories as lists of names\<close>

definition dir_ent :: "bytes \<Rightarrow> bytes" where
  "dir_ent name =
     le_bytes 2 (word_of_nat (length name) :: u16) @ name @ replicate (CLD_ALIGN8 (length name + 2)) 0"

definition dir_enc :: "bytes list \<Rightarrow> bytes" where
  "dir_enc names = concat (map dir_ent names)"

definition dir_name :: "bytes \<Rightarrow> bool" where
  "dir_name name \<longleftrightarrow> length name < 65536"

lemma length_dir_ent: "length (dir_ent n) = length n + 2 + CLD_ALIGN8 (length n + 2)"
  by (simp add: dir_ent_def)

lemma find_loop_dir:
  assumes "list_all dir_name names" and "data = pre @ dir_enc names"
  shows "dirent_find_loop data name (length pre) (length (dir_enc names)) =
    (if name \<in> set names
     then Inr (length pre + length (dir_enc (takeWhile (\<lambda>n. n \<noteq> name) names)), length (dir_ent name))
     else Inl (- 1))"
  using assms
proof (induction names arbitrary: pre)
  case Nil
  then show ?case by (subst dirent_find_loop.simps) (simp add: dir_enc_def)
next
  case (Cons n names)
  let ?tot = "length (dir_ent n)"
  have n: "length n < 65536" using Cons.prems(1) by (simp add: dir_name_def)
  have data: "data = pre @ dir_ent n @ dir_enc names" using Cons.prems(2) by (simp add: dir_enc_def)
  have len: "length (dir_enc (n # names)) = ?tot + length (dir_enc names)" by (simp add: dir_enc_def)
  have "take 2 (drop (length pre) data) = le_bytes 2 (word_of_nat (length n) :: u16)"
    using data by (simp add: dir_ent_def)
  then have str: "unat (of_le_bytes (take 2 (drop (length pre) data)) :: u16) = length n"
    using n by (simp add: unsigned_of_nat take_bit_nat_eq_self)
  have here: "take (length n) (drop (length pre + 2) data) = n"
    using data by (simp add: dir_ent_def)
  have tot: "length n + 2 + CLD_ALIGN8 (length n + 2) = ?tot" by (simp add: length_dir_ent)
  have step: "dirent_find_loop data name (length pre) (length (dir_enc (n # names))) =
      (if n = name then Inr (length pre, ?tot)
       else dirent_find_loop data name (length pre + ?tot) (length (dir_enc names)))"
  proof -
    have long: "\<not> length (dir_enc (n # names)) < 2" "length (dir_enc (n # names)) \<noteq> 0"
      "\<not> ?tot > length (dir_enc (n # names))" "length (dir_enc (n # names)) - ?tot = length (dir_enc names)"
      using len tot by linarith+
    have same: "length name = length n \<and> memcmp (take (length name) (drop (length pre + 2) data)) name = 0 \<longleftrightarrow> n = name"
      using here by (metis memcmp_eq_0)
    show ?thesis
      by (subst dirent_find_loop.simps)
        (simp only: Let_def str tot long same if_False if_True cong: if_cong, simp add: length_dir_ent)
  qed
  show ?case
  proof (cases "n = name")
    case True
    then show ?thesis using step by (simp add: dir_enc_def)
  next
    case False
    have "dirent_find_loop data name (length (pre @ dir_ent n)) (length (dir_enc names)) =
      (if name \<in> set names
       then Inr (length (pre @ dir_ent n) + length (dir_enc (takeWhile (\<lambda>n. n \<noteq> name) names)), length (dir_ent name))
       else Inl (- 1))"
      using Cons.prems data by (intro Cons.IH) auto
    with False step show ?thesis by (auto simp: dir_enc_def)
  qed
qed

lemma dirent_find_dir:
  "list_all dir_name names \<Longrightarrow> dirent_find (dir_enc names) name =
    (if name \<in> set names then Inr (length (dir_enc (takeWhile (\<lambda>n. n \<noteq> name) names)), length (dir_ent name))
     else Inl (- 1))"
  using find_loop_dir [of names "dir_enc names" "[]" name] by (simp add: dirent_find_def)

lemma split_first: "name \<in> set names \<Longrightarrow>
   \<exists>post. names = takeWhile (\<lambda>n. n \<noteq> name) names @ name # post \<and> remove1 name names = takeWhile (\<lambda>n. n \<noteq> name) names @ post"
  by (induction names) auto

section \<open>Properties\<close>

text \<open>
  C31: the packed directory implements a list of names: appending encodes the list with the name
  at the end, a search finds the first record of the name or reports \<open>-1\<close>, deleting encodes the
  list without its first occurrence or fails if there is none; so a name can be found after it
  was appended and is gone after it was deleted, and all other names are untouched.
\<close>

theorem dirdata_refines:
  assumes "list_all dir_name names" and "dir_name name"
  shows "dirdata_append True (dir_enc names) name = Some (dir_enc (names @ [name])) \<and>
    dirdata_delete (dir_enc names) name =
      (if name \<in> set names then Some (dir_enc (remove1 name names)) else None) \<and>
    (dirent_find (dir_enc names) name = Inl (- 1) \<longleftrightarrow> name \<notin> set names) \<and>
    8 dvd length (dir_enc names)"
proof -
  have app: "dirdata_append True (dir_enc names) name = Some (dir_enc (names @ [name]))"
    by (simp add: dirdata_append_def dir_enc_def dir_ent_def Let_def)
  have del: "dirdata_delete (dir_enc names) name =
      (if name \<in> set names then Some (dir_enc (remove1 name names)) else None)"
  proof (cases "name \<in> set names")
    case True
    obtain post where p: "names = takeWhile (\<lambda>n. n \<noteq> name) names @ name # post"
      "remove1 name names = takeWhile (\<lambda>n. n \<noteq> name) names @ post"
      using split_first [OF True] by blast
    let ?tw = "takeWhile (\<lambda>n. n \<noteq> name) names"
    have enc: "dir_enc names = dir_enc ?tw @ dir_ent name @ dir_enc post"
      using arg_cong [OF p(1), of dir_enc] by (simp add: dir_enc_def)
    have "take (length (dir_enc ?tw)) (dir_enc names) = dir_enc ?tw"
      "drop (length (dir_enc ?tw) + length (dir_ent name)) (dir_enc names) = dir_enc post"
      by (simp_all add: enc)
    moreover have "dir_enc (remove1 name names) = dir_enc ?tw @ dir_enc post"
      unfolding p(2) by (simp add: dir_enc_def)
    ultimately show ?thesis
      using True by (simp add: dirdata_delete_def dirent_find_dir [OF assms(1)])
  qed (simp add: dirdata_delete_def dirent_find_dir [OF assms(1)])
  have "8 dvd length (dir_enc names)"
  proof (induction names)
    case (Cons n names)
    have "8 dvd length (dir_ent n)" using CLD_ALIGN8_dvd [of "length n + 2"] by (simp add: length_dir_ent)
    with Cons have "8 dvd length (dir_ent n) + length (dir_enc names)" by (rule dvd_add [rotated])
    then show ?case by (simp add: dir_enc_def)
  qed (simp add: dir_enc_def)
  then show ?thesis using app del by (simp add: dirent_find_dir [OF assms(1)])
qed

theorem dirdata_refines_witness:
  "dirdata_delete (dir_enc [[97], [98, 99]]) [97] = Some (dir_enc [[98, 99]])"
  using dirdata_refines [of "[[97], [98, 99]]" "[97]"] by (simp add: dir_name_def)

lemma memrchr_split:
  assumes "c \<in> set s"
  shows "\<exists>pre post. s = pre @ c # post \<and> c \<notin> set post \<and> memrchr s c = Some (length pre)"
proof -
  obtain pre post where s: "s = pre @ c # post" "c \<notin> set post"
    using assms by (metis split_list_last)
  have "takeWhile (\<lambda>x. x \<noteq> c) (rev s) = rev post"
    using s by (subst s(1)) (auto simp: takeWhile_tail)
  then have "memrchr s c = Some (length pre)"
    using s by (simp add: memrchr_def)
  with s show ?thesis by blast
qed

lemma memmem_mid: "take (length n) (b # post) = n \<Longrightarrow> memmem (pre @ b # post) n"
  by (induction pre) auto

lemma memmem_prefix: "memmem pre [a, b] \<Longrightarrow> memmem (pre @ post) [a, b]"
proof (induction pre)
  case (Cons c pre)
  then show ?case by (cases pre) auto
qed simp

text \<open>
  Splitting a valid path of at least two characters yields a valid directory path and a
  non-empty base name without a slash, and the path is their concatenation (with a slash in
  between unless the directory is the root).
\<close>

theorem pathname_parse_valid:
  assumes "valid_inode_name name" and "2 \<le> length name" and "pathname_parse name = \<lparr>pi_dir = dir, pi_base = base\<rparr>"
  shows "valid_inode_name dir \<and> base \<noteq> [] \<and> 47 \<notin> set base \<and> 0 \<notin> set base \<and>
    name = (if dir = [47] then dir @ base else dir @ 47 # base)"
proof -
  have ne: "name \<noteq> []" and no0: "0 \<notin> set name" and hd: "hd name = 47" and lst: "last name \<noteq> 47"
    and mm: "\<not> memmem name [47, 47]"
    using assms(1,2) by (auto simp: valid_inode_name_def split: if_splits)
  have "47 \<in> set name" using ne hd by (metis hd_in_set)
  then obtain pre post where s: "name = pre @ 47 # post" "47 \<notin> set post" "memrchr name 47 = Some (length pre)"
    using memrchr_split by blast
  have post: "post \<noteq> []" using lst s(1) by auto
  show ?thesis
  proof (cases pre)
    case Nil
    then have "dir = [47]" "base = post"
      using assms(3) s post by (auto simp: pathname_parse_def)
    then show ?thesis using s post no0 Nil by (auto simp: valid_inode_name_def)
  next
    case (Cons c pre')
    then have d: "dir = pre" "base = post"
      using assms(3) s by (auto simp: pathname_parse_def Let_def)
    have c: "c = 47" using hd s(1) Cons by simp
    have last: "last pre \<noteq> 47"
    proof
      assume "last pre = 47"
      then have "pre = butlast pre @ [47]" using Cons by (metis append_butlast_last_id list.distinct(1))
      then have "name = butlast pre @ 47 # 47 # post" using s(1) by (metis append.assoc append_Cons append_Nil)
      with memmem_mid [of "[47, 47]" 47 "47 # post" "butlast pre"] mm show False by simp
    qed
    have "\<not> memmem pre [47, 47]" using mm memmem_prefix s(1) by metis
    moreover have "0 \<notin> set pre" "pre \<noteq> [47]" using no0 s(1) last by auto
    ultimately show ?thesis
      using d s post no0 last c Cons by (auto simp: valid_inode_name_def)
  qed
qed

theorem pathname_parse_valid_witness:
  "pi_dir (pathname_parse [47, 97, 47, 98]) = [47, 97] \<and> valid_inode_name [47, 97]"
proof -
  have "pathname_parse [47, 97, 47, 98] = \<lparr>pi_dir = [47, 97], pi_base = [98]\<rparr>"
    by (simp add: pathname_parse_def memrchr_def)
  moreover have "valid_inode_name [47, 97, 47, 98]" by (simp add: valid_inode_name_def)
  ultimately show ?thesis using pathname_parse_valid [of "[47, 97, 47, 98]" "[47, 97]" "[98]"] by simp
qed

end
