(* ===== verification/Cld_Msg.thy ===== *)
theory Cld_Msg
  imports Cld_Session Dirdata
begin

text \<open>
  The request handlers of the lock server (\<^verbatim>\<open>cld/msg.c\<close>). Each opens a transaction, runs its body,
  aborts and replies with an error code when the body fails, commits and replies otherwise. A body
  is a computation whose error is the reply code; \<open>with_txn\<close> is the frame the handlers share.
\<close>

section \<open>The frame of a handler\<close>

definition with_txn ::
    "'d env \<Rightarrow> nat \<Rightarrow> ('d srv, cle_err_codes, 'a) esm \<Rightarrow> ('a \<Rightarrow> 'd srv \<Rightarrow> 'd srv) \<Rightarrow> 'd srv \<Rightarrow> 'd srv" where
  "with_txn E sess body reply s =
     (case db_rc (db_txn_begin (e_db E)) s of
        (Inl rc, s) \<Rightarrow> sess_sendresp_generic E sess CLE_DB_ERR s
      | (Inr _, s) \<Rightarrow>
          (case body s of
             (Inl resp_rc, s) \<Rightarrow> sess_sendresp_generic E sess resp_rc (snd (db_rc (db_txn_abort (e_db E)) s))
           | (Inr x, s) \<Rightarrow>
               (case db_rc (db_txn_commit (e_db E)) s of
                  (Inl rc, s) \<Rightarrow> sess_sendresp_generic E sess CLE_DB_ERR s
                | (Inr _, s) \<Rightarrow> reply x s)))"

text \<open>Failure of a database call mapped to a reply code.\<close>

definition or_fail :: "cle_err_codes \<Rightarrow> ('d srv, dberr, 'a) esm \<Rightarrow> ('d srv, cle_err_codes, 'a) esm" where
  "or_fail code m = on_err (\<lambda>_. code) m"

definition sess_sid :: "nat \<Rightarrow> ('d srv, 'e, sid) esm" where
  "sess_sid sess = gets (\<lambda>s. ss_sid (sess_at s sess))"

section \<open>Reading\<close>

definition get_data :: "'d env \<Rightarrow> raw_inode \<Rightarrow> cldino \<Rightarrow> ('d srv, cle_err_codes, bytes) esm" where
  "get_data E inode inum =
     ebind (attempt (cldb_data_get E inum)) (\<lambda>r.
     case r of
       Inl rc \<Rightarrow> if rc \<noteq> DB_NOTFOUND then throw CLE_DB_ERR else ret []
     | Inr data_mem \<Rightarrow> if length data_mem \<noteq> unat (ri_size inode) then throw CLE_DB_ERR else ret data_mem)"

definition get_body :: "'d env \<Rightarrow> nat \<Rightarrow> u64 \<Rightarrow> ('d srv, cle_err_codes, cld_msg_get_resp) esm" where
  "get_body E sess fh =
     ebind (sess_sid sess) (\<lambda>sid.
     ebind (or_fail CLE_FH_INVAL (cldb_handle_get E sid fh)) (\<lambda>h.
     let inum = rh_inum h; omode = rh_mode h in
     if \<not> has_flag omode COM_READ then throw CLE_MODE_INVAL
     else
     ebind (or_fail CLE_INODE_INVAL (cldb_inode_get E inum)) (\<lambda>inode.
     ebind (gets (\<lambda>s. sess_at s sess)) (\<lambda>x.
     ebind (if ss_msg_op x = CMO_GET then get_data E inode inum else ret []) (\<lambda>data.
     ret \<lparr>gr_code = CLE_OK, gr_xid_in = ss_msg_xid x, gr_inum = ri_inum inode, gr_vers = ri_version inode,
          gr_time_create = ri_time_create inode, gr_time_modify = ri_time_modify inode,
          gr_flags = ri_flags inode, gr_inode_name = take (unat (ri_ino_len inode)) (ri_name inode),
          gr_data = data\<rparr>)))))"

text \<open>The response is sent before the read-only transaction is closed, whose result only goes to the log.\<close>

definition msg_get :: "'d env \<Rightarrow> nat \<Rightarrow> u64 \<Rightarrow> 'd srv \<Rightarrow> 'd srv" where
  "msg_get E sess fh s =
     (case db_rc (db_txn_begin (e_db E)) s of
        (Inl rc, s) \<Rightarrow> sess_sendresp_generic E sess CLE_DB_ERR s
      | (Inr _, s) \<Rightarrow>
          (case get_body E sess fh s of
             (Inl resp_rc, s) \<Rightarrow> sess_sendresp_generic E sess resp_rc (snd (db_rc (db_txn_abort (e_db E)) s))
           | (Inr resp, s) \<Rightarrow>
               snd (db_rc (db_txn_commit (e_db E)) (snd (sess_sendmsg E sess (Get_resp resp) CMO_GET None s)))))"

section \<open>Opening\<close>

text \<open>A new inode, entered into the data of its parent directory.\<close>

definition parent_data :: "'d env \<Rightarrow> raw_inode \<Rightarrow> ('d srv, cle_err_codes, bytes) esm" where
  "parent_data E parent =
     ebind (attempt (cldb_data_get E (ri_inum parent))) (\<lambda>r.
     case r of
       Inl rc \<Rightarrow> if rc = DB_NOTFOUND then ret [] else throw CLE_DB_ERR
     | Inr data \<Rightarrow> ret data)"

definition open_create :: "'d env \<Rightarrow> bytes \<Rightarrow> bool \<Rightarrow> ('d srv, cle_err_codes, raw_inode) esm" where
  "open_create E name do_dir =
     (let pinfo = pathname_parse name in
      ebind (call (cldb_inode_new E name 0)) (\<lambda>io.
      case io of
        None \<Rightarrow> throw CLE_OOM
      | Some inode \<Rightarrow>
          let inode = (if do_dir then inode\<lparr>ri_flags := ri_flags inode OR CIFL_DIR\<rparr> else inode) in
          ebind (or_fail CLE_DB_ERR (cldb_inode_get_byname E (pi_dir pinfo))) (\<lambda>parent.
          ebind (parent_data E parent) (\<lambda>pdata.
          ebind (call srv_alloc) (\<lambda>ok.
          case dirdata_append ok pdata (pi_base pinfo) of
            None \<Rightarrow> throw CLE_OOM
          | Some pdata \<Rightarrow>
              ebind (or_fail CLE_DB_ERR (cldb_data_put E (ri_inum parent) pdata)) (\<lambda>_.
              ebind (or_fail CLE_DB_ERR (inode_touch E (parent\<lparr>ri_size := word_of_nat (length pdata)\<rparr>))) (\<lambda>_.
              ret inode)))))))"

text \<open>The handle, the inode if it is new, and the session with its advanced handle counter.\<close>

definition open_finish :: "'d env \<Rightarrow> nat \<Rightarrow> cld_msg_open \<Rightarrow> bool \<Rightarrow> raw_inode \<Rightarrow> ('d srv, cle_err_codes, u64) esm" where
  "open_finish E sess om create inode =
     ebind (call (cldb_handle_new E sess (ri_inum inode) (om_mode om) (om_events om))) (\<lambda>ho.
     case ho of
       None \<Rightarrow> throw CLE_OOM
     | Some h \<Rightarrow>
         ebind (or_fail CLE_DB_ERR (cldb_handle_put E h)) (\<lambda>_.
         ebind (if create then or_fail CLE_DB_ERR (inode_touch E inode) else ret ()) (\<lambda>_.
         ebind (call (session_new_raw sess)) (\<lambda>ro.
         case ro of
           None \<Rightarrow> throw CLE_OOM
         | Some raw_sess \<Rightarrow>
             ebind (or_fail CLE_DB_ERR (cldb_session_put E raw_sess)) (\<lambda>_. ret (rh_fh h))))))"

definition open_body :: "'d env \<Rightarrow> nat \<Rightarrow> cld_msg_open \<Rightarrow> ('d srv, cle_err_codes, u64) esm" where
  "open_body E sess om =
     (let name = om_inode_name om;
          create = has_flag (om_mode om) COM_CREATE;
          excl = has_flag (om_mode om) COM_EXCL;
          do_dir = has_flag (om_mode om) COM_DIRECTORY
      in if \<not> valid_inode_name name \<or> create \<and> length name < 2 then throw CLE_NAME_INVAL
         else
           ebind (attempt (cldb_inode_get_byname E name)) (\<lambda>r.
           case r of
             Inl rc \<Rightarrow>
               if rc \<noteq> DB_NOTFOUND then throw CLE_DB_ERR
               else if \<not> create then throw CLE_NAME_INVAL
               else ebind (open_create E name do_dir) (\<lambda>inode. open_finish E sess om True inode)
           | Inr inode \<Rightarrow>
               if create \<and> excl then throw CLE_INODE_EXISTS
               else if do_dir \<noteq> has_flag (ri_flags inode) CIFL_DIR then throw CLE_MODE_INVAL
               else open_finish E sess om False inode))"

definition msg_open :: "'d env \<Rightarrow> nat \<Rightarrow> cld_msg_open \<Rightarrow> 'd srv \<Rightarrow> 'd srv" where
  "msg_open E sess om =
     with_txn E sess (open_body E sess om) (\<lambda>fh s.
       snd (sess_sendmsg E sess (Open_resp CLE_OK (ss_msg_xid (sess_at s sess)) fh) CMO_OPEN None s))"

section \<open>Writing and closing\<close>

definition put_body :: "'d env \<Rightarrow> nat \<Rightarrow> cld_msg_put \<Rightarrow> ('d srv, cle_err_codes, unit) esm" where
  "put_body E sess put =
     ebind (sess_sid sess) (\<lambda>sid.
     ebind (or_fail CLE_FH_INVAL (cldb_handle_get E sid (pm_fh put))) (\<lambda>h.
     let inum = rh_inum h; omode = rh_mode h in
     if \<not> has_flag omode COM_WRITE \<or> has_flag omode COM_DIRECTORY then throw CLE_MODE_INVAL
     else
     ebind (or_fail CLE_INODE_INVAL (cldb_inode_get E inum)) (\<lambda>inode.
     ebind (or_fail CLE_DB_ERR (cldb_data_put E inum (pm_data put))) (\<lambda>_.
     or_fail CLE_DB_ERR (inode_touch E (inode\<lparr>ri_size := word_of_nat (length (pm_data put))\<rparr>))))))"

definition msg_put :: "'d env \<Rightarrow> nat \<Rightarrow> cld_msg_put \<Rightarrow> 'd srv \<Rightarrow> 'd srv" where
  "msg_put E sess put = with_txn E sess (put_body E sess put) (\<lambda>_. sess_sendresp_generic E sess CLE_OK)"

definition close_body :: "'d env \<Rightarrow> nat \<Rightarrow> u64 \<Rightarrow> ('d srv, cle_err_codes, unit) esm" where
  "close_body E sess fh =
     ebind (sess_sid sess) (\<lambda>sid.
     ebind (on_err (\<lambda>rc. if rc = DB_NOTFOUND then CLE_FH_INVAL else CLE_DB_ERR) (cldb_handle_get E sid fh)) (\<lambda>h.
     let lock_inum = (if has_flag (rh_mode h) COM_LOCK then rh_inum h else 0) in
     ebind (or_fail CLE_DB_ERR (cldb_handle_del E sid fh)) (\<lambda>_.
     ebind (or_fail CLE_DB_ERR (session_remove_locks E sid fh lock_inum)) (\<lambda>waiter.
     if waiter then or_fail CLE_DB_ERR (inode_lock_rescan E lock_inum) else ret ()))))"

definition msg_close :: "'d env \<Rightarrow> nat \<Rightarrow> u64 \<Rightarrow> 'd srv \<Rightarrow> 'd srv" where
  "msg_close E sess fh = with_txn E sess (close_body E sess fh) (\<lambda>_. sess_sendresp_generic E sess CLE_OK)"

section \<open>Deleting\<close>

definition rmdir_check :: "'d env \<Rightarrow> raw_inode \<Rightarrow> ('d srv, cle_err_codes, unit) esm" where
  "rmdir_check E ino =
     (if has_flag (ri_flags ino) CIFL_DIR
      then
        ebind (attempt (db_val (db_data_get (e_db E) (ri_inum ino)))) (\<lambda>r.
        case r of
          Inl rc \<Rightarrow> if rc \<noteq> DB_NOTFOUND then throw CLE_DB_ERR else ret ()
        | Inr val \<Rightarrow> if length val > 0 then throw CLE_DIR_NOTEMPTY else ret ())
      else ret ())"

text \<open>A deletion for which a missing record is no error.\<close>

definition del_any :: "('d, rc) dbop \<Rightarrow> ('d srv, cle_err_codes, unit) esm" where
  "del_any f =
     ebind (attempt (db_rc f)) (\<lambda>r.
     case r of
       Inl rc \<Rightarrow> if rc \<noteq> DB_NOTFOUND then throw CLE_DB_ERR else ret ()
     | Inr _ \<Rightarrow> ret ())"

definition del_inode :: "'d env \<Rightarrow> raw_inode \<Rightarrow> ('d srv, cle_err_codes, unit) esm" where
  "del_inode E ino =
     ebind (or_fail CLE_DB_ERR (inode_notify E (ri_inum ino) True)) (\<lambda>_.
     ebind (on_err (\<lambda>rc. if rc = DB_NOTFOUND then CLE_INODE_INVAL else CLE_DB_ERR)
              (db_rc (db_inode_del (e_db E) (ri_inum ino)))) (\<lambda>_.
     ebind (del_any (db_data_del (e_db E) (ri_inum ino))) (\<lambda>_.
     del_any (db_hidx_del (e_db E) (ri_inum ino)))))"

definition del_body :: "'d env \<Rightarrow> bytes \<Rightarrow> ('d srv, cle_err_codes, unit) esm" where
  "del_body E name =
     (let pinfo = pathname_parse name in
      ebind (or_fail CLE_DB_ERR (cldb_inode_get_byname E (pi_dir pinfo))) (\<lambda>parent.
      ebind (or_fail CLE_DB_ERR (cldb_data_get E (ri_inum parent))) (\<lambda>pdata.
      ebind (on_err (\<lambda>rc. if rc = DB_NOTFOUND then CLE_NAME_INVAL else CLE_DB_ERR) (cldb_inode_get_byname E name)) (\<lambda>ino.
      ebind (rmdir_check E ino) (\<lambda>_.
      ebind (del_inode E ino) (\<lambda>_.
      case dirdata_delete pdata (pi_base pinfo) of
        None \<Rightarrow> throw CLE_DB_ERR
      | Some pdata \<Rightarrow>
          ebind (or_fail CLE_DB_ERR (cldb_data_put E (ri_inum parent) pdata)) (\<lambda>_.
          or_fail CLE_DB_ERR (inode_touch E (parent\<lparr>ri_size := word_of_nat (length pdata)\<rparr>)))))))))"

definition msg_del :: "'d env \<Rightarrow> nat \<Rightarrow> bytes \<Rightarrow> 'd srv \<Rightarrow> 'd srv" where
  "msg_del E sess name s =
     (if \<not> valid_inode_name name \<or> length name < 2 then sess_sendresp_generic E sess CLE_NAME_INVAL s
      else with_txn E sess (del_body E name) (\<lambda>_. sess_sendresp_generic E sess CLE_OK) s)"

section \<open>Locking\<close>

definition unlock_body :: "'d env \<Rightarrow> nat \<Rightarrow> u64 \<Rightarrow> ('d srv, cle_err_codes, unit) esm" where
  "unlock_body E sess fh =
     ebind (sess_sid sess) (\<lambda>sid.
     ebind (or_fail CLE_FH_INVAL (cldb_handle_get E sid fh)) (\<lambda>h.
     if \<not> has_flag (rh_mode h) COM_LOCK then throw CLE_MODE_INVAL
     else or_fail CLE_LOCK_INVAL (cldb_lock_del E sid fh (rh_inum h))))"

definition msg_unlock :: "'d env \<Rightarrow> nat \<Rightarrow> u64 \<Rightarrow> 'd srv \<Rightarrow> 'd srv" where
  "msg_unlock E sess fh = with_txn E sess (unlock_body E sess fh) (\<lambda>_. sess_sendresp_generic E sess CLE_OK)"

definition lock_body :: "'d env \<Rightarrow> nat \<Rightarrow> cld_msg_lock \<Rightarrow> ('d srv, cle_err_codes, bool) esm" where
  "lock_body E sess lock =
     ebind (gets (\<lambda>s. ss_msg_op (sess_at s sess) = CMO_LOCK)) (\<lambda>wait.
     ebind (sess_sid sess) (\<lambda>sid.
     ebind (or_fail CLE_FH_INVAL (cldb_handle_get E sid (lm_fh lock))) (\<lambda>h.
     if \<not> has_flag (rh_mode h) COM_LOCK then throw CLE_MODE_INVAL
     else
       on_err (\<lambda>rc. if rc = DB_KEYEXIST then CLE_LOCK_CONFLICT else CLE_DB_ERR)
         (cldb_lock_add E sid (lm_fh lock) (rh_inum h) (has_flag (lm_flags lock) CLF_SHARED) wait))))"

definition msg_lock :: "'d env \<Rightarrow> nat \<Rightarrow> cld_msg_lock \<Rightarrow> 'd srv \<Rightarrow> 'd srv" where
  "msg_lock E sess lock =
     with_txn E sess (lock_body E sess lock) (\<lambda>acquired.
       if \<not> acquired then sess_sendresp_generic E sess CLE_LOCK_PENDING else sess_sendresp_generic E sess CLE_OK)"

section \<open>What a body does besides the database\<close>

text \<open>The messages sent while a body runs are events; the reply comes last.\<close>

definition is_event :: "nat \<times> u32 \<times> cld_msg \<Rightarrow> bool" where
  "is_event m \<longleftrightarrow> fst (snd m) = CMO_EVENT"

definition emits :: "('d srv \<Rightarrow> 'r \<times> 'd srv) \<Rightarrow> bool" where
  "emits m \<longleftrightarrow> (\<forall>s r s'. m s = (r, s') \<longrightarrow> (\<exists>ev. sv_log s' = sv_log s @ ev \<and> list_all is_event ev))"

named_theorems emits_intros \<open>computations that send nothing but events\<close>

lemma emitsD: "emits m \<Longrightarrow> m s = (r, s') \<Longrightarrow> \<exists>ev. sv_log s' = sv_log s @ ev \<and> list_all is_event ev"
  by (simp add: emits_def)

lemma emits_log: "keeps sv_log m \<Longrightarrow> emits m"
  by (auto simp: emits_def keeps_def intro!: exI [of _ "[]"])

lemma emits_rest: "keeps sv_rest m \<Longrightarrow> emits m"
  by (rule emits_log) (auto simp: keeps_def dest!: sv_restD(4))

lemma emits_basic [emits_intros]: "emits (ret x)" "emits (throw e)" "emits (gets f)"
  by (intro emits_rest keeps_basic)+

lemma emits_db [emits_intros]: "emits (db_rc f)" "emits (db_val g)" "emits (db_call h)"
  by (intro emits_rest keeps_rest_db)+

lemma emits_bind [emits_intros]:
  assumes "emits m" and "\<And>x. emits (f x)" shows "emits (ebind m f)"
  unfolding emits_def
proof (intro allI impI)
  fix s r s'
  assume run: "ebind m f s = (r, s')"
  obtain q s1 where q: "m s = (q, s1)" by fastforce
  obtain ev1 where ev1: "sv_log s1 = sv_log s @ ev1" "list_all is_event ev1" using emitsD [OF assms(1) q] by blast
  show "\<exists>ev. sv_log s' = sv_log s @ ev \<and> list_all is_event ev"
  proof (cases q)
    case (Inl e)
    then show ?thesis using run q ev1 by (auto simp: ebind_def)
  next
    case (Inr x)
    then obtain ev2 where "sv_log s' = sv_log s1 @ ev2" "list_all is_event ev2"
      using run q emitsD [OF assms(2)] by (fastforce simp: ebind_def)
    with ev1 show ?thesis by (intro exI [of _ "ev1 @ ev2"]) simp
  qed
qed

lemma emits_wrap [emits_intros]:
  "emits m \<Longrightarrow> emits (on_err h m)" "emits m \<Longrightarrow> emits (attempt m)" "emits m \<Longrightarrow> emits (or_fail c m)"
  "emits k \<Longrightarrow> emits (call k)"
  by (fastforce simp: emits_def on_err_def attempt_def or_fail_def call_def split: prod.splits sum.splits)+

lemma emits_if [emits_intros]: "(b \<Longrightarrow> emits m) \<Longrightarrow> (\<not> b \<Longrightarrow> emits m') \<Longrightarrow> emits (if b then m else m')"
  by simp

lemma emits_option [emits_intros]:
  "emits m \<Longrightarrow> (\<And>y. emits (g y)) \<Longrightarrow> emits (case x of None \<Rightarrow> m | Some y \<Rightarrow> g y)"
  by (cases x) auto

lemma emits_sum [emits_intros]:
  "(\<And>y. emits (g y)) \<Longrightarrow> (\<And>y. emits (h y)) \<Longrightarrow> emits (case x of Inl y \<Rightarrow> g y | Inr y \<Rightarrow> h y)"
  by (cases x) auto

lemma emits_prod [emits_intros]: "(\<And>a b. emits (g a b)) \<Longrightarrow> emits (case x of (a, b) \<Rightarrow> g a b)"
  by (cases x) auto

lemma emits_let [emits_intros]: "emits (g x) \<Longrightarrow> emits (let y = x in g y)"
  by simp

lemma emits_closing [emits_intros]: "emits m \<Longrightarrow> emits (closing E m)"
  by (fastforce simp: emits_def closing_def db_call_def split: prod.splits)

lemma emits_cldb [emits_intros]:
  "emits (cldb_session_del E sid)" "emits (cldb_session_put E rs)" "emits (cldb_inode_get E i)"
  "emits (cldb_inode_get_byname E n)" "emits (cldb_inode_put E ino)" "emits (cldb_data_get E i)"
  "emits (cldb_data_put E i b)" "emits (cldb_handle_get E sid fh)" "emits (cldb_handle_put E h)" "emits (cldb_handle_del E sid fh)"
  by (intro emits_rest keeps_rest_cldb)+

lemma emits_event [emits_intros]: "emits (sess_sendmsg E sess msg CMO_EVENT cb)"
  using sess_sendmsg_frame by (fastforce simp: emits_def is_event_def)

lemma emits_notify_loop: "emits (modify (notify_loop E deleted hs))"
proof -
  have "\<exists>ev. sv_log (notify_loop E deleted hs s) = sv_log s @ ev \<and> list_all is_event ev" for s
  proof (induction hs arbitrary: s)
    case (Cons h hs)
    show ?case
    proof (cases "htab_get (sv_sessions s) (rh_sid h)")
      case None
      then show ?thesis using Cons.IH by (cases deleted) auto
    next
      case (Some p)
      obtain ok s1 where m: "sess_sendmsg E p (Event (rh_fh h) (if deleted then CE_DELETED else CE_UPDATED)) CMO_EVENT None s = (ok, s1)"
        by fastforce
      obtain ev1 where ev1: "sv_log s1 = sv_log s @ ev1" "list_all is_event ev1" using emitsD [OF emits_event m] by blast
      obtain ev2 where ev2: "sv_log (notify_loop E deleted hs s1) = sv_log s1 @ ev2" "list_all is_event ev2"
        using Cons.IH by blast
      have "\<exists>ev. sv_log (notify_loop E deleted hs s1) = sv_log s @ ev \<and> list_all is_event ev"
        using ev1 ev2 by (intro exI [of _ "ev1 @ ev2"]) simp
      with Some m ev1 Cons.IH show ?thesis by auto
    qed
  qed simp
  then show ?thesis by (auto simp: emits_def modify_def)
qed

lemma emits_inode [emits_intros]:
  "emits (inode_notify E inum deleted)" "emits (inode_touch E ino)"
  "emits (inode_lock_rescan E inum)" "emits (session_remove_locks E sid fh inum)"
proof -
  show n: "emits (inode_notify E inum deleted)" for inum deleted
    unfolding inode_notify_def by (intro emits_intros emits_notify_loop)
  show "emits (inode_touch E ino)"
    unfolding inode_touch_def by (intro emits_intros n)
  have r: "emits (rescan_loop E inum acq recs e)" for acq recs e
  proof (induction recs arbitrary: acq)
    case (Cons l recs)
    show ?case unfolding rescan_loop.simps by (intro emits_intros Cons.IH)
  qed (auto intro: emits_intros)
  show "emits (inode_lock_rescan E inum)"
    unfolding inode_lock_rescan_def by (intro emits_intros r)
  show "emits (session_remove_locks E sid fh inum)" by (intro emits_rest keeps_rest_remove_locks)
qed

lemma emits_alloc [emits_intros]: "emits srv_alloc" "emits (srv_rand E)" "emits (session_new_raw sess)"
  by (auto intro!: emits_log simp: keeps_def srv_alloc_def srv_rand_def session_new_raw_def split: prod.splits if_splits)

lemma emits_handle_new [emits_intros]: "emits (cldb_handle_new E sess i m ev)"
  by (rule emits_log) (auto simp: keeps_def cldb_handle_new_def srv_alloc_def Let_def split: prod.splits if_splits)

lemma keeps_log_inode_new: "keeps sv_log (cldb_inode_new E name flags)"
proof -
  have "keeps sv_log (inode_new_loop E n)" for n
  proof (induction n)
    case 0
    then show ?case by (auto simp: keeps_def inode_new_loop.simps)
  next
    case (Suc n)
    show ?case
      unfolding keeps_def
    proof (intro allI impI)
      fix s r s'
      assume run: "inode_new_loop E (Suc n) s = (r, s')"
      obtain v s1 where v: "srv_rand E s = (v, s1)" by fastforce
      obtain g s2 where g: "cldb_inode_get E (ucast v) s1 = (g, s2)" by fastforce
      have "sv_log s2 = sv_log s" "sv_log s1 = sv_log s"
        using v sv_restD(4) [OF keepsD [OF keeps_rest_cldb(3) g]] by (auto simp: srv_rand_def)
      then show "sv_log s' = sv_log s"
        using run v g Suc.IH
        by (subst (asm) inode_new_loop.simps) (auto simp: Let_def keeps_def split: if_splits sum.splits)
    qed
  qed
  then show ?thesis
    by (fastforce simp: keeps_def cldb_inode_new_def cldb_inode_mem_def srv_alloc_def
        split: prod.splits option.splits if_splits)
qed

lemma emits_lock [emits_intros]:
  "emits (cldb_lock_add E sid fh inum shared wait)" "emits (cldb_lock_del E sid fh inum)"
proof -
  have f: "emits (lock_find_loop w recs e)" for w recs e
    by (intro emits_rest keeps_lock_find_loop)
  show "emits (cldb_lock_add E sid fh inum shared wait)"
    unfolding cldb_lock_add_def cldb_lock_find_def cldb_lock_store_def by (intro emits_intros f)
  have d: "emits (lock_del_loop E sid fh inum recs e)" for recs e
    by (induction recs) (auto intro: emits_intros)
  show "emits (cldb_lock_del E sid fh inum)"
    unfolding cldb_lock_del_def by (intro emits_intros d)
qed

lemma emits_bodies [emits_intros]:
  "emits (put_body E sess put)" "emits (get_body E sess fh)" "emits (close_body E sess fh)" "emits (del_body E name)"
  "emits (unlock_body E sess fh)" "emits (lock_body E sess lock)" "emits (open_body E sess om)"
  unfolding put_body_def get_body_def get_data_def close_body_def del_body_def rmdir_check_def del_inode_def del_any_def
    unlock_body_def lock_body_def open_body_def open_create_def open_finish_def parent_data_def sess_sid_def
  by (intro emits_intros emits_log [OF keeps_log_inode_new])+

text \<open>What identifies the requester and the clock; the handle counter is not part of it.\<close>

definition sv_ids :: "'d srv \<Rightarrow> u64 \<times> (sid, nat) htab \<times> (nat \<Rightarrow> sid \<times> u32 \<times> u64 \<times> bool \<times> bytes)" where
  "sv_ids s = (sv_now s, sv_sessions s,
     \<lambda>q. (ss_sid (sess_at s q), ss_msg_op (sess_at s q), ss_msg_xid (sess_at s q), sv_heap s q = None, ss_msg_buf (sess_at s q)))"

lemma sv_idsD:
  assumes "sv_ids s' = sv_ids s"
  shows "sv_now s' = sv_now s" "sv_sessions s' = sv_sessions s" "ss_sid (sess_at s' q) = ss_sid (sess_at s q)"
    "ss_msg_op (sess_at s' q) = ss_msg_op (sess_at s q)" "ss_msg_xid (sess_at s' q) = ss_msg_xid (sess_at s q)"
    "sv_heap s' q = None \<longleftrightarrow> sv_heap s q = None" "ss_msg_buf (sess_at s' q) = ss_msg_buf (sess_at s q)"
  using assms by (auto simp: sv_ids_def dest: fun_cong [of _ _ q])

lemma sv_ids_env: "sv_env s' = sv_env s \<Longrightarrow> sv_ids s' = sv_ids s"
proof -
  assume e: "sv_env s' = sv_env s"
  then have h: "heap_pub s' = heap_pub s" by (rule sv_envD(3))
  show ?thesis using sv_envD(1,2) [OF e] heap_pub_sel(1,2,3,7,8) [OF h] by (simp add: sv_ids_def)
qed

lemma keeps_ids_env: "keeps sv_env m \<Longrightarrow> keeps sv_ids m"
  unfolding keeps_def by (blast intro: sv_ids_env)

lemma keeps_ids_db [keeps_intros]: "keeps sv_ids (db_rc f)" "keeps sv_ids (db_val g)" "keeps sv_ids (db_call h)"
  by (intro keeps_ids_env keeps_env_db)+

lemma keeps_ids_cldb [keeps_intros]:
  "keeps sv_ids (cldb_session_del E sid)" "keeps sv_ids (cldb_session_put E rs)" "keeps sv_ids (cldb_inode_get E i)"
  "keeps sv_ids (cldb_inode_get_byname E n)" "keeps sv_ids (cldb_inode_put E ino)" "keeps sv_ids (cldb_data_get E i)"
  "keeps sv_ids (cldb_data_put E i b)" "keeps sv_ids (cldb_handle_get E sid fh)" "keeps sv_ids (cldb_handle_put E h)"
  "keeps sv_ids (cldb_handle_del E sid fh)"
  by (intro keeps_ids_env sv_env_rest keeps_rest_cldb)+

lemma keeps_ids_helpers [keeps_intros]:
  "keeps sv_ids (inode_notify E inum deleted)" "keeps sv_ids (inode_touch E ino)"
  "keeps sv_ids (inode_lock_rescan E inum)" "keeps sv_ids (session_remove_locks E sid fh inum)" "keeps sv_ids srv_alloc"
  by (intro keeps_ids_env keeps_intros)+

lemma keeps_or_fail [keeps_intros]: "keeps f m \<Longrightarrow> keeps f (or_fail c m)"
  unfolding or_fail_def by (rule keeps_on_err)

lemma keeps_ids_new [keeps_intros]:
  "keeps sv_ids (cldb_handle_new E sess i m ev)" "keeps sv_ids (session_new_raw sess)" "keeps sv_ids (srv_rand E)"
proof -
  have u: "sv_ids (sess_upd sess (\<lambda>x. x\<lparr>ss_next_fh := ss_next_fh x + 1\<rparr>) s) = sv_ids s" for s :: "'d srv"
    by (auto simp: sv_ids_def fun_eq_iff sess_upd_def sess_at_def split: option.splits)
  have a: "sv_ids (s\<lparr>sv_mem := m\<rparr>) = sv_ids s" "sv_ids (s\<lparr>sv_rand := n\<rparr>) = sv_ids s" for s :: "'d srv" and m n
    by (simp_all add: sv_ids_def sess_at_def)
  show "keeps sv_ids (cldb_handle_new E sess i m ev)" "keeps sv_ids (session_new_raw sess)" "keeps sv_ids (srv_rand E)"
    by (auto simp: keeps_def cldb_handle_new_def session_new_raw_def srv_alloc_def srv_rand_def Let_def u a split: prod.splits if_splits)
qed

lemma keeps_ids_inode_new [keeps_intros]: "keeps sv_ids (cldb_inode_new E name flags)"
proof -
  have "keeps sv_ids (inode_new_loop E n)" for n
  proof (induction n)
    case 0
    then show ?case by (auto simp: keeps_def inode_new_loop.simps)
  next
    case (Suc n)
    show ?case
      unfolding keeps_def
    proof (intro allI impI)
      fix s r s'
      assume run: "inode_new_loop E (Suc n) s = (r, s')"
      obtain v s1 where v: "srv_rand E s = (v, s1)" by fastforce
      obtain g s2 where g: "cldb_inode_get E (ucast v) s1 = (g, s2)" by fastforce
      have "sv_ids s2 = sv_ids s" "sv_ids s1 = sv_ids s"
        using keepsD [OF keeps_ids_cldb(3) g] keepsD [OF keeps_ids_new(3) v] by simp_all
      then show "sv_ids s' = sv_ids s"
        using run v g Suc.IH
        by (subst (asm) inode_new_loop.simps) (auto simp: Let_def keeps_def split: if_splits sum.splits)
    qed
  qed
  then show ?thesis
    using keepsD [OF keeps_ids_helpers(5)]
    by (fastforce simp: keeps_def cldb_inode_new_def cldb_inode_mem_def split: prod.splits option.splits if_splits)
qed

lemma keeps_ids_closing [keeps_intros]: "keeps sv_ids m \<Longrightarrow> keeps sv_ids (closing E m)"
  by (auto simp: keeps_def closing_def db_call_def sv_ids_def sess_at_def fun_eq_iff split: prod.splits)

lemma keeps_ids_lock [keeps_intros]:
  "keeps sv_ids (cldb_lock_add E sid fh inum shared wait)" "keeps sv_ids (cldb_lock_del E sid fh inum)"
proof -
  have d: "keeps sv_ids (lock_del_loop E sid fh inum recs e)" for recs e
    by (induction recs) (auto intro: keeps_intros)
  show "keeps sv_ids (cldb_lock_add E sid fh inum shared wait)" "keeps sv_ids (cldb_lock_del E sid fh inum)"
    unfolding cldb_lock_add_def cldb_lock_find_def cldb_lock_store_def cldb_lock_del_def
    by (intro keeps_intros d keeps_lock_find_loop)+
qed

lemmas body_defs = put_body_def get_body_def get_data_def close_body_def del_body_def rmdir_check_def del_inode_def
  del_any_def unlock_body_def lock_body_def open_body_def open_create_def open_finish_def parent_data_def sess_sid_def

lemma keeps_ids_bodies:
  "keeps sv_ids (put_body E sess put)" "keeps sv_ids (get_body E sess fh)" "keeps sv_ids (close_body E sess fh)"
  "keeps sv_ids (del_body E name)" "keeps sv_ids (unlock_body E sess fh)" "keeps sv_ids (lock_body E sess lock)"
  "keeps sv_ids (open_body E sess om)"
  unfolding body_defs by (intro keeps_intros)+

text \<open>No body fails with one of the codes that stand for success.\<close>

definition good_code :: "cle_err_codes \<Rightarrow> bool" where
  "good_code c \<longleftrightarrow> c = CLE_OK \<or> c = CLE_LOCK_PENDING"

definition honest :: "('s, cle_err_codes, 'a) esm \<Rightarrow> bool" where
  "honest m \<longleftrightarrow> (\<forall>s e s'. m s = (Inl e, s') \<longrightarrow> \<not> good_code e)"

named_theorems honest_intros \<open>computations whose errors are errors\<close>

lemma honest_basic [honest_intros]:
  "honest (ret x)" "honest (gets f)" "honest (call k)" "honest (attempt n)" "\<not> good_code c \<Longrightarrow> honest (throw c)"
  by (auto simp: honest_def esm_simps split: prod.splits)

lemma honest_bind [honest_intros]: "honest m \<Longrightarrow> (\<And>x. honest (f x)) \<Longrightarrow> honest (ebind m f)"
  by (fastforce simp: honest_def ebind_def split: prod.splits sum.splits)

lemma honest_fail [honest_intros]:
  "\<not> good_code c \<Longrightarrow> honest (or_fail c m)" "(\<And>e. \<not> good_code (h e)) \<Longrightarrow> honest (on_err h m)"
  by (auto simp: honest_def or_fail_def on_err_def split: prod.splits sum.splits)

lemma honest_case [honest_intros]:
  "(b \<Longrightarrow> honest m) \<Longrightarrow> (\<not> b \<Longrightarrow> honest m') \<Longrightarrow> honest (if b then m else m')"
  "honest m1 \<Longrightarrow> (\<And>y. honest (g1 y)) \<Longrightarrow> honest (case x1 of None \<Rightarrow> m1 | Some y \<Rightarrow> g1 y)"
  "(\<And>y. honest (g2 y)) \<Longrightarrow> (\<And>y. honest (h2 y)) \<Longrightarrow> honest (case x2 of Inl y \<Rightarrow> g2 y | Inr y \<Rightarrow> h2 y)"
  "honest (g3 x3) \<Longrightarrow> honest (let y = x3 in g3 y)"
  by (simp_all split: option.splits sum.splits)

lemma not_good [simp]:
  "\<not> good_code CLE_DB_ERR" "\<not> good_code CLE_FH_INVAL" "\<not> good_code CLE_MODE_INVAL" "\<not> good_code CLE_INODE_INVAL"
  "\<not> good_code CLE_NAME_INVAL" "\<not> good_code CLE_OOM" "\<not> good_code CLE_LOCK_INVAL" "\<not> good_code CLE_LOCK_CONFLICT"
  "\<not> good_code CLE_INODE_EXISTS" "\<not> good_code CLE_DIR_NOTEMPTY"
  by (simp_all add: good_code_def)

lemma honest_bodies:
  "honest (put_body E sess put)" "honest (get_body E sess fh)" "honest (close_body E sess fh)" "honest (del_body E name)"
  "honest (unlock_body E sess fh)" "honest (lock_body E sess lock)" "honest (open_body E sess om)"
  unfolding body_defs by (intro honest_intros; simp)+

context cld_env
begin

lemma keeps_com_new:
  "keeps (\<lambda>s. com (sv_db s)) (cldb_handle_new E sess i m ev)" "keeps (\<lambda>s. com (sv_db s)) (session_new_raw sess)"
  "keeps (\<lambda>s. com (sv_db s)) srv_alloc"
  by (auto simp: keeps_def cldb_handle_new_def session_new_raw_def srv_alloc_def Let_def split: prod.splits if_splits)

lemma keeps_com_bodies:
  "keeps (\<lambda>s. com (sv_db s)) (put_body E sess put)" "keeps (\<lambda>s. com (sv_db s)) (get_body E sess fh)"
  "keeps (\<lambda>s. com (sv_db s)) (close_body E sess fh)" "keeps (\<lambda>s. com (sv_db s)) (del_body E name)"
  "keeps (\<lambda>s. com (sv_db s)) (unlock_body E sess fh)" "keeps (\<lambda>s. com (sv_db s)) (lock_body E sess lock)"
  "keeps (\<lambda>s. com (sv_db s)) (open_body E sess om)"
  unfolding body_defs
  by (intro keeps_intros keeps_com_cldb keeps_com_db keeps_com_touch keeps_com_notify keeps_com_rescan keeps_com_remove_locks
      keeps_lock_add keeps_lock_del keeps_inode_new keeps_com_new)+

text \<open>A transaction either ends in an error reply and nothing is committed, or the body's content is.\<close>

lemma with_txn_cases:
  assumes "keeps (\<lambda>s. com (sv_db s)) body" and "keeps sv_ids body" and "emits body" and "honest body"
    and "s' = with_txn E p body reply s"
  obtains (failed) code ev where "com (sv_db s') = com (sv_db s)" and "\<not> good_code code" and "list_all is_event ev"
      and "sv_log s' = sv_log s @ ev @ [(p, ss_msg_op (sess_at s p), Generic_resp code (ss_msg_xid (sess_at s p)))]"
      and "code = CLE_DB_ERR \<or> (\<exists>s1 s2. db_rc (db_txn_begin (e_db E)) s = (Inr (), s1) \<and> body s1 = (Inl code, s2))"
    | (committed) x s1 s2 s3 ev where "db_rc (db_txn_begin (e_db E)) s = (Inr (), s1)" and "body s1 = (Inr x, s2)"
      and "db_rc (db_txn_commit (e_db E)) s2 = (Inr (), s3)"
      and "s' = reply x s3" and "cur (sv_db s1) = com (sv_db s)" and "com (sv_db s3) = cur (sv_db s2)"
      and "sv_ids s1 = sv_ids s" and "sv_ids s3 = sv_ids s" and "sv_log s3 = sv_log s @ ev" and "list_all is_event ev"
proof -
  have reply: "\<exists>ev. sv_log (sess_sendresp_generic E p c t) = sv_log s @ ev @ [(p, ss_msg_op (sess_at s p), Generic_resp c (ss_msg_xid (sess_at s p)))] \<and>
      list_all is_event ev \<and> com (sv_db (sess_sendresp_generic E p c t)) = com (sv_db t)"
    if "sv_ids t = sv_ids s" "sv_log t = sv_log s @ ev" "list_all is_event ev" for c t ev
    using that sv_idsD(4,5) [OF that(1), of p] sess_sendresp_generic_frame [of E p c t] by (intro exI [of _ ev]) simp
  obtain r1 s1 where b: "db_rc (db_txn_begin (e_db E)) s = (r1, s1)" by fastforce
  have s1: "sv_ids s1 = sv_ids s" "sv_log s1 = sv_log s" "com (sv_db s1) = com (sv_db s)"
    using keepsD [OF keeps_ids_db(1) b] sv_restD(4) [OF begin_ok(3) [OF b]] begin_ok(1) [OF b] by simp_all
  show thesis
  proof (cases r1)
    case (Inl e)
    then have "s' = sess_sendresp_generic E p CLE_DB_ERR s1" using assms(5) b by (simp add: with_txn_def)
    then show thesis using reply [OF s1(1), of "[]" CLE_DB_ERR] s1 failed [of CLE_DB_ERR] by auto
  next
    case b1: (Inr u)
    obtain r2 s2 where m: "body s1 = (r2, s2)" by fastforce
    obtain ev where ev: "sv_log s2 = sv_log s @ ev" "list_all is_event ev" using emitsD [OF assms(3) m] s1 by auto
    have s2: "sv_ids s2 = sv_ids s" "com (sv_db s2) = com (sv_db s)"
      using keepsD [OF assms(2) m] keepsD [OF assms(1) m] s1 by simp_all
    show thesis
    proof (cases r2)
      case (Inl code)
      let ?t = "snd (db_rc (db_txn_abort (e_db E)) s2)"
      have t: "sv_ids ?t = sv_ids s" "sv_log ?t = sv_log s @ ev" "com (sv_db ?t) = com (sv_db s)"
        using keepsD [OF keeps_ids_db(1) prod.collapse [symmetric], of "db_txn_abort (e_db E)" s2] sv_restD(4) [OF db_rc_rest [of "db_txn_abort (e_db E)" s2]] abort_ok s2 ev
        by simp_all
      have "s' = sess_sendresp_generic E p code ?t" using assms(5) b b1 m Inl by (simp add: with_txn_def)
      moreover have "\<not> good_code code" using assms(4) m Inl by (auto simp: honest_def)
      ultimately show thesis
        using reply [OF t(1,2) ev(2), of code] t(3) failed [of code] b b1 m Inl by auto
    next
      case b2: (Inr x)
      obtain r3 s3 where c: "db_rc (db_txn_commit (e_db E)) s2 = (r3, s3)" by fastforce
      have s3: "sv_ids s3 = sv_ids s" "sv_log s3 = sv_log s @ ev"
        using keepsD [OF keeps_ids_db(1) c] sv_restD(4) [OF commit_ok(2) [OF c]] s2 ev by simp_all
      show thesis
      proof (cases r3)
        case (Inl e)
        then have "s' = sess_sendresp_generic E p CLE_DB_ERR s3" using assms(5) b b1 m b2 c by (simp add: with_txn_def)
        then show thesis
          using reply [OF s3 ev(2), of CLE_DB_ERR] commit_ok(1) [OF c] Inl s2 failed [of CLE_DB_ERR] by auto
      next
        case (Inr v)
        then have "s' = reply x s3" using assms(5) b b1 m b2 c by (simp add: with_txn_def)
        then show thesis
          using committed [of s1 x s2 s3 ev] b b1 m b2 c Inr begin_ok(2) [OF b] commit_ok(1) [OF c] s1 s3 ev by simp
      qed
    qed
  qed
qed

end

section \<open>Effects of the bodies\<close>

text \<open>The inode as \<open>inode_touch\<close> stores it.\<close>

definition stamp :: "u64 \<Rightarrow> raw_inode \<Rightarrow> raw_inode" where
  "stamp now ino = (let t = touched now ino in t\<lparr>ri_name := take (unat (ri_ino_len t)) (ri_name t)\<rparr>)"

definition put_inode :: "u64 \<Rightarrow> raw_inode \<Rightarrow> dbview \<Rightarrow> dbview" where
  "put_inode now ino v = v\<lparr>v_inodes := (v_inodes v)(ri_inum ino \<mapsto> stamp now ino)\<rparr>"

definition put_data :: "cldino \<Rightarrow> bytes \<Rightarrow> dbview \<Rightarrow> dbview" where
  "put_data i b v = v\<lparr>v_data := (v_data v)(i \<mapsto> b)\<rparr>"

definition put_handle :: "raw_handle \<Rightarrow> dbview \<Rightarrow> dbview" where
  "put_handle h v = v\<lparr>v_handles := (v_handles v)(hkey h \<mapsto> h)\<rparr>"

definition put_locks :: "cldino \<Rightarrow> raw_lock list \<Rightarrow> dbview \<Rightarrow> dbview" where
  "put_locks i ls v = v\<lparr>v_locks := (v_locks v)(i := ls)\<rparr>"

definition sized :: "raw_inode \<Rightarrow> bytes \<Rightarrow> raw_inode" where
  "sized ino data = ino\<lparr>ri_size := word_of_nat (length data)\<rparr>"

lemma stamp_sel [simp]:
  "ri_inum (stamp now ino) = ri_inum ino" "ri_ino_len (stamp now ino) = ri_ino_len ino" "ri_size (stamp now ino) = ri_size ino"
  "ri_name (stamp now ino) = take (unat (ri_ino_len ino)) (ri_name ino)" "ri_flags (stamp now ino) = ri_flags ino"
  by (simp_all add: stamp_def touched_def Let_def)

lemma sized_sel [simp]:
  "ri_inum (sized ino d) = ri_inum ino" "ri_ino_len (sized ino d) = ri_ino_len ino" "ri_name (sized ino d) = ri_name ino"
  "ri_size (sized ino d) = word_of_nat (length d)" "ri_flags (sized ino d) = ri_flags ino"
  by (simp_all add: sized_def)

lemma name_free_upd [simp]:
  "name_free t (put_data i b v) = name_free t v" "name_free t (put_handle h v) = name_free t v"
  "name_free (stamp now (sized ino d)) v = name_free (stamp now ino) v"
  by (simp_all add: name_free_def put_data_def put_handle_def inode_name_key_def)

lemma or_fail_Ok [simp]: "or_fail c m s = (Inr x, s') \<longleftrightarrow> m s = (Inr x, s')"
  by (simp add: or_fail_def)

lemma sess_sid_Ok [simp]: "sess_sid p s = (Inr sid, s') \<longleftrightarrow> sid = ss_sid (sess_at s p) \<and> s' = s"
  by (auto simp: sess_sid_def gets_def)

context cld_env
begin

lemma touch_ok:
  assumes "inode_touch E ino s = (Inr u, s')"
  shows "name_free (stamp (sv_now s) ino) (cur (sv_db s))" "cur (sv_db s') = put_inode (sv_now s) ino (cur (sv_db s))"
  using inode_touch_ok [OF assms] by (auto simp: Let_def stamp_def put_inode_def touched_def)

lemma handle_get_ok: "cldb_handle_get E sid fh s = (Inr h, s') \<Longrightarrow>
    v_handles (cur (sv_db s)) (sid, fh) = Some h \<and> cur (sv_db s') = cur (sv_db s) \<and> sv_rest s' = sv_rest s"
  using val_ok [OF handle_get] keepsD [OF keeps_cur_cldb(4)] keepsD [OF keeps_rest_cldb(8)]
  by (fastforce simp: cldb_handle_get_def found_def)

lemma inode_get_ok: "cldb_inode_get E i s = (Inr x, s') \<Longrightarrow>
    v_inodes (cur (sv_db s)) i = Some x \<and> cur (sv_db s') = cur (sv_db s) \<and> sv_rest s' = sv_rest s"
  using val_ok [OF inode_get] keepsD [OF keeps_cur_cldb(1)] keepsD [OF keeps_rest_cldb(3)]
  by (fastforce simp: cldb_inode_get_def found_def)

lemma byname_ok: "cldb_inode_get_byname E n s = (Inr x, s') \<Longrightarrow>
    v_inodes (cur (sv_db s)) (ri_inum x) = Some x \<and> inode_name_key x = Some n \<and> cur (sv_db s') = cur (sv_db s) \<and> sv_rest s' = sv_rest s"
  using val_ok [OF inode_byname] keepsD [OF keeps_cur_cldb(2)] keepsD [OF keeps_rest_cldb(4)]
  by (fastforce simp: cldb_inode_get_byname_def)

lemma data_get_ok: "cldb_data_get E i s = (r, s') \<Longrightarrow>
    found (v_data (cur (sv_db s)) i) r \<and> cur (sv_db s') = cur (sv_db s) \<and> sv_rest s' = sv_rest s"
  using val_ok [OF data_get] keepsD [OF keeps_cur_cldb(3)] keepsD [OF keeps_rest_cldb(6)]
  by (fastforce simp: cldb_data_get_def)

lemma data_put_ok: "cldb_data_put E i b s = (Inr u, s') \<Longrightarrow> cur (sv_db s') = put_data i b (cur (sv_db s)) \<and> sv_rest s' = sv_rest s"
  using rc_ok [OF data_put] keepsD [OF keeps_rest_cldb(7)] by (fastforce simp: cldb_data_put_def put_data_def)

lemma put_body_ok:
  assumes "put_body E p put s = (Inr u, s')"
  shows "\<exists>h ino. v_handles (cur (sv_db s)) (ss_sid (sess_at s p), pm_fh put) = Some h \<and>
    has_flag (rh_mode h) COM_WRITE \<and> \<not> has_flag (rh_mode h) COM_DIRECTORY \<and> v_inodes (cur (sv_db s)) (rh_inum h) = Some ino \<and>
    name_free (stamp (sv_now s) (sized ino (pm_data put))) (cur (sv_db s)) \<and>
    cur (sv_db s') = put_inode (sv_now s) (sized ino (pm_data put)) (put_data (rh_inum h) (pm_data put) (cur (sv_db s)))"
proof -
  obtain h s1 where h: "cldb_handle_get E (ss_sid (sess_at s p)) (pm_fh put) s = (Inr h, s1)"
    and m: "has_flag (rh_mode h) COM_WRITE" "\<not> has_flag (rh_mode h) COM_DIRECTORY"
    and r1: "ebind (or_fail CLE_INODE_INVAL (cldb_inode_get E (rh_inum h))) (\<lambda>inode.
      ebind (or_fail CLE_DB_ERR (cldb_data_put E (rh_inum h) (pm_data put))) (\<lambda>_.
      or_fail CLE_DB_ERR (inode_touch E (sized inode (pm_data put))))) s1 = (Inr u, s')"
    using assms by (auto simp: put_body_def Let_def sized_def elim!: ebind_OkE split: if_splits)
  obtain ino s2 s3 where i: "cldb_inode_get E (rh_inum h) s1 = (Inr ino, s2)" and d: "cldb_data_put E (rh_inum h) (pm_data put) s2 = (Inr (), s3)"
    and t: "inode_touch E (sized ino (pm_data put)) s3 = (Inr u, s')"
    using r1 by (auto elim!: ebind_OkE)
  note e = handle_get_ok [OF h] inode_get_ok [OF i] data_put_ok [OF d] touch_ok [OF t]
  have now: "sv_now s3 = sv_now s" using e sv_restD(3) by metis
  show ?thesis using e m now by (intro exI [of _ h] exI [of _ ino]) auto
qed

lemma unlock_body_ok:
  assumes "unlock_body E p fh s = (Inr u, s')"
  shows "\<exists>h l. v_handles (cur (sv_db s)) (ss_sid (sess_at s p), fh) = Some h \<and> has_flag (rh_mode h) COM_LOCK \<and>
    find (lock_of (ss_sid (sess_at s p)) fh) (v_locks (cur (sv_db s)) (rh_inum h)) = Some l \<and>
    cur (sv_db s') = put_locks (rh_inum h) (remove1 l (v_locks (cur (sv_db s)) (rh_inum h))) (cur (sv_db s))"
proof -
  obtain h s1 where h: "cldb_handle_get E (ss_sid (sess_at s p)) fh s = (Inr h, s1)" "has_flag (rh_mode h) COM_LOCK"
    and d: "cldb_lock_del E (ss_sid (sess_at s p)) fh (rh_inum h) s1 = (Inr u, s')"
    using assms by (auto simp: unlock_body_def elim!: ebind_OkE split: if_splits)
  from lock_del_ok [OF d] handle_get_ok [OF h(1)] h(2) show ?thesis by (auto simp: put_locks_def)
qed

lemma lock_body_ok:
  assumes "lock_body E p lock s = (Inr acq, s')" and "sid = ss_sid (sess_at s p)" and "shared = has_flag (lm_flags lock) CLF_SHARED"
  shows "\<exists>h. v_handles (cur (sv_db s)) (sid, lm_fh lock) = Some h \<and> has_flag (rh_mode h) COM_LOCK \<and>
    (acq \<longleftrightarrow> \<not> list_ex (lock_conflict shared) (v_locks (cur (sv_db s)) (rh_inum h))) \<and>
    (acq \<or> ss_msg_op (sess_at s p) = CMO_LOCK) \<and>
    cur (sv_db s') = put_locks (rh_inum h) (lock_insert (new_lock sid (lm_fh lock) (rh_inum h) shared (\<not> acq) (sv_now s))
      (v_locks (cur (sv_db s)) (rh_inum h))) (cur (sv_db s))"
proof -
  obtain h s1 where h: "cldb_handle_get E sid (lm_fh lock) s = (Inr h, s1)" "has_flag (rh_mode h) COM_LOCK"
    and a: "cldb_lock_add E sid (lm_fh lock) (rh_inum h) shared (ss_msg_op (sess_at s p) = CMO_LOCK) s1 = (Inr acq, s')"
    using assms by (auto simp: lock_body_def gets_def elim!: ebind_OkE split: if_splits)
  have "sv_now s1 = sv_now s" using handle_get_ok [OF h(1)] sv_restD(3) by metis
  with lock_add_ok [OF a] handle_get_ok [OF h(1)] h(2) show ?thesis by (auto simp: put_locks_def)
qed

lemma close_body_ok:
  assumes "close_body E p fh s = (Inr u, s')" and "sid = ss_sid (sess_at s p)"
  shows "\<exists>h. v_handles (cur (sv_db s)) (sid, fh) = Some h \<and>
    cur (sv_db s') = (let i = if has_flag (rh_mode h) COM_LOCK then rh_inum h else 0; v = cur (sv_db s) in
      put_locks i (unmatched sid fh (v_locks v i)) (v\<lparr>v_handles := (v_handles v)((sid, fh) := None)\<rparr>))"
proof -
  obtain h s1 s2 w s3 where h: "cldb_handle_get E sid fh s = (Inr h, s1)" and d: "cldb_handle_del E sid fh s1 = (Inr (), s2)"
    and l: "session_remove_locks E sid fh (if has_flag (rh_mode h) COM_LOCK then rh_inum h else 0) s2 = (Inr w, s3)"
    and r: "(if w then or_fail CLE_DB_ERR (inode_lock_rescan E (if has_flag (rh_mode h) COM_LOCK then rh_inum h else 0)) else ret ()) s3 = (Inr u, s')"
    using assms by (auto simp: close_body_def Let_def elim!: ebind_OkE)
  have "cur (sv_db s') = cur (sv_db s3)" using r rescan_cur by (auto split: if_splits)
  with remove_locks_ok [OF l] rc_ok [OF handle_del d [unfolded cldb_handle_del_def]] handle_get_ok [OF h] show ?thesis
    by (auto simp: Let_def put_locks_def)
qed

end

text \<open>The inode of a new file or directory, and the directory record it gets in its parent.\<close>

definition fresh_inode :: "cldino \<Rightarrow> bytes \<Rightarrow> bool \<Rightarrow> u64 \<Rightarrow> raw_inode" where
  "fresh_inode i name do_dir now =
     \<lparr>ri_inum = i, ri_ino_len = word_of_nat (length name), ri_size = 0, ri_version = 0, ri_time_create = now,
      ri_time_modify = now, ri_flags = (if do_dir then CIFL_DIR else 0), ri_name = name\<rparr>"

definition data_or_empty :: "dbview \<Rightarrow> cldino \<Rightarrow> bytes" where
  "data_or_empty v i = (case v_data v i of None \<Rightarrow> [] | Some d \<Rightarrow> d)"

definition link_child :: "u64 \<Rightarrow> raw_inode \<Rightarrow> bytes \<Rightarrow> dbview \<Rightarrow> dbview" where
  "link_child now parent base v =
     (let d = data_or_empty v (ri_inum parent) @ dir_ent base in put_inode now (sized parent d) (put_data (ri_inum parent) d v))"

lemma dirdata_append_ent: "dirdata_append ok d name = (if ok then Some (d @ dir_ent name) else None)"
  by (simp add: dirdata_append_def dir_ent_def Let_def)

context cld_env
begin

lemma inode_new_ok:
  assumes "cldb_inode_new E name flags s = (Some ino, s')"
  shows "v_inodes (cur (sv_db s)) (ri_inum ino) = None \<and> CLD_INO_RESERVED_LAST < ri_inum ino \<and>
    ino = \<lparr>ri_inum = ri_inum ino, ri_ino_len = word_of_nat (length name), ri_size = 0, ri_version = 0,
      ri_time_create = sv_now s, ri_time_modify = sv_now s, ri_flags = flags, ri_name = name\<rparr> \<and>
    cur (sv_db s') = cur (sv_db s) \<and> sv_now s' = sv_now s"
proof -
  obtain i s1 where l: "inode_new_loop E 100000 s = (Some i, s1)" and m: "cldb_inode_mem E name flags i s1 = (Some ino, s')"
    using assms by (auto simp: cldb_inode_new_def split: prod.splits option.splits)
  show ?thesis using inode_new_loop_ok [OF l] m
    by (auto simp: cldb_inode_mem_def srv_alloc_def split: prod.splits if_splits)
qed

lemma parent_data_ok:
  assumes "parent_data E parent s = (Inr d, s')"
  shows "d = data_or_empty (cur (sv_db s)) (ri_inum parent) \<and> cur (sv_db s') = cur (sv_db s) \<and> sv_now s' = sv_now s"
proof -
  obtain r s1 where g: "cldb_data_get E (ri_inum parent) s = (r, s1)" by fastforce
  have k: "found (v_data (cur (sv_db s)) (ri_inum parent)) r" "cur (sv_db s1) = cur (sv_db s)" "sv_now s1 = sv_now s"
    using data_get_ok [OF g] sv_restD(3) by blast+
  show ?thesis
    using assms g k by (auto simp: parent_data_def ebind_def attempt_def found_def data_or_empty_def throw_def split: sum.splits if_splits)
qed

lemma open_create_ok:
  assumes "open_create E name do_dir s = (Inr ino, s')"
  shows "\<exists>parent. let v = cur (sv_db s); now = sv_now s; pinfo = pathname_parse name in
    v_inodes v (ri_inum ino) = None \<and> CLD_INO_RESERVED_LAST < ri_inum ino \<and> ino = fresh_inode (ri_inum ino) name do_dir now \<and>
    v_inodes v (ri_inum parent) = Some parent \<and> inode_name_key parent = Some (pi_dir pinfo) \<and>
    name_free (stamp now parent) v \<and> cur (sv_db s') = link_child now parent (pi_base pinfo) v \<and> sv_now s' = now"
proof -
  let ?pi = "pathname_parse name"
  obtain ino0 s1 parent s2 d s3 ok s4 d' s5 where n: "cldb_inode_new E name 0 s = (Some ino0, s1)"
    and ino: "ino = (if do_dir then ino0\<lparr>ri_flags := ri_flags ino0 OR CIFL_DIR\<rparr> else ino0)"
    and pr: "cldb_inode_get_byname E (pi_dir ?pi) s1 = (Inr parent, s2)"
    and pd: "parent_data E parent s2 = (Inr d, s3)" and al: "srv_alloc s3 = (ok, s4)"
    and app: "dirdata_append ok d (pi_base ?pi) = Some d'"
    and dp0: "cldb_data_put E (ri_inum parent) d' s4 = (Inr (), s5)" and t0: "inode_touch E (sized parent d') s5 = (Inr (), s')"
    using assms unfolding open_create_def Let_def sized_def
    by (auto simp: call_def throw_def elim!: ebind_OkE split: prod.splits option.splits)
  let ?d = "d @ dir_ent (pi_base ?pi)"
  have "d' = ?d" using app by (auto simp: dirdata_append_ent split: if_splits)
  then have dp: "cldb_data_put E (ri_inum parent) ?d s4 = (Inr (), s5)" and t: "inode_touch E (sized parent ?d) s5 = (Inr (), s')"
    using dp0 t0 by simp_all
  have s4: "cur (sv_db s4) = cur (sv_db s3)" "sv_now s4 = sv_now s3" using al by (auto simp: srv_alloc_def split: prod.splits)
  note n' = inode_new_ok [OF n] and pr' = byname_ok [OF pr] and pd' = parent_data_ok [OF pd] and dp' = data_put_ok [OF dp]
  have now2: "sv_now s2 = sv_now s" using n' pr' sv_restD(3) by metis
  have now5: "sv_now s5 = sv_now s" using dp' sv_restD(3) now2 pd' s4 by metis
  have "sv_now s' = sv_now s" using keepsD [OF keeps_ids_helpers(2) t] sv_idsD(1) now5 by metis
  moreover have "ri_inum ino0 = ri_inum ino" using ino by (simp split: if_splits)
  moreover have "ino = fresh_inode (ri_inum ino) name do_dir (sv_now s)"
    using n' ino unfolding fresh_inode_def by (cases ino0) auto
  ultimately show ?thesis
    using n' pr' pd' dp' touch_ok [OF t] s4 now5 unfolding link_child_def Let_def by (intro exI [of _ parent]) simp
qed

text \<open>The session record stored by \<open>msg_open\<close> has the advanced handle counter.\<close>

lemma open_finish_ok:
  assumes "open_finish E p om create ino s = (Inr fh, s')" and "sv_heap s p \<noteq> None"
  shows "let v = cur (sv_db s); x = sess_at s p; h = \<lparr>rh_sid = ss_sid x, rh_fh = ss_next_fh x, rh_inum = ri_inum ino,
      rh_mode = om_mode om, rh_events = om_events om\<rparr>; v1 = put_handle h v; v2 = (if create then put_inode (sv_now s) ino v1 else v1) in
    fh = ss_next_fh x \<and> ss_next_fh (sess_at s' p) = fh + 1 \<and> (create \<longrightarrow> name_free (stamp (sv_now s) ino) v) \<and>
    (\<exists>rs. rs_next_fh rs = fh + 1 \<and> rs_sid rs = take CLD_SID_SZ (ss_sid x) \<and> cur (sv_db s') = v2\<lparr>v_sess := (v_sess v2)(rs_sid rs \<mapsto> rs)\<rparr>)"
proof -
  let ?x = "sess_at s p"
  let ?h = "\<lparr>rh_sid = ss_sid ?x, rh_fh = ss_next_fh ?x, rh_inum = ri_inum ino, rh_mode = om_mode om, rh_events = om_events om\<rparr>"
  obtain h0 s1 s2 s3 raw s4 where n0: "cldb_handle_new E p (ri_inum ino) (om_mode om) (om_events om) s = (Some h0, s1)"
    and hp0: "cldb_handle_put E h0 s1 = (Inr (), s2)"
    and t: "(if create then or_fail CLE_DB_ERR (inode_touch E ino) else ret ()) s2 = (Inr (), s3)"
    and raw: "session_new_raw p s3 = (Some raw, s4)" and sp0: "cldb_session_put E raw s4 = (Inr (), s')" and fh0: "fh = rh_fh h0"
    using assms(1) unfolding open_finish_def
    by (auto simp: call_def throw_def elim!: ebind_OkE split: prod.splits option.splits)
  have "h0 = ?h"
    using n0 by (auto simp: cldb_handle_new_def srv_alloc_def Let_def sess_at_def split: prod.splits if_splits)
  then have n: "cldb_handle_new E p (ri_inum ino) (om_mode om) (om_events om) s = (Some ?h, s1)"
    and hp: "cldb_handle_put E ?h s1 = (Inr (), s2)" and fh: "fh = ss_next_fh ?x" using n0 hp0 fh0 by simp_all
  have s1: "cur (sv_db s1) = cur (sv_db s)" "sv_now s1 = sv_now s" "ss_next_fh (sess_at s1 p) = ss_next_fh ?x + 1"
    "ss_sid (sess_at s1 p) = ss_sid ?x"
    using n assms(2) by (auto simp: cldb_handle_new_def srv_alloc_def sess_upd_def sess_at_def Let_def split: prod.splits if_splits)
  have s2: "cur (sv_db s2) = put_handle ?h (cur (sv_db s))" "sv_now s2 = sv_now s" "sess_at s2 p = sess_at s1 p"
    using rc_ok [OF handle_put hp [unfolded cldb_handle_put_def]] s1 sv_restD(3,9) [OF keepsD [OF keeps_rest_cldb(9) hp]]
    by (auto simp: put_handle_def hkey_def)
  have s3: "cur (sv_db s3) = (if create then put_inode (sv_now s) ino (put_handle ?h (cur (sv_db s))) else put_handle ?h (cur (sv_db s)))"
    "create \<longrightarrow> name_free (stamp (sv_now s) ino) (put_handle ?h (cur (sv_db s)))"
    using t touch_ok [of ino s2 "()" s3] s2 by (auto split: if_splits)
  have at3: "ss_next_fh (sess_at s3 p) = ss_next_fh ?x + 1" "ss_sid (sess_at s3 p) = ss_sid ?x"
  proof -
    have "heap_pub s3 = heap_pub s2"
      using t sv_envD(3) [OF keepsD [OF keeps_env_inode(2), of E ino s2 "Inr ()" s3]] by (auto split: if_splits)
    from heap_pub_sel(1,4) [OF this, of p] show "ss_next_fh (sess_at s3 p) = ss_next_fh ?x + 1" "ss_sid (sess_at s3 p) = ss_sid ?x"
      using s1 s2 by simp_all
  qed
  have sp: "cldb_session_put E (session_encode (sess_at s3 p)) s4 = (Inr (), s')"
    and s4: "cur (sv_db s4) = cur (sv_db s3)" "sess_at s4 p = sess_at s3 p"
    using raw sp0 by (auto simp: session_new_raw_def srv_alloc_def sess_at_def split: prod.splits if_splits)
  have "sess_at s' p = sess_at s3 p" using sv_restD(9) [OF keepsD [OF keeps_rest_cldb(2) sp]] s4 by simp
  moreover have "rs_next_fh (session_encode y) = ss_next_fh y" "rs_sid (session_encode y) = take CLD_SID_SZ (ss_sid y)" for y
    by (simp_all add: session_encode_def Let_def)
  ultimately show ?thesis
    using rc_ok [OF sess_put sp [unfolded cldb_session_put_def]] s3 s4 at3 fh unfolding Let_def
    by (intro conjI exI [of _ "session_encode (sess_at s3 p)"]) simp_all
qed

end

text \<open>What deleting leaves: the inode, its data and every handle on it are gone.\<close>

definition unlink_inode :: "cldino \<Rightarrow> dbview \<Rightarrow> dbview" where
  "unlink_inode i v = v\<lparr>v_inodes := (v_inodes v)(i := None), v_data := (v_data v)(i := None),
     v_handles := (\<lambda>k. case v_handles v k of None \<Rightarrow> None | Some h \<Rightarrow> if rh_inum h = i then None else Some h)\<rparr>"

context cld_env
begin

lemma rmdir_check_ok:
  assumes "rmdir_check E ino s = (Inr u, s')"
  shows "(has_flag (ri_flags ino) CIFL_DIR \<longrightarrow> data_or_empty (cur (sv_db s)) (ri_inum ino) = []) \<and> cur (sv_db s') = cur (sv_db s)"
proof (cases "has_flag (ri_flags ino) CIFL_DIR")
  case True
  obtain r s1 where g: "db_val (db_data_get (e_db E) (ri_inum ino)) s = (r, s1)" by fastforce
  then have "found (v_data (cur (sv_db s)) (ri_inum ino)) r" "cur (sv_db s1) = cur (sv_db s)"
    using data_get_ok [of "ri_inum ino" s r s1] by (auto simp: cldb_data_get_def)
  then show ?thesis
    using assms True g by (auto simp: rmdir_check_def ebind_def attempt_def found_def data_or_empty_def throw_def split: sum.splits if_splits)
next
  case False
  then show ?thesis using assms by (simp add: rmdir_check_def)
qed

lemma del_any_ok:
  assumes "del_any f s = (Inr u, s')" and "writes com cur f ok upd"
  shows "\<exists>r d. f (sv_db s) = (r, d) \<and> (r = None \<or> r = Some DB_NOTFOUND) \<and>
    cur (sv_db s') = (if r = None then upd (cur (sv_db s)) else cur (sv_db s))"
proof -
  obtain r d where f: "f (sv_db s) = (r, d)" by fastforce
  then show ?thesis
    using assms by (auto simp: del_any_def ebind_def attempt_def db_rc_def writes_def throw_def split: option.splits if_splits)
qed

lemma del_inode_ok:
  assumes "del_inode E ino s = (Inr u, s')"
  shows "v_inodes (cur (sv_db s)) (ri_inum ino) \<noteq> None \<and> cur (sv_db s') = unlink_inode (ri_inum ino) (cur (sv_db s))"
proof -
  let ?i = "ri_inum ino"
  obtain s1 s2 s3 where n: "inode_notify E ?i True s = (Inr (), s1)" and d: "db_rc (db_inode_del (e_db E) ?i) s1 = (Inr (), s2)"
    and dd: "del_any (db_data_del (e_db E) ?i) s2 = (Inr (), s3)" and hd: "del_any (db_hidx_del (e_db E) ?i) s3 = (Inr u, s')"
    using assms by (auto simp: del_inode_def elim!: ebind_OkE)
  have c1: "cur (sv_db s1) = cur (sv_db s)" using keepsD [OF keeps_com_notify(2) n] .
  note c2 = rc_ok [OF inode_del d]
  obtain r3 d3 where r3: "db_data_del (e_db E) ?i (sv_db s2) = (r3, d3)" "r3 = None \<or> r3 = Some DB_NOTFOUND"
    and c3: "cur (sv_db s3) = (if r3 = None then (cur (sv_db s2))\<lparr>v_data := (v_data (cur (sv_db s2)))(?i := None)\<rparr> else cur (sv_db s2))"
    using del_any_ok [OF dd data_del] by auto
  obtain r4 d4 where r4: "db_hidx_del (e_db E) ?i (sv_db s3) = (r4, d4)" "r4 = None \<or> r4 = Some DB_NOTFOUND"
    and c4: "cur (sv_db s') = (if r4 = None then (cur (sv_db s3))\<lparr>v_handles := (\<lambda>k. case v_handles (cur (sv_db s3)) k of None \<Rightarrow> None
         | Some h \<Rightarrow> if handle_idx_key h = ?i then None else Some h)\<rparr> else cur (sv_db s3))"
    using del_any_ok [OF hd hidx_del] by auto
  have data: "v_data (cur (sv_db s3)) = (v_data (cur (sv_db s2)))(?i := None)"
    using c3 r3 data_del_none [of ?i "sv_db s2" d3] by (auto simp: fun_eq_iff)
  have "handle_idx_key h \<noteq> ?i" if "r4 \<noteq> None" "v_handles (cur (sv_db s3)) k = Some h" for k h
    using that hidx_del_none [of ?i "sv_db s3" d4] r4 by (cases k) (auto simp: handles_of_def)
  then have handles: "v_handles (cur (sv_db s')) = (\<lambda>k. case v_handles (cur (sv_db s3)) k of None \<Rightarrow> None | Some h \<Rightarrow> if rh_inum h = ?i then None else Some h)"
    using c4 r4 by (cases "r4 = None") (auto simp: fun_eq_iff handle_idx_key_def split: option.splits)
  have rest: "v_sess (cur (sv_db s')) = v_sess (cur (sv_db s3))" "v_inodes (cur (sv_db s')) = v_inodes (cur (sv_db s3))"
    "v_data (cur (sv_db s')) = v_data (cur (sv_db s3))" "v_locks (cur (sv_db s')) = v_locks (cur (sv_db s3))"
    "v_sess (cur (sv_db s3)) = v_sess (cur (sv_db s2))" "v_inodes (cur (sv_db s3)) = v_inodes (cur (sv_db s2))"
    "v_handles (cur (sv_db s3)) = v_handles (cur (sv_db s2))" "v_locks (cur (sv_db s3)) = v_locks (cur (sv_db s2))"
    using c3 c4 by auto
  show ?thesis
    using c2 c1 data handles rest by (auto simp: unlink_inode_def intro!: dbview.equality)
qed

lemma del_body_ok:
  assumes "del_body E name s = (Inr u, s')"
  shows "\<exists>parent pdata ino d'. let v = cur (sv_db s); now = sv_now s; pinfo = pathname_parse name; v1 = unlink_inode (ri_inum ino) v in
    v_inodes v (ri_inum parent) = Some parent \<and> inode_name_key parent = Some (pi_dir pinfo) \<and> v_data v (ri_inum parent) = Some pdata \<and>
    v_inodes v (ri_inum ino) = Some ino \<and> inode_name_key ino = Some name \<and>
    (has_flag (ri_flags ino) CIFL_DIR \<longrightarrow> data_or_empty v (ri_inum ino) = []) \<and>
    dirdata_delete pdata (pi_base pinfo) = Some d' \<and> name_free (stamp now parent) v1 \<and>
    cur (sv_db s') = put_inode now (sized parent d') (put_data (ri_inum parent) d' v1)"
proof -
  let ?pi = "pathname_parse name"
  obtain parent s1 pdata s2 ino s3 s4 s5 d' s6 where pr: "cldb_inode_get_byname E (pi_dir ?pi) s = (Inr parent, s1)"
    and pd: "cldb_data_get E (ri_inum parent) s1 = (Inr pdata, s2)" and i: "cldb_inode_get_byname E name s2 = (Inr ino, s3)"
    and rm: "rmdir_check E ino s3 = (Inr (), s4)" and di: "del_inode E ino s4 = (Inr (), s5)"
    and d': "dirdata_delete pdata (pi_base ?pi) = Some d'"
    and dp: "cldb_data_put E (ri_inum parent) d' s5 = (Inr (), s6)" and t: "inode_touch E (sized parent d') s6 = (Inr u, s')"
    using assms unfolding del_body_def Let_def sized_def by (auto simp: throw_def elim!: ebind_OkE split: option.splits)
  note e = byname_ok [OF pr] data_get_ok [OF pd] byname_ok [OF i] rmdir_check_ok [OF rm] del_inode_ok [OF di] data_put_ok [OF dp] touch_ok [OF t]
  have now: "sv_now s6 = sv_now s"
  proof -
    have "sv_now s3 = sv_now s" using e(1-3) sv_restD(3) by metis
    moreover have k: "keeps sv_ids (rmdir_check E ino)" "keeps sv_ids (del_inode E ino)"
      unfolding rmdir_check_def del_inode_def del_any_def by (intro keeps_intros)+
    have "sv_now s5 = sv_now s3" using keepsD [OF k(1) rm] keepsD [OF k(2) di] sv_idsD(1) by metis
    ultimately show ?thesis using e(6) sv_restD(3) by metis
  qed
  show ?thesis
    using e d' now by (intro exI [of _ parent] exI [of _ pdata] exI [of _ ino] exI [of _ d']) (auto simp: Let_def found_def)
qed

end

section \<open>The invariant of the database\<close>

text \<open>
  Inodes are stored under their number, with a name of the stated length, and names are unique;
  handles are stored under their session and number; locks on an inode are compatible.
\<close>

definition inodes_wf :: "dbview \<Rightarrow> bool" where
  "inodes_wf v \<longleftrightarrow> (\<forall>i x. v_inodes v i = Some x \<longrightarrow> ri_inum x = i \<and> inode_name_key x = Some (ri_name x)) \<and>
     (\<forall>i j x y. v_inodes v i = Some x \<and> v_inodes v j = Some y \<and> ri_name x = ri_name y \<longrightarrow> i = j)"

definition db_inv :: "dbview \<Rightarrow> bool" where
  "db_inv v \<longleftrightarrow> inodes_wf v \<and> handles_wf v \<and> (\<forall>i. locks_safe (v_locks v i))"

lemma inodes_wf_put:
  assumes "inodes_wf v" and "name_free (stamp now ino) v" and "unat (ri_ino_len ino) \<le> length (ri_name ino)"
  shows "inodes_wf (put_inode now ino v)"
proof -
  have key: "inode_name_key (stamp now ino) = Some (ri_name (stamp now ino))"
    using assms(3) by (simp add: inode_name_key_def)
  have "ri_name x \<noteq> ri_name (stamp now ino)" if "v_inodes v j = Some x" "j \<noteq> ri_inum ino" for j x
    using assms(1,2) that key unfolding name_free_def inodes_wf_def by (metis stamp_sel(1))
  then have other: "v_inodes v j = Some x \<Longrightarrow> ri_name x = take (unat (ri_ino_len ino)) (ri_name ino) \<Longrightarrow> j = ri_inum ino" for j x
    by (metis stamp_sel(4))
  show ?thesis
    using assms(1) key other unfolding inodes_wf_def put_inode_def by (auto split: if_splits)
qed

lemma inodes_wf_len: "inodes_wf v \<Longrightarrow> v_inodes v i = Some x \<Longrightarrow> unat (ri_ino_len x) \<le> length (ri_name x)"
  unfolding inodes_wf_def inode_name_key_def by (metis le_refl option.distinct(1))

lemma inodes_wf_cong: "v_inodes v' = v_inodes v \<Longrightarrow> inodes_wf v' = inodes_wf v"
  by (simp add: inodes_wf_def)

lemma handles_wf_sub:
  assumes "handles_wf v" and "\<And>k h. v_handles v' k = Some h \<Longrightarrow> v_handles v k = Some h \<or> k = hkey h \<and> length (rh_sid h) = CLD_SID_SZ"
  shows "handles_wf v'"
  using assms unfolding handles_wf_def hkey_def by blast

lemma db_inv_put_inode:
  assumes "db_inv v" and "name_free (stamp now ino) v" and "unat (ri_ino_len ino) \<le> length (ri_name ino)"
  shows "db_inv (put_inode now ino v)"
proof -
  have "v_handles (put_inode now ino v) = v_handles v" "v_locks (put_inode now ino v) = v_locks v" by (simp_all add: put_inode_def)
  then show ?thesis
    using assms inodes_wf_put [of v now ino] handles_wf_sub [of v "put_inode now ino v"] by (simp add: db_inv_def)
qed

lemma db_inv_other:
  assumes "v_inodes v' = v_inodes v" and "v_locks v' = v_locks v"
    and "\<And>k h. v_handles v' k = Some h \<Longrightarrow> v_handles v k = Some h \<or> k = hkey h \<and> length (rh_sid h) = CLD_SID_SZ"
    and "db_inv v"
  shows "db_inv v'"
  using assms inodes_wf_cong [of v' v] handles_wf_sub [of v v'] by (simp add: db_inv_def)

lemma db_inv_sess [intro]: "db_inv v \<Longrightarrow> db_inv (v\<lparr>v_sess := f\<rparr>)"
  by (rule db_inv_other) auto

lemma db_inv_put_data [intro]: "db_inv v \<Longrightarrow> db_inv (put_data i d v)"
  by (rule db_inv_other) (auto simp: put_data_def)

lemma db_inv_put_handle: "db_inv v \<Longrightarrow> length (rh_sid h) = CLD_SID_SZ \<Longrightarrow> db_inv (put_handle h v)"
  by (rule db_inv_other) (auto simp: put_handle_def split: if_splits)

lemma db_inv_fewer_handles: "db_inv v \<Longrightarrow> (\<And>k h. f k = Some h \<Longrightarrow> v_handles v k = Some h) \<Longrightarrow> db_inv (v\<lparr>v_handles := f\<rparr>)"
  by (rule db_inv_other) auto

lemma db_inv_put_locks: "db_inv v \<Longrightarrow> locks_safe ls \<Longrightarrow> db_inv (put_locks i ls v)"
  using inodes_wf_cong [of "put_locks i ls v" v] handles_wf_sub [of v "put_locks i ls v"]
  by (auto simp: db_inv_def put_locks_def)

lemma db_inv_unlink: "db_inv v \<Longrightarrow> db_inv (unlink_inode i v)"
  unfolding db_inv_def inodes_wf_def handles_wf_def unlink_inode_def
  by (auto split: option.splits if_splits) blast+

lemma locks_safe_filter: "locks_safe ls \<Longrightarrow> locks_safe (filter P ls)"
proof -
  have f: "filter lock_acquired (filter P ls) = filter P (filter lock_acquired ls)" by (simp add: conj_commute)
  assume "locks_safe ls"
  then show "locks_safe (filter P ls)"
    unfolding locks_safe_def Let_def f list_all_iff
    by (elim disjE; simp del: filter_filter) (rule disjI1, rule order_trans [OF length_filter_le])
qed

lemma db_inv_locks: "db_inv v \<Longrightarrow> locks_safe (v_locks v i)"
  by (simp add: db_inv_def)

lemma db_inv_unmatched: "db_inv v \<Longrightarrow> db_inv (put_locks i (unmatched sid fh (v_locks v i)) v)"
  by (rule db_inv_put_locks) (auto simp: db_inv_def unmatched_def intro: locks_safe_filter)

section \<open>Requests\<close>

text \<open>The requests a session can make, and the handler for each (the dispatch is in \<^verbatim>\<open>tcp_rx\<close>).\<close>

datatype request =
  Req_get u64 | Req_open cld_msg_open | Req_put cld_msg_put | Req_close u64 | Req_del bytes | Req_unlock u64 | Req_lock cld_msg_lock

primrec handle :: "'d env \<Rightarrow> nat \<Rightarrow> request \<Rightarrow> 'd srv \<Rightarrow> 'd srv" where
  "handle E p (Req_get fh) = msg_get E p fh"
| "handle E p (Req_open om) = msg_open E p om"
| "handle E p (Req_put put) = msg_put E p put"
| "handle E p (Req_close fh) = msg_close E p fh"
| "handle E p (Req_del name) = msg_del E p name"
| "handle E p (Req_unlock fh) = msg_unlock E p fh"
| "handle E p (Req_lock lock) = msg_lock E p lock"

fun accepted :: "cld_msg \<Rightarrow> bool" where
  "accepted (Generic_resp c xid) = good_code c"
| "accepted (Get_resp r) = True"
| "accepted (Open_resp c xid fh) = good_code c"
| "accepted _ = False"

definition replied :: "'d srv \<Rightarrow> 'd srv \<Rightarrow> nat \<Rightarrow> cld_msg \<Rightarrow> bool" where
  "replied s s' p reply \<longleftrightarrow> (\<exists>ev op. sv_log s' = sv_log s @ ev @ [(p, op, reply)] \<and> list_all is_event ev)"

context cld_env
begin

lemma with_txn_atomic:
  assumes "keeps (\<lambda>s. com (sv_db s)) body" and "keeps sv_ids body" and "emits body" and "honest body"
    and "\<And>x t. \<exists>reply op. sv_log (send x t) = sv_log t @ [(p, op, reply)] \<and> accepted reply"
  shows "\<exists>reply. replied s (with_txn E p body send s) p reply \<and>
    (\<not> accepted reply \<longrightarrow> com (sv_db (with_txn E p body send s)) = com (sv_db s))"
proof (rule with_txn_cases [OF assms(1-4) refl, of p send s])
  fix code ev
  assume "com (sv_db (with_txn E p body send s)) = com (sv_db s)" "list_all is_event ev"
    "sv_log (with_txn E p body send s) = sv_log s @ ev @ [(p, ss_msg_op (sess_at s p), Generic_resp code (ss_msg_xid (sess_at s p)))]"
  then show ?thesis unfolding replied_def by blast
next
  fix x s3 ev
  assume r: "with_txn E p body send s = send x s3" "sv_log s3 = sv_log s @ ev" "list_all is_event ev"
  obtain reply op where "sv_log (send x s3) = sv_log s3 @ [(p, op, reply)]" "accepted reply" using assms(5) by blast
  with r show ?thesis unfolding replied_def by (intro exI [of _ reply]) auto
qed

lemma reply_generic: "good_code c \<Longrightarrow>
    \<exists>reply op. sv_log (sess_sendresp_generic E p c t) = sv_log t @ [(p, op, reply)] \<and> accepted reply"
  using sess_sendresp_generic_frame [of E p c t] by auto

lemma with_txn_ok_atomic:
  assumes "keeps (\<lambda>s. com (sv_db s)) body" and "keeps sv_ids body" and "emits body" and "honest body"
  shows "\<exists>reply. replied s (with_txn E p body (\<lambda>_. sess_sendresp_generic E p CLE_OK) s) p reply \<and>
    (\<not> accepted reply \<longrightarrow> com (sv_db (with_txn E p body (\<lambda>_. sess_sendresp_generic E p CLE_OK) s)) = com (sv_db s))"
  by (rule with_txn_atomic [OF assms]) (rule reply_generic, simp add: good_code_def)

lemma get_body_reads: "keeps (\<lambda>s. cur (sv_db s)) (get_body E sess fh)"
  unfolding get_body_def get_data_def sess_sid_def by (intro keeps_intros keeps_cur_cldb)

lemma msg_get_atomic:
  "\<exists>reply. replied s (msg_get E p fh s) p reply \<and> com (sv_db (msg_get E p fh s)) = com (sv_db s)"
proof -
  obtain r1 s1 where b: "db_rc (db_txn_begin (e_db E)) s = (r1, s1)" by fastforce
  note s1 = begin_ok [OF b] sv_restD(4) [OF begin_ok(3) [OF b]]
  obtain r2 s2 where m: "get_body E p fh s1 = (r2, s2)" by fastforce
  obtain ev where ev: "sv_log s2 = sv_log s @ ev" "list_all is_event ev" using emitsD [OF emits_bodies(2) m] s1 by auto
  have com2: "com (sv_db s2) = com (sv_db s)" using keepsD [OF keeps_com_bodies(2) m] s1 by simp
  have gen: "\<exists>reply. replied s (sess_sendresp_generic E p c t) p reply \<and> com (sv_db (sess_sendresp_generic E p c t)) = com (sv_db t)"
    if "sv_log t = sv_log s @ ev" "list_all is_event ev" for c t ev
    using that sess_sendresp_generic_frame [of E p c t] unfolding replied_def by (intro exI conjI) auto
  show ?thesis
  proof (cases r1)
    case (Inl e)
    then have "msg_get E p fh s = sess_sendresp_generic E p CLE_DB_ERR s1" using b by (simp add: msg_get_def)
    then show ?thesis using gen [of s1 "[]" CLE_DB_ERR] s1 by simp
  next
    case b1: (Inr u)
    show ?thesis
    proof (cases r2)
      case (Inl c)
      let ?t = "snd (db_rc (db_txn_abort (e_db E)) s2)"
      have "msg_get E p fh s = sess_sendresp_generic E p c ?t" using b b1 m Inl by (simp add: msg_get_def)
      moreover have "sv_log ?t = sv_log s @ ev" using sv_restD(4) [OF db_rc_rest [of "db_txn_abort (e_db E)" s2]] ev by simp
      ultimately show ?thesis using gen [of ?t ev c] ev abort_ok com2 by simp
    next
      case b2: (Inr resp)
      obtain ok s3 where snd: "sess_sendmsg E p (Get_resp resp) CMO_GET None s2 = (ok, s3)" by fastforce
      obtain r4 s4 where c: "db_rc (db_txn_commit (e_db E)) s3 = (r4, s4)" by fastforce
      have run: "msg_get E p fh s = s4" using b b1 m b2 snd c by (simp add: msg_get_def)
      have "cur (sv_db s3) = com (sv_db s)" "com (sv_db s3) = com (sv_db s)"
        using sess_sendmsg_frame [OF snd] keepsD [OF get_body_reads m] s1(2) b1 com2 by auto
      then have "com (sv_db s4) = com (sv_db s)" using commit_ok(1) [OF c] by (simp split: sum.splits)
      moreover have "sv_log s4 = sv_log s @ ev @ [(p, CMO_GET, Get_resp resp)]"
        using sv_restD(4) [OF commit_ok(2) [OF c]] sess_sendmsg_frame [OF snd] ev by simp
      ultimately show ?thesis unfolding run replied_def using ev(2) by (intro exI conjI) auto
    qed
  qed
qed

lemma handle_atomic_env:
  "\<exists>reply. replied s (handle E p r s) p reply \<and>
    (\<not> accepted reply \<or> (\<exists>fh. r = Req_get fh) \<longrightarrow> com (sv_db (handle E p r s)) = com (sv_db s))"
proof (cases r)
  case (Req_get fh)
  then show ?thesis using msg_get_atomic by auto
next
  case (Req_open om)
  have "\<exists>reply op. sv_log ((\<lambda>fh t. snd (sess_sendmsg E p (Open_resp CLE_OK (ss_msg_xid (sess_at t p)) fh) CMO_OPEN None t)) x t) =
      sv_log t @ [(p, op, reply)] \<and> accepted reply" for x t
    using sess_sendmsg_frame [OF prod.collapse [symmetric], of E p "Open_resp CLE_OK (ss_msg_xid (sess_at t p)) x" CMO_OPEN None t]
    by (auto simp: good_code_def)
  from with_txn_atomic [OF keeps_com_bodies(7) keeps_ids_bodies(7) emits_bodies(7) honest_bodies(7) this] Req_open
  show ?thesis by (simp add: msg_open_def)
next
  case (Req_put put)
  from with_txn_ok_atomic [OF keeps_com_bodies(1) keeps_ids_bodies(1) emits_bodies(1) honest_bodies(1)] Req_put
  show ?thesis by (simp add: msg_put_def)
next
  case (Req_close fh)
  from with_txn_ok_atomic [OF keeps_com_bodies(3) keeps_ids_bodies(3) emits_bodies(3) honest_bodies(3)] Req_close
  show ?thesis by (simp add: msg_close_def)
next
  case (Req_del name)
  have "\<exists>reply. replied s (sess_sendresp_generic E p CLE_NAME_INVAL s) p reply \<and> com (sv_db (sess_sendresp_generic E p CLE_NAME_INVAL s)) = com (sv_db s)"
    using sess_sendresp_generic_frame [of E p CLE_NAME_INVAL s] unfolding replied_def by (intro exI [of _ _] exI [of _ "[]"] conjI) auto
  with with_txn_ok_atomic [OF keeps_com_bodies(4) keeps_ids_bodies(4) emits_bodies(4) honest_bodies(4)] Req_del
  show ?thesis by (auto simp: msg_del_def good_code_def)
next
  case (Req_unlock fh)
  from with_txn_ok_atomic [OF keeps_com_bodies(5) keeps_ids_bodies(5) emits_bodies(5) honest_bodies(5)] Req_unlock
  show ?thesis by (simp add: msg_unlock_def)
next
  case (Req_lock lock)
  have "\<exists>reply op. sv_log ((\<lambda>acq. if \<not> acq then sess_sendresp_generic E p CLE_LOCK_PENDING else sess_sendresp_generic E p CLE_OK) x t) =
      sv_log t @ [(p, op, reply)] \<and> accepted reply" for x t
    using reply_generic [of CLE_OK p t] reply_generic [of CLE_LOCK_PENDING p t] by (simp add: good_code_def)
  from with_txn_atomic [OF keeps_com_bodies(6) keeps_ids_bodies(6) emits_bodies(6) honest_bodies(6) this] Req_lock
  show ?thesis by (simp add: msg_lock_def)
qed

end

section \<open>The invariant is preserved\<close>

definition req_ok :: "request \<Rightarrow> bool" where
  "req_ok r \<longleftrightarrow> (case r of Req_open om \<Rightarrow> length (om_inode_name om) \<le> CLD_INODE_NAME_MAX | _ \<Rightarrow> True)"

definition sids_ok :: "'d srv \<Rightarrow> bool" where
  "sids_ok s \<longleftrightarrow> (\<forall>q. length (ss_sid (sess_at s q)) = CLD_SID_SZ)"

lemma sids_ok_ids: "sv_ids s' = sv_ids s \<Longrightarrow> sids_ok s \<Longrightarrow> sids_ok s'"
  unfolding sids_ok_def using sv_idsD(3) by metis

lemma resp_db [simp]: "sv_db (sess_sendresp_generic E p c t) = sv_db t"
  by (rule conjunct1 [OF sess_sendresp_generic_frame])

lemma resp_ids: "sv_ids (sess_sendresp_generic E p c t) = sv_ids t"
  using sess_sendresp_generic_frame [of E p c t] by (intro sv_ids_env) (simp add: sv_env_def)

lemma send_ids: "sv_ids (snd (sess_sendmsg E p m op cb t)) = sv_ids t"
  using sess_sendmsg_frame [OF prod.collapse [symmetric], of E p m op cb t] by (intro sv_ids_env) (simp add: sv_env_def)

lemma with_txn_ids:
  assumes "keeps sv_ids body" and "\<And>x t. sv_ids (reply x t) = sv_ids t"
  shows "sv_ids (with_txn E p body reply s) = sv_ids s"
proof -
  have d: "sv_ids (snd (db_rc f t)) = sv_ids t" for f and t :: "'a srv"
    using keepsD [OF keeps_ids_db(1) prod.collapse [symmetric], of f t] .
  have d': "db_rc f t = (r, t') \<Longrightarrow> sv_ids t' = sv_ids t" for f r and t t' :: "'a srv" using d [of f t] by simp
  show ?thesis
    using assms(2) keepsD [OF assms(1)]
    by (auto simp: with_txn_def resp_ids d dest!: d' split: prod.splits sum.splits)
qed

lemma handle_ids: "sv_ids (handle E p r s) = sv_ids s"
proof (cases r)
  case (Req_get fh)
  have d: "sv_ids (snd (db_rc f t)) = sv_ids t" for f and t :: "'a srv"
    using keepsD [OF keeps_ids_db(1) prod.collapse [symmetric], of f t] .
  have d': "db_rc f t = (r, t') \<Longrightarrow> sv_ids t' = sv_ids t" for f r and t t' :: "'a srv" using d [of f t] by simp
  show ?thesis
    unfolding Req_get handle.simps
    by (auto simp: msg_get_def resp_ids send_ids d dest!: d' keepsD [OF keeps_ids_bodies(2)] split: prod.splits sum.splits)
next
  case (Req_del name)
  then show ?thesis by (auto simp: msg_del_def resp_ids intro!: with_txn_ids keeps_ids_bodies)
qed (auto simp: msg_open_def msg_put_def msg_close_def msg_unlock_def msg_lock_def resp_ids send_ids intro!: with_txn_ids keeps_ids_bodies)

context cld_env
begin

lemma with_txn_inv:
  assumes "keeps (\<lambda>s. com (sv_db s)) body" and "keeps sv_ids body" and "emits body" and "honest body"
    and "\<And>x t. sv_db (reply x t) = sv_db t"
    and "\<And>s1 x s2. body s1 = (Inr x, s2) \<Longrightarrow> sv_ids s1 = sv_ids s \<Longrightarrow> db_inv (cur (sv_db s1)) \<Longrightarrow> db_inv (cur (sv_db s2))"
    and "db_inv (com (sv_db s))"
  shows "db_inv (com (sv_db (with_txn E p body reply s)))"
  by (rule with_txn_cases [OF assms(1-4) refl, of p reply s]) (use assms(5-7) in auto)

lemma with_txn_ok_inv:
  assumes "keeps (\<lambda>s. com (sv_db s)) body" and "keeps sv_ids body" and "emits body" and "honest body"
    and "\<And>s1 x s2. body s1 = (Inr x, s2) \<Longrightarrow> db_inv (cur (sv_db s1)) \<Longrightarrow> db_inv (cur (sv_db s2))"
    and "db_inv (com (sv_db s))"
  shows "db_inv (com (sv_db (with_txn E p body (\<lambda>_. sess_sendresp_generic E p CLE_OK) s)))"
  by (rule with_txn_inv [OF assms(1-4)]) (use assms(5,6) in auto)

lemma put_inv: "put_body E p put s = (Inr u, s') \<Longrightarrow> db_inv (cur (sv_db s)) \<Longrightarrow> db_inv (cur (sv_db s'))"
proof -
  assume run: "put_body E p put s = (Inr u, s')" and inv: "db_inv (cur (sv_db s))"
  obtain h ino where "v_handles (cur (sv_db s)) (ss_sid (sess_at s p), pm_fh put) = Some h"
    and ino: "v_inodes (cur (sv_db s)) (rh_inum h) = Some ino"
    and nf: "name_free (stamp (sv_now s) (sized ino (pm_data put))) (cur (sv_db s))"
    and c: "cur (sv_db s') = put_inode (sv_now s) (sized ino (pm_data put)) (put_data (rh_inum h) (pm_data put) (cur (sv_db s)))"
    using put_body_ok [OF run] by blast
  from nf c inv inodes_wf_len [OF _ ino] show ?thesis
    by (auto intro!: db_inv_put_inode simp: db_inv_def [of "cur (sv_db s)"])
qed

lemma lock_inv: "lock_body E p lock s = (Inr a, s') \<Longrightarrow> db_inv (cur (sv_db s)) \<Longrightarrow> db_inv (cur (sv_db s'))"
  by (drule lock_body_ok [OF _ refl refl]) (auto intro!: db_inv_put_locks locks_safe_insert db_inv_locks)

lemma unlock_inv: "unlock_body E p fh s = (Inr u, s') \<Longrightarrow> db_inv (cur (sv_db s)) \<Longrightarrow> db_inv (cur (sv_db s'))"
  by (drule unlock_body_ok) (auto intro!: db_inv_put_locks locks_safe_remove1 db_inv_locks)

lemma close_inv: "close_body E p fh s = (Inr u, s') \<Longrightarrow> db_inv (cur (sv_db s)) \<Longrightarrow> db_inv (cur (sv_db s'))"
proof -
  assume run: "close_body E p fh s = (Inr u, s')" and inv: "db_inv (cur (sv_db s))"
  let ?sid = "ss_sid (sess_at s p)"
  let ?v = "(cur (sv_db s))\<lparr>v_handles := (v_handles (cur (sv_db s)))((?sid, fh) := None)\<rparr>"
  obtain i where "cur (sv_db s') = put_locks i (unmatched ?sid fh (v_locks ?v i)) ?v"
    using close_body_ok [OF run refl] by (auto simp: Let_def)
  moreover have "db_inv ?v" by (rule db_inv_fewer_handles [OF inv]) (auto split: if_splits)
  ultimately show ?thesis by (simp only: db_inv_unmatched)
qed

lemma del_inv: "del_body E name s = (Inr u, s') \<Longrightarrow> db_inv (cur (sv_db s)) \<Longrightarrow> db_inv (cur (sv_db s'))"
proof -
  assume run: "del_body E name s = (Inr u, s')" and inv: "db_inv (cur (sv_db s))"
  let ?v = "cur (sv_db s)"
  obtain parent ino d' where "inode_name_key ino = Some name" and p: "v_inodes ?v (ri_inum parent) = Some parent"
    and nf: "name_free (stamp (sv_now s) parent) (unlink_inode (ri_inum ino) ?v)"
    and c: "cur (sv_db s') = put_inode (sv_now s) (sized parent d') (put_data (ri_inum parent) d' (unlink_inode (ri_inum ino) ?v))"
    using del_body_ok [OF run] unfolding Let_def by blast
  have "name_free (stamp (sv_now s) (sized parent d')) (put_data (ri_inum parent) d' (unlink_inode (ri_inum ino) ?v))"
    using nf by simp
  moreover have "unat (ri_ino_len parent) \<le> length (ri_name parent)" using inodes_wf_len [OF _ p] inv by (simp add: db_inv_def)
  ultimately show ?thesis unfolding c using inv by (intro db_inv_put_inode db_inv_put_data db_inv_unlink) simp_all
qed

lemma open_inv:
  assumes "open_body E p om s = (Inr fh, s')" and "db_inv (cur (sv_db s))" and "sv_heap s p \<noteq> None" and "sids_ok s"
    and "length (om_inode_name om) \<le> CLD_INODE_NAME_MAX"
  shows "db_inv (cur (sv_db s'))"
proof -
  have finish: "db_inv (cur (sv_db s'))"
    if f: "open_finish E p om create ino t = (Inr fh, s')" and inv: "db_inv (cur (sv_db t))" and ids: "sv_ids t = sv_ids s"
      and len: "create \<Longrightarrow> unat (ri_ino_len ino) \<le> length (ri_name ino)" for create ino t
  proof -
    have live: "sv_heap t p \<noteq> None" using sv_idsD(6) [OF ids] assms(3) by simp
    let ?x = "sess_at t p"
    let ?h = "\<lparr>rh_sid = ss_sid ?x, rh_fh = ss_next_fh ?x, rh_inum = ri_inum ino, rh_mode = om_mode om, rh_events = om_events om\<rparr>"
    have "length (ss_sid ?x) = CLD_SID_SZ" using sids_ok_ids [OF ids assms(4)] by (simp add: sids_ok_def)
    then have h: "db_inv (put_handle ?h (cur (sv_db t)))" using inv by (intro db_inv_put_handle) simp_all
    obtain rs where nf: "create \<longrightarrow> name_free (stamp (sv_now t) ino) (cur (sv_db t))"
      and c: "let v1 = put_handle ?h (cur (sv_db t)); v2 = (if create then put_inode (sv_now t) ino v1 else v1) in
        cur (sv_db s') = v2\<lparr>v_sess := (v_sess v2)(rs_sid rs \<mapsto> rs)\<rparr>"
      using open_finish_ok [OF f live] by (auto simp: Let_def)
    have "db_inv (if create then put_inode (sv_now t) ino (put_handle ?h (cur (sv_db t))) else put_handle ?h (cur (sv_db t)))"
      using h nf len by (auto intro: db_inv_put_inode)
    then show ?thesis using c unfolding Let_def by auto
  qed
  obtain r s1 where g: "cldb_inode_get_byname E (om_inode_name om) s = (r, s1)" by fastforce
  have s1: "cur (sv_db s1) = cur (sv_db s)" "sv_ids s1 = sv_ids s"
    using keepsD [OF keeps_cur_cldb(2) g] keepsD [OF keeps_ids_cldb(4) g] by simp_all
  show ?thesis
  proof (cases r)
    case (Inr ino)
    then have "open_finish E p om False ino s1 = (Inr fh, s')"
      using assms(1) g by (auto simp: open_body_def Let_def ebind_def attempt_def throw_def split: if_splits)
    then show ?thesis by (rule finish) (use s1 assms(2) in auto)
  next
    case (Inl e)
    then obtain ino s2 where c: "open_create E (om_inode_name om) (has_flag (om_mode om) COM_DIRECTORY) s1 = (Inr ino, s2)"
      and f: "open_finish E p om True ino s2 = (Inr fh, s')"
      using assms(1) g by (auto simp: open_body_def Let_def ebind_def attempt_def throw_def split: if_splits prod.splits sum.splits)
    obtain parent where par: "v_inodes (cur (sv_db s)) (ri_inum parent) = Some parent" "name_free (stamp (sv_now s1) parent) (cur (sv_db s))"
      and ino: "ino = fresh_inode (ri_inum ino) (om_inode_name om) (has_flag (om_mode om) COM_DIRECTORY) (sv_now s1)"
      and cur2: "cur (sv_db s2) = link_child (sv_now s1) parent (pi_base (pathname_parse (om_inode_name om))) (cur (sv_db s))"
      using open_create_ok [OF c] s1 by (auto simp: Let_def)
    have ids: "sv_ids s2 = sv_ids s"
    proof -
      have k: "keeps sv_ids (open_create E n b)" for n b unfolding open_create_def parent_data_def by (intro keeps_intros)
      show ?thesis using keepsD [OF k c] s1 by simp
    qed
    have "unat (word_of_nat (length (om_inode_name om)) :: u32) = length (om_inode_name om)"
      using assms(5) by (simp add: unsigned_of_nat take_bit_nat_eq_self CLD_INODE_NAME_MAX_def)
    then have len: "unat (ri_ino_len ino) \<le> length (ri_name ino)" by (subst (1 2) ino) (simp add: fresh_inode_def)
    have "db_inv (cur (sv_db s2))"
    proof -
      let ?d = "data_or_empty (cur (sv_db s)) (ri_inum parent) @ dir_ent (pi_base (pathname_parse (om_inode_name om)))"
      have "name_free (stamp (sv_now s1) (sized parent ?d)) (put_data (ri_inum parent) ?d (cur (sv_db s)))"
        using par(2) by simp
      moreover have "unat (ri_ino_len parent) \<le> length (ri_name parent)" using inodes_wf_len [OF _ par(1)] assms(2) by (simp add: db_inv_def)
      ultimately show ?thesis unfolding cur2 link_child_def Let_def using assms(2) by (intro db_inv_put_inode db_inv_put_data) simp_all
    qed
    then show ?thesis by (rule finish [OF f _ ids len])
  qed
qed

lemma handle_inv:
  assumes "db_inv (com (sv_db s))" and "sids_ok s" and "sv_heap s p \<noteq> None" and "req_ok r"
  shows "db_inv (com (sv_db (handle E p r s)))"
proof (cases r)
  case (Req_get fh)
  then show ?thesis using msg_get_atomic [of s p fh] assms(1) by auto
next
  case (Req_open om)
  have "db_inv (com (sv_db (with_txn E p (open_body E p om) (\<lambda>fh s.
       snd (sess_sendmsg E p (Open_resp CLE_OK (ss_msg_xid (sess_at s p)) fh) CMO_OPEN None s)) s)))"
  proof (rule with_txn_inv [OF keeps_com_bodies(7) keeps_ids_bodies(7) emits_bodies(7) honest_bodies(7)])
    fix s1 x s2
    assume "open_body E p om s1 = (Inr x, s2)" "sv_ids s1 = sv_ids s" "db_inv (cur (sv_db s1))"
    then show "db_inv (cur (sv_db s2))"
      using open_inv [of p om s1 x s2] sv_idsD(6) [of s1 s p] sids_ok_ids [of s1 s] assms Req_open by (simp add: req_ok_def)
  next
    show "sv_db (snd (sess_sendmsg E p (Open_resp CLE_OK (ss_msg_xid (sess_at t p)) x) CMO_OPEN None t)) = sv_db t" for x t
      using sess_sendmsg_frame [OF prod.collapse [symmetric], of E p "Open_resp CLE_OK (ss_msg_xid (sess_at t p)) x" CMO_OPEN None t] by simp
  qed (rule assms)
  with Req_open show ?thesis by (simp add: msg_open_def)
next
  case (Req_put put)
  with with_txn_ok_inv [OF keeps_com_bodies(1) keeps_ids_bodies(1) emits_bodies(1) honest_bodies(1) put_inv assms(1)] show ?thesis
    by (simp add: msg_put_def)
next
  case (Req_close fh)
  with with_txn_ok_inv [OF keeps_com_bodies(3) keeps_ids_bodies(3) emits_bodies(3) honest_bodies(3) close_inv assms(1)] show ?thesis
    by (simp add: msg_close_def)
next
  case (Req_del name)
  with with_txn_ok_inv [OF keeps_com_bodies(4) keeps_ids_bodies(4) emits_bodies(4) honest_bodies(4) del_inv assms(1)] show ?thesis
    using assms(1) sess_sendresp_generic_frame [of E p CLE_NAME_INVAL s] by (simp add: msg_del_def)
next
  case (Req_unlock fh)
  with with_txn_ok_inv [OF keeps_com_bodies(5) keeps_ids_bodies(5) emits_bodies(5) honest_bodies(5) unlock_inv assms(1)] show ?thesis
    by (simp add: msg_unlock_def)
next
  case (Req_lock lock)
  have "db_inv (com (sv_db (msg_lock E p lock s)))"
    unfolding msg_lock_def
    by (rule with_txn_inv [OF keeps_com_bodies(6) keeps_ids_bodies(6) emits_bodies(6) honest_bodies(6)])
      (use lock_inv assms in auto)
  with Req_lock show ?thesis by simp
qed

end



end
