(* ===== verification/Cld_Spec.thy ===== *)
theory Cld_Spec
  imports Cld_Msg
begin

text \<open>
  The contract of the request handlers: each as a function from the committed content of the
  database to a reply code and the content afterwards, and the proof that on a working database the
  handlers compute exactly that.
\<close>

section \<open>Abstract handlers\<close>

text \<open>
  What the handlers promise on a working database, as functions of the committed content: the reply
  code and the new content.
\<close>

definition abs_lock :: "sid \<Rightarrow> u64 \<Rightarrow> bool \<Rightarrow> bool \<Rightarrow> u64 \<Rightarrow> dbview \<Rightarrow> cle_err_codes \<times> dbview" where
  "abs_lock sid fh shared wait now v =
     (case v_handles v (sid, fh) of
        None \<Rightarrow> (CLE_FH_INVAL, v)
      | Some h \<Rightarrow>
          if \<not> has_flag (rh_mode h) COM_LOCK then (CLE_MODE_INVAL, v)
          else
            let i = rh_inum h; ls = v_locks v i; held = list_ex (lock_conflict shared) ls;
                l = new_lock sid fh i shared held now
            in if held \<and> \<not> wait \<or> list_ex (\<lambda>x. lock_compare l x = 0) ls then (CLE_LOCK_CONFLICT, v)
               else (if held then CLE_LOCK_PENDING else CLE_OK, put_locks i (lock_insert l ls) v))"

definition abs_unlock :: "sid \<Rightarrow> u64 \<Rightarrow> dbview \<Rightarrow> cle_err_codes \<times> dbview" where
  "abs_unlock sid fh v =
     (case v_handles v (sid, fh) of
        None \<Rightarrow> (CLE_FH_INVAL, v)
      | Some h \<Rightarrow>
          if \<not> has_flag (rh_mode h) COM_LOCK then (CLE_MODE_INVAL, v)
          else case find (lock_of sid fh) (v_locks v (rh_inum h)) of
                 None \<Rightarrow> (CLE_LOCK_INVAL, v)
               | Some l \<Rightarrow> (CLE_OK, put_locks (rh_inum h) (remove1 l (v_locks v (rh_inum h))) v))"

definition abs_put :: "sid \<Rightarrow> u64 \<Rightarrow> bytes \<Rightarrow> u64 \<Rightarrow> dbview \<Rightarrow> cle_err_codes \<times> dbview" where
  "abs_put sid fh data now v =
     (case v_handles v (sid, fh) of
        None \<Rightarrow> (CLE_FH_INVAL, v)
      | Some h \<Rightarrow>
          if \<not> has_flag (rh_mode h) COM_WRITE \<or> has_flag (rh_mode h) COM_DIRECTORY then (CLE_MODE_INVAL, v)
          else case v_inodes v (rh_inum h) of
                 None \<Rightarrow> (CLE_INODE_INVAL, v)
               | Some ino \<Rightarrow> (CLE_OK, put_inode now (sized ino data) (put_data (rh_inum h) data v)))"

definition abs_close :: "sid \<Rightarrow> u64 \<Rightarrow> dbview \<Rightarrow> cle_err_codes \<times> dbview" where
  "abs_close sid fh v =
     (case v_handles v (sid, fh) of
        None \<Rightarrow> (CLE_FH_INVAL, v)
      | Some h \<Rightarrow>
          let i = if has_flag (rh_mode h) COM_LOCK then rh_inum h else 0
          in (CLE_OK, put_locks i (unmatched sid fh (v_locks v i)) (v\<lparr>v_handles := (v_handles v)((sid, fh) := None)\<rparr>)))"

text \<open>The requests that change the content and are answered by a generic response.\<close>

fun abs_handle :: "session \<Rightarrow> u64 \<Rightarrow> request \<Rightarrow> dbview \<Rightarrow> (cle_err_codes \<times> dbview) option" where
  "abs_handle x now (Req_lock m) v =
     Some (abs_lock (ss_sid x) (lm_fh m) (has_flag (lm_flags m) CLF_SHARED) (ss_msg_op x = CMO_LOCK) now v)"
| "abs_handle x now (Req_unlock fh) v = Some (abs_unlock (ss_sid x) fh v)"
| "abs_handle x now (Req_put m) v = Some (abs_put (ss_sid x) (pm_fh m) (pm_data m) now v)"
| "abs_handle x now (Req_close fh) v = Some (abs_close (ss_sid x) fh v)"
| "abs_handle _ _ _ _ = None"

text \<open>Reading: an error code, or the metadata of the inode with the data if they are asked for.\<close>

definition abs_get :: "sid \<Rightarrow> u64 \<Rightarrow> bool \<Rightarrow> u64 \<Rightarrow> dbview \<Rightarrow> cle_err_codes + cld_msg_get_resp" where
  "abs_get sid fh want_data xid v =
     (case v_handles v (sid, fh) of
        None \<Rightarrow> Inl CLE_FH_INVAL
      | Some h \<Rightarrow>
          if \<not> has_flag (rh_mode h) COM_READ then Inl CLE_MODE_INVAL
          else case v_inodes v (rh_inum h) of
                 None \<Rightarrow> Inl CLE_INODE_INVAL
               | Some ino \<Rightarrow>
                   let d = data_or_empty v (rh_inum h) in
                   if want_data \<and> v_data v (rh_inum h) \<noteq> None \<and> length d \<noteq> unat (ri_size ino) then Inl CLE_DB_ERR
                   else Inr \<lparr>gr_code = CLE_OK, gr_xid_in = xid, gr_inum = ri_inum ino, gr_vers = ri_version ino,
                     gr_time_create = ri_time_create ino, gr_time_modify = ri_time_modify ino, gr_flags = ri_flags ino,
                     gr_inode_name = take (unat (ri_ino_len ino)) (ri_name ino), gr_data = if want_data then d else []\<rparr>)"

definition answers :: "'d srv \<Rightarrow> 'd srv \<Rightarrow> nat \<Rightarrow> cle_err_codes \<Rightarrow> bool" where
  "answers s s' p c \<longleftrightarrow> (\<exists>ev. list_all is_event ev \<and>
     sv_log s' = sv_log s @ ev @ [(p, ss_msg_op (sess_at s p), Generic_resp c (ss_msg_xid (sess_at s p)))])"

lemma stamp_name_free: "db_inv v \<Longrightarrow> v_inodes v i = Some ino \<Longrightarrow> name_free (stamp now ino) v"
proof -
  assume inv: "db_inv v" and ino: "v_inodes v i = Some ino"
  have wf: "inodes_wf v" using inv by (simp add: db_inv_def)
  then have key: "ri_inum ino = i" "inode_name_key ino = Some (ri_name ino)" using ino unfolding inodes_wf_def by blast+
  have "inode_name_key (stamp now ino) = Some (ri_name ino)"
    using key(2) by (auto simp: inode_name_key_def split: if_splits)
  moreover have "ri_name x \<noteq> ri_name ino" if "v_inodes v j = Some x" "j \<noteq> i" for j x
    using wf ino that unfolding inodes_wf_def by blast
  moreover have "inode_name_key x = Some (ri_name x)" if "v_inodes v j = Some x" for j x
    using wf that unfolding inodes_wf_def by blast
  ultimately show ?thesis using key(1) unfolding name_free_def by auto
qed

context cld_reliable
begin

text \<open>A body computes a reply code and a new content, or fails with the code and the content stays \<open>old\<close>.\<close>

definition computes :: "('d srv, cle_err_codes, 'a) esm \<Rightarrow> 'd srv \<Rightarrow> ('a \<Rightarrow> cle_err_codes) \<Rightarrow> cle_err_codes \<Rightarrow> dbview \<Rightarrow> dbview \<Rightarrow> bool" where
  "computes body s code c v old \<longleftrightarrow>
     (case body s of (Inl c', s2) \<Rightarrow> c' = c \<and> v = old | (Inr x, s2) \<Rightarrow> code x = c \<and> cur (sv_db s2) = v)"

lemma read_exact:
  assumes "definite f" and "reads com cur f (\<lambda>r v. found (g v) r)"
  shows "\<exists>s'. db_val f s = (mget (g (cur (sv_db s))), s') \<and> cur (sv_db s') = cur (sv_db s) \<and> sv_rest s' = sv_rest s"
proof -
  obtain r d where f: "f (sv_db s) = (r, d)" by fastforce
  have "found (g (cur (sv_db s))) r" "cur d = cur (sv_db s)" using assms(2) f by (auto simp: reads_def)
  moreover have "r = Inl e \<Longrightarrow> e = DB_NOTFOUND" for e
    using assms(1) f unfolding definite_def by (metis fst_conv)
  ultimately show ?thesis
    using f by (cases r) (auto simp: db_val_def found_def mget_def split: option.splits)
qed

lemmas handle_get_exact = read_exact [OF sure_handle_get handle_get, folded cldb_handle_get_def]
lemmas inode_get_exact = read_exact [OF sure_inode_get inode_get, folded cldb_inode_get_def]
lemmas data_get_exact = read_exact [OF sure_data_get data_get, folded cldb_data_get_def]

lemma data_put_exact:
  "\<exists>s'. cldb_data_put E i b s = (Inr (), s') \<and> cur (sv_db s') = put_data i b (cur (sv_db s)) \<and> sv_rest s' = sv_rest s"
proof -
  obtain s' where "cldb_data_put E i b s = (Inr (), s')"
    using total_sure [OF sure_data_put] unfolding cldb_data_put_def by (rule succeeds_unitE)
  with data_put_ok show ?thesis by blast
qed

lemma touch_exact:
  assumes "name_free (stamp (sv_now s) ino) (cur (sv_db s))"
  shows "\<exists>s'. inode_touch E ino s = (Inr (), s') \<and> cur (sv_db s') = put_inode (sv_now s) ino (cur (sv_db s))"
proof -
  let ?i = "touched (sv_now s) ino"
  let ?j = "?i\<lparr>ri_name := take (raw_ino_size ?i - 48) (ri_name ?i)\<rparr>"
  have "?j = stamp (sv_now s) ino" by (simp add: stamp_def raw_ino_size_def Let_def)
  then have "fst (db_inode_put (e_db E) ?j (sv_db s)) = None"
    using sure_inode_put [of ?j] assms by (simp add: sure_def)
  then obtain s1 where p: "cldb_inode_put E ?i s = (Inr (), s1)"
    by (cases "db_inode_put (e_db E) ?j (sv_db s)") (auto simp: cldb_inode_put_def db_rc_def)
  have "succeeds (inode_notify E (ri_inum ino) False)"
    unfolding inode_notify_def by (auto intro!: total_bind total_basic total_cursor split: prod.splits)
  then obtain s2 where "inode_notify E (ri_inum ino) False s1 = (Inr (), s2)" by (rule succeeds_unitE)
  with p have "inode_touch E ino s = (Inr (), s2)" by (simp add: inode_touch_def ebind_def gets_def ret_def)
  with touch_ok(2) show ?thesis by blast
qed

lemma lock_find_exact:
  "\<exists>s'. cldb_lock_find E inum want s =
     (if list_ex (lock_conflict want) (v_locks (cur (sv_db s)) inum) then Inr () else Inl DB_NOTFOUND, s') \<and>
     cur (sv_db s') = cur (sv_db s) \<and> sv_rest s' = sv_rest s"
proof -
  obtain r s' where f: "cldb_lock_find E inum want s = (r, s')" by fastforce
  have k: "cur (sv_db s') = cur (sv_db s)" "sv_rest s' = sv_rest s"
    using keepsD [OF keeps_lock_find(2) f] keepsD [OF keeps_lock_find(3) f] by simp_all
  obtain s1 where c: "db_rc (db_cursor (e_db E)) s = (Inr (), s1)" using total_cursor(1) by (rule succeeds_unitE)
  obtain recs e s2 where sc: "db_call (db_lock_scan (e_db E) inum) s1 = (Inr (recs, e) :: dberr + _, s2)" by (rule db_call_pairE)
  have e: "e = DB_NOTFOUND" using scan_complete [OF sure_lock_scan sc] .
  have "v_locks (cur (sv_db s)) inum = recs"
    using call_ok [OF lock_scan sc] keepsD [OF keeps_com_cursor(2) c] e by auto
  moreover have "r = (if list_ex (lock_conflict want) recs then Inr () else Inl e)"
    using f c sc by (auto simp: cldb_lock_find_def ebind_def closing_def lock_find_loop_eq split: prod.splits if_splits)
  ultimately show ?thesis using f k e by auto
qed

lemma lock_add_exact:
  assumes "ls = v_locks (cur (sv_db s)) inum" and "held = list_ex (lock_conflict shared) ls"
    and "l = new_lock sid fh inum shared held (sv_now s)"
  shows "\<exists>s'. (held \<and> \<not> wait \<or> list_ex (\<lambda>x. lock_compare l x = 0) ls \<longrightarrow> cldb_lock_add E sid fh inum shared wait s = (Inl DB_KEYEXIST, s')) \<and>
    (\<not> (held \<and> \<not> wait \<or> list_ex (\<lambda>x. lock_compare l x = 0) ls) \<longrightarrow> cldb_lock_add E sid fh inum shared wait s = (Inr (\<not> held), s') \<and>
      cur (sv_db s') = put_locks inum (lock_insert l ls) (cur (sv_db s)))"
proof -
  obtain s1 where f: "cldb_lock_find E inum shared s = (if held then Inr () else Inl DB_NOTFOUND, s1)"
    and s1: "cur (sv_db s1) = cur (sv_db s)" "sv_rest s1 = sv_rest s"
    using lock_find_exact [of inum shared s] assms(1,2) by auto
  show ?thesis
  proof (cases "held \<and> \<not> wait")
    case True
    then show ?thesis using f by (auto simp: cldb_lock_add_def ebind_def attempt_def throw_def)
  next
    case False
    then have add: "cldb_lock_add E sid fh inum shared wait s = cldb_lock_store E sid fh inum shared wait held s1"
      using f by (auto simp: cldb_lock_add_def ebind_def attempt_def)
    have l: "l = \<lparr>rl_inum = inum, rl_sid = sid, rl_fh = fh, rl_ctime = sv_now s1,
        rl_flags = (if shared then CLFL_SHARED else 0) OR (if wait \<and> held then CLFL_PENDING else 0)\<rparr>"
      using assms(3) False sv_restD(3) [OF s1(2)] by (auto simp: new_lock_def)
    obtain r d where p: "db_lock_put (e_db E) inum l (sv_db s1) = (r, d)" by fastforce
    have r: "r = (if list_ex (\<lambda>x. lock_compare l x = 0) ls then Some DB_KEYEXIST else None)"
      using sure_lock_put [of inum l "sv_db s1"] p s1(1) assms(1) by (auto simp: list_ex_iff)
    have store: "cldb_lock_store E sid fh inum shared wait held s1 =
        (case r of Some e \<Rightarrow> Inl e | None \<Rightarrow> Inr (\<not> held), s1\<lparr>sv_db := d\<rparr>)"
      using p unfolding cldb_lock_store_def Let_def
      by (simp add: ebind_def gets_def ret_def db_rc_def l [symmetric] split: option.splits)
    have "r = None \<Longrightarrow> cur d = put_locks inum (lock_insert l ls) (cur (sv_db s))"
      using lock_put p s1(1) assms(1) by (auto simp: writes_def put_locks_def)
    with store add r False show ?thesis by auto
  qed
qed

lemma lock_del_exact:
  assumes "ls = v_locks (cur (sv_db s)) inum"
  shows "\<exists>s'. (case find (lock_of sid fh) ls of
      None \<Rightarrow> cldb_lock_del E sid fh inum s = (Inl DB_NOTFOUND, s')
    | Some l \<Rightarrow> cldb_lock_del E sid fh inum s = (Inr (), s') \<and> cur (sv_db s') = put_locks inum (remove1 l ls) (cur (sv_db s)))"
proof -
  obtain s1 where c: "db_rc (db_cursor (e_db E)) s = (Inr (), s1)" using total_cursor(1) by (rule succeeds_unitE)
  obtain recs e s2 where sc: "db_call (db_lock_scan (e_db E) inum) s1 = (Inr (recs, e) :: dberr + _, s2)" by (rule db_call_pairE)
  have e: "e = DB_NOTFOUND" using scan_complete [OF sure_lock_scan sc] .
  have ls: "recs = ls"
    using call_ok [OF lock_scan sc] keepsD [OF keeps_com_cursor(2) c] e assms by auto
  have loop: "\<exists>t'. lock_del_loop E sid fh inum xs DB_NOTFOUND t = (case find (lock_of sid fh) xs of None \<Rightarrow> Inl DB_NOTFOUND | Some _ \<Rightarrow> Inr (), t')"
    for xs and t :: "'d srv"
  proof (induction xs)
    case (Cons x xs)
    obtain t' where "db_rc (db_lock_cdel (e_db E) inum x) t = (Inr (), t')"
      using total_sure [OF sure_lock_cdel] by (rule succeeds_unitE)
    with Cons show ?case by (auto simp: lock_of_def)
  qed (simp add: throw_def)
  obtain s3 where "lock_del_loop E sid fh inum ls e s2 = (case find (lock_of sid fh) ls of None \<Rightarrow> Inl DB_NOTFOUND | Some _ \<Rightarrow> Inr (), s3)"
    using loop [of ls s2] e by blast
  then obtain s4 where run: "cldb_lock_del E sid fh inum s = (case find (lock_of sid fh) ls of None \<Rightarrow> Inl DB_NOTFOUND | Some _ \<Rightarrow> Inr (), s4)"
    using c sc ls by (auto simp: cldb_lock_del_def ebind_def closing_def)
  show ?thesis
  proof (cases "find (lock_of sid fh) ls")
    case None
    then show ?thesis using run by auto
  next
    case (Some l)
    with run lock_del_ok [of sid fh inum s "()" s4] assms show ?thesis by (auto simp: put_locks_def)
  qed
qed

text \<open>A handler with a generic reply computes its specification.\<close>

lemma with_txn_exact:
  assumes "keeps (\<lambda>s. com (sv_db s)) body" and "keeps sv_ids body" and "emits body"
    and "\<And>s1. cur (sv_db s1) = com (sv_db s) \<Longrightarrow> sv_rest s1 = sv_rest s \<Longrightarrow>
      computes body s1 code c v (com (sv_db s))"
    and "s' = with_txn E p body (\<lambda>x. sess_sendresp_generic E p (code x)) s"
  shows "answers s s' p c \<and> com (sv_db s') = v"
proof -
  have reply: "answers s (sess_sendresp_generic E p c t) p c"
    if "sv_ids t = sv_ids s" "sv_log t = sv_log s @ ev" "list_all is_event ev" for t ev
    using that sv_idsD(4,5) [OF that(1), of p] sess_sendresp_generic_frame [of E p c t]
    unfolding answers_def by (intro exI [of _ ev]) simp
  obtain s1 where b: "db_rc (db_txn_begin (e_db E)) s = (Inr (), s1)" using total_begin(1) by (rule succeeds_unitE)
  note s1 = begin_ok [OF b]
  obtain r s2 where m: "body s1 = (r, s2)" by fastforce
  obtain ev where ev: "sv_log s2 = sv_log s @ ev" "list_all is_event ev" using emitsD [OF assms(3) m] sv_restD(4) [OF s1(3)] by auto
  have s2: "sv_ids s2 = sv_ids s" "com (sv_db s2) = com (sv_db s)"
    using keepsD [OF assms(2) m] keepsD [OF assms(1) m] s1 keepsD [OF keeps_ids_db(1) b] by simp_all
  note spec = assms(4) [OF s1(2) [OF refl] s1(3), unfolded computes_def m]
  show ?thesis
  proof (cases r)
    case (Inl c')
    let ?t = "snd (db_rc (db_txn_abort (e_db E)) s2)"
    have "s' = sess_sendresp_generic E p c ?t" using assms(5) b m Inl spec by (simp add: with_txn_def)
    moreover have "sv_ids ?t = sv_ids s" "sv_log ?t = sv_log s @ ev" "com (sv_db ?t) = com (sv_db s)"
      using keepsD [OF keeps_ids_db(1) prod.collapse [symmetric], of "db_txn_abort (e_db E)" s2]
        sv_restD(4) [OF db_rc_rest [of "db_txn_abort (e_db E)" s2]] abort_ok [of s2] s2 ev by simp_all
    ultimately show ?thesis using reply ev(2) spec Inl by simp
  next
    case (Inr x)
    obtain s3 where c: "db_rc (db_txn_commit (e_db E)) s2 = (Inr (), s3)" using total_begin(2) by (rule succeeds_unitE)
    have "s' = sess_sendresp_generic E p c s3" using assms(5) b m Inr c spec by (simp add: with_txn_def)
    moreover have "sv_ids s3 = sv_ids s" "sv_log s3 = sv_log s @ ev" "com (sv_db s3) = cur (sv_db s2)"
      using keepsD [OF keeps_ids_db(1) c] sv_restD(4) [OF commit_ok(2) [OF c]] commit_ok(1) [OF c] s2 ev by simp_all
    ultimately show ?thesis using reply ev(2) spec Inr by simp
  qed
qed

text \<open>The bodies compute the abstract handlers.\<close>

lemma lock_body_exact:
  assumes "abs_lock (ss_sid (sess_at s p)) (lm_fh lock) (has_flag (lm_flags lock) CLF_SHARED)
      (ss_msg_op (sess_at s p) = CMO_LOCK) (sv_now s) (cur (sv_db s)) = (c, v)"
  shows "computes (lock_body E p lock) s (\<lambda>acq. if acq then CLE_OK else CLE_LOCK_PENDING) c v (cur (sv_db s))"
proof -
  let ?sid = "ss_sid (sess_at s p)" and ?fh = "lm_fh lock" and ?sh = "has_flag (lm_flags lock) CLF_SHARED"
    and ?wait = "ss_msg_op (sess_at s p) = CMO_LOCK"
  obtain s1 where h: "cldb_handle_get E ?sid ?fh s = (mget (v_handles (cur (sv_db s)) (?sid, ?fh)), s1)"
    and s1: "cur (sv_db s1) = cur (sv_db s)" "sv_rest s1 = sv_rest s"
    using handle_get_exact [of ?sid ?fh s] by auto
  show ?thesis
  proof (cases "v_handles (cur (sv_db s)) (?sid, ?fh)")
    case None
    with h assms show ?thesis
      by (auto simp: computes_def lock_body_def abs_lock_def sess_sid_def ebind_def gets_def or_fail_def on_err_def mget_def)
  next
    case (Some hd)
    let ?ls = "v_locks (cur (sv_db s)) (rh_inum hd)"
    let ?held = "list_ex (lock_conflict ?sh) ?ls"
    note add = lock_add_exact [of ?ls s1 "rh_inum hd" ?held ?sh _ ?sid ?fh ?wait, OF _ _ refl]
    show ?thesis
      using h assms Some add s1 sv_restD(3) [OF s1(2)]
      by (auto simp: computes_def lock_body_def abs_lock_def sess_sid_def ebind_def gets_def or_fail_def on_err_def mget_def throw_def Let_def split: if_splits)
  qed
qed

lemma unlock_body_exact:
  assumes "abs_unlock (ss_sid (sess_at s p)) fh (cur (sv_db s)) = (c, v)"
  shows "computes (unlock_body E p fh) s (\<lambda>u. CLE_OK) c v (cur (sv_db s))"
proof -
  let ?sid = "ss_sid (sess_at s p)"
  obtain s1 where h: "cldb_handle_get E ?sid fh s = (mget (v_handles (cur (sv_db s)) (?sid, fh)), s1)"
    and s1: "cur (sv_db s1) = cur (sv_db s)" "sv_rest s1 = sv_rest s"
    using handle_get_exact [of ?sid fh s] by auto
  show ?thesis
  proof (cases "v_handles (cur (sv_db s)) (?sid, fh)")
    case None
    with h assms show ?thesis
      by (auto simp: computes_def unlock_body_def abs_unlock_def sess_sid_def ebind_def gets_def or_fail_def on_err_def mget_def)
  next
    case (Some hd)
    show ?thesis
      using h assms Some lock_del_exact [of "v_locks (cur (sv_db s)) (rh_inum hd)" s1 "rh_inum hd" ?sid fh] s1
      by (auto simp: computes_def unlock_body_def abs_unlock_def sess_sid_def ebind_def gets_def or_fail_def on_err_def mget_def throw_def
          split: if_splits option.splits)
  qed
qed

lemma put_body_exact:
  assumes "abs_put (ss_sid (sess_at s p)) (pm_fh put) (pm_data put) (sv_now s) (cur (sv_db s)) = (c, v)"
    and "db_inv (cur (sv_db s))"
  shows "computes (put_body E p put) s (\<lambda>u. CLE_OK) c v (cur (sv_db s))"
proof -
  let ?sid = "ss_sid (sess_at s p)" and ?d = "pm_data put"
  obtain s1 where h: "cldb_handle_get E ?sid (pm_fh put) s = (mget (v_handles (cur (sv_db s)) (?sid, pm_fh put)), s1)"
    and s1: "cur (sv_db s1) = cur (sv_db s)" "sv_rest s1 = sv_rest s"
    using handle_get_exact [of ?sid "pm_fh put" s] by auto
  note unf = computes_def put_body_def abs_put_def sess_sid_def ebind_def gets_def or_fail_def on_err_def mget_def throw_def Let_def
  show ?thesis
  proof (cases "v_handles (cur (sv_db s)) (?sid, pm_fh put)")
    case None
    with h assms show ?thesis by (auto simp: unf)
  next
    case (Some hd)
    obtain s2 where i: "cldb_inode_get E (rh_inum hd) s1 = (mget (v_inodes (cur (sv_db s)) (rh_inum hd)), s2)"
      and s2: "cur (sv_db s2) = cur (sv_db s)" "sv_rest s2 = sv_rest s"
      using inode_get_exact [of "rh_inum hd" s1] s1 by auto
    show ?thesis
    proof (cases "v_inodes (cur (sv_db s)) (rh_inum hd)")
      case None
      with h i Some assms show ?thesis by (auto simp: unf split: if_splits)
    next
      case (Some ino)
      obtain s3 where d: "cldb_data_put E (rh_inum hd) ?d s2 = (Inr (), s3)"
        and s3: "cur (sv_db s3) = put_data (rh_inum hd) ?d (cur (sv_db s))" "sv_rest s3 = sv_rest s"
        using data_put_exact [of "rh_inum hd" ?d s2] s2 by auto
      have "name_free (stamp (sv_now s3) (sized ino ?d)) (cur (sv_db s3))"
        using stamp_name_free [OF assms(2) Some, of "sv_now s3"] s3 by simp
      then obtain s4 where t: "inode_touch E (sized ino ?d) s3 = (Inr (), s4)"
        and s4: "cur (sv_db s4) = put_inode (sv_now s) (sized ino ?d) (put_data (rh_inum hd) ?d (cur (sv_db s)))"
        using touch_exact [of s3 "sized ino ?d"] s3 sv_restD(3) [OF s3(2)] by auto
      show ?thesis
        using h i d t s4 Some assms(1) \<open>v_handles (cur (sv_db s)) (?sid, pm_fh put) = Some hd\<close>
        by (auto simp: unf sized_def [symmetric] split: if_splits)
    qed
  qed
qed

lemma close_body_exact:
  assumes "abs_close (ss_sid (sess_at s p)) fh (cur (sv_db s)) = (c, v)"
  shows "computes (close_body E p fh) s (\<lambda>u. CLE_OK) c v (cur (sv_db s))"
proof -
  let ?sid = "ss_sid (sess_at s p)"
  obtain s1 where h: "cldb_handle_get E ?sid fh s = (mget (v_handles (cur (sv_db s)) (?sid, fh)), s1)"
    and s1: "cur (sv_db s1) = cur (sv_db s)" "sv_rest s1 = sv_rest s"
    using handle_get_exact [of ?sid fh s] by auto
  note unf = computes_def close_body_def abs_close_def sess_sid_def ebind_def gets_def or_fail_def on_err_def mget_def throw_def Let_def
  show ?thesis
  proof (cases "v_handles (cur (sv_db s)) (?sid, fh)")
    case None
    with h assms show ?thesis by (auto simp: unf)
  next
    case (Some hd)
    let ?i = "if has_flag (rh_mode hd) COM_LOCK then rh_inum hd else 0"
    have "fst (db_handle_del (e_db E) ?sid fh (sv_db s1)) = None"
      using sure_handle_del [of ?sid fh] Some s1 by (simp add: sure_del_def)
    then obtain s2 where d: "cldb_handle_del E ?sid fh s1 = (Inr (), s2)"
      by (cases "db_handle_del (e_db E) ?sid fh (sv_db s1)") (auto simp: cldb_handle_del_def db_rc_def)
    obtain w s3 where l: "session_remove_locks E ?sid fh ?i s2 = (Inr w, s3)"
      using total_remove_locks by (rule succeedsE)
    obtain s4 where r: "inode_lock_rescan E ?i s3 = (Inr (), s4)"
      using total_rescan by (rule succeeds_unitE)
    have run: "close_body E p fh s = (Inr (), if w then s4 else s3)"
      using h Some d l r by (auto simp: unf ret_def)
    obtain v' where "CLE_OK = c \<and> v = v'" "v' = cur (sv_db (if w then s4 else s3))"
      using close_body_ok [OF run refl] assms Some by (auto simp: abs_close_def Let_def)
    with run show ?thesis by (auto simp: computes_def)
  qed
qed

lemma get_body_exact:
  "\<exists>s'. get_body E p fh s =
     (abs_get (ss_sid (sess_at s p)) fh (ss_msg_op (sess_at s p) = CMO_GET) (ss_msg_xid (sess_at s p)) (cur (sv_db s)), s')"
proof -
  let ?x = "sess_at s p"
  obtain s1 where h: "cldb_handle_get E (ss_sid ?x) fh s = (mget (v_handles (cur (sv_db s)) (ss_sid ?x, fh)), s1)"
    and s1: "cur (sv_db s1) = cur (sv_db s)" "sv_rest s1 = sv_rest s"
    using handle_get_exact [of "ss_sid ?x" fh s] by auto
  note unf = get_body_def abs_get_def sess_sid_def ebind_def gets_def or_fail_def on_err_def mget_def throw_def Let_def ret_def
  show ?thesis
  proof (cases "v_handles (cur (sv_db s)) (ss_sid ?x, fh)")
    case None
    with h show ?thesis by (auto simp: unf)
  next
    case hd: (Some hd)
    obtain s2 where i: "cldb_inode_get E (rh_inum hd) s1 = (mget (v_inodes (cur (sv_db s)) (rh_inum hd)), s2)"
      and s2: "cur (sv_db s2) = cur (sv_db s)" "sv_rest s2 = sv_rest s"
      using inode_get_exact [of "rh_inum hd" s1] s1 by auto
    obtain s3 where d: "cldb_data_get E (rh_inum hd) s2 = (mget (v_data (cur (sv_db s)) (rh_inum hd)), s3)"
      using data_get_exact [of "rh_inum hd" s2] s2 by auto
    have at: "sess_at s2 p = ?x" using sv_restD(9) [OF s2(2)] .
    show ?thesis
    proof (cases "v_inodes (cur (sv_db s)) (rh_inum hd)")
      case None
      with h i hd show ?thesis by (auto simp: unf)
    next
      case (Some ino)
      with h i hd at d show ?thesis
        by (auto simp: unf get_data_def attempt_def data_or_empty_def split: option.splits)
    qed
  qed
qed

lemma handle_refines_spec:
  assumes a: "abs_handle (sess_at s p) (sv_now s) r (com (sv_db s)) = Some (c, v)" and inv: "db_inv (com (sv_db s))"
  shows "answers s (handle E p r s) p c \<and> com (sv_db (handle E p r s)) = v"
proof (cases r)
  case (Req_lock m)
  have "computes (lock_body E p m) s1 (\<lambda>acq. if acq then CLE_OK else CLE_LOCK_PENDING) c v (com (sv_db s))"
    if "cur (sv_db s1) = com (sv_db s)" "sv_rest s1 = sv_rest s" for s1
    using lock_body_exact [of s1 p m c v] a Req_lock that sv_restD(3,9) [OF that(2)] by simp
  from with_txn_exact [OF keeps_com_bodies(6) keeps_ids_bodies(6) emits_bodies(6) this refl, of p]
  moreover have "(\<lambda>acq. if \<not> acq then sess_sendresp_generic E p CLE_LOCK_PENDING else sess_sendresp_generic E p CLE_OK) =
      (\<lambda>acq. sess_sendresp_generic E p (if acq then CLE_OK else CLE_LOCK_PENDING))" by auto
  ultimately show ?thesis using Req_lock by (simp add: msg_lock_def)
next
  case (Req_unlock fh)
  have "computes (unlock_body E p fh) s1 (\<lambda>_. CLE_OK) c v (com (sv_db s))"
    if "cur (sv_db s1) = com (sv_db s)" "sv_rest s1 = sv_rest s" for s1
    using unlock_body_exact [of s1 p fh c v] a Req_unlock that sv_restD(9) [OF that(2)] by simp
  from with_txn_exact [OF keeps_com_bodies(5) keeps_ids_bodies(5) emits_bodies(5) this refl] Req_unlock show ?thesis
    by (simp add: msg_unlock_def)
next
  case (Req_put m)
  have "computes (put_body E p m) s1 (\<lambda>_. CLE_OK) c v (com (sv_db s))"
    if "cur (sv_db s1) = com (sv_db s)" "sv_rest s1 = sv_rest s" for s1
    using put_body_exact [of s1 p m c v] a inv Req_put that sv_restD(3,9) [OF that(2)] by simp
  from with_txn_exact [OF keeps_com_bodies(1) keeps_ids_bodies(1) emits_bodies(1) this refl] Req_put show ?thesis
    by (simp add: msg_put_def)
next
  case (Req_close fh)
  have "computes (close_body E p fh) s1 (\<lambda>_. CLE_OK) c v (com (sv_db s))"
    if "cur (sv_db s1) = com (sv_db s)" "sv_rest s1 = sv_rest s" for s1
    using close_body_exact [of s1 p fh c v] a Req_close that sv_restD(9) [OF that(2)] by simp
  from with_txn_exact [OF keeps_com_bodies(3) keeps_ids_bodies(3) emits_bodies(3) this refl] Req_close show ?thesis
    by (simp add: msg_close_def)
qed (use a in auto)

lemma msg_get_exact:
  assumes "abs_get (ss_sid (sess_at s p)) fh (ss_msg_op (sess_at s p) = CMO_GET) (ss_msg_xid (sess_at s p)) (com (sv_db s)) = Inr resp"
  shows "replied s (msg_get E p fh s) p (Get_resp resp) \<and> com (sv_db (msg_get E p fh s)) = com (sv_db s)"
proof -
  obtain s1 where b: "db_rc (db_txn_begin (e_db E)) s = (Inr (), s1)" using total_begin(1) by (rule succeeds_unitE)
  note s1 = begin_ok [OF b]
  obtain s2 where m: "get_body E p fh s1 = (Inr resp, s2)"
    using get_body_exact [of p fh s1] assms s1(2) sv_restD(9) [OF s1(3)] by auto
  obtain ok s3 where snd: "sess_sendmsg E p (Get_resp resp) CMO_GET None s2 = (ok, s3)" by fastforce
  obtain s4 where c: "db_rc (db_txn_commit (e_db E)) s3 = (Inr (), s4)" using total_begin(2) by (rule succeeds_unitE)
  have run: "msg_get E p fh s = s4" using b m snd c by (simp add: msg_get_def)
  obtain ev where ev: "sv_log s2 = sv_log s @ ev" "list_all is_event ev"
    using emitsD [OF emits_bodies(2) m] sv_restD(4) [OF s1(3)] by auto
  have "sv_log s4 = sv_log s @ ev @ [(p, CMO_GET, Get_resp resp)]"
    using sv_restD(4) [OF commit_ok(2) [OF c]] sess_sendmsg_frame [OF snd] ev by simp
  with ev(2) msg_get_atomic [of s p fh] show ?thesis unfolding run replied_def by blast
qed

end

section \<open>Opening and deleting\<close>

definition inode_named :: "dbview \<Rightarrow> bytes \<Rightarrow> raw_inode option \<Rightarrow> bool" where
  "inode_named v n opt \<longleftrightarrow> (\<forall>x. opt = Some x \<longleftrightarrow> v_inodes v (ri_inum x) = Some x \<and> inode_name_key x = Some n)"

definition abs_del :: "u64 \<Rightarrow> bytes \<Rightarrow> raw_inode \<Rightarrow> bytes \<Rightarrow> raw_inode option \<Rightarrow> dbview \<Rightarrow> cle_err_codes \<times> dbview" where
  "abs_del now base parent pdata target v =
     (case target of
        None \<Rightarrow> (CLE_NAME_INVAL, v)
      | Some ino \<Rightarrow>
          if has_flag (ri_flags ino) CIFL_DIR \<and> data_or_empty v (ri_inum ino) \<noteq> [] then (CLE_DIR_NOTEMPTY, v)
          else case dirdata_delete pdata base of
                 None \<Rightarrow> (CLE_DB_ERR, v)
               | Some d \<Rightarrow> (CLE_OK, put_inode now (sized parent d) (put_data (ri_inum parent) d (unlink_inode (ri_inum ino) v))))"

lemma name_free_unlink: "name_free t v \<Longrightarrow> name_free t (unlink_inode i v)"
  unfolding name_free_def unlink_inode_def by (auto split: if_splits)

context cld_reliable
begin

lemma byname_exact:
  assumes "inode_named (cur (sv_db s)) n opt"
  shows "\<exists>s'. cldb_inode_get_byname E n s = (mget opt, s') \<and> cur (sv_db s') = cur (sv_db s) \<and> sv_rest s' = sv_rest s"
proof -
  obtain r s' where g: "cldb_inode_get_byname E n s = (r, s')" by fastforce
  have k: "cur (sv_db s') = cur (sv_db s)" "sv_rest s' = sv_rest s"
    using keepsD [OF keeps_cur_cldb(2) g] keepsD [OF keeps_rest_cldb(4) g] by simp_all
  have "r = mget opt"
  proof (cases r)
    case (Inr x)
    then have "opt = Some x" using byname_ok [of n s x s'] g assms unfolding inode_named_def by blast
    then show ?thesis using Inr by (simp add: mget_def)
  next
    case (Inl e)
    obtain d where f: "db_inode_byname (e_db E) n (sv_db s) = (Inl e, d)"
      using g Inl by (auto simp: cldb_inode_get_byname_def db_val_def split: prod.splits)
    then have "e = DB_NOTFOUND" using sure_inode_byname [of n] unfolding definite_def by (metis fst_conv)
    then have "\<forall>j x. v_inodes (cur (sv_db s)) j = Some x \<and> ri_inum x = j \<longrightarrow> inode_name_key x \<noteq> Some n"
      using inode_byname [of n] f unfolding reads_def by blast
    then have "opt = None" using assms by (cases opt) (auto simp: inode_named_def)
    then show ?thesis using Inl \<open>e = DB_NOTFOUND\<close> by (simp add: mget_def)
  qed
  with g k show ?thesis by auto
qed

lemma total_notify: "succeeds (inode_notify E i b)"
  unfolding inode_notify_def by (auto intro!: total_bind total_basic total_cursor split: prod.splits)

lemma total_del_any: "sure_del cur f P \<Longrightarrow> succeeds (del_any f)"
  unfolding succeeds_def
proof
  fix s :: "'d srv"
  assume "sure_del cur f P"
  then show "\<exists>x s'. del_any f s = (Inr x, s')"
    by (cases "f (sv_db s)") (auto simp: del_any_def ebind_def attempt_def db_rc_def sure_del_def ret_def split: option.splits if_splits dest!: spec [of _ "sv_db s"])
qed

lemma keeps_ids_del: "keeps sv_ids (del_inode E ino)"
  unfolding del_inode_def del_any_def by (intro keeps_intros)

lemma del_inode_exact:
  assumes "v_inodes (cur (sv_db s)) (ri_inum ino) \<noteq> None"
  shows "\<exists>s'. del_inode E ino s = (Inr (), s')"
proof -
  obtain s1 where n: "inode_notify E (ri_inum ino) True s = (Inr (), s1)" using total_notify by (rule succeeds_unitE)
  have "v_inodes (cur (sv_db s1)) (ri_inum ino) \<noteq> None" using assms keepsD [OF keeps_com_notify(2) n] by simp
  then have "fst (db_inode_del (e_db E) (ri_inum ino) (sv_db s1)) = None"
    using sure_inode_del [of "ri_inum ino"] by (auto simp: sure_del_def)
  then obtain s2 where d: "db_rc (db_inode_del (e_db E) (ri_inum ino)) s1 = (Inr (), s2)"
    by (cases "db_inode_del (e_db E) (ri_inum ino) (sv_db s1)") (auto simp: db_rc_def)
  obtain s3 where d3: "del_any (db_data_del (e_db E) (ri_inum ino)) s2 = (Inr (), s3)"
    using total_del_any [OF sure_data_del] by (rule succeeds_unitE)
  obtain s4 where "del_any (db_hidx_del (e_db E) (ri_inum ino)) s3 = (Inr (), s4)"
    using total_del_any [OF sure_hidx_del] by (rule succeeds_unitE)
  with n d d3 show ?thesis by (auto simp: del_inode_def ebind_def or_fail_def on_err_def)
qed

lemma rmdir_check_exact:
  "\<exists>s'. rmdir_check E ino s =
     (if has_flag (ri_flags ino) CIFL_DIR \<and> data_or_empty (cur (sv_db s)) (ri_inum ino) \<noteq> [] then Inl CLE_DIR_NOTEMPTY else Inr (), s') \<and>
     cur (sv_db s') = cur (sv_db s) \<and> sv_rest s' = sv_rest s"
proof -
  obtain s1 where "db_val (db_data_get (e_db E) (ri_inum ino)) s = (mget (v_data (cur (sv_db s)) (ri_inum ino)), s1)"
    "cur (sv_db s1) = cur (sv_db s)" "sv_rest s1 = sv_rest s"
    using data_get_exact [of "ri_inum ino" s] by (auto simp: cldb_data_get_def)
  then show ?thesis
    by (auto simp: rmdir_check_def ebind_def attempt_def mget_def data_or_empty_def throw_def ret_def split: option.splits)
qed

lemma del_body_exact:
  assumes inv: "db_inv (cur (sv_db s))" and par: "inode_named (cur (sv_db s)) (pi_dir (pathname_parse name)) (Some parent)"
    and pd: "v_data (cur (sv_db s)) (ri_inum parent) = Some pdata" and tgt: "inode_named (cur (sv_db s)) name target"
    and spec: "abs_del (sv_now s) (pi_base (pathname_parse name)) parent pdata target (cur (sv_db s)) = (c, v)"
  shows "computes (del_body E name) s (\<lambda>_. CLE_OK) c v (cur (sv_db s))"
proof -
  let ?v = "cur (sv_db s)" and ?base = "pi_base (pathname_parse name)"
  obtain s1 where b1: "cldb_inode_get_byname E (pi_dir (pathname_parse name)) s = (Inr parent, s1)"
    and s1: "cur (sv_db s1) = ?v" "sv_rest s1 = sv_rest s" using byname_exact [OF par] by (auto simp: mget_def)
  obtain s2 where b2: "cldb_data_get E (ri_inum parent) s1 = (Inr pdata, s2)"
    and s2: "cur (sv_db s2) = ?v" "sv_rest s2 = sv_rest s" using data_get_exact [of "ri_inum parent" s1] pd s1 by (auto simp: mget_def)
  obtain s3 where b3: "cldb_inode_get_byname E name s2 = (mget target, s3)"
    and s3: "cur (sv_db s3) = ?v" "sv_rest s3 = sv_rest s" using byname_exact [of s2 name target] tgt s2 by auto
  note run = b1 b2 b3
  have parent: "v_inodes ?v (ri_inum parent) = Some parent" using par unfolding inode_named_def by blast
  note unf = computes_def del_body_def ebind_def or_fail_def on_err_def mget_def Let_def throw_def abs_del_def
  show ?thesis
  proof (cases target)
    case None
    with run spec show ?thesis by (auto simp: unf)
  next
    case (Some ino)
    obtain s4 where b4: "rmdir_check E ino s3 =
        (if has_flag (ri_flags ino) CIFL_DIR \<and> data_or_empty ?v (ri_inum ino) \<noteq> [] then Inl CLE_DIR_NOTEMPTY else Inr (), s4)"
      and s4: "cur (sv_db s4) = ?v" "sv_rest s4 = sv_rest s" using rmdir_check_exact [of ino s3] s3 by auto
    show ?thesis
    proof (cases "has_flag (ri_flags ino) CIFL_DIR \<and> data_or_empty ?v (ri_inum ino) \<noteq> []")
      case True
      with run b4 Some spec show ?thesis by (auto simp: unf)
    next
      case False
      then have b4: "rmdir_check E ino s3 = (Inr (), s4)" using b4 by (auto split: if_splits)
      obtain s5 where b5: "del_inode E ino s4 = (Inr (), s5)"
        using del_inode_exact [of s4 ino] tgt Some s4 by (auto simp: inode_named_def)
      have s5: "cur (sv_db s5) = unlink_inode (ri_inum ino) ?v" "sv_now s5 = sv_now s"
        using del_inode_ok [OF b5] s4 sv_restD(3) [OF s4(2)] sv_idsD(1) [OF keepsD [OF keeps_ids_del b5]] by simp_all
      show ?thesis
      proof (cases "dirdata_delete pdata ?base")
        case None
        with run b4 b5 Some False spec show ?thesis by (auto simp: unf)
      next
        case d: (Some d)
        obtain s6 where b6: "cldb_data_put E (ri_inum parent) d s5 = (Inr (), s6)"
          and s6: "cur (sv_db s6) = put_data (ri_inum parent) d (unlink_inode (ri_inum ino) ?v)" and r6: "sv_rest s6 = sv_rest s5"
          using data_put_exact [of "ri_inum parent" d s5] s5 by auto
        have now6: "sv_now s6 = sv_now s" using sv_restD(3) [OF r6] s5 by simp
        have "name_free (stamp (sv_now s6) (sized parent d)) (cur (sv_db s6))"
          using stamp_name_free [OF inv, of "ri_inum parent" parent "sv_now s6"] parent s6 by (simp add: name_free_unlink)
        then obtain s7 where b7: "inode_touch E (sized parent d) s6 = (Inr (), s7)"
          and s7: "cur (sv_db s7) = put_inode (sv_now s) (sized parent d) (put_data (ri_inum parent) d (unlink_inode (ri_inum ino) ?v))"
          using touch_exact [of s6 "sized parent d"] s6 now6 by auto
        have "del_body E name s = (Inr (), s7)"
          using run b4 b5 b6 b7 d unfolding del_body_def Let_def sized_def [symmetric] Some
          by (simp add: ebind_def or_fail_def on_err_def mget_def)
        moreover have "c = CLE_OK" "v = cur (sv_db s7)" using spec s7 Some False d by (auto simp: abs_del_def)
        ultimately show ?thesis by (simp add: computes_def)
      qed
    qed
  qed
qed

lemma del_refines_spec:
  assumes "db_inv (com (sv_db s))" and "valid_inode_name name" and "2 \<le> length name"
    and "inode_named (com (sv_db s)) (pi_dir (pathname_parse name)) (Some parent)" and "v_data (com (sv_db s)) (ri_inum parent) = Some pdata"
    and "inode_named (com (sv_db s)) name target"
    and "abs_del (sv_now s) (pi_base (pathname_parse name)) parent pdata target (com (sv_db s)) = (c, v)"
  shows "answers s (msg_del E p name s) p c \<and> com (sv_db (msg_del E p name s)) = v"
proof -
  have "computes (del_body E name) s1 (\<lambda>_. CLE_OK) c v (com (sv_db s))"
    if "cur (sv_db s1) = com (sv_db s)" "sv_rest s1 = sv_rest s" for s1
    using del_body_exact [of s1 name parent pdata target c v] assms that sv_restD(3) [OF that(2)] by simp
  from with_txn_exact [OF keeps_com_bodies(4) keeps_ids_bodies(4) emits_bodies(4) this refl] assms(2,3) show ?thesis
    by (simp add: msg_del_def)
qed

end

section \<open>Properties\<close>

text \<open>
  C5: on a working database the handlers for locking, unlocking, writing and closing compute their
  abstract functions: the reply code and the committed content are exactly those of \<open>abs_handle\<close>, on
  every branch.
\<close>

theorem handle_refines:
  assumes "cld_reliable E com cur" and "db_inv (com (sv_db s))"
    and "abs_handle (sess_at s p) (sv_now s) r (com (sv_db s)) = Some (c, v)"
  shows "answers s (handle E p r s) p c \<and> com (sv_db (handle E p r s)) = v"
  by (rule cld_reliable.handle_refines_spec [OF assms(1,3,2)])

definition file_inode :: raw_inode where
  "file_inode = \<lparr>ri_inum = 60, ri_ino_len = 2, ri_size = 1, ri_version = 4, ri_time_create = 900, ri_time_modify = 950,
     ri_flags = 0, ri_name = [47, 97]\<rparr>"

definition file_tabs :: tabs where
  "file_tabs = no_tabs\<lparr>t_inodes := [(60, file_inode)], t_data := [(60, [1])],
     t_handles := [((ss_sid sample_sess, 1), \<lparr>rh_sid = ss_sid sample_sess, rh_fh = 1, rh_inum = 60,
       rh_mode = COM_READ OR COM_WRITE OR COM_LOCK, rh_events = 0\<rparr>)]\<rparr>"

lemma file_flags:
  "has_flag (COM_READ OR COM_WRITE OR COM_LOCK) COM_READ" "has_flag (COM_READ OR COM_WRITE OR COM_LOCK) COM_WRITE"
  "has_flag (COM_READ OR COM_WRITE OR COM_LOCK) COM_LOCK" "\<not> has_flag (COM_READ OR COM_WRITE OR COM_LOCK) COM_DIRECTORY"
  by (simp_all add: has_flag_def COM_READ_def COM_WRITE_def COM_LOCK_def COM_DIRECTORY_def)

lemma file_tabs_inv: "db_inv (view_of file_tabs)"
  by (auto simp: db_inv_def inodes_wf_def handles_wf_def file_tabs_def no_tabs_def file_inode_def inode_name_key_def
      alocks_def locks_safe_def CLD_SID_SZ_def CLD_INODE_NAME_MAX_def split: if_splits)

theorem handle_refines_witness:
  "answers (sample_srv file_tabs) (handle (ref_env False) 0 (Req_lock \<lparr>lm_fh = 1, lm_flags = 0\<rparr>) (sample_srv file_tabs)) 0 CLE_OK"
proof -
  have a: "\<exists>v. abs_handle sample_sess 1000 (Req_lock \<lparr>lm_fh = 1, lm_flags = 0\<rparr>) (view_of file_tabs) = Some (CLE_OK, v)"
    by (simp add: abs_lock_def file_tabs_def no_tabs_def alocks_def Let_def file_flags)
  then show ?thesis
    using handle_refines [OF rr.cld_reliable_axioms, of "sample_srv file_tabs" 0 "Req_lock \<lparr>lm_fh = 1, lm_flags = 0\<rparr>" CLE_OK]
      file_tabs_inv by auto
qed

lemma version_wrap: "(ucast (ucast (v :: u64) + 1 :: u32) :: u64) = word_of_nat ((unat v + 1) mod 2 ^ 32)"
proof -
  have "unat (ucast v + 1 :: u32) = (unat v + 1) mod 2 ^ 32"
    by (simp add: unat_word_ariths unsigned_ucast_eq take_bit_eq_mod mod_Suc_eq)
  moreover have "unat (ucast (w :: u32) :: u64) = unat w" for w
    using unsigned_less [of w, where ?'a = nat] by (simp add: unsigned_ucast_eq take_bit_nat_eq_self_iff)
  ultimately have "unat (ucast (ucast v + 1 :: u32) :: u64) = (unat v + 1) mod 2 ^ 32" by simp
  then show ?thesis by (metis of_nat_unat word_of_int_uint of_int_of_nat_eq)
qed

text \<open>
  C29: what one session has put is what every session with a readable handle on the inode gets, with
  the version advanced by one modulo \<open>2 ^ 32\<close>.
\<close>

theorem put_get_roundtrip:
  assumes "cld_reliable E com cur" and "db_inv (com (sv_db s))"
    and "v_handles (com (sv_db s)) (ss_sid (sess_at s p), pm_fh put) = Some h"
    and "has_flag (rh_mode h) COM_WRITE" and "\<not> has_flag (rh_mode h) COM_DIRECTORY"
    and "v_inodes (com (sv_db s)) (rh_inum h) = Some ino" and "length (pm_data put) < 2 ^ 32"
    and "sv_db t = sv_db (msg_put E p put s)"
    and "v_handles (com (sv_db s)) (ss_sid (sess_at t q), fh) = Some g" and "rh_inum g = rh_inum h"
    and "has_flag (rh_mode g) COM_READ" and "ss_msg_op (sess_at t q) = CMO_GET"
  shows "answers s (msg_put E p put s) p CLE_OK \<and>
    (\<exists>resp. replied t (msg_get E q fh t) q (Get_resp resp) \<and> gr_data resp = pm_data put \<and>
      gr_vers resp = word_of_nat ((unat (ri_version ino) + 1) mod 2 ^ 32) \<and> gr_time_modify resp = sv_now s)"
proof -
  let ?v = "put_inode (sv_now s) (sized ino (pm_data put)) (put_data (rh_inum h) (pm_data put) (com (sv_db s)))"
  have num: "ri_inum ino = rh_inum h" using assms(2,6) by (auto simp: db_inv_def inodes_wf_def)
  have "abs_handle (sess_at s p) (sv_now s) (Req_put put) (com (sv_db s)) = Some (CLE_OK, ?v)"
    using assms(3-6) by (simp add: abs_put_def)
  from cld_reliable.handle_refines_spec [OF assms(1) this assms(2)]
  have put: "answers s (msg_put E p put s) p CLE_OK" "com (sv_db (msg_put E p put s)) = ?v" by simp_all
  have size: "unat (word_of_nat (length (pm_data put)) :: u32) = length (pm_data put)"
    using assms(7) by (simp add: unsigned_of_nat take_bit_nat_eq_self)
  have st: "ri_version (stamp now x) = word_of_nat ((unat (ri_version x) + 1) mod 2 ^ 32)"
    "ri_size (stamp now x) = ri_size x" "ri_time_modify (stamp now x) = now" "ri_version (sized x d) = ri_version x" for now x d
    by (simp_all add: stamp_def touched_def Let_def version_wrap sized_def)
  obtain resp where "abs_get (ss_sid (sess_at t q)) fh (ss_msg_op (sess_at t q) = CMO_GET) (ss_msg_xid (sess_at t q)) (com (sv_db t)) = Inr resp"
    "gr_data resp = pm_data put" "gr_vers resp = word_of_nat ((unat (ri_version ino) + 1) mod 2 ^ 32)" "gr_time_modify resp = sv_now s"
    using assms(8-12) put(2) num size
    by (auto simp: abs_get_def put_inode_def put_data_def data_or_empty_def Let_def st)
  with cld_reliable.msg_get_exact [OF assms(1)] put(1) show ?thesis by blast
qed

theorem put_get_roundtrip_witness:
  "\<exists>resp. replied ((msg_put (ref_env False) 0 \<lparr>pm_fh = 1, pm_data = [7, 8]\<rparr> (sample_srv file_tabs))\<lparr>sv_heap := [0 \<mapsto> sample_sess\<lparr>ss_msg_op := CMO_GET\<rparr>]\<rparr>)
     (msg_get (ref_env False) 0 1 ((msg_put (ref_env False) 0 \<lparr>pm_fh = 1, pm_data = [7, 8]\<rparr> (sample_srv file_tabs))\<lparr>sv_heap := [0 \<mapsto> sample_sess\<lparr>ss_msg_op := CMO_GET\<rparr>]\<rparr>))
     0 (Get_resp resp) \<and> gr_data resp = [7, 8] \<and> gr_vers resp = 5"
proof -
  let ?put = "\<lparr>pm_fh = 1, pm_data = [7, 8]\<rparr>" and ?s = "sample_srv file_tabs"
  let ?h = "\<lparr>rh_sid = ss_sid sample_sess, rh_fh = 1, rh_inum = 60, rh_mode = COM_READ OR COM_WRITE OR COM_LOCK, rh_events = 0\<rparr>"
  let ?t = "(msg_put (ref_env False) 0 ?put ?s)\<lparr>sv_heap := [0 \<mapsto> sample_sess\<lparr>ss_msg_op := CMO_GET\<rparr>]\<rparr>"
  have h: "map_of (t_handles file_tabs) (ss_sid sample_sess, 1) = Some ?h" and i: "map_of (t_inodes file_tabs) 60 = Some file_inode"
    by (simp_all add: file_tabs_def)
  have at: "sess_at ?t 0 = sample_sess\<lparr>ss_msg_op := CMO_GET\<rparr>" by (simp add: sess_at_def)
  have v: "ri_version file_inode = 4" by (simp add: file_inode_def)
  show ?thesis
    using put_get_roundtrip [OF rr.cld_reliable_axioms, of ?s 0 ?put ?h file_inode ?t 0 1 ?h] file_tabs_inv h i at v
    by (auto simp: file_flags)
qed

text \<open>
  C30: deleting a name, on a working database: without an inode of that name, or for a directory with
  entries, the request is refused and nothing changes; otherwise the inode, its data and all handles
  on it are removed, and its entry is taken out of the data of the parent directory.
\<close>

theorem msg_del_refines:
  assumes "cld_reliable E com cur" and "db_inv (com (sv_db s))" and "valid_inode_name name" and "2 \<le> length name"
    and "inode_named (com (sv_db s)) (pi_dir (pathname_parse name)) (Some parent)"
    and "v_data (com (sv_db s)) (ri_inum parent) = Some pdata" and "inode_named (com (sv_db s)) name target"
    and "abs_del (sv_now s) (pi_base (pathname_parse name)) parent pdata target (com (sv_db s)) = (c, v)"
  shows "answers s (msg_del E p name s) p c \<and> com (sv_db (msg_del E p name s)) = v"
  by (rule cld_reliable.del_refines_spec [OF assms])

definition tree_tabs :: tabs where
  "tree_tabs = file_tabs\<lparr>t_inodes := [(60, file_inode), (10, file_inode\<lparr>ri_inum := 10, ri_ino_len := 1, ri_name := [47], ri_flags := CIFL_DIR\<rparr>)],
     t_data := [(60, [1]), (10, dir_enc [[97]])]\<rparr>"

theorem msg_del_refines_witness:
  "answers (sample_srv tree_tabs) (msg_del (ref_env False) 0 [47, 97] (sample_srv tree_tabs)) 0 CLE_OK \<and>
   v_data (mcom (sv_db (msg_del (ref_env False) 0 [47, 97] (sample_srv tree_tabs)))) 10 = Some []"
proof -
  let ?v = "view_of tree_tabs" and ?root = "file_inode\<lparr>ri_inum := 10, ri_ino_len := 1, ri_name := [47], ri_flags := CIFL_DIR\<rparr>"
  note t = tree_tabs_def file_tabs_def no_tabs_def file_inode_def inode_name_key_def
  have inv: "db_inv ?v"
    by (auto simp: db_inv_def inodes_wf_def handles_wf_def t alocks_def locks_safe_def CLD_SID_SZ_def split: if_splits)
  have pp: "pi_dir (pathname_parse [47, 97]) = [47]" "pi_base (pathname_parse [47, 97]) = [97]" "valid_inode_name [47, 97]"
    by code_simp+
  have named: "inode_named ?v [47] (Some ?root)" "inode_named ?v [47, 97] (Some file_inode)"
    by (auto simp: inode_named_def t split: if_splits)
  have del: "dirdata_delete (dir_enc [[97]]) [97] = Some []" by code_simp
  have root: "ri_inum ?root = 10" "map_of (t_data tree_tabs) 10 = Some (dir_enc [[97]])" by (simp_all add: t)
  obtain v where "abs_del 1000 [97] ?root (dir_enc [[97]]) (Some file_inode) ?v = (CLE_OK, v)" "v_data v 10 = Some []"
    using del by (auto simp: abs_del_def has_flag_def put_inode_def put_data_def file_inode_def)
  then show ?thesis
    using msg_del_refines [OF rr.cld_reliable_axioms, of "sample_srv tree_tabs" "[47, 97]" ?root "dir_enc [[97]]" "Some file_inode" CLE_OK v 0]
      inv pp named root by simp
qed

end
