(* ===== verification/Cld_Server.thy ===== *)
theory Cld_Server
  imports Cld_Spec
begin

text \<open>
  The receiving side of the lock server (\<^verbatim>\<open>cld/server.c\<close>): framing of the TCP stream, parsing and
  checking of packets, reassembly of messages, dispatch to the handlers; the creation of the root
  inode. Then the server as a whole: its steps, the states they reach, and what holds in all of them.
\<close>

section \<open>Receiving a packet\<close>

definition tcp_rx_handle ::
    "nat \<Rightarrow> (bytes \<Rightarrow> 'm option) \<Rightarrow> (nat \<Rightarrow> 'm \<Rightarrow> 'd srv \<Rightarrow> 'd srv) \<Rightarrow> 'd srv \<Rightarrow> cle_err_codes \<times> 'd srv" where
  "tcp_rx_handle sess xdrproc msg_handler s =
     (case xdrproc (ss_msg_buf (sess_at s sess)) of
        None \<Rightarrow> (CLE_BAD_PKT, s)
      | Some xdrdata \<Rightarrow> (CLE_OK, msg_handler sess xdrdata s))"

text \<open>The first half of \<^verbatim>\<open>tcp_rx\<close>: contact time, sequence number and the reassembly buffer.\<close>

definition rx_session :: "int \<Rightarrow> pkt_info \<Rightarrow> bytes \<Rightarrow> nat \<Rightarrow> 'd srv \<Rightarrow> cle_err_codes \<times> 'd srv" where
  "rx_session sock_fd info raw_pkt sess s =
     (let s = sess_upd sess (\<lambda>x. x\<lparr>ss_last_contact := sv_now s, ss_sock_fd := sock_fd\<rparr>) s;
          s = (if pi_op info \<noteq> CMO_ACK then sess_upd sess (\<lambda>x. x\<lparr>ss_next_seqid_in := ss_next_seqid_in x + 1\<rparr>) s else s);
          s = (if has_flag (ph_order (pi_pkt info)) CLD_PKT_IS_FIRST
               then sess_upd sess (\<lambda>x. x\<lparr>ss_msg_op := pi_op info, ss_msg_xid := pi_xid info, ss_msg_buf := []\<rparr>) s else s);
          msg_len = length raw_pkt - pi_hdr_len info - CLD_PKT_FTR_LEN
      in if length (ss_msg_buf (sess_at s sess)) + msg_len > CLD_MAX_MSG_SZ then (CLE_BAD_PKT, s)
         else (CLE_OK, sess_upd sess (\<lambda>x. x\<lparr>ss_msg_buf := ss_msg_buf x @ take msg_len (drop (pi_hdr_len info) raw_pkt)\<rparr>) s))"

definition rx_dispatch :: "'d env \<Rightarrow> int \<Rightarrow> client \<Rightarrow> pkt_info \<Rightarrow> nat \<Rightarrow> 'd srv \<Rightarrow> cle_err_codes \<times> 'd srv" where
  "rx_dispatch E sock_fd cli info sess s =
     (let op = pi_op info in
      if op = CMO_GET \<or> op = CMO_GET_META then tcp_rx_handle sess (e_dec_get E) (msg_get E) s
      else if op = CMO_OPEN then tcp_rx_handle sess (e_dec_open E) (msg_open E) s
      else if op = CMO_PUT then tcp_rx_handle sess (e_dec_put E) (msg_put E) s
      else if op = CMO_CLOSE then tcp_rx_handle sess (e_dec_close E) (msg_close E) s
      else if op = CMO_DEL then tcp_rx_handle sess (e_dec_del E) (msg_del E) s
      else if op = CMO_UNLOCK then tcp_rx_handle sess (e_dec_unlock E) (msg_unlock E) s
      else if op = CMO_TRYLOCK \<or> op = CMO_LOCK then tcp_rx_handle sess (e_dec_lock E) (msg_lock E) s
      else if op = CMO_ACK then (CLE_OK, msg_ack sess (pi_seqid info) s)
      else if op = CMO_NOP then (CLE_OK, sess_sendresp_generic E sess CLE_OK s)
      else if op = CMO_END_SESS then (CLE_OK, msg_end_sess E sess (pi_xid info) s)
      else (CLE_OK, s))"

text \<open>
  A packet without a session has passed \<^verbatim>\<open>validate_pkt_session\<close>, so its operation is
  \<^verbatim>\<open>CMO_NEW_SESS\<close>; one with a session has another operation.
\<close>

definition tcp_rx :: "'d env \<Rightarrow> int \<Rightarrow> client \<Rightarrow> pkt_info \<Rightarrow> bytes \<Rightarrow> 'd srv \<Rightarrow> cle_err_codes \<times> 'd srv" where
  "tcp_rx E sock_fd cli info raw_pkt s =
     (case (case pi_sess info of None \<Rightarrow> (CLE_OK, s) | Some sess \<Rightarrow> rx_session sock_fd info raw_pkt sess s) of
        (err, s) \<Rightarrow>
          if err \<noteq> CLE_OK then (err, s)
          else if \<not> has_flag (ph_order (pi_pkt info)) CLD_PKT_IS_LAST
          then (CLE_OK, simple_sendmsg E sock_fd (ph_sid (pi_pkt info)) (ph_user (pi_pkt info)) 0xdeadbeef
                  (Ack_frag (pi_seqid info)) CMO_ACK_FRAG s)
          else if pi_op info = CMO_NEW_SESS then (CLE_OK, msg_new_sess E sock_fd cli info s)
          else case pi_sess info of
                 None \<Rightarrow> (CLE_OK, s)
               | Some sess \<Rightarrow> rx_dispatch E sock_fd cli info sess s)"

section \<open>Checking a packet\<close>

definition parse_pkt_header :: "'d env \<Rightarrow> bytes \<Rightarrow> (cld_pkt_hdr \<times> nat) option" where
  "parse_pkt_header E raw_pkt =
     (if length raw_pkt \<le> CLD_PKT_FTR_LEN then None
      else
        case e_dec_hdr E (take (length raw_pkt - CLD_PKT_FTR_LEN) raw_pkt) of
          None \<Rightarrow> None
        | Some (pkt, hdr_len) \<Rightarrow> if memcmp (ph_magic pkt) CLD_PKT_MAGIC \<noteq> 0 then None else Some (pkt, hdr_len))"

definition get_pkt_info :: "cld_pkt_hdr \<Rightarrow> bytes \<Rightarrow> nat \<Rightarrow> 'd srv \<Rightarrow> pkt_info option" where
  "get_pkt_info pkt raw_pkt hdr_len s =
     (let sess = htab_get (sv_sessions s) (ph_sid pkt);
          seqid = pkt_seqid raw_pkt
      in if has_flag (ph_order pkt) CLD_PKT_IS_FIRST
         then Some \<lparr>pi_pkt = pkt, pi_sess = sess, pi_seqid = seqid, pi_xid = mi_xid (ph_mi pkt),
                    pi_op = mi_op (ph_mi pkt), pi_hdr_len = hdr_len\<rparr>
         else
           case sess of
             None \<Rightarrow> None
           | Some p \<Rightarrow> Some \<lparr>pi_pkt = pkt, pi_sess = sess, pi_seqid = seqid, pi_xid = ss_msg_xid (sess_at s p),
                          pi_op = ss_msg_op (sess_at s p), pi_hdr_len = hdr_len\<rparr>)"

definition validate_pkt_session :: "pkt_info \<Rightarrow> client \<Rightarrow> 'd srv \<Rightarrow> cle_err_codes" where
  "validate_pkt_session info cli s =
     (case pi_sess info of
        None \<Rightarrow> if pi_op info \<noteq> CMO_NEW_SESS then CLE_SESS_INVAL else CLE_OK
      | Some p \<Rightarrow>
          let sess = sess_at s p; n = unat (ss_addr_len sess) in
          if pi_op info = CMO_NEW_SESS then CLE_SESS_EXISTS
          else if ss_addr_len sess \<noteq> cl_addr_len cli \<or> memcmp (take n (ss_addr sess)) (take n (cl_addr cli)) \<noteq> 0 then CLE_SESS_INVAL
          else if strcmp (take CLD_MAX_USERNAME (ph_user (pi_pkt info))) (take CLD_MAX_USERNAME (ss_user sess)) \<noteq> 0 then CLE_SESS_INVAL
          else if ss_dead sess then CLE_SESS_INVAL
          else CLE_OK)"

definition pkt_chk_sig :: "'d env \<Rightarrow> bytes \<Rightarrow> cld_pkt_hdr \<Rightarrow> cle_err_codes" where
  "pkt_chk_sig E raw_pkt pkt =
     (let n = length raw_pkt - SHA_DIGEST_LENGTH in
      if cld_authcheck (e_hmac E) (user_key (Some (ph_user pkt))) (take n raw_pkt) (drop n raw_pkt) \<noteq> 0
      then CLE_SIG_INVAL else CLE_OK)"

definition simple_sendresp :: "'d env \<Rightarrow> int \<Rightarrow> pkt_info \<Rightarrow> cle_err_codes \<Rightarrow> 'd srv \<Rightarrow> 'd srv" where
  "simple_sendresp E sock_fd info code s =
     simple_sendmsg E sock_fd (ph_sid (pi_pkt info)) (ph_user (pi_pkt info)) (pi_seqid info)
       (Generic_resp code (pi_xid info)) (pi_op info) s"

text \<open>
  \<^verbatim>\<open>cli_rd_pkt\<close> up to its last call: a packet of \<open>cli\<close> is in \<open>raw_pkt\<close>. The result says whether the
  client's next packet is awaited; every early return leaves the connection without a reader.
\<close>

definition rd_pkt :: "'d env \<Rightarrow> client \<Rightarrow> bytes \<Rightarrow> 'd srv \<Rightarrow> bool \<times> 'd srv" where
  "rd_pkt E cli raw_pkt s =
     (let fd = cl_fd cli in
      case parse_pkt_header E raw_pkt of
        None \<Rightarrow> (False, s\<lparr>sv_garbage := sv_garbage s + 1\<rparr>)
      | Some (pkt, hdr_len) \<Rightarrow>
          (case get_pkt_info pkt raw_pkt hdr_len s of
             None \<Rightarrow> (False, s\<lparr>sv_garbage := sv_garbage s + 1\<rparr>)
           | Some info \<Rightarrow>
               let err = validate_pkt_session info cli s in
               if err \<noteq> CLE_OK then (False, simple_sendresp E fd info err s)
               else
                 let err = pkt_chk_sig E raw_pkt pkt in
                 if err \<noteq> CLE_OK then (False, simple_sendresp E fd info err s)
                 else if \<not> sv_master s
                 then (False, simple_sendmsg E fd (ph_sid pkt) (ph_user pkt) 0xdeadbeef Void_msg CMO_NOT_MASTER s)
                 else
                   case tcp_rx E fd cli info raw_pkt s of
                     (err, s) \<Rightarrow> if err \<noteq> CLE_OK then (False, simple_sendresp E fd info err s) else (True, s)))"

section \<open>Reading from a connection\<close>

text \<open>
  A connection with its queue of reads (\<^verbatim>\<open>struct client\<close> and \<^verbatim>\<open>struct atcp_read\<close>): each read fills one
  of the two buffers of the client and then calls back. The outcomes of the \<^verbatim>\<open>calloc\<close> in
  \<^verbatim>\<open>atcp_read\<close> are a script of the connection; an exhausted script means success.
\<close>

datatype rd_cb = Cli_rd_ubbp | Cli_rd_pkt

record atcp_rd =
  rd_buf_size :: nat
  rd_bytes_wanted :: nat
  rd_bytes_read :: nat
  rd_cb :: rd_cb

record conn =
  cn_cli :: client
  cn_q :: "atcp_rd list"
  cn_ubbp :: bytes
  cn_raw_pkt :: bytes
  cn_raw_size :: nat
  cn_freed :: bool
  cn_calloc :: "bool list"

definition UBBP_OP :: "u32 \<Rightarrow> u32" where
  "UBBP_OP op_size = op_size AND 0xff"

definition UBBP_SIZE :: "u32 \<Rightarrow> nat" where
  "UBBP_SIZE op_size = unat (drop_bit 8 op_size)"

definition cli_free :: "conn \<Rightarrow> conn" where
  "cli_free c = c\<lparr>cn_cli := (cn_cli c)\<lparr>cl_fd := - 1\<rparr>, cn_freed := True\<rparr>"

definition ubbp_len :: "bytes \<Rightarrow> nat option" where
  "ubbp_len ubbp =
     (let op_size = of_le_bytes (drop 4 ubbp) :: u32 in
      if memcmp (take 4 ubbp) (ascii ''CLD1'') \<noteq> 0 then None
      else if UBBP_OP op_size \<noteq> 1 then None
      else if UBBP_SIZE op_size > CLD_RAW_MSG_SZ then None
      else Some (UBBP_SIZE op_size))"

text \<open>
  When memory for a read cannot be had, \<^verbatim>\<open>atcp_read\<close> calls the callback at once, with \<^verbatim>\<open>success\<close>
  false, which the callbacks ignore: they work on what is in the buffer.
\<close>

function cli_rd :: "'d env \<Rightarrow> rd_cb \<Rightarrow> conn \<Rightarrow> 'd srv \<Rightarrow> conn \<times> 'd srv"
  and atcp_read :: "'d env \<Rightarrow> nat \<Rightarrow> rd_cb \<Rightarrow> conn \<Rightarrow> 'd srv \<Rightarrow> conn \<times> 'd srv" where
  "cli_rd E Cli_rd_pkt c s =
     (case rd_pkt E (cn_cli c) (take (cn_raw_size c) (cn_raw_pkt c)) s of
        (again, s) \<Rightarrow> if again then atcp_read E 8 Cli_rd_ubbp c s else (c, s))"
| "cli_rd E Cli_rd_ubbp c s =
     (case ubbp_len (cn_ubbp c) of
        None \<Rightarrow> (cli_free c, s)
      | Some sz \<Rightarrow> atcp_read E sz Cli_rd_pkt (c\<lparr>cn_raw_size := sz\<rparr>) s)"
| "atcp_read E buf_size cb c s =
     (case cn_calloc c of
        False # mem \<Rightarrow> cli_rd E cb (c\<lparr>cn_calloc := mem\<rparr>) s
      | mem \<Rightarrow>
          (c\<lparr>cn_calloc := List.tl mem,
             cn_q := cn_q c @ [\<lparr>rd_buf_size = buf_size, rd_bytes_wanted = buf_size, rd_bytes_read = 0, rd_cb = cb\<rparr>]\<rparr>, s))"
  by pat_completeness auto
termination
  by (relation "measure (\<lambda>x. case x of Inl (E, cb, c, s) \<Rightarrow> 2 * length (cn_calloc c) + 1 | Inr (E, n, cb, c, s) \<Rightarrow> 2 * length (cn_calloc c))")
    auto

declare cli_rd.simps [simp del] atcp_read.simps [simp del]

definition store_at :: "nat \<Rightarrow> bytes \<Rightarrow> bytes \<Rightarrow> bytes" where
  "store_at n d buf = take n buf @ d @ drop (n + length d) buf"

text \<open>
  One \<^verbatim>\<open>read\<close> per entry of the queue: an errno, or the bytes it returned. The successor in the queue
  is fetched before the callback runs, so a read that the callback adds to an otherwise empty queue
  waits for the next event. \<open>todo\<close> are the entries from the current one on.
\<close>

fun read_loop :: "'d env \<Rightarrow> (int + bytes) list \<Rightarrow> atcp_rd list \<Rightarrow> conn \<Rightarrow> 'd srv \<Rightarrow> bool \<times> conn \<times> 'd srv" where
  "read_loop E rds [] c s = (True, c, s)"
| "read_loop E [] (tmp # todo) c s = (True, c, s)"
| "read_loop E (Inl errno # rds) (tmp # todo) c s = (errno = EAGAIN, c, s)"
| "read_loop E (Inr d # rds) (tmp # todo) c s =
     (let d = take (rd_bytes_wanted tmp) d in
      if d = [] then (True, c, s)
      else
        let c = (case rd_cb tmp of
                   Cli_rd_ubbp \<Rightarrow> c\<lparr>cn_ubbp := store_at (rd_bytes_read tmp) d (cn_ubbp c)\<rparr>
                 | Cli_rd_pkt \<Rightarrow> c\<lparr>cn_raw_pkt := store_at (rd_bytes_read tmp) d (cn_raw_pkt c)\<rparr>);
            tmp' = tmp\<lparr>rd_bytes_read := rd_bytes_read tmp + length d, rd_bytes_wanted := rd_bytes_wanted tmp - length d\<rparr>
        in if rd_bytes_read tmp' = rd_buf_size tmp'
           then
             case cli_rd E (rd_cb tmp) (c\<lparr>cn_q := remove1 tmp (cn_q c)\<rparr>) s of
               (c', s) \<Rightarrow>
                 let added = drop (length (cn_q c) - 1) (cn_q c') in
                 if todo = [] then (True, c', s) else read_loop E rds (todo @ added) c' s
           else read_loop E rds todo (c\<lparr>cn_q := map (\<lambda>r. if r = tmp then tmp' else r) (cn_q c)\<rparr>) s)"

definition atcp_read_event :: "'d env \<Rightarrow> (int + bytes) list \<Rightarrow> conn \<Rightarrow> 'd srv \<Rightarrow> bool \<times> conn \<times> 'd srv" where
  "atcp_read_event E rds c s = read_loop E rds (cn_q c) c s"

definition tcp_cli_event :: "'d env \<Rightarrow> (int + bytes) list \<Rightarrow> conn \<Rightarrow> 'd srv \<Rightarrow> conn \<times> 'd srv" where
  "tcp_cli_event E rds c s = snd (atcp_read_event E rds c s)"

text \<open>An accepted connection: both buffers are zeroed by the allocation.\<close>

definition cli_alloc :: "client \<Rightarrow> bool list \<Rightarrow> conn" where
  "cli_alloc cli mem = \<lparr>cn_cli = cli, cn_q = [], cn_ubbp = replicate 8 0, cn_raw_pkt = replicate CLD_RAW_MSG_SZ 0,
     cn_raw_size = 0, cn_freed = False, cn_calloc = mem\<rparr>"

text \<open>
  \<open>ok\<close> is the outcome of the allocation; \<open>cli\<close> is the accepted client, \<open>None\<close> if \<^verbatim>\<open>accept\<close>,
  \<^verbatim>\<open>fsetflags\<close> or \<^verbatim>\<open>event_add\<close> failed and the client was freed. The first result is \<^verbatim>\<open>server_running\<close>.
\<close>

definition tcp_srv_event :: "'d env \<Rightarrow> bool \<Rightarrow> client option \<Rightarrow> bool list \<Rightarrow> 'd srv \<Rightarrow> bool \<times> conn option \<times> 'd srv" where
  "tcp_srv_event E ok cli mem s =
     (if \<not> ok then (False, None, s)
      else
        case cli of
          None \<Rightarrow> (True, None, s)
        | Some cli \<Rightarrow> (case atcp_read E 8 Cli_rd_ubbp (cli_alloc cli mem) s of (c, s) \<Rightarrow> (True, Some c, s)))"

section \<open>The root inode\<close>

text \<open>\<open>False\<close> is \<^verbatim>\<open>exit(1)\<close>.\<close>

definition root_body :: "'d env \<Rightarrow> ('d srv, dberr, unit) esm" where
  "root_body E =
     ebind (attempt (cldb_inode_get_byname E (ascii ''/''))) (\<lambda>r.
     case r of
       Inr inode \<Rightarrow> ret ()
     | Inl rc \<Rightarrow>
         if rc \<noteq> DB_NOTFOUND then throw rc
         else
           ebind (call (cldb_inode_mem E (ascii ''/'') CIFL_DIR CLD_INO_ROOT)) (\<lambda>io.
           case io of
             None \<Rightarrow> throw DB_NOTFOUND
           | Some inode \<Rightarrow>
               ebind (gets sv_now) (\<lambda>now.
               cldb_inode_put E (inode\<lparr>ri_time_create := now, ri_time_modify := now, ri_version := 1\<rparr>))))"

definition ensure_root :: "'d env \<Rightarrow> 'd srv \<Rightarrow> bool \<times> 'd srv" where
  "ensure_root E s =
     (case db_rc (db_txn_begin (e_db E)) s of
        (Inl rc, s) \<Rightarrow> (False, s)
      | (Inr _, s) \<Rightarrow>
          (case root_body E s of
             (Inl rc, s) \<Rightarrow> (False, snd (db_rc (db_txn_abort (e_db E)) s))
           | (Inr _, s) \<Rightarrow>
               (case db_rc (db_txn_commit (e_db E)) s of
                  (Inl rc, s) \<Rightarrow> (False, s)
                | (Inr _, s) \<Rightarrow> (True, s))))"

section \<open>Frames\<close>

lemma simple_sendmsg_frame:
  "srv_core (simple_sendmsg E fd sid user seqid m op s) = srv_core s"
  "sv_log (simple_sendmsg E fd sid user seqid m op s) = sv_log s"
proof -
  obtain v k where r: "cld_rand64 (e_rand E) (sv_rand s) = (v, k)" by fastforce
  have tx: "srv_core (snd (tcp_tx fd d t)) = srv_core t \<and> sv_log (snd (tcp_tx fd d t)) = sv_log t" for d and t :: "'a srv"
    using tcp_tx_frame [OF prod.collapse [symmetric], of fd d t] by simp
  have "srv_core (s\<lparr>sv_rand := k\<rparr>) = srv_core s" by (simp add: srv_core_def)
  then show "srv_core (simple_sendmsg E fd sid user seqid m op s) = srv_core s"
    "sv_log (simple_sendmsg E fd sid user seqid m op s) = sv_log s"
    using r tx [of _ "s\<lparr>sv_rand := k\<rparr>"]
    by (auto simp: simple_sendmsg_def srv_rand64_def Let_def split: option.splits)
qed

lemma srv_coreD:
  assumes "srv_core s' = srv_core s"
  shows "sv_db s' = sv_db s" "sv_heap s' = sv_heap s" "sv_sessions s' = sv_sessions s" "sv_now s' = sv_now s" "sv_next s' = sv_next s"
    "sess_at s' p = sess_at s p"
  using assms by (auto simp: srv_core_def sess_at_def)

section \<open>The gate in front of the handlers\<close>

text \<open>
  What a packet has to show before any handler runs: a header with the right magic, the signature of
  its user over everything before it, and either no session and the wish for one, or a live session
  of the same user at the same address.
\<close>

definition admitted :: "'d env \<Rightarrow> client \<Rightarrow> bytes \<Rightarrow> cld_pkt_hdr \<Rightarrow> pkt_info \<Rightarrow> 'd srv \<Rightarrow> bool" where
  "admitted E cli raw_pkt pkt info s \<longleftrightarrow>
     memcmp (ph_magic pkt) CLD_PKT_MAGIC = 0 \<and> ph_user pkt \<noteq> [] \<and> length (ph_user pkt) < CLD_MAX_USERNAME \<and>
     e_hmac E (ph_user pkt) (take (length raw_pkt - SHA_DIGEST_LENGTH) raw_pkt) = drop (length raw_pkt - SHA_DIGEST_LENGTH) raw_pkt \<and>
     (case htab_get (sv_sessions s) (ph_sid pkt) of
        None \<Rightarrow> pi_op info = CMO_NEW_SESS
      | Some p \<Rightarrow>
          pi_op info \<noteq> CMO_NEW_SESS \<and> \<not> ss_dead (sess_at s p) \<and> ss_addr_len (sess_at s p) = cl_addr_len cli \<and>
          memcmp (take (unat (cl_addr_len cli)) (ss_addr (sess_at s p))) (take (unat (cl_addr_len cli)) (cl_addr cli)) = 0 \<and>
          take CLD_MAX_USERNAME (ss_user (sess_at s p)) = ph_user pkt)"

lemma pkt_info_sel:
  assumes "get_pkt_info pkt raw n s = Some info"
  shows "pi_pkt info = pkt" "pi_sess info = htab_get (sv_sessions s) (ph_sid pkt)" "pi_seqid info = pkt_seqid raw" "pi_hdr_len info = n"
  using assms by (auto simp: get_pkt_info_def Let_def split: if_splits option.splits)

lemma admitted_iff:
  assumes "parse_pkt_header E raw = Some (pkt, n)" and "get_pkt_info pkt raw n s = Some info"
  shows "admitted E cli raw pkt info s \<longleftrightarrow> validate_pkt_session info cli s = CLE_OK \<and> pkt_chk_sig E raw pkt = CLE_OK"
proof -
  have len: "length raw > CLD_PKT_FTR_LEN" and magic: "memcmp (ph_magic pkt) CLD_PKT_MAGIC = 0"
    using assms(1) by (auto simp: parse_pkt_header_def split: if_splits option.splits)
  then have "length (drop (length raw - SHA_DIGEST_LENGTH) raw) = SHA_DIGEST_LENGTH"
    by (simp add: CLD_PKT_FTR_LEN_def SHA_DIGEST_LENGTH_def)
  from cld_authcheck_ok [OF this, of "e_hmac E" "user_key (Some (ph_user pkt))" "take (length raw - SHA_DIGEST_LENGTH) raw"]
  have sig: "pkt_chk_sig E raw pkt = CLE_OK \<longleftrightarrow> ph_user pkt \<noteq> [] \<and> length (ph_user pkt) < CLD_MAX_USERNAME \<and>
      e_hmac E (ph_user pkt) (take (length raw - SHA_DIGEST_LENGTH) raw) = drop (length raw - SHA_DIGEST_LENGTH) raw"
    by (auto simp: pkt_chk_sig_def Let_def user_key_def CLD_MAX_USERNAME_def split: if_splits)
  show ?thesis
    unfolding admitted_def sig validate_pkt_session_def pkt_info_sel(1,2) [OF assms(2)]
    using magic by (auto simp: Let_def split: option.splits if_splits)
qed

lemma rd_pkt_core:
  assumes "\<nexists>pkt n info. parse_pkt_header E raw_pkt = Some (pkt, n) \<and> get_pkt_info pkt raw_pkt n s = Some info \<and>
      admitted E cli raw_pkt pkt info s \<and> sv_master s"
  shows "fst (rd_pkt E cli raw_pkt s) = False \<and> srv_core (snd (rd_pkt E cli raw_pkt s)) = srv_core s \<and>
    sv_log (snd (rd_pkt E cli raw_pkt s)) = sv_log s"
proof (cases "parse_pkt_header E raw_pkt")
  case None
  then show ?thesis by (simp add: rd_pkt_def srv_core_def)
next
  case (Some a)
  then obtain pkt n where p: "parse_pkt_header E raw_pkt = Some (pkt, n)" by (cases a) auto
  show ?thesis
  proof (cases "get_pkt_info pkt raw_pkt n s")
    case None
    with p show ?thesis by (simp add: rd_pkt_def srv_core_def)
  next
    case (Some info)
    with assms p admitted_iff [OF p Some, of cli] show ?thesis
      by (auto simp: rd_pkt_def Let_def simple_sendresp_def simple_sendmsg_frame)
  qed
qed

text \<open>
  C16: a packet that has any effect on the database, the sessions or the session table, or makes the
  server send a message on a session, was admitted; all others leave these alone, and are answered
  by one packet at most.
\<close>

theorem rd_pkt_admitted:
  assumes "\<nexists>pkt n info. parse_pkt_header E raw_pkt = Some (pkt, n) \<and> get_pkt_info pkt raw_pkt n s = Some info \<and>
      admitted E cli raw_pkt pkt info s \<and> sv_master s"
  shows "fst (rd_pkt E cli raw_pkt s) = False \<and> srv_core (snd (rd_pkt E cli raw_pkt s)) = srv_core s \<and>
    sv_log (snd (rd_pkt E cli raw_pkt s)) = sv_log s"
  by (rule rd_pkt_core [OF assms])

theorem rd_pkt_admitted_witness:
  "sv_db (snd (rd_pkt (ref_env False) \<lparr>cl_fd = 4, cl_addr = [], cl_addr_len = 0, cl_addr_host = []\<rparr> [1, 2, 3] (sample_srv no_tabs))) =
   sv_db (sample_srv no_tabs)"
proof -
  have "parse_pkt_header (ref_env False) [1, 2, 3] = None"
    by (simp add: parse_pkt_header_def CLD_PKT_FTR_LEN_def SHA_DIGEST_LENGTH_def)
  then show ?thesis
    using rd_pkt_admitted [of "ref_env False" "[1, 2, 3]" "sample_srv no_tabs" "\<lparr>cl_fd = 4, cl_addr = [], cl_addr_len = 0, cl_addr_host = []\<rparr>"]
    by (auto dest: srv_coreD(1))
qed

section \<open>Framing\<close>

text \<open>The socket hands over the byte stream in pieces, one per event.\<close>

fun feed :: "'d env \<Rightarrow> bytes list \<Rightarrow> conn \<Rightarrow> 'd srv \<Rightarrow> conn \<times> 'd srv" where
  "feed E [] c s = (c, s)"
| "feed E (d # ds) c s = (case tcp_cli_event E [Inr d] c s of (c, s) \<Rightarrow> feed E ds c s)"

lemma feed_append: "feed E (ds @ es) c s = (case feed E ds c s of (c, s) \<Rightarrow> feed E es c s)"
  by (induction ds arbitrary: c s) (auto split: prod.splits)

definition rd_store :: "rd_cb \<Rightarrow> nat \<Rightarrow> bytes \<Rightarrow> conn \<Rightarrow> conn" where
  "rd_store cb k d c =
     (case cb of
        Cli_rd_ubbp \<Rightarrow> c\<lparr>cn_ubbp := store_at k d (cn_ubbp c)\<rparr>
      | Cli_rd_pkt \<Rightarrow> c\<lparr>cn_raw_pkt := store_at k d (cn_raw_pkt c)\<rparr>)"

definition rd_room :: "rd_cb \<Rightarrow> conn \<Rightarrow> nat" where
  "rd_room cb c = length (case cb of Cli_rd_ubbp \<Rightarrow> cn_ubbp c | Cli_rd_pkt \<Rightarrow> cn_raw_pkt c)"

definition waits :: "nat \<Rightarrow> nat \<Rightarrow> rd_cb \<Rightarrow> conn \<Rightarrow> bool" where
  "waits n k cb c \<longleftrightarrow> cn_q c = [\<lparr>rd_buf_size = n, rd_bytes_wanted = n - k, rd_bytes_read = k, rd_cb = cb\<rparr>] \<and> k < n \<and> n \<le> rd_room cb c"

lemma store_at_store: "k + length d \<le> length b \<Longrightarrow> store_at (k + length d) e (store_at k d b) = store_at k (d @ e) b"
  by (cases d) (simp_all add: store_at_def min_def ac_simps)

lemma length_store_at: "k + length d \<le> length b \<Longrightarrow> length (store_at k d b) = length b"
  by (simp add: store_at_def)

lemma rd_store_store: "k + length d \<le> rd_room cb c \<Longrightarrow> rd_store cb (k + length d) e (rd_store cb k d c) = rd_store cb k (d @ e) c"
  by (cases cb) (simp_all add: rd_store_def rd_room_def store_at_store)

lemma rd_store_sel [simp]:
  "cn_q (rd_store cb k d c) = cn_q c" "cn_cli (rd_store cb k d c) = cn_cli c" "cn_calloc (rd_store cb k d c) = cn_calloc c"
  "cn_raw_size (rd_store cb k d c) = cn_raw_size c" "rd_store cb k d (c\<lparr>cn_q := q\<rparr>) = (rd_store cb k d c)\<lparr>cn_q := q\<rparr>"
  by (cases cb; simp add: rd_store_def)+

lemma event_partial:
  assumes "waits n k cb c" and "d \<noteq> []" and "k + length d < n"
  shows "\<exists>c'. tcp_cli_event E [Inr d] c s = (c', s) \<and> waits n (k + length d) cb c' \<and> c'\<lparr>cn_q := []\<rparr> = (rd_store cb k d c)\<lparr>cn_q := []\<rparr> \<and>
    rd_room cb c' = rd_room cb c"
proof -
  let ?r = "\<lparr>rd_buf_size = n, rd_bytes_wanted = n - k, rd_bytes_read = k, rd_cb = cb\<rparr>"
  let ?r' = "\<lparr>rd_buf_size = n, rd_bytes_wanted = n - k - length d, rd_bytes_read = k + length d, rd_cb = cb\<rparr>"
  have q: "cn_q c = [?r]" and room: "n \<le> rd_room cb c" using assms(1) by (simp_all add: waits_def)
  have "tcp_cli_event E [Inr d] c s = ((rd_store cb k d c)\<lparr>cn_q := [?r']\<rparr>, s)"
    using q assms(2,3) by (cases cb) (simp_all add: tcp_cli_event_def atcp_read_event_def rd_store_def Let_def)
  moreover have "rd_room cb ((rd_store cb k d c)\<lparr>cn_q := [?r']\<rparr>) = rd_room cb c"
    using room assms(3) by (cases cb) (simp_all add: rd_room_def rd_store_def length_store_at)
  ultimately show ?thesis using room assms(3) by (auto simp: waits_def)
qed

lemma event_complete:
  assumes "waits n k cb c" and "k + length d = n"
  shows "tcp_cli_event E [Inr d] c s = cli_rd E cb ((rd_store cb k d c)\<lparr>cn_q := []\<rparr>) s"
proof -
  have q: "cn_q c = [\<lparr>rd_buf_size = n, rd_bytes_wanted = n - k, rd_bytes_read = k, rd_cb = cb\<rparr>]" and k: "k < n"
    using assms(1) by (simp_all add: waits_def)
  have "d \<noteq> []" "length d = n - k" using assms(2) k by auto
  with q k assms(2) show ?thesis
    by (cases cb) (simp_all add: tcp_cli_event_def atcp_read_event_def rd_store_def Let_def split: prod.splits)
qed

text \<open>However the bytes are cut, the callback runs once, on the whole of them.\<close>

lemma feed_fill:
  assumes "waits n k cb c" and "list_all (\<lambda>d. d \<noteq> []) ds" and "k + length (concat ds) = n"
  shows "feed E ds c s = cli_rd E cb ((rd_store cb k (concat ds) c)\<lparr>cn_q := []\<rparr>) s"
  using assms
proof (induction ds arbitrary: k c)
  case Nil
  then show ?case by (simp add: waits_def)
next
  case (Cons d ds)
  show ?case
  proof (cases ds)
    case Nil
    then show ?thesis using event_complete [OF Cons.prems(1), of d E s] Cons.prems(3) by (auto split: prod.splits)
  next
    case (Cons e es)
    then have less: "k + length d < n" using Cons.prems(2,3) by (cases e) auto
    obtain c' where c': "tcp_cli_event E [Inr d] c s = (c', s)" "waits n (k + length d) cb c'"
      "c'\<lparr>cn_q := []\<rparr> = (rd_store cb k d c)\<lparr>cn_q := []\<rparr>" "rd_room cb c' = rd_room cb c"
      using event_partial [OF Cons.prems(1) _ less, of E s] Cons.prems(2) by auto
    have "feed E (d # ds) c s = cli_rd E cb ((rd_store cb (k + length d) (concat ds) c')\<lparr>cn_q := []\<rparr>) s"
      using Cons.IH [OF c'(2)] Cons.prems(2,3) c'(1) by simp
    also have "(rd_store cb (k + length d) (concat ds) c')\<lparr>cn_q := []\<rparr> = rd_store cb (k + length d) (concat ds) (c'\<lparr>cn_q := []\<rparr>)" by simp
    also have "\<dots> = (rd_store cb (k + length d) (concat ds) (rd_store cb k d c))\<lparr>cn_q := []\<rparr>" using c'(3) by simp
    also have "\<dots> = (rd_store cb k (concat (d # ds)) c)\<lparr>cn_q := []\<rparr>"
      using rd_store_store [of k d cb c "concat ds"] Cons.prems(1) less by (simp add: waits_def)
    finally show ?thesis .
  qed
qed

lemma ubbp_len_header:
  assumes "n \<le> CLD_RAW_MSG_SZ"
  shows "ubbp_len (ubbp_header (ascii ''CLD1'') n 1) = Some n"
proof -
  let ?w = "push_bit 8 (word_of_nat n) OR 1 :: u32"
  have n: "n < 2 ^ 24" using assms by (simp add: CLD_RAW_MSG_SZ_def)
  have "of_le_bytes (le_bytes 4 ?w) = ?w" by (rule of_le_bytes_u32)
  moreover have "?w AND 0xff = 1"
  proof -
    have "(0xff :: u32) = mask 8" by (simp add: mask_eq_exp_minus_1)
    then have "?w AND 0xff = take_bit 8 ?w" by (simp only: take_bit_eq_mask)
    then show ?thesis by (simp add: take_bit_push_bit)
  qed
  moreover have "unat (drop_bit 8 ?w) = n"
  proof -
    have "unat ?w = 256 * n + 1"
    proof -
      have "unat ?w = take_bit 32 (push_bit 8 n) OR Suc 0"
        using n by (simp add: unsigned_or_eq unsigned_push_bit_eq unsigned_of_nat take_bit_nat_eq_self)
      then show ?thesis using n by (simp add: take_bit_nat_eq_self push_bit_eq_mult or_Suc_0_eq)
    qed
    then have "drop_bit 8 (unat ?w) = n" by (simp add: drop_bit_eq_div)
    moreover have "unat (drop_bit 8 x) = drop_bit 8 (unat x)" for x :: u32
      using unsigned_less [of x, where ?'a = nat] by (simp add: unsigned_drop_bit_eq take_bit_nat_eq_self)
    ultimately show ?thesis by metis
  qed
  ultimately show ?thesis
    using assms by (simp add: ubbp_len_def ubbp_header_def UBBP_OP_def UBBP_SIZE_def Let_def ascii_def)
qed

text \<open>
  C21: a connection that awaits a header and is sent a header and a packet of at most 4096 bytes, in
  pieces of any size, has the packet processed once, byte for byte; it then awaits the next header
  if the packet was accepted, and nothing any more if it was not.
\<close>

theorem conn_reads_packet:
  assumes "waits 8 0 Cli_rd_ubbp c" and "length (cn_raw_pkt c) = CLD_RAW_MSG_SZ" and "cn_calloc c = []" and "length (cn_ubbp c) = 8"
    and "concat hs = ubbp_header (ascii ''CLD1'') (length pkt) 1" and "concat ps = pkt"
    and "list_all (\<lambda>d. d \<noteq> []) hs" and "list_all (\<lambda>d. d \<noteq> []) ps" and "pkt \<noteq> []" and "length pkt \<le> CLD_RAW_MSG_SZ"
    and "rd_pkt E (cn_cli c) pkt s = (again, s')"
  shows "\<exists>c'. feed E (hs @ ps) c s = (c', s') \<and> cn_cli c' = cn_cli c \<and> (if again then waits 8 0 Cli_rd_ubbp c' else cn_q c' = [])"
proof -
  let ?h = "ubbp_header (ascii ''CLD1'') (length pkt) 1"
  let ?new = "\<lambda>n cb. \<lparr>rd_buf_size = n, rd_bytes_wanted = n, rd_bytes_read = 0, rd_cb = cb\<rparr>"
  have len: "length ?h = 8" by (simp add: ubbp_header_def ascii_def)
  have ub: "store_at 0 ?h (cn_ubbp c) = ?h" using len assms(4) by (simp add: store_at_def)
  let ?c1 = "c\<lparr>cn_ubbp := ?h, cn_raw_size := length pkt, cn_q := [?new (length pkt) Cli_rd_pkt]\<rparr>"
  have "feed E hs c s = cli_rd E Cli_rd_ubbp (c\<lparr>cn_ubbp := ?h, cn_q := []\<rparr>) s"
    using feed_fill [OF assms(1,7), of E s] assms(5) len ub by (simp add: rd_store_def)
  also have "\<dots> = (?c1, s)"
    using ubbp_len_header [OF assms(10)] assms(3) by (simp add: cli_rd.simps atcp_read.simps)
  finally have f1: "feed E hs c s = (?c1, s)" .
  have w: "waits (length pkt) 0 Cli_rd_pkt ?c1" using assms(2,9,10) by (simp add: waits_def rd_room_def)
  let ?c2 = "?c1\<lparr>cn_raw_pkt := store_at 0 pkt (cn_raw_pkt c), cn_q := []\<rparr>"
  have "feed E ps ?c1 s = cli_rd E Cli_rd_pkt ?c2 s"
    using feed_fill [OF w assms(8), of E s] assms(6) by (simp add: rd_store_def)
  also have "\<dots> = (if again then atcp_read E 8 Cli_rd_ubbp ?c2 s' else (?c2, s'))"
    using assms(11) by (simp add: cli_rd.simps store_at_def)
  finally have "feed E ps ?c1 s = (if again then (?c2\<lparr>cn_q := [?new 8 Cli_rd_ubbp]\<rparr>, s') else (?c2, s'))"
    using assms(3) by (simp add: atcp_read.simps)
  then show ?thesis using f1 len by (auto simp: feed_append waits_def rd_room_def)
qed

theorem conn_reads_packet_witness:
  "snd (feed (ref_env False) ([ascii ''CLD'', ascii ''1'', [1, 3, 0, 0]] @ [[7], [8, 9]])
     (the (fst (snd (tcp_srv_event (ref_env False) True (Some \<lparr>cl_fd = 4, cl_addr = [], cl_addr_len = 0, cl_addr_host = []\<rparr>) [] (sample_srv no_tabs)))))
     (sample_srv no_tabs)) = (sample_srv no_tabs)\<lparr>sv_garbage := 1\<rparr>"
proof -
  let ?cli = "\<lparr>cl_fd = 4, cl_addr = [], cl_addr_len = 0, cl_addr_host = []\<rparr>" and ?s = "sample_srv no_tabs"
  let ?c = "the (fst (snd (tcp_srv_event (ref_env False) True (Some ?cli) [] ?s)))"
  have c: "waits 8 0 Cli_rd_ubbp ?c" "length (cn_raw_pkt ?c) = CLD_RAW_MSG_SZ" "cn_calloc ?c = []" "length (cn_ubbp ?c) = 8" "cn_cli ?c = ?cli"
    by (simp_all add: tcp_srv_event_def atcp_read.simps cli_alloc_def waits_def rd_room_def)
  have h: "concat [ascii ''CLD'', ascii ''1'', [1, 3, 0, 0]] = ubbp_header (ascii ''CLD1'') (length [7, 8, 9 :: u8]) 1"
    by code_simp
  have "parse_pkt_header (ref_env False) [7, 8, 9] = None"
    by (simp add: parse_pkt_header_def CLD_PKT_FTR_LEN_def SHA_DIGEST_LENGTH_def)
  then have r: "rd_pkt (ref_env False) ?cli [7, 8, 9] ?s = (False, ?s\<lparr>sv_garbage := 1\<rparr>)"
    by (simp add: rd_pkt_def sample_srv_def)
  show ?thesis
    using conn_reads_packet [OF c(1-4) h, of "[[7], [8, 9]]" "ref_env False" ?s False "?s\<lparr>sv_garbage := 1\<rparr>"] r c(5)
    by (auto simp: ascii_def CLD_RAW_MSG_SZ_def)
qed

section \<open>Reassembly\<close>

definition payload :: "pkt_info \<times> bytes \<Rightarrow> bytes" where
  "payload m = (case m of (info, raw) \<Rightarrow> take (length raw - pi_hdr_len info - CLD_PKT_FTR_LEN) (drop (pi_hdr_len info) raw))"

definition first_pkt :: "pkt_info \<times> bytes \<Rightarrow> bool" where
  "first_pkt m \<longleftrightarrow> has_flag (ph_order (pi_pkt (fst m))) CLD_PKT_IS_FIRST"

fun rx_all :: "int \<Rightarrow> nat \<Rightarrow> (pkt_info \<times> bytes) list \<Rightarrow> 'd srv \<Rightarrow> cle_err_codes \<times> 'd srv" where
  "rx_all fd p [] s = (CLE_OK, s)"
| "rx_all fd p ((info, raw) # ms) s =
     (case rx_session fd info raw p s of (err, s) \<Rightarrow> if err \<noteq> CLE_OK then (err, s) else rx_all fd p ms s)"

lemma length_payload: "pi_hdr_len info + CLD_PKT_FTR_LEN \<le> length raw \<Longrightarrow> length (payload (info, raw)) = length raw - pi_hdr_len info - CLD_PKT_FTR_LEN"
  by (simp add: payload_def)

lemma rx_session_step:
  assumes "sv_heap s p = Some x"
  shows "\<exists>s' y. rx_session fd info raw p s =
      (if length (if first_pkt (info, raw) then [] else ss_msg_buf x) + (length raw - pi_hdr_len info - CLD_PKT_FTR_LEN) > CLD_MAX_MSG_SZ
       then CLE_BAD_PKT else CLE_OK, s') \<and> sv_heap s' p = Some y \<and>
    (\<not> length (if first_pkt (info, raw) then [] else ss_msg_buf x) + (length raw - pi_hdr_len info - CLD_PKT_FTR_LEN) > CLD_MAX_MSG_SZ \<longrightarrow>
      ss_msg_buf y = (if first_pkt (info, raw) then [] else ss_msg_buf x) @ payload (info, raw) \<and>
      ss_msg_op y = (if first_pkt (info, raw) then pi_op info else ss_msg_op x) \<and>
      ss_msg_xid y = (if first_pkt (info, raw) then pi_xid info else ss_msg_xid x) \<and>
      ss_last_contact y = sv_now s)"
  using assms unfolding rx_session_def Let_def first_pkt_def payload_def
  by (cases "pi_op info \<noteq> CMO_ACK"; cases "has_flag (ph_order (pi_pkt info)) CLD_PKT_IS_FIRST")
    (simp_all add: sess_upd_def sess_at_def)

lemma rx_rest:
  assumes "sv_heap s p = Some x" and "list_all (\<lambda>m. \<not> first_pkt m \<and> pi_hdr_len (fst m) + CLD_PKT_FTR_LEN \<le> length (snd m)) ms"
    and "length (ss_msg_buf x) + length (concat (map payload ms)) \<le> CLD_MAX_MSG_SZ"
  shows "\<exists>s' y. rx_all fd p ms s = (CLE_OK, s') \<and> sv_heap s' p = Some y \<and> ss_msg_buf y = ss_msg_buf x @ concat (map payload ms) \<and>
    ss_msg_op y = ss_msg_op x \<and> ss_msg_xid y = ss_msg_xid x"
  using assms
proof (induction ms arbitrary: s x)
  case Nil
  then show ?case by simp
next
  case (Cons m ms)
  obtain info raw where m: "m = (info, raw)" by (cases m)
  have len: "length (payload m) = length raw - pi_hdr_len info - CLD_PKT_FTR_LEN" using Cons.prems(2) m length_payload by simp
  have fit: "\<not> length (ss_msg_buf x) + (length raw - pi_hdr_len info - CLD_PKT_FTR_LEN) > CLD_MAX_MSG_SZ"
    using Cons.prems(3) len by simp
  obtain s1 y where s1: "rx_session fd info raw p s = (CLE_OK, s1)" "sv_heap s1 p = Some y" "ss_msg_buf y = ss_msg_buf x @ payload m"
    "ss_msg_op y = ss_msg_op x" "ss_msg_xid y = ss_msg_xid x"
    using rx_session_step [OF Cons.prems(1), of fd info raw] Cons.prems(2) m fit by auto
  have "length (ss_msg_buf y) + length (concat (map payload ms)) \<le> CLD_MAX_MSG_SZ" using Cons.prems(3) s1(3) by simp
  from Cons.IH [OF s1(2) _ this] Cons.prems(2) s1 m show ?case by auto
qed

text \<open>
  The packets of a message, the first marked as such, are put together to the message, with the
  operation and transaction number of the first packet, as long as it fits the buffer of
  \<open>CLD_MAX_MSG_SZ\<close> bytes; a single packet that does not fit is refused.
\<close>

theorem rx_reassembles:
  assumes "sv_heap s p = Some x" and "first_pkt m" and "list_all (\<lambda>m. \<not> first_pkt m) ms"
    and "list_all (\<lambda>m. pi_hdr_len (fst m) + CLD_PKT_FTR_LEN \<le> length (snd m)) (m # ms)"
  shows "(length (concat (map payload (m # ms))) \<le> CLD_MAX_MSG_SZ \<longrightarrow>
      (\<exists>s' y. rx_all fd p (m # ms) s = (CLE_OK, s') \<and> sv_heap s' p = Some y \<and> ss_msg_buf y = concat (map payload (m # ms)) \<and>
        ss_msg_op y = pi_op (fst m) \<and> ss_msg_xid y = pi_xid (fst m))) \<and>
    (length (payload m) > CLD_MAX_MSG_SZ \<longrightarrow> fst (rx_all fd p (m # ms) s) = CLE_BAD_PKT)"
proof -
  obtain info raw where m: "m = (info, raw)" by (cases m)
  have len: "length (payload m) = length raw - pi_hdr_len info - CLD_PKT_FTR_LEN" using assms(4) m length_payload by simp
  obtain s1 y where s1: "rx_session fd info raw p s = (if length (payload m) > CLD_MAX_MSG_SZ then CLE_BAD_PKT else CLE_OK, s1)"
    "sv_heap s1 p = Some y" "\<not> length (payload m) > CLD_MAX_MSG_SZ \<longrightarrow> ss_msg_buf y = payload m \<and> ss_msg_op y = pi_op info \<and> ss_msg_xid y = pi_xid info"
    using rx_session_step [OF assms(1), of fd info raw] assms(2) m len by auto
  show ?thesis
  proof (intro conjI impI)
    assume fit: "length (concat (map payload (m # ms))) \<le> CLD_MAX_MSG_SZ"
    then have y: "ss_msg_buf y = payload m" "ss_msg_op y = pi_op info" "ss_msg_xid y = pi_xid info"
      and run: "rx_session fd info raw p s = (CLE_OK, s1)" using s1 by auto
    have "list_all (\<lambda>m. \<not> first_pkt m \<and> pi_hdr_len (fst m) + CLD_PKT_FTR_LEN \<le> length (snd m)) ms"
      using assms(3,4) by (simp add: list_all_iff)
    with rx_rest [OF s1(2), of ms fd] fit y run m
    show "\<exists>s' y. rx_all fd p (m # ms) s = (CLE_OK, s') \<and> sv_heap s' p = Some y \<and> ss_msg_buf y = concat (map payload (m # ms)) \<and>
        ss_msg_op y = pi_op (fst m) \<and> ss_msg_xid y = pi_xid (fst m)" by auto
  qed (use s1(1) m in simp)
qed

definition sample_info :: "u32 \<Rightarrow> pkt_info" where
  "sample_info order = \<lparr>pi_pkt = \<lparr>ph_magic = CLD_PKT_MAGIC, ph_sid = ss_sid sample_sess, ph_user = [117], ph_order = order,
     ph_mi = \<lparr>mi_xid = 5, mi_op = CMO_PUT\<rparr>\<rparr>, pi_sess = Some 0, pi_seqid = 1, pi_xid = 5, pi_op = CMO_PUT, pi_hdr_len = 1\<rparr>"

theorem rx_reassembles_witness:
  "\<exists>s' y. rx_all 4 0 [(sample_info CLD_PKT_IS_FIRST, 0 # 1 # 2 # replicate 28 0), (sample_info CLD_PKT_IS_LAST, 0 # 3 # replicate 28 0)] (sample_srv no_tabs) =
     (CLE_OK, s') \<and> sv_heap s' 0 = Some y \<and> ss_msg_buf y = [1, 2, 3] \<and> ss_msg_op y = CMO_PUT"
proof -
  let ?m = "(sample_info CLD_PKT_IS_FIRST, 0 # 1 # 2 # replicate 28 0)" and ?n = "(sample_info CLD_PKT_IS_LAST, 0 # 3 # replicate 28 0)"
  have pl: "payload ?m = [1, 2]" "payload ?n = [3]"
    by (simp_all add: payload_def sample_info_def CLD_PKT_FTR_LEN_def SHA_DIGEST_LENGTH_def)
  have f: "first_pkt ?m" "\<not> first_pkt ?n"
    by (simp_all add: first_pkt_def sample_info_def has_flag_def CLD_PKT_IS_FIRST_def CLD_PKT_IS_LAST_def)
  have fit: "list_all (\<lambda>m. pi_hdr_len (fst m) + CLD_PKT_FTR_LEN \<le> length (snd m)) [?m, ?n]"
    by (simp add: sample_info_def CLD_PKT_FTR_LEN_def SHA_DIGEST_LENGTH_def)
  have op: "pi_op (fst (sample_info CLD_PKT_IS_FIRST, 0 # 1 # (2 :: u8) # replicate 28 0)) = CMO_PUT" by (simp add: sample_info_def)
  have h: "sv_heap (sample_srv no_tabs) 0 = Some sample_sess" by simp
  have "length (concat (map payload [?m, ?n])) \<le> CLD_MAX_MSG_SZ" by (simp only: pl list.map) (simp add: CLD_MAX_MSG_SZ_def)
  moreover have "list_all (\<lambda>m. \<not> first_pkt m) [?n]" using f by simp
  ultimately obtain s' y where "rx_all 4 0 [?m, ?n] (sample_srv no_tabs) = (CLE_OK, s')" "sv_heap s' 0 = Some y"
    "ss_msg_buf y = concat (map payload [?m, ?n])" "ss_msg_op y = CMO_PUT"
    using op rx_reassembles [OF h f(1) _ fit, of 4] by auto
  moreover have "concat (map payload [?m, ?n]) = [1, 2, 3]" by (simp only: pl list.map concat.simps append.simps)
  ultimately show ?thesis by auto
qed

end
