(* ===== verification/Cld_System.thy ===== *)
theory Cld_System
  imports Cld_Server
begin

text \<open>
  The lock server as a transition system: packets from clients, timers, the clock, and the invariant
  that holds in every state it reaches.
\<close>

section \<open>Expiry keeps the database well formed\<close>

lemma db_inv_add:
  assumes "db_inv v" and "name_free x v" and "inode_name_key x = Some (ri_name x)"
  shows "db_inv (v\<lparr>v_inodes := (v_inodes v)(ri_inum x \<mapsto> x)\<rparr>)"
proof -
  have other: "ri_name y \<noteq> ri_name x" if "v_inodes v j = Some y" "j \<noteq> ri_inum x" for j y
    using assms that unfolding name_free_def db_inv_def inodes_wf_def by metis
  then have "inodes_wf (v\<lparr>v_inodes := (v_inodes v)(ri_inum x \<mapsto> x)\<rparr>)"
    using assms(1,3) unfolding db_inv_def inodes_wf_def by (auto split: if_splits; metis)
  moreover have "handles_wf (v\<lparr>v_inodes := (v_inodes v)(ri_inum x \<mapsto> x)\<rparr>)"
    by (rule handles_wf_sub [of v]) (use assms(1) in \<open>simp_all add: db_inv_def\<close>)
  ultimately show ?thesis using assms(1) by (simp add: db_inv_def)
qed

context cld_env
begin

lemma array_push_cur: "array_push i a s = (r, s') \<Longrightarrow> sv_db s' = sv_db s \<and> (\<exists>g. r = Inr g)"
  by (auto simp: array_push_def ebind_def call_def ret_def Let_def srv_alloc_def split: prod.splits if_splits)

lemma push_ifE:
  obtains g s1 where "(if b then array_push i a else ret (Some a) :: ('d srv, dberr, _) esm) s = (Inr g, s1)" and "sv_db s1 = sv_db s"
proof (cases b)
  case True
  obtain r s1 where p: "(array_push i a :: ('d srv, dberr, _) esm) s = (r, s1)" by fastforce
  with array_push_cur [OF p] True that show ?thesis by auto
qed (use that in \<open>auto simp: ret_def\<close>)

lemma remove_handles_inv:
  "remove_handles_loop E sid locks hs e s = (Inr r, s') \<Longrightarrow> db_inv (cur (sv_db s)) \<Longrightarrow>
   db_inv (cur (sv_db s')) \<or> (\<exists>rc l. r = Some (Some rc, l) \<and> rc \<noteq> DB_NOTFOUND)"
proof (induction hs arbitrary: locks s)
  case Nil
  then show ?case by auto
next
  case (Cons h hs)
  let ?push = "if has_flag (rh_mode h) COM_LOCK then array_push (rh_inum h) locks else ret (Some locks) :: ('d srv, dberr, _) esm"
  show ?case
  proof (cases "memcmp (rh_sid h) sid = 0")
    case False
    then show ?thesis using Cons.prems by auto
  next
    case True
    obtain g s1 where p: "?push s = (Inr g, s1)" and db: "sv_db s1 = sv_db s"
      by (rule push_ifE)
    show ?thesis
    proof (cases g)
      case None
      then show ?thesis using Cons.prems True p db by (auto simp: ebind_def ret_def)
    next
      case (Some l)
      obtain q s2 where d: "db_rc (db_handle_cdel (e_db E) h) s1 = (q, s2)" by fastforce
      show ?thesis
      proof (cases q)
        case (Inl rc)
        then have "rc \<noteq> DB_NOTFOUND" using d cdel_found(2) [of h "sv_db s1"] by (auto simp: db_rc_def split: prod.splits option.splits)
        moreover have "r = Some (Some rc, fst l)" using Cons.prems(1) True p Some d Inl by (auto simp: ebind_def attempt_def ret_def)
        ultimately show ?thesis by blast
      next
        case (Inr u)
        have "db_inv (cur (sv_db s2))"
          using rc_ok [OF handle_cdel, of h s1] d Inr db Cons.prems(2) by (auto intro!: db_inv_fewer_handles split: if_splits)
        moreover have "remove_handles_loop E sid l hs e s2 = (Inr r, s')"
          using Cons.prems(1) True p Some d Inr by (auto simp: ebind_def attempt_def)
        ultimately show ?thesis using Cons.IH by blast
      qed
    qed
  qed
qed

lemma remove_locks_of_inv:
  "remove_locks_of E sid ws is s = (Inr r, s') \<Longrightarrow> db_inv (cur (sv_db s)) \<Longrightarrow> db_inv (cur (sv_db s'))"
proof (induction "is" arbitrary: ws s)
  case (Cons i "is")
  obtain w s1 where l: "session_remove_locks E sid 0 i s = (Inr w, s1)"
    using Cons.prems(1) by (auto elim!: ebind_OkE)
  let ?push = "if w then array_push i ws else ret (Some ws) :: ('d srv, dberr, _) esm"
  obtain g s2 where p: "?push s1 = (Inr g, s2)" and db: "sv_db s2 = sv_db s1"
    by (rule push_ifE)
  have inv: "db_inv (cur (sv_db s2))"
    using remove_locks_ok [OF l] db_inv_unmatched [OF Cons.prems(2), of i sid 0] db by (simp add: put_locks_def)
  show ?case
  proof (cases g)
    case None
    then show ?thesis using Cons.prems(1) l p inv by (auto simp: ebind_def ret_def)
  next
    case (Some ws')
    then have "remove_locks_of E sid ws' is s2 = (Inr r, s')" using Cons.prems(1) l p by (auto simp: ebind_def)
    then show ?thesis using Cons.IH inv by blast
  qed
qed auto

lemma rescan_waiters_cur: "rescan_waiters E ws s = (Inr u, s') \<Longrightarrow> cur (sv_db s') = cur (sv_db s)"
  by (induction ws arbitrary: s) (fastforce dest: rescan_cur elim!: ebind_OkE)+

lemma close_handles_ok: "close_handles E rc s = (Inr u, s') \<Longrightarrow> (rc = None \<or> rc = Some DB_NOTFOUND) \<and> cur (sv_db s') = cur (sv_db s)"
proof -
  have k: "keeps (\<lambda>s. cur (sv_db s)) (db_rc (db_cursor_close (e_db E)))"
    using cursor_close by (auto simp: keeps_def db_rc_def reads_def split: prod.splits option.splits)
  assume "close_handles E rc s = (Inr u, s')"
  then show ?thesis using keepsD [OF k, of s "Inr ()" s'] by (auto simp: close_handles_def elim!: ebind_OkE split: if_splits)
qed

lemma session_remove_inv:
  assumes "session_remove E p s = (Inr u, s')" and "db_inv (cur (sv_db s))"
  shows "db_inv (cur (sv_db s'))"
proof -
  let ?sid = "ss_sid (sess_at s p)"
  obtain s1 s2 s3 hs e s4 r s5 where a1: "srv_alloc s = (True, s1)" and a2: "srv_alloc s1 = (True, s2)"
    and c: "db_rc (db_cursor (e_db E)) s2 = (Inr (), s3)" and rng: "db_call (db_handle_range (e_db E) ?sid) s3 = (Inr (hs, e) :: dberr + _, s4)"
    and h: "remove_handles_loop E ?sid ([], 128) hs e s4 = (Inr r, s5)"
    and rest: "(case r of None \<Rightarrow> ret () | Some (rc, locks) \<Rightarrow>
         ebind (close_handles E rc) (\<lambda>_. ebind (remove_locks_of E ?sid ([], 64) locks) (\<lambda>r.
         case r of None \<Rightarrow> ret () | Some waiters \<Rightarrow> ebind (rescan_waiters E waiters) (\<lambda>_. cldb_session_del E ?sid)))) s5 = (Inr u, s')"
    using assms(1) unfolding session_remove_def by (auto simp: gets_def call_def elim!: ebind_OkE split: if_splits prod.splits)
  have "cur (sv_db s4) = cur (sv_db s)"
    using keepsD [OF keeps_db_rest(1) a1] keepsD [OF keeps_db_rest(1) a2] keepsD [OF keeps_com_cursor(2) c] call_ok [OF handle_range rng]
      handle_range [of ?sid] rng by (auto simp: reads_def db_call_def split: prod.splits)
  then have or: "db_inv (cur (sv_db s5)) \<or> (\<exists>rc l. r = Some (Some rc, l) \<and> rc \<noteq> DB_NOTFOUND)"
    using remove_handles_inv [OF h] assms(2) by simp
  show ?thesis
  proof (cases r)
    case None
    then show ?thesis using or rest by auto
  next
    case (Some q)
    then obtain rc locks where q: "r = Some (rc, locks)" by (cases q) auto
    obtain s6 r2 s7 where cl: "close_handles E rc s5 = (Inr (), s6)" and l: "remove_locks_of E ?sid ([], 64) locks s6 = (Inr r2, s7)"
      and rest2: "(case r2 of None \<Rightarrow> ret () | Some waiters \<Rightarrow> ebind (rescan_waiters E waiters) (\<lambda>_. cldb_session_del E ?sid)) s7 = (Inr u, s')"
      using rest q by (auto elim!: ebind_OkE)
    have "db_inv (cur (sv_db s7))" using close_handles_ok [OF cl] or q remove_locks_of_inv [OF l] by auto
    then show ?thesis
      using rest2 rescan_waiters_cur rc_ok [OF sess_del]
      by (cases r2) (auto simp: cldb_session_del_def elim!: ebind_OkE)
  qed
qed

end

section \<open>The invariant of the server\<close>

text \<open>What the code relies on of the generated XDR routines: the sizes in \<^verbatim>\<open>lib/cld_msg_rpc.x\<close>.\<close>

definition xdr_ok :: "'d env \<Rightarrow> bool" where
  "xdr_ok E \<longleftrightarrow> (\<forall>b h n. e_dec_hdr E b = Some (h, n) \<longrightarrow> length (ph_sid h) = CLD_SID_SZ) \<and>
     (\<forall>b m. e_dec_open E b = Some m \<longrightarrow> length (om_inode_name m) \<le> CLD_INODE_NAME_MAX)"

definition sess_ok :: "session \<Rightarrow> bool" where
  "sess_ok x \<longleftrightarrow> length (ss_sid x) = CLD_SID_SZ \<and> length (ss_msg_buf x) \<le> CLD_MAX_MSG_SZ"

definition heap_ok :: "'d srv \<Rightarrow> bool" where
  "heap_ok s \<longleftrightarrow> (\<forall>q. sess_ok (sess_at s q))"

definition srv_inv :: "('d \<Rightarrow> dbview) \<Rightarrow> 'd srv \<Rightarrow> bool" where
  "srv_inv com s \<longleftrightarrow> db_inv (com (sv_db s)) \<and> heap_ok s"

lemma heap_ok_ids: "sv_ids s' = sv_ids s \<Longrightarrow> heap_ok s \<Longrightarrow> heap_ok s'"
  using sv_idsD(3,7) [of s' s] by (simp add: heap_ok_def sess_ok_def)

lemma heap_ok_pub: "heap_pub s' = heap_pub s \<Longrightarrow> heap_ok s \<Longrightarrow> heap_ok s'"
  using heap_pub_sel(1,8) [of s' s] by (simp add: heap_ok_def sess_ok_def)

lemma heap_ok_heap: "sv_heap s' = sv_heap s \<Longrightarrow> heap_ok s' = heap_ok s"
  by (simp add: heap_ok_def sess_at_def)

lemma sess_ok_zero [simp]: "sess_ok session_zero"
  by (simp add: sess_ok_def session_zero_def CLD_SID_SZ_def)

lemma heap_ok_upd_at: "heap_ok s \<Longrightarrow> sess_ok (f (sess_at s p)) \<Longrightarrow> heap_ok (sess_upd p f s)"
proof -
  assume ok: "heap_ok s" and f: "sess_ok (f (sess_at s p))"
  have "sess_ok (sess_at (sess_upd p f s) q)" for q
  proof (cases "q = p \<and> sv_heap s p \<noteq> None")
    case True
    then show ?thesis using f by (simp add: sess_at_upd)
  next
    case False
    then have "sess_at (sess_upd p f s) q = sess_at s q" by (auto simp: sess_at_def sess_upd_def)
    then show ?thesis using ok by (simp add: heap_ok_def)
  qed
  then show "heap_ok (sess_upd p f s)" by (simp add: heap_ok_def)
qed

lemma heap_ok_upd: "heap_ok s \<Longrightarrow> (\<And>x. sess_ok x \<Longrightarrow> sess_ok (f x)) \<Longrightarrow> heap_ok (sess_upd p f s)"
  by (rule heap_ok_upd_at) (auto simp: heap_ok_def)

lemma heap_ok_put: "heap_ok s \<Longrightarrow> (case x of None \<Rightarrow> True | Some y \<Rightarrow> sess_ok y) \<Longrightarrow> heap_ok (s\<lparr>sv_heap := (sv_heap s)(p := x)\<rparr>)"
  by (auto simp: heap_ok_def sess_at_def split: option.splits if_splits)

lemma heap_ok_free: "heap_ok s \<Longrightarrow> heap_ok (session_free (Some p) b s)"
  using heap_ok_put [of s None p] heap_ok_heap [of "session_free (Some p) b s" "s\<lparr>sv_heap := (sv_heap s)(p := None)\<rparr>"]
  by (simp add: session_free_sel)

lemma heap_ok_sids: "heap_ok s \<Longrightarrow> sids_ok s"
  by (simp add: heap_ok_def sids_ok_def sess_ok_def)

lemma rx_session_ok:
  assumes "rx_session fd info raw p s = (err, s')" and "heap_ok s"
  shows "heap_ok s' \<and> sv_db s' = sv_db s \<and> sv_sessions s' = sv_sessions s \<and> (sv_heap s' p = None \<longleftrightarrow> sv_heap s p = None)"
proof -
  let ?s1 = "sess_upd p (\<lambda>x. x\<lparr>ss_last_contact := sv_now s, ss_sock_fd := fd\<rparr>) s"
  let ?s2 = "if pi_op info \<noteq> CMO_ACK then sess_upd p (\<lambda>x. x\<lparr>ss_next_seqid_in := ss_next_seqid_in x + 1\<rparr>) ?s1 else ?s1"
  let ?s3 = "if has_flag (ph_order (pi_pkt info)) CLD_PKT_IS_FIRST
      then sess_upd p (\<lambda>x. x\<lparr>ss_msg_op := pi_op info, ss_msg_xid := pi_xid info, ss_msg_buf := []\<rparr>) ?s2 else ?s2"
  let ?d = "take (length raw - pi_hdr_len info - CLD_PKT_FTR_LEN) (drop (pi_hdr_len info) raw)"
  have ok: "heap_ok ?s3" using assms(2) by (auto intro!: heap_ok_upd simp: sess_ok_def)
  have fr: "sv_db ?s3 = sv_db s" "sv_sessions ?s3 = sv_sessions s" "sv_heap ?s3 p = None \<longleftrightarrow> sv_heap s p = None"
    by (auto simp: sess_upd_def)
  show ?thesis
  proof (cases "length (ss_msg_buf (sess_at ?s3 p)) + (length raw - pi_hdr_len info - CLD_PKT_FTR_LEN) > CLD_MAX_MSG_SZ")
    case True
    then have "s' = ?s3" using assms(1) unfolding rx_session_def Let_def by (simp only: if_True prod.inject)
    then show ?thesis using ok fr by simp
  next
    case False
    let ?s4 = "sess_upd p (\<lambda>x. x\<lparr>ss_msg_buf := ss_msg_buf x @ ?d\<rparr>) ?s3"
    have s': "s' = ?s4" using assms(1) False unfolding rx_session_def Let_def by (simp only: if_False prod.inject)
    have "sess_ok ((sess_at ?s3 p)\<lparr>ss_msg_buf := ss_msg_buf (sess_at ?s3 p) @ ?d\<rparr>)"
      using ok False unfolding heap_ok_def sess_ok_def by auto
    then have "heap_ok ?s4" by (rule heap_ok_upd_at [OF ok])
    then show ?thesis using fr unfolding s' by (auto simp: sess_upd_def)
  qed
qed

lemma ack_loop_sess_ok: "sess_ok x \<Longrightarrow> sess_ok (ack_loop seqid kept q x)"
  by (induction seqid kept q x rule: ack_loop.induct)
    (auto simp: sess_ok_def run_done_cb_def session_ping_done_def end_sess_done_def session_trash_def Let_def split: option.splits done_cb.splits)

lemma srv_inv_core: "srv_core s' = srv_core s \<Longrightarrow> srv_inv com s \<Longrightarrow> srv_inv com s'"
  using srv_coreD(1,2) [of s' s] heap_ok_heap [of s' s] by (simp add: srv_inv_def)

lemma srv_inv_simple: "srv_inv com s \<Longrightarrow> srv_inv com (simple_sendmsg E fd sid user seqid m op s)"
  by (rule srv_inv_core [OF simple_sendmsg_frame(1)])

lemma srv_inv_frame: "sv_db s' = sv_db s \<Longrightarrow> heap_pub s' = heap_pub s \<Longrightarrow> srv_inv com s \<Longrightarrow> srv_inv com s'"
  using heap_ok_pub [of s' s] by (simp add: srv_inv_def)

lemma srv_inv_send: "srv_inv com s \<Longrightarrow> srv_inv com (snd (sess_sendmsg E p m op cb s))"
  using sess_sendmsg_frame [OF prod.collapse [symmetric], of E p m op cb s] srv_inv_frame by blast

lemma srv_inv_upd: "srv_inv com s \<Longrightarrow> (\<And>x. sess_ok x \<Longrightarrow> sess_ok (f x)) \<Longrightarrow> srv_inv com (sess_upd p f s)"
  by (simp add: srv_inv_def heap_ok_upd)

lemma srv_inv_free: "srv_inv com s \<Longrightarrow> srv_inv com (session_free sess b s)"
  by (cases sess) (simp_all add: srv_inv_def heap_ok_free session_free_sel, simp add: session_free_def)

context cld_env
begin

lemma dispatch_inv:
  assumes "srv_inv com s" and "sv_heap s p \<noteq> None" and "xdr_ok E"
  shows "srv_inv com (snd (rx_dispatch E fd cli info p s))"
proof -
  have h: "srv_inv com (handle E p r s)" if "req_ok r" for r
    using handle_inv [of s p r] that assms heap_ok_sids [of s] heap_ok_ids [OF handle_ids, of s E p r] by (simp add: srv_inv_def)
  have hs: "srv_inv com (msg_get E p a s)" "srv_inv com (msg_put E p b s)" "srv_inv com (msg_close E p c s)" "srv_inv com (msg_del E p d s)"
    "srv_inv com (msg_unlock E p e s)" "srv_inv com (msg_lock E p f s)" for a b c d e f
    using h [of "Req_get a"] h [of "Req_put b"] h [of "Req_close c"] h [of "Req_del d"] h [of "Req_unlock e"] h [of "Req_lock f"]
    by (simp_all add: req_ok_def)
  have op: "srv_inv com (msg_open E p m s)" if "e_dec_open E b = Some m" for m b
    using h [of "Req_open m"] that assms(3) by (auto simp: req_ok_def xdr_ok_def)
  have ack: "srv_inv com (msg_ack p (pi_seqid info) s)"
    using assms(1) ack_loop_sess_ok by (auto simp: msg_ack_def Let_def sess_ok_def intro!: srv_inv_upd)
  have gen: "srv_inv com (sess_sendresp_generic E p CLE_OK s)"
    by (rule srv_inv_frame [OF _ _ assms(1)]) (use sess_sendresp_generic_frame [of E p CLE_OK s] in simp_all)
  have "srv_inv com (msg_end_sess E p (pi_xid info) s)" using assms(1) by (simp add: msg_end_sess_def srv_inv_send)
  note fin = this
  have rx: "srv_inv com (snd (tcp_rx_handle p dec f s))"
    if "\<And>b m. dec b = Some m \<Longrightarrow> srv_inv com (f p m s)" for dec and f :: "nat \<Rightarrow> 'm \<Rightarrow> 'd srv \<Rightarrow> 'd srv"
    using that assms(1) by (auto simp: tcp_rx_handle_def split: option.splits)
  have br: "srv_inv com (snd x) \<Longrightarrow> srv_inv com (snd y) \<Longrightarrow> srv_inv com (snd (if b then x else y))" for b and x y :: "cle_err_codes \<times> 'd srv"
    by simp
  show ?thesis unfolding rx_dispatch_def Let_def
    by (intro br rx hs op) (use ack gen fin assms(1) in simp_all)
qed

lemma new_sess_inv:
  assumes "srv_inv com s" and "length (ph_sid (pi_pkt info)) = CLD_SID_SZ"
  shows "srv_inv com (msg_new_sess E fd cli info s)"
proof -
  have err: "srv_inv com (new_sess_err E fd info sess c t)" if "srv_inv com t" for sess c t
    using srv_inv_core [OF simple_sendmsg_frame(1) srv_inv_free [OF that]] by (simp add: new_sess_err_def)
  obtain po s1 where n: "session_new E s = (po, s1)" by fastforce
  have s1: "srv_inv com s1"
    using n assms(1) heap_ok_put [of s _ "sv_next s"]
    by (auto simp: session_new_def srv_alloc_def srv_rand64_def srv_inv_def heap_ok_def sess_at_def sess_ok_def session_zero_def CLD_SID_SZ_def
        split: prod.splits if_splits option.splits)
  show ?thesis
  proof (cases po)
    case None
    then show ?thesis using n err [OF s1] by (simp add: msg_new_sess_def)
  next
    case (Some p)
    let ?f = "\<lambda>x. x\<lparr>ss_sid := ph_sid (pi_pkt info), ss_addr := cl_addr cli, ss_user := take (CLD_MAX_USERNAME - 1) (ph_user (pi_pkt info)),
      ss_sock_fd := fd, ss_addr_len := cl_addr_len cli, ss_ipaddr := take CLD_IPADDR_SZ (cl_addr_host cli),
      ss_last_contact := sv_now s1, ss_next_seqid_in := pi_seqid info + 1\<rparr>"
    let ?s2 = "sess_upd p ?f s1"
    have s2: "srv_inv com ?s2" using s1 assms(2) by (intro srv_inv_upd) (simp_all add: sess_ok_def)
    obtain r s3 where d: "db_rc (db_sess_put_new (e_db E) (session_encode (sess_at ?s2 p))) ?s2 = (r, s3)" by fastforce
    have "db_inv (com (sv_db s3))" "sv_rest s3 = sv_rest ?s2"
    proof -
      obtain rc d' where f: "db_sess_put_new (e_db E) (session_encode (sess_at ?s2 p)) (sv_db ?s2) = (rc, d')" by fastforce
      then have "db_inv (com d')"
        using sess_put_new [OF f] s2 by (cases rc) (auto simp: srv_inv_def)
      then show "db_inv (com (sv_db s3))" using d f by (auto simp: db_rc_def split: option.splits)
      show "sv_rest s3 = sv_rest ?s2" using keepsD [OF keeps_rest_db(1) d] .
    qed
    then have s3: "srv_inv com s3" using s2 sv_restD(1) [of s3 ?s2] heap_ok_heap [of s3 ?s2] by (simp add: srv_inv_def)
    have "srv_inv com (sess_put_table sid p s3)" for sid
      using s3 heap_ok_heap [of "sess_put_table sid p s3" s3] by (simp add: srv_inv_def sess_put_table_sel)
    then have "srv_inv com (snd (sess_sendmsg E p m op cb (sess_upd p (\<lambda>x. x\<lparr>ss_timer := t\<rparr>) (sess_put_table sid p s3))))" for m op cb t sid
      by (intro srv_inv_send srv_inv_upd) (simp_all add: sess_ok_def)
    then show ?thesis
      using n Some d err [OF s3] by (auto simp: msg_new_sess_def Let_def split: sum.splits)
  qed
qed

lemma packet_inv:
  assumes inv: "srv_inv com s" and xdr: "xdr_ok E" and live: "\<And>sid p. htab_get (sv_sessions s) sid = Some p \<Longrightarrow> sv_heap s p \<noteq> None"
  shows "srv_inv com (snd (rd_pkt E cli raw s))"
proof (cases "\<exists>pkt n info. parse_pkt_header E raw = Some (pkt, n) \<and> get_pkt_info pkt raw n s = Some info \<and> admitted E cli raw pkt info s \<and> sv_master s")
  case False
  then show ?thesis using rd_pkt_core [of E raw s cli] srv_inv_core [OF _ inv] by blast
next
  case True
  then obtain pkt n info where p: "parse_pkt_header E raw = Some (pkt, n)" and i: "get_pkt_info pkt raw n s = Some info"
    and adm: "admitted E cli raw pkt info s" and m: "sv_master s" by blast
  have sid: "length (ph_sid (pi_pkt info)) = CLD_SID_SZ"
  proof -
    obtain b where "e_dec_hdr E b = Some (pkt, n)" using p by (auto simp: parse_pkt_header_def split: if_splits option.splits)
    then show ?thesis using xdr pkt_info_sel(1) [OF i] unfolding xdr_ok_def by blast
  qed
  obtain err s1 where rx: "tcp_rx E (cl_fd cli) cli info raw s = (err, s1)" by fastforce
  have "srv_inv com s1"
  proof -
    obtain e t where t: "(case pi_sess info of None \<Rightarrow> (CLE_OK, s) | Some sess \<Rightarrow> rx_session (cl_fd cli) info raw sess s) = (e, t)" by fastforce
    have ti: "srv_inv com t" and tl: "\<And>q. pi_sess info = Some q \<Longrightarrow> sv_heap t q \<noteq> None"
      using t inv rx_session_ok [of "cl_fd cli" info raw _ s e t] live [of "ph_sid pkt"] pkt_info_sel(2) [OF i]
      by (auto simp: srv_inv_def split: option.splits)
    have br: "srv_inv com (snd x) \<Longrightarrow> srv_inv com (snd y) \<Longrightarrow> srv_inv com (snd (if b then x else y))" for b and x y :: "cle_err_codes \<times> 'd srv"
      by simp
    have "srv_inv com (snd (tcp_rx E (cl_fd cli) cli info raw s))"
      unfolding tcp_rx_def t prod.case
      by (intro br) (use ti tl sid srv_inv_core [OF simple_sendmsg_frame(1) ti] new_sess_inv [OF ti sid] dispatch_inv [OF ti _ xdr] in
          \<open>auto split: option.splits\<close>)
    with rx show ?thesis by simp
  qed
  moreover have "snd (rd_pkt E cli raw s) = (if err \<noteq> CLE_OK then simple_sendresp E (cl_fd cli) info err s1 else s1)"
    using p i m rx admitted_iff [OF p i, of cli] adm by (simp add: rd_pkt_def Let_def)
  ultimately show ?thesis
    by (simp add: simple_sendresp_def srv_inv_simple)
qed

lemma timeout_inv:
  assumes "srv_inv com s"
  shows "srv_inv com (session_timeout E p now s)"
proof -
  let ?s = "sess_upd p (\<lambda>x. x\<lparr>ss_timer := None\<rparr>) s"
  have s: "srv_inv com ?s" using assms by (intro srv_inv_upd) (simp_all add: sess_ok_def)
  have live: "srv_inv com (sess_upd p (\<lambda>x. x\<lparr>ss_timer := t\<rparr>) (if b then snd (sess_sendmsg E p m op cb (sess_upd p (\<lambda>x. x\<lparr>ss_ping_open := True\<rparr>) ?s)) else ?s))"
    for t b m op cb
  proof -
    have "srv_inv com (sess_upd p (\<lambda>x. x\<lparr>ss_ping_open := True\<rparr>) ?s)" using s by (rule srv_inv_upd) (simp add: sess_ok_def)
    from srv_inv_send [OF this, of E p m op cb] s
    have "srv_inv com (if b then snd (sess_sendmsg E p m op cb (sess_upd p (\<lambda>x. x\<lparr>ss_ping_open := True\<rparr>) ?s)) else ?s)" by (cases b) simp_all
    then show ?thesis by (rule srv_inv_upd) (simp add: sess_ok_def)
  qed
  obtain r1 s1 where b: "db_rc (db_txn_begin (e_db E)) ?s = (r1, s1)" by fastforce
  have h1: "heap_ok s1" using s heap_ok_heap [OF sv_restD(1) [OF begin_ok(3) [OF b]]] by (simp add: srv_inv_def)
  have i1: "srv_inv com s1" using s begin_ok(1) [OF b] h1 by (simp add: srv_inv_def)
  obtain r2 s2 where rm: "session_remove E p s1 = (r2, s2)" by fastforce
  let ?f = "session_free (Some p) True s2"
  have h2: "heap_ok ?f"
    using heap_ok_free [OF heap_ok_pub [OF sv_envD(3) [OF keepsD [OF keeps_env_session_remove rm]] h1]] .
  have db2: "com (sv_db ?f) = com (sv_db ?s)" "sv_db ?f = sv_db s2"
    using keepsD [OF keeps_com_session_remove rm] begin_ok(1) [OF b] by (simp_all add: session_free_sel)
  have fin: "srv_inv com (snd (db_rc (db_txn_abort (e_db E)) ?f))"
    using abort_ok [of ?f] db2 s h2 heap_ok_heap [OF sv_restD(1) [OF db_rc_rest [of "db_txn_abort (e_db E)" ?f]]]
    by (simp add: srv_inv_def)
  have com: "srv_inv com (snd (db_rc (db_txn_commit (e_db E)) ?f))" if "r1 = Inr w" "r2 = Inr u" for u w
  proof -
    have "db_inv (cur (sv_db s2))" using session_remove_inv [of p s1 u s2] rm that begin_ok(2) [OF b] s by (simp add: srv_inv_def)
    then show ?thesis
      using commit_ok(1) [of ?f "fst (db_rc (db_txn_commit (e_db E)) ?f)" "snd (db_rc (db_txn_commit (e_db E)) ?f)"] db2 s h2
        heap_ok_heap [OF sv_restD(1) [OF db_rc_rest [of "db_txn_commit (e_db E)" ?f]]]
      by (auto simp: srv_inv_def split: sum.splits)
  qed
  show ?thesis
  proof (cases "\<not> ss_dead (sess_at ?s p) \<and> ss_last_contact (sess_at ?s p) + CLD_SESS_TIMEOUT > now")
    case True
    then show ?thesis using live unfolding session_timeout_def Let_def by (simp only: if_True not_False_eq_True conj_absorb)
  next
    case False
    then show ?thesis
      using b rm i1 fin com unfolding session_timeout_def Let_def
      by (auto simp only: if_False session_dispose_def prod.case option.case split: sum.splits) 
  qed
qed

lemma retry_inv:
  assumes "srv_inv com s"
  shows "srv_inv com (session_retry p now s)"
proof -
  have loop: "srv_inv com t \<Longrightarrow> retry_loop p kept q n t = (r, t') \<Longrightarrow> srv_inv com t'" for kept q n r t t'
  proof (induction p kept q n t rule: retry_loop.induct)
    case (1 sess kept next_retry s)
    then show ?case by (auto simp: sess_ok_def intro!: srv_inv_upd)
  next
    case (2 sess kept op tmp next_retry s)
    obtain rc u where tx: "tcp_tx (ss_sock_fd (sess_at s sess)) (op_pkt_data op) s = (rc, u)" by fastforce
    have "srv_inv com u" using tcp_tx_frame [OF tx] srv_inv_core 2(3) by blast
    with 2 tx show ?case
      by (auto simp: Let_def sess_ok_def intro!: srv_inv_upd split: if_splits prod.splits)
  qed
  show ?thesis
    using assms loop [OF assms]
    by (auto simp: session_retry_def sess_retry_output_def sess_ok_def intro!: srv_inv_upd split: prod.splits)
qed

lemma root_inv:
  assumes "srv_inv com s"
  shows "srv_inv com (snd (ensure_root E s))"
proof -
  have k: "keeps sv_ids (root_body E)" "keeps (\<lambda>s. com (sv_db s)) (root_body E)"
  proof -
    have m: "keeps sv_ids (cldb_inode_mem E n f i)" "keeps (\<lambda>s. com (sv_db s)) (cldb_inode_mem E n f i)" for n f i
      by (auto simp: keeps_def cldb_inode_mem_def srv_alloc_def sv_ids_def sess_at_def split: prod.splits if_splits)
    show "keeps sv_ids (root_body E)" "keeps (\<lambda>s. com (sv_db s)) (root_body E)"
      unfolding root_body_def by (intro keeps_intros keeps_com_cldb m)+
  qed
  have put: "db_inv (cur (sv_db s'))" if run: "root_body E t = (Inr u, s')" and inv: "db_inv (cur (sv_db t))" for t u s'
  proof -
    obtain r t1 where g: "cldb_inode_get_byname E (ascii ''/'') t = (r, t1)" by fastforce
    have c1: "cur (sv_db t1) = cur (sv_db t)" using keepsD [OF keeps_cur_cldb(2) g] by simp
    show ?thesis
    proof (cases r)
      case (Inr x)
      then show ?thesis using run g c1 inv by (auto simp: root_body_def ebind_def attempt_def)
    next
      case (Inl e)
      let ?r = "\<lparr>ri_inum = CLD_INO_ROOT, ri_ino_len = 1, ri_size = 0, ri_version = 1,
        ri_time_create = sv_now t1, ri_time_modify = sv_now t1, ri_flags = CIFL_DIR, ri_name = ascii ''/''\<rparr>"
      obtain m where m: "cldb_inode_put E ?r (t1\<lparr>sv_mem := m\<rparr>) = (Inr u, s')"
        using run g Inl
        by (auto simp: root_body_def ebind_def attempt_def call_def gets_def cldb_inode_mem_def srv_alloc_def throw_def ascii_def
            split: if_splits prod.splits option.splits)
      let ?t2 = "t1\<lparr>sv_mem := m\<rparr>"
      obtain t2 where t2: "t2 = ?t2" by simp
      have db2: "sv_db t2 = sv_db t1" and p: "cldb_inode_put E ?r t2 = (Inr u, s')" using m t2 by simp_all
      have "take (raw_ino_size ?r - 48) (ri_name ?r) = ri_name ?r" by (simp add: raw_ino_size_def ascii_def)
      then have "name_free ?r (cur (sv_db t2))" "cur (sv_db s') = (cur (sv_db t2))\<lparr>v_inodes := (v_inodes (cur (sv_db t2)))(CLD_INO_ROOT \<mapsto> ?r)\<rparr>"
        using rc_ok [OF inode_put p [unfolded cldb_inode_put_def]] by simp_all
      moreover have "inode_name_key ?r = Some (ri_name ?r)" by (simp add: inode_name_key_def ascii_def)
      ultimately show ?thesis
        using db_inv_add [of "cur (sv_db t)" ?r] inv c1 db2 by simp
    qed
  qed
  obtain r1 s1 where b: "db_rc (db_txn_begin (e_db E)) s = (r1, s1)" by fastforce
  obtain r2 s2 where m: "root_body E s1 = (r2, s2)" by fastforce
  have h1: "heap_ok s1" using assms heap_ok_heap [OF sv_restD(1) [OF begin_ok(3) [OF b]]] by (simp add: srv_inv_def)
  have h2: "heap_ok s2" using heap_ok_ids [OF keepsD [OF k(1) m] h1] .
  have c2: "com (sv_db s2) = com (sv_db s)" using keepsD [OF k(2) m] begin_ok(1) [OF b] by simp
  have fin: "heap_ok (snd (db_rc f s2))" for f using h2 heap_ok_heap [OF sv_restD(1) [OF db_rc_rest [of f s2]]] by simp
  have cm: "db_inv (com (sv_db (snd (db_rc (db_txn_commit (e_db E)) s2))))" if "r1 = Inr ()" "r2 = Inr ()"
    using put [of s1 "()" s2] m that begin_ok(2) [OF b] c2 assms commit_ok(1) [OF prod.collapse [symmetric], of s2]
    by (auto simp: srv_inv_def split: sum.splits)
  have ab: "com (sv_db (snd (db_rc (db_txn_abort (e_db E)) s2))) = com (sv_db s)" using abort_ok [of s2] c2 by simp
  show ?thesis
    using b m h1 fin [of "db_txn_commit (e_db E)"] fin [of "db_txn_abort (e_db E)"] cm ab assms begin_ok(1) [OF b]
    by (auto simp: ensure_root_def srv_inv_def split: sum.splits prod.splits)
qed

end

section \<open>The transition system\<close>

text \<open>
  A step of the server: a packet arrives, a session timer or a retransmission timer fires, the root
  inode is looked for at start-up, or the environment changes: the clock advances, the role in the
  replication group changes, memory and sockets behave as they like. A packet is only considered in a
  state whose session table holds no dangling pointer: \<open>Htab.htab_put_grow\<close> shows that the table can
  lose an entry when it grows, and the entry of a freed session then stays behind.
\<close>

definition table_live :: "'d srv \<Rightarrow> bool" where
  "table_live s \<longleftrightarrow> (\<forall>sid p. htab_get (sv_sessions s) sid = Some p \<longrightarrow> sv_heap s p \<noteq> None)"

inductive srv_step :: "'d env \<Rightarrow> 'd srv \<Rightarrow> 'd srv \<Rightarrow> bool" for E where
  packet: "table_live s \<Longrightarrow> srv_step E s (snd (rd_pkt E cli raw_pkt s))"
| timeout: "srv_step E s (session_timeout E p now s)"
| retry: "srv_step E s (session_retry p now s)"
| root: "srv_step E s (snd (ensure_root E s))"
| clock: "srv_step E s (s\<lparr>sv_now := t\<rparr>)"
| role: "srv_step E s (s\<lparr>sv_master := b\<rparr>)"
| world: "srv_step E s (s\<lparr>sv_mem := m, sv_writes := w\<rparr>)"

inductive srv_reach :: "'d env \<Rightarrow> ('d \<Rightarrow> dbview) \<Rightarrow> 'd srv \<Rightarrow> bool" for E com where
  start: "com (sv_db s) = view_of no_tabs \<Longrightarrow> sv_heap s = Map.empty \<Longrightarrow> srv_reach E com s"
| step: "srv_reach E com s \<Longrightarrow> srv_step E s s' \<Longrightarrow> srv_reach E com s'"

inductive_cases srv_stepE: "srv_step E s s'"

lemma empty_db_inv: "db_inv (view_of no_tabs)"
  by (simp add: db_inv_def inodes_wf_def handles_wf_def no_tabs_def alocks_def locks_safe_def)

context cld_env
begin

lemma step_inv:
  assumes "srv_step E s s'" and "srv_inv com s" and "xdr_ok E"
  shows "srv_inv com s'"
  using assms(1)
proof cases
  case (packet cli raw)
  then show ?thesis using packet_inv [OF assms(2,3)] by (simp add: table_live_def)
next
  case (timeout p now)
  then show ?thesis using timeout_inv [OF assms(2)] by simp
next
  case (retry p now)
  then show ?thesis using retry_inv [OF assms(2)] by simp
next
  case root
  then show ?thesis using root_inv [OF assms(2)] by simp
qed (use assms(2) heap_ok_heap [of s' s] in \<open>simp_all add: srv_inv_def\<close>)

lemma reach_inv: "srv_reach E com s \<Longrightarrow> xdr_ok E \<Longrightarrow> srv_inv com s"
proof (induction rule: srv_reach.induct)
  case (start s)
  then show ?case by (simp add: srv_inv_def heap_ok_def sess_at_def empty_db_inv)
qed (rule step_inv)

end


lemma ref_xdr_ok: "xdr_ok (ref_env flt)"
  by (auto simp: xdr_ok_def ref_env_def ref_dec_hdr_def Let_def CLD_SID_SZ_def split: if_splits)


end
