(* ===== verification/Chunk_Sys.thy ===== *)
theory Chunk_Sys
  imports Prelude
begin

text \<open>
  What the chunk daemon sees of the operating system: a file system with names, files and open
  descriptors. Every call takes one entry of a script of outcomes: an errno, or a limit on the bytes
  transferred; an exhausted script means that calls succeed in full. SHA-1, SHA-256 and the volume's
  path are in \<open>cenv\<close>; an SHA-1 context is the list of the bytes that went into it.
\<close>

section \<open>State\<close>

definition ENOENT :: int where [cfg_simps]: "ENOENT = 2"
definition EEXIST :: int where [cfg_simps]: "EEXIST = 17"

record fsys =
  fy_dirs :: "bytes list"
  fy_names :: "bytes \<rightharpoonup> nat"
  fy_files :: "nat \<Rightarrow> bytes"
  fy_mtime :: "nat \<Rightarrow> u64"
  fy_fds :: "nat \<rightharpoonup> nat \<times> nat"     \<comment> \<open>file and position\<close>
  fy_next :: nat                   \<comment> \<open>next file and descriptor number\<close>
  fy_script :: "(int + nat) list"
  fy_mem :: mem

record cenv =
  ce_sha1 :: "bytes \<Rightarrow> bytes"
  ce_sha256 :: "bytes \<Rightarrow> bytes"
  ce_vol :: bytes

section \<open>Calls\<close>

definition outcome :: "fsys \<Rightarrow> (int + nat option) \<times> fsys" where
  "outcome fs =
     (case fy_script fs of
        [] \<Rightarrow> (Inr None, fs)
      | Inl e # sc \<Rightarrow> (Inl e, fs\<lparr>fy_script := sc\<rparr>)
      | Inr n # sc \<Rightarrow> (Inr (Some n), fs\<lparr>fy_script := sc\<rparr>))"

definition limit :: "nat option \<Rightarrow> nat \<Rightarrow> nat" where
  "limit lim n = (case lim of None \<Rightarrow> n | Some m \<Rightarrow> min m n)"

definition fs_malloc :: "fsys \<Rightarrow> bool \<times> fsys" where
  "fs_malloc fs = (case alloc (fy_mem fs) of (ok, m) \<Rightarrow> (ok, fs\<lparr>fy_mem := m\<rparr>))"

definition new_fd :: "nat \<Rightarrow> fsys \<Rightarrow> nat \<times> fsys" where
  "new_fd ino fs = (fy_next fs, fs\<lparr>fy_fds := (fy_fds fs)(fy_next fs \<mapsto> (ino, 0)), fy_next := Suc (fy_next fs)\<rparr>)"

text \<open>\<^verbatim>\<open>open(fn, O_WRONLY | O_CREAT | O_EXCL)\<close> and \<^verbatim>\<open>open(fn, O_RDONLY)\<close>.\<close>

definition sys_create :: "bytes \<Rightarrow> fsys \<Rightarrow> (int + nat) \<times> fsys" where
  "sys_create fn fs =
     (case outcome fs of
        (Inl e, fs) \<Rightarrow> (Inl e, fs)
      | (Inr _, fs) \<Rightarrow>
          if fy_names fs fn \<noteq> None then (Inl EEXIST, fs)
          else
            let ino = fy_next fs in
            case new_fd ino (fs\<lparr>fy_names := (fy_names fs)(fn \<mapsto> ino), fy_files := (fy_files fs)(ino := []), fy_next := Suc ino\<rparr>) of
              (fd, fs) \<Rightarrow> (Inr fd, fs))"

definition sys_open :: "bytes \<Rightarrow> fsys \<Rightarrow> (int + nat) \<times> fsys" where
  "sys_open fn fs =
     (case outcome fs of
        (Inl e, fs) \<Rightarrow> (Inl e, fs)
      | (Inr _, fs) \<Rightarrow>
          (case fy_names fs fn of
             None \<Rightarrow> (Inl ENOENT, fs)
           | Some ino \<Rightarrow> (case new_fd ino fs of (fd, fs) \<Rightarrow> (Inr fd, fs))))"

definition EBADF :: int where [cfg_simps]: "EBADF = 9"

definition sys_lseek :: "nat \<Rightarrow> nat \<Rightarrow> fsys \<Rightarrow> (int + nat) \<times> fsys" where
  "sys_lseek fd pos fs =
     (case outcome fs of
        (Inl e, fs) \<Rightarrow> (Inl e, fs)
      | (Inr _, fs) \<Rightarrow>
          (case fy_fds fs fd of
             None \<Rightarrow> (Inl EBADF, fs)
           | Some (ino, _) \<Rightarrow> (Inr pos, fs\<lparr>fy_fds := (fy_fds fs)(fd \<mapsto> (ino, pos))\<rparr>)))"

text \<open>Writing behind the end of a file fills the gap with zeros.\<close>

definition overwrite :: "nat \<Rightarrow> bytes \<Rightarrow> bytes \<Rightarrow> bytes" where
  "overwrite pos d c = take pos (c @ replicate (pos - length c) 0) @ d @ drop (pos + length d) c"

definition sys_write :: "nat \<Rightarrow> bytes \<Rightarrow> fsys \<Rightarrow> (int + nat) \<times> fsys" where
  "sys_write fd d fs =
     (case outcome fs of
        (Inl e, fs) \<Rightarrow> (Inl e, fs)
      | (Inr lim, fs) \<Rightarrow>
          (case fy_fds fs fd of
             None \<Rightarrow> (Inl EBADF, fs)
           | Some (ino, pos) \<Rightarrow>
               let n = limit lim (length d) in
               (Inr n, if n = 0 then fs
                  else fs\<lparr>fy_files := (fy_files fs)(ino := overwrite pos (take n d) (fy_files fs ino)),
                          fy_fds := (fy_fds fs)(fd \<mapsto> (ino, pos + n))\<rparr>)))"

definition sys_read :: "nat \<Rightarrow> nat \<Rightarrow> fsys \<Rightarrow> (int + bytes) \<times> fsys" where
  "sys_read fd len fs =
     (case outcome fs of
        (Inl e, fs) \<Rightarrow> (Inl e, fs)
      | (Inr lim, fs) \<Rightarrow>
          (case fy_fds fs fd of
             None \<Rightarrow> (Inl EBADF, fs)
           | Some (ino, pos) \<Rightarrow>
               let d = take (limit lim len) (drop pos (fy_files fs ino)) in
               (Inr d, fs\<lparr>fy_fds := (fy_fds fs)(fd \<mapsto> (ino, pos + length d))\<rparr>)))"

text \<open>\<^verbatim>\<open>fstat\<close>: size and modification time.\<close>

definition sys_fstat :: "nat \<Rightarrow> fsys \<Rightarrow> (int + nat \<times> u64) \<times> fsys" where
  "sys_fstat fd fs =
     (case outcome fs of
        (Inl e, fs) \<Rightarrow> (Inl e, fs)
      | (Inr _, fs) \<Rightarrow>
          (case fy_fds fs fd of
             None \<Rightarrow> (Inl EBADF, fs)
           | Some (ino, _) \<Rightarrow> (Inr (length (fy_files fs ino), fy_mtime fs ino), fs)))"

text \<open>A call of which only success or failure matters (\<^verbatim>\<open>fsync\<close>).\<close>

definition sys_plain :: "fsys \<Rightarrow> (int + unit) \<times> fsys" where
  "sys_plain fs = (case outcome fs of (Inl e, fs) \<Rightarrow> (Inl e, fs) | (Inr _, fs) \<Rightarrow> (Inr (), fs))"

text \<open>\<^verbatim>\<open>close\<close> releases the descriptor whatever it returns.\<close>

definition sys_close :: "nat \<Rightarrow> fsys \<Rightarrow> (int + unit) \<times> fsys" where
  "sys_close fd fs =
     (case outcome (fs\<lparr>fy_fds := (fy_fds fs)(fd := None)\<rparr>) of
        (Inl e, fs) \<Rightarrow> (Inl e, fs)
      | (Inr _, fs) \<Rightarrow> (Inr (), fs))"

definition sys_unlink :: "bytes \<Rightarrow> fsys \<Rightarrow> (int + unit) \<times> fsys" where
  "sys_unlink fn fs =
     (case outcome fs of
        (Inl e, fs) \<Rightarrow> (Inl e, fs)
      | (Inr _, fs) \<Rightarrow>
          if fy_names fs fn = None then (Inl ENOENT, fs) else (Inr (), fs\<lparr>fy_names := (fy_names fs)(fn := None)\<rparr>))"

definition sys_rename :: "bytes \<Rightarrow> bytes \<Rightarrow> fsys \<Rightarrow> (int + unit) \<times> fsys" where
  "sys_rename old new fs =
     (case outcome fs of
        (Inl e, fs) \<Rightarrow> (Inl e, fs)
      | (Inr _, fs) \<Rightarrow>
          (case fy_names fs old of
             None \<Rightarrow> (Inl ENOENT, fs)
           | Some ino \<Rightarrow> (Inr (), fs\<lparr>fy_names := ((fy_names fs)(old := None))(new \<mapsto> ino)\<rparr>)))"

text \<open>\<^verbatim>\<open>stat\<close> of a path: is it a directory, and its number.\<close>

definition sys_stat :: "bytes \<Rightarrow> fsys \<Rightarrow> (int + bool \<times> nat) \<times> fsys" where
  "sys_stat fn fs =
     (case outcome fs of
        (Inl e, fs) \<Rightarrow> (Inl e, fs)
      | (Inr _, fs) \<Rightarrow>
          if fn \<in> set (fy_dirs fs) then (Inr (True, 0), fs)
          else (case fy_names fs fn of None \<Rightarrow> (Inl ENOENT, fs) | Some ino \<Rightarrow> (Inr (False, ino), fs)))"

definition sys_mkdir :: "bytes \<Rightarrow> fsys \<Rightarrow> (int + unit) \<times> fsys" where
  "sys_mkdir fn fs =
     (case outcome fs of
        (Inl e, fs) \<Rightarrow> (Inl e, fs)
      | (Inr _, fs) \<Rightarrow>
          if fn \<in> set (fy_dirs fs) \<or> fy_names fs fn \<noteq> None then (Inl EEXIST, fs)
          else (Inr (), fs\<lparr>fy_dirs := fn # fy_dirs fs\<rparr>))"

section \<open>Quiet systems\<close>

text \<open>Neither calls nor allocations fail.\<close>

definition quiet :: "fsys \<Rightarrow> bool" where
  "quiet fs \<longleftrightarrow> fy_script fs = [] \<and> fy_mem fs = []"

lemma quiet_outcome [simp]: "quiet fs \<Longrightarrow> outcome fs = (Inr None, fs)"
  by (simp add: quiet_def outcome_def)

lemma quiet_malloc [simp]: "quiet fs \<Longrightarrow> fs_malloc fs = (True, fs)"
  by (cases fs) (simp add: quiet_def fs_malloc_def)

lemma quiet_upd [simp]:
  "quiet (fs\<lparr>fy_dirs := a\<rparr>) = quiet fs" "quiet (fs\<lparr>fy_names := b\<rparr>) = quiet fs" "quiet (fs\<lparr>fy_files := c\<rparr>) = quiet fs"
  "quiet (fs\<lparr>fy_fds := d\<rparr>) = quiet fs" "quiet (fs\<lparr>fy_next := e\<rparr>) = quiet fs" "quiet (fs\<lparr>fy_mtime := f\<rparr>) = quiet fs"
  by (simp_all add: quiet_def)

lemma limit_le: "limit lim n \<le> n"
  by (simp add: limit_def split: option.splits)

lemma limit_None [simp]: "limit None n = n"
  by (simp add: limit_def)

lemma overwrite_end: "length c = pos \<Longrightarrow> overwrite pos d c = c @ d"
  by (simp add: overwrite_def)

lemma overwrite_start: "overwrite 0 d (replicate (length d) x @ c) = d @ c"
  by (simp add: overwrite_def)

end
