(* ===== verification/Chunk_Fs.thy ===== *)
theory Chunk_Fs
  imports Chunk_Sys
begin

text \<open>
  The object store of the chunk daemon (\<^verbatim>\<open>chunkd/be-fs.c\<close>): one file per object, with a header, the
  key, a table of SHA-1 checksums of 64 kB blocks, and the data.
\<close>

section \<open>Constants\<close>

definition CHUNK_BLK_ORDER :: nat where [cfg_simps]: "CHUNK_BLK_ORDER = 16"
definition CHUNK_BLK_SZ :: nat where [cfg_simps]: "CHUNK_BLK_SZ = 65536"
definition CHD_CSUM_SZ :: nat where [cfg_simps]: "CHD_CSUM_SZ = 20"
definition CHD_KEY_SZ :: nat where [cfg_simps]: "CHD_KEY_SZ = 1024"
definition PREFIX_LEN :: nat where [cfg_simps]: "PREFIX_LEN = 3"
definition BE_FS_HDR_SZ :: nat where [cfg_simps]: "BE_FS_HDR_SZ = 180"   \<comment> \<open>\<^verbatim>\<open>sizeof(struct be_fs_obj_hdr)\<close>\<close>
definition BE_FS_OBJ_MAGIC :: bytes where "BE_FS_OBJ_MAGIC = ascii ''CHU1''"

datatype chunk_errcode =
  che_Success | che_AccessDenied | che_InternalError | che_InvalidArgument | che_InvalidURI | che_NoSuchKey
  | che_SignatureDoesNotMatch | che_InvalidKey | che_InvalidTable | che_Busy | che_KeyExists | che_InvalidSeek

section \<open>Objects\<close>

text \<open>\<^verbatim>\<open>struct fs_obj\<close> with the \<^verbatim>\<open>struct backend_obj\<close> in it. Sizes are as wide as in the code.\<close>

record fs_obj =
  fo_key :: bytes
  fo_size :: u64
  fo_hash :: bytes
  fo_mtime :: u64
  fo_out_fd :: "nat option"
  fo_out_fn :: "bytes option"
  fo_written_bytes :: u64
  fo_in_fd :: "nat option"
  fo_in_fn :: "bytes option"
  fo_in_pos :: nat
  fo_sendfile_ofs :: nat
  fo_value_ofs :: nat
  fo_tail_pos :: nat
  fo_tail_len :: nat
  fo_checked_bytes :: nat
  fo_checksum :: bytes
  fo_csum_idx :: u32
  fo_csum_tbl :: bytes
  fo_csum_tbl_sz :: nat
  fo_n_blk :: u32

definition fs_obj_zero :: fs_obj where
  "fs_obj_zero = \<lparr>fo_key = [], fo_size = 0, fo_hash = replicate CHD_CSUM_SZ 0, fo_mtime = 0, fo_out_fd = None, fo_out_fn = None,
     fo_written_bytes = 0, fo_in_fd = None, fo_in_fn = None, fo_in_pos = 0, fo_sendfile_ofs = 0, fo_value_ofs = 0,
     fo_tail_pos = 0, fo_tail_len = 0, fo_checked_bytes = 0, fo_checksum = [], fo_csum_idx = 0, fo_csum_tbl = [],
     fo_csum_tbl_sz = 0, fo_n_blk = 0\<rparr>"

definition fs_obj_alloc :: "fsys \<Rightarrow> fs_obj option \<times> fsys" where
  "fs_obj_alloc fs = (case fs_malloc fs of (ok, fs) \<Rightarrow> (if ok then Some fs_obj_zero else None, fs))"

text \<open>The fixed header of a file.\<close>

record be_fs_obj_hdr =
  bh_magic :: bytes
  bh_key_len :: u32
  bh_value_len :: u64
  bh_n_blk :: u32
  bh_hash :: bytes
  bh_owner :: bytes

definition hdr_bytes :: "be_fs_obj_hdr \<Rightarrow> bytes" where
  "hdr_bytes h = bh_magic h @ le_bytes 4 (bh_key_len h) @ le_bytes 8 (bh_value_len h) @ le_bytes 4 (bh_n_blk h) @
     replicate 12 0 @ bh_hash h @ bh_owner h"

definition hdr_of :: "bytes \<Rightarrow> be_fs_obj_hdr" where
  "hdr_of b = \<lparr>bh_magic = take 4 b, bh_key_len = of_le_bytes (take 4 (drop 4 b)), bh_value_len = of_le_bytes (take 8 (drop 8 b)),
     bh_n_blk = of_le_bytes (take 4 (drop 16 b)), bh_hash = take 20 (drop 32 b), bh_owner = take 128 (drop 52 b)\<rparr>"

text \<open>A C string in a buffer, and \<^verbatim>\<open>strncpy\<close>.\<close>

definition cstr :: "bytes \<Rightarrow> bytes" where
  "cstr b = takeWhile (\<lambda>c. c \<noteq> 0) b"

definition strncpy :: "bytes \<Rightarrow> nat \<Rightarrow> bytes" where
  "strncpy src n = take n (src @ replicate n 0)"

section \<open>Names\<close>

definition hexdig :: "u8 \<Rightarrow> u8" where
  "hexdig d = ascii ''0123456789abcdef'' ! unat d"

definition hexstr :: "bytes \<Rightarrow> bytes" where
  "hexstr buf = concat (map (\<lambda>b. [hexdig (drop_bit 4 (b AND 0xF0)), hexdig (b AND 0x0F)]) buf)"

text \<open>The conversions \<^verbatim>\<open>%X\<close> and \<^verbatim>\<open>%lu\<close>.\<close>

fun fmt_base :: "nat \<Rightarrow> nat \<Rightarrow> bytes" where
  "fmt_base b n = (if b < 2 \<or> n < b then [ascii ''0123456789ABCDEF'' ! n] else fmt_base b (n div b) @ [ascii ''0123456789ABCDEF'' ! (n mod b)])"

declare fmt_base.simps [simp del]

definition table_path :: "cenv \<Rightarrow> u32 \<Rightarrow> bytes" where
  "table_path E table_id = ce_vol E @ ascii ''/'' @ fmt_base 16 (unat table_id)"

definition fs_obj_pathname :: "cenv \<Rightarrow> u32 \<Rightarrow> bytes \<Rightarrow> fsys \<Rightarrow> bytes option \<times> fsys" where
  "fs_obj_pathname E table_id key fs =
     (if table_id = 0 \<or> key = [] then (None, fs)
      else
        let mdstr = hexstr (ce_sha256 E key);
            dir = table_path E table_id @ ascii ''/'' @ take PREFIX_LEN mdstr;
            s = dir @ ascii ''/'' @ drop PREFIX_LEN mdstr
        in case fs_malloc fs of
             (ok, fs) \<Rightarrow>
               if \<not> ok then (None, fs)
               else
                 case sys_stat dir fs of
                   (Inl e, fs) \<Rightarrow>
                     if e = ENOENT
                     then (case sys_mkdir dir fs of
                             (Inl e, fs) \<Rightarrow> if e \<noteq> EEXIST then (None, fs) else (Some s, fs)
                           | (Inr _, fs) \<Rightarrow> (Some s, fs))
                     else (None, fs)
                 | (Inr (isdir, _), fs) \<Rightarrow> if \<not> isdir then (None, fs) else (Some s, fs))"

definition fs_obj_badname :: "cenv \<Rightarrow> nat \<Rightarrow> fsys \<Rightarrow> bytes option \<times> fsys" where
  "fs_obj_badname E tag fs =
     (let s = ce_vol E @ ascii ''/bad'';
          name = s @ ascii ''/'' @ fmt_base 10 tag
      in case fs_malloc fs of
           (ok, fs) \<Rightarrow>
             if \<not> ok then (None, fs)
             else
               case sys_stat s fs of
                 (Inl e, fs) \<Rightarrow>
                   if e \<noteq> ENOENT then (None, fs)
                   else
                     (case sys_mkdir s fs of
                        (Inl e, fs) \<Rightarrow>
                          if e \<noteq> EEXIST then (None, fs)
                          else (case fs_malloc fs of (ok, fs) \<Rightarrow> (if ok then Some name else None, fs))
                      | (Inr _, fs) \<Rightarrow> (case fs_malloc fs of (ok, fs) \<Rightarrow> (if ok then Some name else None, fs)))
               | (Inr (isdir, _), fs) \<Rightarrow>
                   if \<not> isdir then (None, fs)
                   else (case fs_malloc fs of (ok, fs) \<Rightarrow> (if ok then Some name else None, fs)))"

definition key_valid :: "bytes \<Rightarrow> bool" where
  "key_valid key \<longleftrightarrow> \<not> (length key < 1 \<or> length key > CHD_KEY_SZ)"

text \<open>The block count is computed in 64 bits and returned in 32.\<close>

definition fs_blk_count :: "u64 \<Rightarrow> u32" where
  "fs_blk_count data_len =
     ucast (let n_blk = drop_bit CHUNK_BLK_ORDER data_len
            in if data_len AND word_of_nat (CHUNK_BLK_SZ - 1) \<noteq> 0 then n_blk + 1 else n_blk)"

section \<open>Creating and freeing\<close>

definition fs_obj_free :: "fs_obj \<Rightarrow> fsys \<Rightarrow> fsys" where
  "fs_obj_free obj fs =
     (let fs = (case fo_out_fn obj of None \<Rightarrow> fs | Some fn \<Rightarrow> snd (sys_unlink fn fs));
          fs = (case fo_out_fd obj of None \<Rightarrow> fs | Some fd \<Rightarrow> snd (sys_close fd fs))
      in case fo_in_fd obj of None \<Rightarrow> fs | Some fd \<Rightarrow> snd (sys_close fd fs))"

text \<open>The checksum table is fresh memory, whose contents are unspecified.\<close>

definition fresh_mem :: "nat \<Rightarrow> bytes" where
  "fresh_mem n = replicate n 0xAA"

definition fs_obj_new :: "cenv \<Rightarrow> u32 \<Rightarrow> bytes \<Rightarrow> u64 \<Rightarrow> fsys \<Rightarrow> (chunk_errcode + fs_obj) \<times> fsys" where
  "fs_obj_new E table_id key data_len fs =
     (if \<not> key_valid key then (Inl che_InvalidKey, fs)
      else
        case fs_obj_alloc fs of
          (None, fs) \<Rightarrow> (Inl che_InternalError, fs)
        | (Some obj, fs) \<Rightarrow>
            let n_blk = fs_blk_count data_len;
                csum_bytes = unat (n_blk * word_of_nat CHD_CSUM_SZ);
                obj = obj\<lparr>fo_n_blk := n_blk\<rparr>
            in case fs_malloc fs of
                 (ok, fs) \<Rightarrow>
                   if \<not> ok then (Inl che_InternalError, fs_obj_free obj fs)
                   else
                     let obj = obj\<lparr>fo_csum_tbl := fresh_mem csum_bytes, fo_csum_tbl_sz := csum_bytes,
                                   fo_tail_pos := unat (data_len AND NOT (word_of_nat (CHUNK_BLK_SZ - 1))),
                                   fo_tail_len := unat (data_len AND word_of_nat (CHUNK_BLK_SZ - 1))\<rparr>
                     in case fs_obj_pathname E table_id key fs of
                          (None, fs) \<Rightarrow> (Inl che_InternalError, fs_obj_free obj fs)
                        | (Some fn, fs) \<Rightarrow>
                            (case sys_create fn fs of
                               (Inl e, fs) \<Rightarrow> (Inl (if e \<noteq> EEXIST then che_InternalError else che_KeyExists), fs_obj_free obj fs)
                             | (Inr fd, fs) \<Rightarrow>
                                 let obj = obj\<lparr>fo_out_fd := Some fd, fo_out_fn := Some fn,
                                               fo_value_ofs := BE_FS_HDR_SZ + length key + csum_bytes\<rparr>
                                 in case sys_lseek fd (fo_value_ofs obj) fs of
                                      (Inl e, fs) \<Rightarrow> (Inl che_InternalError, fs_obj_free obj fs)
                                    | (Inr _, fs) \<Rightarrow>
                                        (case fs_malloc fs of
                                           (ok, fs) \<Rightarrow>
                                             if \<not> ok then (Inl che_InternalError, fs_obj_free obj fs)
                                             else (Inr (obj\<lparr>fo_key := key, fo_size := data_len\<rparr>), fs))))"

section \<open>Opening\<close>

text \<open>\<^verbatim>\<open>fs_obj_open\<close> from the point where the header has been read.\<close>

definition open_hdr :: "bytes \<Rightarrow> bytes \<Rightarrow> nat \<times> u64 \<Rightarrow> be_fs_obj_hdr \<Rightarrow> fs_obj \<Rightarrow> chunk_errcode + fs_obj" where
  "open_hdr user key st hdr obj =
     (if memcmp (bh_magic hdr) BE_FS_OBJ_MAGIC \<noteq> 0 then Inl che_InternalError
      else if strcmp (cstr (bh_owner hdr)) user \<noteq> 0 then Inl che_AccessDenied
      else if unat (bh_key_len hdr) \<noteq> length key then Inl che_InternalError
      else
        let value_len = bh_value_len hdr; n_blk = bh_n_blk hdr;
            csum_bytes = unat (n_blk * word_of_nat CHD_CSUM_SZ);
            value_ofs = BE_FS_HDR_SZ + length key + csum_bytes
        in if fst st < unat (word_of_nat value_ofs + value_len) then Inl che_InternalError
           else if fs_blk_count value_len \<noteq> n_blk then Inl che_InternalError
           else Inr (obj\<lparr>fo_n_blk := n_blk, fo_csum_tbl_sz := csum_bytes,
                         fo_tail_pos := unat (value_len AND NOT (word_of_nat (CHUNK_BLK_SZ - 1))),
                         fo_tail_len := unat (value_len AND word_of_nat (CHUNK_BLK_SZ - 1)), fo_value_ofs := value_ofs,
                         fo_hash := bh_hash hdr, fo_size := value_len, fo_mtime := snd st\<rparr>))"

definition fs_obj_open :: "cenv \<Rightarrow> u32 \<Rightarrow> bytes \<Rightarrow> bytes \<Rightarrow> fsys \<Rightarrow> (chunk_errcode + fs_obj) \<times> fsys" where
  "fs_obj_open E table_id user key fs =
     (if \<not> key_valid key then (Inl che_InvalidKey, fs)
      else
        case fs_obj_alloc fs of
          (None, fs) \<Rightarrow> (Inl che_InternalError, fs)
        | (Some obj, fs) \<Rightarrow>
            (case fs_obj_pathname E table_id key fs of
               (None, fs) \<Rightarrow> (Inl che_InternalError, fs_obj_free obj fs)
             | (Some fn, fs) \<Rightarrow>
                 let obj = obj\<lparr>fo_in_fn := Some fn\<rparr> in
                 case sys_open fn fs of
                   (Inl e, fs) \<Rightarrow> (Inl (if e = ENOENT then che_NoSuchKey else che_InternalError), fs_obj_free obj fs)
                 | (Inr fd, fs) \<Rightarrow>
                     let obj = obj\<lparr>fo_in_fd := Some fd\<rparr> in
                     case sys_fstat fd fs of
                       (Inl e, fs) \<Rightarrow> (Inl che_InternalError, fs_obj_free obj fs)
                     | (Inr st, fs) \<Rightarrow>
                         (case sys_read fd BE_FS_HDR_SZ fs of
                            (Inl e, fs) \<Rightarrow> (Inl che_InternalError, fs_obj_free obj fs)
                          | (Inr b, fs) \<Rightarrow>
                              if length b \<noteq> BE_FS_HDR_SZ then (Inl che_InternalError, fs_obj_free obj fs)
                              else
                                case open_hdr user key st (hdr_of b) obj of
                                  Inl erc \<Rightarrow> (Inl erc, fs_obj_free obj fs)
                                | Inr obj \<Rightarrow>
                                    (case fs_malloc fs of
                                       (ok, fs) \<Rightarrow>
                                         if \<not> ok then (Inl che_InternalError, fs_obj_free obj fs)
                                         else
                                           case fs_malloc fs of
                                             (ok, fs) \<Rightarrow>
                                               if \<not> ok then (Inl che_InternalError, fs_obj_free obj fs)
                                               else
                                                 case sys_read fd (length key + fo_csum_tbl_sz obj) fs of
                                                   (Inl e, fs) \<Rightarrow> (Inl che_InternalError, fs_obj_free obj fs)
                                                 | (Inr b, fs) \<Rightarrow>
                                                     if length b \<noteq> length key + fo_csum_tbl_sz obj \<or> memcmp key (take (length key) b) \<noteq> 0
                                                     then (Inl che_InternalError, fs_obj_free obj fs)
                                                     else (Inr (obj\<lparr>fo_key := take (length key) b, fo_csum_tbl := drop (length key) b\<rparr>), fs)))))"

section \<open>Reading\<close>

definition can_csum_range :: "fs_obj \<Rightarrow> nat \<Rightarrow> bool" where
  "can_csum_range obj len =
     (if len = 0 then False
      else if fo_in_pos obj mod CHUNK_BLK_SZ \<noteq> 0 then False
      else
        let end_pos = fo_tail_pos obj + fo_tail_len obj; want_pos = fo_in_pos obj + len in
        if want_pos > end_pos then False
        else if want_pos mod CHUNK_BLK_SZ = 0 then True
        else want_pos = end_pos)"

definition fs_obj_seek :: "fs_obj \<Rightarrow> nat \<Rightarrow> fsys \<Rightarrow> int \<times> fs_obj \<times> fsys" where
  "fs_obj_seek obj rel_ofs fs =
     (case fo_in_fd obj of
        None \<Rightarrow> (- EBADF, obj, fs)
      | Some fd \<Rightarrow>
          (case sys_lseek fd (fo_value_ofs obj + rel_ofs) fs of
             (Inl e, fs) \<Rightarrow> (- e, obj, fs)
           | (Inr rc, fs) \<Rightarrow> (0, obj\<lparr>fo_in_pos := rc - fo_value_ofs obj\<rparr>, fs)))"

text \<open>The loop over the blocks: \<open>cnt\<close> blocks from number \<open>blk_idx\<close> on are at the start of \<open>p\<close>.\<close>

fun csum_loop :: "cenv \<Rightarrow> fs_obj \<Rightarrow> nat \<Rightarrow> nat \<Rightarrow> bytes \<Rightarrow> bool" where
  "csum_loop E obj 0 blk_idx p = True"
| "csum_loop E obj (Suc cnt) blk_idx p =
     (let blk_len = (if blk_idx = unat (fo_n_blk obj - 1) \<and> fo_tail_len obj > 0 then fo_tail_len obj else CHUNK_BLK_SZ);
          md = ce_sha1 E (take blk_len p)
      in if memcmp md (take CHD_CSUM_SZ (drop (blk_idx * CHD_CSUM_SZ) (fo_csum_tbl obj))) \<noteq> 0 then False
         else csum_loop E obj cnt (Suc blk_idx) (drop blk_len p))"

text \<open>The result is an errno or the bytes read; no bytes are the end of the file.\<close>

definition fs_obj_read :: "cenv \<Rightarrow> fs_obj \<Rightarrow> nat \<Rightarrow> fsys \<Rightarrow> (int + bytes) \<times> fs_obj \<times> fsys" where
  "fs_obj_read E obj len fs =
     (case fo_in_fd obj of
        None \<Rightarrow> (Inl EBADF, obj, fs)
      | Some fd \<Rightarrow>
          (case sys_read fd len fs of
             (Inl e, fs) \<Rightarrow> (Inl e, obj, fs)
           | (Inr d, fs) \<Rightarrow>
               if d = [] then (Inr [], obj, fs)
               else if can_csum_range obj (length d) \<and>
                   \<not> csum_loop E obj (unat (fs_blk_count (word_of_nat (length d)))) (unat (fs_blk_count (word_of_nat (fo_in_pos obj)))) d
               then (Inl EIO, obj, fs)
               else (Inr d, obj\<lparr>fo_in_pos := fo_in_pos obj + length d\<rparr>, fs)))"

section \<open>Writing\<close>

definition obj_flush_csum :: "cenv \<Rightarrow> fs_obj \<Rightarrow> fs_obj" where
  "obj_flush_csum E obj =
     (if fo_csum_idx obj \<ge> fo_n_blk obj then obj
      else
        let md = ce_sha1 E (fo_checksum obj); at = unat (fo_csum_idx obj) * CHD_CSUM_SZ in
        obj\<lparr>fo_csum_tbl := take at (fo_csum_tbl obj) @ md @ drop (at + CHD_CSUM_SZ) (fo_csum_tbl obj),
            fo_csum_idx := fo_csum_idx obj + 1, fo_checked_bytes := 0, fo_checksum := []\<rparr>)"

text \<open>
  The loop of \<^verbatim>\<open>fs_obj_write\<close>. It does not end when a write keeps returning 0, as it does once the
  checksum table is full: then \<open>checked_bytes\<close> stays at the block size and no byte is asked for.
\<close>

definition write_step :: "cenv \<Rightarrow> bytes \<Rightarrow> nat \<Rightarrow> fs_obj \<Rightarrow> fs_obj" where
  "write_step E ptr wrc obj =
     (let obj = obj\<lparr>fo_checksum := fo_checksum obj @ take wrc ptr,
                    fo_written_bytes := fo_written_bytes obj + word_of_nat wrc,
                    fo_checked_bytes := fo_checked_bytes obj + wrc\<rparr>
      in if fo_checked_bytes obj = CHUNK_BLK_SZ then obj_flush_csum E obj else obj)"

partial_function (option) write_loop ::
    "cenv \<Rightarrow> nat \<Rightarrow> bytes \<Rightarrow> nat \<Rightarrow> fs_obj \<Rightarrow> fsys \<Rightarrow> ((int + nat) \<times> fs_obj \<times> fsys) option" where
  "write_loop E fd ptr total_written obj fs =
     (if ptr = [] then Some (Inr total_written, obj, fs)
      else
        case sys_write fd (take (CHUNK_BLK_SZ - fo_checked_bytes obj) ptr) fs of
          (Inl e, fs) \<Rightarrow> Some (Inl e, obj, fs)
        | (Inr wrc, fs) \<Rightarrow> write_loop E fd (drop wrc ptr) (total_written + wrc) (write_step E ptr wrc obj) fs)"

definition fs_obj_write :: "cenv \<Rightarrow> fs_obj \<Rightarrow> bytes \<Rightarrow> fsys \<Rightarrow> ((int + nat) \<times> fs_obj \<times> fsys) option" where
  "fs_obj_write E obj ptr fs =
     (case fo_out_fd obj of
        None \<Rightarrow> if ptr = [] then Some (Inr 0, obj, fs) else Some (Inl EBADF, obj, fs)
      | Some fd \<Rightarrow> write_loop E fd ptr 0 obj fs)"

definition fs_obj_sendfile :: "fs_obj \<Rightarrow> nat \<Rightarrow> fsys \<Rightarrow> (int + bytes) \<times> fs_obj \<times> fsys" where
  "fs_obj_sendfile obj len fs =
     (let obj = (if fo_sendfile_ofs obj = 0
                 then obj\<lparr>fo_sendfile_ofs := BE_FS_HDR_SZ + length (fo_key obj) + fo_csum_tbl_sz obj\<rparr> else obj)
      in case outcome fs of
           (Inl e, fs) \<Rightarrow> (Inl e, obj, fs)
         | (Inr lim, fs) \<Rightarrow>
             (case fo_in_fd obj of
                None \<Rightarrow> (Inl EBADF, obj, fs)
              | Some fd \<Rightarrow>
                  (case fy_fds fs fd of
                     None \<Rightarrow> (Inl EBADF, obj, fs)
                   | Some (ino, _) \<Rightarrow>
                       let d = take (limit lim len) (drop (fo_sendfile_ofs obj) (fy_files fs ino))
                       in (Inr d, obj\<lparr>fo_sendfile_ofs := fo_sendfile_ofs obj + length d\<rparr>, fs))))"

text \<open>The header of a finished object.\<close>

definition commit_hdr :: "fs_obj \<Rightarrow> bytes \<Rightarrow> bytes \<Rightarrow> be_fs_obj_hdr" where
  "commit_hdr obj user md =
     \<lparr>bh_magic = BE_FS_OBJ_MAGIC, bh_key_len = word_of_nat (length (fo_key obj)), bh_value_len = fo_written_bytes obj,
      bh_n_blk = fo_n_blk obj, bh_hash = md, bh_owner = strncpy user 128\<rparr>"

definition fs_obj_write_commit :: "cenv \<Rightarrow> fs_obj \<Rightarrow> bytes \<Rightarrow> bytes \<Rightarrow> bool \<Rightarrow> fsys \<Rightarrow> bool \<times> fs_obj \<times> fsys" where
  "fs_obj_write_commit E obj user md sync_data fs =
     (if fo_size obj \<noteq> fo_written_bytes obj then (False, obj, fs)
      else
        let hdr = commit_hdr obj user md;
            obj = (if fo_checked_bytes obj > 0 then obj_flush_csum E obj else obj)
        in if fo_csum_idx obj \<noteq> fo_n_blk obj then (False, obj, fs)
           else
             let obj = obj\<lparr>fo_csum_idx := 0\<rparr> in
             case fo_out_fd obj of
               None \<Rightarrow> (False, obj, fs)
             | Some fd \<Rightarrow>
                 (case sys_lseek fd 0 fs of
                    (Inl e, fs) \<Rightarrow> (False, obj, fs)
                  | (Inr _, fs) \<Rightarrow>
                      let iov = hdr_bytes hdr @ fo_key obj @ fo_csum_tbl obj in
                      (case sys_write fd iov fs of
                         (Inl e, fs) \<Rightarrow> (False, obj, fs)
                       | (Inr wrc, fs) \<Rightarrow>
                           if wrc \<noteq> length iov then (False, obj, fs)
                           else
                             case (if sync_data then sys_plain fs else (Inr (), fs)) of
                               (Inl e, fs) \<Rightarrow> (False, obj, fs)
                             | (Inr _, fs) \<Rightarrow>
                                 (True, obj\<lparr>fo_out_fd := None, fo_out_fn := None, fo_written_bytes := 0\<rparr>, snd (sys_close fd fs)))))"

section \<open>Deleting\<close>

text \<open>\<^verbatim>\<open>*err_code\<close> is only meaningful when the result is \<^verbatim>\<open>false\<close>.\<close>

definition fs_obj_delete :: "cenv \<Rightarrow> u32 \<Rightarrow> bytes \<Rightarrow> bytes \<Rightarrow> fsys \<Rightarrow> (chunk_errcode + unit) \<times> fsys" where
  "fs_obj_delete E table_id user key fs =
     (if \<not> key_valid key then (Inl che_InvalidKey, fs)
      else
        case fs_obj_pathname E table_id key fs of
          (None, fs) \<Rightarrow> (Inl che_InternalError, fs)
        | (Some fn, fs) \<Rightarrow>
            (case sys_open fn fs of
               (Inl e, fs) \<Rightarrow> (Inl (if e = ENOENT then che_NoSuchKey else che_InternalError), fs)
             | (Inr fd, fs) \<Rightarrow>
                 (case sys_read fd BE_FS_HDR_SZ fs of
                    (Inl e, fs) \<Rightarrow> (Inl che_InternalError, snd (sys_close fd fs))
                  | (Inr b, fs) \<Rightarrow>
                      if length b \<noteq> BE_FS_HDR_SZ then (Inl che_InternalError, snd (sys_close fd fs))
                      else
                        case sys_close fd fs of
                          (Inl e, fs) \<Rightarrow> (Inl che_InternalError, fs)
                        | (Inr _, fs) \<Rightarrow>
                            let hdr = hdr_of b in
                            if memcmp (bh_magic hdr) BE_FS_OBJ_MAGIC \<noteq> 0 then (Inl che_InternalError, fs)
                            else if strcmp user (cstr (bh_owner hdr)) \<noteq> 0 then (Inl che_AccessDenied, fs)
                            else
                              case sys_unlink fn fs of
                                (Inl e, fs) \<Rightarrow> (Inl (if e = ENOENT then che_NoSuchKey else che_InternalError), fs)
                              | (Inr _, fs) \<Rightarrow> (Inr (), fs))))"

text \<open>A failed \<^verbatim>\<open>fs_obj_badname\<close> leaves a null pointer, which \<^verbatim>\<open>rename\<close> refuses with \<^verbatim>\<open>EFAULT\<close>.\<close>

definition EFAULT :: int where [cfg_simps]: "EFAULT = 14"

definition fs_obj_disable :: "cenv \<Rightarrow> bytes \<Rightarrow> fsys \<Rightarrow> int \<times> fsys" where
  "fs_obj_disable E fn fs =
     (case sys_stat fn fs of
        (Inl e, fs) \<Rightarrow> (- e, fs)
      | (Inr (_, ino), fs) \<Rightarrow>
          (case fs_obj_badname E ino fs of
             (None, fs) \<Rightarrow> (- EFAULT, fs)
           | (Some bad, fs) \<Rightarrow>
               (case sys_rename fn bad fs of
                  (Inl e, fs) \<Rightarrow> (- e, fs)
                | (Inr _, fs) \<Rightarrow> (0, fs))))"

section \<open>Reading headers by file name\<close>

record obj_info =
  oi_owner :: bytes
  oi_hash :: bytes
  oi_key :: bytes
  oi_csumlen :: nat
  oi_size :: u64
  oi_mtime :: u64

text \<open>The check of the value length is done in 64 bits: for a short file the difference wraps around.\<close>

definition fs_obj_hdr_read :: "bytes \<Rightarrow> fsys \<Rightarrow> obj_info option \<times> fsys" where
  "fs_obj_hdr_read fn fs =
     (case sys_open fn fs of
        (Inl e, fs) \<Rightarrow> (None, fs)
      | (Inr fd, fs) \<Rightarrow>
          (case sys_fstat fd fs of
             (Inl e, fs) \<Rightarrow> (None, snd (sys_close fd fs))
           | (Inr (st_size, mtime), fs) \<Rightarrow>
               (case sys_read fd BE_FS_HDR_SZ fs of
                  (Inl e, fs) \<Rightarrow> (None, snd (sys_close fd fs))
                | (Inr b, fs) \<Rightarrow>
                    let hdr = hdr_of b; klen = unat (bh_key_len hdr); vlen = bh_value_len hdr in
                    if length b \<noteq> BE_FS_HDR_SZ \<or> memcmp (bh_magic hdr) BE_FS_OBJ_MAGIC \<noteq> 0 \<or> klen < 1 \<or> klen > CHD_KEY_SZ \<or>
                       word_of_nat st_size - word_of_nat BE_FS_HDR_SZ - word_of_nat klen < vlen
                    then (None, snd (sys_close fd fs))
                    else
                      case fs_malloc fs of
                        (ok, fs) \<Rightarrow>
                          if \<not> ok then (None, snd (sys_close fd fs))
                          else
                            case sys_read fd klen fs of
                              (Inl e, fs) \<Rightarrow> (None, snd (sys_close fd fs))
                            | (Inr key, fs) \<Rightarrow>
                                if length key \<noteq> klen then (None, snd (sys_close fd fs))
                                else
                                  case fs_malloc fs of
                                    (ok, fs) \<Rightarrow>
                                      (if ok
                                       then Some \<lparr>oi_owner = cstr (bh_owner hdr), oi_hash = bh_hash hdr, oi_key = key,
                                                  oi_csumlen = unat (bh_n_blk hdr * word_of_nat CHD_CSUM_SZ), oi_size = vlen, oi_mtime = mtime\<rparr>
                                       else None, snd (sys_close fd fs)))))"

section \<open>Checksum of a file\<close>

definition SUM_BUFLEN :: nat where [cfg_simps]: "SUM_BUFLEN = 131072"

text \<open>A read that returns less than the buffer ends the loop.\<close>

function sum_loop :: "nat \<Rightarrow> bytes \<Rightarrow> fsys \<Rightarrow> (int + bytes) \<times> fsys" where
  "sum_loop fd hash fs =
     (case sys_read fd SUM_BUFLEN fs of
        (Inl e, fs) \<Rightarrow> (Inl e, fs)
      | (Inr d, fs) \<Rightarrow>
          let hash = hash @ d in
          if length d < SUM_BUFLEN then (Inr hash, fs) else sum_loop fd hash fs)"
  by pat_completeness auto
termination
proof (relation "measure (\<lambda>(fd, hash, fs). case fy_fds fs fd of None \<Rightarrow> 0 | Some (ino, pos) \<Rightarrow> length (fy_files fs ino) - pos)", goal_cases)
  case (2 fd hash fs r fs' d h)
  then show ?case
    by (auto simp: sys_read_def outcome_def Let_def SUM_BUFLEN_def split: list.splits sum.splits option.splits prod.splits if_splits)
qed simp

declare sum_loop.simps [simp del]

definition fs_obj_do_sum :: "cenv \<Rightarrow> bytes \<Rightarrow> nat \<Rightarrow> nat \<Rightarrow> fsys \<Rightarrow> (int + bytes) \<times> fsys" where
  "fs_obj_do_sum E fn klen csumlen fs =
     (case fs_malloc fs of
        (ok, fs) \<Rightarrow>
          if \<not> ok then (Inl ENOMEM, fs)
          else
            case sys_open fn fs of
              (Inl e, fs) \<Rightarrow> (Inl e, fs)
            | (Inr fd, fs) \<Rightarrow>
                (case sys_lseek fd (BE_FS_HDR_SZ + klen + csumlen) fs of
                   (Inl e, fs) \<Rightarrow> (Inl e, fs)
                 | (Inr _, fs) \<Rightarrow>
                     (case sum_loop fd [] fs of
                        (Inl e, fs) \<Rightarrow> (Inl e, snd (sys_close fd fs))
                      | (Inr hash, fs) \<Rightarrow> (Inr (ce_sha1 E hash), snd (sys_close fd fs)))))"

end
