(* ===== verification/Run_Monad.thy ===== *)
theory Run_Monad
  imports Prelude
begin

text \<open>
  Stateful computations of a C program that may loop or crash, and preservation of predicates by them.
\<close>

section \<open>Computations\<close>

text \<open>
  A computation may not return (\<open>None\<close>), end the process (\<open>Inl\<close> with the kind of fault), or return a
  value and the new state.
\<close>

datatype fault = F_null | F_overflow | F_free | F_abort | F_list

type_synonym ('s, 'a) run = "'s \<Rightarrow> (fault + 'a \<times> 's) option"

definition rret :: "'a \<Rightarrow> ('s, 'a) run" where
  "rret x s = Some (Inr (x, s))"

definition rfault :: "fault \<Rightarrow> ('s, 'a) run" where
  "rfault e s = Some (Inl e)"

definition rbind :: "('s, 'a) run \<Rightarrow> ('a \<Rightarrow> ('s, 'b) run) \<Rightarrow> ('s, 'b) run" where
  "rbind m f s = (case m s of None \<Rightarrow> None | Some (Inl e) \<Rightarrow> Some (Inl e) | Some (Inr (x, s)) \<Rightarrow> f x s)"

definition rmod :: "('s \<Rightarrow> 's) \<Rightarrow> ('s, unit) run" where
  "rmod f s = Some (Inr ((), f s))"

definition rget :: "('s \<Rightarrow> 'a) \<Rightarrow> ('s, 'a) run" where
  "rget f s = Some (Inr (f s, s))"

definition rcall :: "('s \<Rightarrow> 'a \<times> 's) \<Rightarrow> ('s, 'a) run" where
  "rcall f s = Some (Inr (f s))"

lemmas run_simps = rret_def rfault_def rbind_def rmod_def rget_def rcall_def

lemma rbind_step: "m s = Some (Inr (x, s1)) \<Longrightarrow> rbind m f s = f x s1"
  by (simp add: rbind_def)

lemma rbindE:
  assumes "rbind m f s = Some (Inr (y, s2))"
  obtains x s1 where "m s = Some (Inr (x, s1))" "f x s1 = Some (Inr (y, s2))"
  using assms by (auto simp: rbind_def split: option.splits sum.splits)

text \<open>Preservation of a predicate whenever there is a result.\<close>

definition rinv :: "('s \<Rightarrow> bool) \<Rightarrow> ('s, 'a) run \<Rightarrow> bool" where
  "rinv P m \<longleftrightarrow> (\<forall>s x s'. P s \<longrightarrow> m s = Some (Inr (x, s')) \<longrightarrow> P s')"

named_theorems rinv_intros \<open>operations that preserve a predicate\<close>

lemma rinvD: "rinv P m \<Longrightarrow> m s = Some (Inr (x, s')) \<Longrightarrow> P s \<Longrightarrow> P s'"
  by (auto simp: rinv_def)

lemma rinv_basic [rinv_intros]: "rinv P (rret x)" "rinv P (rfault e)" "rinv P (rget f)"
  by (auto simp: rinv_def run_simps)

lemma rinv_bind [rinv_intros]: "rinv P m \<Longrightarrow> (\<And>x. rinv P (f x)) \<Longrightarrow> rinv P (rbind m f)"
  unfolding rinv_def by (metis rbindE)

lemma rinv_mod: "(\<And>s. P s \<Longrightarrow> P (f s)) \<Longrightarrow> rinv P (rmod f)"
  by (auto simp: rinv_def run_simps)

lemma rinv_call: "(\<And>s x s'. P s \<Longrightarrow> f s = (x, s') \<Longrightarrow> P s') \<Longrightarrow> rinv P (rcall f)"
  by (auto simp: rinv_def rcall_def)

lemma rinv_if [rinv_intros]: "(b \<Longrightarrow> rinv P m) \<Longrightarrow> (\<not> b \<Longrightarrow> rinv P m') \<Longrightarrow> rinv P (if b then m else m')"
  by simp

lemma rinv_let [rinv_intros]: "rinv P (f x) \<Longrightarrow> rinv P (let y = x in f y)"
  by simp

lemma rinv_option [rinv_intros]:
  "(x = None \<Longrightarrow> rinv P m) \<Longrightarrow> (\<And>y. x = Some y \<Longrightarrow> rinv P (f y)) \<Longrightarrow> rinv P (case x of None \<Rightarrow> m | Some y \<Rightarrow> f y)"
  by (cases x) auto

lemma rinv_sum [rinv_intros]:
  "(\<And>y. x = Inl y \<Longrightarrow> rinv P (f y)) \<Longrightarrow> (\<And>y. x = Inr y \<Longrightarrow> rinv P (g y)) \<Longrightarrow> rinv P (case x of Inl y \<Rightarrow> f y | Inr y \<Rightarrow> g y)"
  by (cases x) auto

lemma rinv_prod [rinv_intros]: "(\<And>a b. x = (a, b) \<Longrightarrow> rinv P (f a b)) \<Longrightarrow> rinv P (case x of (a, b) \<Rightarrow> f a b)"
  by (cases x) auto

lemma rinvI: "(\<And>s x s'. P s \<Longrightarrow> m s = Some (Inr (x, s')) \<Longrightarrow> P s') \<Longrightarrow> rinv P m"
  unfolding rinv_def by blast

lemma rbind_mono [partial_function_mono]:
  fixes B :: "('x \<Rightarrow> 'y option) \<Rightarrow> ('s, 'a) run" and C :: "'a \<Rightarrow> ('x \<Rightarrow> 'y option) \<Rightarrow> ('s, 'b) run"
  assumes "\<And>s. mono_option (\<lambda>f. B f s)" "\<And>y s. mono_option (\<lambda>f. C y f s)"
  shows "mono_option (\<lambda>f. rbind (B f) (\<lambda>y. C y f) s)"
proof (rule monotoneI)
  fix f g :: "'x \<Rightarrow> 'y option" assume fg: "fun_ord option_ord f g"
  have b: "option_ord (B f s) (B g s)" and c: "option_ord (C y f s) (C y g s)" for y s
    using assms fg by (simp_all add: monotone_on_def)
  show "option_ord (rbind (B f) (\<lambda>y. C y f) s) (rbind (B g) (\<lambda>y. C y g) s)"
  proof (cases "B f s")
    case (Some r)
    then have "B g s = Some r" using b [of s] by (simp add: flat_ord_def)
    with Some c show ?thesis by (cases r) (auto simp: rbind_def flat_ord_def split: prod.split)
  qed (simp add: rbind_def flat_ord_def)
qed

end
