(* ===== verification/Chunk_Proto.thy ===== *)
theory Chunk_Proto
  imports Chunk_Fs Run_Monad
begin

text \<open>
  The wire format of the chunk daemon (\<^verbatim>\<open>include/chunk_msg.h\<close>) and the signature of requests
  (\<^verbatim>\<open>lib/chunksrv.c\<close>). HMAC-SHA1 in base64 comes from libraries and is the parameter \<open>hmac\<close>: key, data,
  and the text it yields.
\<close>

unbundle bit_operations_syntax

section \<open>Constants\<close>

definition CHUNKD_MAGIC :: bytes where "CHUNKD_MAGIC = ascii ''CHUNKDv1''"
definition CHD_USER_SZ :: nat where [cfg_simps]: "CHD_USER_SZ = 64"
definition CHD_SIG_SZ :: nat where [cfg_simps]: "CHD_SIG_SZ = 64"
definition CHUNK_MAX_GETPART :: nat where [cfg_simps]: "CHUNK_MAX_GETPART = 4"
definition CHUNKSRV_REQ_SZ :: nat where [cfg_simps]: "CHUNKSRV_REQ_SZ = 88"     \<comment> \<open>\<^verbatim>\<open>sizeof(struct chunksrv_req)\<close>\<close>
definition GETPART_SZ :: nat where [cfg_simps]: "GETPART_SZ = 8"    \<comment> \<open>\<^verbatim>\<open>sizeof(struct chunksrv_req_getpart)\<close>\<close>

definition CHO_NOP :: u8 where [cfg_simps]: "CHO_NOP = 0"
definition CHO_GET :: u8 where [cfg_simps]: "CHO_GET = 1"
definition CHO_GET_META :: u8 where [cfg_simps]: "CHO_GET_META = 2"
definition CHO_PUT :: u8 where [cfg_simps]: "CHO_PUT = 3"
definition CHO_DEL :: u8 where [cfg_simps]: "CHO_DEL = 4"
definition CHO_LIST :: u8 where [cfg_simps]: "CHO_LIST = 5"
definition CHO_LOGIN :: u8 where [cfg_simps]: "CHO_LOGIN = 6"
definition CHO_TABLE_OPEN :: u8 where [cfg_simps]: "CHO_TABLE_OPEN = 7"
definition CHO_CHECK_START :: u8 where [cfg_simps]: "CHO_CHECK_START = 8"
definition CHO_CHECK_STATUS :: u8 where [cfg_simps]: "CHO_CHECK_STATUS = 9"
definition CHO_START_TLS :: u8 where [cfg_simps]: "CHO_START_TLS = 10"
definition CHO_CP :: u8 where [cfg_simps]: "CHO_CP = 11"
definition CHO_GET_PART :: u8 where [cfg_simps]: "CHO_GET_PART = 12"

definition CHF_SYNC :: u8 where [cfg_simps]: "CHF_SYNC = 1"
definition CHF_TBL_CREAT :: u8 where [cfg_simps]: "CHF_TBL_CREAT = 2"
definition CHF_TBL_EXCL :: u8 where [cfg_simps]: "CHF_TBL_EXCL = 4"
definition CHF_GET_PART_LAST :: u8 where [cfg_simps]: "CHF_GET_PART_LAST = 8"

fun errcode_num :: "chunk_errcode \<Rightarrow> u8" where
  "errcode_num che_Success = 0"
| "errcode_num che_AccessDenied = 1"
| "errcode_num che_InternalError = 2"
| "errcode_num che_InvalidArgument = 3"
| "errcode_num che_InvalidURI = 4"
| "errcode_num che_NoSuchKey = 5"
| "errcode_num che_SignatureDoesNotMatch = 6"
| "errcode_num che_InvalidKey = 7"
| "errcode_num che_InvalidTable = 8"
| "errcode_num che_Busy = 9"
| "errcode_num che_KeyExists = 10"
| "errcode_num che_InvalidSeek = 11"

lemma errcode_num_inject: "errcode_num a = errcode_num b \<Longrightarrow> a = b"
  by (cases a; cases b) simp_all

section \<open>Requests and responses\<close>

record chunksrv_req =
  rq_magic :: bytes
  rq_op :: u8
  rq_flags :: u8
  rq_key_len :: u16
  rq_nonce :: u32
  rq_data_len :: u64
  rq_sig :: bytes

definition req_bytes :: "chunksrv_req \<Rightarrow> bytes" where
  "req_bytes r = rq_magic r @ [rq_op r, rq_flags r] @ le_bytes 2 (rq_key_len r) @ le_bytes 4 (rq_nonce r) @
     le_bytes 8 (rq_data_len r) @ rq_sig r"

definition req_of :: "bytes \<Rightarrow> chunksrv_req" where
  "req_of b = \<lparr>rq_magic = take 8 b, rq_op = b ! 8, rq_flags = b ! 9, rq_key_len = of_le_bytes (take 2 (drop 10 b)),
     rq_nonce = of_le_bytes (take 4 (drop 12 b)), rq_data_len = of_le_bytes (take 8 (drop 16 b)), rq_sig = take CHD_SIG_SZ (drop 24 b)\<rparr>"

definition req_wf :: "chunksrv_req \<Rightarrow> bool" where
  "req_wf r \<longleftrightarrow> length (rq_magic r) = 8 \<and> length (rq_sig r) = CHD_SIG_SZ"

lemma length_req_bytes: "req_wf r \<Longrightarrow> length (req_bytes r) = CHUNKSRV_REQ_SZ"
  by (simp add: req_wf_def req_bytes_def cfg_simps)

lemma req_of_bytes: "req_wf r \<Longrightarrow> req_of (req_bytes r) = r"
  by (cases r) (simp add: req_wf_def req_of_def req_bytes_def cfg_simps nth_append)

record chunksrv_resp =
  rs_magic :: bytes
  rs_resp_code :: u8
  rs_flags :: u8
  rs_nonce :: u32
  rs_data_len :: u64
  rs_hash :: bytes

definition resp_bytes :: "chunksrv_resp \<Rightarrow> bytes" where
  "resp_bytes r = rs_magic r @ [rs_resp_code r, rs_flags r, 0, 0] @ le_bytes 4 (rs_nonce r) @ le_bytes 8 (rs_data_len r) @
     rs_hash r @ [0, 0, 0, 0]"

text \<open>\<^verbatim>\<open>struct chunksrv_resp_get\<close>.\<close>

definition resp_get_bytes :: "chunksrv_resp \<Rightarrow> u64 \<Rightarrow> bytes" where
  "resp_get_bytes r mtime = resp_bytes r @ le_bytes 8 mtime"

definition resp_of :: "bytes \<Rightarrow> chunksrv_resp" where
  "resp_of b = \<lparr>rs_magic = take 8 b, rs_resp_code = b ! 8, rs_flags = b ! 9, rs_nonce = of_le_bytes (take 4 (drop 12 b)),
     rs_data_len = of_le_bytes (take 8 (drop 16 b)), rs_hash = take CHD_CSUM_SZ (drop 24 b)\<rparr>"

definition resp_wf :: "chunksrv_resp \<Rightarrow> bool" where
  "resp_wf r \<longleftrightarrow> length (rs_magic r) = 8 \<and> length (rs_hash r) = CHD_CSUM_SZ"

lemma length_resp_bytes: "resp_wf r \<Longrightarrow> length (resp_bytes r) = 48"
  by (simp add: resp_wf_def resp_bytes_def cfg_simps)

lemma resp_of_bytes: "resp_wf r \<Longrightarrow> resp_of (resp_bytes r @ x) = r"
  by (cases r) (simp add: resp_wf_def resp_of_def resp_bytes_def cfg_simps nth_append)

definition resp_init_req :: "chunksrv_req \<Rightarrow> chunksrv_resp" where
  "resp_init_req req = \<lparr>rs_magic = rq_magic req, rs_resp_code = 0, rs_flags = 0, rs_nonce = rq_nonce req,
     rs_data_len = rq_data_len req, rs_hash = replicate CHD_CSUM_SZ 0\<rparr>"

lemma resp_init_wf: "req_wf req \<Longrightarrow> resp_wf (resp_init_req req)"
  by (simp add: req_wf_def resp_wf_def resp_init_req_def)

section \<open>Validity and signature\<close>

definition valid_req_hdr :: "chunksrv_req \<Rightarrow> bool" where
  "valid_req_hdr req =
     (if memcmp (rq_magic req) CHUNKD_MAGIC \<noteq> 0 then False
      else
        let len = length (cstr (rq_sig req)) in
        \<not> (len < 1 \<or> len = CHD_SIG_SZ))"

text \<open>The second key of a copy request is not covered.\<close>

definition req_len :: "chunksrv_req \<Rightarrow> nat" where
  "req_len req = CHUNKSRV_REQ_SZ + unat (rq_key_len req) + (if rq_op req = CHO_GET_PART then GETPART_SZ else 0)"

text \<open>\<open>mem\<close>: the memory from the request on.\<close>

definition chreq_sign :: "(bytes \<Rightarrow> bytes \<Rightarrow> bytes) \<Rightarrow> chunksrv_req \<Rightarrow> bytes \<Rightarrow> bytes \<Rightarrow> bytes" where
  "chreq_sign hmac req mem key = hmac key (take (req_len req) mem)"

definition authcheck :: "(bytes \<Rightarrow> bytes \<Rightarrow> bytes) \<Rightarrow> chunksrv_req \<Rightarrow> bytes \<Rightarrow> bytes \<Rightarrow> bytes \<Rightarrow> bool" where
  "authcheck hmac req gpr key secret_key \<longleftrightarrow>
     (let tmpreq = req\<lparr>rq_sig := replicate CHD_SIG_SZ 0\<rparr>
      in strcmp (cstr (rq_sig req)) (chreq_sign hmac tmpreq (req_bytes tmpreq @ key @ gpr) secret_key) = 0)"

end
