(* ===== verification/Chunk_Table.thy ===== *)
theory Chunk_Table
  imports Chunk_Fs
begin

text \<open>
  The tables of the chunk daemon (\<^verbatim>\<open>fs_table_open\<close> of \<^verbatim>\<open>chunkd/be-fs.c\<close>): a database maps table names to
  numbers, objects lie in a directory per number. Tokyo Cabinet is not part of the repository: its
  operations are the record \<open>'d tcdb\<close>, what its manual says of them is the locale \<open>tc\<close>.
\<close>

section \<open>Interface\<close>

record 'd tcdb =
  tc_get :: "bytes \<Rightarrow> 'd \<Rightarrow> bytes option \<times> 'd"
  tc_put :: "bytes \<Rightarrow> bytes \<Rightarrow> 'd \<Rightarrow> bool \<times> 'd"
  tc_addint :: "bytes \<Rightarrow> int \<Rightarrow> 'd \<Rightarrow> int \<times> 'd"

definition INT_MIN :: int where "INT_MIN = - (2 ^ 31)"

text \<open>A record as the integer \<^verbatim>\<open>tchdbaddint\<close> keeps in it.\<close>

definition int_rec :: "bytes option \<Rightarrow> int" where
  "int_rec r = (case r of None \<Rightarrow> 0 | Some b \<Rightarrow> sint (of_le_bytes b :: u32))"

locale tc =
  fixes T :: "'d tcdb" and view :: "'d \<Rightarrow> bytes \<rightharpoonup> bytes"
  assumes get: "tc_get T k d = (r, d') \<Longrightarrow> view d' = view d \<and> r = view d k"
    and put: "tc_put T k v d = (ok, d') \<Longrightarrow> view d' = (if ok then (view d)(k \<mapsto> v) else view d)"
    and addint: "tc_addint T k m d = (n, d') \<Longrightarrow>
      (if n = INT_MIN then view d' = view d
       else n = int_rec (view d k) + m \<and> - (2 ^ 31) \<le> n \<and> n < 2 ^ 31 \<and> view d' = (view d)(k \<mapsto> le_bytes 4 (word_of_int n :: u32)))"

section \<open>Opening a table\<close>

definition MDB_TABLE_ID :: bytes where "MDB_TABLE_ID = ascii ''__chunkd_table_id''"

text \<open>The key of the counter: the string with its terminating NUL.\<close>

definition counter_key :: bytes where "counter_key = MDB_TABLE_ID @ [0]"

definition table_name_ok :: "bytes \<Rightarrow> bool" where
  "table_name_ok kbuf \<longleftrightarrow> \<not> (length kbuf < 1 \<or> length kbuf > CHD_KEY_SZ \<or>
     (length kbuf \<ge> length MDB_TABLE_ID \<and> memcmp (take (length MDB_TABLE_ID) kbuf) MDB_TABLE_ID = 0))"

text \<open>The result is the error code (\<^verbatim>\<open>che_Success\<close> for \<^verbatim>\<open>true\<close>) and what is in \<^verbatim>\<open>*table_id\<close> afterwards.\<close>

definition fs_table_open ::
    "'d tcdb \<Rightarrow> cenv \<Rightarrow> bytes \<Rightarrow> bool \<Rightarrow> bool \<Rightarrow> u32 \<Rightarrow> 'd \<Rightarrow> fsys \<Rightarrow> chunk_errcode \<times> u32 \<times> 'd \<times> fsys" where
  "fs_table_open T E kbuf tbl_creat excl_creat table_id d fs =
     (if \<not> tbl_creat \<and> excl_creat then (che_InvalidArgument, table_id, d, fs)
      else if \<not> table_name_ok kbuf then (che_InvalidArgument, table_id, d, fs)
      else
        case tc_get T kbuf d of
          (Some val_p, d) \<Rightarrow>
            if tbl_creat \<and> excl_creat then (che_InvalidArgument, table_id, d, fs)
            else (che_Success, of_le_bytes (take 4 val_p), d, fs)
        | (None, d) \<Rightarrow>
            if \<not> tbl_creat then (che_InvalidArgument, table_id, d, fs)
            else
              case tc_addint T counter_key 1 d of
                (next_num, d) \<Rightarrow>
                  if next_num = INT_MIN then (che_InternalError, table_id, d, fs)
                  else
                    let table_id = word_of_int next_num in
                    case fs_malloc fs of
                      (ok, fs) \<Rightarrow>
                        if \<not> ok then (che_InternalError, table_id, d, fs)
                        else
                          case sys_mkdir (table_path E table_id) fs of
                            (r, fs) \<Rightarrow>
                              if \<exists>e. r = Inl e \<and> e \<noteq> EEXIST then (che_InternalError, table_id, d, fs)
                              else
                                case tc_put T kbuf (le_bytes 4 table_id) d of
                                  (ok, d) \<Rightarrow> (if ok then che_Success else che_InternalError, table_id, d, fs))"

section \<open>Table numbers\<close>

text \<open>Names have numbers from 1 up to the counter, and no two names share one.\<close>

definition tbl_inv :: "(bytes \<rightharpoonup> bytes) \<Rightarrow> bool" where
  "tbl_inv v \<longleftrightarrow> 0 \<le> int_rec (v counter_key) \<and>
     (\<forall>k b. v k = Some b \<and> k \<noteq> counter_key \<longrightarrow> (\<exists>i :: u32. b = le_bytes 4 i \<and> 0 < sint i \<and> sint i \<le> int_rec (v counter_key))) \<and>
     (\<forall>k k' b. v k = Some b \<and> v k' = Some b \<and> k \<noteq> counter_key \<and> k' \<noteq> counter_key \<longrightarrow> k = k')"

lemma name_not_counter: "table_name_ok k \<Longrightarrow> k \<noteq> counter_key"
  by (auto simp: table_name_ok_def counter_key_def)

lemma sint_in_range: "- (2 ^ 31) \<le> n \<Longrightarrow> n < 2 ^ 31 \<Longrightarrow> sint (word_of_int n :: u32) = n"
  by (simp add: sint_sbintrunc' signed_take_bit_int_eq_self)

lemma int_rec_le: "- (2 ^ 31) \<le> n \<Longrightarrow> n < 2 ^ 31 \<Longrightarrow> int_rec (Some (le_bytes 4 (word_of_int n :: u32))) = n"
  by (simp add: int_rec_def sint_in_range)

lemma le_bytes_inject: "le_bytes 4 (a :: u32) = le_bytes 4 b \<Longrightarrow> a = b"
  by (metis of_le_bytes_u32)

text \<open>The counter moves on, and a new name gets its new value.\<close>

lemma tbl_inv_count:
  assumes "tbl_inv v" "n = int_rec (v counter_key) + 1" "n < 2 ^ 31"
  shows "tbl_inv (v(counter_key \<mapsto> le_bytes 4 (word_of_int n :: u32)))"
proof -
  have "0 \<le> int_rec (v counter_key)" using assms(1) by (simp add: tbl_inv_def)
  then have n: "int_rec (Some (le_bytes 4 (word_of_int n :: u32))) = n" using assms(2,3) by (intro int_rec_le) simp_all
  show ?thesis using assms(1,2) unfolding tbl_inv_def fun_upd_same n by (fastforce split: if_splits)
qed

lemma tbl_inv_new:
  assumes "tbl_inv v" "n = int_rec (v counter_key) + 1" "n < 2 ^ 31" "k \<noteq> counter_key"
  shows "tbl_inv (v(counter_key \<mapsto> le_bytes 4 (word_of_int n :: u32), k \<mapsto> le_bytes 4 (word_of_int n :: u32)))"
proof -
  have c: "0 \<le> int_rec (v counter_key)" using assms(1) by (simp add: tbl_inv_def)
  then have r: "- (2 ^ 31) \<le> n" using assms(2) by simp
  note n = int_rec_le [OF r assms(3)] sint_in_range [OF r assms(3)]
  have old: "b \<noteq> le_bytes 4 (word_of_int n :: u32)" if kb: "v k' = Some b" "k' \<noteq> counter_key" for k' b
  proof
    assume "b = le_bytes 4 (word_of_int n :: u32)"
    then obtain i :: u32 where "le_bytes 4 (word_of_int n :: u32) = le_bytes 4 i" "sint i \<le> int_rec (v counter_key)"
      using assms(1) kb unfolding tbl_inv_def by blast
    then show False using le_bytes_inject n(2) assms(2) by fastforce
  qed
  show ?thesis
    unfolding tbl_inv_def
  proof (intro conjI allI impI)
    fix k' b assume a: "(v(counter_key \<mapsto> le_bytes 4 (word_of_int n :: u32), k \<mapsto> le_bytes 4 (word_of_int n :: u32))) k' = Some b \<and> k' \<noteq> counter_key"
    show "\<exists>i :: u32. b = le_bytes 4 i \<and> 0 < sint i \<and>
        sint i \<le> int_rec ((v(counter_key \<mapsto> le_bytes 4 (word_of_int n :: u32), k \<mapsto> le_bytes 4 (word_of_int n :: u32))) counter_key)"
    proof (cases "k' = k")
      case True
      then show ?thesis using a assms(2,4) c n by (intro exI [of _ "word_of_int n"]) auto
    next
      case False
      then have "v k' = Some b" using a by (auto split: if_splits)
      then obtain i :: u32 where "b = le_bytes 4 i" "0 < sint i" "sint i \<le> int_rec (v counter_key)"
        using assms(1) a unfolding tbl_inv_def by blast
      then show ?thesis using assms(2,4) n by (intro exI [of _ i]) auto
    qed
  next
    fix k1 k2 b
    assume a: "(v(counter_key \<mapsto> le_bytes 4 (word_of_int n :: u32), k \<mapsto> le_bytes 4 (word_of_int n :: u32))) k1 = Some b \<and>
        (v(counter_key \<mapsto> le_bytes 4 (word_of_int n :: u32), k \<mapsto> le_bytes 4 (word_of_int n :: u32))) k2 = Some b \<and>
        k1 \<noteq> counter_key \<and> k2 \<noteq> counter_key"
    have "v k1 = Some b \<Longrightarrow> v k2 = Some b \<Longrightarrow> k1 \<noteq> counter_key \<Longrightarrow> k2 \<noteq> counter_key \<Longrightarrow> k1 = k2"
      using assms(1) unfolding tbl_inv_def by blast
    then show "k1 = k2" using a old [of k1 b] old [of k2 b] by (auto split: if_splits)
  next
    show "0 \<le> int_rec ((v(counter_key \<mapsto> le_bytes 4 (word_of_int n :: u32), k \<mapsto> le_bytes 4 (word_of_int n :: u32))) counter_key)"
      using assms(2,4) c n(1) by simp
  qed
qed


context tc
begin

lemma table_open_inv:
  assumes inv: "tbl_inv (view d)" and op: "fs_table_open T E k creat excl tid d fs = (err, tid', d', fs')"
  shows "tbl_inv (view d')" "\<And>k' b. view d k' = Some b \<Longrightarrow> k' \<noteq> counter_key \<Longrightarrow> view d' k' = Some b"
    "err = che_Success \<Longrightarrow> table_name_ok k \<and> view d' k = Some (le_bytes 4 tid') \<and> 0 < sint tid'"
    "err \<noteq> che_Success \<Longrightarrow> k' \<noteq> counter_key \<Longrightarrow> view d' k' = view d k'"
proof -
  have "tbl_inv (view d') \<and> (\<forall>k' b. view d k' = Some b \<and> k' \<noteq> counter_key \<longrightarrow> view d' k' = Some b) \<and>
      (err = che_Success \<longrightarrow> table_name_ok k \<and> view d' k = Some (le_bytes 4 tid') \<and> 0 < sint tid') \<and>
      (err \<noteq> che_Success \<longrightarrow> (\<forall>k'. k' \<noteq> counter_key \<longrightarrow> view d' k' = view d k'))"
  proof (cases "(\<not> creat \<and> excl) \<or> \<not> table_name_ok k")
    case True
    then show ?thesis using op inv by (auto simp: fs_table_open_def split: if_splits)
  next
    case False
    note kc = name_not_counter [of k]
    obtain r d1 where g: "tc_get T k d = (r, d1)" by (cases "tc_get T k d")
    note v1 = get [OF g]
    show ?thesis
    proof (cases r)
      case (Some b)
      then have kb: "view d k = Some b" "view d1 = view d" using v1 by simp_all
      then obtain i :: u32 where "b = le_bytes 4 i" "0 < sint i" using inv kc False unfolding tbl_inv_def by auto
      then show ?thesis using op inv kb g Some False by (auto simp: fs_table_open_def split: if_splits)
    next
      case None
      then have v1: "view d k = None" "view d1 = view d" using v1 by simp_all
      show ?thesis
      proof (cases creat)
        case False
        then show ?thesis using op inv v1 g None by (auto simp: fs_table_open_def split: if_splits)
      next
        case True
        obtain n d2 where a: "tc_addint T counter_key 1 d1 = (n, d2)" by (cases "tc_addint T counter_key 1 d1")
        note v2 = addint [OF a]
        show ?thesis
        proof (cases "n = INT_MIN")
          case True
          then show ?thesis using op inv v1 v2 g a None False \<open>creat\<close> by (auto simp: fs_table_open_def split: if_splits)
        next
          case ok: False
          then have n: "n = int_rec (view d counter_key) + 1" "n < 2 ^ 31"
            and w2: "view d2 = (view d)(counter_key \<mapsto> le_bytes 4 (word_of_int n :: u32))" using v2 v1 by simp_all
          have c: "0 \<le> int_rec (view d counter_key)" using inv by (simp add: tbl_inv_def)
          have pos: "0 < sint (word_of_int n :: u32)" using n c sint_in_range [of n] by simp
          obtain b fs1 where m: "fs_malloc fs = (b, fs1)" by (cases "fs_malloc fs")
          obtain q fs2 where mk: "sys_mkdir (table_path E (word_of_int n)) fs1 = (q, fs2)"
            by (cases "sys_mkdir (table_path E (word_of_int n)) fs1")
          obtain p d3 where pt: "tc_put T k (le_bytes 4 (word_of_int n :: u32)) d2 = (p, d3)"
            by (cases "tc_put T k (le_bytes 4 (word_of_int n :: u32)) d2")
          have v3: "view d3 = (if p then (view d2)(k \<mapsto> le_bytes 4 (word_of_int n :: u32)) else view d2)" using put [OF pt] .
          have R: "(err, tid', d', fs') = (if \<not> b then (che_InternalError, word_of_int n, d2, fs1)
              else if \<exists>e. q = Inl e \<and> e \<noteq> EEXIST then (che_InternalError, word_of_int n, d2, fs2)
              else (if p then che_Success else che_InternalError, word_of_int n, d3, fs2))"
            using op False True ok g a m mk pt None by (cases b; cases "\<exists>e. q = Inl e \<and> e \<noteq> EEXIST") (auto simp: fs_table_open_def Let_def)
          have kk: "k \<noteq> counter_key" "table_name_ok k" "view d k = None" using kc False v1 None by auto
          note i2 = tbl_inv_count [OF inv n] and i3 = tbl_inv_new [OF inv n kk(1)]
          show ?thesis using R i2 i3 pos kk v3 w2 by (auto split: if_splits)
        qed
      qed
    qed
  qed
  then show "tbl_inv (view d')" "\<And>k' b. view d k' = Some b \<Longrightarrow> k' \<noteq> counter_key \<Longrightarrow> view d' k' = Some b"
    "err = che_Success \<Longrightarrow> table_name_ok k \<and> view d' k = Some (le_bytes 4 tid') \<and> 0 < sint tid'"
    "err \<noteq> che_Success \<Longrightarrow> k' \<noteq> counter_key \<Longrightarrow> view d' k' = view d k'"
    by blast+
qed

end

section \<open>A reference database\<close>

text \<open>A map with a script of failing calls.\<close>

definition fail :: "(bytes \<rightharpoonup> bytes) \<times> bool list \<Rightarrow> bool \<times> (bytes \<rightharpoonup> bytes) \<times> bool list" where
  "fail d = (case snd d of [] \<Rightarrow> (False, d) | b # bs \<Rightarrow> (b, fst d, bs))"

definition mtc :: "((bytes \<rightharpoonup> bytes) \<times> bool list) tcdb" where
  "mtc = \<lparr>tc_get = (\<lambda>k d. (fst d k, d)),
     tc_put = (\<lambda>k v d. case fail d of (b, d) \<Rightarrow> if b then (False, d) else (True, (fst d)(k \<mapsto> v), snd d)),
     tc_addint = (\<lambda>k m d. case fail d of (b, d) \<Rightarrow>
        let n = int_rec (fst d k) + m in
        if b \<or> n \<le> INT_MIN \<or> n \<ge> 2 ^ 31 then (INT_MIN, d) else (n, (fst d)(k \<mapsto> le_bytes 4 (word_of_int n :: u32)), snd d))\<rparr>"

interpretation mt: tc mtc fst
  by unfold_locales (auto simp: mtc_def fail_def Let_def INT_MIN_def split: list.splits if_splits)

text \<open>
  C35: table numbers. Opening or creating tables, with any failures of the database, memory or directories on
  the way, keeps names and numbers in a one-to-one relation with numbers above 0; a name keeps its number for
  ever, success means that the name has the returned number, and an error leaves every name as it was.
\<close>

theorem table_numbers:
  assumes "tc T view" "tbl_inv (view d)" "fs_table_open T E k creat excl tid d fs = (err, tid', d', fs')"
  shows "tbl_inv (view d') \<and> (\<forall>k' b. view d k' = Some b \<longrightarrow> k' \<noteq> counter_key \<longrightarrow> view d' k' = Some b) \<and>
    (if err = che_Success then view d' k = Some (le_bytes 4 tid') \<and> tid' \<noteq> 0
     else (\<forall>k'. k' \<noteq> counter_key \<longrightarrow> view d' k' = view d k'))"
proof -
  note t = tc.table_open_inv [OF assms]
  have "tid' \<noteq> 0" if "0 < sint tid'" using that by auto
  with t show ?thesis by auto
qed

theorem table_numbers_witness:
  "let d = (Map.empty, []); fs = \<lparr>fy_dirs = [], fy_names = Map.empty, fy_files = (\<lambda>_. []), fy_mtime = (\<lambda>_. 0), fy_fds = Map.empty,
         fy_next = 0, fy_script = [], fy_mem = []\<rparr>;
       E = \<lparr>ce_sha1 = (\<lambda>b. b), ce_sha256 = (\<lambda>b. b), ce_vol = []\<rparr> in
   case fs_table_open mtc E [116] True False 0 d fs of
     (err, tid, d', fs') \<Rightarrow> err = che_Success \<and> tid = 1 \<and> tbl_inv (fst d')"
proof -
  define fs where "fs = \<lparr>fy_dirs = [], fy_names = Map.empty, fy_files = (\<lambda>_. []), fy_mtime = (\<lambda>_. 0), fy_fds = Map.empty,
         fy_next = 0, fy_script = [], fy_mem = []\<rparr>"
  define E where "E = \<lparr>ce_sha1 = (\<lambda>b. b), ce_sha256 = (\<lambda>b. b), ce_vol = []\<rparr>"
  define d where "d = (Map.empty :: bytes \<rightharpoonup> bytes, [] :: bool list)"
  have r: "\<exists>d' fs'. fs_table_open mtc E [116] True False 0 d fs = (che_Success, 1, d', fs')"
    by (simp add: fs_table_open_def table_name_ok_def MDB_TABLE_ID_def CHD_KEY_SZ_def mtc_def fail_def int_rec_def INT_MIN_def
        d_def fs_def fs_malloc_def sys_mkdir_def outcome_def)
  then obtain d' fs' where r: "fs_table_open mtc E [116] True False 0 d fs = (che_Success, 1, d', fs')" by blast
  have "tbl_inv (fst d)" by (simp add: d_def tbl_inv_def int_rec_def)
  from table_numbers [OF mt.tc_axioms this r] r show ?thesis by (simp add: Let_def fs_def E_def d_def)
qed

end
