(* ===== verification/Chunk_Store.thy ===== *)
theory Chunk_Store
  imports Chunk_Fs
begin

text \<open>
  Correctness of the object store: what a finished object file contains, that writing in any pieces
  produces it, that opening and reading give the data back, and that a block that has changed on the
  disk is not returned.
\<close>

section \<open>Blocks and checksums\<close>

definition blk :: "bytes \<Rightarrow> nat \<Rightarrow> bytes" where
  "blk d i = take CHUNK_BLK_SZ (drop (CHUNK_BLK_SZ * i) d)"

definition entry :: "bytes \<Rightarrow> nat \<Rightarrow> bytes" where
  "entry tbl i = take CHD_CSUM_SZ (drop (i * CHD_CSUM_SZ) tbl)"

definition n_blks :: "nat \<Rightarrow> nat" where
  "n_blks n = (n + CHUNK_BLK_SZ - 1) div CHUNK_BLK_SZ"

definition csums :: "cenv \<Rightarrow> bytes \<Rightarrow> bytes \<Rightarrow> nat \<Rightarrow> bool" where
  "csums E d tbl k \<longleftrightarrow> (\<forall>i < k. entry tbl i = ce_sha1 E (blk d i))"

lemma blk_pos [simp]: "0 < CHUNK_BLK_SZ"
  by (simp add: CHUNK_BLK_SZ_def)

lemma ceil_div: "0 < b \<Longrightarrow> (n + b - 1) div b = (if n mod b = 0 then n div b else n div b + 1)" for n b :: nat
proof -
  assume b: "0 < b"
  have n: "n = b * (n div b) + n mod b" by simp
  have r: "n mod b < b" using b by simp
  show ?thesis
  proof (cases "n mod b = 0")
    case True
    with b n have "b * (n div b) \<le> n + b - 1" "n + b - 1 < b * Suc (n div b)"
      unfolding mult_Suc_right by linarith+
    with True show ?thesis by (simp add: div_nat_eqI)
  next
    case False
    with b n r have "b * Suc (n div b) \<le> n + b - 1" "n + b - 1 < b * Suc (Suc (n div b))"
      unfolding mult_Suc_right by linarith+
    with False show ?thesis by (simp add: div_nat_eqI)
  qed
qed

lemma n_blks_eq: "n_blks n = (if n mod CHUNK_BLK_SZ = 0 then n div CHUNK_BLK_SZ else n div CHUNK_BLK_SZ + 1)"
  unfolding n_blks_def by (rule ceil_div) simp

lemma unat_small: "k < 2 ^ LENGTH('a) \<Longrightarrow> unat (word_of_nat k :: 'a::len word) = k"
  by (simp add: unsigned_of_nat take_bit_nat_eq_self)

text \<open>Objects of less than \<open>2 ^ 43\<close> bytes: the number of blocks and the size of the table fit 32 bits.\<close>

lemma blk_count_ok:
  assumes "n < 2 ^ 43"
  shows "fs_blk_count (word_of_nat n) = word_of_nat (n_blks n)" "unat (fs_blk_count (word_of_nat n)) = n_blks n"
    "unat (fs_blk_count (word_of_nat n) * word_of_nat CHD_CSUM_SZ) = n_blks n * CHD_CSUM_SZ"
proof -
  have n: "n < 2 ^ 64" using assms by simp
  let ?w = "word_of_nat n :: u64"
  have u: "unat ?w = n" using n by (simp add: unsigned_of_nat take_bit_nat_eq_self)
  have m: "?w AND word_of_nat (CHUNK_BLK_SZ - 1) = take_bit 16 ?w"
    by (simp add: CHUNK_BLK_SZ_def take_bit_eq_mask mask_eq_exp_minus_1)
  have "unat (take_bit 16 ?w) = n mod CHUNK_BLK_SZ"
    unfolding unsigned_take_bit_eq u by (simp add: take_bit_eq_mod CHUNK_BLK_SZ_def)
  then have z: "take_bit 16 ?w = 0 \<longleftrightarrow> n mod CHUNK_BLK_SZ = 0" by (metis unat_0 unat_inject)
  have dv: "drop_bit CHUNK_BLK_ORDER ?w = word_of_nat (n div CHUNK_BLK_SZ)"
  proof (rule unat_inject)
    show "unat (drop_bit CHUNK_BLK_ORDER ?w) = unat (word_of_nat (n div CHUNK_BLK_SZ) :: u64)"
      unfolding unsigned_drop_bit_eq u using n
      by (simp add: CHUNK_BLK_ORDER_def CHUNK_BLK_SZ_def drop_bit_eq_div unsigned_of_nat take_bit_nat_eq_self)
  qed
  have lt: "n_blks n \<le> 2 ^ 27" using assms unfolding n_blks_eq by (simp add: CHUNK_BLK_SZ_def) linarith
  have e: "fs_blk_count ?w = ucast (word_of_nat (n_blks n) :: u64)"
    unfolding fs_blk_count_def Let_def m dv z n_blks_eq by (simp add: z add.commute)
  show c: "fs_blk_count ?w = word_of_nat (n_blks n)"
  proof (rule unat_inject)
    show "unat (fs_blk_count ?w) = unat (word_of_nat (n_blks n) :: u32)"
      unfolding e using lt by (simp add: unsigned_ucast_eq unsigned_of_nat take_bit_nat_eq_self)
  qed
  show "unat (fs_blk_count ?w) = n_blks n"
    unfolding c using lt by (simp add: unsigned_of_nat take_bit_nat_eq_self)
  show "unat (fs_blk_count ?w * word_of_nat CHD_CSUM_SZ) = n_blks n * CHD_CSUM_SZ"
    unfolding c of_nat_mult [symmetric] by (rule unat_small) (use lt in \<open>simp add: CHD_CSUM_SZ_def\<close>)
qed


lemma tail_ok:
  assumes "n < 2 ^ 43"
  shows "unat (word_of_nat n AND word_of_nat (CHUNK_BLK_SZ - 1) :: u64) = n mod CHUNK_BLK_SZ"
    "unat (word_of_nat n AND NOT (word_of_nat (CHUNK_BLK_SZ - 1)) :: u64) = CHUNK_BLK_SZ * (n div CHUNK_BLK_SZ)"
proof -
  let ?w = "word_of_nat n :: u64"
  have u: "unat ?w = n" using assms by (simp add: unsigned_of_nat take_bit_nat_eq_self)
  have m: "word_of_nat (CHUNK_BLK_SZ - 1) = (Bit_Operations.mask 16 :: u64)"
    by (simp add: CHUNK_BLK_SZ_def mask_eq_exp_minus_1)
  have t: "unat (take_bit 16 ?w) = n mod CHUNK_BLK_SZ"
    unfolding unsigned_take_bit_eq u by (simp add: take_bit_eq_mod CHUNK_BLK_SZ_def)
  then show "unat (?w AND word_of_nat (CHUNK_BLK_SZ - 1)) = n mod CHUNK_BLK_SZ"
    unfolding m by (simp only: take_bit_eq_mask)
  have "?w AND NOT (Bit_Operations.mask 16) = push_bit 16 (drop_bit 16 ?w)"
    by (rule bit_word_eqI) (auto simp: bit_simps)
  also have "drop_bit 16 ?w = word_of_nat (n div CHUNK_BLK_SZ)"
  proof (rule unat_inject)
    show "unat (drop_bit 16 ?w) = unat (word_of_nat (n div CHUNK_BLK_SZ) :: u64)"
      unfolding unsigned_drop_bit_eq u using assms
      by (simp add: CHUNK_BLK_SZ_def drop_bit_eq_div unsigned_of_nat take_bit_nat_eq_self)
  qed
  also have "push_bit 16 (word_of_nat (n div CHUNK_BLK_SZ) :: u64) = word_of_nat (CHUNK_BLK_SZ * (n div CHUNK_BLK_SZ))"
    by (simp add: push_bit_eq_mult CHUNK_BLK_SZ_def mult.commute)
  finally have p: "?w AND NOT (Bit_Operations.mask 16) = word_of_nat (CHUNK_BLK_SZ * (n div CHUNK_BLK_SZ))" .
  have l: "CHUNK_BLK_SZ * (n div CHUNK_BLK_SZ) < 2 ^ LENGTH(64)"
    by (rule le_less_trans [OF times_div_less_eq_dividend]) (use assms in simp)
  show "unat (?w AND NOT (word_of_nat (CHUNK_BLK_SZ - 1))) = CHUNK_BLK_SZ * (n div CHUNK_BLK_SZ)"
    unfolding m p by (rule unat_small [OF l])
qed


lemma blk_append: "Suc i * CHUNK_BLK_SZ \<le> length d \<Longrightarrow> blk (d @ e) i = blk d i"
  by (simp add: blk_def mult.commute [of CHUNK_BLK_SZ])

lemma blk_end: "length d = CHUNK_BLK_SZ * i \<Longrightarrow> length e \<le> CHUNK_BLK_SZ \<Longrightarrow> blk (d @ e) i = e"
  by (simp add: blk_def)

lemma entry_upd_same: "length md = CHD_CSUM_SZ \<Longrightarrow> i * CHD_CSUM_SZ \<le> length tbl \<Longrightarrow>
    entry (take (i * CHD_CSUM_SZ) tbl @ md @ drop (i * CHD_CSUM_SZ + CHD_CSUM_SZ) tbl) i = md"
  by (simp add: entry_def)

lemma entry_upd_other:
  assumes "j < i" "i * CHD_CSUM_SZ \<le> length tbl"
  shows "entry (take (i * CHD_CSUM_SZ) tbl @ rest) j = entry tbl j"
proof -
  have "j * CHD_CSUM_SZ + CHD_CSUM_SZ \<le> i * CHD_CSUM_SZ"
    using mult_le_mono1 [of "Suc j" i CHD_CSUM_SZ] assms(1) by simp
  then have "CHD_CSUM_SZ \<le> i * CHD_CSUM_SZ - j * CHD_CSUM_SZ" "j * CHD_CSUM_SZ \<le> i * CHD_CSUM_SZ" by linarith+
  then show ?thesis
    using assms(2) by (simp add: entry_def drop_take min_absorb1 min_absorb2 del: take_append diff_is_0_eq) (simp add: take_append)
qed

lemma entries_eq:
  assumes "length s = n * CHD_CSUM_SZ" "length t = n * CHD_CSUM_SZ" "\<And>i. i < n \<Longrightarrow> entry s i = entry t i"
  shows "s = t"
  using assms
proof (induction n arbitrary: s t)
  case (Suc n)
  have rest: "entry (drop CHD_CSUM_SZ s) i = entry (drop CHD_CSUM_SZ t) i" if "i < n" for i
    using Suc.prems(3) [of "Suc i"] that by (simp add: entry_def add.commute)
  have "drop CHD_CSUM_SZ s = drop CHD_CSUM_SZ t"
    by (rule Suc.IH) (use Suc.prems(1,2) rest in simp_all)
  moreover have "take CHD_CSUM_SZ s = take CHD_CSUM_SZ t"
    using Suc.prems(3) [of 0] by (simp add: entry_def)
  ultimately have "take CHD_CSUM_SZ s @ drop CHD_CSUM_SZ s = take CHD_CSUM_SZ t @ drop CHD_CSUM_SZ t" by simp
  then show ?case by simp
qed simp

text \<open>The checksum table of a piece of data, and the file of a finished object.\<close>

definition sum_table :: "cenv \<Rightarrow> bytes \<Rightarrow> bytes" where
  "sum_table E d = concat (map (\<lambda>i. ce_sha1 E (blk d i)) [0..<n_blks (length d)])"

definition object_file :: "cenv \<Rightarrow> bytes \<Rightarrow> bytes \<Rightarrow> bytes \<Rightarrow> bytes \<Rightarrow> bytes" where
  "object_file E user key md d =
     hdr_bytes \<lparr>bh_magic = BE_FS_OBJ_MAGIC, bh_key_len = word_of_nat (length key), bh_value_len = word_of_nat (length d),
       bh_n_blk = word_of_nat (n_blks (length d)), bh_hash = md, bh_owner = strncpy user 128\<rparr> @ key @ sum_table E d @ d"

definition sha_len :: "cenv \<Rightarrow> bool" where
  "sha_len E \<longleftrightarrow> (\<forall>b. length (ce_sha1 E b) = CHD_CSUM_SZ)"

lemma length_concat_same: "(\<And>x. x \<in> set xs \<Longrightarrow> length (f x) = k) \<Longrightarrow> length (concat (map f xs)) = length xs * k"
  by (induction xs) auto

lemma entry_concat:
  assumes "\<And>x. x \<in> set xs \<Longrightarrow> length (f x) = CHD_CSUM_SZ" "i < length xs"
  shows "entry (concat (map f xs)) i = f (xs ! i)"
  using assms
proof (induction xs arbitrary: i)
  case (Cons a xs)
  then show ?case
  proof (cases i)
    case 0
    then show ?thesis using Cons.prems(1) [of a] by (simp add: entry_def)
  next
    case (Suc j)
    have "entry (f a @ concat (map f xs)) (Suc j) = entry (concat (map f xs)) j"
      using Cons.prems(1) [of a] by (simp add: entry_def)
    then show ?thesis using Suc Cons.IH [of j] Cons.prems by simp
  qed
qed simp

lemma length_sum_table: "sha_len E \<Longrightarrow> length (sum_table E d) = n_blks (length d) * CHD_CSUM_SZ"
  by (simp add: sum_table_def sha_len_def length_concat_same)

lemma entry_sum_table: "sha_len E \<Longrightarrow> i < n_blks (length d) \<Longrightarrow> entry (sum_table E d) i = ce_sha1 E (blk d i)"
  by (simp add: sum_table_def sha_len_def entry_concat)

lemma csums_complete:
  "sha_len E \<Longrightarrow> csums E d tbl (n_blks (length d)) \<Longrightarrow> length tbl = n_blks (length d) * CHD_CSUM_SZ \<Longrightarrow> tbl = sum_table E d"
  by (rule entries_eq) (auto simp: csums_def entry_sum_table length_sum_table)


section \<open>Writing\<close>

definition val_ofs :: "bytes \<Rightarrow> nat \<Rightarrow> nat" where
  "val_ofs key n = BE_FS_HDR_SZ + length key + n_blks n * CHD_CSUM_SZ"

text \<open>An object of \<open>n\<close> bytes of which \<open>d\<close> has been written.\<close>

definition wr_obj :: "cenv \<Rightarrow> bytes \<Rightarrow> nat \<Rightarrow> bytes \<Rightarrow> nat \<Rightarrow> fs_obj \<Rightarrow> bytes \<Rightarrow> bool" where
  "wr_obj E key n fn fd obj d \<longleftrightarrow>
     fo_key obj = key \<and> fo_size obj = word_of_nat n \<and> fo_n_blk obj = word_of_nat (n_blks n) \<and>
     fo_csum_tbl_sz obj = n_blks n * CHD_CSUM_SZ \<and> length (fo_csum_tbl obj) = n_blks n * CHD_CSUM_SZ \<and>
     fo_out_fd obj = Some fd \<and> fo_out_fn obj = Some fn \<and> fo_written_bytes obj = word_of_nat (length d) \<and>
     fo_checked_bytes obj = length d mod CHUNK_BLK_SZ \<and>
     fo_checksum obj = drop (CHUNK_BLK_SZ * (length d div CHUNK_BLK_SZ)) d \<and>
     fo_csum_idx obj = word_of_nat (length d div CHUNK_BLK_SZ) \<and>
     csums E d (fo_csum_tbl obj) (length d div CHUNK_BLK_SZ)"

definition wr_fs :: "bytes \<Rightarrow> nat \<Rightarrow> (bytes \<rightharpoonup> nat) \<Rightarrow> nat \<Rightarrow> nat \<Rightarrow> fsys \<Rightarrow> bytes \<Rightarrow> bool" where
  "wr_fs key n nm fd ino fs d \<longleftrightarrow>
     fy_fds fs fd = Some (ino, val_ofs key n + length d) \<and> fy_names fs = nm \<and>
     fy_files fs ino = (if d = [] then [] else replicate (val_ofs key n) 0 @ d)"

lemma n_blks_less: "n < 2 ^ 43 \<Longrightarrow> n_blks n < 2 ^ LENGTH(32)"
  by (simp add: n_blks_eq CHUNK_BLK_SZ_def) linarith

text \<open>The end of a block: \<open>x\<close> completes the block that the last bytes of \<open>d\<close> began.\<close>

lemma flush_block:
  assumes sha: "sha_len E" and n: "n < 2 ^ 43" and q: "q < n_blks n"
    and d: "length d = CHUNK_BLK_SZ * q" and x: "length x \<le> CHUNK_BLK_SZ"
    and idx: "fo_csum_idx obj = word_of_nat q" and nb: "fo_n_blk obj = word_of_nat (n_blks n)"
    and tbl: "length (fo_csum_tbl obj) = n_blks n * CHD_CSUM_SZ" and cs: "csums E d (fo_csum_tbl obj) q"
    and ck: "fo_checksum obj = x"
  shows "fo_csum_idx (obj_flush_csum E obj) = word_of_nat (Suc q)" "fo_checked_bytes (obj_flush_csum E obj) = 0"
    "fo_checksum (obj_flush_csum E obj) = []" "length (fo_csum_tbl (obj_flush_csum E obj)) = n_blks n * CHD_CSUM_SZ"
    "csums E (d @ x) (fo_csum_tbl (obj_flush_csum E obj)) (Suc q)"
proof -
  have nb': "unat (word_of_nat (n_blks n) :: u32) = n_blks n" by (rule unat_small [OF n_blks_less [OF n]])
  have q': "unat (word_of_nat q :: u32) = q" by (rule unat_small) (use n_blks_less [OF n] q in linarith)
  have lt: "\<not> fo_csum_idx obj \<ge> fo_n_blk obj"
    unfolding idx nb word_le_nat_alt nb' q' using q by simp
  have sz: "Suc q * CHD_CSUM_SZ \<le> n_blks n * CHD_CSUM_SZ" using q by (intro mult_le_mono1) simp
  show "fo_csum_idx (obj_flush_csum E obj) = word_of_nat (Suc q)" "fo_checked_bytes (obj_flush_csum E obj) = 0"
    "fo_checksum (obj_flush_csum E obj) = []"
    using lt by (simp_all add: obj_flush_csum_def Let_def idx add.commute)
  have t: "fo_csum_tbl (obj_flush_csum E obj) =
      take (q * CHD_CSUM_SZ) (fo_csum_tbl obj) @ ce_sha1 E x @ drop (q * CHD_CSUM_SZ + CHD_CSUM_SZ) (fo_csum_tbl obj)"
    using lt by (simp add: obj_flush_csum_def Let_def idx q' ck)
  have md: "length (ce_sha1 E x) = CHD_CSUM_SZ" using sha by (simp add: sha_len_def)
  show "length (fo_csum_tbl (obj_flush_csum E obj)) = n_blks n * CHD_CSUM_SZ"
    unfolding t using sz md tbl by simp
  show "csums E (d @ x) (fo_csum_tbl (obj_flush_csum E obj)) (Suc q)"
    unfolding csums_def
  proof (intro allI impI)
    fix i assume i: "i < Suc q"
    show "entry (fo_csum_tbl (obj_flush_csum E obj)) i = ce_sha1 E (blk (d @ x) i)"
    proof (cases "i = q")
      case True
      have "q * CHD_CSUM_SZ \<le> length (fo_csum_tbl obj)" using sz tbl q by simp
      with True show ?thesis unfolding t using md d x by (simp add: entry_upd_same blk_end)
    next
      case False
      with i have i: "i < q" by simp
      then have "Suc i * CHUNK_BLK_SZ \<le> length d" unfolding d by (metis Suc_leI mult.commute mult_le_mono2)
      then have "blk (d @ x) i = blk d i" by (rule blk_append)
      moreover have "entry (fo_csum_tbl (obj_flush_csum E obj)) i = entry (fo_csum_tbl obj) i"
        unfolding t using tbl q by (intro entry_upd_other [OF i]) simp
      ultimately show ?thesis using cs i by (simp add: csums_def)
    qed
  qed
qed

lemma csums_append: "csums E d tbl k \<Longrightarrow> k * CHUNK_BLK_SZ \<le> length d \<Longrightarrow> csums E (d @ x) tbl k"
  unfolding csums_def by (metis Suc_leI blk_append le_trans mult_le_mono1)

lemma csums_take: "csums E d tbl k \<Longrightarrow> k * CHUNK_BLK_SZ \<le> j \<Longrightarrow> csums E (take j d) tbl k"
  unfolding csums_def
proof (intro allI impI)
  fix i assume *: "\<forall>i<k. entry tbl i = ce_sha1 E (blk d i)" "k * CHUNK_BLK_SZ \<le> j" "i < k"
  then have "CHUNK_BLK_SZ * i + CHUNK_BLK_SZ \<le> j"
    by (metis Suc_leI add.commute le_trans mult.commute mult_Suc mult_le_mono1)
  then have "blk (take j d) i = blk d i" by (simp add: blk_def drop_take min_absorb1)
  with * show "entry tbl i = ce_sha1 E (blk (take j d) i)" by simp
qed


lemma wr_objD:
  assumes "wr_obj E key n fn fd obj d"
  shows "fo_key obj = key" "fo_size obj = word_of_nat n" "fo_n_blk obj = word_of_nat (n_blks n)"
    "fo_csum_tbl_sz obj = n_blks n * CHD_CSUM_SZ" "length (fo_csum_tbl obj) = n_blks n * CHD_CSUM_SZ"
    "fo_out_fd obj = Some fd" "fo_out_fn obj = Some fn" "fo_written_bytes obj = word_of_nat (length d)"
    "fo_checked_bytes obj = length d mod CHUNK_BLK_SZ" "fo_checksum obj = drop (CHUNK_BLK_SZ * (length d div CHUNK_BLK_SZ)) d"
    "fo_csum_idx obj = word_of_nat (length d div CHUNK_BLK_SZ)" "csums E d (fo_csum_tbl obj) (length d div CHUNK_BLK_SZ)"
  using assms by (simp_all add: wr_obj_def)

text \<open>\<open>obj_flush_csum\<close> only touches the checksum state.\<close>

lemma flush_frame [simp]:
  "fo_key (obj_flush_csum E obj) = fo_key obj" "fo_size (obj_flush_csum E obj) = fo_size obj"
  "fo_n_blk (obj_flush_csum E obj) = fo_n_blk obj" "fo_csum_tbl_sz (obj_flush_csum E obj) = fo_csum_tbl_sz obj"
  "fo_out_fd (obj_flush_csum E obj) = fo_out_fd obj" "fo_out_fn (obj_flush_csum E obj) = fo_out_fn obj"
  "fo_written_bytes (obj_flush_csum E obj) = fo_written_bytes obj"
  by (simp_all add: obj_flush_csum_def Let_def)

text \<open>The part of \<open>d\<close> in completed blocks, and the rest.\<close>

lemma split_blocks:
  obtains f t where "d = f @ t" "length f = CHUNK_BLK_SZ * (length d div CHUNK_BLK_SZ)" "length t = length d mod CHUNK_BLK_SZ"
    "drop (CHUNK_BLK_SZ * (length d div CHUNK_BLK_SZ)) d = t" "take (CHUNK_BLK_SZ * (length d div CHUNK_BLK_SZ)) d = f"
proof -
  let ?k = "CHUNK_BLK_SZ * (length d div CHUNK_BLK_SZ)"
  have "length (take ?k d) = ?k" by (simp add: min_absorb2)
  moreover have "length (drop ?k d) = length d mod CHUNK_BLK_SZ" by (simp add: minus_mult_div_eq_mod)
  ultimately show thesis by (intro that [of "take ?k d" "drop ?k d"]) simp_all
qed

lemma write_step_obj:
  assumes sha: "sha_len E" and n: "n < 2 ^ 43" and wr: "wr_obj E key n fn fd obj d"
    and k: "k \<le> length ptr" "k \<le> CHUNK_BLK_SZ - length d mod CHUNK_BLK_SZ" and room: "length d + k \<le> n_blks n * CHUNK_BLK_SZ"
  shows "wr_obj E key n fn fd (write_step E ptr k obj) (d @ take k ptr)"
proof -
  let ?q = "length d div CHUNK_BLK_SZ" and ?r = "length d mod CHUNK_BLK_SZ"
  note w = wr_objD [OF wr]
  obtain f t where ft: "d = f @ t" "length f = CHUNK_BLK_SZ * ?q" "length t = ?r"
    and t: "drop (CHUNK_BLK_SZ * ?q) d = t" and f: "take (CHUNK_BLK_SZ * ?q) d = f" by (rule split_blocks)
  have len: "length d = CHUNK_BLK_SZ * ?q + ?r" by simp
  define obj1 where "obj1 = obj\<lparr>fo_checksum := fo_checksum obj @ take k ptr,
      fo_written_bytes := fo_written_bytes obj + word_of_nat k, fo_checked_bytes := fo_checked_bytes obj + k\<rparr>"
  have st: "write_step E ptr k obj = (if ?r + k = CHUNK_BLK_SZ then obj_flush_csum E obj1 else obj1)"
    by (simp add: write_step_def Let_def obj1_def w)
  have lk: "length (d @ take k ptr) = length d + k" using k by simp
  show ?thesis
  proof (cases "?r + k = CHUNK_BLK_SZ")
    case False
    have "?r < CHUNK_BLK_SZ" by simp
    with False k have rk: "?r + k < CHUNK_BLK_SZ" by linarith
    have lq: "length d + k = (?r + k) + CHUNK_BLK_SZ * ?q" using len by linarith
    have dv: "(length d + k) div CHUNK_BLK_SZ = ?q" "(length d + k) mod CHUNK_BLK_SZ = ?r + k"
      unfolding lq div_mult_self2 [OF less_imp_neq [OF blk_pos, symmetric]] mod_mult_self2 using rk by (simp_all del: mod_add_left_eq)
    have "csums E (d @ take k ptr) (fo_csum_tbl obj) ?q" by (rule csums_append [OF w(12)]) simp
    then show ?thesis
      unfolding st if_not_P [OF False] wr_obj_def lk dv using w by (simp add: obj1_def)
  next
    case True
    have lq: "length d + k = CHUNK_BLK_SZ * Suc ?q" unfolding mult_Suc_right using True len by linarith
    then have "CHUNK_BLK_SZ * Suc ?q \<le> CHUNK_BLK_SZ * n_blks n" using room by (simp add: mult.commute)
    then have q: "?q < n_blks n" by (simp only: nat_mult_le_cancel1 blk_pos Suc_le_eq)
    have x: "length (t @ take k ptr) = CHUNK_BLK_SZ" using k ft(3) True by simp
    have cs: "csums E f (fo_csum_tbl obj1) ?q"
      using csums_take [OF w(12), of "CHUNK_BLK_SZ * ?q"] f by (simp add: obj1_def mult.commute)
    have o1: "fo_key obj1 = key" "fo_size obj1 = word_of_nat n" "fo_csum_tbl_sz obj1 = n_blks n * CHD_CSUM_SZ"
      "fo_out_fd obj1 = Some fd" "fo_out_fn obj1 = Some fn" "fo_written_bytes obj1 = word_of_nat (length d + k)"
      by (simp_all add: obj1_def w(1,2,4,6,7,8))
    have o2: "fo_csum_idx obj1 = word_of_nat ?q" "fo_n_blk obj1 = word_of_nat (n_blks n)"
      "length (fo_csum_tbl obj1) = n_blks n * CHD_CSUM_SZ" "fo_checksum obj1 = t @ take k ptr"
      by (simp_all add: obj1_def w(3,5,10,11) t)
    note fl = flush_block [OF sha n q ft(2) eq_refl [OF x] o2(1-3) cs o2(4)]
    have app: "f @ t @ take k ptr = d @ take k ptr" using ft(1) by simp
    have dr: "drop (CHUNK_BLK_SZ * Suc ?q) (d @ take k ptr) = []" unfolding lq [symmetric] by simp
    have dv: "(length d + k) div CHUNK_BLK_SZ = Suc ?q" "(length d + k) mod CHUNK_BLK_SZ = 0"
      unfolding lq by simp_all
    show ?thesis
      unfolding st if_P [OF True] wr_obj_def lk dv dr using o1 o2(2) fl [unfolded app] by simp
  qed
qed


text \<open>One \<^verbatim>\<open>write\<close> of the loop.\<close>

lemma sys_write_err: "sys_write fd x fs = (Inl e, fs') \<Longrightarrow> \<exists>sc. fs' = fs\<lparr>fy_script := sc\<rparr>"
  by (cases fs) (auto simp: sys_write_def outcome_def Let_def split: list.splits sum.splits option.splits if_splits)

lemma sys_write_cases:
  assumes "sys_write fd x fs = (Inr k, fs')" "fy_fds fs fd = Some (ino, pos)"
  shows "k \<le> length x" "fy_names fs' = fy_names fs" "fy_mem fs' = fy_mem fs" "fy_dirs fs' = fy_dirs fs" "fy_next fs' = fy_next fs"
    "fy_files fs' = (if k = 0 then fy_files fs else (fy_files fs)(ino := overwrite pos (take k x) (fy_files fs ino)))"
    "fy_fds fs' = (fy_fds fs)(fd \<mapsto> (ino, pos + k))"
    "length (fy_script fs') < length (fy_script fs) \<or> (k = length x \<and> fy_script fs = [] \<and> fy_script fs' = [])"
  using assms
  by (auto simp: sys_write_def outcome_def Let_def limit_def fun_upd_idem split: list.splits sum.splits if_splits)

lemma wr_fs_step:
  assumes wr: "wr_fs key n nm fd ino fs d" and w: "sys_write fd (take m ptr) fs = (Inr k, fs')"
  shows "wr_fs key n nm fd ino fs' (d @ take k ptr)" "k \<le> length ptr" "k \<le> m"
proof -
  have fd: "fy_fds fs fd = Some (ino, val_ofs key n + length d)" using wr by (simp add: wr_fs_def)
  note c = sys_write_cases [OF w fd]
  show k: "k \<le> length ptr" "k \<le> m" using c(1) by simp_all
  have tk: "take k (take m ptr) = take k ptr" using k by (simp add: min_absorb1)
  show "wr_fs key n nm fd ino fs' (d @ take k ptr)"
    using wr k by (auto simp: wr_fs_def c tk overwrite_def)
qed

text \<open>
  The loop returns, whatever the system calls do, as long as the announced blocks are not exceeded;
  a return without error means that all of \<open>ptr\<close> is in the file, in order, after what was there.
\<close>

lemma write_loop_ok:
  assumes "sha_len E" "n < 2 ^ 43" "wr_obj E key n fn fd obj d" "wr_fs key n nm fd ino fs d"
    "length d + length ptr \<le> n_blks n * CHUNK_BLK_SZ"
  shows "\<exists>r obj' fs'. write_loop E fd ptr tot obj fs = Some (r, obj', fs') \<and>
      (fy_script fs = [] \<longrightarrow> r = Inr (tot + length ptr) \<and> fy_script fs' = []) \<and>
      (case r of Inl e \<Rightarrow> fo_out_fn obj' = Some fn \<and> fo_out_fd obj' = Some fd
       | Inr t \<Rightarrow> t = tot + length ptr \<and> wr_obj E key n fn fd obj' (d @ ptr) \<and> wr_fs key n nm fd ino fs' (d @ ptr) \<and>
                  fy_mem fs' = fy_mem fs \<and> fy_dirs fs' = fy_dirs fs \<and> fy_next fs' = fy_next fs)"
  using assms(3-)
proof (induction "length (fy_script fs) + length ptr" arbitrary: ptr tot obj fs d rule: less_induct)
  case less
  show ?case
  proof (cases "ptr = []")
    case True
    with less.prems show ?thesis by (simp add: write_loop.simps)
  next
    case ne: False
    let ?m = "CHUNK_BLK_SZ - fo_checked_bytes obj"
    have ck: "fo_checked_bytes obj = length d mod CHUNK_BLK_SZ" by (rule wr_objD(9) [OF less.prems(1)])
    have m: "0 < ?m" using ck by simp
    obtain r fs1 where w: "sys_write fd (take ?m ptr) fs = (r, fs1)" by (cases "sys_write fd (take ?m ptr) fs")
    have fd: "fy_fds fs fd = Some (ino, val_ofs key n + length d)" using less.prems(2) by (simp add: wr_fs_def)
    show ?thesis
    proof (cases r)
      case (Inl e)
      have "fy_script fs \<noteq> []" using w fd Inl by (auto simp: sys_write_def outcome_def Let_def)
      with ne w Inl wr_objD(6,7) [OF less.prems(1)] show ?thesis by (simp add: write_loop.simps [of E fd ptr])
    next
      case (Inr k)
      note w = w [unfolded Inr]
      note c = sys_write_cases [OF w fd]
      note f = wr_fs_step [OF less.prems(2) w]
      have room: "length d + k \<le> n_blks n * CHUNK_BLK_SZ" using less.prems(3) f(2) by linarith
      have o1: "wr_obj E key n fn fd (write_step E ptr k obj) (d @ take k ptr)"
        by (rule write_step_obj [OF assms(1,2) less.prems(1) f(2) _ room]) (use f(3) ck in simp)
      have k0: "fy_script fs = [] \<Longrightarrow> 0 < k" using c(8) ne m by auto
      have dec: "length (fy_script fs1) + length (drop k ptr) < length (fy_script fs) + length ptr"
        using c(8) k0 f(2) ne by (cases "fy_script fs = []") auto
      have sum: "length (d @ take k ptr) + length (drop k ptr) \<le> n_blks n * CHUNK_BLK_SZ" using less.prems(3) f(2) by simp
      note ih = less.hyps [OF dec o1 f(1) sum, of "tot + k"]
      have app: "(d @ take k ptr) @ drop k ptr = d @ ptr" by simp
      have tot: "tot + k + length (drop k ptr) = tot + length ptr" using f(2) by simp
      have sc: "fy_script fs = [] \<Longrightarrow> fy_script fs1 = []" using c(8) by auto
      have un: "write_loop E fd ptr tot obj fs = write_loop E fd (drop k ptr) (tot + k) (write_step E ptr k obj) fs1"
        using ne w by (simp add: write_loop.simps [of E fd ptr])
      show ?thesis using ih unfolding un app tot c(3,4,5) using sc by metis
    qed
  qed
qed


section \<open>Names\<close>

definition obj_dir :: "cenv \<Rightarrow> u32 \<Rightarrow> bytes \<Rightarrow> bytes" where
  "obj_dir E table_id key = table_path E table_id @ ascii ''/'' @ take PREFIX_LEN (hexstr (ce_sha256 E key))"

definition obj_path :: "cenv \<Rightarrow> u32 \<Rightarrow> bytes \<Rightarrow> bytes" where
  "obj_path E table_id key = obj_dir E table_id key @ ascii ''/'' @ drop PREFIX_LEN (hexstr (ce_sha256 E key))"

text \<open>The part of the file system that holds objects and open files.\<close>

definition core :: "fsys \<Rightarrow> (bytes \<rightharpoonup> nat) \<times> (nat \<Rightarrow> bytes) \<times> (nat \<rightharpoonup> nat \<times> nat) \<times> nat \<times> (nat \<Rightarrow> u64)" where
  "core fs = (fy_names fs, fy_files fs, fy_fds fs, fy_next fs, fy_mtime fs)"

lemma core_upd [simp]: "core (fs\<lparr>fy_script := sc\<rparr>) = core fs" "core (fs\<lparr>fy_mem := m\<rparr>) = core fs" "core (fs\<lparr>fy_dirs := ds\<rparr>) = core fs"
  by (simp_all add: core_def)

lemma coreD: "core fs' = core fs \<Longrightarrow> fy_names fs' = fy_names fs" "core fs' = core fs \<Longrightarrow> fy_files fs' = fy_files fs"
    "core fs' = core fs \<Longrightarrow> fy_fds fs' = fy_fds fs" "core fs' = core fs \<Longrightarrow> fy_next fs' = fy_next fs"
    "core fs' = core fs \<Longrightarrow> fy_mtime fs' = fy_mtime fs"
  by (simp_all add: core_def)

lemma outcome_core: "outcome fs = (r, fs') \<Longrightarrow> core fs' = core fs"
  by (auto simp: outcome_def split: list.splits sum.splits)

lemma malloc_core: "fs_malloc fs = (b, fs') \<Longrightarrow> core fs' = core fs"
  by (auto simp: fs_malloc_def split: prod.splits)

lemma stat_core: "sys_stat fn fs = (r, fs') \<Longrightarrow> core fs' = core fs"
  by (auto simp: sys_stat_def dest!: outcome_core split: prod.splits sum.splits option.splits if_splits)

lemma mkdir_core: "sys_mkdir fn fs = (r, fs') \<Longrightarrow> core fs' = core fs"
  by (auto simp: sys_mkdir_def dest!: outcome_core split: prod.splits sum.splits option.splits if_splits)

lemma pathname_cases:
  assumes "fs_obj_pathname E t key fs = (r, fs')"
  shows "core fs' = core fs" "r = None \<or> r = Some (obj_path E t key)"
proof -
  show "core fs' = core fs"
    using assms by (auto simp: fs_obj_pathname_def Let_def dest!: malloc_core stat_core mkdir_core split: prod.splits sum.splits if_splits)
  show "r = None \<or> r = Some (obj_path E t key)"
    using assms by (auto simp: fs_obj_pathname_def Let_def obj_path_def obj_dir_def split: prod.splits sum.splits if_splits)
qed

lemma pathname_quiet:
  assumes "quiet fs" "t \<noteq> 0" "key \<noteq> []" "fy_names fs (obj_dir E t key) = None"
  shows "\<exists>fs'. fs_obj_pathname E t key fs = (Some (obj_path E t key), fs') \<and> quiet fs'"
  using assms
  by (auto simp: fs_obj_pathname_def Let_def obj_path_def obj_dir_def sys_stat_def sys_mkdir_def)

section \<open>Creating\<close>

lemma fs_obj_new_stepsE:
  assumes "fs_obj_new E t key len fs = (Inr obj, fs')"
  obtains fs1 fs2 fn fs3 fd fs4 p fs5 where "key_valid key" "fs_malloc fs = (True, fs1)" "fs_malloc fs1 = (True, fs2)"
    "fs_obj_pathname E t key fs2 = (Some fn, fs3)" "sys_create fn fs3 = (Inr fd, fs4)"
    "sys_lseek fd (BE_FS_HDR_SZ + length key + unat (fs_blk_count len * word_of_nat CHD_CSUM_SZ)) fs4 = (Inr p, fs5)"
    "fs_malloc fs5 = (True, fs')"
    "obj = fs_obj_zero\<lparr>fo_n_blk := fs_blk_count len,
             fo_csum_tbl := fresh_mem (unat (fs_blk_count len * word_of_nat CHD_CSUM_SZ)),
             fo_csum_tbl_sz := unat (fs_blk_count len * word_of_nat CHD_CSUM_SZ),
             fo_tail_pos := unat (len AND NOT (word_of_nat (CHUNK_BLK_SZ - 1))),
             fo_tail_len := unat (len AND word_of_nat (CHUNK_BLK_SZ - 1)),
             fo_out_fd := Some fd, fo_out_fn := Some fn,
             fo_value_ofs := BE_FS_HDR_SZ + length key + unat (fs_blk_count len * word_of_nat CHD_CSUM_SZ),
             fo_key := key, fo_size := len\<rparr>"
  using assms unfolding fs_obj_new_def Let_def fs_obj_alloc_def
  by (auto split: prod.splits sum.splits option.splits if_splits)

lemma create_core:
  assumes "sys_create fn fs = (Inr fd, fs')"
  shows "fy_names fs fn = None"
    "\<exists>ino. fy_fds fs' fd = Some (ino, 0) \<and> fy_names fs' = (fy_names fs)(fn \<mapsto> ino) \<and> fy_files fs' ino = []"
proof -
  obtain r fs1 where o1: "outcome fs = (r, fs1)" by (cases "outcome fs")
  note c = coreD(1) [OF outcome_core [OF o1]]
  show "fy_names fs fn = None"
    "\<exists>ino. fy_fds fs' fd = Some (ino, 0) \<and> fy_names fs' = (fy_names fs)(fn \<mapsto> ino) \<and> fy_files fs' ino = []"
    using assms by (auto simp: sys_create_def new_fd_def Let_def o1 c split: sum.splits if_splits)
qed

lemma lseek_core:
  assumes "sys_lseek fd pos fs = (Inr p, fs')" "fy_fds fs fd = Some (ino, q)"
  shows "fy_names fs' = fy_names fs" "fy_files fs' = fy_files fs" "fy_fds fs' = (fy_fds fs)(fd \<mapsto> (ino, pos))" "p = pos"
    "fy_next fs' = fy_next fs" "fy_mtime fs' = fy_mtime fs"
proof -
  obtain r fs1 where o1: "outcome fs = (r, fs1)" by (cases "outcome fs")
  note c = coreD [OF outcome_core [OF o1]]
  show "fy_names fs' = fy_names fs" "fy_files fs' = fy_files fs" "fy_fds fs' = (fy_fds fs)(fd \<mapsto> (ino, pos))" "p = pos"
    "fy_next fs' = fy_next fs" "fy_mtime fs' = fy_mtime fs"
    using assms by (auto simp: sys_lseek_def o1 c split: sum.splits)
qed

lemma fs_obj_new_ok:
  assumes new: "fs_obj_new E t key (word_of_nat n) fs = (Inr obj, fs')" and n: "n < 2 ^ 43"
  shows "\<exists>fd ino. wr_obj E key n (obj_path E t key) fd obj [] \<and> wr_fs key n ((fy_names fs)(obj_path E t key \<mapsto> ino)) fd ino fs' []"
    "fy_names fs (obj_path E t key) = None" "key_valid key"
proof -
  note bc = blk_count_ok [OF n]
  from new obtain fs1 fs2 fn fs3 fd fs4 p fs5 where kv: "key_valid key"
    and m1: "fs_malloc fs = (True, fs1)" and m2: "fs_malloc fs1 = (True, fs2)"
    and pn: "fs_obj_pathname E t key fs2 = (Some fn, fs3)" and cr: "sys_create fn fs3 = (Inr fd, fs4)"
    and sk: "sys_lseek fd (BE_FS_HDR_SZ + length key + unat (fs_blk_count (word_of_nat n) * word_of_nat CHD_CSUM_SZ)) fs4 = (Inr p, fs5)"
    and m3: "fs_malloc fs5 = (True, fs')" and obj: "obj = fs_obj_zero\<lparr>fo_n_blk := fs_blk_count (word_of_nat n),
             fo_csum_tbl := fresh_mem (unat (fs_blk_count (word_of_nat n) * word_of_nat CHD_CSUM_SZ)),
             fo_csum_tbl_sz := unat (fs_blk_count (word_of_nat n) * word_of_nat CHD_CSUM_SZ),
             fo_tail_pos := unat (word_of_nat n AND NOT (word_of_nat (CHUNK_BLK_SZ - 1)) :: u64),
             fo_tail_len := unat (word_of_nat n AND word_of_nat (CHUNK_BLK_SZ - 1) :: u64),
             fo_out_fd := Some fd, fo_out_fn := Some fn,
             fo_value_ofs := BE_FS_HDR_SZ + length key + unat (fs_blk_count (word_of_nat n) * word_of_nat CHD_CSUM_SZ),
             fo_key := key, fo_size := word_of_nat n\<rparr>"
    by (rule fs_obj_new_stepsE)
  have fn: "fn = obj_path E t key" and c3: "core fs3 = core fs"
    using pathname_cases [OF pn] malloc_core [OF m1] malloc_core [OF m2] by auto
  obtain ino where c4: "fy_fds fs4 fd = Some (ino, 0)" "fy_names fs4 = (fy_names fs3)(fn \<mapsto> ino)" "fy_files fs4 ino = []"
    using create_core(2) [OF cr] by blast
  note c5 = lseek_core [OF sk c4(1)] and c6 = coreD [OF malloc_core [OF m3]]
  have "wr_fs key n ((fy_names fs)(fn \<mapsto> ino)) fd ino fs' []"
    by (simp add: wr_fs_def c6 c5 c4 bc(3) val_ofs_def coreD(1) [OF c3])
  moreover have "wr_obj E key n fn fd obj []"
    by (simp add: wr_obj_def obj fs_obj_zero_def bc(3) fresh_mem_def csums_def) (rule bc(1))
  ultimately show "\<exists>fd ino. wr_obj E key n (obj_path E t key) fd obj [] \<and> wr_fs key n ((fy_names fs)(obj_path E t key \<mapsto> ino)) fd ino fs' []"
    unfolding fn by blast
  show "fy_names fs (obj_path E t key) = None"
    using create_core(1) [OF cr] coreD(1) [OF c3] fn by simp
  show "key_valid key" by (rule kv)
qed

lemma fs_obj_new_quiet:
  assumes q: "quiet fs" and k: "key_valid key" "t \<noteq> 0" and d: "fy_names fs (obj_dir E t key) = None" "fy_names fs (obj_path E t key) = None"
  shows "\<exists>obj fs'. fs_obj_new E t key len fs = (Inr obj, fs') \<and> quiet fs'"
proof -
  have "key \<noteq> []" using k(1) by (auto simp: key_valid_def)
  then obtain fs1 where p: "fs_obj_pathname E t key fs = (Some (obj_path E t key), fs1)" "quiet fs1"
    using pathname_quiet [OF q k(2) _ d(1)] by blast
  have "fy_names fs1 (obj_path E t key) = None" using coreD(1) [OF pathname_cases(1) [OF p(1)]] d(2) by simp
  then have "\<exists>fd fs2. sys_create (obj_path E t key) fs1 = (Inr fd, fs2) \<and> quiet fs2 \<and> fy_fds fs2 fd \<noteq> None"
    using p(2) by (simp add: sys_create_def new_fd_def Let_def)
  then obtain fd fs2 where c: "sys_create (obj_path E t key) fs1 = (Inr fd, fs2)" "quiet fs2" "fy_fds fs2 fd \<noteq> None" by blast
  have l: "\<exists>fs3. sys_lseek fd pos fs2 = (Inr pos, fs3) \<and> quiet fs3" for pos
    using c(2,3) by (auto simp: sys_lseek_def)
  show ?thesis
    unfolding fs_obj_new_def fs_obj_alloc_def Let_def
    using k(1) q p c l [of "BE_FS_HDR_SZ + length key + unat (fs_blk_count len * word_of_nat CHD_CSUM_SZ)"] by auto
qed


section \<open>Finishing\<close>

text \<open>The data arrives in pieces, each with its \<^verbatim>\<open>fs_obj_write\<close>; an error ends the upload.\<close>

fun write_all :: "cenv \<Rightarrow> fs_obj \<Rightarrow> bytes list \<Rightarrow> fsys \<Rightarrow> ((int + unit) \<times> fs_obj \<times> fsys) option" where
  "write_all E obj [] fs = Some (Inr (), obj, fs)"
| "write_all E obj (p # ps) fs =
     (case fs_obj_write E obj p fs of
        None \<Rightarrow> None
      | Some (Inl e, obj, fs) \<Rightarrow> Some (Inl e, obj, fs)
      | Some (Inr _, obj, fs) \<Rightarrow> write_all E obj ps fs)"

lemma write_all_ok:
  assumes "sha_len E" "n < 2 ^ 43" "wr_obj E key n fn fd obj d" "wr_fs key n nm fd ino fs d"
    "length d + length (concat ps) \<le> n_blks n * CHUNK_BLK_SZ"
  shows "\<exists>r obj' fs'. write_all E obj ps fs = Some (r, obj', fs') \<and>
      (r = Inr () \<longrightarrow> wr_obj E key n fn fd obj' (d @ concat ps) \<and> wr_fs key n nm fd ino fs' (d @ concat ps)) \<and>
      (quiet fs \<longrightarrow> r = Inr () \<and> quiet fs')"
  using assms(3-)
proof (induction ps arbitrary: obj fs d)
  case (Cons p ps)
  have room: "length d + length p \<le> n_blks n * CHUNK_BLK_SZ" using Cons.prems(3) by simp
  obtain r obj1 fs1 where w: "write_loop E fd p 0 obj fs = Some (r, obj1, fs1)"
    and q: "fy_script fs = [] \<longrightarrow> r = Inr (0 + length p) \<and> fy_script fs1 = []"
    and r: "case r of Inl e \<Rightarrow> fo_out_fn obj1 = Some fn \<and> fo_out_fd obj1 = Some fd
       | Inr t \<Rightarrow> t = 0 + length p \<and> wr_obj E key n fn fd obj1 (d @ p) \<and> wr_fs key n nm fd ino fs1 (d @ p) \<and>
                  fy_mem fs1 = fy_mem fs \<and> fy_dirs fs1 = fy_dirs fs \<and> fy_next fs1 = fy_next fs"
    using write_loop_ok [OF assms(1,2) Cons.prems(1,2) room, of 0] by blast
  have w': "fs_obj_write E obj p fs = Some (r, obj1, fs1)"
    using w wr_objD(6) [OF Cons.prems(1)] by (simp add: fs_obj_write_def)
  show ?case
  proof (cases r)
    case (Inl e)
    with w' q show ?thesis by (simp add: quiet_def)
  next
    case (Inr t)
    then have "wr_obj E key n fn fd obj1 (d @ p)" "wr_fs key n nm fd ino fs1 (d @ p)" "fy_mem fs1 = fy_mem fs"
      using r by simp_all
    note ih = Cons.IH [OF this(1,2)] and m = this(3)
    have "length (d @ p) + length (concat ps) \<le> n_blks n * CHUNK_BLK_SZ" using Cons.prems(3) by simp
    note ih = ih [OF this]
    have "quiet fs \<Longrightarrow> quiet fs1" using q m by (simp add: quiet_def)
    with ih w' Inr show ?thesis by auto
  qed
qed simp

text \<open>What \<^verbatim>\<open>fs_obj_write_commit\<close> writes over the space that was kept free.\<close>

lemma length_strncpy [simp]: "length (strncpy u n) = n"
  by (simp add: strncpy_def)

lemma length_hdr_bytes:
  "length (bh_magic h) = 4 \<Longrightarrow> length (bh_hash h) = 20 \<Longrightarrow> length (bh_owner h) = 128 \<Longrightarrow> length (hdr_bytes h) = BE_FS_HDR_SZ"
  by (simp add: hdr_bytes_def BE_FS_HDR_SZ_def)

lemma hdr_of_bytes:
  assumes "length (bh_magic h) = 4" "length (bh_hash h) = 20" "length (bh_owner h) = 128"
  shows "hdr_of (hdr_bytes h @ x) = h"
  using assms by (cases h) (simp add: hdr_of_def hdr_bytes_def)

lemma magic_length [simp]: "length BE_FS_OBJ_MAGIC = 4"
  by (simp add: BE_FS_OBJ_MAGIC_def)

text \<open>The checksum of the last, shorter block is added before the table is written.\<close>

lemma final_table:
  assumes sha: "sha_len E" and n: "n < 2 ^ 43" "n = length d" and wr: "wr_obj E key n fn fd obj d"
  defines "obj1 \<equiv> if fo_checked_bytes obj > 0 then obj_flush_csum E obj else obj"
  shows "fo_csum_tbl obj1 = sum_table E d" "fo_csum_idx obj1 = word_of_nat (n_blks n)"
proof -
  let ?q = "n div CHUNK_BLK_SZ" and ?r = "n mod CHUNK_BLK_SZ"
  note w = wr_objD [OF wr, folded n(2)]
  have "csums E d (fo_csum_tbl obj1) (n_blks n) \<and> length (fo_csum_tbl obj1) = n_blks n * CHD_CSUM_SZ \<and>
      fo_csum_idx obj1 = word_of_nat (n_blks n)"
  proof (cases "?r = 0")
    case True
    then have "obj1 = obj" "n_blks n = ?q" by (simp_all add: obj1_def w(9) n_blks_eq)
    with w show ?thesis by simp
  next
    case False
    then have o1: "obj1 = obj_flush_csum E obj" and nb: "n_blks n = Suc ?q" by (simp_all add: obj1_def w(9) n_blks_eq)
    obtain f t where ft: "d = f @ t" "length f = CHUNK_BLK_SZ * ?q" "length t = ?r"
      and t: "drop (CHUNK_BLK_SZ * ?q) d = t" and f: "take (CHUNK_BLK_SZ * ?q) d = f"
      using split_blocks [of d] n(2) by blast
    have cs: "csums E f (fo_csum_tbl obj) ?q"
      using csums_take [OF w(12), of "CHUNK_BLK_SZ * ?q"] f by (simp add: mult.commute)
    have lt: "length t \<le> CHUNK_BLK_SZ" unfolding ft(3) by simp
    have q: "?q < n_blks n" using nb by simp
    note fl = flush_block [OF sha n(1) q ft(2) lt w(11) w(3) w(5) cs, of]
    show ?thesis unfolding o1 using fl w(10) t ft(1) nb by simp
  qed
  then show "fo_csum_tbl obj1 = sum_table E d" "fo_csum_idx obj1 = word_of_nat (n_blks n)"
    using csums_complete [OF sha, of d "fo_csum_tbl obj1"] n(2) by simp_all
qed


definition head :: "cenv \<Rightarrow> bytes \<Rightarrow> bytes \<Rightarrow> bytes \<Rightarrow> bytes \<Rightarrow> bytes" where
  "head E user key md d =
     hdr_bytes \<lparr>bh_magic = BE_FS_OBJ_MAGIC, bh_key_len = word_of_nat (length key), bh_value_len = word_of_nat (length d),
       bh_n_blk = word_of_nat (n_blks (length d)), bh_hash = md, bh_owner = strncpy user 128\<rparr> @ key @ sum_table E d"

lemma object_file_head: "object_file E user key md d = head E user key md d @ d"
  by (simp add: object_file_def head_def)

lemma length_head: "sha_len E \<Longrightarrow> length md = CHD_CSUM_SZ \<Longrightarrow> length (head E user key md d) = val_ofs key (length d)"
  by (simp add: head_def length_hdr_bytes length_sum_table val_ofs_def CHD_CSUM_SZ_def)

lemma overwrite_head: "length h = k \<Longrightarrow> overwrite 0 h (if d = [] then [] else replicate k 0 @ d) = h @ d"
  by (simp add: overwrite_def)

lemma commit_file_ok:
  assumes sha: "sha_len E" and n: "length d < 2 ^ 43" and md: "length md = CHD_CSUM_SZ"
    and wr: "wr_obj E key (length d) fn fd obj d" and fs: "wr_fs key (length d) nm fd ino fs d"
  shows "fs_obj_write_commit E obj user md sync fs = (True, obj', fs') \<Longrightarrow>
      fy_names fs' = nm \<and> fy_files fs' ino = object_file E user key md d \<and> fo_out_fn obj' = None \<and> fo_out_fd obj' = None"
    and "quiet fs \<Longrightarrow> \<exists>obj' fs'. fs_obj_write_commit E obj user md sync fs = (True, obj', fs') \<and> quiet fs'"
proof -
  note w = wr_objD [OF wr]
  define obj1 where "obj1 = (if fo_checked_bytes obj > 0 then obj_flush_csum E obj else obj)"
  have o1: "fo_csum_tbl obj1 = sum_table E d" "fo_csum_idx obj1 = word_of_nat (n_blks (length d))"
    using final_table [OF sha n refl wr] by (simp_all add: obj1_def)
  have o2: "fo_n_blk obj1 = word_of_nat (n_blks (length d))" "fo_key obj1 = key" "fo_out_fd obj1 = Some fd"
    by (simp_all add: obj1_def w)
  have fd: "fy_fds fs fd = Some (ino, val_ofs key (length d) + length d)" and nm: "fy_names fs = nm"
    and fl: "fy_files fs ino = (if d = [] then [] else replicate (val_ofs key (length d)) 0 @ d)"
    using fs by (simp_all add: wr_fs_def)
  have hd: "hdr_bytes (commit_hdr obj user md) @ fo_key (obj1\<lparr>fo_csum_idx := 0\<rparr>) @ fo_csum_tbl (obj1\<lparr>fo_csum_idx := 0\<rparr>) =
      head E user key md d"
    by (simp add: commit_hdr_def head_def w o1 o2)
  have e: "fs_obj_write_commit E obj user md sync fs =
      (case sys_lseek fd 0 fs of
         (Inl e, fs) \<Rightarrow> (False, obj1\<lparr>fo_csum_idx := 0\<rparr>, fs)
       | (Inr _, fs) \<Rightarrow>
           (case sys_write fd (head E user key md d) fs of
              (Inl e, fs) \<Rightarrow> (False, obj1\<lparr>fo_csum_idx := 0\<rparr>, fs)
            | (Inr wrc, fs) \<Rightarrow>
                if wrc \<noteq> length (head E user key md d) then (False, obj1\<lparr>fo_csum_idx := 0\<rparr>, fs)
                else
                  case (if sync then sys_plain fs else (Inr (), fs)) of
                    (Inl e, fs) \<Rightarrow> (False, obj1\<lparr>fo_csum_idx := 0\<rparr>, fs)
                  | (Inr _, fs) \<Rightarrow>
                      (True, obj1\<lparr>fo_csum_idx := 0, fo_out_fd := None, fo_out_fn := None, fo_written_bytes := 0\<rparr>, snd (sys_close fd fs))))"
    unfolding fs_obj_write_commit_def Let_def obj1_def [symmetric] hd by (simp add: o1 o2 w(2,8))
  show "\<exists>obj' fs'. fs_obj_write_commit E obj user md sync fs = (True, obj', fs') \<and> quiet fs'" if q: "quiet fs"
    unfolding e using q fd by (simp add: sys_lseek_def sys_write_def sys_plain_def sys_close_def Let_def)
  assume c: "fs_obj_write_commit E obj user md sync fs = (True, obj', fs')"
  from c obtain p fs1 k fs2 fs3 where l: "sys_lseek fd 0 fs = (Inr p, fs1)"
    and wt: "sys_write fd (head E user key md d) fs1 = (Inr k, fs2)" and k: "k = length (head E user key md d)"
    and y: "(if sync then sys_plain fs2 else (Inr (), fs2)) = (Inr (), fs3)" and cl: "fs' = snd (sys_close fd fs3)"
    and o': "obj' = obj1\<lparr>fo_csum_idx := 0, fo_out_fd := None, fo_out_fn := None, fo_written_bytes := 0\<rparr>"
    unfolding e by (auto split: prod.splits sum.splits if_splits)
  note c1 = lseek_core [OF l fd]
  have fd1: "fy_fds fs1 fd = Some (ino, 0)" by (simp add: c1)
  note c2 = sys_write_cases [OF wt fd1]
  have c3: "core fs3 = core fs2" using y by (auto simp: sys_plain_def dest!: outcome_core split: prod.splits sum.splits if_splits)
  have c4: "core fs' = core (fs3\<lparr>fy_fds := (fy_fds fs3)(fd := None)\<rparr>)"
    unfolding cl sys_close_def
    by (cases "outcome (fs3\<lparr>fy_fds := (fy_fds fs3)(fd := None)\<rparr>)") (auto dest!: outcome_core split: sum.splits)
  have k0: "k \<noteq> 0" unfolding k length_head [OF sha md] by (simp add: val_ofs_def BE_FS_HDR_SZ_def)
  have "fy_files fs' ino = object_file E user key md d"
    unfolding coreD(2) [OF c4] using coreD(2) [OF c3] k0 k
    by (simp add: c2(6) c1(2) fl overwrite_head length_head [OF sha md] object_file_head)
  moreover have "fy_names fs' = nm"
    unfolding coreD(1) [OF c4] using coreD(1) [OF c3] by (simp add: c2(2) c1(1) nm)
  ultimately show "fy_names fs' = nm \<and> fy_files fs' ino = object_file E user key md d \<and> fo_out_fn obj' = None \<and> fo_out_fd obj' = None"
    by (simp add: o')
qed


section \<open>Opening\<close>

text \<open>An opened object of \<open>user\<close> whose table is the one of \<open>d\<close>; the descriptor is at \<open>fo_in_pos\<close>.\<close>

definition rd_obj :: "cenv \<Rightarrow> bytes \<Rightarrow> bytes \<Rightarrow> bytes \<Rightarrow> nat \<Rightarrow> nat \<Rightarrow> fs_obj \<Rightarrow> bool" where
  "rd_obj E key md d fd ino obj \<longleftrightarrow>
     fo_key obj = key \<and> fo_size obj = word_of_nat (length d) \<and> fo_hash obj = md \<and> fo_in_fd obj = Some fd \<and>
     fo_csum_tbl obj = sum_table E d \<and> fo_n_blk obj = word_of_nat (n_blks (length d)) \<and>
     fo_value_ofs obj = val_ofs key (length d) \<and> fo_tail_pos obj = CHUNK_BLK_SZ * (length d div CHUNK_BLK_SZ) \<and>
     fo_tail_len obj = length d mod CHUNK_BLK_SZ"

definition rd_fs :: "fs_obj \<Rightarrow> nat \<Rightarrow> nat \<Rightarrow> fsys \<Rightarrow> bool" where
  "rd_fs obj fd ino fs \<longleftrightarrow> fy_fds fs fd = Some (ino, fo_value_ofs obj + fo_in_pos obj)"

lemma cstr_strncpy: "length user < 128 \<Longrightarrow> 0 \<notin> set user \<Longrightarrow> cstr (strncpy user 128) = user"
proof -
  assume u: "length user < 128" "0 \<notin> set user"
  have "takeWhile (\<lambda>c. c \<noteq> 0) (user @ replicate k 0) = user" for k
    using u(2) by (induction user) auto
  moreover have "strncpy user 128 = user @ replicate (128 - length user) 0" using u(1) by (simp add: strncpy_def)
  ultimately show ?thesis by (simp add: cstr_def)
qed

definition obj_hdr :: "bytes \<Rightarrow> bytes \<Rightarrow> bytes \<Rightarrow> bytes \<Rightarrow> be_fs_obj_hdr" where
  "obj_hdr user key md d = \<lparr>bh_magic = BE_FS_OBJ_MAGIC, bh_key_len = word_of_nat (length key), bh_value_len = word_of_nat (length d),
       bh_n_blk = word_of_nat (n_blks (length d)), bh_hash = md, bh_owner = strncpy user 128\<rparr>"

text \<open>The check of the header: of the owner's file it accepts everything, of another's nothing.\<close>

lemma open_hdr_ok:
  assumes n: "length d < 2 ^ 43" and u: "length user < 128" "0 \<notin> set user" and k: "length key \<le> CHD_KEY_SZ"
    and st: "fst st = val_ofs key (length d) + length d"
  shows "open_hdr u key st (obj_hdr user key md d) obj =
     (if u = user
      then Inr (obj\<lparr>fo_n_blk := word_of_nat (n_blks (length d)), fo_csum_tbl_sz := n_blks (length d) * CHD_CSUM_SZ,
                  fo_tail_pos := CHUNK_BLK_SZ * (length d div CHUNK_BLK_SZ), fo_tail_len := length d mod CHUNK_BLK_SZ,
                  fo_value_ofs := val_ofs key (length d), fo_hash := md, fo_size := word_of_nat (length d), fo_mtime := snd st\<rparr>)
      else Inl che_AccessDenied)"
proof -
  note bc = blk_count_ok [OF n] and tl = tail_ok [OF n]
  have kl: "unat (word_of_nat (length key) :: u32) = length key"
    by (rule unat_small) (use k in \<open>simp add: CHD_KEY_SZ_def\<close>)
  have cb: "unat (word_of_nat (n_blks (length d)) * word_of_nat CHD_CSUM_SZ :: u32) = n_blks (length d) * CHD_CSUM_SZ"
    using bc(3) [unfolded bc(1)] .
  have "n_blks (length d) \<le> 2 ^ 27" using n unfolding n_blks_eq by (simp add: CHUNK_BLK_SZ_def) linarith
  then have lt: "val_ofs key (length d) + length d < 2 ^ LENGTH(64)"
    using n k by (simp add: val_ofs_def BE_FS_HDR_SZ_def CHD_CSUM_SZ_def CHD_KEY_SZ_def)
  have sz: "unat (word_of_nat (val_ofs key (length d)) + word_of_nat (length d) :: u64) = fst st"
    unfolding of_nat_add [symmetric] st by (rule unat_small [OF lt])
  have vo: "BE_FS_HDR_SZ + length key + n_blks (length d) * CHD_CSUM_SZ = val_ofs key (length d)" by (simp add: val_ofs_def)
  show ?thesis
    unfolding open_hdr_def obj_hdr_def Let_def be_fs_obj_hdr.select_convs cstr_strncpy [OF u] kl cb vo sz bc(1) tl
    by simp
qed


lemma sys_read_cases:
  assumes "sys_read fd len fs = (Inr b, fs')" "fy_fds fs fd = Some (ino, pos)"
  shows "b = take (length b) (drop pos (fy_files fs ino))" "length b \<le> len" "fy_names fs' = fy_names fs" "fy_files fs' = fy_files fs"
    "fy_fds fs' = (fy_fds fs)(fd \<mapsto> (ino, pos + length b))" "fy_mtime fs' = fy_mtime fs"
proof -
  obtain r fs1 where o1: "outcome fs = (r, fs1)" by (cases "outcome fs")
  note c = coreD [OF outcome_core [OF o1]]
  obtain lim where b: "b = take (limit lim len) (drop pos (fy_files fs ino))"
    and fs': "fs' = fs1\<lparr>fy_fds := (fy_fds fs1)(fd \<mapsto> (ino, pos + length b))\<rparr>"
    using assms by (auto simp: sys_read_def o1 c Let_def split: sum.splits)
  show "b = take (length b) (drop pos (fy_files fs ino))" using b by (simp add: min_def)
  show "length b \<le> len" using b limit_le [of lim len] by simp
  show "fy_names fs' = fy_names fs" "fy_files fs' = fy_files fs" "fy_fds fs' = (fy_fds fs)(fd \<mapsto> (ino, pos + length b))"
    "fy_mtime fs' = fy_mtime fs" by (simp_all add: fs' c)
qed

lemma open_core:
  assumes "sys_open fn fs = (Inr fd, fs')" "fy_names fs fn = Some ino"
  shows "fy_fds fs' = (fy_fds fs)(fd \<mapsto> (ino, 0))" "fy_names fs' = fy_names fs" "fy_files fs' = fy_files fs" "fy_mtime fs' = fy_mtime fs"
proof -
  obtain r fs1 where o1: "outcome fs = (r, fs1)" by (cases "outcome fs")
  note c = coreD [OF outcome_core [OF o1]]
  show "fy_fds fs' = (fy_fds fs)(fd \<mapsto> (ino, 0))" "fy_names fs' = fy_names fs" "fy_files fs' = fy_files fs" "fy_mtime fs' = fy_mtime fs"
    using assms by (auto simp: sys_open_def new_fd_def o1 c split: sum.splits option.splits)
qed

lemma fstat_core:
  assumes "sys_fstat fd fs = (Inr st, fs')" "fy_fds fs fd = Some (ino, p)"
  shows "core fs' = core fs" "st = (length (fy_files fs ino), fy_mtime fs ino)"
proof -
  obtain r fs1 where o1: "outcome fs = (r, fs1)" by (cases "outcome fs")
  note c = coreD [OF outcome_core [OF o1]]
  show "core fs' = core fs" "st = (length (fy_files fs ino), fy_mtime fs ino)"
    using assms outcome_core [OF o1] by (auto simp: sys_fstat_def o1 c split: sum.splits option.splits)
qed

lemma fs_obj_open_stepsE:
  assumes "fs_obj_open E t u key fs = (Inr obj, fs')"
  obtains fs1 fn fs2 fd fs3 st fs4 b fs5 obj1 fs6 fs7 b' where "key_valid key" "fs_malloc fs = (True, fs1)"
    "fs_obj_pathname E t key fs1 = (Some fn, fs2)" "sys_open fn fs2 = (Inr fd, fs3)" "sys_fstat fd fs3 = (Inr st, fs4)"
    "sys_read fd BE_FS_HDR_SZ fs4 = (Inr b, fs5)" "length b = BE_FS_HDR_SZ"
    "open_hdr u key st (hdr_of b) (fs_obj_zero\<lparr>fo_in_fn := Some fn, fo_in_fd := Some fd\<rparr>) = Inr obj1"
    "fs_malloc fs5 = (True, fs6)" "fs_malloc fs6 = (True, fs7)"
    "sys_read fd (length key + fo_csum_tbl_sz obj1) fs7 = (Inr b', fs')" "length b' = length key + fo_csum_tbl_sz obj1"
    "memcmp key (take (length key) b') = 0" "obj = obj1\<lparr>fo_key := take (length key) b', fo_csum_tbl := drop (length key) b'\<rparr>"
  using assms unfolding fs_obj_open_def Let_def fs_obj_alloc_def
  by (auto split: prod.splits sum.splits option.splits if_splits)

text \<open>An object in the store: the file under its name is the one a commit left.\<close>

definition stored :: "cenv \<Rightarrow> u32 \<Rightarrow> bytes \<Rightarrow> bytes \<Rightarrow> bytes \<Rightarrow> bytes \<Rightarrow> nat \<Rightarrow> fsys \<Rightarrow> bool" where
  "stored E t user key md d ino fs \<longleftrightarrow>
     fy_names fs (obj_path E t key) = Some ino \<and> fy_files fs ino = object_file E user key md d \<and>
     length d < 2 ^ 43 \<and> length user < 128 \<and> 0 \<notin> set user \<and> key_valid key \<and> length md = CHD_CSUM_SZ"

lemma content_parts:
  assumes sha: "sha_len E" and md: "length md = CHD_CSUM_SZ"
  shows "take BE_FS_HDR_SZ (object_file E user key md d) = hdr_bytes (obj_hdr user key md d)"
    "take (length key + n_blks (length d) * CHD_CSUM_SZ) (drop BE_FS_HDR_SZ (object_file E user key md d)) = key @ sum_table E d"
    "drop (val_ofs key (length d)) (object_file E user key md d) = d"
    "length (object_file E user key md d) = val_ofs key (length d) + length d"
    "hdr_of (hdr_bytes (obj_hdr user key md d)) = obj_hdr user key md d"
    "length (hdr_bytes (obj_hdr user key md d)) = BE_FS_HDR_SZ"
proof -
  have md: "length md = 20" using md by (simp add: CHD_CSUM_SZ_def)
  show h: "length (hdr_bytes (obj_hdr user key md d)) = BE_FS_HDR_SZ"
    by (rule length_hdr_bytes) (simp_all add: obj_hdr_def md)
  have f: "object_file E user key md d = hdr_bytes (obj_hdr user key md d) @ key @ sum_table E d @ d"
    by (simp add: object_file_def obj_hdr_def)
  note t = length_sum_table [OF sha, of d]
  show "take BE_FS_HDR_SZ (object_file E user key md d) = hdr_bytes (obj_hdr user key md d)"
    "take (length key + n_blks (length d) * CHD_CSUM_SZ) (drop BE_FS_HDR_SZ (object_file E user key md d)) = key @ sum_table E d"
    "drop (val_ofs key (length d)) (object_file E user key md d) = d"
    "length (object_file E user key md d) = val_ofs key (length d) + length d"
    unfolding f val_ofs_def using h t by simp_all
  show "hdr_of (hdr_bytes (obj_hdr user key md d)) = obj_hdr user key md d"
    using hdr_of_bytes [of "obj_hdr user key md d" "[]"] by (simp add: obj_hdr_def md)
qed

lemma file_parts:
  assumes sha: "sha_len E" and s: "stored E t user key md d ino fs"
  shows "take BE_FS_HDR_SZ (fy_files fs ino) = hdr_bytes (obj_hdr user key md d)"
    "take (length key + n_blks (length d) * CHD_CSUM_SZ) (drop BE_FS_HDR_SZ (fy_files fs ino)) = key @ sum_table E d"
    "drop (val_ofs key (length d)) (fy_files fs ino) = d" "length (fy_files fs ino) = val_ofs key (length d) + length d"
    "hdr_of (hdr_bytes (obj_hdr user key md d)) = obj_hdr user key md d"
  using s content_parts [OF sha, where md = md and user = user and key = key and d = d] by (simp_all add: stored_def)

lemma stored_frame: "stored E t user key md d ino fs \<Longrightarrow> fy_names fs' = fy_names fs \<Longrightarrow> fy_files fs' = fy_files fs \<Longrightarrow>
    stored E t user key md d ino fs'"
  by (simp add: stored_def)

lemma fs_obj_open_ok:
  assumes sha: "sha_len E" and s: "stored E t user key md d ino fs" and op: "fs_obj_open E t u key fs = (Inr obj, fs')"
  shows "u = user" "stored E t user key md d ino fs'" "fo_in_pos obj = 0" "fo_mtime obj = fy_mtime fs ino"
    "\<exists>fd. rd_obj E key md d fd ino obj \<and> rd_fs obj fd ino fs'"
proof -
  from op obtain fs1 fn fs2 fd fs3 st fs4 b fs5 obj1 fs6 fs7 b' where m: "fs_malloc fs = (True, fs1)"
    and pn: "fs_obj_pathname E t key fs1 = (Some fn, fs2)" and oq: "sys_open fn fs2 = (Inr fd, fs3)"
    and ft: "sys_fstat fd fs3 = (Inr st, fs4)" and r1: "sys_read fd BE_FS_HDR_SZ fs4 = (Inr b, fs5)" "length b = BE_FS_HDR_SZ"
    and oh: "open_hdr u key st (hdr_of b) (fs_obj_zero\<lparr>fo_in_fn := Some fn, fo_in_fd := Some fd\<rparr>) = Inr obj1"
    and m6: "fs_malloc fs5 = (True, fs6)" and m7: "fs_malloc fs6 = (True, fs7)"
    and r2: "sys_read fd (length key + fo_csum_tbl_sz obj1) fs7 = (Inr b', fs')" "length b' = length key + fo_csum_tbl_sz obj1"
    and obj: "obj = obj1\<lparr>fo_key := take (length key) b', fo_csum_tbl := drop (length key) b'\<rparr>"
    by (rule fs_obj_open_stepsE)
  have fn: "fn = obj_path E t key" and c2: "core fs2 = core fs" using pathname_cases [OF pn] malloc_core [OF m] by auto
  have nm: "fy_names fs2 fn = Some ino" using coreD(1) [OF c2] s fn by (simp add: stored_def)
  note c3 = open_core [OF oq nm]
  have fd3: "fy_fds fs3 fd = Some (ino, 0)" by (simp add: c3)
  note c4 = coreD [OF fstat_core(1) [OF ft fd3]]
  have fd4: "fy_fds fs4 fd = Some (ino, 0)" by (simp add: c4 fd3)
  note c5 = sys_read_cases [OF r1(1) fd4]
  have "core fs7 = core fs5" using malloc_core [OF m6] malloc_core [OF m7] by simp
  note c7 = coreD [OF this]
  have fd7: "fy_fds fs7 fd = Some (ino, BE_FS_HDR_SZ)" by (simp add: c7 c5(5) r1(2))
  note c8 = sys_read_cases [OF r2(1) fd7]
  have fl: "fy_files fs4 ino = fy_files fs ino" "fy_files fs7 ino = fy_files fs ino" "fy_files fs3 ino = fy_files fs ino"
      "fy_files fs' = fy_files fs" "fy_names fs' = fy_names fs" "fy_mtime fs3 = fy_mtime fs"
    by (simp_all add: c7 c5(3-6) c4 c3 c8(3-6) coreD [OF c2])
  note fp = file_parts [OF sha s]
  have hb: "hdr_of b = obj_hdr user key md d" using c5(1) r1(2) fl(1) fp(1,5) by simp
  have ok: "length d < 2 ^ 43" "length user < 128" "0 \<notin> set user" "length key \<le> CHD_KEY_SZ"
    using s by (auto simp: stored_def key_valid_def)
  have st: "fst st = val_ofs key (length d) + length d" "snd st = fy_mtime fs ino" using fstat_core(2) [OF ft fd3] fl(3,6) fp(4) by simp_all
  note oh' = oh [unfolded hb open_hdr_ok [OF ok st(1)]]
  show u: "u = user" using oh' by (auto split: if_splits)
  note o1 = oh' [unfolded if_P [OF u] sum.inject, symmetric]
  have "b' = key @ sum_table E d" using c8(1) r2(2) fl(2) fp(2) by (simp add: o1)
  then have "rd_obj E key md d fd ino obj" "rd_fs obj fd ino fs'"
    using c8(5) r2(2) by (simp_all add: rd_obj_def rd_fs_def obj o1 fs_obj_zero_def val_ofs_def add.assoc)
  then show "\<exists>fd. rd_obj E key md d fd ino obj \<and> rd_fs obj fd ino fs'" by blast
  show "stored E t user key md d ino fs'" by (rule stored_frame [OF s fl(5,4)])
  show "fo_in_pos obj = 0" "fo_mtime obj = fy_mtime fs ino" using st(2) by (simp_all add: obj o1 fs_obj_zero_def)
qed


lemma quiet_open: "quiet fs \<Longrightarrow> fy_names fs fn = Some ino \<Longrightarrow> \<exists>fd fs'. sys_open fn fs = (Inr fd, fs') \<and> quiet fs'"
  by (simp add: sys_open_def new_fd_def)

lemma quiet_fstat: "quiet fs \<Longrightarrow> fy_fds fs fd = Some (ino, p) \<Longrightarrow> sys_fstat fd fs = (Inr (length (fy_files fs ino), fy_mtime fs ino), fs)"
  by (simp add: sys_fstat_def)

lemma quiet_read: "quiet fs \<Longrightarrow> fy_fds fs fd = Some (ino, p) \<Longrightarrow>
    \<exists>fs'. sys_read fd len fs = (Inr (take len (drop p (fy_files fs ino))), fs') \<and> quiet fs'"
  by (simp add: sys_read_def Let_def)

lemma fs_obj_open_quiet:
  assumes q: "quiet fs" and sha: "sha_len E" and s: "stored E t user key md d ino fs" and t: "t \<noteq> 0"
    and dir: "fy_names fs (obj_dir E t key) = None"
  shows "u = user \<Longrightarrow> \<exists>obj fs'. fs_obj_open E t u key fs = (Inr obj, fs') \<and> quiet fs'"
    "u \<noteq> user \<Longrightarrow> fst (fs_obj_open E t u key fs) = Inl che_AccessDenied"
proof -
  have kv: "key_valid key" "key \<noteq> []" using s by (auto simp: stored_def key_valid_def)
  obtain fs2 where pn: "fs_obj_pathname E t key fs = (Some (obj_path E t key), fs2)" "quiet fs2"
    using pathname_quiet [OF q t kv(2) dir] by blast
  note c2 = coreD [OF pathname_cases(1) [OF pn(1)]]
  have nm: "fy_names fs2 (obj_path E t key) = Some ino" using s by (simp add: c2(1) stored_def)
  obtain fd fs3 where oq: "sys_open (obj_path E t key) fs2 = (Inr fd, fs3)" "quiet fs3" using quiet_open [OF pn(2) nm] by blast
  note c3 = open_core [OF oq(1) nm]
  have fd3: "fy_fds fs3 fd = Some (ino, 0)" by (simp add: c3)
  have fl3: "fy_files fs3 ino = fy_files fs ino" by (simp add: c3 c2)
  note fp = file_parts [OF sha s]
  obtain fs5 where r1: "sys_read fd BE_FS_HDR_SZ fs3 = (Inr (hdr_bytes (obj_hdr user key md d)), fs5)" "quiet fs5"
    using quiet_read [OF oq(2) fd3, of BE_FS_HDR_SZ] fp(1) fl3 by auto
  note c5 = sys_read_cases [OF r1(1) fd3]
  have md: "length md = 20" using s by (simp add: stored_def CHD_CSUM_SZ_def)
  have h: "length (hdr_bytes (obj_hdr user key md d)) = BE_FS_HDR_SZ"
    by (rule length_hdr_bytes) (simp_all add: obj_hdr_def md)
  have fd5: "fy_fds fs5 fd = Some (ino, BE_FS_HDR_SZ)" by (simp add: c5(5) h)
  have fl5: "fy_files fs5 ino = fy_files fs ino" by (simp add: c5(4) fl3)
  obtain fs6 where r2: "sys_read fd (length key + n_blks (length d) * CHD_CSUM_SZ) fs5 = (Inr (key @ sum_table E d), fs6)" "quiet fs6"
    using quiet_read [OF r1(2) fd5, of "length key + n_blks (length d) * CHD_CSUM_SZ"] fp(2) fl5 by auto
  have ok: "length d < 2 ^ 43" "length user < 128" "0 \<notin> set user" "length key \<le> CHD_KEY_SZ"
    using s by (auto simp: stored_def key_valid_def)
  have st: "fst (length (fy_files fs3 ino), fy_mtime fs3 ino) = val_ofs key (length d) + length d" using fl3 fp(4) by simp
  have ft: "sys_fstat fd fs3 = (Inr (length (fy_files fs3 ino), fy_mtime fs3 ino), fs3)" by (rule quiet_fstat [OF oq(2) fd3])
  note c = kv(1) q pn oq ft r1 r2 h fp(5)
  show "\<exists>obj fs'. fs_obj_open E t u key fs = (Inr obj, fs') \<and> quiet fs'" if "u = user"
    unfolding fs_obj_open_def Let_def fs_obj_alloc_def
    using that c open_hdr_ok [OF ok st, of u] by (simp add: length_sum_table [OF sha])
  show "fst (fs_obj_open E t u key fs) = Inl che_AccessDenied" if "u \<noteq> user"
    unfolding fs_obj_open_def Let_def fs_obj_alloc_def
    using that c open_hdr_ok [OF ok st, of u] by simp
qed

section \<open>Deleting\<close>

text \<open>Names and contents: what descriptors do not change.\<close>

definition disk :: "fsys \<Rightarrow> (bytes \<rightharpoonup> nat) \<times> (nat \<Rightarrow> bytes)" where
  "disk fs = (fy_names fs, fy_files fs)"

lemma core_disk: "core fs' = core fs \<Longrightarrow> disk fs' = disk fs"
  by (simp add: core_def disk_def)

lemma outcome_disk: "outcome fs = (r, fs') \<Longrightarrow> disk fs' = disk fs"
  by (rule core_disk [OF outcome_core])

lemma disk_upd [simp]: "disk (fs\<lparr>fy_fds := f\<rparr>) = disk fs" "disk (fs\<lparr>fy_next := n\<rparr>) = disk fs" "disk (fs\<lparr>fy_script := sc\<rparr>) = disk fs"
  by (simp_all add: disk_def)

lemma open_disk: "sys_open fn fs = (r, fs') \<Longrightarrow> disk fs' = disk fs"
  by (auto simp: sys_open_def new_fd_def dest!: outcome_disk split: prod.splits sum.splits option.splits)

lemma read_disk: "sys_read fd n fs = (r, fs') \<Longrightarrow> disk fs' = disk fs"
  by (auto simp: sys_read_def Let_def dest!: outcome_disk split: prod.splits sum.splits option.splits)

lemma close_disk: "sys_close fd fs = (r, fs') \<Longrightarrow> disk fs' = disk fs"
  by (auto simp: sys_close_def dest!: outcome_disk split: prod.splits sum.splits)

lemma close_disk': "disk (snd (sys_close fd fs)) = disk fs"
  using close_disk [of fd fs] by (cases "sys_close fd fs") simp

lemma unlink_disk: "sys_unlink fn fs = (r, fs') \<Longrightarrow> disk fs' = (if r = Inr () then ((fy_names fs)(fn := None), fy_files fs) else disk fs)"
  using outcome_disk [of fs]
  by (auto simp: sys_unlink_def disk_def split: prod.splits sum.splits if_splits)

text \<open>Only the owner deletes an object; a deletion that reports an error has not changed the disk.\<close>

lemma fs_obj_delete_ok:
  assumes sha: "sha_len E" and s: "stored E t user key md d ino fs" and dl: "fs_obj_delete E t u key fs = (r, fs')"
  shows "disk fs' = (if r = Inr () then ((fy_names fs)(obj_path E t key := None), fy_files fs) else disk fs)" "r = Inr () \<Longrightarrow> u = user"
proof -
  have kv: "key_valid key" using s by (simp add: stored_def)
  have A: "disk fs' = (if r = Inr () then ((fy_names fs)(obj_path E t key := None), fy_files fs) else disk fs) \<and> (r = Inr () \<longrightarrow> u = user)"
  proof -
    obtain p fs1 where pn: "fs_obj_pathname E t key fs = (p, fs1)" by (cases "fs_obj_pathname E t key fs")
    note c1 = pathname_cases [OF pn]
    have d1: "disk fs1 = disk fs" by (rule core_disk [OF c1(1)])
    show ?thesis
    proof (cases p)
      case None
      with dl kv pn d1 show ?thesis by (auto simp: fs_obj_delete_def)
    next
      case (Some fn)
      then have fn: "fn = obj_path E t key" using c1(2) by simp
      have nm: "fy_names fs1 fn = Some ino" using s fn by (simp add: coreD(1) [OF c1(1)] stored_def)
      obtain x fs2 where op: "sys_open fn fs1 = (x, fs2)" by (cases "sys_open fn fs1")
      note d2 = open_disk [OF op]
      show ?thesis
      proof (cases x)
        case (Inl e)
        with dl kv pn Some op d1 d2 show ?thesis by (auto simp: fs_obj_delete_def)
      next
        case (Inr fd)
        note op = op [unfolded this]
        obtain y fs3 where rd: "sys_read fd BE_FS_HDR_SZ fs2 = (y, fs3)" by (cases "sys_read fd BE_FS_HDR_SZ fs2")
        note d3 = read_disk [OF rd]
        show ?thesis
        proof (cases "\<exists>b. y = Inr b \<and> length b = BE_FS_HDR_SZ")
          case False
          then show ?thesis using dl kv pn Some op rd d1 d2 d3 close_disk' [of fd fs3]
            by (auto simp: fs_obj_delete_def split: sum.splits if_splits)
        next
          case True
          then obtain b where b: "y = Inr b" "length b = BE_FS_HDR_SZ" by blast
          have fd2: "fy_fds fs2 fd = Some (ino, 0)" by (simp add: open_core [OF op nm])
          have "fy_files fs2 ino = fy_files fs ino" using d1 d2 by (simp add: disk_def)
          then have hb: "hdr_of b = obj_hdr user key md d"
            using sys_read_cases(1) [OF rd [unfolded b(1)] fd2] b(2) file_parts(1,5) [OF sha s] by simp
          have ow: "cstr (bh_owner (hdr_of b)) = user"
            using s cstr_strncpy unfolding hb by (simp add: obj_hdr_def stored_def)
          obtain z fs4 where cl: "sys_close fd fs3 = (z, fs4)" by (cases "sys_close fd fs3")
          obtain v fs5 where ul: "sys_unlink fn fs4 = (v, fs5)" by (cases "sys_unlink fn fs4")
          note d4 = close_disk [OF cl] and d5 = unlink_disk [OF ul]
          show ?thesis
            using dl kv pn Some op rd b cl ul d1 d2 d3 d4 d5 ow fn
            by (auto simp: fs_obj_delete_def Let_def disk_def split: sum.splits if_splits)
        qed
      qed
    qed
  qed
  then show "disk fs' = (if r = Inr () then ((fy_names fs)(obj_path E t key := None), fy_files fs) else disk fs)" "r = Inr () \<Longrightarrow> u = user"
    by blast+
qed


section \<open>Reading\<close>

lemma blk_drop: "blk (drop CHUNK_BLK_SZ p) i = blk p (Suc i)"
  by (simp add: blk_def add.commute)

text \<open>A range that can be checked: \<open>k\<close> whole blocks precede \<open>p\<close>, which ends at a block's or at the object's end.\<close>

definition range_ok :: "nat \<Rightarrow> nat \<Rightarrow> bytes \<Rightarrow> bool" where
  "range_ok m k p \<longleftrightarrow> CHUNK_BLK_SZ * k + length p \<le> m \<and> (CHUNK_BLK_SZ dvd length p \<or> CHUNK_BLK_SZ * k + length p = m)"

lemma div_blk: "r < CHUNK_BLK_SZ \<Longrightarrow> (CHUNK_BLK_SZ * k + r) div CHUNK_BLK_SZ = k" "r < CHUNK_BLK_SZ \<Longrightarrow> (CHUNK_BLK_SZ * k + r) mod CHUNK_BLK_SZ = r"
  by simp_all

lemma range_last:
  assumes r: "range_ok m k p" and p: "p \<noteq> []" "length p < CHUNK_BLK_SZ"
  shows "m div CHUNK_BLK_SZ = k" "m mod CHUNK_BLK_SZ = length p" "n_blks m = Suc k"
proof -
  have "\<not> CHUNK_BLK_SZ dvd length p" using p nat_dvd_not_less [of "length p" CHUNK_BLK_SZ] by auto
  then have m: "m = CHUNK_BLK_SZ * k + length p" using r by (simp add: range_ok_def)
  show "m div CHUNK_BLK_SZ = k" "m mod CHUNK_BLK_SZ = length p" unfolding m using div_blk p(2) by simp_all
  then show "n_blks m = Suc k" using p(1) by (simp add: n_blks_eq)
qed

lemma n_blks_pos: "0 < m \<Longrightarrow> 0 < n_blks m"
  by (simp add: n_blks_def div_greater_zero_iff)

lemma n_blks_Suc: "n_blks (CHUNK_BLK_SZ + x) = Suc (n_blks x)"
proof -
  have e: "CHUNK_BLK_SZ + x + CHUNK_BLK_SZ - 1 = CHUNK_BLK_SZ + (x + CHUNK_BLK_SZ - 1)" by (simp add: CHUNK_BLK_SZ_def)
  have nz: "CHUNK_BLK_SZ \<noteq> 0" by (simp add: CHUNK_BLK_SZ_def)
  show ?thesis unfolding n_blks_def e div_add_self1 [OF nz] by simp
qed

lemma csum_loop_eq:
  assumes "m < 2 ^ 43" "fo_n_blk obj = word_of_nat (n_blks m)" "fo_tail_len obj = m mod CHUNK_BLK_SZ"
    "range_ok m k p" "cnt = n_blks (length p)"
  shows "csum_loop E obj cnt k p \<longleftrightarrow> (\<forall>i < cnt. memcmp (ce_sha1 E (blk p i)) (entry (fo_csum_tbl obj) (k + i)) = 0)"
  using assms(4,5)
proof (induction cnt arbitrary: k p)
  case (Suc c)
  have ne: "p \<noteq> []" using Suc.prems(2) by (auto simp: n_blks_eq)
  have le: "CHUNK_BLK_SZ * k < m" using Suc.prems(1) ne by (cases p) (auto simp: range_ok_def)
  have nb: "unat (fo_n_blk obj - 1) = n_blks m - 1"
  proof -
    have "1 \<le> n_blks m" using le n_blks_pos [of m] by simp
    then have "fo_n_blk obj - 1 = word_of_nat (n_blks m - 1)" by (simp add: assms(2) of_nat_diff)
    then show ?thesis using n_blks_less [OF assms(1)] by (simp add: unat_small)
  qed
  show ?case
  proof (cases "length p < CHUNK_BLK_SZ")
    case True
    note l = range_last [OF Suc.prems(1) ne True]
    have c: "c = 0" using Suc.prems(2) ne True by (simp add: n_blks_eq split: if_splits)
    have "blk p 0 = p" using True by (simp add: blk_def)
    then show ?thesis using l ne by (simp add: c nb assms(3) entry_def)
  next
    case False
    have r: "range_ok m (Suc k) (drop CHUNK_BLK_SZ p)"
      using Suc.prems(1) False by (auto simp: range_ok_def dvd_diff_nat)
    have "n_blks (length p) = Suc (n_blks (length p - CHUNK_BLK_SZ))" using n_blks_Suc [of "length p - CHUNK_BLK_SZ"] False by simp
    then have c: "c = n_blks (length (drop CHUNK_BLK_SZ p))" using Suc.prems(2) by simp
    have b: "\<not> (k = unat (fo_n_blk obj - 1) \<and> fo_tail_len obj > 0)"
    proof
      assume "k = unat (fo_n_blk obj - 1) \<and> fo_tail_len obj > 0"
      then have "k = m div CHUNK_BLK_SZ" "0 < m mod CHUNK_BLK_SZ" by (simp_all add: nb assms(3) n_blks_eq)
      then have "m < CHUNK_BLK_SZ * k + CHUNK_BLK_SZ" by (metis blk_pos mod_less_divisor mult_div_mod_eq nat_add_left_cancel_less)
      then show False using Suc.prems(1) False by (simp add: range_ok_def)
    qed
    have "blk p 0 = take CHUNK_BLK_SZ p" by (simp add: blk_def)
    then show ?thesis
      using Suc.IH [OF r c] b by (auto simp: Let_def entry_def blk_drop All_less_Suc2)
  qed
qed simp


text \<open>Equal blocks make equal data.\<close>

lemma less_n_blks: "i < n_blks m \<longleftrightarrow> CHUNK_BLK_SZ * i < m"
proof -
  have "Suc i \<le> (m + CHUNK_BLK_SZ - 1) div CHUNK_BLK_SZ \<longleftrightarrow> Suc i * CHUNK_BLK_SZ \<le> m + CHUNK_BLK_SZ - 1"
    by (rule less_eq_div_iff_mult_less_eq) simp
  also have "\<dots> \<longleftrightarrow> CHUNK_BLK_SZ * i < m" using blk_pos unfolding mult_Suc mult.commute [of i] by linarith
  finally show ?thesis by (simp add: n_blks_def Suc_le_eq)
qed

lemma nth_blk: "j < length p \<Longrightarrow> p ! j = blk p (j div CHUNK_BLK_SZ) ! (j mod CHUNK_BLK_SZ)"
  using le_trans [OF times_div_less_eq_dividend, of j "length p" CHUNK_BLK_SZ] by (simp add: blk_def nth_drop)

lemma blks_eq:
  assumes "length p = length q" "\<And>i. i < n_blks (length p) \<Longrightarrow> blk p i = blk q i"
  shows "p = q"
proof (rule nth_equalityI [OF assms(1)])
  fix j assume j: "j < length p"
  have "j div CHUNK_BLK_SZ < n_blks (length p)"
    unfolding less_n_blks by (rule le_less_trans [OF times_div_less_eq_dividend j])
  then show "p ! j = q ! j" using j assms nth_blk [of j p] nth_blk [of j q] by simp
qed

text \<open>The blocks of a checkable piece of \<open>d\<close> are blocks of \<open>d\<close>.\<close>

lemma blk_range:
  assumes r: "range_ok (length d) k p" and i: "i < n_blks (length p)"
  shows "blk (take (length p) (drop (CHUNK_BLK_SZ * k) d)) i = blk d (k + i)"
proof (cases "CHUNK_BLK_SZ * k + length p = length d")
  case True
  then show ?thesis by (simp add: blk_def algebra_simps)
next
  case False
  then obtain c where c: "length p = CHUNK_BLK_SZ * c" using r by (auto simp: range_ok_def)
  have "n_blks (length p) = c" by (simp add: c n_blks_eq)
  then have "CHUNK_BLK_SZ * Suc i \<le> length p" using i unfolding c by (intro mult_le_mono2) simp
  then have "CHUNK_BLK_SZ \<le> length p - CHUNK_BLK_SZ * i" by simp
  then show ?thesis by (simp add: blk_def drop_take min_absorb1 algebra_simps)
qed

lemma can_csum_range_ok:
  assumes "can_csum_range obj (length p)" "fo_tail_pos obj = CHUNK_BLK_SZ * (m div CHUNK_BLK_SZ)" "fo_tail_len obj = m mod CHUNK_BLK_SZ"
  shows "fo_in_pos obj = CHUNK_BLK_SZ * (fo_in_pos obj div CHUNK_BLK_SZ)" "range_ok m (fo_in_pos obj div CHUNK_BLK_SZ) p"
proof -
  have a: "fo_in_pos obj mod CHUNK_BLK_SZ = 0" "fo_in_pos obj + length p \<le> m"
    "(fo_in_pos obj + length p) mod CHUNK_BLK_SZ = 0 \<or> fo_in_pos obj + length p = m"
    using assms by (auto simp: can_csum_range_def Let_def split: if_splits)
  show e: "fo_in_pos obj = CHUNK_BLK_SZ * (fo_in_pos obj div CHUNK_BLK_SZ)" using a(1) by (simp add: mod_eq_0_iff_dvd)
  have "(fo_in_pos obj + length p) mod CHUNK_BLK_SZ = length p mod CHUNK_BLK_SZ" using a(1) by (metis add.left_neutral mod_add_left_eq)
  then show "range_ok m (fo_in_pos obj div CHUNK_BLK_SZ) p" using a e by (auto simp: range_ok_def dvd_eq_mod_eq_0)
qed

text \<open>What the checks of \<^verbatim>\<open>fs_obj_read\<close> compare, for data \<open>p\<close> read at the current position.\<close>

lemma read_check:
  assumes sha: "sha_len E" and n: "length d < 2 ^ 43" and o: "rd_obj E key md d fd ino obj"
    and c: "can_csum_range obj (length p)"
  shows "csum_loop E obj (unat (fs_blk_count (word_of_nat (length p)))) (unat (fs_blk_count (word_of_nat (fo_in_pos obj)))) p \<longleftrightarrow>
    (\<forall>i < n_blks (length p). ce_sha1 E (blk p i) = ce_sha1 E (blk d (fo_in_pos obj div CHUNK_BLK_SZ + i)))"
proof -
  let ?k = "fo_in_pos obj div CHUNK_BLK_SZ"
  have tl: "fo_tail_pos obj = CHUNK_BLK_SZ * (length d div CHUNK_BLK_SZ)" "fo_tail_len obj = length d mod CHUNK_BLK_SZ"
    and nb: "fo_n_blk obj = word_of_nat (n_blks (length d))" and tb: "fo_csum_tbl obj = sum_table E d"
    using o by (simp_all add: rd_obj_def)
  note r = can_csum_range_ok [OF c tl]
  have lt: "length p < 2 ^ 43" "fo_in_pos obj < 2 ^ 43"
    using r n unfolding range_ok_def by linarith+
  have pk: "n_blks (fo_in_pos obj) = ?k" using r(1) by (simp add: n_blks_eq dvd_eq_mod_eq_0 [symmetric] dvd_def) metis
  have in_tbl: "?k + i < n_blks (length d)" if "i < n_blks (length p)" for i
    using that r(2) unfolding less_n_blks range_ok_def add_mult_distrib2 by linarith
  show ?thesis
    unfolding blk_count_ok(2) [OF lt(1)] blk_count_ok(2) [OF lt(2)] pk csum_loop_eq [OF n nb tl(2) r(2) refl] tb
    using in_tbl by (auto simp: entry_sum_table [OF sha] sha [unfolded sha_len_def])
qed


lemma fs_obj_read_ok:
  assumes sha: "sha_len E" and n: "length d < 2 ^ 43" and o: "rd_obj E key md d fd ino obj" and f: "rd_fs obj fd ino fs"
    and rd: "fs_obj_read E obj len fs = (Inr b, obj', fs')"
  shows "length b \<le> len" "b = take (length b) (drop (fo_in_pos obj) (drop (fo_value_ofs obj) (fy_files fs ino)))"
    "obj' = obj\<lparr>fo_in_pos := fo_in_pos obj + length b\<rparr>" "rd_fs obj' fd ino fs'"
    "can_csum_range obj (length b) \<Longrightarrow> i < n_blks (length b) \<Longrightarrow>
       ce_sha1 E (blk b i) = ce_sha1 E (blk d (fo_in_pos obj div CHUNK_BLK_SZ + i))"
proof -
  have fd: "fo_in_fd obj = Some fd" using o by (simp add: rd_obj_def)
  have p: "fy_fds fs fd = Some (ino, fo_value_ofs obj + fo_in_pos obj)" using f by (simp add: rd_fs_def)
  obtain r fs1 where sr: "sys_read fd len fs = (r, fs1)" by (cases "sys_read fd len fs")
  have R: "r = Inr b" "fs' = fs1" "obj' = obj\<lparr>fo_in_pos := fo_in_pos obj + length b\<rparr>"
    using rd by (auto simp: fs_obj_read_def fd sr split: sum.splits if_splits)
  note c = sys_read_cases [OF sr [unfolded R(1)] p]
  show "length b \<le> len" by (rule c(2))
  show "b = take (length b) (drop (fo_in_pos obj) (drop (fo_value_ofs obj) (fy_files fs ino)))"
    using c(1) by (simp add: add.commute)
  show "obj' = obj\<lparr>fo_in_pos := fo_in_pos obj + length b\<rparr>" by (rule R(3))
  show "rd_fs obj' fd ino fs'" by (simp add: rd_fs_def R c(5) add.assoc)
  assume cc: "can_csum_range obj (length b)" and i: "i < n_blks (length b)"
  have "b \<noteq> []" using cc by (auto simp: can_csum_range_def)
  then show "ce_sha1 E (blk b i) = ce_sha1 E (blk d (fo_in_pos obj div CHUNK_BLK_SZ + i))"
    using rd read_check [OF sha n o cc] cc i R(1) by (auto simp: fs_obj_read_def fd sr split: if_splits)
qed

lemma fs_obj_read_quiet:
  assumes sha: "sha_len E" and n: "length d < 2 ^ 43" and o: "rd_obj E key md d fd ino obj" and f: "rd_fs obj fd ino fs"
    and q: "quiet fs" and dd: "drop (fo_value_ofs obj) (fy_files fs ino) = d"
  shows "\<exists>obj' fs'. fs_obj_read E obj len fs = (Inr (take len (drop (fo_in_pos obj) d)), obj', fs') \<and> quiet fs'"
proof -
  let ?b = "take len (drop (fo_in_pos obj) d)"
  have fd: "fo_in_fd obj = Some fd" using o by (simp add: rd_obj_def)
  have p: "fy_fds fs fd = Some (ino, fo_value_ofs obj + fo_in_pos obj)" using f by (simp add: rd_fs_def)
  have "drop (fo_value_ofs obj + fo_in_pos obj) (fy_files fs ino) = drop (fo_in_pos obj) d"
    using dd by (metis add.commute drop_drop)
  then obtain fs' where sr: "sys_read fd len fs = (Inr ?b, fs')" "quiet fs'" using quiet_read [OF q p, of len] by auto
  have "\<not> (can_csum_range obj (length ?b) \<and>
      \<not> csum_loop E obj (unat (fs_blk_count (word_of_nat (length ?b)))) (unat (fs_blk_count (word_of_nat (fo_in_pos obj)))) ?b)"
  proof (rule notI, elim conjE)
    assume c: "can_csum_range obj (length ?b)"
      and e: "\<not> csum_loop E obj (unat (fs_blk_count (word_of_nat (length ?b)))) (unat (fs_blk_count (word_of_nat (fo_in_pos obj)))) ?b"
    have "fo_tail_pos obj = CHUNK_BLK_SZ * (length d div CHUNK_BLK_SZ)" "fo_tail_len obj = length d mod CHUNK_BLK_SZ"
      using o by (simp_all add: rd_obj_def)
    note r = can_csum_range_ok [OF c this]
    have b: "?b = take (length ?b) (drop (CHUNK_BLK_SZ * (fo_in_pos obj div CHUNK_BLK_SZ)) d)"
      by (subst r(1) [symmetric]) (simp add: min_def)
    have "blk ?b i = blk d (fo_in_pos obj div CHUNK_BLK_SZ + i)" if "i < n_blks (length ?b)" for i
      using blk_range [OF r(2) that] b by simp
    then show False using e read_check [OF sha n o c] by simp
  qed
  then show ?thesis using sr by (cases "?b = []") (auto simp: fs_obj_read_def fd)
qed


section \<open>Properties\<close>

text \<open>A concrete store for the examples: a digest that pads or cuts to 20 bytes, and an empty volume.\<close>

definition demo_env :: cenv where
  "demo_env = \<lparr>ce_sha1 = (\<lambda>b. take 20 (b @ replicate 20 0)), ce_sha256 = (\<lambda>b. take 32 (b @ replicate 32 0)), ce_vol = ascii ''/vol''\<rparr>"

definition demo_fs :: fsys where
  "demo_fs = \<lparr>fy_dirs = [], fy_names = (\<lambda>_. None), fy_files = (\<lambda>_. []), fy_mtime = (\<lambda>_. 7), fy_fds = (\<lambda>_. None), fy_next = 0,
     fy_script = [], fy_mem = []\<rparr>"

lemma demo_ok: "sha_len demo_env" "quiet demo_fs" "key_valid [107]"
  by (simp_all add: demo_env_def demo_fs_def sha_len_def CHD_CSUM_SZ_def quiet_def key_valid_def CHD_KEY_SZ_def min_def)

lemma room_ok: "k \<le> n \<Longrightarrow> k \<le> n_blks n * CHUNK_BLK_SZ"
  using less_n_blks [of "n_blks n" n] by (simp add: mult.commute)

lemma dir_not_path [simp]: "obj_dir E t key \<noteq> obj_path E t key"
  by (simp add: obj_path_def ascii_def)

text \<open>Without failures an upload runs to its end.\<close>

lemma upload_quiet:
  assumes sha: "sha_len E" and n: "length (concat ps) < 2 ^ 43" and md: "length md = CHD_CSUM_SZ"
    and u: "length user < 128" "0 \<notin> set user" and q: "quiet fs" and k: "key_valid key" "t \<noteq> 0"
    and nm: "fy_names fs (obj_dir E t key) = None" "fy_names fs (obj_path E t key) = None"
  shows "\<exists>obj fs1 obj1 fs2 obj2 fs3 ino. fs_obj_new E t key (word_of_nat (length (concat ps))) fs = (Inr obj, fs1) \<and>
      write_all E obj ps fs1 = Some (Inr (), obj1, fs2) \<and> fs_obj_write_commit E obj1 user md sync fs2 = (True, obj2, fs3) \<and>
      quiet fs3 \<and> stored E t user key md (concat ps) ino fs3 \<and> fy_names fs3 (obj_dir E t key) = None"
proof -
  let ?d = "concat ps" and ?fn = "obj_path E t key"
  obtain obj fs1 where new: "fs_obj_new E t key (word_of_nat (length ?d)) fs = (Inr obj, fs1)" "quiet fs1"
    using fs_obj_new_quiet [OF q k nm] by blast
  obtain fd ino where w0: "wr_obj E key (length ?d) ?fn fd obj []" "wr_fs key (length ?d) ((fy_names fs)(?fn \<mapsto> ino)) fd ino fs1 []"
    using fs_obj_new_ok(1) [OF new(1) n] by blast
  have "length ([] :: bytes) + length ?d \<le> n_blks (length ?d) * CHUNK_BLK_SZ" using room_ok [of "length ?d" "length ?d"] by simp
  from write_all_ok [OF sha n w0 this] obtain obj1 fs2 where wa: "write_all E obj ps fs1 = Some (Inr (), obj1, fs2)" "quiet fs2"
    and w1: "wr_obj E key (length ?d) ?fn fd obj1 ?d" "wr_fs key (length ?d) ((fy_names fs)(?fn \<mapsto> ino)) fd ino fs2 ?d"
    using new(2) by auto
  obtain obj2 fs3 where co: "fs_obj_write_commit E obj1 user md sync fs2 = (True, obj2, fs3)" "quiet fs3"
    using commit_file_ok(2) [OF sha n md w1 wa(2)] by blast
  have "stored E t user key md ?d ino fs3" "fy_names fs3 (obj_dir E t key) = None"
    using commit_file_ok(1) [OF sha n md w1 co(1)] n u k md nm by (simp_all add: stored_def)
  with new wa co show ?thesis by blast
qed

text \<open>
  C8: an upload that \<^verbatim>\<open>fs_obj_write_commit\<close> reports as done has left exactly the object's file under a
  name that was free before, whatever the system calls did on the way (errors, short writes): header
  with owner and digest, key, one checksum per 64 kB block, and the concatenation of the pieces.
\<close>

theorem commit_sound:
  assumes "sha_len E" "n < 2 ^ 43" "length md = CHD_CSUM_SZ" "length user < 128" "0 \<notin> set user" "length (concat ps) \<le> n"
    and "fs_obj_new E t key (word_of_nat n) fs = (Inr obj, fs1)" "write_all E obj ps fs1 = Some (Inr (), obj1, fs2)"
    and "fs_obj_write_commit E obj1 user md sync fs2 = (True, obj2, fs3)"
  shows "fy_names fs (obj_path E t key) = None \<and> length (concat ps) = n \<and>
    (\<exists>ino. stored E t user key md (concat ps) ino fs3 \<and> fy_names fs3 = (fy_names fs)(obj_path E t key \<mapsto> ino)) \<and> fo_out_fn obj2 = None"
proof -
  let ?fn = "obj_path E t key" and ?d = "concat ps"
  note new = fs_obj_new_ok [OF assms(7,2)]
  obtain fd ino where w0: "wr_obj E key n ?fn fd obj []" "wr_fs key n ((fy_names fs)(?fn \<mapsto> ino)) fd ino fs1 []" using new(1) by blast
  have room: "length ([] :: bytes) + length ?d \<le> n_blks n * CHUNK_BLK_SZ" using room_ok [OF assms(6)] by simp
  have w1: "wr_obj E key n ?fn fd obj1 ?d" "wr_fs key n ((fy_names fs)(?fn \<mapsto> ino)) fd ino fs2 ?d"
    using write_all_ok [OF assms(1,2) w0 room] assms(8) by auto
  have "fo_size obj1 = fo_written_bytes obj1" using assms(9) by (auto simp: fs_obj_write_commit_def split: if_splits)
  then have "unat (word_of_nat n :: u64) = unat (word_of_nat (length ?d) :: u64)" by (simp add: wr_objD(2,8) [OF w1(1)])
  then have len: "n = length ?d" using assms(2,6) by (simp add: unat_small)
  have n: "length ?d < 2 ^ 43" using assms(2) len by simp
  note c = commit_file_ok(1) [OF assms(1) n assms(3) w1 [unfolded len] assms(9)]
  show ?thesis using c new(2,3) n assms(3,4,5) len by (auto simp: stored_def)
qed


theorem commit_sound_witness:
  "\<exists>obj fs1 obj1 fs2 obj2 fs3 ino.
     fs_obj_new demo_env 1 [107] (word_of_nat 5) demo_fs = (Inr obj, fs1) \<and> write_all demo_env obj [[1, 2], [3, 4, 5]] fs1 = Some (Inr (), obj1, fs2) \<and>
     fs_obj_write_commit demo_env obj1 [117] (replicate 20 9) True fs2 = (True, obj2, fs3) \<and>
     stored demo_env 1 [117] [107] (replicate 20 9) [1, 2, 3, 4, 5] ino fs3"
proof -
  have "length (concat [[1, 2], [3, 4, 5 :: u8]]) < 2 ^ 43" "length (replicate 20 (9 :: u8)) = CHD_CSUM_SZ"
    by (simp_all add: CHD_CSUM_SZ_def)
  from upload_quiet [OF demo_ok(1) this, of "[117]" demo_fs "[107]" 1 True]
  obtain obj fs1 obj1 fs2 obj2 fs3 where r: "fs_obj_new demo_env 1 [107] (word_of_nat 5) demo_fs = (Inr obj, fs1)"
      "write_all demo_env obj [[1, 2], [3, 4, 5]] fs1 = Some (Inr (), obj1, fs2)"
      "fs_obj_write_commit demo_env obj1 [117] (replicate 20 9) True fs2 = (True, obj2, fs3)"
    using demo_ok by (auto simp: demo_fs_def)
  have "sha_len demo_env" "(5 :: nat) < 2 ^ 43" "length (replicate 20 (9 :: u8)) = CHD_CSUM_SZ" "length [117 :: u8] < 128"
    "0 \<notin> set [117 :: u8]" "length (concat [[1, 2], [3, 4, 5 :: u8]]) \<le> 5" by (simp_all add: demo_ok CHD_CSUM_SZ_def)
  from commit_sound [OF this r] r show ?thesis by auto
qed



text \<open>A full table and a block that is not flushed: the loop asks for 0 bytes for ever.\<close>

lemma write_loop_stuck:
  "write_loop E fd ptr tot obj fs = Some r \<Longrightarrow>
   \<not> (ptr \<noteq> [] \<and> fo_checked_bytes obj = CHUNK_BLK_SZ \<and> fo_n_blk obj \<le> fo_csum_idx obj \<and> fy_script fs = [] \<and> fy_fds fs fd \<noteq> None)"
proof (induct E fd ptr tot obj fs r rule: write_loop.raw_induct [rotated, consumes 1, case_names step])
  case (step loop E fd ptr tot obj fs r)
  show ?case
  proof (rule notI)
    assume a: "ptr \<noteq> [] \<and> fo_checked_bytes obj = CHUNK_BLK_SZ \<and> fo_n_blk obj \<le> fo_csum_idx obj \<and> fy_script fs = [] \<and> fy_fds fs fd \<noteq> None"
    then have w: "sys_write fd (take (CHUNK_BLK_SZ - fo_checked_bytes obj) ptr) fs = (Inr 0, fs)"
      by (auto simp: sys_write_def outcome_def Let_def)
    have st: "write_step E ptr 0 obj = obj" using a by (simp add: write_step_def Let_def obj_flush_csum_def)
    have "loop E fd (drop 0 ptr) (tot + 0) (write_step E ptr 0 obj) fs = Some r" using step(2) a w by simp
    from step(1) [OF this] show False using a st by simp
  qed
qed

text \<open>
  \<^verbatim>\<open>fs_obj_write\<close> does not return when an empty object was announced and more than one block
  arrives: the checksum of the excess block cannot be stored, and the count of unchecked bytes is not reset.
\<close>

theorem write_excess_hangs:
  assumes "fs_obj_new E t key 0 fs = (Inr obj, fs1)" "fy_script fs1 = []" "length ptr > CHUNK_BLK_SZ"
  shows "fs_obj_write E obj ptr fs1 = None"
proof -
  have "fs_obj_new E t key (word_of_nat 0) fs = (Inr obj, fs1)" "(0 :: nat) < 2 ^ 43" using assms(1) by simp_all
  from fs_obj_new_ok(1) [OF this] obtain fd ino where
    w: "wr_obj E key 0 (obj_path E t key) fd obj []" and f: "wr_fs key 0 ((fy_names fs)(obj_path E t key \<mapsto> ino)) fd ino fs1 []" by blast
  note o = wr_objD [OF w]
  have nb: "fo_n_blk obj = 0" "fo_checked_bytes obj = 0" "fo_out_fd obj = Some fd" using o(3,6,9) by (simp_all add: n_blks_eq)
  obtain fs2 where sw: "sys_write fd (take CHUNK_BLK_SZ ptr) fs1 = (Inr CHUNK_BLK_SZ, fs2)" "fy_script fs2 = []" "fy_fds fs2 fd \<noteq> None"
    using f assms(2,3) by (auto simp: wr_fs_def sys_write_def outcome_def Let_def)
  define obj1 where "obj1 = write_step E ptr CHUNK_BLK_SZ obj"
  have o1: "fo_checked_bytes obj1 = CHUNK_BLK_SZ" "fo_n_blk obj1 \<le> fo_csum_idx obj1"
    by (simp_all add: obj1_def write_step_def Let_def obj_flush_csum_def nb)
  have "ptr \<noteq> []" using assms(3) by auto
  then have "fs_obj_write E obj ptr fs1 = write_loop E fd (drop CHUNK_BLK_SZ ptr) CHUNK_BLK_SZ obj1 fs2"
    using sw(1) nb by (simp add: fs_obj_write_def write_loop.simps [of E fd ptr] obj1_def)
  moreover have "write_loop E fd (drop CHUNK_BLK_SZ ptr) CHUNK_BLK_SZ obj1 fs2 \<noteq> Some r" for r
    using write_loop_stuck [of E fd "drop CHUNK_BLK_SZ ptr" CHUNK_BLK_SZ obj1 fs2 r] o1 sw(2,3) assms(3) by auto
  ultimately show ?thesis by (cases "write_loop E fd (drop CHUNK_BLK_SZ ptr) CHUNK_BLK_SZ obj1 fs2") auto
qed

theorem write_excess_hangs_witness:
  "\<exists>obj fs1. fs_obj_new demo_env 1 [107] 0 demo_fs = (Inr obj, fs1) \<and> fs_obj_write demo_env obj (replicate 65537 1) fs1 = None"
proof -
  have "\<exists>obj fs1. fs_obj_new demo_env 1 [107] 0 demo_fs = (Inr obj, fs1) \<and> quiet fs1"
    by (rule fs_obj_new_quiet [OF demo_ok(2,3)]) (simp_all add: demo_fs_def)
  then obtain obj fs1 where new: "fs_obj_new demo_env 1 [107] 0 demo_fs = (Inr obj, fs1)" "quiet fs1" by blast
  have "fs_obj_write demo_env obj (replicate 65537 1) fs1 = None"
    by (rule write_excess_hangs [OF new(1)]) (use new(2) in \<open>simp_all add: quiet_def CHUNK_BLK_SZ_def\<close>)
  with new(1) show ?thesis by blast
qed


text \<open>
  Round trip. On a system where nothing fails, data uploaded in any pieces under a free name can be
  opened by its owner afterwards; size, key and digest are those of the upload, and the first read of
  any length returns the data from its start, with every checksum verified.
\<close>

theorem object_roundtrip:
  assumes "sha_len E" "length (concat ps) < 2 ^ 43" "length md = CHD_CSUM_SZ" "length user < 128" "0 \<notin> set user" "quiet fs"
    "key_valid key" "t \<noteq> 0" "fy_names fs (obj_dir E t key) = None" "fy_names fs (obj_path E t key) = None"
  shows "\<exists>obj fs1 obj1 fs2 obj2 fs3 obj3 fs4 obj4 fs5.
     fs_obj_new E t key (word_of_nat (length (concat ps))) fs = (Inr obj, fs1) \<and>
     write_all E obj ps fs1 = Some (Inr (), obj1, fs2) \<and> fs_obj_write_commit E obj1 user md sync fs2 = (True, obj2, fs3) \<and>
     fs_obj_open E t user key fs3 = (Inr obj3, fs4) \<and> fo_size obj3 = word_of_nat (length (concat ps)) \<and> fo_key obj3 = key \<and>
     fo_hash obj3 = md \<and> fs_obj_read E obj3 len fs4 = (Inr (take len (concat ps)), obj4, fs5)"
proof -
  obtain obj fs1 obj1 fs2 obj2 fs3 ino where up: "fs_obj_new E t key (word_of_nat (length (concat ps))) fs = (Inr obj, fs1)"
      "write_all E obj ps fs1 = Some (Inr (), obj1, fs2)" "fs_obj_write_commit E obj1 user md sync fs2 = (True, obj2, fs3)"
    and q: "quiet fs3" and s: "stored E t user key md (concat ps) ino fs3" and dir: "fy_names fs3 (obj_dir E t key) = None"
    using upload_quiet [OF assms] by blast
  obtain obj3 fs4 where op: "fs_obj_open E t user key fs3 = (Inr obj3, fs4)" "quiet fs4"
    using fs_obj_open_quiet(1) [OF q assms(1) s assms(8) dir refl] by blast
  note o = fs_obj_open_ok [OF assms(1) s op(1)]
  obtain fd where r: "rd_obj E key md (concat ps) fd ino obj3" "rd_fs obj3 fd ino fs4" using o(5) by blast
  have "drop (fo_value_ofs obj3) (fy_files fs4 ino) = concat ps"
    using file_parts(3) [OF assms(1) o(2)] r(1) by (simp add: rd_obj_def)
  from fs_obj_read_quiet [OF assms(1,2) r op(2) this, of len] obtain obj4 fs5
    where "fs_obj_read E obj3 len fs4 = (Inr (take len (concat ps)), obj4, fs5)" using o(3) by auto
  then show ?thesis using up op(1) r(1) unfolding rd_obj_def by blast
qed

theorem object_roundtrip_witness:
  "\<exists>obj fs1 obj1 fs2 obj2 fs3 obj3 fs4 obj4 fs5.
     fs_obj_new demo_env 1 [107] 5 demo_fs = (Inr obj, fs1) \<and>
     write_all demo_env obj [[1, 2], [3, 4, 5]] fs1 = Some (Inr (), obj1, fs2) \<and>
     fs_obj_write_commit demo_env obj1 [117] (replicate 20 9) False fs2 = (True, obj2, fs3) \<and>
     fs_obj_open demo_env 1 [117] [107] fs3 = (Inr obj3, fs4) \<and> fs_obj_read demo_env obj3 4 fs4 = (Inr [1, 2, 3, 4], obj4, fs5)"
proof -
  have "length (concat [[1, 2], [3, 4, 5 :: u8]]) < 2 ^ 43" "length (replicate 20 (9 :: u8)) = CHD_CSUM_SZ"
      "length [117 :: u8] < 128" "0 \<notin> set [117 :: u8]"
    by (simp_all add: CHD_CSUM_SZ_def)
  note r = object_roundtrip [OF demo_ok(1) this demo_ok(2,3), of 1 False 4]
  show ?thesis using r by (simp add: demo_fs_def [THEN arg_cong, of fy_names]) blast
qed



lemma demo_stored:
  "\<exists>fs ino. quiet fs \<and> stored demo_env 1 [117] [107] (replicate 20 9) [1, 2, 3] ino fs \<and> fy_names fs (obj_dir demo_env 1 [107]) = None"
proof -
  have "length (concat [[1, 2, 3 :: u8]]) < 2 ^ 43" "length (replicate 20 (9 :: u8)) = CHD_CSUM_SZ" "length [117 :: u8] < 128"
      "0 \<notin> set [117 :: u8]"
    by (simp_all add: CHD_CSUM_SZ_def)
  from upload_quiet [OF demo_ok(1) this demo_ok(2,3), of 1 True] show ?thesis by (auto simp: demo_fs_def)
qed


text \<open>
  C19: objects belong to their owner. Another user's \<^verbatim>\<open>fs_obj_open\<close> and \<^verbatim>\<open>fs_obj_delete\<close> fail and leave the
  object as it was, whatever the system calls do; without failures the answer is \<^verbatim>\<open>che_AccessDenied\<close>.
\<close>

theorem object_access:
  assumes "sha_len E" "stored E t user key md d ino fs" "u \<noteq> user"
  shows "(\<forall>obj fs'. fs_obj_open E t u key fs \<noteq> (Inr obj, fs')) \<and>
    (\<forall>r fs'. fs_obj_delete E t u key fs = (r, fs') \<longrightarrow> r \<noteq> Inr () \<and> stored E t user key md d ino fs') \<and>
    (quiet fs \<and> t \<noteq> 0 \<and> fy_names fs (obj_dir E t key) = None \<longrightarrow> fst (fs_obj_open E t u key fs) = Inl che_AccessDenied)"
proof (intro conjI allI impI)
  show "fs_obj_open E t u key fs \<noteq> (Inr obj, fs')" for obj fs'
    using fs_obj_open_ok(1) [OF assms(1,2)] assms(3) by blast
  fix r fs' assume dl: "fs_obj_delete E t u key fs = (r, fs')"
  note d = fs_obj_delete_ok [OF assms(1,2) dl]
  show r: "r \<noteq> Inr ()" using d(2) assms(3) by blast
  show "stored E t user key md d ino fs'"
    using d(1) r by (intro stored_frame [OF assms(2)]) (simp_all add: disk_def)
next
  assume "quiet fs \<and> t \<noteq> 0 \<and> fy_names fs (obj_dir E t key) = None"
  then show "fst (fs_obj_open E t u key fs) = Inl che_AccessDenied"
    using fs_obj_open_quiet(2) [OF _ assms(1,2) _ _ assms(3)] by blast
qed

theorem object_access_witness:
  "\<exists>fs ino. stored demo_env 1 [117] [107] (replicate 20 9) [1, 2, 3] ino fs \<and>
     fst (fs_obj_open demo_env 1 [118] [107] fs) = Inl che_AccessDenied"
proof -
  obtain fs ino where q: "quiet fs" and s: "stored demo_env 1 [117] [107] (replicate 20 9) [1, 2, 3] ino fs"
    and dir: "fy_names fs (obj_dir demo_env 1 [107]) = None" using demo_stored by blast
  have "[118] \<noteq> [117 :: u8]" by simp
  from object_access [OF demo_ok(1) s this] q s dir show ?thesis by auto
qed

text \<open>
  A deletion that reports success was the owner's and removes exactly the object's name; nobody can
  open the object afterwards. A deletion that reports an error has changed neither names nor contents.
\<close>

theorem delete_exact:
  assumes "sha_len E" "stored E t user key md d ino fs" "fs_obj_delete E t u key fs = (r, fs')"
  shows "fy_files fs' = fy_files fs \<and>
    (r = Inr () \<longrightarrow> u = user \<and> fy_names fs' = (fy_names fs)(obj_path E t key := None) \<and>
       (\<forall>v obj fs2. fs_obj_open E t v key fs' \<noteq> (Inr obj, fs2))) \<and>
    (r \<noteq> Inr () \<longrightarrow> fy_names fs' = fy_names fs)"
proof -
  note d = fs_obj_delete_ok [OF assms]
  have "fs_obj_open E t v key fs' \<noteq> (Inr obj, fs2)" if nm: "fy_names fs' (obj_path E t key) = None" for v obj fs2
  proof
    assume "fs_obj_open E t v key fs' = (Inr obj, fs2)"
    then obtain fs3 fn fs4 fd fs5 where m: "fs_malloc fs' = (True, fs3)" and p: "fs_obj_pathname E t key fs3 = (Some fn, fs4)"
      and o: "sys_open fn fs4 = (Inr fd, fs5)" by (rule fs_obj_open_stepsE)
    have "fn = obj_path E t key" "core fs4 = core fs'" using pathname_cases [OF p] malloc_core [OF m] by auto
    then have n4: "fy_names fs4 fn = None" using nm coreD(1) by metis
    obtain x fs6 where oc: "outcome fs4 = (x, fs6)" by (cases "outcome fs4")
    show False using o n4 coreD(1) [OF outcome_core [OF oc]] by (auto simp: sys_open_def oc split: sum.splits)
  qed
  with d show ?thesis by (auto simp: disk_def split: if_splits)
qed

theorem delete_exact_witness:
  "\<exists>fs ino r fs'. stored demo_env 1 [117] [107] (replicate 20 9) [1, 2, 3] ino fs \<and>
     fs_obj_delete demo_env 1 [118] [107] fs = (r, fs') \<and> fy_names fs' = fy_names fs \<and> r \<noteq> Inr ()"
proof -
  obtain fs ino where s: "stored demo_env 1 [117] [107] (replicate 20 9) [1, 2, 3] ino fs" using demo_stored by blast
  obtain r fs' where dl: "fs_obj_delete demo_env 1 [118] [107] fs = (r, fs')" by (cases "fs_obj_delete demo_env 1 [118] [107] fs")
  have "[118] \<noteq> [117 :: u8]" by simp
  with delete_exact [OF demo_ok(1) s dl] s dl show ?thesis by auto
qed

end
