(* ===== verification/Chunk_List.thy ===== *)
theory Chunk_List
  imports Chunk_Store
begin

text \<open>
  The scan of a table's directories and the listing built on it (\<^verbatim>\<open>fs_list_objs\<close> of \<^verbatim>\<open>chunkd/be-fs.c\<close>).
  What \<^verbatim>\<open>opendir\<close> and \<^verbatim>\<open>readdir\<close> yield, in the order the file system likes, is the parameter \<open>rd\<close>: the
  entries of a directory, or an errno.
\<close>

type_synonym readdir = "bytes \<Rightarrow> fsys \<Rightarrow> int + bytes list"

record fs_obj_lister =
  ls_root :: "bytes list"          \<comment> \<open>what is left of the table's directory\<close>
  ls_table_path :: bytes
  ls_d :: "bytes list option"
  ls_sub :: "bytes option"

definition fs_list_objs_open :: "readdir \<Rightarrow> cenv \<Rightarrow> u32 \<Rightarrow> fsys \<Rightarrow> (int + fs_obj_lister) \<times> fsys" where
  "fs_list_objs_open rd E table_id fs =
     (case fs_malloc fs of
        (ok, fs) \<Rightarrow>
          if \<not> ok then (Inl ENOMEM, fs)
          else
            case rd (table_path E table_id) fs of
              Inl e \<Rightarrow> (Inl e, fs)
            | Inr root \<Rightarrow> (Inr \<lparr>ls_root = root, ls_table_path = table_path E table_id, ls_d = None, ls_sub = None\<rparr>, fs))"

definition dotfile :: "bytes \<Rightarrow> bool" where
  "dotfile n \<longleftrightarrow> take 1 n = ascii ''.''"

definition lister_left :: "fs_obj_lister \<Rightarrow> nat \<times> nat \<times> nat" where
  "lister_left t = (length (ls_root t), (if ls_sub t = None then 0 else if ls_d t = None then 2 else 1),
     case ls_d t of None \<Rightarrow> 0 | Some xs \<Rightarrow> length xs)"

text \<open>\<^verbatim>\<open>-1\<close> error, \<^verbatim>\<open>0\<close> end, \<^verbatim>\<open>1\<close> and a file name. \<^verbatim>\<open>goto again\<close> is the recursion.\<close>

function fs_list_objs_next :: "readdir \<Rightarrow> fs_obj_lister \<Rightarrow> fsys \<Rightarrow> (int \<times> bytes) \<times> fs_obj_lister \<times> fsys" where
  "fs_list_objs_next rd t fs =
     (case ls_sub t of
        None \<Rightarrow>
          (case ls_root t of
             [] \<Rightarrow> ((0, []), t, fs)
           | de # root \<Rightarrow>
               let t = t\<lparr>ls_root := root\<rparr> in
               if dotfile de \<or> length de \<noteq> PREFIX_LEN then fs_list_objs_next rd t fs
               else
                 case fs_malloc fs of
                   (ok, fs) \<Rightarrow>
                     if \<not> ok then ((- 1, []), t, fs)
                     else fs_list_objs_next rd (t\<lparr>ls_sub := Some (ls_table_path t @ ascii ''/'' @ de)\<rparr>) fs)
      | Some sub \<Rightarrow>
          (case ls_d t of
             None \<Rightarrow>
               (case rd sub fs of
                  Inl e \<Rightarrow> fs_list_objs_next rd (t\<lparr>ls_sub := None\<rparr>) fs
                | Inr d \<Rightarrow> fs_list_objs_next rd (t\<lparr>ls_d := Some d\<rparr>) fs)
           | Some [] \<Rightarrow> fs_list_objs_next rd (t\<lparr>ls_d := None, ls_sub := None\<rparr>) fs
           | Some (de # d) \<Rightarrow>
               let t = t\<lparr>ls_d := Some d\<rparr> in
               if dotfile de then fs_list_objs_next rd t fs
               else
                 case fs_malloc fs of
                   (ok, fs) \<Rightarrow> if \<not> ok then ((- 1, []), t, fs) else ((1, sub @ ascii ''/'' @ de), t, fs)))"
  by pat_completeness auto
termination
  by (relation "inv_image (less_than <*lex*> less_than <*lex*> less_than) (\<lambda>(rd, t, fs). lister_left t)")
    (auto simp: lister_left_def split: option.splits)

declare fs_list_objs_next.simps [simp del]


definition lister_order :: "(fs_obj_lister \<times> fs_obj_lister) set" where
  "lister_order = inv_image (less_than <*lex*> less_than <*lex*> less_than) lister_left"

lemma lister_order_trans: "trans lister_order"
  by (simp add: lister_order_def trans_inv_image trans_lex_prod trans_less_than)

lemma lister_order_wf: "wf lister_order"
  by (simp add: lister_order_def wf_lex_prod)

lemma lister_shrinks:
  "ls_sub t = None \<Longrightarrow> ls_root t = de # root \<Longrightarrow> (t\<lparr>ls_root := root\<rparr>, t) \<in> lister_order"
  "ls_sub t = None \<Longrightarrow> ls_root t = de # root \<Longrightarrow> (t\<lparr>ls_root := root, ls_sub := Some x\<rparr>, t) \<in> lister_order"
  "ls_sub t = Some sub \<Longrightarrow> ls_d t = None \<Longrightarrow> (t\<lparr>ls_sub := None\<rparr>, t) \<in> lister_order"
  "ls_sub t = Some sub \<Longrightarrow> ls_d t = None \<Longrightarrow> (t\<lparr>ls_d := Some d\<rparr>, t) \<in> lister_order"
  "ls_sub t = Some sub \<Longrightarrow> ls_d t = Some [] \<Longrightarrow> (t\<lparr>ls_d := None, ls_sub := None\<rparr>, t) \<in> lister_order"
  "ls_sub t = Some sub \<Longrightarrow> ls_d t = Some (de # d) \<Longrightarrow> (t\<lparr>ls_d := Some d\<rparr>, t) \<in> lister_order"
  by (simp_all add: lister_order_def lister_left_def)

lemma next_decreases:
  "fs_list_objs_next rd t fs = ((rc, fn), t', fs') \<Longrightarrow> rc > 0 \<Longrightarrow> (t', t) \<in> lister_order"
proof (induction t arbitrary: fs rule: wf_induct_rule [OF lister_order_wf])
  case (1 t)
  have rec: "(t', t) \<in> lister_order" if "fs_list_objs_next rd u fs1 = ((rc, fn), t', fs')" "(u, t) \<in> lister_order" for u fs1
    using transD [OF lister_order_trans 1(1) [OF that(2,1) 1(3)] that(2)] .
  note shr = lister_shrinks and s = fs_list_objs_next.simps [of rd t fs] Let_def
  show ?case
  proof (cases "ls_sub t")
    case None
    show ?thesis
    proof (cases "ls_root t")
      case Nil
      with None 1(2,3) show ?thesis by (simp add: s)
    next
      case (Cons de root)
      with None 1(2,3) show ?thesis
        by (auto simp: s intro: rec shr(1,2) split: if_splits prod.splits)
    qed
  next
    case (Some sub)
    show ?thesis
    proof (cases "ls_d t")
      case None
      with Some 1(2) show ?thesis by (auto simp: s intro: rec shr(3,4) split: sum.splits)
    next
      case d: (Some xs)
      with Some 1(2,3) show ?thesis
        by (cases xs) (auto simp: s intro: rec shr(5,6) split: if_splits prod.splits)
    qed
  qed
qed

text \<open>The result: one entry per object of the user; a file whose header cannot be read ends the listing.\<close>

function list_objs_loop :: "readdir \<Rightarrow> bytes \<Rightarrow> fs_obj_lister \<Rightarrow> obj_info list \<Rightarrow> fsys \<Rightarrow> obj_info list \<times> fsys" where
  "list_objs_loop rd user t res fs =
     (case fs_list_objs_next rd t fs of
        ((rc, fn), t, fs) \<Rightarrow>
          if \<not> rc > 0 then (res, fs)
          else
            case fs_obj_hdr_read fn fs of
              (None, fs) \<Rightarrow> (res, fs)
            | (Some ve, fs) \<Rightarrow>
                if strcmp user (oi_owner ve) \<noteq> 0 then list_objs_loop rd user t res fs
                else
                  case fs_malloc fs of
                    (ok, fs) \<Rightarrow> if \<not> ok then (res, fs) else list_objs_loop rd user t (res @ [ve]) fs)"
  by pat_completeness auto
termination
  by (relation "inv_image lister_order (\<lambda>(rd, user, t, res, fs). t)")
    (auto simp: lister_order_wf dest: next_decreases [OF sym])

declare list_objs_loop.simps [simp del]

definition fs_list_objs :: "readdir \<Rightarrow> cenv \<Rightarrow> u32 \<Rightarrow> bytes \<Rightarrow> fsys \<Rightarrow> obj_info list \<times> fsys" where
  "fs_list_objs rd E table_id user fs =
     (case fs_list_objs_open rd E table_id fs of
        (Inl e, fs) \<Rightarrow> ([], fs)
      | (Inr t, fs) \<Rightarrow> list_objs_loop rd user t [] fs)"


section \<open>What a listing contains\<close>

text \<open>The file names of a table in the order of the scan.\<close>

definition sub_names :: "readdir \<Rightarrow> bytes \<Rightarrow> fsys \<Rightarrow> bytes list" where
  "sub_names rd sub fs = (case rd sub fs of Inl _ \<Rightarrow> [] | Inr d \<Rightarrow> map (\<lambda>de. sub @ ascii ''/'' @ de) (filter (\<lambda>de. \<not> dotfile de) d))"

definition root_names :: "readdir \<Rightarrow> bytes \<Rightarrow> bytes list \<Rightarrow> fsys \<Rightarrow> bytes list" where
  "root_names rd path root fs =
     concat (map (\<lambda>de. sub_names rd (path @ ascii ''/'' @ de) fs) (filter (\<lambda>de. \<not> dotfile de \<and> length de = PREFIX_LEN) root))"

definition table_names :: "readdir \<Rightarrow> cenv \<Rightarrow> u32 \<Rightarrow> fsys \<Rightarrow> bytes list" where
  "table_names rd E t fs = (case rd (table_path E t) fs of Inl _ \<Rightarrow> [] | Inr root \<Rightarrow> root_names rd (table_path E t) root fs)"

definition names_left :: "readdir \<Rightarrow> fs_obj_lister \<Rightarrow> fsys \<Rightarrow> bytes list" where
  "names_left rd t fs =
     (case ls_sub t of
        None \<Rightarrow> []
      | Some sub \<Rightarrow> (case ls_d t of None \<Rightarrow> sub_names rd sub fs | Some d \<Rightarrow> map (\<lambda>de. sub @ ascii ''/'' @ de) (filter (\<lambda>de. \<not> dotfile de) d))) @
     root_names rd (ls_table_path t) (ls_root t) fs"

lemma next_quiet:
  assumes q: "quiet fs" and "ls_sub t = None \<longrightarrow> ls_d t = None"
  shows "\<exists>t'. (ls_sub t' = None \<longrightarrow> ls_d t' = None) \<and>
     (case names_left rd t fs of
        [] \<Rightarrow> fs_list_objs_next rd t fs = ((0, []), t', fs)
      | fn # fns \<Rightarrow> fs_list_objs_next rd t fs = ((1, fn), t', fs) \<and> names_left rd t' fs = fns)"
  using assms(2)
proof (induction t rule: wf_induct_rule [OF lister_order_wf])
  case (1 t)
  note s = fs_list_objs_next.simps [of rd t fs] Let_def quiet_malloc [OF q]
  have rec: ?case if "(u, t) \<in> lister_order" "ls_sub u = None \<longrightarrow> ls_d u = None" "names_left rd u fs = names_left rd t fs"
      "fs_list_objs_next rd t fs = fs_list_objs_next rd u fs" for u
    using 1(1) [OF that(1,2)] unfolding that(3) that(4) .
  show ?case
  proof (cases "ls_sub t")
    case None
    then have d: "ls_d t = None" using 1(2) by simp
    show ?thesis
    proof (cases "ls_root t")
      case Nil
      with None d show ?thesis by (intro exI [of _ t]) (simp add: s names_left_def root_names_def)
    next
      case (Cons de root)
      show ?thesis
      proof (cases "dotfile de \<or> length de \<noteq> PREFIX_LEN")
        case True
        show ?thesis by (rule rec [OF lister_shrinks(1) [OF None Cons]])
            (use None Cons d True in \<open>auto simp: s names_left_def root_names_def\<close>)
      next
        case False
        show ?thesis by (rule rec [OF lister_shrinks(2) [OF None Cons, of "ls_table_path t @ ascii ''/'' @ de"]])
            (use None Cons d False in \<open>simp_all add: s names_left_def root_names_def\<close>)
      qed
    qed
  next
    case (Some sub)
    show ?thesis
    proof (cases "ls_d t")
      case None
      show ?thesis
      proof (cases "rd sub fs")
        case (Inl e)
        show ?thesis by (rule rec [OF lister_shrinks(3) [OF Some None]])
            (use Some None Inl in \<open>simp_all add: s names_left_def sub_names_def\<close>)
      next
        case (Inr xs)
        show ?thesis by (rule rec [OF lister_shrinks(4) [OF Some None, of xs]])
            (use Some None Inr in \<open>simp_all add: s names_left_def sub_names_def\<close>)
      qed
    next
      case d: (Some xs)
      show ?thesis
      proof (cases xs)
        case Nil
        show ?thesis by (rule rec [OF lister_shrinks(5) [OF Some d [unfolded Nil]]])
            (use Some d Nil in \<open>simp_all add: s names_left_def\<close>)
      next
        case (Cons de ys)
        show ?thesis
        proof (cases "dotfile de")
          case True
          show ?thesis by (rule rec [OF lister_shrinks(6) [OF Some d [unfolded Cons]]])
              (use Some d Cons True in \<open>simp_all add: s names_left_def\<close>)
        next
          case False
          with Some d Cons show ?thesis by (intro exI [of _ "t\<lparr>ls_d := Some ys\<rparr>"]) (simp add: s names_left_def)
        qed
      qed
    qed
  qed
qed


text \<open>A file of the table: an object with owner, key, digest and data.\<close>

definition obj_at :: "cenv \<Rightarrow> fsys \<Rightarrow> bytes \<Rightarrow> bytes \<times> bytes \<times> bytes \<times> bytes \<Rightarrow> bool" where
  "obj_at E fs fn = (\<lambda>(user, key, md, d). \<exists>ino. fy_names fs fn = Some ino \<and> fy_files fs ino = object_file E user key md d \<and>
     length d < 2 ^ 43 \<and> length user < 128 \<and> 0 \<notin> set user \<and> key_valid key \<and> length md = CHD_CSUM_SZ)"

definition info_of :: "fsys \<Rightarrow> bytes \<Rightarrow> bytes \<times> bytes \<times> bytes \<times> bytes \<Rightarrow> obj_info" where
  "info_of fs fn = (\<lambda>(user, key, md, d). \<lparr>oi_owner = user, oi_hash = md, oi_key = key, oi_csumlen = n_blks (length d) * CHD_CSUM_SZ,
     oi_size = word_of_nat (length d), oi_mtime = fy_mtime fs (the (fy_names fs fn))\<rparr>)"

text \<open>What reading headers leaves alone.\<close>

definition same_disk :: "fsys \<Rightarrow> fsys \<Rightarrow> bool" where
  "same_disk fs fs' \<longleftrightarrow> disk fs' = disk fs \<and> fy_dirs fs' = fy_dirs fs \<and> fy_mtime fs' = fy_mtime fs"

lemma same_disk_obj: "same_disk fs fs' \<Longrightarrow> obj_at E fs' fn ob = obj_at E fs fn ob"
  "same_disk fs fs' \<Longrightarrow> info_of fs' fn ob = info_of fs fn ob"
  by (auto simp: same_disk_def disk_def obj_at_def info_of_def)

lemma same_disk_trans: "same_disk a b \<Longrightarrow> same_disk b c \<Longrightarrow> same_disk a c"
  by (simp add: same_disk_def)

lemma hdr_read_quiet:
  assumes sha: "sha_len E" and q: "quiet fs" and ob: "obj_at E fs fn (user, key, md, d)"
  shows "\<exists>fs'. fs_obj_hdr_read fn fs = (Some (info_of fs fn (user, key, md, d)), fs') \<and> quiet fs' \<and> same_disk fs fs'"
proof -
  obtain ino where nm: "fy_names fs fn = Some ino" and fl: "fy_files fs ino = object_file E user key md d"
    and n: "length d < 2 ^ 43" and u: "length user < 128" "0 \<notin> set user" and kv: "key_valid key" and md: "length md = CHD_CSUM_SZ"
    using ob by (auto simp: obj_at_def)
  note cp = content_parts [OF sha md, where user = user and key = key and d = d]
  define fd where "fd = fy_next fs"
  define fs1 where "fs1 = fs\<lparr>fy_fds := (fy_fds fs)(fd \<mapsto> (ino, 0)), fy_next := Suc fd\<rparr>"
  have o1: "sys_open fn fs = (Inr fd, fs1)" "quiet fs1" using q nm by (simp_all add: sys_open_def new_fd_def fs1_def fd_def)
  have st: "sys_fstat fd fs1 = (Inr (length (fy_files fs ino), fy_mtime fs ino), fs1)"
    using o1(2) by (simp add: sys_fstat_def fs1_def)
  define fs2 where "fs2 = fs1\<lparr>fy_fds := (fy_fds fs1)(fd \<mapsto> (ino, BE_FS_HDR_SZ))\<rparr>"
  have r1: "sys_read fd BE_FS_HDR_SZ fs1 = (Inr (hdr_bytes (obj_hdr user key md d)), fs2)" "quiet fs2"
    using o1(2) cp(1,4,6) by (simp_all add: sys_read_def fs2_def fs1_def fl val_ofs_def)
  have "take (length key) (take (length key + n_blks (length d) * CHD_CSUM_SZ) (drop BE_FS_HDR_SZ (object_file E user key md d))) = key"
    unfolding cp(2) by simp
  then have "take (length key) (drop BE_FS_HDR_SZ (object_file E user key md d)) = key" by simp
  then obtain fs3 where r2: "sys_read fd (length key) fs2 = (Inr key, fs3)" and fs3: "fs3 = fs2\<lparr>fy_fds := (fy_fds fs2)(fd \<mapsto> (ino, BE_FS_HDR_SZ + length key))\<rparr>"
    using r1(2) cp(4) by (simp add: sys_read_def fs2_def fs1_def fl val_ofs_def)
  have q3: "quiet fs3" using r1(2) by (simp add: fs3)
  have cl: "snd (sys_close fd fs3) = fs3\<lparr>fy_fds := (fy_fds fs3)(fd := None)\<rparr>" using q3 by (simp add: sys_close_def)
  have kl: "unat (word_of_nat (length key) :: u32) = length key"
    by (rule unat_small) (use kv in \<open>simp add: key_valid_def CHD_KEY_SZ_def\<close>)
  have cb: "unat (word_of_nat (n_blks (length d)) * word_of_nat CHD_CSUM_SZ :: u32) = n_blks (length d) * CHD_CSUM_SZ"
    using blk_count_ok(3) [OF n, unfolded blk_count_ok(1) [OF n]] .
  have nb: "n_blks (length d) \<le> 2 ^ 27" using n unfolding n_blks_eq by (simp add: CHUNK_BLK_SZ_def) linarith
  have sz: "word_of_nat (length (fy_files fs ino)) - word_of_nat BE_FS_HDR_SZ - word_of_nat (length key) =
      (word_of_nat (n_blks (length d) * CHD_CSUM_SZ + length d) :: u64)"
    unfolding fl cp(4) by (simp add: val_ofs_def)
  have ge: "\<not> (word_of_nat (n_blks (length d) * CHD_CSUM_SZ + length d) :: u64) < word_of_nat (length d)"
    unfolding word_less_nat_alt using n nb by (subst unat_small; simp add: CHD_CSUM_SZ_def)+
  have uc: "ucast (word_of_nat (length key) :: u32) = (word_of_nat (length key) :: u64)"
    by (rule unat_inject) (use kv in \<open>simp add: unsigned_ucast_eq unsigned_of_nat take_bit_nat_eq_self key_valid_def CHD_KEY_SZ_def\<close>)
  have sel: "bh_magic (obj_hdr user key md d) = BE_FS_OBJ_MAGIC" "bh_key_len (obj_hdr user key md d) = word_of_nat (length key)"
    "bh_value_len (obj_hdr user key md d) = word_of_nat (length d)" "bh_n_blk (obj_hdr user key md d) = word_of_nat (n_blks (length d))"
    "bh_hash (obj_hdr user key md d) = md" "bh_owner (obj_hdr user key md d) = strncpy user 128"
    by (simp_all add: obj_hdr_def)
  have "fs_obj_hdr_read fn fs = (Some (info_of fs fn (user, key, md, d)), snd (sys_close fd fs3))"
    using kv unfolding fs_obj_hdr_read_def
    by (simp add: o1 st r1 r2 q3 cp(5,6) Let_def kl cb sel uc sz ge ge [unfolded of_nat_add of_nat_mult] cstr_strncpy [OF u] info_of_def nm key_valid_def)
  moreover have "same_disk fs (snd (sys_close fd fs3))"
    unfolding cl by (simp add: same_disk_def disk_def fs3 fs2_def fs1_def)
  ultimately show ?thesis using q3 by (simp add: cl)
qed


text \<open>Directories are read from the disk.\<close>

definition rd_stable :: "readdir \<Rightarrow> bool" where
  "rd_stable rd \<longleftrightarrow> (\<forall>p a b. same_disk a b \<longrightarrow> rd p b = rd p a)"

lemma names_left_stable: "rd_stable rd \<Longrightarrow> same_disk a b \<Longrightarrow> names_left rd t b = names_left rd t a"
proof -
  assume "rd_stable rd" "same_disk a b"
  then have "sub_names rd x b = sub_names rd x a" for x by (simp add: sub_names_def rd_stable_def)
  then show ?thesis by (simp add: names_left_def root_names_def split: option.splits)
qed

lemma list_loop_quiet:
  assumes sha: "sha_len E" and st: "rd_stable rd"
    and "quiet fs" "ls_sub t = None \<longrightarrow> ls_d t = None" "\<And>fn. fn \<in> set (names_left rd t fs) \<Longrightarrow> obj_at E fs fn (ob fn)"
  shows "fst (list_objs_loop rd user t res fs) =
    res @ map (\<lambda>fn. info_of fs fn (ob fn)) (filter (\<lambda>fn. fst (ob fn) = user) (names_left rd t fs))"
  using assms(3-)
proof (induction t arbitrary: res fs rule: wf_induct_rule [OF lister_order_wf])
  case (1 t)
  note s = list_objs_loop.simps [of rd user t res fs]
  obtain t' where t': "ls_sub t' = None \<longrightarrow> ls_d t' = None"
    and nx: "case names_left rd t fs of [] \<Rightarrow> fs_list_objs_next rd t fs = ((0, []), t', fs)
      | fn # fns \<Rightarrow> fs_list_objs_next rd t fs = ((1, fn), t', fs) \<and> names_left rd t' fs = fns"
    using next_quiet [OF 1(2,3), of rd] by (elim exE conjE) (rule that)
  show ?case
  proof (cases "names_left rd t fs")
    case Nil
    with nx show ?thesis by (simp add: s)
  next
    case (Cons fn fns)
    then have n: "fs_list_objs_next rd t fs = ((1, fn), t', fs)" and left: "names_left rd t' fs = fns" using nx by simp_all
    have lt: "(t', t) \<in> lister_order" by (rule next_decreases [OF n]) simp
    obtain u k md d where o: "ob fn = (u, k, md, d)" by (cases "ob fn") auto
    have "obj_at E fs fn (u, k, md, d)" using 1(4) [of fn] Cons o by simp
    then obtain fs' where h: "fs_obj_hdr_read fn fs = (Some (info_of fs fn (u, k, md, d)), fs')" "quiet fs'" "same_disk fs fs'"
      using hdr_read_quiet [OF sha 1(2)] by blast
    have nl: "names_left rd t' fs' = fns"
      using left names_left_stable [OF st h(3)] by simp
    have ih: "fst (list_objs_loop rd user t' res' fs') = res' @ map (\<lambda>fn. info_of fs fn (ob fn)) (filter (\<lambda>fn. fst (ob fn) = user) fns)" for res'
      using 1(1) [OF lt h(2) t', of res'] 1(4) Cons by (simp add: nl same_disk_obj [OF h(3)])
    have ow: "oi_owner (info_of fs fn (u, k, md, d)) = u" by (simp add: info_of_def)
    show ?thesis using h(1) ih by (auto simp: s n ow Cons o quiet_malloc [OF h(2)])
  qed
qed



definition demo_rd :: readdir where
  "demo_rd p fs = (if p = ascii ''/vol/1'' then Inr [ascii ''.'', ascii ''abc''] else if p = ascii ''/vol/1/abc'' then Inr [ascii ''f'', ascii ''g''] else Inl ENOENT)"

definition demo_files :: fsys where
  "demo_files = demo_fs\<lparr>fy_names := [ascii ''/vol/1/abc/f'' \<mapsto> 1, ascii ''/vol/1/abc/g'' \<mapsto> 2],
     fy_files := (\<lambda>i. object_file demo_env [116 + word_of_nat i] [107] (replicate 20 9) [1, 2])\<rparr>"


end
