(* ===== verification/Objcache.thy ===== *)
theory Objcache
  imports Prelude "HOL-Library.Multiset"
begin

text \<open>
  The table of active objects of \<^verbatim>\<open>chunkd/objcache.c\<close>. Writers mark an object dirty while they
  work on it, the self-check thread looks for the mark. Entries are reference counted and
  identified by a 32-bit hash of the object key. An entry is an object with an address in an
  explicit store, because several threads hold pointers to it; the GLib hash table is a finite
  map from hash values to addresses. Every operation runs under the cache's mutex, so concurrent
  use is an arbitrary interleaving of whole operations: the relation \<open>oc_step\<close>. Errors a C
  program would not survive are values of \<open>outcome\<close>.
\<close>

unbundle bit_operations_syntax

section \<open>Data\<close>

datatype 'a outcome = Done 'a | Null_deref | Use_after_free | Aborted

record objcache_entry =
  oe_hash :: u32
  oe_flags :: u32
  oe_ref :: int

record objcache =
  oc_table :: "u32 \<rightharpoonup> nat"
  oc_heap :: "nat \<rightharpoonup> objcache_entry"
  oc_next :: nat      \<comment> \<open>the address the next allocation returns\<close>

definition OC_F_DIRTY :: u32 where [cfg_simps]: "OC_F_DIRTY = 1"

section \<open>Operations\<close>

fun objcache_hash_loop :: "u32 \<Rightarrow> bytes \<Rightarrow> u32" where
  "objcache_hash_loop hash [] = hash"
| "objcache_hash_loop hash (c # key) =
     (let hash = hash XOR push_bit 16 hash;
          hash = hash XOR ucast c;
          hash = push_bit 8 hash OR drop_bit 24 hash
      in objcache_hash_loop hash key)"

definition objcache_hash :: "bytes \<Rightarrow> u32" where
  "objcache_hash key = objcache_hash_loop 0x55555555 key"

definition objcache_insert :: "bool \<Rightarrow> objcache \<Rightarrow> u32 \<Rightarrow> nat option \<times> objcache" where
  "objcache_insert mem_ok c hash =
     (if \<not> mem_ok then (None, c)
      else
        let cep = oc_next c in
        (Some cep,
         c\<lparr>oc_heap := (oc_heap c)(cep \<mapsto> \<lparr>oe_hash = hash, oe_flags = 0, oe_ref = 1\<rparr>),
           oc_table := (oc_table c)(hash \<mapsto> cep),
           oc_next := Suc cep\<rparr>))"

text \<open>\<open>mem_ok\<close>: whether \<^verbatim>\<open>malloc\<close> succeeds. The result pointer is dereferenced without a check.\<close>

definition objcache_get_flag :: "bool \<Rightarrow> objcache \<Rightarrow> bytes \<Rightarrow> u32 \<Rightarrow> (nat \<times> objcache) outcome" where
  "objcache_get_flag mem_ok c key flag =
     (let hash = objcache_hash key;
          (cep, c) =
            (case oc_table c hash of
               Some p \<Rightarrow>
                 (Some p, c\<lparr>oc_heap := (oc_heap c)(p :=
                     map_option (\<lambda>e. e\<lparr>oe_ref := oe_ref e + 1\<rparr>) (oc_heap c p))\<rparr>)
             | None \<Rightarrow> objcache_insert mem_ok c hash)
      in case cep of
           None \<Rightarrow> Null_deref
         | Some p \<Rightarrow>
             (case oc_heap c p of
                None \<Rightarrow> Use_after_free
              | Some e \<Rightarrow> Done (p, c\<lparr>oc_heap := (oc_heap c)(p \<mapsto> e\<lparr>oe_flags := oe_flags e OR flag\<rparr>)\<rparr>)))"

definition objcache_get :: "bool \<Rightarrow> objcache \<Rightarrow> bytes \<Rightarrow> (nat \<times> objcache) outcome" where
  "objcache_get mem_ok c key = objcache_get_flag mem_ok c key 0"

definition objcache_get_dirty :: "bool \<Rightarrow> objcache \<Rightarrow> bytes \<Rightarrow> (nat \<times> objcache) outcome" where
  "objcache_get_dirty mem_ok c key = objcache_get_flag mem_ok c key OC_F_DIRTY"

definition objcache_test_dirty :: "objcache \<Rightarrow> nat \<Rightarrow> bool outcome" where
  "objcache_test_dirty c cep =
     (case oc_heap c cep of
        None \<Rightarrow> Use_after_free
      | Some e \<Rightarrow> Done (has_flag (oe_flags e) OC_F_DIRTY))"

definition objcache_put :: "objcache \<Rightarrow> nat \<Rightarrow> objcache outcome" where
  "objcache_put c cep =
     (case oc_heap c cep of
        None \<Rightarrow> Use_after_free
      | Some e \<Rightarrow>
          if oe_ref e = 0 then Done c
          else
            let e = e\<lparr>oe_ref := oe_ref e - 1\<rparr>; c = c\<lparr>oc_heap := (oc_heap c)(cep \<mapsto> e)\<rparr> in
            if oe_ref e \<noteq> 0 then Done c
            else if oc_table c (oe_hash e) = None then Aborted
            else Done (c\<lparr>oc_table := (oc_table c)(oe_hash e := None),
                         oc_heap := (oc_heap c)(cep := None)\<rparr>))"

definition objcache_count :: "objcache \<Rightarrow> nat" where
  "objcache_count c = card (dom (oc_table c))"

text \<open>\<open>lock_ok\<close>: whether \<^verbatim>\<open>g_mutex_new\<close> succeeds.\<close>

definition objcache_init :: "bool \<Rightarrow> int \<times> objcache option" where
  "objcache_init lock_ok =
     (if \<not> lock_ok then (- 1, None)
      else (0, Some \<lparr>oc_table = Map.empty, oc_heap = Map.empty, oc_next = 0\<rparr>))"

text \<open>The table has no destroy functions: entries that are still held stay allocated.\<close>

definition objcache_fini :: "objcache \<Rightarrow> objcache" where
  "objcache_fini c = c\<lparr>oc_table := Map.empty\<rparr>"

section \<open>Invariant\<close>

text \<open>
  \<open>held\<close> is the multiset of pointers the threads hold. Table and store describe the same
  entries, and an entry's count is the number of pointers held to it.
\<close>

definition oc_inv :: "objcache \<Rightarrow> nat multiset \<Rightarrow> bool" where
  "oc_inv c held \<longleftrightarrow>
     (\<forall>p e. oc_heap c p = Some e \<longrightarrow>
        oe_ref e = int (count held p) \<and> p \<in># held \<and> oc_table c (oe_hash e) = Some p) \<and>
     (\<forall>h p. oc_table c h = Some p \<longrightarrow> (\<exists>e. oc_heap c p = Some e \<and> oe_hash e = h)) \<and>
     (\<forall>p. p \<in># held \<longrightarrow> oc_heap c p \<noteq> None) \<and>
     (\<forall>p \<ge> oc_next c. oc_heap c p = None)"

lemma oc_inv_init: "objcache_init ok = (rc, Some c) \<Longrightarrow> oc_inv c {#}"
  by (auto simp: oc_inv_def objcache_init_def split: if_splits)

lemma oc_inv_entry:
  "oc_inv c held \<Longrightarrow> oc_heap c p = Some e \<Longrightarrow>
   oe_ref e = int (count held p) \<and> p \<in># held \<and> oc_table c (oe_hash e) = Some p"
  by (simp add: oc_inv_def)

lemma oc_inv_table:
  "oc_inv c held \<Longrightarrow> oc_table c h = Some p \<Longrightarrow> \<exists>e. oc_heap c p = Some e \<and> oe_hash e = h"
  by (simp add: oc_inv_def)

lemma oc_inv_held: "oc_inv c held \<Longrightarrow> p \<in># held \<Longrightarrow> \<exists>e. oc_heap c p = Some e"
  by (auto simp: oc_inv_def)

lemma oc_inv_next: "oc_inv c held \<Longrightarrow> oc_next c \<le> p \<Longrightarrow> oc_heap c p = None"
  by (simp add: oc_inv_def)

lemma oc_invI:
  assumes "\<And>p e. oc_heap c p = Some e \<Longrightarrow>
      oe_ref e = int (count held p) \<and> p \<in># held \<and> oc_table c (oe_hash e) = Some p"
    and "\<And>h p. oc_table c h = Some p \<Longrightarrow> \<exists>e. oc_heap c p = Some e \<and> oe_hash e = h"
    and "\<And>p. p \<in># held \<Longrightarrow> oc_heap c p \<noteq> None"
    and "\<And>p. oc_next c \<le> p \<Longrightarrow> oc_heap c p = None"
  shows "oc_inv c held"
  using assms by (simp add: oc_inv_def)

text \<open>Looking up an entry that exists: its count goes up, its flags accumulate.\<close>

lemma objcache_get_hit:
  assumes "oc_inv c held" and "oc_table c (objcache_hash key) = Some p"
  shows "\<exists>e. oc_heap c p = Some e \<and>
    objcache_get_flag mem_ok c key flag = Done (p, c\<lparr>oc_heap := (oc_heap c)(p \<mapsto>
      e\<lparr>oe_ref := oe_ref e + 1, oe_flags := oe_flags e OR flag\<rparr>)\<rparr>)"
  using oc_inv_table [OF assms] assms(2) by (auto simp: objcache_get_flag_def Let_def)

lemma objcache_get_miss:
  assumes "oc_table c (objcache_hash key) = None"
  shows "objcache_get_flag True c key flag = Done (oc_next c,
    c\<lparr>oc_table := (oc_table c)(objcache_hash key \<mapsto> oc_next c), oc_next := Suc (oc_next c),
      oc_heap := (oc_heap c)(oc_next c \<mapsto> \<lparr>oe_hash = objcache_hash key, oe_flags = flag, oe_ref = 1\<rparr>)\<rparr>)"
  using assms by (simp add: objcache_get_flag_def objcache_insert_def Let_def)

lemma oc_inv_get:
  assumes "oc_inv c held" and "objcache_get_flag True c key flag = Done (p, c')"
  shows "oc_inv c' (add_mset p held)"
proof (cases "oc_table c (objcache_hash key)")
  case None
  then have c': "p = oc_next c" "c' = c\<lparr>oc_table := (oc_table c)(objcache_hash key \<mapsto> oc_next c),
      oc_next := Suc (oc_next c), oc_heap := (oc_heap c)(oc_next c \<mapsto>
        \<lparr>oe_hash = objcache_hash key, oe_flags = flag, oe_ref = 1\<rparr>)\<rparr>"
    using assms(2) objcache_get_miss [OF None, of flag] by auto
  have fresh: "oc_heap c (oc_next c) = None" "oc_next c \<notin># held"
    using oc_inv_next [OF assms(1), of "oc_next c"] oc_inv_held [OF assms(1), of "oc_next c"] by auto
  have nohash: "oe_hash e \<noteq> objcache_hash key" if "oc_heap c q = Some e" for q e
    using oc_inv_entry [OF assms(1) that] None by auto
  have noptr: "oc_table c h \<noteq> Some (oc_next c)" for h
    using oc_inv_table [OF assms(1), of h "oc_next c"] fresh by auto
  show ?thesis
    unfolding c'
    using oc_inv_entry [OF assms(1)] oc_inv_table [OF assms(1)] oc_inv_held [OF assms(1)]
      oc_inv_next [OF assms(1)] fresh nohash noptr
    by (intro oc_invI) (auto simp: not_in_iff split: if_splits)
next
  case (Some q)
  from objcache_get_hit [OF assms(1) Some, of True flag] assms(2) obtain e where
    e: "oc_heap c q = Some e" and p: "p = q" and
    c': "c' = c\<lparr>oc_heap := (oc_heap c)(q \<mapsto> e\<lparr>oe_ref := oe_ref e + 1, oe_flags := oe_flags e OR flag\<rparr>)\<rparr>"
    by auto
  have tab: "oe_hash e = h" if "oc_table c h = Some q" for h
    using oc_inv_table [OF assms(1) that] e by auto
  show ?thesis
    unfolding c' p
    using oc_inv_entry [OF assms(1)] oc_inv_table [OF assms(1)] oc_inv_held [OF assms(1)]
      oc_inv_next [OF assms(1)] e tab
    by (intro oc_invI) (auto split: if_splits)
qed

lemma oc_inv_put:
  assumes "oc_inv c (add_mset p held)"
  shows "\<exists>c'. objcache_put c p = Done c' \<and> oc_inv c' held"
proof -
  obtain e where e: "oc_heap c p = Some e"
    using oc_inv_held [OF assms, of p] by auto
  have ref: "oe_ref e = int (count held p) + 1" and tab: "oc_table c (oe_hash e) = Some p"
    using oc_inv_entry [OF assms e] by auto
  have uniq: "oe_hash e' \<noteq> oe_hash e" if "oc_heap c q = Some e'" "q \<noteq> p" for q e'
    using oc_inv_entry [OF assms that(1)] tab that(2) by auto
  have only: "h = oe_hash e" if "oc_table c h = Some p" for h
    using oc_inv_table [OF assms that] e by auto
  note facts = oc_inv_entry [OF assms] oc_inv_table [OF assms] oc_inv_held [OF assms] oc_inv_next [OF assms]
  show ?thesis
  proof (cases "p \<in># held")
    case False
    then have "objcache_put c p = Done (c\<lparr>oc_table := (oc_table c)(oe_hash e := None),
        oc_heap := (oc_heap c)(p := None)\<rparr>)"
      using e ref tab by (simp add: objcache_put_def Let_def not_in_iff)
    moreover have "oc_inv (c\<lparr>oc_table := (oc_table c)(oe_hash e := None), oc_heap := (oc_heap c)(p := None)\<rparr>) held"
      using facts uniq only False by (intro oc_invI) (auto split: if_splits)
    ultimately show ?thesis by blast
  next
    case True
    then have "objcache_put c p = Done (c\<lparr>oc_heap := (oc_heap c)(p \<mapsto> e\<lparr>oe_ref := int (count held p)\<rparr>)\<rparr>)"
      using e ref by (simp add: objcache_put_def Let_def)
    moreover have "oc_inv (c\<lparr>oc_heap := (oc_heap c)(p \<mapsto> e\<lparr>oe_ref := int (count held p)\<rparr>)\<rparr>) held"
    proof (rule oc_invI, goal_cases)
      case (1 q e')
      then show ?case
        using True tab oc_inv_entry [OF assms, of q e'] by (auto split: if_splits)
    next
      case (2 h q)
      then show ?case
        using only [of h] e oc_inv_table [OF assms, of h q] by auto
    next
      case (3 q)
      then show ?case using oc_inv_held [OF assms, of q] by auto
    next
      case (4 q)
      then show ?case using e oc_inv_next [OF assms, of q] by (auto split: if_splits)
    qed
    ultimately show ?thesis by blast
  qed
qed

section \<open>Interleaved use by several threads\<close>

text \<open>
  One step is one operation of some thread. A thread gets an entry (with or without the dirty
  mark) and may put back a pointer it holds; \<open>held\<close> collects the pointers out.
\<close>

inductive oc_step :: "objcache \<times> nat multiset \<Rightarrow> objcache \<times> nat multiset \<Rightarrow> bool" where
  get: "objcache_get_flag True c key flag = Done (p, c') \<Longrightarrow> oc_step (c, held) (c', add_mset p held)"
| put: "objcache_put c p = Done c' \<Longrightarrow> oc_step (c, add_mset p held) (c', held)"

inductive oc_reach :: "objcache \<times> nat multiset \<Rightarrow> bool" where
  init: "objcache_init True = (0, Some c) \<Longrightarrow> oc_reach (c, {#})"
| step: "oc_reach s \<Longrightarrow> oc_step s s' \<Longrightarrow> oc_reach s'"

inductive_cases oc_stepE: "oc_step (c, held) s'"

lemma oc_step_inv:
  assumes "oc_step (c, held) (c', held')" and "oc_inv c held"
  shows "oc_inv c' held'"
  using assms(1)
proof (cases rule: oc_step.cases)
  case (get key flag p)
  then show ?thesis using oc_inv_get [OF assms(2)] by blast
next
  case (put p)
  then show ?thesis using oc_inv_put [of c p held'] assms(2) by auto
qed

lemma oc_reach_inv: "oc_reach (c, held) \<Longrightarrow> oc_inv c held"
proof (induction "(c, held)" arbitrary: c held rule: oc_reach.induct)
  case init
  then show ?case by (rule oc_inv_init)
next
  case (step s c held)
  then show ?case by (metis oc_step_inv surj_pair)
qed

lemma oc_inv_dom_heap: "oc_inv c held \<Longrightarrow> dom (oc_heap c) = set_mset held"
  using oc_inv_entry [of c held] oc_inv_held [of c held] by fastforce

lemma oc_inv_alive: "oc_inv c held \<Longrightarrow> oc_heap c p = None \<longleftrightarrow> p \<notin># held"
  using oc_inv_entry [of c held p] oc_inv_held [of c held p] by (cases "oc_heap c p") auto

lemma oc_inv_count:
  assumes "oc_inv c held"
  shows "objcache_count c = card (set_mset held)"
proof -
  have "bij_betw (\<lambda>h. the (oc_table c h)) (dom (oc_table c)) (dom (oc_heap c))"
  proof (rule bij_betwI')
    show "the (oc_table c h) = the (oc_table c h') \<longleftrightarrow> h = h'"
      if "h \<in> dom (oc_table c)" "h' \<in> dom (oc_table c)" for h h'
      using that oc_inv_table [OF assms] by (metis domD option.sel)
    show "the (oc_table c h) \<in> dom (oc_heap c)" if "h \<in> dom (oc_table c)" for h
      using that oc_inv_table [OF assms] by (metis domD domI option.sel)
    show "\<exists>h \<in> dom (oc_table c). p = the (oc_table c h)" if "p \<in> dom (oc_heap c)" for p
      using that oc_inv_entry [OF assms] by (metis domD domI option.sel)
  qed
  then show ?thesis
    using oc_inv_dom_heap [OF assms] by (simp add: objcache_count_def bij_betw_same_card)
qed

text \<open>The mark survives every step that leaves the entry alive.\<close>

definition oc_dirty :: "objcache \<Rightarrow> nat \<Rightarrow> bool" where
  "oc_dirty c p \<longleftrightarrow> objcache_test_dirty c p = Done True"

lemma has_flag_or: "has_flag (x OR y) m \<longleftrightarrow> has_flag x m \<or> has_flag y m"
  by (simp add: has_flag_def bit_eq_iff bit_simps) blast

lemma oc_dirty_step:
  assumes "oc_step (c, held) (c', held')" and "oc_inv c held" and "oc_dirty c p" and "p \<in># held'"
  shows "oc_dirty c' p"
proof -
  obtain e where e: "oc_heap c p = Some e" and d: "has_flag (oe_flags e) OC_F_DIRTY"
    using assms(3) by (auto simp: oc_dirty_def objcache_test_dirty_def split: option.splits)
  have "\<exists>e'. oc_heap c' p = Some e' \<and> has_flag (oe_flags e') OC_F_DIRTY"
    using assms(1)
  proof (cases rule: oc_step.cases)
    case (get key flag q)
    show ?thesis
    proof (cases "oc_table c (objcache_hash key)")
      case None
      have "oc_next c \<noteq> p" using e oc_inv_next [OF assms(2), of p] by auto
      with get e d show ?thesis by (auto simp: objcache_get_miss [OF None])
    next
      case (Some q')
      with get e d show ?thesis
        using objcache_get_hit [OF assms(2) Some, of True flag] by (auto simp: has_flag_or)
    qed
  next
    case (put q)
    obtain e' where "oc_heap c' p = Some e'"
      using oc_inv_held [OF oc_step_inv [OF assms(1,2)] assms(4)] by blast
    with put e d show ?thesis
      by (auto simp: objcache_put_def Let_def split: if_splits option.splits)
  qed
  then show ?thesis by (auto simp: oc_dirty_def objcache_test_dirty_def)
qed

lemma objcache_get_marks:
  assumes "oc_inv c held" and "objcache_get_dirty True c key = Done (p, c1)"
  shows "oc_dirty c1 p"
proof (cases "oc_table c (objcache_hash key)")
  case None
  then show ?thesis
    using assms(2) by (auto simp: objcache_get_dirty_def objcache_get_miss oc_dirty_def
        objcache_test_dirty_def has_flag_def OC_F_DIRTY_def)
next
  case (Some q)
  then show ?thesis
    using objcache_get_hit [OF assms(1) Some, of True OC_F_DIRTY] assms(2)
    by (auto simp: objcache_get_dirty_def oc_dirty_def objcache_test_dirty_def has_flag_or)
      (simp add: has_flag_def OC_F_DIRTY_def)
qed

text \<open>Runs during which some pointer to \<open>p\<close> stays held.\<close>

inductive oc_run :: "objcache \<times> nat multiset \<Rightarrow> nat \<Rightarrow> objcache \<times> nat multiset \<Rightarrow> bool" where
  refl: "oc_run s p s"
| step: "oc_run s p (c, held) \<Longrightarrow> oc_step (c, held) (c', held') \<Longrightarrow> p \<in># held' \<Longrightarrow> oc_run s p (c', held')"

lemma oc_run_dirty:
  assumes "oc_run (c1, held1) p (c2, held2)" and "oc_inv c1 held1" and "oc_dirty c1 p"
  shows "oc_inv c2 held2 \<and> oc_dirty c2 p"
  using assms
proof (induction "(c1, held1)" p "(c2, held2)" arbitrary: c2 held2 rule: oc_run.induct)
  case (refl p)
  then show ?case by simp
next
  case (step p c held c' held')
  then show ?case using oc_step_inv oc_dirty_step by blast
qed

section \<open>Properties\<close>


definition oc_two :: objcache where
  "oc_two = \<lparr>oc_table = [objcache_hash [7] \<mapsto> 0],
     oc_heap = [0 \<mapsto> \<lparr>oe_hash = objcache_hash [7], oe_flags = 1, oe_ref = 2\<rparr>], oc_next = 1\<rparr>"

lemma oc_two_reach: "oc_reach (oc_two, {#0, 0#})"
proof -
  let ?e = "\<lparr>oc_table = Map.empty, oc_heap = Map.empty, oc_next = 0\<rparr> :: objcache"
  let ?c = "\<lparr>oc_table = [objcache_hash [7] \<mapsto> 0],
     oc_heap = [0 \<mapsto> \<lparr>oe_hash = objcache_hash [7], oe_flags = 0, oe_ref = 1\<rparr>], oc_next = 1\<rparr>"
  have e: "oc_reach (?e, {#})" by (rule oc_reach.init) (simp add: objcache_init_def)
  have g: "objcache_get_flag True ?e [7] 0 = Done (0, ?c)"
    by (simp add: objcache_get_flag_def objcache_insert_def Let_def)
  have g2: "objcache_get_flag True ?c [7] 1 = Done (0, oc_two)"
    by (simp add: objcache_get_flag_def objcache_insert_def Let_def oc_two_def)
  have c: "oc_reach (?c, {#0#})" by (rule oc_reach.step [OF e oc_step.get [OF g]])
  show ?thesis by (rule oc_reach.step [OF c oc_step.get [OF g2]])
qed


text \<open>
  What the self-check relies on: once a thread has marked an object dirty and as long as
  any pointer to the entry is held, every test for the mark, in any later state of any
  interleaving, sees it; and the number of entries is the number of distinct entries held.
\<close>

theorem objcache_dirty_stays:
  assumes "oc_reach (c, held)" and "objcache_get_dirty True c key = Done (p, c1)"
    and "oc_run (c1, add_mset p held) p (c2, held2)"
  shows "objcache_test_dirty c2 p = Done True \<and> objcache_count c2 = card (set_mset held2)"
proof -
  have inv1: "oc_inv c1 (add_mset p held)"
    using oc_inv_get [OF oc_reach_inv [OF assms(1)]] assms(2) by (simp add: objcache_get_dirty_def)
  have "oc_dirty c1 p"
    using objcache_get_marks [OF oc_reach_inv [OF assms(1)] assms(2)] .
  with oc_run_dirty [OF assms(3) inv1] show ?thesis
    using oc_inv_count by (auto simp: oc_dirty_def)
qed

theorem objcache_dirty_stays_witness:
  "\<exists>c1 c2. objcache_get_dirty True oc_two [7] = Done (0, c1) \<and> objcache_put c1 0 = Done c2 \<and>
     objcache_test_dirty c2 0 = Done True \<and> objcache_count c2 = 1"
proof -
  let ?c = "\<lambda>n. \<lparr>oc_table = [objcache_hash [7] \<mapsto> 0],
     oc_heap = [0 \<mapsto> \<lparr>oe_hash = objcache_hash [7], oe_flags = 1, oe_ref = n\<rparr>], oc_next = 1\<rparr>"
  have g: "objcache_get_dirty True oc_two [7] = Done (0, ?c 3)"
    by (simp add: objcache_get_dirty_def objcache_get_flag_def oc_two_def OC_F_DIRTY_def Let_def)
  have p: "objcache_put (?c 3) 0 = Done (?c 2)" by (simp add: objcache_put_def)
  have "oc_run (?c 3, {#0, 0, 0#}) 0 (?c 2, {#0, 0#})"
    by (rule oc_run.step [OF oc_run.refl oc_step.put [OF p]]) simp
  then have "objcache_test_dirty (?c 2) 0 = Done True \<and> objcache_count (?c 2) = card (set_mset {#0, 0 :: nat#})"
    by (rule objcache_dirty_stays [OF oc_two_reach g])
  with g p show ?thesis by (intro exI [of _ "?c 3"] exI [of _ "?c 2"]) simp
qed

text \<open>
  A lookup either bumps the entry of the key's hash, or creates one, and then needs
  memory: with none it dereferences the null pointer. Two keys share an entry exactly if their
  hashes agree.
\<close>

theorem objcache_get_cases:
  assumes "oc_reach (c, held)"
  shows "objcache_get mem_ok c key =
    (case oc_table c (objcache_hash key) of
       Some p \<Rightarrow> Done (p, c\<lparr>oc_heap := (oc_heap c)(p \<mapsto>
         (the (oc_heap c p))\<lparr>oe_ref := int (count held p) + 1\<rparr>)\<rparr>)
     | None \<Rightarrow> if mem_ok
         then Done (oc_next c, c\<lparr>oc_table := (oc_table c)(objcache_hash key \<mapsto> oc_next c),
           oc_next := Suc (oc_next c), oc_heap := (oc_heap c)(oc_next c \<mapsto>
             \<lparr>oe_hash = objcache_hash key, oe_flags = 0, oe_ref = 1\<rparr>)\<rparr>)
         else Null_deref)"
proof (cases "oc_table c (objcache_hash key)")
  case None
  then show ?thesis
    using objcache_get_miss [OF None, of 0]
    by (auto simp: objcache_get_def objcache_get_flag_def objcache_insert_def)
next
  case (Some p)
  have inv: "oc_inv c held" by (rule oc_reach_inv [OF assms])
  obtain e where e: "oc_heap c p = Some e"
    and get: "objcache_get_flag mem_ok c key 0 = Done (p, c\<lparr>oc_heap := (oc_heap c)(p \<mapsto>
      e\<lparr>oe_ref := oe_ref e + 1, oe_flags := oe_flags e OR 0\<rparr>)\<rparr>)"
    using objcache_get_hit [OF inv Some, of mem_ok 0] by blast
  have "oe_ref e = int (count held p)" using oc_inv_entry [OF inv e] by blast
  with get e Some show ?thesis by (simp add: objcache_get_def)
qed

theorem objcache_get_cases_witness:
  "objcache_get False oc_two [8] = Null_deref"
  using objcache_get_cases [OF oc_two_reach, of False "[8]"]
  by (simp add: oc_two_def objcache_hash_def)

end
