(* ===== verification/Chunk_Conn.thy ===== *)
theory Chunk_Conn
  imports Chunk_Proto Chunk_Table Chunk_List Objcache
begin

text \<open>
  Connections of the chunk daemon (\<^verbatim>\<open>chunkd/server.c\<close>, \<^verbatim>\<open>struct client\<close> of \<^verbatim>\<open>chunkd/chunkd.h\<close>): the queue of
  pending writes with its callbacks, reading from the socket, and the transfer of an object's bytes.
  The state is that of the daemon with that of the connection under work. What the peer sends and how
  the socket behaves is in two scripts: \<open>cl_rds\<close> holds the results of reads (an empty one is the end of
  the stream, an exhausted script means that no data is there yet), \<open>cl_wrs\<close> those of writes (an
  exhausted script means that everything is accepted). For an SSL connection the error numbers are those
  of \<^verbatim>\<open>SSL_get_error\<close>. \<open>cl_sent\<close> is everything the peer has been sent.
\<close>

section \<open>State\<close>

definition CLI_DATA_BUF_SZ :: nat where [cfg_simps]: "CLI_DATA_BUF_SZ = 65536"
definition CHD_TRASH_MAX :: nat where [cfg_simps]: "CHD_TRASH_MAX = 1000"
definition CLI_MAX_SENDFILE_SZ :: nat where [cfg_simps]: "CLI_MAX_SENDFILE_SZ = 524288"
definition CLI_MAX_WR_IOV :: nat where [cfg_simps]: "CLI_MAX_WR_IOV = 32"
definition SSL_ERROR_WANT_READ :: int where [cfg_simps]: "SSL_ERROR_WANT_READ = 2"
definition SSL_ERROR_WANT_WRITE :: int where [cfg_simps]: "SSL_ERROR_WANT_WRITE = 3"
definition SSL_ERROR_ZERO_RETURN :: int where [cfg_simps]: "SSL_ERROR_ZERO_RETURN = 6"
definition EINTR :: int where [cfg_simps]: "EINTR = 4"

datatype client_state =
  evt_read_fixed | evt_read_var | evt_exec_req | evt_data_in | evt_dispose | evt_recycle | evt_ssl_accept

text \<open>The callbacks of a write: none, \<^verbatim>\<open>cli_cb_free\<close>, \<^verbatim>\<open>object_get_more\<close>.\<close>

datatype cli_write_func = Cb_none | Cb_free | Cb_get_more

text \<open>\<open>cw_buf\<close> is what the buffer holds from \<^verbatim>\<open>buf\<close> on; an entry for \<^verbatim>\<open>sendfile\<close> has no buffer.\<close>

record client_write =
  cw_buf :: bytes
  cw_len :: nat
  cw_cb :: cli_write_func
  cw_sendfile :: bool

datatype chk_state = CHK_ST_OFF | CHK_ST_INIT | CHK_ST_IDLE | CHK_ST_RUNNING

datatype chk_cmd = CHK_CMD_EXIT | CHK_CMD_RESCAN

text \<open>Where \<^verbatim>\<open>req_ptr\<close> points to; its offset there is always \<^verbatim>\<open>req_used\<close>.\<close>

datatype req_buf = Buf_creq | Buf_key | Buf_key2 | Buf_getpart

record 'd server =
  cs_fs :: fsys
  cs_tbl :: 'd
  cs_actives :: objcache
  cs_trash_sz :: nat
  cs_opt_write :: nat
  cs_chk_state :: chk_state
  cs_chk_done :: u64
  cs_chk_pipe :: "chk_cmd list"

record 'd conn = "'d server" +
  cl_freed :: bool
  cl_state :: client_state
  cl_ev_read :: bool
  cl_ev_write :: bool
  cl_user :: bytes             \<comment> \<open>a C string\<close>
  cl_table :: bytes            \<comment> \<open>the first \<^verbatim>\<open>table_len\<close> bytes of \<^verbatim>\<open>table\<close>\<close>
  cl_table_id :: u32
  cl_ssl :: bool
  cl_read_want_write :: bool
  cl_write_want_read :: bool
  cl_first_req :: bool
  cl_write_q :: "client_write list"
  cl_writing :: bool
  cl_creq_mem :: bytes
  cl_getpart :: bytes
  cl_req_used :: nat
  cl_req_ptr :: req_buf
  cl_key_len :: u16
  cl_var_len :: u32
  cl_second_var :: bool
  cl_out_user :: "bytes option"
  cl_out_hash :: bytes
  cl_out_len :: nat
  cl_out_bo :: "fs_obj option"
  cl_out_ce :: "nat option"
  cl_in_len :: nat
  cl_in_obj :: "fs_obj option"
  cl_key :: bytes
  cl_key2 :: bytes
  cl_worker :: bool
  cl_rds :: "(int + bytes) list"
  cl_wrs :: "(int + nat) list"
  cl_sent :: bytes

text \<open>
  What is not in the repository or is fixed when the daemon starts: the file system's parameters, the
  table database, directory reading, HMAC, whether \<^verbatim>\<open>sendfile\<close> was compiled in, markup escaping and
  time formatting, the users that may start a self-check.
\<close>

record 'd chenv =
  ch_fs :: cenv
  ch_db :: "'d tcdb"
  ch_rd :: readdir
  ch_hmac :: "bytes \<Rightarrow> bytes \<Rightarrow> bytes"
  ch_sendfile :: bool
  ch_escape :: "bytes \<Rightarrow> bytes"
  ch_timestr :: "u64 \<Rightarrow> bytes"
  ch_chk_users :: "bytes list"

definition cl_creq :: "('d, 'z) conn_scheme \<Rightarrow> chunksrv_req" where
  "cl_creq s = req_of (cl_creq_mem s)"

text \<open>The key of the request: the first \<^verbatim>\<open>key_len\<close> bytes of \<^verbatim>\<open>key\<close>.\<close>

definition cli_key :: "('d, 'z) conn_scheme \<Rightarrow> bytes" where
  "cli_key s = take (unat (cl_key_len s)) (cl_key s)"

definition use_sendfile :: "'d chenv \<Rightarrow> 'd conn \<Rightarrow> bool" where
  "use_sendfile E s \<longleftrightarrow> ch_sendfile E \<and> \<not> cl_ssl s"

definition conn_malloc :: "'d conn \<Rightarrow> bool \<times> 'd conn" where
  "conn_malloc s = (case fs_malloc (cs_fs s) of (ok, fs) \<Rightarrow> (ok, s\<lparr>cs_fs := fs\<rparr>))"

section \<open>Polling\<close>

definition cli_rd_set_poll :: "bool \<Rightarrow> 'd conn \<Rightarrow> 'd conn" where
  "cli_rd_set_poll readable s = s\<lparr>cl_ev_read := readable\<rparr>"

definition cli_wr_set_poll :: "bool \<Rightarrow> 'd conn \<Rightarrow> 'd conn" where
  "cli_wr_set_poll writable s = s\<lparr>cl_ev_write := writable\<rparr>"

section \<open>Queueing writes\<close>

text \<open>
  The length is an \<^verbatim>\<open>unsigned int\<close>. A record comes from the daemon's recycled ones or from the heap.
  The bytes are copied into the model's queue: no buffer is changed while it is queued, since
  \<^verbatim>\<open>netbuf_out\<close> is only filled again by the callback of the write that sent it, and a new request is only
  read when the queue is empty.
\<close>

definition cli_writeq :: "bytes \<Rightarrow> cli_write_func \<Rightarrow> 'd conn \<Rightarrow> int \<times> 'd conn" where
  "cli_writeq buf cb s =
     (let buflen = unat (word_of_nat (length buf) :: u32);
          wr = \<lparr>cw_buf = take buflen buf, cw_len = buflen, cw_cb = cb, cw_sendfile = False\<rparr>
      in if buflen = 0 then (- EINVAL, s)
         else if cs_trash_sz s = 0
         then (case conn_malloc s of
                 (ok, s) \<Rightarrow> if \<not> ok then (- ENOMEM, s) else (0, s\<lparr>cl_write_q := cl_write_q s @ [wr]\<rparr>))
         else (0, s\<lparr>cs_trash_sz := cs_trash_sz s - 1, cl_write_q := cl_write_q s @ [wr]\<rparr>))"

definition cli_wr_sendfile :: "cli_write_func \<Rightarrow> 'd conn \<Rightarrow> bool \<times> 'd conn" where
  "cli_wr_sendfile cb s =
     (case conn_malloc s of
        (ok, s) \<Rightarrow>
          if \<not> ok then (False, s)
          else (True, s\<lparr>cl_write_q := cl_write_q s @ [\<lparr>cw_buf = [], cw_len = cl_in_len s, cw_cb = cb, cw_sendfile = True\<rparr>]\<rparr>))"

section \<open>Sending an object\<close>

definition cli_in_end :: "'d conn \<Rightarrow> 'd conn" where
  "cli_in_end s = (case cl_in_obj s of None \<Rightarrow> s | Some obj \<Rightarrow> s\<lparr>cs_fs := fs_obj_free obj (cs_fs s), cl_in_obj := None\<rparr>)"

definition object_read_bytes :: "'d chenv \<Rightarrow> ('d conn, bool) run" where
  "object_read_bytes E s =
     (if use_sendfile E s then rcall (cli_wr_sendfile Cb_get_more) s
      else
        case cl_in_obj s of
          None \<Rightarrow> rfault F_null s
        | Some obj \<Rightarrow>
            (case fs_obj_read (ch_fs E) obj (min (cl_in_len s) CLI_DATA_BUF_SZ) (cs_fs s) of
               (Inl e, obj, fs) \<Rightarrow> rret False (s\<lparr>cs_fs := fs, cl_in_obj := Some obj\<rparr>)
             | (Inr d, obj, fs) \<Rightarrow>
                 let s = s\<lparr>cs_fs := fs, cl_in_obj := Some obj\<rparr> in
                 if d = [] \<and> cl_in_len s \<noteq> 0 then rret False s
                 else
                   let s = s\<lparr>cl_in_len := cl_in_len s - length d\<rparr>;
                       s = (if cl_in_len s = 0 then cli_in_end s else s)
                   in case cli_writeq d (if cl_in_len s \<noteq> 0 then Cb_get_more else Cb_none) s of
                        (rc, s) \<Rightarrow> rret (rc = 0) s))"

definition object_get_more :: "'d chenv \<Rightarrow> bool \<Rightarrow> ('d conn, bool) run" where
  "object_get_more E fin s =
     (if \<not> fin then rret False s
      else if cl_in_len s = 0 then rret True (cli_in_end s)
      else rbind (object_read_bytes E) (\<lambda>ok s. if ok then rret True s else rret False (cli_in_end s)) s)"

section \<open>Completing writes\<close>

text \<open>The callback runs, then the entry, which is the first of the queue, is taken out and recycled.\<close>

definition cli_write_free :: "'d chenv \<Rightarrow> client_write \<Rightarrow> bool \<Rightarrow> ('d conn, bool) run" where
  "cli_write_free E tmp fin =
     rbind (case cw_cb tmp of Cb_get_more \<Rightarrow> object_get_more E fin | _ \<Rightarrow> rret False) (\<lambda>rcb.
     rbind (rmod (\<lambda>s. s\<lparr>cl_write_q := drop 1 (cl_write_q s),
                        cs_trash_sz := (if cs_trash_sz s < CHD_TRASH_MAX then cs_trash_sz s + 1 else cs_trash_sz s)\<rparr>)) (\<lambda>_.
     rret rcb))"

fun free_entries :: "'d chenv \<Rightarrow> client_write list \<Rightarrow> ('d conn, unit) run" where
  "free_entries E [] = rret ()"
| "free_entries E (wr # q) = rbind (cli_write_free E wr False) (\<lambda>_. free_entries E q)"

definition cli_write_free_all :: "'d chenv \<Rightarrow> ('d conn, unit) run" where
  "cli_write_free_all E s = free_entries E (cl_write_q s) s"

partial_function (option) cli_wr_completed :: "'d chenv \<Rightarrow> nat \<Rightarrow> bool \<Rightarrow> 'd conn \<Rightarrow> (fault + bool \<times> 'd conn) option" where
  "cli_wr_completed E rc more_work s =
     (if rc = 0 then rret more_work s
      else
        case cl_write_q s of
          [] \<Rightarrow> rfault F_list s
        | tmp # q \<Rightarrow>
            let sz = (if cw_len tmp < rc then cw_len tmp else rc);
                tmp = tmp\<lparr>cw_len := cw_len tmp - sz, cw_buf := drop sz (cw_buf tmp)\<rparr>;
                s = s\<lparr>cl_write_q := tmp # q\<rparr>
            in if cw_len tmp = 0
               then rbind (cli_write_free E tmp True) (\<lambda>rcb. cli_wr_completed E (rc - sz) (more_work \<or> rcb)) s
               else cli_wr_completed E (rc - sz) more_work s)"

text \<open>The entries that go into one \<^verbatim>\<open>writev\<close>: \<open>n\<close> more are possible, \<open>total\<close> bytes are already in.\<close>

fun cli_wr_iov :: "nat \<Rightarrow> nat \<Rightarrow> client_write list \<Rightarrow> client_write list" where
  "cli_wr_iov n tot [] = []"
| "cli_wr_iov 0 tot (tmp # q) = []"
| "cli_wr_iov (Suc n) tot (tmp # q) =
     (if cw_len tmp > 2 ^ 63 - 1 then []
      else if (tot + cw_len tmp) mod 2 ^ 64 < tot then []
      else tmp # cli_wr_iov n (tot + cw_len tmp) q)"

definition sock_write :: "bytes \<Rightarrow> 'd conn \<Rightarrow> (int + nat) \<times> 'd conn" where
  "sock_write b s =
     (case cl_wrs s of
        [] \<Rightarrow> (Inr (length b), s\<lparr>cl_sent := cl_sent s @ b\<rparr>)
      | Inl e # w \<Rightarrow> (Inl e, s\<lparr>cl_wrs := w\<rparr>)
      | Inr n # w \<Rightarrow> (Inr (min n (length b)), s\<lparr>cl_wrs := w, cl_sent := cl_sent s @ take n b\<rparr>))"

text \<open>
  An entry for \<^verbatim>\<open>sendfile\<close> has a null buffer but a length; in the vector it makes the kernel stop with what
  was copied before it, or fail.
\<close>

definition iov_bytes :: "client_write list \<Rightarrow> bytes" where
  "iov_bytes iov = concat (map (\<lambda>w. take (cw_len w) (cw_buf w)) (takeWhile (\<lambda>w. \<not> cw_sendfile w) iov))"

text \<open>The error exit.\<close>

definition writable_err :: "'d chenv \<Rightarrow> ('d conn, unit) run" where
  "writable_err E = rbind (rmod (\<lambda>s. s\<lparr>cl_state := evt_dispose\<rparr>)) (\<lambda>_. cli_write_free_all E)"

text \<open>The non-blocking write: how many bytes went out, or nothing more to do now.\<close>

definition do_write :: "'d chenv \<Rightarrow> ('d conn, nat option) run" where
  "do_write E s =
     (case cl_write_q s of
        [] \<Rightarrow> rfault F_list s
      | tmp # q \<Rightarrow>
          if cw_sendfile tmp
          then (case cl_in_obj s of
                  None \<Rightarrow> rfault F_null s
                | Some obj \<Rightarrow>
                    (case fs_obj_sendfile obj (min (cl_in_len s) CLI_MAX_SENDFILE_SZ) (cs_fs s) of
                       (Inl e, obj, fs) \<Rightarrow> rbind (writable_err E) (\<lambda>_. rret None) (s\<lparr>cs_fs := fs, cl_in_obj := Some obj\<rparr>)
                     | (Inr d, obj, fs) \<Rightarrow>
                         rret (Some (length d)) (s\<lparr>cs_fs := fs, cl_in_obj := Some obj, cl_in_len := cl_in_len s - length d,
                                                   cl_sent := cl_sent s @ d\<rparr>)))
          else if cl_ssl s
          then (case sock_write (take (cw_len tmp) (cw_buf tmp)) s of
                  (r, s) \<Rightarrow>
                    (case (if r = Inr 0 then Inl SSL_ERROR_ZERO_RETURN else r) of
                       Inl e \<Rightarrow>
                         if e = SSL_ERROR_WANT_READ then rret None (s\<lparr>cl_write_want_read := True\<rparr>)
                         else if e = SSL_ERROR_WANT_WRITE then rret None s
                         else rbind (writable_err E) (\<lambda>_. rret None) s
                     | Inr rc \<Rightarrow> rret (Some rc) s))
          else (case sock_write (iov_bytes (cli_wr_iov CLI_MAX_WR_IOV 0 (cl_write_q s)))
                       (s\<lparr>cl_wrs := dropWhile (\<lambda>r. r = Inl EINTR) (cl_wrs s)\<rparr>) of
                  (Inl e, s) \<Rightarrow> if e \<noteq> EAGAIN then rbind (writable_err E) (\<lambda>_. rret None) s else rret None s
                | (Inr rc, s) \<Rightarrow> rret (Some rc) s))"

partial_function (option) cli_writable :: "'d chenv \<Rightarrow> 'd conn \<Rightarrow> (fault + unit \<times> 'd conn) option" where
  "cli_writable E s =
     rbind (do_write E) (\<lambda>r.
       case r of
         None \<Rightarrow> rret ()
       | Some rc \<Rightarrow>
           rbind (cli_wr_completed E rc False) (\<lambda>more_work s.
             if cl_write_q s = [] then rret () (cli_wr_set_poll False (s\<lparr>cl_writing := False\<rparr>))
             else if more_work then cli_writable E s
             else rret () s)) s"

definition cli_write_start :: "'d chenv \<Rightarrow> ('d conn, bool) run" where
  "cli_write_start E s =
     (if cl_write_q s = [] then rret True s
      else if cl_writing s then rret False s
      else
        rbind (cli_writable E) (\<lambda>_ s.
        if cl_write_q s = [] then rret True (s\<lparr>cs_opt_write := cs_opt_write s + 1\<rparr>)
        else rret False (cli_wr_set_poll True s\<lparr>cl_writing := True\<rparr>)) s)"

section \<open>Responses\<close>

definition queue_resp :: "'d chenv \<Rightarrow> bytes \<Rightarrow> ('d conn, bool) run" where
  "queue_resp E resp = rbind (rcall (cli_writeq resp Cb_free)) (\<lambda>rc. if rc \<noteq> 0 then rret True else cli_write_start E)"

definition cli_err :: "'d chenv \<Rightarrow> chunk_errcode \<Rightarrow> bool \<Rightarrow> ('d conn, bool) run" where
  "cli_err E code recycle_ok =
     rbind (rcall conn_malloc) (\<lambda>ok.
     if \<not> ok then rbind (rmod (\<lambda>s. s\<lparr>cl_state := evt_dispose\<rparr>)) (\<lambda>_. rret True)
     else
       rbind (rmod (\<lambda>s. s\<lparr>cl_state := (if recycle_ok then evt_recycle else evt_dispose)\<rparr>)) (\<lambda>_.
       rbind (rget cl_creq) (\<lambda>creq.
       queue_resp E (resp_bytes ((resp_init_req creq)\<lparr>rs_resp_code := errcode_num code\<rparr>)))))"

section \<open>Reading\<close>

definition sock_read :: "nat \<Rightarrow> 'd conn \<Rightarrow> (int + bytes) \<times> 'd conn" where
  "sock_read n s =
     (case cl_rds s of
        [] \<Rightarrow> (Inl (if cl_ssl s then SSL_ERROR_WANT_READ else EAGAIN), s)
      | Inl e # r \<Rightarrow> (Inl e, s\<lparr>cl_rds := r\<rparr>)
      | Inr d # r \<Rightarrow>
          if length d \<le> n then (Inr d, s\<lparr>cl_rds := r\<rparr>)
          else (Inr (take n d), s\<lparr>cl_rds := Inr (drop n d) # r\<rparr>))"

text \<open>An error, or the bytes read (none when there is nothing to read yet).\<close>

definition cli_read_data :: "nat \<Rightarrow> 'd conn \<Rightarrow> (int + bytes) \<times> 'd conn" where
  "cli_read_data buflen s =
     (if buflen = 0 then (Inr [], s)
      else if cl_ssl s
      then (case sock_read buflen s of
              (Inl e, s) \<Rightarrow>
                if e = SSL_ERROR_WANT_READ then (Inr [], s)
                else if e = SSL_ERROR_WANT_WRITE then (Inr [], cli_wr_set_poll True (s\<lparr>cl_read_want_write := True\<rparr>))
                else (Inl EIO, s)
            | (Inr d, s) \<Rightarrow> if d = [] then (Inl EPIPE, s) else (Inr d, s))
      else (case sock_read buflen (s\<lparr>cl_rds := dropWhile (\<lambda>r. r = Inl EINTR) (cl_rds s)\<rparr>) of
              (Inl e, s) \<Rightarrow> if e = EAGAIN then (Inr [], s) else (Inl e, s)
            | (Inr d, s) \<Rightarrow> if d = [] then (Inl EPIPE, s) else (Inr d, s)))"

section \<open>End of a connection\<close>

definition objcache_run :: "(objcache \<Rightarrow> 'a outcome) \<Rightarrow> ('a \<Rightarrow> 'd conn \<Rightarrow> 'd conn) \<Rightarrow> ('d conn, 'a) run" where
  "objcache_run f upd s =
     (case f (cs_actives s) of
        Done x \<Rightarrow> rret x (upd x s)
      | Null_deref \<Rightarrow> rfault F_null s
      | Use_after_free \<Rightarrow> rfault F_free s
      | Aborted \<Rightarrow> rfault F_abort s)"

definition cli_out_end :: "('d conn, unit) run" where
  "cli_out_end =
     rbind (rmod (\<lambda>s. case cl_out_bo s of None \<Rightarrow> s | Some bo \<Rightarrow> s\<lparr>cs_fs := fs_obj_free bo (cs_fs s), cl_out_bo := None\<rparr>)) (\<lambda>_.
     rbind (rget cl_out_ce) (\<lambda>out_ce.
     rbind (case out_ce of
              None \<Rightarrow> rret ()
            | Some ce \<Rightarrow>
                rbind (objcache_run (\<lambda>c. objcache_put c ce) (\<lambda>c s. s\<lparr>cs_actives := c, cl_out_ce := None\<rparr>)) (\<lambda>_. rret ())) (\<lambda>_.
     rmod (\<lambda>s. s\<lparr>cl_out_user := None\<rparr>))))"

definition cli_free :: "'d chenv \<Rightarrow> ('d conn, unit) run" where
  "cli_free E =
     rbind (cli_write_free_all E) (\<lambda>_.
     rbind cli_out_end (\<lambda>_.
     rmod (\<lambda>s. (cli_in_end s)\<lparr>cl_freed := True, cl_ev_read := False, cl_ev_write := False\<rparr>)))"

text \<open>A new connection.\<close>

definition cli_alloc :: "'d server \<Rightarrow> (int + bytes) list \<Rightarrow> (int + nat) list \<Rightarrow> 'd conn" where
  "cli_alloc srv rds wrs = server.extend srv
     (conn.fields False evt_read_fixed False False [] [] 0 False False False True [] False (replicate CHUNKSRV_REQ_SZ 0)
       (replicate GETPART_SZ 0) 0 Buf_creq 0 0 False None [] 0 None None 0 None (replicate CHD_KEY_SZ 0) (replicate CHD_KEY_SZ 0)
       False rds wrs [])"

end
