(* ===== verification/Chunk_Req.thy ===== *)
theory Chunk_Req
  imports Chunk_Conn
begin

text \<open>
  The requests of the chunk daemon: \<^verbatim>\<open>chunkd/object.c\<close> and the handlers and the state machine of
  \<^verbatim>\<open>chunkd/server.c\<close>. Handlers return whether the state machine should go on at once.
\<close>

section \<open>Shared steps\<close>

definition set_state :: "client_state \<Rightarrow> ('d conn, unit) run" where
  "set_state st = rmod (\<lambda>s. s\<lparr>cl_state := st\<rparr>)"

text \<open>\<^verbatim>\<open>resp = malloc(..); if (!resp) { cli->state = evt_dispose; return true; }\<close>\<close>

definition with_resp :: "(chunksrv_resp \<Rightarrow> ('d conn, bool) run) \<Rightarrow> ('d conn, bool) run" where
  "with_resp f =
     rbind (rcall conn_malloc) (\<lambda>ok.
     if \<not> ok then rbind (set_state evt_dispose) (\<lambda>_. rret True)
     else rbind (rget cl_creq) (\<lambda>creq. f (resp_init_req creq)))"

text \<open>A call of the object store.\<close>

definition fs_call :: "(fsys \<Rightarrow> 'a \<times> fsys) \<Rightarrow> ('d conn, 'a) run" where
  "fs_call f = rcall (\<lambda>s. case f (cs_fs s) of (x, fs) \<Rightarrow> (x, s\<lparr>cs_fs := fs\<rparr>))"

section \<open>Deleting and storing\<close>

definition object_del :: "'d chenv \<Rightarrow> ('d conn, bool) run" where
  "object_del E =
     with_resp (\<lambda>resp.
     rbind (rget (\<lambda>s. s)) (\<lambda>s.
     rbind (fs_call (fs_obj_delete (ch_fs E) (cl_table_id s) (cl_user s) (cli_key s))) (\<lambda>r.
     case r of
       Inl err \<Rightarrow> cli_err E err True
     | Inr _ \<Rightarrow> queue_resp E (resp_bytes resp))))"

text \<open>
  \<^verbatim>\<open>out_user\<close> is the result of an unchecked \<^verbatim>\<open>strdup\<close>; \<^verbatim>\<open>fs_obj_write_commit\<close> reads it once it has compared the
  sizes. \<open>err\<close> is never set: a failed commit is an internal error.
\<close>

definition object_put_end :: "'d chenv \<Rightarrow> ('d conn, bool) run" where
  "object_put_end E =
     with_resp (\<lambda>resp.
     rbind (set_state evt_recycle) (\<lambda>_.
     rbind (rget (\<lambda>s. s)) (\<lambda>s.
     let md = ce_sha1 (ch_fs E) (cl_out_hash s) in
     case cl_out_bo s of
       None \<Rightarrow> rfault F_null
     | Some bo \<Rightarrow>
         if cl_out_user s = None \<and> fo_size bo = fo_written_bytes bo then rfault F_null
         else
           rbind (rcall (\<lambda>s. case fs_obj_write_commit (ch_fs E) bo (case cl_out_user s of None \<Rightarrow> [] | Some u \<Rightarrow> u) md
                                    (has_flag (rq_flags (cl_creq s)) CHF_SYNC) (cs_fs s) of
                               (rcb, bo, fs) \<Rightarrow> (rcb, s\<lparr>cs_fs := fs, cl_out_bo := Some bo\<rparr>))) (\<lambda>rcb.
           rbind cli_out_end (\<lambda>_.
           if \<not> rcb then cli_err E che_InternalError True
           else queue_resp E (resp_bytes (resp\<lparr>rs_hash := md\<rparr>)))))))"

text \<open>The loop that hands a received buffer to the object store.\<close>

partial_function (option) data_in_loop :: "'d chenv \<Rightarrow> bytes \<Rightarrow> 'd conn \<Rightarrow> (fault + bool \<times> 'd conn) option" where
  "data_in_loop E p s =
     (if p = [] then rret True s
      else
        case cl_out_bo s of
          None \<Rightarrow> rfault F_null s
        | Some bo \<Rightarrow>
            (case fs_obj_write (ch_fs E) bo p (cs_fs s) of
               None \<Rightarrow> None
             | Some (r, bo, fs) \<Rightarrow>
                 (case r of
                    Inl e \<Rightarrow> rret False (s\<lparr>cs_fs := fs, cl_out_bo := Some bo\<rparr>)
                  | Inr n \<Rightarrow>
                      data_in_loop E (drop n p) (s\<lparr>cs_fs := fs, cl_out_bo := Some bo, cl_out_hash := cl_out_hash s @ take n p,
                                                 cl_out_len := cl_out_len s - n\<rparr>))))"

definition data_in_read :: "'d chenv \<Rightarrow> bytes \<Rightarrow> ('d conn, bool) run" where
  "data_in_read E d =
     rbind (data_in_loop E d) (\<lambda>ok.
     if \<not> ok then rbind cli_out_end (\<lambda>_. cli_err E che_InternalError False)
     else rbind (rget cl_out_len) (\<lambda>out_len. if out_len = 0 then object_put_end E else rret True))"

definition cli_evt_data_in :: "'d chenv \<Rightarrow> ('d conn, bool) run" where
  "cli_evt_data_in E =
     rbind (rget (\<lambda>s. s)) (\<lambda>s.
     if cl_out_len s = 0 then object_put_end E
     else
       rbind (rcall (sock_read (min (cl_out_len s) CLI_DATA_BUF_SZ))) (\<lambda>r.
       case r of
         Inl e \<Rightarrow>
           if cl_ssl s
           then (if e = SSL_ERROR_WANT_READ then rret False
                 else if e = SSL_ERROR_WANT_WRITE
                 then rbind (rmod (\<lambda>s. cli_wr_set_poll True (s\<lparr>cl_read_want_write := True\<rparr>))) (\<lambda>_. rret False)
                 else cli_err E che_InternalError False)
           else (if e = EAGAIN then rret False
                 else rbind cli_out_end (\<lambda>_. cli_err E che_InternalError False))
       | Inr d \<Rightarrow> if d = [] then rbind (set_state evt_dispose) (\<lambda>_. rret True) else data_in_read E d))"

definition object_put :: "'d chenv \<Rightarrow> ('d conn, bool) run" where
  "object_put E =
     rbind (rget (\<lambda>s. s)) (\<lambda>s.
     let content_len = rq_data_len (cl_creq s) in
     rbind (rcall conn_malloc) (\<lambda>ok.
     rbind (objcache_run (\<lambda>c. objcache_get_dirty ok c (cli_key s)) (\<lambda>(ce, c) s. s\<lparr>cs_actives := c, cl_out_ce := Some ce\<rparr>)) (\<lambda>_.
     rbind (fs_call (fs_obj_new (ch_fs E) (cl_table_id s) (cli_key s) content_len)) (\<lambda>r.
     case r of
       Inl err \<Rightarrow> cli_err E err True
     | Inr bo \<Rightarrow>
         rbind (rcall conn_malloc) (\<lambda>ok.
         rbind (rmod (\<lambda>s. s\<lparr>cl_out_bo := Some bo, cl_out_hash := [], cl_out_len := unat content_len,
                            cl_out_user := (if ok then Some (cl_user s) else None)\<rparr>)) (\<lambda>_.
         if unat content_len = 0 then object_put_end E
         else rbind (set_state evt_data_in) (\<lambda>_. rret True)))))))"

section \<open>Reading\<close>

text \<open>
  \<^verbatim>\<open>err\<close> is \<^verbatim>\<open>che_Success\<close> once \<^verbatim>\<open>fs_obj_open\<close> has returned an object, also in the error exits after it.
\<close>

definition object_get :: "'d chenv \<Rightarrow> bool \<Rightarrow> ('d conn, bool) run" where
  "object_get E want_body =
     with_resp (\<lambda>resp.
     rbind (rget (\<lambda>s. s)) (\<lambda>s.
     rbind (fs_call (fs_obj_open (ch_fs E) (cl_table_id s) (cl_user s) (cli_key s))) (\<lambda>r.
     case r of
       Inl err \<Rightarrow> rbind (rmod (\<lambda>s. s\<lparr>cl_in_obj := None\<rparr>)) (\<lambda>_. cli_err E err True)
     | Inr obj \<Rightarrow>
         rbind (rmod (\<lambda>s. s\<lparr>cl_in_obj := Some obj, cl_in_len := unat (fo_size obj)\<rparr>)) (\<lambda>_.
         rbind (rcall (cli_writeq (resp_get_bytes (resp\<lparr>rs_data_len := fo_size obj, rs_hash := fo_hash obj\<rparr>) (fo_mtime obj)) Cb_free)) (\<lambda>rc.
         if rc \<noteq> 0 then rret True
         else if \<not> want_body \<or> fo_size obj = 0 then rbind (rmod cli_in_end) (\<lambda>_. cli_write_start E)
         else
           rbind (object_read_bytes E) (\<lambda>ok.
           if \<not> ok then rbind (rmod cli_in_end) (\<lambda>_. cli_err E che_Success False)
           else cli_write_start E))))))"

text \<open>The range of a request: offset, length asked for, and the object's size give length, aligned offset and aligned length.\<close>

definition part_range :: "u64 \<Rightarrow> u64 \<Rightarrow> u64 \<Rightarrow> u64 \<times> u64 \<times> u64" where
  "part_range offset data_len obj_size =
     (let blk_mask = word_of_nat (CHUNK_BLK_SZ - 1);
          max_getpart = word_of_nat (CHUNK_MAX_GETPART * CHUNK_BLK_SZ);
          aligned_ofs = offset AND NOT blk_mask;
          remain = obj_size - offset;
          aligned_rem = obj_size - aligned_ofs;
          len = (if data_len = 0 \<or> data_len > remain then remain else data_len);
          len = (if len > max_getpart then max_getpart else len);
          aligned_len = len + (offset - aligned_ofs);
          aligned_len = (if aligned_len AND blk_mask \<noteq> 0 then aligned_len + (word_of_nat CHUNK_BLK_SZ - (aligned_len AND blk_mask)) else aligned_len);
          aligned_len = (if aligned_len > aligned_rem then aligned_rem else aligned_len)
      in (len, aligned_ofs, aligned_len))"

text \<open>From the point where the data is in memory; \<^verbatim>\<open>mem\<close> is null when the length is 0.\<close>

definition part_resp :: "'d chenv \<Rightarrow> chunksrv_resp \<Rightarrow> u64 \<Rightarrow> u64 \<Rightarrow> u64 \<times> u64 \<times> u64 \<Rightarrow> bytes option \<Rightarrow> u64 \<Rightarrow> ('d conn, bool) run" where
  "part_resp E resp offset obj_size rng mem mtime =
     (case rng of
        (len, aligned_ofs, aligned_len) \<Rightarrow>
          if mem = None \<and> aligned_len \<noteq> 0 then rfault F_null
          else
            let data = (case mem of None \<Rightarrow> [] | Some d \<Rightarrow> d);
                flags = (if len = obj_size - offset then rs_flags resp OR CHF_GET_PART_LAST else rs_flags resp);
                resp = resp\<lparr>rs_flags := flags, rs_data_len := len, rs_hash := ce_sha1 (ch_fs E) data\<rparr>
            in rbind (rcall (cli_writeq (resp_get_bytes resp mtime) Cb_free)) (\<lambda>rc.
               if rc \<noteq> 0 then rret True
               else
                 rbind (if len \<noteq> 0 then rcall (cli_writeq (take (unat len) (drop (unat (offset - aligned_ofs)) data)) Cb_free)
                        else rret 0) (\<lambda>rc.
                 if rc \<noteq> 0 then rfault F_free
                 else rbind (rmod cli_in_end) (\<lambda>_. cli_write_start E))))"

definition object_get_part :: "'d chenv \<Rightarrow> ('d conn, bool) run" where
  "object_get_part E =
     with_resp (\<lambda>resp.
     rbind (rget (\<lambda>s. s)) (\<lambda>s.
     rbind (fs_call (fs_obj_open (ch_fs E) (cl_table_id s) (cl_user s) (cli_key s))) (\<lambda>r.
     case r of
       Inl err \<Rightarrow> rbind (rmod (\<lambda>s. s\<lparr>cl_in_obj := None\<rparr>)) (\<lambda>_. cli_err E err True)
     | Inr obj \<Rightarrow>
         rbind (rmod (\<lambda>s. s\<lparr>cl_in_obj := Some obj, cl_in_len := unat (fo_size obj)\<rparr>)) (\<lambda>_.
         let offset = of_le_bytes (cl_getpart s) in
         if offset > fo_size obj then cli_err E che_InvalidSeek True
         else
           let rng = part_range offset (rq_data_len (cl_creq s)) (fo_size obj) in
           case rng of
             (len, aligned_ofs, aligned_len) \<Rightarrow>
               if len = 0 then part_resp E resp offset (fo_size obj) rng None (fo_mtime obj)
               else
                 rbind (fs_call (\<lambda>fs. case fs_obj_seek obj (unat aligned_ofs) fs of (rc, obj, fs) \<Rightarrow> ((rc, obj), fs))) (\<lambda>(rc, obj).
                 rbind (rmod (\<lambda>s. s\<lparr>cl_in_obj := Some obj\<rparr>)) (\<lambda>_.
                 if rc \<noteq> 0 then cli_err E che_InvalidSeek True
                 else
                   rbind (rcall conn_malloc) (\<lambda>ok.
                   if \<not> ok then cli_err E che_Success True
                   else
                     rbind (fs_call (\<lambda>fs. case fs_obj_read (ch_fs E) obj (unat aligned_len) fs of (r, obj, fs) \<Rightarrow> ((r, obj), fs))) (\<lambda>(r, obj).
                     rbind (rmod (\<lambda>s. s\<lparr>cl_in_obj := Some obj\<rparr>)) (\<lambda>_.
                     case r of
                       Inl e \<Rightarrow> cli_err E che_Success True
                     | Inr d \<Rightarrow>
                         if length d \<noteq> unat aligned_len then cli_err E che_Success True
                         else part_resp E resp offset (fo_size obj) rng (Some d) (fo_mtime obj))))))))))"

section \<open>Copying\<close>

text \<open>The loop of \<^verbatim>\<open>worker_cp_thr\<close>: \<^verbatim>\<open>false\<close> for \<^verbatim>\<open>goto err_out\<close>. A read of nothing ends it early.\<close>

partial_function (option) cp_write_loop :: "'d chenv \<Rightarrow> bytes \<Rightarrow> nat \<Rightarrow> 'd conn \<Rightarrow> (fault + bool \<times> 'd conn) option" where
  "cp_write_loop E buf rrc s =
     (if rrc = 0 then rret True s
      else
        case cl_out_bo s of
          None \<Rightarrow> rfault F_null s
        | Some bo \<Rightarrow>
            (case fs_obj_write (ch_fs E) bo (take rrc buf) (cs_fs s) of
               None \<Rightarrow> None
             | Some (r, bo, fs) \<Rightarrow>
                 (case r of
                    Inl e \<Rightarrow> rret False (s\<lparr>cs_fs := fs, cl_out_bo := Some bo\<rparr>)
                  | Inr wrc \<Rightarrow> cp_write_loop E buf (rrc - wrc) (s\<lparr>cs_fs := fs, cl_out_bo := Some bo\<rparr>))))"

partial_function (option) cp_loop :: "'d chenv \<Rightarrow> 'd conn \<Rightarrow> (fault + bool \<times> 'd conn) option" where
  "cp_loop E s =
     (if cl_in_len s = 0 then rret True s
      else
        case cl_in_obj s of
          None \<Rightarrow> rfault F_null s
        | Some obj \<Rightarrow>
            (case fs_obj_read (ch_fs E) obj (min (cl_in_len s) CLI_DATA_BUF_SZ) (cs_fs s) of
               (r, obj, fs) \<Rightarrow>
                 (case r of
                    Inl e \<Rightarrow> rret False (s\<lparr>cs_fs := fs, cl_in_obj := Some obj\<rparr>)
                  | Inr d \<Rightarrow>
                      if d = [] then rret True (s\<lparr>cs_fs := fs, cl_in_obj := Some obj\<rparr>)
                      else
                        rbind (cp_write_loop E d (length d)) (\<lambda>ok s. if \<not> ok then rret False s else cp_loop E s)
                          (s\<lparr>cs_fs := fs, cl_in_obj := Some obj, cl_out_hash := cl_out_hash s @ d, cl_in_len := cl_in_len s - length d\<rparr>))))"

text \<open>The thread's work; the result is \<^verbatim>\<open>wi->err\<close>.\<close>

definition cp_copy :: "'d chenv \<Rightarrow> fs_obj \<Rightarrow> ('d conn, chunk_errcode) run" where
  "cp_copy E obj =
     rbind (rget (\<lambda>s. s)) (\<lambda>s.
     rbind (rcall conn_malloc) (\<lambda>ok.
     rbind (objcache_run (\<lambda>c. objcache_get_dirty ok c (cli_key s)) (\<lambda>(ce, c) s. s\<lparr>cs_actives := c, cl_out_ce := Some ce\<rparr>)) (\<lambda>_.
     rbind (fs_call (fs_obj_new (ch_fs E) (cl_table_id s) (cli_key s) (fo_size obj))) (\<lambda>r.
     case r of
       Inl err \<Rightarrow> rret err
     | Inr bo \<Rightarrow>
         rbind (rmod (\<lambda>s. s\<lparr>cl_out_bo := Some bo, cl_out_hash := []\<rparr>)) (\<lambda>_.
         rbind (cp_loop E) (\<lambda>ok.
         if \<not> ok then rret che_Success
         else
           rbind (rget (\<lambda>s. s)) (\<lambda>s.
           case cl_out_bo s of
             None \<Rightarrow> rfault F_null
           | Some bo \<Rightarrow>
               rbind (rcall (\<lambda>s. case fs_obj_write_commit (ch_fs E) bo (cl_user s) (ce_sha1 (ch_fs E) (cl_out_hash s)) False (cs_fs s) of
                                   (rcb, bo, fs) \<Rightarrow> (rcb, s\<lparr>cs_fs := fs, cl_out_bo := Some bo\<rparr>))) (\<lambda>rcb.
               rret che_Success))))))))"

definition worker_cp_thr :: "'d chenv \<Rightarrow> ('d conn, chunk_errcode) run" where
  "worker_cp_thr E =
     rbind (rget (\<lambda>s. s)) (\<lambda>s.
     rbind (rcall conn_malloc) (\<lambda>ok.
     rbind (if \<not> ok then rret che_InternalError
            else
              rbind (fs_call (fs_obj_open (ch_fs E) (cl_table_id s) (cl_user s) (take (unat (cl_var_len s)) (cl_key2 s)))) (\<lambda>r.
              case r of
                Inl err \<Rightarrow> rbind (rmod (\<lambda>s. s\<lparr>cl_in_obj := None\<rparr>)) (\<lambda>_. rret err)
              | Inr obj \<Rightarrow>
                  rbind (rmod (\<lambda>s. s\<lparr>cl_in_obj := Some obj, cl_in_len := unat (fo_size obj)\<rparr>)) (\<lambda>_. cp_copy E obj))) (\<lambda>err.
     rbind (rmod cli_in_end) (\<lambda>_.
     rbind cli_out_end (\<lambda>_.
     rret err)))))"

definition object_cp :: "'d chenv \<Rightarrow> ('d conn, bool) run" where
  "object_cp E =
     rbind (rmod (cli_rd_set_poll False)) (\<lambda>_.
     rbind (rcall conn_malloc) (\<lambda>ok.
     if \<not> ok then rbind (rmod (cli_rd_set_poll True)) (\<lambda>_. cli_err E che_InternalError False)
     else rbind (rmod (\<lambda>s. s\<lparr>cl_worker := True\<rparr>)) (\<lambda>_. rret False)))"

section \<open>Users, tables, listing, self-check\<close>

definition login_user :: "'d chenv \<Rightarrow> ('d conn, bool) run" where
  "login_user E =
     rbind (rget (\<lambda>s. s)) (\<lambda>s.
     if cl_key_len s < 1 \<or> unat (cl_key_len s) > CHD_USER_SZ
     then rbind (set_state evt_dispose) (\<lambda>_. cli_err E che_InvalidArgument False)
     else
       let user = cstr (cli_key s) in
       rbind (rmod (\<lambda>s. s\<lparr>cl_user := user\<rparr>)) (\<lambda>_.
       if \<not> authcheck (ch_hmac E) (cl_creq s) (cl_getpart s) (cli_key s) user
       then rbind (set_state evt_dispose) (\<lambda>_. cli_err E che_SignatureDoesNotMatch False)
       else cli_err E che_Success True))"

definition volume_open :: "'d chenv \<Rightarrow> ('d conn, bool) run" where
  "volume_open E =
     rbind (rcall (\<lambda>s. case fs_table_open (ch_db E) (ch_fs E) (cli_key s) (has_flag (rq_flags (cl_creq s)) CHF_TBL_CREAT)
                              (has_flag (rq_flags (cl_creq s)) CHF_TBL_EXCL) (cl_table_id s) (cs_tbl s) (cs_fs s) of
                         (err, table_id, d, fs) \<Rightarrow> (err, s\<lparr>cl_table_id := table_id, cs_tbl := d, cs_fs := fs\<rparr>))) (\<lambda>err.
     rbind (rmod (\<lambda>s. if err = che_Success then s\<lparr>cl_table := cli_key s\<rparr> else s)) (\<lambda>_.
     cli_err E err True))"

fun cli_write_list :: "bytes list \<Rightarrow> ('d conn, int) run" where
  "cli_write_list [] = rret 0"
| "cli_write_list (x # xs) = rbind (rcall (cli_writeq x Cb_free)) (\<lambda>rc. if rc \<noteq> 0 then rret rc else cli_write_list xs)"

definition cli_resp_list :: "'d chenv \<Rightarrow> bytes list \<Rightarrow> ('d conn, bool) run" where
  "cli_resp_list E content =
     rbind (rget cl_creq) (\<lambda>creq.
     let resp = (resp_init_req creq)\<lparr>rs_data_len := word_of_nat (length (concat content))\<rparr> in
     rbind (set_state evt_recycle) (\<lambda>_.
     rbind (rcall (cli_writeq (resp_bytes resp) Cb_free)) (\<lambda>rc.
     if rc \<noteq> 0 then rbind (set_state evt_dispose) (\<lambda>_. rret True)
     else
       rbind (cli_write_list content) (\<lambda>rc.
       if rc \<noteq> 0 then rbind (set_state evt_dispose) (\<lambda>_. rret True)
       else
         rbind (cli_write_start E) (\<lambda>rcb.
         rbind (rget cl_state) (\<lambda>st. rret (st = evt_recycle \<or> rcb)))))))"

definition cli_resp_xml :: "'d chenv \<Rightarrow> bytes list \<Rightarrow> ('d conn, bool) run" where
  "cli_resp_xml E content =
     rbind (rcall conn_malloc) (\<lambda>ok.
     if \<not> ok then rbind (set_state evt_dispose) (\<lambda>_. rret True) else cli_resp_list E content)"

definition cli_resp_bin :: "'d chenv \<Rightarrow> bytes \<Rightarrow> ('d conn, bool) run" where
  "cli_resp_bin E data =
     rbind (rcall conn_malloc) (\<lambda>ok.
     if \<not> ok then rbind (set_state evt_dispose) (\<lambda>_. rret True)
     else
       rbind (rcall conn_malloc) (\<lambda>ok.
       if \<not> ok then rbind (set_state evt_dispose) (\<lambda>_. rret True) else cli_resp_list E [data]))"

definition CRLF :: bytes where "CRLF = [13, 10]"

definition list_entry :: "'d chenv \<Rightarrow> obj_info \<Rightarrow> bytes" where
  "list_entry E ve =
     ascii ''  <Contents>'' @ CRLF @
     ascii ''    <Name>'' @ ch_escape E (oi_key ve) @ ascii ''</Name>'' @ CRLF @
     ascii ''    <LastModified>'' @ ch_timestr E (oi_mtime ve) @ ascii ''</LastModified>'' @ CRLF @
     ascii ''    <ETag>'' @ hexstr (oi_hash ve) @ ascii ''</ETag>'' @ CRLF @
     ascii ''    <Size>'' @ fmt_base 10 (unat (oi_size ve)) @ ascii ''</Size>'' @ CRLF @
     ascii ''    <Owner>'' @ oi_owner ve @ ascii ''</Owner>'' @ CRLF @
     ascii ''  </Contents>'' @ CRLF"

definition list_head :: bytes where
  "list_head = ascii ''<?xml version=\"1.0\" encoding=\"UTF-8\"?>'' @ CRLF @
     ascii ''<ListVolumeResult xmlns=\"http://indy.yyz.us/doc/2006-03-01/\">'' @ CRLF @ ascii ''  <Name>volume</Name>'' @ CRLF"

definition volume_list :: "'d chenv \<Rightarrow> ('d conn, bool) run" where
  "volume_list E =
     rbind (rget (\<lambda>s. s)) (\<lambda>s.
     rbind (fs_call (fs_list_objs (ch_rd E) (ch_fs E) (cl_table_id s) (cl_user s))) (\<lambda>res.
     cli_resp_xml E ([list_head] @ map (list_entry E) res @ [ascii ''</ListVolumeResult>'' @ CRLF])))"

definition chk_user_authorized :: "'d chenv \<Rightarrow> 'd conn \<Rightarrow> bool" where
  "chk_user_authorized E s = list_ex (\<lambda>u. strcmp (cl_user s) u = 0) (ch_chk_users E)"

text \<open>Thread creation has a scripted outcome.\<close>

definition chk_spawn :: "'d conn \<Rightarrow> int \<times> 'd conn" where
  "chk_spawn s =
     (case conn_malloc s of
        (ok, s) \<Rightarrow>
          if \<not> ok then (- 1, s)
          else (case sys_plain (cs_fs s) of (r, fs) \<Rightarrow> (case r of Inl _ \<Rightarrow> - 1 | Inr _ \<Rightarrow> 0, s\<lparr>cs_fs := fs\<rparr>)))"

definition chk_start :: "'d chenv \<Rightarrow> ('d conn, bool) run" where
  "chk_start E =
     rbind (rget (\<lambda>s. s)) (\<lambda>s.
     if \<not> chk_user_authorized E s then cli_err E che_AccessDenied True
     else
       let send = rbind (rmod (\<lambda>s. s\<lparr>cs_chk_pipe := cs_chk_pipe s @ [CHK_CMD_RESCAN]\<rparr>)) (\<lambda>_. cli_err E che_Success True) in
       case cs_chk_state s of
         CHK_ST_OFF \<Rightarrow>
           rbind (rmod (\<lambda>s. s\<lparr>cs_chk_state := CHK_ST_INIT\<rparr>)) (\<lambda>_.
           rbind (rcall chk_spawn) (\<lambda>rc.
           if rc \<noteq> 0 then cli_err E che_InternalError True else send))
       | CHK_ST_INIT \<Rightarrow> cli_err E che_Busy True
       | CHK_ST_RUNNING \<Rightarrow> cli_err E che_Busy True
       | _ \<Rightarrow> rbind (rmod (\<lambda>s. s\<lparr>cs_chk_state := CHK_ST_RUNNING\<rparr>)) (\<lambda>_. send))"

definition check_status_bytes :: "chk_state \<Rightarrow> u64 \<Rightarrow> bytes" where
  "check_status_bytes st lastdone =
     [case st of CHK_ST_IDLE \<Rightarrow> 1 | CHK_ST_INIT \<Rightarrow> 2 | CHK_ST_RUNNING \<Rightarrow> 2 | _ \<Rightarrow> 0, 0, 0, 0] @ replicate 4 0 @ le_bytes 8 lastdone"

definition chk_status :: "'d chenv \<Rightarrow> ('d conn, bool) run" where
  "chk_status E = rbind (rget (\<lambda>s. check_status_bytes (cs_chk_state s) (cs_chk_done s))) (\<lambda>outbuf. cli_resp_bin E outbuf)"

section \<open>The state machine\<close>

text \<open>\<^verbatim>\<open>SSL_new\<close> and \<^verbatim>\<open>SSL_set_fd\<close> succeed or fail like allocations.\<close>

definition start_tls :: "('d conn, bool) run" where
  "start_tls =
     rbind (rget cl_first_req) (\<lambda>first.
     if \<not> first then rbind (set_state evt_dispose) (\<lambda>_. rret True)
     else
       rbind (rcall conn_malloc) (\<lambda>ok.
       if \<not> ok then rbind (set_state evt_dispose) (\<lambda>_. rret True)
       else
         rbind (rmod (\<lambda>s. s\<lparr>cl_ssl := True\<rparr>)) (\<lambda>_.
         rbind (rcall conn_malloc) (\<lambda>ok.
         rbind (set_state (if ok then evt_ssl_accept else evt_dispose)) (\<lambda>_. rret True)))))"

definition needs_table :: "u8 \<Rightarrow> bool" where
  "needs_table op \<longleftrightarrow> op \<in> {CHO_GET, CHO_GET_META, CHO_PUT, CHO_DEL, CHO_LIST}"

definition run_op :: "'d chenv \<Rightarrow> u8 \<Rightarrow> ('d conn, bool) run" where
  "run_op E op =
     (if op = CHO_LOGIN then login_user E
      else if op = CHO_NOP then cli_err E che_Success True
      else if op = CHO_GET then object_get E True
      else if op = CHO_GET_META then object_get E False
      else if op = CHO_GET_PART then object_get_part E
      else if op = CHO_PUT then object_put E
      else if op = CHO_DEL then object_del E
      else if op = CHO_CP then object_cp E
      else if op = CHO_LIST then volume_list E
      else if op = CHO_TABLE_OPEN then volume_open E
      else if op = CHO_CHECK_START then chk_start E
      else if op = CHO_CHECK_STATUS then chk_status E
      else if op = CHO_START_TLS then start_tls
      else cli_err E che_InvalidURI True)"

definition cli_evt_exec_req :: "'d chenv \<Rightarrow> ('d conn, bool) run" where
  "cli_evt_exec_req E =
     rbind (rget (\<lambda>s. s)) (\<lambda>s.
     let req = cl_creq s; logged_in = (cl_user s \<noteq> []); have_table = (cl_table s \<noteq> []) in
     if \<not> valid_req_hdr req then cli_err E che_InvalidArgument False
     else if logged_in \<and> \<not> authcheck (ch_hmac E) req (cl_getpart s) (cli_key s) (cl_user s)
     then cli_err E che_SignatureDoesNotMatch False
     else
       rbind (set_state evt_recycle) (\<lambda>_.
       if \<not> logged_in \<and> rq_op req \<noteq> CHO_LOGIN \<and> rq_op req \<noteq> CHO_START_TLS
       then rbind (set_state evt_dispose) (\<lambda>_. rret True)
       else if needs_table (rq_op req) \<and> \<not> have_table then cli_err E che_InvalidTable False
       else if rq_op req = CHO_LOGIN \<and> logged_in then cli_err E che_InvalidArgument False
       else
         rbind (run_op E (rq_op req)) (\<lambda>rcb.
         rbind (rmod (\<lambda>s. s\<lparr>cl_first_req := False\<rparr>)) (\<lambda>_. rret rcb))))"

text \<open>Received bytes go to \<^verbatim>\<open>req_ptr\<close>, which may run past the end of its array.\<close>

definition put_buf :: "nat \<Rightarrow> bytes \<Rightarrow> bytes \<Rightarrow> bytes" where
  "put_buf pos d b = take pos b @ d @ drop (pos + length d) b"

definition recv :: "bytes \<Rightarrow> ('d conn, unit) run" where
  "recv d s =
     (let pos = cl_req_used s; over = (\<lambda>b. pos + length d > length b) in
      case cl_req_ptr s of
        Buf_creq \<Rightarrow> if over (cl_creq_mem s) then rfault F_overflow s
                    else rret () (s\<lparr>cl_creq_mem := put_buf pos d (cl_creq_mem s), cl_req_used := pos + length d\<rparr>)
      | Buf_key \<Rightarrow> if over (cl_key s) then rfault F_overflow s
                   else rret () (s\<lparr>cl_key := put_buf pos d (cl_key s), cl_req_used := pos + length d\<rparr>)
      | Buf_key2 \<Rightarrow> if over (cl_key2 s) then rfault F_overflow s
                    else rret () (s\<lparr>cl_key2 := put_buf pos d (cl_key2 s), cl_req_used := pos + length d\<rparr>)
      | Buf_getpart \<Rightarrow> if over (cl_getpart s) then rfault F_overflow s
                       else rret () (s\<lparr>cl_getpart := put_buf pos d (cl_getpart s), cl_req_used := pos + length d\<rparr>))"

definition fixed_done :: "('d conn, bool) run" where
  "fixed_done s =
     (let s = s\<lparr>cl_key_len := rq_key_len (cl_creq s)\<rparr> in
      if cl_key_len s = 0 then rret True (s\<lparr>cl_state := evt_exec_req\<rparr>)
      else if unat (cl_key_len s) > CHD_KEY_SZ then rret True (s\<lparr>cl_state := evt_dispose\<rparr>)
      else rret True (s\<lparr>cl_req_ptr := Buf_key, cl_var_len := ucast (cl_key_len s), cl_req_used := 0, cl_state := evt_read_var,
                        cl_second_var := False\<rparr>))"

definition cli_evt_read_fixed :: "'d chenv \<Rightarrow> ('d conn, bool) run" where
  "cli_evt_read_fixed E =
     rbind (rget cl_req_used) (\<lambda>used.
     rbind (rcall (cli_read_data (CHUNKSRV_REQ_SZ - used))) (\<lambda>r.
     case r of
       Inl e \<Rightarrow> rbind (set_state evt_dispose) (\<lambda>_. rret True)
     | Inr d \<Rightarrow>
         rbind (recv d) (\<lambda>_.
         rbind (rget cl_req_used) (\<lambda>used.
         if used < CHUNKSRV_REQ_SZ then rret False else fixed_done))))"

definition var_done :: "('d conn, bool) run" where
  "var_done s =
     (let op = rq_op (cl_creq s) in
      if op = CHO_CP \<and> \<not> cl_second_var s
      then rret True (s\<lparr>cl_req_ptr := Buf_key2, cl_var_len := ucast (rq_data_len (cl_creq s)), cl_req_used := 0, cl_state := evt_read_var,
                        cl_second_var := True\<rparr>)
      else if op = CHO_GET_PART \<and> \<not> cl_second_var s
      then rret True (s\<lparr>cl_req_ptr := Buf_getpart, cl_var_len := word_of_nat GETPART_SZ, cl_req_used := 0, cl_state := evt_read_var,
                        cl_second_var := True\<rparr>)
      else rret True (s\<lparr>cl_state := evt_exec_req\<rparr>))"

definition cli_evt_read_var :: "'d chenv \<Rightarrow> ('d conn, bool) run" where
  "cli_evt_read_var E =
     rbind (rget (\<lambda>s. unat (cl_var_len s) - cl_req_used s)) (\<lambda>n.
     rbind (rcall (cli_read_data n)) (\<lambda>r.
     case r of
       Inl e \<Rightarrow> rbind (set_state evt_dispose) (\<lambda>_. rret True)
     | Inr d \<Rightarrow>
         rbind (recv d) (\<lambda>_.
         rbind (rget (\<lambda>s. cl_req_used s < unat (cl_var_len s))) (\<lambda>more.
         if more then rret False else var_done))))"

definition cli_evt_dispose :: "'d chenv \<Rightarrow> ('d conn, bool) run" where
  "cli_evt_dispose E s = (if cl_write_q s = [] then rbind (cli_free E) (\<lambda>_. rret False) s else rret False s)"

definition cli_evt_recycle :: "('d conn, bool) run" where
  "cli_evt_recycle s =
     (if cl_write_q s \<noteq> [] then rret False s
      else rret True (s\<lparr>cl_req_ptr := Buf_creq, cl_req_used := 0, cl_state := evt_read_fixed\<rparr>))"

text \<open>An entry of the read script is one call of \<^verbatim>\<open>SSL_accept\<close>: done, or an error number.\<close>

definition ssl_accept :: "'d conn \<Rightarrow> (int + unit) \<times> 'd conn" where
  "ssl_accept s =
     (case cl_rds s of
        [] \<Rightarrow> (Inl SSL_ERROR_WANT_READ, s)
      | Inl e # r \<Rightarrow> (Inl e, s\<lparr>cl_rds := r\<rparr>)
      | Inr _ # r \<Rightarrow> (Inr (), s\<lparr>cl_rds := r\<rparr>))"

definition cli_evt_ssl_accept :: "('d conn, bool) run" where
  "cli_evt_ssl_accept =
     rbind (rcall ssl_accept) (\<lambda>r.
     case r of
       Inr _ \<Rightarrow> rbind (set_state evt_recycle) (\<lambda>_. rret True)
     | Inl e \<Rightarrow>
         if e = SSL_ERROR_WANT_READ then rret False
         else if e = SSL_ERROR_WANT_WRITE
         then rbind (rmod (\<lambda>s. cli_wr_set_poll True (s\<lparr>cl_read_want_write := True\<rparr>))) (\<lambda>_. rret False)
         else rbind (set_state evt_dispose) (\<lambda>_. rret True))"

definition state_func :: "'d chenv \<Rightarrow> client_state \<Rightarrow> ('d conn, bool) run" where
  "state_func E st =
     (case st of
        evt_read_fixed \<Rightarrow> cli_evt_read_fixed E
      | evt_read_var \<Rightarrow> cli_evt_read_var E
      | evt_exec_req \<Rightarrow> cli_evt_exec_req E
      | evt_data_in \<Rightarrow> cli_evt_data_in E
      | evt_dispose \<Rightarrow> cli_evt_dispose E
      | evt_recycle \<Rightarrow> cli_evt_recycle
      | evt_ssl_accept \<Rightarrow> cli_evt_ssl_accept)"

partial_function (option) cli_loop :: "'d chenv \<Rightarrow> 'd conn \<Rightarrow> (fault + unit \<times> 'd conn) option" where
  "cli_loop E s = rbind (state_func E (cl_state s)) (\<lambda>lp s. if lp then cli_loop E s else rret () s) s"

definition tcp_cli_wr_event :: "'d chenv \<Rightarrow> ('d conn, unit) run" where
  "tcp_cli_wr_event E s =
     (if cl_read_want_write s then rret () (cli_wr_set_poll False (s\<lparr>cl_read_want_write := False\<rparr>)) else cli_writable E s)"

definition tcp_cli_event :: "'d chenv \<Rightarrow> bool \<Rightarrow> bool \<Rightarrow> ('d conn, unit) run" where
  "tcp_cli_event E ev_read ev_write =
     rbind (if ev_write then tcp_cli_wr_event E else rret ()) (\<lambda>_.
     rbind (rget cl_write_want_read) (\<lambda>wwr.
     rbind (if wwr then rbind (rmod (\<lambda>s. s\<lparr>cl_write_want_read := False\<rparr>)) (\<lambda>_. cli_writable E) else rret ()) (\<lambda>_.
     rbind (rget cl_state) (\<lambda>st.
     if \<not> ev_read \<and> st \<noteq> evt_dispose then rret ()
     else if \<not> wwr then cli_loop E
     else rret ()))))"

text \<open>
  The end of a copy, on the main thread. The events are \<^verbatim>\<open>POLLIN\<close> and \<^verbatim>\<open>POLLOUT\<close>: the first is not libevent's
  \<^verbatim>\<open>EV_READ\<close>, the second has the value of \<^verbatim>\<open>EV_WRITE\<close>.
\<close>

definition worker_cp_pipe :: "'d chenv \<Rightarrow> chunk_errcode \<Rightarrow> ('d conn, unit) run" where
  "worker_cp_pipe E err =
     rbind (rmod (\<lambda>s. cli_rd_set_poll True (s\<lparr>cl_worker := False\<rparr>))) (\<lambda>_.
     rbind (cli_err E err (err = che_Success)) (\<lambda>rcb.
     if rcb then rbind (rget cl_writing) (\<lambda>w. tcp_cli_event E False w) else rret ()))"

end
