(* ===== verification/Chunk_Frame.thy ===== *)
theory Chunk_Frame
  imports Chunk_Req
begin

text \<open>
  How requests are read from a byte stream that arrives in arbitrary pieces. \<open>polls\<close> is what the state
  machine of a connection does over any number of read events; the peer's bytes are the pieces in
  \<open>cl_rds\<close>.
\<close>

section \<open>Read events\<close>

text \<open>The connection exists and no SSL write waits for input.\<close>

definition live :: "'d conn \<Rightarrow> bool" where
  "live s \<longleftrightarrow> \<not> cl_freed s \<and> \<not> cl_write_want_read s"

inductive polls :: "'d chenv \<Rightarrow> 'd conn \<Rightarrow> 'd conn \<Rightarrow> bool" for E where
  polls_here: "polls E s s"
| polls_step: "live s \<Longrightarrow> state_func E (cl_state s) s = Some (Inr (lp, s1)) \<Longrightarrow> polls E s1 s2 \<Longrightarrow> polls E s s2"

lemma polls_trans: "polls E s s1 \<Longrightarrow> polls E s1 s2 \<Longrightarrow> polls E s s2"
  by (induction rule: polls.induct) (auto intro: polls_step)

lemma polls_one: "live s \<Longrightarrow> state_func E (cl_state s) s = Some (Inr (lp, s1)) \<Longrightarrow> polls E s s1"
  by (auto intro: polls_step polls_here)

text \<open>The events of a connection until it is closed.\<close>

fun cli_events :: "'d chenv \<Rightarrow> (bool \<times> bool) list \<Rightarrow> ('d conn, unit) run" where
  "cli_events E [] s = rret () s"
| "cli_events E ((ev_read, ev_write) # evs) s =
     (if cl_freed s then rret () s else rbind (tcp_cli_event E ev_read ev_write) (\<lambda>_. cli_events E evs) s)"

text \<open>Nothing to do until more input arrives.\<close>

definition waiting :: "'d chenv \<Rightarrow> 'd conn \<Rightarrow> bool" where
  "waiting E s \<longleftrightarrow> live s \<and> state_func E (cl_state s) s = Some (Inr (False, s))"

lemma read_event: "live s \<Longrightarrow> tcp_cli_event E True False s = cli_loop E s"
  by (simp add: tcp_cli_event_def run_simps live_def)

lemma read_events: "live s \<Longrightarrow> cli_events E (replicate (Suc n) (True, False)) s = rbind (cli_loop E) (\<lambda>_. cli_events E (replicate n (True, False))) s"
  by (simp add: read_event rbind_def live_def [THEN iffD1])

lemma waiting_loop: "waiting E s \<Longrightarrow> cli_loop E s = Some (Inr ((), s))"
  by (subst cli_loop.simps) (simp add: waiting_def run_simps)

lemma waiting_events: "waiting E s \<Longrightarrow> cli_events E (replicate n (True, False)) s = Some (Inr ((), s))"
proof (induction n)
  case (Suc n)
  then show ?case unfolding waiting_def using read_events [of s E n] waiting_loop [OF Suc.prems] by (simp add: rbind_def del: cli_events.simps(2))
qed (simp add: rret_def)

text \<open>A run, continued to where the state machine stops for good, is what read events do.\<close>

lemma polls_loop:
  "polls E s t \<Longrightarrow> live t \<Longrightarrow> cli_loop E t = Some (Inr ((), s')) \<Longrightarrow> (\<And>n. cli_events E (replicate n (True, False)) s' = Some (Inr ((), s'))) \<Longrightarrow>
   \<exists>n. cli_events E (replicate (Suc n) (True, False)) s = Some (Inr ((), s'))"
proof (induction rule: polls.induct)
  case (polls_here s)
  then have "cli_events E (replicate (Suc 0) (True, False)) s = Some (Inr ((), s'))"
    unfolding read_events [OF polls_here.prems(1)] by (simp add: rbind_def rret_def)
  then show ?case by blast
next
  case (polls_step s lp s1 s2)
  then obtain n where n: "cli_events E (replicate (Suc n) (True, False)) s1 = Some (Inr ((), s'))" by blast
  have l: "cli_loop E s = (if lp then cli_loop E s1 else Some (Inr ((), s1)))"
    using polls_step.hyps(2) by (subst cli_loop.simps) (simp add: run_simps)
  have live: "live s1" using polls_step.hyps(3) polls_step.prems(1) by (cases rule: polls.cases) auto
  show ?case
  proof (cases lp)
    case True
    then have "cli_events E (replicate (Suc n) (True, False)) s = Some (Inr ((), s'))"
      using n l unfolding read_events [OF polls_step.hyps(1)] read_events [OF live] by (simp add: rbind_def)
    then show ?thesis by blast
  next
    case False
    then have "cli_events E (replicate (Suc (Suc n)) (True, False)) s = Some (Inr ((), s'))"
      unfolding read_events [OF polls_step.hyps(1)] using l n by (simp add: rbind_def)
    then show ?thesis by blast
  qed
qed

lemma polls_events:
  assumes "polls E s s'" "waiting E s'"
  shows "\<exists>n. cli_events E (replicate n (True, False)) s = Some (Inr ((), s'))"
proof -
  have "live s'" using assms(2) by (simp add: waiting_def)
  from polls_loop [OF assms(1) this waiting_loop [OF assms(2)] waiting_events [OF assms(2)]] show ?thesis by blast
qed

lemma freed_events: "cl_freed s \<Longrightarrow> cli_events E (replicate n (True, False)) s = Some (Inr ((), s))"
  by (cases n) (simp_all add: rret_def)

section \<open>Records\<close>

text \<open>The buffer \<^verbatim>\<open>req_ptr\<close> points into.\<close>

definition cur_buf :: "'d conn \<Rightarrow> bytes" where
  "cur_buf s = (case cl_req_ptr s of Buf_creq \<Rightarrow> cl_creq_mem s | Buf_key \<Rightarrow> cl_key s | Buf_key2 \<Rightarrow> cl_key2 s | Buf_getpart \<Rightarrow> cl_getpart s)"

definition set_buf :: "bytes \<Rightarrow> 'd conn \<Rightarrow> 'd conn" where
  "set_buf b s = (case cl_req_ptr s of Buf_creq \<Rightarrow> s\<lparr>cl_creq_mem := b\<rparr> | Buf_key \<Rightarrow> s\<lparr>cl_key := b\<rparr> | Buf_key2 \<Rightarrow> s\<lparr>cl_key2 := b\<rparr>
     | Buf_getpart \<Rightarrow> s\<lparr>cl_getpart := b\<rparr>)"

lemma recv_eq:
  "recv d s = (if cl_req_used s + length d > length (cur_buf s) then rfault F_overflow s
     else rret () ((set_buf (put_buf (cl_req_used s) d (cur_buf s)) s)\<lparr>cl_req_used := cl_req_used s + length d\<rparr>))"
  by (simp add: recv_def cur_buf_def set_buf_def Let_def split: req_buf.split)

text \<open>Both reading states are this, with the length of the record and what follows it.\<close>

definition read_rec :: "('d conn \<Rightarrow> nat) \<Rightarrow> ('d conn, bool) run \<Rightarrow> ('d conn, bool) run" where
  "read_rec want fin =
     rbind (rget (\<lambda>s. want s - cl_req_used s)) (\<lambda>n.
     rbind (rcall (cli_read_data n)) (\<lambda>r.
     case r of
       Inl e \<Rightarrow> rbind (set_state evt_dispose) (\<lambda>_. rret True)
     | Inr d \<Rightarrow>
         rbind (recv d) (\<lambda>_.
         rbind (rget (\<lambda>s. cl_req_used s < want s)) (\<lambda>more.
         if more then rret False else fin))))"

lemma read_fixed_rec: "cli_evt_read_fixed E = read_rec (\<lambda>_. CHUNKSRV_REQ_SZ) fixed_done"
  by (rule ext) (simp add: cli_evt_read_fixed_def read_rec_def rbind_def rget_def split: option.split sum.split)

lemma read_var_rec: "cli_evt_read_var E = read_rec (\<lambda>s. unat (cl_var_len s)) var_done"
  by (simp add: cli_evt_read_var_def read_rec_def)

text \<open>One read of a record of which \<open>k\<close> bytes are there and \<open>n > k\<close> are wanted, when the next piece is \<open>p\<close>.\<close>

definition pieces :: "bytes list \<Rightarrow> bool" where
  "pieces ps \<longleftrightarrow> [] \<notin> set ps"

lemma read_data_piece:
  assumes "\<not> cl_ssl s" "cl_rds s = map Inr (p # ps)" "p \<noteq> []" "0 < n"
  shows "cli_read_data n s = (Inr (take n p), s\<lparr>cl_rds := map Inr (if length p \<le> n then ps else drop n p # ps)\<rparr>)"
  using assms by (simp add: cli_read_data_def sock_read_def)

lemma read_data_none: "\<not> cl_ssl s \<Longrightarrow> cl_rds s = [] \<Longrightarrow> cli_read_data n s = (Inr [], s)"
  by (cases s) (simp add: cli_read_data_def sock_read_def)

lemma put_buf_take:
  assumes "take k b = take k c" "k \<le> length c" "length c \<le> length b" "j \<le> length c - k"
  shows "put_buf k (take j (drop k c)) b = take (k + j) c @ drop (k + j) b"
  using assms by (simp add: put_buf_def take_add min_def)

lemma set_buf_simps [simp]:
  "cur_buf (set_buf b s) = b" "set_buf b' (set_buf b s) = set_buf b' s" "cl_req_ptr (set_buf b s) = cl_req_ptr s"
  "cl_ssl (set_buf b s) = cl_ssl s" "cl_state (set_buf b s) = cl_state s" "cl_freed (set_buf b s) = cl_freed s"
  "cl_write_want_read (set_buf b s) = cl_write_want_read s" "cl_rds (set_buf b s) = cl_rds s" "cl_req_used (set_buf b s) = cl_req_used s"
  "cl_var_len (set_buf b s) = cl_var_len s"
  by (simp_all add: set_buf_def cur_buf_def split: req_buf.split)

lemma buf_upd [simp]:
  "cur_buf (s\<lparr>cl_rds := r\<rparr>) = cur_buf s" "cur_buf (s\<lparr>cl_req_used := k\<rparr>) = cur_buf s"
  "set_buf b (s\<lparr>cl_rds := r\<rparr>) = (set_buf b s)\<lparr>cl_rds := r\<rparr>" "set_buf b (s\<lparr>cl_req_used := k\<rparr>) = (set_buf b s)\<lparr>cl_req_used := k\<rparr>"
  by (simp_all add: set_buf_def cur_buf_def split: req_buf.split)

definition got :: "bytes \<Rightarrow> bytes list \<Rightarrow> 'd conn \<Rightarrow> 'd conn" where
  "got c qs s = (set_buf (c @ drop (length c) (cur_buf s)) s)\<lparr>cl_req_used := length c, cl_rds := map Inr qs\<rparr>"

lemma read_all:
  assumes f: "state_func E st = read_rec want fin" and w: "\<And>s b k r. want ((set_buf b s)\<lparr>cl_req_used := k, cl_rds := r\<rparr>) = want s"
    and "live s" "\<not> cl_ssl s" "cl_state s = st" "want s = length c" "length c \<le> length (cur_buf s)"
    and "cl_rds s = map Inr ps" "pieces ps" "cl_req_used s < length c" "take (cl_req_used s) (cur_buf s) = take (cl_req_used s) c"
      "concat ps = drop (cl_req_used s) c @ rest"
  shows "\<exists>qs. pieces qs \<and> concat qs = rest \<and> (\<forall>lp t. fin (got c qs s) = Some (Inr (lp, t)) \<longrightarrow> polls E s t)"
  using assms(3-)
proof (induction ps arbitrary: s)
  case Nil
  then show ?case by simp
next
  case (Cons p ps)
  let ?k = "cl_req_used s" and ?n = "length c - cl_req_used s"
  have p: "p \<noteq> []" "pieces ps" using Cons.prems(7) by (auto simp: pieces_def)
  have k: "?k \<le> length c" using Cons.prems(8) by simp
  define j where "j = min ?n (length p)"
  define qs where "qs = (if length p \<le> ?n then ps else drop ?n p # ps)"
  define s1 where "s1 = (set_buf (take (?k + j) c @ drop (?k + j) (cur_buf s)) s)\<lparr>cl_req_used := ?k + j, cl_rds := map Inr qs\<rparr>"
  have cat: "p @ concat ps = drop ?k c @ rest" using Cons.prems(10) by simp
  have d: "take ?n p = take j (drop ?k c)"
  proof -
    have "take j (p @ concat ps) = take j (drop ?k c @ rest)" using cat by simp
    then have "take j p = take j (drop ?k c)" by (simp add: j_def)
    moreover have "take j p = take ?n p" by (simp add: j_def min_def)
    ultimately show ?thesis by simp
  qed
  have qs: "concat qs = drop (?k + j) c @ rest"
  proof (cases "length p \<le> ?n")
    case True
    then have "drop j (p @ concat ps) = drop j (drop ?k c @ rest)" using cat by simp
    with True show ?thesis by (simp add: qs_def j_def min_def add.commute)
  next
    case False
    then have "drop ?n (p @ concat ps) = drop ?n (drop ?k c @ rest)" using cat by simp
    with False show ?thesis by (simp add: qs_def j_def min_def)
  qed
  have rd: "cli_read_data ?n s = (Inr (take j (drop ?k c)), s\<lparr>cl_rds := map Inr qs\<rparr>)"
    using read_data_piece [OF Cons.prems(2,6) p(1), of ?n] Cons.prems(8) by (simp add: d qs_def)
  have lj: "length (take j (drop ?k c)) = j" by (simp add: j_def)
  have rv: "recv (take j (drop ?k c)) (s\<lparr>cl_rds := map Inr qs\<rparr>) = Some (Inr ((), s1))"
  proof -
    have jn: "j \<le> ?n" by (simp add: j_def)
    then have "\<not> length (cur_buf s) < ?k + j" using Cons.prems(5) k by linarith
    with put_buf_take [OF Cons.prems(9) k Cons.prems(5) jn] show ?thesis
      using lj unfolding recv_eq s1_def by (simp add: rret_def)
  qed
  have w1: "want s1 = length c" using w Cons.prems(4) by (simp add: s1_def)
  have sf: "state_func E (cl_state s) s = (if ?k + j < length c then Some (Inr (False, s1)) else fin s1)"
    unfolding Cons.prems(3) f read_rec_def using Cons.prems(4) rd rv w1
    by (simp add: rbind_def rget_def rcall_def rret_def) (simp add: s1_def)
  show ?case
  proof (cases "?k + j < length c")
    case True
    then have jp: "j = length p" "qs = ps" unfolding j_def qs_def by auto
    have lv: "live s1" using Cons.prems(1) by (simp add: live_def s1_def)
    have c1: "\<not> cl_ssl s1" "cl_state s1 = st" "length c \<le> length (cur_buf s1)" "cl_rds s1 = map Inr ps" "cl_req_used s1 < length c"
      using Cons.prems True jp by (simp_all add: s1_def)
    have t1: "take (cl_req_used s1) (cur_buf s1) = take (cl_req_used s1) c" using True by (simp add: s1_def)
    have q1: "concat ps = drop (cl_req_used s1) c @ rest" using qs jp by (simp add: s1_def)
    from Cons.IH [OF lv c1(1,2) w1 c1(3,4) p(2) c1(5) t1 q1] obtain qs' where
      i: "pieces qs'" "concat qs' = rest" "\<forall>lp t. fin (got c qs' s1) = Some (Inr (lp, t)) \<longrightarrow> polls E s1 t" by blast
    have g: "got c qs' s1 = got c qs' s" using True by (simp add: got_def s1_def)
    have "polls E s t" if "fin (got c qs' s) = Some (Inr (lp, t))" for lp t
      using polls_step [OF Cons.prems(1) sf [unfolded if_P [OF True]]] i(3) that g by simp
    then show ?thesis using i(1,2) by blast
  next
    case False
    then have full: "?k + j = length c" using k by (simp add: j_def)
    have "s1 = got c qs s" using full by (simp add: s1_def got_def)
    then have "polls E s t" if "fin (got c qs s) = Some (Inr (lp, t))" for lp t
      using polls_one [OF Cons.prems(1)] sf False that by simp
    moreover have "pieces qs" using p(2) by (auto simp: pieces_def qs_def)
    ultimately show ?thesis using qs full by auto
  qed
qed

section \<open>Requests\<close>

text \<open>A connection between two requests.\<close>

definition idle :: "'d conn \<Rightarrow> bool" where
  "idle s \<longleftrightarrow> live s \<and> cl_state s = evt_read_fixed \<and> cl_req_ptr s = Buf_creq \<and> cl_req_used s = 0 \<and> \<not> cl_ssl s \<and>
     length (cl_creq_mem s) = CHUNKSRV_REQ_SZ \<and> length (cl_key s) = CHD_KEY_SZ \<and> length (cl_key2 s) = CHD_KEY_SZ \<and>
     length (cl_getpart s) = GETPART_SZ"

text \<open>What follows the key: the source of a copy, the offset of a partial read.\<close>

definition extra_ok :: "chunksrv_req \<Rightarrow> bytes \<Rightarrow> bool" where
  "extra_ok r ext \<longleftrightarrow>
     (if rq_op r = CHO_CP then length ext = unat (ucast (rq_data_len r) :: u32) \<and> 0 < length ext \<and> length ext \<le> CHD_KEY_SZ
      else if rq_op r = CHO_GET_PART then length ext = GETPART_SZ
      else ext = [])"

text \<open>The connection with the request in its buffers.\<close>

definition requested :: "chunksrv_req \<Rightarrow> bytes \<Rightarrow> bytes \<Rightarrow> bytes list \<Rightarrow> 'd conn \<Rightarrow> 'd conn \<Rightarrow> bool" where
  "requested r key ext qs s t \<longleftrightarrow>
     (\<exists>k k2 g p u v sv. t = s\<lparr>cl_state := evt_exec_req, cl_creq_mem := req_bytes r, cl_key_len := rq_key_len r, cl_key := k, cl_key2 := k2,
        cl_getpart := g, cl_req_ptr := p, cl_req_used := u, cl_var_len := v, cl_second_var := sv, cl_rds := map Inr qs\<rparr> \<and>
        take (length key) k = key \<and> length k = CHD_KEY_SZ \<and> length k2 = CHD_KEY_SZ \<and> length g = GETPART_SZ \<and>
        (rq_op r = CHO_CP \<longrightarrow> take (unat v) k2 = ext) \<and> (rq_op r = CHO_GET_PART \<longrightarrow> g = ext))"

lemma read_var:
  assumes "live s" "\<not> cl_ssl s" "cl_state s = evt_read_var" "cl_req_used s = 0" "unat (cl_var_len s) = length c"
    "c \<noteq> []" "length c \<le> length (cur_buf s)" "cl_rds s = map Inr ps" "pieces ps" "concat ps = c @ rest"
  shows "\<exists>qs. pieces qs \<and> concat qs = rest \<and> (\<forall>lp t. var_done (got c qs s) = Some (Inr (lp, t)) \<longrightarrow> polls E s t)"
  using read_all [of E evt_read_var "\<lambda>s. unat (cl_var_len s)" var_done s c ps rest] assms by (simp add: state_func_def read_var_rec)

lemma read_hdr:
  assumes "idle s" "req_wf r" "cl_rds s = map Inr ps" "pieces ps" "concat ps = req_bytes r @ rest"
  shows "\<exists>qs. pieces qs \<and> concat qs = rest \<and> (\<forall>lp t. fixed_done (got (req_bytes r) qs s) = Some (Inr (lp, t)) \<longrightarrow> polls E s t)"
proof -
  note l = length_req_bytes [OF assms(2)]
  have "cur_buf s = cl_creq_mem s" using assms(1) by (simp add: idle_def cur_buf_def)
  then show ?thesis
    using read_all [of E evt_read_fixed "\<lambda>_. CHUNKSRV_REQ_SZ" fixed_done s "req_bytes r" ps rest] assms l
    by (simp add: state_func_def read_fixed_rec idle_def CHUNKSRV_REQ_SZ_def)
qed

lemma unat_small_neq0: "0 < unat (k :: u16) \<Longrightarrow> k \<noteq> 0"
  by auto

text \<open>The header and the key.\<close>

lemma read_hdr_key:
  assumes i: "idle s" and r: "req_wf r" and k: "length key = unat (rq_key_len r)" "key \<noteq> []" "length key \<le> CHD_KEY_SZ"
    and ps: "cl_rds s = map Inr ps" "pieces ps" "concat ps = req_bytes r @ key @ rest"
  shows "\<exists>qs. pieces qs \<and> concat qs = rest \<and>
     (\<forall>lp t. var_done (s\<lparr>cl_creq_mem := req_bytes r, cl_key_len := rq_key_len r, cl_req_ptr := Buf_key, cl_var_len := ucast (rq_key_len r),
        cl_state := evt_read_var, cl_second_var := False, cl_key := key @ drop (length key) (cl_key s), cl_req_used := length key,
        cl_rds := map Inr qs\<rparr>) = Some (Inr (lp, t)) \<longrightarrow> polls E s t)"
proof -
  note l = length_req_bytes [OF r]
  obtain qs1 where q1: "pieces qs1" "concat qs1 = key @ rest"
    and p1: "\<And>lp t. fixed_done (got (req_bytes r) qs1 s) = Some (Inr (lp, t)) \<Longrightarrow> polls E s t"
    using read_hdr [OF i r ps] by blast
  define s1 where "s1 = s\<lparr>cl_creq_mem := req_bytes r, cl_key_len := rq_key_len r, cl_req_ptr := Buf_key, cl_var_len := ucast (rq_key_len r),
     cl_req_used := 0, cl_state := evt_read_var, cl_second_var := False, cl_rds := map Inr qs1\<rparr>"
  have g: "got (req_bytes r) qs1 s = s\<lparr>cl_creq_mem := req_bytes r, cl_req_used := CHUNKSRV_REQ_SZ, cl_rds := map Inr qs1\<rparr>"
    using i l by (simp add: got_def idle_def set_buf_def cur_buf_def)
  have "0 < unat (rq_key_len r)" using k(1,2) by (metis length_greater_0_conv)
  then have nz: "rq_key_len r \<noteq> 0" by (rule unat_small_neq0)
  have "fixed_done (got (req_bytes r) qs1 s) = Some (Inr (True, s1))"
    using nz k(1,3) unfolding g fixed_done_def s1_def by (simp add: cl_creq_def req_of_bytes [OF r] rret_def)
  then have ps1: "polls E s s1" by (rule p1)
  have v: "unat (ucast (rq_key_len r) :: u32) = length key" using k(1) by simp
  have s1: "live s1" "\<not> cl_ssl s1" "cl_state s1 = evt_read_var" "cl_req_used s1 = 0" "unat (cl_var_len s1) = length key"
      "length key \<le> length (cur_buf s1)" "cl_rds s1 = map Inr qs1" "cur_buf s1 = cl_key s"
    using i k v by (simp_all add: s1_def live_def idle_def cur_buf_def)
  obtain qs where q: "pieces qs" "concat qs = rest" and p2: "\<And>lp t. var_done (got key qs s1) = Some (Inr (lp, t)) \<Longrightarrow> polls E s1 t"
    using read_var [OF s1(1-5) k(2) s1(6,7) q1] by blast
  have "got key qs s1 = s\<lparr>cl_creq_mem := req_bytes r, cl_key_len := rq_key_len r, cl_req_ptr := Buf_key, cl_var_len := ucast (rq_key_len r),
      cl_state := evt_read_var, cl_second_var := False, cl_key := key @ drop (length key) (cl_key s), cl_req_used := length key,
      cl_rds := map Inr qs\<rparr>"
    unfolding got_def s1(8) by (simp add: s1_def set_buf_def)
  then show ?thesis using q p2 polls_trans [OF ps1] by metis
qed

lemma read_extra:
  assumes "live s" "\<not> cl_ssl s" "cl_state s = evt_read_var" "cl_req_used s = 0" "unat (cl_var_len s) = length ext" "ext \<noteq> []"
    "length ext \<le> length (cur_buf s)" "cl_rds s = map Inr ps" "pieces ps" "concat ps = ext @ rest" "cl_second_var s"
    "cl_req_ptr s = Buf_key2 \<or> cl_req_ptr s = Buf_getpart"
  shows "\<exists>qs. pieces qs \<and> concat qs = rest \<and> polls E s ((got ext qs s)\<lparr>cl_state := evt_exec_req\<rparr>)"
proof -
  obtain qs where q: "pieces qs" "concat qs = rest" and p: "\<And>lp t. var_done (got ext qs s) = Some (Inr (lp, t)) \<Longrightarrow> polls E s t"
    using read_var [OF assms(1-10)] by blast
  have "cl_second_var (got ext qs s)" using assms(11) by (simp add: got_def set_buf_def split: req_buf.split)
  then have "var_done (got ext qs s) = Some (Inr (True, (got ext qs s)\<lparr>cl_state := evt_exec_req\<rparr>))" by (simp add: var_done_def Let_def rret_def)
  from p [OF this] q show ?thesis by blast
qed

text \<open>
  C11: requests are read as they were sent. When the bytes of a request header, its key and what belongs
  to it arrive, in any pieces, a connection that is between two requests comes to execute exactly that
  request; what follows it is still to be read, and nothing else of the state has changed.
\<close>

theorem request_framed:
  assumes "idle s" "req_wf r" "length key = unat (rq_key_len r)" "key \<noteq> []" "length key \<le> CHD_KEY_SZ" "extra_ok r ext"
    "cl_rds s = map Inr ps" "pieces ps" "concat ps = req_bytes r @ key @ ext @ rest"
  shows "\<exists>qs t. pieces qs \<and> concat qs = rest \<and> polls E s t \<and> requested r key ext qs s t"
proof -
  obtain qs1 where q1: "pieces qs1" "concat qs1 = ext @ rest"
    and p1: "\<And>lp t. var_done (s\<lparr>cl_creq_mem := req_bytes r, cl_key_len := rq_key_len r, cl_req_ptr := Buf_key, cl_var_len := ucast (rq_key_len r),
        cl_state := evt_read_var, cl_second_var := False, cl_key := key @ drop (length key) (cl_key s), cl_req_used := length key,
        cl_rds := map Inr qs1\<rparr>) = Some (Inr (lp, t)) \<Longrightarrow> polls E s t"
    using read_hdr_key [OF assms(1-5,7-9)] by blast
  note i = assms(1) [unfolded idle_def]
  let ?k = "key @ drop (length key) (cl_key s)"
  have lk: "length ?k = CHD_KEY_SZ" "take (length key) ?k = key" using i assms(5) by simp_all
  let ?base = "s\<lparr>cl_creq_mem := req_bytes r, cl_key_len := rq_key_len r, cl_key := ?k, cl_rds := map Inr qs1\<rparr>"
  note vd = var_done_def Let_def cl_creq_def req_of_bytes [OF assms(2)] rret_def
  consider (cp) "rq_op r = CHO_CP" | (part) "rq_op r = CHO_GET_PART" | (plain) "rq_op r \<noteq> CHO_CP" "rq_op r \<noteq> CHO_GET_PART" by blast
  then show ?thesis
  proof cases
    case plain
    then have e: "ext = []" using assms(6) by (simp add: extra_ok_def)
    have "polls E s (?base\<lparr>cl_req_ptr := Buf_key, cl_var_len := ucast (rq_key_len r), cl_second_var := False, cl_req_used := length key,
        cl_state := evt_exec_req\<rparr>)"
      by (rule p1 [of True]) (use plain in \<open>cases s, simp add: vd\<close>)
    moreover have "requested r key ext qs1 s (?base\<lparr>cl_req_ptr := Buf_key, cl_var_len := ucast (rq_key_len r), cl_second_var := False,
        cl_req_used := length key, cl_state := evt_exec_req\<rparr>)"
      unfolding requested_def using plain i lk
      by (intro exI [of _ ?k] exI [of _ "cl_key2 s"] exI [of _ "cl_getpart s"] exI [of _ Buf_key] exI [of _ "length key"]
          exI [of _ "ucast (rq_key_len r)"] exI [of _ False]) (cases s, simp)
    ultimately show ?thesis using q1 e by auto
  next
    case cp
    then have e: "length ext = unat (ucast (rq_data_len r) :: u32)" "ext \<noteq> []" "length ext \<le> CHD_KEY_SZ"
      using assms(6) by (auto simp: extra_ok_def)
    define s1 where "s1 = ?base\<lparr>cl_req_ptr := Buf_key2, cl_var_len := ucast (rq_data_len r), cl_second_var := True, cl_req_used := 0,
        cl_state := evt_read_var\<rparr>"
    have p: "polls E s s1" unfolding s1_def by (rule p1 [of True]) (use cp in \<open>cases s, simp add: vd\<close>)
    have s1: "live s1" "\<not> cl_ssl s1" "cl_state s1 = evt_read_var" "cl_req_used s1 = 0" "unat (cl_var_len s1) = length ext"
        "length ext \<le> length (cur_buf s1)" "cl_rds s1 = map Inr qs1" "cl_second_var s1" "cl_req_ptr s1 = Buf_key2 \<or> cl_req_ptr s1 = Buf_getpart"
      using i e by (simp_all add: s1_def live_def cur_buf_def)
    obtain qs where q: "pieces qs" "concat qs = rest" "polls E s1 ((got ext qs s1)\<lparr>cl_state := evt_exec_req\<rparr>)"
      using read_extra [OF s1(1-5) e(2) s1(6,7) q1 s1(8,9)] by blast
    have "requested r key ext qs s ((got ext qs s1)\<lparr>cl_state := evt_exec_req\<rparr>)"
      unfolding requested_def using i lk e cp
      by (intro exI [of _ ?k] exI [of _ "ext @ drop (length ext) (cl_key2 s)"] exI [of _ "cl_getpart s"] exI [of _ Buf_key2] exI [of _ "length ext"]
          exI [of _ "ucast (rq_data_len r)"] exI [of _ True]) (cases s, simp add: got_def s1_def set_buf_def cur_buf_def cfg_simps)
    with q polls_trans [OF p] show ?thesis by blast
  next
    case part
    then have e: "length ext = GETPART_SZ" "ext \<noteq> []" using assms(6) by (auto simp: extra_ok_def cfg_simps)
    define s1 where "s1 = ?base\<lparr>cl_req_ptr := Buf_getpart, cl_var_len := word_of_nat GETPART_SZ, cl_second_var := True, cl_req_used := 0,
        cl_state := evt_read_var\<rparr>"
    have p: "polls E s s1" unfolding s1_def by (rule p1 [of True]) (use part in \<open>cases s, simp add: vd cfg_simps\<close>)
    have s1: "live s1" "\<not> cl_ssl s1" "cl_state s1 = evt_read_var" "cl_req_used s1 = 0" "unat (cl_var_len s1) = length ext"
        "length ext \<le> length (cur_buf s1)" "cl_rds s1 = map Inr qs1" "cl_second_var s1" "cl_req_ptr s1 = Buf_key2 \<or> cl_req_ptr s1 = Buf_getpart"
      using i e by (simp_all add: s1_def live_def cur_buf_def GETPART_SZ_def)
    obtain qs where q: "pieces qs" "concat qs = rest" "polls E s1 ((got ext qs s1)\<lparr>cl_state := evt_exec_req\<rparr>)"
      using read_extra [OF s1(1-5) e(2) s1(6,7) q1 s1(8,9)] by blast
    have "requested r key ext qs s ((got ext qs s1)\<lparr>cl_state := evt_exec_req\<rparr>)"
      unfolding requested_def using i lk e part
      by (intro exI [of _ ?k] exI [of _ "cl_key2 s"] exI [of _ ext] exI [of _ Buf_getpart] exI [of _ "length ext"]
          exI [of _ "word_of_nat GETPART_SZ"] exI [of _ True]) (cases s, simp add: got_def s1_def set_buf_def cur_buf_def cfg_simps)
    with q polls_trans [OF p] show ?thesis by blast
  qed
qed

section \<open>An example\<close>

definition demo_srv :: "unit server" where
  "demo_srv = \<lparr>cs_fs = demo_fs, cs_tbl = (), cs_actives = \<lparr>oc_table = Map.empty, oc_heap = Map.empty, oc_next = 0\<rparr>,
     cs_trash_sz = 0, cs_opt_write = 0, cs_chk_state = CHK_ST_OFF, cs_chk_done = 0, cs_chk_pipe = []\<rparr>"

definition demo_chenv :: "unit chenv" where
  "demo_chenv = \<lparr>ch_fs = demo_env, ch_db = \<lparr>tc_get = (\<lambda>k d. (None, d)), tc_put = (\<lambda>k v d. (False, d)), tc_addint = (\<lambda>k n d. (INT_MIN, d))\<rparr>,
     ch_rd = (\<lambda>p fs. Inl ENOENT), ch_hmac = (\<lambda>k d. k), ch_sendfile = False, ch_escape = (\<lambda>b. b), ch_timestr = (\<lambda>t. []), ch_chk_users = []\<rparr>"

definition demo_put :: chunksrv_req where
  "demo_put = \<lparr>rq_magic = CHUNKD_MAGIC, rq_op = CHO_PUT, rq_flags = 0, rq_key_len = 1, rq_nonce = 5, rq_data_len = 3, rq_sig = 65 # replicate 63 0\<rparr>"

text \<open>The request in two pieces.\<close>

definition demo_pieces :: "bytes list" where
  "demo_pieces = [take 50 (req_bytes demo_put), drop 50 (req_bytes demo_put) @ [107]]"

lemma demo_put_ok: "req_wf demo_put" "extra_ok demo_put []" "pieces demo_pieces" "concat demo_pieces = req_bytes demo_put @ [107]"
proof -
  show w: "req_wf demo_put" by (simp add: demo_put_def req_wf_def CHUNKD_MAGIC_def CHD_SIG_SZ_def)
  show "extra_ok demo_put []" by (simp add: demo_put_def extra_ok_def cfg_simps)
  show "concat demo_pieces = req_bytes demo_put @ [107]" by (simp add: demo_pieces_def)
  show "pieces demo_pieces" using length_req_bytes [OF w] by (auto simp: demo_pieces_def pieces_def CHUNKSRV_REQ_SZ_def)
qed

lemma alloc_simps [simp]:
  "cl_rds (cli_alloc srv rds wrs) = rds" "cl_wrs (cli_alloc srv rds wrs) = wrs" "cl_user (cli_alloc srv rds wrs) = []"
  "cl_write_q (cli_alloc srv rds wrs) = []" "cl_out_ce (cli_alloc srv rds wrs) = None" "cl_sent (cli_alloc srv rds wrs) = []"
  by (cases srv, simp add: cli_alloc_def server.extend_def conn.fields_def)+

lemma alloc_idle: "idle (cli_alloc srv rds wrs)"
  by (cases srv) (simp add: cli_alloc_def server.extend_def conn.fields_def idle_def live_def)

theorem request_framed_witness:
  "\<exists>t. polls demo_chenv (cli_alloc demo_srv (map Inr demo_pieces) []) t \<and>
     requested demo_put [107] [] [] (cli_alloc demo_srv (map Inr demo_pieces) []) t"
proof -
  have k: "length [107 :: u8] = unat (rq_key_len demo_put)" "[107 :: u8] \<noteq> []" "length [107 :: u8] \<le> CHD_KEY_SZ"
    by (simp_all add: demo_put_def CHD_KEY_SZ_def)
  have c: "concat demo_pieces = req_bytes demo_put @ [107] @ [] @ []" using demo_put_ok(4) by simp
  have "pieces qs \<and> concat qs = [] \<Longrightarrow> qs = []" for qs by (cases qs) (auto simp: pieces_def)
  with request_framed [OF alloc_idle demo_put_ok(1) k demo_put_ok(2) alloc_simps(1) demo_put_ok(3) c, of demo_chenv demo_srv "[]"] show ?thesis by auto
qed

end
