(* ===== verification/Chunk_Reply.thy ===== *)
theory Chunk_Reply
  imports Chunk_Req
begin

text \<open>
  What answering a client may change. \<^verbatim>\<open>locale replying\<close> collects what the code that queues and sends bytes
  to a client (\<^verbatim>\<open>cli_writeq\<close>, \<^verbatim>\<open>cli_writable\<close>, \<^verbatim>\<open>object_get_more\<close> and what they call) asks of a predicate on
  the connection to keep it: that the write queue, the bytes sent, the object being sent and the position
  in its file are of no concern to it. Three predicates are shown to be kept: that the store is as
  it was (\<^verbatim>\<open>same_store\<close>), and that the request side of the connection is (\<^verbatim>\<open>kept\<close>);
  a third shows that sending does not by itself make the connection wait for the socket.
\<close>

section \<open>Calls that leave names and files alone\<close>

lemma malloc_disk: "fs_malloc fs = (ok, fs') \<Longrightarrow> disk fs' = disk fs"
  by (auto simp: fs_malloc_def disk_def split: prod.splits)

lemma free_disk: "fo_out_fn obj = None \<Longrightarrow> disk (fs_obj_free obj fs) = disk fs"
  by (simp add: fs_obj_free_def Let_def close_disk' split: option.splits)

lemma read_obj_disk: "fs_obj_read E obj n fs = (r, obj', fs') \<Longrightarrow> disk fs' = disk fs \<and> fo_out_fn obj' = fo_out_fn obj"
  by (auto simp: fs_obj_read_def dest!: read_disk split: option.splits prod.splits sum.splits if_splits)

lemma sendfile_disk: "fs_obj_sendfile obj n fs = (r, obj', fs') \<Longrightarrow> disk fs' = disk fs \<and> fo_out_fn obj' = fo_out_fn obj"
  by (auto simp: fs_obj_sendfile_def Let_def dest!: outcome_disk split: option.splits prod.splits sum.splits if_splits)

lemma seek_disk: "fs_obj_seek obj n fs = (r, obj', fs') \<Longrightarrow> disk fs' = disk fs \<and> fo_out_fn obj' = fo_out_fn obj"
  using outcome_disk [of fs]
  by (auto simp: fs_obj_seek_def sys_lseek_def split: option.splits prod.splits sum.splits)

lemma fstat_disk: "sys_fstat fd fs = (r, fs') \<Longrightarrow> disk fs' = disk fs"
  by (auto simp: sys_fstat_def dest!: outcome_disk split: prod.splits sum.splits option.splits)

lemma obj_open_disk:
  assumes "fs_obj_open E t u key fs = (r, fs')"
  shows "disk fs' = disk fs" "r = Inr obj \<Longrightarrow> fo_out_fn obj = None"
proof -
  have "disk fs' = disk fs \<and> (r = Inr obj \<longrightarrow> fo_out_fn obj = None)"
    using assms unfolding fs_obj_open_def Let_def fs_obj_alloc_def open_hdr_def
    by (auto simp: free_disk fs_obj_zero_def dest!: malloc_disk pathname_cases(1) [THEN core_disk] open_disk fstat_disk read_disk
        split: prod.splits sum.splits option.splits if_splits)
  then show "disk fs' = disk fs" "r = Inr obj \<Longrightarrow> fo_out_fn obj = None" by blast+
qed

lemma hdr_read_disk: "fs_obj_hdr_read fn fs = (r, fs') \<Longrightarrow> disk fs' = disk fs"
  unfolding fs_obj_hdr_read_def Let_def
  by (auto simp: close_disk' dest!: malloc_disk open_disk fstat_disk read_disk split: prod.splits sum.splits if_splits)

lemma list_next_disk: "fs_list_objs_next rd t fs = (x, t', fs') \<Longrightarrow> disk fs' = disk fs"
proof (induction t arbitrary: fs rule: wf_induct_rule [OF lister_order_wf])
  case (1 t)
  have rec: "disk fs' = disk fs" if "fs_list_objs_next rd u fs1 = (x, t', fs')" "disk fs1 = disk fs" "(u, t) \<in> lister_order" for u fs1
    using 1(1) [OF that(3,1)] that(2) by simp
  note shr = lister_shrinks and s = fs_list_objs_next.simps [of rd t fs] Let_def
  show ?case
  proof (cases "ls_sub t")
    case None
    with 1(2) show ?thesis
      by (cases "ls_root t") (auto simp: s intro: rec shr(1,2) malloc_disk split: if_splits prod.splits)
  next
    case (Some sub)
    show ?thesis
    proof (cases "ls_d t")
      case None
      with Some 1(2) show ?thesis by (auto simp: s intro: rec shr(3,4) split: sum.splits)
    next
      case d: (Some xs)
      with Some 1(2) show ?thesis
        by (cases xs) (auto simp: s intro: rec shr(5,6) malloc_disk split: if_splits prod.splits)
    qed
  qed
qed

lemma list_loop_disk: "list_objs_loop rd user t res fs = (x, fs') \<Longrightarrow> disk fs' = disk fs"
proof (induction t arbitrary: res fs rule: wf_induct_rule [OF lister_order_wf])
  case (1 t)
  obtain rc fn t1 fs1 where n: "fs_list_objs_next rd t fs = ((rc, fn), t1, fs1)" by (metis prod.collapse)
  obtain h fs2 where h: "fs_obj_hdr_read fn fs1 = (h, fs2)" by fastforce
  obtain ok fs3 where m: "fs_malloc fs2 = (ok, fs3)" by fastforce
  have d: "disk fs1 = disk fs" "disk fs2 = disk fs" "disk fs3 = disk fs"
    using list_next_disk [OF n] hdr_read_disk [OF h] malloc_disk [OF m] by simp_all
  show ?case
  proof (cases "rc > 0")
    case True
    from 1(1) [OF next_decreases [OF n True]] d show ?thesis
      using 1(2) True n h m by (subst (asm) list_objs_loop.simps) (auto split: option.splits if_splits)
  next
    case False
    with 1(2) n d show ?thesis by (subst (asm) list_objs_loop.simps) simp
  qed
qed

lemma list_disk: "fs_list_objs rd E t user fs = (x, fs') \<Longrightarrow> disk fs' = disk fs"
  by (auto simp: fs_list_objs_def fs_list_objs_open_def dest!: malloc_disk list_loop_disk split: sum.splits if_splits prod.splits)

section \<open>Predicates that answering keeps\<close>

locale replying =
  fixes P :: "'d conn \<Rightarrow> bool"
  assumes same_disk: "P s \<Longrightarrow> disk fs = disk (cs_fs s) \<Longrightarrow> P (s\<lparr>cs_fs := fs\<rparr>)"
    and src_obj: "P s \<Longrightarrow> fo_out_fn obj = None \<Longrightarrow> P (s\<lparr>cl_in_obj := Some obj\<rparr>)"
    and src_none: "P s \<Longrightarrow> P (s\<lparr>cl_in_obj := None\<rparr>)"
    and src_read: "P s \<Longrightarrow> cl_in_obj s = Some obj \<Longrightarrow> fo_out_fn obj = None"
    and upd_len: "P s \<Longrightarrow> P (s\<lparr>cl_in_len := n\<rparr>)"
    and upd_sent: "P s \<Longrightarrow> P (s\<lparr>cl_sent := b\<rparr>)"
    and upd_wrs: "P s \<Longrightarrow> P (s\<lparr>cl_wrs := w\<rparr>)"
    and upd_queue: "P s \<Longrightarrow> P (s\<lparr>cl_write_q := q\<rparr>)"
    and upd_writing: "P s \<Longrightarrow> P (s\<lparr>cl_writing := False\<rparr>)"
    and upd_want: "P s \<Longrightarrow> cl_ssl s \<Longrightarrow> P (s\<lparr>cl_write_want_read := True\<rparr>)"
    and upd_trash: "P s \<Longrightarrow> P (s\<lparr>cs_trash_sz := n\<rparr>)"
    and upd_opt: "P s \<Longrightarrow> P (s\<lparr>cs_opt_write := n\<rparr>)"
    and upd_ev: "P s \<Longrightarrow> P (s\<lparr>cl_ev_write := v\<rparr>)"
    and upd_end: "P s \<Longrightarrow> P (s\<lparr>cl_state := evt_dispose\<rparr>)"
begin

lemmas upd [simp] = upd_len upd_sent upd_wrs upd_queue upd_writing upd_want upd_trash upd_opt upd_ev upd_end

lemma poll [simp]: "P s \<Longrightarrow> P (cli_wr_set_poll v s)"
  by (simp add: cli_wr_set_poll_def upd)

lemma with_fs: "P s \<Longrightarrow> disk fs = disk (cs_fs s) \<Longrightarrow> fo_out_fn obj = None \<Longrightarrow> P (s\<lparr>cs_fs := fs, cl_in_obj := Some obj\<rparr>)"
  by (intro src_obj same_disk)

lemma malloc: "P s \<Longrightarrow> conn_malloc s = (ok, s') \<Longrightarrow> P s'"
  by (auto simp: conn_malloc_def intro: same_disk dest: malloc_disk split: prod.splits)

lemma steps:
  "P s \<Longrightarrow> cli_writeq b cb s = (rc, s') \<Longrightarrow> P s'"
  "P s \<Longrightarrow> cli_wr_sendfile cb s = (ok, s') \<Longrightarrow> P s'"
  by (auto simp: cli_writeq_def cli_wr_sendfile_def Let_def intro!: upd dest: malloc split: prod.splits if_splits)

lemma in_end: "P s \<Longrightarrow> P (cli_in_end s)"
  by (auto simp: cli_in_end_def intro!: src_none same_disk free_disk dest: src_read split: option.splits)

lemma calls [rinv_intros]:
  "rinv P (rcall conn_malloc)" "rinv P (rcall (cli_writeq b cb))" "rinv P (rcall (cli_wr_sendfile cb))" "rinv P (rmod cli_in_end)"
  by (auto intro!: rinv_call rinv_mod in_end intro: malloc steps)

lemma read_bytes [rinv_intros]: "rinv P (object_read_bytes E)"
proof (rule rinvI)
  fix s x s' assume p: "P s" and m: "object_read_bytes E s = Some (Inr (x, s'))"
  show "P s'"
  proof (cases "use_sendfile E s")
    case True
    with m p show ?thesis by (auto simp: object_read_bytes_def rcall_def intro: steps(2))
  next
    case False
    with m obtain obj where o: "cl_in_obj s = Some obj" by (auto simp: object_read_bytes_def run_simps split: option.splits)
    obtain r obj' fs' where rd: "fs_obj_read (ch_fs E) obj (min (cl_in_len s) CLI_DATA_BUF_SZ) (cs_fs s) = (r, obj', fs')"
      by (metis prod_cases3)
    have p': "P (s\<lparr>cs_fs := fs', cl_in_obj := Some obj'\<rparr>)"
      using read_obj_disk [OF rd] src_read [OF p o] by (intro with_fs [OF p]) simp_all
    then show ?thesis using m False o rd
      by (auto simp: object_read_bytes_def run_simps Let_def split: sum.splits if_splits prod.splits elim!: steps(1) [rotated] intro: in_end)
  qed
qed

lemma get_more [rinv_intros]: "rinv P (object_get_more E fin)"
proof (rule rinvI)
  fix s x s' assume p: "P s" and m: "object_get_more E fin s = Some (Inr (x, s'))"
  show "P s'"
    using m p by (auto simp: object_get_more_def rret_def intro: in_end split: if_splits
        elim!: rbindE dest!: rinvD [OF read_bytes])
qed

lemma write_free [rinv_intros]: "rinv P (cli_write_free E tmp fin)"
  unfolding cli_write_free_def
  by (intro rinv_intros rinv_mod; simp add: rinv_intros split: cli_write_func.split)

lemma free_entries: "rinv P (free_entries E q)"
  by (induction q) (auto intro!: rinv_intros)

lemma free_all [rinv_intros]: "rinv P (cli_write_free_all E)"
  unfolding cli_write_free_all_def by (rule rinvI) (rule rinvD [OF free_entries])

lemma writable_err [rinv_intros]: "rinv P (writable_err E)"
  unfolding writable_err_def by (intro rinv_intros rinv_mod) simp

lemma completed: "cli_wr_completed E rc mw s = Some r \<Longrightarrow> P s \<Longrightarrow> r = Inr (x, s') \<Longrightarrow> P s'"
proof (induct E rc mw s r rule: cli_wr_completed.raw_induct [rotated, consumes 1, case_names step])
  case (step loop E rc mw s r)
  show ?case
  proof (cases "rc = 0 \<or> cl_write_q s = []")
    case True
    with step(2-) show ?thesis by (auto simp: run_simps split: if_splits list.splits)
  next
    case False
    then obtain tmp q where q: "cl_write_q s = tmp # q" by (cases "cl_write_q s") auto
    define sz where "sz = (if cw_len tmp < rc then cw_len tmp else rc)"
    define tmp1 where "tmp1 = tmp\<lparr>cw_len := cw_len tmp - sz, cw_buf := drop sz (cw_buf tmp)\<rparr>"
    have m: "(if cw_len tmp1 = 0 then rbind (cli_write_free E tmp1 True) (\<lambda>rcb. loop E (rc - sz) (mw \<or> rcb)) (s\<lparr>cl_write_q := tmp1 # q\<rparr>)
        else loop E (rc - sz) mw (s\<lparr>cl_write_q := tmp1 # q\<rparr>)) = Some (Inr (x, s'))"
      using step(2,4) False q unfolding Let_def sz_def tmp1_def by simp
    have p: "P (s\<lparr>cl_write_q := tmp1 # q\<rparr>)" using step(3) by simp
    show ?thesis
    proof (cases "cw_len tmp1 = 0")
      case True
      with m obtain rcb s1 where w: "cli_write_free E tmp1 True (s\<lparr>cl_write_q := tmp1 # q\<rparr>) = Some (Inr (rcb, s1))"
        and l: "loop E (rc - sz) (mw \<or> rcb) s1 = Some (Inr (x, s'))" by (auto elim: rbindE)
      show ?thesis by (rule step(1) [OF l rinvD [OF write_free w p] HOL.refl])
    next
      case False
      with m have "loop E (rc - sz) mw (s\<lparr>cl_write_q := tmp1 # q\<rparr>) = Some (Inr (x, s'))" by simp
      from step(1) [OF this p HOL.refl] show ?thesis .
    qed
  qed
qed

lemma sock_write: "P s \<Longrightarrow> sock_write b s = (r, s') \<Longrightarrow> P s'"
  by (auto simp: sock_write_def split: list.splits sum.splits)

lemma fail: "rbind (writable_err E) (\<lambda>_. rret None) s = Some (Inr (x, s')) \<Longrightarrow> P s \<Longrightarrow> P s'"
  by (rule rinvD [where m = "rbind (writable_err E) (\<lambda>_. rret None)"]) (intro rinv_intros)

lemma do_write [rinv_intros]: "rinv P (do_write E)"
proof (rule rinvI)
  fix s x s' assume p: "P s" and m: "do_write E s = Some (Inr (x, s'))"
  from m obtain tmp q where q: "cl_write_q s = tmp # q" by (cases "cl_write_q s") (auto simp: do_write_def run_simps)
  consider (sf) "cw_sendfile tmp" | (ssl) "\<not> cw_sendfile tmp" "cl_ssl s" | (plain) "\<not> cw_sendfile tmp" "\<not> cl_ssl s" by blast
  then show "P s'"
  proof cases
    case sf
    with m q obtain obj where o: "cl_in_obj s = Some obj" by (auto simp: do_write_def run_simps split: option.splits)
    obtain r obj' fs' where sd: "fs_obj_sendfile obj (min (cl_in_len s) CLI_MAX_SENDFILE_SZ) (cs_fs s) = (r, obj', fs')"
      by (metis prod_cases3)
    have p': "P (s\<lparr>cs_fs := fs', cl_in_obj := Some obj'\<rparr>)"
      using sendfile_disk [OF sd] src_read [OF p o] by (intro with_fs [OF p]) simp_all
    then show ?thesis using m q sf o sd fail by (cases r) (auto simp: do_write_def rret_def)
  next
    case ssl
    obtain r s1 where w: "sock_write (take (cw_len tmp) (cw_buf tmp)) s = (r, s1)" by fastforce
    have "P s1" "cl_ssl s1" using sock_write [OF p w] w ssl by (auto simp: sock_write_def split: list.splits sum.splits)
    then show ?thesis using m q ssl w fail by (auto simp: do_write_def rret_def split: sum.splits if_splits)
  next
    case plain
    obtain r s1 where w: "sock_write (iov_bytes (cli_wr_iov CLI_MAX_WR_IOV 0 (cl_write_q s)))
        (s\<lparr>cl_wrs := dropWhile (\<lambda>r. r = Inl EINTR) (cl_wrs s)\<rparr>) = (r, s1)" by fastforce
    have "P s1" using sock_write [OF _ w] p by simp
    then show ?thesis using m q plain w fail by (auto simp: do_write_def rret_def split: sum.splits if_splits)
  qed
qed

lemma writable: "cli_writable E s = Some r \<Longrightarrow> P s \<Longrightarrow> r = Inr (x, s') \<Longrightarrow> P s'"
proof (induct E s r rule: cli_writable.raw_induct [rotated, consumes 1, case_names step])
  case (step loop E s r)
  from step(2,4) obtain w s1 where w: "do_write E s = Some (Inr (w, s1))"
    and k: "(case w of None \<Rightarrow> rret () | Some rc \<Rightarrow> rbind (cli_wr_completed E rc False) (\<lambda>more_work s.
             if cl_write_q s = [] then rret () (cli_wr_set_poll False (s\<lparr>cl_writing := False\<rparr>))
             else if more_work then loop E s else rret () s)) s1 = Some (Inr (x, s'))"
    by (auto elim: rbindE)
  have p1: "P s1" by (rule rinvD [OF do_write w step(3)])
  show ?case
  proof (cases w)
    case None
    with k p1 show ?thesis by (simp add: rret_def)
  next
    case (Some rc)
    with k obtain mw s2 where c: "cli_wr_completed E rc False s1 = Some (Inr (mw, s2))"
      and k2: "(if cl_write_q s2 = [] then rret () (cli_wr_set_poll False (s2\<lparr>cl_writing := False\<rparr>))
             else if mw then loop E s2 else rret () s2) = Some (Inr (x, s'))" by (auto elim: rbindE)
    have p2: "P s2" by (rule completed [OF c p1 HOL.refl])
    with k2 show ?thesis using step(1) [OF _ p2 HOL.refl] by (auto simp: rret_def split: if_splits)
  qed
qed

lemma writable' [rinv_intros]: "rinv P (cli_writable E)"
  by (rule rinvI) (erule (1) writable, rule HOL.refl)

end

text \<open>Starting to send may leave the connection waiting for the socket.\<close>

locale starting = replying +
  assumes upd_start: "P s \<Longrightarrow> P (s\<lparr>cl_writing := True\<rparr>)"
begin

lemma upd_start_poll [simp]: "P s \<Longrightarrow> P ((cli_wr_set_poll v s)\<lparr>cl_writing := True\<rparr>)"
  by (simp add: upd_start)

lemma write_start [rinv_intros]: "rinv P (cli_write_start E)"
proof (rule rinvI)
  fix s x s' assume p: "P s" and m: "cli_write_start E s = Some (Inr (x, s'))"
  show "P s'"
    using m p by (auto simp: cli_write_start_def rret_def split: if_splits elim!: rbindE dest!: rinvD [OF writable'])
qed

lemma queue_resp [rinv_intros]: "rinv P (queue_resp E b)"
  unfolding queue_resp_def by (intro rinv_intros)

end

text \<open>Requests that read: they answer and leave the connection ready for the next request, or end it.\<close>

locale reading = starting +
  assumes upd_recycle: "P s \<Longrightarrow> P (s\<lparr>cl_state := evt_recycle\<rparr>)"
begin

lemma cli_err [rinv_intros]: "rinv P (cli_err E code ok)"
  unfolding cli_err_def by (intro rinv_intros rinv_mod; simp add: upd_recycle)

lemma with_resp: "(\<And>resp. rinv P (f resp)) \<Longrightarrow> rinv P (with_resp f)"
  unfolding with_resp_def set_state_def by (intro rinv_intros rinv_mod) auto

lemma read_call:
  assumes "\<And>fs x fs'. f fs = (x, fs') \<Longrightarrow> disk fs' = disk fs \<and> Q x" "\<And>x. Q x \<Longrightarrow> rinv P (g x)"
  shows "rinv P (rbind (fs_call f) g)"
proof (rule rinvI)
  fix s x s' assume p: "P s" and m: "rbind (fs_call f) g s = Some (Inr (x, s'))"
  obtain y fs where f: "f (cs_fs s) = (y, fs)" by fastforce
  from m have "g y (s\<lparr>cs_fs := fs\<rparr>) = Some (Inr (x, s'))" by (simp add: rbind_def fs_call_def rcall_def f)
  moreover have "disk fs = disk (cs_fs s)" "Q y" using assms(1) [OF f] by simp_all
  ultimately show "P s'" using rinvD [OF assms(2)] same_disk [OF p] by blast
qed

lemma open_call:
  assumes "\<And>e. rinv P (g (Inl e))" "\<And>obj. fo_out_fn obj = None \<Longrightarrow> rinv P (g (Inr obj))"
  shows "rinv P (rbind (fs_call (fs_obj_open E t u k)) g)"
proof (rule read_call)
  fix fs x fs' assume "fs_obj_open E t u k fs = (x, fs')"
  from obj_open_disk [OF this] show "disk fs' = disk fs \<and> (\<forall>obj. x = Inr obj \<longrightarrow> fo_out_fn obj = None)" by blast
next
  fix x :: "chunk_errcode + fs_obj" assume "\<forall>obj. x = Inr obj \<longrightarrow> fo_out_fn obj = None"
  then show "rinv P (g x)" using assms by (cases x) auto
qed

lemma object_get: "rinv P (object_get E want_body)"
  unfolding object_get_def
  by (intro with_resp rinv_intros open_call; simp; intro rinv_intros rinv_mod; simp add: src_obj src_none)

lemma part_resp: "rinv P (part_resp E resp offset sz rng mem mtime)"
  unfolding part_resp_def Let_def by (intro rinv_intros)

lemma write_list [rinv_intros]: "rinv P (cli_write_list xs)"
  by (induction xs) (auto intro!: rinv_intros)

lemma resp_list [rinv_intros]: "rinv P (cli_resp_list E content)"
  unfolding cli_resp_list_def Let_def set_state_def by (intro rinv_intros rinv_mod; simp add: upd_recycle)

lemma end_conn [rinv_intros]: "rinv P (set_state evt_dispose)"
  unfolding set_state_def by (rule rinv_mod) simp

lemma volume_list: "rinv P (volume_list E)"
  unfolding volume_list_def cli_resp_xml_def
  by (rule rinv_bind, rule rinv_basic, rule read_call [where Q = "\<lambda>_. True"]) (auto intro: list_disk rinv_intros)

lemma chk_status: "rinv P (chk_status E)"
  unfolding chk_status_def cli_resp_bin_def by (intro rinv_intros)

lemma object_get_part: "rinv P (object_get_part E)"
proof -
  have sk: "disk fs' = disk fs \<and> fo_out_fn (snd x) = None" if "fo_out_fn obj = None" "(case fs_obj_seek obj n fs of (rc, obj, fs) \<Rightarrow> ((rc, obj), fs)) = (x, fs')" for obj n fs x fs'
    using that by (auto dest: seek_disk split: prod.splits)
  have rd: "disk fs' = disk fs \<and> fo_out_fn (snd x) = None" if "fo_out_fn obj = None" "(case fs_obj_read (ch_fs E) obj n fs of (rc, obj, fs) \<Rightarrow> ((rc, obj), fs)) = (x, fs')" for obj n fs x fs'
    using that by (auto dest: read_obj_disk split: prod.splits)
  have o: "rinv P (rmod (\<lambda>s. s\<lparr>cl_in_obj := Some obj\<rparr>))" "rinv P (rmod (\<lambda>s. s\<lparr>cl_in_obj := Some obj, cl_in_len := n\<rparr>))" if "fo_out_fn obj = None" for obj n
    by (rule rinv_mod; simp add: src_obj that)+
  show ?thesis unfolding object_get_part_def Let_def
    apply (rule with_resp, rule rinv_bind, rule rinv_basic, rule open_call)
     apply (simp only: sum.case, intro rinv_intros rinv_mod, rule src_none, assumption)
    apply (simp only: sum.case, rule rinv_bind, erule o(2))
    apply (intro rinv_if cli_err rinv_prod part_resp)
    apply (rule read_call, erule (1) sk)
    apply (rule rinv_prod, simp only: snd_conv, rule rinv_bind, erule o(1), rule rinv_if, rule cli_err, rule rinv_bind, rule calls, rule rinv_if, rule cli_err)
    apply (rule read_call, erule (1) rd)
    apply (simp only: split_beta, intro rinv_intros o part_resp, assumption)
    done
qed

end

section \<open>The store stays\<close>

definition store :: "('d, 'z) server_scheme \<Rightarrow> ((bytes \<rightharpoonup> nat) \<times> (nat \<Rightarrow> bytes)) \<times> 'd" where
  "store s = (disk (cs_fs s), cs_tbl s)"

text \<open>The object being sent was opened for reading, so that closing it removes no file.\<close>

definition in_ok :: "'d conn \<Rightarrow> bool" where
  "in_ok s \<longleftrightarrow> (\<forall>obj. cl_in_obj s = Some obj \<longrightarrow> fo_out_fn obj = None)"

definition same_store :: "((bytes \<rightharpoonup> nat) \<times> (nat \<Rightarrow> bytes)) \<times> 'd \<Rightarrow> bytes \<Rightarrow> fs_obj option \<Rightarrow> client_state set \<Rightarrow> 'd conn \<Rightarrow> bool" where
  "same_store st user bo S s \<longleftrightarrow> store s = st \<and> in_ok s \<and> cl_user s = user \<and> cl_out_bo s = bo \<and> cl_state s \<in> insert evt_dispose S"

interpretation ss: starting "same_store st user bo S" for st user bo S
  by unfold_locales (auto simp: same_store_def store_def in_ok_def)

section \<open>The request side of the connection stays\<close>

text \<open>What a later request depends on: who is logged in, the open table, the buffers, what is still to be read, the store.\<close>

definition kept :: "'d conn \<Rightarrow> 'd conn \<Rightarrow> bool" where
  "kept t s \<longleftrightarrow> in_ok s \<and> store s = store t \<and> cs_actives s = cs_actives t \<and> cl_freed s = cl_freed t \<and> cl_user s = cl_user t \<and>
     cl_table s = cl_table t \<and> cl_table_id s = cl_table_id t \<and> cl_ssl s = cl_ssl t \<and> cl_creq_mem s = cl_creq_mem t \<and>
     cl_getpart s = cl_getpart t \<and> cl_key_len s = cl_key_len t \<and> cl_key s = cl_key t \<and> cl_key2 s = cl_key2 t \<and> cl_rds s = cl_rds t \<and>
     cl_out_bo s = cl_out_bo t \<and> cl_out_ce s = cl_out_ce t \<and>
     (cl_ssl t \<or> cl_write_want_read s = cl_write_want_read t)"

interpretation kp: reading "kept t" for t
  by unfold_locales (auto simp: kept_def store_def in_ok_def)

interpretation nw: replying "\<lambda>s. in_ok s \<and> \<not> cl_writing s"
  by unfold_locales (auto simp: in_ok_def)

lemma kept_refl: "in_ok s \<Longrightarrow> kept s s"
  by (simp add: kept_def)

end
