(* ===== verification/Chunk_Auth.thy ===== *)
theory Chunk_Auth
  imports Chunk_Frame Chunk_Reply
begin

text \<open>
  Who may change what the chunk daemon stores: sending responses never does, and a connection on which
  nobody has logged in with a correct signature does not either.
\<close>

section \<open>The store and responses\<close>

lemma ss_mod [rinv_intros]:
  assumes "\<And>s. store (f s) = store s" "\<And>s. cl_in_obj (f s) = cl_in_obj s" "\<And>s. cl_user (f s) = cl_user s" "\<And>s. cl_out_bo (f s) = cl_out_bo s"
    "\<And>s. cl_state (f s) = cl_state s"
  shows "rinv (same_store st user bo S) (rmod f)"
  by (rule rinv_mod) (simp add: same_store_def in_ok_def assms)

lemma ss_irrelevant [simp]:
  "same_store st user bo S (s\<lparr>cl_in_len := n\<rparr>) = same_store st user bo S s"
  "same_store st user bo S (s\<lparr>cl_sent := b\<rparr>) = same_store st user bo S s"
  "same_store st user bo S (s\<lparr>cl_wrs := w\<rparr>) = same_store st user bo S s"
  "same_store st user bo S (s\<lparr>cl_rds := r\<rparr>) = same_store st user bo S s"
  "same_store st user bo S (s\<lparr>cl_write_q := q\<rparr>) = same_store st user bo S s"
  "same_store st user bo S (s\<lparr>cl_writing := v\<rparr>) = same_store st user bo S s"
  "same_store st user bo S (s\<lparr>cl_write_want_read := v\<rparr>) = same_store st user bo S s"
  "same_store st user bo S (s\<lparr>cl_read_want_write := v\<rparr>) = same_store st user bo S s"
  "same_store st user bo S (s\<lparr>cs_opt_write := k\<rparr>) = same_store st user bo S s"
  "same_store st user bo S (cli_wr_set_poll v s) = same_store st user bo S s"
  by (simp_all add: same_store_def store_def in_ok_def cli_wr_set_poll_def)

lemma ss_state: "same_store st user bo S s \<Longrightarrow> e \<in> insert evt_dispose S' \<Longrightarrow> same_store st user bo S' (s\<lparr>cl_state := e\<rparr>)"
  by (simp add: same_store_def store_def in_ok_def)

lemma ss_set_state [rinv_intros]: "e \<in> insert evt_dispose S \<Longrightarrow> rinv (same_store st user bo S) (set_state e)"
  unfolding set_state_def by (rule rinv_mod) (erule ss_state)

text \<open>A response that ends the connection leaves it in \<^verbatim>\<open>evt_dispose\<close>, one that does not in \<^verbatim>\<open>evt_recycle\<close> or there.\<close>

lemma ss_cli_err:
  assumes "cli_err E code recycle_ok s = Some (Inr (x, s'))" "same_store st user bo S s"
  shows "same_store st user bo (if recycle_ok then {evt_recycle} else {}) s'"
proof -
  let ?S = "if recycle_ok then {evt_recycle} else {}"
  obtain ok s1 where a: "conn_malloc s = (ok, s1)" by fastforce
  have P: "same_store st user bo S s1" by (rule ss.malloc [OF assms(2) a])
  have q: "rinv (same_store st user bo ?S) (queue_resp E b)" for b by (rule ss.queue_resp)
  show ?thesis
  proof (cases ok)
    case True
    have "queue_resp E (resp_bytes ((resp_init_req (cl_creq (s1\<lparr>cl_state := (if recycle_ok then evt_recycle else evt_dispose)\<rparr>)))
        \<lparr>rs_resp_code := errcode_num code\<rparr>)) (s1\<lparr>cl_state := (if recycle_ok then evt_recycle else evt_dispose)\<rparr>) = Some (Inr (x, s'))"
      using assms(1) a True by (simp add: cli_err_def rbind_def rcall_def rmod_def rget_def split: if_splits)
    from rinvD [OF q this] show ?thesis using ss_state [OF P] by simp
  next
    case False
    with assms(1) a have "s' = s1\<lparr>cl_state := evt_dispose\<rparr>" by (simp add: cli_err_def run_simps)
    then show ?thesis using ss_state [OF P] by simp
  qed
qed

section \<open>The states of a connection\<close>

text \<open>
  One step of a connection: a state function, an attempt to write, or the bookkeeping of SSL's wish to
  read when it writes and the other way round.
\<close>

inductive conn_reach :: "'d chenv \<Rightarrow> 'd conn \<Rightarrow> 'd conn \<Rightarrow> bool" for E s where
  cr_start: "conn_reach E s s"
| cr_state: "conn_reach E s t \<Longrightarrow> state_func E (cl_state t) t = Some (Inr (lp, t')) \<Longrightarrow> conn_reach E s t'"
| cr_write: "conn_reach E s t \<Longrightarrow> cli_writable E t = Some (Inr ((), t')) \<Longrightarrow> conn_reach E s t'"
| cr_want_write: "conn_reach E s t \<Longrightarrow> conn_reach E s (cli_wr_set_poll False (t\<lparr>cl_read_want_write := False\<rparr>))"
| cr_want_read: "conn_reach E s t \<Longrightarrow> conn_reach E s (t\<lparr>cl_write_want_read := False\<rparr>)"

lemma loop_reach:
  "cli_loop E t = Some r \<Longrightarrow> conn_reach E s t \<Longrightarrow> r = Inr (x, t') \<Longrightarrow> conn_reach E s t'"
proof (induct E t r rule: cli_loop.raw_induct [rotated, consumes 1, case_names step])
  case (step loop E t r)
  from step(2,4) obtain lp t1 where f: "state_func E (cl_state t) t = Some (Inr (lp, t1))"
    and k: "(if lp then loop E t1 else rret () t1) = Some (Inr (x, t'))" by (auto elim: rbindE)
  have "conn_reach E s t1" by (rule cr_state [OF step(3) f])
  with k show ?case using step(1) [of E t1 r] step(4) by (auto simp: rret_def split: if_splits)
qed

lemma wr_event_reach: "tcp_cli_wr_event E t = Some (Inr (x, t')) \<Longrightarrow> conn_reach E s t \<Longrightarrow> conn_reach E s t'"
  by (auto simp: tcp_cli_wr_event_def rret_def intro: cr_want_write cr_write split: if_splits)

lemma event_reach:
  assumes "tcp_cli_event E ev_read ev_write t = Some (Inr (x, t'))" "conn_reach E s t"
  shows "conn_reach E s t'"
proof -
  from assms(1) obtain t1 t2 where w: "(if ev_write then tcp_cli_wr_event E else rret ()) t = Some (Inr ((), t1))"
    and r: "(if cl_write_want_read t1 then rbind (rmod (\<lambda>s. s\<lparr>cl_write_want_read := False\<rparr>)) (\<lambda>_. cli_writable E) else rret ()) t1 = Some (Inr ((), t2))"
    and l: "(if \<not> ev_read \<and> cl_state t2 \<noteq> evt_dispose then rret () else if \<not> cl_write_want_read t1 then cli_loop E else rret ()) t2 =
      Some (Inr (x, t'))"
    by (auto simp: tcp_cli_event_def rget_def elim!: rbindE)
  have t1: "conn_reach E s t1" using w assms(2) wr_event_reach by (auto simp: rret_def split: if_splits)
  have "conn_reach E s t2" using r t1 cr_write [OF cr_want_read [OF t1]] by (auto simp: run_simps split: if_splits)
  then show ?thesis using l loop_reach [OF _ _ HOL.refl] by (auto simp: rret_def split: if_splits)
qed

section \<open>Connections without a login\<close>

definition signed_login :: "'d chenv \<Rightarrow> 'd conn \<Rightarrow> bool" where
  "signed_login E t \<longleftrightarrow> cl_state t = evt_exec_req \<and> cl_user t = [] \<and> rq_op (cl_creq t) = CHO_LOGIN \<and> valid_req_hdr (cl_creq t) \<and>
     authcheck (ch_hmac E) (cl_creq t) (cl_getpart t) (cli_key t) (cstr (cli_key t))"

definition anon :: "((bytes \<rightharpoonup> nat) \<times> (nat \<Rightarrow> bytes)) \<times> 'd \<Rightarrow> 'd conn \<Rightarrow> bool" where
  "anon st s \<longleftrightarrow> same_store st [] None (UNIV - {evt_data_in}) s \<or> (\<exists>u. same_store st u None {} s)"

lemma anon_rinv:
  assumes "\<And>user S. rinv (same_store st user None S) m" "anon st s" "m s = Some (Inr (x, s'))"
  shows "anon st s'"
  using assms(2) rinvD [OF assms(1) assms(3)] by (auto simp: anon_def)

lemma ss_weaken: "same_store st user bo S s \<Longrightarrow> S \<subseteq> S' \<Longrightarrow> same_store st user bo S' s"
  by (auto simp: same_store_def)

lemma ss_out_end [rinv_intros]: "rinv (same_store st user None S) cli_out_end"
  unfolding cli_out_end_def
  by (rule rinvI)
    (auto simp: run_simps objcache_run_def same_store_def store_def in_ok_def split: option.splits outcome.splits)

lemma ss_cli_free [rinv_intros]: "rinv (same_store st user None S) (cli_free E)"
  unfolding cli_free_def
  by (intro rinv_bind ss.free_all ss_out_end, rule rinv_mod, drule ss.in_end) (simp add: same_store_def store_def in_ok_def)

lemma ss_dispose: "rinv (same_store st user None S) (cli_evt_dispose E)"
proof (rule rinvI)
  fix s x s' assume P: "same_store st user None S s" and m: "cli_evt_dispose E s = Some (Inr (x, s'))"
  then show "same_store st user None S s'"
    using rinvD [OF ss_cli_free [where st = st]] by (auto simp: cli_evt_dispose_def rret_def split: if_splits elim!: rbindE)
qed

lemma ss_sock_read: "same_store st user bo S s \<Longrightarrow> sock_read n s = (r, s') \<Longrightarrow> same_store st user bo S s'"
  by (auto simp: sock_read_def split: list.splits sum.splits if_splits)

lemma ss_read_data [rinv_intros]: "rinv (same_store st user bo S) (rcall (cli_read_data n))"
proof (rule rinv_call)
  fix s x s' assume P: "same_store st user bo S s" and m: "cli_read_data n s = (x, s')"
  have Q: "same_store st user bo S (s\<lparr>cl_rds := r\<rparr>)" for r using P by simp
  show "same_store st user bo S s'"
    using m P Q by (auto simp: cli_read_data_def split: if_splits prod.splits sum.splits dest!: ss_sock_read [rotated])
qed

lemma ss_recv [rinv_intros]: "rinv (same_store st user bo S) (recv d)"
  by (rule rinvI)
    (auto simp: recv_def Let_def run_simps same_store_def store_def in_ok_def split: req_buf.splits if_splits)

lemma ss_fixed_done: "rinv (same_store st user bo (UNIV - {evt_data_in})) fixed_done"
  by (rule rinvI) (auto simp: fixed_done_def Let_def run_simps same_store_def store_def in_ok_def split: if_splits)

lemma ss_var_done: "rinv (same_store st user bo (UNIV - {evt_data_in})) var_done"
  by (rule rinvI) (auto simp: var_done_def Let_def run_simps same_store_def store_def in_ok_def split: if_splits)

lemma ss_read_fixed: "rinv (same_store st user bo (UNIV - {evt_data_in})) (cli_evt_read_fixed E)"
  unfolding cli_evt_read_fixed_def by (intro rinv_intros ss_fixed_done) simp

lemma ss_read_var: "rinv (same_store st user bo (UNIV - {evt_data_in})) (cli_evt_read_var E)"
  unfolding cli_evt_read_var_def by (intro rinv_intros ss_var_done) simp

lemma ss_recycle: "rinv (same_store st user bo (UNIV - {evt_data_in})) cli_evt_recycle"
  by (rule rinvI) (auto simp: cli_evt_recycle_def run_simps same_store_def store_def in_ok_def split: if_splits)

lemma ss_ssl_accept: "rinv (same_store st user bo (UNIV - {evt_data_in})) cli_evt_ssl_accept"
  by (rule rinvI)
    (auto simp: cli_evt_ssl_accept_def ssl_accept_def set_state_def cli_wr_set_poll_def run_simps same_store_def store_def in_ok_def
      split: list.splits sum.splits if_splits prod.splits)

lemma ss_start_tls: "rinv (same_store st user bo (UNIV - {evt_data_in})) start_tls"
  unfolding start_tls_def by (intro rinv_intros) (simp_all add: store_def)

lemma anon_login:
  assumes "login_user E s = Some (Inr (x, s'))" "same_store st [] None S s"
    "\<not> authcheck (ch_hmac E) (cl_creq s) (cl_getpart s) (cli_key s) (cstr (cli_key s))"
  shows "anon st s'"
proof -
  have U: "same_store st u None S (s\<lparr>cl_user := u\<rparr>)" for u using assms(2) by (simp add: same_store_def store_def in_ok_def)
  have A: "anon st s'" if "cli_err E code False (t\<lparr>cl_state := evt_dispose\<rparr>) = Some (Inr (x, s'))" "same_store st u None S t" for code t u
    using ss_cli_err [OF that(1) ss_state [OF that(2), of evt_dispose "{}"]] by (auto simp: anon_def)
  show ?thesis
  proof (cases "cl_key_len s < 1 \<or> unat (cl_key_len s) > CHD_USER_SZ")
    case True
    with assms(1) have "cli_err E che_InvalidArgument False (s\<lparr>cl_state := evt_dispose\<rparr>) = Some (Inr (x, s'))"
      by (simp add: login_user_def set_state_def rbind_def rget_def rmod_def)
    from A [OF this assms(2)] show ?thesis .
  next
    case False
    with assms(1,3) have "cli_err E che_SignatureDoesNotMatch False (s\<lparr>cl_user := cstr (cli_key s)\<rparr>\<lparr>cl_state := evt_dispose\<rparr>) = Some (Inr (x, s'))"
      by (simp add: login_user_def set_state_def rbind_def rget_def rmod_def Let_def)
    from A [OF this U] show ?thesis .
  qed
qed

lemma anon_exec:
  assumes "cli_evt_exec_req E s = Some (Inr (x, s'))" "same_store st [] None S s" "cl_state s = evt_exec_req" "\<not> signed_login E s"
  shows "anon st s'"
proof -
  have u: "cl_user s = []" using assms(2) by (simp add: same_store_def)
  have R: "same_store st [] None (UNIV - {evt_data_in}) (s\<lparr>cl_state := evt_recycle\<rparr>)" by (rule ss_state [OF assms(2)]) simp
  have D: "same_store st [] None {} (s\<lparr>cl_state := evt_recycle, cl_state := evt_dispose\<rparr>)" by (rule ss_state [OF R]) simp
  have F: "anon st (t\<lparr>cl_first_req := False\<rparr>)" if "anon st t" for t
    using that by (auto simp: anon_def same_store_def store_def in_ok_def)
  have E: "anon st t" if "cli_err E code False r = Some (Inr (y, t))" "same_store st [] None S' r" for code r y t S'
    using ss_cli_err [OF that] by (auto simp: anon_def)
  show ?thesis
  proof (cases "valid_req_hdr (cl_creq s)")
    case False
    then have "cli_err E che_InvalidArgument False s = Some (Inr (x, s'))" using assms(1) by (simp add: cli_evt_exec_req_def rbind_def rget_def)
    from E [OF this assms(2)] show ?thesis .
  next
    case valid: True
    consider (login) "rq_op (cl_creq s) = CHO_LOGIN" | (tls) "rq_op (cl_creq s) = CHO_START_TLS" 
      | (other) "rq_op (cl_creq s) \<noteq> CHO_LOGIN" "rq_op (cl_creq s) \<noteq> CHO_START_TLS" by blast
    then show ?thesis
    proof cases
      case other
      then have "s' = s\<lparr>cl_state := evt_recycle, cl_state := evt_dispose\<rparr>"
        using assms(1) valid u by (simp add: cli_evt_exec_req_def set_state_def run_simps)
      with D show ?thesis unfolding anon_def by blast
    next
      case login
      then have na: "\<not> authcheck (ch_hmac E) (cl_creq s) (cl_getpart s) (cli_key s) (cstr (cli_key s))"
        using assms(3,4) valid u by (simp add: signed_login_def)
      from login obtain t where t: "login_user E (s\<lparr>cl_state := evt_recycle\<rparr>) = Some (Inr (x, t))" "s' = t\<lparr>cl_first_req := False\<rparr>"
        using assms(1) valid u
        by (auto simp: cli_evt_exec_req_def set_state_def rget_def rmod_def rret_def needs_table_def run_op_def cfg_simps elim!: rbindE)
      show ?thesis unfolding t(2) using na by (intro F anon_login [OF t(1) R]) (simp add: cl_creq_def cli_key_def)
    next
      case tls
      then obtain t where t: "start_tls (s\<lparr>cl_state := evt_recycle\<rparr>) = Some (Inr (x, t))" "s' = t\<lparr>cl_first_req := False\<rparr>"
        using assms(1) valid u
        by (auto simp: cli_evt_exec_req_def set_state_def rget_def rmod_def rret_def needs_table_def run_op_def cfg_simps elim!: rbindE)
      show ?thesis unfolding t(2) using rinvD [OF ss_start_tls t(1) R] by (intro F) (auto simp: anon_def)
    qed
  qed
qed

lemma anon_state:
  assumes "state_func E (cl_state s) s = Some (Inr (x, s'))" "anon st s" "\<not> signed_login E s"
  shows "anon st s'"
  using assms(2) unfolding anon_def
proof (elim disjE exE)
  fix u assume P: "same_store st u None {} s"
  then have "cl_state s = evt_dispose" by (simp add: same_store_def)
  then have "cli_evt_dispose E s = Some (Inr (x, s'))" using assms(1) by (simp add: state_func_def)
  from rinvD [OF ss_dispose this P] show "same_store st [] None (UNIV - {evt_data_in}) s' \<or> (\<exists>u. same_store st u None {} s')" by blast
next
  assume P: "same_store st [] None (UNIV - {evt_data_in}) s"
  have "cl_state s \<noteq> evt_data_in" using P by (auto simp: same_store_def)
  moreover have "anon st s'" if "cl_state s = evt_exec_req"
    using anon_exec [OF _ P that assms(3)] assms(1) that by (simp add: state_func_def)
  moreover note rinvD [OF ss_read_fixed _ P] rinvD [OF ss_read_var _ P] rinvD [OF ss_recycle _ P] rinvD [OF ss_ssl_accept _ P]
    rinvD [OF ss_dispose _ P]
  ultimately show "same_store st [] None (UNIV - {evt_data_in}) s' \<or> (\<exists>u. same_store st u None {} s')"
    using assms(1) unfolding state_func_def anon_def by (cases "cl_state s") simp_all
qed

lemma anon_reach:
  "conn_reach E s0 s \<Longrightarrow> anon st s0 \<Longrightarrow> anon st s \<or> (\<exists>t. conn_reach E s0 t \<and> signed_login E t)"
proof (induction rule: conn_reach.induct)
  case (cr_state t lp t')
  then show ?case using anon_state [OF cr_state.hyps(2)] by blast
next
  case (cr_write t t')
  then show ?case using anon_rinv [OF ss.writable' _ cr_write.hyps(2)] by blast
qed (auto simp: anon_def)

lemma alloc_anon: "anon (store srv) (cli_alloc srv rds wrs)"
  by (cases srv) (simp add: anon_def same_store_def cli_alloc_def server.extend_def conn.fields_def store_def in_ok_def)

section \<open>Properties\<close>

lemma events_reach: "cli_events E evs t = Some (Inr (x, t')) \<Longrightarrow> conn_reach E s t \<Longrightarrow> conn_reach E s t'"
  by (induction E evs t rule: cli_events.induct) (auto simp: rret_def split: if_splits elim!: rbindE dest: event_reach)



end
