(* ===== verification/Chunk_Serve.thy ===== *)
theory Chunk_Serve
  imports Chunk_Auth
begin

text \<open>
  What the peer of a connection receives: responses, and the bytes of an object that is sent in pieces as
  the socket takes them.
\<close>

section \<open>Sending an object\<close>

text \<open>An open object with contents \<open>d\<close> on a system where nothing fails.\<close>

definition src_ok :: "cenv \<Rightarrow> bytes \<Rightarrow> fs_obj \<Rightarrow> fsys \<Rightarrow> bool" where
  "src_ok C d obj fs \<longleftrightarrow> length d < 2 ^ 43 \<and> quiet fs \<and>
     (\<exists>key md fd ino. rd_obj C key md d fd ino obj \<and> rd_fs obj fd ino fs \<and> drop (fo_value_ofs obj) (fy_files fs ino) = d)"

lemma src_read:
  assumes "sha_len C" "src_ok C d obj fs"
  shows "\<exists>obj' fs'. fs_obj_read C obj n fs = (Inr (take n (drop (fo_in_pos obj) d)), obj', fs') \<and> src_ok C d obj' fs' \<and>
    fo_in_pos obj' = fo_in_pos obj + length (take n (drop (fo_in_pos obj) d))"
proof -
  obtain key md fd ino where s: "rd_obj C key md d fd ino obj" "rd_fs obj fd ino fs" "drop (fo_value_ofs obj) (fy_files fs ino) = d"
    and n: "length d < 2 ^ 43" "quiet fs" using assms(2) by (auto simp: src_ok_def)
  obtain obj' fs' where r: "fs_obj_read C obj n fs = (Inr (take n (drop (fo_in_pos obj) d)), obj', fs')" "quiet fs'"
    using fs_obj_read_quiet [OF assms(1) n(1) s(1,2) n(2) s(3)] by blast
  note k = fs_obj_read_ok(3,4) [OF assms(1) n(1) s(1,2) r(1)]
  have "fy_files fs' = fy_files fs" using read_obj_disk [OF r(1)] by (simp add: disk_def)
  then have "src_ok C d obj' fs'" using k s r(2) n(1) by (auto simp: src_ok_def rd_obj_def)
  with r(1) k(1) show ?thesis by simp
qed

lemma quiet_free: "quiet fs \<Longrightarrow> quiet (fs_obj_free obj fs)"
  by (auto simp: fs_obj_free_def Let_def sys_unlink_def sys_close_def split: option.splits)

lemma conn_malloc_quiet: "quiet (cs_fs s) \<Longrightarrow> conn_malloc s = (True, s)"
  by (cases s) (simp add: conn_malloc_def)

text \<open>The entry of a buffer.\<close>

definition wbuf :: "bytes \<Rightarrow> cli_write_func \<Rightarrow> client_write" where
  "wbuf b cb = \<lparr>cw_buf = b, cw_len = length b, cw_cb = cb, cw_sendfile = False\<rparr>"

lemma writeq_ok:
  assumes "quiet (cs_fs s)" "b \<noteq> []" "length b < 2 ^ 32"
  shows "\<exists>k. cli_writeq b cb s = (0, s\<lparr>cs_trash_sz := k, cl_write_q := cl_write_q s @ [wbuf b cb]\<rparr>)"
proof -
  have "unat (word_of_nat (length b) :: u32) = length b" using assms(3) by (simp add: unat_small)
  then show ?thesis using assms
    by (intro exI [of _ "cs_trash_sz s - 1"]) (cases s, simp add: cli_writeq_def Let_def conn_malloc_quiet wbuf_def)
qed

text \<open>What is still to be read from the object, and the piece that is read next.\<close>

definition rest_of :: "bytes \<Rightarrow> 'd conn \<Rightarrow> bytes" where
  "rest_of d s = drop (length d - cl_in_len s) d"

definition in_sync :: "'d chenv \<Rightarrow> bytes \<Rightarrow> 'd conn \<Rightarrow> bool" where
  "in_sync E d s \<longleftrightarrow> quiet (cs_fs s) \<and>
     (cl_in_len s \<noteq> 0 \<longrightarrow> (\<exists>obj. cl_in_obj s = Some obj \<and> src_ok (ch_fs E) d obj (cs_fs s) \<and> cl_in_len s + fo_in_pos obj = length d))"

lemma read_bytes_ok:
  assumes "sha_len (ch_fs E)" "in_sync E d s" "cl_in_len s \<noteq> 0" "\<not> use_sendfile E s"
  shows "\<exists>p s'. object_read_bytes E s = Some (Inr (True, s')) \<and> p \<noteq> [] \<and> rest_of d s = p @ rest_of d s' \<and> length p \<le> CLI_DATA_BUF_SZ \<and>
    cl_write_q s' = cl_write_q s @ [wbuf p (if cl_in_len s' \<noteq> 0 then Cb_get_more else Cb_none)] \<and>
    cl_in_len s' < cl_in_len s \<and> in_sync E d s' \<and> cl_sent s' = cl_sent s \<and> cl_wrs s' = cl_wrs s \<and> cl_ssl s' = cl_ssl s \<and>
    cl_state s' = cl_state s \<and> cl_writing s' = cl_writing s"
proof -
  obtain obj where o: "cl_in_obj s = Some obj" "src_ok (ch_fs E) d obj (cs_fs s)" "cl_in_len s + fo_in_pos obj = length d"
    and q: "quiet (cs_fs s)" using assms(2,3) by (auto simp: in_sync_def)
  let ?n = "min (cl_in_len s) CLI_DATA_BUF_SZ" and ?r = "drop (fo_in_pos obj) d"
  define p where "p = take ?n ?r"
  obtain obj' fs' where r: "fs_obj_read (ch_fs E) obj ?n (cs_fs s) = (Inr p, obj', fs')" "src_ok (ch_fs E) d obj' fs'"
    "fo_in_pos obj' = fo_in_pos obj + length p" using src_read [OF assms(1) o(2), of ?n] unfolding p_def by blast
  have lr: "length ?r = cl_in_len s" using o(3) by simp
  then have lp: "length p = ?n" by (simp add: p_def)
  have pn: "p \<noteq> []" "length p \<le> CLI_DATA_BUF_SZ" "length p < 2 ^ 32"
    using lp assms(3) by (auto simp: CLI_DATA_BUF_SZ_def min_def split: if_splits)
  define s1 where "s1 = s\<lparr>cs_fs := fs', cl_in_obj := Some obj', cl_in_len := cl_in_len s - length p\<rparr>"
  define s2 where "s2 = (if cl_in_len s1 = 0 then cli_in_end s1 else s1)"
  have q1: "quiet (cs_fs s1)" using r(2) by (simp add: s1_def src_ok_def)
  then have q2: "quiet (cs_fs s2)" by (simp add: s2_def s1_def cli_in_end_def quiet_free)
  obtain k where w: "cli_writeq p (if cl_in_len s2 \<noteq> 0 then Cb_get_more else Cb_none) s2 =
      (0, s2\<lparr>cs_trash_sz := k, cl_write_q := cl_write_q s2 @ [wbuf p (if cl_in_len s2 \<noteq> 0 then Cb_get_more else Cb_none)]\<rparr>)"
    using writeq_ok [OF q2 pn(1,3)] by blast
  define s3 where "s3 = s2\<lparr>cs_trash_sz := k, cl_write_q := cl_write_q s2 @ [wbuf p (if cl_in_len s2 \<noteq> 0 then Cb_get_more else Cb_none)]\<rparr>"
  have il: "cl_in_len s3 = cl_in_len s - length p" "cl_write_q s2 = cl_write_q s"
    by (simp_all add: s3_def s2_def s1_def cli_in_end_def)
  have run: "object_read_bytes E s = Some (Inr (True, s3))"
    using assms(4) o(1) r(1) pn(1) w unfolding object_read_bytes_def s3_def s2_def s1_def by (simp add: Let_def rret_def split: if_splits)
  have "?r = p @ drop ?n ?r" unfolding p_def by (rule append_take_drop_id [symmetric])
  moreover have "length d - cl_in_len s = fo_in_pos obj" "length d - cl_in_len s3 = ?n + fo_in_pos obj" using o(3) lp il(1) by linarith+
  ultimately have rs: "rest_of d s = p @ rest_of d s3" unfolding rest_of_def by simp
  have sy: "in_sync E d s3"
    using q2 r(2,3) o(3) lp by (auto simp: in_sync_def s3_def s2_def s1_def cli_in_end_def)
  have "cl_sent s3 = cl_sent s \<and> cl_wrs s3 = cl_wrs s \<and> cl_ssl s3 = cl_ssl s \<and> cl_state s3 = cl_state s \<and> cl_writing s3 = cl_writing s"
    by (simp add: s3_def s2_def s1_def cli_in_end_def)
  moreover have "cl_write_q s3 = cl_write_q s @ [wbuf p (if cl_in_len s3 \<noteq> 0 then Cb_get_more else Cb_none)]" "cl_in_len s3 < cl_in_len s"
    using il assms(3) length_greater_0_conv [THEN iffD2, OF pn(1)] by (simp_all add: s3_def)
  ultimately show ?thesis using run pn(1,2) rs sy by blast
qed

text \<open>
  A queue of buffers, of which only the last asks for more of the object, and does so exactly when there is
  more.
\<close>

definition q_ok :: "bool \<Rightarrow> client_write list \<Rightarrow> bool" where
  "q_ok mo q \<longleftrightarrow> (\<forall>w \<in> set q. \<not> cw_sendfile w \<and> cw_buf w \<noteq> [] \<and> cw_len w = length (cw_buf w)) \<and>
     (\<forall>w \<in> set (butlast q). cw_cb w \<noteq> Cb_get_more) \<and> (mo \<longleftrightarrow> q \<noteq> [] \<and> cw_cb (last q) = Cb_get_more)"

definition pending :: "bytes \<Rightarrow> 'd conn \<Rightarrow> bytes" where
  "pending d s = concat (map cw_buf (cl_write_q s)) @ rest_of d s"

definition sending :: "'d chenv \<Rightarrow> bytes \<Rightarrow> 'd conn \<Rightarrow> bool" where
  "sending E d s \<longleftrightarrow> in_sync E d s \<and> q_ok (cl_in_len s \<noteq> 0) (cl_write_q s) \<and> \<not> use_sendfile E s \<and> cl_in_len s \<le> length d"

lemma q_ok_Cons:
  "q_ok mo (w # q) \<longleftrightarrow> \<not> cw_sendfile w \<and> cw_buf w \<noteq> [] \<and> cw_len w = length (cw_buf w) \<and>
     (if q = [] then mo \<longleftrightarrow> cw_cb w = Cb_get_more else cw_cb w \<noteq> Cb_get_more \<and> q_ok mo q)"
  by (auto simp: q_ok_def)

lemma sending_upd:
  "sending E d (s\<lparr>cl_sent := b\<rparr>) = sending E d s" "sending E d (s\<lparr>cl_wrs := w\<rparr>) = sending E d s"
  "sending E d (s\<lparr>cl_writing := v\<rparr>) = sending E d s" "sending E d (cli_wr_set_poll v s) = sending E d s"
  "sending E d (s\<lparr>cs_opt_write := k\<rparr>) = sending E d s" "sending E d (s\<lparr>cs_trash_sz := k\<rparr>) = sending E d s"
  "sending E d (s\<lparr>cl_write_want_read := v\<rparr>) = sending E d s"
  by (simp_all add: sending_def in_sync_def use_sendfile_def cli_wr_set_poll_def)

definition one_piece :: "client_write list \<Rightarrow> bool" where
  "one_piece q \<longleftrightarrow> (\<exists>p cb. q = [wbuf p cb] \<and> length p \<le> CLI_DATA_BUF_SZ)"

text \<open>Taking out the first entry when all of it has been sent.\<close>

lemma free_first_ok:
  assumes sha: "sha_len (ch_fs E)" and s: "sending E d s" and q: "cl_write_q s = w # q"
  shows "\<exists>rcb s'. cli_write_free E (w\<lparr>cw_len := 0, cw_buf := []\<rparr>) True (s\<lparr>cl_write_q := w\<lparr>cw_len := 0, cw_buf := []\<rparr> # q\<rparr>) = Some (Inr (rcb, s')) \<and>
    sending E d s' \<and> pending d s = cw_buf w @ pending d s' \<and> (q \<noteq> [] \<longrightarrow> cl_write_q s' = q) \<and> (rcb \<longrightarrow> cl_in_len s' < cl_in_len s) \<and>
    cl_sent s' = cl_sent s \<and> cl_wrs s' = cl_wrs s \<and> cl_ssl s' = cl_ssl s \<and> cl_state s' = cl_state s \<and> cl_writing s' = cl_writing s \<and>
    (rcb = (cw_cb w = Cb_get_more)) \<and> cl_in_len s' \<le> cl_in_len s \<and> (rcb \<longrightarrow> one_piece (cl_write_q s'))"
proof (cases "cw_cb w = Cb_get_more")
  case False
  let ?s = "s\<lparr>cl_write_q := w\<lparr>cw_len := 0, cw_buf := []\<rparr> # q\<rparr>"
  have "cli_write_free E (w\<lparr>cw_len := 0, cw_buf := []\<rparr>) True ?s = Some (Inr (False, ?s\<lparr>cl_write_q := q,
      cs_trash_sz := (if cs_trash_sz s < CHD_TRASH_MAX then cs_trash_sz s + 1 else cs_trash_sz s)\<rparr>))"
    using False by (simp add: cli_write_free_def run_simps split: cli_write_func.splits)
  moreover have "q_ok (cl_in_len s \<noteq> 0) q" "cl_in_len s = 0 \<or> q \<noteq> []"
    using s q False by (auto simp: sending_def q_ok_Cons q_ok_def split: if_splits)
  ultimately show ?thesis using s q False
    by (auto simp: sending_def in_sync_def use_sendfile_def pending_def rest_of_def)
next
  case True
  let ?s = "s\<lparr>cl_write_q := w\<lparr>cw_len := 0, cw_buf := []\<rparr> # q\<rparr>"
  have q0: "q = []" and il: "cl_in_len s \<noteq> 0" using s q True by (auto simp: sending_def q_ok_Cons split: if_splits)
  have sy: "in_sync E d ?s" "cl_in_len ?s \<noteq> 0" "\<not> use_sendfile E ?s"
    using s il by (auto simp: sending_def in_sync_def use_sendfile_def)
  from read_bytes_ok [OF sha this] obtain p s' where r: "object_read_bytes E ?s = Some (Inr (True, s'))"
    and lp: "length p \<le> CLI_DATA_BUF_SZ"
    and p: "p \<noteq> []" "rest_of d ?s = p @ rest_of d s'" "cl_write_q s' = cl_write_q ?s @ [wbuf p (if cl_in_len s' \<noteq> 0 then Cb_get_more else Cb_none)]"
      "cl_in_len s' < cl_in_len ?s" "in_sync E d s'" "cl_sent s' = cl_sent ?s" "cl_wrs s' = cl_wrs ?s" "cl_ssl s' = cl_ssl ?s"
      "cl_state s' = cl_state ?s" "cl_writing s' = cl_writing ?s" by blast
  let ?t = "s'\<lparr>cl_write_q := [wbuf p (if cl_in_len s' \<noteq> 0 then Cb_get_more else Cb_none)],
      cs_trash_sz := (if cs_trash_sz s' < CHD_TRASH_MAX then cs_trash_sz s' + 1 else cs_trash_sz s')\<rparr>"
  have "cli_write_free E (w\<lparr>cw_len := 0, cw_buf := []\<rparr>) True ?s = Some (Inr (True, ?t))"
    using True il r p(3) q0 by (simp add: cli_write_free_def run_simps object_get_more_def)
  moreover have "q_ok (cl_in_len s' \<noteq> 0) [wbuf p (if cl_in_len s' \<noteq> 0 then Cb_get_more else Cb_none)]"
    using p(1) by (simp add: q_ok_def wbuf_def)
  moreover have "rest_of d s = p @ rest_of d s'" using p(2) by (simp add: rest_of_def)
  moreover have "cl_in_len s' \<le> length d" using p(4) s by (simp add: sending_def)
  moreover have "one_piece (cl_write_q ?t)" using lp by (auto simp: one_piece_def)
  ultimately show ?thesis using s q q0 p True
    by (auto simp: sending_def in_sync_def use_sendfile_def pending_def rest_of_def wbuf_def)
qed

definition same_conn :: "'d conn \<Rightarrow> 'd conn \<Rightarrow> bool" where
  "same_conn s s' \<longleftrightarrow> cl_sent s' = cl_sent s \<and> cl_wrs s' = cl_wrs s \<and> cl_ssl s' = cl_ssl s \<and> cl_state s' = cl_state s \<and> cl_writing s' = cl_writing s"

lemma completed_ok:
  assumes sha: "sha_len (ch_fs E)" and "sending E d s" "rc \<le> length (concat (map cw_buf (cl_write_q s)))"
  shows "\<exists>mw' s'. cli_wr_completed E rc mw s = Some (Inr (mw', s')) \<and> sending E d s' \<and> pending d s' = drop rc (pending d s) \<and>
     same_conn s s' \<and> cl_in_len s' \<le> cl_in_len s \<and> (mw' \<and> \<not> mw \<longrightarrow> cl_in_len s' < cl_in_len s) \<and>
     (rc = length (concat (map cw_buf (cl_write_q s))) \<and> \<not> mw \<longrightarrow> cl_write_q s' = [] \<or> mw' \<and> one_piece (cl_write_q s'))"
  using assms(2,3)
proof (induction "cl_write_q s" arbitrary: s rc mw)
  case Nil
  then show ?case by (subst cli_wr_completed.simps) (auto simp: rret_def same_conn_def)
next
  case (Cons w q)
  note q = Cons.hyps(2) [symmetric]
  have w: "cw_len w = length (cw_buf w)" "cw_buf w \<noteq> []" "\<not> cw_sendfile w"
    using Cons.prems(1) q by (simp_all add: sending_def q_ok_Cons)
  consider (zero) "rc = 0" | (part) "0 < rc" "rc < length (cw_buf w)" | (full) "length (cw_buf w) \<le> rc" "rc \<noteq> 0" using w(2) by linarith
  then show ?case
  proof cases
    case zero
    then show ?thesis using Cons.prems q w by (subst cli_wr_completed.simps) (auto simp: rret_def same_conn_def)
  next
    case part
    let ?w = "w\<lparr>cw_len := length (cw_buf w) - rc, cw_buf := drop rc (cw_buf w)\<rparr>"
    let ?s = "s\<lparr>cl_write_q := ?w # q\<rparr>"
    have "cli_wr_completed E rc mw s = Some (Inr (mw, ?s))"
      using part w(1) q by (subst cli_wr_completed.simps, simp add: Let_def, subst cli_wr_completed.simps, simp add: rret_def)
    moreover have "sending E d ?s"
      using Cons.prems(1) q part unfolding sending_def q_ok_Cons by (simp add: in_sync_def use_sendfile_def q_ok_Cons split: if_splits)
    moreover have "pending d ?s = drop rc (pending d s)" using part q by (simp add: pending_def rest_of_def)
    ultimately show ?thesis using part q by (auto simp: same_conn_def)
  next
    case full
    obtain rcb s1 where f: "cli_write_free E (w\<lparr>cw_len := 0, cw_buf := []\<rparr>) True (s\<lparr>cl_write_q := w\<lparr>cw_len := 0, cw_buf := []\<rparr> # q\<rparr>) = Some (Inr (rcb, s1))"
      and s1: "sending E d s1" "pending d s = cw_buf w @ pending d s1" "q \<noteq> [] \<longrightarrow> cl_write_q s1 = q" "rcb \<longrightarrow> cl_in_len s1 < cl_in_len s"
        "same_conn s s1" "rcb = (cw_cb w = Cb_get_more)" "cl_in_len s1 \<le> cl_in_len s" "rcb \<longrightarrow> one_piece (cl_write_q s1)"
      using free_first_ok [OF sha Cons.prems(1) q] unfolding same_conn_def by blast
    have st: "cli_wr_completed E rc mw s = cli_wr_completed E (rc - length (cw_buf w)) (mw \<or> rcb) s1"
      using full w(1) q f by (subst cli_wr_completed.simps) (auto simp: Let_def rbind_def)
    show ?thesis
    proof (cases "q = []")
      case True
      then have rc: "rc = length (cw_buf w)" using full Cons.prems(2) q by simp
      have "cli_wr_completed E 0 (mw \<or> rcb) s1 = Some (Inr (mw \<or> rcb, s1))" by (subst cli_wr_completed.simps) (simp add: rret_def)
      then have "cli_wr_completed E rc mw s = Some (Inr (mw \<or> rcb, s1))" using st rc by simp
      moreover have "cl_write_q s1 = [] \<or> rcb"
      proof (cases rcb)
        case False
        then have "cl_in_len s = 0" using s1(6) Cons.prems(1) q True by (simp add: sending_def q_ok_Cons)
        then have "rest_of d s = []" "rest_of d s1 = []" using s1(7) by (simp_all add: rest_of_def)
        then have "concat (map cw_buf (cl_write_q s1)) = []" using s1(2) q True by (simp add: pending_def)
        then show ?thesis using s1(1) by (cases "cl_write_q s1") (auto simp: sending_def q_ok_def)
      qed simp
      ultimately show ?thesis using s1 rc by auto
    next
      case False
      then have q1: "q = cl_write_q s1" using s1(3) by simp
      have "rc - length (cw_buf w) \<le> length (concat (map cw_buf (cl_write_q s1)))" using Cons.prems(2) q q1 by simp
      from Cons.hyps(1) [OF q1 s1(1) this, of "mw \<or> rcb"] obtain mw' s' where
        h: "cli_wr_completed E (rc - length (cw_buf w)) (mw \<or> rcb) s1 = Some (Inr (mw', s'))" "sending E d s'"
          "pending d s' = drop (rc - length (cw_buf w)) (pending d s1)" "same_conn s1 s'" "cl_in_len s' \<le> cl_in_len s1"
          "mw' \<and> \<not> (mw \<or> rcb) \<longrightarrow> cl_in_len s' < cl_in_len s1"
          "rc - length (cw_buf w) = length (concat (map cw_buf (cl_write_q s1))) \<and> \<not> (mw \<or> rcb) \<longrightarrow> cl_write_q s' = [] \<or> mw' \<and> one_piece (cl_write_q s')" by blast
      have "same_conn s s'" using h(4) s1(5) by (simp add: same_conn_def)
      moreover have "pending d s' = drop rc (pending d s)" using h(3) s1(2) full(1) by simp
      moreover have "\<not> rcb" using s1(6) False Cons.prems(1) q by (simp add: sending_def q_ok_Cons)
      ultimately show ?thesis using h s1 q q1 unfolding st by auto
    qed
  qed
qed

text \<open>A vector holds the first entries; all of them, when they are few.\<close>

lemma iov_prefix:
  "\<forall>w \<in> set q. \<not> cw_sendfile w \<and> cw_len w = length (cw_buf w) \<Longrightarrow> \<exists>k. iov_bytes (cli_wr_iov n tot q) = concat (map cw_buf (take k q))"
proof (induction n tot q rule: cli_wr_iov.induct)
  case (3 n tot tmp q)
  then obtain k where "iov_bytes (cli_wr_iov n (tot + cw_len tmp) q) = concat (map cw_buf (take k q))"
      if "\<not> cw_len tmp > 2 ^ 63 - 1" "\<not> (tot + cw_len tmp) mod 2 ^ 64 < tot" by fastforce
  then show ?case using 3(2) by (cases "cw_len tmp > 2 ^ 63 - 1 \<or> (tot + cw_len tmp) mod 2 ^ 64 < tot")
      (auto simp: iov_bytes_def intro: exI [of _ 0] exI [of _ "Suc k"])
qed (auto simp: iov_bytes_def intro: exI [of _ 0])

lemma iov_all:
  "\<forall>w \<in> set q. \<not> cw_sendfile w \<and> cw_len w = length (cw_buf w) \<Longrightarrow> length q \<le> n \<Longrightarrow> tot + length (concat (map cw_buf q)) < 2 ^ 63 \<Longrightarrow>
   iov_bytes (cli_wr_iov n tot q) = concat (map cw_buf q)"
proof (induction n tot q rule: cli_wr_iov.induct)
  case (3 n tot tmp q)
  then have "\<not> cw_len tmp > 2 ^ 63 - 1" "(tot + cw_len tmp) mod 2 ^ 64 = tot + cw_len tmp" by auto
  with 3 show ?case by (simp add: iov_bytes_def)
qed (auto simp: iov_bytes_def)

text \<open>A socket that may take less than it is given, or nothing for now, but does not fail.\<close>

definition wr_fine :: "bool \<Rightarrow> int + nat \<Rightarrow> bool" where
  "wr_fine ssl r = (case r of
      Inl e \<Rightarrow> (if ssl then e = SSL_ERROR_WANT_READ \<or> e = SSL_ERROR_WANT_WRITE else e = EAGAIN \<or> e = EINTR)
    | Inr n \<Rightarrow> ssl \<longrightarrow> n \<noteq> 0)"

definition benign :: "'d conn \<Rightarrow> bool" where
  "benign s \<longleftrightarrow> (\<forall>r \<in> set (cl_wrs s). wr_fine (cl_ssl s) r)"

definition few :: "client_write list \<Rightarrow> bool" where
  "few q \<longleftrightarrow> length q \<le> CLI_MAX_WR_IOV \<and> length (concat (map cw_buf q)) < 2 ^ 63"

lemma one_piece_few: "one_piece q \<Longrightarrow> few q"
  by (auto simp: one_piece_def few_def wbuf_def cfg_simps)

lemma sock_write_cases:
  obtains (err) e w where "sock_write b s = (Inl e, s\<lparr>cl_wrs := w\<rparr>)" "cl_wrs s = Inl e # w" "set w \<subseteq> set (cl_wrs s)"
  | (ok) n w where "sock_write b s = (Inr n, s\<lparr>cl_wrs := w, cl_sent := cl_sent s @ take n b\<rparr>)" "n \<le> length b" "set w \<subseteq> set (cl_wrs s)"
      "cl_wrs s = [] \<Longrightarrow> n = length b" "n = length b \<or> (\<exists>m. Inr m \<in> set (cl_wrs s) \<and> n = min m (length b))"
proof (cases "cl_wrs s")
  case Nil
  have w: "sock_write b s = (Inr (length b), s\<lparr>cl_wrs := [], cl_sent := cl_sent s @ take (length b) b\<rparr>)"
    using Nil by (cases s) (simp add: sock_write_def)
  show thesis by (rule ok [OF w]) simp_all
next
  case (Cons r w)
  show thesis
  proof (cases r)
    case (Inl e)
    then have w: "sock_write b s = (Inl e, s\<lparr>cl_wrs := w\<rparr>)" using Cons by (simp add: sock_write_def)
    show thesis by (rule err [OF w]) (use Cons Inl in auto)
  next
    case (Inr n)
    have w: "sock_write b s = (Inr (min n (length b)), s\<lparr>cl_wrs := w, cl_sent := cl_sent s @ take (min n (length b)) b\<rparr>)"
      using Inr Cons by (simp add: sock_write_def min_def)
    show thesis by (rule ok [OF w]) (use Cons Inr in auto)
  qed
qed

text \<open>What an attempt to write may do: nothing, or send a first part of the queue's bytes.\<close>

definition wrote :: "'d conn \<Rightarrow> nat option \<Rightarrow> 'd conn \<Rightarrow> bool" where
  "wrote s r s1 \<longleftrightarrow> (\<exists>w t v. s1 = s\<lparr>cl_wrs := w, cl_sent := t, cl_write_want_read := v\<rparr> \<and> set w \<subseteq> set (cl_wrs s) \<and>
     (case r of None \<Rightarrow> t = cl_sent s
      | Some rc \<Rightarrow> rc \<le> length (concat (map cw_buf (cl_write_q s))) \<and> t = cl_sent s @ take rc (concat (map cw_buf (cl_write_q s)))))"

lemma wrote_none: "set w \<subseteq> set (cl_wrs s) \<Longrightarrow> wrote s None (s\<lparr>cl_wrs := w\<rparr>)" "set w \<subseteq> set (cl_wrs s) \<Longrightarrow> wrote s None (s\<lparr>cl_wrs := w, cl_write_want_read := v\<rparr>)"
  unfolding wrote_def
  by (rule exI [of _ w], rule exI [of _ "cl_sent s"], rule exI [of _ "cl_write_want_read s"], simp)
    (rule exI [of _ w], rule exI [of _ "cl_sent s"], rule exI [of _ v], simp)

lemma wrote_some:
  assumes "set w \<subseteq> set (cl_wrs s)" "n \<le> length b" "concat (map cw_buf (cl_write_q s)) = b @ x"
  shows "wrote s (Some n) (s\<lparr>cl_wrs := w, cl_sent := cl_sent s @ take n b\<rparr>)"
  unfolding wrote_def
  by (rule exI [of _ w], rule exI [of _ "cl_sent s @ take n b"], rule exI [of _ "cl_write_want_read s"]) (use assms in simp)

lemma do_write_ok:
  assumes s: "sending E d s" and ne: "cl_write_q s \<noteq> []" and b: "benign s"
  shows "\<exists>r s1. do_write E s = Some (Inr (r, s1)) \<and> wrote s r s1 \<and>
     (cl_wrs s = [] \<and> \<not> cl_ssl s \<and> few (cl_write_q s) \<longrightarrow> r = Some (length (concat (map cw_buf (cl_write_q s)))))"
proof -
  obtain tmp q where q: "cl_write_q s = tmp # q" using ne by (cases "cl_write_q s") auto
  have e: "\<forall>w \<in> set (cl_write_q s). \<not> cw_sendfile w \<and> cw_len w = length (cw_buf w)" "\<not> cw_sendfile tmp" "cw_buf tmp \<noteq> []"
      "cw_len tmp = length (cw_buf tmp)"
    using s q by (simp_all add: sending_def q_ok_def)
  show ?thesis
  proof (cases "cl_ssl s")
    case True
    show ?thesis
    proof (cases rule: sock_write_cases [of "cw_buf tmp" s])
      case (err x w)
      then show ?thesis using True b q e wrote_none [OF err(3)]
        by (auto simp: do_write_def benign_def wr_fine_def rret_def split: sum.splits)
    next
      case (ok n w)
      then have "n \<noteq> 0" using True b e(3) unfolding benign_def wr_fine_def by (force split: sum.splits)
      then show ?thesis using True q e ok(1) wrote_some [OF ok(3,2)] by (auto simp: do_write_def rret_def)
    qed
  next
    case False
    let ?s = "s\<lparr>cl_wrs := dropWhile (\<lambda>r. r = Inl EINTR) (cl_wrs s)\<rparr>"
    let ?b = "iov_bytes (cli_wr_iov CLI_MAX_WR_IOV 0 (cl_write_q s))"
    have sub: "set w \<subseteq> set (cl_wrs s)" if "set w \<subseteq> set (cl_wrs ?s)" for w
      using that set_dropWhileD by fastforce
    obtain k where k: "?b = concat (map cw_buf (take k (cl_write_q s)))" using iov_prefix [OF e(1)] by blast
    then have cb: "concat (map cw_buf (cl_write_q s)) = ?b @ concat (map cw_buf (drop k (cl_write_q s)))"
      by (metis append_take_drop_id concat_append map_append)
    show ?thesis
    proof (cases rule: sock_write_cases [of ?b ?s])
      case (err x w)
      then have w: "Inl x \<in> set (cl_wrs s)" "cl_wrs s \<noteq> []" using sub [of "cl_wrs ?s"] by auto
      have "x \<noteq> EINTR"
      proof
        assume "x = EINTR"
        with err(2) hd_dropWhile [of "\<lambda>r. r = Inl EINTR" "cl_wrs s"] show False by simp
      qed
      then have "do_write E s = Some (Inr (None, s\<lparr>cl_wrs := w\<rparr>))"
        using False q e err(1) w(1) b by (auto simp: do_write_def rret_def benign_def wr_fine_def split: sum.splits)
      with w wrote_none(1) [OF sub [OF err(3)]] show ?thesis by auto
    next
      case (ok n w)
      have "do_write E s = Some (Inr (Some n, s\<lparr>cl_wrs := w, cl_sent := cl_sent s @ take n ?b\<rparr>))"
        using False q e ok(1) by (simp add: do_write_def rret_def)
      moreover have "n = length (concat (map cw_buf (cl_write_q s)))" if "cl_wrs s = []" "few (cl_write_q s)"
        using iov_all [OF e(1), of CLI_MAX_WR_IOV 0] that ok(4) by (simp add: few_def)
      ultimately show ?thesis using wrote_some [OF sub [OF ok(3)] ok(2) cb] by auto
    qed
  qed
qed

definition stream :: "bytes \<Rightarrow> 'd conn \<Rightarrow> bytes" where
  "stream d s = cl_sent s @ pending d s"

text \<open>One call of \<^verbatim>\<open>cli_writable\<close>: it returns, and the stream of bytes to the peer is as it was.\<close>

definition goes_on :: "'d chenv \<Rightarrow> bytes \<Rightarrow> 'd conn \<Rightarrow> 'd conn \<Rightarrow> bool" where
  "goes_on E d s s' \<longleftrightarrow> sending E d s' \<and> benign s' \<and> stream d s' = stream d s \<and> cl_state s' = cl_state s \<and> cl_ssl s' = cl_ssl s \<and>
     (cl_wrs s = [] \<and> \<not> cl_ssl s \<and> few (cl_write_q s) \<longrightarrow> cl_write_q s' = [] \<and> cl_wrs s' = [])"

lemma goes_on_upd:
  "goes_on E d s (t\<lparr>cl_writing := v\<rparr>) = goes_on E d s t" "goes_on E d s (cli_wr_set_poll v t) = goes_on E d s t"
  "goes_on E d s (t\<lparr>cs_opt_write := k\<rparr>) = goes_on E d s t"
  by (simp_all add: goes_on_def sending_upd benign_def stream_def pending_def rest_of_def cli_wr_set_poll_def sending_upd(4) [unfolded cli_wr_set_poll_def])

lemma writable_ok:
  assumes sha: "sha_len (ch_fs E)" and "sending E d s" "cl_write_q s \<noteq> []" "benign s"
  shows "\<exists>s'. cli_writable E s = Some (Inr ((), s')) \<and> goes_on E d s s'"
  using assms(2-)
proof (induction "cl_in_len s" arbitrary: s rule: less_induct)
  case less
  let ?c = "concat (map cw_buf (cl_write_q s))"
  obtain r s1 where w: "do_write E s = Some (Inr (r, s1))" "wrote s r s1"
    and fw: "cl_wrs s = [] \<and> \<not> cl_ssl s \<and> few (cl_write_q s) \<longrightarrow> r = Some (length ?c)"
    using do_write_ok [OF less.prems] by blast
  from w(2) obtain ws t v where s1: "s1 = s\<lparr>cl_wrs := ws, cl_sent := t, cl_write_want_read := v\<rparr>" "set ws \<subseteq> set (cl_wrs s)"
    and t: "case r of None \<Rightarrow> t = cl_sent s | Some rc \<Rightarrow> rc \<le> length ?c \<and> t = cl_sent s @ take rc ?c" by (auto simp: wrote_def)
  have se1: "sending E d s1" "benign s1" "pending d s1 = pending d s" "cl_write_q s1 = cl_write_q s" "cl_in_len s1 = cl_in_len s"
      "cl_state s1 = cl_state s" "cl_ssl s1 = cl_ssl s"
    using less.prems s1 by (auto simp: sending_upd benign_def pending_def rest_of_def)
  show ?case
  proof (cases r)
    case None
    then have "cli_writable E s = Some (Inr ((), s1))" using w(1) by (subst cli_writable.simps) (simp add: rbind_def rret_def)
    then show ?thesis using se1 t fw None s1 by (auto simp: goes_on_def stream_def)
  next
    case (Some rc)
    have rc: "rc \<le> length (concat (map cw_buf (cl_write_q s1)))" using t Some se1(4) by simp
    from completed_ok [OF sha se1(1) rc, of False] obtain mw s2 where c: "cli_wr_completed E rc False s1 = Some (Inr (mw, s2))"
      and s2: "sending E d s2" "pending d s2 = drop rc (pending d s1)" "same_conn s1 s2" "mw \<longrightarrow> cl_in_len s2 < cl_in_len s1"
        "rc = length (concat (map cw_buf (cl_write_q s1))) \<longrightarrow> cl_write_q s2 = [] \<or> mw \<and> one_piece (cl_write_q s2)" by auto
    have st: "stream d s2 = stream d s"
      using s2(2,3) t Some s1 se1(3) by (simp add: stream_def same_conn_def pending_def)
    have b2: "benign s2" using se1(2) s2(3) by (simp add: benign_def same_conn_def)
    have k: "cli_writable E s = (if cl_write_q s2 = [] then Some (Inr ((), cli_wr_set_poll False (s2\<lparr>cl_writing := False\<rparr>)))
        else if mw then cli_writable E s2 else Some (Inr ((), s2)))"
      using w(1) Some c by (subst cli_writable.simps) (simp add: rbind_def rret_def)
    have w2: "cl_wrs s2 = []" if "cl_wrs s = []" using that s1 s2(3) by (simp add: same_conn_def)
    have full: "cl_write_q s2 = [] \<or> mw \<and> few (cl_write_q s2)" if "cl_wrs s = []" "\<not> cl_ssl s" "few (cl_write_q s)"
      using s2(5) fw that Some se1(4) one_piece_few by auto
    have g2: "goes_on E d s s2" if "cl_write_q s2 = [] \<or> \<not> mw"
      using that s2(1,3) b2 st se1 w2 full by (auto simp: goes_on_def same_conn_def)
    show ?thesis
    proof (cases "cl_write_q s2 = [] \<or> \<not> mw")
      case True
      then show ?thesis using k g2 by (auto simp: goes_on_upd)
    next
      case False
      then have "cl_in_len s2 < cl_in_len s" using s2(4) se1(5) by simp
      from less.hyps [OF this s2(1) _ b2] False obtain s' where "cli_writable E s2 = Some (Inr ((), s'))" "goes_on E d s2 s'" by blast
      moreover have "goes_on E d s s'" if "goes_on E d s2 s'"
        using that st s2(3) se1 w2 full False unfolding goes_on_def same_conn_def by auto
      ultimately show ?thesis using k False by auto
    qed
  qed
qed

lemma write_start_ok:
  assumes "sha_len (ch_fs E)" "sending E d s" "cl_write_q s \<noteq> []" "benign s"
  shows "\<exists>lp s'. cli_write_start E s = Some (Inr (lp, s')) \<and> (if cl_writing s then s' = s \<and> \<not> lp else goes_on E d s s' \<and> lp = (cl_write_q s' = []) \<and> (in_ok s \<and> cl_write_q s' = [] \<longrightarrow> \<not> cl_writing s'))"
proof (cases "cl_writing s")
  case True
  then show ?thesis using assms(3) by (intro exI [of _ False]) (simp add: cli_write_start_def rret_def)
next
  case False
  obtain s' where w: "cli_writable E s = Some (Inr ((), s'))" "goes_on E d s s'" using writable_ok [OF assms] by blast
  moreover have "\<not> cl_writing s'" if "in_ok s" using rinvD [OF nw.writable' w(1)] that False by simp
  ultimately show ?thesis using False assms(3)
    by (auto simp: cli_write_start_def rbind_def rret_def goes_on_upd)
      (simp_all add: cli_wr_set_poll_def)
qed

section \<open>Getting an object\<close>

text \<open>A connection of \<open>user\<close> with no output pending and a request for \<open>key\<close>, and an object under that name.\<close>

definition ready :: "'d conn \<Rightarrow> bool" where
  "ready s \<longleftrightarrow> quiet (cs_fs s) \<and> cl_write_q s = [] \<and> \<not> cl_writing s \<and> in_ok s \<and> length (rq_magic (cl_creq s)) = 8"

definition has_object :: "'d chenv \<Rightarrow> bytes \<Rightarrow> bytes \<Rightarrow> u64 \<Rightarrow> 'd conn \<Rightarrow> bool" where
  "has_object E md d mtime s \<longleftrightarrow> cl_table_id s \<noteq> 0 \<and> fy_names (cs_fs s) (obj_dir (ch_fs E) (cl_table_id s) (cli_key s)) = None \<and>
     (\<exists>ino. stored (ch_fs E) (cl_table_id s) (cl_user s) (cli_key s) md d ino (cs_fs s) \<and> mtime = fy_mtime (cs_fs s) ino)"

lemma open_src:
  assumes "sha_len (ch_fs E)" "quiet (cs_fs s)" "has_object E md d mtime s"
  shows "\<exists>obj fs. fs_obj_open (ch_fs E) (cl_table_id s) (cl_user s) (cli_key s) (cs_fs s) = (Inr obj, fs) \<and> src_ok (ch_fs E) d obj fs \<and>
    fo_in_pos obj = 0 \<and> fo_size obj = word_of_nat (length d) \<and> fo_hash obj = md \<and> fo_mtime obj = mtime \<and> length d < 2 ^ 43 \<and> length md = CHD_CSUM_SZ"
proof -
  obtain ino where st: "stored (ch_fs E) (cl_table_id s) (cl_user s) (cli_key s) md d ino (cs_fs s)" "mtime = fy_mtime (cs_fs s) ino"
    and nm: "cl_table_id s \<noteq> 0" "fy_names (cs_fs s) (obj_dir (ch_fs E) (cl_table_id s) (cli_key s)) = None"
    using assms(3) by (auto simp: has_object_def)
  obtain obj fs where o: "fs_obj_open (ch_fs E) (cl_table_id s) (cl_user s) (cli_key s) (cs_fs s) = (Inr obj, fs)" "quiet fs"
    using fs_obj_open_quiet(1) [OF assms(2,1) st(1) nm HOL.refl] by blast
  note k = fs_obj_open_ok [OF assms(1) st(1) o(1)]
  obtain fd where r: "rd_obj (ch_fs E) (cli_key s) md d fd ino obj" "rd_fs obj fd ino fs" using k(5) by blast
  have "drop (fo_value_ofs obj) (fy_files fs ino) = d" using file_parts(3) [OF assms(1) k(2)] r(1) by (simp add: rd_obj_def)
  then have "src_ok (ch_fs E) d obj fs" using r o(2) st(1) by (auto simp: src_ok_def stored_def)
  then show ?thesis using o(1) k(3,4) r(1) st by (auto simp: rd_obj_def stored_def)
qed

definition get_hdr :: "'d conn \<Rightarrow> bytes \<Rightarrow> bytes \<Rightarrow> u64 \<Rightarrow> bytes" where
  "get_hdr s md d mtime = resp_get_bytes ((resp_init_req (cl_creq s))\<lparr>rs_data_len := word_of_nat (length d), rs_hash := md\<rparr>) mtime"

lemma length_get_hdr: "length (rq_magic (cl_creq s)) = 8 \<Longrightarrow> length md = CHD_CSUM_SZ \<Longrightarrow> length (get_hdr s md d mtime) = 56"
  by (simp add: get_hdr_def resp_get_bytes_def resp_bytes_def resp_init_req_def CHD_CSUM_SZ_def)

lemma few_two: "length a \<le> 56 \<Longrightarrow> length b \<le> CLI_DATA_BUF_SZ \<Longrightarrow> few [wbuf a x, wbuf b y]" "length a \<le> 56 \<Longrightarrow> few [wbuf a x]"
  by (simp_all add: few_def wbuf_def cfg_simps)

lemma in_ok_end: "in_ok s \<Longrightarrow> in_ok (cli_in_end s)"
  by (simp add: in_ok_def cli_in_end_def split: option.split)

lemma object_get_ok:
  assumes sha: "sha_len (ch_fs E)" and r: "ready s" "benign s" and h: "has_object E md d mtime s" and sf: "\<not> use_sendfile E s"
  shows "\<exists>lp s'. object_get E True s = Some (Inr (lp, s')) \<and> sending E d s' \<and> benign s' \<and> cl_state s' = cl_state s \<and> cl_ssl s' = cl_ssl s \<and>
     stream d s' = cl_sent s @ get_hdr s md d mtime @ d \<and> (cl_wrs s = [] \<and> \<not> cl_ssl s \<longrightarrow> cl_write_q s' = [] \<and> cl_wrs s' = [] \<and> \<not> cl_writing s')"
proof -
  have q: "quiet (cs_fs s)" "cl_write_q s = []" "\<not> cl_writing s" "length (rq_magic (cl_creq s)) = 8" using r(1) by (simp_all add: ready_def)
  obtain obj fs where o: "fs_obj_open (ch_fs E) (cl_table_id s) (cl_user s) (cli_key s) (cs_fs s) = (Inr obj, fs)" "src_ok (ch_fs E) d obj fs"
      "fo_in_pos obj = 0" "fo_size obj = word_of_nat (length d)" "fo_hash obj = md" "fo_mtime obj = mtime"
    and n: "length d < 2 ^ 43" "length md = CHD_CSUM_SZ" using open_src [OF sha q(1) h] by blast
  have u: "unat (word_of_nat (length d) :: u64) = length d" using n(1) by (simp add: unat_small)
  have z: "(word_of_nat (length d) :: u64) = 0 \<longleftrightarrow> d = []"
  proof
    assume "(word_of_nat (length d) :: u64) = 0"
    then have "length d = 0" using u by simp
    then show "d = []" by simp
  qed simp
  let ?h = "get_hdr s md d mtime"
  note lh = length_get_hdr [OF q(4) n(2), of d mtime]
  define s1 where "s1 = s\<lparr>cs_fs := fs, cl_in_obj := Some obj, cl_in_len := length d\<rparr>"
  have q1: "quiet (cs_fs s1)" using o(2) by (simp add: s1_def src_ok_def)
  have "?h \<noteq> []" "length ?h < 2 ^ 32" using lh by auto
  then obtain k where w: "cli_writeq ?h Cb_free s1 = (0, s1\<lparr>cs_trash_sz := k, cl_write_q := [wbuf ?h Cb_free]\<rparr>)"
    using writeq_ok [OF q1] q(2) by (fastforce simp: s1_def)
  define s2 where "s2 = s1\<lparr>cs_trash_sz := k, cl_write_q := [wbuf ?h Cb_free]\<rparr>"
  have run: "object_get E True s = (if d = [] then rbind (rmod cli_in_end) (\<lambda>_. cli_write_start E) s2
      else rbind (object_read_bytes E) (\<lambda>ok. if \<not> ok then rbind (rmod cli_in_end) (\<lambda>_. cli_err E che_Success False) else cli_write_start E) s2)"
    using o u w q(1) z unfolding object_get_def with_resp_def fs_call_def s2_def s1_def get_hdr_def
    by (simp add: rbind_def rcall_def rget_def rmod_def conn_malloc_quiet fs_call_def)
  have i2: "in_ok s2" using obj_open_disk(2) [OF o(1)] by (simp add: in_ok_def s2_def s1_def)
  have b2: "benign s2" using r(2) by (simp add: benign_def s2_def s1_def)
  have qh: "q_ok False [wbuf ?h Cb_free]" using lh by (auto simp: q_ok_def wbuf_def)
  show ?thesis
  proof (cases "d = []")
    case True
    let ?s = "cli_in_end s2"
    have s3: "sending E d ?s" "benign ?s" "cl_write_q ?s = [wbuf ?h Cb_free]" "stream d ?s = cl_sent s @ ?h @ d" "cl_state ?s = cl_state s"
        "cl_ssl ?s = cl_ssl s" "\<not> cl_writing ?s" "cl_wrs ?s = cl_wrs s"
      using qh b2 sf q q1 True
      by (auto simp: sending_def in_sync_def use_sendfile_def s2_def s1_def cli_in_end_def benign_def stream_def pending_def rest_of_def wbuf_def quiet_free)
    from write_start_ok [OF sha s3(1) _ s3(2)] s3(3,7) obtain lp s' where "cli_write_start E ?s = Some (Inr (lp, s'))" "goes_on E d ?s s'"
      "cl_write_q s' = [] \<longrightarrow> \<not> cl_writing s'" using in_ok_end [OF i2] by auto
    moreover have "few (cl_write_q ?s)" using s3(3) lh few_two(2) by simp
    ultimately show ?thesis using run True s3 by (auto simp: rbind_def rmod_def goes_on_def)
  next
    case False
    have sy: "in_sync E d s2" "cl_in_len s2 \<noteq> 0" "\<not> use_sendfile E s2"
      using o(2,3) q1 False sf by (auto simp: in_sync_def s2_def s1_def use_sendfile_def)
    from read_bytes_ok [OF sha this] obtain p s3 where rb: "object_read_bytes E s2 = Some (Inr (True, s3))"
      and p: "p \<noteq> []" "rest_of d s2 = p @ rest_of d s3" "length p \<le> CLI_DATA_BUF_SZ"
        "cl_write_q s3 = cl_write_q s2 @ [wbuf p (if cl_in_len s3 \<noteq> 0 then Cb_get_more else Cb_none)]"
        "cl_in_len s3 < cl_in_len s2" "in_sync E d s3" "cl_sent s3 = cl_sent s2" "cl_wrs s3 = cl_wrs s2" "cl_ssl s3 = cl_ssl s2"
        "cl_state s3 = cl_state s2" "cl_writing s3 = cl_writing s2" by blast
    have i3: "in_ok s3" using rinvD [OF nw.read_bytes rb] i2 q(3) by (simp add: s2_def s1_def)
    have s3: "sending E d s3" "benign s3" "stream d s3 = cl_sent s @ ?h @ d" "few (cl_write_q s3)" "cl_write_q s3 \<noteq> []" "\<not> cl_writing s3"
      using p lh b2 sf q few_two(1) [of ?h p]
      by (auto simp: sending_def q_ok_def use_sendfile_def benign_def stream_def pending_def s2_def s1_def wbuf_def rest_of_def)
    from write_start_ok [OF sha s3(1,5,2)] s3(6) obtain lp s' where ws: "cli_write_start E s3 = Some (Inr (lp, s'))" "goes_on E d s3 s'"
      "cl_write_q s' = [] \<longrightarrow> \<not> cl_writing s'" using i3 by auto
    have "object_get E True s = Some (Inr (lp, s'))" using run False rb ws by (simp add: rbind_def)
    moreover have "cl_state s3 = cl_state s" "cl_ssl s3 = cl_ssl s" "cl_wrs s3 = cl_wrs s" using p by (simp_all add: s2_def s1_def)
    ultimately show ?thesis using ws(2,3) s3 by (auto simp: goes_on_def)
  qed
qed

text \<open>The calls of \<^verbatim>\<open>cli_writable\<close> while the socket is polled for writing.\<close>

fun write_events :: "'d chenv \<Rightarrow> nat \<Rightarrow> ('d conn, unit) run" where
  "write_events E 0 s = rret () s"
| "write_events E (Suc n) s = (if cl_write_q s = [] then rret () s else rbind (cli_writable E) (\<lambda>_. write_events E n) s)"

lemma write_events_ok:
  assumes "sha_len (ch_fs E)"
  shows "sending E d s \<Longrightarrow> benign s \<Longrightarrow> \<exists>s'. write_events E n s = Some (Inr ((), s')) \<and> sending E d s' \<and> stream d s' = stream d s"
proof (induction n arbitrary: s)
  case 0
  then show ?case by (simp add: rret_def)
next
  case (Suc n)
  show ?case
  proof (cases "cl_write_q s = []")
    case True
    then show ?thesis using Suc.prems by (simp add: rret_def)
  next
    case False
    obtain s1 where w: "cli_writable E s = Some (Inr ((), s1))" "goes_on E d s s1" using writable_ok [OF assms Suc.prems(1) False Suc.prems(2)] by blast
    then show ?thesis using Suc.IH [of s1] False by (auto simp: goes_on_def rbind_def)
  qed
qed

text \<open>
  C12: a get request is answered with the object. The peer is sent the header with size, digest and time,
  then the object's bytes, in order and without gaps, however much of its input the socket takes at a time
  or lets the daemon wait; when nothing is queued any more, all of it has been sent. If the socket takes
  everything, that is after the first attempt. (Objects are read through \<^verbatim>\<open>fs_obj_read\<close>, not \<^verbatim>\<open>sendfile\<close>.)
\<close>

theorem get_stream:
  assumes "sha_len (ch_fs E)" "ready s" "benign s" "has_object E md d mtime s" "\<not> use_sendfile E s"
  shows "\<exists>lp s1. object_get E True s = Some (Inr (lp, s1)) \<and> (cl_wrs s = [] \<and> \<not> cl_ssl s \<longrightarrow> cl_write_q s1 = []) \<and>
    (\<forall>n. \<exists>s2 rest. write_events E n s1 = Some (Inr ((), s2)) \<and> cl_sent s2 @ rest = cl_sent s @ get_hdr s md d mtime @ d \<and>
       (cl_write_q s2 = [] \<longrightarrow> rest = []))"
proof -
  obtain lp s1 where g: "object_get E True s = Some (Inr (lp, s1))" "sending E d s1" "benign s1" "cl_wrs s = [] \<and> \<not> cl_ssl s \<longrightarrow> cl_write_q s1 = []"
    and st: "stream d s1 = cl_sent s @ get_hdr s md d mtime @ d" using object_get_ok [OF assms] by blast
  have "\<exists>s2 rest. write_events E n s1 = Some (Inr ((), s2)) \<and> cl_sent s2 @ rest = cl_sent s @ get_hdr s md d mtime @ d \<and>
       (cl_write_q s2 = [] \<longrightarrow> rest = [])" for n
  proof -
    obtain s2 where s2: "write_events E n s1 = Some (Inr ((), s2))" "sending E d s2" "stream d s2 = stream d s1"
      using write_events_ok [OF assms(1) g(2,3)] by blast
    have "cl_write_q s2 = [] \<longrightarrow> pending d s2 = []" using s2(2) by (auto simp: sending_def q_ok_def pending_def rest_of_def)
    then show ?thesis using s2 st by (auto simp: stream_def)
  qed
  with g(1,4) show ?thesis by blast
qed

section \<open>Responses\<close>

definition answered :: "bytes \<Rightarrow> 'd conn \<Rightarrow> 'd conn \<Rightarrow> bool" where
  "answered b s s' \<longleftrightarrow> (\<exists>k. s' = s\<lparr>cs_trash_sz := k, cl_sent := cl_sent s @ b, cl_ev_write := False, cl_writing := False,
     cs_opt_write := cs_opt_write s + 1\<rparr>)"

lemma queue_resp_ok:
  assumes "quiet (cs_fs s)" "cl_write_q s = []" "\<not> cl_writing s" "cl_wrs s = []" "b \<noteq> []" "length b < 2 ^ 32"
  shows "\<exists>s'. queue_resp E b s = Some (Inr (True, s')) \<and> answered b s s'"
proof -
  obtain k where w: "cli_writeq b Cb_free s = (0, s\<lparr>cs_trash_sz := k, cl_write_q := [wbuf b Cb_free]\<rparr>)"
    using writeq_ok [OF assms(1,5,6)] assms(2) by fastforce
  let ?s = "s\<lparr>cs_trash_sz := k, cl_write_q := [wbuf b Cb_free]\<rparr>"
  have iov: "iov_bytes (cli_wr_iov CLI_MAX_WR_IOV 0 [wbuf b Cb_free]) = b"
    using iov_all [of "[wbuf b Cb_free]" CLI_MAX_WR_IOV 0] assms(6) by (simp add: wbuf_def cfg_simps)
  have dw: "do_write E ?s = Some (Inr (Some (length b), ?s\<lparr>cl_sent := cl_sent s @ b\<rparr>))"
    using assms(4,5) iov by (cases s) (simp add: do_write_def wbuf_def sock_write_def rret_def)
  define k' where "k' = (if k < CHD_TRASH_MAX then k + 1 else k)"
  have c: "cli_wr_completed E (length b) False (?s\<lparr>cl_sent := cl_sent s @ b\<rparr>) =
      Some (Inr (False, ?s\<lparr>cl_sent := cl_sent s @ b, cl_write_q := [], cs_trash_sz := k'\<rparr>))"
    using assms(5)
    by (subst cli_wr_completed.simps, simp add: wbuf_def rbind_def cli_write_free_def rmod_def rret_def,
        subst cli_wr_completed.simps, simp add: rret_def k'_def)
  have "cli_writable E ?s = Some (Inr ((), ?s\<lparr>cl_sent := cl_sent s @ b, cl_write_q := [], cs_trash_sz := k', cl_writing := False, cl_ev_write := False\<rparr>))"
    by (subst cli_writable.simps) (simp add: rbind_def dw c rret_def cli_wr_set_poll_def)
  then have "queue_resp E b s = Some (Inr (True, ?s\<lparr>cl_sent := cl_sent s @ b, cl_write_q := [], cs_trash_sz := k', cl_writing := False,
      cl_ev_write := False, cs_opt_write := cs_opt_write s + 1\<rparr>))"
    using assms(3) w by (simp add: queue_resp_def rbind_def rcall_def cli_write_start_def rret_def)
  moreover have "answered b s (?s\<lparr>cl_sent := cl_sent s @ b, cl_write_q := [], cs_trash_sz := k', cl_writing := False,
      cl_ev_write := False, cs_opt_write := cs_opt_write s + 1\<rparr>)"
    unfolding answered_def using assms(2) by (intro exI [of _ k']) (cases s, simp)
  ultimately show ?thesis by blast
qed

section \<open>Rejected requests\<close>

text \<open>
  C15: every request of a user is checked. A request whose signature does not match the key of the
  connection's user has no effect on files, names and tables or on an upload, and ends the connection.
\<close>

theorem bad_signature_rejected:
  assumes "cli_evt_exec_req E s = Some (Inr (x, s'))" "in_ok s" "cl_user s \<noteq> []"
    "\<not> authcheck (ch_hmac E) (cl_creq s) (cl_getpart s) (cli_key s) (cl_user s)"
  shows "store s' = store s \<and> cl_out_bo s' = cl_out_bo s \<and> cl_state s' = evt_dispose"
proof -
  have P: "same_store (store s) (cl_user s) (cl_out_bo s) UNIV s" using assms(2) by (simp add: same_store_def)
  obtain code where "cli_err E code False s = Some (Inr (x, s'))"
    using assms(1,3,4) by (auto simp: cli_evt_exec_req_def rbind_def rget_def Let_def split: if_splits)
  from ss_cli_err [OF this P] show ?thesis by (simp add: same_store_def)
qed

section \<open>Requests that read\<close>

text \<open>The operations that only read.\<close>

definition read_op :: "u8 \<Rightarrow> bool" where
  "read_op op \<longleftrightarrow> op \<in> {CHO_NOP, CHO_GET, CHO_GET_META, CHO_GET_PART, CHO_LIST, CHO_CHECK_STATUS}"

text \<open>
  C14: requests that read change nothing. Whatever fails on the way, an operation that reads (an object, its
  meta data, a part of it, the listing of a table, the state of the self-check) leaves every name and file,
  the tables, the objects in use, an upload and all that the next request depends on as they were.
\<close>

theorem reads_change_nothing:
  assumes "read_op op" "in_ok s" "run_op E op s = Some (Inr (x, s'))"
  shows "kept s s'"
proof -
  have "rinv (kept s) (run_op E op)"
    using assms(1) kp.object_get kp.object_get_part kp.volume_list kp.chk_status kp.cli_err
    by (auto simp: read_op_def run_op_def cfg_simps)
  from rinvD [OF this assms(3) kept_refl [OF assms(2)]] show ?thesis .
qed

section \<open>Examples\<close>

text \<open>A store with one object, and a connection of its owner with a request for it.\<close>

definition demo_obj_fs :: fsys where
  "demo_obj_fs = demo_fs\<lparr>fy_names := [obj_path demo_env 1 [107] \<mapsto> 0],
     fy_files := (\<lambda>_. object_file demo_env [117] [107] (replicate 20 9) [1, 2, 3])\<rparr>"

definition demo_getter :: "(int + nat) list \<Rightarrow> unit conn" where
  "demo_getter wrs = (cli_alloc (demo_srv\<lparr>cs_fs := demo_obj_fs\<rparr>) [] wrs)\<lparr>cl_user := [117], cl_table := [116], cl_table_id := 1, cl_key := [107],
     cl_key_len := 1, cl_creq_mem := req_bytes demo_put\<rparr>"

lemma demo_getter_ok:
  "ready (demo_getter wrs)" "has_object demo_chenv (replicate 20 9) [1, 2, 3] 7 (demo_getter wrs)" "\<not> use_sendfile demo_chenv (demo_getter wrs)"
  "cl_wrs (demo_getter wrs) = wrs" "\<not> cl_ssl (demo_getter wrs)" "in_ok (demo_getter wrs)" "cl_user (demo_getter wrs) = [117]"
  "cl_creq (demo_getter wrs) = demo_put"
proof -
  show i: "in_ok (demo_getter wrs)" "cl_wrs (demo_getter wrs) = wrs" "\<not> cl_ssl (demo_getter wrs)" "cl_user (demo_getter wrs) = [117]"
    by (simp_all add: demo_getter_def demo_srv_def cli_alloc_def server.extend_def conn.fields_def in_ok_def)
  show c: "cl_creq (demo_getter wrs) = demo_put" using demo_put_ok(1) by (simp add: demo_getter_def cl_creq_def req_of_bytes)
  have "quiet demo_obj_fs" using demo_ok(2) by (simp add: demo_obj_fs_def quiet_def)
  then show "ready (demo_getter wrs)" using i(1) c demo_put_ok(1)
    by (simp add: ready_def req_wf_def) (simp add: demo_getter_def demo_srv_def cli_alloc_def server.extend_def conn.fields_def)
  have "stored demo_env 1 [117] [107] (replicate 20 9) [1, 2, 3] 0 demo_obj_fs"
    using demo_ok(3) by (simp add: stored_def demo_obj_fs_def CHD_CSUM_SZ_def)
  then show "has_object demo_chenv (replicate 20 9) [1, 2, 3] 7 (demo_getter wrs)"
    by (simp add: has_object_def demo_getter_def demo_srv_def cli_alloc_def server.extend_def conn.fields_def cli_key_def demo_chenv_def)
      (auto simp: demo_obj_fs_def demo_fs_def)
  show "\<not> use_sendfile demo_chenv (demo_getter wrs)" by (simp add: use_sendfile_def demo_chenv_def)
qed

theorem get_stream_witness:
  "\<exists>lp s1. object_get demo_chenv True (demo_getter [Inl EAGAIN, Inr 3]) = Some (Inr (lp, s1)) \<and>
    (\<forall>n. \<exists>s2 rest. write_events demo_chenv n s1 = Some (Inr ((), s2)) \<and>
       cl_sent s2 @ rest = cl_sent (demo_getter [Inl EAGAIN, Inr 3]) @ get_hdr (demo_getter [Inl EAGAIN, Inr 3]) (replicate 20 9) [1, 2, 3] 7 @ [1, 2, 3] \<and>
       (cl_write_q s2 = [] \<longrightarrow> rest = []))"
proof -
  have "sha_len (ch_fs demo_chenv)" "benign (demo_getter [Inl EAGAIN, Inr 3])"
    using demo_ok(1) demo_getter_ok(4,5) by (simp_all add: demo_chenv_def benign_def wr_fine_def)
  from get_stream [OF this(1) demo_getter_ok(1) this(2) demo_getter_ok(2,3)] show ?thesis by blast
qed

theorem bad_signature_rejected_witness:
  "\<exists>x s'. cli_evt_exec_req demo_chenv (demo_getter []) = Some (Inr (x, s')) \<and> store s' = store (demo_getter []) \<and> cl_state s' = evt_dispose"
proof -
  let ?s = "demo_getter []"
  have a: "\<not> authcheck (ch_hmac demo_chenv) (cl_creq ?s) (cl_getpart ?s) (cli_key ?s) (cl_user ?s)"
    by (simp add: demo_getter_ok authcheck_def chreq_sign_def demo_chenv_def demo_put_def cstr_def Let_def)
  have v: "valid_req_hdr (cl_creq ?s)" by (simp add: demo_getter_ok valid_req_hdr_def demo_put_def cstr_def CHD_SIG_SZ_def)
  have u: "cl_user ?s \<noteq> []" by (simp add: demo_getter_ok)
  let ?r = "resp_bytes ((resp_init_req (cl_creq ?s))\<lparr>rs_resp_code := errcode_num che_SignatureDoesNotMatch\<rparr>)"
  let ?t = "?s\<lparr>cl_state := evt_dispose\<rparr>"
  have q: "quiet (cs_fs ?s)" "cl_write_q ?s = []" "\<not> cl_writing ?s" using demo_getter_ok(1) [of "[]"] by (simp_all add: ready_def)
  have "?r \<noteq> []" "length ?r < 2 ^ 32"
    by (simp_all add: demo_getter_ok resp_bytes_def resp_init_req_def demo_put_def CHUNKD_MAGIC_def CHD_CSUM_SZ_def)
  then obtain s' where "queue_resp demo_chenv ?r ?t = Some (Inr (True, s'))"
    using queue_resp_ok [of ?t ?r demo_chenv] q demo_getter_ok(4) [of "[]"] by auto
  then have e: "cli_evt_exec_req demo_chenv ?s = Some (Inr (True, s'))"
    using v u a q(1) by (simp add: cli_evt_exec_req_def cli_err_def rbind_def rget_def rcall_def rmod_def conn_malloc_quiet cl_creq_def)
  from bad_signature_rejected [OF e demo_getter_ok(6) u a] e show ?thesis by blast
qed

theorem reads_change_nothing_witness:
  "\<exists>x s'. run_op demo_chenv CHO_GET (demo_getter []) = Some (Inr (x, s')) \<and> kept (demo_getter []) s'"
proof -
  have "sha_len (ch_fs demo_chenv)" "benign (demo_getter [])"
    using demo_ok(1) demo_getter_ok(4) by (simp_all add: demo_chenv_def benign_def)
  from object_get_ok [OF this(1) demo_getter_ok(1) this(2) demo_getter_ok(2,3)]
  obtain x s' where "object_get demo_chenv True (demo_getter []) = Some (Inr (x, s'))" by blast
  then have r: "run_op demo_chenv CHO_GET (demo_getter []) = Some (Inr (x, s'))" by (simp add: run_op_def cfg_simps)
  have "read_op CHO_GET" by (simp add: read_op_def)
  from reads_change_nothing [OF this demo_getter_ok(6) r] r show ?thesis by blast
qed

end
