(* ===== verification/Chunk_Upload.thy ===== *)
theory Chunk_Upload
  imports Chunk_Serve
begin

text \<open>
  Storing an object through a connection: from the bytes of a signed put request to the file in the object
  store and the response with its digest.
\<close>

lemma rbind_simple:
  "rbind (rmod f) g s = g () (f s)" "rbind (rget h) g1 s = g1 (h s) s" "rbind (rret x) g2 s = g2 x s"
  "rbind (rcall c) g3 s = (case c s of (x, s) \<Rightarrow> g3 x s)"
  by (simp_all add: run_simps split: prod.split)

section \<open>Receiving the data\<close>

text \<open>The object being stored: its table, owner, key and size, the names before, and who holds active objects.\<close>

record upload =
  up_table :: u32
  up_user :: bytes
  up_key :: bytes
  up_size :: nat
  up_names :: "bytes \<rightharpoonup> nat"
  up_held :: "nat multiset"

definition up_ok :: "upload \<Rightarrow> bool" where
  "up_ok U \<longleftrightarrow> up_size U < 2 ^ 43 \<and> length (up_user U) < 128 \<and> 0 \<notin> set (up_user U) \<and> key_valid (up_key U)"

definition up_file :: "cenv \<Rightarrow> upload \<Rightarrow> bytes" where
  "up_file C U = obj_path C (up_table U) (up_key U)"

text \<open>The connection has received \<open>b\<close>.\<close>

definition uploading :: "'d chenv \<Rightarrow> upload \<Rightarrow> bytes \<Rightarrow> 'd conn \<Rightarrow> bool" where
  "uploading E U b s \<longleftrightarrow> quiet (cs_fs s) \<and> cl_out_hash s = b \<and> cl_out_len s = up_size U - length b \<and> length b \<le> up_size U \<and>
     cl_out_user s = Some (up_user U) \<and>
     (\<exists>bo fd ino ce. cl_out_bo s = Some bo \<and> wr_obj (ch_fs E) (up_key U) (up_size U) (up_file (ch_fs E) U) fd bo b \<and>
        wr_fs (up_key U) (up_size U) ((up_names U)(up_file (ch_fs E) U \<mapsto> ino)) fd ino (cs_fs s) b \<and>
        cl_out_ce s = Some ce \<and> oc_inv (cs_actives s) (add_mset ce (up_held U)))"

lemma uploading_upd [simp]:
  "uploading E U b (s\<lparr>cl_rds := r\<rparr>) = uploading E U b s" "uploading E U b (s\<lparr>cl_state := e\<rparr>) = uploading E U b s"
  by (simp_all add: uploading_def)

lemma data_in_loop_ok:
  assumes sha: "sha_len (ch_fs E)" and U: "up_ok U" and u: "uploading E U b s" and c: "c \<noteq> []" "length (b @ c) \<le> up_size U"
  shows "\<exists>s'. data_in_loop E c s = Some (Inr (True, s')) \<and> uploading E U (b @ c) s' \<and>
     (\<exists>fs bo h n. s' = s\<lparr>cs_fs := fs, cl_out_bo := bo, cl_out_hash := h, cl_out_len := n\<rparr>)"
proof -
  obtain bo fd ino ce where s: "cl_out_bo s = Some bo" "wr_obj (ch_fs E) (up_key U) (up_size U) (up_file (ch_fs E) U) fd bo b"
      "wr_fs (up_key U) (up_size U) ((up_names U)(up_file (ch_fs E) U \<mapsto> ino)) fd ino (cs_fs s) b"
      "cl_out_ce s = Some ce" "oc_inv (cs_actives s) (add_mset ce (up_held U))" "quiet (cs_fs s)"
    using u by (auto simp: uploading_def)
  have n: "up_size U < 2 ^ 43" using U by (simp add: up_ok_def)
  have room: "length b + length c \<le> n_blks (up_size U) * CHUNK_BLK_SZ" using room_ok [OF c(2)] by simp
  have sc: "fy_script (cs_fs s) = []" using s(6) by (simp add: quiet_def)
  from write_loop_ok [OF sha n s(2,3) room, of 0] sc obtain bo' fs' where
    w: "write_loop (ch_fs E) fd c 0 bo (cs_fs s) = Some (Inr (length c), bo', fs')" "fy_script fs' = []" "fy_mem fs' = fy_mem (cs_fs s)"
      "wr_obj (ch_fs E) (up_key U) (up_size U) (up_file (ch_fs E) U) fd bo' (b @ c)"
      "wr_fs (up_key U) (up_size U) ((up_names U)(up_file (ch_fs E) U \<mapsto> ino)) fd ino fs' (b @ c)"
    by (auto split: sum.splits)
  have f: "fs_obj_write (ch_fs E) bo c (cs_fs s) = Some (Inr (length c), bo', fs')" using w(1) wr_objD(6) [OF s(2)] by (simp add: fs_obj_write_def)
  have q: "quiet fs'" using w(2,3) s(6) by (simp add: quiet_def)
  let ?s = "s\<lparr>cs_fs := fs', cl_out_bo := Some bo', cl_out_hash := cl_out_hash s @ c, cl_out_len := cl_out_len s - length c\<rparr>"
  have "data_in_loop E c s = data_in_loop E [] ?s" using c(1) s(1) f by (subst data_in_loop.simps) simp
  also have "\<dots> = Some (Inr (True, ?s))" by (subst data_in_loop.simps) (simp add: rret_def)
  finally have "data_in_loop E c s = Some (Inr (True, ?s))" .
  moreover have "uploading E U (b @ c) ?s" using u w(4,5) s(4,5) q c(2) by (auto simp: uploading_def)
  ultimately show ?thesis by blast
qed

section \<open>Finishing\<close>

definition put_resp :: "'d chenv \<Rightarrow> 'd conn \<Rightarrow> bytes \<Rightarrow> bytes" where
  "put_resp E s d = resp_bytes ((resp_init_req (cl_creq s))\<lparr>rs_hash := ce_sha1 (ch_fs E) d\<rparr>)"

text \<open>The object is stored, under a name that is new, and answered for; nothing of the upload is left.\<close>

definition put_done :: "'d chenv \<Rightarrow> upload \<Rightarrow> bytes \<Rightarrow> 'd conn \<Rightarrow> 'd conn \<Rightarrow> bool" where
  "put_done E U d s s' \<longleftrightarrow>
     (\<exists>ino fs a k. stored (ch_fs E) (up_table U) (up_user U) (up_key U) (ce_sha1 (ch_fs E) d) d ino fs \<and>
        fy_names fs = (up_names U)(up_file (ch_fs E) U \<mapsto> ino) \<and> quiet fs \<and> oc_inv a (up_held U) \<and>
        s' = s\<lparr>cs_fs := fs, cs_actives := a, cs_trash_sz := k, cs_opt_write := cs_opt_write s + 1, cl_state := evt_recycle, cl_out_bo := None,
          cl_out_ce := None, cl_out_user := None, cl_sent := cl_sent s @ put_resp E s d, cl_ev_write := False, cl_writing := False\<rparr>)"

lemma put_done_first:
  assumes "put_done E U d s s'"
  shows "put_done E U d (s\<lparr>cl_first_req := v\<rparr>) (s'\<lparr>cl_first_req := v\<rparr>)"
proof -
  obtain ino fs a k where d: "stored (ch_fs E) (up_table U) (up_user U) (up_key U) (ce_sha1 (ch_fs E) d) d ino fs"
      "fy_names fs = (up_names U)(up_file (ch_fs E) U \<mapsto> ino)" "quiet fs" "oc_inv a (up_held U)"
    and s': "s' = s\<lparr>cs_fs := fs, cs_actives := a, cs_trash_sz := k, cs_opt_write := cs_opt_write s + 1, cl_state := evt_recycle, cl_out_bo := None,
          cl_out_ce := None, cl_out_user := None, cl_sent := cl_sent s @ put_resp E s d, cl_ev_write := False, cl_writing := False\<rparr>"
    using assms by (auto simp: put_done_def)
  have "put_resp E (s\<lparr>cl_first_req := v\<rparr>) d = put_resp E s d" by (simp add: put_resp_def cl_creq_def)
  then show ?thesis unfolding put_done_def s' using d
    by (intro exI [of _ ino] exI [of _ fs] exI [of _ a] exI [of _ k]) (cases s, simp)
qed

lemma put_end_ok:
  assumes sha: "sha_len (ch_fs E)" and U: "up_ok U" and u: "uploading E U d s" "length d = up_size U"
    and r: "ready s" "cl_wrs s = []"
  shows "\<exists>s'. object_put_end E s = Some (Inr (True, s')) \<and> put_done E U d s s'"
proof -
  obtain bo fd ino ce where s: "cl_out_bo s = Some bo" "wr_obj (ch_fs E) (up_key U) (up_size U) (up_file (ch_fs E) U) fd bo d"
      "wr_fs (up_key U) (up_size U) ((up_names U)(up_file (ch_fs E) U \<mapsto> ino)) fd ino (cs_fs s) d"
      "cl_out_ce s = Some ce" "oc_inv (cs_actives s) (add_mset ce (up_held U))" "quiet (cs_fs s)" "cl_out_user s = Some (up_user U)" "cl_out_hash s = d"
    using u(1) by (auto simp: uploading_def)
  have n: "length d < 2 ^ 43" using U u(2) by (simp add: up_ok_def)
  let ?md = "ce_sha1 (ch_fs E) d" and ?sync = "has_flag (rq_flags (cl_creq s)) CHF_SYNC"
  have md: "length ?md = CHD_CSUM_SZ" using sha by (simp add: sha_len_def)
  note cf = commit_file_ok [OF sha n md s(2,3) [folded u(2)], of "up_user U" ?sync]
  obtain bo' fs1 where c: "fs_obj_write_commit (ch_fs E) bo (up_user U) ?md ?sync (cs_fs s) = (True, bo', fs1)" "quiet fs1" using cf(2) s(6) by blast
  note f = cf(1) [OF c(1)]
  define fs2 where "fs2 = fs_obj_free bo' fs1"
  have d2: "fy_names fs2 = (up_names U)(up_file (ch_fs E) U \<mapsto> ino)" "fy_files fs2 ino = object_file (ch_fs E) (up_user U) (up_key U) ?md d" "quiet fs2"
    using f free_disk [of bo' fs1] quiet_free [OF c(2)] by (auto simp: fs2_def disk_def)
  have st: "stored (ch_fs E) (up_table U) (up_user U) (up_key U) ?md d ino fs2"
    using d2 U n md by (simp add: stored_def up_ok_def up_file_def)
  obtain a where a: "objcache_put (cs_actives s) ce = Done a" "oc_inv a (up_held U)" using oc_inv_put [OF s(5)] by blast
  define s2 where "s2 = s\<lparr>cl_state := evt_recycle, cs_fs := fs2, cl_out_bo := None, cs_actives := a, cl_out_ce := None, cl_out_user := None\<rparr>"
  have q: "quiet (cs_fs s2)" "cl_write_q s2 = []" "\<not> cl_writing s2" "cl_wrs s2 = []" "put_resp E s d \<noteq> []" "length (put_resp E s d) < 2 ^ 32"
    using r d2(3) md by (simp_all add: s2_def ready_def put_resp_def resp_bytes_def resp_init_req_def CHD_CSUM_SZ_def)
  obtain s' where w: "queue_resp E (put_resp E s d) s2 = Some (Inr (True, s'))" "answered (put_resp E s d) s2 s'" using queue_resp_ok [OF q] by blast
  have "object_put_end E s = queue_resp E (put_resp E s d) s2"
    using s(1,4,6,7,8) c(1) a(1) unfolding object_put_end_def with_resp_def put_resp_def
    by (cases s) (simp add: rbind_def rcall_def rget_def rmod_def rret_def conn_malloc_quiet set_state_def Let_def cl_creq_def cli_out_end_def
        objcache_run_def s2_def fs2_def)
  moreover have "put_done E U d s s'"
  proof -
    obtain k where k: "s' = s2\<lparr>cs_trash_sz := k, cl_sent := cl_sent s2 @ put_resp E s d, cl_ev_write := False, cl_writing := False,
        cs_opt_write := cs_opt_write s2 + 1\<rparr>" using w(2) by (auto simp: answered_def)
    show ?thesis unfolding put_done_def k s2_def using st d2 a(2)
      by (intro exI [of _ ino] exI [of _ fs2] exI [of _ a] exI [of _ k]) (cases s, simp)
  qed
  ultimately show ?thesis using w(1) by auto
qed

section \<open>The whole request\<close>

text \<open>The data, in any pieces: the state machine comes to the end of the upload.\<close>

lemma data_in_polls:
  assumes sha: "sha_len (ch_fs E)" and U: "up_ok U"
  shows "uploading E U b s \<Longrightarrow> live s \<Longrightarrow> \<not> cl_ssl s \<Longrightarrow> cl_state s = evt_data_in \<Longrightarrow> ready s \<Longrightarrow> cl_wrs s = [] \<Longrightarrow> length b < up_size U \<Longrightarrow>
    cl_rds s = map Inr ps \<Longrightarrow> pieces ps \<Longrightarrow> concat ps = c @ rest \<Longrightarrow> length (b @ c) = up_size U \<Longrightarrow>
    \<exists>qs t s'. pieces qs \<and> concat qs = rest \<and> polls E s s' \<and> put_done E U (b @ c) t s' \<and>
      (\<exists>fs bo h n. t = s\<lparr>cs_fs := fs, cl_out_bo := bo, cl_out_hash := h, cl_out_len := n, cl_rds := map Inr qs\<rparr>)"
proof (induction "length c" arbitrary: b s c ps rule: less_induct)
  case less
  obtain p ps' where ps: "ps = p # ps'" using less.prems(7,10,11) by (cases ps) auto
  have p: "p \<noteq> []" "pieces ps'" using less.prems(9) ps by (auto simp: pieces_def)
  let ?n = "min (cl_out_len s) CLI_DATA_BUF_SZ"
  define qs where "qs = (if length p \<le> ?n then ps' else drop ?n p # ps')"
  have ol: "cl_out_len s = length c" using less.prems(1,11) by (simp add: uploading_def)
  have c0: "c \<noteq> []" using less.prems(7,11) by auto
  then have n0: "0 < ?n" using ol by (simp add: CLI_DATA_BUF_SZ_def)
  define x where "x = take ?n p"
  have cat: "x @ concat qs = c @ rest" using less.prems(10) ps by (simp add: x_def qs_def flip: append_assoc)
  have lx: "length x \<le> length c" "x \<noteq> []" using ol n0 p(1) by (simp_all add: x_def)
  then have c: "c = x @ drop (length x) c" "concat qs = drop (length x) c @ rest"
    using cat by (metis append_eq_append_conv_if append_take_drop_id)+
  have rd: "sock_read ?n s = (Inr x, s\<lparr>cl_rds := map Inr qs\<rparr>)"
    using less.prems(8) ps by (simp add: sock_read_def x_def qs_def)
  have u1: "uploading E U b (s\<lparr>cl_rds := map Inr qs\<rparr>)" using less.prems(1) by simp
  have bx: "length (b @ x) \<le> up_size U" using less.prems(11) lx(1) by simp
  from data_in_loop_ok [OF sha U u1 lx(2) bx] obtain s1 where l: "data_in_loop E x (s\<lparr>cl_rds := map Inr qs\<rparr>) = Some (Inr (True, s1))"
    "uploading E U (b @ x) s1" and s1: "\<exists>fs bo h n. s1 = s\<lparr>cl_rds := map Inr qs, cs_fs := fs, cl_out_bo := bo, cl_out_hash := h, cl_out_len := n\<rparr>" by blast
  have q1: "quiet (cs_fs s1)" using l(2) by (simp add: uploading_def)
  have k1: "live s1" "\<not> cl_ssl s1" "cl_state s1 = evt_data_in" "ready s1" "cl_wrs s1 = []" "cl_rds s1 = map Inr qs"
    using less.prems(2-6) s1 q1 by (auto simp: live_def ready_def cl_creq_def in_ok_def)
  have o1: "cl_out_len s1 = length (drop (length x) c)" using l(2) less.prems(11) by (simp add: uploading_def)
  have pq: "pieces qs" using p by (auto simp: pieces_def qs_def)
  have run: "state_func E (cl_state s) s = (if drop (length x) c = [] then object_put_end E s1 else Some (Inr (True, s1)))"
    using less.prems(3,4) ol c0 rd lx(2) l(1) o1 unfolding state_func_def
    by (simp add: cli_evt_data_in_def data_in_read_def rbind_def rget_def rcall_def rret_def)
  show ?case
  proof (cases "drop (length x) c = []")
    case True
    have bc: "b @ c = b @ x" using c(1) True by simp
    have "length (b @ x) = up_size U" using less.prems(11) unfolding bc .
    from put_end_ok [OF sha U l(2) this k1(4,5)] obtain s' where e: "object_put_end E s1 = Some (Inr (True, s'))" "put_done E U (b @ x) s1 s'" by blast
    have pl: "polls E s s'" using polls_one [OF less.prems(2)] run True e(1) by simp
    have "\<exists>fs bo h n. s1 = s\<lparr>cs_fs := fs, cl_out_bo := bo, cl_out_hash := h, cl_out_len := n, cl_rds := map Inr qs\<rparr>"
      using s1 by (elim exE) (rule exI, rule exI, rule exI, rule exI, cases s, simp)
    with pl e(2) pq c(2) True show ?thesis unfolding bc by (intro exI [of _ qs] exI [of _ s1] exI [of _ s']) simp
  next
    case False
    have lt: "length (drop (length x) c) < length c" using lx by (cases x) auto
    have b1: "length (b @ x) < up_size U" using False less.prems(11) by simp
    have b2: "length ((b @ x) @ drop (length x) c) = up_size U" using c(1) less.prems(11) by simp
    from less.hyps [OF lt l(2) k1(1-5) b1 k1(6) pq c(2) b2] obtain qs' t s' where
      i: "pieces qs'" "concat qs' = rest" "polls E s1 s'" "put_done E U ((b @ x) @ drop (length x) c) t s'"
      and t: "\<exists>fs bo h n. t = s1\<lparr>cs_fs := fs, cl_out_bo := bo, cl_out_hash := h, cl_out_len := n, cl_rds := map Inr qs'\<rparr>" by blast
    have "polls E s s'" using polls_step [OF less.prems(2) _ i(3)] run False by simp
    moreover have "\<exists>fs bo h n. t = s\<lparr>cs_fs := fs, cl_out_bo := bo, cl_out_hash := h, cl_out_len := n, cl_rds := map Inr qs'\<rparr>"
      using t s1 by (elim exE) (rule exI, rule exI, rule exI, rule exI, cases s, simp)
    ultimately show ?thesis using i c(1) by (intro exI [of _ qs'] exI [of _ t] exI [of _ s']) simp
  qed
qed

text \<open>The signature of a request with a key and nothing after it.\<close>

definition signed_by :: "'d chenv \<Rightarrow> bytes \<Rightarrow> chunksrv_req \<Rightarrow> bytes \<Rightarrow> bool" where
  "signed_by E user r key \<longleftrightarrow> valid_req_hdr r \<and> cstr (rq_sig r) = ch_hmac E user (req_bytes (r\<lparr>rq_sig := replicate CHD_SIG_SZ 0\<rparr>) @ key)"

lemma signed_auth:
  assumes "signed_by E user r key" "req_wf r" "length key = unat (rq_key_len r)" "rq_op r \<noteq> CHO_GET_PART"
  shows "authcheck (ch_hmac E) r gpr key user"
proof -
  let ?r = "r\<lparr>rq_sig := replicate CHD_SIG_SZ 0\<rparr>"
  have "length (req_bytes ?r) = CHUNKSRV_REQ_SZ" using assms(2) by (intro length_req_bytes) (simp add: req_wf_def)
  then have "take (req_len ?r) (req_bytes ?r @ key @ gpr) = req_bytes ?r @ key" using assms(3,4) by (simp add: req_len_def)
  then show ?thesis using assms(1) by (simp add: authcheck_def chreq_sign_def Let_def signed_by_def)
qed

lemma get_dirty_ok: "oc_inv c held \<Longrightarrow> \<exists>p c'. objcache_get_dirty True c key = Done (p, c') \<and> oc_inv c' (add_mset p held)"
  using objcache_get_hit [of c held key _ True OC_F_DIRTY] objcache_get_miss [of c key OC_F_DIRTY] oc_inv_get [of c held key OC_F_DIRTY]
  unfolding objcache_get_dirty_def by (cases "oc_table c (objcache_hash key)") blast+

text \<open>A connection of a user with an open table on which a key is free.\<close>

definition can_put :: "'d chenv \<Rightarrow> upload \<Rightarrow> 'd conn \<Rightarrow> bool" where
  "can_put E U s \<longleftrightarrow> quiet (cs_fs s) \<and> cl_user s = up_user U \<and> up_user U \<noteq> [] \<and> cl_table s \<noteq> [] \<and> cl_table_id s = up_table U \<and> up_table U \<noteq> 0 \<and>
     fy_names (cs_fs s) = up_names U \<and> up_names U (obj_dir (ch_fs E) (up_table U) (up_key U)) = None \<and>
     up_names U (obj_path (ch_fs E) (up_table U) (up_key U)) = None \<and> oc_inv (cs_actives s) (up_held U)"

lemma object_put_start:
  assumes sha: "sha_len (ch_fs E)" and U: "up_ok U" and c: "can_put E U s" and k: "cli_key s = up_key U"
    and n: "rq_data_len (cl_creq s) = word_of_nat (up_size U)"
  shows "\<exists>s1. uploading E U [] s1 \<and>
     object_put E s = (if up_size U = 0 then object_put_end E s1 else Some (Inr (True, s1\<lparr>cl_state := evt_data_in\<rparr>))) \<and>
     (\<exists>a ce fs bo u. s1 = s\<lparr>cs_actives := a, cl_out_ce := ce, cs_fs := fs, cl_out_bo := bo, cl_out_hash := [], cl_out_len := up_size U, cl_out_user := u\<rparr>)"
proof -
  have q: "quiet (cs_fs s)" and kv: "key_valid (up_key U)" and t0: "up_table U \<noteq> 0" and sz: "up_size U < 2 ^ 43"
    and nm: "fy_names (cs_fs s) (obj_dir (ch_fs E) (up_table U) (up_key U)) = None" "fy_names (cs_fs s) (obj_path (ch_fs E) (up_table U) (up_key U)) = None"
    using U c by (simp_all add: up_ok_def can_put_def)
  obtain ce a where g: "objcache_get_dirty True (cs_actives s) (up_key U) = Done (ce, a)" "oc_inv a (add_mset ce (up_held U))"
    using get_dirty_ok c unfolding can_put_def by blast
  obtain bo fs where o: "fs_obj_new (ch_fs E) (up_table U) (up_key U) (word_of_nat (up_size U)) (cs_fs s) = (Inr bo, fs)" "quiet fs"
    using fs_obj_new_quiet [OF q kv t0 nm] by blast
  obtain fd ino where w: "wr_obj (ch_fs E) (up_key U) (up_size U) (up_file (ch_fs E) U) fd bo []"
      "wr_fs (up_key U) (up_size U) ((up_names U)(up_file (ch_fs E) U \<mapsto> ino)) fd ino fs []"
    using fs_obj_new_ok(1) [OF o(1) sz] c unfolding up_file_def can_put_def by auto
  have u: "unat (word_of_nat (up_size U) :: u64) = up_size U" using sz by (simp add: unat_small)
  let ?s = "s\<lparr>cs_actives := a, cl_out_ce := Some ce, cs_fs := fs, cl_out_bo := Some bo, cl_out_hash := [], cl_out_len := up_size U,
      cl_out_user := Some (up_user U)\<rparr>"
  have "uploading E U [] ?s" using w g(2) o(2) by (auto simp: uploading_def)
  moreover have "object_put E s = (if up_size U = 0 then object_put_end E ?s else Some (Inr (True, ?s\<lparr>cl_state := evt_data_in\<rparr>)))"
    using q g(1) o u n k c unfolding object_put_def can_put_def
    by (simp add: rbind_def rget_def rcall_def rmod_def rret_def Let_def conn_malloc_quiet objcache_run_def fs_call_def set_state_def)
  ultimately show ?thesis by blast
qed

text \<open>A connection of a logged-in user with an open table, between two requests.\<close>

definition session :: "bytes \<Rightarrow> u32 \<Rightarrow> nat multiset \<Rightarrow> 'd conn \<Rightarrow> bool" where
  "session user tbl held s \<longleftrightarrow> idle s \<and> quiet (cs_fs s) \<and> cl_write_q s = [] \<and> \<not> cl_writing s \<and> cl_wrs s = [] \<and>
     cl_user s = user \<and> user \<noteq> [] \<and> cl_table s \<noteq> [] \<and> cl_table_id s = tbl \<and> tbl \<noteq> 0 \<and> oc_inv (cs_actives s) held \<and> in_ok s"

lemma put_done_session:
  assumes "put_done E U d t s'" "live t" "\<not> cl_ssl t" "cl_write_q t = []" "cl_wrs t = []" "cl_user t = up_user U" "up_user U \<noteq> []" "cl_table t \<noteq> []"
    "cl_table_id t = up_table U" "up_table U \<noteq> 0" "length (cl_creq_mem t) = CHUNKSRV_REQ_SZ" "length (cl_key t) = CHD_KEY_SZ"
    "length (cl_key2 t) = CHD_KEY_SZ" "length (cl_getpart t) = GETPART_SZ" "in_ok t"
  defines "v \<equiv> s'\<lparr>cl_req_ptr := Buf_creq, cl_req_used := 0, cl_state := evt_read_fixed\<rparr>"
  shows "polls E s' v" "session (up_user U) (up_table U) (up_held U) v" "cl_sent v = cl_sent t @ put_resp E t d"
    "\<exists>ino. stored (ch_fs E) (up_table U) (up_user U) (up_key U) (ce_sha1 (ch_fs E) d) d ino (cs_fs v) \<and>
       fy_names (cs_fs v) = (up_names U)(up_file (ch_fs E) U \<mapsto> ino)" "cl_rds v = cl_rds t"
proof -
  obtain ino fs a k where d: "stored (ch_fs E) (up_table U) (up_user U) (up_key U) (ce_sha1 (ch_fs E) d) d ino fs"
      "fy_names fs = (up_names U)(up_file (ch_fs E) U \<mapsto> ino)" "quiet fs" "oc_inv a (up_held U)"
    and s': "s' = t\<lparr>cs_fs := fs, cs_actives := a, cs_trash_sz := k, cs_opt_write := cs_opt_write t + 1, cl_state := evt_recycle, cl_out_bo := None,
          cl_out_ce := None, cl_out_user := None, cl_sent := cl_sent t @ put_resp E t d, cl_ev_write := False, cl_writing := False\<rparr>"
    using assms(1) by (auto simp: put_done_def)
  have "live s'" "state_func E (cl_state s') s' = Some (Inr (True, v))"
    using assms(2,4) unfolding v_def s' by (simp_all add: live_def state_func_def cli_evt_recycle_def rret_def)
  then show "polls E s' v" by (rule polls_one)
  show "session (up_user U) (up_table U) (up_held U) v" using assms d unfolding v_def s' by (simp add: session_def idle_def live_def in_ok_def)
  show "cl_sent v = cl_sent t @ put_resp E t d" "cl_rds v = cl_rds t" by (simp_all add: v_def s')
  show "\<exists>ino. stored (ch_fs E) (up_table U) (up_user U) (up_key U) (ce_sha1 (ch_fs E) d) d ino (cs_fs v) \<and>
       fy_names (cs_fs v) = (up_names U)(up_file (ch_fs E) U \<mapsto> ino)" using d by (auto simp: v_def s')
qed

text \<open>A request that is in the buffers, as far as its operation.\<close>

lemma exec_step:
  assumes "requested r key ext qs s t" "session user tbl held s" "req_wf r" "length key = unat (rq_key_len r)" "rq_op r \<noteq> CHO_LOGIN"
    "valid_req_hdr r" "authcheck (ch_hmac E) r (cl_getpart t) key user"
  shows "live t" "state_func E (cl_state t) t = rbind (run_op E (rq_op r)) (\<lambda>rcb. rbind (rmod (\<lambda>s. s\<lparr>cl_first_req := False\<rparr>)) (\<lambda>_. rret rcb)) (t\<lparr>cl_state := evt_recycle\<rparr>)"
    "cl_creq t = r" "cli_key t = key"
proof -
  have t: "cl_state t = evt_exec_req" "cl_creq t = r" "cli_key t = key" "cl_user t = user" "user \<noteq> []" "cl_table t \<noteq> []" "live t"
    using assms(1-4) by (auto simp: requested_def session_def idle_def live_def cl_creq_def cli_key_def req_of_bytes)
  show "live t" "cl_creq t = r" "cli_key t = key" by (rule t)+
  show "state_func E (cl_state t) t = rbind (run_op E (rq_op r)) (\<lambda>rcb. rbind (rmod (\<lambda>s. s\<lparr>cl_first_req := False\<rparr>)) (\<lambda>_. rret rcb)) (t\<lparr>cl_state := evt_recycle\<rparr>)"
    using t assms(5-7) by (simp add: state_func_def cli_evt_exec_req_def set_state_def rbind_simple Let_def)
qed

lemma requested_fields:
  assumes "requested r key ext qs s t" "session user tbl held s" "req_wf r"
  shows "live t" "\<not> cl_ssl t" "cl_write_q t = []" "\<not> cl_writing t" "cl_wrs t = []" "cl_rds t = map Inr qs" "cl_creq t = r" "cl_sent t = cl_sent s"
    "cl_user t = user" "user \<noteq> []" "cl_table t \<noteq> []" "cl_table_id t = tbl" "tbl \<noteq> 0" "length (cl_creq_mem t) = CHUNKSRV_REQ_SZ"
    "length (cl_key t) = CHD_KEY_SZ" "length (cl_key2 t) = CHD_KEY_SZ" "length (cl_getpart t) = GETPART_SZ" "cs_fs t = cs_fs s"
    "oc_inv (cs_actives t) held" "quiet (cs_fs t)" "in_ok t"
proof -
  obtain k k2 g p u v sv where t: "t = s\<lparr>cl_state := evt_exec_req, cl_creq_mem := req_bytes r, cl_key_len := rq_key_len r, cl_key := k, cl_key2 := k2,
        cl_getpart := g, cl_req_ptr := p, cl_req_used := u, cl_var_len := v, cl_second_var := sv, cl_rds := map Inr qs\<rparr>"
    "length k = CHD_KEY_SZ" "length k2 = CHD_KEY_SZ" "length g = GETPART_SZ" using assms(1) by (auto simp: requested_def)
  show "live t" "\<not> cl_ssl t" "cl_write_q t = []" "\<not> cl_writing t" "cl_wrs t = []" "cl_rds t = map Inr qs" "cl_creq t = r" "cl_sent t = cl_sent s"
    "cl_user t = user" "user \<noteq> []" "cl_table t \<noteq> []" "cl_table_id t = tbl" "tbl \<noteq> 0" "length (cl_creq_mem t) = CHUNKSRV_REQ_SZ"
    "length (cl_key t) = CHD_KEY_SZ" "length (cl_key2 t) = CHD_KEY_SZ" "length (cl_getpart t) = GETPART_SZ" "cs_fs t = cs_fs s"
    "oc_inv (cs_actives t) held" "quiet (cs_fs t)" "in_ok t"
    using assms(2) t(2-4) unfolding t(1) session_def idle_def
    by (simp_all add: live_def cl_creq_def in_ok_def req_of_bytes [OF assms(3)] length_req_bytes [OF assms(3)])
qed

lemma put_polls:
  assumes sha: "sha_len (ch_fs E)" and se: "session user tbl held s" and us: "length user < 128" "0 \<notin> set user"
    and k: "key_valid key" "rq_key_len r = word_of_nat (length key)" and d: "length d < 2 ^ 43" "rq_data_len r = word_of_nat (length d)"
    and nm: "fy_names (cs_fs s) (obj_dir (ch_fs E) tbl key) = None" "fy_names (cs_fs s) (obj_path (ch_fs E) tbl key) = None"
    and r: "req_wf r" "rq_op r = CHO_PUT" "signed_by E user r key"
    and ps: "cl_rds s = map Inr ps" "pieces ps" "concat ps = req_bytes r @ key @ d @ rest"
  shows "\<exists>qs v ino. pieces qs \<and> concat qs = rest \<and> polls E s v \<and> cl_rds v = map Inr qs \<and> session user tbl held v \<and>
     stored (ch_fs E) tbl user key (ce_sha1 (ch_fs E) d) d ino (cs_fs v) \<and>
     fy_names (cs_fs v) = (fy_names (cs_fs s))(obj_path (ch_fs E) tbl key \<mapsto> ino) \<and>
     cl_sent v = cl_sent s @ resp_bytes ((resp_init_req r)\<lparr>rs_hash := ce_sha1 (ch_fs E) d\<rparr>)"
proof -
  define U where "U = \<lparr>up_table = tbl, up_user = user, up_key = key, up_size = length d, up_names = fy_names (cs_fs s), up_held = held\<rparr>"
  have U: "up_ok U" using us k(1) d(1) by (simp add: U_def up_ok_def)
  have lk: "length key \<le> CHD_KEY_SZ" "key \<noteq> []" using k(1) by (auto simp: key_valid_def)
  then have lk2: "length key = unat (rq_key_len r)" using k(2) by (simp add: unat_small CHD_KEY_SZ_def)
  have op: "rq_op r \<noteq> CHO_GET_PART" "rq_op r \<noteq> CHO_LOGIN" "extra_ok r []" "rq_op r \<noteq> CHO_CP" using r(2) by (simp_all add: extra_ok_def cfg_simps)
  have id: "idle s" using se by (simp add: session_def)
  have cat: "concat ps = req_bytes r @ key @ [] @ d @ rest" using ps(3) by simp
  obtain qs1 t where q1: "pieces qs1" "concat qs1 = d @ rest" and p1: "polls E s t" and t: "requested r key [] qs1 s t"
    using request_framed [OF id r(1) lk2 lk(2,1) op(3) ps(1,2) cat] by blast
  have au: "authcheck (ch_hmac E) r (cl_getpart t) key user" by (rule signed_auth [OF r(3,1) lk2 op(1)])
  have vr: "valid_req_hdr r" using r(3) by (simp add: signed_by_def)
  note ex = exec_step [OF t se r(1) lk2 op(2) vr au]
  let ?t = "t\<lparr>cl_state := evt_recycle\<rparr>"
  have cp: "can_put E U ?t" using t se nm by (auto simp: can_put_def U_def requested_def session_def)
  have ct: "cli_key ?t = up_key U" "rq_data_len (cl_creq ?t) = word_of_nat (up_size U)" using ex(3,4) d(2) by (simp_all add: cli_key_def cl_creq_def U_def)
  obtain s1 where up: "uploading E U [] s1"
    and run: "object_put E ?t = (if up_size U = 0 then object_put_end E s1 else Some (Inr (True, s1\<lparr>cl_state := evt_data_in\<rparr>)))"
    and s1: "\<exists>a ce fs bo u. s1 = ?t\<lparr>cs_actives := a, cl_out_ce := ce, cs_fs := fs, cl_out_bo := bo, cl_out_hash := [], cl_out_len := up_size U, cl_out_user := u\<rparr>"
    using object_put_start [OF sha U cp ct] by blast
  have f1: "live s1" "\<not> cl_ssl s1" "ready s1" "cl_wrs s1 = []" "cl_rds s1 = map Inr qs1" "cl_creq s1 = r" "cl_sent s1 = cl_sent s"
      "cl_user s1 = user" "user \<noteq> []" "cl_table s1 \<noteq> []" "cl_table_id s1 = tbl" "tbl \<noteq> 0" "length (cl_creq_mem s1) = CHUNKSRV_REQ_SZ"
      "length (cl_key s1) = CHD_KEY_SZ" "length (cl_key2 s1) = CHD_KEY_SZ" "length (cl_getpart s1) = GETPART_SZ" "cl_write_q s1 = []" "in_ok s1"
    using requested_fields [OF t se r(1)] s1 up r(1) by (auto simp: live_def ready_def uploading_def req_wf_def cl_creq_def in_ok_def)
  have so: "state_func E (cl_state t) t = rbind (object_put E) (\<lambda>rcb. rbind (rmod (\<lambda>s. s\<lparr>cl_first_req := False\<rparr>)) (\<lambda>_. rret rcb)) ?t"
    using ex(2) r(2) by (simp add: run_op_def cfg_simps)
  let ?v = "\<lambda>s'. s'\<lparr>cl_req_ptr := Buf_creq, cl_req_used := 0, cl_state := evt_read_fixed\<rparr>"
  have fin: ?thesis
    if dn: "put_done E U d u s'" and pl: "polls E t s'" and qs: "pieces qs" "concat qs = rest"
      and u: "\<exists>fs bo h n st. u = s1\<lparr>cl_first_req := False, cl_state := st, cs_fs := fs, cl_out_bo := bo, cl_out_hash := h, cl_out_len := n, cl_rds := map Inr qs\<rparr>"
    for u s' qs
  proof -
    have c: "live u" "\<not> cl_ssl u" "cl_write_q u = []" "cl_wrs u = []" "cl_user u = up_user U" "up_user U \<noteq> []" "cl_table u \<noteq> []"
        "cl_table_id u = up_table U" "up_table U \<noteq> 0" "length (cl_creq_mem u) = CHUNKSRV_REQ_SZ" "length (cl_key u) = CHD_KEY_SZ"
        "length (cl_key2 u) = CHD_KEY_SZ" "length (cl_getpart u) = GETPART_SZ" "cl_creq u = r" "cl_sent u = cl_sent s" "cl_rds u = map Inr qs" "in_ok u"
      using u f1 by (auto simp: live_def U_def cl_creq_def in_ok_def)
    note v = put_done_session [OF dn c(1-13,17)]
    have "cl_sent (?v s') = cl_sent s @ resp_bytes ((resp_init_req r)\<lparr>rs_hash := ce_sha1 (ch_fs E) d\<rparr>)"
      using v(3) c(14,15) by (simp add: put_resp_def)
    moreover have "polls E s (?v s')" using polls_trans [OF p1 polls_trans [OF pl v(1)]] .
    moreover obtain ino where "stored (ch_fs E) tbl user key (ce_sha1 (ch_fs E) d) d ino (cs_fs (?v s'))"
        "fy_names (cs_fs (?v s')) = (fy_names (cs_fs s))(obj_path (ch_fs E) tbl key \<mapsto> ino)" using v(4) by (auto simp: U_def up_file_def)
    ultimately show ?thesis using qs v(2,5) c(16) unfolding U_def by (intro exI [of _ qs] exI [of _ "?v s'"] exI [of _ ino]) simp
  qed
  show ?thesis
  proof (cases "d = []")
    case True
    have "length ([] :: bytes) = up_size U" using True by (simp add: U_def)
    from put_end_ok [OF sha U up this f1(3,4)] obtain s' where e: "object_put_end E s1 = Some (Inr (True, s'))" "put_done E U [] s1 s'" by blast
    have pd: "put_done E U d (s1\<lparr>cl_first_req := False\<rparr>) (s'\<lparr>cl_first_req := False\<rparr>)"
      using put_done_first [OF e(2)] True by simp
    have pl: "polls E t (s'\<lparr>cl_first_req := False\<rparr>)"
      by (rule polls_one [OF ex(1)]) (simp add: so rbind_def run U_def True e(1) rmod_def rret_def)
    have x: "\<exists>fs bo h n st. s1\<lparr>cl_first_req := False\<rparr> =
        s1\<lparr>cl_first_req := False, cl_state := st, cs_fs := fs, cl_out_bo := bo, cl_out_hash := h, cl_out_len := n, cl_rds := map Inr qs1\<rparr>"
      using f1(5) by (intro exI [of _ "cs_fs s1"] exI [of _ "cl_out_bo s1"] exI [of _ "cl_out_hash s1"] exI [of _ "cl_out_len s1"] exI [of _ "cl_state s1"]) (cases s1, simp)
    show ?thesis by (rule fin [OF pd pl q1(1) _ x]) (use q1(2) True in simp)
  next
    case False
    let ?u = "s1\<lparr>cl_state := evt_data_in, cl_first_req := False\<rparr>"
    have pu: "polls E t ?u"
      by (rule polls_one [OF ex(1)]) (simp add: so rbind_def run U_def False rmod_def rret_def)
    have u: "uploading E U [] ?u" "live ?u" "\<not> cl_ssl ?u" "cl_state ?u = evt_data_in" "ready ?u" "cl_wrs ?u = []" "length ([] :: bytes) < up_size U"
        "cl_rds ?u = map Inr qs1" "length ([] @ d) = up_size U"
      using up f1 False by (simp_all add: uploading_def live_def ready_def cl_creq_def U_def in_ok_def)
    from data_in_polls [OF sha U u(1-8) q1 u(9)] obtain qs t' s' where a: "pieces qs" "concat qs = rest" "polls E ?u s'" "put_done E U ([] @ d) t' s'"
      and t': "\<exists>fs bo h n. t' = ?u\<lparr>cs_fs := fs, cl_out_bo := bo, cl_out_hash := h, cl_out_len := n, cl_rds := map Inr qs\<rparr>" by blast
    have "\<exists>fs bo h n st. t' = s1\<lparr>cl_first_req := False, cl_state := st, cs_fs := fs, cl_out_bo := bo, cl_out_hash := h, cl_out_len := n, cl_rds := map Inr qs\<rparr>"
      using t' by (elim exE) (rule exI, rule exI, rule exI, rule exI, rule exI [of _ evt_data_in], cases s1, simp)
    then show ?thesis using fin [OF _ polls_trans [OF pu a(3)] a(1,2)] a(4) by simp
  qed
qed

lemma idle_waiting: "idle s \<Longrightarrow> cl_rds s = [] \<Longrightarrow> waiting E s"
proof -
  assume i: "idle s" and r: "cl_rds s = []"
  have b: "cur_buf s = cl_creq_mem s" "set_buf x s = s\<lparr>cl_creq_mem := x\<rparr>" for x using i by (simp_all add: idle_def cur_buf_def set_buf_def)
  have e: "put_buf 0 [] (cl_creq_mem s) = cl_creq_mem s" by (simp add: put_buf_def)
  have "recv [] s = Some (Inr ((), s))" using i by (cases s) (simp add: recv_eq b e rret_def idle_def cur_buf_def set_buf_def put_buf_def)
  then have "read_rec (\<lambda>_. CHUNKSRV_REQ_SZ) fixed_done s = Some (Inr (False, s))"
    using i r by (simp add: read_rec_def rbind_def rget_def rcall_def read_data_none rret_def idle_def CHUNKSRV_REQ_SZ_def)
  then show ?thesis using i by (simp add: waiting_def state_func_def read_fixed_rec idle_def)
qed

lemma no_pieces: "pieces qs \<Longrightarrow> concat qs = [] \<Longrightarrow> qs = []"
  by (cases qs) (auto simp: pieces_def)

text \<open>
  Storing an object works from end to end. On a connection of a logged-in user with an open table,
  when a put request with the user's signature, a free key and its data arrive, in any pieces, read events
  bring the daemon to store exactly that object with the user as its owner and the SHA-1 of the data as its
  digest, to answer with that digest, and to wait for the next request; no other name changes.
\<close>

theorem put_request:
  assumes "sha_len (ch_fs E)" "session user tbl held s" "length user < 128" "0 \<notin> set user" "key_valid key" "rq_key_len r = word_of_nat (length key)"
    "length d < 2 ^ 43" "rq_data_len r = word_of_nat (length d)" "fy_names (cs_fs s) (obj_dir (ch_fs E) tbl key) = None"
    "fy_names (cs_fs s) (obj_path (ch_fs E) tbl key) = None" "req_wf r" "rq_op r = CHO_PUT" "signed_by E user r key"
    "cl_rds s = map Inr ps" "pieces ps" "concat ps = req_bytes r @ key @ d"
  shows "\<exists>n s' ino. cli_events E (replicate n (True, False)) s = Some (Inr ((), s')) \<and>
     stored (ch_fs E) tbl user key (ce_sha1 (ch_fs E) d) d ino (cs_fs s') \<and>
     fy_names (cs_fs s') = (fy_names (cs_fs s))(obj_path (ch_fs E) tbl key \<mapsto> ino) \<and>
     cl_sent s' = cl_sent s @ resp_bytes ((resp_init_req r)\<lparr>rs_hash := ce_sha1 (ch_fs E) d\<rparr>) \<and>
     session user tbl held s' \<and> waiting E s'"
proof -
  have "concat ps = req_bytes r @ key @ d @ []" using assms(16) by simp
  from put_polls [OF assms(1-15) this] obtain qs v ino where q: "pieces qs" "concat qs = []" "polls E s v" "cl_rds v = map Inr qs"
    and v: "session user tbl held v" "stored (ch_fs E) tbl user key (ce_sha1 (ch_fs E) d) d ino (cs_fs v)"
      "fy_names (cs_fs v) = (fy_names (cs_fs s))(obj_path (ch_fs E) tbl key \<mapsto> ino)"
      "cl_sent v = cl_sent s @ resp_bytes ((resp_init_req r)\<lparr>rs_hash := ce_sha1 (ch_fs E) d\<rparr>)" by blast
  have "cl_rds v = []" using no_pieces [OF q(1,2)] q(4) by simp
  then have w: "waiting E v" using v(1) by (intro idle_waiting) (simp_all add: session_def)
  from polls_events [OF q(3) w] v w show ?thesis by blast
qed

text \<open>The connection of a user with a table open, and a signed request.\<close>

definition demo_conn :: "bytes list \<Rightarrow> unit conn" where
  "demo_conn ps = (cli_alloc demo_srv (map Inr ps) [])\<lparr>cl_user := [117], cl_table := [116], cl_table_id := 1\<rparr>"

definition demo_upload :: chunksrv_req where
  "demo_upload = demo_put\<lparr>rq_sig := 117 # replicate 63 0\<rparr>"

lemma demo_session: "session [117] 1 {#} (demo_conn ps)"
proof -
  have i: "idle (demo_conn ps)" using alloc_idle [of demo_srv "map Inr ps" "[]"] by (simp add: demo_conn_def idle_def live_def)
  have "oc_inv (cs_actives (demo_conn ps)) {#}" "quiet (cs_fs (demo_conn ps))" "\<not> cl_writing (demo_conn ps)"
    using demo_ok(2) by (simp_all add: demo_conn_def demo_srv_def cli_alloc_def server.extend_def conn.fields_def oc_inv_def)
  moreover have "in_ok (demo_conn ps)" by (simp add: in_ok_def demo_conn_def demo_srv_def cli_alloc_def server.extend_def conn.fields_def)
  ultimately show ?thesis using i by (simp add: session_def) (simp add: demo_conn_def)
qed

lemma demo_upload_ok: "req_wf demo_upload" "rq_op demo_upload = CHO_PUT" "signed_by demo_chenv [117] demo_upload [107]"
  using demo_put_ok(1) by (simp_all add: demo_upload_def demo_put_def req_wf_def CHD_SIG_SZ_def signed_by_def demo_chenv_def cstr_def valid_req_hdr_def cfg_simps)

lemma demo_fs_conn [simp]: "cs_fs (demo_conn ps) = demo_fs" "cl_rds (demo_conn ps) = map Inr ps" "cl_sent (demo_conn ps) = []"
  by (simp_all add: demo_conn_def demo_srv_def cli_alloc_def server.extend_def conn.fields_def)

theorem put_request_witness:
  "\<exists>n s' ino. cli_events demo_chenv (replicate n (True, False)) (demo_conn [req_bytes demo_upload, [107, 1], [2, 3]]) = Some (Inr ((), s')) \<and>
     stored demo_env 1 [117] [107] (ce_sha1 demo_env [1, 2, 3]) [1, 2, 3] ino (cs_fs s')"
proof -
  let ?ps = "[req_bytes demo_upload, [107, 1], [2, 3]]"
  have E: "ch_fs demo_chenv = demo_env" by (simp add: demo_chenv_def)
  have h: "sha_len (ch_fs demo_chenv)" "length [117 :: u8] < 128" "0 \<notin> set [117 :: u8]" "key_valid [107]"
    "rq_key_len demo_upload = word_of_nat (length [107 :: u8])" "length [1, 2, 3 :: u8] < 2 ^ 43" "rq_data_len demo_upload = word_of_nat (length [1, 2, 3 :: u8])"
    using demo_ok by (simp_all add: E demo_upload_def demo_put_def)
  have n: "fy_names (cs_fs (demo_conn ?ps)) x = None" for x by (simp add: demo_fs_def)
  have p: "pieces ?ps" using length_req_bytes [OF demo_upload_ok(1)] by (auto simp: pieces_def CHUNKSRV_REQ_SZ_def)
  have c: "concat ?ps = req_bytes demo_upload @ [107] @ [1, 2, 3]" by simp
  from put_request [OF h(1) demo_session h(2-7) n n demo_upload_ok demo_fs_conn(2) p c] show ?thesis unfolding E by blast
qed

end
