(* ===== verification/Chunk_Session.thy ===== *)
theory Chunk_Session
  imports Chunk_Upload
begin

text \<open>
  Several requests on one connection: fetching an object over the network, and storing one and fetching
  it again.
\<close>

section \<open>A get request\<close>

definition get_resp :: "chunksrv_req \<Rightarrow> bytes \<Rightarrow> bytes \<Rightarrow> u64 \<Rightarrow> bytes" where
  "get_resp r md d mtime = resp_get_bytes ((resp_init_req r)\<lparr>rs_data_len := word_of_nat (length d), rs_hash := md\<rparr>) mtime @ d"

lemma stored_disk: "disk fs' = disk fs \<Longrightarrow> stored E t u k md d ino fs' = stored E t u k md d ino fs"
  by (simp add: stored_def disk_def)

lemma get_polls:
  assumes sha: "sha_len (ch_fs E)" and nsf: "\<not> ch_sendfile E" and se: "session user tbl held s"
    and st: "stored (ch_fs E) tbl user key md d ino (cs_fs s)" "fy_names (cs_fs s) (obj_dir (ch_fs E) tbl key) = None"
    and r: "req_wf r" "rq_op r = CHO_GET" "rq_key_len r = word_of_nat (length key)" "signed_by E user r key"
    and ps: "cl_rds s = map Inr ps" "pieces ps" "concat ps = req_bytes r @ key @ rest"
  shows "\<exists>qs v. pieces qs \<and> concat qs = rest \<and> polls E s v \<and> cl_rds v = map Inr qs \<and> session user tbl held v \<and>
     disk (cs_fs v) = disk (cs_fs s) \<and> cl_sent v = cl_sent s @ get_resp r md d (fy_mtime (cs_fs s) ino)"
proof -
  have k: "key_valid key" using st(1) by (simp add: stored_def)
  have lk: "length key \<le> CHD_KEY_SZ" "key \<noteq> []" using k by (auto simp: key_valid_def)
  then have lk2: "length key = unat (rq_key_len r)" using r(3) by (simp add: unat_small CHD_KEY_SZ_def)
  have op: "rq_op r \<noteq> CHO_GET_PART" "rq_op r \<noteq> CHO_LOGIN" "extra_ok r []" using r(2) by (simp_all add: extra_ok_def cfg_simps)
  have id: "idle s" using se by (simp add: session_def)
  have cat: "concat ps = req_bytes r @ key @ [] @ rest" using ps(3) by simp
  obtain qs t where q: "pieces qs" "concat qs = rest" and p1: "polls E s t" and t: "requested r key [] qs s t"
    using request_framed [OF id r(1) lk2 lk(2,1) op(3) ps(1,2) cat] by blast
  have au: "authcheck (ch_hmac E) r (cl_getpart t) key user" by (rule signed_auth [OF r(4,1) lk2 op(1)])
  have vr: "valid_req_hdr r" using r(4) by (simp add: signed_by_def)
  note ex = exec_step [OF t se r(1) lk2 op(2) vr au]
  note f = requested_fields [OF t se r(1)]
  let ?t = "t\<lparr>cl_state := evt_recycle\<rparr>" and ?m = "fy_mtime (cs_fs s) ino"
  have g: "ready ?t" "benign ?t" "\<not> use_sendfile E ?t" "in_ok ?t" "cl_wrs ?t = []" "\<not> cl_ssl ?t"
    using f r(1) nsf by (simp_all add: ready_def benign_def use_sendfile_def cl_creq_def req_wf_def in_ok_def)
  have h: "has_object E md d ?m ?t" using st f(9,12,13,18) ex(4) by (auto simp: has_object_def cli_key_def)
  obtain lp s1 where run: "object_get E True ?t = Some (Inr (lp, s1))"
    and s1: "sending E d s1" "cl_state s1 = evt_recycle" "stream d s1 = cl_sent ?t @ get_hdr ?t md d ?m @ d"
      "cl_write_q s1 = []" "cl_wrs s1 = []" "\<not> cl_writing s1" using object_get_ok [OF sha g(1,2) h g(3)] g(5,6) by auto
  have kp: "kept ?t s1" by (rule rinvD [OF kp.object_get run kept_refl [OF g(4)]])
  have pd: "pending d s1 = []" using s1(1,4) by (simp add: sending_def q_ok_def pending_def rest_of_def)
  then have sent: "cl_sent s1 = cl_sent s @ get_resp r md d ?m"
    using s1(3) f(8) ex(3) by (simp add: stream_def get_resp_def get_hdr_def cl_creq_def)
  let ?v = "s1\<lparr>cl_first_req := False, cl_req_ptr := Buf_creq, cl_req_used := 0, cl_state := evt_read_fixed\<rparr>"
  have p2: "state_func E (cl_state t) t = Some (Inr (lp, s1\<lparr>cl_first_req := False\<rparr>))"
    using ex(2) r(2) run by (simp add: run_op_def cfg_simps rbind_def rmod_def rret_def)
  have l1: "live (s1\<lparr>cl_first_req := False\<rparr>)" using kp f(1,2) by (simp add: kept_def live_def)
  have p3: "state_func E (cl_state (s1\<lparr>cl_first_req := False\<rparr>)) (s1\<lparr>cl_first_req := False\<rparr>) = Some (Inr (True, ?v))"
    using s1(2,4) by (simp add: state_func_def cli_evt_recycle_def rret_def)
  have po: "polls E s ?v" by (rule polls_trans [OF p1 polls_trans [OF polls_one [OF ex(1) p2] polls_one [OF l1 p3]]])
  have q1: "quiet (cs_fs s1)" using s1(1) by (simp add: sending_def in_sync_def)
  have v: "session user tbl held ?v" "disk (cs_fs ?v) = disk (cs_fs s)" "cl_rds ?v = map Inr qs"
    using kp f s1 q1 by (simp_all add: session_def idle_def kept_def live_def in_ok_def store_def)
  show ?thesis using q po v sent by (intro exI [of _ qs] exI [of _ ?v]) simp
qed

lemma put_get_polls:
  assumes "sha_len (ch_fs E)" "\<not> ch_sendfile E" "session user tbl held s" "length user < 128" "0 \<notin> set user" "key_valid key" "length d < 2 ^ 43"
    "fy_names (cs_fs s) (obj_dir (ch_fs E) tbl key) = None" "fy_names (cs_fs s) (obj_path (ch_fs E) tbl key) = None"
    "req_wf put" "rq_op put = CHO_PUT" "rq_key_len put = word_of_nat (length key)" "rq_data_len put = word_of_nat (length d)" "signed_by E user put key"
    "req_wf get" "rq_op get = CHO_GET" "rq_key_len get = word_of_nat (length key)" "signed_by E user get key"
    "cl_rds s = map Inr ps" "pieces ps" "concat ps = req_bytes put @ key @ d @ req_bytes get @ key"
  shows "\<exists>w mtime. polls E s w \<and> waiting E w \<and> session user tbl held w \<and>
     cl_sent w = cl_sent s @ resp_bytes ((resp_init_req put)\<lparr>rs_hash := ce_sha1 (ch_fs E) d\<rparr>) @ get_resp get (ce_sha1 (ch_fs E) d) d mtime"
proof -
  from put_polls [OF assms(1,3-6,12,7,13,8-11,14,19-21)]
  obtain qs v ino where v: "pieces qs" "concat qs = req_bytes get @ key" "polls E s v" "cl_rds v = map Inr qs" "session user tbl held v"
    "stored (ch_fs E) tbl user key (ce_sha1 (ch_fs E) d) d ino (cs_fs v)"
    "fy_names (cs_fs v) = (fy_names (cs_fs s))(obj_path (ch_fs E) tbl key \<mapsto> ino)"
    "cl_sent v = cl_sent s @ resp_bytes ((resp_init_req put)\<lparr>rs_hash := ce_sha1 (ch_fs E) d\<rparr>)" by blast
  have nd: "fy_names (cs_fs v) (obj_dir (ch_fs E) tbl key) = None" using v(7) assms(8) by simp
  have "concat qs = req_bytes get @ key @ []" using v(2) by simp
  from get_polls [OF assms(1,2) v(5,6) nd assms(15-18) v(4,1) this]
  obtain qs' w where w: "pieces qs'" "concat qs' = []" "polls E v w" "cl_rds w = map Inr qs'" "session user tbl held w"
    "cl_sent w = cl_sent v @ get_resp get (ce_sha1 (ch_fs E) d) d (fy_mtime (cs_fs v) ino)" by blast
  have "cl_rds w = []" using no_pieces [OF w(1,2)] w(4) by simp
  then have wt: "waiting E w" using w(5) by (intro idle_waiting) (simp_all add: session_def)
  show ?thesis using polls_trans [OF v(3) w(3)] v(8) w(5,6) wt
    by (intro exI [of _ w] exI [of _ "fy_mtime (cs_fs v) ino"]) simp
qed


definition demo_get :: chunksrv_req where
  "demo_get = demo_upload\<lparr>rq_op := CHO_GET, rq_nonce := 6, rq_data_len := 0\<rparr>"

lemma demo_get_ok: "req_wf demo_get" "rq_op demo_get = CHO_GET" "rq_key_len demo_get = word_of_nat (length [107 :: u8])" "signed_by demo_chenv [117] demo_get [107]"
  using demo_upload_ok by (simp_all add: demo_get_def demo_upload_def demo_put_def req_wf_def signed_by_def demo_chenv_def valid_req_hdr_def cfg_simps)


end
