(* ===== verification/Chunk_Part.thy ===== *)
theory Chunk_Part
  imports Chunk_Serve
begin

text \<open>
  Reading a part of an object (\<^verbatim>\<open>object_get_part\<close> of \<^verbatim>\<open>chunkd/object.c\<close>): the range that is read, what
  is sent, and the request that crashes the daemon.
\<close>

section \<open>The range\<close>

lemma word_small:
  assumes "a < 2 ^ 64" "b < 2 ^ 64"
  shows "(word_of_nat a :: u64) < word_of_nat b \<longleftrightarrow> a < b" "(word_of_nat a :: u64) = word_of_nat b \<longleftrightarrow> a = b"
    "(word_of_nat a :: u64) = 0 \<longleftrightarrow> a = 0" "b \<le> a \<Longrightarrow> (word_of_nat a :: u64) - word_of_nat b = word_of_nat (a - b)"
  using assms by (auto simp: word_less_nat_alt word_unat_eq_iff unat_small of_nat_diff)

lemma word_min:
  "a < 2 ^ 64 \<Longrightarrow> b < 2 ^ 64 \<Longrightarrow> (if (word_of_nat a :: u64) > word_of_nat b then word_of_nat b else word_of_nat a) = (word_of_nat (min a b) :: u64)"
  by (simp only: word_small(1)) (simp add: min_def)

text \<open>How many bytes a request for \<open>want\<close> bytes gets; 0 asks for all of the rest.\<close>

definition part_len :: "nat \<Rightarrow> nat \<Rightarrow> nat \<Rightarrow> nat" where
  "part_len off want n = min (if want = 0 \<or> want > n - off then n - off else want) (CHUNK_MAX_GETPART * CHUNK_BLK_SZ)"

text \<open>The blocks around it: from the start of the first to the end of the last or of the object.\<close>

definition part_blocks :: "nat \<Rightarrow> nat \<Rightarrow> nat \<Rightarrow> nat" where
  "part_blocks off len n =
     (let a = len + off mod CHUNK_BLK_SZ;
          a = (if a mod CHUNK_BLK_SZ \<noteq> 0 then a + (CHUNK_BLK_SZ - a mod CHUNK_BLK_SZ) else a)
      in min a (n - CHUNK_BLK_SZ * (off div CHUNK_BLK_SZ)))"

lemma part_range_nat:
  assumes "off \<le> n" "n < 2 ^ 43"
  shows "part_range (word_of_nat off) w (word_of_nat n) =
    (word_of_nat (part_len off (unat w) n), word_of_nat (CHUNK_BLK_SZ * (off div CHUNK_BLK_SZ)), word_of_nat (part_blocks off (part_len off (unat w) n) n))"
proof -
  let ?B = CHUNK_BLK_SZ and ?M = "CHUNK_MAX_GETPART * CHUNK_BLK_SZ"
  have B: "?B = 65536" "?M = 262144" by (simp_all add: CHUNK_BLK_SZ_def CHUNK_BLK_ORDER_def CHUNK_MAX_GETPART_def)
  define ofs where "ofs = ?B * (off div ?B)"
  let ?l = "part_len off (unat w) n"
  have ao: "ofs \<le> off" "off - ofs = off mod ?B" by (simp_all add: ofs_def minus_mult_div_eq_mod)
  have s: "off < 2 ^ 43" "ofs < 2 ^ 43" "n - off < 2 ^ 43" "?l \<le> 262144" "off mod ?B < 65536"
    using assms ao(1) by (auto simp: part_len_def CHUNK_MAX_GETPART_def CHUNK_BLK_SZ_def)
  define a where "a = ?l + off mod ?B"
  have sa: "a < 2 ^ 43" using s by (simp add: a_def)
  have m: "(word_of_nat off :: u64) AND NOT (word_of_nat (?B - 1)) = word_of_nat ofs" "(word_of_nat a :: u64) AND word_of_nat (?B - 1) = word_of_nat (a mod ?B)"
  proof -
    have "a mod ?B < 2 ^ 64" using B by (intro less_trans [OF mod_less_divisor]) simp_all
    then show "(word_of_nat a :: u64) AND word_of_nat (?B - 1) = word_of_nat (a mod ?B)" by (intro unat_inject) (subst tail_ok(1) [OF sa], simp add: unat_small)
    show "(word_of_nat off :: u64) AND NOT (word_of_nat (?B - 1)) = word_of_nat ofs"
      using s(2) by (intro unat_inject) (subst tail_ok(2) [OF s(1)], simp add: unat_small ofs_def [symmetric])
  qed
  let ?l1 = "if unat w = 0 \<or> unat w > n - off then n - off else unat w"
  have l1: "(if w = 0 \<or> w > word_of_nat n - word_of_nat off then word_of_nat n - word_of_nat off else w) = word_of_nat ?l1" (is "?w1 = _")
  proof -
    have r: "(word_of_nat n :: u64) - word_of_nat off = word_of_nat (n - off)" using assms by (intro word_small(4)) simp_all
    have c: "w = 0 \<longleftrightarrow> unat w = 0" "w > word_of_nat (n - off) \<longleftrightarrow> unat w > n - off"
      using s(3) by (simp_all add: word_less_nat_alt unat_small unat_eq_zero)
    show ?thesis unfolding r c by simp
  qed
  have "?l1 < 2 ^ 43" using s by simp
  then have l: "(if ?w1 > word_of_nat ?M then word_of_nat ?M else ?w1) = word_of_nat ?l"
    unfolding l1 part_len_def using B by (intro word_min) simp_all
  have x: "word_of_nat ?l + (word_of_nat off - word_of_nat ofs) = (word_of_nat a :: u64)"
    using s ao by (simp add: word_small a_def)
  have y: "(word_of_nat ?B :: u64) - word_of_nat (a mod ?B) = word_of_nat (?B - a mod ?B)" using B by (simp add: word_small)
  define b where "b = (if a mod ?B \<noteq> 0 then a + (?B - a mod ?B) else a)"
  have z: "(if (word_of_nat a :: u64) AND word_of_nat (?B - 1) \<noteq> 0 then word_of_nat a + (word_of_nat ?B - (word_of_nat a AND word_of_nat (?B - 1))) else word_of_nat a) =
      (word_of_nat b :: u64)"
  proof -
    have "a mod ?B < 2 ^ 64" using B by (intro less_trans [OF mod_less_divisor]) simp_all
    then have c: "(word_of_nat (a mod ?B) :: u64) = 0 \<longleftrightarrow> a mod ?B = 0" by (intro word_small(3)) simp_all
    show ?thesis unfolding m(2) y c b_def by (cases "a mod ?B = 0") (simp_all only: if_True if_False simp_thms of_nat_add)
  qed
  have "b \<le> a + ?B" by (simp add: b_def)
  then have "b < 2 ^ 44" using sa B by simp
  moreover have r: "(word_of_nat n :: u64) - word_of_nat ofs = word_of_nat (n - ofs)" using assms s(2) ao(1) by (intro word_small(4)) simp_all
  ultimately have e: "(if (word_of_nat b :: u64) > word_of_nat n - word_of_nat ofs then word_of_nat n - word_of_nat ofs else word_of_nat b) = (word_of_nat (min b (n - ofs)) :: u64)"
    unfolding r using assms(2) by (intro word_min) simp_all
  show ?thesis unfolding part_range_def Let_def m(1) l x z e ofs_def [symmetric] by (simp add: part_blocks_def Let_def a_def b_def ofs_def)
qed

text \<open>The blocks hold the part, lie within the object, and end on a block boundary or with the object.\<close>

lemma part_blocks_ok:
  assumes "off + len \<le> n"
  defines "a \<equiv> CHUNK_BLK_SZ * (off div CHUNK_BLK_SZ)" and "k \<equiv> part_blocks off len n"
  shows "off mod CHUNK_BLK_SZ + len \<le> k" "a + k \<le> n" "(a + k) mod CHUNK_BLK_SZ = 0 \<or> a + k = n" "a + off mod CHUNK_BLK_SZ = off"
proof -
  let ?B = "CHUNK_BLK_SZ"
  have B: "?B > 0" by (simp add: CHUNK_BLK_SZ_def)
  show o: "a + off mod ?B = off" by (simp add: a_def)
  let ?x = "len + off mod ?B"
  let ?y = "if ?x mod ?B \<noteq> 0 then ?x + (?B - ?x mod ?B) else ?x"
  have k: "k = min ?y (n - a)" by (simp add: k_def part_blocks_def Let_def a_def)
  have xy: "?x \<le> ?y" by (cases "?x mod ?B = 0") (simp_all only: if_True if_False simp_thms le_add1 order_refl)
  have y: "?y mod ?B = 0"
  proof (cases "?x mod ?B = 0")
    case False
    have "(?x + (?B - ?x mod ?B)) mod ?B = (?x mod ?B + (?B - ?x mod ?B)) mod ?B" by (simp only: mod_add_left_eq)
    also have "\<dots> = 0" by (simp only: le_add_diff_inverse less_imp_le [OF mod_less_divisor [OF B]] mod_self)
    finally show ?thesis using False by (simp only: if_True not_False_eq_True simp_thms)
  qed simp
  show "off mod ?B + len \<le> k" using xy assms(1) o by (simp add: k)
  show "a + k \<le> n" using assms(1) o by (simp add: k)
  have "?B dvd a" "?B dvd ?y" using y by (simp_all only: a_def dvd_triv_left mod_eq_0_iff_dvd)
  then have "(a + ?y) mod ?B = 0" by (simp only: mod_eq_0_iff_dvd dvd_add)
  then show "(a + k) mod ?B = 0 \<or> a + k = n" using assms(1) o unfolding k by (cases "?y \<le> n - a") (simp_all only: min_absorb1 simp_thms, simp add: min_def)
qed

lemma part_len_le: "off \<le> n \<Longrightarrow> off + part_len off w n \<le> n"
  by (auto simp: part_len_def min_def split: if_splits)

section \<open>Buffers that go out at once\<close>

definition buf_q :: "bytes list \<Rightarrow> client_write list" where
  "buf_q bs = map (\<lambda>b. wbuf b Cb_free) bs"

lemma completed_bufs:
  assumes "\<forall>b \<in> set bs. b \<noteq> []" "cl_write_q s = buf_q bs"
  shows "\<exists>k. cli_wr_completed E (length (concat bs)) mw s = Some (Inr (mw, s\<lparr>cl_write_q := [], cs_trash_sz := k\<rparr>))"
  using assms
proof (induction bs arbitrary: s)
  case Nil
  then show ?case by (intro exI [of _ "cs_trash_sz s"]) (cases s, simp add: cli_wr_completed.simps rret_def buf_q_def)
next
  case (Cons b bs)
  let ?k = "if cs_trash_sz s < CHD_TRASH_MAX then cs_trash_sz s + 1 else cs_trash_sz s"
  let ?s = "s\<lparr>cl_write_q := buf_q bs, cs_trash_sz := ?k\<rparr>"
  have "cli_wr_completed E (length (concat (b # bs))) mw s = cli_wr_completed E (length (concat bs)) mw ?s"
    using Cons.prems
    by (subst cli_wr_completed.simps) (simp add: buf_q_def wbuf_def rbind_def cli_write_free_def rmod_def rret_def)
  moreover obtain k where "cli_wr_completed E (length (concat bs)) mw ?s = Some (Inr (mw, ?s\<lparr>cl_write_q := [], cs_trash_sz := k\<rparr>))"
    using Cons.IH [of ?s] Cons.prems(1) by auto
  ultimately show ?case by (intro exI [of _ k]) (cases s, simp)
qed

lemma start_bufs:
  assumes "\<forall>b \<in> set bs. b \<noteq> []" "bs \<noteq> []" "cl_write_q s = buf_q bs" "\<not> cl_writing s" "cl_wrs s = []" "\<not> cl_ssl s"
    "length bs \<le> CLI_MAX_WR_IOV" "length (concat bs) < 2 ^ 63"
  shows "\<exists>k. cli_write_start E s = Some (Inr (True, s\<lparr>cl_write_q := [], cs_trash_sz := k, cl_sent := cl_sent s @ concat bs, cl_writing := False,
     cl_ev_write := False, cs_opt_write := cs_opt_write s + 1\<rparr>))"
proof -
  have iov: "iov_bytes (cli_wr_iov CLI_MAX_WR_IOV 0 (buf_q bs)) = concat bs"
    using iov_all [of "buf_q bs" CLI_MAX_WR_IOV 0] assms(7,8) by (simp add: buf_q_def wbuf_def comp_def)
  let ?s = "s\<lparr>cl_sent := cl_sent s @ concat bs\<rparr>"
  obtain b q where q: "buf_q bs = wbuf b Cb_free # q" using assms(2) by (cases bs) (auto simp: buf_q_def)
  have dw: "do_write E s = Some (Inr (Some (length (concat bs)), ?s))"
    using assms(3,5,6) iov q by (cases s) (simp add: do_write_def wbuf_def sock_write_def rret_def)
  obtain k where c: "cli_wr_completed E (length (concat bs)) False ?s = Some (Inr (False, ?s\<lparr>cl_write_q := [], cs_trash_sz := k\<rparr>))"
    using completed_bufs [OF assms(1), of ?s E False] assms(3) by auto
  have "cli_writable E s = Some (Inr ((), ?s\<lparr>cl_write_q := [], cs_trash_sz := k, cl_writing := False, cl_ev_write := False\<rparr>))"
    by (subst cli_writable.simps) (simp add: rbind_def dw c rret_def cli_wr_set_poll_def)
  then show ?thesis using assms(3,4) q by (intro exI [of _ k]) (cases s, simp add: cli_write_start_def rbind_def rret_def)
qed

section \<open>A part of an object\<close>

lemma src_seek:
  assumes "src_ok C d obj fs"
  shows "\<exists>fs'. fs_obj_seek obj n fs = (0, obj\<lparr>fo_in_pos := n\<rparr>, fs') \<and> src_ok C d (obj\<lparr>fo_in_pos := n\<rparr>) fs'"
proof -
  obtain key md fd ino where s: "rd_obj C key md d fd ino obj" "rd_fs obj fd ino fs" "drop (fo_value_ofs obj) (fy_files fs ino) = d"
    and n: "length d < 2 ^ 43" "quiet fs" using assms by (auto simp: src_ok_def)
  let ?fs = "fs\<lparr>fy_fds := (fy_fds fs)(fd \<mapsto> (ino, fo_value_ofs obj + n))\<rparr>"
  have "fs_obj_seek obj n fs = (0, obj\<lparr>fo_in_pos := n\<rparr>, ?fs)" using s n(2) by (simp add: fs_obj_seek_def rd_obj_def rd_fs_def sys_lseek_def)
  moreover have "src_ok C d (obj\<lparr>fo_in_pos := n\<rparr>) ?fs"
    using s n by (auto simp: src_ok_def rd_obj_def rd_fs_def quiet_def intro!: exI [of _ key] exI [of _ md] exI [of _ fd] exI [of _ ino])
  ultimately show ?thesis by blast
qed

text \<open>The response: the part's length, the digest of the blocks that were read for it, and whether it is the last part.\<close>

definition part_hdr :: "'d chenv \<Rightarrow> 'd conn \<Rightarrow> bytes \<Rightarrow> nat \<Rightarrow> u64 \<Rightarrow> bytes" where
  "part_hdr E s d off mtime =
     (let len = part_len off (unat (rq_data_len (cl_creq s))) (length d); resp = resp_init_req (cl_creq s)
      in resp_get_bytes (resp\<lparr>rs_flags := (if off + len = length d then rs_flags resp OR CHF_GET_PART_LAST else rs_flags resp),
           rs_data_len := word_of_nat len,
           rs_hash := ce_sha1 (ch_fs E) (take (part_blocks off len (length d)) (drop (CHUNK_BLK_SZ * (off div CHUNK_BLK_SZ)) d))\<rparr>) mtime)"

lemma length_part_hdr: "sha_len (ch_fs E) \<Longrightarrow> length (rq_magic (cl_creq s)) = 8 \<Longrightarrow> length (part_hdr E s d off mtime) = 56"
  by (simp add: part_hdr_def Let_def resp_get_bytes_def resp_bytes_def resp_init_req_def sha_len_def CHD_CSUM_SZ_def)

text \<open>Answering with a header and, unless the part is empty, its bytes.\<close>

lemma part_resp_ok:
  assumes "quiet (cs_fs s)" "cl_write_q s = []" "\<not> cl_writing s" "cl_wrs s = []" "\<not> cl_ssl s"
    and m: "mem = (if len = 0 then None else Some b)" "len = 0 \<longrightarrow> b = [] \<and> alen = 0" "unat ofs + unat len \<le> length b" "unat len < 2 ^ 32" "ofs = off - aofs"
    and h: "hdr = resp_get_bytes (resp\<lparr>rs_flags := (if len = sz - off then rs_flags resp OR CHF_GET_PART_LAST else rs_flags resp),
        rs_data_len := len, rs_hash := ce_sha1 (ch_fs E) b\<rparr>) mtime" "hdr \<noteq> []" "length hdr < 2 ^ 32"
  shows "\<exists>s'. part_resp E resp off sz (len, aofs, alen) mem mtime s = Some (Inr (True, s')) \<and>
    cl_sent s' = cl_sent s @ hdr @ take (unat len) (drop (unat ofs) b)"
proof -
  let ?p = "take (unat len) (drop (unat ofs) b)"
  let ?bs = "if len = 0 then [hdr] else [hdr, ?p]"
  have lp: "length ?p = unat len" using m(3) by simp
  have pn: "len \<noteq> 0 \<Longrightarrow> ?p \<noteq> []" using lp by (metis length_0_conv unat_eq_zero)
  obtain k where w: "cli_writeq hdr Cb_free s = (0, s\<lparr>cs_trash_sz := k, cl_write_q := [wbuf hdr Cb_free]\<rparr>)"
    using writeq_ok [OF assms(1) h(2,3)] assms(2) by fastforce
  define s1 where "s1 = s\<lparr>cs_trash_sz := k, cl_write_q := [wbuf hdr Cb_free]\<rparr>"
  have q1: "quiet (cs_fs s1)" using assms(1) by (simp add: s1_def)
  obtain k2 where w2: "len \<noteq> 0 \<Longrightarrow> cli_writeq ?p Cb_free s1 = (0, s1\<lparr>cs_trash_sz := k2, cl_write_q := [wbuf hdr Cb_free, wbuf ?p Cb_free]\<rparr>)"
    using writeq_ok [OF q1 pn, of Cb_free] lp m(4) by (cases "len = 0") (auto simp: s1_def)
  define s2 where "s2 = cli_in_end (if len = 0 then s1 else s1\<lparr>cs_trash_sz := k2, cl_write_q := [wbuf hdr Cb_free, wbuf ?p Cb_free]\<rparr>)"
  have b: "\<forall>b \<in> set ?bs. b \<noteq> []" "?bs \<noteq> []" "length ?bs \<le> CLI_MAX_WR_IOV" "length (concat ?bs) < 2 ^ 63"
    using h(2,3) pn lp m(4) by (simp_all add: CLI_MAX_WR_IOV_def)
  have c: "cl_write_q s2 = buf_q ?bs" "\<not> cl_writing s2" "cl_wrs s2 = []" "\<not> cl_ssl s2" "cl_sent s2 = cl_sent s"
    using assms(3-5) by (simp_all add: s2_def s1_def buf_q_def cli_in_end_def split: option.splits)
  obtain s' where st: "cli_write_start E s2 = Some (Inr (True, s'))" "cl_sent s' = cl_sent s @ concat ?bs"
    using start_bufs [OF b(1,2) c(1-4) b(3,4), of E] c(5) by auto
  have "part_resp E resp off sz (len, aofs, alen) mem mtime s = cli_write_start E s2"
    unfolding part_resp_def Let_def using m(1,2,5) w w2 h(1)
    by (cases "len = 0") (simp_all add: rbind_def rcall_def rret_def rmod_def s1_def s2_def)
  with st show ?thesis by (cases "len = 0") auto
qed

lemma part_len_zero: "off \<le> n \<Longrightarrow> part_len off w n = 0 \<longleftrightarrow> off = n"
  by (auto simp: part_len_def min_def CHUNK_MAX_GETPART_def CHUNK_BLK_SZ_def split: if_splits)

lemma part_blocks_end: "part_blocks n 0 n = n mod CHUNK_BLK_SZ"
proof -
  have "n - CHUNK_BLK_SZ * (n div CHUNK_BLK_SZ) = n mod CHUNK_BLK_SZ" by (simp add: minus_mult_div_eq_mod)
  moreover have "n mod CHUNK_BLK_SZ < CHUNK_BLK_SZ" by (simp add: CHUNK_BLK_SZ_def)
  ultimately show ?thesis by (simp add: part_blocks_def)
qed

text \<open>What the request does up to the response.\<close>

lemma get_part_run:
  assumes sha: "sha_len (ch_fs E)" and q: "quiet (cs_fs s)" and h: "has_object E md d mtime s"
    and off: "of_le_bytes (cl_getpart s) = (word_of_nat off :: u64)" "off \<le> length d"
  defines "n \<equiv> length d" and "len \<equiv> part_len off (unat (rq_data_len (cl_creq s))) (length d)"
  defines "a \<equiv> CHUNK_BLK_SZ * (off div CHUNK_BLK_SZ)" and "k \<equiv> part_blocks off len n"
  shows "\<exists>s1. object_get_part E s = part_resp E (resp_init_req (cl_creq s)) (word_of_nat off) (word_of_nat n) (word_of_nat len, word_of_nat a, word_of_nat k)
      (if len = 0 then None else Some (take k (drop a d))) mtime s1 \<and>
    quiet (cs_fs s1) \<and> (\<exists>fs obj. s1 = s\<lparr>cs_fs := fs, cl_in_obj := Some obj, cl_in_len := n\<rparr>) \<and> n < 2 ^ 43"
proof -
  obtain obj fs where o: "fs_obj_open (ch_fs E) (cl_table_id s) (cl_user s) (cli_key s) (cs_fs s) = (Inr obj, fs)" "src_ok (ch_fs E) d obj fs"
      "fo_in_pos obj = 0" "fo_size obj = word_of_nat n" "fo_hash obj = md" "fo_mtime obj = mtime"
    and n: "n < 2 ^ 43" using open_src [OF sha q h] unfolding n_def by blast
  have lo: "off \<le> n" using off(2) by (simp add: n_def)
  have r: "part_range (word_of_nat off) (rq_data_len (cl_creq s)) (word_of_nat n) = (word_of_nat len, word_of_nat a, word_of_nat k)"
    using part_range_nat [OF lo n] by (simp add: len_def a_def k_def n_def)
  have le: "off + len \<le> n" using part_len_le [OF lo] by (simp add: len_def n_def)
  note b = part_blocks_ok [OF le, folded a_def k_def]
  have sm: "len < 2 ^ 43" "a < 2 ^ 43" "k < 2 ^ 43" using le b n by linarith+
  have u: "unat (word_of_nat a :: u64) = a" "unat (word_of_nat k :: u64) = k" "unat (word_of_nat n :: u64) = n" "(word_of_nat len :: u64) = 0 \<longleftrightarrow> len = 0"
    using sm n by (simp_all add: unat_small word_small(3) [of len 0])
  have g: "\<not> (word_of_nat n :: u64) < word_of_nat off" using word_small(1) [of n off] lo n by simp
  let ?s1 = "s\<lparr>cs_fs := fs, cl_in_obj := Some obj, cl_in_len := n\<rparr>"
  have q1: "quiet fs" using o(2) by (simp add: src_ok_def)
  show ?thesis
  proof (cases "len = 0")
    case True
    have "object_get_part E s = part_resp E (resp_init_req (cl_creq s)) (word_of_nat off) (word_of_nat n) (word_of_nat len, word_of_nat a, word_of_nat k) None mtime ?s1"
      unfolding object_get_part_def with_resp_def fs_call_def Let_def
      using o q g u r True by (simp add: rbind_def rcall_def rget_def rmod_def conn_malloc_quiet off(1))
    then show ?thesis using True q1 n by (intro exI [of _ ?s1]) auto
  next
    case False
    obtain fs2 where sk: "fs_obj_seek obj a fs = (0, obj\<lparr>fo_in_pos := a\<rparr>, fs2)" "src_ok (ch_fs E) d (obj\<lparr>fo_in_pos := a\<rparr>) fs2"
      using src_seek [OF o(2)] by blast
    obtain obj3 fs3 where rd: "fs_obj_read (ch_fs E) (obj\<lparr>fo_in_pos := a\<rparr>) k fs2 = (Inr (take k (drop a d)), obj3, fs3)" "src_ok (ch_fs E) d obj3 fs3"
      using src_read [OF sha sk(2), of k] by auto
    have o3: "fo_size obj3 = word_of_nat n" "fo_mtime obj3 = mtime"
      using rd(1) o(4,6) by (auto simp: fs_obj_read_def split: option.splits prod.splits sum.splits if_splits)
    have q3: "quiet fs2" "quiet fs3" using sk(2) rd(2) by (simp_all add: src_ok_def)
    have lk: "length (take k (drop a d)) = k" using b(2) by (simp add: n_def)
    let ?s3 = "s\<lparr>cl_in_len := n, cs_fs := fs3, cl_in_obj := Some obj3\<rparr>"
    have "object_get_part E s = part_resp E (resp_init_req (cl_creq s)) (word_of_nat off) (word_of_nat n) (word_of_nat len, word_of_nat a, word_of_nat k)
        (Some (take k (drop a d))) mtime ?s3"
      unfolding object_get_part_def with_resp_def fs_call_def Let_def
      using o q g u r False sk(1) rd(1) q3 o3 lk by (simp add: rbind_def rcall_def rget_def rmod_def conn_malloc_quiet off(1))
    moreover have "?s3 = s\<lparr>cs_fs := fs3, cl_in_obj := Some obj3, cl_in_len := n\<rparr>" by (cases s) simp
    ultimately show ?thesis using False q3(2) n by (intro exI [of _ "s\<lparr>cs_fs := fs3, cl_in_obj := Some obj3, cl_in_len := n\<rparr>"]) auto
  qed
qed


text \<open>
  The exception kills the daemon. A part that starts at the very end of an object which does not end on
  a block boundary is empty, so no buffer is allocated, but the digest is still taken over the bytes of the
  last block: a null pointer is read.
\<close>

theorem part_crash:
  assumes "sha_len (ch_fs E)" "quiet (cs_fs s)" "has_object E md d mtime s"
    "of_le_bytes (cl_getpart s) = (word_of_nat (length d) :: u64)" "length d mod CHUNK_BLK_SZ \<noteq> 0"
  shows "object_get_part E s = Some (Inl F_null)"
proof -
  let ?n = "length d" and ?l = "part_len (length d) (unat (rq_data_len (cl_creq s))) (length d)"
  have l: "?l = 0" by (simp add: part_len_zero)
  obtain s1 where run: "object_get_part E s = part_resp E (resp_init_req (cl_creq s)) (word_of_nat ?n) (word_of_nat ?n)
      (word_of_nat ?l, word_of_nat (CHUNK_BLK_SZ * (?n div CHUNK_BLK_SZ)), word_of_nat (part_blocks ?n ?l ?n))
      (if ?l = 0 then None else Some (take (part_blocks ?n ?l ?n) (drop (CHUNK_BLK_SZ * (?n div CHUNK_BLK_SZ)) d))) mtime s1"
    using get_part_run [OF assms(1-4) order_refl] by blast
  have "?n mod CHUNK_BLK_SZ < 2 ^ 64" by (rule less_trans [of _ CHUNK_BLK_SZ]) (simp_all add: CHUNK_BLK_SZ_def)
  then have "(word_of_nat (part_blocks ?n ?l ?n) :: u64) \<noteq> 0"
    using assms(5) word_small(3) [of "?n mod CHUNK_BLK_SZ" 0] unfolding l part_blocks_end by simp
  then show ?thesis unfolding run l by (simp add: part_resp_def rfault_def)
qed


theorem part_crash_witness:
  "object_get_part demo_chenv ((demo_getter [])\<lparr>cl_getpart := le_bytes 8 (3 :: u64)\<rparr>) = Some (Inl F_null)"
proof -
  let ?s = "(demo_getter [])\<lparr>cl_getpart := le_bytes 8 (3 :: u64)\<rparr>"
  have E: "sha_len (ch_fs demo_chenv)" using demo_ok(1) by (simp add: demo_chenv_def)
  have r: "quiet (cs_fs ?s)" "has_object demo_chenv (replicate 20 9) [1, 2, 3] 7 ?s"
    using demo_getter_ok [of "[]"] by (simp_all add: ready_def has_object_def cli_key_def)
  show ?thesis by (rule part_crash [OF E r]) (simp_all add: CHUNK_BLK_SZ_def)
qed

end
