(* ===== verification/Chunk_Buffers.thy ===== *)
theory Chunk_Buffers
  imports Chunk_Serve
begin

text \<open>
  The fixed buffers of a connection (\<^verbatim>\<open>struct client\<close> of \<^verbatim>\<open>chunkd/chunkd.h\<close>): in every state the daemon brings
  it to, the reading states stay within the buffer they fill, with one exception: the second key of a copy
  request, whose length is not checked.
\<close>

section \<open>Well-formed connections\<close>

definition bufs :: "'d conn \<Rightarrow> _" where
  "bufs s = (cl_creq_mem s, cl_key s, cl_key2 s, cl_getpart s, cl_req_ptr s, cl_req_used s, cl_var_len s, cl_second_var s, cl_user s, cl_table s, cl_in_obj s)"

text \<open>The length of the record that is being read, and where it goes.\<close>

definition var_ok :: "'d conn \<Rightarrow> bool" where
  "var_ok s \<longleftrightarrow> cl_req_used s \<le> unat (cl_var_len s) \<and>
     (case cl_req_ptr s of
        Buf_creq \<Rightarrow> False
      | Buf_key \<Rightarrow> unat (cl_var_len s) \<le> CHD_KEY_SZ
      | Buf_getpart \<Rightarrow> unat (cl_var_len s) = GETPART_SZ
      | Buf_key2 \<Rightarrow> rq_op (cl_creq s) = CHO_CP \<and> cl_second_var s \<and> cl_var_len s = ucast (rq_data_len (cl_creq s)))"

definition conn_wf :: "'d conn \<Rightarrow> bool" where
  "conn_wf s \<longleftrightarrow> length (cl_creq_mem s) = CHUNKSRV_REQ_SZ \<and> length (cl_key s) = CHD_KEY_SZ \<and> length (cl_key2 s) = CHD_KEY_SZ \<and>
     length (cl_getpart s) = GETPART_SZ \<and> length (cl_user s) \<le> CHD_USER_SZ \<and> length (cl_table s) \<le> CHD_KEY_SZ \<and> in_ok s \<and>
     (cl_state s = evt_read_fixed \<longrightarrow> cl_req_ptr s = Buf_creq \<and> cl_req_used s \<le> CHUNKSRV_REQ_SZ) \<and>
     (cl_state s = evt_read_var \<longrightarrow> var_ok s)"

definition resting :: "client_state \<Rightarrow> bool" where
  "resting st \<longleftrightarrow> st \<noteq> evt_read_fixed \<and> st \<noteq> evt_read_var"

lemma wf_same: "conn_wf s \<Longrightarrow> bufs s' = bufs s \<Longrightarrow> cl_state s' = cl_state s \<or> resting (cl_state s') \<Longrightarrow> conn_wf s'"
  by (auto simp: conn_wf_def bufs_def in_ok_def var_ok_def cl_creq_def resting_def split: req_buf.splits)

lemma wf_obj: "conn_wf s \<Longrightarrow> fo_out_fn obj = None \<Longrightarrow> conn_wf (s\<lparr>cl_in_obj := Some obj\<rparr>)" "conn_wf s \<Longrightarrow> conn_wf (s\<lparr>cl_in_obj := None\<rparr>)"
  by (auto simp: conn_wf_def in_ok_def var_ok_def cl_creq_def split: req_buf.splits)

interpretation bw: reading conn_wf
  by unfold_locales (auto simp: wf_obj intro: wf_same simp: bufs_def resting_def, auto simp: conn_wf_def in_ok_def)

lemma wf_mod: "(\<And>s. bufs (f s) = bufs s) \<Longrightarrow> (\<And>s. cl_state (f s) = cl_state s \<or> resting (cl_state (f s))) \<Longrightarrow> rinv conn_wf (rmod f)"
  by (rule rinv_mod) (erule wf_same)

lemma wf_call: "(\<And>s x s'. f s = (x, s') \<Longrightarrow> bufs s' = bufs s \<and> cl_state s' = cl_state s) \<Longrightarrow> rinv conn_wf (rcall f)"
  by (rule rinv_call) (metis wf_same)

lemma wf_fs_call [rinv_intros]: "rinv conn_wf (fs_call f)"
  unfolding fs_call_def by (rule wf_call) (auto simp: bufs_def split: prod.splits)

lemma wf_set_state [rinv_intros]: "resting e \<Longrightarrow> rinv conn_wf (set_state e)"
  unfolding set_state_def by (rule wf_mod) (simp_all add: bufs_def)

lemma wf_objcache [rinv_intros]:
  assumes "\<And>x s. bufs (upd x s) = bufs s" "\<And>x s. cl_state (upd x s) = cl_state s"
  shows "rinv conn_wf (objcache_run f upd)"
proof (rule rinvI)
  fix s x s' assume "conn_wf s" "objcache_run f upd s = Some (Inr (x, s'))"
  then show "conn_wf s'" using wf_same [OF _ assms(1)] assms(2) by (auto simp: objcache_run_def run_simps split: outcome.splits)
qed

lemma wf_out_end [rinv_intros]: "rinv conn_wf cli_out_end"
  unfolding cli_out_end_def by (intro rinv_intros wf_mod) (simp_all add: bufs_def split: option.splits)

section \<open>Requests keep connections well formed\<close>

lemma resting_simps [simp]: "resting evt_exec_req" "resting evt_data_in" "resting evt_dispose" "resting evt_recycle" "resting evt_ssl_accept"
  by (simp_all add: resting_def)

lemma wf_object_del: "rinv conn_wf (object_del E)"
  unfolding object_del_def by (intro bw.with_resp rinv_intros)

lemma wf_put_end [rinv_intros]: "rinv conn_wf (object_put_end E)"
  unfolding object_put_end_def Let_def
  by (intro bw.with_resp rinv_intros wf_call) (auto simp: bufs_def split: prod.splits)

lemma wf_data_in_loop: "data_in_loop E p s = Some r \<Longrightarrow> conn_wf s \<Longrightarrow> r = Inr (x, s') \<Longrightarrow> conn_wf s'"
proof (induct E p s r rule: data_in_loop.raw_induct [rotated, consumes 1, case_names step])
  case (step loop E p s r)
  have w: "conn_wf (s\<lparr>cs_fs := fs, cl_out_bo := bo\<rparr>)" "conn_wf (s\<lparr>cs_fs := fs, cl_out_bo := bo, cl_out_hash := h, cl_out_len := n\<rparr>)" for fs bo h n
    using step(3) by (auto elim!: wf_same simp: bufs_def)
  show ?case using step(2-4) w step(1) [OF _ _ HOL.refl]
    by (auto simp: run_simps split: if_splits option.splits prod.splits sum.splits)
qed

lemma wf_data_in: "rinv conn_wf (cli_evt_data_in E)"
proof -
  have l: "rinv conn_wf (data_in_loop E d)" for d by (rule rinvI) (erule (1) wf_data_in_loop, rule HOL.refl)
  have r: "rinv conn_wf (rcall (sock_read n))" for n
    by (rule wf_call) (auto simp: sock_read_def bufs_def split: list.splits sum.splits if_splits)
  have p: "rinv conn_wf (rmod (\<lambda>s. cli_wr_set_poll True (s\<lparr>cl_read_want_write := True\<rparr>)))"
    by (rule wf_mod) (simp_all add: bufs_def cli_wr_set_poll_def)
  show ?thesis unfolding cli_evt_data_in_def data_in_read_def by (intro rinv_intros l r p) simp_all
qed

lemma wf_object_put: "rinv conn_wf (object_put E)"
  unfolding object_put_def Let_def
  by (intro rinv_intros wf_mod) (auto simp: bufs_def split: prod.splits)

lemma wf_object_cp: "rinv conn_wf (object_cp E)"
  unfolding object_cp_def by (intro rinv_intros wf_mod) (simp_all add: bufs_def cli_rd_set_poll_def)

lemma wf_user: "conn_wf s \<Longrightarrow> length u \<le> CHD_USER_SZ \<Longrightarrow> conn_wf (s\<lparr>cl_user := u\<rparr>)"
  by (auto simp: conn_wf_def in_ok_def var_ok_def cl_creq_def split: req_buf.splits)

lemma wf_login: "rinv conn_wf (login_user E)"
proof (rule rinvI)
  fix s x s' assume w: "conn_wf s" and m: "login_user E s = Some (Inr (x, s'))"
  let ?u = "cstr (cli_key s)"
  have i: "rinv conn_wf (rbind (set_state evt_dispose) (\<lambda>_. cli_err E c False))" "rinv conn_wf (cli_err E c True)" for c by (intro rinv_intros; simp)+
  show "conn_wf s'"
  proof (cases "cl_key_len s < 1 \<or> unat (cl_key_len s) > CHD_USER_SZ")
    case True
    with m have "rbind (set_state evt_dispose) (\<lambda>_. cli_err E che_InvalidArgument False) s = Some (Inr (x, s'))" by (simp add: login_user_def rbind_def rget_def)
    from rinvD [OF i(1) this w] show ?thesis .
  next
    case False
    have "length ?u \<le> length (cli_key s)" unfolding cstr_def by (rule length_takeWhile_le)
    then have "conn_wf (s\<lparr>cl_user := ?u\<rparr>)" using False by (intro wf_user [OF w]) (simp add: cli_key_def)
    then show ?thesis using m False rinvD [OF i(1)] rinvD [OF i(2)] by (auto simp: login_user_def Let_def rget_def rmod_def rbind_def [of "rget _"] rbind_def [of "rmod _"] split: if_splits)
  qed
qed

lemma wf_volume_open: "rinv conn_wf (volume_open E)"
proof -
  have "rinv conn_wf (rmod (\<lambda>s. if c then s\<lparr>cl_table := cli_key s\<rparr> else s))" for c
    by (rule rinv_mod) (auto simp: conn_wf_def in_ok_def var_ok_def cl_creq_def cli_key_def split: req_buf.splits)
  then show ?thesis unfolding volume_open_def by (intro rinv_intros wf_call) (auto simp: bufs_def split: prod.splits)
qed

lemma wf_chk_start: "rinv conn_wf (chk_start E)"
proof -
  have "rinv conn_wf (rcall chk_spawn)"
    by (rule wf_call) (auto simp: chk_spawn_def conn_malloc_def bufs_def split: prod.splits if_splits sum.splits)
  then show ?thesis unfolding chk_start_def Let_def
    by (intro rinv_intros wf_mod; simp add: bufs_def split: chk_state.splits; intro rinv_intros wf_mod conjI impI; simp add: bufs_def)
qed

lemma wf_start_tls: "rinv conn_wf start_tls"
  unfolding start_tls_def by (intro rinv_intros wf_mod) (simp_all add: bufs_def)

lemma wf_exec_req: "rinv conn_wf (cli_evt_exec_req E)"
proof -
  have "rinv conn_wf (run_op E op)" for op
    unfolding run_op_def
    by (intro rinv_intros wf_login bw.object_get bw.object_get_part wf_object_put wf_object_del wf_object_cp bw.volume_list wf_volume_open wf_chk_start bw.chk_status wf_start_tls)
  then show ?thesis unfolding cli_evt_exec_req_def Let_def by (intro rinv_intros wf_mod) (simp_all add: bufs_def)
qed

section \<open>Reading\<close>

lemma sock_read_len: "sock_read n s = (r, s') \<Longrightarrow> (\<forall>d. r = Inr d \<longrightarrow> length d \<le> n) \<and> bufs s' = bufs s \<and> cl_state s' = cl_state s"
  by (auto simp: sock_read_def bufs_def split: list.splits sum.splits if_splits)

lemma read_data_len: "cli_read_data n s = (r, s') \<Longrightarrow> (\<forall>d. r = Inr d \<longrightarrow> length d \<le> n) \<and> bufs s' = bufs s \<and> cl_state s' = cl_state s"
proof -
  assume m: "cli_read_data n s = (r, s')"
  have b: "bufs (s\<lparr>cl_rds := x\<rparr>) = bufs s" "bufs (cli_wr_set_poll v t) = bufs t" "bufs (t\<lparr>cl_read_want_write := w\<rparr>) = bufs t" for x v t w
    by (simp_all add: bufs_def cli_wr_set_poll_def)
  have c: "cl_state (cli_wr_set_poll v t) = cl_state t" for v t by (simp add: cli_wr_set_poll_def)
  show ?thesis using m unfolding cli_read_data_def
    by (auto simp: b c split: if_splits prod.splits sum.splits dest!: sock_read_len)
qed

text \<open>Whether \<open>n\<close> more bytes fit.\<close>

definition fits :: "nat \<Rightarrow> 'd conn \<Rightarrow> bool" where
  "fits n s \<longleftrightarrow> cl_req_used s + n \<le>
     (case cl_req_ptr s of Buf_creq \<Rightarrow> CHUNKSRV_REQ_SZ | Buf_key \<Rightarrow> CHD_KEY_SZ | Buf_key2 \<Rightarrow> CHD_KEY_SZ | Buf_getpart \<Rightarrow> GETPART_SZ)"

lemma length_put_buf: "pos + length d \<le> length b \<Longrightarrow> length (put_buf pos d b) = length b"
  by (simp add: put_buf_def)

lemma recv_fits:
  assumes "conn_wf s" "fits (length d) s"
  shows "\<exists>s'. recv d s = Some (Inr ((), s')) \<and> cl_req_used s' = cl_req_used s + length d \<and> cl_req_ptr s' = cl_req_ptr s \<and> cl_state s' = cl_state s"
  using assms by (auto simp: recv_def fits_def conn_wf_def run_simps Let_def split: req_buf.splits)

lemma recv_over: "conn_wf s \<Longrightarrow> \<not> fits (length d) s \<Longrightarrow> recv d s = Some (Inl F_overflow)"
  by (auto simp: recv_def fits_def conn_wf_def run_simps Let_def split: req_buf.splits)

lemma recv_wf:
  assumes "recv d s = Some (Inr ((), s'))" "conn_wf s"
    "cl_state s = evt_read_fixed \<Longrightarrow> cl_req_used s + length d \<le> CHUNKSRV_REQ_SZ"
    "cl_state s = evt_read_var \<Longrightarrow> cl_req_used s + length d \<le> unat (cl_var_len s)"
  shows "conn_wf s'"
proof -
  let ?b = "put_buf (cl_req_used s) d (cur_buf s)"
  have s': "s' = (set_buf ?b s)\<lparr>cl_req_used := cl_req_used s + length d\<rparr>" and l: "length ?b = length (cur_buf s)"
    using assms(1) by (auto simp: recv_eq run_simps length_put_buf split: if_splits)
  have len: "length (cl_creq_mem s') = CHUNKSRV_REQ_SZ" "length (cl_key s') = CHD_KEY_SZ" "length (cl_key2 s') = CHD_KEY_SZ" "length (cl_getpart s') = GETPART_SZ"
    using assms(2) l by (cases "cl_req_ptr s"; simp add: s' set_buf_def cur_buf_def conn_wf_def)+
  have same: "cl_req_ptr s' = cl_req_ptr s" "cl_state s' = cl_state s" "cl_var_len s' = cl_var_len s" "cl_second_var s' = cl_second_var s" "cl_user s' = cl_user s"
      "cl_table s' = cl_table s" "cl_in_obj s' = cl_in_obj s" "cl_req_used s' = cl_req_used s + length d" "cl_req_ptr s \<noteq> Buf_creq \<Longrightarrow> cl_creq_mem s' = cl_creq_mem s"
    by (cases "cl_req_ptr s"; simp add: s' set_buf_def)+
  have "var_ok s'" if st: "cl_state s = evt_read_var"
  proof -
    have v: "var_ok s" using assms(2) st by (simp add: conn_wf_def)
    then have "cl_req_ptr s \<noteq> Buf_creq" by (auto simp: var_ok_def)
    with v assms(4) [OF st] same show ?thesis by (cases "cl_req_ptr s") (simp_all add: var_ok_def cl_creq_def)
  qed
  with len same assms(2,3) show ?thesis by (simp add: conn_wf_def in_ok_def)
qed

lemma wf_read_var:
  assumes "conn_wf s" "cl_req_ptr t = p" "cl_req_used t = 0" "cl_var_len t = v"
    "p = Buf_key \<and> unat v \<le> CHD_KEY_SZ \<or> p = Buf_getpart \<and> unat v = GETPART_SZ \<or>
     p = Buf_key2 \<and> rq_op (cl_creq s) = CHO_CP \<and> cl_second_var t \<and> v = ucast (rq_data_len (cl_creq s))"
    "cl_creq_mem t = cl_creq_mem s" "cl_key t = cl_key s" "cl_key2 t = cl_key2 s" "cl_getpart t = cl_getpart s" "cl_user t = cl_user s"
    "cl_table t = cl_table s" "cl_in_obj t = cl_in_obj s" "cl_state t = evt_read_var"
  shows "conn_wf t"
proof -
  have "var_ok t" using assms(2-6) by (auto simp: var_ok_def cl_creq_def)
  with assms(1,6-) show ?thesis by (simp add: conn_wf_def in_ok_def)
qed

lemma wf_fixed_done: "conn_wf s \<Longrightarrow> fixed_done s = Some (Inr (x, s')) \<Longrightarrow> conn_wf s'"
proof -
  assume w: "conn_wf s" and m: "fixed_done s = Some (Inr (x, s'))"
  let ?l = "rq_key_len (cl_creq s)" and ?s = "s\<lparr>cl_key_len := rq_key_len (cl_creq s)\<rparr>"
  let ?t = "?s\<lparr>cl_req_ptr := Buf_key, cl_var_len := ucast ?l, cl_req_used := 0, cl_state := evt_read_var, cl_second_var := False\<rparr>"
  have "s' = (if ?l = 0 then ?s\<lparr>cl_state := evt_exec_req\<rparr> else if unat ?l > CHD_KEY_SZ then ?s\<lparr>cl_state := evt_dispose\<rparr> else ?t)"
    using m by (simp add: fixed_done_def Let_def rret_def split: if_splits)
  moreover have "conn_wf (?s\<lparr>cl_state := evt_exec_req\<rparr>)" "conn_wf (?s\<lparr>cl_state := evt_dispose\<rparr>)" by (rule wf_same [OF w], simp_all add: bufs_def)+
  moreover have "conn_wf ?t" if "\<not> unat ?l > CHD_KEY_SZ" by (rule wf_read_var [OF w, where p = Buf_key and v = "ucast (rq_key_len (cl_creq s))"]) (use that in \<open>simp_all add: unsigned_ucast_eq\<close>)
  ultimately show ?thesis by (simp split: if_splits)
qed

lemma wf_var_done: "conn_wf s \<Longrightarrow> var_done s = Some (Inr (x, s')) \<Longrightarrow> conn_wf s'"
proof -
  assume w: "conn_wf s" and m: "var_done s = Some (Inr (x, s'))"
  let ?a = "s\<lparr>cl_req_ptr := Buf_key2, cl_var_len := ucast (rq_data_len (cl_creq s)), cl_req_used := 0, cl_state := evt_read_var, cl_second_var := True\<rparr>"
  let ?b = "s\<lparr>cl_req_ptr := Buf_getpart, cl_var_len := word_of_nat GETPART_SZ, cl_req_used := 0, cl_state := evt_read_var, cl_second_var := True\<rparr>"
  have "rq_op (cl_creq s) = CHO_CP \<and> s' = ?a \<or> s' = ?b \<or> s' = s\<lparr>cl_state := evt_exec_req\<rparr>"
    using m by (auto simp: var_done_def Let_def rret_def split: if_splits)
  moreover have "conn_wf (s\<lparr>cl_state := evt_exec_req\<rparr>)" by (rule wf_same [OF w]) (simp_all add: bufs_def)
  moreover have "conn_wf ?b" by (rule wf_read_var [OF w, where p = Buf_getpart and v = "word_of_nat GETPART_SZ"]) (simp_all add: GETPART_SZ_def)
  moreover have "conn_wf ?a" if "rq_op (cl_creq s) = CHO_CP" by (rule wf_read_var [OF w, where p = Buf_key2 and v = "ucast (rq_data_len (cl_creq s))"]) (use that in simp_all)
  ultimately show ?thesis by metis
qed

lemma wf_data_read:
  assumes "conn_wf s" "cli_read_data n s = (Inr d, s1)" "recv d s1 = Some (Inr ((), s2))"
    "cl_state s = evt_read_fixed \<Longrightarrow> n + cl_req_used s \<le> CHUNKSRV_REQ_SZ"
    "cl_state s = evt_read_var \<Longrightarrow> n + cl_req_used s \<le> unat (cl_var_len s)"
  shows "conn_wf s2"
proof -
  note r = read_data_len [OF assms(2)]
  have w: "conn_wf s1" by (rule wf_same [OF assms(1)]) (use r in simp_all)
  have "cl_req_used s1 = cl_req_used s" "cl_var_len s1 = cl_var_len s" "length d \<le> n" "cl_state s1 = cl_state s" using r by (simp_all add: bufs_def)
  then show ?thesis using assms(4,5) by (intro recv_wf [OF assms(3) w]) auto
qed

lemma wf_read_fixed: "conn_wf s \<Longrightarrow> cl_state s = evt_read_fixed \<Longrightarrow> cli_evt_read_fixed E s = Some (Inr (x, s')) \<Longrightarrow> conn_wf s'"
proof -
  assume w: "conn_wf s" and st: "cl_state s = evt_read_fixed" and m: "cli_evt_read_fixed E s = Some (Inr (x, s'))"
  obtain r s1 where rd: "cli_read_data (CHUNKSRV_REQ_SZ - cl_req_used s) s = (r, s1)" by fastforce
  have w1: "conn_wf s1" by (rule wf_same [OF w]) (use read_data_len [OF rd] in simp_all)
  show ?thesis
  proof (cases r)
    case (Inl e)
    then have "s' = s1\<lparr>cl_state := evt_dispose\<rparr>" using m rd by (simp add: cli_evt_read_fixed_def run_simps set_state_def)
    then show ?thesis using w1 by (simp add: bw.upd_end)
  next
    case (Inr d)
    then obtain s2 where s2: "recv d s1 = Some (Inr ((), s2))"
      and k: "(if cl_req_used s2 < CHUNKSRV_REQ_SZ then rret False else fixed_done) s2 = Some (Inr (x, s'))"
      using m rd by (auto simp: cli_evt_read_fixed_def rget_def rcall_def elim!: rbindE)
    have u: "cl_req_used s \<le> CHUNKSRV_REQ_SZ" using w st by (simp add: conn_wf_def)
    have "conn_wf s2" by (rule wf_data_read [OF w rd [unfolded Inr] s2]) (use st u in simp_all)
    with k wf_fixed_done show ?thesis by (auto simp: rret_def split: if_splits)
  qed
qed

lemma wf_read_var': "conn_wf s \<Longrightarrow> cl_state s = evt_read_var \<Longrightarrow> cli_evt_read_var E s = Some (Inr (x, s')) \<Longrightarrow> conn_wf s'"
proof -
  assume w: "conn_wf s" and st: "cl_state s = evt_read_var" and m: "cli_evt_read_var E s = Some (Inr (x, s'))"
  obtain r s1 where rd: "cli_read_data (unat (cl_var_len s) - cl_req_used s) s = (r, s1)" by fastforce
  have w1: "conn_wf s1" by (rule wf_same [OF w]) (use read_data_len [OF rd] in simp_all)
  show ?thesis
  proof (cases r)
    case (Inl e)
    then have "s' = s1\<lparr>cl_state := evt_dispose\<rparr>" using m rd by (simp add: cli_evt_read_var_def run_simps set_state_def)
    then show ?thesis using w1 by (simp add: bw.upd_end)
  next
    case (Inr d)
    then obtain s2 where s2: "recv d s1 = Some (Inr ((), s2))"
      and k: "(if cl_req_used s2 < unat (cl_var_len s2) then rret False else var_done) s2 = Some (Inr (x, s'))"
      using m rd by (auto simp: cli_evt_read_var_def rget_def rcall_def elim!: rbindE)
    have u: "cl_req_used s \<le> unat (cl_var_len s)" using w st by (simp add: conn_wf_def var_ok_def)
    have "conn_wf s2" by (rule wf_data_read [OF w rd [unfolded Inr] s2]) (use st u in simp_all)
    with k wf_var_done show ?thesis by (auto simp: rret_def split: if_splits)
  qed
qed

lemma wf_dispose: "rinv conn_wf (cli_evt_dispose E)"
proof -
  have "rinv conn_wf (rmod (\<lambda>s. (cli_in_end s)\<lparr>cl_freed := True, cl_ev_read := False, cl_ev_write := False\<rparr>))"
    by (rule rinv_mod, drule bw.in_end, erule wf_same) (simp_all add: bufs_def)
  then have "rinv conn_wf (rbind (cli_free E) (\<lambda>_. rret False))" unfolding cli_free_def by (intro rinv_intros)
  then show ?thesis unfolding cli_evt_dispose_def rinv_def by (auto simp: rret_def split: if_splits)
qed

lemma wf_recycle: "rinv conn_wf cli_evt_recycle"
  by (rule rinvI) (auto simp: cli_evt_recycle_def run_simps conn_wf_def in_ok_def split: if_splits)

lemma wf_ssl_accept: "rinv conn_wf cli_evt_ssl_accept"
proof -
  have "rinv conn_wf (rcall ssl_accept)" by (rule wf_call) (auto simp: ssl_accept_def bufs_def split: list.splits sum.splits)
  then show ?thesis unfolding cli_evt_ssl_accept_def by (intro rinv_intros wf_mod) (simp_all add: bufs_def cli_wr_set_poll_def)
qed

lemma wf_state_func: "conn_wf s \<Longrightarrow> state_func E (cl_state s) s = Some (Inr (x, s')) \<Longrightarrow> conn_wf s'"
  by (cases "cl_state s")
    (auto simp: state_func_def intro: wf_read_fixed wf_read_var' rinvD [OF wf_exec_req] rinvD [OF wf_data_in] rinvD [OF wf_dispose]
      rinvD [OF wf_recycle] rinvD [OF wf_ssl_accept])

lemma wf_reach: "conn_reach E s t \<Longrightarrow> conn_wf s \<Longrightarrow> conn_wf t"
proof (induction rule: conn_reach.induct)
  case (cr_write t t')
  then show ?case using rinvD [OF bw.writable'] by blast
next
  case (cr_want_write t)
  then show ?case by (elim meta_mp [THEN wf_same]) (auto simp: bufs_def cli_wr_set_poll_def)
next
  case (cr_want_read t)
  then show ?case by (elim meta_mp [THEN wf_same]) (auto simp: bufs_def)
qed (auto intro: wf_state_func)

lemma wf_alloc: "conn_wf (cli_alloc srv rds wrs)"
  using alloc_idle [of srv rds wrs]
  by (cases srv) (simp add: conn_wf_def idle_def cli_alloc_def server.extend_def conn.fields_def in_ok_def)

text \<open>
  C25: buffers keep their sizes. In every state of a connection that events bring about, whatever bytes
  arrive and whatever fails, the buffers of the connection have the sizes they were declared with, the user
  and table names fit theirs, and the position and length of the record that is being read fit the buffer it
  goes to; so a read overflows a buffer only if a copy request announces a second key of more than 1024
  bytes.
\<close>

theorem buffers_safe:
  assumes "conn_reach E (cli_alloc srv rds wrs) t"
  shows "conn_wf t \<and> (cl_state t \<in> {evt_read_fixed, evt_read_var} \<and> state_func E (cl_state t) t = Some (Inl F_overflow) \<longrightarrow>
     rq_op (cl_creq t) = CHO_CP \<and> unat (ucast (rq_data_len (cl_creq t)) :: u32) > CHD_KEY_SZ)"
proof -
  have w: "conn_wf t" by (rule wf_reach [OF assms wf_alloc])
  have fixed: False if st: "cl_state t = evt_read_fixed" and m: "cli_evt_read_fixed E t = Some (Inl F_overflow)"
  proof -
    obtain r s1 where rd: "cli_read_data (CHUNKSRV_REQ_SZ - cl_req_used t) t = (r, s1)" by fastforce
    note l = read_data_len [OF rd]
    have w1: "conn_wf s1" by (rule wf_same [OF w]) (use l in simp_all)
    have p: "cl_req_ptr s1 = Buf_creq" "cl_req_used s1 = cl_req_used t" "cl_req_used t \<le> CHUNKSRV_REQ_SZ"
      using l w st by (simp_all add: bufs_def conn_wf_def)
    show False
    proof (cases r)
      case (Inr d)
      have "fits (length d) s1" using l Inr p by (auto simp: fits_def)
      with recv_fits [OF w1] obtain s2 where "recv d s1 = Some (Inr ((), s2))" by blast
      then show False using m rd Inr by (auto simp: cli_evt_read_fixed_def run_simps fixed_done_def Let_def split: if_splits)
    qed (use m rd in \<open>simp add: cli_evt_read_fixed_def run_simps set_state_def\<close>)
  qed
  have var: "rq_op (cl_creq t) = CHO_CP \<and> unat (ucast (rq_data_len (cl_creq t)) :: u32) > CHD_KEY_SZ"
    if st: "cl_state t = evt_read_var" and m: "cli_evt_read_var E t = Some (Inl F_overflow)"
  proof (rule ccontr)
    assume n: "\<not> ?thesis"
    obtain r s1 where rd: "cli_read_data (unat (cl_var_len t) - cl_req_used t) t = (r, s1)" by fastforce
    note l = read_data_len [OF rd]
    have w1: "conn_wf s1" by (rule wf_same [OF w]) (use l in simp_all)
    have v: "var_ok t" using w st by (simp add: conn_wf_def)
    have p: "cl_req_ptr s1 = cl_req_ptr t" "cl_req_used s1 = cl_req_used t" using l by (simp_all add: bufs_def)
    show False
    proof (cases r)
      case (Inr d)
      have "fits (length d) s1" using l Inr p v n by (auto simp: fits_def var_ok_def split: req_buf.splits)
      with recv_fits [OF w1] obtain s2 where "recv d s1 = Some (Inr ((), s2))" by blast
      then show False using m rd Inr by (auto simp: cli_evt_read_var_def run_simps var_done_def Let_def split: if_splits)
    qed (use m rd in \<open>simp add: cli_evt_read_var_def run_simps set_state_def\<close>)
  qed
  show ?thesis using w fixed var by (auto simp: state_func_def)
qed

section \<open>The overflow\<close>

lemma polls_fault:
  "polls E s t \<Longrightarrow> live t \<Longrightarrow> state_func E (cl_state t) t = Some (Inl f) \<Longrightarrow>
   \<exists>n. cli_events E (replicate n (True, False)) s = Some (Inl f)"
proof -
  assume a: "polls E s t" "live t" "state_func E (cl_state t) t = Some (Inl f)"
  then have "\<exists>n. cli_events E (replicate (Suc n) (True, False)) s = Some (Inl f)"
  proof (induction rule: polls.induct)
    case (polls_here s)
    then have "cli_loop E s = Some (Inl f)" by (subst cli_loop.simps) (simp add: rbind_def)
    then have "cli_events E (replicate (Suc 0) (True, False)) s = Some (Inl f)" unfolding read_events [OF polls_here.prems(1)] by (simp add: rbind_def)
    then show ?case by blast
  next
    case (polls_step s lp s1 s2)
    then obtain n where n: "cli_events E (replicate (Suc n) (True, False)) s1 = Some (Inl f)" by blast
    have l: "cli_loop E s = (if lp then cli_loop E s1 else Some (Inr ((), s1)))"
      using polls_step.hyps(2) by (subst cli_loop.simps) (simp add: run_simps)
    have live: "live s1" using polls_step.hyps(3) polls_step.prems(1) by (cases rule: polls.cases) auto
    show ?case
    proof (cases lp)
      case True
      then have "cli_events E (replicate (Suc n) (True, False)) s = Some (Inl f)"
        using n l unfolding read_events [OF polls_step.hyps(1)] read_events [OF live] by (simp add: rbind_def)
      then show ?thesis by blast
    next
      case False
      then have "cli_events E (replicate (Suc (Suc n)) (True, False)) s = Some (Inl f)"
        unfolding read_events [OF polls_step.hyps(1)] using l n by (simp add: rbind_def)
      then show ?thesis by blast
    qed
  qed
  then show ?thesis by blast
qed

lemma over_read:
  assumes "live s" "\<not> cl_ssl s" "cl_state s = evt_read_var" "cl_rds s = map Inr ps" "pieces ps" "cl_req_used s \<le> length (cur_buf s)"
    "length (cur_buf s) < cl_req_used s + length (concat ps)" "cl_req_used s + length (concat ps) \<le> unat (cl_var_len s)"
  shows "\<exists>t. polls E s t \<and> live t \<and> state_func E (cl_state t) t = Some (Inl F_overflow)"
  using assms
proof (induction ps arbitrary: s)
  case Nil
  then show ?case by simp
next
  case (Cons p ps)
  let ?n = "unat (cl_var_len s) - cl_req_used s" and ?s = "s\<lparr>cl_rds := map Inr ps\<rparr>"
  have p: "p \<noteq> []" "length p \<le> ?n" "0 < ?n" "pieces ps" using Cons.prems(5,6,7,8) by (auto simp: pieces_def)
  have rd: "cli_read_data ?n s = (Inr p, ?s)" using read_data_piece [OF Cons.prems(2,4) p(1,3)] p(2) by simp
  have cb: "cur_buf ?s = cur_buf s" by (simp add: cur_buf_def split: req_buf.split)
  show ?case
  proof (cases "cl_req_used s + length p > length (cur_buf s)")
    case True
    then have "recv p ?s = Some (Inl F_overflow)" by (simp add: recv_eq cb rfault_def)
    then have "state_func E (cl_state s) s = Some (Inl F_overflow)"
      using Cons.prems(3) rd by (simp add: state_func_def cli_evt_read_var_def rbind_def rget_def rcall_def)
    then show ?thesis using Cons.prems(1) polls_here by blast
  next
    case False
    define t where "t = (set_buf (put_buf (cl_req_used s) p (cur_buf s)) ?s)\<lparr>cl_req_used := cl_req_used s + length p\<rparr>"
    have rv: "recv p ?s = Some (Inr ((), t))" using False by (simp add: recv_eq cb t_def rret_def)
    have t: "live t" "\<not> cl_ssl t" "cl_state t = evt_read_var" "cl_rds t = map Inr ps" "cl_req_used t = cl_req_used s + length p" "cl_var_len t = cl_var_len s"
        "length (cur_buf t) = length (cur_buf s)"
      using Cons.prems(1-3) False by (auto simp: t_def live_def set_buf_def cur_buf_def length_put_buf split: req_buf.splits)
    have "length (concat (p # ps)) = length p + length (concat ps)" by simp
    then have "cl_req_used t < unat (cl_var_len t)" unfolding t(5,6) using False Cons.prems(7,8) by linarith
    then have "state_func E (cl_state s) s = Some (Inr (False, t))"
      using Cons.prems(3) rd rv by (simp add: state_func_def cli_evt_read_var_def rbind_def rget_def rcall_def rret_def)
    then have "polls E s t" by (rule polls_one [OF Cons.prems(1)])
    moreover have "\<exists>u. polls E t u \<and> live u \<and> state_func E (cl_state u) u = Some (Inl F_overflow)"
      by (rule Cons.IH [OF t(1-4) p(4)]) (use t(5-7) False Cons.prems(7,8) in simp_all)
    ultimately show ?thesis using polls_trans by blast
  qed
qed

text \<open>
  Anyone can overflow the buffer of the second key. A copy request that announces a source key of more
  than 1024 bytes and sends more than 1024 of them makes the daemon write behind \<^verbatim>\<open>key2\<close>: nobody has to be
  logged in, and no signature is looked at before.
\<close>

theorem copy_overflow:
  assumes "idle s" "req_wf r" "rq_op r = CHO_CP" "length key = unat (rq_key_len r)" "key \<noteq> []" "length key \<le> CHD_KEY_SZ"
    "CHD_KEY_SZ < length x" "length x \<le> unat (ucast (rq_data_len r) :: u32)"
    "cl_rds s = map Inr ps" "pieces ps" "concat ps = req_bytes r @ key @ x"
  shows "\<exists>n. cli_events E (replicate n (True, False)) s = Some (Inl F_overflow)"
proof -
  obtain qs where q: "pieces qs" "concat qs = x"
    and p1: "\<And>lp t. var_done (s\<lparr>cl_creq_mem := req_bytes r, cl_key_len := rq_key_len r, cl_req_ptr := Buf_key, cl_var_len := ucast (rq_key_len r),
        cl_state := evt_read_var, cl_second_var := False, cl_key := key @ drop (length key) (cl_key s), cl_req_used := length key,
        cl_rds := map Inr qs\<rparr>) = Some (Inr (lp, t)) \<Longrightarrow> polls E s t"
    using read_hdr_key [OF assms(1,2,4-6,9-11)] by blast
  note i = assms(1) [unfolded idle_def]
  define t where "t = s\<lparr>cl_creq_mem := req_bytes r, cl_key_len := rq_key_len r, cl_key := key @ drop (length key) (cl_key s), cl_rds := map Inr qs,
      cl_req_ptr := Buf_key2, cl_var_len := ucast (rq_data_len r), cl_second_var := True, cl_req_used := 0, cl_state := evt_read_var\<rparr>"
  have "polls E s t" unfolding t_def
    by (rule p1 [of True]) (use assms(3) in \<open>cases s, simp add: var_done_def Let_def cl_creq_def req_of_bytes [OF assms(2)] rret_def\<close>)
  moreover have "\<exists>u. polls E t u \<and> live u \<and> state_func E (cl_state u) u = Some (Inl F_overflow)"
    by (rule over_read [of _ qs]) (use i q assms(7,8) in \<open>simp_all add: t_def live_def cur_buf_def\<close>)
  ultimately show ?thesis using polls_fault polls_trans by blast
qed

definition demo_copy :: chunksrv_req where
  "demo_copy = demo_put\<lparr>rq_op := CHO_CP, rq_data_len := 2000\<rparr>"

theorem copy_overflow_witness:
  "\<exists>n. cli_events demo_chenv (replicate n (True, False)) (cli_alloc demo_srv (map Inr [req_bytes demo_copy @ [107], replicate 1500 7]) []) = Some (Inl F_overflow)"
proof -
  have w: "req_wf demo_copy" "rq_op demo_copy = CHO_CP" using demo_put_ok(1) by (simp_all add: demo_copy_def req_wf_def)
  have k: "length [107 :: u8] = unat (rq_key_len demo_copy)" "[107 :: u8] \<noteq> []" "length [107 :: u8] \<le> CHD_KEY_SZ"
    "CHD_KEY_SZ < length (replicate 1500 (7 :: u8))" "length (replicate 1500 (7 :: u8)) \<le> unat (ucast (rq_data_len demo_copy) :: u32)"
    by (simp_all add: demo_copy_def demo_put_def CHD_KEY_SZ_def)
  have p: "pieces [req_bytes demo_copy @ [107], replicate 1500 7]" by (simp add: pieces_def)
  have c: "concat [req_bytes demo_copy @ [107], replicate 1500 7] = req_bytes demo_copy @ [107] @ replicate 1500 7" by simp
  from copy_overflow [OF alloc_idle w k alloc_simps(1) p c] show ?thesis .
qed

theorem buffers_safe_witness: "conn_reach demo_chenv (cli_alloc demo_srv [] []) (cli_alloc demo_srv [] []) \<and> conn_wf (cli_alloc demo_srv [] [])"
  using buffers_safe [OF cr_start] cr_start by blast

end
