(* ===== verification/Chunk_Check.thy ===== *)
theory Chunk_Check
  imports Chunk_Reply
begin

text \<open>
  The self-check thread of the chunk daemon (\<^verbatim>\<open>chunkd/selfcheck.c\<close>): it reads every object of every table,
  compares the SHA-1 of the data with the one in the header, and moves objects that differ out of the way.
  Tokyo Cabinet's iterator over the tables is the parameter \<open>keys\<close>, \<^verbatim>\<open>time(NULL)\<close> the parameter \<open>now\<close>.
\<close>

section \<open>The thread\<close>

record 'd checker = "'d server" +
  ck_stat_ok :: nat
  ck_stat_conflict :: nat

text \<open>The object cache as the thread uses it; \<^verbatim>\<open>objcache_get\<close> crashes when there is no memory.\<close>

definition chk_cache :: "(objcache \<Rightarrow> 'a outcome) \<Rightarrow> ('a \<Rightarrow> 'd checker \<Rightarrow> 'd checker) \<Rightarrow> ('d checker, 'a) run" where
  "chk_cache f upd s =
     (case f (cs_actives s) of
        Done x \<Rightarrow> rret x (upd x s)
      | Null_deref \<Rightarrow> rfault F_null s
      | Use_after_free \<Rightarrow> rfault F_free s
      | Aborted \<Rightarrow> rfault F_abort s)"

definition chk_fs :: "(fsys \<Rightarrow> 'a \<times> fsys) \<Rightarrow> ('d checker, 'a) run" where
  "chk_fs f = rcall (\<lambda>s. case f (cs_fs s) of (x, fs) \<Rightarrow> (x, s\<lparr>cs_fs := fs\<rparr>))"

text \<open>The body of the loop, once the header has been read.\<close>

definition chk_object :: "cenv \<Rightarrow> bytes \<Rightarrow> obj_info \<Rightarrow> ('d checker, unit) run" where
  "chk_object C fn ve =
     rbind (chk_fs fs_malloc) (\<lambda>ok.
     rbind (chk_cache (\<lambda>c. objcache_get ok c (oi_key ve)) (\<lambda>(cep, c) s. s\<lparr>cs_actives := c\<rparr>)) (\<lambda>(cep, _).
     rbind (chk_fs (fs_obj_do_sum C fn (length (oi_key ve)) (oi_csumlen ve))) (\<lambda>r.
     rbind (case r of
              Inl e \<Rightarrow> rret ()
            | Inr md_act \<Rightarrow>
                rbind (chk_cache (\<lambda>c. objcache_test_dirty c cep) (\<lambda>_ s. s)) (\<lambda>dirty.
                if dirty then rmod (\<lambda>s. s\<lparr>ck_stat_conflict := ck_stat_conflict s + 1\<rparr>)
                else if memcmp (oi_hash ve) md_act \<noteq> 0 then rbind (chk_fs (fs_obj_disable C fn)) (\<lambda>_. rret ())
                else rmod (\<lambda>s. s\<lparr>ck_stat_ok := ck_stat_ok s + 1\<rparr>))) (\<lambda>_.
     rbind (chk_cache (\<lambda>c. objcache_put c cep) (\<lambda>c s. s\<lparr>cs_actives := c\<rparr>)) (\<lambda>_.
     rret ())))))"

partial_function (option) chk_loop :: "readdir \<Rightarrow> cenv \<Rightarrow> fs_obj_lister \<Rightarrow> 'd checker \<Rightarrow> (fault + unit \<times> 'd checker) option" where
  "chk_loop rd C t s =
     (case fs_list_objs_next rd t (cs_fs s) of
        ((rc, fn), t, fs) \<Rightarrow>
          if \<not> rc > 0 then rret () (s\<lparr>cs_fs := fs\<rparr>)
          else
            (case fs_obj_hdr_read fn fs of
               (None, fs) \<Rightarrow> rret () (s\<lparr>cs_fs := fs\<rparr>)
             | (Some ve, fs) \<Rightarrow> rbind (chk_object C fn ve) (\<lambda>_. chk_loop rd C t) (s\<lparr>cs_fs := fs\<rparr>)))"

definition chk_list_objs :: "readdir \<Rightarrow> cenv \<Rightarrow> u32 \<Rightarrow> ('d checker, unit) run" where
  "chk_list_objs rd C table_id =
     rbind (chk_fs (fs_list_objs_open rd C table_id)) (\<lambda>r.
     case r of Inl e \<Rightarrow> rret () | Inr lister \<Rightarrow> chk_loop rd C lister)"

text \<open>The keys that \<^verbatim>\<open>tchdbiternext\<close> yields are C strings for the comparison with the counter's name.\<close>

fun chk_dbscan :: "'d chenv \<Rightarrow> bytes list \<Rightarrow> ('d checker, unit) run" where
  "chk_dbscan E [] = rret ()"
| "chk_dbscan E (kbuf # keys) =
     rbind (if strcmp (cstr kbuf) MDB_TABLE_ID = 0 then rret ()
            else
              rbind (rcall (\<lambda>s. case tc_get (ch_db E) kbuf (cs_tbl s) of (v, d) \<Rightarrow> (v, s\<lparr>cs_tbl := d\<rparr>))) (\<lambda>v.
              case v of
                None \<Rightarrow> rret ()
              | Some val \<Rightarrow> if length val \<noteq> 4 then rret () else chk_list_objs (ch_rd E) (ch_fs E) (of_le_bytes val))) (\<lambda>_.
     chk_dbscan E keys)"

definition chk_thread_scan :: "'d chenv \<Rightarrow> bytes list \<Rightarrow> u64 \<Rightarrow> ('d checker, unit) run" where
  "chk_thread_scan E keys now =
     rbind (rmod (\<lambda>s. s\<lparr>cs_chk_state := CHK_ST_RUNNING, ck_stat_ok := 0, ck_stat_conflict := 0\<rparr>)) (\<lambda>_.
     rbind (chk_dbscan E keys) (\<lambda>_.
     rmod (\<lambda>s. s\<lparr>cs_chk_done := now\<rparr>)))"

text \<open>
  Reading a command from the pipe: the result says whether the thread goes on. \<open>rd_err\<close> is a failed \<^verbatim>\<open>read\<close>, an empty
  pipe one whose other end is closed. Only the two commands of \<open>chk_cmd\<close> are ever written.
\<close>

definition chk_thread_command :: "'d chenv \<Rightarrow> bytes list \<Rightarrow> u64 \<Rightarrow> bool \<Rightarrow> ('d checker, bool) run" where
  "chk_thread_command E keys now rd_err s =
     (if rd_err then rret True s
      else
        case cs_chk_pipe s of
          [] \<Rightarrow> rret False s
        | cmd # p \<Rightarrow>
            (let s = s\<lparr>cs_chk_pipe := p\<rparr> in
             case cmd of
               CHK_CMD_EXIT \<Rightarrow> rret False s
             | CHK_CMD_RESCAN \<Rightarrow> rbind (chk_thread_scan E keys now) (\<lambda>_. rret True) s))"

text \<open>One round of the thread's loop, once \<^verbatim>\<open>poll\<close> has returned; \<open>poll_rc\<close> is its result.\<close>

definition chk_thread_func :: "'d chenv \<Rightarrow> bytes list \<Rightarrow> u64 \<Rightarrow> int \<Rightarrow> bool \<Rightarrow> ('d checker, bool) run" where
  "chk_thread_func E keys now poll_rc rd_err =
     rbind (rmod (\<lambda>s. s\<lparr>cs_chk_state := CHK_ST_IDLE\<rparr>)) (\<lambda>_.
     if poll_rc < 0 then rret False
     else if poll_rc = 0 then rret True
     else chk_thread_command E keys now rd_err)"

section \<open>Checking one object\<close>

lemma sum_quiet:
  assumes "quiet fs" "fy_fds fs fd = Some (ino, p)"
  shows "\<exists>fs'. sum_loop fd h fs = (Inr (h @ drop p (fy_files fs ino)), fs') \<and> quiet fs' \<and> same_disk fs fs'"
  using assms
proof (induction "length (fy_files fs ino) - p" arbitrary: fs p h rule: less_induct)
  case less
  let ?d = "take SUM_BUFLEN (drop p (fy_files fs ino))"
  let ?fs = "fs\<lparr>fy_fds := (fy_fds fs)(fd \<mapsto> (ino, p + length ?d))\<rparr>"
  have r: "sys_read fd SUM_BUFLEN fs = (Inr ?d, ?fs)" using less(2,3) by (simp add: sys_read_def Let_def)
  have sd: "same_disk fs ?fs" by (simp add: same_disk_def disk_def)
  show ?case
  proof (cases "length ?d < SUM_BUFLEN")
    case True
    then have "?d = drop p (fy_files fs ino)" by simp
    then show ?thesis using r True less(2) sd by (subst sum_loop.simps) simp
  next
    case False
    then have pos: "length (fy_files fs ino) - (p + length ?d) < length (fy_files fs ino) - p" by (simp add: SUM_BUFLEN_def)
    have "\<exists>fs'. sum_loop fd (h @ ?d) ?fs = (Inr ((h @ ?d) @ drop (p + length ?d) (fy_files ?fs ino)), fs') \<and> quiet fs' \<and> same_disk ?fs fs'"
      by (rule less(1)) (use pos less(2) in simp_all)
    then obtain fs' where ih: "sum_loop fd (h @ ?d) ?fs = (Inr ((h @ ?d) @ drop (p + length ?d) (fy_files fs ino)), fs')"
        "quiet fs'" "same_disk ?fs fs'" by auto
    have "?d @ drop (p + length ?d) (fy_files fs ino) = drop p (fy_files fs ino)"
      using False by (simp add: drop_drop [symmetric] add.commute del: drop_drop)
    then have "(h @ ?d) @ drop (p + length ?d) (fy_files fs ino) = h @ drop p (fy_files fs ino)" by (simp only: append_assoc)
    moreover have "sum_loop fd h fs = sum_loop fd (h @ ?d) ?fs" using False by (subst sum_loop.simps) (simp add: r Let_def)
    ultimately show ?thesis using ih same_disk_trans [OF sd ih(3)] by simp
  qed
qed

lemma do_sum_quiet:
  assumes q: "quiet fs" and nm: "fy_names fs fn = Some ino"
  shows "\<exists>fs'. fs_obj_do_sum C fn klen csumlen fs = (Inr (ce_sha1 C (drop (BE_FS_HDR_SZ + klen + csumlen) (fy_files fs ino))), fs') \<and>
    quiet fs' \<and> same_disk fs fs'"
proof -
  let ?fd = "fy_next fs" and ?n = "BE_FS_HDR_SZ + klen + csumlen"
  let ?fs1 = "fs\<lparr>fy_fds := (fy_fds fs)(?fd \<mapsto> (ino, 0)), fy_next := Suc ?fd\<rparr>"
  let ?fs2 = "?fs1\<lparr>fy_fds := (fy_fds ?fs1)(?fd \<mapsto> (ino, ?n))\<rparr>"
  have o: "sys_open fn fs = (Inr ?fd, ?fs1)" using q nm by (simp add: sys_open_def new_fd_def)
  have l: "sys_lseek ?fd ?n ?fs1 = (Inr ?n, ?fs2)" using q by (simp add: sys_lseek_def)
  have "\<exists>fs'. sum_loop ?fd [] ?fs2 = (Inr ([] @ drop ?n (fy_files ?fs2 ino)), fs') \<and> quiet fs' \<and> same_disk ?fs2 fs'"
    by (rule sum_quiet) (use q in simp_all)
  then obtain fs' where s: "sum_loop ?fd [] ?fs2 = (Inr (drop ?n (fy_files fs ino)), fs')" "quiet fs'" "same_disk ?fs2 fs'" by auto
  have "same_disk fs (snd (sys_close ?fd fs'))" "quiet (snd (sys_close ?fd fs'))"
    using s(2,3) by (simp_all add: sys_close_def same_disk_def disk_def)
  then show ?thesis using q s(1) unfolding fs_obj_do_sum_def by (simp add: o l del: fun_upd_upd)
qed

text \<open>Whether some writer marks the key, as the thread sees it.\<close>

definition key_dirty :: "objcache \<Rightarrow> bytes \<Rightarrow> bool" where
  "key_dirty c key = (case oc_table c (objcache_hash key) of None \<Rightarrow> False | Some p \<Rightarrow> oc_dirty c p)"

text \<open>Taking an entry and putting it back leaves the cache as it was.\<close>

lemma cache_visit:
  assumes inv: "oc_inv c held"
  shows "\<exists>p c' c''. objcache_get True c key = Done (p, c') \<and> objcache_test_dirty c' p = Done (key_dirty c key) \<and>
    objcache_put c' p = Done c'' \<and> oc_table c'' = oc_table c \<and> oc_heap c'' = oc_heap c \<and> oc_inv c'' held"
proof -
  have put: "\<exists>c''. objcache_put c' p = Done c'' \<and> oc_inv c'' held" if "objcache_get True c key = Done (p, c')" for p c'
    by (rule oc_inv_put) (rule oc_inv_get [OF inv that [unfolded objcache_get_def]])
  show ?thesis
  proof (cases "oc_table c (objcache_hash key)")
    case None
    have fresh: "oc_heap c (oc_next c) = None" using oc_inv_next [OF inv] by simp
    note g = objcache_get_miss [OF None, of 0, folded objcache_get_def]
    have "(oc_heap c)(oc_next c := None) = oc_heap c" "(oc_table c)(objcache_hash key := None) = oc_table c"
      using fresh None by (auto simp: fun_eq_iff)
    then show ?thesis using put [OF g] g None
      by (auto simp: objcache_test_dirty_def key_dirty_def objcache_put_def has_flag_def OC_F_DIRTY_def)
  next
    case (Some p)
    from objcache_get_hit [OF inv Some, of True 0] obtain e where e: "oc_heap c p = Some e"
      and g: "objcache_get True c key = Done (p, c\<lparr>oc_heap := (oc_heap c)(p \<mapsto> e\<lparr>oe_ref := oe_ref e + 1, oe_flags := oe_flags e OR 0\<rparr>)\<rparr>)"
      by (auto simp: objcache_get_def)
    have "oe_ref e \<noteq> 0" "oe_ref e + 1 \<noteq> 0" using oc_inv_entry [OF inv e] by auto
    moreover have "(oc_heap c)(p \<mapsto> e) = oc_heap c" using e by auto
    ultimately show ?thesis using put [OF g] g e Some
      by (auto simp: objcache_test_dirty_def key_dirty_def oc_dirty_def objcache_put_def Let_def)
  qed
qed

text \<open>The name a bad object gets.\<close>

definition bad_name :: "cenv \<Rightarrow> nat \<Rightarrow> bytes" where
  "bad_name C ino = ce_vol C @ ascii ''/bad'' @ ascii ''/'' @ fmt_base 10 ino"

lemma disable_quiet:
  assumes q: "quiet fs" and nm: "fy_names fs fn = Some ino" "fn \<notin> set (fy_dirs fs)" "fy_names fs (ce_vol C @ ascii ''/bad'') = None"
  shows "\<exists>fs'. fs_obj_disable C fn fs = (0, fs') \<and> quiet fs' \<and> fy_files fs' = fy_files fs \<and>
    fy_names fs' = ((fy_names fs)(fn := None))(bad_name C ino \<mapsto> ino)"
proof -
  have s: "sys_stat fn fs = (Inr (False, ino), fs)" using q nm by (simp add: sys_stat_def)
  have "\<exists>ds. fs_obj_badname C ino fs = (Some (bad_name C ino), fs\<lparr>fy_dirs := ds\<rparr>)"
  proof (cases "ce_vol C @ ascii ''/bad'' \<in> set (fy_dirs fs)")
    case True
    have "fs = fs\<lparr>fy_dirs := fy_dirs fs\<rparr>" by simp
    with True q show ?thesis unfolding fs_obj_badname_def by (auto simp: Let_def sys_stat_def bad_name_def intro!: exI [of _ "fy_dirs fs"])
  next
    case False
    with q nm(3) show ?thesis unfolding fs_obj_badname_def
      by (auto simp: Let_def sys_stat_def sys_mkdir_def bad_name_def intro!: exI [of _ "(ce_vol C @ ascii ''/bad'') # fy_dirs fs"])
  qed
  then obtain ds where b: "fs_obj_badname C ino fs = (Some (bad_name C ino), fs\<lparr>fy_dirs := ds\<rparr>)" by blast
  show ?thesis using q nm(1) unfolding fs_obj_disable_def by (simp add: s b sys_rename_def)
qed

text \<open>What a check of one object does to the state.\<close>

definition chk_outcome :: "cenv \<Rightarrow> bytes \<Rightarrow> nat \<Rightarrow> obj_info \<Rightarrow> 'd checker \<Rightarrow> 'd checker \<Rightarrow> bool" where
  "chk_outcome C fn ino ve s s' \<longleftrightarrow>
     (let fs = cs_fs s; fs' = cs_fs s';
          bad = ce_sha1 C (drop (BE_FS_HDR_SZ + length (oi_key ve) + oi_csumlen ve) (fy_files fs ino)) \<noteq> oi_hash ve
      in if key_dirty (cs_actives s) (oi_key ve)
         then same_disk fs fs' \<and> ck_stat_conflict s' = ck_stat_conflict s + 1 \<and> ck_stat_ok s' = ck_stat_ok s
         else if bad
         then fy_files fs' = fy_files fs \<and> fy_names fs' = ((fy_names fs)(fn := None))(bad_name C ino \<mapsto> ino) \<and>
              ck_stat_conflict s' = ck_stat_conflict s \<and> ck_stat_ok s' = ck_stat_ok s
         else same_disk fs fs' \<and> ck_stat_conflict s' = ck_stat_conflict s \<and> ck_stat_ok s' = ck_stat_ok s + 1)"

lemma chk_object_ok:
  assumes sha: "sha_len C" and q: "quiet (cs_fs s)" and inv: "oc_inv (cs_actives s) held"
    and nm: "fy_names (cs_fs s) fn = Some ino" and h: "length (oi_hash ve) = CHD_CSUM_SZ"
    and bad: "ce_sha1 C (drop (BE_FS_HDR_SZ + length (oi_key ve) + oi_csumlen ve) (fy_files (cs_fs s) ino)) \<noteq> oi_hash ve \<Longrightarrow>
      fn \<notin> set (fy_dirs (cs_fs s)) \<and> fy_names (cs_fs s) (ce_vol C @ ascii ''/bad'') = None"
  shows "\<exists>s'. chk_object C fn ve s = Some (Inr ((), s')) \<and> chk_outcome C fn ino ve s s' \<and> quiet (cs_fs s') \<and>
    oc_inv (cs_actives s') held \<and> oc_table (cs_actives s') = oc_table (cs_actives s) \<and> oc_heap (cs_actives s') = oc_heap (cs_actives s)"
proof -
  obtain p c' c'' where c: "objcache_get True (cs_actives s) (oi_key ve) = Done (p, c')"
      "objcache_test_dirty c' p = Done (key_dirty (cs_actives s) (oi_key ve))" "objcache_put c' p = Done c''"
      "oc_table c'' = oc_table (cs_actives s)" "oc_heap c'' = oc_heap (cs_actives s)" "oc_inv c'' held"
    using cache_visit [OF inv] by blast
  let ?md = "ce_sha1 C (drop (BE_FS_HDR_SZ + length (oi_key ve) + oi_csumlen ve) (fy_files (cs_fs s) ino))"
  obtain fs' where d: "fs_obj_do_sum C fn (length (oi_key ve)) (oi_csumlen ve) (cs_fs s) = (Inr ?md, fs')" "quiet fs'" "same_disk (cs_fs s) fs'"
    using do_sum_quiet [OF q nm] by blast
  have m: "memcmp (oi_hash ve) ?md = 0 \<longleftrightarrow> ?md = oi_hash ve" using sha h by (auto simp: sha_len_def)
  note defs = chk_object_def chk_fs_def chk_cache_def run_simps chk_outcome_def Let_def
  consider (dirty) "key_dirty (cs_actives s) (oi_key ve)" | (ok) "\<not> key_dirty (cs_actives s) (oi_key ve)" "?md = oi_hash ve"
    | (bad) "\<not> key_dirty (cs_actives s) (oi_key ve)" "?md \<noteq> oi_hash ve" by blast
  then show ?thesis
  proof cases
    case dirty
    then show ?thesis using q c d by (simp add: defs)
  next
    case ok
    then show ?thesis using q c d by (simp add: defs)
  next
    case bad
    have "fy_names fs' = fy_names (cs_fs s)" "fy_dirs fs' = fy_dirs (cs_fs s)" "fy_files fs' = fy_files (cs_fs s)"
      using d(3) by (simp_all add: same_disk_def disk_def)
    then have "\<exists>fs2. fs_obj_disable C fn fs' = (0, fs2) \<and> quiet fs2 \<and> fy_files fs2 = fy_files (cs_fs s) \<and>
        fy_names fs2 = ((fy_names (cs_fs s))(fn := None))(bad_name C ino \<mapsto> ino)"
      using disable_quiet [OF d(2), of fn ino C] nm assms(6) [OF bad(2)] by simp
    then obtain fs2 where "fs_obj_disable C fn fs' = (0, fs2)" "quiet fs2" "fy_files fs2 = fy_files (cs_fs s)"
        "fy_names fs2 = ((fy_names (cs_fs s))(fn := None))(bad_name C ino \<mapsto> ino)" by blast
    then show ?thesis using q c d bad m by (simp add: defs)
  qed
qed

text \<open>
  C27: a check of one object is exact. When no call fails, the thread leaves the disk alone and counts a conflict if
  some writer has marked the key; otherwise it counts the object as good if the SHA-1 of its data is the one in the
  header, and moves exactly this file to its name below \<^verbatim>\<open>bad/\<close> if it is not, with the contents of all files unchanged. The
  object cache is left as it was.
\<close>

theorem check_exact:
  assumes "sha_len C" "quiet (cs_fs s)" "oc_inv (cs_actives s) held" "fy_names (cs_fs s) fn = Some ino" "length (oi_hash ve) = CHD_CSUM_SZ"
    "fn \<notin> set (fy_dirs (cs_fs s))" "fy_names (cs_fs s) (ce_vol C @ ascii ''/bad'') = None"
  shows "\<exists>s'. chk_object C fn ve s = Some (Inr ((), s')) \<and> chk_outcome C fn ino ve s s' \<and>
    oc_inv (cs_actives s') held \<and> oc_table (cs_actives s') = oc_table (cs_actives s) \<and> oc_heap (cs_actives s') = oc_heap (cs_actives s)"
  using chk_object_ok [OF assms(1-5)] assms(6,7) by blast

section \<open>Scanning a table\<close>

lemma healthy_object:
  assumes sha: "sha_len C" and q: "quiet (cs_fs s)" and inv: "oc_inv (cs_actives s) held"
    and ob: "obj_at C (cs_fs s) fn (user, key, md, d)" and md: "md = ce_sha1 C d"
  shows "\<exists>s'. chk_object C fn (info_of (cs_fs s) fn (user, key, md, d)) s = Some (Inr ((), s')) \<and> same_disk (cs_fs s) (cs_fs s') \<and>
    quiet (cs_fs s') \<and> oc_inv (cs_actives s') held \<and> oc_table (cs_actives s') = oc_table (cs_actives s) \<and>
    oc_heap (cs_actives s') = oc_heap (cs_actives s) \<and>
    ck_stat_conflict s' = ck_stat_conflict s + (if key_dirty (cs_actives s) key then 1 else 0) \<and>
    ck_stat_ok s' = ck_stat_ok s + (if key_dirty (cs_actives s) key then 0 else 1)"
proof -
  let ?ve = "info_of (cs_fs s) fn (user, key, md, d)"
  obtain ino where nm: "fy_names (cs_fs s) fn = Some ino" and fl: "fy_files (cs_fs s) ino = object_file C user key md d"
    and l: "length md = CHD_CSUM_SZ" using ob by (auto simp: obj_at_def)
  have "ce_sha1 C (drop (BE_FS_HDR_SZ + length (oi_key ?ve) + oi_csumlen ?ve) (fy_files (cs_fs s) ino)) = oi_hash ?ve"
    using content_parts(3) [OF sha l, of key d user] md by (simp add: info_of_def fl val_ofs_def)
  moreover have "oi_key ?ve = key" "length (oi_hash ?ve) = CHD_CSUM_SZ" using l by (simp_all add: info_of_def)
  ultimately show ?thesis using chk_object_ok [OF sha q inv nm, of ?ve]
    unfolding chk_outcome_def Let_def by (auto split: if_splits)
qed

lemma key_dirty_cong: "oc_table c' = oc_table c \<Longrightarrow> oc_heap c' = oc_heap c \<Longrightarrow> key_dirty c' = key_dirty c"
  by (rule ext) (simp add: key_dirty_def oc_dirty_def objcache_test_dirty_def split: option.split)

text \<open>The objects of a table whose data agree with their header, and the number of those some writer works on.\<close>

definition healthy :: "cenv \<Rightarrow> fsys \<Rightarrow> (bytes \<Rightarrow> bytes \<times> bytes \<times> bytes \<times> bytes) \<Rightarrow> bytes \<Rightarrow> bool" where
  "healthy C fs ob fn \<longleftrightarrow> obj_at C fs fn (ob fn) \<and> (case ob fn of (user, key, md, d) \<Rightarrow> md = ce_sha1 C d)"

definition busy :: "objcache \<Rightarrow> (bytes \<Rightarrow> bytes \<times> bytes \<times> bytes \<times> bytes) \<Rightarrow> bytes list \<Rightarrow> nat" where
  "busy c ob fns = length (filter (\<lambda>fn. key_dirty c (fst (snd (ob fn)))) fns)"

definition chk_kept :: "'d checker \<Rightarrow> 'd checker \<Rightarrow> nat multiset \<Rightarrow> bool" where
  "chk_kept s s' held \<longleftrightarrow> same_disk (cs_fs s) (cs_fs s') \<and> quiet (cs_fs s') \<and> oc_inv (cs_actives s') held \<and>
     oc_table (cs_actives s') = oc_table (cs_actives s) \<and> oc_heap (cs_actives s') = oc_heap (cs_actives s)"

lemma healthy_frame: "same_disk fs fs' \<Longrightarrow> healthy C fs' ob fn = healthy C fs ob fn"
  by (simp add: healthy_def same_disk_obj)

lemma healthy_step:
  assumes sha: "sha_len C" and q: "quiet (cs_fs s)" and inv: "oc_inv (cs_actives s) held" and ob: "healthy C (cs_fs s) ob fn"
  shows "\<exists>ve fs s'. fs_obj_hdr_read fn (cs_fs s) = (Some ve, fs) \<and> chk_object C fn ve (s\<lparr>cs_fs := fs\<rparr>) = Some (Inr ((), s')) \<and>
    chk_kept s s' held \<and> ck_stat_conflict s' = ck_stat_conflict s + busy (cs_actives s) ob [fn] \<and>
    ck_stat_ok s' + busy (cs_actives s) ob [fn] = ck_stat_ok s + 1"
proof -
  obtain user key md d where o: "ob fn = (user, key, md, d)" by (cases "ob fn") auto
  then have at: "obj_at C (cs_fs s) fn (user, key, md, d)" and md: "md = ce_sha1 C d" using ob by (auto simp: healthy_def)
  obtain fs where h: "fs_obj_hdr_read fn (cs_fs s) = (Some (info_of (cs_fs s) fn (user, key, md, d)), fs)" "quiet fs" "same_disk (cs_fs s) fs"
    using hdr_read_quiet [OF sha q at] by blast
  have at2: "obj_at C fs fn (user, key, md, d)" and i: "info_of (cs_fs s) fn (user, key, md, d) = info_of fs fn (user, key, md, d)"
    using same_disk_obj [OF h(3)] at by simp_all
  obtain s' where "chk_object C fn (info_of fs fn (user, key, md, d)) (s\<lparr>cs_fs := fs\<rparr>) = Some (Inr ((), s'))" "same_disk fs (cs_fs s')"
      "quiet (cs_fs s')" "oc_inv (cs_actives s') held" "oc_table (cs_actives s') = oc_table (cs_actives s)"
      "oc_heap (cs_actives s') = oc_heap (cs_actives s)"
      "ck_stat_conflict s' = ck_stat_conflict s + (if key_dirty (cs_actives s) key then 1 else 0)"
      "ck_stat_ok s' = ck_stat_ok s + (if key_dirty (cs_actives s) key then 0 else 1)"
    using healthy_object [of C "s\<lparr>cs_fs := fs\<rparr>" held fn user key md d, OF sha _ _ _ md] h(2) inv at2 by auto
  then show ?thesis using h(1) same_disk_trans [OF h(3)] unfolding chk_kept_def i by (auto simp: busy_def o)
qed

lemma chk_loop_healthy:
  assumes sha: "sha_len C" and st: "rd_stable rd"
    and "quiet (cs_fs s)" "oc_inv (cs_actives s) held" "ls_sub t = None \<longrightarrow> ls_d t = None"
      "\<And>fn. fn \<in> set (names_left rd t (cs_fs s)) \<Longrightarrow> healthy C (cs_fs s) ob fn"
  shows "\<exists>s'. chk_loop rd C t s = Some (Inr ((), s')) \<and> chk_kept s s' held \<and>
    ck_stat_conflict s' = ck_stat_conflict s + busy (cs_actives s) ob (names_left rd t (cs_fs s)) \<and>
    ck_stat_ok s' + busy (cs_actives s) ob (names_left rd t (cs_fs s)) = ck_stat_ok s + length (names_left rd t (cs_fs s))"
  using assms(3-)
proof (induction t arbitrary: s rule: wf_induct_rule [OF lister_order_wf])
  case (1 t)
  note unf = chk_loop.simps [of rd C t s]
  obtain t' where t': "ls_sub t' = None \<longrightarrow> ls_d t' = None"
    and nx: "case names_left rd t (cs_fs s) of [] \<Rightarrow> fs_list_objs_next rd t (cs_fs s) = ((0, []), t', cs_fs s)
      | fn # fns \<Rightarrow> fs_list_objs_next rd t (cs_fs s) = ((1, fn), t', cs_fs s) \<and> names_left rd t' (cs_fs s) = fns"
    using next_quiet [OF 1(2,4), of rd] by (elim exE conjE) (rule that)
  show ?case
  proof (cases "names_left rd t (cs_fs s)")
    case Nil
    with nx 1(2,3) show ?thesis by (simp add: unf rret_def chk_kept_def busy_def same_disk_def)
  next
    case (Cons fn fns)
    then have n: "fs_list_objs_next rd t (cs_fs s) = ((1, fn), t', cs_fs s)" and left: "names_left rd t' (cs_fs s) = fns" using nx by simp_all
    have lt: "(t', t) \<in> lister_order" by (rule next_decreases [OF n]) simp
    have "healthy C (cs_fs s) ob fn" using 1(5) Cons by simp
    from healthy_step [OF sha 1(2,3) this] obtain ve fs s1 where
        h: "fs_obj_hdr_read fn (cs_fs s) = (Some ve, fs)" "chk_object C fn ve (s\<lparr>cs_fs := fs\<rparr>) = Some (Inr ((), s1))"
      and k: "chk_kept s s1 held" and n1: "ck_stat_conflict s1 = ck_stat_conflict s + busy (cs_actives s) ob [fn]"
        "ck_stat_ok s1 + busy (cs_actives s) ob [fn] = ck_stat_ok s + 1" by blast
    have sd: "same_disk (cs_fs s) (cs_fs s1)" and q1: "quiet (cs_fs s1)" "oc_inv (cs_actives s1) held" using k by (simp_all add: chk_kept_def)
    have nl: "names_left rd t' (cs_fs s1) = fns" using left names_left_stable [OF st sd] by simp
    have bs: "busy (cs_actives s1) = busy (cs_actives s)" using k key_dirty_cong [of "cs_actives s1" "cs_actives s"] by (intro ext) (simp add: busy_def chk_kept_def)
    have he: "healthy C (cs_fs s1) ob f" if "f \<in> set (names_left rd t' (cs_fs s1))" for f
      using that 1(5) [of f] Cons healthy_frame [OF sd] by (simp add: nl)
    from 1(1) [OF lt q1 t' he, unfolded nl bs] obtain s' where ih: "chk_loop rd C t' s1 = Some (Inr ((), s'))" "chk_kept s1 s' held"
        "ck_stat_conflict s' = ck_stat_conflict s1 + busy (cs_actives s) ob fns"
        "ck_stat_ok s' + busy (cs_actives s) ob fns = ck_stat_ok s1 + length fns" by blast
    have b: "busy (cs_actives s) ob (fn # fns) = busy (cs_actives s) ob [fn] + busy (cs_actives s) ob fns" by (simp add: busy_def)
    have "chk_loop rd C t s = Some (Inr ((), s'))" using h ih(1) by (simp add: unf n rbind_def)
    moreover have "chk_kept s s' held" using k ih(2) same_disk_trans by (auto simp: chk_kept_def)
    ultimately show ?thesis using n1 ih(3,4) unfolding Cons b by auto
  qed
qed

text \<open>
  C28: a scan of a healthy table returns and harms nothing. When no call fails and the data of every file of the table
  agree with its header, \<^verbatim>\<open>chk_list_objs\<close> returns, no name, directory or file has changed, the object cache is as it was,
  and the counters say how many objects were good and how many were being written.
\<close>

theorem scan_healthy:
  assumes "sha_len C" "rd_stable rd" "quiet (cs_fs s)" "oc_inv (cs_actives s) held"
    "\<And>fn. fn \<in> set (table_names rd C t (cs_fs s)) \<Longrightarrow> healthy C (cs_fs s) ob fn"
  shows "\<exists>s'. chk_list_objs rd C t s = Some (Inr ((), s')) \<and> chk_kept s s' held \<and>
    ck_stat_conflict s' = ck_stat_conflict s + busy (cs_actives s) ob (table_names rd C t (cs_fs s)) \<and>
    ck_stat_ok s' + busy (cs_actives s) ob (table_names rd C t (cs_fs s)) = ck_stat_ok s + length (table_names rd C t (cs_fs s))"
proof (cases "rd (table_path C t) (cs_fs s)")
  case (Inl e)
  then show ?thesis using assms(3,4)
    by (simp add: chk_list_objs_def chk_fs_def run_simps fs_list_objs_open_def table_names_def chk_kept_def same_disk_def busy_def)
next
  case (Inr root)
  define t0 where "t0 = \<lparr>ls_root = root, ls_table_path = table_path C t, ls_d = None, ls_sub = None\<rparr>"
  have nl: "names_left rd t0 (cs_fs s) = table_names rd C t (cs_fs s)" using Inr by (simp add: names_left_def table_names_def t0_def)
  have "chk_list_objs rd C t s = chk_loop rd C t0 s"
    using assms(3) Inr by (simp add: chk_list_objs_def chk_fs_def run_simps fs_list_objs_open_def t0_def)
  then show ?thesis
    using chk_loop_healthy [OF assms(1-4), of t0 ob] assms(5) nl by (simp add: t0_def)
qed

section \<open>Objects the thread can lose\<close>

text \<open>
  The header is read before the thread looks at the object cache, so the two may belong to different objects. If a
  client deletes the object and stores other data under the same key between the two, and has finished before the sum is
  taken, nothing is marked any more, and the thread moves the new, healthy object away: its key is gone.
\<close>

theorem stale_header_disables:
  assumes "sha_len C" "quiet (cs_fs s)" "oc_inv (cs_actives s) held" "\<not> key_dirty (cs_actives s) key"
    and old: "quiet fs0" "stored C t user' key (ce_sha1 C d') d' ino' fs0" "fs_obj_hdr_read (obj_path C t key) fs0 = (Some ve, fs1)"
    and new: "stored C t user key (ce_sha1 C d) d ino (cs_fs s)" and n: "n_blks (length d') = n_blks (length d)"
    and sum: "ce_sha1 C d' \<noteq> ce_sha1 C d"
    and dirs: "obj_path C t key \<notin> set (fy_dirs (cs_fs s))" "fy_names (cs_fs s) (ce_vol C @ ascii ''/bad'') = None"
      "obj_path C t key \<noteq> bad_name C ino"
  shows "\<exists>s'. chk_object C (obj_path C t key) ve s = Some (Inr ((), s')) \<and> fy_names (cs_fs s') (obj_path C t key) = None"
proof -
  have "obj_at C fs0 (obj_path C t key) (user', key, ce_sha1 C d', d')" using old(2) by (simp add: stored_def obj_at_def)
  from hdr_read_quiet [OF assms(1) old(1) this] old(3)
  have ve: "oi_key ve = key" "oi_hash ve = ce_sha1 C d'" "oi_csumlen ve = n_blks (length d') * CHD_CSUM_SZ" by (auto simp: info_of_def)
  have nm: "fy_names (cs_fs s) (obj_path C t key) = Some ino" and fl: "fy_files (cs_fs s) ino = object_file C user key (ce_sha1 C d) d"
    and l: "length (ce_sha1 C d) = CHD_CSUM_SZ" using new by (simp_all add: stored_def)
  have "length (oi_hash ve) = CHD_CSUM_SZ" using assms(1) ve(2) by (simp add: sha_len_def)
  from chk_object_ok [OF assms(1-3) nm this] dirs
  obtain s' where "chk_object C (obj_path C t key) ve s = Some (Inr ((), s'))" "chk_outcome C (obj_path C t key) ino ve s s'" by blast
  moreover have "drop (BE_FS_HDR_SZ + length (oi_key ve) + oi_csumlen ve) (fy_files (cs_fs s) ino) = d"
    using content_parts(3) [OF assms(1) l, of key d user] by (simp add: fl ve n val_ofs_def)
  ultimately show ?thesis using assms(4) sum dirs(3) ve(1,2) unfolding chk_outcome_def Let_def by auto
qed

section \<open>Examples\<close>

text \<open>A volume with one object, and the thread's view of it when nobody writes.\<close>

definition demo_one :: "bytes \<Rightarrow> bytes \<Rightarrow> fsys" where
  "demo_one md d = demo_fs\<lparr>fy_names := [obj_path demo_env 1 [107] \<mapsto> 0], fy_files := (\<lambda>_. object_file demo_env [117] [107] md d)\<rparr>"

definition demo_chk :: "fsys \<Rightarrow> unit checker" where
  "demo_chk fs = \<lparr>cs_fs = fs, cs_tbl = (), cs_actives = \<lparr>oc_table = Map.empty, oc_heap = Map.empty, oc_next = 0\<rparr>, cs_trash_sz = 0, cs_opt_write = 0,
     cs_chk_state = CHK_ST_IDLE, cs_chk_done = 0, cs_chk_pipe = [], ck_stat_ok = 0, ck_stat_conflict = 0\<rparr>"

lemma demo_path: "length (obj_path demo_env 1 [107]) = 72"
  by (simp add: obj_path_def obj_dir_def hexstr_def length_concat comp_def demo_env_def table_path_def fmt_base.simps ascii_def
      sum_list_replicate PREFIX_LEN_def)

lemma demo_bad: "length (bad_name demo_env 0) = 10"
  by (simp add: bad_name_def demo_env_def fmt_base.simps ascii_def)

lemma demo_chk_ok:
  "oc_inv (cs_actives (demo_chk fs)) {#}" "cs_fs (demo_chk fs) = fs" "\<not> key_dirty (cs_actives (demo_chk fs)) key" "ck_stat_ok (demo_chk fs) = 0"
  "ck_stat_conflict (demo_chk fs) = 0" "quiet (demo_one md d)" "fy_dirs (demo_one md d) = []"
  "fy_names (demo_one md d) (ce_vol demo_env @ ascii ''/bad'') = None" "fy_names (demo_one md d) (obj_path demo_env 1 [107]) = Some 0"
  "length md = 20 \<Longrightarrow> length d < 2 ^ 43 \<Longrightarrow> stored demo_env 1 [117] [107] md d 0 (demo_one md d)"
  "obj_path demo_env 1 [107] \<noteq> bad_name demo_env 0"
proof -
  have "length (ce_vol demo_env @ ascii ''/bad'') \<noteq> length (obj_path demo_env 1 [107])" unfolding demo_path by (simp add: demo_env_def ascii_def)
  then have "ce_vol demo_env @ ascii ''/bad'' \<noteq> obj_path demo_env 1 [107]" by (rule contrapos_nn) (rule arg_cong)
  then show "fy_names (demo_one md d) (ce_vol demo_env @ ascii ''/bad'') = None" by (simp add: demo_one_def demo_fs_def)
  show "obj_path demo_env 1 [107] \<noteq> bad_name demo_env 0" using demo_path demo_bad by auto
qed (use demo_ok in \<open>simp_all add: demo_chk_def oc_inv_def key_dirty_def demo_one_def stored_def CHD_CSUM_SZ_def demo_fs_def quiet_def\<close>)

theorem check_exact_witness:
  "\<exists>s'. chk_object demo_env (obj_path demo_env 1 [107]) (info_of demo_fs [] ([117], [107], replicate 20 9, [1, 2, 3]))
      (demo_chk (demo_one (replicate 20 9) [1, 2, 3])) = Some (Inr ((), s')) \<and>
    fy_names (cs_fs s') (bad_name demo_env 0) = Some 0 \<and> fy_names (cs_fs s') (obj_path demo_env 1 [107]) = None"
proof -
  let ?fs = "demo_one (replicate 20 9) [1, 2, 3]" and ?ve = "info_of demo_fs [] ([117], [107], replicate 20 9, [1, 2, 3])"
  have l: "length (oi_hash ?ve) = CHD_CSUM_SZ" by (simp add: info_of_def CHD_CSUM_SZ_def)
  have "drop (BE_FS_HDR_SZ + length (oi_key ?ve) + oi_csumlen ?ve) (fy_files ?fs 0) = [1, 2, 3]"
    using content_parts(3) [OF demo_ok(1), of "replicate 20 9" "[107]" "[1, 2, 3]" "[117]"]
    by (simp add: CHD_CSUM_SZ_def demo_one_def info_of_def val_ofs_def)
  moreover have "hd (ce_sha1 demo_env [1, 2, 3]) \<noteq> hd (oi_hash ?ve)" by (simp add: demo_env_def info_of_def)
  then have "ce_sha1 demo_env [1, 2, 3] \<noteq> oi_hash ?ve" by auto
  ultimately show ?thesis
    using check_exact [of demo_env "demo_chk ?fs" "{#}" "obj_path demo_env 1 [107]" 0 ?ve, OF demo_ok(1) _ _ _ l] demo_chk_ok(11)
    by (auto simp: demo_chk_ok chk_outcome_def Let_def)
qed

theorem scan_healthy_witness:
  "\<exists>s'. chk_list_objs demo_rd (demo_env\<lparr>ce_sha1 := \<lambda>_. replicate 20 9\<rparr>) 1 (demo_chk (demo_files\<lparr>fy_files :=
      (\<lambda>i. object_file (demo_env\<lparr>ce_sha1 := \<lambda>_. replicate 20 9\<rparr>) [117] [107] (replicate 20 9) [1, 2])\<rparr>)) = Some (Inr ((), s')) \<and> ck_stat_ok s' = 2"
proof -
  let ?C = "demo_env\<lparr>ce_sha1 := \<lambda>_. replicate 20 9\<rparr>"
  let ?fs = "demo_files\<lparr>fy_files := (\<lambda>i. object_file ?C [117] [107] (replicate 20 9) [1, 2])\<rparr>"
  let ?ob = "\<lambda>_. ([117], [107], replicate 20 9, [1, 2]) :: bytes \<times> bytes \<times> bytes \<times> bytes"
  have n: "table_names demo_rd ?C 1 ?fs = [ascii ''/vol/1/abc/f'', ascii ''/vol/1/abc/g'']"
    by (simp add: table_names_def root_names_def sub_names_def table_path_def fmt_base.simps demo_env_def demo_rd_def dotfile_def ascii_def PREFIX_LEN_def)
  have sha: "sha_len ?C" by (simp add: sha_len_def CHD_CSUM_SZ_def)
  have st: "rd_stable demo_rd" by (simp add: rd_stable_def demo_rd_def)
  have q: "quiet (cs_fs (demo_chk ?fs))" by (simp add: demo_chk_ok demo_files_def demo_ok)
  have he: "healthy ?C (cs_fs (demo_chk ?fs)) ?ob fn" if "fn \<in> set (table_names demo_rd ?C 1 (cs_fs (demo_chk ?fs)))" for fn
    using that [unfolded demo_chk_ok n] demo_ok(3) by (auto simp: healthy_def obj_at_def demo_chk_ok demo_files_def demo_fs_def CHD_CSUM_SZ_def ascii_def)
  have "busy (cs_actives (demo_chk ?fs)) ?ob fns = 0" for fns by (simp add: busy_def demo_chk_ok)
  then show ?thesis using scan_healthy [where ob = ?ob and t = 1, OF sha st q demo_chk_ok(1) he] by (auto simp: demo_chk_ok n)
qed

text \<open>The object had the data \<open>[7]\<close> when its header was read, and has \<open>[8]\<close> now.\<close>

theorem stale_header_disables_witness:
  "\<exists>ve fs1 s'. fs_obj_hdr_read (obj_path demo_env 1 [107]) (demo_one (ce_sha1 demo_env [7]) [7]) = (Some ve, fs1) \<and>
    chk_object demo_env (obj_path demo_env 1 [107]) ve (demo_chk (demo_one (ce_sha1 demo_env [8]) [8])) = Some (Inr ((), s')) \<and>
    fy_names (cs_fs s') (obj_path demo_env 1 [107]) = None"
proof -
  have l: "length (ce_sha1 demo_env b) = 20" for b using demo_ok(1) by (simp add: sha_len_def CHD_CSUM_SZ_def)
  have st: "stored demo_env 1 [117] [107] (ce_sha1 demo_env [x]) [x] 0 (demo_one (ce_sha1 demo_env [x]) [x])" for x
    by (rule demo_chk_ok(10)) (simp_all add: l)
  have "obj_at demo_env (demo_one (ce_sha1 demo_env [7]) [7]) (obj_path demo_env 1 [107]) ([117], [107], ce_sha1 demo_env [7], [7])"
    using st [of 7] by (simp add: stored_def obj_at_def)
  from hdr_read_quiet [OF demo_ok(1) demo_chk_ok(6) this] obtain ve fs1 where
    h: "fs_obj_hdr_read (obj_path demo_env 1 [107]) (demo_one (ce_sha1 demo_env [7]) [7]) = (Some ve, fs1)" by blast
  have "hd (ce_sha1 demo_env [7]) \<noteq> hd (ce_sha1 demo_env [8])" by (simp add: demo_env_def)
  then have ne: "ce_sha1 demo_env [7] \<noteq> ce_sha1 demo_env [8]" by auto
  show ?thesis
    using stale_header_disables [of demo_env "demo_chk (demo_one (ce_sha1 demo_env [8]) [8])" "{#}" "[107]", OF demo_ok(1) _ _ _ demo_chk_ok(6) st h _ _ ne]
      st [of 8] h by (simp add: demo_chk_ok)
qed

end
