(* ===== verification/Chunk_Client.thy ===== *)
theory Chunk_Client
  imports Chunk_Req
begin

text \<open>
  The client library of the chunk daemon (\<^verbatim>\<open>lib/chunkdc.c\<close>). A call sends a signed request and waits for the
  answer. What the other end of the socket sends is a function of what it has received so far, \<open>st_peer\<close>; system calls
  fail or transfer part of the data as a script says. Through SSL the same bytes are sent and received. HMAC is the
  parameter \<open>hmac\<close>, XML reading comes from \<^verbatim>\<open>libxml2\<close> and is the parameter \<open>X\<close>, \<^verbatim>\<open>rand\<close> the sequence \<open>st_rand\<close>.
\<close>

section \<open>State\<close>

definition STC_REQ_BUF_SZ :: nat where [cfg_simps]: "STC_REQ_BUF_SZ = 1120"   \<comment> \<open>request, key and \<^verbatim>\<open>struct chunksrv_req_getpart\<close>\<close>
definition NETBUF_SZ :: nat where [cfg_simps]: "NETBUF_SZ = 4096"

record stc =
  st_user :: bytes
  st_key :: bytes
  st_ssl :: bool
  st_closes :: nat              \<comment> \<open>how often the descriptor has been closed\<close>
  st_req_buf :: bytes
  st_peer :: "bytes \<Rightarrow> bytes"
  st_sent :: bytes
  st_rcvd :: nat
  st_script :: "(int + nat) list"
  st_rand :: "nat \<Rightarrow> u32"
  st_calls :: nat
  st_mem :: mem

definition stc_outcome :: "stc \<Rightarrow> (int + nat option) \<times> stc" where
  "stc_outcome s =
     (case st_script s of
        [] \<Rightarrow> (Inr None, s)
      | Inl e # sc \<Rightarrow> (Inl e, s\<lparr>st_script := sc\<rparr>)
      | Inr n # sc \<Rightarrow> (Inr (Some n), s\<lparr>st_script := sc\<rparr>))"

definition stc_malloc :: "stc \<Rightarrow> bool \<times> stc" where
  "stc_malloc s = (case alloc (st_mem s) of (ok, m) \<Rightarrow> (ok, s\<lparr>st_mem := m\<rparr>))"

definition stc_incoming :: "stc \<Rightarrow> bytes" where
  "stc_incoming s = drop (st_rcvd s) (st_peer s (st_sent s))"

text \<open>\<^verbatim>\<open>read\<close>, \<^verbatim>\<open>write\<close> and \<^verbatim>\<open>FIONREAD\<close>; no bytes are the end of the stream.\<close>

definition stc_recv :: "nat \<Rightarrow> stc \<Rightarrow> (int + bytes) \<times> stc" where
  "stc_recv len s =
     (case stc_outcome s of
        (Inl e, s) \<Rightarrow> (Inl e, s)
      | (Inr lim, s) \<Rightarrow> (let d = take (limit lim len) (stc_incoming s) in (Inr d, s\<lparr>st_rcvd := st_rcvd s + length d\<rparr>)))"

definition stc_send :: "bytes \<Rightarrow> stc \<Rightarrow> (int + nat) \<times> stc" where
  "stc_send d s =
     (case stc_outcome s of
        (Inl e, s) \<Rightarrow> (Inl e, s)
      | (Inr lim, s) \<Rightarrow> (let n = limit lim (length d) in (Inr n, s\<lparr>st_sent := st_sent s @ take n d\<rparr>)))"

definition stc_avail :: "stc \<Rightarrow> (int + nat) \<times> stc" where
  "stc_avail s =
     (case stc_outcome s of
        (Inl e, s) \<Rightarrow> (Inl e, s)
      | (Inr lim, s) \<Rightarrow> (Inr (limit lim (length (stc_incoming s))), s))"

section \<open>Requests in the buffer\<close>

definition stc_key_valid :: "bytes \<Rightarrow> bool" where
  "stc_key_valid key \<longleftrightarrow> \<not> (length key < 1 \<or> length key > CHD_KEY_SZ)"

definition next_rand :: "stc \<Rightarrow> u32 \<times> stc" where
  "next_rand s = (st_rand s (st_calls s), s\<lparr>st_calls := Suc (st_calls s)\<rparr>)"

definition req_zero :: "u32 \<Rightarrow> chunksrv_req" where
  "req_zero nonce = \<lparr>rq_magic = CHUNKD_MAGIC, rq_op = 0, rq_flags = 0, rq_key_len = 0, rq_nonce = nonce, rq_data_len = 0,
     rq_sig = replicate CHD_SIG_SZ 0\<rparr>"

definition req_init :: "u32 \<Rightarrow> bytes \<Rightarrow> bytes" where
  "req_init nonce buf = req_bytes (req_zero nonce) @ drop CHUNKSRV_REQ_SZ buf"

definition req_upd :: "(chunksrv_req \<Rightarrow> chunksrv_req) \<Rightarrow> bytes \<Rightarrow> bytes" where
  "req_upd f buf = req_bytes (f (req_of buf)) @ drop CHUNKSRV_REQ_SZ buf"

text \<open>The length of the key is passed in 16 bits. \<open>None\<close>: the copy runs past the end of the buffer.\<close>

definition req_set_key :: "bytes \<Rightarrow> bytes \<Rightarrow> bytes option" where
  "req_set_key key buf =
     (let key_len = word_of_nat (length key) :: u16; buf = req_upd (\<lambda>r. r\<lparr>rq_key_len := key_len\<rparr>) buf in
      if CHUNKSRV_REQ_SZ + unat key_len > length buf then None
      else Some (put_buf CHUNKSRV_REQ_SZ (take (unat key_len) key) buf))"

text \<open>The signature and its terminating NUL go to the offset of \<^verbatim>\<open>sig\<close>.\<close>

definition req_sign :: "(bytes \<Rightarrow> bytes \<Rightarrow> bytes) \<Rightarrow> bytes \<Rightarrow> bytes \<Rightarrow> bytes" where
  "req_sign hmac secret buf = put_buf 24 (chreq_sign hmac (req_of buf) buf secret @ [0]) buf"

definition req_wire :: "bytes \<Rightarrow> bytes" where
  "req_wire buf = take (req_len (req_of buf)) buf"

section \<open>Reading and writing\<close>

text \<open>The loops over \<^verbatim>\<open>SSL_read\<close> and \<^verbatim>\<open>read\<close> have the same shape. \<open>None\<close>: an error or the end of the stream.\<close>

function net_read_loop :: "nat \<Rightarrow> bytes \<Rightarrow> stc \<Rightarrow> bytes option \<times> stc" where
  "net_read_loop datalen data s =
     (if datalen = 0 then (Some data, s)
      else
        case stc_recv datalen s of
          (Inl e, s) \<Rightarrow> (None, s)
        | (Inr d, s) \<Rightarrow> if d = [] then (None, s) else net_read_loop (datalen - length d) (data @ d) s)"
  by pat_completeness auto
termination by (relation "measure (\<lambda>(n, _, _). n)") auto

declare net_read_loop.simps [simp del]

definition net_read :: "nat \<Rightarrow> stc \<Rightarrow> bytes option \<times> stc" where
  "net_read datalen s = net_read_loop datalen [] s"

text \<open>A write of no bytes is tried again.\<close>

function net_write :: "bytes \<Rightarrow> stc \<Rightarrow> bool \<times> stc" where
  "net_write data s =
     (if data = [] then (True, s)
      else
        case stc_send data s of
          (Inl e, s) \<Rightarrow> (False, s)
        | (Inr n, s) \<Rightarrow> net_write (drop n data) s)"
  by pat_completeness auto
termination
  by (relation "measure (\<lambda>(d, s). length d + length (st_script s))")
    (auto simp: stc_send_def stc_outcome_def Let_def limit_def neq_Nil_conv split: list.splits sum.splits)

declare net_write.simps [simp del]

definition resp_valid :: "chunksrv_resp \<Rightarrow> bool" where
  "resp_valid resp \<longleftrightarrow> memcmp (rs_magic resp) CHUNKD_MAGIC = 0"

definition RESP_SZ :: nat where [cfg_simps]: "RESP_SZ = 48"   \<comment> \<open>\<^verbatim>\<open>sizeof(struct chunksrv_resp)\<close>\<close>

definition resp_read :: "stc \<Rightarrow> chunksrv_resp option \<times> stc" where
  "resp_read s =
     (case net_read RESP_SZ s of
        (None, s) \<Rightarrow> (None, s)
      | (Some b, s) \<Rightarrow> (if resp_valid (resp_of b) then Some (resp_of b) else None, s))"

text \<open>
  What every call begins with: a fresh request with its fields set by \<open>f\<close>, the key if there is one, \<open>extra\<close> bytes
  after it, the signature, and the transmission.
\<close>

definition stc_submit :: "(bytes \<Rightarrow> bytes \<Rightarrow> bytes) \<Rightarrow> (chunksrv_req \<Rightarrow> chunksrv_req) \<Rightarrow> bytes option \<Rightarrow> bytes \<Rightarrow> (stc, bool) run" where
  "stc_submit hmac f key extra =
     rbind (rcall next_rand) (\<lambda>nonce.
     rbind (rget (\<lambda>s. s)) (\<lambda>s.
     let buf = req_upd f (req_init nonce (st_req_buf s)) in
     case (case key of None \<Rightarrow> Some buf | Some k \<Rightarrow> map_option (put_buf (CHUNKSRV_REQ_SZ + length k) extra) (req_set_key k buf)) of
       None \<Rightarrow> rfault F_overflow
     | Some buf \<Rightarrow>
         let buf = req_sign hmac (st_key s) buf in
         rbind (rmod (\<lambda>s. s\<lparr>st_req_buf := buf\<rparr>)) (\<lambda>_. rcall (net_write (req_wire buf)))))"

text \<open>Reading the answer when only its code matters.\<close>

definition stc_reply :: "(stc, bool) run" where
  "stc_reply =
     rbind (rcall resp_read) (\<lambda>r.
     case r of None \<Rightarrow> rret False | Some resp \<Rightarrow> rret (rs_resp_code resp = errcode_num che_Success))"

definition and_then :: "(stc, bool) run \<Rightarrow> (stc, bool) run \<Rightarrow> (stc, bool) run" where
  "and_then a b = rbind a (\<lambda>ok. if ok then b else rret False)"

section \<open>Connecting\<close>

definition stc_login :: "(bytes \<Rightarrow> bytes \<Rightarrow> bytes) \<Rightarrow> (stc, bool) run" where
  "stc_login hmac =
     rbind (rget st_user) (\<lambda>user.
     and_then (stc_submit hmac (\<lambda>r. r\<lparr>rq_op := CHO_LOGIN\<rparr>) (Some (user @ [0])) []) stc_reply)"

text \<open>The request to start TLS carries a fixed text in place of a signature.\<close>

definition stc_start_tls_cmd :: "(stc, bool) run" where
  "stc_start_tls_cmd =
     rbind (rcall next_rand) (\<lambda>nonce.
     rbind (rget st_req_buf) (\<lambda>buf.
     let buf = put_buf 24 (ascii ''START-TLS'' @ [0]) (req_upd (\<lambda>r. r\<lparr>rq_op := CHO_START_TLS\<rparr>) (req_init nonce buf)) in
     rbind (rmod (\<lambda>s. s\<lparr>st_req_buf := buf\<rparr>)) (\<lambda>_. rcall (net_write (req_wire buf)))))"

text \<open>\<^verbatim>\<open>stc_free\<close> closes the descriptor; SSL and memory are released with it.\<close>

definition stc_free :: "(stc, unit) run" where
  "stc_free = rmod (\<lambda>s. s\<lparr>st_closes := st_closes s + 1\<rparr>)"

text \<open>What the resolver, \<^verbatim>\<open>connect\<close> and the SSL library answer.\<close>

record stc_net =
  sn_addr :: bool
  sn_connect :: bool
  sn_ssl_ctx :: bool
  sn_ssl_new :: bool
  sn_ssl_fd :: bool
  sn_ssl_connect :: bool

text \<open>The result says whether there is a client; every failure after the allocation closes the descriptor twice.\<close>

definition stc_new_fail :: "(stc, bool) run" where
  "stc_new_fail = rbind (rmod (\<lambda>s. s\<lparr>st_closes := st_closes s + 1\<rparr>)) (\<lambda>_. rbind stc_free (\<lambda>_. rret False))"

definition stc_new :: "stc_net \<Rightarrow> (bytes \<Rightarrow> bytes \<Rightarrow> bytes) \<Rightarrow> bytes \<Rightarrow> int \<Rightarrow> bytes \<Rightarrow> bytes \<Rightarrow> bool \<Rightarrow> (stc, bool) run" where
  "stc_new N hmac service_host port user secret_key use_ssl =
     (if service_host = [] \<or> port < 1 \<or> port > 65535 \<or> user = [] \<or> secret_key = [] then rret False
      else if \<not> sn_addr N then rret False
      else if \<not> sn_connect N then rret False
      else
        rbind (rcall stc_malloc) (\<lambda>ok.
        if \<not> ok then rret False
        else
          rbind (rmod (\<lambda>s. s\<lparr>st_user := user, st_key := secret_key, st_ssl := False, st_closes := 0, st_req_buf := replicate STC_REQ_BUF_SZ 0\<rparr>)) (\<lambda>_.
          rbind (rcall stc_malloc) (\<lambda>host_ok.
          rbind (rcall stc_malloc) (\<lambda>user_ok.
          rbind (rcall stc_malloc) (\<lambda>key_ok.
          if \<not> host_ok \<or> \<not> user_ok \<or> \<not> key_ok then stc_new_fail
          else
            rbind (if use_ssl
                   then and_then stc_start_tls_cmd
                          (if \<not> sn_ssl_ctx N \<or> \<not> sn_ssl_new N \<or> \<not> sn_ssl_fd N \<or> \<not> sn_ssl_connect N then rret False
                           else rbind (rmod (\<lambda>s. s\<lparr>st_ssl := True\<rparr>)) (\<lambda>_. rret True))
                   else rret True) (\<lambda>tls.
            if \<not> tls then stc_new_fail
            else
              rbind (stc_login hmac) (\<lambda>login. if \<not> login then stc_new_fail else rret True))))))))"

section \<open>Fetching\<close>

text \<open>The rest of the header, \<^verbatim>\<open>struct chunksrv_resp_get\<close>, is read only after a success.\<close>

definition get_resp_rest :: "(stc, u64 option) run" where
  "get_resp_rest =
     rbind (rcall resp_read) (\<lambda>r.
     case r of
       None \<Rightarrow> rret None
     | Some resp \<Rightarrow>
         if rs_resp_code resp \<noteq> errcode_num che_Success then rret None
         else
           rbind (rcall (net_read 8)) (\<lambda>m.
           case m of None \<Rightarrow> rret None | Some _ \<Rightarrow> rret (Some (rs_data_len resp))))"

definition stc_get_req :: "(bytes \<Rightarrow> bytes \<Rightarrow> bytes) \<Rightarrow> bytes \<Rightarrow> (stc, u64 option) run" where
  "stc_get_req hmac key =
     (if \<not> stc_key_valid key then rret None
      else rbind (stc_submit hmac (\<lambda>r. r\<lparr>rq_op := CHO_GET\<rparr>) (Some key) []) (\<lambda>ok. if \<not> ok then rret None else get_resp_rest))"

text \<open>The data is handed to the callback in pieces of at most 4096 bytes; \<open>cbs\<close> are the calls.\<close>

function get_loop :: "nat \<Rightarrow> bytes list \<Rightarrow> stc \<Rightarrow> (bool \<times> bytes list) \<times> stc" where
  "get_loop content_len cbs s =
     (if content_len = 0 then ((True, cbs), s)
      else
        let xfer_len = min content_len NETBUF_SZ in
        case net_read xfer_len s of
          (None, s) \<Rightarrow> ((False, cbs), s)
        | (Some d, s) \<Rightarrow> get_loop (content_len - xfer_len) (cbs @ [d]) s)"
  by pat_completeness auto
termination by (relation "measure (\<lambda>(n, _, _). n)") (auto simp: NETBUF_SZ_def)

declare get_loop.simps [simp del]

definition stc_get :: "(bytes \<Rightarrow> bytes \<Rightarrow> bytes) \<Rightarrow> bytes \<Rightarrow> (stc, bool \<times> bytes list) run" where
  "stc_get hmac key =
     rbind (stc_get_req hmac key) (\<lambda>r.
     case r of None \<Rightarrow> rret (False, []) | Some content_len \<Rightarrow> rcall (get_loop (unat content_len) []))"

text \<open>\<^verbatim>\<open>all_data_cb\<close> appends what it gets to a byte array.\<close>

definition all_data_cb :: "bytes \<Rightarrow> bytes \<Rightarrow> bytes" where
  "all_data_cb d all_data = all_data @ d"

definition stc_get_inline :: "(bytes \<Rightarrow> bytes \<Rightarrow> bytes) \<Rightarrow> bytes \<Rightarrow> (stc, bytes option) run" where
  "stc_get_inline hmac key =
     rbind (stc_get hmac key) (\<lambda>(rcb, cbs). rret (if rcb then Some (fold all_data_cb cbs []) else None))"

definition stc_get_start :: "(bytes \<Rightarrow> bytes \<Rightarrow> bytes) \<Rightarrow> bytes \<Rightarrow> (stc, u64 option) run" where
  "stc_get_start hmac key = stc_get_req hmac key"

text \<open>
  The number of bytes, or a negated errno in an unsigned type, and the bytes. A result of 0 of \<^verbatim>\<open>SSL_read\<close> is the
  end of the stream.
\<close>

definition neg_err :: "int \<Rightarrow> u64" where
  "neg_err e = word_of_int (- e)"

lemma avail_script:
  "stc_avail s = (r, s') \<Longrightarrow> length (st_script s') < length (st_script s) \<or> s' = s \<and> st_script s = [] \<and> r = Inr (length (stc_incoming s))"
  by (auto simp: stc_avail_def stc_outcome_def split: list.splits sum.splits)

lemma recv_script:
  "stc_recv n s = (r, s') \<Longrightarrow>
   length (st_script s') < length (st_script s) \<or> st_script s' = st_script s \<and> st_script s = [] \<and> r = Inr (take n (stc_incoming s))"
  by (auto simp: stc_recv_def stc_outcome_def Let_def split: list.splits sum.splits)

function get_recv_ssl :: "nat \<Rightarrow> bytes \<Rightarrow> stc \<Rightarrow> (u64 \<times> bytes) \<times> stc" where
  "get_recv_ssl data_len acc s =
     (if length acc = data_len then ((word_of_nat (length acc), acc), s)
      else
        case stc_avail s of
          (Inl e, s) \<Rightarrow> ((neg_err e, acc), s)
        | (Inr avail, s) \<Rightarrow>
            (case (if avail = 0 then (case stc_avail s of (Inl e, s) \<Rightarrow> (0, s) | (Inr pending, s) \<Rightarrow> (pending, s)) else (avail, s)) of
               (avail, s) \<Rightarrow>
                 if avail = 0 then ((word_of_nat (length acc), acc), s)
                 else
                   let xfer_len = min avail (data_len - length acc) in
                   case stc_recv xfer_len s of
                     (Inl e, s) \<Rightarrow>
                       if acc \<noteq> [] then ((word_of_nat (length acc), acc), s)
                       else if e = SSL_ERROR_ZERO_RETURN then ((neg_err EPIPE, acc), s)
                       else if e = SSL_ERROR_WANT_READ \<or> e = SSL_ERROR_WANT_WRITE then get_recv_ssl data_len acc s
                       else ((neg_err EIO, acc), s)
                   | (Inr d, s) \<Rightarrow>
                       if d = [] then ((if acc \<noteq> [] then word_of_nat (length acc) else neg_err EPIPE, acc), s)
                       else get_recv_ssl data_len (acc @ d) s))"
  by pat_completeness auto
termination
proof (relation "measures [\<lambda>(n, acc, s). length (st_script s), \<lambda>(n, acc, s). n - length acc]", goal_cases)
  case (2 data_len acc s r s1 avail p s2 x b s3 e)
  have "length (st_script s2) \<le> length (st_script s1)"
    using 2(4) avail_script [of s1] by (fastforce split: if_splits prod.splits sum.splits)
  then show ?case using avail_script [OF 2(2) [symmetric]] recv_script [OF 2(7) [symmetric]] 2(8) by auto
next
  case (3 data_len acc s r s1 avail p s2 x b s3 d)
  have "length (st_script s2) \<le> length (st_script s1)"
    using 3(4) avail_script [of s1] by (fastforce split: if_splits prod.splits sum.splits)
  then show ?case using avail_script [OF 3(2) [symmetric]] recv_script [OF 3(7) [symmetric]] 3(1,6,8,9)
    by auto (drule length_greater_0_conv [THEN iffD2], linarith)
qed simp

declare get_recv_ssl.simps [simp del]

definition stc_get_recv :: "nat \<Rightarrow> stc \<Rightarrow> (u64 \<times> bytes) \<times> stc" where
  "stc_get_recv data_len s =
     (if st_ssl s then get_recv_ssl data_len [] s
      else
        case stc_avail s of
          (Inl e, s) \<Rightarrow> ((neg_err e, []), s)
        | (Inr avail, s) \<Rightarrow>
            if avail = 0 then ((0, []), s)
            else
              (case stc_recv (min avail data_len) s of
                 (Inl e, s) \<Rightarrow> ((neg_err e, []), s)
               | (Inr d, s) \<Rightarrow> ((word_of_nat (length d), d), s)))"

definition stc_get_part_req :: "(bytes \<Rightarrow> bytes \<Rightarrow> bytes) \<Rightarrow> bytes \<Rightarrow> u64 \<Rightarrow> u64 \<Rightarrow> (stc, u64 option) run" where
  "stc_get_part_req hmac key offset max_len =
     (if \<not> stc_key_valid key then rret None
      else
        rbind (stc_submit hmac (\<lambda>r. r\<lparr>rq_op := CHO_GET_PART, rq_data_len := max_len\<rparr>) (Some key) (le_bytes 8 offset)) (\<lambda>ok.
        if \<not> ok then rret None else get_resp_rest))"

definition stc_get_part :: "(bytes \<Rightarrow> bytes \<Rightarrow> bytes) \<Rightarrow> bytes \<Rightarrow> u64 \<Rightarrow> u64 \<Rightarrow> (stc, bool \<times> bytes list) run" where
  "stc_get_part hmac key offset max_len =
     rbind (stc_get_part_req hmac key offset max_len) (\<lambda>r.
     case r of None \<Rightarrow> rret (False, []) | Some content_len \<Rightarrow> rcall (get_loop (unat content_len) []))"

definition stc_get_part_inline :: "(bytes \<Rightarrow> bytes \<Rightarrow> bytes) \<Rightarrow> bytes \<Rightarrow> u64 \<Rightarrow> u64 \<Rightarrow> (stc, bytes option) run" where
  "stc_get_part_inline hmac key offset max_len =
     rbind (stc_get_part hmac key offset max_len) (\<lambda>(rcb, cbs). rret (if rcb then Some (fold all_data_cb cbs []) else None))"

definition stc_get_part_start :: "(bytes \<Rightarrow> bytes \<Rightarrow> bytes) \<Rightarrow> bytes \<Rightarrow> u64 \<Rightarrow> u64 \<Rightarrow> (stc, u64 option) run" where
  "stc_get_part_start hmac key offset max_len = stc_get_part_req hmac key offset max_len"

section \<open>Storing\<close>

definition stc_table_open :: "(bytes \<Rightarrow> bytes \<Rightarrow> bytes) \<Rightarrow> bytes \<Rightarrow> u32 \<Rightarrow> (stc, bool) run" where
  "stc_table_open hmac key flags =
     (if \<not> stc_key_valid key then rret False
      else and_then (stc_submit hmac (\<lambda>r. r\<lparr>rq_op := CHO_TABLE_OPEN, rq_flags := ucast (flags AND ucast (CHF_TBL_CREAT OR CHF_TBL_EXCL))\<rparr>) (Some key) []) stc_reply)"

definition put_fields :: "u64 \<Rightarrow> u32 \<Rightarrow> chunksrv_req \<Rightarrow> chunksrv_req" where
  "put_fields len flags r = r\<lparr>rq_op := CHO_PUT, rq_flags := ucast (flags AND ucast CHF_SYNC), rq_data_len := len\<rparr>"

text \<open>
  The callback \<open>read_cb\<close> yields at most as many bytes as it is asked for, and its next state; none are an error. The
  remaining length is an unsigned 64-bit number.
\<close>

partial_function (option) put_loop ::
    "(nat \<Rightarrow> 'u \<Rightarrow> bytes \<times> 'u) \<Rightarrow> u64 \<Rightarrow> 'u \<Rightarrow> stc \<Rightarrow> (fault + bool \<times> stc) option" where
  "put_loop read_cb content_len u s =
     (if content_len = 0 then rret True s
      else
        case read_cb (min (unat content_len) NETBUF_SZ) u of
          (d, u) \<Rightarrow>
            if length d < 1 then rret False s
            else
              (case net_write d s of
                 (ok, s) \<Rightarrow> if \<not> ok then rret False s else put_loop read_cb (content_len - word_of_nat (length d)) u s))"

definition stc_put :: "(bytes \<Rightarrow> bytes \<Rightarrow> bytes) \<Rightarrow> bytes \<Rightarrow> (nat \<Rightarrow> 'u \<Rightarrow> bytes \<times> 'u) \<Rightarrow> u64 \<Rightarrow> 'u \<Rightarrow> u32 \<Rightarrow> (stc, bool) run" where
  "stc_put hmac key read_cb len user_data flags =
     (if \<not> stc_key_valid key then rret False
      else
        and_then (stc_submit hmac (put_fields len flags) (Some key) [])
        (and_then (put_loop read_cb len user_data) stc_reply))"

definition stc_put_start :: "(bytes \<Rightarrow> bytes \<Rightarrow> bytes) \<Rightarrow> bytes \<Rightarrow> u64 \<Rightarrow> u32 \<Rightarrow> (stc, bool) run" where
  "stc_put_start hmac key cont_len flags =
     (if \<not> stc_key_valid key then rret False else stc_submit hmac (put_fields cont_len flags) (Some key) [])"

text \<open>A result of 0 of \<^verbatim>\<open>SSL_write\<close> is the end of the stream.\<close>

function put_send_ssl :: "bytes \<Rightarrow> nat \<Rightarrow> stc \<Rightarrow> u64 \<times> stc" where
  "put_send_ssl data done_cnt s =
     (if data = [] then (word_of_nat done_cnt, s)
      else
        case stc_send data s of
          (Inl e, s) \<Rightarrow>
            if e = SSL_ERROR_ZERO_RETURN then (neg_err EPIPE, s)
            else if e = SSL_ERROR_WANT_READ then put_send_ssl data done_cnt s
            else if e = SSL_ERROR_WANT_WRITE then (word_of_nat done_cnt, s)
            else (neg_err EIO, s)
        | (Inr n, s) \<Rightarrow> if n = 0 then (neg_err EPIPE, s) else put_send_ssl (drop n data) (done_cnt + n) s)"
  by pat_completeness auto
termination
  by (relation "measure (\<lambda>(d, _, s). length d + length (st_script s))")
    (auto simp: stc_send_def stc_outcome_def Let_def limit_def neq_Nil_conv split: list.splits sum.splits)

declare put_send_ssl.simps [simp del]

definition stc_put_send :: "bytes \<Rightarrow> stc \<Rightarrow> u64 \<times> stc" where
  "stc_put_send data s =
     (if data = [] then (0, s)
      else if st_ssl s then put_send_ssl data 0 s
      else
        case stc_send data s of
          (Inl e, s) \<Rightarrow> (neg_err e, s)
        | (Inr n, s) \<Rightarrow> (word_of_nat n, s))"

definition stc_put_sync :: "(stc, bool) run" where
  "stc_put_sync = stc_reply"

text \<open>\<^verbatim>\<open>struct stc_put_info\<close>: the data that is left.\<close>

definition read_inline_cb :: "nat \<Rightarrow> bytes \<Rightarrow> bytes \<times> bytes" where
  "read_inline_cb n_bytes spi = (let len = min n_bytes (length spi) in (take len spi, drop len spi))"

definition stc_put_inline :: "(bytes \<Rightarrow> bytes \<Rightarrow> bytes) \<Rightarrow> bytes \<Rightarrow> bytes \<Rightarrow> u32 \<Rightarrow> (stc, bool) run" where
  "stc_put_inline hmac key data flags = stc_put hmac key read_inline_cb (word_of_nat (length data)) data flags"

definition stc_del :: "(bytes \<Rightarrow> bytes \<Rightarrow> bytes) \<Rightarrow> bytes \<Rightarrow> (stc, bool) run" where
  "stc_del hmac key =
     (if \<not> stc_key_valid key then rret False
      else and_then (stc_submit hmac (\<lambda>r. r\<lparr>rq_op := CHO_DEL\<rparr>) (Some key) []) stc_reply)"

section \<open>Other requests\<close>

definition stc_ping :: "(bytes \<Rightarrow> bytes \<Rightarrow> bytes) \<Rightarrow> (stc, bool) run" where
  "stc_ping hmac = and_then (stc_submit hmac (\<lambda>r. r\<lparr>rq_op := CHO_NOP\<rparr>) None []) stc_reply"

definition stc_check_start :: "(bytes \<Rightarrow> bytes \<Rightarrow> bytes) \<Rightarrow> (stc, bool) run" where
  "stc_check_start hmac = and_then (stc_submit hmac (\<lambda>r. r\<lparr>rq_op := CHO_CHECK_START\<rparr>) None []) stc_reply"

definition CHECK_STATUS_SZ :: nat where [cfg_simps]: "CHECK_STATUS_SZ = 16"   \<comment> \<open>\<^verbatim>\<open>sizeof(struct chunk_check_status)\<close>\<close>

text \<open>This request is built in a variable of the function.\<close>

definition stc_check_status :: "(bytes \<Rightarrow> bytes \<Rightarrow> bytes) \<Rightarrow> (stc, bytes option) run" where
  "stc_check_status hmac =
     rbind (rcall next_rand) (\<lambda>nonce.
     rbind (rget st_key) (\<lambda>secret.
     let req = req_sign hmac secret (req_upd (\<lambda>r. r\<lparr>rq_op := CHO_CHECK_STATUS\<rparr>) (req_init nonce (fresh_mem CHUNKSRV_REQ_SZ))) in
     rbind (rcall (net_write (req_wire req))) (\<lambda>ok.
     if \<not> ok then rret None
     else
       rbind (rcall resp_read) (\<lambda>r.
       case r of
         None \<Rightarrow> rret None
       | Some resp \<Rightarrow>
           if rs_resp_code resp \<noteq> errcode_num che_Success then rret None
           else if unat (rs_data_len resp) \<noteq> CHECK_STATUS_SZ then rret None
           else rcall (net_read CHECK_STATUS_SZ)))))"

text \<open>
  A copy is built in memory of its own. The lengths of the keys are not checked: that of the new key is cut to 16 bits,
  and the bytes of the key that are not copied are whatever the memory held.
\<close>

definition stc_cp :: "(bytes \<Rightarrow> bytes \<Rightarrow> bytes) \<Rightarrow> bytes \<Rightarrow> bytes \<Rightarrow> (stc, bool) run" where
  "stc_cp hmac dest_key src_key =
     (let alloc_len = CHUNKSRV_REQ_SZ + length src_key + length dest_key in
      rbind (rcall stc_malloc) (\<lambda>ok.
      if \<not> ok then rret False
      else
        rbind (rcall next_rand) (\<lambda>nonce.
        rbind (rget st_key) (\<lambda>secret.
        case req_set_key dest_key (req_upd (\<lambda>r. r\<lparr>rq_op := CHO_CP, rq_data_len := word_of_nat (length src_key)\<rparr>) (req_init nonce (fresh_mem alloc_len))) of
          None \<Rightarrow> rfault F_overflow
        | Some buf \<Rightarrow>
            let req = req_sign hmac secret (put_buf (CHUNKSRV_REQ_SZ + length dest_key) src_key buf) in
            and_then (rcall (net_write (take alloc_len req))) stc_reply))))"

section \<open>Listing\<close>

text \<open>
  What \<^verbatim>\<open>libxml2\<close> makes of a document: a tree of elements and other nodes. \<open>xm_read\<close> is \<^verbatim>\<open>xmlReadMemory\<close> and
  \<^verbatim>\<open>xmlDocGetRootElement\<close>: \<open>None\<close> if there is no document or no root. \<open>xm_text\<close> is \<^verbatim>\<open>xmlNodeListGetString\<close>, which may
  return a null pointer.
\<close>

datatype xnode = Xml_elem bytes "xnode list" | Xml_other bytes

record xmlenv =
  xm_read :: "bytes \<Rightarrow> (bytes \<times> xnode list) option"
  xm_text :: "xnode list \<Rightarrow> bytes option"

record st_object =
  so_name :: "bytes option"
  so_time_mod :: "bytes option"
  so_etag :: "bytes option"
  so_size :: u64
  so_owner :: "bytes option"

record st_keylist =
  kl_name :: "bytes option"
  kl_contents :: "st_object list"

text \<open>\<^verbatim>\<open>strdup\<close> of the text of an element; it returns a null pointer when there is no memory and reads one when there is no text.\<close>

definition dup_text :: "xmlenv \<Rightarrow> xnode list \<Rightarrow> (stc, bytes option) run" where
  "dup_text X children =
     (case xm_text X children of
        None \<Rightarrow> rfault F_null
      | Some xs \<Rightarrow> rbind (rcall stc_malloc) (\<lambda>ok. rret (if ok then Some (cstr xs) else None)))"

fun parse_key_loop :: "xmlenv \<Rightarrow> xnode list \<Rightarrow> st_object \<Rightarrow> (stc, st_object) run" where
  "parse_key_loop X [] obj = rret obj"
| "parse_key_loop X (Xml_other _ # nodes) obj = parse_key_loop X nodes obj"
| "parse_key_loop X (Xml_elem name children # nodes) obj =
     rbind
       (if strcmp name (ascii ''Name'') = 0 then rbind (dup_text X children) (\<lambda>t. rret (obj\<lparr>so_name := t\<rparr>))
        else if strcmp name (ascii ''LastModified'') = 0 then rbind (dup_text X children) (\<lambda>t. rret (obj\<lparr>so_time_mod := t\<rparr>))
        else if strcmp name (ascii ''ETag'') = 0 then rbind (dup_text X children) (\<lambda>t. rret (obj\<lparr>so_etag := t\<rparr>))
        else if strcmp name (ascii ''Size'') = 0
        then (case xm_text X children of None \<Rightarrow> rfault F_null | Some xs \<Rightarrow> rret (obj\<lparr>so_size := word_of_int (strtol10 (cstr xs))\<rparr>))
        else if strcmp name (ascii ''Owner'') = 0 then rbind (dup_text X children) (\<lambda>t. rret (obj\<lparr>so_owner := t\<rparr>))
        else rret obj) (\<lambda>obj.
     parse_key_loop X nodes obj)"

text \<open>An object without a name is dropped.\<close>

definition stc_parse_key :: "xmlenv \<Rightarrow> xnode list \<Rightarrow> st_keylist \<Rightarrow> (stc, st_keylist) run" where
  "stc_parse_key X nodes keylist =
     rbind (rcall stc_malloc) (\<lambda>ok.
     if \<not> ok then rret keylist
     else
       rbind (parse_key_loop X nodes \<lparr>so_name = None, so_time_mod = None, so_etag = None, so_size = 0, so_owner = None\<rparr>) (\<lambda>obj.
       rret (if so_name obj \<noteq> None then keylist\<lparr>kl_contents := kl_contents keylist @ [obj]\<rparr> else keylist)))"

fun keys_loop :: "xmlenv \<Rightarrow> xnode list \<Rightarrow> st_keylist \<Rightarrow> (stc, st_keylist) run" where
  "keys_loop X [] keylist = rret keylist"
| "keys_loop X (Xml_other _ # nodes) keylist = keys_loop X nodes keylist"
| "keys_loop X (Xml_elem name children # nodes) keylist =
     rbind
       (if strcmp name (ascii ''Name'') = 0 then rbind (dup_text X children) (\<lambda>t. rret (keylist\<lparr>kl_name := t\<rparr>))
        else if strcmp name (ascii ''Contents'') = 0 then stc_parse_key X children keylist
        else rret keylist) (\<lambda>keylist.
     keys_loop X nodes keylist)"

definition stc_keys :: "xmlenv \<Rightarrow> (bytes \<Rightarrow> bytes \<Rightarrow> bytes) \<Rightarrow> (stc, st_keylist option) run" where
  "stc_keys X hmac =
     rbind (stc_submit hmac (\<lambda>r. r\<lparr>rq_op := CHO_LIST\<rparr>) None []) (\<lambda>ok.
     if \<not> ok then rret None
     else
       rbind (rcall resp_read) (\<lambda>r.
       case r of
         None \<Rightarrow> rret None
       | Some resp \<Rightarrow>
           if rs_resp_code resp \<noteq> errcode_num che_Success then rret None
           else
             rbind (rcall (get_loop (unat (rs_data_len resp)) [])) (\<lambda>(rcb, cbs).
             if \<not> rcb then rret None
             else
               case xm_read X (fold all_data_cb cbs []) of
                 None \<Rightarrow> rret None
               | Some (name, children) \<Rightarrow>
                   if strcmp name (ascii ''ListVolumeResult'') \<noteq> 0 then rret None
                   else
                     rbind (rcall stc_malloc) (\<lambda>ok.
                     if \<not> ok then rret None
                     else rbind (keys_loop X children \<lparr>kl_name = None, kl_contents = []\<rparr>) (\<lambda>kl. rret (Some kl))))))"

end
