(* ===== verification/Chunk_Call.thy ===== *)
theory Chunk_Call
  imports Chunk_Client
begin

text \<open>
  What the calls of the chunk client library send and return, for every behaviour of the socket and of the peer.
\<close>

section \<open>What the loops transfer\<close>

lemma send_cases:
  assumes "stc_send d s = (r, s')"
  shows "\<exists>sc. (case r of Inl e \<Rightarrow> s' = s\<lparr>st_script := sc\<rparr> | Inr n \<Rightarrow> n \<le> length d \<and> s' = s\<lparr>st_script := sc, st_sent := st_sent s @ take n d\<rparr>)"
proof -
  have id: "s\<lparr>st_script := st_script s, st_sent := x\<rparr> = s\<lparr>st_sent := x\<rparr>" for x by simp
  show ?thesis using assms
    by (auto simp: stc_send_def stc_outcome_def Let_def limit_def min_def id [symmetric, of "st_sent s @ _"] simp del: stc.update_convs
        split: list.splits sum.splits option.splits intro: exI [of _ "st_script s"])
qed

lemma take_min_len: "take (min (length xs - r) k) (drop r xs) = take k (drop r xs)"
  by (simp add: min_def)

lemma recv_cases:
  assumes "stc_recv n s = (Inr d, s')"
  shows "\<exists>sc. d = take (length d) (stc_incoming s) \<and> length d \<le> n \<and> s' = s\<lparr>st_script := sc, st_rcvd := st_rcvd s + length d\<rparr>"
proof -
  have id: "s\<lparr>st_script := st_script s, st_rcvd := x\<rparr> = s\<lparr>st_rcvd := x\<rparr>" for x by simp
  show ?thesis using assms
    by (auto simp: stc_recv_def stc_outcome_def Let_def stc_incoming_def limit_def take_min_len id [symmetric, of "st_rcvd s + _"] simp del: stc.update_convs
        split: list.splits sum.splits option.splits intro: exI [of _ "st_script s"])
qed

lemma net_write_sent:
  "net_write d s = (True, s') \<Longrightarrow> \<exists>sc. s' = s\<lparr>st_script := sc, st_sent := st_sent s @ d\<rparr>"
proof (induction d s rule: net_write.induct)
  case (1 d s)
  show ?case
  proof (cases "d = []")
    case True
    with 1(2) show ?thesis by (subst (asm) net_write.simps) (auto intro: exI [of _ "st_script s"])
  next
    case False
    then obtain n s1 where s1: "stc_send d s = (Inr n, s1)" "net_write (drop n d) s1 = (True, s')"
      using 1(2) by (subst (asm) net_write.simps) (auto split: prod.splits sum.splits)
    then obtain sc sc' where "n \<le> length d" "s1 = s\<lparr>st_script := sc, st_sent := st_sent s @ take n d\<rparr>"
      "s' = s1\<lparr>st_script := sc', st_sent := st_sent s1 @ drop n d\<rparr>"
      using send_cases [OF s1(1)] 1(1) [OF False s1(1) [symmetric] _ s1(2)] by auto
    then show ?thesis by (cases s) auto
  qed
qed

lemma net_write_quiet: "st_script s = [] \<Longrightarrow> net_write d s = (True, s\<lparr>st_sent := st_sent s @ d\<rparr>)"
  by (cases "d = []") (simp_all add: net_write.simps [of d s] net_write.simps [of "[]"] stc_send_def stc_outcome_def)

lemma net_read_loop_some:
  "net_read_loop n acc s = (Some d, s') \<Longrightarrow>
   \<exists>sc. n \<le> length (stc_incoming s) \<and> d = acc @ take n (stc_incoming s) \<and> s' = s\<lparr>st_script := sc, st_rcvd := st_rcvd s + n\<rparr>"
proof (induction n acc s rule: net_read_loop.induct)
  case (1 n acc s)
  show ?case
  proof (cases "n = 0")
    case True
    with 1(2) show ?thesis by (subst (asm) net_read_loop.simps) (auto intro: exI [of _ "st_script s"])
  next
    case False
    then obtain e s1 where s1: "stc_recv n s = (Inr e, s1)" "e \<noteq> []" "net_read_loop (n - length e) (acc @ e) s1 = (Some d, s')"
      using 1(2) by (subst (asm) net_read_loop.simps) (auto split: prod.splits sum.splits if_splits)
    obtain sc where e: "e = take (length e) (stc_incoming s)" "length e \<le> n" "s1 = s\<lparr>st_script := sc, st_rcvd := st_rcvd s + length e\<rparr>"
      using recv_cases [OF s1(1)] by blast
    have le: "length e \<le> length (stc_incoming s)" using arg_cong [OF e(1), of length] by simp
    have inc: "stc_incoming s1 = drop (length e) (stc_incoming s)" by (simp add: e(3) stc_incoming_def add.commute)
    obtain sc' where r: "n - length e \<le> length (stc_incoming s1)" "d = (acc @ e) @ take (n - length e) (stc_incoming s1)"
        "s' = s1\<lparr>st_script := sc', st_rcvd := st_rcvd s1 + (n - length e)\<rparr>"
      using 1(1) [OF False s1(1) [symmetric] _ s1(2,3)] by auto
    have "e @ take (n - length e) (drop (length e) (stc_incoming s)) = take n (stc_incoming s)"
      using e(1,2) take_add [of "length e" "n - length e" "stc_incoming s"] by simp
    moreover have "s' = s\<lparr>st_script := sc', st_rcvd := st_rcvd s + n\<rparr>" using r(3) e(2,3) by (cases s) simp
    ultimately show ?thesis using r(1,2) le e(2) inc by auto
  qed
qed

lemma net_read_some:
  assumes "net_read n s = (Some d, s')"
  shows "\<exists>sc. n \<le> length (stc_incoming s) \<and> d = take n (stc_incoming s) \<and> s' = s\<lparr>st_script := sc, st_rcvd := st_rcvd s + n\<rparr>"
  using net_read_loop_some [OF assms [unfolded net_read_def]] by simp

lemma net_read_quiet:
  assumes "st_script s = []" "n \<le> length (stc_incoming s)"
  shows "net_read n s = (Some (take n (stc_incoming s)), s\<lparr>st_rcvd := st_rcvd s + n\<rparr>)"
  using assms by (cases "n = 0")
    (auto simp: net_read_def net_read_loop.simps [of n] net_read_loop.simps [of 0] stc_recv_def stc_outcome_def Let_def min_def)

section \<open>The request on the wire\<close>

text \<open>What is documented of HMAC-SHA1 in base64: a text of 28 bytes. Only this much of it matters.\<close>

definition hmac_text :: "(bytes \<Rightarrow> bytes \<Rightarrow> bytes) \<Rightarrow> bool" where
  "hmac_text hmac \<longleftrightarrow> (\<forall>k d. 0 < length (hmac k d) \<and> length (hmac k d) < CHD_SIG_SZ \<and> 0 \<notin> set (hmac k d))"

definition plain_req :: "chunksrv_req \<Rightarrow> bool" where
  "plain_req r \<longleftrightarrow> rq_magic r = CHUNKD_MAGIC \<and> rq_key_len r = 0 \<and> rq_sig r = replicate CHD_SIG_SZ 0"

text \<open>The request with its key length and signature filled in.\<close>

definition signed_req :: "(bytes \<Rightarrow> bytes \<Rightarrow> bytes) \<Rightarrow> bytes \<Rightarrow> chunksrv_req \<Rightarrow> bytes \<Rightarrow> bytes \<Rightarrow> chunksrv_req" where
  "signed_req hmac secret r key extra =
     (let r = r\<lparr>rq_key_len := word_of_nat (length key)\<rparr>; t = hmac secret (req_bytes r @ key @ extra)
      in r\<lparr>rq_sig := t @ replicate (CHD_SIG_SZ - length t) 0\<rparr>)"

lemma magic_len [simp]: "length CHUNKD_MAGIC = 8"
  by (simp add: CHUNKD_MAGIC_def)

lemma req_of_append: "req_wf r \<Longrightarrow> req_of (req_bytes r @ x) = r"
  by (cases r) (simp add: req_wf_def req_of_def req_bytes_def cfg_simps nth_append)

lemma plain_wf: "plain_req r \<Longrightarrow> req_wf (r\<lparr>rq_key_len := n\<rparr>)"
  by (simp add: plain_req_def req_wf_def)

lemma zero_wf: "req_wf (req_zero n)" "plain_req (req_zero n)"
  by (simp_all add: req_wf_def req_zero_def plain_req_def)

lemma signed_wf: "plain_req r \<Longrightarrow> hmac_text hmac \<Longrightarrow> req_wf (signed_req hmac secret r key extra)"
  by (simp add: signed_req_def Let_def req_wf_def plain_req_def hmac_text_def less_imp_le)

lemma signed_sel [simp]:
  "rq_op (signed_req hmac secret r key extra) = rq_op r" "rq_flags (signed_req hmac secret r key extra) = rq_flags r"
  "rq_key_len (signed_req hmac secret r key extra) = word_of_nat (length key)" "rq_nonce (signed_req hmac secret r key extra) = rq_nonce r"
  "rq_data_len (signed_req hmac secret r key extra) = rq_data_len r" "rq_magic (signed_req hmac secret r key extra) = rq_magic r"
  by (simp_all add: signed_req_def Let_def)

lemma cstr_zeros: "0 \<notin> set t \<Longrightarrow> cstr (t @ replicate n 0) = t"
  by (induction t) (simp_all add: cstr_def takeWhile_eq_Nil_iff)

lemma signed_valid:
  assumes "plain_req r" "hmac_text hmac"
  shows "valid_req_hdr (signed_req hmac secret r key extra)"
    "cstr (rq_sig (signed_req hmac secret r key extra)) = hmac secret (req_bytes (r\<lparr>rq_key_len := word_of_nat (length key)\<rparr>) @ key @ extra)"
proof -
  let ?t = "hmac secret (req_bytes (r\<lparr>rq_key_len := word_of_nat (length key)\<rparr>) @ key @ extra)"
  have t: "0 < length ?t" "length ?t < CHD_SIG_SZ" "0 \<notin> set ?t" using assms(2) unfolding hmac_text_def by blast+
  show c: "cstr (rq_sig (signed_req hmac secret r key extra)) = ?t" by (simp add: signed_req_def Let_def cstr_zeros [OF t(3)])
  show "valid_req_hdr (signed_req hmac secret r key extra)"
    unfolding valid_req_hdr_def c using assms(1) t by (simp add: plain_req_def Let_def)
qed

lemma sign_bytes:
  assumes "plain_req r" "hmac_text hmac" "length extra = (if rq_op r = CHO_GET_PART then GETPART_SZ else 0)" "length key \<le> CHD_KEY_SZ"
  shows "req_sign hmac secret (req_bytes (r\<lparr>rq_key_len := word_of_nat (length key)\<rparr>) @ key @ extra @ rest) =
     req_bytes (signed_req hmac secret r key extra) @ key @ extra @ rest"
    "req_wire (req_bytes (signed_req hmac secret r key extra) @ key @ extra @ rest) = req_bytes (signed_req hmac secret r key extra) @ key @ extra"
proof -
  let ?r = "r\<lparr>rq_key_len := word_of_nat (length key)\<rparr>" and ?R = "signed_req hmac secret r key extra"
  let ?t = "hmac secret (req_bytes ?r @ key @ extra)"
  have kl: "unat (word_of_nat (length key) :: u16) = length key" using assms(4) by (intro unat_small) (simp add: CHD_KEY_SZ_def)
  have wf: "req_wf ?r" "req_wf ?R" by (rule plain_wf [OF assms(1)]) (rule signed_wf [OF assms(1,2)])
  have len: "req_len ?r = length (req_bytes ?r @ key @ extra)" "req_len ?R = length (req_bytes ?R @ key @ extra)"
    by (simp_all add: req_len_def kl length_req_bytes [OF wf(1)] length_req_bytes [OF wf(2)] assms(3))
  have t: "length ?t < CHD_SIG_SZ" using assms(2) by (simp add: hmac_text_def)
  have sum: "chreq_sign hmac (req_of (req_bytes ?r @ key @ extra @ rest)) (req_bytes ?r @ key @ extra @ rest) secret = ?t"
    unfolding chreq_sign_def req_of_append [OF wf(1)] len(1) by simp
  have "put_buf 24 (?t @ [0]) (req_bytes ?r @ key @ extra @ rest) = req_bytes ?R @ key @ extra @ rest"
  proof -
    have sig: "?t @ [0] @ drop (Suc (length ?t)) (replicate CHD_SIG_SZ 0) = ?t @ replicate (CHD_SIG_SZ - length ?t) 0"
      using t by (simp flip: replicate_Suc add: Suc_diff_Suc)
    define pre where "pre = CHUNKD_MAGIC @ [rq_op r, rq_flags r] @ le_bytes 2 (rq_key_len ?r) @ le_bytes 4 (rq_nonce r) @ le_bytes 8 (rq_data_len r)"
    have lp: "length pre = 24" by (simp add: pre_def)
    have "req_bytes ?r = pre @ replicate CHD_SIG_SZ 0" "req_bytes ?R = pre @ ?t @ replicate (CHD_SIG_SZ - length ?t) 0"
      using assms(1) by (simp_all add: req_bytes_def pre_def plain_req_def signed_req_def Let_def)
    then show ?thesis unfolding put_buf_def using lp t sig [symmetric] by (simp add: drop_append)
  qed
  then show "req_sign hmac secret (req_bytes ?r @ key @ extra @ rest) = req_bytes ?R @ key @ extra @ rest"
    unfolding req_sign_def sum .
  show "req_wire (req_bytes ?R @ key @ extra @ rest) = req_bytes ?R @ key @ extra"
    unfolding req_wire_def req_of_append [OF wf(2)] len(2) by simp
qed

definition stc_wf :: "stc \<Rightarrow> bool" where
  "stc_wf s \<longleftrightarrow> length (st_req_buf s) = STC_REQ_BUF_SZ"

text \<open>The request a call builds from its fields.\<close>

definition call_req :: "(bytes \<Rightarrow> bytes \<Rightarrow> bytes) \<Rightarrow> (chunksrv_req \<Rightarrow> chunksrv_req) \<Rightarrow> bytes \<Rightarrow> bytes \<Rightarrow> stc \<Rightarrow> chunksrv_req" where
  "call_req hmac f key extra s = signed_req hmac (st_key s) (f (req_zero (st_rand s (st_calls s)))) key extra"

lemma req_upd_bytes: "req_wf r \<Longrightarrow> req_upd f (req_bytes r @ drop CHUNKSRV_REQ_SZ b) = req_bytes (f r) @ drop CHUNKSRV_REQ_SZ b"
  unfolding req_upd_def req_of_append by (simp add: length_req_bytes)

lemma set_key_bytes:
  assumes "plain_req r" "length key \<le> CHD_KEY_SZ" "length b = STC_REQ_BUF_SZ"
  shows "req_set_key key (req_bytes r @ drop CHUNKSRV_REQ_SZ b) =
    Some (req_bytes (r\<lparr>rq_key_len := word_of_nat (length key)\<rparr>) @ key @ drop (CHUNKSRV_REQ_SZ + length key) b)"
proof -
  have kl: "unat (word_of_nat (length key) :: u16) = length key" using assms(2) by (intro unat_small) (simp add: CHD_KEY_SZ_def)
  have "req_wf r" using assms(1) by (simp add: plain_req_def req_wf_def)
  note u = req_upd_bytes [OF this]
  note l = length_req_bytes [OF plain_wf [OF assms(1), of "word_of_nat (length key)"]]
  show ?thesis unfolding req_set_key_def u Let_def kl using assms(2,3)
    by (simp add: put_buf_def l cfg_simps add.commute)
qed

lemma submit_eq:
  assumes "plain_req (f (req_zero (st_rand s (st_calls s))))" "hmac_text hmac" "stc_wf s" "length key \<le> CHD_KEY_SZ"
    "length extra = (if rq_op (f (req_zero (st_rand s (st_calls s)))) = CHO_GET_PART then GETPART_SZ else 0)"
  shows "stc_submit hmac f (Some key) extra s = Some (Inr (net_write (req_bytes (call_req hmac f key extra s) @ key @ extra)
    (s\<lparr>st_calls := Suc (st_calls s), st_req_buf := req_bytes (call_req hmac f key extra s) @ key @ extra @
        drop (CHUNKSRV_REQ_SZ + length key + length extra) (st_req_buf s)\<rparr>)))"
proof -
  let ?n = "st_rand s (st_calls s)" and ?b = "st_req_buf s" and ?K = "word_of_nat (length key)"
  let ?r = "f (req_zero ?n)"
  let ?e = "drop (CHUNKSRV_REQ_SZ + length key + length extra) ?b"
  have lb: "length ?b = STC_REQ_BUF_SZ" using assms(3) by (simp add: stc_wf_def)
  have u: "req_upd f (req_init ?n ?b) = req_bytes ?r @ drop CHUNKSRV_REQ_SZ ?b"
    unfolding req_init_def by (rule req_upd_bytes [OF zero_wf(1)])
  have pb: "put_buf (CHUNKSRV_REQ_SZ + length key) extra (req_bytes (?r\<lparr>rq_key_len := ?K\<rparr>) @ key @ drop (CHUNKSRV_REQ_SZ + length key) ?b) =
      req_bytes (?r\<lparr>rq_key_len := ?K\<rparr>) @ key @ extra @ ?e"
    unfolding put_buf_def using length_req_bytes [OF plain_wf [OF assms(1), of ?K]] by (simp add: add.commute add.left_commute)
  have ks: "req_set_key key (req_upd f (req_init ?n ?b)) = Some (req_bytes (?r\<lparr>rq_key_len := ?K\<rparr>) @ key @ drop (CHUNKSRV_REQ_SZ + length key) ?b)"
    unfolding u by (rule set_key_bytes [OF assms(1,4) lb])
  note sb = sign_bytes [OF assms(1,2,5,4), of "st_key s" ?e]
  show ?thesis unfolding stc_submit_def call_req_def
    by (simp add: run_simps next_rand_def Let_def ks pb sb)
qed

lemma submit_none:
  assumes "plain_req (f (req_zero (st_rand s (st_calls s))))" "hmac_text hmac" "stc_wf s"
    "rq_op (f (req_zero (st_rand s (st_calls s)))) \<noteq> CHO_GET_PART"
  shows "stc_submit hmac f None extra s = Some (Inr (net_write (req_bytes (call_req hmac f [] [] s))
    (s\<lparr>st_calls := Suc (st_calls s), st_req_buf := req_bytes (call_req hmac f [] [] s) @ drop CHUNKSRV_REQ_SZ (st_req_buf s)\<rparr>)))"
proof -
  let ?n = "st_rand s (st_calls s)" and ?b = "st_req_buf s"
  let ?r = "f (req_zero ?n)"
  have u: "req_upd f (req_init ?n ?b) = req_bytes ?r @ drop CHUNKSRV_REQ_SZ ?b"
    unfolding req_init_def by (rule req_upd_bytes [OF zero_wf(1)])
  have "?r\<lparr>rq_key_len := word_of_nat (length ([] :: bytes))\<rparr> = ?r" using assms(1) by (cases ?r) (simp add: plain_req_def)
  then show ?thesis using sign_bytes [OF assms(1,2), of "[]" "[]" "st_key s" "drop CHUNKSRV_REQ_SZ ?b"] assms(4)
    unfolding stc_submit_def call_req_def by (simp add: run_simps next_rand_def Let_def u)
qed

lemma net_write_frame: "net_write d s = (ok, s') \<Longrightarrow> st_req_buf s' = st_req_buf s"
proof (induction d s rule: net_write.induct)
  case (1 d s)
  obtain r s1 where r: "stc_send d s = (r, s1)" by (cases "stc_send d s")
  have "st_req_buf s1 = st_req_buf s" using send_cases [OF r] by (cases r) auto
  then show ?case using 1(2) 1(1) [OF _ r [symmetric]] r by (cases r) (auto simp: net_write.simps [of d s] split: if_splits)
qed

lemma submit_wf:
  assumes "net_write d (s\<lparr>st_calls := Suc (st_calls s), st_req_buf := req_bytes r @ key @ extra @ drop (CHUNKSRV_REQ_SZ + length key + length extra) (st_req_buf s)\<rparr>) = (ok, s')"
    "stc_wf s" "req_wf r" "length key \<le> CHD_KEY_SZ" "length extra \<le> GETPART_SZ"
  shows "stc_wf s'"
  using net_write_frame [OF assms(1)] assms(2-) length_req_bytes [OF assms(3)] by (simp add: stc_wf_def cfg_simps)

section \<open>Receiving data\<close>

lemma fold_all_data: "fold all_data_cb cbs x = x @ concat cbs"
  by (induction cbs arbitrary: x) (simp_all add: all_data_cb_def)

lemma get_loop_some:
  "get_loop n cbs s = ((True, cbs'), s') \<Longrightarrow>
   \<exists>sc. n \<le> length (stc_incoming s) \<and> concat cbs' = concat cbs @ take n (stc_incoming s) \<and> s' = s\<lparr>st_script := sc, st_rcvd := st_rcvd s + n\<rparr>"
proof (induction n cbs s rule: get_loop.induct)
  case (1 n cbs s)
  show ?case
  proof (cases "n = 0")
    case True
    with 1(2) show ?thesis by (subst (asm) get_loop.simps) (auto intro: exI [of _ "st_script s"])
  next
    case False
    let ?x = "min n NETBUF_SZ"
    obtain d s1 where s1: "net_read ?x s = (Some d, s1)" "get_loop (n - ?x) (cbs @ [d]) s1 = ((True, cbs'), s')"
      using False 1(2) by (subst (asm) get_loop.simps) (auto simp: Let_def split: prod.splits option.splits)
    obtain sc where d: "?x \<le> length (stc_incoming s)" "d = take ?x (stc_incoming s)" "s1 = s\<lparr>st_script := sc, st_rcvd := st_rcvd s + ?x\<rparr>"
      using net_read_some [OF s1(1)] by blast
    have inc: "stc_incoming s1 = drop ?x (stc_incoming s)" by (simp add: d(3) stc_incoming_def add.commute)
    obtain sc' where r: "n - ?x \<le> length (stc_incoming s1)" "concat cbs' = concat (cbs @ [d]) @ take (n - ?x) (stc_incoming s1)"
        "s' = s1\<lparr>st_script := sc', st_rcvd := st_rcvd s1 + (n - ?x)\<rparr>"
      using 1(1) [OF False HOL.refl s1(1) [symmetric] HOL.refl s1(2)] by auto
    have "d @ take (n - ?x) (drop ?x (stc_incoming s)) = take n (stc_incoming s)"
      using d(2) take_add [of ?x "n - ?x" "stc_incoming s"] by simp
    moreover have "s' = s\<lparr>st_script := sc', st_rcvd := st_rcvd s + n\<rparr>" using r(3) d(3) by (cases s) simp
    ultimately show ?thesis using r(1,2) d(1) inc by auto
  qed
qed

lemma get_loop_quiet:
  "st_script s = [] \<Longrightarrow> n \<le> length (stc_incoming s) \<Longrightarrow>
   \<exists>cbs'. get_loop n cbs s = ((True, cbs'), s\<lparr>st_rcvd := st_rcvd s + n\<rparr>) \<and> concat cbs' = concat cbs @ take n (stc_incoming s)"
proof (induction n cbs s rule: get_loop.induct)
  case (1 n cbs s)
  show ?case
  proof (cases "n = 0")
    case True
    then show ?thesis by (subst get_loop.simps) simp
  next
    case False
    let ?x = "min n NETBUF_SZ" and ?i = "stc_incoming s"
    let ?s = "s\<lparr>st_rcvd := st_rcvd s + ?x\<rparr>"
    have r: "net_read ?x s = (Some (take ?x ?i), ?s)" using 1(2,3) by (intro net_read_quiet) simp_all
    have inc: "stc_incoming ?s = drop ?x ?i" by (simp add: stc_incoming_def add.commute)
    have le: "n - ?x \<le> length (drop ?x ?i)" using 1(3) by simp
    obtain cbs' where ih: "get_loop (n - ?x) (cbs @ [take ?x ?i]) ?s = ((True, cbs'), ?s\<lparr>st_rcvd := st_rcvd ?s + (n - ?x)\<rparr>)"
        "concat cbs' = concat (cbs @ [take ?x ?i]) @ take (n - ?x) (stc_incoming ?s)"
      using 1(1) [OF False HOL.refl r [symmetric] HOL.refl] 1(2) le unfolding inc by auto
    have "take ?x ?i @ take (n - ?x) (drop ?x ?i) = take n ?i" using take_add [of ?x "n - ?x" ?i] by simp
    then show ?thesis using ih False r inc by (subst get_loop.simps) (simp add: Let_def)
  qed
qed

lemma resp_read_some:
  assumes "resp_read s = (Some resp, s')"
  shows "\<exists>sc. RESP_SZ \<le> length (stc_incoming s) \<and> resp = resp_of (take RESP_SZ (stc_incoming s)) \<and> resp_valid resp \<and>
    s' = s\<lparr>st_script := sc, st_rcvd := st_rcvd s + RESP_SZ\<rparr>"
  using assms unfolding resp_read_def by (auto dest!: net_read_some split: prod.splits option.splits if_splits)

lemma resp_read_quiet:
  assumes "st_script s = []" "stc_incoming s = resp_bytes r @ x" "resp_wf r" "rs_magic r = CHUNKD_MAGIC"
  shows "resp_read s = (Some r, s\<lparr>st_rcvd := st_rcvd s + RESP_SZ\<rparr>)"
proof -
  have l: "length (resp_bytes r) = RESP_SZ" using length_resp_bytes [OF assms(3)] by (simp add: RESP_SZ_def)
  have "net_read RESP_SZ s = (Some (take RESP_SZ (stc_incoming s)), s\<lparr>st_rcvd := st_rcvd s + RESP_SZ\<rparr>)"
    by (rule net_read_quiet [OF assms(1)]) (simp add: assms(2) l)
  moreover have "take RESP_SZ (stc_incoming s) = resp_bytes r" by (simp add: assms(2) l)
  moreover have "resp_of (resp_bytes r) = r" using resp_of_bytes [OF assms(3), of "[]"] by simp
  ultimately show ?thesis using assms(4) by (simp add: resp_read_def resp_valid_def)
qed

text \<open>Fields of a get request.\<close>

definition get_fields :: "chunksrv_req \<Rightarrow> chunksrv_req" where
  "get_fields r = r\<lparr>rq_op := CHO_GET\<rparr>"

lemma fields_plain: "plain_req (get_fields (req_zero n))" "plain_req (put_fields l fl (req_zero n))"
  "rq_op (get_fields (req_zero n)) \<noteq> CHO_GET_PART" "rq_op (put_fields l fl (req_zero n)) \<noteq> CHO_GET_PART"
  by (simp_all add: get_fields_def put_fields_def req_zero_def plain_req_def cfg_simps)

lemma key_len: "stc_key_valid key \<Longrightarrow> length key \<le> CHD_KEY_SZ" "stc_key_valid key \<longleftrightarrow> key_valid key"
  by (simp_all add: stc_key_valid_def key_valid_def)

lemma get_rest_some:
  assumes "get_resp_rest s = Some (Inr (Some n, s'))"
  shows "\<exists>sc. let h = take RESP_SZ (stc_incoming s) in 56 \<le> length (stc_incoming s) \<and> resp_valid (resp_of h) \<and>
    rs_resp_code (resp_of h) = errcode_num che_Success \<and> n = rs_data_len (resp_of h) \<and> s' = s\<lparr>st_script := sc, st_rcvd := st_rcvd s + 56\<rparr>"
proof -
  obtain r s1 m where r: "resp_read s = (Some r, s1)" "rs_resp_code r = errcode_num che_Success" "net_read 8 s1 = (Some m, s')" "n = rs_data_len r"
    using assms unfolding get_resp_rest_def by (auto simp: run_simps split: prod.splits option.splits if_splits)
  obtain sc where s1: "RESP_SZ \<le> length (stc_incoming s)" "r = resp_of (take RESP_SZ (stc_incoming s))" "resp_valid r"
      "s1 = s\<lparr>st_script := sc, st_rcvd := st_rcvd s + RESP_SZ\<rparr>"
    using resp_read_some [OF r(1)] by blast
  have inc: "stc_incoming s1 = drop RESP_SZ (stc_incoming s)" by (simp add: s1(4) stc_incoming_def add.commute)
  obtain sc' where s2: "8 \<le> length (stc_incoming s1)" "s' = s1\<lparr>st_script := sc', st_rcvd := st_rcvd s1 + 8\<rparr>"
    using net_read_some [OF r(3)] by blast
  have "s' = s\<lparr>st_script := sc', st_rcvd := st_rcvd s + 56\<rparr>" using s2(2) s1(4) by (cases s) (simp add: RESP_SZ_def)
  then show ?thesis using s1 s2(1) r(2,4) unfolding inc Let_def by (auto simp: RESP_SZ_def)
qed

lemma get_req_some:
  assumes "hmac_text hmac" "stc_wf s" "stc_get_req hmac key s = Some (Inr (Some n, s'))"
  shows "\<exists>s1. key_valid key \<and> st_sent s1 = st_sent s @ req_bytes (call_req hmac get_fields key [] s) @ key \<and> st_rcvd s1 = st_rcvd s \<and>
    st_peer s1 = st_peer s \<and> stc_wf s1 \<and> get_resp_rest s1 = Some (Inr (Some n, s'))"
proof -
  have k: "stc_key_valid key" using assms(3) by (auto simp: stc_get_req_def rret_def split: if_splits)
  let ?R = "call_req hmac get_fields key [] s"
  let ?s = "s\<lparr>st_calls := Suc (st_calls s), st_req_buf := req_bytes ?R @ key @ [] @ drop (CHUNKSRV_REQ_SZ + length key + length ([] :: bytes)) (st_req_buf s)\<rparr>"
  have sub: "stc_submit hmac get_fields (Some key) [] s = Some (Inr (net_write (req_bytes ?R @ key) ?s))"
    using submit_eq [where f = get_fields and s = s, OF fields_plain(1) assms(1,2) key_len(1) [OF k], of "[]"] fields_plain(3) by simp
  obtain ok s1 where w: "net_write (req_bytes ?R @ key) ?s = (ok, s1)" by fastforce
  have ok: "ok" "get_resp_rest s1 = Some (Inr (Some n, s'))"
    using assms(3) k sub w unfolding stc_get_req_def get_fields_def [abs_def, symmetric]
    by (auto simp: rbind_def rret_def split: if_splits)
  have "stc_wf s1"
    by (rule submit_wf [OF w assms(2)]) (use signed_wf [OF fields_plain(1) assms(1)] key_len(1) [OF k] in \<open>simp_all add: call_req_def\<close>)
  moreover have "net_write (req_bytes ?R @ key) ?s = (True, s1)" using w ok(1) by simp
  from net_write_sent [OF this] obtain sc where "s1 = ?s\<lparr>st_script := sc, st_sent := st_sent ?s @ req_bytes ?R @ key\<rparr>" ..
  ultimately show ?thesis using k ok(2) by (intro exI [of _ s1]) (simp add: key_len)
qed

lemma get_parts:
  assumes "hmac_text hmac" "stc_wf s" "stc_get_inline hmac key s = Some (Inr (Some d, s'))"
  shows "st_sent s' = st_sent s @ req_bytes (call_req hmac get_fields key [] s) @ key"
    "\<exists>h m. take (56 + length d) (drop (st_rcvd s) (st_peer s (st_sent s'))) = h @ m @ d \<and> length h = RESP_SZ \<and> length m = 8 \<and>
       resp_valid (resp_of h) \<and> rs_resp_code (resp_of h) = errcode_num che_Success \<and> unat (rs_data_len (resp_of h)) = length d"
    "st_rcvd s' = st_rcvd s + 56 + length d" "stc_wf s'"
proof -
  obtain n s2 cbs where g: "stc_get_req hmac key s = Some (Inr (Some n, s2))" "get_loop (unat n) [] s2 = ((True, cbs), s')" "d = concat cbs"
    using assms(3) unfolding stc_get_inline_def stc_get_def
    by (auto simp: rbind_def rret_def rcall_def fold_all_data split: option.splits sum.splits prod.splits if_splits)
  obtain s1 where s1: "st_sent s1 = st_sent s @ req_bytes (call_req hmac get_fields key [] s) @ key" "st_rcvd s1 = st_rcvd s"
      "st_peer s1 = st_peer s" "stc_wf s1" "get_resp_rest s1 = Some (Inr (Some n, s2))"
    using get_req_some [OF assms(1,2) g(1)] by blast
  let ?i = "stc_incoming s1"
  let ?h = "take RESP_SZ ?i"
  obtain sc where h: "56 \<le> length ?i" "resp_valid (resp_of ?h)" "rs_resp_code (resp_of ?h) = errcode_num che_Success" "n = rs_data_len (resp_of ?h)"
      "s2 = s1\<lparr>st_script := sc, st_rcvd := st_rcvd s1 + 56\<rparr>"
    using get_rest_some [OF s1(5)] by (auto simp: Let_def)
  have inc: "stc_incoming s2 = drop 56 ?i" by (simp add: h(5) stc_incoming_def add.commute)
  obtain sc' where l: "unat n \<le> length (stc_incoming s2)" "concat cbs = take (unat n) (stc_incoming s2)"
      "s' = s2\<lparr>st_script := sc', st_rcvd := st_rcvd s2 + unat n\<rparr>"
    using get_loop_some [OF g(2)] by auto
  have ld: "length d = unat n" using g(3) l(1,2) by simp
  show "st_sent s' = st_sent s @ req_bytes (call_req hmac get_fields key [] s) @ key" "st_rcvd s' = st_rcvd s + 56 + length d" "stc_wf s'"
    using s1 by (simp_all add: l(3) h(5) ld stc_wf_def)
  have st: "st_sent s' = st_sent s1" by (simp add: l(3) h(5))
  have i: "drop (st_rcvd s) (st_peer s (st_sent s')) = ?i" using s1(2,3) st by (simp add: stc_incoming_def)
  have "take (56 + length d) ?i = take 56 ?i @ d" using g(3) l(2) inc ld by (simp add: take_add)
  moreover have "take 56 ?i = ?h @ take 8 (drop RESP_SZ ?i)" using take_add [of RESP_SZ 8 ?i] by (simp add: RESP_SZ_def)
  ultimately have eq: "take (56 + length d) ?i = ?h @ take 8 (drop RESP_SZ ?i) @ d" by simp
  have len: "length ?h = RESP_SZ" "length (take 8 (drop RESP_SZ ?i)) = 8" using h(1) by (simp_all add: RESP_SZ_def)
  show "\<exists>h m. take (56 + length d) (drop (st_rcvd s) (st_peer s (st_sent s'))) = h @ m @ d \<and> length h = RESP_SZ \<and> length m = 8 \<and>
      resp_valid (resp_of h) \<and> rs_resp_code (resp_of h) = errcode_num che_Success \<and> unat (rs_data_len (resp_of h)) = length d"
    unfolding i using eq len h(2-4) ld by (intro exI [of _ ?h] exI [of _ "take 8 (drop RESP_SZ ?i)"]) simp
qed

section \<open>Sending data\<close>

lemma put_loop_inline:
  assumes "length d < 2 ^ 64"
  shows "\<exists>ok s'. put_loop read_inline_cb (word_of_nat (length d)) d s = Some (Inr (ok, s')) \<and>
    (ok \<longrightarrow> (\<exists>sc. s' = s\<lparr>st_script := sc, st_sent := st_sent s @ d\<rparr>)) \<and>
    (st_script s = [] \<longrightarrow> ok \<and> s' = s\<lparr>st_sent := st_sent s @ d\<rparr>)"
  using assms
proof (induction "length d" arbitrary: d s rule: less_induct)
  case less
  note unf = put_loop.simps [of read_inline_cb "word_of_nat (length d)" d s]
  have n: "unat (word_of_nat (length d) :: u64) = length d" using less(2) by (intro unat_small) simp
  show ?case
  proof (cases "d = []")
    case True
    have "put_loop read_inline_cb 0 [] s = Some (Inr (True, s))" by (subst put_loop.simps) (simp add: rret_def)
    then show ?thesis unfolding True by (intro exI [of _ True] exI [of _ s] conjI impI exI [of _ "st_script s"]) simp_all
  next
    case False
    let ?x = "min (length d) NETBUF_SZ"
    have nz: "(word_of_nat (length d) :: u64) \<noteq> 0" using n False by (metis length_0_conv unsigned_0)
    have x: "0 < ?x" using False by (simp add: NETBUF_SZ_def)
    have x0: "?x \<noteq> 0" using x by linarith
    have cb: "read_inline_cb (min (unat (word_of_nat (length d) :: u64)) NETBUF_SZ) d = (take ?x d, drop ?x d)"
      by (simp add: n read_inline_cb_def Let_def)
    have sub: "(word_of_nat (length d) :: u64) - word_of_nat (length (take ?x d)) = word_of_nat (length (drop ?x d))" by (simp add: of_nat_diff)
    have lt: "length (drop ?x d) < length d" "length (drop ?x d) < 2 ^ 64" using x less(2) by auto
    obtain ok s1 where w: "net_write (take ?x d) s = (ok, s1)" by fastforce
    show ?thesis
    proof (cases ok)
      case False
      then have "st_script s \<noteq> []" using net_write_quiet [of s "take ?x d"] w by auto
      moreover have "put_loop read_inline_cb (word_of_nat (length d)) d s = Some (Inr (False, s1))"
        using False w nz unfolding unf cb by (simp add: rret_def x0 \<open>d \<noteq> []\<close>)
      ultimately show ?thesis by blast
    next
      case True
      obtain ok' s' where ih: "put_loop read_inline_cb (word_of_nat (length (drop ?x d))) (drop ?x d) s1 = Some (Inr (ok', s'))"
          "ok' \<longrightarrow> (\<exists>sc. s' = s1\<lparr>st_script := sc, st_sent := st_sent s1 @ drop ?x d\<rparr>)"
          "st_script s1 = [] \<longrightarrow> ok' \<and> s' = s1\<lparr>st_sent := st_sent s1 @ drop ?x d\<rparr>"
        using less(1) [OF lt, of s1] by blast
      have run: "put_loop read_inline_cb (word_of_nat (length d)) d s = Some (Inr (ok', s'))"
        using w True nz ih(1) unfolding unf cb by (simp only: if_False prod.case sub) (simp add: x0 \<open>d \<noteq> []\<close>)
      have "net_write (take ?x d) s = (True, s1)" using w True by simp
      from net_write_sent [OF this] obtain sc where s1: "s1 = s\<lparr>st_script := sc, st_sent := st_sent s @ take ?x d\<rparr>" ..
      have cat: "(st_sent s @ take ?x d) @ drop ?x d = st_sent s @ d" by simp
      have "\<exists>sc. s' = s\<lparr>st_script := sc, st_sent := st_sent s @ d\<rparr>" if o: "ok'"
      proof -
        obtain sc' where "s' = s1\<lparr>st_script := sc', st_sent := st_sent s1 @ drop ?x d\<rparr>" using ih(2) o by blast
        then have "s' = s\<lparr>st_script := sc', st_sent := st_sent s @ d\<rparr>" unfolding s1 using cat by (cases s) simp
        then show ?thesis ..
      qed
      moreover have "ok' \<and> s' = s\<lparr>st_sent := st_sent s @ d\<rparr>" if q: "st_script s = []"
      proof -
        have "s1 = s\<lparr>st_sent := st_sent s @ take ?x d\<rparr>" using net_write_quiet [OF q, of "take ?x d"] w by simp
        then show ?thesis using ih(3) q cat by (cases s) simp
      qed
      ultimately show ?thesis using run by blast
    qed
  qed
qed

lemma reply_some:
  assumes "stc_reply s = Some (Inr (True, s'))"
  shows "\<exists>sc. let h = take RESP_SZ (stc_incoming s) in RESP_SZ \<le> length (stc_incoming s) \<and> resp_valid (resp_of h) \<and>
    rs_resp_code (resp_of h) = errcode_num che_Success \<and> s' = s\<lparr>st_script := sc, st_rcvd := st_rcvd s + RESP_SZ\<rparr>"
  using assms unfolding stc_reply_def
  by (auto simp: run_simps Let_def dest!: resp_read_some split: prod.splits option.splits)

lemma reply_returns: "\<exists>ok s'. stc_reply s = Some (Inr (ok, s'))"
  by (auto simp: stc_reply_def run_simps split: prod.splits option.splits)

text \<open>The state in which a call leaves the buffer, before it writes.\<close>

definition built :: "stc \<Rightarrow> chunksrv_req \<Rightarrow> bytes \<Rightarrow> stc" where
  "built s r key = s\<lparr>st_calls := Suc (st_calls s), st_req_buf := req_bytes r @ key @ drop (CHUNKSRV_REQ_SZ + length key) (st_req_buf s)\<rparr>"

lemma built_sel [simp]:
  "st_script (built s r key) = st_script s" "st_sent (built s r key) = st_sent s" "st_rcvd (built s r key) = st_rcvd s"
  "st_peer (built s r key) = st_peer s" "st_key (built s r key) = st_key s" "st_rand (built s r key) = st_rand s" "st_calls (built s r key) = Suc (st_calls s)"
  by (simp_all add: built_def)

lemma built_wf: "stc_wf s \<Longrightarrow> req_wf r \<Longrightarrow> length key \<le> CHD_KEY_SZ \<Longrightarrow> stc_wf (built s r key)"
  by (simp add: stc_wf_def built_def length_req_bytes cfg_simps)

lemma submit_built:
  assumes "plain_req (f (req_zero (st_rand s (st_calls s))))" "hmac_text hmac" "stc_wf s" "stc_key_valid key"
    "rq_op (f (req_zero (st_rand s (st_calls s)))) \<noteq> CHO_GET_PART"
  shows "stc_submit hmac f (Some key) [] s =
    Some (Inr (net_write (req_bytes (call_req hmac f key [] s) @ key) (built s (call_req hmac f key [] s) key)))"
  using submit_eq [where f = f and s = s, OF assms(1-3) key_len(1) [OF assms(4)], of "[]"] assms(5) by (simp add: built_def)

lemma call_wf: "plain_req (f (req_zero (st_rand s (st_calls s)))) \<Longrightarrow> hmac_text hmac \<Longrightarrow> req_wf (call_req hmac f key extra s)"
  unfolding call_req_def by (rule signed_wf)

lemma put_returns:
  assumes "hmac_text hmac" "stc_wf s" "key_valid key" "length d < 2 ^ 64"
  shows "\<exists>ok s'. stc_put_inline hmac key d flags s = Some (Inr (ok, s')) \<and>
    (ok \<longrightarrow> (\<exists>s2. st_sent s2 = st_sent s @ req_bytes (call_req hmac (put_fields (word_of_nat (length d)) flags) key [] s) @ key @ d \<and>
       st_rcvd s2 = st_rcvd s \<and> st_peer s2 = st_peer s \<and> stc_wf s2 \<and> stc_reply s2 = Some (Inr (True, s'))))"
proof -
  let ?f = "put_fields (word_of_nat (length d)) flags"
  let ?R = "call_req hmac ?f key [] s"
  have k: "stc_key_valid key" "length key \<le> CHD_KEY_SZ" using assms(3) key_len by blast+
  note sub = submit_built [where f = ?f and s = s, OF fields_plain(2) assms(1,2) k(1) fields_plain(4)]
  have wf: "stc_wf (built s ?R key)" by (rule built_wf [OF assms(2) call_wf [where f = ?f and s = s, OF fields_plain(2) assms(1)] k(2)])
  obtain ok s1 where w: "net_write (req_bytes ?R @ key) (built s ?R key) = (ok, s1)" by fastforce
  show ?thesis
  proof (cases ok)
    case False
    then show ?thesis using sub w k(1) unfolding stc_put_inline_def stc_put_def and_then_def by (auto simp: run_simps)
  next
    case True
    then have "net_write (req_bytes ?R @ key) (built s ?R key) = (True, s1)" using w by simp
    from net_write_sent [OF this] obtain sc where s1: "s1 = (built s ?R key)\<lparr>st_script := sc, st_sent := st_sent s @ req_bytes ?R @ key\<rparr>" by auto
    obtain ok2 s2 where p: "put_loop read_inline_cb (word_of_nat (length d)) d s1 = Some (Inr (ok2, s2))"
        "ok2 \<longrightarrow> (\<exists>sc. s2 = s1\<lparr>st_script := sc, st_sent := st_sent s1 @ d\<rparr>)"
      using put_loop_inline [OF assms(4)] by blast
    obtain ok3 s3 where r: "stc_reply s2 = Some (Inr (ok3, s3))" using reply_returns by blast
    have run: "stc_put_inline hmac key d flags s = Some (Inr (ok2 \<and> ok3, if ok2 then s3 else s2))"
      using sub w True k(1) p(1) r unfolding stc_put_inline_def stc_put_def and_then_def by (simp add: run_simps)
    have st: "st_sent s2 = st_sent s @ req_bytes ?R @ key @ d" "st_rcvd s2 = st_rcvd s" "st_peer s2 = st_peer s" "stc_wf s2" if "ok2"
      using p(2) that wf by (auto simp: s1 stc_wf_def)
    then show ?thesis using run r by (intro exI [of _ "ok2 \<and> ok3"] exI [of _ "if ok2 then s3 else s2"] conjI impI exI [of _ s2]) auto
  qed
qed

section \<open>Calls that succeed\<close>

text \<open>With a socket that works, a call succeeds if the peer answers with success; the client is ready for the next one.\<close>

definition after :: "stc \<Rightarrow> bytes \<Rightarrow> nat \<Rightarrow> stc \<Rightarrow> bool" where
  "after s out n s' \<longleftrightarrow> st_sent s' = st_sent s @ out \<and> st_rcvd s' = st_rcvd s + n \<and> st_script s' = [] \<and> st_peer s' = st_peer s \<and> st_key s' = st_key s \<and>
     st_rand s' = st_rand s \<and> st_calls s' = Suc (st_calls s) \<and> stc_wf s'"

lemma put_quiet:
  assumes "hmac_text hmac" "stc_wf s" "key_valid key" "length d < 2 ^ 64" "st_script s = []"
    and R: "R = call_req hmac (put_fields (word_of_nat (length d)) flags) key [] s"
    and "drop (st_rcvd s) (st_peer s (st_sent s @ req_bytes R @ key @ d)) = resp_bytes r @ x" "resp_wf r" "rs_magic r = CHUNKD_MAGIC"
      "rs_resp_code r = errcode_num che_Success"
  shows "\<exists>s'. stc_put_inline hmac key d flags s = Some (Inr (True, s')) \<and> after s (req_bytes R @ key @ d) RESP_SZ s'"
proof -
  let ?f = "put_fields (word_of_nat (length d)) flags"
  have k: "stc_key_valid key" "length key \<le> CHD_KEY_SZ" using assms(3) key_len by blast+
  note sub = submit_built [where f = ?f and s = s, OF fields_plain(2) assms(1,2) k(1) fields_plain(4), folded R]
  have wf: "stc_wf (built s R key)" unfolding R by (rule built_wf [OF assms(2) call_wf [where f = ?f and s = s, OF fields_plain(2) assms(1)] k(2)])
  let ?s1 = "(built s R key)\<lparr>st_sent := st_sent s @ req_bytes R @ key\<rparr>"
  let ?s2 = "?s1\<lparr>st_sent := st_sent ?s1 @ d\<rparr>"
  have w: "net_write (req_bytes R @ key) (built s R key) = (True, ?s1)" using net_write_quiet [of "built s R key" "req_bytes R @ key"] assms(5) by simp
  have p: "put_loop read_inline_cb (word_of_nat (length d)) d ?s1 = Some (Inr (True, ?s2))"
    using put_loop_inline [OF assms(4), of ?s1] assms(5) by auto
  have "stc_incoming ?s2 = resp_bytes r @ x" using assms(7) by (simp add: stc_incoming_def)
  from resp_read_quiet [OF _ this assms(8,9)] have rr: "resp_read ?s2 = (Some r, ?s2\<lparr>st_rcvd := st_rcvd ?s2 + RESP_SZ\<rparr>)" using assms(5) by simp
  have "stc_put_inline hmac key d flags s = Some (Inr (True, ?s2\<lparr>st_rcvd := st_rcvd ?s2 + RESP_SZ\<rparr>))"
    using sub w k(1) p rr assms(10) unfolding stc_put_inline_def stc_put_def and_then_def stc_reply_def by (simp add: run_simps)
  moreover have "after s (req_bytes R @ key @ d) RESP_SZ (?s2\<lparr>st_rcvd := st_rcvd ?s2 + RESP_SZ\<rparr>)"
    using wf assms(5) by (simp add: after_def stc_wf_def)
  ultimately show ?thesis by blast
qed

lemma get_quiet:
  assumes "hmac_text hmac" "stc_wf s" "key_valid key" "st_script s = []"
    and R: "R = call_req hmac get_fields key [] s"
    and "drop (st_rcvd s) (st_peer s (st_sent s @ req_bytes R @ key)) = resp_get_bytes r m @ d @ x" "resp_wf r" "rs_magic r = CHUNKD_MAGIC"
      "rs_resp_code r = errcode_num che_Success" "unat (rs_data_len r) = length d"
  shows "\<exists>s'. stc_get_inline hmac key s = Some (Inr (Some d, s')) \<and> after s (req_bytes R @ key) (56 + length d) s'"
proof -
  have k: "stc_key_valid key" "length key \<le> CHD_KEY_SZ" using assms(3) key_len by blast+
  note sub = submit_built [where f = get_fields and s = s, OF fields_plain(1) assms(1,2) k(1) fields_plain(3), folded R]
  have wf: "stc_wf (built s R key)" unfolding R by (rule built_wf [OF assms(2) call_wf [where f = get_fields and s = s, OF fields_plain(1) assms(1)] k(2)])
  let ?s1 = "(built s R key)\<lparr>st_sent := st_sent s @ req_bytes R @ key\<rparr>"
  let ?s2 = "?s1\<lparr>st_rcvd := st_rcvd ?s1 + RESP_SZ\<rparr>"
  let ?s3 = "?s2\<lparr>st_rcvd := st_rcvd ?s2 + 8\<rparr>"
  let ?s4 = "?s3\<lparr>st_rcvd := st_rcvd ?s3 + length d\<rparr>"
  have w: "net_write (req_bytes R @ key) (built s R key) = (True, ?s1)" using net_write_quiet [of "built s R key" "req_bytes R @ key"] assms(4) by simp
  have i1: "stc_incoming ?s1 = resp_bytes r @ le_bytes 8 m @ d @ x" using assms(6) by (simp add: stc_incoming_def resp_get_bytes_def)
  from resp_read_quiet [OF _ i1 assms(7,8)] have rr: "resp_read ?s1 = (Some r, ?s2)" using assms(4) by simp
  have l: "length (resp_bytes r) = RESP_SZ" using length_resp_bytes [OF assms(7)] by (simp add: RESP_SZ_def)
  have st: "stc_incoming (t\<lparr>st_rcvd := st_rcvd t + n\<rparr>) = drop n (stc_incoming t)" for t n by (simp add: stc_incoming_def add.commute)
  have i2: "stc_incoming ?s2 = le_bytes 8 m @ d @ x" using st [of ?s1 RESP_SZ] i1 l by simp
  have i3: "stc_incoming ?s3 = d @ x" using st [of ?s2 8] i2 by simp
  have n8: "net_read 8 ?s2 = (Some (take 8 (stc_incoming ?s2)), ?s3)" using assms(4) i2 by (intro net_read_quiet) simp_all
  have q3: "st_script ?s3 = []" using assms(4) by simp
  have le: "length d \<le> length (stc_incoming ?s3)" unfolding i3 by simp
  obtain cbs where g: "get_loop (length d) [] ?s3 = ((True, cbs), ?s4)" "concat cbs = d"
    using get_loop_quiet [OF q3 le, of "[]"] unfolding i3 by auto
  have rest: "get_resp_rest ?s1 = Some (Inr (Some (rs_data_len r), ?s3))"
    using rr n8 assms(9) unfolding get_resp_rest_def by (simp add: run_simps)
  have req: "stc_get_req hmac key s = Some (Inr (Some (rs_data_len r), ?s3))"
    using k(1) sub w rest unfolding stc_get_req_def get_fields_def [abs_def, symmetric] by (simp add: rbind_def)
  have "stc_get_inline hmac key s = Some (Inr (Some d, ?s4))"
    using req g assms(10) unfolding stc_get_inline_def stc_get_def by (simp add: run_simps fold_all_data)
  moreover have "after s (req_bytes R @ key) (56 + length d) ?s4"
    using wf assms(4) by (simp add: after_def stc_wf_def RESP_SZ_def)
  ultimately show ?thesis by blast
qed

section \<open>Properties\<close>

text \<open>
  C23: a successful \<^verbatim>\<open>stc_get_inline\<close> returns exactly what the server sent. Whatever the socket does and whatever the peer
  answers, the library has sent one request for the key, signed with the secret, and the data it returns is the part of
  the answer that follows a valid header with the code of success, as long as the header says.
\<close>

theorem get_exact:
  assumes "hmac_text hmac" "stc_wf s" "stc_get_inline hmac key s = Some (Inr (Some d, s'))"
  shows "st_sent s' = st_sent s @ req_bytes (call_req hmac get_fields key [] s) @ key \<and>
    (\<exists>h m. take (56 + length d) (drop (st_rcvd s) (st_peer s (st_sent s'))) = h @ m @ d \<and> length h = RESP_SZ \<and> length m = 8 \<and>
       resp_valid (resp_of h) \<and> rs_resp_code (resp_of h) = errcode_num che_Success \<and> unat (rs_data_len (resp_of h)) = length d) \<and>
    st_rcvd s' = st_rcvd s + 56 + length d \<and> stc_wf s'"
  using get_parts [OF assms] by blast


section \<open>Examples\<close>

text \<open>A client, and a peer that answers everything with the same object.\<close>

definition demo_client :: "(bytes \<Rightarrow> bytes) \<Rightarrow> stc" where
  "demo_client peer = \<lparr>st_user = [117], st_key = [117], st_ssl = False, st_closes = 0, st_req_buf = replicate STC_REQ_BUF_SZ 0, st_peer = peer, st_sent = [],
     st_rcvd = 0, st_script = [], st_rand = (\<lambda>_. 5), st_calls = 0, st_mem = []\<rparr>"

definition demo_answer :: chunksrv_resp where
  "demo_answer = \<lparr>rs_magic = CHUNKD_MAGIC, rs_resp_code = 0, rs_flags = 0, rs_nonce = 5, rs_data_len = 3, rs_hash = replicate 20 0\<rparr>"

definition demo_peer :: "bytes \<Rightarrow> bytes" where
  "demo_peer sent = resp_get_bytes demo_answer 7 @ [1, 2, 3]"

definition demo_mac :: "bytes \<Rightarrow> bytes \<Rightarrow> bytes" where
  "demo_mac k d = [65]"

lemma demo_answer_ok: "resp_wf demo_answer" "rs_magic demo_answer = CHUNKD_MAGIC" "rs_resp_code demo_answer = errcode_num che_Success" "unat (rs_data_len demo_answer) = length [1, 2, 3 :: u8]"
  by (simp_all add: demo_answer_def resp_wf_def CHD_CSUM_SZ_def)

lemma demo_client_ok: "stc_wf (demo_client p)" "st_script (demo_client p) = []" "hmac_text demo_mac" "key_valid [107]"
  by (simp_all add: demo_client_def stc_wf_def hmac_text_def demo_mac_def CHD_SIG_SZ_def key_valid_def CHD_KEY_SZ_def)

theorem get_exact_witness:
  "\<exists>s'. stc_get_inline demo_mac [107] (demo_client demo_peer) = Some (Inr (Some [1, 2, 3], s')) \<and>
    st_sent s' = req_bytes (call_req demo_mac get_fields [107] [] (demo_client demo_peer)) @ [107] \<and> st_rcvd s' = 59"
proof -
  have "drop (st_rcvd (demo_client demo_peer)) (st_peer (demo_client demo_peer) x) = resp_get_bytes demo_answer 7 @ [1, 2, 3] @ []" for x
    by (simp add: demo_client_def demo_peer_def)
  from get_quiet [OF demo_client_ok(3,1,4,2) HOL.refl this demo_answer_ok] obtain s' where
    "stc_get_inline demo_mac [107] (demo_client demo_peer) = Some (Inr (Some [1, 2, 3], s'))" by blast
  with get_exact [OF demo_client_ok(3,1) this] show ?thesis by (auto simp: demo_client_def)
qed


end
