(* ===== verification/Chunk_End.thy ===== *)
theory Chunk_End
  imports Chunk_Call Chunk_Session
begin

text \<open>
  The client library and the daemon together: the peer of the client is the daemon's end of the connection, and what
  the application stores is what it gets back.
\<close>

section \<open>The daemon as a peer\<close>

text \<open>
  What the daemon has sent on a connection once it has taken in all of \<open>inp\<close>, in some pieces, and waits for more.
\<close>

definition settles :: "'d chenv \<Rightarrow> 'd conn \<Rightarrow> bytes \<Rightarrow> bytes set" where
  "settles E s inp = {cl_sent s' | ps n s'. pieces ps \<and> concat ps = inp \<and>
     cli_events E (replicate n (True, False)) (s\<lparr>cl_rds := map Inr ps\<rparr>) = Some (Inr ((), s')) \<and> waiting E s'}"

text \<open>The peer of the client is the daemon, whose end of the connection is in state \<open>s\<close> when the client starts.\<close>

definition linked :: "'d chenv \<Rightarrow> 'd conn \<Rightarrow> stc \<Rightarrow> bool" where
  "linked E s c \<longleftrightarrow> st_rcvd c = length (cl_sent s) \<and>
     (\<forall>inp. settles E s inp \<noteq> {} \<longrightarrow> st_peer c (st_sent c @ inp) \<in> settles E s inp)"

lemma events_add:
  "cli_events E (replicate (n + m) (True, False)) s =
   rbind (cli_events E (replicate n (True, False))) (\<lambda>_. cli_events E (replicate m (True, False))) s"
proof (induction n arbitrary: s)
  case 0
  then show ?case by (simp add: rbind_def rret_def)
next
  case (Suc n)
  show ?case
  proof (cases "cl_freed s")
    case True
    then show ?thesis using freed_events [OF True, of E "Suc n + m"] freed_events [OF True, of E "Suc n"] freed_events [OF True, of E m]
      by (simp add: rbind_def del: replicate_Suc)
  next
    case False
    then show ?thesis by (simp add: Suc rbind_def split: option.splits sum.splits prod.splits)
  qed
qed

text \<open>The state in which the daemon waits does not depend on how often it is woken up.\<close>

lemma settled_unique:
  assumes "cli_events E (replicate n (True, False)) s = Some (Inr ((), v))" "waiting E v"
    "cli_events E (replicate m (True, False)) s = Some (Inr ((), w))" "waiting E w"
  shows "v = w"
proof -
  have *: "v = w" if "n \<le> m" "cli_events E (replicate n (True, False)) s = Some (Inr ((), v))" "waiting E v"
    "cli_events E (replicate m (True, False)) s = Some (Inr ((), w))" for n m v w
    using that events_add [of E n "m - n" s] waiting_events [OF that(3), of "m - n"] by (simp add: rbind_def)
  show ?thesis using * [OF _ assms(1,2,3)] * [OF _ assms(3,4,1)] by (cases "n \<le> m") auto
qed

lemma settles_only:
  assumes "\<And>ps. pieces ps \<Longrightarrow> concat ps = inp \<Longrightarrow>
      \<exists>n s'. cli_events E (replicate n (True, False)) (s\<lparr>cl_rds := map Inr ps\<rparr>) = Some (Inr ((), s')) \<and> waiting E s' \<and> Q (cl_sent s')"
    and "inp \<noteq> []"
  shows "settles E s inp \<noteq> {}" "out \<in> settles E s inp \<Longrightarrow> Q out"
proof -
  have "pieces [inp]" "concat [inp] = inp" using assms(2) by (simp_all add: pieces_def)
  then show "settles E s inp \<noteq> {}" using assms(1) unfolding settles_def by blast
  show "Q out" if mem: "out \<in> settles E s inp"
  proof -
    obtain ps n s' where o: "out = cl_sent s'" "pieces ps" "concat ps = inp"
      "cli_events E (replicate n (True, False)) (s\<lparr>cl_rds := map Inr ps\<rparr>) = Some (Inr ((), s'))" "waiting E s'"
      using mem unfolding settles_def by blast
    obtain m w where "cli_events E (replicate m (True, False)) (s\<lparr>cl_rds := map Inr ps\<rparr>) = Some (Inr ((), w))" "waiting E w" "Q (cl_sent w)"
      using assms(1) [OF o(2,3)] by blast
    with settled_unique [OF o(4,5)] o(1) show ?thesis by blast
  qed
qed

section \<open>Storing and fetching\<close>

lemma session_rds [simp]: "session user tbl held (s\<lparr>cl_rds := r\<rparr>) = session user tbl held s"
  by (simp add: session_def idle_def in_ok_def live_def)

lemma signed_call:
  assumes "plain_req (f (req_zero (st_rand c (st_calls c))))" "hmac_text (ch_hmac E)" "st_key c = user"
  shows "signed_by E user (call_req (ch_hmac E) f key [] c) key"
proof -
  let ?r = "f (req_zero (st_rand c (st_calls c)))" and ?R = "call_req (ch_hmac E) f key [] c"
  have "?R\<lparr>rq_sig := replicate CHD_SIG_SZ 0\<rparr> = ?r\<lparr>rq_key_len := word_of_nat (length key)\<rparr>"
    using assms(1) by (cases ?r) (simp add: call_req_def signed_req_def Let_def plain_req_def)
  then show ?thesis using signed_valid [OF assms(1,2), of user key "[]"] assms(3) by (simp add: signed_by_def call_req_def)
qed

lemma put_settles:
  assumes "sha_len (ch_fs E)" "session user tbl held s" "length user < 128" "0 \<notin> set user" "key_valid key" "length d < 2 ^ 43"
    "fy_names (cs_fs s) (obj_dir (ch_fs E) tbl key) = None" "fy_names (cs_fs s) (obj_path (ch_fs E) tbl key) = None"
    "req_wf put" "rq_op put = CHO_PUT" "rq_key_len put = word_of_nat (length key)" "rq_data_len put = word_of_nat (length d)" "signed_by E user put key"
    "pieces ps" "concat ps = req_bytes put @ key @ d"
  shows "\<exists>n s'. cli_events E (replicate n (True, False)) (s\<lparr>cl_rds := map Inr ps\<rparr>) = Some (Inr ((), s')) \<and> waiting E s' \<and>
     cl_sent s' = cl_sent s @ resp_bytes ((resp_init_req put)\<lparr>rs_hash := ce_sha1 (ch_fs E) d\<rparr>)"
proof -
  let ?s = "s\<lparr>cl_rds := map Inr ps\<rparr>"
  have a: "session user tbl held ?s" "fy_names (cs_fs ?s) (obj_dir (ch_fs E) tbl key) = None" "fy_names (cs_fs ?s) (obj_path (ch_fs E) tbl key) = None"
    "cl_rds ?s = map Inr ps" "concat ps = req_bytes put @ key @ d @ []" using assms by simp_all
  from put_polls [OF assms(1) a(1) assms(3-5,11,6,12) a(2,3) assms(9,10,13) a(4) assms(14) a(5)]
  obtain qs v where v: "pieces qs" "concat qs = []" "polls E ?s v" "cl_rds v = map Inr qs" "session user tbl held v"
    "cl_sent v = cl_sent s @ resp_bytes ((resp_init_req put)\<lparr>rs_hash := ce_sha1 (ch_fs E) d\<rparr>)" by auto
  have "cl_rds v = []" using no_pieces [OF v(1,2)] v(4) by simp
  then have w: "waiting E v" using v(5) by (intro idle_waiting) (simp_all add: session_def)
  from polls_events [OF v(3) w] w v(6) show ?thesis by blast
qed

lemma put_get_settles:
  assumes "sha_len (ch_fs E)" "\<not> ch_sendfile E" "session user tbl held s" "length user < 128" "0 \<notin> set user" "key_valid key" "length d < 2 ^ 43"
    "fy_names (cs_fs s) (obj_dir (ch_fs E) tbl key) = None" "fy_names (cs_fs s) (obj_path (ch_fs E) tbl key) = None"
    "req_wf put" "rq_op put = CHO_PUT" "rq_key_len put = word_of_nat (length key)" "rq_data_len put = word_of_nat (length d)" "signed_by E user put key"
    "req_wf get" "rq_op get = CHO_GET" "rq_key_len get = word_of_nat (length key)" "signed_by E user get key"
    "pieces ps" "concat ps = req_bytes put @ key @ d @ req_bytes get @ key"
  shows "\<exists>n s'. cli_events E (replicate n (True, False)) (s\<lparr>cl_rds := map Inr ps\<rparr>) = Some (Inr ((), s')) \<and> waiting E s' \<and>
     (\<exists>mtime. cl_sent s' = cl_sent s @ resp_bytes ((resp_init_req put)\<lparr>rs_hash := ce_sha1 (ch_fs E) d\<rparr>) @ get_resp get (ce_sha1 (ch_fs E) d) d mtime)"
proof -
  let ?s = "s\<lparr>cl_rds := map Inr ps\<rparr>"
  have a: "session user tbl held ?s" "fy_names (cs_fs ?s) (obj_dir (ch_fs E) tbl key) = None" "fy_names (cs_fs ?s) (obj_path (ch_fs E) tbl key) = None"
    "cl_rds ?s = map Inr ps" using assms by simp_all
  from put_get_polls [OF assms(1,2) a(1) assms(4-7) a(2,3) assms(10-18) a(4) assms(19,20)]
  obtain w mtime where "polls E ?s w" "waiting E w"
    "cl_sent w = cl_sent s @ resp_bytes ((resp_init_req put)\<lparr>rs_hash := ce_sha1 (ch_fs E) d\<rparr>) @ get_resp get (ce_sha1 (ch_fs E) d) d mtime" by auto
  then show ?thesis using polls_events by blast
qed


text \<open>A client that shares a secret with the daemon of the examples.\<close>

definition demo_hmac :: "unit chenv" where
  "demo_hmac = demo_chenv\<lparr>ch_hmac := \<lambda>k d. [65]\<rparr>"


end
