(* ===== verification/Cldc.thy ===== *)
theory Cldc
  imports Cld_State Run_Monad Dirdata
begin

text \<open>
  The client library of the lock service (\<^verbatim>\<open>lib/cldc.c\<close>, \<^verbatim>\<open>include/cldc.h\<close>): a session, its outgoing messages and
  their packets, the packets it receives, retransmission, and the calls. The state holds the session and the
  facilities the application supplies: what has been handed to \<^verbatim>\<open>pkt_send\<close>, the timer, and the callbacks made so
  far. Addresses of file handles are numbers. The XDR routines the build generates, HMAC and the values the
  application's callbacks return are in \<open>xenv\<close>.
\<close>

unbundle bit_operations_syntax

section \<open>Constants\<close>

definition CLDC_MSG_EXPIRE :: u64 where [cfg_simps]: "CLDC_MSG_EXPIRE = 300"
definition CLDC_MSG_SCAN :: u64 where [cfg_simps]: "CLDC_MSG_SCAN = 60"
definition CLDC_MSG_RETRY :: u64 where [cfg_simps]: "CLDC_MSG_RETRY = 5"
definition CLDC_MSG_REMEMBER :: u64 where [cfg_simps]: "CLDC_MSG_REMEMBER = 25"
definition CLDC_SESS_EXPIRE :: u64 where [cfg_simps]: "CLDC_SESS_EXPIRE = 120"
definition CLD_MAX_SECRET_KEY :: nat where [cfg_simps]: "CLD_MAX_SECRET_KEY = 128"
definition EACCES :: int where [cfg_simps]: "EACCES = 13"
definition EBADE :: int where [cfg_simps]: "EBADE = 52"
definition EBADRQC :: int where [cfg_simps]: "EBADRQC = 56"
definition EBADSLT :: int where [cfg_simps]: "EBADSLT = 57"
definition EPROTO :: int where [cfg_simps]: "EPROTO = 71"

section \<open>Data\<close>

text \<open>What a client sends (the structures of \<^verbatim>\<open>lib/cld_msg_rpc.x\<close>).\<close>

datatype cld_req =
    Call_void
  | Call_del bytes
  | Call_open u32 u32 bytes
  | Call_close u64
  | Call_lock u64 u32
  | Call_unlock u64
  | Call_put u64 bytes
  | Call_get u64

record xenv =
  x_hmac :: hmac
  x_rand :: rng
  x_hdr :: "cld_pkt_hdr \<Rightarrow> bytes option"
  x_req :: "cld_req \<Rightarrow> bytes option"
  x_dec_hdr :: "bytes \<Rightarrow> (cld_pkt_hdr \<times> nat) option"
  x_dec_generic :: "bytes \<Rightarrow> (u32 \<times> u64) option"
  x_dec_ack_frag :: "bytes \<Rightarrow> u64 option"
  x_dec_event :: "bytes \<Rightarrow> (u64 \<times> u32) option"
  x_dec_open :: "bytes \<Rightarrow> u64 option"
  x_dec_get :: "bytes \<Rightarrow> cld_msg_get_resp option"
  x_cb :: "nat \<Rightarrow> u32 \<Rightarrow> int"       \<comment> \<open>what the callback of a call returns for a code\<close>

record cldc_pkt =
  cp_data :: bytes
  cp_retries :: nat

text \<open>The callback of a message, with the address of the handle it is about.\<close>

datatype msg_cb = End_sess_cb | New_sess_cb | Generic_end_cb | Open_end_cb nat | Close_end_cb nat | Get_end_cb

text \<open>\<open>cm_copts\<close> identifies the application's call, if it has a callback.\<close>

record cldc_msg =
  cm_xid :: u64
  cm_op :: u32
  cm_cb :: msg_cb
  cm_copts :: "nat option"
  cm_done :: bool
  cm_expire_time :: u64
  cm_pkts :: "cldc_pkt option list"

record cldc_fh =
  cf_fh :: u64
  cf_valid :: bool

text \<open>What the application sees: a call completes with a code and, for \<^verbatim>\<open>cldc_get\<close>, the response; or an event.\<close>

datatype app_event = App_done nat u32 "cld_msg_get_resp option" | App_event "nat option" u32

record cldc =
  cc_freed :: bool
  cc_sid :: bytes
  cc_addr :: bytes
  cc_cfh :: "nat list"
  cc_fhs :: "nat \<rightharpoonup> cldc_fh"
  cc_out_msg :: "cldc_msg list"
  cc_msg_scan_time :: u64
  cc_expire_time :: u64
  cc_expired :: bool
  cc_next_seqid_in :: u64
  cc_next_seqid_in_tr :: u64
  cc_next_seqid_out :: u64
  cc_user :: bytes
  cc_secret_key :: bytes
  cc_confirmed :: bool
  cc_msg_buf_op :: u32
  cc_msg_buf :: bytes
  cc_now :: u64
  cc_mem :: mem
  cc_rnd :: nat
  cc_next_fh :: nat               \<comment> \<open>the address of the next handle\<close>
  cc_sends :: "int list"          \<comment> \<open>results of \<^verbatim>\<open>pkt_send\<close>, 0 at the end\<close>
  cc_sent :: "bytes list"
  cc_timer :: "u64 option"
  cc_app :: "app_event list"

definition cldc_alloc :: "cldc \<Rightarrow> bool \<times> cldc" where
  "cldc_alloc s = (case alloc (cc_mem s) of (ok, m) \<Rightarrow> (ok, s\<lparr>cc_mem := m\<rparr>))"

section \<open>Sending packets\<close>

definition sess_send_pkt :: "bytes \<Rightarrow> cldc \<Rightarrow> int \<times> cldc" where
  "sess_send_pkt pkt s =
     (let s = s\<lparr>cc_sent := cc_sent s @ [pkt]\<rparr> in
      case cc_sends s of [] \<Rightarrow> (0, s) | rc # rest \<Rightarrow> (rc, s\<lparr>cc_sends := rest\<rparr>))"

definition cldc_user_key :: "cldc \<Rightarrow> bytes \<Rightarrow> bytes option" where
  "cldc_user_key s user =
     (if user = [] \<or> length user \<ge> CLD_MAX_USERNAME then None
      else if strcmp (cc_user s) user \<noteq> 0 then None
      else Some (cc_secret_key s))"

definition cldc_hdr :: "cldc \<Rightarrow> u32 \<Rightarrow> u64 \<Rightarrow> u32 \<Rightarrow> cld_pkt_hdr" where
  "cldc_hdr s order xid op = \<lparr>ph_magic = CLD_PKT_MAGIC, ph_sid = cc_sid s, ph_user = cc_user s, ph_order = order, ph_mi = \<lparr>mi_xid = xid, mi_op = op\<rparr>\<rparr>"

text \<open>An acknowledgement repeats the sequence number of the packet. The session must still exist.\<close>

definition ack_seqid :: "xenv \<Rightarrow> u64 \<Rightarrow> (cldc, int) run" where
  "ack_seqid E seqid s =
     (if cc_freed s then rfault F_free s
      else
        case x_hdr E (cldc_hdr s CLD_PKT_ORD_FIRST_LAST 0 CMO_ACK) of
          None \<Rightarrow> rret (- 1009) s
        | Some hdr \<Rightarrow>
            if length hdr > CLD_MAX_PKT_MSG_SZ - CLD_PKT_FTR_LEN then rret (- 1009) s
            else
              let buf = hdr @ le_bytes 8 seqid in
              case cld_authsign (x_hmac E) (cldc_user_key s (cc_user s)) buf (replicate SHA_DIGEST_LENGTH 0xAA) of
                (rc, sha) \<Rightarrow> if rc \<noteq> 0 then rret rc s else rcall (sess_send_pkt (buf @ sha)) s)"

section \<open>Completion of messages\<close>

text \<open>A session is freed with its file handles and its messages.\<close>

definition sess_free :: "(cldc, unit) run" where
  "sess_free s = (if cc_freed s then rfault F_free s else rret () (s\<lparr>cc_freed := True, cc_fhs := cc_fhs s |` (- set (cc_cfh s)), cc_cfh := [], cc_out_msg := []\<rparr>))"

text \<open>The application's callback, if the call has one.\<close>

definition app_cb :: "xenv \<Rightarrow> cldc_msg \<Rightarrow> u32 \<Rightarrow> cld_msg_get_resp option \<Rightarrow> (cldc, int) run \<Rightarrow> (cldc, int) run" where
  "app_cb E msg resp_rc resp otherwise =
     (case cm_copts msg of
        None \<Rightarrow> otherwise
      | Some i \<Rightarrow> rbind (rmod (\<lambda>s. s\<lparr>cc_app := cc_app s @ [App_done i resp_rc resp]\<rparr>)) (\<lambda>_. rret (x_cb E i resp_rc)))"

definition end_sess_cb :: "xenv \<Rightarrow> cldc_msg \<Rightarrow> u32 \<Rightarrow> (cldc, int) run" where
  "end_sess_cb E msg resp_rc = app_cb E msg resp_rc None (rbind sess_free (\<lambda>_. rret 0))"

definition new_sess_cb :: "xenv \<Rightarrow> cldc_msg \<Rightarrow> u32 \<Rightarrow> (cldc, int) run" where
  "new_sess_cb E msg resp_rc =
     rbind (if resp_rc = cle_code CLE_OK then rmod (\<lambda>s. s\<lparr>cc_confirmed := True\<rparr>) else rret ()) (\<lambda>_.
     app_cb E msg resp_rc None (rret 0))"

definition generic_end_cb :: "xenv \<Rightarrow> cldc_msg \<Rightarrow> u32 \<Rightarrow> (cldc, int) run" where
  "generic_end_cb E msg resp_rc = app_cb E msg resp_rc None (rret 0)"

definition open_end_cb :: "xenv \<Rightarrow> cldc_msg \<Rightarrow> nat \<Rightarrow> bytes \<Rightarrow> u32 \<Rightarrow> (cldc, int) run" where
  "open_end_cb E msg fh resp_p resp_rc =
     (if resp_rc = cle_code CLE_OK
      then (case x_dec_open E resp_p of
              None \<Rightarrow> rret (- 1009)
            | Some h \<Rightarrow>
                rbind (rget cc_fhs) (\<lambda>fhs.
                if fhs fh = None then rfault F_free
                else
                  rbind (rmod (\<lambda>s. s\<lparr>cc_fhs := (cc_fhs s)(fh \<mapsto> \<lparr>cf_fh = h, cf_valid = True\<rparr>)\<rparr>)) (\<lambda>_.
                  app_cb E msg resp_rc None (rret 0))))
      else app_cb E msg resp_rc None (rret 0))"

text \<open>A handle is released only when the call that closes it has no callback.\<close>

definition close_end_cb :: "xenv \<Rightarrow> cldc_msg \<Rightarrow> nat \<Rightarrow> u32 \<Rightarrow> (cldc, int) run" where
  "close_end_cb E msg fh resp_rc =
     rbind (rget cc_fhs) (\<lambda>fhs.
     if fhs fh = None then rfault F_free
     else
       app_cb E msg resp_rc None
         (rbind (rmod (\<lambda>s. s\<lparr>cc_cfh := remove1 fh (cc_cfh s), cc_fhs := (cc_fhs s)(fh := None)\<rparr>)) (\<lambda>_. rret 0)))"

definition get_end_cb :: "xenv \<Rightarrow> cldc_msg \<Rightarrow> bytes \<Rightarrow> u32 \<Rightarrow> (cldc, int) run" where
  "get_end_cb E msg resp_p resp_rc =
     (if resp_rc = cle_code CLE_OK
      then (case x_dec_get E resp_p of
              None \<Rightarrow> rret (- 1009)
            | Some resp \<Rightarrow> app_cb E msg resp_rc (Some resp) (rret 0))
      else app_cb E msg resp_rc None (rret 0))"

definition msg_cb :: "xenv \<Rightarrow> cldc_msg \<Rightarrow> bytes \<Rightarrow> u32 \<Rightarrow> (cldc, int) run" where
  "msg_cb E msg resp_p resp_rc =
     (case cm_cb msg of
        End_sess_cb \<Rightarrow> end_sess_cb E msg resp_rc
      | New_sess_cb \<Rightarrow> new_sess_cb E msg resp_rc
      | Generic_end_cb \<Rightarrow> generic_end_cb E msg resp_rc
      | Open_end_cb fh \<Rightarrow> open_end_cb E msg fh resp_p resp_rc
      | Close_end_cb fh \<Rightarrow> close_end_cb E msg fh resp_rc
      | Get_end_cb \<Rightarrow> get_end_cb E msg resp_p resp_rc)"

section \<open>Received messages\<close>

text \<open>The first message with a transaction id, between those before and after it.\<close>

fun find_msg :: "u64 \<Rightarrow> cldc_msg list \<Rightarrow> (cldc_msg list \<times> cldc_msg \<times> cldc_msg list) option" where
  "find_msg xid [] = None"
| "find_msg xid (m # ms) =
     (if cm_xid m = xid then Some ([], m, ms)
      else case find_msg xid ms of None \<Rightarrow> None | Some (pre, r, post) \<Rightarrow> Some (m # pre, r, post))"

definition rxmsg_generic :: "xenv \<Rightarrow> u64 \<Rightarrow> (cldc, int) run" where
  "rxmsg_generic E seqid s =
     (case x_dec_generic E (cc_msg_buf s) of
        None \<Rightarrow> rret (- 1008) s
      | Some (code, xid_in) \<Rightarrow>
          (case find_msg xid_in (cc_out_msg s) of
             None \<Rightarrow> rret (- 1005) s
           | Some (pre, req, post) \<Rightarrow>
               if cm_done req then ack_seqid E seqid s
               else
                 rbind (msg_cb E (req\<lparr>cm_done := True\<rparr>) (cc_msg_buf s) code)
                   (\<lambda>rc. if rc < 0 then rret rc else ack_seqid E seqid)
                   (s\<lparr>cc_out_msg := pre @ req\<lparr>cm_done := True\<rparr> # post\<rparr>)))"

text \<open>
  The footer is looked for at an offset in units of its own size, not of bytes. Reading outside the packet's memory is a fault.
\<close>

definition frag_seqid :: "bytes \<Rightarrow> u64 option" where
  "frag_seqid data =
     (let ofs = (length data - CLD_PKT_FTR_LEN) * CLD_PKT_FTR_LEN in
      if ofs + 8 > length data then None else Some (of_le_bytes (take 8 (drop ofs data))))"

fun ack_frag_pkts :: "u64 \<Rightarrow> cldc_pkt option list \<Rightarrow> cldc_pkt option list option" where
  "ack_frag_pkts seqid [] = Some []"
| "ack_frag_pkts seqid (None # ps) = map_option ((#) None) (ack_frag_pkts seqid ps)"
| "ack_frag_pkts seqid (Some p # ps) =
     (case frag_seqid (cp_data p) of
        None \<Rightarrow> None
      | Some q \<Rightarrow> map_option ((#) (if q \<noteq> seqid then Some p else None)) (ack_frag_pkts seqid ps))"

fun ack_frag_msgs :: "u64 \<Rightarrow> cldc_msg list \<Rightarrow> cldc_msg list option" where
  "ack_frag_msgs seqid [] = Some []"
| "ack_frag_msgs seqid (m # ms) =
     (case ack_frag_pkts seqid (cm_pkts m) of
        None \<Rightarrow> None
      | Some ps \<Rightarrow> map_option ((#) (m\<lparr>cm_pkts := ps\<rparr>)) (ack_frag_msgs seqid ms))"

definition rxmsg_ack_frag :: "xenv \<Rightarrow> (cldc, int) run" where
  "rxmsg_ack_frag E s =
     (case x_dec_ack_frag E (cc_msg_buf s) of
        None \<Rightarrow> rret (- 1008) s
      | Some seqid \<Rightarrow>
          (case ack_frag_msgs seqid (cc_out_msg s) of
             None \<Rightarrow> rfault F_overflow s
           | Some ms \<Rightarrow> rret 0 (s\<lparr>cc_out_msg := ms\<rparr>)))"

text \<open>The handle an event is about; events are not acknowledged.\<close>

definition fh_by_num :: "u64 \<Rightarrow> cldc \<Rightarrow> nat option" where
  "fh_by_num n s = find (\<lambda>p. map_option cf_fh (cc_fhs s p) = Some n) (cc_cfh s)"

definition rxmsg_event :: "xenv \<Rightarrow> (cldc, int) run" where
  "rxmsg_event E s =
     (case x_dec_event E (cc_msg_buf s) of
        None \<Rightarrow> rret (- 1008) s
      | Some (n, events) \<Rightarrow>
          (case fh_by_num n s of
             None \<Rightarrow> rret (- 1011) s
           | Some fh \<Rightarrow> rret 0 (s\<lparr>cc_app := cc_app s @ [App_event (Some fh) events]\<rparr>)))"

definition rx_complete :: "xenv \<Rightarrow> u64 \<Rightarrow> (cldc, int) run" where
  "rx_complete E seqid s =
     (let op = cc_msg_buf_op s in
      if op = CMO_ACK then rret (- EBADRQC) s
      else if op = CMO_PING then ack_seqid E seqid s
      else if op = CMO_NOT_MASTER then rret (- 1055) s
      else if op = CMO_EVENT then rxmsg_event E s
      else if op = CMO_ACK_FRAG then rxmsg_ack_frag E s
      else rxmsg_generic E seqid s)"

section \<open>Receiving packets\<close>

text \<open>Messages that got no answer are dropped without a callback.\<close>

definition sess_expire_outmsg :: "u64 \<Rightarrow> cldc \<Rightarrow> cldc" where
  "sess_expire_outmsg current_time s =
     s\<lparr>cc_out_msg := filter (\<lambda>m. \<not> current_time > cm_expire_time m) (cc_out_msg s), cc_msg_scan_time := current_time + CLDC_MSG_SCAN\<rparr>"

text \<open>The comparison of sequence numbers is that of their signed difference.\<close>

definition seqid_after_eq :: "u64 \<Rightarrow> u64 \<Rightarrow> bool" where
  "seqid_after_eq a b \<longleftrightarrow> sint (a - b) \<ge> 0"

definition seqid_in_range :: "u64 \<Rightarrow> u64 \<Rightarrow> u64 \<Rightarrow> bool" where
  "seqid_in_range a b c \<longleftrightarrow> seqid_after_eq a b \<and> seqid_after_eq c a"

definition accept_seqid :: "u64 \<Rightarrow> u32 \<Rightarrow> cldc \<Rightarrow> int \<times> cldc" where
  "accept_seqid seqid op s =
     (if op = CMO_NEW_SESS
      then (0, s\<lparr>cc_next_seqid_in := seqid + 1, cc_next_seqid_in_tr := seqid + 1 - CLDC_MSG_REMEMBER\<rparr>)
      else if op = CMO_NOT_MASTER \<or> op = CMO_ACK_FRAG then (0, s)
      else if seqid = cc_next_seqid_in s
      then (0, s\<lparr>cc_next_seqid_in := cc_next_seqid_in s + 1, cc_next_seqid_in_tr := cc_next_seqid_in_tr s + 1\<rparr>)
      else if seqid_in_range seqid (cc_next_seqid_in_tr s) (cc_next_seqid_in s) then (0, s)
      else (- EBADSLT, s))"

text \<open>A packet after the checks of header, signature and address.\<close>

definition rx_checked :: "xenv \<Rightarrow> cld_pkt_hdr \<Rightarrow> nat \<Rightarrow> bytes \<Rightarrow> (cldc, int) run" where
  "rx_checked E pkt hdr_len pktbuf s =
     (let now = cc_now s; ftr = length pktbuf - CLD_PKT_FTR_LEN; seqid = of_le_bytes (take 8 (drop ftr pktbuf));
          first = has_flag (ph_order pkt) CLD_PKT_IS_FIRST;
          s = (if now \<ge> cc_msg_scan_time s then sess_expire_outmsg now s else s);
          s = (if first then s\<lparr>cc_msg_buf_op := mi_op (ph_mi pkt)\<rparr> else s)
      in case accept_seqid seqid (cc_msg_buf_op s) s of
           (rc, s) \<Rightarrow>
             if rc \<noteq> 0 then rret rc s
             else
               let s = (if first then s\<lparr>cc_msg_buf := []\<rparr> else s); msg_len = ftr - hdr_len in
               if length (cc_msg_buf s) + msg_len > CLD_MAX_MSG_SZ then rret (- EPROTO) s
               else
                 let s = s\<lparr>cc_msg_buf := cc_msg_buf s @ take msg_len (drop hdr_len pktbuf), cc_expire_time := now + CLDC_SESS_EXPIRE\<rparr> in
                 if has_flag (ph_order pkt) CLD_PKT_IS_LAST then rx_complete E seqid s else ack_seqid E seqid s)"

definition cldc_receive_pkt :: "xenv \<Rightarrow> bytes \<Rightarrow> bytes \<Rightarrow> (cldc, int) run" where
  "cldc_receive_pkt E net_addr pktbuf s =
     (if length pktbuf < CLD_PKT_FTR_LEN then rret (- EPROTO) s
      else
        case x_dec_hdr E (take (length pktbuf - CLD_PKT_FTR_LEN) pktbuf) of
          None \<Rightarrow> rret (- EPROTO) s
        | Some (pkt, hdr_len) \<Rightarrow>
            if memcmp (ph_magic pkt) CLD_PKT_MAGIC \<noteq> 0 then rret (- EPROTO) s
            else
              let n = length pktbuf - SHA_DIGEST_LENGTH in
              if cld_authcheck (x_hmac E) (cldc_user_key s (ph_user pkt)) (take n pktbuf) (drop n pktbuf) \<noteq> 0 then rret (- EACCES) s
              else if length (cc_addr s) \<noteq> length net_addr \<or> memcmp (cc_addr s) net_addr \<noteq> 0 then rret (- EBADE) s
              else rx_checked E pkt hdr_len pktbuf s)"

section \<open>Outgoing messages\<close>

definition pkt_order :: "bool \<Rightarrow> bool \<Rightarrow> u32" where
  "pkt_order first is_last =
     (if first then (if is_last then CLD_PKT_ORD_FIRST_LAST else CLD_PKT_ORD_FIRST)
      else (if is_last then CLD_PKT_ORD_LAST else CLD_PKT_ORD_MID))"

text \<open>The remaining \<open>k\<close> packets of a message; the transaction id and operation are only in the first one's header.\<close>

primrec new_pkts :: "xenv \<Rightarrow> u64 \<Rightarrow> u32 \<Rightarrow> nat \<Rightarrow> bool \<Rightarrow> bytes \<Rightarrow> cldc \<Rightarrow> cldc_pkt option list option \<times> cldc" where
  "new_pkts E xid op 0 first body s = (Some [], s)"
| "new_pkts E xid op (Suc k) first body s =
     (let n = min (length body) CLD_MAX_PKT_MSG_SZ;
          pkt = (if first then cldc_hdr s (pkt_order first (k = 0)) xid op else cldc_hdr s (pkt_order first (k = 0)) 0 0)
      in case cldc_alloc s of
           (ok, s) \<Rightarrow>
             if \<not> ok then (None, s)
             else
               case x_hdr E pkt of
                 None \<Rightarrow> (None, s)
               | Some hdr \<Rightarrow>
                   (case new_pkts E xid op k False (drop n body) s of
                      (None, s) \<Rightarrow> (None, s)
                    | (Some ps, s) \<Rightarrow> (Some (Some \<lparr>cp_data = hdr @ take n body @ replicate CLD_PKT_FTR_LEN 0, cp_retries = 0\<rparr> # ps), s)))"

definition cldc_new_msg :: "xenv \<Rightarrow> nat option \<Rightarrow> u32 \<Rightarrow> cld_req \<Rightarrow> cldc \<Rightarrow> cldc_msg option \<times> cldc" where
  "cldc_new_msg E copts op req s =
     (case x_req E req of
        None \<Rightarrow> (None, s)
      | Some body \<Rightarrow>
          let n_pkts = (if length body = 0 then 1 else (length body + CLD_MAX_PKT_MSG_SZ - 1) div CLD_MAX_PKT_MSG_SZ) in
          case cldc_alloc s of
            (ok, s) \<Rightarrow>
              if \<not> ok then (None, s)
              else
                case cld_rand64 (x_rand E) (cc_rnd s) of
                  (xid, k) \<Rightarrow>
                    (case new_pkts E xid op n_pkts True body (s\<lparr>cc_rnd := k\<rparr>) of
                       (None, s) \<Rightarrow> (None, s)
                     | (Some ps, s) \<Rightarrow>
                         (Some \<lparr>cm_xid = xid, cm_op = op, cm_cb = Generic_end_cb, cm_copts = copts, cm_done = False,
                                cm_expire_time = cc_now s + CLDC_MSG_EXPIRE, cm_pkts = ps\<rparr>, s)))"

text \<open>Footer and first transmission of the packets; \<open>Inl\<close> is an error in the middle, after which the rest is not sent.\<close>

fun send_msg_pkts :: "xenv \<Rightarrow> cldc_pkt option list \<Rightarrow> cldc \<Rightarrow> (int + cldc_pkt option list) \<times> cldc" where
  "send_msg_pkts E [] s = (Inr [], s)"
| "send_msg_pkts E (None # ps) s = (Inl 0, s)"
| "send_msg_pkts E (Some pi # ps) s =
     (let data = take (length (cp_data pi) - CLD_PKT_FTR_LEN) (cp_data pi) @ le_bytes 8 (cc_next_seqid_out s);
          s = s\<lparr>cc_next_seqid_out := cc_next_seqid_out s + 1\<rparr>
      in case cld_authsign (x_hmac E) (cldc_user_key s (cc_user s)) data (replicate SHA_DIGEST_LENGTH 0) of
           (rc, sha) \<Rightarrow>
             if rc \<noteq> 0 then (Inl rc, s)
             else
               case sess_send_pkt (data @ sha) s of
                 (rc, s) \<Rightarrow>
                   if rc < 0 then (Inl (- EIO), s)
                   else
                     case send_msg_pkts E ps s of
                       (Inl e, s) \<Rightarrow> (Inl e, s)
                     | (Inr qs, s) \<Rightarrow> (Inr (Some (pi\<lparr>cp_data := data @ sha\<rparr>) # qs), s))"

definition sess_send :: "xenv \<Rightarrow> cldc_msg \<Rightarrow> cldc \<Rightarrow> int \<times> cldc" where
  "sess_send E msg s =
     (case send_msg_pkts E (cm_pkts msg) s of
        (Inl e, s) \<Rightarrow> (e, s)
      | (Inr ps, s) \<Rightarrow> (0, s\<lparr>cc_out_msg := msg\<lparr>cm_pkts := ps\<rparr> # cc_out_msg s\<rparr>))"

text \<open>The common end of the calls: make a message, set its callback, send it.\<close>

definition cldc_call :: "xenv \<Rightarrow> nat option \<Rightarrow> u32 \<Rightarrow> cld_req \<Rightarrow> msg_cb \<Rightarrow> cldc \<Rightarrow> int \<times> cldc" where
  "cldc_call E copts op req cb s =
     (case cldc_new_msg E copts op req s of
        (None, s) \<Rightarrow> (- ENOMEM, s)
      | (Some msg, s) \<Rightarrow> sess_send E (msg\<lparr>cm_cb := cb\<rparr>) s)"

section \<open>Expiry and retransmission\<close>

text \<open>A callback that frees the session leaves the loop with freed memory.\<close>

fun msg_drop_loop :: "xenv \<Rightarrow> cldc_msg list \<Rightarrow> (cldc, unit) run" where
  "msg_drop_loop E [] = rret ()"
| "msg_drop_loop E (m # ms) =
     rbind (if \<not> cm_done m then rbind (msg_cb E m [] (cle_code CLE_TIMEOUT)) (\<lambda>_. rret ()) else rret ()) (\<lambda>_.
     rbind (rget cc_freed) (\<lambda>freed.
     if freed then rfault F_free else msg_drop_loop E ms))"

definition sess_msg_drop :: "xenv \<Rightarrow> (cldc, unit) run" where
  "sess_msg_drop E = rbind (rget cc_out_msg) (\<lambda>ms. rbind (msg_drop_loop E ms) (\<lambda>_. rmod (\<lambda>s. s\<lparr>cc_out_msg := []\<rparr>)))"

definition sess_expire :: "xenv \<Rightarrow> (cldc, unit) run" where
  "sess_expire E =
     rbind (rmod (\<lambda>s. s\<lparr>cc_expired := True\<rparr>)) (\<lambda>_.
     rbind (sess_msg_drop E) (\<lambda>_.
     rmod (\<lambda>s. s\<lparr>cc_timer := None, cc_app := cc_app s @ [App_event None CE_SESS_FAILED]\<rparr>)))"

fun retry_pkts :: "cldc_pkt option list \<Rightarrow> cldc \<Rightarrow> cldc_pkt option list \<times> cldc" where
  "retry_pkts [] s = ([], s)"
| "retry_pkts (None # ps) s = (case retry_pkts ps s of (qs, s) \<Rightarrow> (None # qs, s))"
| "retry_pkts (Some pi # ps) s =
     (case retry_pkts ps (snd (sess_send_pkt (cp_data pi) s)) of (qs, s) \<Rightarrow> (Some (pi\<lparr>cp_retries := cp_retries pi + 1\<rparr>) # qs, s))"

fun retry_msgs :: "cldc_msg list \<Rightarrow> cldc \<Rightarrow> cldc_msg list \<times> cldc" where
  "retry_msgs [] s = ([], s)"
| "retry_msgs (m # ms) s =
     (if cm_done m then (case retry_msgs ms s of (qs, s) \<Rightarrow> (m # qs, s))
      else
        case retry_pkts (cm_pkts m) s of
          (ps, s) \<Rightarrow> (case retry_msgs ms s of (qs, s) \<Rightarrow> (m\<lparr>cm_pkts := ps\<rparr> # qs, s)))"

definition sess_timer :: "xenv \<Rightarrow> (cldc, u64) run" where
  "sess_timer E s =
     (if cc_now s > cc_expire_time s then rbind (sess_expire E) (\<lambda>_. rret 0) s
      else
        case retry_msgs (cc_out_msg s) s of
          (ms, s) \<Rightarrow> rret CLDC_MSG_RETRY (s\<lparr>cc_out_msg := ms, cc_timer := Some CLDC_MSG_RETRY\<rparr>))"

section \<open>Calls\<close>

definition cldc_end_sess :: "xenv \<Rightarrow> nat option \<Rightarrow> cldc \<Rightarrow> int \<times> cldc" where
  "cldc_end_sess E copts s = (if \<not> cc_confirmed s then (- EINVAL, s) else cldc_call E copts CMO_END_SESS Call_void End_sess_cb s)"

definition sess_init :: "xenv \<Rightarrow> bytes \<Rightarrow> bytes \<Rightarrow> bytes \<Rightarrow> cldc \<Rightarrow> cldc" where
  "sess_init E addr user secret_key s =
     (let (sid, k) = cld_rand64 (x_rand E) (cc_rnd s); (seq, k) = cld_rand64 (x_rand E) k in
      s\<lparr>cc_freed := False, cc_sid := le_bytes 8 sid, cc_addr := addr, cc_cfh := [], cc_fhs := Map.empty, cc_out_msg := [],
        cc_msg_scan_time := 0, cc_expire_time := 0, cc_expired := False, cc_next_seqid_in := 0, cc_next_seqid_in_tr := 0,
        cc_next_seqid_out := seq, cc_user := user, cc_secret_key := secret_key, cc_confirmed := False, cc_msg_buf_op := 0,
        cc_msg_buf := [], cc_rnd := k\<rparr>)"

definition cldc_new_sess :: "xenv \<Rightarrow> nat option \<Rightarrow> bytes \<Rightarrow> bytes \<Rightarrow> bytes \<Rightarrow> cldc \<Rightarrow> int \<times> cldc" where
  "cldc_new_sess E copts addr user secret_key s =
     (if length addr > 64 then (- EINVAL, s)
      else if user = [] \<or> secret_key = [] then (- EINVAL, s)
      else if length user \<ge> CLD_MAX_USERNAME then (- EINVAL, s)
      else if length secret_key \<ge> CLD_MAX_SECRET_KEY then (- EINVAL, s)
      else
        case cldc_alloc s of
          (ok, s) \<Rightarrow>
            if \<not> ok then (- ENOMEM, s)
            else
              (case cldc_new_msg E copts CMO_NEW_SESS Call_void (sess_init E addr user secret_key s) of
                 (None, s) \<Rightarrow> (- ENOMEM, s\<lparr>cc_freed := True\<rparr>)
               | (Some msg, s) \<Rightarrow>
                   sess_send E (msg\<lparr>cm_cb := New_sess_cb\<rparr>) (s\<lparr>cc_expire_time := cc_now s + CLDC_SESS_EXPIRE, cc_timer := Some CLDC_MSG_RETRY\<rparr>)))"

definition cldc_kill_sess :: "(cldc, unit) run" where
  "cldc_kill_sess = rbind (rmod (\<lambda>s. s\<lparr>cc_timer := None\<rparr>)) (\<lambda>_. sess_free)"

definition cldc_nop :: "xenv \<Rightarrow> nat option \<Rightarrow> cldc \<Rightarrow> int \<times> cldc" where
  "cldc_nop E copts s = (if \<not> cc_confirmed s then (- EINVAL, s) else cldc_call E copts CMO_NOP Call_void Generic_end_cb s)"

definition bad_path :: "bytes \<Rightarrow> bool" where
  "bad_path pathname \<longleftrightarrow> pathname = [] \<or> hd pathname \<noteq> 47 \<or> length pathname > CLD_INODE_NAME_MAX"

definition cldc_del :: "xenv \<Rightarrow> nat option \<Rightarrow> bytes \<Rightarrow> cldc \<Rightarrow> int \<times> cldc" where
  "cldc_del E copts pathname s =
     (if \<not> cc_confirmed s then (- EINVAL, s)
      else if bad_path pathname then (- EINVAL, s)
      else cldc_call E copts CMO_DEL (Call_del pathname) Generic_end_cb s)"

text \<open>The new handle, if there is one, is returned even when sending fails.\<close>

definition cldc_open :: "xenv \<Rightarrow> nat option \<Rightarrow> bytes \<Rightarrow> u32 \<Rightarrow> u32 \<Rightarrow> cldc \<Rightarrow> (int \<times> nat option) \<times> cldc" where
  "cldc_open E copts pathname open_mode events s =
     (if \<not> cc_confirmed s then ((- EINVAL, None), s)
      else if bad_path pathname then ((- EINVAL, None), s)
      else
        case cldc_new_msg E copts CMO_OPEN (Call_open open_mode events pathname) s of
          (None, s) \<Rightarrow> ((- ENOMEM, None), s)
        | (Some msg, s) \<Rightarrow>
            (case cldc_alloc s of
               (ok, s) \<Rightarrow>
                 if \<not> ok then ((- ENOMEM, None), s)
                 else
                   let fh = cc_next_fh s;
                       s = s\<lparr>cc_next_fh := Suc fh, cc_fhs := (cc_fhs s)(fh \<mapsto> \<lparr>cf_fh = 0, cf_valid = False\<rparr>), cc_cfh := cc_cfh s @ [fh]\<rparr>
                   in case sess_send E (msg\<lparr>cm_cb := Open_end_cb fh\<rparr>) s of (rc, s) \<Rightarrow> ((rc, Some fh), s)))"

text \<open>Calls on a handle: its structure must exist.\<close>

definition with_fh :: "nat \<Rightarrow> (cldc_fh \<Rightarrow> cldc \<Rightarrow> int \<times> cldc) \<Rightarrow> (cldc, int) run" where
  "with_fh p f s =
     (case cc_fhs s p of
        None \<Rightarrow> rfault F_free s
      | Some fh \<Rightarrow> if \<not> cf_valid fh then rret (- EINVAL) s else rcall (f fh) s)"

definition cldc_close :: "xenv \<Rightarrow> nat option \<Rightarrow> nat \<Rightarrow> (cldc, int) run" where
  "cldc_close E copts p =
     with_fh p (\<lambda>fh s.
       let inval = (\<lambda>s. s\<lparr>cc_fhs := (cc_fhs s)(p \<mapsto> fh\<lparr>cf_valid := False\<rparr>)\<rparr>) in
       if cc_expired s then (- EPIPE, inval s)
       else
         case cldc_new_msg E copts CMO_CLOSE (Call_close (cf_fh fh)) s of
           (None, s) \<Rightarrow> (- ENOMEM, s)
         | (Some msg, s) \<Rightarrow> sess_send E (msg\<lparr>cm_cb := Close_end_cb p\<rparr>) (inval s))"

definition cldc_lock :: "xenv \<Rightarrow> nat option \<Rightarrow> nat \<Rightarrow> u32 \<Rightarrow> bool \<Rightarrow> (cldc, int) run" where
  "cldc_lock E copts p lock_flags wait_for_lock =
     with_fh p (\<lambda>fh. cldc_call E copts (if wait_for_lock then CMO_LOCK else CMO_TRYLOCK) (Call_lock (cf_fh fh) lock_flags) Generic_end_cb)"

definition cldc_unlock :: "xenv \<Rightarrow> nat option \<Rightarrow> nat \<Rightarrow> (cldc, int) run" where
  "cldc_unlock E copts p = with_fh p (\<lambda>fh. cldc_call E copts CMO_UNLOCK (Call_unlock (cf_fh fh)) Generic_end_cb)"

text \<open>The result of sending is not looked at.\<close>

definition cldc_put :: "xenv \<Rightarrow> nat option \<Rightarrow> nat \<Rightarrow> bytes \<Rightarrow> (cldc, int) run" where
  "cldc_put E copts p data =
     (if data = [] \<or> length data > CLD_MAX_PAYLOAD_SZ then rret (- EINVAL)
      else
        with_fh p (\<lambda>fh s.
          case cldc_new_msg E copts CMO_PUT (Call_put (cf_fh fh) data) s of
            (None, s) \<Rightarrow> (- ENOMEM, s)
          | (Some msg, s) \<Rightarrow> (0, snd (sess_send E (msg\<lparr>cm_cb := Generic_end_cb\<rparr>) s))))"

text \<open>Whether only metadata are wanted is not looked at either.\<close>

definition cldc_get :: "xenv \<Rightarrow> nat option \<Rightarrow> nat \<Rightarrow> bool \<Rightarrow> (cldc, int) run" where
  "cldc_get E copts p metadata_only = with_fh p (\<lambda>fh. cldc_call E copts CMO_GET (Call_get (cf_fh fh)) Get_end_cb)"

end
