(* ===== verification/Cldc_Once.thy ===== *)
theory Cldc_Once
  imports Cldc "HOL-Library.Multiset"
begin

text \<open>
  Sessions of the lock service's client as a transition system, and that a call of the application completes at most once.
\<close>

section \<open>Steps of a session\<close>

text \<open>
  Packets arrive, time passes, the timer fires, and the application makes calls. A call with a callback has an
  identification that no earlier call has had.
\<close>

primrec ev_call :: "app_event \<Rightarrow> nat list" where
  "ev_call (App_done i code resp) = [i]"
| "ev_call (App_event fh what) = []"

definition calls :: "cldc \<Rightarrow> nat list" where
  "calls s = concat (map ev_call (cc_app s))"

definition pend :: "cldc_msg list \<Rightarrow> nat list" where
  "pend ms = concat (map (\<lambda>m. case cm_copts m of None \<Rightarrow> [] | Some i \<Rightarrow> if cm_done m then [] else [i]) ms)"

definition tokens :: "cldc \<Rightarrow> nat multiset" where
  "tokens s = mset (calls s) + mset (pend (cc_out_msg s))"

inductive app_call :: "xenv \<Rightarrow> nat option \<Rightarrow> cldc \<Rightarrow> cldc \<Rightarrow> bool" for E c where
  "app_call E c s (snd (cldc_end_sess E c s))"
| "app_call E c s (snd (cldc_nop E c s))"
| "app_call E c s (snd (cldc_del E c path s))"
| "app_call E c s (snd (cldc_open E c path mode events s))"
| "cldc_close E c p s = Some (Inr (rc, s')) \<Longrightarrow> app_call E c s s'"
| "cldc_lock E c p flags wait s = Some (Inr (rc, s')) \<Longrightarrow> app_call E c s s'"
| "cldc_unlock E c p s = Some (Inr (rc, s')) \<Longrightarrow> app_call E c s s'"
| "cldc_put E c p data s = Some (Inr (rc, s')) \<Longrightarrow> app_call E c s s'"
| "cldc_get E c p meta s = Some (Inr (rc, s')) \<Longrightarrow> app_call E c s s'"

inductive cldc_step :: "xenv \<Rightarrow> cldc \<Rightarrow> cldc \<Rightarrow> bool" for E where
  step_recv: "\<not> cc_freed s \<Longrightarrow> cldc_receive_pkt E addr pkt s = Some (Inr (rc, s')) \<Longrightarrow> cldc_step E s s'"
| step_timer: "\<not> cc_freed s \<Longrightarrow> sess_timer E s = Some (Inr (secs, s')) \<Longrightarrow> cldc_step E s s'"
| step_time: "cldc_step E s (s\<lparr>cc_now := t\<rparr>)"
| step_call: "\<not> cc_freed s \<Longrightarrow> app_call E c s s' \<Longrightarrow> (\<And>i. c = Some i \<Longrightarrow> i \<notin># tokens s) \<Longrightarrow> cldc_step E s s'"

inductive cldc_reach :: "xenv \<Rightarrow> cldc \<Rightarrow> bool" for E where
  reach_new: "cldc_new_sess E c addr user key s = (rc, s') \<Longrightarrow> cc_app s = [] \<Longrightarrow> cc_out_msg s = [] \<Longrightarrow>
    cc_cfh s = [] \<Longrightarrow> cc_fhs s = Map.empty \<Longrightarrow> cc_msg_buf s = [] \<Longrightarrow> cldc_reach E s'"
| reach_step: "cldc_reach E s \<Longrightarrow> cldc_step E s s' \<Longrightarrow> cldc_reach E s'"

section \<open>Identifications are not multiplied\<close>

lemma pend_simps [simp]: "pend [] = []" "pend (m # ms) = (case cm_copts m of None \<Rightarrow> [] | Some i \<Rightarrow> if cm_done m then [] else [i]) @ pend ms"
  "pend (xs @ ys) = pend xs @ pend ys"
  by (simp_all add: pend_def)

definition told :: "cldc_msg \<Rightarrow> cldc \<Rightarrow> cldc \<Rightarrow> bool" where
  "told m s s' \<longleftrightarrow> (cc_out_msg s' = cc_out_msg s \<or> cc_out_msg s' = []) \<and> (calls s' = calls s \<or> (\<exists>i. cm_copts m = Some i \<and> calls s' = calls s @ [i]))"

lemma app_cb_told:
  assumes "app_cb E m rc resp other s = Some (Inr (r, s'))" "\<And>s r s'. other s = Some (Inr (r, s')) \<Longrightarrow> (cc_out_msg s' = cc_out_msg s \<or> cc_out_msg s' = []) \<and> calls s' = calls s"
  shows "told m s s'"
  using assms by (auto simp: app_cb_def told_def run_simps calls_def split: option.splits)

lemma told_from: "told m s1 s' \<Longrightarrow> cc_out_msg s1 = cc_out_msg s \<Longrightarrow> cc_app s1 = cc_app s \<Longrightarrow> told m s s'"
  by (simp add: told_def calls_def)

lemma app_cb_plain:
  assumes "app_cb E m rc resp (rret 0) s1 = Some (Inr (r, s'))" "cc_out_msg s1 = cc_out_msg s" "cc_app s1 = cc_app s"
  shows "told m s s'"
proof -
  have "told m s1 s'" by (rule app_cb_told [OF assms(1)]) (auto simp: rret_def)
  then show ?thesis using assms(2,3) by (rule told_from)
qed

lemma msg_cb_told:
  assumes "msg_cb E m p rc s = Some (Inr (r, s'))"
  shows "told m s s'"
proof -
  note k = app_cb_told [where m = m]
  show ?thesis
  proof (cases "cm_cb m")
    case End_sess_cb
    then show ?thesis using assms by (auto simp: msg_cb_def end_sess_cb_def sess_free_def run_simps calls_def intro!: k split: if_splits)
  next
    case New_sess_cb
    then obtain s1 where "app_cb E m rc None (rret 0) s1 = Some (Inr (r, s'))" "cc_out_msg s1 = cc_out_msg s" "cc_app s1 = cc_app s"
      using assms by (auto simp: msg_cb_def new_sess_cb_def rbind_def rmod_def rret_def split: if_splits)
    then show ?thesis by (rule app_cb_plain)
  next
    case Generic_end_cb
    then show ?thesis using assms by (auto simp: msg_cb_def generic_end_cb_def intro: app_cb_plain)
  next
    case (Open_end_cb fh)
    consider (app) s1 where "app_cb E m rc None (rret 0) s1 = Some (Inr (r, s'))" "cc_out_msg s1 = cc_out_msg s" "cc_app s1 = cc_app s" | (no) "s' = s"
      using assms Open_end_cb by (auto simp: msg_cb_def open_end_cb_def rbind_def rmod_def rret_def rget_def rfault_def split: if_splits option.splits)
    then show ?thesis by cases (erule (2) app_cb_plain, simp add: told_def)
  next
    case (Close_end_cb fh)
    then have "app_cb E m rc None (rbind (rmod (\<lambda>s. s\<lparr>cc_cfh := remove1 fh (cc_cfh s), cc_fhs := (cc_fhs s)(fh := None)\<rparr>)) (\<lambda>_. rret 0)) s = Some (Inr (r, s'))"
      using assms by (auto simp: msg_cb_def close_end_cb_def rbind_def rget_def rfault_def split: if_splits)
    then show ?thesis by (rule k) (auto simp: run_simps calls_def)
  next
    case Get_end_cb
    then show ?thesis using assms
      by (auto simp: msg_cb_def get_end_cb_def split: if_splits option.splits intro: app_cb_plain) (simp add: rret_def told_def)
  qed
qed

lemma ack_tokens: "ack_seqid E q s = Some (Inr (r, s')) \<Longrightarrow> tokens s' = tokens s"
  by (auto simp: ack_seqid_def tokens_def calls_def run_simps sess_send_pkt_def Let_def split: if_splits option.splits prod.splits list.splits)

lemma find_msg_some: "find_msg x ms = Some (pre, m, post) \<Longrightarrow> ms = pre @ m # post \<and> cm_xid m = x"
  by (induction ms arbitrary: pre) (auto split: if_splits option.splits)

lemma told_tokens:
  assumes "told m s s'" "\<not> cm_done m"
  shows "tokens s' \<subseteq># tokens s + mset (pend [m])"
  using assms by (auto simp: told_def tokens_def)

lemma generic_tokens:
  assumes "rxmsg_generic E q s = Some (Inr (r, s'))"
  shows "tokens s' \<subseteq># tokens s"
proof (cases "x_dec_generic E (cc_msg_buf s)")
  case None
  then show ?thesis using assms by (simp add: rxmsg_generic_def rret_def)
next
  case (Some cx)
  obtain code x where cx: "cx = (code, x)" by fastforce
  show ?thesis
  proof (cases "find_msg x (cc_out_msg s)")
    case None
    then show ?thesis using assms Some cx by (simp add: rxmsg_generic_def rret_def)
  next
    case found: (Some f)
    obtain pre m post where f: "f = (pre, m, post)" by (cases f) auto
    have ms: "cc_out_msg s = pre @ m # post" using find_msg_some found f by blast
    show ?thesis
    proof (cases "cm_done m")
      case True
      then show ?thesis using assms Some cx found f ack_tokens by (auto simp: rxmsg_generic_def)
    next
      case False
      let ?m = "m\<lparr>cm_done := True\<rparr>"
      let ?s = "s\<lparr>cc_out_msg := pre @ ?m # post\<rparr>"
      obtain rc s1 where cb: "msg_cb E ?m (cc_msg_buf s) code ?s = Some (Inr (rc, s1))"
        and rest: "s' = s1 \<or> ack_seqid E q s1 = Some (Inr (r, s'))"
        using assms Some cx found f False by (auto simp: rxmsg_generic_def rret_def elim!: rbindE split: if_splits)
      have "tokens s' = tokens s1" using rest ack_tokens by blast
      moreover have "tokens s1 \<subseteq># tokens ?s + mset (pend [m])"
        using msg_cb_told [OF cb] False by (auto simp: told_def tokens_def)
      moreover have "tokens ?s + mset (pend [m]) = tokens s" by (simp add: tokens_def calls_def ms split: option.split)
      ultimately show ?thesis by simp
    qed
  qed
qed

lemma pend_pkts [simp]: "pend (m\<lparr>cm_pkts := ps\<rparr> # ms) = pend (m # ms)"
  by (simp split: option.split)

lemma ack_frag_pend: "ack_frag_msgs q ms = Some ms' \<Longrightarrow> pend ms' = pend ms"
  by (induction ms arbitrary: ms') (auto split: option.splits)

lemma complete_tokens: "rx_complete E q s = Some (Inr (r, s')) \<Longrightarrow> tokens s' \<subseteq># tokens s"
  by (auto simp: rx_complete_def rxmsg_event_def rxmsg_ack_frag_def rret_def rfault_def Let_def tokens_def calls_def
      dest: generic_tokens [unfolded tokens_def calls_def] ack_tokens [unfolded tokens_def calls_def] ack_frag_pend split: if_splits option.splits)

lemma pend_filter: "mset (pend (filter P ms)) \<subseteq># mset (pend ms)"
  by (induction ms) (auto intro: subset_mset.add_mono mset_subset_eq_add_right subset_mset.order_trans split: option.splits)

lemma expire_tokens: "tokens (sess_expire_outmsg t s) \<subseteq># tokens s"
  by (simp add: tokens_def sess_expire_outmsg_def calls_def pend_filter)

lemma accept_frame: "accept_seqid q op s = (rc, s') \<Longrightarrow> tokens s' = tokens s"
  by (auto simp: accept_seqid_def tokens_def calls_def split: if_splits)

lemma checked_tokens:
  assumes "rx_checked E pkt n b s = Some (Inr (r, s'))"
  shows "tokens s' \<subseteq># tokens s"
proof -
  define s1 where "s1 = (if cc_now s \<ge> cc_msg_scan_time s then sess_expire_outmsg (cc_now s) s else s)"
  define s2 where "s2 = (if has_flag (ph_order pkt) CLD_PKT_IS_FIRST then s1\<lparr>cc_msg_buf_op := mi_op (ph_mi pkt)\<rparr> else s1)"
  define q where "q = (of_le_bytes (take 8 (drop (length b - CLD_PKT_FTR_LEN) b)) :: u64)"
  obtain rc s3 where a: "accept_seqid q (cc_msg_buf_op s2) s2 = (rc, s3)" by fastforce
  have "tokens s1 \<subseteq># tokens s" by (simp add: s1_def expire_tokens)
  moreover have "tokens s2 = tokens s1" by (simp add: s2_def tokens_def calls_def)
  ultimately have t: "tokens s3 \<subseteq># tokens s" using accept_frame [OF a] by simp
  have "s' = s3 \<or> (\<exists>s4. tokens s4 = tokens s3 \<and> (s' = s4 \<or> rx_complete E q s4 = Some (Inr (r, s')) \<or> ack_seqid E q s4 = Some (Inr (r, s'))))"
    using assms a unfolding rx_checked_def Let_def s1_def [symmetric] s2_def [symmetric] q_def [symmetric]
    by (auto simp: rret_def tokens_def calls_def split: if_splits intro: exI [of _ "s3\<lparr>cc_msg_buf := _\<rparr>"])
  then show ?thesis using t complete_tokens ack_tokens by (metis subset_mset.order_trans)
qed

lemma receive_tokens: "cldc_receive_pkt E a p s = Some (Inr (r, s')) \<Longrightarrow> tokens s' \<subseteq># tokens s"
  by (auto simp: cldc_receive_pkt_def rret_def Let_def split: if_splits option.splits dest: checked_tokens)

lemma drop_tokens:
  assumes "msg_drop_loop E ms s = Some (Inr (u, s'))"
  shows "mset (calls s') \<subseteq># mset (calls s) + mset (pend ms)"
  using assms
proof (induction ms arbitrary: s)
  case Nil
  then show ?case by (simp add: rret_def)
next
  case (Cons m ms)
  obtain s1 where one: "mset (calls s1) \<subseteq># mset (calls s) + mset (pend [m])" and rest: "msg_drop_loop E ms s1 = Some (Inr (u, s'))"
  proof (cases "cm_done m")
    case True
    then show ?thesis using Cons.prems that [of s] by (simp add: rbind_def rret_def rget_def rfault_def split: if_splits option.splits)
  next
    case False
    then obtain rc s1 where cb: "msg_cb E m [] (cle_code CLE_TIMEOUT) s = Some (Inr (rc, s1))" and "msg_drop_loop E ms s1 = Some (Inr (u, s'))"
      using Cons.prems by (auto simp: rret_def rget_def rfault_def elim!: rbindE split: if_splits)
    moreover have "mset (calls s1) \<subseteq># mset (calls s) + mset (pend [m])" using msg_cb_told [OF cb] False by (auto simp: told_def)
    ultimately show ?thesis using that by blast
  qed
  have "mset (calls s') \<subseteq># mset (calls s1) + mset (pend ms)" using Cons.IH [OF rest] .
  also have "\<dots> \<subseteq># (mset (calls s) + mset (pend [m])) + mset (pend ms)" using one by simp
  also have "\<dots> = mset (calls s) + mset (pend (m # ms))" by simp
  finally show ?case .
qed

lemma expired_tokens: "sess_expire E s = Some (Inr (u, s')) \<Longrightarrow> tokens s' \<subseteq># tokens s"
  by (auto simp: sess_expire_def sess_msg_drop_def rmod_def rget_def rret_def tokens_def calls_def elim!: rbindE
      dest!: drop_tokens [unfolded calls_def])

lemma send_pkt_frame: "sess_send_pkt p s = (rc, s') \<Longrightarrow> cc_app s' = cc_app s \<and> cc_out_msg s' = cc_out_msg s"
  by (auto simp: sess_send_pkt_def Let_def split: list.splits)

lemma retry_pkts_frame: "retry_pkts ps s = (qs, s') \<Longrightarrow> cc_app s' = cc_app s \<and> cc_out_msg s' = cc_out_msg s"
proof (induction ps s arbitrary: qs s' rule: retry_pkts.induct)
  case (3 pi ps s)
  obtain rc s1 where "sess_send_pkt (cp_data pi) s = (rc, s1)" by fastforce
  then show ?case using 3 send_pkt_frame by (fastforce split: prod.splits)
qed (auto split: prod.splits)

lemma retry_frame: "retry_msgs ms s = (qs, s') \<Longrightarrow> cc_app s' = cc_app s \<and> cc_out_msg s' = cc_out_msg s \<and> pend qs = pend ms"
proof (induction ms s arbitrary: qs s' rule: retry_msgs.induct)
  case (2 m ms s)
  show ?case
  proof (cases "cm_done m")
    case True
    obtain rs s1 where r: "retry_msgs ms s = (rs, s1)" by fastforce
    then show ?thesis using "2.IH"(1) [OF True r] "2.prems" True by auto
  next
    case False
    obtain ps s1 where p: "retry_pkts (cm_pkts m) s = (ps, s1)" by fastforce
    obtain rs s2 where r: "retry_msgs ms s1 = (rs, s2)" by fastforce
    show ?thesis using "2.IH"(2) [OF False p [symmetric] r] "2.prems" False retry_pkts_frame [OF p] p r by (auto split: option.split)
  qed
qed simp

lemma timer_tokens:
  assumes "sess_timer E s = Some (Inr (r, s'))"
  shows "tokens s' \<subseteq># tokens s"
proof (cases "cc_now s > cc_expire_time s")
  case True
  then show ?thesis using assms expired_tokens by (auto simp: sess_timer_def rret_def elim!: rbindE)
next
  case False
  obtain ms s1 where "retry_msgs (cc_out_msg s) s = (ms, s1)" by fastforce
  then show ?thesis using assms False retry_frame [of "cc_out_msg s" s ms s1] by (auto simp: sess_timer_def rret_def tokens_def calls_def)
qed

section \<open>Calls\<close>

definition fresh :: "nat option \<Rightarrow> nat multiset" where
  "fresh c = (case c of None \<Rightarrow> {#} | Some i \<Rightarrow> {#i#})"

lemma new_pkts_frame: "new_pkts E xid op k first body s = (r, s') \<Longrightarrow> cc_app s' = cc_app s \<and> cc_out_msg s' = cc_out_msg s"
proof (induction k arbitrary: first body s r s')
  case (Suc k)
  obtain ok s1 where a: "cldc_alloc s = (ok, s1)" by fastforce
  then have f: "cc_app s1 = cc_app s" "cc_out_msg s1 = cc_out_msg s" by (auto simp: cldc_alloc_def split: prod.splits)
  obtain ps s2 where n: "new_pkts E xid op k False (drop (min (length body) CLD_MAX_PKT_MSG_SZ) body) s1 = (ps, s2)" by fastforce
  show ?case using Suc.prems Suc.IH [OF n] f a n by (auto simp: Let_def split: option.splits if_splits)
qed simp

lemma new_msg_tokens: "cldc_new_msg E c op req s = (r, s') \<Longrightarrow> tokens s' = tokens s \<and> (\<forall>m. r = Some m \<longrightarrow> cm_copts m = c \<and> \<not> cm_done m)"
  by (auto simp: cldc_new_msg_def cldc_alloc_def Let_def tokens_def calls_def split: prod.splits option.splits if_splits dest!: new_pkts_frame)

lemma send_msg_pkts_frame: "send_msg_pkts E ps s = (r, s') \<Longrightarrow> cc_app s' = cc_app s \<and> cc_out_msg s' = cc_out_msg s"
proof (induction E ps s arbitrary: r s' rule: send_msg_pkts.induct)
  case (3 E pi ps s)
  then show ?case by (fastforce simp: Let_def dest!: send_pkt_frame split: prod.splits if_splits sum.splits)
qed simp_all

lemma send_tokens:
  assumes "sess_send E (m\<lparr>cm_cb := cb\<rparr>) s = (rc, s')" "cm_copts m = c" "\<not> cm_done m"
  shows "tokens s' \<subseteq># tokens s + fresh c"
  using assms
  by (auto simp: sess_send_def tokens_def calls_def fresh_def dest!: send_msg_pkts_frame split: prod.splits sum.splits option.splits)

lemma call_tokens: "cldc_call E c op req cb s = (rc, s') \<Longrightarrow> tokens s' \<subseteq># tokens s + fresh c"
  by (auto simp: cldc_call_def split: prod.splits option.splits dest!: new_msg_tokens dest: send_tokens)

lemma with_fh_tokens:
  assumes "with_fh p f s = Some (Inr (rc, s'))" "\<And>fh rc s'. f fh s = (rc, s') \<Longrightarrow> tokens s' \<subseteq># tokens s + fresh c"
  shows "tokens s' \<subseteq># tokens s + fresh c"
  using assms by (auto simp: with_fh_def rret_def rfault_def rcall_def split: option.splits if_splits prod.splits)

lemma tokens_upd [simp]:
  "tokens (s\<lparr>cc_fhs := f\<rparr>) = tokens s" "tokens (s\<lparr>cc_mem := m\<rparr>) = tokens s" "tokens (s\<lparr>cc_freed := b\<rparr>) = tokens s"
  "tokens (s\<lparr>cc_expire_time := t, cc_timer := tm\<rparr>) = tokens s" "tokens (s\<lparr>cc_now := t\<rparr>) = tokens s"
  by (simp_all add: tokens_def calls_def)

lemma open_tokens: "tokens (snd (cldc_open E c path mode events s)) \<subseteq># tokens s + fresh c"
proof (cases "cldc_new_msg E c CMO_OPEN (Call_open mode events path) s")
  case (Pair r s1)
  note new = new_msg_tokens [OF Pair]
  obtain ok s2 where a: "cldc_alloc s1 = (ok, s2)" by fastforce
  have s2: "tokens s2 = tokens s" using a new by (auto simp: cldc_alloc_def tokens_def calls_def split: prod.splits)
  define s3 where "s3 = s2\<lparr>cc_next_fh := Suc (cc_next_fh s2), cc_fhs := (cc_fhs s2)(cc_next_fh s2 \<mapsto> \<lparr>cf_fh = 0, cf_valid = False\<rparr>), cc_cfh := cc_cfh s2 @ [cc_next_fh s2]\<rparr>"
  have s3: "tokens s3 = tokens s" using s2 by (simp add: s3_def tokens_def calls_def)
  show ?thesis
  proof (cases r)
    case None
    then show ?thesis using Pair new by (simp add: cldc_open_def)
  next
    case (Some m)
    obtain rc s4 where send: "sess_send E (m\<lparr>cm_cb := Open_end_cb (cc_next_fh s2)\<rparr>) s3 = (rc, s4)" by fastforce
    have "tokens s4 \<subseteq># tokens s + fresh c" using send_tokens [OF send, of c] new Some s3 by simp
    then show ?thesis using Pair new Some a s2 send by (simp add: cldc_open_def Let_def s3_def [symmetric])
  qed
qed

lemma close_tokens:
  assumes "cldc_close E c p s = Some (Inr (rc, s'))"
  shows "tokens s' \<subseteq># tokens s + fresh c"
proof (rule with_fh_tokens [OF assms [unfolded cldc_close_def]])
  fix fh rc s'
  assume a: "(let inval = \<lambda>s. s\<lparr>cc_fhs := (cc_fhs s)(p \<mapsto> fh\<lparr>cf_valid := False\<rparr>)\<rparr>
      in if cc_expired s then (- EPIPE, inval s)
         else case cldc_new_msg E c CMO_CLOSE (Call_close (cf_fh fh)) s of
                (None, s) \<Rightarrow> (- ENOMEM, s) | (Some msg, s) \<Rightarrow> sess_send E (msg\<lparr>cm_cb := Close_end_cb p\<rparr>) (inval s)) = (rc, s')"
  obtain r s1 where new: "cldc_new_msg E c CMO_CLOSE (Call_close (cf_fh fh)) s = (r, s1)" by fastforce
  show "tokens s' \<subseteq># tokens s + fresh c"
    using a new new_msg_tokens [OF new] by (auto simp: Let_def split: if_splits option.splits dest: send_tokens)
qed

lemma put_tokens:
  assumes "cldc_put E c p data s = Some (Inr (rc, s'))"
  shows "tokens s' \<subseteq># tokens s + fresh c"
proof (cases "data = [] \<or> length data > CLD_MAX_PAYLOAD_SZ")
  case True
  then show ?thesis using assms by (auto simp: cldc_put_def rret_def)
next
  case False
  show ?thesis
  proof (rule with_fh_tokens [OF assms [unfolded cldc_put_def if_not_P [OF False]]])
    fix fh rc s'
    assume a: "(case cldc_new_msg E c CMO_PUT (Call_put (cf_fh fh) data) s of
                (None, s) \<Rightarrow> (- ENOMEM, s) | (Some msg, s) \<Rightarrow> (0, snd (sess_send E (msg\<lparr>cm_cb := Generic_end_cb\<rparr>) s))) = (rc, s')"
    obtain r s1 where new: "cldc_new_msg E c CMO_PUT (Call_put (cf_fh fh) data) s = (r, s1)" by fastforce
    show "tokens s' \<subseteq># tokens s + fresh c"
      using a new new_msg_tokens [OF new] send_tokens [where s = s1, OF prod.collapse [symmetric]] by (auto split: option.splits)
  qed
qed

lemma app_tokens: "app_call E c s s' \<Longrightarrow> tokens s' \<subseteq># tokens s + fresh c"
  by (induction rule: app_call.induct)
    (auto simp: cldc_end_sess_def cldc_nop_def cldc_del_def cldc_lock_def cldc_unlock_def cldc_get_def
      intro: open_tokens call_tokens [OF prod.collapse [symmetric]] dest: close_tokens put_tokens elim!: with_fh_tokens dest!: call_tokens)

lemma new_msg_empty:
  assumes "cldc_new_msg E c op req s = (r, s')" "cc_app s = []" "cc_out_msg s = []"
  shows "tokens s' = {#}" and "\<And>m. r = Some m \<Longrightarrow> cm_copts m = c \<and> \<not> cm_done m"
  using new_msg_tokens [OF assms(1)] assms(2,3) by (simp_all add: tokens_def calls_def)

lemma new_sess_tokens:
  assumes "cldc_new_sess E c addr user key s = (rc, s')" "cc_app s = []" "cc_out_msg s = []"
  shows "tokens s' \<subseteq># fresh c"
proof (cases "length addr > 64 \<or> user = [] \<or> key = [] \<or> length user \<ge> CLD_MAX_USERNAME \<or> length key \<ge> CLD_MAX_SECRET_KEY \<or> \<not> fst (cldc_alloc s)")
  case True
  then have "cc_app s' = [] \<and> cc_out_msg s' = []" using assms by (auto simp: cldc_new_sess_def cldc_alloc_def split: if_splits prod.splits)
  then show ?thesis by (simp add: tokens_def calls_def)
next
  case False
  define s1 where "s1 = sess_init E addr user key (snd (cldc_alloc s))"
  obtain r s2 where new: "cldc_new_msg E c CMO_NEW_SESS Call_void s1 = (r, s2)" by fastforce
  have "cc_app s1 = []" "cc_out_msg s1 = []" using assms by (auto simp: s1_def sess_init_def cldc_alloc_def split: prod.split)
  note e = new_msg_empty [OF new this]
  have step: "(case r of None \<Rightarrow> (- ENOMEM, s2\<lparr>cc_freed := True\<rparr>)
      | Some m \<Rightarrow> sess_send E (m\<lparr>cm_cb := New_sess_cb\<rparr>) (s2\<lparr>cc_expire_time := cc_now s2 + CLDC_SESS_EXPIRE, cc_timer := Some CLDC_MSG_RETRY\<rparr>)) = (rc, s')"
    using assms(1) False new unfolding s1_def by (cases r) (auto simp: cldc_new_sess_def case_prod_beta)
  show ?thesis
  proof (cases r)
    case (Some m)
    then show ?thesis using step e send_tokens [where m = m and cb = New_sess_cb and c = c] by fastforce
  qed (use step e in auto)
qed

section \<open>Completion\<close>

definition once :: "nat multiset \<Rightarrow> bool" where
  "once T \<longleftrightarrow> (\<forall>i. count T i \<le> 1)"

lemma once_mono: "once T \<Longrightarrow> T' \<subseteq># T \<Longrightarrow> once T'"
  by (meson mset_subset_eq_count once_def order_trans)

lemma once_fresh: "once T \<Longrightarrow> (\<And>i. c = Some i \<Longrightarrow> i \<notin># T) \<Longrightarrow> once (T + fresh c)"
  by (auto simp: once_def fresh_def not_in_iff split: option.splits)

lemma reach_once: "cldc_reach E s \<Longrightarrow> once (tokens s)"
proof (induction rule: cldc_reach.induct)
  case (reach_new c addr user key s rc s')
  show ?case by (rule once_mono [OF _ new_sess_tokens [OF reach_new(1-3)]]) (auto simp: once_def fresh_def split: option.split)
next
  case (reach_step s s')
  from reach_step.hyps(2) show ?case
  proof cases
    case (step_call c)
    then show ?thesis using app_tokens reach_step.IH by (blast intro: once_mono once_fresh)
  qed (use reach_step.IH in \<open>auto intro: once_mono receive_tokens timer_tokens\<close>)
qed

text \<open>
  C10: In every state a session can reach by receiving packets, by its timer and by calls, each callback of the
  application has been invoked at most once, however often the lock service repeats its answer, and a call that has
  been answered is not among the messages that can still be.
\<close>

theorem completed_once:
  assumes "cldc_reach E s"
  shows "distinct (calls s) \<and> set (calls s) \<inter> set (pend (cc_out_msg s)) = {}"
proof -
  have o: "count (mset (calls s)) i + count (mset (pend (cc_out_msg s))) i \<le> 1" for i
    using reach_once [OF assms] by (simp add: once_def tokens_def)
  then have "distinct (calls s)" by (metis add_leD1 distinct_count_atmost_1 count_mset_0_iff le_antisym not_less_eq_eq One_nat_def le_zero_eq)
  moreover have "set (calls s) \<inter> set (pend (cc_out_msg s)) = {}"
  proof (rule ccontr)
    assume "\<not> ?thesis"
    then obtain i where "i \<in># mset (calls s)" "i \<in># mset (pend (cc_out_msg s))" by auto
    then have "count (mset (calls s)) i > 0" "count (mset (pend (cc_out_msg s))) i > 0" by (simp_all only: count_greater_zero_iff)
    then show False using o [of i] by linarith
  qed
  ultimately show ?thesis ..
qed

section \<open>An example\<close>

text \<open>A session is requested, the server never answers, and the timer ends it after two minutes.\<close>

definition X_once :: xenv where
  "X_once = \<lparr>x_hmac = (\<lambda>k m. replicate 20 0), x_rand = (\<lambda>n. 1), x_hdr = (\<lambda>h. Some []), x_req = (\<lambda>r. Some []), x_dec_hdr = (\<lambda>b. None), x_dec_generic = (\<lambda>b. None),
     x_dec_ack_frag = (\<lambda>b. None), x_dec_event = (\<lambda>b. None), x_dec_open = (\<lambda>b. None), x_dec_get = (\<lambda>b. None), x_cb = (\<lambda>i code. 0)\<rparr>"

definition cldc_blank :: cldc where
  "cldc_blank = \<lparr>cc_freed = True, cc_sid = [], cc_addr = [], cc_cfh = [], cc_fhs = Map.empty, cc_out_msg = [], cc_msg_scan_time = 0, cc_expire_time = 0, cc_expired = False,
     cc_next_seqid_in = 0, cc_next_seqid_in_tr = 0, cc_next_seqid_out = 0, cc_user = [], cc_secret_key = [], cc_confirmed = False, cc_msg_buf_op = 0, cc_msg_buf = [],
     cc_now = 50, cc_mem = [], cc_rnd = 0, cc_next_fh = 0, cc_sends = [], cc_sent = [], cc_timer = None, cc_app = []\<rparr>"

lemma new_sess_runs:
  "\<exists>s m. cldc_new_sess X_once (Some 7) [9] [117] [117] cldc_blank = (0, s) \<and> \<not> cc_freed s \<and> cc_out_msg s = [m] \<and>
     cm_copts m = Some 7 \<and> \<not> cm_done m \<and> cm_cb m = New_sess_cb \<and> cc_app s = [] \<and> cc_expire_time s = 170"
  by (simp add: cldc_new_sess_def cldc_blank_def X_once_def cldc_alloc_def sess_init_def cldc_new_msg_def sess_send_def sess_send_pkt_def cld_rand64_def
      cldc_user_key_def cld_authsign_def Let_def cfg_simps)

theorem completed_once_witness:
  "\<exists>s. cldc_reach X_once s \<and> calls s = [7] \<and> distinct (calls s) \<and> set (calls s) \<inter> set (pend (cc_out_msg s)) = {}"
proof -
  obtain s m where new: "cldc_new_sess X_once (Some 7) [9] [117] [117] cldc_blank = (0, s)" and s: "\<not> cc_freed s" "cc_out_msg s = [m]" "cm_copts m = Some 7"
      "\<not> cm_done m" "cm_cb m = New_sess_cb" "cc_app s = []" "cc_expire_time s = 170"
    using new_sess_runs by blast
  let ?t = "s\<lparr>cc_now := 1000\<rparr>"
  have "cldc_reach X_once s" by (rule reach_new [OF new]) (simp_all add: cldc_blank_def)
  then have t: "cldc_reach X_once ?t" by (rule reach_step) (rule step_time)
  obtain r u where u: "sess_timer X_once ?t = Some (Inr (r, u))" "calls u = [7]"
    using s by (simp add: sess_timer_def sess_expire_def sess_msg_drop_def msg_cb_def new_sess_cb_def app_cb_def run_simps calls_def)
  have "cldc_reach X_once u" by (rule reach_step [OF t step_timer [OF _ u(1)]]) (simp add: s)
  then show ?thesis using completed_once u(2) by blast
qed

end
