(* ===== verification/Cldc_Answer.thy ===== *)
theory Cldc_Answer
  imports Cldc_Once Cld_Send
begin

text \<open>
  The lock server's answers at the client: what the server's send routine makes of a message (theory \<open>Cld_Send\<close>) is
  accepted, acknowledged packet by packet, put together and handed to the application.
\<close>

section \<open>Receiving a sealed packet\<close>

definition ack_pkt :: "xenv \<Rightarrow> cldc \<Rightarrow> u64 \<Rightarrow> bytes" where
  "ack_pkt X s q = seal (x_hmac X) (cc_secret_key s) (the (x_hdr X (cldc_hdr s CLD_PKT_ORD_FIRST_LAST 0 CMO_ACK))) q []"

text \<open>A session whose keys and address are those of the server's session, with a call that waits for an answer.\<close>

definition awaits :: "bytes \<Rightarrow> session \<Rightarrow> u64 \<Rightarrow> cldc_msg \<Rightarrow> cldc \<Rightarrow> bool" where
  "awaits addr x xid m s \<longleftrightarrow> \<not> cc_freed s \<and> length (cc_sid s) = CLD_SID_SZ \<and> cc_addr s = addr \<and> cc_user s = ss_user x \<and> cc_secret_key s = ss_user x \<and>
     cc_sends s = [] \<and> cc_now s \<le> cm_expire_time m \<and> (\<exists>pre post. find_msg xid (cc_out_msg s) = Some (pre, m, post))"

definition agree :: "'d env \<Rightarrow> xenv \<Rightarrow> session \<Rightarrow> bool" where
  "agree E X x \<longleftrightarrow> x_hmac X = e_hmac E \<and> (\<forall>k m. length (e_hmac E k m) = SHA_DIGEST_LENGTH) \<and> ss_user x \<noteq> [] \<and> length (ss_user x) < CLD_MAX_USERNAME \<and>
     (\<forall>first is_last xid op. \<exists>h. e_xdr_hdr E (pkt_header x first is_last xid op) = Some h \<and>
        (\<forall>rest. x_dec_hdr X (h @ rest) = Some (pkt_header x first is_last xid op, length h))) \<and>
     (\<forall>s order xid op. cc_user s = ss_user x \<and> length (cc_sid s) = CLD_SID_SZ \<longrightarrow>
        (\<exists>h. x_hdr X (cldc_hdr s order xid op) = Some h \<and> length h + CLD_PKT_FTR_LEN \<le> CLD_MAX_PKT_MSG_SZ))"

lemma frag_hdr_dec: "agree E X x \<Longrightarrow> x_dec_hdr X (frag_hdr E x xid op first is_last @ rest) = Some (pkt_header x first is_last xid op, length (frag_hdr E x xid op first is_last))"
  unfolding agree_def frag_hdr_def by (metis option.sel)

lemma ack_sends:
  assumes "agree E X x" "awaits addr x xid m s"
  shows "ack_seqid X q s = Some (Inr (0, s\<lparr>cc_sent := cc_sent s @ [ack_pkt X s q]\<rparr>))"
proof -
  obtain h where h: "x_hdr X (cldc_hdr s CLD_PKT_ORD_FIRST_LAST 0 CMO_ACK) = Some h" "length h + CLD_PKT_FTR_LEN \<le> CLD_MAX_PKT_MSG_SZ"
    using assms unfolding agree_def awaits_def by blast
  then have "\<not> length h > CLD_MAX_PKT_MSG_SZ - CLD_PKT_FTR_LEN" by linarith
  with h show ?thesis using assms
    by (simp add: ack_seqid_def awaits_def agree_def cldc_user_key_def cld_authsign_def ack_pkt_def seal_def sess_send_pkt_def rcall_def Let_def)
qed

lemma find_filter: "find_msg xid ms = Some (pre, m, post) \<Longrightarrow> P m \<Longrightarrow> find_msg xid (filter P ms) = Some (filter P pre, m, filter P post)"
  by (induction ms arbitrary: pre) (auto split: if_splits option.splits)

definition scanned :: "cldc \<Rightarrow> cldc" where
  "scanned s = (if cc_now s \<ge> cc_msg_scan_time s then sess_expire_outmsg (cc_now s) s else s)"

lemma awaits_scanned: "awaits addr x xid m s \<Longrightarrow> awaits addr x xid m (scanned s)"
  using find_filter [of xid "cc_out_msg s" _ m _ "\<lambda>m. \<not> cc_now s > cm_expire_time m"]
  by (fastforce simp: awaits_def scanned_def sess_expire_outmsg_def)

lemma scanned_simps [simp]: "cc_msg_buf (scanned s) = cc_msg_buf s" "cc_msg_buf_op (scanned s) = cc_msg_buf_op s" "cc_next_seqid_in (scanned s) = cc_next_seqid_in s"
  "cc_app (scanned s) = cc_app s" "cc_sent (scanned s) = cc_sent s" "cc_sid (scanned s) = cc_sid s" "cc_now (scanned s) = cc_now s" "cc_next_seqid_in_tr (scanned s) = cc_next_seqid_in_tr s"
  by (simp_all add: scanned_def sess_expire_outmsg_def)

definition plain_op :: "u32 \<Rightarrow> bool" where
  "plain_op op \<longleftrightarrow> op \<notin> {CMO_NEW_SESS, CMO_ACK, CMO_PING, CMO_NOT_MASTER, CMO_EVENT, CMO_ACK_FRAG}"

text \<open>The session after the packet with number \<open>q\<close> and contents \<open>c\<close> has been taken in.\<close>

definition taken :: "bool \<Rightarrow> u32 \<Rightarrow> bytes \<Rightarrow> cldc \<Rightarrow> cldc" where
  "taken first op c s = (if first then (scanned s)\<lparr>cc_msg_buf_op := op\<rparr> else scanned s)\<lparr>cc_next_seqid_in := cc_next_seqid_in s + 1, cc_next_seqid_in_tr := cc_next_seqid_in_tr s + 1,
     cc_msg_buf := (if first then [] else cc_msg_buf s) @ c, cc_expire_time := cc_now s + CLDC_SESS_EXPIRE\<rparr>"

lemma awaits_taken: "awaits addr x xid m s \<Longrightarrow> awaits addr x xid m (taken first op c s)"
  using awaits_scanned [of addr x xid m s] by (auto simp: awaits_def taken_def)

lemma order_flags [simp]:
  "has_flag (ph_order (pkt_header x first is_last xid op)) CLD_PKT_IS_FIRST = first"
  "has_flag (ph_order (pkt_header x first is_last xid op)) CLD_PKT_IS_LAST = is_last"
  by (simp_all add: pkt_header_def cfg_simps has_flag_def)

lemma seal_parts:
  assumes "length (H key (h @ c @ le_bytes 8 q)) = SHA_DIGEST_LENGTH"
  shows "length (seal H key h q c) = length h + length c + CLD_PKT_FTR_LEN"
    "take (length h + length c) (seal H key h q c) = h @ c"
    "take 8 (drop (length h + length c) (seal H key h q c)) = le_bytes 8 q"
    "take (length c) (drop (length h) (seal H key h q c)) = c"
    "take (length h + length c + 8) (seal H key h q c) = h @ c @ le_bytes 8 q"
    "drop (length h + length c + 8) (seal H key h q c) = H key (h @ c @ le_bytes 8 q)"
  using assms by (simp_all add: seal_def Let_def CLD_PKT_FTR_LEN_def)

lemma checked_taken:
  assumes "has_flag (ph_order hdr) CLD_PKT_IS_FIRST = first" "has_flag (ph_order hdr) CLD_PKT_IS_LAST = is_last" "(if first then mi_op (ph_mi hdr) else cc_msg_buf_op s) = op"
    and "length p - CLD_PKT_FTR_LEN = n + length c" "of_le_bytes (take 8 (drop (n + length c) p)) = cc_next_seqid_in s" "take (length c) (drop n p) = c"
    and "plain_op op" "length (if first then [] else cc_msg_buf s) + length c \<le> CLD_MAX_MSG_SZ"
  shows "rx_checked X hdr n p s = (if is_last then rx_complete X (cc_next_seqid_in s) (taken first op c s) else ack_seqid X (cc_next_seqid_in s) (taken first op c s))"
  using assms unfolding rx_checked_def Let_def scanned_def [symmetric]
  by (cases first; cases is_last) (simp_all add: accept_seqid_def plain_op_def taken_def)

lemma recv_sealed:
  assumes "agree E X x" "awaits addr x xid m s" "cc_next_seqid_in s = q"
    and op: "plain_op op" "first \<or> cc_msg_buf_op s = op"
    and fit: "length (if first then [] else cc_msg_buf s) + length c \<le> CLD_MAX_MSG_SZ"
  shows "cldc_receive_pkt X addr (seal (e_hmac E) (ss_user x) (frag_hdr E x xid' op first is_last) q c) s =
    (if is_last then rxmsg_generic X q (taken first op c s) else ack_seqid X q (taken first op c s))"
proof -
  let ?h = "frag_hdr E x xid' op first is_last" and ?hdr = "pkt_header x first is_last xid' op"
  let ?p = "seal (e_hmac E) (ss_user x) ?h q c"
  have hm: "x_hmac X = e_hmac E" "length (e_hmac E k b) = SHA_DIGEST_LENGTH" for k b using assms(1) by (auto simp: agree_def)
  note parts = seal_parts [of "e_hmac E" "ss_user x" ?h c q, OF hm(2)]
  have n: "length ?p - CLD_PKT_FTR_LEN = length ?h + length c" "length ?p - SHA_DIGEST_LENGTH = length ?h + length c + 8"
    by (simp_all add: parts CLD_PKT_FTR_LEN_def)
  have key: "cldc_user_key s (ph_user ?hdr) = Some (ss_user x)" using assms(1,2)
    by (simp add: cldc_user_key_def pkt_header_def agree_def awaits_def)
  have auth: "cld_authcheck (x_hmac X) (Some (ss_user x)) (take (length ?h + length c + 8) ?p) (drop (length ?h + length c + 8) ?p) = 0"
    using assms(1) by (simp add: parts hm cld_authcheck_def agree_def)
  have chk: "cldc_receive_pkt X addr ?p s = rx_checked X ?hdr (length ?h) ?p s"
    unfolding cldc_receive_pkt_def Let_def n using parts key auth assms(2) frag_hdr_dec [OF assms(1)]
    by (simp add: awaits_def pkt_header_def)
  have "rx_checked X ?hdr (length ?h) ?p s = (if is_last then rx_complete X q (taken first op c s) else ack_seqid X q (taken first op c s))"
    by (rule checked_taken [where s = s, OF order_flags _ n(1), unfolded assms(3)]) (use op assms(3) fit parts(3,4) in \<open>auto simp: pkt_header_def\<close>)
  moreover have "cc_msg_buf_op (taken first op c s) = op" using op by (auto simp: taken_def)
  ultimately show ?thesis using chk op(1) by (simp add: rx_complete_def plain_op_def Let_def)
qed

section \<open>Answers\<close>

fun rx_seq :: "xenv \<Rightarrow> bytes \<Rightarrow> bytes list \<Rightarrow> (cldc, int) run" where
  "rx_seq X addr [] = rret 0"
| "rx_seq X addr (p # ps) = rbind (cldc_receive_pkt X addr p) (\<lambda>rc. if rc < 0 then rret rc else rx_seq X addr ps)"

definition acks :: "xenv \<Rightarrow> cldc \<Rightarrow> u64 \<Rightarrow> nat \<Rightarrow> bytes list" where
  "acks X s q n = map (\<lambda>k. ack_pkt X s (q + word_of_nat k)) [0..<n]"

lemma ack_pkt_cong: "cc_sid s' = cc_sid s \<Longrightarrow> cc_user s' = cc_user s \<Longrightarrow> cc_secret_key s' = cc_secret_key s \<Longrightarrow> ack_pkt X s' q = ack_pkt X s q"
  by (simp add: ack_pkt_def cldc_hdr_def)

lemma acks_Suc: "acks X s q (Suc n) = ack_pkt X s q # acks X s (q + 1) n"
  by (simp add: acks_def upt_rec [of 0] map_Suc_upt [symmetric] del: upt_Suc map_Suc_upt) (simp add: add.assoc)

lemma find_set: "find_msg xid ms = Some (pre, m, post) \<Longrightarrow> find_msg xid (pre @ m\<lparr>cm_done := b\<rparr> # post) = Some (pre, m\<lparr>cm_done := b\<rparr>, post)"
  by (induction ms arbitrary: pre) (auto split: if_splits option.splits)

lemma answer_done:
  assumes "agree E X x" "awaits addr x xid m s" "x_dec_generic X (cc_msg_buf s) = Some (code, xid)" "\<not> cm_done m" "cm_copts m = Some i" "x_cb X i code \<ge> 0"
    and cb: "cm_cb m = Generic_end_cb \<and> resp = None \<or> cm_cb m = Get_end_cb \<and> (if code = cle_code CLE_OK then resp \<noteq> None \<and> x_dec_get X (cc_msg_buf s) = resp else resp = None)"
  shows "\<exists>s' pre post. rxmsg_generic X q s = Some (Inr (0, s')) \<and> cc_app s' = cc_app s @ [App_done i code resp] \<and>
    find_msg xid (cc_out_msg s') = Some (pre, m\<lparr>cm_done := True\<rparr>, post) \<and> cc_sent s' = cc_sent s @ [ack_pkt X s q] \<and> cc_next_seqid_in s' = cc_next_seqid_in s"
proof -
  obtain pre post where f: "find_msg xid (cc_out_msg s) = Some (pre, m, post)" using assms(2) by (auto simp: awaits_def)
  let ?m = "m\<lparr>cm_done := True\<rparr>"
  let ?s = "s\<lparr>cc_out_msg := pre @ ?m # post, cc_app := cc_app s @ [App_done i code resp]\<rparr>"
  have f': "find_msg xid (pre @ ?m # post) = Some (pre, ?m, post)" using f by (rule find_set)
  have cb': "msg_cb X ?m (cc_msg_buf s) code (s\<lparr>cc_out_msg := pre @ ?m # post\<rparr>) = Some (Inr (x_cb X i code, ?s))"
    using cb assms(5) by (auto simp: msg_cb_def generic_end_cb_def get_end_cb_def app_cb_def run_simps split: if_splits)
  have "awaits addr x xid ?m ?s" using assms(2) f' by (simp add: awaits_def)
  from ack_sends [OF assms(1) this] have "rxmsg_generic X q s = Some (Inr (0, ?s\<lparr>cc_sent := cc_sent s @ [ack_pkt X ?s q]\<rparr>))"
    using f assms(3,4,6) cb' by (simp add: rxmsg_generic_def rbind_def)
  moreover have "ack_pkt X ?s q = ack_pkt X s q" by (rule ack_pkt_cong) simp_all
  ultimately show ?thesis using f' by auto
qed

lemma taken_simps [simp]: "cc_msg_buf (taken first op c s) = (if first then [] else cc_msg_buf s) @ c" "cc_msg_buf_op (taken first op c s) = (if first then op else cc_msg_buf_op s)"
  "cc_next_seqid_in (taken first op c s) = cc_next_seqid_in s + 1" "cc_app (taken first op c s) = cc_app s" "cc_sent (taken first op c s) = cc_sent s" "cc_sid (taken first op c s) = cc_sid s"
  by (simp_all add: taken_def)

lemma awaits_sent: "awaits addr x xid m (s\<lparr>cc_sent := p\<rparr>) = awaits addr x xid m s"
  by (simp add: awaits_def)

lemma rx_sealed:
  assumes "agree E X x" "awaits addr x xid m s" "plain_op op" "cs \<noteq> []" "first \<or> cc_msg_buf_op s = op"
    and "length (if first then [] else cc_msg_buf s) + length (concat cs) \<le> CLD_MAX_MSG_SZ"
    and gen: "\<And>s' q. awaits addr x xid m s' \<Longrightarrow> cc_msg_buf s' = (if first then [] else cc_msg_buf s) @ concat cs \<Longrightarrow>
      \<exists>s2 pre post. rxmsg_generic X q s' = Some (Inr (0, s2)) \<and> cc_app s2 = cc_app s' @ ev \<and> find_msg xid (cc_out_msg s2) = Some (pre, m\<lparr>cm_done := True\<rparr>, post) \<and>
        cc_sent s2 = cc_sent s' @ [ack_pkt X s' q] \<and> cc_next_seqid_in s2 = cc_next_seqid_in s'"
  shows "\<exists>s' pre post. rx_seq X addr (sealed E (ss_user x) x xid' op first (cc_next_seqid_in s) cs) s = Some (Inr (0, s')) \<and>
    cc_app s' = cc_app s @ ev \<and> find_msg xid (cc_out_msg s') = Some (pre, m\<lparr>cm_done := True\<rparr>, post) \<and>
    cc_sent s' = cc_sent s @ acks X s (cc_next_seqid_in s) (length cs) \<and> cc_next_seqid_in s' = cc_next_seqid_in s + word_of_nat (length cs)"
  using assms(2-)
proof (induction cs arbitrary: s first)
  case (Cons c cs)
  let ?q = "cc_next_seqid_in s" and ?t = "taken first op c s"
  note r = recv_sealed [OF assms(1) Cons.prems(1) HOL.refl assms(3) Cons.prems(4), of c xid' "cs = []"]
  have w: "awaits addr x xid m ?t" using Cons.prems(1) by (rule awaits_taken)
  have fit: "length (if first then [] else cc_msg_buf s) + length c \<le> CLD_MAX_MSG_SZ" using Cons.prems(5) by simp
  have ck: "ack_pkt X ?t k = ack_pkt X s k" for k using w Cons.prems(1) by (intro ack_pkt_cong) (auto simp: awaits_def)
  show ?case
  proof (cases "cs = []")
    case True
    obtain s2 pre post where "rxmsg_generic X ?q ?t = Some (Inr (0, s2))" "cc_app s2 = cc_app ?t @ ev" "find_msg xid (cc_out_msg s2) = Some (pre, m\<lparr>cm_done := True\<rparr>, post)"
      "cc_sent s2 = cc_sent ?t @ [ack_pkt X ?t ?q]" "cc_next_seqid_in s2 = cc_next_seqid_in ?t"
      using Cons.prems(6) [OF w, of ?q] True by auto
    then show ?thesis using True r fit ck by (simp add: rbind_def rret_def acks_def)
  next
    case False
    let ?t2 = "?t\<lparr>cc_sent := cc_sent s @ [ack_pkt X s ?q]\<rparr>"
    have w2: "awaits addr x xid m ?t2" using w by (simp add: awaits_sent)
    have ck2: "ack_pkt X ?t2 k = ack_pkt X s k" for k using w Cons.prems(1) by (intro ack_pkt_cong) (auto simp: awaits_def)
    have step: "cldc_receive_pkt X addr (seal (e_hmac E) (ss_user x) (frag_hdr E x xid' op first (cs = [])) ?q c) s = Some (Inr (0, ?t2))"
      using r fit False ack_sends [OF assms(1) w] ck by simp
    have "\<exists>s' pre post. rx_seq X addr (sealed E (ss_user x) x xid' op False (cc_next_seqid_in ?t2) cs) ?t2 = Some (Inr (0, s')) \<and>
        cc_app s' = cc_app ?t2 @ ev \<and> find_msg xid (cc_out_msg s') = Some (pre, m\<lparr>cm_done := True\<rparr>, post) \<and>
        cc_sent s' = cc_sent ?t2 @ acks X ?t2 (cc_next_seqid_in ?t2) (length cs) \<and> cc_next_seqid_in s' = cc_next_seqid_in ?t2 + word_of_nat (length cs)"
      by (rule Cons.IH [OF w2 assms(3) False]) (use Cons.prems(4,5,6) in \<open>auto\<close>)
    moreover have "acks X ?t2 q n = acks X s q n" for q n by (simp add: acks_def ck2)
    ultimately show ?thesis using step by (auto simp: rbind_def acks_Suc add.assoc)
  qed
qed simp

lemma sealed_length [simp]: "length (sealed E key x xid op first q cs) = length cs"
  by (induction cs arbitrary: first q) auto


section \<open>An example\<close>

definition X_sample :: xenv where
  "X_sample = \<lparr>x_hmac = HMAC_sample, x_rand = (\<lambda>n. word_of_nat (200 + n)), x_hdr = (\<lambda>h. Some (ref_hdr h)), x_req = (\<lambda>r. Some []), x_dec_hdr = ref_dec_hdr,
     x_dec_generic = (\<lambda>b. if length b < 12 then None else Some (of_le_bytes (take 4 b), of_le_bytes (take 8 (drop 4 b)))),
     x_dec_ack_frag = (\<lambda>b. None), x_dec_event = (\<lambda>b. None), x_dec_open = (\<lambda>b. None), x_dec_get = (\<lambda>b. None), x_cb = (\<lambda>i code. 0)\<rparr>"

lemma X_sample_sel [simp]: "x_hmac X_sample = HMAC_sample" "x_hdr X_sample h = Some (ref_hdr h)" "x_dec_hdr X_sample = ref_dec_hdr" "x_cb X_sample i code = 0"
  "x_dec_generic X_sample b = (if length b < 12 then None else Some (of_le_bytes (take 4 b), of_le_bytes (take 8 (drop 4 b))))"
  by (simp_all add: X_sample_def)

definition msg_sample :: "u64 \<Rightarrow> cldc_msg" where
  "msg_sample xid = \<lparr>cm_xid = xid, cm_op = CMO_PUT, cm_cb = Generic_end_cb, cm_copts = Some 7, cm_done = False, cm_expire_time = 300, cm_pkts = []\<rparr>"

definition cldc_sample :: cldc where
  "cldc_sample = \<lparr>cc_freed = False, cc_sid = ss_sid sample_sess, cc_addr = [9], cc_cfh = [], cc_fhs = Map.empty, cc_out_msg = [msg_sample 3, msg_sample 4], cc_msg_scan_time = 0,
     cc_expire_time = 100, cc_expired = False, cc_next_seqid_in = 9, cc_next_seqid_in_tr = 0, cc_next_seqid_out = 5, cc_user = [117], cc_secret_key = [117],
     cc_confirmed = True, cc_msg_buf_op = 0, cc_msg_buf = [], cc_now = 50, cc_mem = [], cc_rnd = 0, cc_next_fh = 0, cc_sends = [], cc_sent = [], cc_timer = None, cc_app = []\<rparr>"

lemma ref_hdr_dec:
  assumes "length (ph_magic h) = 8" "length (ph_sid h) = 8" "length (ph_user h) < 256"
  shows "ref_dec_hdr (ref_hdr h @ rest) = Some (h, length (ref_hdr h))"
proof -
  have n: "unat (word_of_nat (length (ph_user h)) :: 8 word) = length (ph_user h)" using assms(3) by (simp add: unat_of_nat)
  have e: "ref_hdr h @ rest = (ph_magic h @ ph_sid h @ le_bytes 4 (ph_order h) @ le_bytes 8 (mi_xid (ph_mi h)) @ le_bytes 4 (mi_op (ph_mi h))) @
      word_of_nat (length (ph_user h)) # ph_user h @ rest" (is "_ = ?a @ _")
    by (simp add: ref_hdr_def)
  have l: "length ?a = 32" using assms by simp
  have "(ref_hdr h @ rest) ! 32 = word_of_nat (length (ph_user h))" unfolding e using l by (metis nth_append_length)
  then show ?thesis using assms n
    by (simp add: ref_dec_hdr_def Let_def ref_hdr_def)
qed

lemma agree_sample: "agree (ref_env False) X_sample sample_sess"
proof -
  have m: "length CLD_PKT_MAGIC = 8" by (simp add: CLD_PKT_MAGIC_def)
  have h: "ref_dec_hdr (ref_hdr (pkt_header sample_sess first is_last xid op) @ rest) =
      Some (pkt_header sample_sess first is_last xid op, length (ref_hdr (pkt_header sample_sess first is_last xid op)))" for first is_last xid op rest
    by (rule ref_hdr_dec) (simp_all add: pkt_header_def sample_sess_def m)
  show ?thesis using h by (auto simp: agree_def sample_sess_def cldc_hdr_def ref_hdr_def m cfg_simps CLD_SID_SZ_def)
qed


end
