(* ===== verification/Cldc_Call.thy ===== *)
theory Cldc_Call
  imports Cldc_Answer Cld_Server
begin

text \<open>
  The client's calls at the lock server: the packets of a call are those the server's receiving side accepts and puts
  together, and the call reaches its handler.
\<close>

section \<open>The packets of a call\<close>

definition chdr :: "xenv \<Rightarrow> cldc \<Rightarrow> u64 \<Rightarrow> u32 \<Rightarrow> bool \<Rightarrow> bool \<Rightarrow> cld_pkt_hdr" where
  "chdr X s xid op first is_last = (if first then cldc_hdr s (pkt_order first is_last) xid op else cldc_hdr s (pkt_order first is_last) 0 0)"

fun cunsealed :: "xenv \<Rightarrow> cldc \<Rightarrow> u64 \<Rightarrow> u32 \<Rightarrow> bool \<Rightarrow> bytes list \<Rightarrow> bytes list" where
  "cunsealed X s xid op first [] = []"
| "cunsealed X s xid op first (c # cs) = (the (x_hdr X (chdr X s xid op first (cs = []))) @ c @ replicate CLD_PKT_FTR_LEN 0) # cunsealed X s xid op False cs"

fun csealed :: "xenv \<Rightarrow> cldc \<Rightarrow> u64 \<Rightarrow> u32 \<Rightarrow> bool \<Rightarrow> u64 \<Rightarrow> bytes list \<Rightarrow> bytes list" where
  "csealed X s xid op first q [] = []"
| "csealed X s xid op first q (c # cs) =
     seal (x_hmac X) (cc_secret_key s) (the (x_hdr X (chdr X s xid op first (cs = [])))) q c # csealed X s xid op False (q + 1) cs"

lemma chunks_count: "length (chunks b) = (if length b = 0 then 1 else (length b + CLD_MAX_PKT_MSG_SZ - 1) div CLD_MAX_PKT_MSG_SZ)"
proof (induction b rule: chunks.induct)
  case (1 b)
  show ?case
  proof (cases "length b \<le> CLD_MAX_PKT_MSG_SZ")
    case True
    then have "chunks b = [b]" by (subst chunks.simps) simp
    moreover have "0 < n \<Longrightarrow> n \<le> 1024 \<Longrightarrow> (n + 1024 - 1) div 1024 = (1 :: nat)" for n by linarith
    ultimately show ?thesis using True by (simp add: CLD_MAX_PKT_MSG_SZ_def)
  next
    case False
    then have "chunks b = take CLD_MAX_PKT_MSG_SZ b # chunks (drop CLD_MAX_PKT_MSG_SZ b)" by (subst chunks.simps) simp
    then show ?thesis using "1.IH" [OF False] False by (auto simp: CLD_MAX_PKT_MSG_SZ_def)
  qed
qed

lemma cldc_alloc_ok: "cc_mem s = [] \<Longrightarrow> cldc_alloc s = (True, s)"
  by (cases s) (simp add: cldc_alloc_def)

definition hdrs_ok :: "xenv \<Rightarrow> cldc \<Rightarrow> bool" where
  "hdrs_ok X s \<longleftrightarrow> (\<forall>xid op first is_last. x_hdr X (chdr X s xid op first is_last) \<noteq> None)"

lemma new_pkts_ok:
  assumes "cc_mem s = []" "hdrs_ok X s"
  shows "new_pkts X xid op (length (chunks b)) first b s = (Some (map (\<lambda>d. Some \<lparr>cp_data = d, cp_retries = 0\<rparr>) (cunsealed X s xid op first (chunks b))), s)"
proof (induction b arbitrary: first rule: chunks.induct)
  case (1 b)
  obtain h where h: "x_hdr X (chdr X s xid op first (length b \<le> CLD_MAX_PKT_MSG_SZ)) = Some h" using assms(2) by (fastforce simp: hdrs_ok_def)
  show ?case
  proof (cases "length b \<le> CLD_MAX_PKT_MSG_SZ")
    case True
    then have "chunks b = [b]" by (subst chunks.simps) simp
    then show ?thesis using h True by (cases first) (simp_all add: Let_def cldc_alloc_ok [OF assms(1)] chdr_def)
  next
    case False
    have c: "chunks b = take CLD_MAX_PKT_MSG_SZ b # chunks (drop CLD_MAX_PKT_MSG_SZ b)" using False by (subst chunks.simps) simp
    have m: "min (length b) CLD_MAX_PKT_MSG_SZ = CLD_MAX_PKT_MSG_SZ" using False by simp
    show ?thesis unfolding c using "1.IH" [OF False, of False] h False
      by (cases first) (simp_all add: Let_def cldc_alloc_ok [OF assms(1)] chdr_def m chunks_ne)
  qed
qed

lemma send_pkts_ok:
  assumes "\<And>k m. length (x_hmac X k m) = SHA_DIGEST_LENGTH" "cc_user s0 \<noteq> []" "length (cc_user s0) < CLD_MAX_USERNAME" "cc_secret_key s0 \<noteq> []"
    and "cc_sends s = []" "cc_user s = cc_user s0" "cc_secret_key s = cc_secret_key s0"
  shows "\<exists>qs. send_msg_pkts X (map (\<lambda>d. Some \<lparr>cp_data = d, cp_retries = 0\<rparr>) (cunsealed X s0 xid op first cs)) s =
      (Inr qs, s\<lparr>cc_next_seqid_out := cc_next_seqid_out s + word_of_nat (length cs), cc_sent := cc_sent s @ csealed X s0 xid op first (cc_next_seqid_out s) cs\<rparr>) \<and>
    qs = map (\<lambda>d. Some \<lparr>cp_data = d, cp_retries = 0\<rparr>) (csealed X s0 xid op first (cc_next_seqid_out s) cs)"
  using assms(5-)
proof (induction cs arbitrary: s first)
  case Nil
  then show ?case by simp
next
  case (Cons c cs)
  let ?h = "the (x_hdr X (chdr X s0 xid op first (cs = [])))" and ?q = "cc_next_seqid_out s"
  let ?p = "seal (x_hmac X) (cc_secret_key s0) ?h ?q c"
  let ?s = "s\<lparr>cc_next_seqid_out := ?q + 1, cc_sent := cc_sent s @ [?p]\<rparr>"
  have key: "cldc_user_key (s\<lparr>cc_next_seqid_out := ?q + 1\<rparr>) (cc_user s) = Some (cc_secret_key s0)" using assms(2,3) Cons.prems by (simp add: cldc_user_key_def)
  have sign: "cld_authsign (x_hmac X) (Some (cc_secret_key s0)) (?h @ c @ le_bytes 8 ?q) (replicate SHA_DIGEST_LENGTH 0) = (0, x_hmac X (cc_secret_key s0) (?h @ c @ le_bytes 8 ?q))"
    using assms(1,4) by (simp add: cld_authsign_def Let_def)
  have send: "sess_send_pkt ?p (s\<lparr>cc_next_seqid_out := ?q + 1\<rparr>) = (0, ?s)" using Cons.prems(1) by (simp add: sess_send_pkt_def Let_def)
  have IH: "send_msg_pkts X (map (\<lambda>d. Some \<lparr>cp_data = d, cp_retries = 0\<rparr>) (cunsealed X s0 xid op False cs)) ?s =
      (Inr (map (\<lambda>d. Some \<lparr>cp_data = d, cp_retries = 0\<rparr>) (csealed X s0 xid op False (?q + 1) cs)),
       ?s\<lparr>cc_next_seqid_out := ?q + 1 + word_of_nat (length cs), cc_sent := cc_sent ?s @ csealed X s0 xid op False (?q + 1) cs\<rparr>)"
    using Cons.IH [of ?s False] Cons.prems by simp
  have p: "?h @ c @ le_bytes 8 ?q @ x_hmac X (cc_secret_key s0) (?h @ c @ le_bytes 8 ?q) = ?p" by (simp add: seal_def Let_def)
  show ?case using key sign send IH by (simp add: Let_def p add.assoc)
qed

lemma chdr_rnd [simp]: "chdr X (s\<lparr>cc_rnd := k\<rparr>) xid op first is_last = chdr X s xid op first is_last"
  by (simp add: chdr_def cldc_hdr_def)

lemma sealed_rnd [simp]: "cunsealed X (s\<lparr>cc_rnd := k\<rparr>) xid op first cs = cunsealed X s xid op first cs" "csealed X (s\<lparr>cc_rnd := k\<rparr>) xid op first q cs = csealed X s xid op first q cs"
  by (induction cs arbitrary: first q) simp_all

definition client_ok :: "xenv \<Rightarrow> cldc \<Rightarrow> bool" where
  "client_ok X s \<longleftrightarrow> cc_mem s = [] \<and> cc_sends s = [] \<and> hdrs_ok X s \<and> cc_user s \<noteq> [] \<and> length (cc_user s) < CLD_MAX_USERNAME \<and> cc_secret_key s \<noteq> [] \<and>
     (\<forall>k m. length (x_hmac X k m) = SHA_DIGEST_LENGTH)"

lemma call_sends:
  assumes "client_ok X s" "x_req X req = Some body" and r: "cld_rand64 (x_rand X) (cc_rnd s) = (xid, k)"
    and ps: "ps = csealed X s xid op True (cc_next_seqid_out s) (chunks body)"
  shows "cldc_call X c op req cb s = (0, s\<lparr>cc_rnd := k, cc_next_seqid_out := cc_next_seqid_out s + word_of_nat (length (chunks body)), cc_sent := cc_sent s @ ps,
    cc_out_msg := \<lparr>cm_xid = xid, cm_op = op, cm_cb = cb, cm_copts = c, cm_done = False, cm_expire_time = cc_now s + CLDC_MSG_EXPIRE,
      cm_pkts = map (\<lambda>d. Some \<lparr>cp_data = d, cp_retries = 0\<rparr>) ps\<rparr> # cc_out_msg s\<rparr>)"
proof -
  let ?s = "s\<lparr>cc_rnd := k\<rparr>"
  have mem: "cc_mem s = []" "cc_mem ?s = []" "hdrs_ok X ?s" using assms(1) by (simp_all add: client_ok_def hdrs_ok_def)
  note new = new_pkts_ok [OF mem(2,3), of xid op body True, unfolded sealed_rnd]
  note send = send_pkts_ok [where X = X and ?s0.0 = s and s = ?s and xid = xid and op = op and first = True and cs = "chunks body"]
  show ?thesis
    using new send assms(1,2) r
    unfolding cldc_call_def cldc_new_msg_def sess_send_def chunks_count [symmetric] ps
    by (simp add: cldc_alloc_ok [OF mem(1)] chunks_count [symmetric] client_ok_def)
qed

section \<open>The server's side\<close>

text \<open>A connection of the server with the session \<open>p\<close> of the client.\<close>

definition serves :: "cldc \<Rightarrow> client \<Rightarrow> nat \<Rightarrow> 'd srv \<Rightarrow> bool" where
  "serves c cli p sv \<longleftrightarrow> sv_master sv \<and> htab_get (sv_sessions sv) (cc_sid c) = Some p \<and>
     (\<exists>x. sv_heap sv p = Some x \<and> ss_addr_len x = cl_addr_len cli \<and> take (unat (ss_addr_len x)) (ss_addr x) = take (unat (ss_addr_len x)) (cl_addr cli) \<and>
        ss_user x = cc_user c \<and> \<not> ss_dead x)"

text \<open>The session after a packet with contents \<open>d\<close>.\<close>

definition rx_sess :: "int \<Rightarrow> u64 \<Rightarrow> bool \<Rightarrow> u64 \<Rightarrow> u32 \<Rightarrow> bytes \<Rightarrow> session \<Rightarrow> session" where
  "rx_sess fd now first xid op d x =
     (let x = x\<lparr>ss_last_contact := now, ss_sock_fd := fd, ss_next_seqid_in := ss_next_seqid_in x + 1\<rparr>;
          x = (if first then x\<lparr>ss_msg_op := op, ss_msg_xid := xid, ss_msg_buf := []\<rparr> else x)
      in x\<lparr>ss_msg_buf := ss_msg_buf x @ d\<rparr>)"

lemma rx_session_takes:
  assumes "sv_heap s p = Some x" "pi_op info \<noteq> CMO_ACK" "length raw - pi_hdr_len info - CLD_PKT_FTR_LEN = length d" "take (length d) (drop (pi_hdr_len info) raw) = d"
    and "length (if first then [] else ss_msg_buf x) + length d \<le> CLD_MAX_MSG_SZ" "has_flag (ph_order (pi_pkt info)) CLD_PKT_IS_FIRST = first"
  shows "rx_session fd info raw p s = (CLE_OK, s\<lparr>sv_heap := (sv_heap s)(p \<mapsto> rx_sess fd (sv_now s) first (pi_xid info) (pi_op info) d x)\<rparr>)"
  using assms unfolding rx_session_def Let_def rx_sess_def
  by (cases first) (simp_all add: sess_upd_def sess_at_def)

lemma rx_sess_simps [simp]:
  "ss_msg_buf (rx_sess fd now first xid op d x) = (if first then [] else ss_msg_buf x) @ d" "ss_msg_op (rx_sess fd now first xid op d x) = (if first then op else ss_msg_op x)"
  "ss_msg_xid (rx_sess fd now first xid op d x) = (if first then xid else ss_msg_xid x)" "ss_user (rx_sess fd now first xid op d x) = ss_user x"
  "ss_dead (rx_sess fd now first xid op d x) = ss_dead x" "ss_addr (rx_sess fd now first xid op d x) = ss_addr x" "ss_addr_len (rx_sess fd now first xid op d x) = ss_addr_len x"
  by (simp_all add: rx_sess_def Let_def)

definition hears :: "'d env \<Rightarrow> xenv \<Rightarrow> cldc \<Rightarrow> bool" where
  "hears E X c \<longleftrightarrow> e_hmac E = x_hmac X \<and> cc_secret_key c = cc_user c \<and>
     (\<forall>xid op first is_last. \<exists>h. x_hdr X (chdr X c xid op first is_last) = Some h \<and> h \<noteq> [] \<and>
        (\<forall>rest. e_dec_hdr E (h @ rest) = Some (chdr X c xid op first is_last, length h)))"

lemma chdr_flags [simp]:
  "has_flag (ph_order (chdr X c xid op first is_last)) CLD_PKT_IS_FIRST = first" "has_flag (ph_order (chdr X c xid op first is_last)) CLD_PKT_IS_LAST = is_last"
  "ph_magic (chdr X c xid op first is_last) = CLD_PKT_MAGIC" "ph_sid (chdr X c xid op first is_last) = cc_sid c" "ph_user (chdr X c xid op first is_last) = cc_user c"
  "first \<Longrightarrow> ph_mi (chdr X c xid op first is_last) = \<lparr>mi_xid = xid, mi_op = op\<rparr>"
  by (simp_all add: chdr_def cldc_hdr_def pkt_order_def cfg_simps has_flag_def)

definition call_info :: "xenv \<Rightarrow> cldc \<Rightarrow> nat \<Rightarrow> u64 \<Rightarrow> u32 \<Rightarrow> bool \<Rightarrow> bool \<Rightarrow> u64 \<Rightarrow> pkt_info" where
  "call_info X c p xid op first is_last q = \<lparr>pi_pkt = chdr X c xid op first is_last, pi_sess = Some p, pi_seqid = q, pi_xid = xid, pi_op = op,
     pi_hdr_len = length (the (x_hdr X (chdr X c xid op first is_last)))\<rparr>"

definition dispatched :: "'d env \<Rightarrow> client \<Rightarrow> pkt_info \<Rightarrow> nat \<Rightarrow> 'd srv \<Rightarrow> bool \<times> 'd srv" where
  "dispatched E cli info p s =
     (case rx_dispatch E (cl_fd cli) cli info p s of (err, s) \<Rightarrow> if err \<noteq> CLE_OK then (False, simple_sendresp E (cl_fd cli) info err s) else (True, s))"

lemma rd_sealed:
  assumes "client_ok X c" "hears E X c" "serves c cli p sv" "sv_heap sv p = Some x" "op \<notin> {CMO_NEW_SESS, CMO_ACK}" "first \<or> ss_msg_op x = op \<and> ss_msg_xid x = xid"
    and fit: "length (if first then [] else ss_msg_buf x) + length d \<le> CLD_MAX_MSG_SZ"
  shows "rd_pkt E cli (seal (x_hmac X) (cc_secret_key c) (the (x_hdr X (chdr X c xid op first is_last))) q d) sv =
    (let sv1 = sv\<lparr>sv_heap := (sv_heap sv)(p \<mapsto> rx_sess (cl_fd cli) (sv_now sv) first xid op d x)\<rparr> in
     if is_last then dispatched E cli (call_info X c p xid op first is_last q) p sv1
     else (True, simple_sendmsg E (cl_fd cli) (cc_sid c) (cc_user c) 0xdeadbeef (Ack_frag q) CMO_ACK_FRAG sv1))"
proof -
  let ?hdr = "chdr X c xid op first is_last"
  obtain h where h: "x_hdr X ?hdr = Some h" "h \<noteq> []" "\<And>rest. e_dec_hdr E (h @ rest) = Some (?hdr, length h)" using assms(2) by (fastforce simp: hears_def)
  let ?p = "seal (x_hmac X) (cc_secret_key c) h q d" and ?i = "call_info X c p xid op first is_last q"
  have hm: "e_hmac E = x_hmac X" "cc_secret_key c = cc_user c" "\<And>k m. length (x_hmac X k m) = SHA_DIGEST_LENGTH" "cc_user c \<noteq> []" "length (cc_user c) < 32"
    using assms(1,2) by (auto simp: client_ok_def hears_def CLD_MAX_USERNAME_def)
  note parts = seal_parts [of "x_hmac X" "cc_secret_key c" h d q, OF hm(3)]
  have n: "length ?p - CLD_PKT_FTR_LEN = length h + length d" "length ?p - SHA_DIGEST_LENGTH = length h + length d + 8" "length ?p - length h - CLD_PKT_FTR_LEN = length d"
    by (simp_all add: parts CLD_PKT_FTR_LEN_def)
  have parse: "parse_pkt_header E ?p = Some (?hdr, length h)"
    unfolding parse_pkt_header_def n parts using h by (simp add: parts)
  have info: "get_pkt_info ?hdr ?p (length h) sv = Some ?i"
    using assms(3,4,6) h(1) by (cases first) (auto simp: get_pkt_info_def serves_def pkt_seqid_def n parts call_info_def Let_def sess_at_def)
  have valid: "validate_pkt_session ?i cli sv = CLE_OK"
    using assms(3,4,5) by (auto simp: validate_pkt_session_def serves_def call_info_def Let_def sess_at_def)
  have sig: "pkt_chk_sig E ?p ?hdr = CLE_OK"
    unfolding pkt_chk_sig_def Let_def n using hm parts by (simp add: user_key_def cld_authcheck_def)
  have rx: "rx_session (cl_fd cli) ?i ?p p sv = (CLE_OK, sv\<lparr>sv_heap := (sv_heap sv)(p \<mapsto> rx_sess (cl_fd cli) (sv_now sv) first xid op d x)\<rparr>)"
    using rx_session_takes [OF assms(4), of ?i ?p d first] assms(5) fit h(1) n parts by (simp add: call_info_def)
  have m: "sv_master sv" using assms(3) by (simp add: serves_def)
  have i: "pi_sess ?i = Some p" "pi_pkt ?i = ?hdr" "pi_seqid ?i = q" "pi_op ?i = op" by (simp_all add: call_info_def)
  have "tcp_rx E (cl_fd cli) cli ?i ?p sv =
    (let sv1 = sv\<lparr>sv_heap := (sv_heap sv)(p \<mapsto> rx_sess (cl_fd cli) (sv_now sv) first xid op d x)\<rparr> in
     if is_last then rx_dispatch E (cl_fd cli) cli ?i p sv1 else (CLE_OK, simple_sendmsg E (cl_fd cli) (cc_sid c) (cc_user c) 0xdeadbeef (Ack_frag q) CMO_ACK_FRAG sv1))"
    unfolding tcp_rx_def i using rx assms(5) by (simp add: Let_def)
  then show ?thesis unfolding h(1) option.sel
    using parse info valid sig m by (cases is_last) (simp_all add: rd_pkt_def Let_def dispatched_def)
qed

fun rd_seq :: "'d env \<Rightarrow> client \<Rightarrow> bytes list \<Rightarrow> 'd srv \<Rightarrow> bool \<times> 'd srv" where
  "rd_seq E cli [] s = (True, s)"
| "rd_seq E cli (p # ps) s = (case rd_pkt E cli p s of (ok, s) \<Rightarrow> if ok then rd_seq E cli ps s else (False, s))"

lemma sendmsg_master: "sv_master (simple_sendmsg E fd sid user seqid m op s) = sv_master s"
  by (auto simp: simple_sendmsg_def srv_rand64_def tcp_tx_def sock_write_def Let_def split: prod.splits option.splits sum.splits list.splits)

text \<open>The server just before it calls the handler.\<close>

definition assembled :: "nat \<Rightarrow> u64 \<Rightarrow> u32 \<Rightarrow> bytes \<Rightarrow> 'd srv \<Rightarrow> 'd srv \<Rightarrow> bool" where
  "assembled p xid op body sv sv1 \<longleftrightarrow> sv_db sv1 = sv_db sv \<and> sv_sessions sv1 = sv_sessions sv \<and>
     (\<exists>x. sv_heap sv1 p = Some x \<and> ss_msg_buf x = body \<and> ss_msg_op x = op \<and> ss_msg_xid x = xid)"

lemma rd_all_sealed:
  assumes "client_ok X c" "hears E X c" "serves c cli p sv" "sv_heap sv p = Some x" "op \<notin> {CMO_NEW_SESS, CMO_ACK}" "first \<or> ss_msg_op x = op \<and> ss_msg_xid x = xid"
    and "length (if first then [] else ss_msg_buf x) + length (concat cs) \<le> CLD_MAX_MSG_SZ" "cs \<noteq> []"
  shows "\<exists>sv1 info. rd_seq E cli (csealed X c xid op first q cs) sv = dispatched E cli info p sv1 \<and> pi_op info = op \<and> pi_xid info = xid \<and>
    assembled p xid op ((if first then [] else ss_msg_buf x) @ concat cs) sv sv1"
  using assms(3-)
proof (induction cs arbitrary: sv x first q)
  case (Cons d cs)
  let ?y = "rx_sess (cl_fd cli) (sv_now sv) first xid op d x"
  let ?sv = "sv\<lparr>sv_heap := (sv_heap sv)(p \<mapsto> ?y)\<rparr>"
  have fit: "length (if first then [] else ss_msg_buf x) + length d \<le> CLD_MAX_MSG_SZ" using Cons.prems(5) by simp
  have y: "ss_msg_op ?y = op" "ss_msg_xid ?y = xid" using Cons.prems(4) by auto
  note rd = rd_sealed [OF assms(1,2) Cons.prems(1-4) fit, of "cs = []" q, unfolded Let_def]
  show ?case
  proof (cases "cs = []")
    case True
    let ?i = "call_info X c p xid op first True q"
    have "rd_seq E cli (csealed X c xid op first q (d # cs)) sv = dispatched E cli ?i p ?sv"
      using rd True by (simp split: prod.split)
    moreover have "assembled p xid op ((if first then [] else ss_msg_buf x) @ concat (d # cs)) sv ?sv" using True y by (simp add: assembled_def)
    ultimately show ?thesis by (intro exI [of _ ?sv] exI [of _ ?i]) (simp add: call_info_def)
  next
    case False
    let ?t = "simple_sendmsg E (cl_fd cli) (cc_sid c) (cc_user c) 0xdeadbeef (Ack_frag q) CMO_ACK_FRAG ?sv"
    have f: "sv_db ?t = sv_db sv" "sv_sessions ?t = sv_sessions sv" "sv_heap ?t = sv_heap ?sv" "sv_master ?t = sv_master sv"
      using simple_sendmsg_frame(1) [of E "cl_fd cli" "cc_sid c" "cc_user c" "0xdeadbeef" "Ack_frag q" CMO_ACK_FRAG ?sv] by (auto simp: srv_core_def sendmsg_master)
    have "serves c cli p ?t" using Cons.prems(1,2) f by (auto simp: serves_def)
    moreover have "length (if False then [] else ss_msg_buf ?y) + length (concat cs) \<le> CLD_MAX_MSG_SZ" using Cons.prems(5) by simp
    ultimately obtain sv1 info where "rd_seq E cli (csealed X c xid op False (q + 1) cs) ?t = dispatched E cli info p sv1" "pi_op info = op" "pi_xid info = xid"
      "assembled p xid op (ss_msg_buf ?y @ concat cs) ?t sv1"
      using Cons.IH [of ?t ?y False "q + 1"] f y Cons.prems(3) False by auto
    then show ?thesis using rd False f
      by (intro exI [of _ sv1] exI [of _ info]) (simp add: assembled_def)
  qed
qed simp

text \<open>
  C3: a call of the client library reaches the lock server's handler. The packets it sends, one for every 1024 bytes
  of the request, pass the checks of the server's receiving side, are put together to the request, and the last one
  makes the server dispatch the operation of the call with exactly that request and the transaction number under which the
  client waits for the answer; until then the database and the table of sessions do not change.
\<close>

theorem call_dispatched:
  assumes "client_ok X c" "hears E X c" "serves c cli p sv" "x_req X req = Some body" "length body \<le> CLD_MAX_MSG_SZ" "op \<notin> {CMO_NEW_SESS, CMO_ACK}"
  shows "\<exists>c' m ps sv1 info. cldc_call X copts op req cb c = (0, c') \<and> cc_sent c' = cc_sent c @ ps \<and> length ps = length (chunks body) \<and>
    cc_out_msg c' = m # cc_out_msg c \<and> cm_copts m = copts \<and> cm_cb m = cb \<and> \<not> cm_done m \<and>
    rd_seq E cli ps sv = dispatched E cli info p sv1 \<and> pi_op info = op \<and> pi_xid info = cm_xid m \<and> assembled p (cm_xid m) op body sv sv1"
proof -
  obtain x where x: "sv_heap sv p = Some x" using assms(3) by (auto simp: serves_def)
  obtain xid k where r: "cld_rand64 (x_rand X) (cc_rnd c) = (xid, k)" by fastforce
  let ?ps = "csealed X c xid op True (cc_next_seqid_out c) (chunks body)"
  have "length (csealed X c xid op first q cs) = length cs" for first q cs by (induction cs arbitrary: first q) simp_all
  moreover obtain sv1 info where "rd_seq E cli ?ps sv = dispatched E cli info p sv1" "pi_op info = op" "pi_xid info = xid" "assembled p xid op body sv sv1"
    using rd_all_sealed [OF assms(1-3) x assms(6), of True xid "chunks body" "cc_next_seqid_out c"] assms(5) by (auto simp: chunks_concat chunks_ne)
  ultimately show ?thesis using call_sends [OF assms(1,4) r HOL.refl, of copts op cb] by auto
qed

lemma sample_client: "client_ok X_sample cldc_sample" "hears (ref_env False) X_sample cldc_sample"
proof -
  have m: "length CLD_PKT_MAGIC = 8" by (simp add: CLD_PKT_MAGIC_def)
  have "ref_dec_hdr (ref_hdr (chdr X_sample cldc_sample xid op first is_last) @ rest) =
      Some (chdr X_sample cldc_sample xid op first is_last, length (ref_hdr (chdr X_sample cldc_sample xid op first is_last)))" for xid op first is_last rest
    by (rule ref_hdr_dec) (simp_all add: m cldc_sample_def sample_sess_def)
  then show "hears (ref_env False) X_sample cldc_sample" by (auto simp: hears_def cldc_sample_def ref_hdr_def)
  show "client_ok X_sample cldc_sample" by (simp add: client_ok_def hdrs_ok_def cldc_sample_def CLD_MAX_USERNAME_def)
qed

theorem call_dispatched_witness:
  "\<exists>c' ps sv1 info. cldc_call X_sample (Some 8) CMO_NOP Call_void Generic_end_cb cldc_sample = (0, c') \<and> cc_sent c' = ps \<and> length ps = 1 \<and>
     rd_seq (ref_env False) \<lparr>cl_fd = 4, cl_addr = [], cl_addr_len = 0, cl_addr_host = []\<rparr> ps (tab_srv no_tabs) =
       dispatched (ref_env False) \<lparr>cl_fd = 4, cl_addr = [], cl_addr_len = 0, cl_addr_host = []\<rparr> info 0 sv1 \<and> pi_op info = CMO_NOP"
proof -
  let ?cli = "\<lparr>cl_fd = 4, cl_addr = [], cl_addr_len = 0, cl_addr_host = []\<rparr>"
  have "serves cldc_sample ?cli 0 (tab_srv no_tabs)"
    unfolding serves_def
  proof (intro conjI)
    show "sv_master (tab_srv no_tabs)" by (simp add: tab_srv_def sample_srv_def)
  qed (auto simp: cldc_sample_def sample_sess_def session_zero_def)
  moreover have "x_req X_sample Call_void = Some []" by (simp add: X_sample_def)
  moreover have "chunks [] = [[]]" by (subst chunks.simps) simp
  ultimately show ?thesis
    using call_dispatched [OF sample_client, of ?cli 0 "tab_srv no_tabs" Call_void "[]" CMO_NOP "Some 8" Generic_end_cb]
    by (auto simp: cfg_simps cldc_sample_def)
qed

end
