(* ===== verification/Cldc_Safe.thy ===== *)
theory Cldc_Safe
  imports Cldc_Call
begin

text \<open>
  The client's session is well formed in every state it reaches; packets that are not authentic do not touch it; and two
  ways in which the library reads memory it must not.
\<close>

section \<open>Well-formed sessions\<close>

text \<open>The message fits its buffer, and the list of file handles is exactly the handles that are allocated.\<close>

definition sess_wf :: "cldc \<Rightarrow> bool" where
  "sess_wf s \<longleftrightarrow> length (cc_msg_buf s) \<le> CLD_MAX_MSG_SZ \<and> distinct (cc_cfh s) \<and> set (cc_cfh s) = dom (cc_fhs s) \<and> (\<forall>p \<in> dom (cc_fhs s). p < cc_next_fh s)"

definition wf_part :: "cldc \<Rightarrow> bytes \<times> nat list \<times> (nat \<rightharpoonup> cldc_fh) \<times> nat" where
  "wf_part s = (cc_msg_buf s, cc_cfh s, cc_fhs s, cc_next_fh s)"

lemma wf_cong: "wf_part s' = wf_part s \<Longrightarrow> sess_wf s' = sess_wf s"
  by (simp add: wf_part_def sess_wf_def)

lemma wf_part_upd [simp]: "wf_part (s\<lparr>cc_out_msg := a\<rparr>) = wf_part s" "wf_part (s\<lparr>cc_app := b\<rparr>) = wf_part s" "wf_part (s\<lparr>cc_mem := c\<rparr>) = wf_part s"
  "wf_part (s\<lparr>cc_now := d\<rparr>) = wf_part s" "wf_part (s\<lparr>cc_rnd := e\<rparr>) = wf_part s" "wf_part (s\<lparr>cc_confirmed := f\<rparr>) = wf_part s" "wf_part (s\<lparr>cc_expired := g\<rparr>) = wf_part s"
  "wf_part (s\<lparr>cc_next_seqid_out := h\<rparr>) = wf_part s" "wf_part (s\<lparr>cc_timer := i\<rparr>) = wf_part s" "wf_part (s\<lparr>cc_sent := j\<rparr>) = wf_part s" "wf_part (s\<lparr>cc_sends := k\<rparr>) = wf_part s"
  "wf_part (s\<lparr>cc_msg_buf_op := l\<rparr>) = wf_part s" "wf_part (s\<lparr>cc_freed := m\<rparr>) = wf_part s" "wf_part (s\<lparr>cc_expire_time := n\<rparr>) = wf_part s" "wf_part (s\<lparr>cc_msg_scan_time := o'\<rparr>) = wf_part s"
  "wf_part (s\<lparr>cc_next_seqid_in := q\<rparr>) = wf_part s" "wf_part (s\<lparr>cc_next_seqid_in_tr := r\<rparr>) = wf_part s"
  by (simp_all add: wf_part_def)

lemma app_cb_wf:
  assumes "rinv sess_wf other"
  shows "rinv sess_wf (app_cb E m rc resp other)"
proof (cases "cm_copts m")
  case (Some i)
  have "sess_wf (s\<lparr>cc_app := a\<rparr>) = sess_wf s" for s a by (rule wf_cong) simp
  then show ?thesis using Some by (auto simp: app_cb_def intro!: rinv_intros rinv_mod)
qed (use assms in \<open>simp add: app_cb_def\<close>)

lemma free_wf: "rinv sess_wf sess_free"
  by (auto simp: rinv_def sess_free_def run_simps sess_wf_def dom_def restrict_map_def split: if_splits)

lemma msg_cb_wf: "rinv sess_wf (msg_cb E m p rc)"
proof (cases "cm_cb m")
  case (Open_end_cb fh)
  have "rinv sess_wf (open_end_cb E m fh p rc)"
  proof (rule rinvI)
    fix s x s' assume s: "sess_wf s" and run: "open_end_cb E m fh p rc s = Some (Inr (x, s'))"
    consider "app_cb E m rc None (rret 0) s = Some (Inr (x, s'))" | "s' = s"
      | h where "fh \<in> dom (cc_fhs s)" "app_cb E m rc None (rret 0) (s\<lparr>cc_fhs := (cc_fhs s)(fh \<mapsto> \<lparr>cf_fh = h, cf_valid = True\<rparr>)\<rparr>) = Some (Inr (x, s'))"
      using run by (auto simp: open_end_cb_def rbind_def rmod_def rret_def rget_def rfault_def split: if_splits option.splits)
    then show "sess_wf s'"
    proof cases
      case (3 h)
      then have "sess_wf (s\<lparr>cc_fhs := (cc_fhs s)(fh \<mapsto> \<lparr>cf_fh = h, cf_valid = True\<rparr>)\<rparr>)" using s by (auto simp: sess_wf_def)
      then show ?thesis using rinvD [OF app_cb_wf [OF rinv_basic(1)] 3(2)] by simp
    qed (use s rinvD [OF app_cb_wf [OF rinv_basic(1)]] in auto)
  qed
  then show ?thesis by (simp add: msg_cb_def Open_end_cb)
next
  case (Close_end_cb fh)
  have "rinv sess_wf (rmod (\<lambda>s. s\<lparr>cc_cfh := remove1 fh (cc_cfh s), cc_fhs := (cc_fhs s)(fh := None)\<rparr>))"
    by (rule rinv_mod) (auto simp: sess_wf_def set_remove1_eq)
  then show ?thesis by (auto simp: msg_cb_def Close_end_cb close_end_cb_def intro!: rinv_intros app_cb_wf)
qed (auto simp: msg_cb_def end_sess_cb_def new_sess_cb_def generic_end_cb_def get_end_cb_def sess_wf_def [of "_ \<lparr>cc_confirmed := _\<rparr>"] sess_wf_def
    intro!: rinv_intros app_cb_wf free_wf rinv_mod split: option.split)

lemma ack_wf: "ack_seqid E q s = Some (Inr (r, s')) \<Longrightarrow> wf_part s' = wf_part s"
  by (auto simp: ack_seqid_def run_simps sess_send_pkt_def Let_def split: if_splits option.splits prod.splits list.splits)

lemma generic_wf:
  assumes "sess_wf s" "rxmsg_generic E q s = Some (Inr (r, s'))"
  shows "sess_wf s'"
proof -
  have ack: "ack_seqid E q t = Some (Inr (r, s')) \<Longrightarrow> sess_wf t \<Longrightarrow> sess_wf s'" for t using ack_wf wf_cong by blast
  consider "s' = s" | "ack_seqid E q s = Some (Inr (r, s'))"
    | m ms code rc s1 where "msg_cb E m (cc_msg_buf s) code (s\<lparr>cc_out_msg := ms\<rparr>) = Some (Inr (rc, s1))" "s' = s1 \<or> ack_seqid E q s1 = Some (Inr (r, s'))"
    using assms(2) by (fastforce simp: rxmsg_generic_def rret_def elim!: rbindE split: option.splits if_splits prod.splits)
  then show ?thesis
  proof cases
    case 3
    have "sess_wf (s\<lparr>cc_out_msg := ms\<rparr>)" using assms(1) wf_cong [of "s\<lparr>cc_out_msg := ms\<rparr>" s] by simp
    then have "sess_wf s1" using rinvD [OF msg_cb_wf 3(1)] by blast
    then show ?thesis using 3(2) ack by blast
  qed (use assms(1) ack in auto)
qed

lemma event_wf: "rxmsg_event E s = Some (Inr (r, s')) \<Longrightarrow> wf_part s' = wf_part s" "rxmsg_ack_frag E s = Some (Inr (r, s')) \<Longrightarrow> wf_part s' = wf_part s"
  by (auto simp: rxmsg_event_def rxmsg_ack_frag_def rret_def rfault_def split: option.splits)

lemma complete_wf:
  assumes "sess_wf s" "rx_complete E q s = Some (Inr (r, s'))"
  shows "sess_wf s'"
proof -
  consider "s' = s" | "ack_seqid E q s = Some (Inr (r, s'))" | "rxmsg_event E s = Some (Inr (r, s'))" | "rxmsg_ack_frag E s = Some (Inr (r, s'))"
    | "rxmsg_generic E q s = Some (Inr (r, s'))"
    using assms(2) by (auto simp: rx_complete_def rret_def Let_def split: if_splits)
  then show ?thesis using assms(1) generic_wf by cases (auto dest!: ack_wf event_wf wf_cong)
qed

lemma checked_wf:
  assumes "sess_wf s" "rx_checked E pkt n b s = Some (Inr (r, s'))"
  shows "sess_wf s'"
proof -
  define s1 where "s1 = (if cc_now s \<ge> cc_msg_scan_time s then sess_expire_outmsg (cc_now s) s else s)"
  define s2 where "s2 = (if has_flag (ph_order pkt) CLD_PKT_IS_FIRST then s1\<lparr>cc_msg_buf_op := mi_op (ph_mi pkt)\<rparr> else s1)"
  define q where "q = (of_le_bytes (take 8 (drop (length b - CLD_PKT_FTR_LEN) b)) :: u64)"
  obtain rc s3 where a: "accept_seqid q (cc_msg_buf_op s2) s2 = (rc, s3)" by fastforce
  have "wf_part s3 = wf_part s" using a by (auto simp: accept_seqid_def s1_def s2_def sess_expire_outmsg_def split: if_splits)
  then have s3: "sess_wf s3" using assms(1) wf_cong by blast
  consider "sess_wf s'" | s5 where "rx_complete E q s5 = Some (Inr (r, s'))" "sess_wf s5" | s5 where "ack_seqid E q s5 = Some (Inr (r, s'))" "sess_wf s5"
  proof (cases "has_flag (ph_order pkt) CLD_PKT_IS_FIRST")
    case True
    then show ?thesis using assms(2) a s3 that unfolding rx_checked_def Let_def s1_def [symmetric] s2_def [symmetric] q_def [symmetric]
      by (fastforce simp: rret_def sess_wf_def split: if_splits)
  next
    case False
    then show ?thesis using assms(2) a s3 that unfolding rx_checked_def Let_def s1_def [symmetric] s2_def [symmetric] q_def [symmetric]
      by (fastforce simp: rret_def sess_wf_def split: if_splits)
  qed
  then show ?thesis by cases (use complete_wf ack_wf wf_cong in metis)+
qed

lemma receive_wf: "sess_wf s \<Longrightarrow> cldc_receive_pkt E a p s = Some (Inr (r, s')) \<Longrightarrow> sess_wf s'"
  by (auto simp: cldc_receive_pkt_def rret_def Let_def split: if_splits option.splits dest: checked_wf)

lemma drop_wf: "rinv sess_wf (msg_drop_loop E ms)"
  by (induction ms) (auto intro!: rinv_intros msg_cb_wf)

lemma expire_wf: "rinv sess_wf (sess_expire E)"
proof -
  have "sess_wf (s\<lparr>cc_expired := b\<rparr>) = sess_wf s" "sess_wf (s\<lparr>cc_out_msg := ms\<rparr>) = sess_wf s" "sess_wf (s\<lparr>cc_timer := tm, cc_app := a\<rparr>) = sess_wf s" for s b ms tm a
    by (rule wf_cong, simp)+
  then show ?thesis unfolding sess_expire_def sess_msg_drop_def by (intro rinv_intros rinv_mod drop_wf) auto
qed

lemma send_pkt_wf: "sess_send_pkt p s = (rc, s') \<Longrightarrow> wf_part s' = wf_part s"
  by (auto simp: sess_send_pkt_def Let_def split: list.splits)

lemma retry_pkts_wf: "wf_part (snd (retry_pkts ps s)) = wf_part s"
proof (induction ps s rule: retry_pkts.induct)
  case (3 pi ps s)
  then show ?case using send_pkt_wf [OF prod.collapse [symmetric], of "cp_data pi" s] by (simp add: case_prod_beta)
qed (auto simp: case_prod_beta)

lemma retry_wf: "wf_part (snd (retry_msgs ms s)) = wf_part s"
proof (induction ms s rule: retry_msgs.induct)
  case (2 m ms s)
  show ?case
  proof (cases "cm_done m")
    case True
    then show ?thesis using "2.IH"(1) by (simp add: case_prod_beta)
  next
    case False
    obtain ps s1 where p: "retry_pkts (cm_pkts m) s = (ps, s1)" by fastforce
    show ?thesis using "2.IH"(2) [OF False p [symmetric]] False retry_pkts_wf [of "cm_pkts m" s] p by (simp add: case_prod_beta)
  qed
qed simp

lemma timer_wf:
  assumes "sess_wf s" "sess_timer E s = Some (Inr (r, s'))"
  shows "sess_wf s'"
proof (cases "cc_now s > cc_expire_time s")
  case True
  then show ?thesis using assms rinvD [OF expire_wf] by (auto simp: sess_timer_def rret_def elim!: rbindE)
next
  case False
  obtain ms s1 where r: "retry_msgs (cc_out_msg s) s = (ms, s1)" by fastforce
  have "wf_part s' = wf_part s" using assms(2) False r retry_wf [of "cc_out_msg s" s] by (auto simp: sess_timer_def rret_def)
  then show ?thesis using assms(1) wf_cong by blast
qed

lemma alloc_wf: "wf_part (snd (cldc_alloc s)) = wf_part s"
  by (simp add: cldc_alloc_def split: prod.split)

lemma new_pkts_wf: "wf_part (snd (new_pkts E xid op k first body s)) = wf_part s"
proof (induction k arbitrary: first body s)
  case (Suc k)
  obtain ok s1 where a: "cldc_alloc s = (ok, s1)" by fastforce
  show ?case using Suc [of False "drop (min (length body) CLD_MAX_PKT_MSG_SZ) body" s1] a alloc_wf [of s]
    by (auto simp: Let_def split: option.split prod.split)
qed simp

lemma new_msg_wf: "wf_part (snd (cldc_new_msg E c op req s)) = wf_part s"
proof (cases "x_req E req")
  case (Some body)
  obtain ok s1 where a: "cldc_alloc s = (ok, s1)" by fastforce
  obtain xid k where r: "cld_rand64 (x_rand E) (cc_rnd s1) = (xid, k)" by fastforce
  let ?n = "length (chunks body)"
  obtain ps s2 where p: "new_pkts E xid op ?n True body (s1\<lparr>cc_rnd := k\<rparr>) = (ps, s2)" by fastforce
  have "wf_part s2 = wf_part s" "wf_part s1 = wf_part s"
    using new_pkts_wf [of E xid op ?n True body "s1\<lparr>cc_rnd := k\<rparr>"] alloc_wf [of s] a p by simp_all
  then show ?thesis using Some a r p unfolding cldc_new_msg_def chunks_count [symmetric] by (cases ps) (simp_all add: chunks_count [symmetric])
qed (simp add: cldc_new_msg_def)

lemma send_pkts_wf: "wf_part (snd (send_msg_pkts E ps s)) = wf_part s"
proof (induction ps arbitrary: s)
  case (Cons p ps)
  show ?case
  proof (cases p)
    case (Some pi)
    let ?s = "s\<lparr>cc_next_seqid_out := cc_next_seqid_out s + 1\<rparr>"
    define data where "data = take (length (cp_data pi) - CLD_PKT_FTR_LEN) (cp_data pi) @ le_bytes 8 (cc_next_seqid_out s)"
    obtain rc sha where a: "cld_authsign (x_hmac E) (cldc_user_key ?s (cc_user ?s)) data (replicate SHA_DIGEST_LENGTH 0) = (rc, sha)" by fastforce
    obtain rc' s1 where w: "sess_send_pkt (data @ sha) ?s = (rc', s1)" by fastforce
    obtain r s2 where m: "send_msg_pkts E ps s1 = (r, s2)" by fastforce
    have "wf_part s1 = wf_part s" "wf_part s2 = wf_part s" using send_pkt_wf [OF w] Cons [of s1] m by simp_all
    then show ?thesis using Some a w m by (cases r) (simp_all add: Let_def data_def [symmetric])
  qed simp
qed simp

lemma send_wf: "wf_part (snd (sess_send E m s)) = wf_part s"
  using send_pkts_wf [of E "cm_pkts m" s] by (auto simp: sess_send_def split: prod.split sum.split)

lemma cldc_call_wf: "wf_part (snd (cldc_call E c op req cb s)) = wf_part s"
  using new_msg_wf [of E c op req s] send_wf unfolding cldc_call_def by (auto split: prod.split option.split)

lemma with_fh_wf:
  assumes "with_fh p f s = Some (Inr (rc, s'))" "sess_wf s" "\<And>fh. cc_fhs s p = Some fh \<Longrightarrow> sess_wf (snd (f fh s))"
  shows "sess_wf s'"
  using assms by (auto simp: with_fh_def rret_def rfault_def rcall_def split: option.splits if_splits prod.splits)

lemma part_wf: "wf_part s' = wf_part s \<Longrightarrow> sess_wf s \<Longrightarrow> sess_wf s'"
  using wf_cong by blast

lemma open_wf:
  assumes "sess_wf s"
  shows "sess_wf (snd (cldc_open E c path mode events s))"
proof -
  obtain m s1 where n: "cldc_new_msg E c CMO_OPEN (Call_open mode events path) s = (m, s1)" by fastforce
  obtain ok s2 where a: "cldc_alloc s1 = (ok, s2)" by fastforce
  have w: "sess_wf s1" "sess_wf s2" using assms part_wf [of s1 s] part_wf [of s2 s1] new_msg_wf [of E c CMO_OPEN "Call_open mode events path" s] alloc_wf [of s1] n a by auto
  define s3 where "s3 = s2\<lparr>cc_next_fh := Suc (cc_next_fh s2), cc_fhs := (cc_fhs s2)(cc_next_fh s2 \<mapsto> \<lparr>cf_fh = 0, cf_valid = False\<rparr>), cc_cfh := cc_cfh s2 @ [cc_next_fh s2]\<rparr>"
  have "cc_next_fh s2 \<notin> set (cc_cfh s2)" using w(2) unfolding sess_wf_def by blast
  then have "sess_wf s3" using w(2) by (auto simp: s3_def sess_wf_def less_Suc_eq)
  then have "sess_wf (snd (sess_send E m' s3))" for m' using part_wf [OF send_wf] by blast
  then show ?thesis using n a w assms unfolding cldc_open_def Let_def
    by (auto simp: s3_def [symmetric] case_prod_beta split: option.split)
qed

lemma close_wf:
  assumes "cldc_close E c p s = Some (Inr (rc, s'))" "sess_wf s"
  shows "sess_wf s'"
proof (rule with_fh_wf [OF assms(1) [unfolded cldc_close_def] assms(2)])
  fix fh assume fh: "cc_fhs s p = Some fh"
  obtain m s1 where n: "cldc_new_msg E c CMO_CLOSE (Call_close (cf_fh fh)) s = (m, s1)" by fastforce
  have p: "wf_part s1 = wf_part s" using new_msg_wf [of E c CMO_CLOSE "Call_close (cf_fh fh)" s] n by simp
  have inv: "sess_wf (t\<lparr>cc_fhs := (cc_fhs t)(p \<mapsto> fh\<lparr>cf_valid := False\<rparr>)\<rparr>)" if "wf_part t = wf_part s" for t
    using part_wf [OF that assms(2)] that fh by (auto simp: sess_wf_def wf_part_def)
  show "sess_wf (snd (let inval = \<lambda>s. s\<lparr>cc_fhs := (cc_fhs s)(p \<mapsto> fh\<lparr>cf_valid := False\<rparr>)\<rparr>
       in if cc_expired s then (- EPIPE, inval s)
          else case cldc_new_msg E c CMO_CLOSE (Call_close (cf_fh fh)) s of (None, s) \<Rightarrow> (- ENOMEM, s)
               | (Some msg, s) \<Rightarrow> sess_send E (msg\<lparr>cm_cb := Close_end_cb p\<rparr>) (inval s)))"
    using n inv p part_wf [OF p assms(2)] part_wf [OF send_wf] by (auto simp: Let_def split: option.split)
qed

lemma put_wf:
  assumes "cldc_put E c p data s = Some (Inr (rc, s'))" "sess_wf s"
  shows "sess_wf s'"
proof (cases "data = [] \<or> length data > CLD_MAX_PAYLOAD_SZ")
  case True
  then show ?thesis using assms by (auto simp: cldc_put_def rret_def)
next
  case False
  show ?thesis
  proof (rule with_fh_wf [OF assms(1) [unfolded cldc_put_def if_not_P [OF False]] assms(2)])
    fix fh assume "cc_fhs s p = Some fh"
    obtain m s1 where n: "cldc_new_msg E c CMO_PUT (Call_put (cf_fh fh) data) s = (m, s1)" by fastforce
    have p: "wf_part s1 = wf_part s" using new_msg_wf [of E c CMO_PUT "Call_put (cf_fh fh) data" s] n by simp
    show "sess_wf (snd (case cldc_new_msg E c CMO_PUT (Call_put (cf_fh fh) data) s of (None, s) \<Rightarrow> (- ENOMEM, s)
        | (Some msg, s) \<Rightarrow> (0, snd (sess_send E (msg\<lparr>cm_cb := Generic_end_cb\<rparr>) s))))"
      using n part_wf [OF p assms(2)] part_wf [OF send_wf] by (auto split: option.split)
  qed
qed

lemma app_wf: "app_call E c s s' \<Longrightarrow> sess_wf s \<Longrightarrow> sess_wf s'"
  by (induction rule: app_call.induct)
    (auto simp: cldc_end_sess_def cldc_nop_def cldc_del_def cldc_lock_def cldc_unlock_def cldc_get_def
      intro: open_wf close_wf put_wf part_wf [OF cldc_call_wf] elim!: with_fh_wf)

lemma new_sess_wf:
  assumes "cldc_new_sess E c addr user key s = (rc, s')" "sess_wf s"
  shows "sess_wf s'"
proof -
  have i: "sess_wf (sess_init E addr user key t)" for t by (simp add: sess_init_def sess_wf_def case_prod_beta Let_def)
  have n: "sess_wf (snd (cldc_new_msg E c op req (sess_init E addr user key t)))" for op req t using part_wf [OF new_msg_wf i] .
  have a: "sess_wf (snd (cldc_alloc s))" using part_wf [OF alloc_wf assms(2)] .
  have u: "sess_wf t \<Longrightarrow> sess_wf (t\<lparr>cc_freed := b\<rparr>)" "sess_wf t \<Longrightarrow> sess_wf (t\<lparr>cc_expire_time := e, cc_timer := tm\<rparr>)" for t b e tm by (rule part_wf; simp)+
  show ?thesis using assms a u n part_wf [OF send_wf]
    by (auto simp: cldc_new_sess_def case_prod_beta split: if_splits option.splits) (metis snd_conv)+
qed

lemma reach_wf: "cldc_reach E s \<Longrightarrow> sess_wf s"
proof (induction rule: cldc_reach.induct)
  case (reach_new c addr user key s rc s')
  have "sess_wf s" using reach_new(4-6) by (simp add: sess_wf_def)
  then show ?case using new_sess_wf [OF reach_new(1)] by blast
next
  case (reach_step s s')
  from reach_step.hyps(2) show ?case
  proof cases
    case (step_time t)
    then show ?thesis using reach_step.IH part_wf [of s' s] by simp
  qed (use reach_step.IH receive_wf timer_wf app_wf in blast)+
qed

section \<open>Properties\<close>

text \<open>
  C26: in every state a client's session can reach, the message it puts together fits its buffer of \<open>CLD_MAX_MSG_SZ\<close>
  bytes, and its list of file handles has no duplicates and names exactly the handles that are allocated.
\<close>

theorem session_well_formed:
  assumes "cldc_reach X s"
  shows "length (cc_msg_buf s) \<le> CLD_MAX_MSG_SZ \<and> distinct (cc_cfh s) \<and> set (cc_cfh s) = dom (cc_fhs s)"
  using reach_wf [OF assms] by (simp add: sess_wf_def)

theorem session_well_formed_witness:
  "\<exists>s. cldc_reach X_once s \<and> \<not> cc_freed s \<and> length (cc_msg_buf s) \<le> CLD_MAX_MSG_SZ \<and> set (cc_cfh s) = dom (cc_fhs s)"
proof -
  obtain s where new: "cldc_new_sess X_once (Some 7) [9] [117] [117] cldc_blank = (0, s)" and s: "\<not> cc_freed s" using new_sess_runs by blast
  have "cldc_reach X_once s" by (rule reach_new [OF new]) (simp_all add: cldc_blank_def)
  then show ?thesis using session_well_formed s by blast
qed

definition genuine :: "xenv \<Rightarrow> cldc \<Rightarrow> bytes \<Rightarrow> bytes \<Rightarrow> bool" where
  "genuine X s addr p \<longleftrightarrow> addr = cc_addr s \<and> length p \<ge> CLD_PKT_FTR_LEN \<and> cc_secret_key s \<noteq> [] \<and>
     (\<exists>hdr n. x_dec_hdr X (take (length p - CLD_PKT_FTR_LEN) p) = Some (hdr, n) \<and> ph_user hdr = cc_user s) \<and>
     drop (length p - SHA_DIGEST_LENGTH) p = x_hmac X (cc_secret_key s) (take (length p - SHA_DIGEST_LENGTH) p)"

text \<open>
  C17: the client reacts to a packet only if it comes from the address of its server and is signed with the session's
  key under the session's user name. Any other packet is refused with an error and leaves the session as it was.
\<close>

theorem forged_ignored:
  assumes "\<not> genuine X s addr p" "\<And>k m. length (x_hmac X k m) = SHA_DIGEST_LENGTH"
  shows "\<exists>rc < 0. cldc_receive_pkt X addr p s = Some (Inr (rc, s))"
proof (rule ccontr)
  assume neg: "\<not> ?thesis"
  let ?n = "length p - SHA_DIGEST_LENGTH"
  have len: "length p \<ge> CLD_PKT_FTR_LEN" using neg by (rule contrapos_np) (simp add: cldc_receive_pkt_def rret_def cfg_simps)
  have "x_dec_hdr X (take (length p - CLD_PKT_FTR_LEN) p) \<noteq> None"
    using neg by (rule contrapos_nn) (use len in \<open>simp add: cldc_receive_pkt_def rret_def cfg_simps\<close>)
  then obtain hdr n where d: "x_dec_hdr X (take (length p - CLD_PKT_FTR_LEN) p) = Some (hdr, n)" by fastforce
  have auth: "cld_authcheck (x_hmac X) (cldc_user_key s (ph_user hdr)) (take ?n p) (drop ?n p) = 0"
    using neg by (rule contrapos_np) (use len d in \<open>simp add: cldc_receive_pkt_def rret_def Let_def cfg_simps\<close>)
  have a: "length (cc_addr s) = length addr" "memcmp (cc_addr s) addr = 0"
    using neg by (rule contrapos_np, use len d auth in \<open>simp add: cldc_receive_pkt_def rret_def Let_def cfg_simps\<close>)+
  have addr: "addr = cc_addr s" using a by simp
  have key: "cldc_user_key s (ph_user hdr) = Some (cc_secret_key s)" "cc_secret_key s \<noteq> []" "ph_user hdr = cc_user s"
    using auth by (auto simp: cld_authcheck_def cldc_user_key_def EINVAL_def split: if_splits)
  have "length (drop ?n p) = SHA_DIGEST_LENGTH" using len by (simp add: CLD_PKT_FTR_LEN_def)
  then have "drop ?n p = x_hmac X (cc_secret_key s) (take ?n p)" using auth key assms(2)
    by (auto simp: cld_authcheck_def Let_def EPERM_def split: if_splits)
  then show False using assms(1) addr key d len by (auto simp: genuine_def)
qed

theorem forged_ignored_witness:
  "\<exists>rc < 0. cldc_receive_pkt X_sample [9] (replicate 40 1) cldc_sample = Some (Inr (rc, cldc_sample))"
proof -
  have "\<not> genuine X_sample cldc_sample [9] (replicate 40 1)"
    by (simp add: genuine_def ref_dec_hdr_def CLD_PKT_FTR_LEN_def SHA_DIGEST_LENGTH_def)
  then show ?thesis by (rule forged_ignored) simp
qed

text \<open>
  When a session is ended by a call without a callback, the server's answer makes the library use the session
  after it has been freed: the completion frees it, and the acknowledgement that follows reads it.
\<close>

theorem end_sess_uses_freed:
  assumes "find_msg xid (cc_out_msg s) = Some (pre, m, post)" "cm_cb m = End_sess_cb" "cm_copts m = None" "\<not> cm_done m" "\<not> cc_freed s"
    and "x_dec_generic X (cc_msg_buf s) = Some (code, xid)"
  shows "rxmsg_generic X q s = Some (Inl F_free)"
  using assms by (simp add: rxmsg_generic_def msg_cb_def end_sess_cb_def app_cb_def sess_free_def ack_seqid_def run_simps)

theorem end_sess_uses_freed_witness:
  "\<exists>s'. cldc_end_sess X_sample None cldc_sample = (0, s') \<and>
     rxmsg_generic X_sample 9 (s'\<lparr>cc_msg_buf := le_bytes 4 (0 :: u32) @ le_bytes 8 (cm_xid (hd (cc_out_msg s')))\<rparr>) = Some (Inl F_free)"
proof -
  obtain xid k where r: "cld_rand64 (x_rand X_sample) (cc_rnd cldc_sample) = (xid, k)" by fastforce
  have b: "x_req X_sample Call_void = Some []" by (simp add: X_sample_def)
  note c = call_sends [OF sample_client(1) b r HOL.refl, of None CMO_END_SESS End_sess_cb]
  have e: "cldc_end_sess X_sample None cldc_sample = cldc_call X_sample None CMO_END_SESS Call_void End_sess_cb cldc_sample" by (simp add: cldc_end_sess_def cldc_sample_def)
  obtain s' m where s': "cldc_call X_sample None CMO_END_SESS Call_void End_sess_cb cldc_sample = (0, s')" "cc_out_msg s' = m # cc_out_msg cldc_sample"
      "cm_cb m = End_sess_cb" "cm_copts m = None" "\<not> cm_done m" "\<not> cc_freed s'"
    using c by (auto simp: cldc_sample_def)
  let ?s = "s'\<lparr>cc_msg_buf := le_bytes 4 (0 :: u32) @ le_bytes 8 (cm_xid (hd (cc_out_msg s')))\<rparr>"
  have "find_msg (cm_xid m) (cc_out_msg ?s) = Some ([], m, cc_out_msg cldc_sample)" using s'(2) by simp
  then have "rxmsg_generic X_sample 9 ?s = Some (Inl F_free)" by (rule end_sess_uses_freed) (use s' in simp_all)
  then show ?thesis using e s'(1) by auto
qed

text \<open>
  The acknowledgement of a fragment makes the library read outside a packet it keeps: the offset of the footer is counted in
  footers instead of bytes, so every packet with a header is left by far.
\<close>

lemma ack_frag_pkts_none: "Some p \<in> set ps \<Longrightarrow> frag_seqid (cp_data p) = None \<Longrightarrow> ack_frag_pkts q ps = None"
  by (induction q ps rule: ack_frag_pkts.induct) (auto split: option.split)

lemma ack_frag_msgs_none: "m \<in> set ms \<Longrightarrow> ack_frag_pkts q (cm_pkts m) = None \<Longrightarrow> ack_frag_msgs q ms = None"
  by (induction ms) (auto split: option.split)

theorem frag_ack_reads_outside:
  assumes "m \<in> set (cc_out_msg s)" "Some p \<in> set (cm_pkts m)" "length (cp_data p) > CLD_PKT_FTR_LEN" "x_dec_ack_frag X (cc_msg_buf s) = Some q"
  shows "rxmsg_ack_frag X s = Some (Inl F_overflow)"
proof -
  have "frag_seqid (cp_data p) = None" using assms(3) by (simp add: frag_seqid_def Let_def CLD_PKT_FTR_LEN_def SHA_DIGEST_LENGTH_def)
  then show ?thesis using assms(4) ack_frag_msgs_none [OF assms(1) ack_frag_pkts_none [OF assms(2)], of q]
    by (simp add: rxmsg_ack_frag_def rfault_def)
qed

end
