(* ===== verification/Cldc_Tcp.thy ===== *)
theory Cldc_Tcp
  imports Cldc_Safe
begin

text \<open>
  The client's TCP connection (\<^verbatim>\<open>lib/cldc-tcp.c\<close>): the framing of packets. What the server writes reaches the session packet
  by packet when it arrives in whole frames; a frame header that arrives in pieces does not.
\<close>

unbundle bit_operations_syntax

section \<open>Operations\<close>

text \<open>
  The static receive buffer of \<^verbatim>\<open>cldc_tcp_receive_pkt_data\<close> is part of the state. \<open>ct_in\<close> is what the peer has sent and
  \<^verbatim>\<open>read\<close> has not yet returned; a call of \<^verbatim>\<open>read\<close> or \<^verbatim>\<open>write\<close> fails with an errno, transfers a limited number of bytes, or, at the
  end of the script, as many as there are.
\<close>

record cldc_tcp =
  ct_addr :: bytes
  ct_ubbp :: bytes
  ct_ubbp_read :: nat
  ct_buf :: bytes
  ct_raw_size :: nat
  ct_raw_read :: nat
  ct_sess :: cldc
  ct_in :: bytes
  ct_reads :: "(int + nat) list"
  ct_out :: bytes
  ct_writes :: "(int + nat) list"

definition tcp_read :: "nat \<Rightarrow> cldc_tcp \<Rightarrow> (int + bytes) \<times> cldc_tcp" where
  "tcp_read n t =
     (case ct_reads t of
        [] \<Rightarrow> (Inr (take n (ct_in t)), t\<lparr>ct_in := drop n (ct_in t)\<rparr>)
      | Inl e # rs \<Rightarrow> (Inl e, t\<lparr>ct_reads := rs\<rparr>)
      | Inr k # rs \<Rightarrow> (Inr (take (min k n) (ct_in t)), t\<lparr>ct_reads := rs, ct_in := drop (min k n) (ct_in t)\<rparr>))"

definition put_at :: "bytes \<Rightarrow> nat \<Rightarrow> bytes \<Rightarrow> bytes" where
  "put_at buf k d = take k buf @ d @ drop (k + length d) buf"

text \<open>The frame header; \<open>Inl\<close> is an early return.\<close>

definition tcp_rx_header :: "cldc_tcp \<Rightarrow> (int + unit) \<times> cldc_tcp" where
  "tcp_rx_header t =
     (if ct_ubbp_read t < 8
      then
        (case tcp_read (8 - ct_ubbp_read t) t of
           (Inl e, t) \<Rightarrow> (Inl (if e \<noteq> EAGAIN then - e else 0), t)
         | (Inr d, t) \<Rightarrow>
             let t = t\<lparr>ct_ubbp := put_at (ct_ubbp t) (ct_ubbp_read t) d, ct_ubbp_read := ct_ubbp_read t + length d\<rparr> in
             if ct_ubbp_read t = 8
             then
               let op_size = of_le_bytes (drop 4 (ct_ubbp t)) :: u32 in
               if memcmp (take 4 (ct_ubbp t)) (ascii ''CLD1'') \<noteq> 0 then (Inl (- EIO), t)
               else if UBBP_OP op_size \<noteq> 2 then (Inl (- EIO), t)
               else
                 let t = t\<lparr>ct_raw_read := 0, ct_raw_size := UBBP_SIZE op_size\<rparr> in
                 if ct_raw_size t > CLD_RAW_MSG_SZ then (Inl (- EIO), t) else (Inr (), t)
             else (Inr (), t))
      else (Inr (), t))"

definition tcp_rx_body :: "xenv \<Rightarrow> (cldc_tcp, int) run" where
  "tcp_rx_body X t =
     (case tcp_read (ct_raw_size t - ct_raw_read t) t of
        (Inl e, t) \<Rightarrow> rret (if e \<noteq> EAGAIN then - e else 0) t
      | (Inr d, t) \<Rightarrow>
          if ct_raw_read t + length d > CLD_RAW_MSG_SZ then rfault F_overflow t
          else
            let t = t\<lparr>ct_buf := put_at (ct_buf t) (ct_raw_read t) d, ct_raw_read := ct_raw_read t + length d\<rparr> in
            if ct_raw_read t < ct_raw_size t then rret 0 t
            else
              let t = t\<lparr>ct_ubbp_read := 0\<rparr> in
              case cldc_receive_pkt X (ct_addr t) (take (ct_raw_size t) (ct_buf t)) (ct_sess t) of
                None \<Rightarrow> None
              | Some (Inl f) \<Rightarrow> rfault f t
              | Some (Inr (crc, s)) \<Rightarrow> rret crc (t\<lparr>ct_sess := s\<rparr>))"

definition cldc_tcp_receive_pkt_data :: "xenv \<Rightarrow> (cldc_tcp, int) run" where
  "cldc_tcp_receive_pkt_data X t =
     (case tcp_rx_header t of
        (Inl rc, t) \<Rightarrow> rret rc t
      | (Inr _, t) \<Rightarrow> if ct_raw_size t = 0 then rret 0 t else tcp_rx_body X t)"

definition tcp_write :: "bytes \<Rightarrow> cldc_tcp \<Rightarrow> (int + nat) \<times> cldc_tcp" where
  "tcp_write d t =
     (case ct_writes t of
        [] \<Rightarrow> (Inr (length d), t\<lparr>ct_out := ct_out t @ d\<rparr>)
      | Inl e # ws \<Rightarrow> (Inl e, t\<lparr>ct_writes := ws\<rparr>)
      | Inr k # ws \<Rightarrow> (Inr (min k (length d)), t\<lparr>ct_writes := ws, ct_out := ct_out t @ take k d\<rparr>))"

text \<open>A short \<^verbatim>\<open>write\<close> is not noticed.\<close>

definition cldc_tcp_pkt_send :: "bytes \<Rightarrow> cldc_tcp \<Rightarrow> int \<times> cldc_tcp" where
  "cldc_tcp_pkt_send buf t =
     (case tcp_write (ubbp_header (ascii ''CLD1'') (length buf) 1) t of
        (Inl e, t) \<Rightarrow> (- e, t)
      | (Inr _, t) \<Rightarrow> (case tcp_write buf t of (Inl e, t) \<Rightarrow> (- e, t) | (Inr _, t) \<Rightarrow> (0, t)))"

section \<open>Whole frames\<close>

lemma ubbp_parts:
  assumes "n \<le> CLD_RAW_MSG_SZ"
  shows "UBBP_OP (push_bit 8 (word_of_nat n) OR 2) = 2" "UBBP_SIZE (push_bit 8 (word_of_nat n) OR 2) = n"
proof -
  let ?w = "push_bit 8 (word_of_nat n) OR 2 :: u32"
  have n: "n < 2 ^ 24" using assms by (simp add: CLD_RAW_MSG_SZ_def)
  have "(0xff :: u32) = mask 8" by (simp add: mask_eq_exp_minus_1)
  then have "?w AND 0xff = take_bit 8 ?w" by (simp only: take_bit_eq_mask)
  then show "UBBP_OP ?w = 2" by (simp add: UBBP_OP_def take_bit_push_bit)
  have "unat (drop_bit 8 ?w) = unat (drop_bit 8 (push_bit 8 (word_of_nat n :: u32)))" by (simp add: drop_bit_or)
  also have "\<dots> = n"
  proof -
    have "push_bit 8 n < 2 ^ 32" using n by (simp add: push_bit_nat_def)
    moreover have "drop_bit 8 (push_bit 8 n) = n" by (simp add: drop_bit_nat_def push_bit_nat_def)
    ultimately show ?thesis using n by (simp add: unsigned_drop_bit_eq unsigned_push_bit_eq unsigned_of_nat take_bit_nat_eq_self)
  qed
  finally show "UBBP_SIZE ?w = n" by (simp add: UBBP_SIZE_def)
qed

definition frame :: "bytes \<Rightarrow> bytes" where
  "frame p = ubbp_header (ascii ''CLD1'') (length p) 2 @ p"

text \<open>A connection between frames on which nothing fails.\<close>

definition idle :: "cldc_tcp \<Rightarrow> bool" where
  "idle t \<longleftrightarrow> ct_reads t = [] \<and> ct_ubbp_read t = 0 \<and> length (ct_ubbp t) = 8 \<and> length (ct_buf t) = CLD_RAW_MSG_SZ"

lemma rx_header_frame:
  assumes "idle t" "ct_in t = frame p @ rest" "length p \<le> CLD_RAW_MSG_SZ"
  shows "tcp_rx_header t = (Inr (), t\<lparr>ct_in := p @ rest, ct_ubbp := ubbp_header (ascii ''CLD1'') (length p) 2, ct_ubbp_read := 8, ct_raw_read := 0, ct_raw_size := length p\<rparr>)"
proof -
  let ?h = "ubbp_header (ascii ''CLD1'') (length p) 2"
  have a: "length (ascii ''CLD1'') = 4" by (simp add: ascii_def)
  have h: "length ?h = 8" "take 4 ?h = ascii ''CLD1''" "(of_le_bytes (drop 4 ?h) :: u32) = push_bit 8 (word_of_nat (length p)) OR 2"
    using a by (simp_all add: ubbp_header_def)
  have "tcp_read 8 t = (Inr ?h, t\<lparr>ct_in := p @ rest\<rparr>)" using assms(1,2) h(1) by (simp add: tcp_read_def idle_def frame_def)
  moreover have "put_at (ct_ubbp t) 0 ?h = ?h" using assms(1) h(1) by (simp add: put_at_def idle_def)
  ultimately show ?thesis using assms(1,3) h ubbp_parts [OF assms(3)] by (simp add: tcp_rx_header_def idle_def Let_def)
qed

lemma receive_frame:
  assumes "idle t" "ct_in t = frame p @ rest" "p \<noteq> []" "length p \<le> CLD_RAW_MSG_SZ"
    and recv: "cldc_receive_pkt X (ct_addr t) p (ct_sess t) = Some (Inr (rc, s))"
  shows "\<exists>t'. cldc_tcp_receive_pkt_data X t = Some (Inr (rc, t')) \<and> idle t' \<and> ct_in t' = rest \<and> ct_addr t' = ct_addr t \<and> ct_sess t' = s"
proof -
  define t1 where "t1 = t\<lparr>ct_in := p @ rest, ct_ubbp := ubbp_header (ascii ''CLD1'') (length p) 2, ct_ubbp_read := 8, ct_raw_read := 0, ct_raw_size := length p\<rparr>"
  have t1: "ct_raw_size t1 = length p" "ct_raw_read t1 = 0" "ct_reads t1 = []" "ct_in t1 = p @ rest" "length (ct_buf t1) = CLD_RAW_MSG_SZ" "ct_sess t1 = ct_sess t" "ct_addr t1 = ct_addr t"
    "length (ct_ubbp t1) = 8"
    using assms(1) by (simp_all add: t1_def idle_def ubbp_header_def ascii_def)
  have "take (length p) (put_at (ct_buf t1) 0 p) = p" by (simp add: put_at_def)
  then have "tcp_rx_body X t1 = Some (Inr (rc, t1\<lparr>ct_in := rest, ct_buf := put_at (ct_buf t1) 0 p, ct_raw_read := length p, ct_ubbp_read := 0, ct_sess := s\<rparr>))"
    using t1 recv assms(4) by (simp add: tcp_rx_body_def tcp_read_def Let_def rret_def)
  moreover have "tcp_rx_header t = (Inr (), t1)" using rx_header_frame [OF assms(1,2,4)] by (simp add: t1_def)
  ultimately show ?thesis using t1 assms(3,4) by (simp add: cldc_tcp_receive_pkt_data_def idle_def put_at_def)
qed

primrec tcp_rounds :: "xenv \<Rightarrow> nat \<Rightarrow> (cldc_tcp, unit) run" where
  "tcp_rounds X 0 = rret ()"
| "tcp_rounds X (Suc n) = rbind (cldc_tcp_receive_pkt_data X) (\<lambda>_. tcp_rounds X n)"

text \<open>
  C22: packets the server has framed and that arrive in whole reach the session one by one, unchanged and in order: after
  as many calls as there are packets the session is as if it had been given them directly, and the connection is
  at the start of the next frame.
\<close>

theorem frames_delivered:
  assumes "idle t" "ct_in t = concat (map frame ps) @ rest" "list_all (\<lambda>p. p \<noteq> [] \<and> length p \<le> CLD_RAW_MSG_SZ) ps"
    and "rx_seq X (ct_addr t) ps (ct_sess t) = Some (Inr (rc, s))" "rc \<ge> 0"
  shows "\<exists>t'. tcp_rounds X (length ps) t = Some (Inr ((), t')) \<and> ct_sess t' = s \<and> ct_in t' = rest \<and> idle t'"
  using assms
proof (induction ps arbitrary: t)
  case Nil
  then show ?case by (simp add: rret_def)
next
  case (Cons p ps)
  obtain rc1 s1 where r: "cldc_receive_pkt X (ct_addr t) p (ct_sess t) = Some (Inr (rc1, s1))" "\<not> rc1 < 0" "rx_seq X (ct_addr t) ps s1 = Some (Inr (rc, s))"
    using Cons.prems(4,5) by (auto simp: rret_def elim!: rbindE split: if_splits)
  obtain t1 where t1: "cldc_tcp_receive_pkt_data X t = Some (Inr (rc1, t1))" "idle t1" "ct_in t1 = concat (map frame ps) @ rest" "ct_addr t1 = ct_addr t" "ct_sess t1 = s1"
    using receive_frame [OF Cons.prems(1) _ _ _ r(1), of "concat (map frame ps) @ rest"] Cons.prems(2,3) by auto
  have "\<exists>t'. tcp_rounds X (length ps) t1 = Some (Inr ((), t')) \<and> ct_sess t' = s \<and> ct_in t' = rest \<and> idle t'"
    using Cons.IH [OF t1(2,3)] Cons.prems(3,5) r(3) t1(4,5) by simp
  then show ?case using t1(1) by (auto simp: rbind_def)
qed

definition tcp_sample :: "bytes \<Rightarrow> cldc_tcp" where
  "tcp_sample d = \<lparr>ct_addr = [9], ct_ubbp = replicate 8 0, ct_ubbp_read = 0, ct_buf = replicate 4096 0, ct_raw_size = 0, ct_raw_read = 0, ct_sess = cldc_sample,
     ct_in = d, ct_reads = [], ct_out = [], ct_writes = []\<rparr>"

definition pkt_sample :: bytes where
  "pkt_sample = seal HMAC_sample [117] (frag_hdr (ref_env False) sample_sess 5 CMO_PUT True False) 9 [1, 2]"

lemma pkt_sample_received: "\<exists>s. cldc_receive_pkt X_sample [9] pkt_sample cldc_sample = Some (Inr (0, s))"
proof -
  have w: "awaits [9] sample_sess 4 (msg_sample 4) cldc_sample" by (simp add: awaits_def cldc_sample_def sample_sess_def msg_sample_def CLD_SID_SZ_def)
  have "cldc_receive_pkt X_sample [9] (seal (e_hmac (ref_env False)) (ss_user sample_sess) (frag_hdr (ref_env False) sample_sess 5 CMO_PUT True False) 9 [1, 2]) cldc_sample =
      ack_seqid X_sample 9 (taken True CMO_PUT [1, 2] cldc_sample)"
    using recv_sealed [OF agree_sample w, of 9 CMO_PUT True "[1, 2]" 5 False] by (simp add: cldc_sample_def plain_op_def cfg_simps)
  then show ?thesis using ack_sends [OF agree_sample awaits_taken [OF w], of 9 True CMO_PUT "[1, 2]"] by (simp add: pkt_sample_def sample_sess_def)
qed

lemma pkt_sample_size: "pkt_sample \<noteq> []" "length pkt_sample \<le> CLD_RAW_MSG_SZ"
  by (simp_all add: pkt_sample_def seal_def Let_def frag_hdr_def ref_hdr_def pkt_header_def sample_sess_def CLD_PKT_MAGIC_def ascii_def cfg_simps)

theorem frames_delivered_witness:
  "\<exists>s t'. cldc_receive_pkt X_sample [9] pkt_sample cldc_sample = Some (Inr (0, s)) \<and>
     tcp_rounds X_sample 1 (tcp_sample (frame pkt_sample @ [67])) = Some (Inr ((), t')) \<and> ct_sess t' = s \<and> ct_in t' = [67]"
proof -
  obtain s where s: "cldc_receive_pkt X_sample [9] pkt_sample cldc_sample = Some (Inr (0, s))" using pkt_sample_received by blast
  then have "rx_seq X_sample [9] [pkt_sample] cldc_sample = Some (Inr (0, s))" by (simp add: rbind_def rret_def)
  then show ?thesis using s pkt_sample_size frames_delivered [of "tcp_sample (frame pkt_sample @ [67])" "[pkt_sample]" "[67]" X_sample 0 s]
    by (auto simp: tcp_sample_def idle_def CLD_RAW_MSG_SZ_def)
qed

text \<open>
  C40: when a frame header arrives in pieces after a first packet has been received, the library hands the old packet to the
  session a second time and forgets the part of the header it has read, after which the rest of the stream is
  misread.
\<close>

theorem split_header_replays:
  assumes "ct_ubbp_read t = 0" "ct_reads t = [Inr k]" "0 < k" "k < 8" "k \<le> length (ct_in t)"
    and "ct_raw_size t > 0" "ct_raw_read t = ct_raw_size t" "ct_raw_size t \<le> CLD_RAW_MSG_SZ"
    and "cldc_receive_pkt X (ct_addr t) (take (ct_raw_size t) (ct_buf t)) (ct_sess t) = Some (Inr (rc, s))"
  shows "\<exists>t'. cldc_tcp_receive_pkt_data X t = Some (Inr (rc, t')) \<and> ct_sess t' = s \<and> ct_ubbp_read t' = 0 \<and> ct_in t' = drop k (ct_in t)"
proof -
  have n: "min k 8 = k" "length (take k (ct_in t)) = k" using assms(4,5) by simp_all
  have h: "tcp_rx_header t = (Inr (), t\<lparr>ct_reads := [], ct_in := drop k (ct_in t), ct_ubbp := put_at (ct_ubbp t) 0 (take k (ct_in t)), ct_ubbp_read := k\<rparr>)"
    using assms(1-5) n by (simp add: tcp_rx_header_def tcp_read_def Let_def)
  have "put_at (ct_buf t) (ct_raw_size t) [] = ct_buf t" by (simp add: put_at_def)
  then show ?thesis using assms(6-9) h by (simp add: cldc_tcp_receive_pkt_data_def tcp_rx_body_def tcp_read_def Let_def rret_def)
qed

theorem split_header_replays_witness:
  "\<exists>s t'. cldc_receive_pkt X_sample [9] pkt_sample cldc_sample = Some (Inr (0, s)) \<and>
     cldc_tcp_receive_pkt_data X_sample ((tcp_sample [67, 76, 68])\<lparr>ct_reads := [Inr 3], ct_buf := pkt_sample, ct_raw_size := length pkt_sample, ct_raw_read := length pkt_sample\<rparr>) =
       Some (Inr (0, t')) \<and> ct_sess t' = s \<and> ct_ubbp_read t' = 0 \<and> ct_in t' = []"
proof -
  let ?t = "(tcp_sample [67, 76, 68])\<lparr>ct_reads := [Inr 3], ct_buf := pkt_sample, ct_raw_size := length pkt_sample, ct_raw_read := length pkt_sample\<rparr>"
  obtain s where s: "cldc_receive_pkt X_sample [9] pkt_sample cldc_sample = Some (Inr (0, s))" using pkt_sample_received by blast
  then have "cldc_receive_pkt X_sample (ct_addr ?t) (take (ct_raw_size ?t) (ct_buf ?t)) (ct_sess ?t) = Some (Inr (0, s))" by (simp add: tcp_sample_def)
  then show ?thesis using s pkt_sample_size split_header_replays [of ?t 3 X_sample 0 s] by (auto simp: tcp_sample_def)
qed

end
