(* ===== verification/Cldc_Dir.thy ===== *)
theory Cldc_Dir
  imports Cldc
begin

text \<open>
  Directories at the client (\<^verbatim>\<open>cldc_dirent_*\<close> of \<^verbatim>\<open>lib/cldc.c\<close>): counting the entries and stepping through them. The
  data are those the server keeps (theory \<open>Dirdata\<close>).
\<close>

section \<open>Operations\<close>

text \<open>The pointer of a cursor is the memory from there to the end of the caller's buffer.\<close>

record cld_dirent_cur =
  dc_p :: bytes
  dc_tmp_len :: nat

text \<open>The loop of \<^verbatim>\<open>cldc_dirent_count\<close>; \<open>- 2\<close> is a malformed directory.\<close>

function count_loop :: "bytes \<Rightarrow> nat \<Rightarrow> int \<Rightarrow> int" where
  "count_loop p tmp_len count =
     (if tmp_len = 0 then count
      else if tmp_len < 2 then - 2
      else
        let str_len = unat (of_le_bytes (take 2 p) :: u16);
            rec_len = str_len + 2;
            pad = CLD_ALIGN8 rec_len;
            total_len = rec_len + pad
        in if total_len > tmp_len then - 2 else count_loop (drop total_len p) (tmp_len - total_len) (count + 1))"
  by pat_completeness auto
termination
  by (relation "measure (\<lambda>(p, tmp_len, count). tmp_len)") (auto simp: Let_def)

declare count_loop.simps [simp del]

definition cldc_dirent_count :: "bytes \<Rightarrow> int" where
  "cldc_dirent_count data = count_loop data (length data) 0"

text \<open>\<open>None\<close> is \<open>- 1\<close>; otherwise the length of the record and of the name.\<close>

definition dirent_length :: "bytes \<Rightarrow> nat \<Rightarrow> (nat \<times> nat) option" where
  "dirent_length buf buflen =
     (if buflen < 2 then None
      else
        let str_len = unat (of_le_bytes (take 2 buf) :: u16);
            rec_len = str_len + 2;
            pad = CLD_ALIGN8 rec_len;
            total_len = rec_len + pad
        in if total_len > buflen then None else Some (total_len, str_len))"

definition cldc_dirent_first :: "cld_dirent_cur \<Rightarrow> int" where
  "cldc_dirent_first dc = (if dirent_length (dc_p dc) (dc_tmp_len dc) = None then - 2 else 0)"

definition cldc_dirent_next :: "cld_dirent_cur \<Rightarrow> int \<times> cld_dirent_cur" where
  "cldc_dirent_next dc =
     (case dirent_length (dc_p dc) (dc_tmp_len dc) of
        None \<Rightarrow> (- 2, dc)
      | Some (dirent_len, _) \<Rightarrow>
          let dc = \<lparr>dc_p = drop dirent_len (dc_p dc), dc_tmp_len = dc_tmp_len dc - dirent_len\<rparr> in
          if dirent_length (dc_p dc) (dc_tmp_len dc) = None then (- 2, dc) else (0, dc))"

definition cldc_dirent_cur_init :: "bytes \<Rightarrow> cld_dirent_cur" where
  "cldc_dirent_cur_init buf = \<lparr>dc_p = buf, dc_tmp_len = length buf\<rparr>"

text \<open>The name at the cursor; the remaining length is not looked at. \<open>Inr None\<close> is a failed \<^verbatim>\<open>malloc\<close>.\<close>

definition cldc_dirent_name :: "bool \<Rightarrow> cld_dirent_cur \<Rightarrow> fault + bytes option" where
  "cldc_dirent_name mem_ok dc =
     (if length (dc_p dc) < 2 then Inl F_overflow
      else
        let str_len = unat (of_le_bytes (take 2 (dc_p dc)) :: u16) in
        if \<not> mem_ok then Inr None
        else if length (dc_p dc) < 2 + str_len then Inl F_overflow
        else Inr (Some (take str_len (drop 2 (dc_p dc)))))"

text \<open>The loop with which \<^verbatim>\<open>cldcli\<close> prints a directory: \<open>n_records\<close> names, the first record or the next.\<close>

fun ls_loop :: "nat \<Rightarrow> bool \<Rightarrow> cld_dirent_cur \<Rightarrow> (fault + bytes option) list" where
  "ls_loop 0 first dc = []"
| "ls_loop (Suc n_records) first dc =
     (case (if first then (cldc_dirent_first dc, dc) else cldc_dirent_next dc) of
        (rc, dc) \<Rightarrow> if rc < 0 then [] else cldc_dirent_name True dc # ls_loop n_records False dc)"

definition cmd_ls :: "bytes \<Rightarrow> (fault + bytes option) list option" where
  "cmd_ls data =
     (let rc = cldc_dirent_count data in
      if rc < 0 then None else Some (ls_loop (nat rc) True (cldc_dirent_cur_init data)))"

section \<open>Properties\<close>

lemma dirent_length_ent:
  assumes "dir_name n" "buflen \<ge> length (dir_ent n)"
  shows "dirent_length (dir_ent n @ rest) buflen = Some (length (dir_ent n), length n)"
proof -
  have "unat (word_of_nat (length n) :: u16) = length n" using assms(1) by (simp add: unat_of_nat dir_name_def)
  then show ?thesis using assms(2) by (simp add: dirent_length_def length_dir_ent Let_def) (simp add: dir_ent_def)
qed

lemma count_enc: "list_all dir_name names \<Longrightarrow> count_loop (dir_enc names) (length (dir_enc names)) k = k + int (length names)"
proof (induction names arbitrary: k)
  case Nil
  then show ?case by (subst count_loop.simps) (simp add: dir_enc_def)
next
  case (Cons n names)
  have "unat (word_of_nat (length n) :: u16) = length n" using Cons.prems by (simp add: unat_of_nat dir_name_def)
  moreover have "length (dir_ent n) \<ge> 2" by (simp add: length_dir_ent)
  moreover have "take 2 (dir_ent n @ dir_enc names) = le_bytes 2 (word_of_nat (length n) :: u16)" by (simp add: dir_ent_def)
  moreover have "dir_enc (n # names) = dir_ent n @ dir_enc names" by (simp add: dir_enc_def)
  moreover have "Suc (Suc (length n + CLD_ALIGN8 (Suc (Suc (length n))))) = length (dir_ent n)" by (simp add: length_dir_ent)
  moreover have "dir_ent n \<noteq> []" using length_dir_ent [of n] by auto
  ultimately show ?case using Cons by (subst count_loop.simps) (simp add: Let_def)
qed

lemma name_enc: "dir_name n \<Longrightarrow> cldc_dirent_name True \<lparr>dc_p = dir_ent n @ rest, dc_tmp_len = k\<rparr> = Inr (Some n)"
  by (simp add: cldc_dirent_name_def dir_ent_def dir_name_def unat_of_nat Let_def)

lemma next_enc:
  assumes "list_all dir_name (n # m # names)"
  shows "cldc_dirent_next \<lparr>dc_p = dir_enc (n # m # names), dc_tmp_len = length (dir_enc (n # m # names))\<rparr> =
    (0, \<lparr>dc_p = dir_enc (m # names), dc_tmp_len = length (dir_enc (m # names))\<rparr>)"
proof -
  let ?r = "dir_enc (m # names)"
  have e: "dir_enc (n # m # names) = dir_ent n @ ?r" "?r = dir_ent m @ dir_enc names" by (simp_all add: dir_enc_def)
  have "dirent_length ?r (length ?r) \<noteq> None" unfolding e(2) using assms dirent_length_ent [of m "length (dir_ent m @ dir_enc names)" "dir_enc names"] by simp
  then show ?thesis unfolding e(1) using assms dirent_length_ent [of n "length (dir_ent n @ ?r)" ?r] by (auto simp: cldc_dirent_next_def)
qed

lemma ls_enc:
  assumes "list_all dir_name (n # names)"
  shows "ls_loop (length names) False \<lparr>dc_p = dir_enc (n # names), dc_tmp_len = length (dir_enc (n # names))\<rparr> = map (\<lambda>n. Inr (Some n)) names"
  using assms
proof (induction names arbitrary: n)
  case (Cons m names)
  have e: "dir_enc (m # names) = dir_ent m @ dir_enc names" by (simp add: dir_enc_def)
  have "cldc_dirent_name True \<lparr>dc_p = dir_enc (m # names), dc_tmp_len = k\<rparr> = Inr (Some m)" for k unfolding e using Cons.prems by (intro name_enc) simp
  then show ?case using Cons next_enc [OF Cons.prems] by simp
qed simp

text \<open>
  A client that lists a directory gets the names the server has put into it, all of them, once and in order, and their
  number.
\<close>

theorem dirents_listed:
  assumes "list_all dir_name names"
  shows "cldc_dirent_count (dir_enc names) = int (length names) \<and> cmd_ls (dir_enc names) = Some (map (\<lambda>n. Inr (Some n)) names)"
proof -
  have c: "cldc_dirent_count (dir_enc names) = int (length names)" using count_enc [OF assms, of 0] by (simp add: cldc_dirent_count_def)
  have "ls_loop (length names) True (cldc_dirent_cur_init (dir_enc names)) = map (\<lambda>n. Inr (Some n)) names"
  proof (cases names)
    case (Cons n ns)
    have e: "dir_enc (n # ns) = dir_ent n @ dir_enc ns" by (simp add: dir_enc_def)
    have n: "dir_name n" using assms Cons by simp
    have "dirent_length (dir_enc (n # ns)) (length (dir_enc (n # ns))) = Some (length (dir_ent n), length n)" unfolding e using n by (intro dirent_length_ent) simp_all
    then have "cldc_dirent_first (cldc_dirent_cur_init (dir_enc (n # ns))) = 0" by (simp add: cldc_dirent_first_def cldc_dirent_cur_init_def)
    moreover have "cldc_dirent_name True (cldc_dirent_cur_init (dir_enc (n # ns))) = Inr (Some n)" unfolding cldc_dirent_cur_init_def e using n by (rule name_enc)
    ultimately show ?thesis using ls_enc [of n ns] assms Cons by (simp add: cldc_dirent_cur_init_def)
  qed simp
  then show ?thesis using c by (simp add: cmd_ls_def Let_def)
qed

theorem dirents_listed_witness: "cmd_ls (dir_enc [[97], [98, 99]]) = Some [Inr (Some [97]), Inr (Some [98, 99])]"
  using dirents_listed [of "[[97], [98, 99]]"] by (simp add: dir_name_def)

end
