(* ===== verification/Spec2Isabelle.thy ===== *)
theory Spec2Isabelle
  imports Htab Timer Uri Atcp Cld_System Chunk_Session Chunk_Part Chunk_Buffers Chunk_Check Chunk_End Cldc_Tcp Cldc_Dir
begin

text \<open>
  Project Hail: a verification library of its two daemons and the libraries below them.

  \<^bold>\<open>The program.\<close> Hail is a small cloud-storage suite in C. \<^verbatim>\<open>cld\<close> is a lock and coordination server: clients
  hold sessions over TCP, exchange signed packets, and open, read, write, lock and delete small files
  (inodes) kept in Berkeley DB. \<^verbatim>\<open>chunkd\<close> stores objects for logged-in users in tables, one file per object
  with a header and block checksums, behind a binary request protocol over TCP or SSL. Both rest on a few
  libraries under \<^verbatim>\<open>lib/\<close>: a hash table (session table), a timer list, packet signatures, an asynchronous
  write queue, URI handling, the chunk request signature. The model follows the C functions one to one;
  file and function names below are relative to \<^verbatim>\<open>src/\<close>.

  \<^bold>\<open>How C is modelled.\<close> Structs are records, enums and callbacks datatypes, machine integers words of their
  width, byte strings lists of \<open>u8\<close>. Stateful functions pass the state explicitly: as error monads on the
  server state in \<^verbatim>\<open>cld\<close> (\<open>Cld_State\<close>), as the \<open>run\<close> monad (\<open>Run_Monad\<close>) in \<^verbatim>\<open>chunkd\<close> and the client libraries, where \<open>None\<close> is a call
  that does not return and \<open>Inl\<close> a fault the process would not survive (null pointer, buffer overflow, double
  free, abort, a list operation on an empty list). The outcome of every system call, allocation and socket
  operation is taken from a script in the state: an errno or a limit on the bytes transferred, and success
  in full once the script is used up. A theorem that holds for all scripts holds for all behaviours of the
  environment; a theorem on a \<open>quiet\<close> system assumes empty scripts, that is, that nothing fails. Code outside
  the repository is a parameter: Berkeley DB (\<open>'d bdb\<close>, laws in the locales \<open>bdb\<close> and \<open>bdb_reliable\<close>), Tokyo
  Cabinet (\<open>'d tcdb\<close>, locale \<open>tc\<close>), the XDR code the build generates from \<^verbatim>\<open>lib/cld_msg_rpc.x\<close>, HMAC and SHA,
  directory reading, markup escaping and time formatting. Each locale is interpreted on an executable
  instance, so the assumptions are consistent.

  \<^bold>\<open>Shared.\<close> \<open>Prelude\<close>: integer types, little-endian codecs, flags, scripted \<^verbatim>\<open>malloc\<close>, list lemmas, the
  collections \<open>cfg_simps\<close>, \<open>frame_simps\<close>, \<open>inv_intros\<close>.

  \<^bold>\<open>Libraries.\<close>
  \<^item> \<open>Htab\<close> (\<^verbatim>\<open>lib/htab.c\<close>): insertion, deletion, growth refine a finite map (locale \<open>keyed_store\<close>), except that
    an insertion that grows the table files the entry on the wrong chain, which is proved (\<open>htab_put_grow\<close>).
  \<^item> \<open>Timer\<close> (\<^verbatim>\<open>lib/libtimer.c\<close>): \<^verbatim>\<open>cld_timers_run\<close> fires exactly the expired timers in order and terminates;
    GLib's sorted insertion is the locale \<open>insert_sorted\<close>.
  \<^item> \<open>Uri\<close> (\<^verbatim>\<open>lib/huri.c\<close>): the parser recovers the parts of a composed URI, percent codec round trip, the
    in-place decoder equals a reference decoder.
  \<^item> \<open>Atcp\<close> (\<^verbatim>\<open>lib/atcp.c\<close>): the write queue loses, duplicates and reorders nothing.
  \<^item> \<open>Cld_Common\<close> (\<^verbatim>\<open>lib/common.c\<close>, \<^verbatim>\<open>lib/pkt.c\<close>): constants, packet signature and its check.

  \<^bold>\<open>The lock server.\<close>
  \<^item> \<open>Bdb\<close>, \<open>Cldb\<close> (\<^verbatim>\<open>cld/cldb.c\<close>): the database interface with transactions and cursors; one definition per
    access function; compatibility of locks.
  \<^item> \<open>Cld_State\<close> (\<^verbatim>\<open>cld/cld.h\<close>): server state, sessions on a heap, the session table, time and network.
  \<^item> \<open>Cld_Send\<close> (\<^verbatim>\<open>cld/session.c\<close>, \<^verbatim>\<open>tcp_tx\<close>): messages cut into signed packets, sent in order, kept until
    acknowledged, retransmitted.
  \<^item> \<open>Dirdata\<close>, \<open>Cld_Inode\<close>, \<open>Cld_Msg\<close> (\<^verbatim>\<open>cld/msg.c\<close>): packed directories refine lists of names; notification
    and lock rescan; all request handlers, each in one transaction with exactly one reply.
  \<^item> \<open>Cld_Session\<close> (\<^verbatim>\<open>cld/session.c\<close>): creation, restart, time-out and disposal of sessions.
  \<^item> \<open>Cld_Server\<close> (\<^verbatim>\<open>cld/server.c\<close>): framing, admission of packets, reassembly, dispatch.
  \<^item> \<open>Cld_Spec\<close>: the contract of the handlers as functions of the committed content, and the proof that on a
    working database the handlers compute exactly that.
  \<^item> \<open>Cld_System\<close>: the server as a transition system; in every state it reaches, under any packets, timers,
    database faults and allocation failures, locks are compatible and the stored data well formed.

  \<^bold>\<open>The chunk daemon.\<close>
  \<^item> \<open>Chunk_Sys\<close>, \<open>Chunk_Fs\<close> (\<^verbatim>\<open>chunkd/be-fs.c\<close>): the file system and the object files; \<open>Chunk_Store\<close>: a commit that
    reports success has left exactly the object, reads covered by checksums return what was written or
    fail, only the owner opens and deletes, writing terminates.
  \<^item> \<open>Chunk_Table\<close> (\<^verbatim>\<open>fs_table_open\<close>), \<open>Chunk_List\<close> (\<^verbatim>\<open>fs_list_objs\<close>): table names and numbers stay one to one; a
    listing is exact. \<open>Objcache\<close> (\<^verbatim>\<open>chunkd/objcache.c\<close>): reference counting under every interleaving.
  \<^item> \<open>Chunk_Proto\<close> (\<^verbatim>\<open>include/chunk_msg.h\<close>, \<^verbatim>\<open>lib/chunksrv.c\<close>): requests and responses as bytes, the signature.
  \<^item> \<open>Chunk_Conn\<close>, \<open>Chunk_Req\<close> (\<^verbatim>\<open>chunkd/server.c\<close>, \<^verbatim>\<open>chunkd/object.c\<close>): the connection, its write queue and
    callbacks, every request, the state machine and its events.
  \<^item> \<open>Chunk_Frame\<close>: requests are read as they were sent, in whatever pieces they arrive. \<open>Chunk_Reply\<close>: what
    answering leaves alone (locales \<open>replying\<close>, \<open>starting\<close>, \<open>reading\<close>). \<open>Chunk_Auth\<close>: nothing stored changes
    before a correctly signed login. \<open>Chunk_Serve\<close>: responses and objects reach the peer in order and
    without gaps; requests that read change nothing; a bad signature ends the connection. \<open>Chunk_Part\<close>: a
    partial read returns exactly the part. \<open>Chunk_Upload\<close>, \<open>Chunk_Session\<close>: storing, and storing and fetching,
    from the bytes of the requests to the bytes of the answers.
  \<^item> \<open>Chunk_Buffers\<close>: the buffers of a connection keep their sizes whatever arrives, short of a copy request,
    whose second key overflows one. \<open>Chunk_Check\<close> (\<^verbatim>\<open>chunkd/selfcheck.c\<close>): the self-check thread moves away
    exactly the objects whose data do not match their header, except that an object replaced during its check
    may go too; a scan of a healthy table returns and harms nothing.
  \<^item> \<open>Chunk_Client\<close> (\<^verbatim>\<open>lib/chunkdc.c\<close>): the calls of the client library. \<open>Chunk_Call\<close>: what they send and return
    for every behaviour of socket and peer. \<open>Chunk_End\<close>: connected to the daemon, the library gets back exactly what
    it has stored.

  \<^bold>\<open>The client of the lock server.\<close>
  \<^item> \<open>Cldc\<close> (\<^verbatim>\<open>lib/cldc.c\<close>): a session, its messages and packets, reception, retransmission and the calls.
    \<open>Cldc_Dir\<close>: the directory cursor lists what the server has stored. \<open>Cldc_Tcp\<close> (\<^verbatim>\<open>lib/cldc-tcp.c\<close>): framing; whole frames reach the session,
    a header that arrives in pieces replays the previous packet.
  \<^item> \<open>Cldc_Once\<close>: sessions as a transition system; a call completes at most once. \<open>Cldc_Safe\<close>: reachable sessions are well formed, packets
    that are not authentic change nothing; a use of freed memory and a read outside a packet.
  \<^item> \<open>Cldc_Call\<close>: the packets of a call reach the server's handler as the request. \<open>Cldc_Answer\<close>: the packets of the server's answer
    complete the call.


  \<^bold>\<open>Bounds.\<close> Object sizes are below \<open>2 ^ 43\<close>, so that block numbers and the checksum table fit the 32-bit fields
  of the file header; buffers queued with \<open>Atcp\<close> are below \<open>2 ^ 31\<close>. Loops that may run for ever are
  \<open>partial_function (option)\<close>; where a theorem needs them to return, that they return is part of its
  conclusion. No fuel is used. Threads of \<^verbatim>\<open>chunkd\<close>: operations of the object cache interleave; a check of one object and the copy
  worker run as one step each; the rest of the daemon is single threaded.

  \<^bold>\<open>Not modelled.\<close> Start-up, option parsing, signals, opening sockets and the libevent loops of both daemons
  (calls into libc); \<^verbatim>\<open>chunkd/config.c\<close> (XML callbacks) and \<^verbatim>\<open>chunkd/cldu.c\<close> (registration through the client
  library); \<^verbatim>\<open>lib/cldc-dns.c\<close> (resolver calls) and the blocking calls \<^verbatim>\<open>ncld_*\<close> of \<^verbatim>\<open>lib/cldc.c\<close> (threads and condition variables around its calls); the S3 client \<^verbatim>\<open>lib/hstor.c\<close> (libcurl and libxml2); \<^verbatim>\<open>lib/xdr_sizeof.c\<close> (third party);
  \<^verbatim>\<open>cld/cldbadm.c\<close>, the tools and the tests. Log output is left out everywhere.
\<close>

end
